(* ===== verification/Prelude.thy ===== *)
theory Prelude
  imports Main "HOL-Library.Word"
begin

unbundle bit_operations_syntax

text \<open>
  Shared vocabulary of the development.

  C integers. A \<open>size_t\<close> (LP64) is a natural number below \<open>2 ^ 64\<close>; the two operations whose
  wrap-around the sources rely on, or must avoid, are \<open>sz_add\<close> and \<open>sz_sub\<close>, which reduce modulo
  \<open>2 ^ 64\<close> as C does. Values that the sources treat bitwise are machine words.

  C outcomes. A function that reports success or failure through its \<open>int\<close> result and writes
  through out-parameters on success is a function into \<open>outcome\<close>: \<open>Ret\<close> carries what was
  written, \<open>Fail\<close> is the return value 0, and \<open>Undef\<close> marks a memory access outside the object the
  pointer points into. Proving that an operation is never \<open>Undef\<close> is proving it memory safe.

  Byte strings. \<open>be_bytes\<close> and \<open>be_value\<close> are the network-order encoding of a number in a given
  number of bytes and its inverse.
\<close>

named_theorems wf_intros \<open>introduction rules for the well-formedness predicates\<close>
named_theorems op_simps \<open>functional equations of the operations under well-formedness\<close>

type_synonym byte = "8 word"
type_synonym uint = "32 word"
type_synonym ulong = "64 word"

section \<open>Sizes\<close>

abbreviation SIZE_MOD :: nat where
  "SIZE_MOD \<equiv> 2 ^ 64"

abbreviation SIZE_MAX :: nat where
  "SIZE_MAX \<equiv> 2 ^ 64 - 1"

definition sz_add :: "nat \<Rightarrow> nat \<Rightarrow> nat" where
  "sz_add a b = (a + b) mod SIZE_MOD"

definition sz_sub :: "nat \<Rightarrow> nat \<Rightarrow> nat" where
  "sz_sub a b = (a + (SIZE_MOD - b mod SIZE_MOD)) mod SIZE_MOD"

lemma sz_add_eq [simp]: "a + b < SIZE_MOD \<Longrightarrow> sz_add a b = a + b"
  by (simp add: sz_add_def)

lemma sz_sub_eq [simp]: "b \<le> a \<Longrightarrow> a < SIZE_MOD \<Longrightarrow> sz_sub a b = a - b"
proof -
  assume le: "b \<le> a" and lt: "a < SIZE_MOD"
  then have "a + (SIZE_MOD - b mod SIZE_MOD) = (a - b) + SIZE_MOD" by simp
  then show "sz_sub a b = a - b" using lt by (simp add: sz_sub_def)
qed

lemma sz_sub_wraps: "a < b \<Longrightarrow> b < SIZE_MOD \<Longrightarrow> sz_sub a b = SIZE_MOD - (b - a)"
  by (simp add: sz_sub_def)

section \<open>Outcomes\<close>

datatype 'a outcome = Ret 'a | Fail | Undef

fun obind :: "'a outcome \<Rightarrow> ('a \<Rightarrow> 'b outcome) \<Rightarrow> 'b outcome" where
  "obind (Ret x) f = f x"
| "obind Fail f = Fail"
| "obind Undef f = Undef"

lemma obind_assoc: "obind (obind m f) g = obind m (\<lambda>x. obind (f x) g)"
  by (cases m) simp_all

lemma obind_Ret_eq_Ret:
  "obind m f = Ret y \<longleftrightarrow> (\<exists>x. m = Ret x \<and> f x = Ret y)"
  by (cases m) simp_all

section \<open>Lists\<close>

text \<open>\<open>memcpy\<close> into the middle of an object: \<open>length ys\<close> bytes from position \<open>i\<close> on.\<close>

definition patch :: "'a list \<Rightarrow> nat \<Rightarrow> 'a list \<Rightarrow> 'a list" where
  "patch xs i ys = take i xs @ ys @ drop (i + length ys) xs"

lemma length_patch [simp]: "i + length ys \<le> length xs \<Longrightarrow> length (patch xs i ys) = length xs"
  by (simp add: patch_def)

lemma take_patch_before [simp]: "n \<le> i \<Longrightarrow> i \<le> length xs \<Longrightarrow> take n (patch xs i ys) = take n xs"
  by (simp add: patch_def min_def)

lemma take_patch_end:
  "i + length ys \<le> length xs \<Longrightarrow> take (i + length ys) (patch xs i ys) = take i xs @ ys"
  by (simp add: patch_def)

lemma drop_patch_after:
  "i + length ys \<le> n \<Longrightarrow> i + length ys \<le> length xs \<Longrightarrow> drop n (patch xs i ys) = drop n xs"
  by (simp add: patch_def)

lemma patch_Nil [simp]: "patch xs i [] = xs"
  by (simp add: patch_def)

lemma patch_append_mid:
  "length us = i \<Longrightarrow> length vs = length ys \<Longrightarrow> patch (us @ vs @ ws) i ys = us @ ys @ ws"
  by (simp add: patch_def)

lemma take_add_drop: "take (m + n) xs = take m xs @ take n (drop m xs)"
  by (rule take_add)

section \<open>Network byte order\<close>

fun be_bytes :: "nat \<Rightarrow> nat \<Rightarrow> byte list" where
  "be_bytes 0 v = []"
| "be_bytes (Suc n) v = be_bytes n (v div 256) @ [of_nat (v mod 256)]"

lemma be_bytes_numeral:
  "be_bytes (numeral k) v = be_bytes (pred_numeral k) (v div 256) @ [of_nat (v mod 256)]"
  by (simp only: numeral_eq_Suc be_bytes.simps)

definition be_value :: "byte list \<Rightarrow> nat" where
  "be_value bs = foldl (\<lambda>a b. a * 256 + unat b) 0 bs"

lemma length_be_bytes [simp]: "length (be_bytes n v) = n"
  by (induction n arbitrary: v) simp_all

lemma be_value_Nil [simp]: "be_value [] = 0"
  by (simp add: be_value_def)

lemma be_value_snoc [simp]: "be_value (bs @ [b]) = be_value bs * 256 + unat b"
  by (simp add: be_value_def)

lemma unat_of_nat_byte: "unat (of_nat k :: byte) = k mod 256"
  by (simp add: unat_of_nat)

lemma unat_byte_less: "unat (b :: byte) < 256"
  using unsigned_less [of b, where ?'a = nat] by simp

lemma be_value_be_bytes: "be_value (be_bytes n v) = v mod 256 ^ n"
proof (induction n arbitrary: v)
  case 0
  then show ?case by simp
next
  case (Suc n)
  have "be_value (be_bytes (Suc n) v) = (v div 256) mod 256 ^ n * 256 + v mod 256"
    using Suc.IH by (simp add: unat_of_nat_byte)
  also have "\<dots> = v mod (256 * 256 ^ n)"
    by (simp add: mod_mult2_eq)
  finally show ?case by simp
qed

lemma be_value_be_bytes_fits: "v < 256 ^ n \<Longrightarrow> be_value (be_bytes n v) = v"
  by (simp add: be_value_be_bytes)

lemma be_bytes_be_value: "be_bytes (length bs) (be_value bs) = bs"
proof (induction bs rule: rev_induct)
  case Nil
  then show ?case by simp
next
  case (snoc b bs)
  show ?case using snoc unat_byte_less [of b] by (simp add: unat_of_nat_byte)
qed

lemma be_value_bound: "be_value bs < 256 ^ length bs"
proof (induction bs rule: rev_induct)
  case Nil
  then show ?case by simp
next
  case (snoc b bs)
  show ?case using snoc unat_byte_less [of b] by simp
qed

lemma be_value_Cons: "be_value (b # bs) = unat b * 256 ^ length bs + be_value bs"
proof (induction bs rule: rev_induct)
  case Nil
  then show ?case by (simp add: be_value_def)
next
  case (snoc c cs)
  have "be_value (b # cs @ [c]) = be_value ((b # cs) @ [c])" by simp
  also have "\<dots> = be_value (b # cs) * 256 + unat c" by (rule be_value_snoc)
  finally show ?case using snoc by simp
qed

text \<open>The shift-and-or idiom with which the sources assemble a number from bytes.\<close>

lemma or_shifted_add_nat: "(y::nat) < 2 ^ n \<Longrightarrow> (x * 2 ^ n) OR y = x * 2 ^ n + y"
proof -
  assume "y < 2 ^ n"
  then have "take_bit n y = y" by (simp add: take_bit_nat_eq_self)
  moreover have "push_bit n x OR take_bit n y = push_bit n x + take_bit n y"
    by (rule disjunctive_add [symmetric]) (auto simp: bit_simps)
  ultimately show ?thesis by (simp add: push_bit_eq_mult)
qed

lemma or_add_nat:
  assumes "2 ^ n dvd (x :: nat)" and "y < 2 ^ n"
  shows "x OR y = x + y"
proof -
  from assms(1) obtain k where "x = k * 2 ^ n" by (metis dvd_def mult.commute)
  with assms(2) show ?thesis by (simp add: or_shifted_add_nat)
qed

lemma unat_shifted_byte:
  assumes "n + 8 \<le> LENGTH('a::len)"
  shows "unat (push_bit n (ucast (b :: byte)) :: 'a word) = unat b * 2 ^ n"
proof -
  have "unat b * 2 ^ n < 2 ^ 8 * 2 ^ n"
    using unat_byte_less [of b] by simp
  also have "\<dots> \<le> 2 ^ LENGTH('a)"
    using power_increasing [OF assms, of "2 :: nat"] by (simp add: power_add mult.commute)
  finally have shifted: "unat b * 2 ^ n < 2 ^ LENGTH('a)" .
  have "unat b < 2 ^ LENGTH('a)"
    using unat_byte_less [of b] power_increasing [of 8 "LENGTH('a)" "2 :: nat"] assms by simp
  then have "unat (ucast b :: 'a word) = unat b"
    by (simp add: unsigned_ucast_eq take_bit_nat_eq_self)
  then have "unat (push_bit n (ucast b) :: 'a word) = take_bit LENGTH('a) (push_bit n (unat b))"
    by (simp only: unsigned_push_bit_eq)
  with shifted show ?thesis
    by (simp add: push_bit_eq_mult take_bit_nat_eq_self)
qed

lemmas unat_ucast_byte = unat_shifted_byte [where n = 0, simplified]

lemmas unat_or_bytes = unsigned_or_eq unat_shifted_byte unat_ucast_byte

lemmas or_bytes_add =
  or_add_nat [of 56] or_add_nat [of 48] or_add_nat [of 40] or_add_nat [of 32]
  or_add_nat [of 24] or_add_nat [of 16] or_add_nat [of 8]

end
