(* ===== verification/Packet.thy ===== *)
theory Packet
  imports Prelude
begin

text \<open>
  The read-only packet of \<open>include/internal/packet.h\<close>: a cursor into a byte buffer and the number
  of bytes that may still be read. A pointer into the buffer is the list of the bytes from that
  position to the end of the underlying object, so that two packets share a buffer exactly when one
  list is a suffix of the other; the null pointer is the empty list. Every dereference goes through
  \<open>packet_at\<close> or \<open>packet_mem\<close>, which are \<open>Undef\<close> outside the object. Allocation, in the two
  functions that duplicate the contents, succeeds or not by the argument \<open>mem\<close>, a predicate on
  the requested size.

  The lemmas show that no operation on a well-formed packet reads outside the object, that each one
  consumes exactly the bytes it reports, and what value it reports; the shared part of these proofs
  is the locale \<open>net_reader\<close> of fixed-width readers and its extension \<open>prefixed_reader\<close>.
\<close>

section \<open>The packet and its operations\<close>

record PACKET =
  p_curr :: "byte list"
  p_remaining :: nat

definition packet_at :: "PACKET \<Rightarrow> nat \<Rightarrow> byte outcome" where
  "packet_at pkt i = (if i < length (p_curr pkt) then Ret (p_curr pkt ! i) else Undef)"

definition packet_mem :: "PACKET \<Rightarrow> nat \<Rightarrow> byte list outcome" where
  "packet_mem pkt n = (if n \<le> length (p_curr pkt) then Ret (take n (p_curr pkt)) else Undef)"

definition packet_forward :: "PACKET \<Rightarrow> nat \<Rightarrow> PACKET outcome" where
  "packet_forward pkt len =
     (if len \<le> length (p_curr pkt)
      then Ret \<lparr>p_curr = drop len (p_curr pkt), p_remaining = sz_sub (p_remaining pkt) len\<rparr>
      else Undef)"

definition PACKET_remaining :: "PACKET \<Rightarrow> nat" where
  "PACKET_remaining pkt = p_remaining pkt"

definition PACKET_end :: "PACKET \<Rightarrow> byte list outcome" where
  "PACKET_end pkt =
     (if p_remaining pkt \<le> length (p_curr pkt) then Ret (drop (p_remaining pkt) (p_curr pkt)) else Undef)"

definition PACKET_data :: "PACKET \<Rightarrow> byte list" where
  "PACKET_data pkt = p_curr pkt"

definition PACKET_buf_init :: "byte list \<Rightarrow> nat \<Rightarrow> PACKET outcome" where
  "PACKET_buf_init buf len =
     (if len > SIZE_MAX div 2 then Fail else Ret \<lparr>p_curr = buf, p_remaining = len\<rparr>)"

definition PACKET_null_init :: PACKET where
  "PACKET_null_init = \<lparr>p_curr = [], p_remaining = 0\<rparr>"

text \<open>\<open>CRYPTO_memcmp\<close> of \<open>crypto/cpuid.c\<close>: the running disjunction of the differences.\<close>

fun CRYPTO_memcmp_loop :: "byte \<Rightarrow> byte list \<Rightarrow> byte list \<Rightarrow> byte" where
  "CRYPTO_memcmp_loop x (a # as) (b # bs) = CRYPTO_memcmp_loop (x OR (a XOR b)) as bs"
| "CRYPTO_memcmp_loop x as bs = x"

definition CRYPTO_memcmp :: "byte list \<Rightarrow> byte list \<Rightarrow> byte" where
  "CRYPTO_memcmp as bs = CRYPTO_memcmp_loop 0 as bs"

definition PACKET_equal :: "PACKET \<Rightarrow> byte list \<Rightarrow> nat \<Rightarrow> bool outcome" where
  "PACKET_equal pkt ptr num =
     (if PACKET_remaining pkt \<noteq> num then Ret False
      else obind (packet_mem pkt num) (\<lambda>bs.
        if num \<le> length ptr then Ret (CRYPTO_memcmp bs (take num ptr) = 0) else Undef))"

definition PACKET_peek_sub_packet :: "PACKET \<Rightarrow> nat \<Rightarrow> PACKET outcome" where
  "PACKET_peek_sub_packet pkt len =
     (if PACKET_remaining pkt < len then Fail else PACKET_buf_init (p_curr pkt) len)"

definition PACKET_get_sub_packet :: "PACKET \<Rightarrow> nat \<Rightarrow> (PACKET \<times> PACKET) outcome" where
  "PACKET_get_sub_packet pkt len =
     obind (PACKET_peek_sub_packet pkt len) (\<lambda>subpkt.
     obind (packet_forward pkt len) (\<lambda>pkt'. Ret (subpkt, pkt')))"

definition PACKET_peek_net_2 :: "PACKET \<Rightarrow> uint outcome" where
  "PACKET_peek_net_2 pkt =
     (if PACKET_remaining pkt < 2 then Fail
      else obind (packet_at pkt 0) (\<lambda>b0. obind (packet_at pkt 1) (\<lambda>b1.
        Ret (push_bit 8 (ucast b0) OR ucast b1))))"

definition PACKET_get_net_2 :: "PACKET \<Rightarrow> (uint \<times> PACKET) outcome" where
  "PACKET_get_net_2 pkt =
     obind (PACKET_peek_net_2 pkt) (\<lambda>v. obind (packet_forward pkt 2) (\<lambda>pkt'. Ret (v, pkt')))"

definition PACKET_get_net_2_len :: "PACKET \<Rightarrow> (nat \<times> PACKET) outcome" where
  "PACKET_get_net_2_len pkt = obind (PACKET_get_net_2 pkt) (\<lambda>(i, pkt'). Ret (unat i, pkt'))"

definition PACKET_peek_net_3 :: "PACKET \<Rightarrow> ulong outcome" where
  "PACKET_peek_net_3 pkt =
     (if PACKET_remaining pkt < 3 then Fail
      else obind (packet_at pkt 0) (\<lambda>b0. obind (packet_at pkt 1) (\<lambda>b1. obind (packet_at pkt 2) (\<lambda>b2.
        Ret ((push_bit 16 (ucast b0) OR push_bit 8 (ucast b1)) OR ucast b2)))))"

definition PACKET_get_net_3 :: "PACKET \<Rightarrow> (ulong \<times> PACKET) outcome" where
  "PACKET_get_net_3 pkt =
     obind (PACKET_peek_net_3 pkt) (\<lambda>v. obind (packet_forward pkt 3) (\<lambda>pkt'. Ret (v, pkt')))"

definition PACKET_get_net_3_len :: "PACKET \<Rightarrow> (nat \<times> PACKET) outcome" where
  "PACKET_get_net_3_len pkt = obind (PACKET_get_net_3 pkt) (\<lambda>(i, pkt'). Ret (unat i, pkt'))"

definition PACKET_peek_net_4 :: "PACKET \<Rightarrow> ulong outcome" where
  "PACKET_peek_net_4 pkt =
     (if PACKET_remaining pkt < 4 then Fail
      else obind (packet_at pkt 0) (\<lambda>b0. obind (packet_at pkt 1) (\<lambda>b1.
           obind (packet_at pkt 2) (\<lambda>b2. obind (packet_at pkt 3) (\<lambda>b3.
        Ret (((push_bit 24 (ucast b0) OR push_bit 16 (ucast b1)) OR push_bit 8 (ucast b2))
             OR ucast b3))))))"

definition PACKET_get_net_4 :: "PACKET \<Rightarrow> (ulong \<times> PACKET) outcome" where
  "PACKET_get_net_4 pkt =
     obind (PACKET_peek_net_4 pkt) (\<lambda>v. obind (packet_forward pkt 4) (\<lambda>pkt'. Ret (v, pkt')))"

definition PACKET_get_net_4_len :: "PACKET \<Rightarrow> (nat \<times> PACKET) outcome" where
  "PACKET_get_net_4_len pkt = obind (PACKET_get_net_4 pkt) (\<lambda>(i, pkt'). Ret (unat i, pkt'))"

definition PACKET_peek_net_8 :: "PACKET \<Rightarrow> ulong outcome" where
  "PACKET_peek_net_8 pkt =
     (if PACKET_remaining pkt < 8 then Fail
      else obind (packet_at pkt 0) (\<lambda>b0. obind (packet_at pkt 1) (\<lambda>b1.
           obind (packet_at pkt 2) (\<lambda>b2. obind (packet_at pkt 3) (\<lambda>b3.
           obind (packet_at pkt 4) (\<lambda>b4. obind (packet_at pkt 5) (\<lambda>b5.
           obind (packet_at pkt 6) (\<lambda>b6. obind (packet_at pkt 7) (\<lambda>b7.
        Ret (((((((push_bit 56 (ucast b0) OR push_bit 48 (ucast b1)) OR push_bit 40 (ucast b2))
             OR push_bit 32 (ucast b3)) OR push_bit 24 (ucast b4)) OR push_bit 16 (ucast b5))
             OR push_bit 8 (ucast b6)) OR ucast b7))))))))))"

definition PACKET_get_net_8 :: "PACKET \<Rightarrow> (ulong \<times> PACKET) outcome" where
  "PACKET_get_net_8 pkt =
     obind (PACKET_peek_net_8 pkt) (\<lambda>v. obind (packet_forward pkt 8) (\<lambda>pkt'. Ret (v, pkt')))"

definition PACKET_peek_1 :: "PACKET \<Rightarrow> uint outcome" where
  "PACKET_peek_1 pkt =
     (if PACKET_remaining pkt = 0 then Fail
      else obind (packet_at pkt 0) (\<lambda>b0. Ret (ucast b0)))"

definition PACKET_get_1 :: "PACKET \<Rightarrow> (uint \<times> PACKET) outcome" where
  "PACKET_get_1 pkt =
     obind (PACKET_peek_1 pkt) (\<lambda>v. obind (packet_forward pkt 1) (\<lambda>pkt'. Ret (v, pkt')))"

definition PACKET_get_1_len :: "PACKET \<Rightarrow> (nat \<times> PACKET) outcome" where
  "PACKET_get_1_len pkt = obind (PACKET_get_1 pkt) (\<lambda>(i, pkt'). Ret (unat i, pkt'))"

definition PACKET_peek_4 :: "PACKET \<Rightarrow> ulong outcome" where
  "PACKET_peek_4 pkt =
     (if PACKET_remaining pkt < 4 then Fail
      else obind (packet_at pkt 0) (\<lambda>b0. obind (packet_at pkt 1) (\<lambda>b1.
           obind (packet_at pkt 2) (\<lambda>b2. obind (packet_at pkt 3) (\<lambda>b3.
        Ret (((ucast b0 OR push_bit 8 (ucast b1)) OR push_bit 16 (ucast b2))
             OR push_bit 24 (ucast b3)))))))"

definition PACKET_get_4 :: "PACKET \<Rightarrow> (ulong \<times> PACKET) outcome" where
  "PACKET_get_4 pkt =
     obind (PACKET_peek_4 pkt) (\<lambda>v. obind (packet_forward pkt 4) (\<lambda>pkt'. Ret (v, pkt')))"

definition PACKET_peek_bytes :: "PACKET \<Rightarrow> nat \<Rightarrow> byte list outcome" where
  "PACKET_peek_bytes pkt len = (if PACKET_remaining pkt < len then Fail else Ret (p_curr pkt))"

definition PACKET_get_bytes :: "PACKET \<Rightarrow> nat \<Rightarrow> (byte list \<times> PACKET) outcome" where
  "PACKET_get_bytes pkt len =
     obind (PACKET_peek_bytes pkt len) (\<lambda>data.
     obind (packet_forward pkt len) (\<lambda>pkt'. Ret (data, pkt')))"

definition PACKET_peek_copy_bytes :: "PACKET \<Rightarrow> nat \<Rightarrow> byte list outcome" where
  "PACKET_peek_copy_bytes pkt len =
     (if PACKET_remaining pkt < len then Fail else packet_mem pkt len)"

definition PACKET_copy_bytes :: "PACKET \<Rightarrow> nat \<Rightarrow> (byte list \<times> PACKET) outcome" where
  "PACKET_copy_bytes pkt len =
     obind (PACKET_peek_copy_bytes pkt len) (\<lambda>bs.
     obind (packet_forward pkt len) (\<lambda>pkt'. Ret (bs, pkt')))"

text \<open>The result is the return value, the bytes copied and the length stored in \<open>*len\<close>.\<close>

definition PACKET_copy_all :: "PACKET \<Rightarrow> nat \<Rightarrow> (bool \<times> byte list \<times> nat) outcome" where
  "PACKET_copy_all pkt dest_len =
     (if PACKET_remaining pkt > dest_len then Ret (False, [], 0)
      else obind (packet_mem pkt (p_remaining pkt)) (\<lambda>bs. Ret (True, bs, p_remaining pkt)))"

definition PACKET_memdup :: "(nat \<Rightarrow> bool) \<Rightarrow> PACKET \<Rightarrow> (bool \<times> byte list option \<times> nat) outcome" where
  "PACKET_memdup mem pkt =
     (let length = PACKET_remaining pkt in
      if length = 0 then Ret (True, None, 0)
      else if \<not> mem length then Ret (False, None, 0)
      else obind (packet_mem pkt length) (\<lambda>bs. Ret (True, Some bs, length)))"

definition PACKET_contains_zero_byte :: "PACKET \<Rightarrow> bool outcome" where
  "PACKET_contains_zero_byte pkt =
     obind (packet_mem pkt (p_remaining pkt)) (\<lambda>bs. Ret (0 \<in> set bs))"

definition PACKET_forward :: "PACKET \<Rightarrow> nat \<Rightarrow> PACKET outcome" where
  "PACKET_forward pkt len =
     (if PACKET_remaining pkt < len then Fail else packet_forward pkt len)"

text \<open>
  The length-prefixed readers work on a copy of the packet and assign it back on success, so that
  on failure neither packet is modified; the result is the sub-packet and the advanced packet.
\<close>

definition PACKET_get_length_prefixed_1 :: "PACKET \<Rightarrow> (PACKET \<times> PACKET) outcome" where
  "PACKET_get_length_prefixed_1 pkt =
     obind (PACKET_get_1 pkt) (\<lambda>(length, tmp).
     obind (PACKET_get_bytes tmp (unat length)) (\<lambda>(data, tmp').
       Ret (\<lparr>p_curr = data, p_remaining = unat length\<rparr>, tmp')))"

definition PACKET_as_length_prefixed_1 :: "PACKET \<Rightarrow> (PACKET \<times> PACKET) outcome" where
  "PACKET_as_length_prefixed_1 pkt =
     obind (PACKET_get_1 pkt) (\<lambda>(length, tmp).
     obind (PACKET_get_bytes tmp (unat length)) (\<lambda>(data, tmp').
       if PACKET_remaining tmp' \<noteq> 0 then Fail
       else Ret (\<lparr>p_curr = data, p_remaining = unat length\<rparr>, tmp')))"

definition PACKET_get_length_prefixed_2 :: "PACKET \<Rightarrow> (PACKET \<times> PACKET) outcome" where
  "PACKET_get_length_prefixed_2 pkt =
     obind (PACKET_get_net_2 pkt) (\<lambda>(length, tmp).
     obind (PACKET_get_bytes tmp (unat length)) (\<lambda>(data, tmp').
       Ret (\<lparr>p_curr = data, p_remaining = unat length\<rparr>, tmp')))"

definition PACKET_as_length_prefixed_2 :: "PACKET \<Rightarrow> (PACKET \<times> PACKET) outcome" where
  "PACKET_as_length_prefixed_2 pkt =
     obind (PACKET_get_net_2 pkt) (\<lambda>(length, tmp).
     obind (PACKET_get_bytes tmp (unat length)) (\<lambda>(data, tmp').
       if PACKET_remaining tmp' \<noteq> 0 then Fail
       else Ret (\<lparr>p_curr = data, p_remaining = unat length\<rparr>, tmp')))"

definition PACKET_get_length_prefixed_3 :: "PACKET \<Rightarrow> (PACKET \<times> PACKET) outcome" where
  "PACKET_get_length_prefixed_3 pkt =
     obind (PACKET_get_net_3 pkt) (\<lambda>(length, tmp).
     obind (PACKET_get_bytes tmp (unat length)) (\<lambda>(data, tmp').
       Ret (\<lparr>p_curr = data, p_remaining = unat length\<rparr>, tmp')))"


section \<open>Values assembled from bytes\<close>

lemma net_2_value: "unat (push_bit 8 (ucast b0) OR ucast b1 :: uint) = be_value [b0, b1]"
  using unat_byte_less [of b1] by (simp add: unat_or_bytes or_bytes_add be_value_def)

lemma net_3_value:
  "unat ((push_bit 16 (ucast b0) OR push_bit 8 (ucast b1)) OR ucast b2 :: ulong) = be_value [b0, b1, b2]"
  using unat_byte_less [of b1] unat_byte_less [of b2]
  by (simp add: unat_or_bytes or_bytes_add be_value_def)

lemma net_4_value:
  "unat (((push_bit 24 (ucast b0) OR push_bit 16 (ucast b1)) OR push_bit 8 (ucast b2)) OR ucast b3 :: ulong)
   = be_value [b0, b1, b2, b3]"
  using unat_byte_less [of b1] unat_byte_less [of b2] unat_byte_less [of b3]
  by (simp add: unat_or_bytes or_bytes_add be_value_def)

lemma net_8_value:
  "unat (((((((push_bit 56 (ucast b0) OR push_bit 48 (ucast b1)) OR push_bit 40 (ucast b2))
         OR push_bit 32 (ucast b3)) OR push_bit 24 (ucast b4)) OR push_bit 16 (ucast b5))
         OR push_bit 8 (ucast b6)) OR ucast b7 :: ulong)
   = be_value [b0, b1, b2, b3, b4, b5, b6, b7]"
  using unat_byte_less [of b1] unat_byte_less [of b2] unat_byte_less [of b3] unat_byte_less [of b4]
    unat_byte_less [of b5] unat_byte_less [of b6] unat_byte_less [of b7]
  by (simp add: unat_or_bytes or_bytes_add be_value_def)

lemma le_4_value:
  "unat (((ucast b0 OR push_bit 8 (ucast b1)) OR push_bit 16 (ucast b2)) OR push_bit 24 (ucast b3) :: ulong)
   = be_value [b3, b2, b1, b0]"
proof -
  have "((ucast b0 OR push_bit 8 (ucast b1)) OR push_bit 16 (ucast b2)) OR push_bit 24 (ucast b3)
      = (((push_bit 24 (ucast b3) OR push_bit 16 (ucast b2)) OR push_bit 8 (ucast b1)) OR ucast b0 :: ulong)"
    by (simp only: or.assoc or.commute or.left_commute)
  then show ?thesis by (simp only: net_4_value)
qed

section \<open>Well-formed packets\<close>

definition packet_wf :: "PACKET \<Rightarrow> bool" where
  "packet_wf pkt \<longleftrightarrow> p_remaining pkt \<le> length (p_curr pkt) \<and> p_remaining pkt < SIZE_MOD"

text \<open>What is left to read, and the packet after \<open>n\<close> more bytes were read.\<close>

definition packet_bytes :: "PACKET \<Rightarrow> byte list" where
  "packet_bytes pkt = take (p_remaining pkt) (p_curr pkt)"

definition packet_adv :: "PACKET \<Rightarrow> nat \<Rightarrow> PACKET" where
  "packet_adv pkt n = \<lparr>p_curr = drop n (p_curr pkt), p_remaining = p_remaining pkt - n\<rparr>"

lemma length_packet_bytes: "packet_wf pkt \<Longrightarrow> length (packet_bytes pkt) = p_remaining pkt"
  by (simp add: packet_wf_def packet_bytes_def)

lemma packet_wf_adv [wf_intros]: "packet_wf pkt \<Longrightarrow> n \<le> p_remaining pkt \<Longrightarrow> packet_wf (packet_adv pkt n)"
  by (auto simp: packet_wf_def packet_adv_def)

lemma packet_bytes_adv:
  "packet_wf pkt \<Longrightarrow> n \<le> p_remaining pkt \<Longrightarrow> packet_bytes (packet_adv pkt n) = drop n (packet_bytes pkt)"
  by (simp add: packet_bytes_def packet_adv_def drop_take)

lemma packet_bytes_split:
  assumes "packet_wf pkt" and "n \<le> p_remaining pkt"
  shows "packet_bytes pkt = take n (p_curr pkt) @ packet_bytes (packet_adv pkt n)"
proof -
  have "packet_bytes pkt = take n (packet_bytes pkt) @ drop n (packet_bytes pkt)" by simp
  also have "take n (packet_bytes pkt) = take n (p_curr pkt)"
    using assms(2) by (simp add: packet_bytes_def min_def)
  finally show ?thesis using assms by (simp add: packet_bytes_adv)
qed

lemma p_remaining_adv [simp]: "p_remaining (packet_adv pkt n) = p_remaining pkt - n"
  and p_curr_adv [simp]: "p_curr (packet_adv pkt n) = drop n (p_curr pkt)"
  by (simp_all add: packet_adv_def)

lemma packet_forward_wf [op_simps]:
  "packet_wf pkt \<Longrightarrow> n \<le> p_remaining pkt \<Longrightarrow> packet_forward pkt n = Ret (packet_adv pkt n)"
  by (auto simp: packet_forward_def packet_wf_def packet_adv_def)

lemma packet_at_wf [op_simps]: "packet_wf pkt \<Longrightarrow> i < p_remaining pkt \<Longrightarrow> packet_at pkt i = Ret (p_curr pkt ! i)"
  by (auto simp: packet_at_def packet_wf_def)

lemma packet_mem_wf [op_simps]: "packet_wf pkt \<Longrightarrow> n \<le> p_remaining pkt \<Longrightarrow> packet_mem pkt n = Ret (take n (p_curr pkt))"
  by (auto simp: packet_mem_def packet_wf_def)

lemma PACKET_get_bytes_wf [op_simps]:
  "packet_wf pkt \<Longrightarrow> PACKET_get_bytes pkt n =
     (if p_remaining pkt < n then Fail else Ret (p_curr pkt, packet_adv pkt n))"
  by (simp add: PACKET_get_bytes_def PACKET_peek_bytes_def PACKET_remaining_def packet_forward_wf)

section \<open>Fixed-width readers\<close>

lemma take_map_nth: "n \<le> length xs \<Longrightarrow> take n xs = map ((!) xs) [0..<n]"
  by (simp add: list_eq_iff_nth_eq)

lemma take_words:
  "1 \<le> length xs \<Longrightarrow> take 1 xs = [xs ! 0]"
  "2 \<le> length xs \<Longrightarrow> take 2 xs = [xs ! 0, xs ! 1]"
  "3 \<le> length xs \<Longrightarrow> take 3 xs = [xs ! 0, xs ! 1, xs ! 2]"
  "4 \<le> length xs \<Longrightarrow> take 4 xs = [xs ! 0, xs ! 1, xs ! 2, xs ! 3]"
  "8 \<le> length xs \<Longrightarrow> take 8 xs = [xs ! 0, xs ! 1, xs ! 2, xs ! 3, xs ! 4, xs ! 5, xs ! 6, xs ! 7]"
  by (simp_all add: take_map_nth upt_rec numeral_eq_Suc)

text \<open>
  The contract of a reader that takes \<open>width\<close> bytes off the packet: it fails, without effect, on a
  packet that is too short, and otherwise advances the packet by exactly \<open>width\<close> and yields a
  value whose number is a fixed function of the bytes.
\<close>

locale net_reader =
  fixes get :: "PACKET \<Rightarrow> ('v \<times> PACKET) outcome"
    and val :: "'v \<Rightarrow> nat"
    and width :: nat
  assumes get_short: "packet_wf pkt \<Longrightarrow> p_remaining pkt < width \<Longrightarrow> get pkt = Fail"
    and get_long: "packet_wf pkt \<Longrightarrow> width \<le> p_remaining pkt \<Longrightarrow>
      \<exists>v. get pkt = Ret (v, packet_adv pkt width) \<and> val v = be_value (take width (p_curr pkt))"
begin

lemma get_safe: "packet_wf pkt \<Longrightarrow> get pkt \<noteq> Undef"
  using get_short [of pkt] get_long [of pkt] by (cases "p_remaining pkt < width") auto

lemma get_RetE:
  assumes "packet_wf pkt" and "get pkt = Ret (v, pkt')"
  shows "width \<le> p_remaining pkt" and "pkt' = packet_adv pkt width"
    and "val v = be_value (take width (p_curr pkt))"
  using assms get_short [of pkt] get_long [of pkt] by (cases "p_remaining pkt < width"; force)+

lemma val_bound:
  assumes "packet_wf pkt" and "get pkt = Ret (v, pkt')"
  shows "val v < 256 ^ width"
  using get_RetE [OF assms] assms(1) be_value_bound [of "take width (p_curr pkt)"]
  by (simp add: packet_wf_def)

lemma get_consumes:
  assumes "packet_wf pkt" and "get pkt = Ret (v, pkt')"
  shows "packet_wf pkt'" and "packet_bytes pkt = be_bytes width (val v) @ packet_bytes pkt'"
proof -
  note r = get_RetE [OF assms]
  show "packet_wf pkt'" using r(1,2) assms(1) by (simp add: packet_wf_adv)
  have "length (take width (p_curr pkt)) = width" using r(1) assms(1) by (simp add: packet_wf_def)
  then have "be_bytes width (val v) = take width (p_curr pkt)"
    using be_bytes_be_value [of "take width (p_curr pkt)"] r(3) by simp
  then show "packet_bytes pkt = be_bytes width (val v) @ packet_bytes pkt'"
    using packet_bytes_split [OF assms(1) r(1)] r(2) by simp
qed

lemma get_encoded:
  assumes "packet_wf pkt" and "packet_bytes pkt = be_bytes width n @ rest" and "n < 256 ^ width"
  shows "\<exists>v pkt'. get pkt = Ret (v, pkt') \<and> val v = n \<and> packet_wf pkt' \<and> packet_bytes pkt' = rest"
proof -
  have le: "width \<le> p_remaining pkt"
    using length_packet_bytes [OF assms(1)] assms(2) by simp
  have split: "take width (p_curr pkt) @ packet_bytes (packet_adv pkt width) = be_bytes width n @ rest"
    using packet_bytes_split [OF assms(1) le] assms(2) by simp
  moreover have "length (take width (p_curr pkt)) = width"
    using le assms(1) by (simp add: packet_wf_def)
  ultimately have "take width (p_curr pkt) = be_bytes width n" "packet_bytes (packet_adv pkt width) = rest"
    by (simp_all add: append_eq_append_conv)
  then show ?thesis
    using get_long [OF assms(1) le] assms(3) packet_wf_adv [OF assms(1) le]
    by (auto simp: be_value_be_bytes_fits)
qed

end

lemma packet_wf_lengthD: "packet_wf pkt \<Longrightarrow> n \<le> p_remaining pkt \<Longrightarrow> n \<le> length (p_curr pkt)"
  by (simp add: packet_wf_def)

lemmas reader_defs = PACKET_remaining_def packet_at_wf packet_forward_wf

interpretation get_1: net_reader PACKET_get_1 "unat :: uint \<Rightarrow> nat" 1
  by unfold_locales
    (auto simp: PACKET_get_1_def PACKET_peek_1_def reader_defs unat_ucast_byte
      take_words(1) [unfolded One_nat_def] be_value_def dest: packet_wf_lengthD [of _ "Suc 0"])

interpretation get_net_2: net_reader PACKET_get_net_2 "unat :: uint \<Rightarrow> nat" 2
  by unfold_locales
    (auto simp: PACKET_get_net_2_def PACKET_peek_net_2_def reader_defs net_2_value take_words
      dest: packet_wf_lengthD [of _ 2])

interpretation get_net_3: net_reader PACKET_get_net_3 "unat :: ulong \<Rightarrow> nat" 3
  by unfold_locales
    (auto simp: PACKET_get_net_3_def PACKET_peek_net_3_def reader_defs net_3_value take_words
      dest: packet_wf_lengthD [of _ 3])

interpretation get_net_4: net_reader PACKET_get_net_4 "unat :: ulong \<Rightarrow> nat" 4
  by unfold_locales
    (auto simp: PACKET_get_net_4_def PACKET_peek_net_4_def reader_defs net_4_value take_words
      dest: packet_wf_lengthD [of _ 4])

interpretation get_net_8: net_reader PACKET_get_net_8 "unat :: ulong \<Rightarrow> nat" 8
  by unfold_locales
    (auto simp: PACKET_get_net_8_def PACKET_peek_net_8_def reader_defs net_8_value take_words
      dest: packet_wf_lengthD [of _ 8])

section \<open>Length-prefixed vectors\<close>

text \<open>
  A client of a fixed-width reader: the reader of a vector that is preceded by its length. It
  accepts exactly the packets whose unread bytes start with an encoded length and that many bytes.
\<close>

locale prefixed_reader = net_reader get val width
  for get :: "PACKET \<Rightarrow> ('v \<times> PACKET) outcome" and val :: "'v \<Rightarrow> nat" and width :: nat +
  fixes getp :: "PACKET \<Rightarrow> (PACKET \<times> PACKET) outcome"
  assumes getp_unfold: "getp pkt =
    obind (get pkt) (\<lambda>(len, tmp). obind (PACKET_get_bytes tmp (val len)) (\<lambda>(data, tmp').
      Ret (\<lparr>p_curr = data, p_remaining = val len\<rparr>, tmp')))"
begin

lemma getp_safe: "packet_wf pkt \<Longrightarrow> getp pkt \<noteq> Undef"
  using get_safe [of pkt] get_consumes(1) [of pkt]
  by (cases "get pkt") (auto simp: getp_unfold PACKET_get_bytes_wf split: if_splits)

lemma getp_splits:
  assumes wf: "packet_wf pkt" and ret: "getp pkt = Ret (sub, pkt')"
  shows "packet_wf sub" and "packet_wf pkt'"
    and "packet_bytes pkt = be_bytes width (length (packet_bytes sub)) @ packet_bytes sub @ packet_bytes pkt'"
    and "length (packet_bytes sub) < 256 ^ width"
proof -
  from ret obtain len tmp where g: "get pkt = Ret (len, tmp)" by (cases "get pkt") (auto simp: getp_unfold)
  note c = get_consumes [OF wf g] and b = val_bound [OF wf g]
  have le: "val len \<le> p_remaining tmp" and sub: "sub = \<lparr>p_curr = p_curr tmp, p_remaining = val len\<rparr>"
    and pkt': "pkt' = packet_adv tmp (val len)"
    using ret g PACKET_get_bytes_wf [OF c(1), of "val len"] by (auto simp: getp_unfold split: if_splits)
  show "packet_wf sub" and "packet_wf pkt'"
    using c(1) le sub pkt' by (simp_all add: packet_wf_adv packet_wf_def [of "\<lparr>p_curr = x, p_remaining = y\<rparr>" for x y])
      (simp add: packet_wf_def)
  then have "length (packet_bytes sub) = val len" using sub by (simp add: length_packet_bytes)
  moreover have "packet_bytes tmp = packet_bytes sub @ packet_bytes pkt'"
    using packet_bytes_split [OF c(1) le] sub pkt' by (simp add: packet_bytes_def)
  ultimately show "packet_bytes pkt = be_bytes width (length (packet_bytes sub)) @ packet_bytes sub @ packet_bytes pkt'"
    and "length (packet_bytes sub) < 256 ^ width"
    using c(2) b by simp_all
qed

lemma getp_encoded:
  assumes wf: "packet_wf pkt" and bytes: "packet_bytes pkt = be_bytes width (length xs) @ xs @ rest"
    and fits: "length xs < 256 ^ width"
  shows "\<exists>sub pkt'. getp pkt = Ret (sub, pkt') \<and> packet_bytes sub = xs \<and> packet_bytes pkt' = rest
    \<and> packet_wf sub \<and> packet_wf pkt'"
proof -
  from get_encoded [OF wf bytes fits] obtain len tmp where g: "get pkt = Ret (len, tmp)"
    and len: "val len = length xs" and tmp: "packet_wf tmp" "packet_bytes tmp = xs @ rest" by auto
  have le: "val len \<le> p_remaining tmp" using length_packet_bytes [OF tmp(1)] tmp(2) len by simp
  then have r: "getp pkt = Ret (\<lparr>p_curr = p_curr tmp, p_remaining = val len\<rparr>, packet_adv tmp (val len))"
    by (simp add: getp_unfold g PACKET_get_bytes_wf [OF tmp(1)])
  have "take (val len) (p_curr tmp) @ packet_bytes (packet_adv tmp (val len)) = xs @ rest"
    using packet_bytes_split [OF tmp(1) le] tmp(2) by simp
  moreover have "length (take (val len) (p_curr tmp)) = length xs"
    using len le packet_wf_lengthD [OF tmp(1)] by simp
  ultimately have "take (val len) (p_curr tmp) = xs" "packet_bytes (packet_adv tmp (val len)) = rest"
    by (simp_all add: append_eq_append_conv)
  then show ?thesis using r getp_splits(1,2) [OF wf r] by (auto simp: packet_bytes_def)
qed

end

interpretation prefixed_1: prefixed_reader PACKET_get_1 "unat :: uint \<Rightarrow> nat" 1 PACKET_get_length_prefixed_1
  by unfold_locales (simp add: PACKET_get_length_prefixed_1_def)

interpretation prefixed_2: prefixed_reader PACKET_get_net_2 "unat :: uint \<Rightarrow> nat" 2 PACKET_get_length_prefixed_2
  by unfold_locales (simp add: PACKET_get_length_prefixed_2_def)

interpretation prefixed_3: prefixed_reader PACKET_get_net_3 "unat :: ulong \<Rightarrow> nat" 3 PACKET_get_length_prefixed_3
  by unfold_locales (simp add: PACKET_get_length_prefixed_3_def)

section \<open>Constant-time comparison\<close>

lemma byte_or_eq_0: "(x :: byte) OR y = 0 \<longleftrightarrow> x = 0 \<and> y = 0"
  by (auto simp: bit_eq_iff bit_simps)

lemma byte_xor_eq_0: "(x :: byte) XOR y = 0 \<longleftrightarrow> x = y"
  by (auto simp: bit_eq_iff bit_simps)

lemma CRYPTO_memcmp_loop_eq_0:
  "length as = length bs \<Longrightarrow> CRYPTO_memcmp_loop x as bs = 0 \<longleftrightarrow> x = 0 \<and> as = bs"
  by (induction x as bs rule: CRYPTO_memcmp_loop.induct) (auto simp: byte_or_eq_0 byte_xor_eq_0)

lemma CRYPTO_memcmp_eq_0: "length as = length bs \<Longrightarrow> CRYPTO_memcmp as bs = 0 \<longleftrightarrow> as = bs"
  by (simp add: CRYPTO_memcmp_def CRYPTO_memcmp_loop_eq_0)

lemma PACKET_equal_wf [op_simps]:
  "packet_wf pkt \<Longrightarrow> num \<le> length ptr \<Longrightarrow>
   PACKET_equal pkt ptr num = Ret (packet_bytes pkt = take num ptr \<and> p_remaining pkt = num)"
  by (auto simp: PACKET_equal_def PACKET_remaining_def packet_mem_wf packet_bytes_def CRYPTO_memcmp_eq_0
      dest: packet_wf_lengthD [OF _ order_refl])

section \<open>Properties\<close>

text \<open>
  Reading a vector with a three-byte length never reads outside the packet; when it succeeds the
  unread bytes were the encoded length, the vector and the bytes still unread, and it succeeds on
  every packet of that shape.
\<close>

theorem get_length_prefixed_3_exact:
  assumes "packet_wf pkt"
  shows "PACKET_get_length_prefixed_3 pkt \<noteq> Undef
    \<and> (\<forall>sub pkt'. PACKET_get_length_prefixed_3 pkt = Ret (sub, pkt') \<longrightarrow>
         packet_wf sub \<and> packet_wf pkt'
         \<and> packet_bytes pkt = be_bytes 3 (length (packet_bytes sub)) @ packet_bytes sub @ packet_bytes pkt')
    \<and> (\<forall>xs rest. packet_bytes pkt = be_bytes 3 (length xs) @ xs @ rest \<and> length xs < 2 ^ 24 \<longrightarrow>
         (\<exists>sub pkt'. PACKET_get_length_prefixed_3 pkt = Ret (sub, pkt') \<and> packet_bytes sub = xs \<and> packet_bytes pkt' = rest))"
proof (intro conjI allI impI)
  show "PACKET_get_length_prefixed_3 pkt \<noteq> Undef" by (rule prefixed_3.getp_safe [OF assms])
  fix sub pkt' assume r: "PACKET_get_length_prefixed_3 pkt = Ret (sub, pkt')"
  show "packet_wf sub" "packet_wf pkt'"
    "packet_bytes pkt = be_bytes 3 (length (packet_bytes sub)) @ packet_bytes sub @ packet_bytes pkt'"
    using prefixed_3.getp_splits [OF assms r] by auto
next
  fix xs rest assume "packet_bytes pkt = be_bytes 3 (length xs) @ xs @ rest \<and> length xs < 2 ^ 24"
  then show "\<exists>sub pkt'. PACKET_get_length_prefixed_3 pkt = Ret (sub, pkt') \<and> packet_bytes sub = xs \<and> packet_bytes pkt' = rest"
    using prefixed_3.getp_encoded [OF assms, of xs rest] by auto
qed

theorem get_length_prefixed_3_exact_witness:
  "\<exists>sub pkt'. PACKET_get_length_prefixed_3 \<lparr>p_curr = [0, 0, 2, 5, 6, 7, 8], p_remaining = 6\<rparr> = Ret (sub, pkt')
     \<and> packet_bytes sub = [5, 6] \<and> packet_bytes pkt' = [7]"
proof -
  have "packet_wf \<lparr>p_curr = [0, 0, 2, 5, 6, 7, 8], p_remaining = 6\<rparr>" by (simp add: packet_wf_def)
  moreover have "packet_bytes \<lparr>p_curr = [0, 0, 2, 5, 6, 7, 8], p_remaining = 6\<rparr>
      = be_bytes 3 (length [5, 6 :: byte]) @ [5, 6] @ [7]"
    by (simp add: packet_bytes_def be_bytes_numeral)
  ultimately show ?thesis
    using get_length_prefixed_3_exact [of "\<lparr>p_curr = [0, 0, 2, 5, 6, 7, 8], p_remaining = 6\<rparr>"] by fastforce
qed

text \<open>
  Comparing the rest of a packet with a memory block is memory safe and decides equality of the
  bytes, with a comparison loop that inspects every byte.
\<close>

theorem packet_equal_decides:
  assumes "packet_wf pkt" and "num \<le> length ptr"
  shows "PACKET_equal pkt ptr num = Ret (packet_bytes pkt = take num ptr)"
proof -
  have "packet_bytes pkt = take num ptr \<Longrightarrow> p_remaining pkt = num"
    using length_packet_bytes [OF assms(1)] assms(2) by simp
  then show ?thesis using PACKET_equal_wf [OF assms] by auto
qed

theorem packet_equal_decides_witness:
  "PACKET_equal \<lparr>p_curr = [1, 2, 3], p_remaining = 2\<rparr> [1, 2, 9] 2 = Ret True
   \<and> PACKET_equal \<lparr>p_curr = [1, 2, 3], p_remaining = 2\<rparr> [1, 3, 9] 2 = Ret False"
  using packet_equal_decides [of "\<lparr>p_curr = [1, 2, 3], p_remaining = 2\<rparr>" 2 "[1, 2, 9]"]
    packet_equal_decides [of "\<lparr>p_curr = [1, 2, 3], p_remaining = 2\<rparr>" 2 "[1, 3, 9]"]
  by (simp add: packet_wf_def packet_bytes_def)

end
