(* ===== verification/Buffer.thy ===== *)
theory Buffer
  imports Prelude
begin

text \<open>
  The growable buffer \<open>BUF_MEM\<close> of \<open>crypto/buffer/buffer.c\<close>. The allocated object is the byte list
  \<open>b_data\<close>, whose length is the field \<open>max\<close>; \<open>b_length\<close> is the logical length. The fresh bytes a
  reallocation adds have unspecified contents in C; the argument \<open>junk\<close> supplies them. The argument
  \<open>mem\<close> tells which request sizes the allocator grants. The \<open>flags\<close> only select the secure heap and
  are not modelled. The result of a grow is the C return value and the buffer.
\<close>

record BUF_MEM =
  b_length :: nat
  b_data :: "byte list"

abbreviation b_max :: "BUF_MEM \<Rightarrow> nat" where
  "b_max str \<equiv> length (b_data str)"

definition LIMIT_BEFORE_EXPANSION :: nat where
  "LIMIT_BEFORE_EXPANSION = 0x5ffffffc"

definition BUF_MEM_new :: BUF_MEM where
  "BUF_MEM_new = \<lparr>b_length = 0, b_data = []\<rparr>"

text \<open>\<open>realloc\<close>: the old contents up to the smaller of the two sizes, then unspecified bytes.\<close>

definition realloc_bytes :: "(nat \<Rightarrow> byte) \<Rightarrow> byte list \<Rightarrow> nat \<Rightarrow> byte list" where
  "realloc_bytes junk xs n = take n xs @ map junk [length xs ..< n]"

definition BUF_MEM_grow :: "(nat \<Rightarrow> bool) \<Rightarrow> (nat \<Rightarrow> byte) \<Rightarrow> BUF_MEM \<Rightarrow> nat \<Rightarrow> nat \<times> BUF_MEM" where
  "BUF_MEM_grow mem junk str len =
     (if b_length str \<ge> len then (len, str\<lparr>b_length := len\<rparr>)
      else if b_max str \<ge> len then
        (len, str\<lparr>b_data := patch (b_data str) (b_length str) (replicate (len - b_length str) 0),
                  b_length := len\<rparr>)
      else if len > LIMIT_BEFORE_EXPANSION then (0, str)
      else let n = (len + 3) div 3 * 4 in
        if \<not> mem n then (0, str)
        else (len, str\<lparr>b_data := patch (realloc_bytes junk (b_data str) n) (b_length str)
                                  (replicate (len - b_length str) 0),
                       b_length := len\<rparr>))"

definition BUF_MEM_grow_clean :: "(nat \<Rightarrow> bool) \<Rightarrow> (nat \<Rightarrow> byte) \<Rightarrow> BUF_MEM \<Rightarrow> nat \<Rightarrow> nat \<times> BUF_MEM" where
  "BUF_MEM_grow_clean mem junk str len =
     (if b_length str \<ge> len then
        (len, str\<lparr>b_data := (if b_data str = [] then [] else
                    patch (b_data str) len (replicate (b_length str - len) 0)),
                  b_length := len\<rparr>)
      else if b_max str \<ge> len then
        (len, str\<lparr>b_data := patch (b_data str) (b_length str) (replicate (len - b_length str) 0),
                  b_length := len\<rparr>)
      else if len > LIMIT_BEFORE_EXPANSION then (0, str)
      else let n = (len + 3) div 3 * 4 in
        if \<not> mem n then (0, str)
        else (len, str\<lparr>b_data := patch (realloc_bytes junk (b_data str) n) (b_length str)
                                  (replicate (len - b_length str) 0),
                       b_length := len\<rparr>))"

section \<open>Well-formed buffers\<close>

definition buf_wf :: "BUF_MEM \<Rightarrow> bool" where
  "buf_wf str \<longleftrightarrow> b_length str \<le> b_max str \<and> b_max str < 2 ^ 31"

definition buf_bytes :: "BUF_MEM \<Rightarrow> byte list" where
  "buf_bytes str = take (b_length str) (b_data str)"

text \<open>The bound the comment at \<open>LIMIT_BEFORE_EXPANSION\<close> claims, and that it is the best one.\<close>

lemma expansion_bound: "len \<le> LIMIT_BEFORE_EXPANSION \<longleftrightarrow> (len + 3) div 3 * 4 < 2 ^ 31"
  unfolding LIMIT_BEFORE_EXPANSION_def by simp presburger

lemma expansion_covers: "(len::nat) \<le> (len + 3) div 3 * 4"
  by presburger

lemma length_realloc_bytes [simp]: "length (realloc_bytes junk xs n) = n"
  by (cases "length xs \<le> n") (auto simp: realloc_bytes_def)

lemma take_realloc_bytes: "k \<le> n \<Longrightarrow> k \<le> length xs \<Longrightarrow> take k (realloc_bytes junk xs n) = take k xs"
  by (simp add: realloc_bytes_def min_def)

lemma BUF_MEM_new_wf [wf_intros, simp]: "buf_wf BUF_MEM_new"
  by (simp add: buf_wf_def BUF_MEM_new_def)

text \<open>
  Growing keeps the contents, pads with zero bytes and never lets the object outgrow \<open>2 ^ 31\<close>
  bytes; it fails only when the allocator does or the request exceeds the limit.
\<close>

lemma BUF_MEM_grow_spec:
  assumes wf: "buf_wf str" and grow: "BUF_MEM_grow mem junk str len = (r, str')"
  shows "buf_wf str'"
    and "r = len \<or> r = 0 \<and> str' = str \<and> b_max str < len
           \<and> (len > LIMIT_BEFORE_EXPANSION \<or> \<not> mem ((len + 3) div 3 * 4))"
    and "r = len \<Longrightarrow> 0 < len \<Longrightarrow> b_length str' = len \<and>
           buf_bytes str' = take len (buf_bytes str) @ replicate (len - b_length str) 0"
proof -
  have b: "b_length str \<le> b_max str" "b_max str < 2 ^ 31" using wf by (auto simp: buf_wf_def)
  note ex = expansion_bound [of len] expansion_covers [of len]
  show "buf_wf str'" "r = len \<or> r = 0 \<and> str' = str \<and> b_max str < len
           \<and> (len > LIMIT_BEFORE_EXPANSION \<or> \<not> mem ((len + 3) div 3 * 4))"
    using grow b ex by (auto simp: BUF_MEM_grow_def buf_wf_def Let_def split: if_splits)
  show "r = len \<Longrightarrow> 0 < len \<Longrightarrow> b_length str' = len \<and>
           buf_bytes str' = take len (buf_bytes str) @ replicate (len - b_length str) 0"
  proof -
    assume "r = len" "0 < len"
    have pad: "take len (patch xs (b_length str) (replicate (len - b_length str) 0))
        = take (b_length str) xs @ replicate (len - b_length str) 0"
      if "b_length str < len" "len \<le> length xs" for xs :: "byte list"
      using take_patch_end [of "b_length str" "replicate (len - b_length str) 0" xs] that by simp
    show ?thesis
    proof (cases "len \<le> b_length str")
      case True
      with grow show ?thesis by (auto simp: BUF_MEM_grow_def buf_bytes_def min_def)
    next
      case False
      with grow \<open>r = len\<close> \<open>0 < len\<close> b ex show ?thesis
        by (auto simp: BUF_MEM_grow_def buf_bytes_def Let_def pad take_realloc_bytes split: if_splits)
    qed
  qed
qed

text \<open>\<open>BUF_reverse\<close>: into another buffer, or in place by swapping towards the middle.\<close>

fun reverse_copy_loop :: "byte list \<Rightarrow> byte list \<Rightarrow> byte list" where
  "reverse_copy_loop out [] = out"
| "reverse_copy_loop out (b # in') = reverse_copy_loop (b # out) in'"

fun reverse_swap_loop :: "nat \<Rightarrow> nat \<Rightarrow> nat \<Rightarrow> byte list \<Rightarrow> byte list" where
  "reverse_swap_loop 0 out q xs = xs"
| "reverse_swap_loop (Suc k) out q xs = reverse_swap_loop k (Suc out) (q - 1) (xs[q := xs ! out, out := xs ! q])"

definition BUF_reverse :: "byte list \<Rightarrow> byte list option \<Rightarrow> nat \<Rightarrow> byte list" where
  "BUF_reverse out inp sz =
     (case inp of
        Some xs \<Rightarrow> reverse_copy_loop (drop sz out) (take sz xs)
      | None \<Rightarrow> reverse_swap_loop (sz div 2) 0 (sz - 1) out)"

lemma reverse_copy_loop_eq: "reverse_copy_loop out xs = rev xs @ out"
  by (induction out xs rule: reverse_copy_loop.induct) simp_all

lemma reverse_swap_loop_eq:
  "k \<le> length ys div 2 \<Longrightarrow> k * 2 + 1 \<ge> length ys \<Longrightarrow>
   reverse_swap_loop k (length us) (length us + length ys - 1) (us @ ys @ vs) = us @ rev ys @ vs"
proof (induction k arbitrary: us ys vs)
  case 0
  then have "length ys \<le> 1" by simp
  then show ?case by (cases ys) auto
next
  case (Suc k)
  then obtain a b ms where ys: "ys = a # ms @ [b]"
    by (cases ys; cases "tl ys" rule: rev_cases) auto
  have "(us @ (a # ms @ [b]) @ vs)[length us + length ys - 1 := a, length us := b] = us @ (b # ms @ [a]) @ vs"
    using ys by (simp add: list_update_append)
  moreover have "reverse_swap_loop k (length (us @ [b])) (length (us @ [b]) + length ms - 1) ((us @ [b]) @ ms @ ([a] @ vs))
      = (us @ [b]) @ rev ms @ ([a] @ vs)"
    by (rule Suc.IH) (use Suc.prems ys in auto)
  ultimately show ?case using ys by (simp add: nth_append)
qed

section \<open>Properties\<close>

text \<open>
  Growing a well-formed buffer keeps it below \<open>2 ^ 31\<close> bytes and well formed. It either returns
  the new length, the contents being the old ones cut or padded with zeros, or returns 0 and leaves
  the buffer as it was; the latter only when the request exceeds the limit, which is the largest
  length whose expansion stays below \<open>2 ^ 31\<close>, or when memory is refused.
\<close>

theorem grow_keeps_contents:
  assumes "buf_wf str" and "0 < len" and "BUF_MEM_grow mem junk str len = (r, str')"
  shows "buf_wf str'
    \<and> (r = len \<longrightarrow> b_length str' = len \<and> buf_bytes str' = take len (buf_bytes str) @ replicate (len - b_length str) 0)
    \<and> (r \<noteq> len \<longrightarrow> r = 0 \<and> str' = str \<and> ((len + 3) div 3 * 4 \<ge> 2 ^ 31 \<or> \<not> mem ((len + 3) div 3 * 4)))"
  using BUF_MEM_grow_spec [OF assms(1,3)] assms(2) expansion_bound [of len] by (auto simp: not_le not_less)

theorem grow_keeps_contents_witness:
  "buf_bytes (snd (BUF_MEM_grow (\<lambda>_. True) (\<lambda>_. 7) \<lparr>b_length = 2, b_data = [4, 5]\<rparr> 4)) = [4, 5, 0, 0]"
proof -
  let ?str = "\<lparr>b_length = 2, b_data = [4, 5]\<rparr> :: BUF_MEM"
  have wf: "buf_wf ?str" by (simp add: buf_wf_def)
  obtain s' where g: "BUF_MEM_grow (\<lambda>_. True) (\<lambda>_. 7) ?str 4 = (4, s')"
    by (simp add: BUF_MEM_grow_def LIMIT_BEFORE_EXPANSION_def)
  have "buf_bytes s' = take 4 (buf_bytes ?str) @ replicate (4 - 2) 0"
    using grow_keeps_contents [OF wf _ g] by simp
  moreover have "replicate (4 - 2) (0 :: byte) = [0, 0]" by (simp add: numeral_eq_Suc)
  ultimately show ?thesis unfolding g by (simp add: buf_bytes_def)
qed

text \<open>
  Both modes of \<open>BUF_reverse\<close> reverse the first \<open>size\<close> bytes and touch nothing else.\<close>

theorem BUF_reverse_reverses:
  assumes "sz \<le> length out" and "sz \<le> length xs"
  shows "BUF_reverse out (Some xs) sz = rev (take sz xs) @ drop sz out
    \<and> BUF_reverse out None sz = rev (take sz out) @ drop sz out"
  using reverse_swap_loop_eq [of "sz div 2" "take sz out" "[]" "drop sz out"] assms
  by (simp add: BUF_reverse_def reverse_copy_loop_eq min_absorb2)

theorem BUF_reverse_reverses_witness:
  "BUF_reverse [1, 2, 3, 4] (Some [5, 6, 7]) 3 = [7, 6, 5, 4] \<and> BUF_reverse [1, 2, 3, 4] None 3 = [3, 2, 1, 4]"
  using BUF_reverse_reverses [of 3 "[1, 2, 3, 4]" "[5, 6, 7]"] by simp

end
