(* ===== verification/WPacket.thy ===== *)
theory WPacket
  imports Buffer
begin

text \<open>
  The packet writer of \<open>crypto/packet.c\<close> (types in \<open>include/internal/packet.h\<close>). The chain of open
  sub-packets, linked through \<open>parent\<close>, is the list \<open>w_subs\<close>, innermost first; the empty list is the
  null pointer. The double underscore that ends the names of some C functions is dropped. The output object is \<open>GETBUF\<close>: the static buffer, the data of the growable buffer, or
  nothing for a null writer. Pointers into it are offsets; a store outside the object is \<open>Undef\<close>. A
  function returns its C result and the writer as the call leaves it, also when it fails.

  The lemmas show that a well-formed writer stays well formed and never stores outside its object,
  that what has been written is kept, and what bytes each operation adds: network-order integers,
  length-prefixed vectors, and DER lengths for the writers that fill their buffer from the end.
\<close>

section \<open>Data\<close>

record WPACKET_SUB =
  sub_packet_len :: nat
  sub_lenbytes :: nat
  sub_pwritten :: nat
  sub_flags :: uint

record WPACKET =
  w_buf :: "BUF_MEM option"
  w_staticbuf :: "byte list option"
  w_curr :: nat
  w_written :: nat
  w_maxsize :: nat
  w_subs :: "WPACKET_SUB list"
  w_endfirst :: bool

text \<open>The allocator: which sizes it grants, and the contents of fresh bytes.\<close>

record MEM =
  m_ok :: "nat \<Rightarrow> bool"
  m_junk :: "nat \<Rightarrow> byte"

abbreviation WPACKET_FLAGS_NON_ZERO_LENGTH :: uint where
  "WPACKET_FLAGS_NON_ZERO_LENGTH \<equiv> 1"

abbreviation WPACKET_FLAGS_ABANDON_ON_ZERO_LENGTH :: uint where
  "WPACKET_FLAGS_ABANDON_ON_ZERO_LENGTH \<equiv> 2"

abbreviation (input) DEFAULT_BUF_SIZE :: nat where
  "DEFAULT_BUF_SIZE \<equiv> 256"

abbreviation SIZEOF_SUB :: nat where
  "SIZEOF_SUB \<equiv> 40"

text \<open>Sequencing of calls in \<open>if (!f() || !g()) return 0\<close>.\<close>

definition wthen :: "(bool \<times> WPACKET) outcome \<Rightarrow> (WPACKET \<Rightarrow> (bool \<times> WPACKET) outcome) \<Rightarrow> (bool \<times> WPACKET) outcome" where
  "wthen r f = obind r (\<lambda>(ok, p). if ok then f p else Ret (False, p))"

definition GETBUF :: "WPACKET \<Rightarrow> byte list option" where
  "GETBUF p =
     (case w_staticbuf p of
        Some b \<Rightarrow> Some b
      | None \<Rightarrow> (case w_buf p of
          Some bm \<Rightarrow> (if b_data bm = [] then None else Some (b_data bm))
        | None \<Rightarrow> None))"

definition wpacket_store :: "WPACKET \<Rightarrow> nat \<Rightarrow> byte list \<Rightarrow> WPACKET outcome" where
  "wpacket_store p off bs =
     (case w_staticbuf p of
        Some b \<Rightarrow> (if off + length bs \<le> length b
          then Ret (p\<lparr>w_staticbuf := Some (patch b off bs)\<rparr>) else Undef)
      | None \<Rightarrow> (case w_buf p of
          Some bm \<Rightarrow> (if off + length bs \<le> length (b_data bm)
            then Ret (p\<lparr>w_buf := Some (bm\<lparr>b_data := patch (b_data bm) off bs\<rparr>)\<rparr>) else Undef)
        | None \<Rightarrow> Undef))"

section \<open>Reserving and allocating\<close>

definition WPACKET_get_curr :: "WPACKET \<Rightarrow> nat option" where
  "WPACKET_get_curr p =
     (case GETBUF p of
        None \<Rightarrow> None
      | Some _ \<Rightarrow> Some (if w_endfirst p then w_maxsize p - w_curr p else w_curr p))"

definition reserve_newlen :: "nat \<Rightarrow> nat \<Rightarrow> nat" where
  "reserve_newlen len blen =
     (let reflen = (if len > blen then len else blen) in
      if reflen > SIZE_MAX div 2 then SIZE_MAX
      else let newlen = reflen * 2 in
        if newlen < DEFAULT_BUF_SIZE then DEFAULT_BUF_SIZE else newlen)"

definition WPACKET_reserve_bytes :: "MEM \<Rightarrow> WPACKET \<Rightarrow> nat \<Rightarrow> (bool \<times> nat option \<times> WPACKET)" where
  "WPACKET_reserve_bytes m p len =
     (if w_subs p = [] \<or> len = 0 then (False, None, p)
      else if sz_sub (w_maxsize p) (w_written p) < len then (False, None, p)
      else
        let (ok, p') =
          (case w_buf p of
             Some bm \<Rightarrow>
               if sz_sub (b_length bm) (w_written p) < len
               then let (r, bm') = BUF_MEM_grow (m_ok m) (m_junk m) bm (reserve_newlen len (b_length bm))
                    in (r \<noteq> 0, p\<lparr>w_buf := Some bm'\<rparr>)
               else (True, p)
           | None \<Rightarrow> (True, p))
        in if \<not> ok then (False, None, p')
           else (True, map_option (\<lambda>c. if w_endfirst p' then c - len else c) (WPACKET_get_curr p'), p'))"

definition WPACKET_allocate_bytes :: "MEM \<Rightarrow> WPACKET \<Rightarrow> nat \<Rightarrow> (bool \<times> nat option \<times> WPACKET)" where
  "WPACKET_allocate_bytes m p len =
     (case WPACKET_reserve_bytes m p len of
        (False, a, p') \<Rightarrow> (False, None, p')
      | (True, a, p') \<Rightarrow> (True, a, p'\<lparr>w_written := sz_add (w_written p') len,
                                       w_curr := sz_add (w_curr p') len\<rparr>))"

definition WPACKET_sub_reserve_bytes :: "MEM \<Rightarrow> WPACKET \<Rightarrow> nat \<Rightarrow> nat \<Rightarrow> (bool \<times> nat option \<times> WPACKET)" where
  "WPACKET_sub_reserve_bytes m p len lenbytes =
     (if w_endfirst p \<and> lenbytes > 0 then (False, None, p)
      else case WPACKET_reserve_bytes m p (sz_add lenbytes len) of
        (False, a, p') \<Rightarrow> (False, None, p')
      | (True, a, p') \<Rightarrow> (True, map_option (\<lambda>c. c + lenbytes) a, p'))"

section \<open>Initialisation\<close>

definition maxmaxsize :: "nat \<Rightarrow> nat" where
  "maxmaxsize lenbytes =
     (if lenbytes \<ge> 8 \<or> lenbytes = 0 then SIZE_MAX else 2 ^ (lenbytes * 8) - 1 + lenbytes)"

definition zero_sub :: WPACKET_SUB where
  "zero_sub = \<lparr>sub_packet_len = 0, sub_lenbytes = 0, sub_pwritten = 0, sub_flags = 0\<rparr>"

definition wpacket_intern_init_len :: "MEM \<Rightarrow> WPACKET \<Rightarrow> nat \<Rightarrow> bool \<times> WPACKET" where
  "wpacket_intern_init_len m p lenbytes =
     (let p = p\<lparr>w_curr := 0, w_written := 0\<rparr> in
      if \<not> m_ok m SIZEOF_SUB then (False, p\<lparr>w_subs := []\<rparr>)
      else if lenbytes = 0 then (True, p\<lparr>w_subs := [zero_sub]\<rparr>)
      else
        let sub = zero_sub\<lparr>sub_pwritten := lenbytes, sub_lenbytes := lenbytes\<rparr> in
        case WPACKET_allocate_bytes m (p\<lparr>w_subs := [sub]\<rparr>) lenbytes of
          (False, a, p') \<Rightarrow> (False, p'\<lparr>w_subs := []\<rparr>)
        | (True, a, p') \<Rightarrow> (True, p'\<lparr>w_subs := [sub\<lparr>sub_packet_len := 0\<rparr>]\<rparr>))"

definition WPACKET_init_static_len :: "MEM \<Rightarrow> WPACKET \<Rightarrow> byte list option \<Rightarrow> nat \<Rightarrow> nat \<Rightarrow> bool \<times> WPACKET" where
  "WPACKET_init_static_len m p buf len lenbytes =
     (let max = maxmaxsize lenbytes in
      if buf = None \<or> len = 0 then (False, p)
      else wpacket_intern_init_len m
        (p\<lparr>w_staticbuf := buf, w_buf := None, w_maxsize := (if max < len then max else len),
           w_endfirst := False\<rparr>) lenbytes)"

definition WPACKET_init_der :: "MEM \<Rightarrow> WPACKET \<Rightarrow> byte list option \<Rightarrow> nat \<Rightarrow> bool \<times> WPACKET" where
  "WPACKET_init_der m p buf len =
     (if buf = None \<or> len = 0 then (False, p)
      else wpacket_intern_init_len m
        (p\<lparr>w_staticbuf := buf, w_buf := None, w_maxsize := len, w_endfirst := True\<rparr>) 0)"

definition WPACKET_init_len :: "MEM \<Rightarrow> WPACKET \<Rightarrow> BUF_MEM option \<Rightarrow> nat \<Rightarrow> bool \<times> WPACKET" where
  "WPACKET_init_len m p buf lenbytes =
     (if buf = None then (False, p)
      else wpacket_intern_init_len m
        (p\<lparr>w_staticbuf := None, w_buf := buf, w_maxsize := maxmaxsize lenbytes, w_endfirst := False\<rparr>)
        lenbytes)"

definition WPACKET_init :: "MEM \<Rightarrow> WPACKET \<Rightarrow> BUF_MEM option \<Rightarrow> bool \<times> WPACKET" where
  "WPACKET_init m p buf = WPACKET_init_len m p buf 0"

definition WPACKET_init_null :: "MEM \<Rightarrow> WPACKET \<Rightarrow> nat \<Rightarrow> bool \<times> WPACKET" where
  "WPACKET_init_null m p lenbytes =
     wpacket_intern_init_len m
       (p\<lparr>w_staticbuf := None, w_buf := None, w_maxsize := maxmaxsize lenbytes, w_endfirst := False\<rparr>) 0"

definition WPACKET_init_null_der :: "MEM \<Rightarrow> WPACKET \<Rightarrow> bool \<times> WPACKET" where
  "WPACKET_init_null_der m p =
     wpacket_intern_init_len m
       (p\<lparr>w_staticbuf := None, w_buf := None, w_maxsize := SIZE_MAX, w_endfirst := True\<rparr>) 0"

definition WPACKET_set_flags :: "WPACKET \<Rightarrow> uint \<Rightarrow> bool \<times> WPACKET" where
  "WPACKET_set_flags p flags =
     (case w_subs p of
        [] \<Rightarrow> (False, p)
      | sub # rest \<Rightarrow> (True, p\<lparr>w_subs := sub\<lparr>sub_flags := flags\<rparr> # rest\<rparr>))"

section \<open>Writing values and closing sub-packets\<close>

text \<open>
  The loop of \<open>put_value\<close> stores the low byte of \<open>value\<close> at the last position and shifts, towards
  lower addresses; it returns the bytes from the lowest address on and the shifted value.
\<close>

fun put_value_loop :: "nat \<Rightarrow> nat \<Rightarrow> byte list \<Rightarrow> byte list \<times> nat" where
  "put_value_loop 0 value acc = (acc, value)"
| "put_value_loop (Suc len) value acc = put_value_loop len (value div 256) (of_nat (value mod 256) # acc)"

definition put_value :: "WPACKET \<Rightarrow> nat option \<Rightarrow> nat \<Rightarrow> nat \<Rightarrow> (bool \<times> WPACKET) outcome" where
  "put_value p data value len =
     (case data of
        None \<Rightarrow> Ret (True, p)
      | Some off \<Rightarrow>
          let (bs, value') = put_value_loop len value [] in
          obind (wpacket_store p off bs) (\<lambda>p'. Ret (\<not> value' > 0, p')))"

definition WPACKET_put_bytes :: "MEM \<Rightarrow> WPACKET \<Rightarrow> nat \<Rightarrow> nat \<Rightarrow> (bool \<times> WPACKET) outcome" where
  "WPACKET_put_bytes m p val sz =
     (if \<not> sz \<le> 8 then Ret (False, p)
      else case WPACKET_allocate_bytes m p sz of
        (False, a, p') \<Rightarrow> Ret (False, p')
      | (True, a, p') \<Rightarrow> put_value p' a val sz)"

text \<open>\<open>numlenbytes = 1; while ((tmplen = tmplen >> 8) > 0) numlenbytes++;\<close>\<close>

fun num_len_bytes :: "nat \<Rightarrow> nat" where
  "num_len_bytes tmplen = (if tmplen div 256 > 0 then Suc (num_len_bytes (tmplen div 256)) else 1)"

declare num_len_bytes.simps [simp del]

definition wpacket_intern_close ::
    "MEM \<Rightarrow> WPACKET \<Rightarrow> WPACKET_SUB \<Rightarrow> WPACKET_SUB list \<Rightarrow> bool \<Rightarrow> (bool \<times> WPACKET) outcome" where
  "wpacket_intern_close m p sub parent doclose =
     (let packlen = sz_sub (w_written p) (sub_pwritten sub);
          abandon = sub_flags sub AND WPACKET_FLAGS_ABANDON_ON_ZERO_LENGTH \<noteq> 0;
          finish = (\<lambda>p. Ret (True, if doclose then p\<lparr>w_subs := parent\<rparr> else p))
      in
      if packlen = 0 \<and> sub_flags sub AND WPACKET_FLAGS_NON_ZERO_LENGTH \<noteq> 0 then Ret (False, p)
      else if packlen = 0 \<and> abandon \<and> \<not> doclose then Ret (False, p)
      else
        let (p, sub) =
          (if packlen = 0 \<and> abandon
           then (if sz_sub (w_curr p) (sub_lenbytes sub) = sub_packet_len sub
                 then p\<lparr>w_written := sz_sub (w_written p) (sub_lenbytes sub),
                        w_curr := sz_sub (w_curr p) (sub_lenbytes sub)\<rparr>
                 else p,
                 sub\<lparr>sub_packet_len := 0, sub_lenbytes := 0\<rparr>)
           else (p, sub))
        in
        if sub_lenbytes sub > 0 then
          (case GETBUF p of
             None \<Rightarrow> finish p
           | Some buf \<Rightarrow>
               wthen (put_value p (Some (sub_packet_len sub)) packlen (sub_lenbytes sub)) finish)
        else if w_endfirst p \<and> parent \<noteq> [] \<and> (packlen \<noteq> 0 \<or> \<not> abandon) then
          let numlenbytes = num_len_bytes packlen in
          wthen (WPACKET_put_bytes m p packlen numlenbytes) (\<lambda>p.
            if packlen > 0x7f
            then wthen (WPACKET_put_bytes m p (numlenbytes OR 0x80) 1) finish
            else finish p)
        else finish p)"

fun fill_lengths_loop :: "MEM \<Rightarrow> WPACKET \<Rightarrow> WPACKET_SUB list \<Rightarrow> (bool \<times> WPACKET) outcome" where
  "fill_lengths_loop m p [] = Ret (True, p)"
| "fill_lengths_loop m p (sub # parent) =
     wthen (wpacket_intern_close m p sub parent False) (\<lambda>p'. fill_lengths_loop m p' parent)"

definition WPACKET_fill_lengths :: "MEM \<Rightarrow> WPACKET \<Rightarrow> (bool \<times> WPACKET) outcome" where
  "WPACKET_fill_lengths m p =
     (if w_subs p = [] then Ret (False, p) else fill_lengths_loop m p (w_subs p))"

definition WPACKET_close :: "MEM \<Rightarrow> WPACKET \<Rightarrow> (bool \<times> WPACKET) outcome" where
  "WPACKET_close m p =
     (case w_subs p of
        [] \<Rightarrow> Ret (False, p)
      | [sub] \<Rightarrow> Ret (False, p)
      | sub # parent \<Rightarrow> wpacket_intern_close m p sub parent True)"

definition WPACKET_finish :: "MEM \<Rightarrow> WPACKET \<Rightarrow> (bool \<times> WPACKET) outcome" where
  "WPACKET_finish m p =
     (case w_subs p of
        [sub] \<Rightarrow> obind (wpacket_intern_close m p sub [] True) (\<lambda>(ret, p').
                   Ret (ret, if ret then p'\<lparr>w_subs := []\<rparr> else p'))
      | _ \<Rightarrow> Ret (False, p))"

definition WPACKET_start_sub_packet_len :: "MEM \<Rightarrow> WPACKET \<Rightarrow> nat \<Rightarrow> bool \<times> WPACKET" where
  "WPACKET_start_sub_packet_len m p lenbytes =
     (if w_subs p = [] then (False, p)
      else if lenbytes > 0 \<and> w_endfirst p then (False, p)
      else if \<not> m_ok m SIZEOF_SUB then (False, p)
      else
        let sub = zero_sub\<lparr>sub_pwritten := sz_add (w_written p) lenbytes, sub_lenbytes := lenbytes\<rparr> in
        if lenbytes = 0 then (True, p\<lparr>w_subs := sub\<lparr>sub_packet_len := 0\<rparr> # w_subs p\<rparr>)
        else
          case WPACKET_allocate_bytes m
                 (p\<lparr>w_subs := sub\<lparr>sub_packet_len := w_written p\<rparr> # w_subs p\<rparr>) lenbytes of
            (ok, a, p') \<Rightarrow> (ok, p'))"

definition WPACKET_start_sub_packet :: "MEM \<Rightarrow> WPACKET \<Rightarrow> bool \<times> WPACKET" where
  "WPACKET_start_sub_packet m p = WPACKET_start_sub_packet_len m p 0"

definition WPACKET_sub_allocate_bytes ::
    "MEM \<Rightarrow> WPACKET \<Rightarrow> nat \<Rightarrow> nat \<Rightarrow> (bool \<times> nat option \<times> WPACKET) outcome" where
  "WPACKET_sub_allocate_bytes m p len lenbytes =
     (case WPACKET_start_sub_packet_len m p lenbytes of
        (False, p1) \<Rightarrow> Ret (False, None, p1)
      | (True, p1) \<Rightarrow>
          (case WPACKET_allocate_bytes m p1 len of
             (False, a, p2) \<Rightarrow> Ret (False, None, p2)
           | (True, a, p2) \<Rightarrow> obind (WPACKET_close m p2) (\<lambda>(ok, p3). Ret (ok, a, p3))))"

definition WPACKET_set_max_size :: "WPACKET \<Rightarrow> nat \<Rightarrow> bool \<times> WPACKET" where
  "WPACKET_set_max_size p maxsize =
     (if w_subs p = [] then (False, p)
      else
        let lenbytes = sub_lenbytes (last (w_subs p));
            lenbytes = (if lenbytes = 0 then 8 else lenbytes)
        in if maxmaxsize lenbytes < maxsize \<or> maxsize < w_written p then (False, p)
           else (True, p\<lparr>w_maxsize := maxsize\<rparr>))"

definition WPACKET_memset :: "MEM \<Rightarrow> WPACKET \<Rightarrow> byte \<Rightarrow> nat \<Rightarrow> (bool \<times> WPACKET) outcome" where
  "WPACKET_memset m p ch len =
     (if len = 0 then Ret (True, p)
      else case WPACKET_allocate_bytes m p len of
        (False, dest, p') \<Rightarrow> Ret (False, p')
      | (True, None, p') \<Rightarrow> Ret (True, p')
      | (True, Some off, p') \<Rightarrow> obind (wpacket_store p' off (replicate len ch)) (\<lambda>p''. Ret (True, p'')))"

definition WPACKET_memcpy :: "MEM \<Rightarrow> WPACKET \<Rightarrow> byte list \<Rightarrow> (bool \<times> WPACKET) outcome" where
  "WPACKET_memcpy m p src =
     (let len = length src in
      if len = 0 then Ret (True, p)
      else case WPACKET_allocate_bytes m p len of
        (False, dest, p') \<Rightarrow> Ret (False, p')
      | (True, None, p') \<Rightarrow> Ret (True, p')
      | (True, Some off, p') \<Rightarrow> obind (wpacket_store p' off src) (\<lambda>p''. Ret (True, p'')))"

definition WPACKET_sub_memcpy :: "MEM \<Rightarrow> WPACKET \<Rightarrow> byte list \<Rightarrow> nat \<Rightarrow> (bool \<times> WPACKET) outcome" where
  "WPACKET_sub_memcpy m p src lenbytes =
     wthen (Ret (WPACKET_start_sub_packet_len m p lenbytes)) (\<lambda>p.
     wthen (WPACKET_memcpy m p src) (\<lambda>p. WPACKET_close m p))"

definition WPACKET_get_total_written :: "WPACKET \<Rightarrow> nat" where
  "WPACKET_get_total_written p = w_written p"

definition WPACKET_get_length :: "WPACKET \<Rightarrow> nat option" where
  "WPACKET_get_length p =
     (case w_subs p of [] \<Rightarrow> None | sub # _ \<Rightarrow> Some (sz_sub (w_written p) (sub_pwritten sub)))"

definition WPACKET_is_null_buf :: "WPACKET \<Rightarrow> bool" where
  "WPACKET_is_null_buf p \<longleftrightarrow> w_buf p = None \<and> w_staticbuf p = None"

definition WPACKET_cleanup :: "WPACKET \<Rightarrow> WPACKET" where
  "WPACKET_cleanup p = p\<lparr>w_subs := []\<rparr>"

section \<open>Well-formed writers\<close>

text \<open>
  Along the chain of open sub-packets the recorded positions descend: the length field of a
  sub-packet, when it has one, ends where its contents start, and everything its parent recorded
  lies before that field.
\<close>

fun subs_wf :: "bool \<Rightarrow> nat \<Rightarrow> WPACKET_SUB list \<Rightarrow> bool" where
  "subs_wf e lim [] = True"
| "subs_wf e lim (s # ss) =
     (sub_pwritten s \<le> lim \<and> sub_lenbytes s \<le> sub_pwritten s
      \<and> (sub_lenbytes s > 0 \<longrightarrow> \<not> e \<and> sub_packet_len s + sub_lenbytes s = sub_pwritten s)
      \<and> subs_wf e (sub_pwritten s - sub_lenbytes s) ss)"

definition wpacket_wf :: "WPACKET \<Rightarrow> bool" where
  "wpacket_wf p \<longleftrightarrow>
     w_curr p = w_written p \<and> w_written p \<le> w_maxsize p \<and> w_maxsize p < SIZE_MOD
     \<and> (\<forall>b. w_staticbuf p = Some b \<longrightarrow> w_buf p = None \<and> w_maxsize p \<le> length b \<and> b \<noteq> [])
     \<and> (\<forall>bm. w_buf p = Some bm \<longrightarrow> buf_wf bm \<and> w_written p \<le> b_length bm \<and> \<not> w_endfirst p)
     \<and> subs_wf (w_endfirst p) (w_written p) (w_subs p)"

definition has_obj :: "WPACKET \<Rightarrow> bool" where
  "has_obj p \<longleftrightarrow> w_staticbuf p \<noteq> None \<or> w_buf p \<noteq> None"

text \<open>What has been written so far, in buffer order.\<close>

definition wpacket_bytes :: "WPACKET \<Rightarrow> byte list" where
  "wpacket_bytes p =
     (case GETBUF p of
        None \<Rightarrow> []
      | Some b \<Rightarrow> if w_endfirst p then drop (w_maxsize p - w_written p) (take (w_maxsize p) b)
                  else take (w_written p) b)"

text \<open>\<open>p'\<close> is \<open>p\<close> with \<open>bs\<close> written to it, in the direction the writer works.\<close>

definition wpacket_ext :: "WPACKET \<Rightarrow> byte list \<Rightarrow> WPACKET \<Rightarrow> bool" where
  "wpacket_ext p bs p' \<longleftrightarrow>
     wpacket_wf p' \<and> w_subs p' = w_subs p \<and> w_maxsize p' = w_maxsize p \<and> w_endfirst p' = w_endfirst p
     \<and> w_written p' = w_written p + length bs
     \<and> (w_buf p' = None \<longleftrightarrow> w_buf p = None) \<and> (w_staticbuf p' = None \<longleftrightarrow> w_staticbuf p = None)
     \<and> (has_obj p \<longrightarrow>
          wpacket_bytes p' = (if w_endfirst p then bs @ wpacket_bytes p else wpacket_bytes p @ bs))"

lemma wpacket_wfD:
  assumes "wpacket_wf p"
  shows "w_curr p = w_written p" and "w_written p \<le> w_maxsize p" and "w_maxsize p < SIZE_MOD"
    and "subs_wf (w_endfirst p) (w_written p) (w_subs p)"
  using assms by (simp_all add: wpacket_wf_def)

lemma wpacket_wf_staticD:
  "wpacket_wf p \<Longrightarrow> w_staticbuf p = Some b \<Longrightarrow> w_buf p = None \<and> w_maxsize p \<le> length b \<and> b \<noteq> []"
  by (simp add: wpacket_wf_def)

lemma wpacket_wf_bufD:
  "wpacket_wf p \<Longrightarrow> w_buf p = Some bm \<Longrightarrow>
   buf_wf bm \<and> w_written p \<le> b_length bm \<and> \<not> w_endfirst p \<and> w_staticbuf p = None"
  by (cases "w_staticbuf p") (auto simp: wpacket_wf_def)

lemma wpacket_ext_refl [simp]: "wpacket_wf p \<Longrightarrow> wpacket_ext p [] p"
  by (simp add: wpacket_ext_def)

lemma wpacket_ext_trans:
  "wpacket_ext p xs q \<Longrightarrow> wpacket_ext q ys r \<Longrightarrow>
   wpacket_ext p (if w_endfirst p then ys @ xs else xs @ ys) r"
  by (auto simp: wpacket_ext_def has_obj_def)

text \<open>What every operation keeps, also when it fails: the bytes written before the call.\<close>

definition wpacket_keeps :: "WPACKET \<Rightarrow> WPACKET \<Rightarrow> bool" where
  "wpacket_keeps p p' \<longleftrightarrow>
     w_endfirst p' = w_endfirst p \<and> has_obj p' = has_obj p
     \<and> (has_obj p \<longrightarrow> (\<exists>bs. wpacket_bytes p' = (if w_endfirst p then bs @ wpacket_bytes p else wpacket_bytes p @ bs)))"

lemma wpacket_ext_obj: "wpacket_ext p bs p' \<Longrightarrow> has_obj p' = has_obj p"
  by (simp add: wpacket_ext_def has_obj_def)

lemma wpacket_ext_keeps: "wpacket_ext p bs p' \<Longrightarrow> wpacket_keeps p p'"
  using wpacket_ext_obj [of p bs p'] by (auto simp: wpacket_ext_def wpacket_keeps_def)

lemma wpacket_keeps_refl [simp]: "wpacket_keeps p p"
  by (simp add: wpacket_keeps_def exI [of _ "[]"])

lemma wpacket_keeps_trans: "wpacket_keeps p q \<Longrightarrow> wpacket_keeps q r \<Longrightarrow> wpacket_keeps p r"
  by (auto simp: wpacket_keeps_def)

lemma length_wpacket_bytes:
  assumes "wpacket_wf p" and "has_obj p"
  shows "length (wpacket_bytes p) = w_written p"
proof (cases "w_staticbuf p")
  case (Some b)
  with assms show ?thesis
    using wpacket_wf_staticD [OF assms(1) Some] wpacket_wfD [OF assms(1)]
    by (simp add: wpacket_bytes_def GETBUF_def)
next
  case None
  with assms(2) obtain bm where bm: "w_buf p = Some bm" by (auto simp: has_obj_def)
  show ?thesis
    using wpacket_wf_bufD [OF assms(1) bm] None bm
    by (auto simp: wpacket_bytes_def GETBUF_def buf_wf_def)
qed

section \<open>Reserving, allocating and storing\<close>

lemma reserve_newlen_ge: "w \<le> blen \<Longrightarrow> w + len \<le> SIZE_MAX \<Longrightarrow> w + len \<le> reserve_newlen len blen"
  by (auto simp: reserve_newlen_def Let_def)

lemma reserve_newlen_pos: "0 < reserve_newlen len blen"
  by (auto simp: reserve_newlen_def Let_def)

lemma BUF_MEM_grow_reserve:
  assumes wf: "buf_wf bm" "w \<le> b_length bm" and fits: "w + len \<le> SIZE_MAX"
    and grow: "BUF_MEM_grow ok junk bm (reserve_newlen len (b_length bm)) = (r, bm')"
  shows "buf_wf bm'" and "w \<le> b_length bm'" and "take w (b_data bm') = take w (b_data bm)"
    and "r \<noteq> 0 \<Longrightarrow> w + len \<le> b_length bm'"
proof -
  let ?n = "reserve_newlen len (b_length bm)"
  note spec = BUF_MEM_grow_spec [OF wf(1) grow]
  note ge = reserve_newlen_ge [OF wf(2) fits]
  show wf': "buf_wf bm'" by (rule spec(1))
  have grown: "b_length bm' = ?n \<and> take w (b_data bm') = take w (b_data bm)" if "r = ?n"
  proof -
    have b: "buf_bytes bm' = take ?n (buf_bytes bm) @ replicate (?n - b_length bm) 0" "b_length bm' = ?n"
      using spec(3) [OF that reserve_newlen_pos] by auto
    have "take w (buf_bytes bm') = take w (buf_bytes bm)"
      using b(1) wf ge by (auto simp: buf_bytes_def buf_wf_def min_def)
    moreover have "w \<le> b_length bm'" using b(2) ge by simp
    ultimately show ?thesis
      using b(2) wf(2) by (simp add: buf_bytes_def min_def split: if_splits)
  qed
  then show "w \<le> b_length bm'" "take w (b_data bm') = take w (b_data bm)"
    using spec(2) wf(2) ge by auto
  show "r \<noteq> 0 \<Longrightarrow> w + len \<le> b_length bm'" using spec(2) grown ge by auto
qed

lemma wpacket_bytes_static:
  "w_staticbuf p = Some b \<Longrightarrow> wpacket_bytes p =
     (if w_endfirst p then drop (w_maxsize p - w_written p) (take (w_maxsize p) b) else take (w_written p) b)"
  by (simp add: wpacket_bytes_def GETBUF_def)

lemma wpacket_bytes_buf:
  "w_staticbuf p = None \<Longrightarrow> w_buf p = Some bm \<Longrightarrow> \<not> w_endfirst p \<Longrightarrow> wpacket_bytes p = take (w_written p) (b_data bm)"
  by (simp add: wpacket_bytes_def GETBUF_def)

text \<open>Reserving changes at most the allocation of the growable buffer.\<close>

definition wpacket_same :: "WPACKET \<Rightarrow> WPACKET \<Rightarrow> bool" where
  "wpacket_same p p' \<longleftrightarrow>
     (\<exists>buf. p' = p\<lparr>w_buf := buf\<rparr> \<and> (buf = None \<longleftrightarrow> w_buf p = None)) \<and> wpacket_bytes p' = wpacket_bytes p"

lemma reserve_cases:
  assumes wf: "wpacket_wf p" and res: "WPACKET_reserve_bytes m p len = (ok, a, p')"
  shows "wpacket_wf p'" and "wpacket_same p p'"
    and "ok \<Longrightarrow> w_subs p \<noteq> [] \<and> 0 < len \<and> w_written p + len \<le> w_maxsize p"
    and "ok \<Longrightarrow> w_buf p' = Some bm \<Longrightarrow> w_written p + len \<le> b_length bm"
    and "ok \<Longrightarrow> has_obj p \<Longrightarrow> a = Some (if w_endfirst p then w_maxsize p - w_written p - len else w_written p)"
proof -
  note w = wpacket_wfD [OF wf]
  have sub: "sz_sub (w_maxsize p) (w_written p) = w_maxsize p - w_written p" using w by simp
  have same: "wpacket_same p p" by (auto simp: wpacket_same_def intro: exI [of _ "w_buf p"])
  have "wpacket_wf p' \<and> wpacket_same p p' \<and>
    (ok \<longrightarrow> w_subs p \<noteq> [] \<and> 0 < len \<and> w_written p + len \<le> w_maxsize p
      \<and> (\<forall>bm. w_buf p' = Some bm \<longrightarrow> w_written p + len \<le> b_length bm)
      \<and> (has_obj p \<longrightarrow> a = Some (if w_endfirst p then w_maxsize p - w_written p - len else w_written p)))"
  proof (cases "w_subs p = [] \<or> len = 0 \<or> w_maxsize p - w_written p < len")
    case True
    then have "WPACKET_reserve_bytes m p len = (False, None, p)"
      by (auto simp add: WPACKET_reserve_bytes_def sub)
    then show ?thesis using res wf same by simp
  next
    case False
    then have fits: "w_written p + len \<le> w_maxsize p" using w by auto
    show ?thesis
    proof (cases "w_buf p")
      case None
      then have "WPACKET_reserve_bytes m p len =
          (True, map_option (\<lambda>c. if w_endfirst p then c - len else c) (WPACKET_get_curr p), p)"
        using False by (simp add: WPACKET_reserve_bytes_def sub)
      then show ?thesis using res wf same False fits w None
        by (auto simp: WPACKET_get_curr_def GETBUF_def has_obj_def)
    next
      case (Some bm)
      note b = wpacket_wf_bufD [OF wf Some]
      have bl: "sz_sub (b_length bm) (w_written p) = b_length bm - w_written p"
        using b by (auto simp: buf_wf_def)
      show ?thesis
      proof (cases "b_length bm - w_written p < len")
        case True
        obtain r bm' where g: "BUF_MEM_grow (m_ok m) (m_junk m) bm (reserve_newlen len (b_length bm)) = (r, bm')"
          by fastforce
        have "w_written p + len \<le> SIZE_MAX" using fits w by simp
        then have gr: "buf_wf bm'" "w_written p \<le> b_length bm'"
          "take (w_written p) (b_data bm') = take (w_written p) (b_data bm)"
          "r \<noteq> 0 \<Longrightarrow> w_written p + len \<le> b_length bm'"
          using BUF_MEM_grow_reserve [OF _ _ _ g, of "w_written p"] b by blast+
        have p': "p' = p\<lparr>w_buf := Some bm'\<rparr>" "ok \<longleftrightarrow> r \<noteq> 0"
          and a: "ok \<Longrightarrow> a = WPACKET_get_curr p'"
          using res True False Some g b
          by (auto simp: WPACKET_reserve_bytes_def sub bl option.map_ident split: if_splits)
        have "wpacket_wf p'" using wf p' gr b by (auto simp: wpacket_wf_def)
        moreover have "wpacket_same p p'"
          using p' Some b gr by (auto simp: wpacket_same_def wpacket_bytes_buf)
        moreover have "ok \<Longrightarrow> b_data bm' \<noteq> []"
          using p'(2) gr b False by (fastforce simp: buf_wf_def)
        ultimately show ?thesis
          using p' a fits False gr b w by (auto simp: WPACKET_get_curr_def GETBUF_def)
      next
        case False2: False
        then have "b_data bm \<noteq> []" using b False by (auto simp: buf_wf_def)
        then show ?thesis using res wf same False False2 fits w Some b
          by (auto simp: WPACKET_reserve_bytes_def sub bl WPACKET_get_curr_def GETBUF_def)
      qed
    qed
  qed
  then show "wpacket_wf p'" "wpacket_same p p'"
    "ok \<Longrightarrow> w_subs p \<noteq> [] \<and> 0 < len \<and> w_written p + len \<le> w_maxsize p"
    "ok \<Longrightarrow> w_buf p' = Some bm \<Longrightarrow> w_written p + len \<le> b_length bm"
    "ok \<Longrightarrow> has_obj p \<Longrightarrow> a = Some (if w_endfirst p then w_maxsize p - w_written p - len else w_written p)"
    by blast+
qed

text \<open>
  Allocating and then filling the allocated bytes: the store is inside the object, and the writer
  is extended by them. For a null writer there is no object and the count alone advances.
\<close>

lemma wpacket_same_simps:
  assumes "wpacket_same p p'"
  shows "w_subs p' = w_subs p" "w_maxsize p' = w_maxsize p" "w_endfirst p' = w_endfirst p"
    "w_written p' = w_written p" "w_curr p' = w_curr p" "w_staticbuf p' = w_staticbuf p"
    "has_obj p' = has_obj p" "wpacket_bytes p' = wpacket_bytes p"
  using assms by (auto simp: wpacket_same_def has_obj_def)

lemma allocate_cases:
  assumes wf: "wpacket_wf p" and alloc: "WPACKET_allocate_bytes m p len = (ok, a, p')"
  obtains (failed) q where "\<not> ok" "a = None" "p' = q" "wpacket_wf q" "wpacket_same p q"
  | (granted) q where "ok" "p' = q\<lparr>w_written := w_written p + len, w_curr := w_written p + len\<rparr>"
      "wpacket_wf q" "wpacket_same p q" "w_subs p \<noteq> []" "0 < len" "w_written p + len \<le> w_maxsize p"
      "\<And>bm. w_buf q = Some bm \<Longrightarrow> w_written p + len \<le> b_length bm"
      "has_obj p \<Longrightarrow> a = Some (if w_endfirst p then w_maxsize p - w_written p - len else w_written p)"
      "\<not> has_obj p \<Longrightarrow> a = None"
proof -
  obtain ok1 a1 q where r: "WPACKET_reserve_bytes m p len = (ok1, a1, q)" by (metis prod_cases3)
  note c = reserve_cases [OF wf r]
  note s = wpacket_same_simps [OF c(2)]
  show thesis
  proof (cases ok1)
    case False
    with alloc r failed [of q] c show thesis by (simp add: WPACKET_allocate_bytes_def)
  next
    case True
    note t = c(3) [OF True]
    have "w_written p + len < SIZE_MOD" using t wpacket_wfD [OF wf] by simp
    moreover have "a1 = None" if "\<not> has_obj p"
      using r that True
      by (auto simp: WPACKET_reserve_bytes_def has_obj_def WPACKET_get_curr_def GETBUF_def split: if_splits)
    ultimately show thesis
      using alloc r True granted [of q] c t s wpacket_wfD [OF wf] by (simp add: WPACKET_allocate_bytes_def)
  qed
qed

lemma subs_wf_mono: "subs_wf e n ss \<Longrightarrow> n \<le> n' \<Longrightarrow> subs_wf e n' ss"
  by (cases ss) auto

lemma alloc_wf:
  assumes "wpacket_wf q" "w_written q + len \<le> w_maxsize q"
    and "\<And>bm. w_buf q = Some bm \<Longrightarrow> w_written q + len \<le> b_length bm"
  shows "wpacket_wf (q\<lparr>w_written := w_written q + len, w_curr := w_written q + len\<rparr>)"
  using assms by (auto simp: wpacket_wf_def intro: subs_wf_mono)

lemma drop_take_patch:
  assumes "n + length bs \<le> M" and "M \<le> length b"
  shows "drop (M - n - length bs) (take M (patch b (M - n - length bs) bs))
    = bs @ drop (M - n) (take M b)"
proof -
  let ?o = "M - n - length bs"
  have "drop ?o (take M (patch b ?o bs)) = take (n + length bs) (drop ?o (patch b ?o bs))"
    using assms by (simp add: drop_take)
  also have "drop ?o (patch b ?o bs) = bs @ drop (M - n) b"
    using assms by (simp add: patch_def)
  finally show ?thesis using assms by (simp add: drop_take)
qed

lemma store_ext:
  assumes wf: "wpacket_wf q" and obj: "has_obj q" and fits: "w_written q + length bs \<le> w_maxsize q"
    and buf: "\<And>bm. w_buf q = Some bm \<Longrightarrow> w_written q + length bs \<le> b_length bm"
  defines "p' \<equiv> q\<lparr>w_written := w_written q + length bs, w_curr := w_written q + length bs\<rparr>"
  shows "\<exists>r. wpacket_store p' (if w_endfirst q then w_maxsize q - w_written q - length bs else w_written q) bs
           = Ret r \<and> wpacket_ext q bs r"
proof (cases "w_staticbuf q")
  case (Some b)
  note b = wpacket_wf_staticD [OF wf Some]
  let ?o = "if w_endfirst q then w_maxsize q - w_written q - length bs else w_written q"
  let ?r = "p'\<lparr>w_staticbuf := Some (patch b ?o bs)\<rparr>"
  have o: "?o + length bs \<le> length b" using b fits by auto
  have ne: "patch b ?o bs \<noteq> []" using b length_patch [OF o] by (metis length_0_conv)
  have "wpacket_store p' ?o bs = Ret ?r"
    using o Some by (simp add: wpacket_store_def p'_def)
  moreover have "wpacket_wf ?r"
    using wf b o fits ne Some by (auto simp: wpacket_wf_def p'_def intro: subs_wf_mono)
  moreover have "wpacket_bytes ?r =
      (if w_endfirst q then bs @ wpacket_bytes q else wpacket_bytes q @ bs)"
    using fits b o drop_take_patch [of "w_written q" bs "w_maxsize q" b]
      take_patch_end [of "w_written q" bs b]
    by (simp add: wpacket_bytes_def GETBUF_def Some p'_def)
  ultimately show ?thesis using obj Some by (intro exI [of _ ?r]) (simp add: wpacket_ext_def p'_def has_obj_def)
next
  case None
  with obj obtain bm where bm: "w_buf q = Some bm" by (auto simp: has_obj_def)
  note b = wpacket_wf_bufD [OF wf bm]
  let ?r = "p'\<lparr>w_buf := Some (bm\<lparr>b_data := patch (b_data bm) (w_written q) bs\<rparr>)\<rparr>"
  have o: "w_written q + length bs \<le> length (b_data bm)" using buf [OF bm] b by (auto simp: buf_wf_def)
  have "wpacket_store p' (w_written q) bs = Ret ?r" using o None bm by (simp add: wpacket_store_def p'_def)
  moreover have "wpacket_wf ?r"
    using wf b o fits None bm buf [OF bm] by (auto simp: wpacket_wf_def buf_wf_def p'_def intro: subs_wf_mono)
  moreover have "wpacket_bytes ?r = wpacket_bytes q @ bs"
    using take_patch_end [OF o] b None bm by (simp add: wpacket_bytes_buf p'_def)
  ultimately show ?thesis using b bm by (intro exI [of _ ?r]) (auto simp: wpacket_ext_def p'_def has_obj_def)
qed

section \<open>Writers\<close>

text \<open>
  The contract of an operation that writes a given payload, which may depend on the direction of
  the writer: it never stores outside the object, keeps what was written before even when it fails,
  appends exactly its payload (or prepends it, for a writer that works from the end) when it
  succeeds, and succeeds whenever the payload is encodable and there is room for it in a fixed buffer.
\<close>

locale wpacket_writer =
  fixes op :: "MEM \<Rightarrow> WPACKET \<Rightarrow> (bool \<times> WPACKET) outcome"
    and payload :: "bool \<Rightarrow> byte list"
    and encodable :: "bool \<Rightarrow> bool"
  assumes op_spec: "wpacket_wf p \<Longrightarrow> w_subs p \<noteq> [] \<Longrightarrow>
      \<exists>ok p'. op m p = Ret (ok, p') \<and> wpacket_keeps p p' \<and> (ok \<longrightarrow> wpacket_ext p (payload (w_endfirst p)) p')"
    and op_succeeds: "wpacket_wf p \<Longrightarrow> w_subs p \<noteq> [] \<Longrightarrow> w_buf p = None \<Longrightarrow> m_ok m SIZEOF_SUB \<Longrightarrow>
      encodable (w_endfirst p) \<Longrightarrow> w_written p + length (payload (w_endfirst p)) \<le> w_maxsize p \<Longrightarrow>
      \<exists>p'. op m p = Ret (True, p')"

lemma wthen_Ret [simp]: "wthen (Ret (True, p)) f = f p" "wthen (Ret (False, p)) f = Ret (False, p)"
  by (simp_all add: wthen_def)

text \<open>Allocation followed by a store, the shape of \<open>memcpy\<close>, \<open>memset\<close> and \<open>put_bytes\<close>.\<close>

lemma reserve_succeeds:
  assumes "wpacket_wf p" "w_subs p \<noteq> []" "w_buf p = None" "0 < len" "w_written p + len \<le> w_maxsize p"
  shows "\<exists>a p'. WPACKET_allocate_bytes m p len = (True, a, p')"
  using assms wpacket_wfD [OF assms(1)] by (simp add: WPACKET_allocate_bytes_def WPACKET_reserve_bytes_def)

lemma allocate_store:
  assumes wf: "wpacket_wf p" and alloc: "WPACKET_allocate_bytes m p (length bs) = (ok, a, p')"
  shows "\<not> ok \<Longrightarrow> wpacket_keeps p p'"
    and "ok \<Longrightarrow> a = None \<Longrightarrow> wpacket_ext p bs p'"
    and "ok \<Longrightarrow> a = Some off \<Longrightarrow> \<exists>r. wpacket_store p' off bs = Ret r \<and> wpacket_ext p bs r"
proof -
  have "(\<not> ok \<longrightarrow> wpacket_keeps p p') \<and> (ok \<and> a = None \<longrightarrow> wpacket_ext p bs p')
    \<and> (ok \<and> a = Some off \<longrightarrow> (\<exists>r. wpacket_store p' off bs = Ret r \<and> wpacket_ext p bs r))"
    using wf alloc
  proof (cases rule: allocate_cases)
    case (failed q)
    then show ?thesis
      using wpacket_same_simps [OF failed(5)] by (simp add: wpacket_keeps_def exI [of _ "[]"])
  next
    case (granted q)
    note s = wpacket_same_simps [OF granted(4)]
    have buf: "w_buf q = None \<longleftrightarrow> w_buf p = None" using granted(4) by (auto simp: wpacket_same_def)
    have ext: "wpacket_ext q bs r \<Longrightarrow> wpacket_ext p bs r" for r
      using s buf by (simp add: wpacket_ext_def)
    have p': "p' = q\<lparr>w_written := w_written q + length bs, w_curr := w_written q + length bs\<rparr>"
      using granted(2) s by simp
    have "wpacket_wf p'" unfolding p' by (rule alloc_wf) (use granted s in auto)
    then have none: "a = None \<Longrightarrow> wpacket_ext p bs p'"
      using granted s buf p' by (cases "has_obj p") (auto simp: wpacket_ext_def)
    have "\<exists>r. wpacket_store p' off bs = Ret r \<and> wpacket_ext p bs r" if "a = Some off"
    proof -
      have obj: "has_obj q" using granted(10) that s by auto
      from store_ext [OF granted(3) this, of bs] show ?thesis
        unfolding p' using granted s ext that obj by (auto split: if_splits)
    qed
    with none granted(1) show ?thesis by simp
  qed
  then show "\<not> ok \<Longrightarrow> wpacket_keeps p p'" "ok \<Longrightarrow> a = None \<Longrightarrow> wpacket_ext p bs p'"
    "ok \<Longrightarrow> a = Some off \<Longrightarrow> \<exists>r. wpacket_store p' off bs = Ret r \<and> wpacket_ext p bs r" by blast+
qed

text \<open>\<open>put_value\<close> stores the network-order encoding and fails when it had to truncate.\<close>

lemma put_value_loop_eq: "put_value_loop n v acc = (be_bytes n v @ acc, v div 256 ^ n)"
  by (induction n arbitrary: v acc) (simp_all add: div_mult2_eq)

lemma div_pow_eq_0: "(v::nat) div 256 ^ n = 0 \<longleftrightarrow> v < 256 ^ n"
  by (simp add: div_eq_0_iff)

interpretation memcpy: wpacket_writer "\<lambda>m p. WPACKET_memcpy m p src" "\<lambda>_. src" "\<lambda>_. True"
proof unfold_locales
  fix p m
  assume wf: "wpacket_wf p"
  obtain ok a p' where al: "WPACKET_allocate_bytes m p (length src) = (ok, a, p')" by (metis prod_cases3)
  note c = allocate_store [OF wf al]
  show "\<exists>ok p'. WPACKET_memcpy m p src = Ret (ok, p') \<and> wpacket_keeps p p' \<and> (ok \<longrightarrow> wpacket_ext p src p')"
    using c wf al by (cases ok; cases a) (auto simp: WPACKET_memcpy_def dest: wpacket_ext_keeps)
  assume "w_subs p \<noteq> []" "w_buf p = None" "w_written p + length src \<le> w_maxsize p"
  then show "\<exists>p'. WPACKET_memcpy m p src = Ret (True, p')"
    using c al reserve_succeeds [OF wf, of "length src" m] by (cases a) (auto simp: WPACKET_memcpy_def)
qed

interpretation memset: wpacket_writer "\<lambda>m p. WPACKET_memset m p ch n" "\<lambda>_. replicate n ch" "\<lambda>_. True"
proof unfold_locales
  fix p m
  assume wf: "wpacket_wf p"
  obtain ok a p' where al: "WPACKET_allocate_bytes m p (length (replicate n ch)) = (ok, a, p')" by (metis prod_cases3)
  note c = allocate_store [OF wf al]
  show "\<exists>ok p'. WPACKET_memset m p ch n = Ret (ok, p') \<and> wpacket_keeps p p' \<and> (ok \<longrightarrow> wpacket_ext p (replicate n ch) p')"
    using c wf al by (cases ok; cases a) (auto simp: WPACKET_memset_def dest: wpacket_ext_keeps)
  assume "w_subs p \<noteq> []" "w_buf p = None" "w_written p + length (replicate n ch) \<le> w_maxsize p"
  then show "\<exists>p'. WPACKET_memset m p ch n = Ret (True, p')"
    using c al reserve_succeeds [OF wf, of n m] by (cases a) (auto simp: WPACKET_memset_def)
qed

lemma put_bytes_cases:
  assumes wf: "wpacket_wf p"
  shows "\<exists>ok p'. WPACKET_put_bytes m p val n = Ret (ok, p') \<and> wpacket_keeps p p'
    \<and> (ok \<longrightarrow> wpacket_ext p (be_bytes n val) p' \<and> 0 < n \<and> n \<le> 8 \<and> (has_obj p \<longrightarrow> val < 256 ^ n))"
proof -
  obtain ok a p' where al: "WPACKET_allocate_bytes m p n = (ok, a, p')" by (metis prod_cases3)
  then have al': "WPACKET_allocate_bytes m p (length (be_bytes n val)) = (ok, a, p')" by simp
  note c = allocate_store [OF wf al']
  have "ok \<Longrightarrow> 0 < n" using wf al by (rule allocate_cases) auto
  moreover have "ok \<Longrightarrow> has_obj p \<Longrightarrow> a \<noteq> None" using wf al by (rule allocate_cases) auto
  ultimately show ?thesis
    using c wf al by (cases ok; cases a)
      (auto simp: WPACKET_put_bytes_def put_value_def put_value_loop_eq div_pow_eq_0 dest: wpacket_ext_keeps)
qed

interpretation put_bytes: wpacket_writer "\<lambda>m p. WPACKET_put_bytes m p val n" "\<lambda>_. be_bytes n val"
  "\<lambda>_. 0 < n \<and> n \<le> 8 \<and> val < 256 ^ n"
proof unfold_locales
  fix p m
  assume wf: "wpacket_wf p"
  show "\<exists>ok p'. WPACKET_put_bytes m p val n = Ret (ok, p') \<and> wpacket_keeps p p' \<and> (ok \<longrightarrow> wpacket_ext p (be_bytes n val) p')"
    using put_bytes_cases [OF wf, of m val n] by blast
  assume "w_subs p \<noteq> []" "w_buf p = None" "w_written p + length (be_bytes n val) \<le> w_maxsize p"
    and "0 < n \<and> n \<le> 8 \<and> val < 256 ^ n"
  moreover then obtain a p' where al: "WPACKET_allocate_bytes m p (length (be_bytes n val)) = (True, a, p')"
    using reserve_succeeds [OF wf, of n m] by auto
  ultimately show "\<exists>p'. WPACKET_put_bytes m p val n = Ret (True, p')"
    using allocate_store [OF wf al] by (cases a)
      (auto simp: WPACKET_put_bytes_def put_value_def put_value_loop_eq div_pow_eq_0)
qed

section \<open>Sub-packets\<close>

lemma get_curr_subs [simp]: "WPACKET_get_curr (p\<lparr>w_subs := ss\<rparr>) = WPACKET_get_curr p"
  by (simp add: WPACKET_get_curr_def GETBUF_def split: option.split)

lemma reserve_other_subs:
  assumes "w_subs p \<noteq> []" and "ss \<noteq> []"
  shows "WPACKET_reserve_bytes m (p\<lparr>w_subs := ss\<rparr>) n =
    (case WPACKET_reserve_bytes m p n of (ok, a, p') \<Rightarrow> (ok, a, p'\<lparr>w_subs := ss\<rparr>))"
proof -
  have comm: "p\<lparr>w_subs := ss, w_buf := b\<rparr> = p\<lparr>w_buf := b, w_subs := ss\<rparr>" for b by simp
  show ?thesis
    using assms by (cases "w_buf p") (simp_all add: WPACKET_reserve_bytes_def comm split: prod.split)
qed

lemma allocate_other_subs:
  assumes "w_subs p \<noteq> []" and "ss \<noteq> []"
  shows "WPACKET_allocate_bytes m (p\<lparr>w_subs := ss\<rparr>) n =
    (case WPACKET_allocate_bytes m p n of (ok, a, p') \<Rightarrow> (ok, a, p'\<lparr>w_subs := ss\<rparr>))"
  by (simp add: WPACKET_allocate_bytes_def reserve_other_subs [OF assms] split: prod.split bool.split)

lemma alloc_bytes:
  assumes "wpacket_wf p" "wpacket_wf p'" "has_obj p" "\<not> w_endfirst p"
    and p': "p' = p\<lparr>w_written := w_written p + n, w_curr := w_written p + n\<rparr>"
  shows "\<exists>js. length js = n \<and> wpacket_bytes p' = wpacket_bytes p @ js"
proof (intro exI conjI)
  have obj: "has_obj p'" using assms by (simp add: has_obj_def)
  show "length (drop (w_written p) (wpacket_bytes p')) = n"
    using length_wpacket_bytes [OF assms(2) obj] p' by simp
  have "take (w_written p) (wpacket_bytes p') = wpacket_bytes p"
    using assms(4) p' by (auto simp: wpacket_bytes_def GETBUF_def min_def split: option.split)
  then show "wpacket_bytes p' = wpacket_bytes p @ drop (w_written p) (wpacket_bytes p')"
    by (metis append_take_drop_id)
qed

definition new_sub :: "WPACKET \<Rightarrow> nat \<Rightarrow> WPACKET_SUB" where
  "new_sub p n = \<lparr>sub_packet_len = (if n = 0 then 0 else w_written p), sub_lenbytes = n,
                  sub_pwritten = w_written p + n, sub_flags = 0\<rparr>"

text \<open>\<open>p1\<close> is \<open>p\<close> with a sub-packet of \<open>n\<close> length bytes started.\<close>

definition sub_started :: "WPACKET \<Rightarrow> nat \<Rightarrow> WPACKET \<Rightarrow> bool" where
  "sub_started p n p1 \<longleftrightarrow>
     wpacket_wf p1 \<and> w_subs p1 = new_sub p n # w_subs p \<and> w_written p1 = w_written p + n
     \<and> w_maxsize p1 = w_maxsize p \<and> w_endfirst p1 = w_endfirst p \<and> (n > 0 \<longrightarrow> \<not> w_endfirst p)
     \<and> (w_buf p1 = None \<longleftrightarrow> w_buf p = None) \<and> (w_staticbuf p1 = None \<longleftrightarrow> w_staticbuf p = None)
     \<and> (has_obj p \<longrightarrow> (\<exists>js. length js = n \<and> wpacket_bytes p1 = wpacket_bytes p @ js))"

lemma wpacket_bytes_subs [simp]: "wpacket_bytes (p\<lparr>w_subs := ss\<rparr>) = wpacket_bytes p"
  by (simp add: wpacket_bytes_def GETBUF_def split: option.split)

lemma has_obj_subs [simp]: "has_obj (p\<lparr>w_subs := ss\<rparr>) = has_obj p"
  by (simp add: has_obj_def)

lemma wpacket_wf_subs:
  "wpacket_wf p \<Longrightarrow> subs_wf (w_endfirst p) (w_written p) ss \<Longrightarrow> wpacket_wf (p\<lparr>w_subs := ss\<rparr>)"
  by (simp add: wpacket_wf_def)

lemma start_sub_cases:
  assumes wf: "wpacket_wf p" and start: "WPACKET_start_sub_packet_len m p n = (ok, p1)"
  shows "\<not> ok \<Longrightarrow> wpacket_keeps p p1" and "ok \<Longrightarrow> sub_started p n p1"
proof -
  note w = wpacket_wfD [OF wf]
  have "(\<not> ok \<longrightarrow> wpacket_keeps p p1) \<and> (ok \<longrightarrow> sub_started p n p1)"
  proof (cases "w_subs p = [] \<or> n > 0 \<and> w_endfirst p \<or> \<not> m_ok m SIZEOF_SUB")
    case True
    then have "\<not> ok \<and> p1 = p"
      using start by (auto simp: WPACKET_start_sub_packet_len_def split: if_splits)
    then show ?thesis by simp
  next
    case pre: False
    show ?thesis
    proof (cases "n = 0")
      case True
      then have "ok" "p1 = p\<lparr>w_subs := new_sub p n # w_subs p\<rparr>"
        using start pre w by (auto simp: WPACKET_start_sub_packet_len_def zero_sub_def new_sub_def)
      then show ?thesis
        using True wf w by (auto simp: sub_started_def new_sub_def intro!: wpacket_wf_subs)
    next
      case False
      obtain a p' where al: "WPACKET_allocate_bytes m p n = (ok, a, p')" and
        p1: "p1 = p'\<lparr>w_subs := (new_sub p n)\<lparr>sub_pwritten := sz_add (w_written p) n\<rparr> # w_subs p\<rparr>"
        using start pre False
        by (auto simp: WPACKET_start_sub_packet_len_def zero_sub_def new_sub_def allocate_other_subs split: prod.splits)
      from wf al show ?thesis
      proof (cases rule: allocate_cases)
        case (failed q)
        then show ?thesis
          using p1 wpacket_same_simps [OF failed(5)] by (simp add: wpacket_keeps_def exI [of _ "[]"])
      next
        case (granted q)
        note s = wpacket_same_simps [OF granted(4)]
        have buf: "w_buf q = None \<longleftrightarrow> w_buf p = None" using granted(4) by (auto simp: wpacket_same_def)
        have q: "p' = q\<lparr>w_written := w_written q + n, w_curr := w_written q + n\<rparr>" using granted(2) s by simp
        have wf': "wpacket_wf p'" unfolding q by (rule alloc_wf) (use granted s in auto)
        have sub: "p1 = p'\<lparr>w_subs := new_sub p n # w_subs p\<rparr>"
          using p1 granted(7) w by (simp add: new_sub_def)
        have "subs_wf (w_endfirst p') (w_written p') (new_sub p n # w_subs p)"
          using w pre s q False by (simp add: new_sub_def)
        then have "wpacket_wf p1" unfolding sub by (rule wpacket_wf_subs [OF wf'])
        then show ?thesis
          using alloc_bytes [OF granted(3) wf' _ _ q] s pre False buf granted(1) sub q
          by (auto simp: sub_started_def)
      qed
    qed
  qed
  then show "\<not> ok \<Longrightarrow> wpacket_keeps p p1" and "ok \<Longrightarrow> sub_started p n p1" by blast+
qed

text \<open>Storing over bytes already written, as closing a sub-packet does.\<close>

lemma store_patch:
  assumes wf: "wpacket_wf p" and obj: "has_obj p" and e: "\<not> w_endfirst p"
    and off: "off + length bs \<le> w_written p"
  shows "\<exists>r. wpacket_store p off bs = Ret r \<and> wpacket_wf r \<and> w_subs r = w_subs p \<and> w_maxsize r = w_maxsize p
    \<and> \<not> w_endfirst r \<and> w_written r = w_written p \<and> (w_buf r = None \<longleftrightarrow> w_buf p = None)
    \<and> (w_staticbuf r = None \<longleftrightarrow> w_staticbuf p = None) \<and> wpacket_bytes r = patch (wpacket_bytes p) off bs"
proof -
  have tk: "take (w_written p) (patch b off bs) = patch (take (w_written p) b) off bs"
    if "w_written p \<le> length b" for b :: "byte list"
    using off that by (simp add: patch_def min_absorb2 min_absorb1 drop_take)
  show ?thesis
  proof (cases "w_staticbuf p")
    case (Some b)
    note b = wpacket_wf_staticD [OF wf Some] and w = wpacket_wfD [OF wf]
    have len: "off + length bs \<le> length b" using b off w by linarith
    then have "patch b off bs \<noteq> []" using b length_patch by (metis length_0_conv)
    with len show ?thesis
      using wf Some b off w e tk [of b]
      by (auto simp: wpacket_store_def wpacket_wf_def wpacket_bytes_def GETBUF_def)
  next
    case None
    with obj obtain bm where bm: "w_buf p = Some bm" by (auto simp: has_obj_def)
    note b = wpacket_wf_bufD [OF wf bm]
    have len: "off + length bs \<le> length (b_data bm)" "w_written p \<le> length (b_data bm)"
      using b off by (auto simp: buf_wf_def)
    with None bm show ?thesis
      using wf b off e tk [of "b_data bm"]
      by (auto simp: wpacket_store_def wpacket_wf_def buf_wf_def wpacket_bytes_buf)
  qed
qed

text \<open>The number of bytes of a DER length, and the length field the writers from the end produce.\<close>

lemma num_len_bytes_pos: "0 < num_len_bytes v"
  by (subst num_len_bytes.simps) simp

lemma num_len_bytes_fits: "v < 256 ^ num_len_bytes v"
proof (induction v rule: num_len_bytes.induct)
  case (1 v)
  show ?case
  proof (cases "0 < v div 256")
    case True
    then have "num_len_bytes v = Suc (num_len_bytes (v div 256))" by (subst num_len_bytes.simps) simp
    moreover have "v div 256 < 256 ^ num_len_bytes (v div 256)" by (rule 1 [OF True])
    ultimately show ?thesis by (simp add: less_mult_imp_div_less div_less_iff_less_mult mult.commute)
  next
    case False
    then have "num_len_bytes v = 1" by (subst num_len_bytes.simps) simp
    with False show ?thesis by simp
  qed
qed

lemma num_len_bytes_minimal: "v < 256 ^ n \<Longrightarrow> 0 < n \<Longrightarrow> num_len_bytes v \<le> n"
proof (induction v arbitrary: n rule: num_len_bytes.induct)
  case (1 v)
  show ?case
  proof (cases "0 < v div 256")
    case True
    then have eq: "num_len_bytes v = Suc (num_len_bytes (v div 256))" by (subst num_len_bytes.simps) simp
    obtain k where n: "n = Suc k" using 1(3) by (cases n) auto
    have "v div 256 < 256 ^ k" using 1(2) n by (simp add: div_less_iff_less_mult mult.commute)
    moreover from this True have "0 < k" by (cases k) auto
    ultimately have "num_len_bytes (v div 256) \<le> k" using 1(1) [OF True] by simp
    with eq n show ?thesis by simp
  next
    case False
    then have "num_len_bytes v = 1" by (subst num_len_bytes.simps) simp
    with 1(3) show ?thesis by simp
  qed
qed

definition der_length :: "nat \<Rightarrow> byte list" where
  "der_length len =
     (if len > 0x7f then be_bytes 1 (num_len_bytes len OR 0x80) else []) @ be_bytes (num_len_bytes len) len"

text \<open>The bytes of a closed sub-packet with \<open>n\<close> length bytes and the given contents.\<close>

definition sub_payload :: "nat \<Rightarrow> bool \<Rightarrow> byte list \<Rightarrow> byte list" where
  "sub_payload n e bs = (if e then der_length (length bs) @ bs else be_bytes n (length bs) @ bs)"

lemma close_sub_cases:
  assumes wf: "wpacket_wf p" and subs: "w_subs p = sub # parent" and par: "parent \<noteq> []"
    and fl: "sub_flags sub = 0"
  defines "packlen \<equiv> w_written p - sub_pwritten sub"
  shows "\<not> w_endfirst p \<Longrightarrow> sub_lenbytes sub = 0 \<Longrightarrow> WPACKET_close m p = Ret (True, p\<lparr>w_subs := parent\<rparr>)"
    and "\<not> has_obj p \<Longrightarrow> \<not> w_endfirst p \<Longrightarrow> WPACKET_close m p = Ret (True, p\<lparr>w_subs := parent\<rparr>)"
    and "\<not> w_endfirst p \<Longrightarrow> 0 < sub_lenbytes sub \<Longrightarrow> has_obj p \<Longrightarrow>
      WPACKET_close m p = wthen (put_value p (Some (sub_packet_len sub)) packlen (sub_lenbytes sub))
        (\<lambda>p. Ret (True, p\<lparr>w_subs := parent\<rparr>))"
    and "w_endfirst p \<Longrightarrow> WPACKET_close m p =
      wthen (WPACKET_put_bytes m p packlen (num_len_bytes packlen)) (\<lambda>q.
        if packlen > 0x7f
        then wthen (WPACKET_put_bytes m q (num_len_bytes packlen OR 0x80) 1) (\<lambda>p. Ret (True, p\<lparr>w_subs := parent\<rparr>))
        else Ret (True, q\<lparr>w_subs := parent\<rparr>))"
proof -
  note w = wpacket_wfD [OF wf]
  have pl: "sz_sub (w_written p) (sub_pwritten sub) = packlen"
    using w subs by (simp add: packlen_def)
  have close: "WPACKET_close m p = wpacket_intern_close m p sub parent True"
    using subs par by (cases parent) (simp_all add: WPACKET_close_def)
  note defs = close wpacket_intern_close_def pl fl Let_def
  have get: "0 < sub_lenbytes sub \<Longrightarrow> has_obj p \<Longrightarrow> \<exists>b. GETBUF p = Some b"
    using w subs wpacket_wf_bufD [OF wf]
    by (cases "w_staticbuf p"; cases "w_buf p") (fastforce simp: GETBUF_def has_obj_def buf_wf_def)+
  have noobj: "\<not> has_obj p \<Longrightarrow> GETBUF p = None" by (simp add: has_obj_def GETBUF_def)
  show "\<not> w_endfirst p \<Longrightarrow> sub_lenbytes sub = 0 \<Longrightarrow> WPACKET_close m p = Ret (True, p\<lparr>w_subs := parent\<rparr>)"
    by (simp add: defs)
  show "\<not> has_obj p \<Longrightarrow> \<not> w_endfirst p \<Longrightarrow> WPACKET_close m p = Ret (True, p\<lparr>w_subs := parent\<rparr>)"
    using noobj by (simp add: defs)
  show "\<not> w_endfirst p \<Longrightarrow> 0 < sub_lenbytes sub \<Longrightarrow> has_obj p \<Longrightarrow>
      WPACKET_close m p = wthen (put_value p (Some (sub_packet_len sub)) packlen (sub_lenbytes sub))
        (\<lambda>p. Ret (True, p\<lparr>w_subs := parent\<rparr>))"
    using get by (auto simp: defs)
  show "w_endfirst p \<Longrightarrow> WPACKET_close m p =
      wthen (WPACKET_put_bytes m p packlen (num_len_bytes packlen)) (\<lambda>q.
        if packlen > 0x7f
        then wthen (WPACKET_put_bytes m q (num_len_bytes packlen OR 0x80) 1) (\<lambda>p. Ret (True, p\<lparr>w_subs := parent\<rparr>))
        else Ret (True, q\<lparr>w_subs := parent\<rparr>))"
    using w subs par by (simp add: defs)
qed

lemma sub_started_keeps: "sub_started p n p1 \<Longrightarrow> wpacket_keeps p p1"
  by (auto simp: sub_started_def wpacket_keeps_def has_obj_def)

lemma sub_started_pwritten:
  "sub_started p n p1 \<Longrightarrow> wpacket_ext p1 bs p2 \<Longrightarrow> w_subs p2 = new_sub p n # w_subs p
   \<and> w_written p2 - sub_pwritten (new_sub p n) = length bs \<and> sub_pwritten (new_sub p n) \<le> w_written p2"
  by (simp add: sub_started_def wpacket_ext_def new_sub_def)

text \<open>Closing forwards: the length field reserved by the start receives the length of the contents.\<close>

lemma close_forwards:
  assumes st: "sub_started p n p1" and ext: "wpacket_ext p1 bs p2" and wf: "wpacket_wf p"
    and ne: "w_subs p \<noteq> []" and e: "\<not> w_endfirst p"
  shows "\<exists>ok p3. WPACKET_close m p2 = Ret (ok, p3) \<and> wpacket_keeps p p3
    \<and> (ok \<longrightarrow> wpacket_ext p (be_bytes n (length bs) @ bs) p3)
    \<and> (ok \<longleftrightarrow> n = 0 \<or> \<not> has_obj p \<or> length bs < 256 ^ n)"
proof -
  note pw = sub_started_pwritten [OF st ext]
  have wf2: "wpacket_wf p2" and e2: "\<not> w_endfirst p2" and obj2: "has_obj p2 = has_obj p"
    using st ext e by (auto simp: sub_started_def wpacket_ext_def has_obj_def)
  have fl: "sub_flags (new_sub p n) = 0" by (simp add: new_sub_def)
  note cl = close_sub_cases [OF wf2 conjunct1 [OF pw] ne fl]
  have popped: "wpacket_wf (q\<lparr>w_subs := w_subs p\<rparr>)"
    if "wpacket_wf q" "w_written q = w_written p + n + length bs" "\<not> w_endfirst q" for q
  proof (rule wpacket_wf_subs [OF that(1)])
    show "subs_wf (w_endfirst q) (w_written q) (w_subs p)"
      using subs_wf_mono [of _ "w_written p" "w_subs p" "w_written q"] wpacket_wfD(4) [OF wf] e that(2,3) by simp
  qed
  show ?thesis
  proof (cases "n = 0 \<or> \<not> has_obj p")
    case True
    then have "WPACKET_close m p2 = Ret (True, p2\<lparr>w_subs := w_subs p\<rparr>)"
      using cl(1,2) e2 obj2 by (auto simp: new_sub_def)
    moreover have "wpacket_ext p (be_bytes n (length bs) @ bs) (p2\<lparr>w_subs := w_subs p\<rparr>)"
      using st ext True e popped [of p2] wf2 by (auto simp: sub_started_def wpacket_ext_def has_obj_def)
    ultimately show ?thesis using True wpacket_ext_keeps by blast
  next
    case False
    obtain js where js: "length js = n" "wpacket_bytes p1 = wpacket_bytes p @ js"
      using st False by (auto simp: sub_started_def)
    have b2: "wpacket_bytes p2 = wpacket_bytes p @ js @ bs"
      using ext js st e False by (auto simp: wpacket_ext_def sub_started_def has_obj_def)
    have len: "length (wpacket_bytes p) = w_written p" using length_wpacket_bytes [OF wf] False by simp
    have off: "w_written p + length (be_bytes n (length bs)) \<le> w_written p2" and o2: "has_obj p2"
      using pw obj2 False by (simp_all add: new_sub_def)
    from store_patch [OF wf2 o2 e2 off] obtain r where r: "wpacket_store p2 (w_written p) (be_bytes n (length bs)) = Ret r"
        "wpacket_wf r" "w_subs r = w_subs p2" "w_maxsize r = w_maxsize p2" "\<not> w_endfirst r"
        "w_written r = w_written p2" "w_buf r = None \<longleftrightarrow> w_buf p2 = None"
        "w_staticbuf r = None \<longleftrightarrow> w_staticbuf p2 = None"
        "wpacket_bytes r = patch (wpacket_bytes p2) (w_written p) (be_bytes n (length bs))"
      by (elim exE conjE) (rule that)
    have rb: "wpacket_bytes r = wpacket_bytes p @ be_bytes n (length bs) @ bs"
      using patch_append_mid [OF len, of js "be_bytes n (length bs)" bs] js r(9) b2 by simp
    have "WPACKET_close m p2 = Ret (length bs < 256 ^ n,
        if length bs < 256 ^ n then r\<lparr>w_subs := w_subs p\<rparr> else r)"
      using cl(3) e2 obj2 False pw r(1)
      by (simp add: new_sub_def put_value_def put_value_loop_eq div_pow_eq_0)
    moreover have "wpacket_ext p (be_bytes n (length bs) @ bs) (r\<lparr>w_subs := w_subs p\<rparr>)"
      using popped [OF r(2)] st ext r rb e by (auto simp: sub_started_def wpacket_ext_def has_obj_def)
    moreover have "wpacket_keeps p r"
      using rb r e st ext by (auto simp: wpacket_keeps_def has_obj_def sub_started_def wpacket_ext_def)
    ultimately show ?thesis using False wpacket_ext_keeps by (auto simp del: be_bytes.simps)
  qed
qed

text \<open>Closing backwards: the DER length is written in front of the contents.\<close>

lemma num_len_bytes_le_8: "v < SIZE_MOD \<Longrightarrow> num_len_bytes v \<le> 8"
  using num_len_bytes_minimal [of v 8] by simp

lemma or_128_fits: "n \<le> 8 \<Longrightarrow> n OR 0x80 < (256 :: nat)"
  using or_add_nat [of 7 128 n] by (simp add: or.commute)

lemma close_backwards:
  assumes st: "sub_started p n p1" and ext: "wpacket_ext p1 bs p2" and wf: "wpacket_wf p"
    and ne: "w_subs p \<noteq> []" and e: "w_endfirst p"
  shows "\<exists>ok p3. WPACKET_close m p2 = Ret (ok, p3) \<and> wpacket_keeps p p3
    \<and> (ok \<longrightarrow> wpacket_ext p (der_length (length bs) @ bs) p3)
    \<and> (m_ok m SIZEOF_SUB \<and> w_buf p = None \<and> w_written p + length (der_length (length bs) @ bs) \<le> w_maxsize p \<longrightarrow> ok)"
proof -
  let ?l = "length bs" and ?k = "num_len_bytes (length bs)"
  note pw = sub_started_pwritten [OF st ext]
  have wf2: "wpacket_wf p2" and e2: "w_endfirst p2" and n: "n = 0" and buf2: "w_buf p2 = None \<longleftrightarrow> w_buf p = None"
    and w2: "w_written p2 = w_written p + ?l" "w_maxsize p2 = w_maxsize p"
    using st ext e by (auto simp: sub_started_def wpacket_ext_def)
  have keep: "wpacket_keeps p p2"
    using sub_started_keeps [OF st] wpacket_ext_keeps [OF ext] by (rule wpacket_keeps_trans)
  have fl: "sub_flags (new_sub p n) = 0" by (simp add: new_sub_def)
  have cl: "WPACKET_close m p2 =
      wthen (WPACKET_put_bytes m p2 ?l ?k) (\<lambda>q.
        if ?l > 0x7f
        then wthen (WPACKET_put_bytes m q (?k OR 0x80) 1) (\<lambda>p3. Ret (True, p3\<lparr>w_subs := w_subs p\<rparr>))
        else Ret (True, q\<lparr>w_subs := w_subs p\<rparr>))"
    using close_sub_cases(4) [OF wf2 conjunct1 [OF pw] ne fl e2, of m] pw by (simp only:)
  have k: "0 < ?k \<and> ?k \<le> 8 \<and> ?l < 256 ^ ?k"
    using num_len_bytes_le_8 [of ?l] num_len_bytes_fits [of ?l] num_len_bytes_pos [of ?l] w2 wpacket_wfD [OF wf2] by simp
  have popped: "wpacket_ext p (xs @ bs) (q\<lparr>w_subs := w_subs p\<rparr>)" if "wpacket_ext p2 xs q" for q xs
  proof -
    have "subs_wf (w_endfirst q) (w_written q) (w_subs p)"
      using subs_wf_mono [of _ "w_written p" "w_subs p" "w_written q"] wpacket_wfD(4) [OF wf] that e2 e w2
      by (simp add: wpacket_ext_def)
    then have "wpacket_wf (q\<lparr>w_subs := w_subs p\<rparr>)" using that by (simp add: wpacket_ext_def wpacket_wf_subs)
    then show ?thesis
      using that st ext e n by (auto simp: wpacket_ext_def sub_started_def has_obj_def)
  qed
  obtain ok q where q: "WPACKET_put_bytes m p2 ?l ?k = Ret (ok, q)" "wpacket_keeps p2 q"
      "ok \<Longrightarrow> wpacket_ext p2 (be_bytes ?k ?l) q"
    using put_bytes_cases [OF wf2, of m ?l ?k] by blast
  have kq: "wpacket_keeps p q" using keep q(2) by (rule wpacket_keeps_trans)
  have okq: "m_ok m SIZEOF_SUB \<and> w_buf p = None \<and> w_written p2 + ?k \<le> w_maxsize p \<Longrightarrow> ok"
    using put_bytes.op_succeeds [OF wf2, where m = m and n = ?k and val = ?l] q(1) k w2 buf2 pw by auto
  show ?thesis
  proof (cases "ok \<and> ?l > 0x7f")
    case False
    have "\<not> ok \<Longrightarrow> WPACKET_close m p2 = Ret (False, q)"
      and "ok \<Longrightarrow> WPACKET_close m p2 = Ret (True, q\<lparr>w_subs := w_subs p\<rparr>)"
      and "ok \<Longrightarrow> wpacket_ext p (der_length ?l @ bs) (q\<lparr>w_subs := w_subs p\<rparr>)"
      using cl q(1) False popped [OF q(3)] by (auto simp: der_length_def)
    moreover have "w_written p + length (der_length ?l @ bs) \<le> w_maxsize p \<Longrightarrow> w_written p2 + ?k \<le> w_maxsize p"
      using w2 by (simp add: der_length_def)
    ultimately show ?thesis using kq okq wpacket_ext_keeps by (cases ok) blast+
  next
    case True
    have e3: "wpacket_ext p2 (be_bytes ?k ?l) q" using q True by blast
    have wf3: "wpacket_wf q" and b3: "w_buf q = None \<longleftrightarrow> w_buf p = None" "w_written q = w_written p2 + ?k"
      "w_maxsize q = w_maxsize p" "w_subs q \<noteq> []" "w_endfirst q"
      using e3 buf2 w2 pw e2 by (simp_all add: wpacket_ext_def)
    obtain ok' r where r: "WPACKET_put_bytes m q (?k OR 0x80) 1 = Ret (ok', r)" "wpacket_keeps q r"
        "ok' \<Longrightarrow> wpacket_ext q (be_bytes 1 (?k OR 0x80)) r"
      using put_bytes_cases [OF wf3, of m "?k OR 0x80" 1] by blast
    have kr: "wpacket_keeps p r" using kq r(2) by (rule wpacket_keeps_trans)
    have okr: "m_ok m SIZEOF_SUB \<and> w_buf p = None \<and> w_written q + 1 \<le> w_maxsize p \<Longrightarrow> ok'"
      using put_bytes.op_succeeds [OF wf3, where m = m and n = 1 and val = "?k OR 0x80"] r(1) or_128_fits k b3 by auto
    have ext3: "ok' \<Longrightarrow> wpacket_ext p2 (der_length ?l) r"
      using wpacket_ext_trans [OF e3 r(3)] True e2 by (simp add: der_length_def)
    have "\<not> ok' \<Longrightarrow> WPACKET_close m p2 = Ret (False, r)"
      and "ok' \<Longrightarrow> WPACKET_close m p2 = Ret (True, r\<lparr>w_subs := w_subs p\<rparr>)"
      and "ok' \<Longrightarrow> wpacket_ext p (der_length ?l @ bs) (r\<lparr>w_subs := w_subs p\<rparr>)"
      using cl q(1) True r(1) popped [OF ext3] by auto
    moreover have "w_written p + length (der_length ?l @ bs) \<le> w_maxsize p \<Longrightarrow> w_written q + 1 \<le> w_maxsize p"
      using w2 b3 True by (simp add: der_length_def)
    ultimately show ?thesis using kr okr wpacket_ext_keeps by (cases ok') blast+
  qed
qed

context wpacket_writer
begin

text \<open>Two writers in sequence write both payloads.\<close>

lemma writer_seq:
  assumes "wpacket_writer op' payload' encodable'"
  shows "wpacket_writer (\<lambda>m p. wthen (op m p) (op' m))
    (\<lambda>e. if e then payload' e @ payload e else payload e @ payload' e) (\<lambda>e. encodable e \<and> encodable' e)"
proof -
  have inv: "w_subs p' = w_subs p \<and> wpacket_wf p' \<and> w_endfirst p' = w_endfirst p
      \<and> (w_buf p' = None \<longleftrightarrow> w_buf p = None) \<and> w_maxsize p' = w_maxsize p \<and> w_written p' = w_written p + length xs"
    if "wpacket_ext p xs p'" for p xs p' using that by (simp add: wpacket_ext_def)
  show ?thesis
  proof (unfold_locales, goal_cases)
    case (1 p m)
    from op_spec [OF 1, of m] obtain ok p' where o: "op m p = Ret (ok, p')" "wpacket_keeps p p'"
      "ok \<Longrightarrow> wpacket_ext p (payload (w_endfirst p)) p'" by blast
    show ?case
    proof (cases ok)
      case True
      note i = inv [OF o(3) [OF True]]
      obtain ok' p'' where o': "op' m p' = Ret (ok', p'')" "wpacket_keeps p' p''"
        "ok' \<Longrightarrow> wpacket_ext p' (payload' (w_endfirst p)) p''"
        using wpacket_writer.op_spec [OF assms, of p' m] i 1 by auto
      show ?thesis
        using o o' True wpacket_keeps_trans [OF o(2) o'(2)] wpacket_ext_trans [OF o(3) [OF True] o'(3)]
        by (auto split: if_splits)
    qed (use o in auto)
  next
    case (2 p m)
    then obtain p' where o: "op m p = Ret (True, p')"
      using op_succeeds [of p m] by (auto split: if_splits)
    then have e: "wpacket_ext p (payload (w_endfirst p)) p'" using op_spec [of p m] 2 by auto
    show ?case
      using o inv [OF e] 2 wpacket_writer.op_succeeds [OF assms, of p' m] by (auto split: if_splits)
  qed
qed

text \<open>
  A writer inside a sub-packet, however deep, writes its payload behind a length field: of \<open>n\<close>
  network-order bytes forwards, a DER length backwards.
\<close>

lemma writer_sub:
  "wpacket_writer
     (\<lambda>m p. wthen (Ret (WPACKET_start_sub_packet_len m p n)) (\<lambda>p. wthen (op m p) (WPACKET_close m)))
     (\<lambda>e. sub_payload n e (payload e))
     (\<lambda>e. encodable e \<and> (if e then n = 0 else n = 0 \<or> length (payload e) < 256 ^ n))"
proof (unfold_locales, goal_cases)
  case (1 p m)
  obtain ok p1 where s: "WPACKET_start_sub_packet_len m p n = (ok, p1)" by fastforce
  note st = start_sub_cases [OF 1(1) s]
  show ?case
  proof (cases ok)
    case True
    note st = st(2) [OF True]
    have p1: "wpacket_wf p1" "w_subs p1 \<noteq> []" "w_endfirst p1 = w_endfirst p" using st by (auto simp: sub_started_def)
    from op_spec [OF p1(1,2), of m] obtain ok2 p2 where o: "op m p1 = Ret (ok2, p2)" "wpacket_keeps p1 p2"
      "ok2 \<Longrightarrow> wpacket_ext p1 (payload (w_endfirst p)) p2" using p1(3) by auto
    show ?thesis
    proof (cases ok2)
      case True2: True
      show ?thesis
        using close_forwards [OF st o(3) [OF True2] 1, of m] close_backwards [OF st o(3) [OF True2] 1, of m]
          s True o(1) True2 by (cases "w_endfirst p") (auto simp: sub_payload_def)
    qed (use s True o wpacket_keeps_trans [OF sub_started_keeps [OF st] o(2)] in auto)
  qed (use st s in auto)
next
  case (2 p m)
  have "length (payload (w_endfirst p)) + n \<le> length (sub_payload n (w_endfirst p) (payload (w_endfirst p)))"
    using 2(5) by (simp add: sub_payload_def)
  then have room: "w_written p + n + length (payload (w_endfirst p)) \<le> w_maxsize p" using 2(6) by simp
  obtain ok p1 where s: "WPACKET_start_sub_packet_len m p n = (ok, p1)" by fastforce
  have ok using s 2 room reserve_succeeds [OF 2(1-3), of n m]
    by (cases "n = 0") (auto simp: WPACKET_start_sub_packet_len_def allocate_other_subs Let_def split: if_splits prod.splits)
  note st = start_sub_cases(2) [OF 2(1) s this]
  have p1: "wpacket_wf p1" "w_subs p1 \<noteq> []" "w_buf p1 = None" "w_endfirst p1 = w_endfirst p"
    "w_written p1 = w_written p + n" "w_maxsize p1 = w_maxsize p" using st 2(3) by (auto simp: sub_started_def)
  obtain p2 where o: "op m p1 = Ret (True, p2)"
    using op_succeeds [OF p1(1,2,3) 2(4)] p1 2 room by auto
  then have ext: "wpacket_ext p1 (payload (w_endfirst p)) p2" using op_spec [OF p1(1,2), of m] p1 by auto
  show ?case
    using close_forwards [OF st ext 2(1,2), of m] close_backwards [OF st ext 2(1,2), of m] s \<open>ok\<close> o 2
    by (cases "w_endfirst p") (auto simp: sub_payload_def)
qed

end

interpretation sub_memcpy: wpacket_writer "\<lambda>m p. WPACKET_sub_memcpy m p src n" "\<lambda>e. sub_payload n e src"
  "\<lambda>e. True \<and> (if e then n = 0 else n = 0 \<or> length src < 256 ^ n)"
  unfolding WPACKET_sub_memcpy_def by (rule memcpy.writer_sub)

section \<open>From initialisation to the finished message\<close>

definition top_sub :: "nat \<Rightarrow> WPACKET_SUB" where
  "top_sub n = zero_sub\<lparr>sub_pwritten := n, sub_lenbytes := n\<rparr>"

text \<open>A writer just initialised with \<open>n\<close> length bytes.\<close>

definition fresh_writer :: "nat \<Rightarrow> WPACKET \<Rightarrow> bool" where
  "fresh_writer n p \<longleftrightarrow>
     wpacket_wf p \<and> w_subs p = [top_sub n] \<and> w_written p = n \<and> (n > 0 \<longrightarrow> \<not> w_endfirst p)"

lemma intern_init_fresh:
  assumes wf: "wpacket_wf (p\<lparr>w_curr := 0, w_written := 0, w_subs := [zero_sub]\<rparr>)"
    and e: "n > 0 \<Longrightarrow> \<not> w_endfirst p"
    and init: "wpacket_intern_init_len m p n = (True, p')"
  shows "fresh_writer n p' \<and> w_endfirst p' = w_endfirst p \<and> has_obj p' = has_obj p \<and> w_maxsize p' = w_maxsize p
    \<and> (w_buf p' = None \<longleftrightarrow> w_buf p = None)"
proof (cases "n = 0")
  case True
  then have "p' = p\<lparr>w_curr := 0, w_written := 0, w_subs := [zero_sub]\<rparr>"
    using init by (auto simp: wpacket_intern_init_len_def Let_def split: if_splits)
  then show ?thesis
    using True wf by (simp add: fresh_writer_def top_sub_def zero_sub_def has_obj_def)
next
  case False
  let ?p = "p\<lparr>w_curr := 0, w_written := 0, w_subs := [zero_sub]\<rparr>"
  have "p\<lparr>w_curr := 0, w_written := 0, w_subs := [top_sub n]\<rparr> = ?p\<lparr>w_subs := [top_sub n]\<rparr>" by simp
  then obtain a q where al: "WPACKET_allocate_bytes m ?p n = (True, a, q)"
    and p': "p' = q\<lparr>w_subs := [top_sub n]\<rparr>"
    using init False allocate_other_subs [of ?p "[top_sub n]" m n]
    by (auto simp: wpacket_intern_init_len_def top_sub_def zero_sub_def Let_def split: if_splits prod.splits bool.splits)
  from wf al show ?thesis
  proof (cases rule: allocate_cases)
    case (granted r)
    note s = wpacket_same_simps [OF granted(4)]
    have "wpacket_wf q" unfolding granted(2)
      using alloc_wf [OF granted(3), of n] granted s by simp
    then have "wpacket_wf p'" unfolding p'
      by (rule wpacket_wf_subs) (use granted(2) s e False in \<open>simp add: top_sub_def zero_sub_def\<close>)
    then show ?thesis
      using p' granted s e False by (auto simp: fresh_writer_def has_obj_def wpacket_same_def)
  qed simp
qed

lemma WPACKET_init_static_len_fresh:
  assumes "WPACKET_init_static_len m p (Some b) len n = (True, p')" and "len \<le> length b" and "len < SIZE_MOD"
  shows "fresh_writer n p' \<and> \<not> w_endfirst p' \<and> has_obj p' \<and> w_buf p' = None \<and> w_maxsize p' = min (maxmaxsize n) len"
proof -
  let ?q = "p\<lparr>w_staticbuf := Some b, w_buf := None, w_maxsize := min (maxmaxsize n) len, w_endfirst := False\<rparr>"
  have init: "wpacket_intern_init_len m ?q n = (True, p')" "0 < len"
  proof -
    have "(if maxmaxsize n < len then maxmaxsize n else len) = min (maxmaxsize n) len" by simp
    with assms(1) show "wpacket_intern_init_len m ?q n = (True, p')" "0 < len"
      by (auto simp only: WPACKET_init_static_len_def Let_def split: if_splits)
  qed
  have "wpacket_wf (?q\<lparr>w_curr := 0, w_written := 0, w_subs := [zero_sub]\<rparr>)"
    using assms init(2) by (auto simp: wpacket_wf_def zero_sub_def)
  from intern_init_fresh [OF this _ init(1)] show ?thesis by (auto simp: has_obj_def)
qed

lemma WPACKET_init_len_fresh:
  assumes "WPACKET_init_len m p (Some bm) n = (True, p')" and "buf_wf bm"
  shows "fresh_writer n p' \<and> \<not> w_endfirst p' \<and> has_obj p' \<and> w_maxsize p' = maxmaxsize n"
proof -
  let ?q = "p\<lparr>w_staticbuf := None, w_buf := Some bm, w_maxsize := maxmaxsize n, w_endfirst := False\<rparr>"
  have init: "wpacket_intern_init_len m ?q n = (True, p')"
    using assms(1) by (simp add: WPACKET_init_len_def)
  have "n < 8 \<Longrightarrow> (2::nat) ^ (n * 8) \<le> 2 ^ 56" by (rule power_increasing) auto
  then have "maxmaxsize n < SIZE_MOD" by (auto simp: maxmaxsize_def)
  then have "wpacket_wf (?q\<lparr>w_curr := 0, w_written := 0, w_subs := [zero_sub]\<rparr>)"
    using assms by (auto simp: wpacket_wf_def zero_sub_def)
  from intern_init_fresh [OF this _ init] show ?thesis by (simp add: has_obj_def)
qed

lemma WPACKET_init_der_fresh:
  assumes "WPACKET_init_der m p (Some b) len = (True, p')" and "len \<le> length b" and "len < SIZE_MOD"
  shows "fresh_writer 0 p' \<and> w_endfirst p' \<and> has_obj p' \<and> w_buf p' = None \<and> w_maxsize p' = len"
proof -
  let ?q = "p\<lparr>w_staticbuf := Some b, w_buf := None, w_maxsize := len, w_endfirst := True\<rparr>"
  have init: "wpacket_intern_init_len m ?q 0 = (True, p')" "0 < len"
    using assms(1) by (auto simp: WPACKET_init_der_def split: if_splits)
  have "wpacket_wf (?q\<lparr>w_curr := 0, w_written := 0, w_subs := [zero_sub]\<rparr>)"
    using assms init(2) by (auto simp: wpacket_wf_def zero_sub_def)
  from intern_init_fresh [OF this _ init(1)] show ?thesis by (auto simp: has_obj_def)
qed

lemma finish_fresh:
  assumes fr: "fresh_writer n p1" and ext: "wpacket_ext p1 bs p2" and obj: "has_obj p1" and e: "\<not> w_endfirst p1"
  shows "\<exists>p3. WPACKET_finish m p2 = Ret (n = 0 \<or> length bs < 256 ^ n, p3)
    \<and> (n = 0 \<or> length bs < 256 ^ n \<longrightarrow> wpacket_bytes p3 = be_bytes n (length bs) @ bs \<and> w_subs p3 = [])"
proof -
  have wf2: "wpacket_wf p2" and e2: "\<not> w_endfirst p2" and o2: "has_obj p2" and s2: "w_subs p2 = [top_sub n]"
    and w2: "w_written p2 = n + length bs"
    using fr ext obj e by (auto simp: fresh_writer_def wpacket_ext_def has_obj_def)
  have b1: "length (wpacket_bytes p1) = n" using fr obj length_wpacket_bytes by (simp add: fresh_writer_def)
  have b2: "wpacket_bytes p2 = wpacket_bytes p1 @ bs" using ext obj e by (simp add: wpacket_ext_def)
  have pl: "sz_sub (w_written p2) (sub_pwritten (top_sub n)) = length bs"
    using w2 wpacket_wfD [OF wf2] by (simp add: top_sub_def)
  have fin: "WPACKET_finish m p2 = obind (wpacket_intern_close m p2 (top_sub n) [] True)
      (\<lambda>(ret, p'). Ret (ret, if ret then p'\<lparr>w_subs := []\<rparr> else p'))"
    using s2 by (simp add: WPACKET_finish_def)
  show ?thesis
  proof (cases "n = 0")
    case True
    then show ?thesis
      using fin e2 b1 b2 pl by (simp add: wpacket_intern_close_def top_sub_def zero_sub_def)
  next
    case False
    have "\<exists>b. GETBUF p2 = Some b"
      using False w2 wpacket_wf_bufD [OF wf2] o2
      by (cases "w_staticbuf p2"; cases "w_buf p2") (fastforce simp: GETBUF_def has_obj_def buf_wf_def)+
    then have close: "wpacket_intern_close m p2 (top_sub n) [] True =
        wthen (put_value p2 (Some 0) (length bs) n) (\<lambda>p. Ret (True, p\<lparr>w_subs := []\<rparr>))"
      using pl False by (auto simp: wpacket_intern_close_def top_sub_def zero_sub_def)
    have off: "0 + length (be_bytes n (length bs)) \<le> w_written p2" using w2 by simp
    from store_patch [OF wf2 o2 e2 off] obtain r where r: "wpacket_store p2 0 (be_bytes n (length bs)) = Ret r"
      "wpacket_bytes r = patch (wpacket_bytes p2) 0 (be_bytes n (length bs))" by blast
    have "wpacket_bytes r = be_bytes n (length bs) @ bs"
      using r(2) b2 b1 by (simp add: patch_def)
    then show ?thesis
      using fin close r(1) False
      by (cases "length bs < 256 ^ n")
        (simp_all add: put_value_def put_value_loop_eq div_pow_eq_0 wthen_def del: be_bytes.simps)
  qed
qed

section \<open>Properties\<close>

text \<open>
  Writing a number of \<open>n\<close> bytes to a well-formed writer never stores outside the output object
  and keeps what was written before, whatever the number; it succeeds only for widths of 1 to 8
  bytes and, when there is an output, only for numbers that fit, and then has added exactly the
  network-order encoding.
\<close>

theorem put_bytes_writes_network_order:
  assumes "wpacket_wf p"
  shows "\<exists>ok p'. WPACKET_put_bytes m p val n = Ret (ok, p') \<and> wpacket_keeps p p'
    \<and> (ok \<longrightarrow> wpacket_ext p (be_bytes n val) p' \<and> 0 < n \<and> n \<le> 8 \<and> (has_obj p \<longrightarrow> val < 256 ^ n))"
  using assms by (rule put_bytes_cases)

theorem put_bytes_writes_network_order_witness:
  "\<exists>p'. WPACKET_put_bytes \<lparr>m_ok = (\<lambda>_. True), m_junk = (\<lambda>_. 0)\<rparr>
      \<lparr>w_buf = None, w_staticbuf = Some [0, 0, 0, 9], w_curr = 0, w_written = 0, w_maxsize = 3, w_subs = [zero_sub], w_endfirst = False\<rparr>
      258 2 = Ret (True, p') \<and> wpacket_bytes p' = [1, 2] \<and> w_staticbuf p' = Some [1, 2, 0, 9]"
proof -
  let ?m = "\<lparr>m_ok = (\<lambda>_. True), m_junk = (\<lambda>_. 0)\<rparr>"
  let ?p = "\<lparr>w_buf = None, w_staticbuf = Some [0, 0, 0, 9], w_curr = 0, w_written = 0, w_maxsize = 3, w_subs = [zero_sub], w_endfirst = False\<rparr>"
  have wf: "wpacket_wf ?p" by (simp add: wpacket_wf_def zero_sub_def)
  obtain p' where p': "WPACKET_put_bytes ?m ?p 258 2 = Ret (True, p')" "w_staticbuf p' = Some [1, 2, 0, 9]"
    by (simp add: WPACKET_put_bytes_def WPACKET_allocate_bytes_def WPACKET_reserve_bytes_def
      WPACKET_get_curr_def GETBUF_def put_value_def put_value_loop_eq be_bytes_numeral wpacket_store_def patch_def)
  then have "wpacket_ext ?p (be_bytes 2 258) p'"
    using put_bytes_writes_network_order [OF wf, of ?m 258 2] by auto
  then have "wpacket_bytes p' = [1, 2]"
    by (simp add: wpacket_ext_def has_obj_def wpacket_bytes_def GETBUF_def be_bytes_numeral)
  with p' show ?thesis by blast
qed

text \<open>
  Sub-packets nest. Whatever an operation writes, running it between the start and the close of a
  sub-packet is again an operation of that kind, which writes the same bytes behind a length field
  (\<open>n\<close> network-order bytes, or a DER length for a writer that fills its buffer from the end): it is
  memory safe, keeps earlier bytes, and succeeds when the length is encodable and there is room.
\<close>

theorem sub_packet_writer:
  assumes "wpacket_writer op payload encodable"
  shows "wpacket_writer
     (\<lambda>m p. wthen (Ret (WPACKET_start_sub_packet_len m p n)) (\<lambda>p. wthen (op m p) (WPACKET_close m)))
     (\<lambda>e. sub_payload n e (payload e))
     (\<lambda>e. encodable e \<and> (if e then n = 0 else n = 0 \<or> length (payload e) < 256 ^ n))"
  using assms by (rule wpacket_writer.writer_sub)

theorem sub_packet_writer_witness:
  "wpacket_writer
     (\<lambda>m p. wthen (Ret (WPACKET_start_sub_packet_len m p 3)) (\<lambda>p. wthen (WPACKET_sub_memcpy m p [7, 8] 1) (WPACKET_close m)))
     (\<lambda>e. sub_payload 3 e (sub_payload 1 e [7, 8]))
     (\<lambda>e. (True \<and> (if e then 1 = (0::nat) else 1 = (0::nat) \<or> length [7, 8 :: byte] < 256 ^ 1))
          \<and> (if e then 3 = (0::nat) else 3 = (0::nat) \<or> length (sub_payload 1 e [7, 8]) < 256 ^ 3))"
  by (rule sub_packet_writer [OF sub_memcpy.wpacket_writer_axioms])

text \<open>
  A writer that fills its buffer from the end puts the minimal DER length in front of what a
  sub-packet contains: at most nine bytes, one byte below 128, and the number of length bytes is the
  least that holds the length.
\<close>

theorem der_sub_memcpy:
  assumes "wpacket_wf p" and "w_subs p \<noteq> []" and "w_endfirst p" and "has_obj p"
    and "WPACKET_sub_memcpy m p src 0 = Ret (True, p')"
  shows "wpacket_bytes p' = der_length (length src) @ src @ wpacket_bytes p
    \<and> (length src < 128 \<longrightarrow> der_length (length src) = [of_nat (length src)])
    \<and> (\<forall>k > 0. length src < 256 ^ k \<longrightarrow> length (der_length (length src)) \<le> k + 1)"
proof -
  have "wpacket_ext p (der_length (length src) @ src) p'"
    using sub_memcpy.op_spec [OF assms(1,2), of m src 0] assms(3,5) by (auto simp: sub_payload_def)
  moreover have "length src < 128 \<Longrightarrow> num_len_bytes (length src) = 1" by (subst num_len_bytes.simps) simp
  ultimately show ?thesis
    using assms(3,4) num_len_bytes_minimal [of "length src"] by (auto simp: wpacket_ext_def der_length_def)
qed

theorem der_sub_memcpy_witness:
  "wpacket_bytes (snd (case WPACKET_sub_memcpy \<lparr>m_ok = (\<lambda>_. True), m_junk = (\<lambda>_. 0)\<rparr>
      \<lparr>w_buf = None, w_staticbuf = Some [0, 0, 0, 0, 0], w_curr = 0, w_written = 0, w_maxsize = 5, w_subs = [zero_sub], w_endfirst = True\<rparr>
      [5, 6] 0 of Ret r \<Rightarrow> r)) = [2, 5, 6]"
proof -
  let ?m = "\<lparr>m_ok = (\<lambda>_. True), m_junk = (\<lambda>_. 0)\<rparr>"
  let ?p = "\<lparr>w_buf = None, w_staticbuf = Some [0, 0, 0, 0, 0], w_curr = 0, w_written = 0, w_maxsize = 5, w_subs = [zero_sub], w_endfirst = True\<rparr>"
  have wf: "wpacket_wf ?p" by (simp add: wpacket_wf_def zero_sub_def)
  have "num_len_bytes (Suc (Suc 0)) = 1" by (subst num_len_bytes.simps) simp
  then obtain p' where w: "WPACKET_sub_memcpy ?m ?p [5, 6] 0 = Ret (True, p')"
    using sub_memcpy.op_succeeds [OF wf, where m = ?m and n = 0 and src = "[5, 6]"]
    by (auto simp: sub_payload_def der_length_def)
  have "wpacket_bytes p' = [2, 5, 6]"
    using der_sub_memcpy [OF wf _ _ _ w] by (simp add: has_obj_def wpacket_bytes_def GETBUF_def)
  with w show ?thesis by simp
qed

text \<open>
  A message: a writer initialised with an \<open>n\<close>-byte length on a growable buffer, any operation
  that writes a payload, then the finish. The buffer holds the length of the payload and the
  payload, and the finish fails exactly when the length does not fit its field.
\<close>

theorem message_layout:
  assumes "wpacket_writer op payload encodable" and "buf_wf bm"
    and "WPACKET_init_len m p (Some bm) n = (True, p1)" and "op m p1 = Ret (True, p2)"
  shows "\<exists>p3. WPACKET_finish m p2 = Ret (n = 0 \<or> length (payload False) < 256 ^ n, p3)
    \<and> (n = 0 \<or> length (payload False) < 256 ^ n \<longrightarrow>
         wpacket_bytes p3 = be_bytes n (length (payload False)) @ payload False \<and> w_subs p3 = [])"
proof -
  have fr: "fresh_writer n p1" "\<not> w_endfirst p1" "has_obj p1" using WPACKET_init_len_fresh [OF assms(3,2)] by auto
  then have "wpacket_ext p1 (payload False) p2"
    using wpacket_writer.op_spec [OF assms(1), of p1 m] assms(4) by (auto simp: fresh_writer_def)
  from finish_fresh [OF fr(1) this fr(3,2)] show ?thesis by blast
qed

theorem message_layout_witness:
  "\<exists>p1 p2 p3. WPACKET_init_len \<lparr>m_ok = (\<lambda>_. True), m_junk = (\<lambda>_. 0)\<rparr>
       \<lparr>w_buf = None, w_staticbuf = None, w_curr = 0, w_written = 0, w_maxsize = 0, w_subs = [], w_endfirst = False\<rparr>
       (Some BUF_MEM_new) 3 = (True, p1)
     \<and> WPACKET_memset \<lparr>m_ok = (\<lambda>_. True), m_junk = (\<lambda>_. 0)\<rparr> p1 9 2 = Ret (True, p2)
     \<and> WPACKET_finish \<lparr>m_ok = (\<lambda>_. True), m_junk = (\<lambda>_. 0)\<rparr> p2 = Ret (True, p3)
     \<and> wpacket_bytes p3 = [0, 0, 2, 9, 9]"
proof -
  let ?m = "\<lparr>m_ok = (\<lambda>_. True), m_junk = (\<lambda>_. 0)\<rparr>"
  let ?p = "\<lparr>w_buf = None, w_staticbuf = None, w_curr = 0, w_written = 0, w_maxsize = 0, w_subs = [], w_endfirst = False\<rparr>"
  obtain p1 where p1: "WPACKET_init_len ?m ?p (Some BUF_MEM_new) 3 = (True, p1)" "w_written p1 = 3" "w_maxsize p1 = 2 ^ 24 + 2"
      "\<exists>bm. w_buf p1 = Some bm \<and> b_length bm = 256" "w_subs p1 \<noteq> []"
    by (simp add: WPACKET_init_len_def wpacket_intern_init_len_def WPACKET_allocate_bytes_def WPACKET_reserve_bytes_def
        maxmaxsize_def reserve_newlen_def BUF_MEM_new_def BUF_MEM_grow_def LIMIT_BEFORE_EXPANSION_def zero_sub_def Let_def)
  obtain p2 where p2: "WPACKET_memset ?m p1 9 2 = Ret (True, p2)"
  proof -
    have "wpacket_wf p1" "w_subs p1 \<noteq> []"
      using WPACKET_init_len_fresh [OF p1(1) BUF_MEM_new_wf] by (simp_all add: fresh_writer_def)
    then obtain ok q where q: "WPACKET_memset ?m p1 9 2 = Ret (ok, q)" using memset.op_spec [of p1 ?m 9 2] by blast
    have "ok"
    proof -
      have "fst (WPACKET_allocate_bytes ?m p1 2)"
        using p1 by (auto simp: WPACKET_allocate_bytes_def WPACKET_reserve_bytes_def)
      then show ?thesis using q by (auto simp: WPACKET_memset_def obind_Ret_eq_Ret split: prod.splits option.splits)
    qed
    with q that show thesis by simp
  qed
  have "\<exists>p3. WPACKET_finish ?m p2 = Ret (3 = (0::nat) \<or> length (replicate 2 (9::byte)) < 256 ^ 3, p3)
    \<and> (3 = (0::nat) \<or> length (replicate 2 (9::byte)) < 256 ^ 3 \<longrightarrow>
         wpacket_bytes p3 = be_bytes 3 (length (replicate 2 (9::byte))) @ replicate 2 9 \<and> w_subs p3 = [])"
    by (rule message_layout [OF memset.wpacket_writer_axioms BUF_MEM_new_wf p1(1) p2])
  then show ?thesis using p1(1) p2 by (auto simp: be_bytes_numeral numeral_2_eq_2)
qed

end
