(* ===== verification/Stack.thy ===== *)
theory Stack
  imports Prelude "HOL-Library.Signed_Division" "HOL-Library.Multiset"
begin

text \<open>
  The pointer stacks of \<open>crypto/stack/stack.c\<close>, with the checked arithmetic of
  \<open>include/internal/safe_math.h\<close> they grow by and the binary search of \<open>crypto/bsearch.c\<close>.

  A \<open>void *\<close> is a value of type \<open>'v option\<close>, \<open>None\<close> being the null pointer. The array of a stack is
  the list \<open>s_data\<close> of its slots, whose length is the field \<open>num_alloc\<close>; the empty list is the null
  array. A comparison function is a name of type \<open>'c\<close>, since the code compares function pointers;
  the argument \<open>cmp\<close> of the operations that call it gives its meaning. The arguments \<open>mem\<close> (which
  request sizes the allocator grants), \<open>junk\<close> (the contents of fresh slots) and \<open>qs\<close> (the C library's
  \<open>qsort\<close>) are the environment.

  The lemmas show that the array never overflows and that the operations act on the sequence of
  elements as the list operations they stand for; that the growth loop ends; and that the search in
  a sorted stack finds the first match.
\<close>

section \<open>Checked arithmetic\<close>

abbreviation INT_MAX :: int where "INT_MAX \<equiv> 2147483647"
abbreviation INT_MIN :: int where "INT_MIN \<equiv> - 2147483648"

text \<open>Each function returns its result and whether it raised the error flag.\<close>

definition safe_add_int :: "int \<Rightarrow> int \<Rightarrow> int \<times> bool" where
  "safe_add_int a b =
     (if INT_MIN \<le> a + b \<and> a + b \<le> INT_MAX then (a + b, False)
      else (if a < 0 then INT_MIN else INT_MAX, True))"

definition safe_mul_int :: "int \<Rightarrow> int \<Rightarrow> int \<times> bool" where
  "safe_mul_int a b =
     (if INT_MIN \<le> a * b \<and> a * b \<le> INT_MAX then (a * b, False)
      else (if (a < 0) \<noteq> (b < 0) then INT_MIN else INT_MAX, True))"

definition safe_div_int :: "int \<Rightarrow> int \<Rightarrow> int \<times> bool" where
  "safe_div_int a b =
     (if b = 0 then (if a < 0 then INT_MIN else INT_MAX, True)
      else if b = -1 \<and> a = INT_MIN then (INT_MAX, True)
      else (a sdiv b, False))"

definition safe_mod_int :: "int \<Rightarrow> int \<Rightarrow> int \<times> bool" where
  "safe_mod_int a b =
     (if b = 0 then (0, True)
      else if b = -1 \<and> a = INT_MIN then (INT_MAX, True)
      else (a smod b, False))"

definition safe_muldiv_int :: "int \<Rightarrow> int \<Rightarrow> int \<Rightarrow> int \<times> bool" where
  "safe_muldiv_int a b c =
     (if c = 0 then (if a = 0 \<or> b = 0 then 0 else INT_MAX, True)
      else
        let (x, e2) = safe_mul_int a b in
        if \<not> e2 then safe_div_int x c
        else
          let (a, b) = (if b > a then (b, a) else (a, b));
              (q, e3) = safe_div_int a c;
              (r, e4) = safe_mod_int a c;
              (x, e5) = safe_mul_int r b;
              (y, e6) = safe_mul_int q b;
              (q, e7) = safe_div_int x c;
              (s, e8) = safe_add_int y q
          in (s, e3 \<or> e4 \<or> e5 \<or> e6 \<or> e7 \<or> e8))"

section \<open>Binary search\<close>

abbreviation (input) OSSL_BSEARCH_VALUE_ON_NOMATCH :: nat where "OSSL_BSEARCH_VALUE_ON_NOMATCH \<equiv> 1"
abbreviation (input) OSSL_BSEARCH_FIRST_VALUE_ON_MATCH :: nat where "OSSL_BSEARCH_FIRST_VALUE_ON_MATCH \<equiv> 2"

text \<open>
  \<open>c i\<close> is the result of comparing the key with element \<open>i\<close>. The loop returns the last index probed
  (none when it never ran) and the last comparison; the sum \<open>l + h\<close> is an \<open>int\<close> and must not overflow.
\<close>

function bsearch_loop :: "(nat \<Rightarrow> int) \<Rightarrow> nat \<Rightarrow> nat \<Rightarrow> (nat option \<times> int) \<Rightarrow> (nat option \<times> int) outcome" where
  "bsearch_loop c l h (p, cv) =
     (if l < h then
        if int (l + h) > INT_MAX then Undef
        else
          let i = (l + h) div 2; cv = c i in
          if cv < 0 then bsearch_loop c l i (Some i, cv)
          else if cv > 0 then bsearch_loop c (i + 1) h (Some i, cv)
          else Ret (Some i, cv)
      else Ret (p, cv))"
  by pat_completeness auto
termination by (relation "measure (\<lambda>(c, l, h, s). h - l)") auto

declare bsearch_loop.simps [simp del]

fun first_match :: "(nat \<Rightarrow> int) \<Rightarrow> nat \<Rightarrow> nat" where
  "first_match c 0 = 0"
| "first_match c (Suc i) = (if c i = 0 then first_match c i else Suc i)"

definition ossl_bsearch :: "(nat \<Rightarrow> int) \<Rightarrow> nat \<Rightarrow> nat \<Rightarrow> nat option outcome" where
  "ossl_bsearch c num flags =
     (if num = 0 then Ret None
      else obind (bsearch_loop c 0 num (None, 0)) (\<lambda>(p, cv).
        if cv \<noteq> 0 \<and> flags AND OSSL_BSEARCH_VALUE_ON_NOMATCH = 0 then Ret None
        else if cv = 0 \<and> flags AND OSSL_BSEARCH_FIRST_VALUE_ON_MATCH \<noteq> 0
        then Ret (map_option (first_match c) p)
        else Ret p))"

section \<open>The stack\<close>

record ('v, 'c) stack_st =
  s_num :: nat
  s_data :: "'v option list"
  s_sorted :: bool
  s_comp :: "'c option"

abbreviation s_num_alloc :: "('v, 'c) stack_st \<Rightarrow> nat" where
  "s_num_alloc st \<equiv> length (s_data st)"

abbreviation min_nodes :: nat where "min_nodes \<equiv> 4"
abbreviation max_nodes :: nat where "max_nodes \<equiv> 2147483647"
abbreviation SIZEOF_PTR :: nat where "SIZEOF_PTR \<equiv> 8"
abbreviation SIZEOF_STACK :: nat where "SIZEOF_STACK \<equiv> 32"

definition OPENSSL_sk_set_cmp_func :: "('v, 'c) stack_st \<Rightarrow> 'c option \<Rightarrow> 'c option \<times> ('v, 'c) stack_st" where
  "OPENSSL_sk_set_cmp_func sk c =
     (s_comp sk, (if s_comp sk \<noteq> c then sk\<lparr>s_sorted := False\<rparr> else sk)\<lparr>s_comp := c\<rparr>)"

definition empty_copy :: "('v, 'c) stack_st option \<Rightarrow> ('v, 'c) stack_st" where
  "empty_copy sk =
     (case sk of
        None \<Rightarrow> \<lparr>s_num = 0, s_data = [], s_sorted = False, s_comp = None\<rparr>
      | Some s \<Rightarrow> s\<lparr>s_data := []\<rparr>)"

definition OPENSSL_sk_dup ::
    "(nat \<Rightarrow> bool) \<Rightarrow> (nat \<Rightarrow> 'v option) \<Rightarrow> ('v, 'c) stack_st option \<Rightarrow> ('v, 'c) stack_st option" where
  "OPENSSL_sk_dup mem junk sk =
     (if \<not> mem SIZEOF_STACK then None
      else case sk of
        None \<Rightarrow> Some (empty_copy sk)
      | Some s \<Rightarrow>
          if s_num s = 0 then Some (empty_copy sk)
          else if \<not> mem (SIZEOF_PTR * s_num_alloc s) then None
          else Some (s\<lparr>s_data := take (s_num s) (s_data s) @ map junk [s_num s ..< s_num_alloc s]\<rparr>))"

text \<open>
  The copying loop of \<open>OPENSSL_sk_deep_copy\<close>: the elements copied so far, in order; on a failed copy
  the non-null ones are freed from the last to the first.
\<close>

fun deep_copy_loop :: "('v \<Rightarrow> 'v option) \<Rightarrow> 'v option list \<Rightarrow> 'v option list \<Rightarrow> 'v option list option \<times> 'v list" where
  "deep_copy_loop copy_func done [] = (Some done, [])"
| "deep_copy_loop copy_func done (None # xs) = deep_copy_loop copy_func (done @ [None]) xs"
| "deep_copy_loop copy_func done (Some v # xs) =
     (case copy_func v of
        None \<Rightarrow> (None, rev (List.map_filter id done))
      | Some w \<Rightarrow> deep_copy_loop copy_func (done @ [Some w]) xs)"

definition OPENSSL_sk_deep_copy ::
    "(nat \<Rightarrow> bool) \<Rightarrow> ('v \<Rightarrow> 'v option) \<Rightarrow> ('v, 'c) stack_st option \<Rightarrow> ('v, 'c) stack_st option \<times> 'v list" where
  "OPENSSL_sk_deep_copy mem copy_func sk =
     (if \<not> mem SIZEOF_STACK then (None, [])
      else case sk of
        None \<Rightarrow> (Some (empty_copy sk), [])
      | Some s \<Rightarrow>
          if s_num s = 0 then (Some (empty_copy sk), [])
          else
            let num_alloc = (if s_num s > min_nodes then s_num s else min_nodes) in
            if \<not> mem (SIZEOF_PTR * num_alloc) then (None, [])
            else case deep_copy_loop copy_func [] (take (s_num s) (s_data s)) of
              (None, freed) \<Rightarrow> (None, freed)
            | (Some xs, freed) \<Rightarrow>
                (Some (s\<lparr>s_data := xs @ replicate (num_alloc - s_num s) None\<rparr>), freed))"

text \<open>The growth loop need not end from a capacity below 2; then it has no value.\<close>

partial_function (option) compute_growth :: "nat \<Rightarrow> nat \<Rightarrow> nat option" where
  "compute_growth target current =
     (if current < target then
        if current \<ge> max_nodes then Some 0
        else
          let (current', err) = safe_muldiv_int (int current) 8 5 in
          if err then Some 0
          else compute_growth target (if nat current' \<ge> max_nodes then max_nodes else nat current')
      else Some current)"

definition sk_reserve ::
    "(nat \<Rightarrow> bool) \<Rightarrow> (nat \<Rightarrow> 'v option) \<Rightarrow> ('v, 'c) stack_st \<Rightarrow> nat \<Rightarrow> bool
     \<Rightarrow> (bool \<times> ('v, 'c) stack_st) option" where
  "sk_reserve mem junk st n exact =
     (if n > max_nodes - s_num st then Some (False, st)
      else
        let num_alloc = (if s_num st + n < min_nodes then min_nodes else s_num st + n);
            resize = (\<lambda>num_alloc.
              if \<not> mem (SIZEOF_PTR * num_alloc) then (False, st)
              else (True, st\<lparr>s_data := take num_alloc (s_data st) @ map junk [s_num_alloc st ..< num_alloc]\<rparr>))
        in
        if s_data st = [] then
          Some (if \<not> mem (SIZEOF_PTR * num_alloc) then (False, st)
                else (True, st\<lparr>s_data := replicate num_alloc None\<rparr>))
        else if \<not> exact then
          if num_alloc \<le> s_num_alloc st then Some (True, st)
          else (case compute_growth num_alloc (s_num_alloc st) of
                  None \<Rightarrow> None
                | Some num_alloc \<Rightarrow> Some (if num_alloc = 0 then (False, st) else resize num_alloc))
        else if num_alloc = s_num_alloc st then Some (True, st)
        else Some (resize num_alloc))"

definition OPENSSL_sk_new_reserve ::
    "(nat \<Rightarrow> bool) \<Rightarrow> (nat \<Rightarrow> 'v option) \<Rightarrow> 'c option \<Rightarrow> int \<Rightarrow> ('v, 'c) stack_st option" where
  "OPENSSL_sk_new_reserve mem junk c n =
     (if \<not> mem SIZEOF_STACK then None
      else
        let st = \<lparr>s_num = 0, s_data = [], s_sorted = False, s_comp = c\<rparr> in
        if n \<le> 0 then Some st
        else case sk_reserve mem junk st (nat n) True of
          Some (True, st') \<Rightarrow> Some st'
        | _ \<Rightarrow> None)"

definition OPENSSL_sk_new :: "(nat \<Rightarrow> bool) \<Rightarrow> (nat \<Rightarrow> 'v option) \<Rightarrow> 'c option \<Rightarrow> ('v, 'c) stack_st option" where
  "OPENSSL_sk_new mem junk c = OPENSSL_sk_new_reserve mem junk c 0"

definition OPENSSL_sk_new_null :: "(nat \<Rightarrow> bool) \<Rightarrow> (nat \<Rightarrow> 'v option) \<Rightarrow> ('v, 'c) stack_st option" where
  "OPENSSL_sk_new_null mem junk = OPENSSL_sk_new_reserve mem junk None 0"

definition OPENSSL_sk_reserve ::
    "(nat \<Rightarrow> bool) \<Rightarrow> (nat \<Rightarrow> 'v option) \<Rightarrow> ('v, 'c) stack_st option \<Rightarrow> int
     \<Rightarrow> (bool \<times> ('v, 'c) stack_st option) option" where
  "OPENSSL_sk_reserve mem junk st n =
     (case st of
        None \<Rightarrow> Some (False, None)
      | Some s \<Rightarrow> if n < 0 then Some (True, st)
          else map_option (\<lambda>(ok, s'). (ok, Some s')) (sk_reserve mem junk s (nat n) True))"

text \<open>
  Insertion. The outcome of a store outside the array is \<open>Undef\<close>; a growth loop that does not end is
  \<open>Fail\<close>, which the lemmas exclude. The result is the \<open>int\<close> the function returns.
\<close>

definition OPENSSL_sk_insert ::
    "(nat \<Rightarrow> bool) \<Rightarrow> (nat \<Rightarrow> 'v option) \<Rightarrow> ('v, 'c) stack_st option \<Rightarrow> 'v option \<Rightarrow> int
     \<Rightarrow> (nat \<times> ('v, 'c) stack_st option) outcome" where
  "OPENSSL_sk_insert mem junk st data loc =
     (case st of
        None \<Rightarrow> Ret (0, None)
      | Some s \<Rightarrow>
          if s_num s = max_nodes then Ret (0, st)
          else case sk_reserve mem junk s 1 False of
            None \<Rightarrow> Fail
          | Some (False, s') \<Rightarrow> Ret (0, Some s')
          | Some (True, s') \<Rightarrow>
              if \<not> s_num s' < s_num_alloc s' then Undef
              else
                let arr =
                  (if loc \<ge> int (s_num s') \<or> loc < 0
                   then (s_data s')[s_num s' := data]
                   else (patch (s_data s') (nat loc + 1) (drop (nat loc) (take (s_num s') (s_data s'))))[nat loc := data])
                in Ret (s_num s' + 1, Some (s'\<lparr>s_data := arr, s_num := s_num s' + 1, s_sorted := False\<rparr>)))"

definition internal_delete :: "('v, 'c) stack_st \<Rightarrow> nat \<Rightarrow> 'v option \<times> ('v, 'c) stack_st" where
  "internal_delete st loc =
     (let ret = s_data st ! loc;
          arr = (if loc \<noteq> s_num st - 1
                 then patch (s_data st) loc (drop (loc + 1) (take (s_num st) (s_data st)))
                 else s_data st)
      in (ret, st\<lparr>s_data := arr, s_num := s_num st - 1\<rparr>))"

text \<open>\<open>for (i = 0; i < st->num; i++) if (st->data[i] == p)\<close>\<close>

fun find_ptr :: "'v option list \<Rightarrow> 'v option \<Rightarrow> nat \<Rightarrow> nat option" where
  "find_ptr [] p i = None"
| "find_ptr (x # xs) p i = (if x = p then Some i else find_ptr xs p (i + 1))"

definition OPENSSL_sk_delete_ptr ::
    "('v, 'c) stack_st option \<Rightarrow> 'v option \<Rightarrow> 'v option \<times> ('v, 'c) stack_st option" where
  "OPENSSL_sk_delete_ptr st p =
     (case st of
        None \<Rightarrow> (None, None)
      | Some s \<Rightarrow>
          (case find_ptr (take (s_num s) (s_data s)) p 0 of
             None \<Rightarrow> (None, st)
           | Some i \<Rightarrow> apsnd Some (internal_delete s i)))"

definition OPENSSL_sk_delete ::
    "('v, 'c) stack_st option \<Rightarrow> int \<Rightarrow> 'v option \<times> ('v, 'c) stack_st option" where
  "OPENSSL_sk_delete st loc =
     (case st of
        None \<Rightarrow> (None, None)
      | Some s \<Rightarrow> if loc < 0 \<or> loc \<ge> int (s_num s) then (None, st)
          else apsnd Some (internal_delete s (nat loc)))"

text \<open>
  The linear search of an unsorted stack with a comparison function. The counter \<open>*pnum\<close> starts at
  whatever value the caller's variable has.
\<close>

fun find_unsorted :: "('v option \<Rightarrow> int) \<Rightarrow> 'v option list \<Rightarrow> nat \<Rightarrow> int \<Rightarrow> int \<Rightarrow> bool \<Rightarrow> int \<times> int" where
  "find_unsorted c [] i res pnum one = (res, if res = -1 then 0 else pnum)"
| "find_unsorted c (x # xs) i res pnum one =
     (if c x = 0 then
        if one then (int i, pnum + 1)
        else find_unsorted c xs (i + 1) (if res = -1 then int i else res) (pnum + 1) one
      else find_unsorted c xs (i + 1) res pnum one)"

text \<open>\<open>pnum_matched\<close> is the caller's counter, or \<open>None\<close> for a null pointer.\<close>

definition internal_find ::
    "('c \<Rightarrow> 'v option \<Rightarrow> 'v option \<Rightarrow> int) \<Rightarrow> ('v, 'c) stack_st option \<Rightarrow> 'v option \<Rightarrow> nat \<Rightarrow> int option
     \<Rightarrow> (int \<times> int option) outcome" where
  "internal_find cmp st data ret_val_options pnum_matched =
     (case st of
        None \<Rightarrow> Ret (-1, pnum_matched)
      | Some s \<Rightarrow>
          let items = take (s_num s) (s_data s); set_pnum = (\<lambda>n. map_option (\<lambda>_. n) pnum_matched) in
          if s_num s = 0 then Ret (-1, pnum_matched)
          else case s_comp s of
            None \<Rightarrow>
              (case find_ptr items data 0 of
                 Some i \<Rightarrow> Ret (int i, set_pnum 1)
               | None \<Rightarrow> Ret (-1, set_pnum 0))
          | Some f \<Rightarrow>
              if data = None then Ret (-1, pnum_matched)
              else if \<not> s_sorted s then
                let (res, n) = find_unsorted (cmp f data) items 0 (-1)
                                 (case pnum_matched of None \<Rightarrow> 0 | Some n \<Rightarrow> n) (pnum_matched = None)
                in Ret (res, set_pnum n)
              else
                let opts = (if pnum_matched \<noteq> None
                            then ret_val_options OR OSSL_BSEARCH_FIRST_VALUE_ON_MATCH else ret_val_options)
                in obind (ossl_bsearch (\<lambda>i. cmp f data (items ! i)) (s_num s) opts) (\<lambda>r.
                     Ret (case r of None \<Rightarrow> -1 | Some i \<Rightarrow> int i,
                          set_pnum (case r of
                            None \<Rightarrow> 0
                          | Some i \<Rightarrow> int (length (takeWhile (\<lambda>x. cmp f data x = 0) (drop i items)))))))"

definition OPENSSL_sk_find ::
    "('c \<Rightarrow> 'v option \<Rightarrow> 'v option \<Rightarrow> int) \<Rightarrow> ('v, 'c) stack_st option \<Rightarrow> 'v option \<Rightarrow> int outcome" where
  "OPENSSL_sk_find cmp st data =
     obind (internal_find cmp st data OSSL_BSEARCH_FIRST_VALUE_ON_MATCH None) (\<lambda>(r, _). Ret r)"

definition OPENSSL_sk_find_ex ::
    "('c \<Rightarrow> 'v option \<Rightarrow> 'v option \<Rightarrow> int) \<Rightarrow> ('v, 'c) stack_st option \<Rightarrow> 'v option \<Rightarrow> int outcome" where
  "OPENSSL_sk_find_ex cmp st data =
     obind (internal_find cmp st data OSSL_BSEARCH_VALUE_ON_NOMATCH None) (\<lambda>(r, _). Ret r)"

definition OPENSSL_sk_find_all ::
    "('c \<Rightarrow> 'v option \<Rightarrow> 'v option \<Rightarrow> int) \<Rightarrow> ('v, 'c) stack_st option \<Rightarrow> 'v option \<Rightarrow> int option
     \<Rightarrow> (int \<times> int option) outcome" where
  "OPENSSL_sk_find_all cmp st data pnum =
     internal_find cmp st data OSSL_BSEARCH_FIRST_VALUE_ON_MATCH pnum"

definition OPENSSL_sk_push where
  "OPENSSL_sk_push mem junk st data =
     (case st of
        None \<Rightarrow> Ret (0, None)
      | Some s \<Rightarrow> OPENSSL_sk_insert mem junk st data (int (s_num s)))"

definition OPENSSL_sk_unshift where
  "OPENSSL_sk_unshift mem junk st data = OPENSSL_sk_insert mem junk st data 0"

definition OPENSSL_sk_shift :: "('v, 'c) stack_st option \<Rightarrow> 'v option \<times> ('v, 'c) stack_st option" where
  "OPENSSL_sk_shift st =
     (case st of
        None \<Rightarrow> (None, None)
      | Some s \<Rightarrow> if s_num s = 0 then (None, st) else apsnd Some (internal_delete s 0))"

definition OPENSSL_sk_pop :: "('v, 'c) stack_st option \<Rightarrow> 'v option \<times> ('v, 'c) stack_st option" where
  "OPENSSL_sk_pop st =
     (case st of
        None \<Rightarrow> (None, None)
      | Some s \<Rightarrow> if s_num s = 0 then (None, st) else apsnd Some (internal_delete s (s_num s - 1)))"

definition OPENSSL_sk_zero :: "('v, 'c) stack_st option \<Rightarrow> ('v, 'c) stack_st option" where
  "OPENSSL_sk_zero st =
     map_option (\<lambda>s. if s_num s = 0 then s
       else s\<lparr>s_data := patch (s_data s) 0 (replicate (s_num s) None), s_num := 0\<rparr>) st"

text \<open>The elements the free function is called with, in order.\<close>

definition OPENSSL_sk_pop_free :: "('v, 'c) stack_st option \<Rightarrow> 'v list" where
  "OPENSSL_sk_pop_free st =
     (case st of None \<Rightarrow> [] | Some s \<Rightarrow> List.map_filter id (take (s_num s) (s_data s)))"

definition OPENSSL_sk_num :: "('v, 'c) stack_st option \<Rightarrow> int" where
  "OPENSSL_sk_num st = (case st of None \<Rightarrow> -1 | Some s \<Rightarrow> int (s_num s))"

definition OPENSSL_sk_value :: "('v, 'c) stack_st option \<Rightarrow> int \<Rightarrow> 'v option" where
  "OPENSSL_sk_value st i =
     (case st of
        None \<Rightarrow> None
      | Some s \<Rightarrow> if i < 0 \<or> i \<ge> int (s_num s) then None else s_data s ! nat i)"

definition OPENSSL_sk_set ::
    "('v, 'c) stack_st option \<Rightarrow> int \<Rightarrow> 'v option \<Rightarrow> 'v option \<times> ('v, 'c) stack_st option" where
  "OPENSSL_sk_set st i data =
     (case st of
        None \<Rightarrow> (None, None)
      | Some s \<Rightarrow> if i < 0 \<or> i \<ge> int (s_num s) then (None, st)
          else let s' = s\<lparr>s_data := (s_data s)[nat i := data], s_sorted := False\<rparr>
               in (s_data s' ! nat i, Some s'))"

definition OPENSSL_sk_sort ::
    "(('v option \<Rightarrow> 'v option \<Rightarrow> int) \<Rightarrow> 'v option list \<Rightarrow> 'v option list)
     \<Rightarrow> ('c \<Rightarrow> 'v option \<Rightarrow> 'v option \<Rightarrow> int) \<Rightarrow> ('v, 'c) stack_st option \<Rightarrow> ('v, 'c) stack_st option" where
  "OPENSSL_sk_sort qs cmp st =
     map_option (\<lambda>s. case s_comp s of
        Some f \<Rightarrow>
          if \<not> s_sorted s
          then (if s_num s > 1 then s\<lparr>s_data := patch (s_data s) 0 (qs (cmp f) (take (s_num s) (s_data s)))\<rparr> else s)
               \<lparr>s_sorted := True\<rparr>
          else s
      | None \<Rightarrow> s) st"

definition OPENSSL_sk_is_sorted :: "('v, 'c) stack_st option \<Rightarrow> bool" where
  "OPENSSL_sk_is_sorted st = (case st of None \<Rightarrow> True | Some s \<Rightarrow> s_sorted s)"

section \<open>Growth\<close>

lemma sdiv_nonneg: "0 \<le> a \<Longrightarrow> 0 < b \<Longrightarrow> a sdiv b = (a div b :: int)"
  by (cases "a = 0") (simp_all add: signed_divide_int_def)

lemma smod_nonneg: "0 \<le> a \<Longrightarrow> 0 < b \<Longrightarrow> a smod b = (a mod b :: int)"
  by (cases "a = 0") (simp_all add: signed_modulo_int_def)

text \<open>
  The growth step is exact as long as its result fits into an \<open>int\<close>, although the product does not,
  and raises the error flag as soon as it does not.
\<close>

lemma safe_ops_nonneg:
  assumes "0 \<le> a" and "0 < b"
  shows "safe_div_int a b = (a div b, False)" and "safe_mod_int a b = (a mod b, False)"
    and "safe_mul_int a b = (if a * b \<le> INT_MAX then (a * b, False) else (INT_MAX, True))"
proof -
  have "0 \<le> a * b" using assms by simp
  then have "INT_MIN \<le> a * b" by linarith
  then show "safe_mul_int a b = (if a * b \<le> INT_MAX then (a * b, False) else (INT_MAX, True))"
    using assms by (simp add: safe_mul_int_def)
qed (use assms in \<open>simp_all add: safe_div_int_def safe_mod_int_def sdiv_nonneg smod_nonneg\<close>)

lemma muldiv_8_5:
  assumes "0 \<le> a" and "a \<le> INT_MAX"
  shows "a < 1342177280 \<Longrightarrow> safe_muldiv_int a 8 5 = (a * 8 div 5, False)"
    and "1342177280 \<le> a \<Longrightarrow> snd (safe_muldiv_int a 8 5)"
proof -
  have m: "0 \<le> a mod 5" "a mod 5 * 8 \<le> INT_MAX" "0 \<le> a div 5" "0 \<le> a mod 5 * 8"
    using assms(1) by (simp_all add: pos_imp_zdiv_nonneg_iff)
  note ops = safe_ops_nonneg [OF assms(1)] safe_ops_nonneg [OF m(1)] safe_ops_nonneg [OF m(3)] safe_ops_nonneg [OF m(4)]
  have split: "a * 8 div 5 = a div 5 * 8 + a mod 5 * 8 div 5" by presburger
  have big: "safe_muldiv_int a 8 5 =
      (let (y, e) = safe_mul_int (a div 5) 8; (s, e') = safe_add_int y (a mod 5 * 8 div 5) in (s, e \<or> e'))"
    if "\<not> a * 8 \<le> INT_MAX"
    using that m(2) by (simp add: safe_muldiv_int_def ops Let_def split_beta)
  show "safe_muldiv_int a 8 5 = (a * 8 div 5, False)" if "a < 1342177280"
  proof (cases "a * 8 \<le> INT_MAX")
    case True
    have "safe_div_int (a * 8) 5 = (a * 8 div 5, False)" using assms(1) by (simp add: safe_ops_nonneg)
    with True show ?thesis by (simp add: safe_muldiv_int_def ops)
  next
    case False
    have "a div 5 \<le> 1342177279 div 5" using that by (intro zdiv_mono1) simp_all
    then have q: "a div 5 * 8 \<le> 2147483640" by simp
    moreover have x: "0 \<le> a mod 5 * 8 div 5" "a mod 5 * 8 div 5 \<le> 6"
      using m(4) pos_mod_bound [of 5 a] zdiv_mono1 [of "a mod 5 * 8" 32 5] by (simp_all add: pos_imp_zdiv_nonneg_iff)
    ultimately have "safe_add_int (a div 5 * 8) (a mod 5 * 8 div 5) = (a div 5 * 8 + a mod 5 * 8 div 5, False)"
      using m(3) by (simp add: safe_add_int_def)
    moreover have "safe_mul_int (a div 5) 8 = (a div 5 * 8, False)" using q by (simp add: ops)
    ultimately show ?thesis using big [OF False] split by simp
  qed
  show "snd (safe_muldiv_int a 8 5)" if "1342177280 \<le> a"
  proof -
    have "1342177280 div 5 \<le> a div 5" using that by (intro zdiv_mono1) simp_all
    then have "safe_mul_int (a div 5) 8 = (INT_MAX, True)" by (simp add: ops)
    then show ?thesis using big that by (simp add: split_beta)
  qed
qed

lemma compute_growth_step:
  assumes "c < t" and "c < max_nodes"
  shows "c < 1342177280 \<Longrightarrow> compute_growth t c = compute_growth t (c * 8 div 5)"
    and "1342177280 \<le> c \<Longrightarrow> compute_growth t c = Some 0"
proof -
  have c: "0 \<le> int c" "int c \<le> INT_MAX" using assms by auto
  have "nat (int c * 8 div 5) = c * 8 div 5" by simp
  moreover have "c < 1342177280 \<Longrightarrow> c * 8 div 5 < max_nodes" by linarith
  ultimately show "c < 1342177280 \<Longrightarrow> compute_growth t c = compute_growth t (c * 8 div 5)"
    using assms muldiv_8_5(1) [OF c] by (subst compute_growth.simps) (auto simp: Let_def)
  show "1342177280 \<le> c \<Longrightarrow> compute_growth t c = Some 0"
    using assms muldiv_8_5(2) [OF c] by (subst compute_growth.simps) (auto simp: Let_def split: prod.splits)
qed

text \<open>
  From a capacity of at least 2 the loop ends; it gives up only on targets beyond the largest value
  whose growth still fits.
\<close>

lemma compute_growth_cases:
  assumes "2 \<le> c" and "c \<le> max_nodes"
  shows "\<exists>r. compute_growth t c = Some r \<and> (r = 0 \<and> 1342177280 < t \<or> t \<le> r \<and> c \<le> r \<and> r \<le> max_nodes)"
  using assms
proof (induction "t - c" arbitrary: c rule: less_induct)
  case less
  show ?case
  proof (cases "c < t")
    case False
    then show ?thesis using less.prems by (subst compute_growth.simps) auto
  next
    case True
    show ?thesis
    proof (cases "c < 1342177280")
      case small: True
      have up: "c < c * 8 div 5" "c * 8 div 5 \<le> max_nodes" using less.prems small by linarith+
      have "\<exists>r. compute_growth t (c * 8 div 5) = Some r \<and>
          (r = 0 \<and> 1342177280 < t \<or> t \<le> r \<and> c * 8 div 5 \<le> r \<and> r \<le> max_nodes)"
        by (rule less.hyps) (use up True less.prems in auto)
      then show ?thesis
        using compute_growth_step(1) [OF True] small up by fastforce
    next
      case big: False
      show ?thesis
      proof (cases "c < max_nodes")
        case True2: True
        then show ?thesis using compute_growth_step(2) [OF True] big True by simp
      next
        case False
        then have "compute_growth t c = Some 0" using True by (subst compute_growth.simps) simp
        then show ?thesis using True False by simp
      qed
    qed
  qed
qed

section \<open>Well-formed stacks and their elements\<close>

definition stack_wf :: "('v, 'c) stack_st \<Rightarrow> bool" where
  "stack_wf st \<longleftrightarrow>
     s_num st \<le> s_num_alloc st \<and> s_num_alloc st \<le> max_nodes \<and> (s_data st \<noteq> [] \<longrightarrow> min_nodes \<le> s_num_alloc st)"

definition sk_items :: "('v, 'c) stack_st \<Rightarrow> 'v option list" where
  "sk_items st = take (s_num st) (s_data st)"

lemma length_sk_items: "stack_wf st \<Longrightarrow> length (sk_items st) = s_num st"
  by (simp add: stack_wf_def sk_items_def)

lemma sk_reserve_spec:
  assumes wf: "stack_wf st"
  shows "\<exists>ok st'. sk_reserve mem junk st n exact = Some (ok, st') \<and> stack_wf st' \<and> sk_items st' = sk_items st
    \<and> s_num st' = s_num st \<and> s_sorted st' = s_sorted st \<and> s_comp st' = s_comp st
    \<and> (ok \<longrightarrow> s_num st + n \<le> s_num_alloc st')
    \<and> ((\<forall>k. mem k) \<and> s_num st + n \<le> 1342177280 \<longrightarrow> ok)"
proof (cases "n > max_nodes - s_num st")
  case True
  moreover from this have "\<not> s_num st + n \<le> 1342177280" by linarith
  ultimately show ?thesis using wf by (intro exI [of _ False] exI [of _ st]) (simp add: sk_reserve_def)
next
  case False
  define na where "na = (if s_num st + n < min_nodes then min_nodes else s_num st + n)"
  have na: "s_num st + n \<le> na" "na \<le> max_nodes" "4 \<le> na" using False wf by (auto simp: na_def stack_wf_def)
  define grown where "grown k = st\<lparr>s_data := take k (s_data st) @ map junk [s_num_alloc st ..< k]\<rparr>" for k
  have g: "stack_wf (grown k) \<and> sk_items (grown k) = sk_items st \<and> s_num_alloc (grown k) = k
      \<and> s_num (grown k) = s_num st \<and> s_sorted (grown k) = s_sorted st \<and> s_comp (grown k) = s_comp st"
    if "na \<le> k" "k \<le> max_nodes" for k
    using that na wf by (auto simp: grown_def stack_wf_def sk_items_def min_def)
  show ?thesis
  proof (cases "s_data st = []")
    case True
    then show ?thesis
      using False wf na by (auto simp: sk_reserve_def na_def [symmetric] stack_wf_def sk_items_def)
  next
    case ne: False
    show ?thesis
    proof (cases exact)
      case True
      then show ?thesis
        using False ne g [of na] na wf
        by (auto simp: sk_reserve_def na_def [symmetric] grown_def [symmetric])
    next
      case inexact: False
      show ?thesis
      proof (cases "na \<le> s_num_alloc st")
        case True
        then show ?thesis
          using False ne inexact na wf by (auto simp: sk_reserve_def na_def [symmetric])
      next
        case grow: False
        from compute_growth_cases [of "s_num_alloc st" na] obtain r where
          r: "compute_growth na (s_num_alloc st) = Some r"
            "r = 0 \<and> 1342177280 < na \<or> na \<le> r \<and> s_num_alloc st \<le> r \<and> r \<le> max_nodes"
          using wf ne by (fastforce simp: stack_wf_def)
        have res: "sk_reserve mem junk st n exact =
            Some (if r = 0 then (False, st) else if mem (SIZEOF_PTR * r) then (True, grown r) else (False, st))"
          using False ne inexact grow r(1) by (simp add: sk_reserve_def na_def [symmetric] grown_def [symmetric])
        show ?thesis
        proof (cases "r = 0")
          case True
          then have "1342177280 < na" using r(2) na(3) by linarith
          then have "\<not> s_num st + n \<le> 1342177280" by (simp add: na_def split: if_splits)
          then show ?thesis using res True wf by (intro exI [of _ False] exI [of _ st]) simp
        next
          case nz: False
          then have "na \<le> r" "r \<le> max_nodes" using r(2) by auto
          from g [OF this] show ?thesis
            using res nz wf na(1) \<open>na \<le> r\<close> by (cases "mem (SIZEOF_PTR * r)") auto
        qed
      qed
    qed
  qed
qed

section \<open>The operations on the sequence of elements\<close>

definition insert_at :: "int \<Rightarrow> 'a \<Rightarrow> 'a list \<Rightarrow> 'a list" where
  "insert_at loc x xs =
     (if loc \<ge> int (length xs) \<or> loc < 0 then xs @ [x] else take (nat loc) xs @ x # drop (nat loc) xs)"

definition delete_at :: "nat \<Rightarrow> 'a list \<Rightarrow> 'a list" where
  "delete_at i xs = take i xs @ drop (Suc i) xs"

lemma take_Suc_update: "n < length xs \<Longrightarrow> take (Suc n) (xs[n := x]) = take n xs @ [x]"
  by (simp add: take_Suc_conv_app_nth)

lemma take_Suc_moved:
  assumes "i < n" "n < length xs"
  shows "take (Suc n) ((patch xs (Suc i) (drop i (take n xs)))[i := x]) = take i xs @ x # drop i (take n xs)"
proof -
  let ?mid = "drop i (take n xs)"
  have split: "take (Suc i) xs = take i xs @ [xs ! i]" using assms by (simp add: take_Suc_conv_app_nth)
  have "patch xs (Suc i) ?mid = take i xs @ [xs ! i] @ ?mid @ drop (Suc n) xs"
    using assms split by (simp add: patch_def)
  then have "(patch xs (Suc i) ?mid)[i := x] = take i xs @ [x] @ ?mid @ drop (Suc n) xs"
    using assms by (simp add: list_update_append)
  then show ?thesis using assms by (simp add: Suc_diff_le)
qed

lemma sk_insert_spec:
  assumes wf: "stack_wf st"
  obtains (failed) st' where "OPENSSL_sk_insert mem junk (Some st) data loc = Ret (0, Some st')"
      "stack_wf st'" "sk_items st' = sk_items st" "\<not> ((\<forall>k. mem k) \<and> s_num st < 1342177280)"
  | (inserted) st' where
      "OPENSSL_sk_insert mem junk (Some st) data loc = Ret (s_num st + 1, Some st')"
      "stack_wf st'" "sk_items st' = insert_at loc data (sk_items st)" "\<not> s_sorted st'" "s_comp st' = s_comp st"
proof -
  obtain ok s1 where r: "sk_reserve mem junk st 1 False = Some (ok, s1)" "stack_wf s1" "sk_items s1 = sk_items st"
    "s_num s1 = s_num st" "s_comp s1 = s_comp st" "ok \<Longrightarrow> s_num st + 1 \<le> s_num_alloc s1"
    "(\<forall>k. mem k) \<and> s_num st + 1 \<le> 1342177280 \<Longrightarrow> ok"
    using sk_reserve_spec [OF wf, of mem junk 1 False] by blast
  show thesis
  proof (cases "s_num st = max_nodes \<or> \<not> ok")
    case True
    then have "OPENSSL_sk_insert mem junk (Some st) data loc = Ret (0, Some (if s_num st = max_nodes then st else s1))"
      using r(1) by (auto simp: OPENSSL_sk_insert_def)
    then show thesis
    proof (rule failed)
      show "stack_wf (if s_num st = max_nodes then st else s1)"
        "sk_items (if s_num st = max_nodes then st else s1) = sk_items st" using wf r by simp_all
      show "\<not> ((\<forall>k. mem k) \<and> s_num st < 1342177280)" using True r(7) by auto
    qed
  next
    case False
    then have room: "s_num s1 < s_num_alloc s1" using r by simp
    define arr where "arr = (if loc \<ge> int (s_num s1) \<or> loc < 0 then (s_data s1)[s_num s1 := data]
      else (patch (s_data s1) (nat loc + 1) (drop (nat loc) (take (s_num s1) (s_data s1))))[nat loc := data])"
    have "OPENSSL_sk_insert mem junk (Some st) data loc =
        Ret (s_num st + 1, Some (s1\<lparr>s_data := arr, s_num := s_num s1 + 1, s_sorted := False\<rparr>))"
      using False r(1,4) room by (simp add: OPENSSL_sk_insert_def arr_def)
    then show thesis
    proof (rule inserted)
      have len: "length arr = s_num_alloc s1" using room by (auto simp: arr_def)
      then show "stack_wf (s1\<lparr>s_data := arr, s_num := s_num s1 + 1, s_sorted := False\<rparr>)"
        using r(2) room by (auto simp: stack_wf_def)
      have "take (Suc (s_num s1)) arr = insert_at loc data (take (s_num s1) (s_data s1))"
        using room take_Suc_update [OF room, of data] take_Suc_moved [of "nat loc" "s_num s1" "s_data s1" data]
        by (auto simp: arr_def insert_at_def)
      then show "sk_items (s1\<lparr>s_data := arr, s_num := s_num s1 + 1, s_sorted := False\<rparr>) = insert_at loc data (sk_items st)"
        using r(3) by (simp add: sk_items_def)
    qed (use r in auto)
  qed
qed

lemma internal_delete_spec:
  assumes wf: "stack_wf st" and i: "i < s_num st"
  shows "fst (internal_delete st i) = sk_items st ! i"
    and "stack_wf (snd (internal_delete st i))"
    and "sk_items (snd (internal_delete st i)) = delete_at i (sk_items st)"
proof -
  let ?n = "s_num st" and ?d = "s_data st"
  have le: "?n \<le> length ?d" using wf by (simp add: stack_wf_def)
  show "fst (internal_delete st i) = sk_items st ! i"
    using i by (simp add: internal_delete_def sk_items_def Let_def)
  have len: "i + length (drop (i + 1) (take ?n ?d)) \<le> length ?d" using i le by simp
  then show "stack_wf (snd (internal_delete st i))"
    using wf i le by (auto simp: internal_delete_def Let_def stack_wf_def)
  have "take (?n - 1) (patch ?d i (drop (i + 1) (take ?n ?d))) = take i ?d @ drop (Suc i) (take ?n ?d)"
    using take_patch_end [OF len] i le by simp
  moreover have "i = ?n - 1 \<Longrightarrow> drop (Suc i) (take ?n ?d) = []" using i by simp
  ultimately show "sk_items (snd (internal_delete st i)) = delete_at i (sk_items st)"
    using i le by (auto simp: internal_delete_def Let_def sk_items_def delete_at_def min_def)
qed

section \<open>Searching\<close>

text \<open>The comparisons of a key with the elements of a sorted sequence: first positive, then zero, then negative.\<close>

definition cmp_sorted :: "(nat \<Rightarrow> int) \<Rightarrow> nat \<Rightarrow> bool" where
  "cmp_sorted c n \<longleftrightarrow> (\<forall>i j. i < j \<and> j < n \<longrightarrow> (c j > 0 \<longrightarrow> c i > 0) \<and> (c j = 0 \<longrightarrow> c i \<ge> 0))"

lemma cmp_sortedD:
  assumes "cmp_sorted c n" and "i < j" and "j < n"
  shows "c j > 0 \<Longrightarrow> c i > 0" and "c j = 0 \<Longrightarrow> c i \<ge> 0" and "c i < 0 \<Longrightarrow> c j < 0" and "c i = 0 \<Longrightarrow> c j \<le> 0"
proof -
  have "(c j > 0 \<longrightarrow> c i > 0) \<and> (c j = 0 \<longrightarrow> c i \<ge> 0)" using assms by (auto simp: cmp_sorted_def)
  then show "c j > 0 \<Longrightarrow> c i > 0" "c j = 0 \<Longrightarrow> c i \<ge> 0" "c i < 0 \<Longrightarrow> c j < 0" "c i = 0 \<Longrightarrow> c j \<le> 0"
    by (auto simp: not_less [symmetric])
qed

lemma bsearch_loop_spec:
  assumes "cmp_sorted c n" and "n \<le> 2 ^ 30" and "l \<le> h" and "h \<le> n"
    and "\<forall>i < l. c i > 0" and "\<forall>i. h \<le> i \<and> i < n \<longrightarrow> c i < 0"
    and "l < h \<or> (\<exists>i < n. p = Some i \<and> cv = c i \<and> (cv < 0 \<and> i = h \<or> cv > 0 \<and> l = Suc i))"
  shows "\<exists>i cv'. bsearch_loop c l h (p, cv) = Ret (Some i, cv') \<and> i < n \<and> cv' = c i
    \<and> (c i \<noteq> 0 \<longrightarrow> (\<forall>j < n. c j \<noteq> 0) \<and> (c i < 0 \<longrightarrow> (\<forall>j < i. c j > 0)) \<and> (c i > 0 \<longrightarrow> (\<forall>j. i < j \<and> j < n \<longrightarrow> c j < 0)))"
  using assms
proof (induction "h - l" arbitrary: l h p cv rule: less_induct)
  case less
  show ?case
  proof (cases "l < h")
    case False
    then obtain i where i: "i < n" "p = Some i" "cv = c i" "cv < 0 \<and> i = h \<or> cv > 0 \<and> l = Suc i"
      using less.prems(7) by blast
    have "c j \<noteq> 0" if "j < n" for j 
      using less.prems(3,5,6) False that by (cases "j < l") (fastforce simp: not_less)+
    then show ?thesis
      using i False less.prems(3,5,6) by (subst bsearch_loop.simps) auto
  next
    case True
    let ?i = "(l + h) div 2"
    have i: "l \<le> ?i" "?i < h" "?i < n" using True less.prems(4) by auto
    have no: "\<not> int (l + h) > INT_MAX" using less.prems(2-4) True by simp
    consider "c ?i < 0" | "c ?i > 0" | "c ?i = 0" by linarith
    then show ?thesis
    proof cases
      case 1
      have "\<forall>j. ?i \<le> j \<and> j < n \<longrightarrow> c j < 0"
        using cmp_sortedD(3) [OF less.prems(1), of ?i] 1 by (metis le_neq_implies_less)
      moreover have "bsearch_loop c l h (p, cv) = bsearch_loop c l ?i (Some ?i, c ?i)"
        using 1 True no by (subst bsearch_loop.simps) (simp add: Let_def)
      ultimately show ?thesis
        using less.hyps [of ?i l "Some ?i" "c ?i"] less.prems i 1 by auto
    next
      case 2
      have "\<forall>j < ?i + 1. c j > 0"
        using cmp_sortedD(1) [OF less.prems(1) _ i(3)] 2 by (metis Suc_eq_plus1 less_antisym)
      moreover have "bsearch_loop c l h (p, cv) = bsearch_loop c (?i + 1) h (Some ?i, c ?i)"
        using 2 True no by (subst bsearch_loop.simps) (simp add: Let_def)
      ultimately show ?thesis
        using less.hyps [of h "?i + 1" "Some ?i" "c ?i"] less.prems i 2 by auto
    next
      case 3
      then show ?thesis using i True no by (subst bsearch_loop.simps) (simp add: Let_def)
    qed
  qed
qed

lemma first_match_spec:
  assumes "cmp_sorted c n" and "i < n" and "c i = 0"
  shows "first_match c i \<le> i \<and> c (first_match c i) = 0 \<and> (\<forall>j < first_match c i. c j > 0)"
  using assms(2,3)
proof (induction i)
  case (Suc i)
  have "c j > 0" if "c i \<noteq> 0" "j < Suc i" for j
  proof -
    have "c i > 0" using cmp_sortedD(2) [OF assms(1), of i "Suc i"] Suc.prems that by simp
    then show ?thesis
      using cmp_sortedD(1) [OF assms(1), of j i] that Suc.prems by (cases "j = i") auto
  qed
  then show ?case using Suc by auto
qed simp

lemma find_upt_eq:
  "find P [0..<n] = Some i \<longleftrightarrow> i < n \<and> P i \<and> (\<forall>j < i. \<not> P j)"
  by (auto simp: find_Some_iff)

text \<open>The binary search is equivalent to the linear search for the first match.\<close>

lemma ossl_bsearch_first:
  assumes "cmp_sorted c n" and "n \<le> 2 ^ 30"
  shows "ossl_bsearch c n OSSL_BSEARCH_FIRST_VALUE_ON_MATCH = Ret (find (\<lambda>i. c i = 0) [0..<n])"
proof (cases "n = 0")
  case True
  then show ?thesis by (simp add: ossl_bsearch_def)
next
  case False
  obtain i where r: "bsearch_loop c 0 n (None, 0) = Ret (Some i, c i)" "i < n"
    "c i \<noteq> 0 \<Longrightarrow> \<forall>j < n. c j \<noteq> 0"
    using bsearch_loop_spec [OF assms, of 0 n None 0] False by auto
  show ?thesis
  proof (cases "c i = 0")
    case True
    have "find (\<lambda>i. c i = 0) [0..<n] = Some (first_match c i)"
      using first_match_spec [OF assms(1) r(2) True] r(2) by (auto simp: find_upt_eq)
    then show ?thesis using False True r by (simp add: ossl_bsearch_def)
  next
    case nz: False
    then have "find (\<lambda>i. c i = 0) [0..<n] = None" using r(3) by (auto simp: find_None_iff)
    then show ?thesis using False nz r by (simp add: ossl_bsearch_def)
  qed
qed

lemma find_ptr_eq: "find_ptr xs p k = map_option ((+) k) (find (\<lambda>i. xs ! i = p) [0..<length xs])"
proof (induction xs arbitrary: k)
  case (Cons x xs)
  have "[0..<Suc (length xs)] = 0 # map Suc [0..<length xs]" by (simp add: upt_conv_Cons map_Suc_upt del: upt_Suc)
  moreover have "find P (map Suc is) = map_option Suc (find (P \<circ> Suc) is)" for P "is" by (induction "is") auto
  ultimately show ?case
    using Cons [of "k + 1"] by (auto simp: o_def option.map_comp simp del: upt_Suc)
qed simp

text \<open>The linear search, in both of its modes, against the same reference.\<close>

definition first_index :: "('a \<Rightarrow> bool) \<Rightarrow> 'a list \<Rightarrow> int" where
  "first_index P xs = (case find (\<lambda>i. P (xs ! i)) [0..<length xs] of None \<Rightarrow> -1 | Some i \<Rightarrow> int i)"

lemma first_index_Nil [simp]: "first_index P [] = -1"
  by (simp add: first_index_def)

lemma first_index_Cons:
  "first_index P (x # xs) = (if P x then 0 else if first_index P xs = -1 then -1 else first_index P xs + 1)"
proof -
  have "[0..<Suc (length xs)] = 0 # map Suc [0..<length xs]" by (simp add: upt_conv_Cons map_Suc_upt del: upt_Suc)
  moreover have "find Q (map Suc is) = map_option Suc (find (Q \<circ> Suc) is)" for Q "is" by (induction "is") auto
  ultimately show ?thesis by (auto simp: first_index_def o_def simp del: upt_Suc split: option.splits)
qed

lemma first_index_ge: "-1 \<le> first_index P xs"
  by (simp add: first_index_def split: option.split)

lemma first_index_bound [simp]: "2 + first_index P xs \<noteq> 0"
  using first_index_ge [of P xs] by linarith

lemma first_index_none: "first_index P xs = -1 \<longleftrightarrow> filter P xs = []"
  by (induction xs) (auto simp: first_index_Cons)

lemma find_unsorted_seen:
  "res \<noteq> -1 \<Longrightarrow> find_unsorted c xs i res n False = (res, n + int (length (filter (\<lambda>x. c x = 0) xs)))"
  by (induction xs arbitrary: i n) auto

lemma find_unsorted_all:
  "find_unsorted c xs i (-1) n False =
     (let k = first_index (\<lambda>x. c x = 0) xs in
      (if k = -1 then -1 else int i + k, if k = -1 then 0 else n + int (length (filter (\<lambda>x. c x = 0) xs))))"
  by (induction xs arbitrary: i) (auto simp: first_index_Cons find_unsorted_seen Let_def)

lemma find_unsorted_one:
  "fst (find_unsorted c xs i (-1) n True) =
     (let k = first_index (\<lambda>x. c x = 0) xs in if k = -1 then -1 else int i + k)"
  by (induction xs arbitrary: i) (auto simp: first_index_Cons Let_def)

definition sk_matches :: "('c \<Rightarrow> 'v option \<Rightarrow> 'v option \<Rightarrow> int) \<Rightarrow> ('v, 'c) stack_st \<Rightarrow> 'v option \<Rightarrow> 'v option \<Rightarrow> bool" where
  "sk_matches cmp st data x \<longleftrightarrow>
     (case s_comp st of None \<Rightarrow> x = data | Some f \<Rightarrow> data \<noteq> None \<and> cmp f data x = 0)"

text \<open>The flag \<open>sorted\<close> tells the truth for the key that is searched.\<close>

definition sorted_flag_ok :: "('c \<Rightarrow> 'v option \<Rightarrow> 'v option \<Rightarrow> int) \<Rightarrow> ('v, 'c) stack_st \<Rightarrow> 'v option \<Rightarrow> bool" where
  "sorted_flag_ok cmp st data \<longleftrightarrow>
     (\<forall>f. s_sorted st \<and> s_comp st = Some f \<longrightarrow> cmp_sorted (\<lambda>i. cmp f data (sk_items st ! i)) (s_num st))"

lemma find_first_index:
  "(case find (\<lambda>i. P (xs ! i)) [0..<length xs] of None \<Rightarrow> -1 | Some i \<Rightarrow> int i) = first_index P xs"
  by (simp add: first_index_def)

lemma internal_find_one:
  assumes wf: "stack_wf st" and ok: "sorted_flag_ok cmp st data" and n: "s_num st \<le> 2 ^ 30"
  shows "internal_find cmp (Some st) data OSSL_BSEARCH_FIRST_VALUE_ON_MATCH None
    = Ret (first_index (sk_matches cmp st data) (sk_items st), None)"
proof -
  define xs where "xs = take (s_num st) (s_data st)"
  have items: "sk_items st = xs" "length xs = s_num st" "take (s_num st) (s_data st) = xs"
    using length_sk_items [OF wf] by (simp_all add: sk_items_def xs_def)
  show ?thesis
  proof (cases "s_num st = 0")
    case True
    then show ?thesis by (simp add: internal_find_def sk_items_def)
  next
    case ne: False
    show ?thesis
    proof (cases "s_comp st")
      case None
      have "find_ptr xs data 0 = find (\<lambda>i. xs ! i = data) [0..<length xs]"
        by (cases "find (\<lambda>i. xs ! i = data) [0..<length xs]") (simp_all add: find_ptr_eq)
      moreover have "sk_matches cmp st data = (\<lambda>x. x = data)" using None by (auto simp: sk_matches_def)
      ultimately show ?thesis
        using ne None items find_first_index [of "\<lambda>x. x = data" xs]
        by (auto simp: internal_find_def split: option.splits)
    next
      case (Some f)
      show ?thesis
      proof (cases "data = None")
        case True
        then have "first_index (sk_matches cmp st data) (sk_items st) = -1"
          using Some by (simp add: sk_matches_def first_index_none)
        then show ?thesis using ne Some True by (simp add: internal_find_def)
      next
        case d: False
        then have m: "sk_matches cmp st data = (\<lambda>x. cmp f data x = 0)" using Some by (auto simp: sk_matches_def)
        show ?thesis
        proof (cases "s_sorted st")
          case True
          then have "cmp_sorted (\<lambda>i. cmp f data (xs ! i)) (s_num st)"
            using ok Some items by (simp add: sorted_flag_ok_def)
          from ossl_bsearch_first [OF this n] show ?thesis
            using ne Some d True items m by (auto simp: internal_find_def find_first_index [symmetric])
        next
          case False
          then show ?thesis
            using ne Some d items m find_unsorted_one [of "cmp f data" xs 0 0]
            by (auto simp: internal_find_def Let_def split_beta)
        qed
      qed
    qed
  qed
qed

section \<open>Interface: an indexable sequence\<close>

text \<open>What the users of a stack rely on, whatever the array behind it.\<close>

locale sequence =
  fixes wf :: "'s \<Rightarrow> bool"
    and items :: "'s \<Rightarrow> 'a list"
    and ins :: "'s \<Rightarrow> 'a \<Rightarrow> int \<Rightarrow> 's option"
    and del :: "'s \<Rightarrow> nat \<Rightarrow> 'a \<times> 's"
  assumes ins_law: "wf s \<Longrightarrow> ins s x loc = Some s' \<Longrightarrow> wf s' \<and> items s' = insert_at loc x (items s)"
    and del_law: "wf s \<Longrightarrow> i < length (items s) \<Longrightarrow>
      fst (del s i) = items s ! i \<and> wf (snd (del s i)) \<and> items (snd (del s i)) = delete_at i (items s)"
begin

text \<open>Deleting what was just inserted returns it and restores the sequence.\<close>

lemma del_ins:
  assumes "wf s" and "ins s x loc = Some s'"
  defines "i \<equiv> (if loc \<ge> int (length (items s)) \<or> loc < 0 then length (items s) else nat loc)"
  shows "fst (del s' i) = x \<and> wf (snd (del s' i)) \<and> items (snd (del s' i)) = items s"
proof -
  have s': "wf s'" "items s' = insert_at loc x (items s)" using ins_law [OF assms(1,2)] by auto
  have "i < length (items s')" "items s' ! i = x" "delete_at i (items s') = items s"
    unfolding s' by (auto simp: i_def insert_at_def delete_at_def nth_append min_def)
  then show ?thesis using del_law [OF s'(1)] by metis
qed

text \<open>A queue: what is appended comes out at the front, after everything before it.\<close>

lemma shift_after_push:
  assumes "wf s" and "ins s x (int (length (items s))) = Some s'"
  shows "items (snd (del s' 0)) = (if items s = [] then [] else tl (items s) @ [x])"
    and "fst (del s' 0) = (if items s = [] then x else hd (items s))"
proof -
  have s': "wf s'" "items s' = items s @ [x]" using ins_law [OF assms] by (auto simp: insert_at_def)
  then have "fst (del s' 0) = items s' ! 0 \<and> items (snd (del s' 0)) = delete_at 0 (items s')"
    using del_law [of s' 0] by simp
  then show "items (snd (del s' 0)) = (if items s = [] then [] else tl (items s) @ [x])"
    and "fst (del s' 0) = (if items s = [] then x else hd (items s))"
    using s'(2) by (cases "items s"; simp add: delete_at_def)+
qed

end

definition sk_inserted :: "(nat \<Rightarrow> bool) \<Rightarrow> (nat \<Rightarrow> 'v option) \<Rightarrow> ('v, 'c) stack_st \<Rightarrow> 'v option \<Rightarrow> int \<Rightarrow> ('v, 'c) stack_st option" where
  "sk_inserted mem junk st data loc =
     (case OPENSSL_sk_insert mem junk (Some st) data loc of
        Ret (n, Some st') \<Rightarrow> if n = 0 then None else Some st'
      | _ \<Rightarrow> None)"

interpretation sk: sequence stack_wf sk_items "sk_inserted mem junk" internal_delete
proof unfold_locales
  fix st st' :: "('a, 'b) stack_st" and x loc
  assume wf: "stack_wf st" and ins: "sk_inserted mem junk st x loc = Some st'"
  show "stack_wf st' \<and> sk_items st' = insert_at loc x (sk_items st)"
    using wf by (rule sk_insert_spec [of st mem junk x loc]) (use ins in \<open>simp_all add: sk_inserted_def\<close>)
next
  fix st :: "('a, 'b) stack_st" and i
  assume "stack_wf st" "i < length (sk_items st)"
  then show "fst (internal_delete st i) = sk_items st ! i \<and> stack_wf (snd (internal_delete st i))
      \<and> sk_items (snd (internal_delete st i)) = delete_at i (sk_items st)"
    using internal_delete_spec [of st i] by (simp add: length_sk_items)
qed

section \<open>Sorting\<close>

text \<open>A comparison function that orders, and what \<open>qsort\<close> guarantees for it (ISO C 7.22.5.2).\<close>

definition cmp_order :: "('a \<Rightarrow> 'a \<Rightarrow> int) \<Rightarrow> bool" where
  "cmp_order cmp \<longleftrightarrow>
     (\<forall>x y. (cmp x y < 0 \<longleftrightarrow> cmp y x > 0) \<and> (cmp x y = 0 \<longleftrightarrow> cmp y x = 0))
     \<and> (\<forall>x y z. cmp x y \<le> 0 \<and> cmp y z \<le> 0 \<longrightarrow> cmp x z \<le> 0)"

definition qsort_ok :: "(('a \<Rightarrow> 'a \<Rightarrow> int) \<Rightarrow> 'a list \<Rightarrow> 'a list) \<Rightarrow> bool" where
  "qsort_ok qs \<longleftrightarrow>
     (\<forall>cmp xs. cmp_order cmp \<longrightarrow> mset (qs cmp xs) = mset xs \<and> sorted_wrt (\<lambda>x y. cmp x y \<le> 0) (qs cmp xs))"

text \<open>An insertion sort by the comparison function meets that guarantee.\<close>

fun ins_cmp :: "('a \<Rightarrow> 'a \<Rightarrow> int) \<Rightarrow> 'a \<Rightarrow> 'a list \<Rightarrow> 'a list" where
  "ins_cmp cmp x [] = [x]"
| "ins_cmp cmp x (y # ys) = (if cmp x y \<le> 0 then x # y # ys else y # ins_cmp cmp x ys)"

definition isort_cmp :: "('a \<Rightarrow> 'a \<Rightarrow> int) \<Rightarrow> 'a list \<Rightarrow> 'a list" where
  "isort_cmp cmp xs = foldr (ins_cmp cmp) xs []"

lemma mset_ins_cmp [simp]: "mset (ins_cmp cmp x ys) = add_mset x (mset ys)"
  by (induction ys) auto

lemma set_ins_cmp [simp]: "set (ins_cmp cmp x ys) = insert x (set ys)"
  by (induction ys) auto

lemma sorted_ins_cmp:
  assumes "cmp_order cmp"
  shows "sorted_wrt (\<lambda>x y. cmp x y \<le> 0) ys \<Longrightarrow> sorted_wrt (\<lambda>x y. cmp x y \<le> 0) (ins_cmp cmp x ys)"
proof (induction ys)
  case (Cons y ys)
  have "cmp y x \<le> 0" if "\<not> cmp x y \<le> 0"
    using assms [unfolded cmp_order_def, THEN conjunct1, rule_format, of y x] that by simp
  moreover have "cmp x y \<le> 0 \<Longrightarrow> \<forall>z \<in> set ys. cmp x z \<le> 0"
  proof
    fix z assume "cmp x y \<le> 0" "z \<in> set ys"
    with Cons.prems show "cmp x z \<le> 0" using assms [unfolded cmp_order_def, THEN conjunct2, rule_format, of x y z] by simp
  qed
  ultimately show ?case using Cons by auto
qed simp

lemma isort_qsort_ok: "qsort_ok isort_cmp"
proof -
  have "mset (foldr (ins_cmp cmp) xs []) = mset xs" for cmp :: "'a \<Rightarrow> 'a \<Rightarrow> int" and xs
    by (induction xs) simp_all
  moreover have "cmp_order cmp \<Longrightarrow> sorted_wrt (\<lambda>x y. cmp x y \<le> 0) (foldr (ins_cmp cmp) xs [])" for cmp :: "'a \<Rightarrow> 'a \<Rightarrow> int" and xs
    by (induction xs) (simp_all add: sorted_ins_cmp)
  ultimately show ?thesis by (simp add: qsort_ok_def isort_cmp_def)
qed

lemma cmp_order_key: "cmp_order (\<lambda>x y. k x - k y)"
  by (auto simp: cmp_order_def)

lemma cmp_order_trans:
  assumes "cmp_order cmp" and "cmp x y \<le> 0"
  shows "cmp k y > 0 \<Longrightarrow> cmp k x > 0" and "cmp k y = 0 \<Longrightarrow> cmp k x \<ge> 0"
proof -
  have tr: "cmp a b \<le> 0 \<Longrightarrow> cmp b c \<le> 0 \<Longrightarrow> cmp a c \<le> 0" for a b c
    using assms(1) unfolding cmp_order_def by blast
  have neg: "cmp a b < 0 \<longleftrightarrow> cmp b a > 0" "cmp a b = 0 \<longleftrightarrow> cmp b a = 0" for a b
    using assms(1) unfolding cmp_order_def by blast+
  show "cmp k y > 0 \<Longrightarrow> cmp k x > 0" using tr [of k x y] assms(2) by linarith
  assume "cmp k y = 0"
  then have "cmp y k \<le> 0" using neg [of k y] by simp
  then have "cmp x k \<le> 0" using tr [OF assms(2)] by simp
  then show "cmp k x \<ge> 0" using neg [of k x] by (auto simp: not_less [symmetric])
qed

lemma sorted_cmp_sorted:
  assumes "cmp_order cmp" and "sorted_wrt (\<lambda>x y. cmp x y \<le> 0) xs"
  shows "cmp_sorted (\<lambda>i. cmp k (xs ! i)) (length xs)"
proof -
  have "cmp (xs ! i) (xs ! j) \<le> 0" if "i < j" "j < length xs" for i j
    using assms(2) that by (simp add: sorted_wrt_iff_nth_less)
  then show ?thesis
    unfolding cmp_sorted_def using cmp_order_trans [OF assms(1)] by blast
qed

lemma sk_sort_items:
  assumes wf: "stack_wf st" and qs: "qsort_ok qs" and ord: "cmp_order (cmp f)"
    and f: "s_comp st = Some f" and un: "\<not> s_sorted st"
  shows "\<exists>st'. OPENSSL_sk_sort qs cmp (Some st) = Some st' \<and> stack_wf st' \<and> s_sorted st' \<and> s_comp st' = Some f
    \<and> mset (sk_items st') = mset (sk_items st) \<and> sorted_wrt (\<lambda>x y. cmp f x y \<le> 0) (sk_items st')"
proof -
  let ?xs = "take (s_num st) (s_data st)"
  have q: "mset (qs (cmp f) ?xs) = mset ?xs" "sorted_wrt (\<lambda>x y. cmp f x y \<le> 0) (qs (cmp f) ?xs)"
    using qs ord by (auto simp: qsort_ok_def)
  have len: "length (qs (cmp f) ?xs) = s_num st"
    using mset_eq_length [OF q(1)] wf by (simp add: stack_wf_def)
  have le: "s_num st \<le> s_num_alloc st" using wf by (simp add: stack_wf_def)
  show ?thesis
  proof (cases "s_num st > 1")
    case True
    have "take (s_num st) (patch (s_data st) 0 (qs (cmp f) ?xs)) = qs (cmp f) ?xs"
      using len le by (simp add: patch_def)
    moreover have "length (patch (s_data st) 0 (qs (cmp f) ?xs)) = s_num_alloc st"
      using len le by simp
    ultimately show ?thesis
      using True f un q wf by (auto simp: OPENSSL_sk_sort_def stack_wf_def sk_items_def)
  next
    case False
    then have "length (sk_items st) \<le> 1" by (simp add: sk_items_def)
    then have "sorted_wrt (\<lambda>x y. cmp f x y \<le> 0) (sk_items st)"
      by (cases "sk_items st") auto
    then show ?thesis using False f un wf by (simp add: OPENSSL_sk_sort_def stack_wf_def sk_items_def)
  qed
qed

text \<open>In a sorted sequence the matches are consecutive, so counting from the first one counts them all.\<close>

lemma filter_eq_takeWhile:
  "(\<And>i j. i < j \<Longrightarrow> j < length xs \<Longrightarrow> P (xs ! j) \<Longrightarrow> P (xs ! i)) \<Longrightarrow> filter P xs = takeWhile P xs"
proof (induction xs)
  case (Cons x xs)
  have tl: "filter P xs = takeWhile P xs"
    by (rule Cons.IH) (use Cons.prems [of "Suc i" "Suc j" for i j] in auto)
  show ?case
  proof (cases "P x")
    case False
    have "\<not> P y" if "y \<in> set xs" for y
      using that Cons.prems [of 0 "Suc j" for j] False by (fastforce simp: in_set_conv_nth)
    with False show ?thesis by (simp add: filter_False)
  qed (use tl in simp)
qed simp

lemma count_from_first:
  assumes s: "cmp_sorted (\<lambda>i. c (xs ! i)) (length xs)" and i: "find (\<lambda>i. c (xs ! i) = 0) [0..<length xs] = Some i"
  shows "length (takeWhile (\<lambda>x. c x = 0) (drop i xs)) = length (filter (\<lambda>x. c x = 0) xs)"
proof -
  have f: "i < length xs" "c (xs ! i) = 0" "\<forall>j < i. c (xs ! j) \<noteq> 0" using i by (auto simp: find_upt_eq)
  have "filter (\<lambda>x. c x = 0) (take i xs) = []" using f by (auto simp: filter_empty_conv in_set_conv_nth)
  then have "filter (\<lambda>x. c x = 0) xs = filter (\<lambda>x. c x = 0) (drop i xs)"
    by (metis append_Nil append_take_drop_id filter_append)
  moreover have "filter (\<lambda>x. c x = 0) (drop i xs) = takeWhile (\<lambda>x. c x = 0) (drop i xs)"
  proof (rule filter_eq_takeWhile)
    fix a b assume ab: "a < b" "b < length (drop i xs)" "c (drop i xs ! b) = 0"
    have "c (xs ! (i + a)) \<ge> 0" using cmp_sortedD(2) [OF s, of "i + a" "i + b"] ab by simp
    moreover have "c (xs ! (i + a)) \<le> 0"
      using cmp_sortedD(4) [OF s, of i "i + a"] ab f by (cases "a = 0") auto
    ultimately show "c (drop i xs ! a) = 0" using ab by simp
  qed
  ultimately show ?thesis by simp
qed

lemma find_all_sorted:
  assumes wf: "stack_wf st" and n: "s_num st \<le> 2 ^ 30" and f: "s_comp st = Some f" and so: "s_sorted st"
    and s: "cmp_sorted (\<lambda>i. cmp f data (sk_items st ! i)) (s_num st)" and d: "data \<noteq> None" and ne: "0 < s_num st"
  shows "OPENSSL_sk_find_all cmp (Some st) data (Some k) =
    Ret (first_index (\<lambda>x. cmp f data x = 0) (sk_items st),
         Some (int (length (filter (\<lambda>x. cmp f data x = 0) (sk_items st)))))"
proof -
  define xs where "xs = take (s_num st) (s_data st)"
  have items: "sk_items st = xs" "length xs = s_num st" "take (s_num st) (s_data st) = xs"
    using length_sk_items [OF wf] by (simp_all add: sk_items_def xs_def)
  have s': "cmp_sorted (\<lambda>i. cmp f data (xs ! i)) (length xs)" using s items by simp
  note b = ossl_bsearch_first [OF s'] count_from_first [OF s']
  show ?thesis
    using b ne f so d items n find_first_index [of "\<lambda>x. cmp f data x = 0" xs]
      first_index_none [of "\<lambda>x. cmp f data x = 0" xs]
    by (auto simp: OPENSSL_sk_find_all_def internal_find_def split: option.splits)
qed

section \<open>Properties\<close>

text \<open>
  Inserting into a well-formed stack is memory safe and returns; it either fails with 0, keeping
  every element, or returns the new count and the elements are the old ones with the new one at
  \<open>loc\<close>, or at the end for an index out of range. It succeeds whenever memory is granted and the
  stack has fewer than 1342177280 elements.
\<close>

theorem sk_insert_refines:
  assumes "stack_wf st"
  shows "\<exists>n st'. OPENSSL_sk_insert mem junk (Some st) data loc = Ret (n, Some st') \<and> stack_wf st'
    \<and> (n = 0 \<longrightarrow> sk_items st' = sk_items st \<and> \<not> ((\<forall>k. mem k) \<and> s_num st < 1342177280))
    \<and> (n \<noteq> 0 \<longrightarrow> n = s_num st + 1 \<and> sk_items st' = insert_at loc data (sk_items st) \<and> \<not> s_sorted st')"
  using assms by (rule sk_insert_spec [of st mem junk data loc]) auto

theorem sk_insert_refines_witness:
  "\<exists>n st'. OPENSSL_sk_insert (\<lambda>_. True) (\<lambda>_. None)
      (Some \<lparr>s_num = 3, s_data = [Some 1, None, Some 3, Some (9::nat)], s_sorted = True, s_comp = (None :: unit option)\<rparr>)
      (Some 2) 1 = Ret (n, Some st') \<and> n = 4 \<and> sk_items st' = [Some 1, Some 2, None, Some 3]"
  using sk_insert_refines [of "\<lparr>s_num = 3, s_data = [Some 1, None, Some 3, Some (9::nat)], s_sorted = True, s_comp = (None :: unit option)\<rparr>"
      "\<lambda>_. True" "\<lambda>_. None" "Some 2" 1]
  by (fastforce simp: stack_wf_def sk_items_def insert_at_def)

text \<open>
  What was inserted at a position can be deleted from it, which returns it and gives the
  elements of before; deletion at any index in range shifts the rest down.
\<close>

theorem sk_delete_insert:
  assumes "stack_wf st" and "sk_inserted mem junk st data loc = Some st'" and "0 \<le> loc" and "loc \<le> int (s_num st)"
  shows "\<exists>st''. OPENSSL_sk_delete (Some st') loc = (data, Some st'') \<and> stack_wf st'' \<and> sk_items st'' = sk_items st"
proof -
  have i: "(if loc \<ge> int (length (sk_items st)) \<or> loc < 0 then length (sk_items st) else nat loc) = nat loc"
    using assms(3,4) length_sk_items [OF assms(1)] by auto
  have s': "stack_wf st'" "sk_items st' = insert_at loc data (sk_items st)" using sk.ins_law [OF assms(1,2)] by auto
  then have "s_num st' = s_num st + 1"
    using length_sk_items [OF assms(1)] length_sk_items [OF s'(1)] by (auto simp: insert_at_def split: if_splits)
  then show ?thesis
    using sk.del_ins [OF assms(1,2)] assms(3,4) unfolding i
    by (cases "internal_delete st' (nat loc)") (auto simp: OPENSSL_sk_delete_def)
qed

theorem sk_delete_insert_witness:
  "\<exists>st''. OPENSSL_sk_delete (sk_inserted (\<lambda>_. True) (\<lambda>_. None)
      \<lparr>s_num = 2, s_data = [Some 1, Some 3, None, None], s_sorted = False, s_comp = (None :: unit option)\<rparr> (Some (2::nat)) 1) 1
    = (Some 2, Some st'') \<and> sk_items st'' = [Some 1, Some 3]"
proof -
  let ?st = "\<lparr>s_num = 2, s_data = [Some 1, Some 3, None, None], s_sorted = False, s_comp = (None :: unit option)\<rparr>"
  have wf: "stack_wf ?st" by (simp add: stack_wf_def)
  obtain st' where ins: "sk_inserted (\<lambda>_. True) (\<lambda>_. None) ?st (Some (2::nat)) 1 = Some st'"
    by (simp add: sk_inserted_def OPENSSL_sk_insert_def sk_reserve_def)
  have "\<exists>st''. OPENSSL_sk_delete (Some st') 1 = (Some 2, Some st'') \<and> stack_wf st'' \<and> sk_items st'' = sk_items ?st"
    by (rule sk_delete_insert [OF wf ins]) simp_all
  then show ?thesis unfolding ins by (auto simp: sk_items_def)
qed

text \<open>
  \<open>OPENSSL_sk_find\<close> returns the index of the first matching element, or -1, whichever of its
  three searches it uses: by pointer, linear with the comparison function, or binary when the
  stack is sorted. It does not read outside the array; the bound keeps the sum of two indices of
  the binary search within \<open>int\<close>.
\<close>

theorem sk_find_first_match:
  assumes "stack_wf st" and "sorted_flag_ok cmp st data" and "s_num st \<le> 2 ^ 30"
  shows "OPENSSL_sk_find cmp (Some st) data = Ret (first_index (sk_matches cmp st data) (sk_items st))"
  using internal_find_one [OF assms] by (simp add: OPENSSL_sk_find_def)

theorem sk_find_first_match_witness:
  "OPENSSL_sk_find (\<lambda>(_::unit) x y. case_option 0 id x - case_option 0 id y)
     (Some \<lparr>s_num = 3, s_data = [Some 1, Some 5, Some 5, None], s_sorted = True, s_comp = Some ()\<rparr>) (Some (5::int)) = Ret 1"
proof -
  let ?cmp = "\<lambda>(_::unit) x y. case_option 0 id x - case_option 0 id y :: int"
  let ?st = "\<lparr>s_num = 3, s_data = [Some 1, Some 5, Some 5, None], s_sorted = True, s_comp = Some ()\<rparr>"
  have "cmp_sorted (\<lambda>i. ?cmp () (Some 5) ([Some 1, Some 5, Some 5] ! i)) 3"
    by (auto simp: cmp_sorted_def less_Suc_eq numeral_3_eq_3)
  then have "sorted_flag_ok ?cmp ?st (Some 5)" by (simp add: sorted_flag_ok_def sk_items_def)
  from sk_find_first_match [OF _ this] show ?thesis
    by (simp add: stack_wf_def sk_items_def sk_matches_def first_index_Cons)
qed

text \<open>
  Sorting a stack and then searching it for all matches gives the first matching position of
  the sorted sequence and the number of matching elements of the original one.
\<close>

theorem sk_sort_find_all:
  assumes "stack_wf st" and "qsort_ok qs" and "cmp_order (cmp f)" and "s_comp st = Some f" and "\<not> s_sorted st"
    and "0 < s_num st" and "s_num st \<le> 2 ^ 30" and "data \<noteq> None"
  shows "\<exists>st'. OPENSSL_sk_sort qs cmp (Some st) = Some st' \<and> mset (sk_items st') = mset (sk_items st)
    \<and> OPENSSL_sk_find_all cmp (Some st') data (Some k) =
        Ret (first_index (\<lambda>x. cmp f data x = 0) (sk_items st'),
             Some (int (size (filter_mset (\<lambda>x. cmp f data x = 0) (mset (sk_items st))))))"
proof -
  obtain st' where st': "OPENSSL_sk_sort qs cmp (Some st) = Some st'" "stack_wf st'" "s_sorted st'" "s_comp st' = Some f"
    "mset (sk_items st') = mset (sk_items st)" "sorted_wrt (\<lambda>x y. cmp f x y \<le> 0) (sk_items st')"
    using sk_sort_items [of st qs cmp f, OF assms(1-5)] by blast
  have n: "s_num st' = s_num st"
    using mset_eq_length [OF st'(5)] length_sk_items [OF assms(1)] length_sk_items [OF st'(2)] by simp
  have "cmp_sorted (\<lambda>i. cmp f data (sk_items st' ! i)) (s_num st')"
    using sorted_cmp_sorted [OF assms(3) st'(6)] length_sk_items [OF st'(2)] by simp
  from find_all_sorted [of st' f cmp data, OF st'(2) _ st'(4,3) this assms(8)] show ?thesis
    using st' n assms(6,7) by (auto simp flip: mset_filter st'(5))
qed

theorem sk_sort_find_all_witness:
  "\<exists>st'. OPENSSL_sk_sort isort_cmp (\<lambda>(_::unit) x y. case_option 0 id x - case_option 0 id y)
      (Some \<lparr>s_num = 3, s_data = [Some 7, Some 4, Some (7::int), None], s_sorted = False, s_comp = Some ()\<rparr>) = Some st'
    \<and> OPENSSL_sk_find_all (\<lambda>(_::unit) x y. case_option 0 id x - case_option 0 id y) (Some st') (Some 7) (Some 0) = Ret (1, Some 2)"
proof -
  let ?st = "\<lparr>s_num = 3, s_data = [Some 7, Some 4, Some (7::int), None], s_sorted = False, s_comp = Some ()\<rparr>"
  let ?cmp = "\<lambda>(_::unit) x y. case_option 0 id x - case_option 0 id y :: int"
  have wf: "stack_wf ?st" by (simp add: stack_wf_def)
  have "OPENSSL_sk_sort isort_cmp ?cmp (Some ?st)
      = Some (?st\<lparr>s_data := [Some 4, Some 7, Some 7, None], s_sorted := True\<rparr>)"
    by (simp add: OPENSSL_sk_sort_def isort_cmp_def patch_def)
  then show ?thesis
    using sk_sort_find_all [of ?st isort_cmp ?cmp "()" "Some 7" 0, OF wf isort_qsort_ok cmp_order_key]
    by (simp add: sk_items_def first_index_Cons)
qed

text \<open>
  C37: the growth loop ends from every capacity a stack can have and never returns a capacity that is
  too small or beyond the limit; it gives up only when the target exceeds 1342177280.
\<close>

theorem compute_growth_returns:
  assumes "min_nodes \<le> c" and "c \<le> max_nodes"
  shows "\<exists>r. compute_growth t c = Some r \<and> (r = 0 \<and> 1342177280 < t \<or> t \<le> r \<and> c \<le> r \<and> r \<le> max_nodes)"
  using compute_growth_cases [of c t] assms by simp

theorem compute_growth_returns_witness:
  "\<exists>r. compute_growth 100 4 = Some r \<and> 100 \<le> r \<and> r \<le> max_nodes"
  using compute_growth_returns [of 4 100] by auto

text \<open>
  A full stack of 1971455928 slots, the largest capacity that growing from the initial one
  reaches, cannot grow by one more element, although the limit is \<open>max_nodes\<close>: the overflow of the
  growth step is an error before the clamp to \<open>max_nodes\<close> applies.
\<close>

theorem compute_growth_gives_up:
  "compute_growth 1971455929 1971455928 = Some 0 \<and> compute_growth 1971455928 1232159955 = Some 1971455928"
proof
  show "compute_growth 1971455929 1971455928 = Some 0" by (rule compute_growth_step(2)) simp_all
  have "compute_growth 1971455928 1232159955 = compute_growth 1971455928 (1232159955 * 8 div 5)"
    by (rule compute_growth_step(1)) simp_all
  then show "compute_growth 1971455928 1232159955 = Some 1971455928"
    by (simp add: compute_growth.simps [of 1971455928 1971455928])
qed

text \<open>
  On an unsorted stack \<open>OPENSSL_sk_find_all\<close> adds the number of matches to whatever value the
  caller's counter had, instead of setting it.
\<close>

theorem sk_find_all_unsorted_adds:
  assumes "stack_wf st" and "s_comp st = Some f" and "\<not> s_sorted st" and "0 < s_num st" and "data \<noteq> None"
    and "filter (\<lambda>x. cmp f data x = 0) (sk_items st) \<noteq> []"
  shows "OPENSSL_sk_find_all cmp (Some st) data (Some k) =
    Ret (first_index (\<lambda>x. cmp f data x = 0) (sk_items st),
         Some (k + int (length (filter (\<lambda>x. cmp f data x = 0) (sk_items st)))))"
  using assms first_index_none [of "\<lambda>x. cmp f data x = 0" "sk_items st"]
  by (auto simp: OPENSSL_sk_find_all_def internal_find_def find_unsorted_all sk_items_def Let_def)

theorem sk_find_all_unsorted_adds_witness:
  "OPENSSL_sk_find_all (\<lambda>(_::unit) x y. if x = y then 0 else 1)
     (Some \<lparr>s_num = 1, s_data = [Some (3::nat), None, None, None], s_sorted = False, s_comp = Some ()\<rparr>) (Some 3) (Some 41)
   = Ret (0, Some 42)"
  using sk_find_all_unsorted_adds [of "\<lparr>s_num = 1, s_data = [Some (3::nat), None, None, None], s_sorted = False, s_comp = Some ()\<rparr>"
      "()" "Some 3" "\<lambda>_ x y. if x = y then 0 else 1" 41]
  by (simp add: stack_wf_def sk_items_def first_index_Cons)

end
