(* ===== verification/LHash.thy ===== *)
theory LHash
  imports Prelude "HOL-Library.Multiset"
begin

text \<open>
  The dynamic hash table of \<open>crypto/lhash/lhash.c\<close>, a linear hashing scheme. The array \<open>b\<close> of chain
  heads is a list of chains, a chain is the list of its nodes, and the pointer to a link that \<open>getrn\<close>
  returns is the chain and the position in it, the length of the chain standing for the null link
  at its end. The fields \<open>num_nodes\<close>, \<open>num_alloc_nodes\<close>, \<open>p\<close> and \<open>pmax\<close> are C \<open>unsigned int\<close>s; the
  size computations wrap as in the code. The hash and comparison functions, with their optional
  wrappers, are fields of the table, as in C. The argument \<open>mem\<close> tells which request sizes the
  allocator grants; an access outside the array is \<open>Undef\<close>.

  The lemmas show that the split and merge of chains keep every node in the chain that a lookup
  searches, so that the table refines a set of elements with pairwise different keys.
\<close>

section \<open>The table\<close>

record 'v LH_NODE =
  n_data :: 'v
  n_hash :: nat

record 'v LHASH =
  h_b :: "'v LH_NODE list list"
  h_comp :: "'v \<Rightarrow> 'v \<Rightarrow> int"
  h_hash :: "'v \<Rightarrow> nat"
  h_hashw :: "('v \<Rightarrow> ('v \<Rightarrow> nat) \<Rightarrow> nat) option"
  h_compw :: "('v \<Rightarrow> 'v \<Rightarrow> ('v \<Rightarrow> 'v \<Rightarrow> int) \<Rightarrow> int) option"
  h_num_nodes :: nat
  h_num_alloc_nodes :: nat
  h_p :: nat
  h_pmax :: nat
  h_up_load :: nat
  h_down_load :: nat
  h_num_items :: nat
  h_error :: nat

abbreviation (input) LH_LOAD_MULT :: nat where "LH_LOAD_MULT \<equiv> 256"
abbreviation (input) MIN_NODES :: nat where "MIN_NODES \<equiv> 16"
abbreviation (input) UINT_MOD :: nat where "UINT_MOD \<equiv> 4294967296"
abbreviation (input) SIZEOF_NODE :: nat where "SIZEOF_NODE \<equiv> 24"
abbreviation (input) SIZEOF_LHASH :: nat where "SIZEOF_LHASH \<equiv> 104"

definition OPENSSL_LH_set_thunks where
  "OPENSSL_LH_set_thunks lh hw cw = map_option (\<lambda>lh. lh\<lparr>h_compw := cw, h_hashw := hw\<rparr>) lh"

text \<open>\<open>strhash\<close> and \<open>strcmp\<close> are the defaults for null function pointers, at the element type.\<close>

definition OPENSSL_LH_new ::
    "(nat \<Rightarrow> bool) \<Rightarrow> ('v \<Rightarrow> nat) \<Rightarrow> ('v \<Rightarrow> 'v \<Rightarrow> int) \<Rightarrow> ('v \<Rightarrow> nat) option \<Rightarrow> ('v \<Rightarrow> 'v \<Rightarrow> int) option
     \<Rightarrow> 'v LHASH option" where
  "OPENSSL_LH_new mem strhash strcmp h c =
     (if \<not> mem SIZEOF_LHASH then None
      else if \<not> mem (8 * MIN_NODES) then None
      else Some \<lparr>h_b = replicate MIN_NODES [], 
                 h_comp = (case c of None \<Rightarrow> strcmp | Some f \<Rightarrow> f),
                 h_hash = (case h of None \<Rightarrow> strhash | Some f \<Rightarrow> f), h_hashw = None, h_compw = None,
                 h_num_nodes = MIN_NODES div 2, h_num_alloc_nodes = MIN_NODES, h_p = 0,
                 h_pmax = MIN_NODES div 2, h_up_load = 2 * LH_LOAD_MULT, h_down_load = LH_LOAD_MULT,
                 h_num_items = 0, h_error = 0\<rparr>)"

definition OPENSSL_LH_flush :: "'v LHASH \<Rightarrow> 'v LHASH" where
  "OPENSSL_LH_flush lh =
     lh\<lparr>h_b := replicate (h_num_nodes lh) [] @ drop (h_num_nodes lh) (h_b lh), h_num_items := 0\<rparr>"

definition lh_hash :: "'v LHASH \<Rightarrow> 'v \<Rightarrow> nat" where
  "lh_hash lh data = (case h_hashw lh of Some hw \<Rightarrow> hw data (h_hash lh) | None \<Rightarrow> h_hash lh data)"

definition lh_comp :: "'v LHASH \<Rightarrow> 'v \<Rightarrow> 'v \<Rightarrow> int" where
  "lh_comp lh a b = (case h_compw lh of Some cw \<Rightarrow> cw a b (h_comp lh) | None \<Rightarrow> h_comp lh a b)"

text \<open>The chain a hash value belongs to, and the walk along it.\<close>

definition lh_slot :: "'v LHASH \<Rightarrow> nat \<Rightarrow> nat" where
  "lh_slot lh hash =
     (let nn = hash mod h_pmax lh in if nn < h_p lh then hash mod h_num_alloc_nodes lh else nn)"

fun chain_walk :: "('v \<Rightarrow> int) \<Rightarrow> nat \<Rightarrow> 'v LH_NODE list \<Rightarrow> nat" where
  "chain_walk c hash [] = 0"
| "chain_walk c hash (n # ns) = (if n_hash n = hash \<and> c (n_data n) = 0 then 0 else Suc (chain_walk c hash ns))"

definition getrn :: "'v LHASH \<Rightarrow> 'v \<Rightarrow> (nat \<times> nat \<times> nat) outcome" where
  "getrn lh data =
     (let hash = lh_hash lh data; nn = lh_slot lh hash in
      if nn < length (h_b lh)
      then Ret (nn, chain_walk (\<lambda>x. lh_comp lh x data) hash (h_b lh ! nn), hash)
      else Undef)"

text \<open>The loop of \<open>expand\<close>: the nodes that stay, in order, and those moved, each to the front.\<close>

fun expand_loop :: "nat \<Rightarrow> nat \<Rightarrow> 'v LH_NODE list \<Rightarrow> 'v LH_NODE list \<Rightarrow> 'v LH_NODE list \<times> 'v LH_NODE list" where
  "expand_loop nni p [] n2 = ([], n2)"
| "expand_loop nni p (np # ns) n2 =
     (if n_hash np mod nni \<noteq> p then expand_loop nni p ns (np # n2)
      else let (n1, n2') = expand_loop nni p ns n2 in (np # n1, n2'))"

definition expand :: "(nat \<Rightarrow> bool) \<Rightarrow> 'v LHASH \<Rightarrow> (bool \<times> 'v LHASH) outcome" where
  "expand mem lh =
     (let nni = h_num_alloc_nodes lh; p = h_p lh; pmax = h_pmax lh;
          finish = (\<lambda>lh.
            let lh = lh\<lparr>h_num_nodes := (h_num_nodes lh + 1) mod UINT_MOD\<rparr> in
            if p < length (h_b lh) \<and> p + pmax < length (h_b lh) then
              let (n1, n2) = expand_loop nni p (h_b lh ! p) [] in
              Ret (True, lh\<lparr>h_b := (h_b lh)[p := n1, p + pmax := n2]\<rparr>)
            else Undef)
      in
      if (p + 1) mod UINT_MOD \<ge> pmax then
        let j = (nni * 2) mod UINT_MOD in
        if j = 0 then Ret (False, lh\<lparr>h_b := [], h_error := h_error lh + 1\<rparr>)
        else if \<not> mem (8 * j) then Ret (False, lh\<lparr>h_error := h_error lh + 1\<rparr>)
        else if j < nni then Undef
        else finish (lh\<lparr>h_b := take nni (h_b lh) @ replicate (j - nni) [], h_pmax := nni,
                        h_num_alloc_nodes := j, h_p := 0\<rparr>)
      else finish (lh\<lparr>h_p := p + 1\<rparr>))"

text \<open>
  \<open>contract\<close> asks for an array of \<open>(unsigned int)(sizeof(OPENSSL_LH_NODE *) * lh->pmax)\<close> bytes. A
  request of 0 bytes frees the array and yields the null pointer, as \<open>CRYPTO_realloc\<close> documents.
\<close>

definition contract :: "(nat \<Rightarrow> bool) \<Rightarrow> 'v LHASH \<Rightarrow> 'v LHASH outcome" where
  "contract mem lh =
     (let lastn = h_p lh + h_pmax lh - 1 in
      if \<not> lastn < length (h_b lh) then Undef
      else
        let np = h_b lh ! lastn;
            lh = lh\<lparr>h_b := (h_b lh)[lastn := []]\<rparr>;
            lh = (if h_p lh = 0 then
                    let sz = (8 * h_pmax lh) mod UINT_MOD;
                        lh = (if sz = 0 then lh\<lparr>h_b := [], h_error := h_error lh + 1\<rparr>
                              else if \<not> mem sz then lh\<lparr>h_error := h_error lh + 1\<rparr>
                              else lh\<lparr>h_b := take (sz div 8) (h_b lh)\<rparr>);
                        pmax = h_pmax lh div 2
                    in lh\<lparr>h_num_alloc_nodes := h_num_alloc_nodes lh div 2, h_pmax := pmax, h_p := pmax - 1\<rparr>
                  else lh\<lparr>h_p := h_p lh - 1\<rparr>);
            lh = lh\<lparr>h_num_nodes := h_num_nodes lh - 1\<rparr>
        in if h_p lh < length (h_b lh)
           then Ret (lh\<lparr>h_b := (h_b lh)[h_p lh := h_b lh ! h_p lh @ np]\<rparr>)
           else Undef)"

definition OPENSSL_LH_insert :: "(nat \<Rightarrow> bool) \<Rightarrow> 'v LHASH \<Rightarrow> 'v \<Rightarrow> ('v option \<times> 'v LHASH) outcome" where
  "OPENSSL_LH_insert mem lh data =
     (let lh = lh\<lparr>h_error := 0\<rparr> in
      obind (if h_up_load lh \<le> (h_num_items lh * LH_LOAD_MULT) mod SIZE_MOD div h_num_nodes lh
             then expand mem lh else Ret (True, lh)) (\<lambda>(ok, lh).
      if \<not> ok then Ret (None, lh)
      else obind (getrn lh data) (\<lambda>(nn, k, hash).
        let chain = h_b lh ! nn in
        if k = length chain then
          if \<not> mem SIZEOF_NODE then Ret (None, lh\<lparr>h_error := h_error lh + 1\<rparr>)
          else Ret (None, lh\<lparr>h_b := (h_b lh)[nn := chain @ [\<lparr>n_data = data, n_hash = hash\<rparr>]],
                             h_num_items := h_num_items lh + 1\<rparr>)
        else Ret (Some (n_data (chain ! k)),
                  lh\<lparr>h_b := (h_b lh)[nn := chain[k := (chain ! k)\<lparr>n_data := data\<rparr>]]\<rparr>))))"

definition OPENSSL_LH_delete :: "(nat \<Rightarrow> bool) \<Rightarrow> 'v LHASH \<Rightarrow> 'v \<Rightarrow> ('v option \<times> 'v LHASH) outcome" where
  "OPENSSL_LH_delete mem lh data =
     (let lh = lh\<lparr>h_error := 0\<rparr> in
      obind (getrn lh data) (\<lambda>(nn, k, hash).
        let chain = h_b lh ! nn in
        if k = length chain then Ret (None, lh)
        else
          let ret = n_data (chain ! k);
              lh = lh\<lparr>h_b := (h_b lh)[nn := take k chain @ drop (Suc k) chain],
                      h_num_items := h_num_items lh - 1\<rparr>
          in
          if h_num_nodes lh > MIN_NODES
             \<and> h_down_load lh \<ge> (h_num_items lh * LH_LOAD_MULT) mod SIZE_MOD div h_num_nodes lh
          then obind (contract mem lh) (\<lambda>lh. Ret (Some ret, lh))
          else Ret (Some ret, lh)))"

definition OPENSSL_LH_retrieve :: "'v LHASH \<Rightarrow> 'v \<Rightarrow> ('v option \<times> 'v LHASH) outcome" where
  "OPENSSL_LH_retrieve lh data =
     (let lh = lh\<lparr>h_error := 0\<rparr> in
      obind (getrn lh data) (\<lambda>(nn, k, hash).
        let chain = h_b lh ! nn in
        Ret (if k = length chain then None else Some (n_data (chain ! k)), lh)))"

text \<open>The elements a callback of \<open>doall_util_fn\<close> is called with, in order: from the last chain down.\<close>

definition doall_util_fn :: "'v LHASH \<Rightarrow> 'v list" where
  "doall_util_fn lh = map n_data (concat (rev (take (h_num_nodes lh) (h_b lh))))"

definition OPENSSL_LH_num_items :: "'v LHASH option \<Rightarrow> nat" where
  "OPENSSL_LH_num_items lh = (case lh of None \<Rightarrow> 0 | Some lh \<Rightarrow> h_num_items lh)"

definition OPENSSL_LH_get_down_load :: "'v LHASH \<Rightarrow> nat" where
  "OPENSSL_LH_get_down_load lh = h_down_load lh"

definition OPENSSL_LH_set_down_load :: "'v LHASH \<Rightarrow> nat \<Rightarrow> 'v LHASH" where
  "OPENSSL_LH_set_down_load lh down_load = lh\<lparr>h_down_load := down_load\<rparr>"

definition OPENSSL_LH_error :: "'v LHASH \<Rightarrow> nat" where
  "OPENSSL_LH_error lh = h_error lh"

section \<open>String hashes\<close>

text \<open>A C string is the list of its characters before the terminating zero; \<open>char\<close> is signed.\<close>

definition strhash_step :: "ulong \<Rightarrow> ulong \<Rightarrow> ulong" where
  "strhash_step ret v =
     (let r = unat ((drop_bit 2 v XOR v) AND 0x0f);
          ret = push_bit r ret OR drop_bit (32 - r) ret;
          ret = ret AND 0xFFFFFFFF
      in ret XOR (v * v))"

fun strhash_loop :: "ulong \<Rightarrow> ulong \<Rightarrow> byte list \<Rightarrow> ulong" where
  "strhash_loop ret n [] = ret"
| "strhash_loop ret n (c # cs) = strhash_loop (strhash_step ret (n OR scast c)) (n + 0x100) cs"

definition OPENSSL_LH_strhash :: "byte list option \<Rightarrow> ulong" where
  "OPENSSL_LH_strhash c =
     (case c of None \<Rightarrow> 0 | Some cs \<Rightarrow>
        if cs = [] then 0 else let ret = strhash_loop 0 0x100 cs in drop_bit 16 ret XOR ret)"

fun strcasehash_loop :: "ulong \<Rightarrow> ulong \<Rightarrow> byte list \<Rightarrow> ulong" where
  "strcasehash_loop ret n [] = ret"
| "strcasehash_loop ret n (c # cs) =
     strcasehash_loop (strhash_step ret (n OR ((NOT 0x20) AND scast c))) (n + 0x100) cs"

definition ossl_lh_strcasehash :: "byte list option \<Rightarrow> ulong" where
  "ossl_lh_strcasehash c =
     (case c of None \<Rightarrow> 0 | Some cs \<Rightarrow>
        if cs = [] then 0 else let ret = strcasehash_loop 0 0x100 cs in drop_bit 16 ret XOR ret)"

section \<open>Well-formed tables\<close>

definition lh_nodes :: "'v LHASH \<Rightarrow> 'v LH_NODE multiset" where
  "lh_nodes lh = mset (concat (h_b lh))"

definition lh_set :: "'v LHASH \<Rightarrow> 'v set" where
  "lh_set lh = n_data ` set_mset (lh_nodes lh)"

text \<open>The geometry of the array, below the sizes where the C arithmetic wraps.\<close>

definition lh_shape :: "'v LHASH \<Rightarrow> bool" where
  "lh_shape lh \<longleftrightarrow>
     (\<exists>k. h_pmax lh = 2 ^ (k + 3)) \<and> h_p lh < h_pmax lh \<and> h_num_alloc_nodes lh = 2 * h_pmax lh
     \<and> h_num_nodes lh = h_pmax lh + h_p lh \<and> h_num_alloc_nodes lh \<le> length (h_b lh)"

definition lh_placed :: "'v LHASH \<Rightarrow> bool" where
  "lh_placed lh \<longleftrightarrow>
     (\<forall>i < length (h_b lh). \<forall>n \<in> set (h_b lh ! i). lh_slot lh (n_hash n) = i \<and> n_hash n = lh_hash lh (n_data n))"

definition lh_unique :: "'v LHASH \<Rightarrow> bool" where
  "lh_unique lh \<longleftrightarrow>
     (\<forall>n. n \<in># lh_nodes lh \<longrightarrow> (\<forall>m. m \<in># lh_nodes lh - {#n#} \<longrightarrow> lh_comp lh (n_data n) (n_data m) \<noteq> 0))"

definition lh_wf :: "'v LHASH \<Rightarrow> bool" where
  "lh_wf lh \<longleftrightarrow> lh_shape lh \<and> lh_placed lh \<and> lh_unique lh \<and> h_num_items lh = size (lh_nodes lh)"

text \<open>What the callbacks must satisfy: equal keys form an equivalence and have equal hashes.\<close>

definition lh_callbacks_ok :: "'v LHASH \<Rightarrow> bool" where
  "lh_callbacks_ok lh \<longleftrightarrow>
     (\<forall>x. lh_comp lh x x = 0) \<and> (\<forall>x y. lh_comp lh x y = 0 \<longrightarrow> lh_comp lh y x = 0 \<and> lh_hash lh x = lh_hash lh y)
     \<and> (\<forall>x y z. lh_comp lh x y = 0 \<and> lh_comp lh y z = 0 \<longrightarrow> lh_comp lh x z = 0)"

text \<open>Sizes at which the array arithmetic of \<open>expand\<close> and \<open>contract\<close> does not wrap.\<close>

definition lh_small :: "'v LHASH \<Rightarrow> bool" where
  "lh_small lh \<longleftrightarrow> h_pmax lh < 2 ^ 29"

section \<open>Chains and slots\<close>

lemma mset_concat_update:
  "i < length xss \<Longrightarrow> mset (concat (xss[i := ys])) + mset (xss ! i) = mset (concat xss) + mset ys"
  by (induction xss arbitrary: i) (auto split: nat.split)

lemma in_lh_nodes: "n \<in># lh_nodes lh \<longleftrightarrow> (\<exists>i < length (h_b lh). n \<in> set (h_b lh ! i))"
  by (auto simp: lh_nodes_def in_set_conv_nth) (metis nth_mem)+

lemma mod_double: "0 < m \<Longrightarrow> h mod (2 * m) = h mod m \<or> h mod (2 * m) = h mod m + (m :: nat)"
  using mod_mult2_eq [of h m 2] by (auto simp: mult.commute)

lemma mod_double_mod: "h mod (2 * m) mod m = h mod (m :: nat)"
  by (simp add: mod_mod_cancel)

lemma lh_shapeD:
  assumes "lh_shape lh"
  shows "8 \<le> h_pmax lh" and "h_p lh < h_pmax lh" and "h_num_alloc_nodes lh = 2 * h_pmax lh"
    and "h_num_nodes lh = h_pmax lh + h_p lh" and "2 * h_pmax lh \<le> length (h_b lh)"
proof -
  obtain k where "h_pmax lh = 2 ^ (k + 3)" using assms by (auto simp: lh_shape_def)
  then show "8 \<le> h_pmax lh" by (simp add: power_add)
qed (use assms in \<open>simp_all add: lh_shape_def\<close>)

lemma slot_lt:
  assumes "lh_shape lh"
  shows "lh_slot lh h < h_num_nodes lh"
proof -
  note s = lh_shapeD [OF assms]
  have "h mod h_pmax lh < h_pmax lh" using s(1) by simp
  then have "h mod h_pmax lh < h_num_nodes lh" using s(4) by linarith
  then show ?thesis using mod_double [of "h_pmax lh" h] s by (auto simp: lh_slot_def Let_def)
qed

lemma num_nodes_le: "lh_shape lh \<Longrightarrow> h_num_nodes lh \<le> length (h_b lh)"
  using lh_shapeD [of lh] by linarith

lemma lh_placedD:
  assumes "lh_placed lh" and "i < length (h_b lh)" and "n \<in> set (h_b lh ! i)"
  shows "lh_slot lh (n_hash n) = i" and "n_hash n = lh_hash lh (n_data n)"
  using assms unfolding lh_placed_def by blast+

lemma placed_empty:
  "lh_shape lh \<Longrightarrow> lh_placed lh \<Longrightarrow> h_num_nodes lh \<le> i \<Longrightarrow> i < length (h_b lh) \<Longrightarrow> h_b lh ! i = []"
proof (rule ccontr)
  assume a: "lh_shape lh" "lh_placed lh" "h_num_nodes lh \<le> i" "i < length (h_b lh)" "h_b lh ! i \<noteq> []"
  then have "hd (h_b lh ! i) \<in> set (h_b lh ! i)" by simp
  then have "lh_slot lh (n_hash (hd (h_b lh ! i))) = i" using lh_placedD(1) a by blast
  with slot_lt [OF a(1), of "n_hash (hd (h_b lh ! i))"] a(3) show False by simp
qed

lemma chain_walk_spec:
  defines "hit c hash n \<equiv> n_hash n = hash \<and> c (n_data n) = (0::int)"
  shows "chain_walk c hash ns \<le> length ns"
    and "chain_walk c hash ns < length ns \<Longrightarrow> hit c hash (ns ! chain_walk c hash ns)"
    and "chain_walk c hash ns = length ns \<Longrightarrow> n \<in> set ns \<Longrightarrow> \<not> hit c hash n"
proof -
  show "chain_walk c hash ns \<le> length ns" by (induction ns) auto
  show "chain_walk c hash ns < length ns \<Longrightarrow> hit c hash (ns ! chain_walk c hash ns)"
    by (induction ns) (auto simp: hit_def)
  show "chain_walk c hash ns = length ns \<Longrightarrow> n \<in> set ns \<Longrightarrow> \<not> hit c hash n"
    by (induction ns) (auto simp: hit_def split: if_splits)
qed

lemma lh_callbacksD:
  assumes "lh_callbacks_ok lh"
  shows "lh_comp lh x x = 0" and "lh_comp lh x y = 0 \<Longrightarrow> lh_comp lh y x = 0"
    and "lh_comp lh x y = 0 \<Longrightarrow> lh_hash lh x = lh_hash lh y"
    and "lh_comp lh x y = 0 \<Longrightarrow> lh_comp lh y z = 0 \<Longrightarrow> lh_comp lh x z = 0"
  using assms unfolding lh_callbacks_ok_def by blast+

lemma getrn_cases:
  assumes wf: "lh_wf lh" and cb: "lh_callbacks_ok lh"
  obtains nn k where "getrn lh d = Ret (nn, k, lh_hash lh d)" "nn = lh_slot lh (lh_hash lh d)"
    "nn < length (h_b lh)" "k \<le> length (h_b lh ! nn)"
    "k = length (h_b lh ! nn) \<Longrightarrow> \<forall>n. n \<in># lh_nodes lh \<longrightarrow> lh_comp lh (n_data n) d \<noteq> 0"
    "k < length (h_b lh ! nn) \<Longrightarrow> h_b lh ! nn ! k \<in># lh_nodes lh \<and> lh_comp lh (n_data (h_b lh ! nn ! k)) d = 0
       \<and> n_hash (h_b lh ! nn ! k) = lh_hash lh d"
proof -
  let ?h = "lh_hash lh d" and ?nn = "lh_slot lh (lh_hash lh d)"
  let ?k = "chain_walk (\<lambda>x. lh_comp lh x d) ?h (h_b lh ! ?nn)"
  have sh: "lh_shape lh" and pl: "lh_placed lh" using wf by (auto simp: lh_wf_def)
  have nn: "?nn < length (h_b lh)" using slot_lt [OF sh, of ?h] num_nodes_le [OF sh] by linarith
  show thesis
  proof (rule that [of ?nn ?k])
    show "getrn lh d = Ret (?nn, ?k, ?h)" using nn by (simp add: getrn_def Let_def)
    show "?k \<le> length (h_b lh ! ?nn)" by (rule chain_walk_spec(1))
    show "\<forall>n. n \<in># lh_nodes lh \<longrightarrow> lh_comp lh (n_data n) d \<noteq> 0" if "?k = length (h_b lh ! ?nn)"
    proof (intro allI impI notI)
      fix n assume n: "n \<in># lh_nodes lh" and c: "lh_comp lh (n_data n) d = 0"
      then obtain i where i: "i < length (h_b lh)" "n \<in> set (h_b lh ! i)" by (auto simp: in_lh_nodes)
      have "lh_slot lh (n_hash n) = i" "n_hash n = lh_hash lh (n_data n)"
        using lh_placedD [OF pl i] by simp_all
      moreover have "lh_hash lh (n_data n) = ?h" using lh_callbacksD(3) [OF cb c] .
      ultimately have "n_hash n = ?h" "lh_slot lh (n_hash n) = i" by simp_all
      then show False using chain_walk_spec(3) [OF that, of n] i c by auto
    qed
    show "h_b lh ! ?nn ! ?k \<in># lh_nodes lh \<and> lh_comp lh (n_data (h_b lh ! ?nn ! ?k)) d = 0
       \<and> n_hash (h_b lh ! ?nn ! ?k) = ?h" if "?k < length (h_b lh ! ?nn)"
      using chain_walk_spec(2) [OF that] that nn by (auto simp: in_lh_nodes)
  qed (use nn in auto)
qed

text \<open>Splitting a chain in two.\<close>

lemma expand_loop_spec:
  "expand_loop nni p ns acc = (n1, n2) \<Longrightarrow>
     n1 = filter (\<lambda>n. n_hash n mod nni = p) ns \<and> n2 = rev (filter (\<lambda>n. n_hash n mod nni \<noteq> p) ns) @ acc"
  by (induction ns arbitrary: acc n1 n2) (auto split: if_splits prod.splits)

text \<open>
  \<open>bs\<close> is the array after a possible reallocation. Splitting chain \<open>p\<close> at position \<open>p + pmax\<close> moves
  exactly the nodes whose slot changes when \<open>p\<close> advances.
\<close>

definition lh_same :: "'v LHASH \<Rightarrow> 'v LHASH \<Rightarrow> bool" where
  "lh_same lh lh' \<longleftrightarrow>
     lh_hash lh' = lh_hash lh \<and> lh_comp lh' = lh_comp lh \<and> lh_nodes lh' = lh_nodes lh
     \<and> h_num_items lh' = h_num_items lh"

lemma lh_fun_frame [simp]:
  "lh_hash (lh\<lparr>h_b := x_b\<rparr>) = lh_hash lh" "lh_comp (lh\<lparr>h_b := x_b\<rparr>) = lh_comp lh"
  "lh_hash (lh\<lparr>h_num_nodes := x_num_nodes\<rparr>) = lh_hash lh" "lh_comp (lh\<lparr>h_num_nodes := x_num_nodes\<rparr>) = lh_comp lh"
  "lh_hash (lh\<lparr>h_num_alloc_nodes := x_num_alloc_nodes\<rparr>) = lh_hash lh" "lh_comp (lh\<lparr>h_num_alloc_nodes := x_num_alloc_nodes\<rparr>) = lh_comp lh"
  "lh_hash (lh\<lparr>h_p := x_p\<rparr>) = lh_hash lh" "lh_comp (lh\<lparr>h_p := x_p\<rparr>) = lh_comp lh"
  "lh_hash (lh\<lparr>h_pmax := x_pmax\<rparr>) = lh_hash lh" "lh_comp (lh\<lparr>h_pmax := x_pmax\<rparr>) = lh_comp lh"
  "lh_hash (lh\<lparr>h_num_items := x_num_items\<rparr>) = lh_hash lh" "lh_comp (lh\<lparr>h_num_items := x_num_items\<rparr>) = lh_comp lh"
  "lh_hash (lh\<lparr>h_error := x_error\<rparr>) = lh_hash lh" "lh_comp (lh\<lparr>h_error := x_error\<rparr>) = lh_comp lh"
  by (auto intro!: ext simp: lh_hash_def lh_comp_def split: option.split)

lemma lh_slot_frame [simp]:
  "lh_slot (lh\<lparr>h_b := x_b\<rparr>) = lh_slot lh" "lh_slot (lh\<lparr>h_error := x_error\<rparr>) = lh_slot lh"
  "lh_slot (lh\<lparr>h_num_items := x_num_items\<rparr>) = lh_slot lh"
  by (auto intro!: ext simp: lh_slot_def Let_def)

lemma lh_error_frame [simp]:
  "lh_nodes (lh\<lparr>h_error := e\<rparr>) = lh_nodes lh" "lh_wf (lh\<lparr>h_error := e\<rparr>) = lh_wf lh"
  "lh_callbacks_ok (lh\<lparr>h_error := e\<rparr>) = lh_callbacks_ok lh" "lh_small (lh\<lparr>h_error := e\<rparr>) = lh_small lh"
  by (simp_all add: lh_nodes_def lh_wf_def lh_shape_def lh_placed_def lh_unique_def lh_callbacks_ok_def lh_small_def)

lemma split_mset:
  assumes "i < length bs" "j < length bs" "i \<noteq> j" "bs ! j = []" "mset n1 + mset n2 = mset (bs ! i)"
  shows "mset (concat (bs[i := n1, j := n2])) = mset (concat bs)"
proof -
  have "mset (concat (bs[i := n1, j := n2])) + mset (bs[i := n1] ! j) = mset (concat (bs[i := n1])) + mset n2"
    by (rule mset_concat_update) (use assms in simp)
  moreover have "mset (concat (bs[i := n1])) + mset (bs ! i) = mset (concat bs) + mset n1"
    by (rule mset_concat_update) (use assms in simp)
  ultimately have "mset (concat (bs[i := n1, j := n2])) + mset (bs ! i) = mset (concat bs) + (mset n1 + mset n2)"
    using assms(3,4) by (simp add: ac_simps)
  then show ?thesis using assms(5) by simp
qed

lemma concat_take_same:
  assumes "\<And>i. n \<le> i \<Longrightarrow> i < length bs \<Longrightarrow> bs ! i = []"
  shows "concat (take n bs @ replicate k []) = concat bs"
proof -
  have "concat (drop n bs) = []" using assms by (auto simp: in_set_conv_nth)
  then have "concat bs = concat (take n bs)" by (metis append_Nil2 append_take_drop_id concat_append)
  then show ?thesis by simp
qed

lemma slot_split:
  assumes sh: "lh_shape lh" and i: "lh_slot lh h = i"
  shows "i \<noteq> h_p lh \<Longrightarrow> (if h mod h_pmax lh < h_p lh + 1 then h mod (2 * h_pmax lh) else h mod h_pmax lh) = i"
    and "i = h_p lh \<Longrightarrow> h mod h_pmax lh = h_p lh \<and> (h mod (2 * h_pmax lh) \<noteq> h_p lh \<longrightarrow> h mod (2 * h_pmax lh) = h_p lh + h_pmax lh)"
proof -
  note s = lh_shapeD [OF sh]
  have d: "h mod (2 * h_pmax lh) = h mod h_pmax lh \<or> h mod (2 * h_pmax lh) = h mod h_pmax lh + h_pmax lh"
    using s(1) by (intro mod_double) simp
  show "i \<noteq> h_p lh \<Longrightarrow> (if h mod h_pmax lh < h_p lh + 1 then h mod (2 * h_pmax lh) else h mod h_pmax lh) = i"
    using i s(3) d by (auto simp: lh_slot_def Let_def split: if_splits)
  show "i = h_p lh \<Longrightarrow> h mod h_pmax lh = h_p lh \<and> (h mod (2 * h_pmax lh) \<noteq> h_p lh \<longrightarrow> h mod (2 * h_pmax lh) = h_p lh + h_pmax lh)"
    using i s(2,3) d by (auto simp: lh_slot_def Let_def split: if_splits)
qed

lemma split_placed:
  assumes sh: "lh_shape lh" and pl: "lh_placed lh"
    and low: "\<And>i. i < 2 * h_pmax lh \<Longrightarrow> bs ! i = h_b lh ! i" and high: "\<And>i. 2 * h_pmax lh \<le> i \<Longrightarrow> i < length bs \<Longrightarrow> bs ! i = []"
    and len: "2 * h_pmax lh \<le> length bs"
    and sp: "expand_loop (2 * h_pmax lh) (h_p lh) (bs ! h_p lh) [] = (n1, n2)"
    and i: "i < length bs" and n: "n \<in> set (bs[h_p lh := n1, h_p lh + h_pmax lh := n2] ! i)"
  shows "(if n_hash n mod h_pmax lh < h_p lh + 1 then n_hash n mod (2 * h_pmax lh) else n_hash n mod h_pmax lh) = i
    \<and> n_hash n = lh_hash lh (n_data n)"
proof -
  let ?p = "h_p lh" and ?q = "h_p lh + h_pmax lh"
  note s = lh_shapeD [OF sh]
  have pq: "?p < length bs" "?q < length bs" "?p \<noteq> ?q" "?p < length (h_b lh)" using s len by linarith+
  have nn: "n1 = filter (\<lambda>n. n_hash n mod (2 * h_pmax lh) = ?p) (bs ! ?p)"
    "n2 = rev (filter (\<lambda>n. n_hash n mod (2 * h_pmax lh) \<noteq> ?p) (bs ! ?p))"
    using expand_loop_spec [OF sp] by auto
  have bp: "bs ! ?p = h_b lh ! ?p" using low s by simp
  show ?thesis
  proof (cases "i = ?p \<or> i = ?q")
    case True
    then have m: "n \<in> set (h_b lh ! ?p)" and cases: "if i = ?q then n_hash n mod (2 * h_pmax lh) \<noteq> ?p else n_hash n mod (2 * h_pmax lh) = ?p"
      using n pq bp by (auto simp: nth_list_update nn split: if_splits)
    note d = lh_placedD [OF pl pq(4) m]
    show ?thesis using slot_split(2) [OF sh d(1) refl] d(2) cases True pq(3) by (auto split: if_splits)
  next
    case False
    then have m: "n \<in> set (bs ! i)" using n by simp
    then have i2: "i < 2 * h_pmax lh" using high [of i] i by (cases "i < 2 * h_pmax lh") auto
    then have "i < length (h_b lh)" "n \<in> set (h_b lh ! i)" using m low s by auto
    from lh_placedD [OF pl this] show ?thesis using slot_split(1) [OF sh] False by blast
  qed
qed

lemma lh_wf_same_nodes:
  assumes "lh_wf lh" and "lh_shape lh'" and "lh_placed lh'" and "lh_same lh lh'"
  shows "lh_wf lh'"
  using assms by (simp add: lh_wf_def lh_same_def lh_unique_def)

lemma expand_spec:
  assumes wf: "lh_wf lh" and small: "lh_small lh"
  shows "\<exists>ok lh'. expand mem lh = Ret (ok, lh') \<and> lh_wf lh' \<and> lh_same lh lh'
    \<and> ((\<forall>k. mem k) \<longrightarrow> ok) \<and> (\<not> ok \<longrightarrow> 0 < h_error lh') \<and> (ok \<longrightarrow> h_error lh' = h_error lh)"
proof -
  let ?p = "h_p lh" and ?m = "h_pmax lh" and ?b = "h_b lh"
  have sh: "lh_shape lh" and pl: "lh_placed lh" using wf by (auto simp: lh_wf_def)
  note s = lh_shapeD [OF sh]
  have lt: "?m < 2 ^ 29" using small by (simp add: lh_small_def)
  have wrap: "(?p + 1) mod 4294967296 = ?p + 1" "(2 * ?m * 2) mod 4294967296 = 4 * ?m"
    "(h_num_nodes lh + 1) mod 4294967296 = ?p + ?m + 1" using s lt by simp_all
  have empty: "?b ! i = []" if "?m + ?p \<le> i" "i < length ?b" for i
    using placed_empty [OF sh pl] that s(4) by simp
  obtain k where k: "?m = 2 ^ (k + 3)" using sh by (auto simp: lh_shape_def)
  show ?thesis
  proof (cases "?p + 1 \<ge> ?m \<and> \<not> mem (8 * (4 * ?m))")
    case True
    then have "expand mem lh = Ret (False, lh\<lparr>h_error := h_error lh + 1\<rparr>)"
      using s wrap by (simp add: expand_def Let_def)
    moreover have "lh_same lh (lh\<lparr>h_error := h_error lh + 1\<rparr>)"
      by (simp add: lh_same_def lh_nodes_def)
    ultimately show ?thesis using wf True by auto
  next
    case False
    define grow where "grow \<longleftrightarrow> ?p + 1 \<ge> ?m"
    define bs where "bs = (if grow then take (2 * ?m) ?b @ replicate (2 * ?m) [] else ?b)"
    define lh1 where "lh1 = (if grow then lh\<lparr>h_b := bs, h_pmax := 2 * ?m, h_num_alloc_nodes := 4 * ?m, h_p := 0\<rparr>
      else lh\<lparr>h_p := ?p + 1\<rparr>)"
    obtain n1 n2 where sp: "expand_loop (2 * ?m) ?p (bs ! ?p) [] = (n1, n2)" by fastforce
    define lh' where "lh' = lh1\<lparr>h_num_nodes := ?p + ?m + 1, h_b := bs[?p := n1, ?p + ?m := n2]\<rparr>"
    have len: "2 * ?m \<le> length bs" "grow \<Longrightarrow> 4 * ?m \<le> length bs" using s by (auto simp: bs_def)
    have pq: "?p < length bs" "?p + ?m < length bs" using len s by linarith+
    have res: "expand mem lh = Ret (True, lh')"
      using s wrap False pq sp by (cases grow) (auto simp: expand_def Let_def lh'_def lh1_def bs_def grow_def)
    have low: "bs ! i = ?b ! i" if "i < 2 * ?m" for i using that s by (auto simp: bs_def nth_append)
    have high: "bs ! i = []" if "2 * ?m \<le> i" "i < length bs" for i
      using that s empty [of i] by (auto simp: bs_def nth_append split: if_splits)
    have slot: "lh_slot lh' h = (if h mod ?m < ?p + 1 then h mod (2 * ?m) else h mod ?m)" for h
    proof -
      have "h mod ?m < ?m" using s(1) by simp
      then have "grow \<Longrightarrow> h mod ?m < ?p + 1" by (simp only: grow_def)
      then show ?thesis using s by (cases grow) (auto simp: lh_slot_def lh'_def lh1_def Let_def)
    qed
    have hash: "lh_hash lh' = lh_hash lh" "lh_comp lh' = lh_comp lh"
      by (simp_all add: lh'_def lh1_def)
    have "lh_placed lh'"
      unfolding lh_placed_def slot hash
    proof (intro allI impI ballI)
      have hb: "h_b lh' = bs[?p := n1, ?p + ?m := n2]" by (simp add: lh'_def)
      fix i n assume "i < length (h_b lh')" "n \<in> set (h_b lh' ! i)"
      then show "(if n_hash n mod ?m < ?p + 1 then n_hash n mod (2 * ?m) else n_hash n mod ?m) = i
          \<and> n_hash n = lh_hash lh (n_data n)"
        unfolding hb length_list_update by (intro split_placed [OF sh pl _ _ len(1) sp] low high)
    qed
    moreover have "lh_shape lh'"
    proof (cases grow)
      case True
      then have "2 * ?m = 2 ^ (Suc k + 3)" using k by (simp add: power_add)
      then show ?thesis using True s len by (auto simp: lh_shape_def lh'_def lh1_def grow_def)
    qed (use sh s len in \<open>auto simp: lh_shape_def lh'_def lh1_def grow_def bs_def\<close>)
    moreover have "lh_same lh lh'"
    proof -
      have "mset n1 + mset n2 = mset (bs ! ?p)" using expand_loop_spec [OF sp] by (simp add: mset_filter multiset_partition [symmetric])
      moreover have "bs ! (?p + ?m) = []" using low [of "?p + ?m"] empty [of "?p + ?m"] s by simp
      ultimately have "mset (concat (bs[?p := n1, ?p + ?m := n2])) = mset (concat bs)"
        using pq s(1) by (intro split_mset) auto
      moreover have "concat bs = concat ?b"
      proof -
        have "concat (take (2 * ?m) ?b @ replicate (2 * ?m) []) = concat ?b"
          by (rule concat_take_same) (use empty s(2) in simp)
        then show ?thesis by (simp add: bs_def)
      qed
      ultimately show ?thesis using hash by (simp add: lh_same_def lh_nodes_def lh'_def lh1_def)
    qed
    moreover have "h_error lh' = h_error lh" by (simp add: lh'_def lh1_def)
    ultimately show ?thesis using res lh_wf_same_nodes [OF wf] by blast
  qed
qed

text \<open>Merging the last chain back, the inverse of a split.\<close>

lemma merge_mset:
  assumes "i < length bs" "j < length bs" "i \<noteq> j"
  shows "mset (concat (bs[j := [], i := bs ! i @ bs ! j])) = mset (concat bs)"
proof -
  have "mset (concat (bs[j := [], i := bs ! i @ bs ! j])) + mset (bs[j := []] ! i)
      = mset (concat (bs[j := []])) + mset (bs ! i @ bs ! j)"
    by (rule mset_concat_update) (use assms in simp)
  moreover have "mset (concat (bs[j := []])) + mset (bs ! j) = mset (concat bs) + mset []"
    by (rule mset_concat_update) (use assms in simp)
  ultimately show ?thesis using assms(3) by (simp add: ac_simps)
qed

lemma slot_merge:
  assumes m: "0 < m" and p: "p < m" and i: "(if h mod m < Suc p then h mod (2 * m) else h mod m) = i"
  shows "(if h mod m < p then h mod (2 * m) else h mod m) = (if i = p + m then p else i)"
proof -
  have lt: "h mod m < m" and d: "h mod (2 * m) = h mod m \<or> h mod (2 * m) = h mod m + m"
    using m mod_double by auto
  show ?thesis
  proof (cases "h mod m = p")
    case True
    then show ?thesis using i d m by (auto split: if_splits)
  next
    case False
    have "h mod m \<noteq> p + m" using lt by linarith
    with False have "i \<noteq> p + m" using i d by (auto split: if_splits)
    then show ?thesis using False i by (auto split: if_splits)
  qed
qed

lemma contract_spec:
  assumes wf: "lh_wf lh" and small: "lh_small lh" and big: "h_num_nodes lh > 16"
  shows "\<exists>lh'. contract mem lh = Ret lh' \<and> lh_wf lh' \<and> lh_same lh lh'"
proof -
  let ?p = "h_p lh" and ?m = "h_pmax lh" and ?b = "h_b lh"
  have sh: "lh_shape lh" and pl: "lh_placed lh" using wf by (auto simp: lh_wf_def)
  note s = lh_shapeD [OF sh]
  have lt: "?m < 2 ^ 29" using small by (simp add: lh_small_def)
  then have wrap: "8 * ?m mod 4294967296 = 8 * ?m" by simp
  have empty: "?b ! i = []" if "?m + ?p \<le> i" "i < length ?b" for i
    using placed_empty [OF sh pl] that s(4) by simp
  obtain k where k: "?m = 2 ^ (k + 3)" using sh by (auto simp: lh_shape_def)
  define m' where "m' = (if ?p = 0 then ?m div 2 else ?m)"
  define p' where "p' = (if ?p = 0 then m' - 1 else ?p - 1)"
  have geo: "0 < m'" "p' < m'" "p' + m' = ?p + ?m - 1" "\<exists>k'. m' = 2 ^ (k' + 3)" "?p = 0 \<Longrightarrow> 2 * m' = ?m"
  proof -
    have half: "\<exists>j. ?m = 2 ^ (j + 4)" if "?p = 0"
    proof (cases k)
      case 0
      then show ?thesis using k that big s(4) by simp
    next
      case (Suc j)
      then show ?thesis using k by (intro exI [of _ j]) simp
    qed
    then show "\<exists>k'. m' = 2 ^ (k' + 3)" using k by (auto simp: m'_def power_add)
    have "?p = 0 \<Longrightarrow> even ?m" using half by auto
    then show e: "?p = 0 \<Longrightarrow> 2 * m' = ?m" by (simp add: m'_def)
    show "0 < m'" "p' < m'" using s(1,2) by (auto simp: m'_def p'_def)
    then show "p' + m' = ?p + ?m - 1" using e by (cases "?p = 0") (auto simp: p'_def m'_def)
  qed
  define bs where "bs = (if ?p = 0 \<and> mem (8 * ?m) then take ?m (?b[?p + ?m - 1 := []]) else ?b[?p + ?m - 1 := []])"
  define lh' where "lh' = lh\<lparr>h_b := bs[p' := bs ! p' @ ?b ! (?p + ?m - 1)], h_num_alloc_nodes := 2 * m',
    h_pmax := m', h_p := p', h_num_nodes := ?m + ?p - 1,
    h_error := (if ?p = 0 \<and> \<not> mem (8 * ?m) then h_error lh + 1 else h_error lh)\<rparr>"
  have last: "?p + ?m - 1 < length ?b" "p' < length ?b" "p' \<noteq> ?p + ?m - 1" using s geo by linarith+
  have len: "p' < length bs" "2 * m' \<le> length bs" "?p + ?m - 1 < length bs"
    using s geo by (auto simp: bs_def m'_def)
  have res: "contract mem lh = Ret lh'"
  proof (cases "?p = 0")
    case True
    have f: "?m div 2 = m'" "h_num_alloc_nodes lh div 2 = 2 * m'" "p' = m' - 1" "0 < ?m" "h_num_nodes lh = ?m"
      using True geo(5) s by (simp_all add: m'_def p'_def)
    show ?thesis
      using True len(1) last(1) f(4) unfolding contract_def Let_def lh'_def bs_def f(3)
      by (cases "mem (8 * ?m)") (simp_all add: wrap f(1,2,5))
  next
    case False
    then have f: "m' = ?m" "p' = ?p - 1" by (simp_all add: m'_def p'_def)
    then show ?thesis
      using False len(1) last(1) unfolding contract_def Let_def lh'_def bs_def f by (simp add: s(3,4))
  qed
  have old_slot: "lh_slot lh h = (if h mod m' < Suc p' then h mod (2 * m') else h mod m')" for h
  proof (cases "?p = 0")
    case True
    have "h mod m' < m'" using geo(1) by simp
    moreover have "Suc p' = m'" using True geo(1) by (simp add: p'_def)
    ultimately have "h mod m' < Suc p'" by (simp only:)
    with True geo(5) show ?thesis by (simp add: lh_slot_def Let_def)
  next
    case False
    then show ?thesis using s(3) by (simp add: lh_slot_def Let_def p'_def m'_def)
  qed
  have slot: "lh_slot lh' h = (if lh_slot lh h = p' + m' then p' else lh_slot lh h)" for h
  proof -
    have "lh_slot lh' h = (if h mod m' < p' then h mod (2 * m') else h mod m')"
      by (simp add: lh_slot_def lh'_def Let_def)
    then show ?thesis using slot_merge [OF geo(1,2) old_slot [of h, symmetric]] by simp
  qed
  have hash: "lh_hash lh' = lh_hash lh" "lh_comp lh' = lh_comp lh" by (simp_all add: lh'_def)
  have bsi: "bs ! i = (if i = ?p + ?m - 1 then [] else ?b ! i)" if "i < length bs" for i
    using that last by (auto simp: bs_def nth_list_update)
  have lenb: "length bs \<le> length ?b" by (simp add: bs_def)
  have "lh_placed lh'"
  proof -
    have "lh_slot lh' (n_hash n) = i \<and> n_hash n = lh_hash lh (n_data n)"
      if i: "i < length bs" and n: "n \<in> set (bs[p' := bs ! p' @ ?b ! (?p + ?m - 1)] ! i)" for i n
    proof (cases "n \<in> set (?b ! i) \<and> i \<noteq> ?p + ?m - 1")
      case True
      then show ?thesis using lh_placedD [OF pl _ conjunct1 [OF True]] i lenb slot geo(3) by simp
    next
      case False
      then have "i = p'" "n \<in> set (?b ! (?p + ?m - 1))"
        using n i len(1) bsi [of i] last(3) by (auto simp: nth_list_update split: if_splits)
      then show ?thesis using lh_placedD [OF pl last(1)] slot geo(3) by simp
    qed
    moreover have hb: "h_b lh' = bs[p' := bs ! p' @ ?b ! (?p + ?m - 1)]" by (simp add: lh'_def)
    ultimately show ?thesis unfolding lh_placed_def hash hb length_list_update by blast
  qed
  moreover have "lh_shape lh'" using geo s len by (auto simp: lh_shape_def lh'_def)
  moreover have "lh_same lh lh'"
  proof -
    let ?c = "?b[?p + ?m - 1 := [], p' := ?b ! p' @ ?b ! (?p + ?m - 1)]"
    have "mset (concat ?c) = mset (concat ?b)" using last by (intro merge_mset) auto
    moreover have "concat (bs[p' := bs ! p' @ ?b ! (?p + ?m - 1)]) = concat ?c"
    proof (cases "?p = 0 \<and> mem (8 * ?m)")
      case True
      then have "bs[p' := bs ! p' @ ?b ! (?p + ?m - 1)] = take ?m ?c"
        using last geo s by (simp add: bs_def take_update_swap)
      also have "concat (take ?m ?c) = concat ?c"
        using concat_take_same [of ?m ?c 0] empty True geo(2) s by (auto simp: nth_list_update m'_def)
      finally show ?thesis .
    next
      case False
      then show ?thesis using last by (auto simp: bs_def)
    qed
    ultimately show ?thesis using hash by (simp add: lh_same_def lh_nodes_def lh'_def)
  qed
  ultimately show ?thesis using res lh_wf_same_nodes [OF wf] by blast
qed

section \<open>The operations on the set of elements\<close>

text \<open>The element with the same key, if the table has one; by \<open>lh_unique\<close> there is at most one.\<close>

definition lh_find :: "'v LHASH \<Rightarrow> 'v \<Rightarrow> 'v option \<Rightarrow> bool" where
  "lh_find lh d r \<longleftrightarrow>
     (case r of
        Some x \<Rightarrow> x \<in> lh_set lh \<and> lh_comp lh x d = 0
      | None \<Rightarrow> \<forall>x \<in> lh_set lh. lh_comp lh x d \<noteq> 0)"

lemma in_lh_set: "x \<in> lh_set lh \<longleftrightarrow> (\<exists>n. n \<in># lh_nodes lh \<and> n_data n = x)"
  by (auto simp: lh_set_def)

lemma lh_uniqueD:
  assumes wf: "lh_wf lh" and "n \<in># lh_nodes lh" and "m \<in># lh_nodes lh - {#n#}"
  shows "lh_comp lh (n_data n) (n_data m) \<noteq> 0"
  using assms by (auto simp: lh_wf_def lh_unique_def)

lemma lh_find_unique:
  assumes wf: "lh_wf lh" and cb: "lh_callbacks_ok lh" and f: "lh_find lh d r" "lh_find lh d r'"
  shows "r = r'"
proof (cases r; cases r')
  fix x y assume r: "r = Some x" "r' = Some y"
  obtain n m where nm: "n \<in># lh_nodes lh" "n_data n = x" "m \<in># lh_nodes lh" "n_data m = y"
    using f r by (auto simp: lh_find_def in_lh_set)
  have "lh_comp lh x d = 0" "lh_comp lh y d = 0" using f r by (simp_all add: lh_find_def)
  then have "lh_comp lh x y = 0" using lh_callbacksD(2,4) [OF cb] by blast
  then have "m \<notin># lh_nodes lh - {#n#}" using lh_uniqueD [OF wf nm(1)] nm by blast
  then have "m = n" using nm(3) by (metis in_diff_count insert_DiffM insert_noteq_member nm(1))
  then show ?thesis using r nm by simp
qed (use f in \<open>auto simp: lh_find_def\<close>)

lemma retrieve_spec:
  assumes wf: "lh_wf lh" and cb: "lh_callbacks_ok lh"
  shows "\<exists>r. OPENSSL_LH_retrieve lh d = Ret (r, lh\<lparr>h_error := 0\<rparr>) \<and> lh_find lh d r"
proof -
  let ?lh = "lh\<lparr>h_error := 0\<rparr>"
  have w: "lh_wf ?lh" "lh_callbacks_ok ?lh" using wf cb by simp_all
  show ?thesis
    using w by (rule getrn_cases [of ?lh d])
      (auto simp: OPENSSL_LH_retrieve_def lh_find_def in_lh_set Let_def)
qed

text \<open>Changing one chain of a table.\<close>

lemma chain_update_placed:
  assumes pl: "lh_placed lh" and i: "i < length (h_b lh)"
    and ch: "\<And>n. n \<in> set ch \<Longrightarrow> lh_slot lh (n_hash n) = i \<and> n_hash n = lh_hash lh (n_data n)"
  shows "lh_placed (lh\<lparr>h_b := (h_b lh)[i := ch], h_num_items := c\<rparr>)"
  unfolding lh_placed_def lh_slot_frame lh_fun_frame
proof (intro allI impI ballI)
  fix j n assume j: "j < length (h_b (lh\<lparr>h_b := (h_b lh)[i := ch], h_num_items := c\<rparr>))"
    and n: "n \<in> set (h_b (lh\<lparr>h_b := (h_b lh)[i := ch], h_num_items := c\<rparr>) ! j)"
  show "lh_slot lh (n_hash n) = j \<and> n_hash n = lh_hash lh (n_data n)"
  proof (cases "j = i")
    case True
    then have "n \<in> set ch" using n i by simp
    then show ?thesis using ch True by blast
  next
    case False
    then have "j < length (h_b lh)" "n \<in> set (h_b lh ! j)" using j n by simp_all
    from lh_placedD [OF pl this] show ?thesis by blast
  qed
qed

lemma chain_update_wf:
  assumes wf: "lh_wf lh" and i: "i < length (h_b lh)"
    and ch: "\<And>n. n \<in> set ch \<Longrightarrow> lh_slot lh (n_hash n) = i \<and> n_hash n = lh_hash lh (n_data n)"
    and M: "mset (concat ((h_b lh)[i := ch])) = M" "c = size M"
    and un: "\<And>n m. n \<in># M \<Longrightarrow> m \<in># M - {#n#} \<Longrightarrow> lh_comp lh (n_data n) (n_data m) \<noteq> 0"
  shows "lh_wf (lh\<lparr>h_b := (h_b lh)[i := ch], h_num_items := c\<rparr>)"
    and "lh_nodes (lh\<lparr>h_b := (h_b lh)[i := ch], h_num_items := c\<rparr>) = M"
proof -
  let ?lh = "lh\<lparr>h_b := (h_b lh)[i := ch], h_num_items := c\<rparr>"
  show nodes: "lh_nodes ?lh = M" using M by (simp add: lh_nodes_def)
  have "lh_placed ?lh" using wf by (intro chain_update_placed i ch) (auto simp: lh_wf_def)
  moreover have "lh_shape ?lh" using wf by (simp add: lh_wf_def lh_shape_def)
  moreover have "lh_unique ?lh" unfolding lh_unique_def nodes lh_fun_frame using un by blast
  ultimately show "lh_wf ?lh" using nodes M(2) by (simp add: lh_wf_def)
qed

lemma mset_update_nth:
  assumes "i < length bs" and "k < length (bs ! i)"
  shows "mset (concat (bs[i := (bs ! i)[k := x]])) = add_mset x (mset (concat bs) - {#bs ! i ! k#})"
    and "mset (concat (bs[i := take k (bs ! i) @ drop (Suc k) (bs ! i)])) = mset (concat bs) - {#bs ! i ! k#}"
    and "bs ! i ! k \<in># mset (concat bs)"
proof -
  have ch: "mset (bs ! i) = add_mset (bs ! i ! k) (mset (take k (bs ! i) @ drop (Suc k) (bs ! i)))"
    using id_take_nth_drop [OF assms(2)] by (metis add_mset_add_single mset.simps(2) mset_append union_mset_add_mset_right)
  show mem: "bs ! i ! k \<in># mset (concat bs)" using nth_mem [OF assms(1)] nth_mem [OF assms(2)] by auto
  let ?C = "mset (concat bs)" and ?o = "bs ! i ! k" and ?R = "take k (bs ! i) @ drop (Suc k) (bs ! i)"
  have "add_mset ?o (mset (concat (bs[i := ?R]))) + mset ?R = ?C + mset ?R"
    using mset_concat_update [OF assms(1), of ?R] unfolding ch by simp
  then have "add_mset ?o (mset (concat (bs[i := ?R]))) = ?C" by (simp only: add_right_cancel)
  then show "mset (concat (bs[i := ?R])) = ?C - {#?o#}" by (metis add_mset_remove_trivial)
  let ?Y = "mset (concat (bs[i := (bs ! i)[k := x]]))"
  have "mset ((bs ! i)[k := x]) = add_mset x (mset ?R)"
    using assms(2) by (simp add: mset_update ch)
  then have "add_mset ?o ?Y + mset ?R = add_mset x ?C + mset ?R"
    using mset_concat_update [OF assms(1), of "(bs ! i)[k := x]"] unfolding ch by simp
  then have "add_mset ?o ?Y = add_mset x ?C" by (simp only: add_right_cancel)
  also have "?C = add_mset ?o (?C - {#?o#})" using mem by (simp only: insert_DiffM)
  finally show "?Y = add_mset x (?C - {#?o#})" by (metis add_mset_add_mset_same_iff add_mset_commute)
qed

text \<open>The elements whose key equals that of \<open>d\<close>.\<close>

abbreviation same_key :: "'v LHASH \<Rightarrow> 'v \<Rightarrow> 'v set" where
  "same_key lh d \<equiv> {x. lh_comp lh x d = 0}"

lemma lh_set_remove:
  assumes wf: "lh_wf lh" and cb: "lh_callbacks_ok lh" and n: "n \<in># lh_nodes lh" "lh_comp lh (n_data n) d = 0"
  shows "n_data ` set_mset (lh_nodes lh - {#n#}) = lh_set lh - same_key lh d"
proof -
  have "lh_comp lh (n_data m) d \<noteq> 0" if "m \<in># lh_nodes lh - {#n#}" for m
  proof
    assume "lh_comp lh (n_data m) d = 0"
    then have "lh_comp lh (n_data n) (n_data m) = 0" using n(2) lh_callbacksD(2,4) [OF cb] by blast
    then show False using lh_uniqueD [OF wf n(1) that] by simp
  qed
  moreover have "m \<in># lh_nodes lh - {#n#}" if "m \<in># lh_nodes lh" "lh_comp lh (n_data m) d \<noteq> 0" for m
    using that n by (metis in_diff_count insert_DiffM insert_noteq_member)
  ultimately show ?thesis by (auto simp: lh_set_def dest: in_diffD)
qed

lemma pairwise_add_mset:
  assumes N: "\<And>n m. n \<in># N \<Longrightarrow> m \<in># N - {#n#} \<Longrightarrow> P n m" and x: "\<And>m. m \<in># N \<Longrightarrow> P x m \<and> P m x"
    and n: "n \<in># add_mset x N" and m: "m \<in># add_mset x N - {#n#}"
  shows "P n m"
proof (cases "n = x")
  case True
  then show ?thesis using m x by simp
next
  case False
  then have "n \<in># N" "m \<in># add_mset x (N - {#n#})" using n m by (auto simp: add_mset_diff_bothsides)
  then show ?thesis using N x by auto
qed

lemma pairwise_diff_mset:
  assumes "\<And>n m. n \<in># N \<Longrightarrow> m \<in># N - {#n#} \<Longrightarrow> P n m" and "n \<in># N - {#x#}" and "m \<in># N - {#x#} - {#n#}"
  shows "P n m"
proof -
  have "N - {#x#} - {#n#} \<subseteq># N - {#n#}" by (metis diff_subset_eq_self diff_right_commute)
  then show ?thesis using assms by (meson in_diffD mset_subset_eqD)
qed

lemma insert_chain_spec:
  assumes wf: "lh_wf lh" and cb: "lh_callbacks_ok lh"
    and rn: "getrn lh d = Ret (nn, k, hash)"
  defines "new \<equiv> lh\<lparr>h_b := (h_b lh)[nn := h_b lh ! nn @ [\<lparr>n_data = d, n_hash = hash\<rparr>]], h_num_items := h_num_items lh + 1\<rparr>"
    and "repl \<equiv> lh\<lparr>h_b := (h_b lh)[nn := (h_b lh ! nn)[k := (h_b lh ! nn ! k)\<lparr>n_data := d\<rparr>]]\<rparr>"
  shows "k = length (h_b lh ! nn) \<Longrightarrow> lh_wf new \<and> lh_find lh d None \<and> lh_set new = insert d (lh_set lh - same_key lh d)"
    and "k \<noteq> length (h_b lh ! nn) \<Longrightarrow> lh_wf repl \<and> lh_find lh d (Some (n_data (h_b lh ! nn ! k)))
      \<and> lh_set repl = insert d (lh_set lh - same_key lh d)"
proof -
  have g: "hash = lh_hash lh d" "nn = lh_slot lh hash" "nn < length (h_b lh)" "k \<le> length (h_b lh ! nn)"
    "k = length (h_b lh ! nn) \<Longrightarrow> \<forall>n. n \<in># lh_nodes lh \<longrightarrow> lh_comp lh (n_data n) d \<noteq> 0"
    "k < length (h_b lh ! nn) \<Longrightarrow> h_b lh ! nn ! k \<in># lh_nodes lh \<and> lh_comp lh (n_data (h_b lh ! nn ! k)) d = 0
       \<and> n_hash (h_b lh ! nn ! k) = hash"
    using getrn_cases [OF wf cb, of d] rn by (metis outcome.inject prod.inject)+
  have pl: "lh_placed lh" and items: "h_num_items lh = size (lh_nodes lh)" using wf by (auto simp: lh_wf_def)
  have chain: "lh_slot lh (n_hash n) = nn \<and> n_hash n = lh_hash lh (n_data n)" if "n \<in> set (h_b lh ! nn)" for n
    using lh_placedD [OF pl g(3) that] by blast
  note comp = lh_callbacksD [OF cb] and un = lh_uniqueD [OF wf]
  show "lh_wf new \<and> lh_find lh d None \<and> lh_set new = insert d (lh_set lh - same_key lh d)" if k: "k = length (h_b lh ! nn)"
  proof -
    let ?n = "\<lparr>n_data = d, n_hash = hash\<rparr>"
    have M: "mset (concat ((h_b lh)[nn := h_b lh ! nn @ [?n]])) = add_mset ?n (lh_nodes lh)"
      using mset_concat_update [OF g(3), of "h_b lh ! nn @ [?n]"] by (simp add: lh_nodes_def)
    have no: "\<forall>n. n \<in># lh_nodes lh \<longrightarrow> lh_comp lh (n_data n) d \<noteq> 0" by (rule g(5) [OF k])
    have unq: "lh_comp lh (n_data n) (n_data m) \<noteq> 0"
      if "n \<in># add_mset ?n (lh_nodes lh)" "m \<in># add_mset ?n (lh_nodes lh) - {#n#}" for n m
      by (rule pairwise_add_mset [where P = "\<lambda>n m. lh_comp lh (n_data n) (n_data m) \<noteq> 0", OF _ _ that])
        (use no comp(2) un in auto)
    have chn: "lh_slot lh (n_hash n) = nn \<and> n_hash n = lh_hash lh (n_data n)" if "n \<in> set (h_b lh ! nn @ [?n])" for n
      using that chain g(1,2) by auto
    have sz: "h_num_items lh + 1 = size (add_mset ?n (lh_nodes lh))" using items by simp
    have "lh_wf new" "lh_nodes new = add_mset ?n (lh_nodes lh)"
      unfolding new_def by (rule chain_update_wf [OF wf g(3) _ M sz]; (fact chn | fact unq))+
    then show ?thesis using no by (auto simp: lh_find_def lh_set_def)
  qed
  show "lh_wf repl \<and> lh_find lh d (Some (n_data (h_b lh ! nn ! k))) \<and> lh_set repl = insert d (lh_set lh - same_key lh d)"
    if k: "k \<noteq> length (h_b lh ! nn)"
  proof -
    let ?o = "h_b lh ! nn ! k" and ?n = "(h_b lh ! nn ! k)\<lparr>n_data := d\<rparr>"
    have k': "k < length (h_b lh ! nn)" using k g(4) by simp
    have o: "?o \<in># lh_nodes lh" "lh_comp lh (n_data ?o) d = 0" "n_hash ?o = hash" using g(6) [OF k'] by auto
    have M: "mset (concat ((h_b lh)[nn := (h_b lh ! nn)[k := ?n]])) = add_mset ?n (lh_nodes lh - {#?o#})"
      using mset_update_nth(1) [OF g(3) k'] by (simp add: lh_nodes_def)
    have no: "lh_comp lh d (n_data m) \<noteq> 0 \<and> lh_comp lh (n_data m) d \<noteq> 0" if "m \<in># lh_nodes lh - {#?o#}" for m
      using un [OF o(1) that] comp(4) [OF o(2)] comp(2) by blast
    have unq: "lh_comp lh (n_data n) (n_data m) \<noteq> 0"
      if "n \<in># add_mset ?n (lh_nodes lh - {#?o#})" "m \<in># add_mset ?n (lh_nodes lh - {#?o#}) - {#n#}" for n m
      by (rule pairwise_add_mset [where P = "\<lambda>n m. lh_comp lh (n_data n) (n_data m) \<noteq> 0", OF _ _ that])
        (use no pairwise_diff_mset [of _ "\<lambda>n m. lh_comp lh (n_data n) (n_data m) \<noteq> 0", OF un] in auto)
    have chn: "lh_slot lh (n_hash n) = nn \<and> n_hash n = lh_hash lh (n_data n)" if "n \<in> set ((h_b lh ! nn)[k := ?n])" for n
    proof (cases "n = ?n")
      case True
      have "n_hash ?n = hash" "n_data ?n = d" using o(3) by simp_all
      then show ?thesis using True g(1,2) by (simp only:)
    next
      case False
      then have "n \<in> set (h_b lh ! nn)" using that set_update_subset_insert [of "h_b lh ! nn" k ?n] by blast
      then show ?thesis by (rule chain)
    qed
    have sz: "h_num_items lh = size (add_mset ?n (lh_nodes lh - {#?o#}))"
      using items o(1) by (metis size_add_mset insert_DiffM)
    have "lh_wf (lh\<lparr>h_b := (h_b lh)[nn := (h_b lh ! nn)[k := ?n]], h_num_items := h_num_items lh\<rparr>)"
      "lh_nodes (lh\<lparr>h_b := (h_b lh)[nn := (h_b lh ! nn)[k := ?n]], h_num_items := h_num_items lh\<rparr>) = add_mset ?n (lh_nodes lh - {#?o#})"
      by (rule chain_update_wf [OF wf g(3) _ M sz]; (fact chn | fact unq))+
    then have "lh_wf repl" "lh_nodes repl = add_mset ?n (lh_nodes lh - {#?o#})" by (simp_all add: repl_def)
    then show ?thesis
      using o lh_set_remove [OF wf cb o(1,2)] by (auto simp: lh_find_def lh_set_def)
  qed
qed

lemma lh_same_set: "lh_same lh lh' \<Longrightarrow> lh_set lh' = lh_set lh \<and> lh_find lh' = lh_find lh
    \<and> lh_callbacks_ok lh' = lh_callbacks_ok lh \<and> lh_comp lh' = lh_comp lh \<and> lh_hash lh' = lh_hash lh"
  by (auto simp: lh_same_def lh_set_def lh_find_def lh_callbacks_ok_def fun_eq_iff split: option.split)

lemma lh_set_error [simp]: "lh_set (lh\<lparr>h_error := e\<rparr>) = lh_set lh" "lh_find (lh\<lparr>h_error := e\<rparr>) = lh_find lh"
  by (auto simp: lh_set_def lh_find_def fun_eq_iff split: option.split)

lemma insert_spec:
  assumes wf: "lh_wf lh" and cb: "lh_callbacks_ok lh" and small: "lh_small lh"
  shows "\<exists>r lh'. OPENSSL_LH_insert mem lh d = Ret (r, lh') \<and> lh_wf lh' \<and> lh_hash lh' = lh_hash lh \<and> lh_comp lh' = lh_comp lh
    \<and> (h_error lh' = 0 \<longrightarrow> lh_find lh d r \<and> lh_set lh' = insert d (lh_set lh - same_key lh d))
    \<and> (h_error lh' \<noteq> 0 \<longrightarrow> r = None \<and> lh_set lh' = lh_set lh)
    \<and> ((\<forall>k. mem k) \<longrightarrow> h_error lh' = 0)"
proof -
  let ?lh = "lh\<lparr>h_error := 0\<rparr>"
  define ex where "ex \<longleftrightarrow> h_up_load lh \<le> (h_num_items lh * 256) mod SIZE_MOD div h_num_nodes lh"
  have "\<exists>ok lh1. (if ex then expand mem ?lh else Ret (True, ?lh)) = Ret (ok, lh1) \<and> lh_wf lh1 \<and> lh_same ?lh lh1
      \<and> ((\<forall>k. mem k) \<longrightarrow> ok) \<and> (\<not> ok \<longrightarrow> 0 < h_error lh1) \<and> (ok \<longrightarrow> h_error lh1 = 0)"
    using expand_spec [of ?lh mem] wf small by (cases ex) (auto simp: lh_same_def)
  then obtain ok lh1 where e: "(if ex then expand mem ?lh else Ret (True, ?lh)) = Ret (ok, lh1)" "lh_wf lh1" "lh_same ?lh lh1"
    "(\<forall>k. mem k) \<longrightarrow> ok" "\<not> ok \<longrightarrow> 0 < h_error lh1" "ok \<longrightarrow> h_error lh1 = 0" by blast
  note same = lh_same_set [OF e(3)]
  have cb1: "lh_callbacks_ok lh1" using same cb by simp
  obtain nn k h where rn: "getrn lh1 d = Ret (nn, k, h)" using getrn_cases [OF e(2) cb1, of d] by metis
  note ins = insert_chain_spec [OF e(2) cb1 rn]
  have res: "OPENSSL_LH_insert mem lh d =
    (if \<not> ok then Ret (None, lh1)
     else if k = length (h_b lh1 ! nn) then
       if \<not> mem 24 then Ret (None, lh1\<lparr>h_error := h_error lh1 + 1\<rparr>)
       else Ret (None, lh1\<lparr>h_b := (h_b lh1)[nn := h_b lh1 ! nn @ [\<lparr>n_data = d, n_hash = h\<rparr>]], h_num_items := h_num_items lh1 + 1\<rparr>)
     else Ret (Some (n_data (h_b lh1 ! nn ! k)), lh1\<lparr>h_b := (h_b lh1)[nn := (h_b lh1 ! nn)[k := (h_b lh1 ! nn ! k)\<lparr>n_data := d\<rparr>]]\<rparr>))"
    using e(1) rn by (simp add: OPENSSL_LH_insert_def ex_def Let_def)
  show ?thesis
  proof (cases "ok \<and> (k = length (h_b lh1 ! nn) \<longrightarrow> mem 24)")
    case False
    define err where "err = (if ok then h_error lh1 + 1 else h_error lh1)"
    have "OPENSSL_LH_insert mem lh d = Ret (None, lh1\<lparr>h_error := err\<rparr>)"
      using res False by (cases ok) (simp_all add: err_def)
    moreover have "err \<noteq> 0" using e(5) by (simp add: err_def)
    moreover have "\<not> (\<forall>k. mem k)" using False e(4) by blast
    ultimately show ?thesis using e(2) same by (intro exI [of _ None] exI [of _ "lh1\<lparr>h_error := err\<rparr>"]) simp
  next
    case True
    show ?thesis
    proof (cases "k = length (h_b lh1 ! nn)")
      case new: True
      show ?thesis using res True new ins(1) [OF new] e(6) same by simp
    next
      case repl: False
      show ?thesis using res True repl ins(2) [OF repl] e(6) same by simp
    qed
  qed
qed

lemma delete_spec:
  assumes wf: "lh_wf lh" and cb: "lh_callbacks_ok lh" and small: "lh_small lh"
  shows "\<exists>r lh'. OPENSSL_LH_delete mem lh d = Ret (r, lh') \<and> lh_wf lh' \<and> lh_hash lh' = lh_hash lh \<and> lh_comp lh' = lh_comp lh
    \<and> lh_find lh d r \<and> lh_set lh' = lh_set lh - same_key lh d"
proof -
  let ?lh = "lh\<lparr>h_error := 0\<rparr>"
  have w: "lh_wf ?lh" "lh_callbacks_ok ?lh" "lh_placed ?lh" using wf cb lh_wf_def [of ?lh] by simp_all
  obtain nn k where g: "getrn ?lh d = Ret (nn, k, lh_hash lh d)" "nn < length (h_b lh)" "k \<le> length (h_b lh ! nn)"
    "k = length (h_b lh ! nn) \<Longrightarrow> \<forall>n. n \<in># lh_nodes lh \<longrightarrow> lh_comp lh (n_data n) d \<noteq> 0"
    "k < length (h_b lh ! nn) \<Longrightarrow> h_b lh ! nn ! k \<in># lh_nodes lh \<and> lh_comp lh (n_data (h_b lh ! nn ! k)) d = 0"
    by (rule getrn_cases [OF w(1,2), of d]) simp
  show ?thesis
  proof (cases "k = length (h_b lh ! nn)")
    case True
    then have "OPENSSL_LH_delete mem lh d = Ret (None, ?lh)" using g(1) by (simp add: OPENSSL_LH_delete_def Let_def)
    then show ?thesis using g(4) [OF True] wf by (auto simp: lh_find_def in_lh_set)
  next
    case False
    then have k: "k < length (h_b lh ! nn)" using g(3) by simp
    let ?o = "h_b lh ! nn ! k" and ?ch = "take k (h_b lh ! nn) @ drop (Suc k) (h_b lh ! nn)"
    let ?lh1 = "?lh\<lparr>h_b := (h_b lh)[nn := ?ch], h_num_items := h_num_items lh - 1\<rparr>"
    have o: "?o \<in># lh_nodes lh" "lh_comp lh (n_data ?o) d = 0" using g(5) [OF k] by auto
    have M: "mset (concat ((h_b ?lh)[nn := ?ch])) = lh_nodes lh - {#?o#}"
      using mset_update_nth(2) [OF g(2) k] by (simp add: lh_nodes_def)
    have unq: "lh_comp ?lh (n_data n) (n_data m) \<noteq> 0"
      if "n \<in># lh_nodes lh - {#?o#}" "m \<in># lh_nodes lh - {#?o#} - {#n#}" for n m
      using pairwise_diff_mset [of _ "\<lambda>n m. lh_comp lh (n_data n) (n_data m) \<noteq> 0", OF lh_uniqueD [OF wf] that] by simp
    have chn: "lh_slot ?lh (n_hash n) = nn \<and> n_hash n = lh_hash ?lh (n_data n)" if "n \<in> set ?ch" for n
    proof -
      have "n \<in> set (h_b ?lh ! nn)" using that by (auto dest: in_set_takeD in_set_dropD)
      then show ?thesis using lh_placedD [OF w(3), of nn n] g(2) by simp
    qed
    have nn: "nn < length (h_b ?lh)" using g(2) by simp
    have sz: "h_num_items lh - 1 = size (lh_nodes lh - {#?o#})" using wf o(1) by (simp add: lh_wf_def size_Diff_singleton)
    have wf1: "lh_wf (?lh\<lparr>h_b := (h_b ?lh)[nn := ?ch], h_num_items := h_num_items lh - 1\<rparr>)"
      and n1: "lh_nodes (?lh\<lparr>h_b := (h_b ?lh)[nn := ?ch], h_num_items := h_num_items lh - 1\<rparr>) = lh_nodes lh - {#?o#}"
      by (rule chain_update_wf [OF w(1) nn _ M sz]; (fact chn | fact unq))+
    then have "lh_wf ?lh1" "lh_set ?lh1 = lh_set lh - same_key lh d" "lh_small ?lh1"
      using lh_set_remove [OF wf cb o] small by (simp_all add: lh_set_def lh_small_def)
    moreover have "lh_find lh d (Some (n_data ?o))" using o by (auto simp: lh_find_def in_lh_set)
    moreover have "OPENSSL_LH_delete mem lh d =
      (if h_num_nodes lh > 16 \<and> h_down_load lh \<ge> ((h_num_items lh - 1) * 256) mod SIZE_MOD div h_num_nodes lh
       then obind (contract mem ?lh1) (\<lambda>lh. Ret (Some (n_data ?o), lh)) else Ret (Some (n_data ?o), ?lh1))"
      using g(1) k by (simp add: OPENSSL_LH_delete_def Let_def)
    ultimately show ?thesis
      using contract_spec [of ?lh1 mem] lh_same_set [of ?lh1] by fastforce
  qed
qed

lemma new_spec:
  assumes "OPENSSL_LH_new mem strhash strcmp h c = Some lh"
  shows "lh_wf lh \<and> lh_set lh = {} \<and> lh_small lh \<and> h_num_items lh = 0"
proof -
  let ?e = "replicate 16 [] :: 'a LH_NODE list list"
  have lh: "h_b lh = ?e" "h_num_nodes lh = 8" "h_num_alloc_nodes lh = 16" "h_p lh = 0" "h_pmax lh = 8" "h_num_items lh = 0"
    using assms by (auto simp: OPENSSL_LH_new_def split: if_splits)
  have nodes: "lh_nodes lh = {#}" by (simp add: lh_nodes_def lh(1))
  have "lh_shape lh" by (auto simp: lh_shape_def lh intro: exI [of _ 0])
  moreover have "lh_placed lh" by (simp add: lh_placed_def lh(1))
  ultimately have "lh_wf lh" by (simp add: lh_wf_def lh_unique_def nodes lh)
  then show ?thesis by (simp add: lh_set_def nodes lh_small_def lh)
qed

section \<open>Interface: a dictionary\<close>

text \<open>
  What the users of a table rely on. \<open>key\<close> tells which elements have the same key, \<open>room\<close> that the
  array may still be resized; \<open>put\<close> may be refused.
\<close>

locale dictionary =
  fixes wf :: "'s \<Rightarrow> bool"
    and room :: "'s \<Rightarrow> bool"
    and elems :: "'s \<Rightarrow> 'v set"
    and key :: "'s \<Rightarrow> 'v \<Rightarrow> 'v \<Rightarrow> bool"
    and get :: "'s \<Rightarrow> 'v \<Rightarrow> 'v option"
    and put :: "'s \<Rightarrow> 'v \<Rightarrow> 's option"
    and del :: "'s \<Rightarrow> 'v \<Rightarrow> 's"
  assumes key_equiv: "wf s \<Longrightarrow> key s x x" "wf s \<Longrightarrow> key s x y \<Longrightarrow> key s y x"
      "wf s \<Longrightarrow> key s x y \<Longrightarrow> key s y z \<Longrightarrow> key s x z"
    and get_law: "wf s \<Longrightarrow> get s d = Some x \<longleftrightarrow> x \<in> elems s \<and> key s x d"
    and put_law: "wf s \<Longrightarrow> room s \<Longrightarrow> put s d = Some s' \<Longrightarrow>
      wf s' \<and> key s' = key s \<and> elems s' = insert d (elems s - {x. key s x d})"
    and del_law: "wf s \<Longrightarrow> room s \<Longrightarrow>
      wf (del s d) \<and> key (del s d) = key s \<and> elems (del s d) = elems s - {x. key s x d}"
begin

lemma get_put:
  assumes "wf s" and "room s" and "put s d = Some s'"
  shows "get s' d' = (if key s d d' then Some d else get s d')"
proof -
  note p = put_law [OF assms] and eq = key_equiv [OF assms(1)]
  have g: "get s' d' = Some x \<longleftrightarrow> (x = d \<or> x \<in> elems s \<and> \<not> key s x d) \<and> key s x d'" for x
    using p get_law [of s' d' x] by simp
  have "get s' d' = Some x \<longleftrightarrow> (if key s d d' then x = d else get s d' = Some x)" for x
  proof (cases "key s d d'")
    case True
    have "\<not> (x \<in> elems s \<and> \<not> key s x d \<and> key s x d')" using True eq(2) [of d d'] eq(3) [of x d' d] by blast
    then show ?thesis using True g [of x] by auto
  next
    case False
    have "key s x d' \<Longrightarrow> x \<noteq> d \<and> \<not> key s x d" using False eq(2) [of x d] eq(3) [of d x d'] by blast
    then show ?thesis using False g [of x] get_law [OF assms(1), of d' x] by auto
  qed
  then show ?thesis by (metis not_Some_eq)
qed

lemma get_del:
  assumes "wf s" and "room s"
  shows "get (del s d) d' = (if key s d d' then None else get s d')"
proof -
  note p = del_law [OF assms] and eq = key_equiv [OF assms(1)]
  have g: "get (del s d) d' = Some x \<longleftrightarrow> (x \<in> elems s \<and> \<not> key s x d) \<and> key s x d'" for x
    using p get_law [of "del s d" d' x] by simp
  have "get (del s d) d' = Some x \<longleftrightarrow> \<not> key s d d' \<and> get s d' = Some x" for x
  proof -
    have "key s x d' \<Longrightarrow> key s x d \<longleftrightarrow> key s d d'"
      using eq(2) [of x d] eq(2) [of x d'] eq(2) [of d d'] eq(3) [of d x d'] eq(3) [of x d' d] by blast
    then show ?thesis using g [of x] get_law [OF assms(1), of d' x] by auto
  qed
  then show ?thesis by (metis not_Some_eq)
qed

end

definition lh_get :: "'v LHASH \<Rightarrow> 'v \<Rightarrow> 'v option" where
  "lh_get lh d = (case OPENSSL_LH_retrieve lh d of Ret (r, _) \<Rightarrow> r | _ \<Rightarrow> None)"

definition lh_put :: "(nat \<Rightarrow> bool) \<Rightarrow> 'v LHASH \<Rightarrow> 'v \<Rightarrow> 'v LHASH option" where
  "lh_put mem lh d =
     (case OPENSSL_LH_insert mem lh d of Ret (_, lh') \<Rightarrow> if OPENSSL_LH_error lh' = 0 then Some lh' else None | _ \<Rightarrow> None)"

definition lh_del :: "(nat \<Rightarrow> bool) \<Rightarrow> 'v LHASH \<Rightarrow> 'v \<Rightarrow> 'v LHASH" where
  "lh_del mem lh d = (case OPENSSL_LH_delete mem lh d of Ret (_, lh') \<Rightarrow> lh' | _ \<Rightarrow> lh)"

lemma lh_callbacks_frame:
  "lh_hash lh' = lh_hash lh \<Longrightarrow> lh_comp lh' = lh_comp lh \<Longrightarrow> lh_callbacks_ok lh' = lh_callbacks_ok lh"
  by (simp add: lh_callbacks_ok_def)

interpretation lh: dictionary "\<lambda>lh. lh_wf lh \<and> lh_callbacks_ok lh" lh_small lh_set "\<lambda>lh x y. lh_comp lh x y = 0"
  lh_get "lh_put mem" "lh_del mem"
proof (unfold_locales, goal_cases)
  case (1 lh x) then show ?case by (simp add: lh_callbacksD)
next
  case (2 lh x y) then show ?case using lh_callbacksD(2) [of lh x y] by blast
next
  case (3 lh x y z) then show ?case using lh_callbacksD(4) [of lh x y z] by blast
next
  case (4 lh d x)
  then have wf: "lh_wf lh" "lh_callbacks_ok lh" by simp_all
  obtain r where r: "OPENSSL_LH_retrieve lh d = Ret (r, lh\<lparr>h_error := 0\<rparr>)" "lh_find lh d r"
    using retrieve_spec [OF wf, of d] by blast
  have "x \<in> lh_set lh \<and> lh_comp lh x d = 0 \<longleftrightarrow> lh_find lh d (Some x)" by (simp add: lh_find_def)
  then show ?case using r lh_find_unique [OF wf r(2), of "Some x"] by (auto simp: lh_get_def)
next
  case (5 lh d lh')
  then obtain r lh'' where r: "OPENSSL_LH_insert mem lh d = Ret (r, lh'')" "lh_wf lh''" "lh_hash lh'' = lh_hash lh" "lh_comp lh'' = lh_comp lh"
    "h_error lh'' = 0 \<longrightarrow> lh_set lh'' = insert d (lh_set lh - same_key lh d)" using insert_spec [of lh mem d] by meson
  then have "lh'' = lh'" "h_error lh'' = 0"
    using 5(3) by (simp_all add: lh_put_def OPENSSL_LH_error_def split: if_splits)
  then show ?case using 5 r lh_callbacks_frame [of lh'' lh] by simp
next
  case (6 lh d)
  then obtain r lh' where r: "OPENSSL_LH_delete mem lh d = Ret (r, lh')" "lh_wf lh'" "lh_hash lh' = lh_hash lh" "lh_comp lh' = lh_comp lh"
    "lh_set lh' = lh_set lh - same_key lh d" using delete_spec [of lh mem d] by blast
  then show ?case using 6 lh_callbacks_frame [of lh' lh] by (simp add: lh_del_def)
qed

section \<open>Properties\<close>

text \<open>
  C34: inserting into a well-formed table returns, never leaves the array, and keeps the table well
  formed: every element stays in the chain a lookup searches, across the splitting of chains. Without an
  error the result is the element that had the same key, if any, and the table holds the new
  element in its place; with one nothing changed. With memory granted there is no error.
\<close>

theorem lh_insert_refines:
  assumes "lh_wf lh" and "lh_callbacks_ok lh" and "h_pmax lh < 2 ^ 29"
  shows "\<exists>r lh'. OPENSSL_LH_insert mem lh d = Ret (r, lh') \<and> lh_wf lh'
    \<and> (OPENSSL_LH_error lh' = 0 \<longrightarrow> lh_find lh d r \<and> lh_set lh' = insert d (lh_set lh - same_key lh d))
    \<and> (OPENSSL_LH_error lh' \<noteq> 0 \<longrightarrow> r = None \<and> lh_set lh' = lh_set lh)
    \<and> ((\<forall>k. mem k) \<longrightarrow> OPENSSL_LH_error lh' = 0)"
  using insert_spec [of lh mem d] assms by (auto simp: lh_small_def OPENSSL_LH_error_def)

theorem lh_insert_refines_witness:
  "\<exists>r lh'. OPENSSL_LH_insert (\<lambda>_. True)
       (the (OPENSSL_LH_new (\<lambda>_. True) id (\<lambda>x y. int x - int y) (Some (\<lambda>x. x mod 10)) None)) (7::nat) = Ret (r, lh')
     \<and> r = None \<and> lh_set lh' = {7}"
proof -
  let ?lh = "the (OPENSSL_LH_new (\<lambda>_. True) id (\<lambda>x y. int x - int y) (Some (\<lambda>x. x mod 10)) None)"
  have "OPENSSL_LH_new (\<lambda>_. True) id (\<lambda>x y. int x - int y) (Some (\<lambda>x. x mod 10)) None = Some ?lh"
    by (simp add: OPENSSL_LH_new_def)
  from new_spec [OF this] have n: "lh_wf ?lh" "lh_set ?lh = {}" "h_pmax ?lh < 2 ^ 29" by (simp_all add: lh_small_def)
  have "lh_callbacks_ok ?lh" by (auto simp: lh_callbacks_ok_def lh_comp_def lh_hash_def OPENSSL_LH_new_def)
  from lh_insert_refines [OF n(1) this n(3), of "\<lambda>_. True" 7] n(2) show ?thesis
    by (auto simp: lh_find_def split: option.splits)
qed

text \<open>
  Deleting from a well-formed table returns the element with that key, if any, and removes
  exactly it; the table stays well formed across the merging of chains, also when the array cannot
  be shrunk.
\<close>

theorem lh_delete_refines:
  assumes "lh_wf lh" and "lh_callbacks_ok lh" and "h_pmax lh < 2 ^ 29"
  shows "\<exists>r lh'. OPENSSL_LH_delete mem lh d = Ret (r, lh') \<and> lh_wf lh' \<and> lh_find lh d r
    \<and> lh_set lh' = lh_set lh - same_key lh d"
  using delete_spec [of lh mem d] assms by (auto simp: lh_small_def)

theorem lh_delete_refines_witness:
  "\<exists>r lh'. OPENSSL_LH_delete (\<lambda>_. False)
       (the (lh_put (\<lambda>_. True) (the (OPENSSL_LH_new (\<lambda>_. True) id (\<lambda>x y. int x - int y) None None)) (7::nat))) 7 = Ret (r, lh')
     \<and> r = Some 7 \<and> lh_set lh' = {}"
proof -
  let ?fresh = "the (OPENSSL_LH_new (\<lambda>_. True) id (\<lambda>x y. int x - int y) None None) :: nat LHASH"
  have "OPENSSL_LH_new (\<lambda>_. True) id (\<lambda>x y. int x - int y) None None = Some ?fresh" by (simp add: OPENSSL_LH_new_def)
  from new_spec [OF this] have n: "lh_wf ?fresh" "lh_set ?fresh = {}" "lh_small ?fresh" by simp_all
  have cb0: "lh_callbacks_ok ?fresh" by (auto simp: lh_callbacks_ok_def lh_comp_def lh_hash_def OPENSSL_LH_new_def)
  let ?lh = "?fresh\<lparr>h_b := (h_b ?fresh)[7 := [\<lparr>n_data = 7, n_hash = 7\<rparr>]], h_num_items := 1\<rparr>"
  have p: "lh_put (\<lambda>_. True) ?fresh 7 = Some ?lh"
    by (simp add: lh_put_def OPENSSL_LH_insert_def OPENSSL_LH_new_def getrn_def lh_hash_def lh_comp_def lh_slot_def OPENSSL_LH_error_def Let_def)
  have l: "lh_wf ?lh \<and> lh_callbacks_ok ?lh" "lh_set ?lh = {7}"
    using lh.put_law [OF conjI [OF n(1) cb0] n(3) p] n(2) by auto
  have "h_pmax ?lh < 2 ^ 29" using n(3) by (simp add: lh_small_def)
  from lh_delete_refines [OF conjunct1 [OF l(1)] conjunct2 [OF l(1)] this, of "\<lambda>_. False" 7] l show ?thesis
    unfolding p using lh_callbacksD(1) [OF conjunct2 [OF l(1)], of 7] by (auto simp: lh_find_def split: option.splits)
qed

text \<open>
  Lookups after updates. After a successful insertion of \<open>d\<close> a lookup of any \<open>d'\<close> gives \<open>d\<close> when
  the keys are equal and what it gave before otherwise; after a deletion it gives nothing, or what
  it gave before.
\<close>

theorem lh_retrieve_after_update:
  assumes "lh_wf lh" and "lh_callbacks_ok lh" and "h_pmax lh < 2 ^ 29"
  shows "(lh_put mem lh d = Some lh' \<longrightarrow> lh_get lh' d' = (if lh_comp lh d d' = 0 then Some d else lh_get lh d'))
    \<and> lh_get (lh_del mem lh d) d' = (if lh_comp lh d d' = 0 then None else lh_get lh d')"
  using lh.get_put [of lh mem d lh' d'] lh.get_del [of lh mem d d'] assms by (simp_all add: lh_small_def)

theorem lh_retrieve_after_update_witness:
  "lh_get (lh_del (\<lambda>_. True) (the (OPENSSL_LH_new (\<lambda>_. True) id (\<lambda>x y. int x - int y) None None)) (3::nat)) 3 = None"
proof -
  let ?lh = "the (OPENSSL_LH_new (\<lambda>_. True) id (\<lambda>x y. int x - int y) None None) :: nat LHASH"
  have "OPENSSL_LH_new (\<lambda>_. True) id (\<lambda>x y. int x - int y) None None = Some ?lh" by (simp add: OPENSSL_LH_new_def)
  from new_spec [OF this] have n: "lh_wf ?lh" "h_pmax ?lh < 2 ^ 29" by (simp_all add: lh_small_def)
  have "lh_callbacks_ok ?lh" by (auto simp: lh_callbacks_ok_def lh_comp_def lh_hash_def OPENSSL_LH_new_def)
  from lh_retrieve_after_update [OF n(1) this n(2), of "\<lambda>_. True" 3 _ 3] lh_callbacksD(1) [OF this] show ?thesis by simp
qed

text \<open>
  Shrinking a table of \<open>2 ^ 29\<close> or more primary chains asks for an array of 0 bytes, because the
  size is cast to 32 bits: the array is freed and then accessed.
\<close>

theorem contract_frees_array:
  assumes "h_p lh = 0" and "h_pmax lh = 2 ^ (29 + k)" and "h_pmax lh \<le> length (h_b lh)"
  shows "contract mem lh = Undef"
proof -
  have "(8 * h_pmax lh) mod 4294967296 = 0" using assms(2) by (simp add: power_add mod_mult_self1_is_0)
  moreover have "h_p lh + h_pmax lh - 1 < length (h_b lh)"
    using assms by (metis add_0 diff_less less_le_trans zero_less_numeral zero_less_one zero_less_power)
  ultimately show ?thesis using assms(1) by (simp add: contract_def Let_def)
qed

theorem contract_frees_array_witness:
  "contract (\<lambda>_. True) ((the (OPENSSL_LH_new (\<lambda>_. True) id (\<lambda>x y. int x - int y) None None))
     \<lparr>h_b := replicate (2 ^ 30) [], h_pmax := 2 ^ 29, h_num_alloc_nodes := 2 ^ 30, h_num_nodes := 2 ^ 29\<rparr>) = (Undef :: nat LHASH outcome)"
  by (rule contract_frees_array [of _ 0]) (simp_all add: OPENSSL_LH_new_def)

text \<open>
  The case-insensitive hash is the plain one of the string with bit 5 of every character cleared.\<close>

theorem strcasehash_ignores_case:
  "ossl_lh_strcasehash (Some cs) = OPENSSL_LH_strhash (Some (map (\<lambda>c. c AND NOT 0x20) cs))"
proof -
  have c: "scast (c AND NOT 0x20 :: byte) = ((NOT 0x20) AND scast c :: ulong)" for c
  proof (rule bit_word_eqI)
    fix n assume n: "n < LENGTH(64)"
    have b: "bit (0x20 :: byte) m \<longleftrightarrow> m = 5" "bit (0x20 :: ulong) m \<longleftrightarrow> m = 5" for m
      using bit_exp_iff [of 5 m, where ?'a = byte] bit_exp_iff [of 5 m, where ?'a = ulong] by auto
    have nb: "bit (- 33 :: byte) m \<longleftrightarrow> m < 8 \<and> m \<noteq> 5" "bit (- 33 :: ulong) m \<longleftrightarrow> m < 64 \<and> m \<noteq> 5" for m
      using bit_not_iff [of "0x20 :: byte" m] bit_not_iff [of "0x20 :: ulong" m] b [of m] by auto
    show "bit (scast (c AND NOT 0x20 :: byte) :: ulong) n = bit ((NOT 0x20) AND scast c :: ulong) n"
      using n nb [of n] nb [of 7] by (cases "n \<le> 7") (auto simp: bit_and_iff bit_signed_iff min_def)
  qed
  have "strcasehash_loop ret n cs = strhash_loop ret n (map (\<lambda>c. c AND NOT 0x20) cs)" for ret n
    by (induction cs arbitrary: ret n) (simp_all add: c [simplified])
  then show ?thesis by (simp add: ossl_lh_strcasehash_def OPENSSL_LH_strhash_def)
qed

end
