(* ===== verification/PQueue.thy ===== *)
theory PQueue
  imports Prelude
begin

text \<open>
  The priority queue of \<open>ssl/pqueue.c\<close>, in which DTLS keeps handshake fragments and records that
  arrived out of order. The linked list is the list of its items from the head on; a priority is
  eight bytes in network order, compared with \<open>memcmp\<close>. An item carries the chain its \<open>next\<close> pointer
  leads to, because inserting into an empty queue leaves that pointer as it is.

  The lemmas show that the list stays strictly sorted by the number the priority encodes, so that
  the queue refines a finite map from numbers to items whose least entry is at the head.
\<close>

record 'd pitem =
  i_priority :: "byte list"
  i_data :: 'd

type_synonym 'd pqueue = "'d pitem list"

text \<open>\<open>memcmp\<close> on blocks of equal length: the difference of the first bytes that differ.\<close>

fun memcmp :: "byte list \<Rightarrow> byte list \<Rightarrow> int" where
  "memcmp (a # as) (b # bs) = (if a = b then memcmp as bs else int (unat a) - int (unat b))"
| "memcmp as bs = 0"

definition pitem_new :: "bool \<Rightarrow> byte list \<Rightarrow> 'd \<Rightarrow> 'd pitem option" where
  "pitem_new mem prio64be data =
     (if \<not> mem then None else Some \<lparr>i_priority = take 8 prio64be, i_data = data\<rparr>)"

definition pqueue_new :: "bool \<Rightarrow> 'd pqueue option" where
  "pqueue_new mem = (if mem then Some [] else None)"

text \<open>The loop of \<open>pqueue_insert\<close>; the flag tells whether the item was inserted.\<close>

fun insert_loop :: "'d pitem \<Rightarrow> 'd pqueue \<Rightarrow> bool \<times> 'd pqueue" where
  "insert_loop item [] = (True, [item])"
| "insert_loop item (next # rest) =
     (let cmp = memcmp (i_priority next) (i_priority item) in
      if cmp > 0 then (True, item # next # rest)
      else if cmp = 0 then (False, next # rest)
      else let (ok, rest') = insert_loop item rest in (ok, next # rest'))"

definition pqueue_insert :: "'d pqueue \<Rightarrow> 'd pitem \<Rightarrow> 'd pqueue \<Rightarrow> 'd pitem option \<times> 'd pqueue" where
  "pqueue_insert pq item item_next =
     (if pq = [] then (Some item, item # item_next)
      else let (ok, pq') = insert_loop item pq in (if ok then Some item else None, pq'))"

definition pqueue_peek :: "'d pqueue \<Rightarrow> 'd pitem option" where
  "pqueue_peek pq = (case pq of [] \<Rightarrow> None | item # _ \<Rightarrow> Some item)"

definition pqueue_pop :: "'d pqueue \<Rightarrow> 'd pitem option \<times> 'd pqueue" where
  "pqueue_pop pq = (case pq of [] \<Rightarrow> (None, []) | item # rest \<Rightarrow> (Some item, rest))"

fun find_loop :: "'d pqueue \<Rightarrow> byte list \<Rightarrow> 'd pitem option" where
  "find_loop [] prio = None"
| "find_loop [next] prio = (if memcmp (i_priority next) prio = 0 then Some next else None)"
| "find_loop (next # rest) prio = (if memcmp (i_priority next) prio = 0 then Some next else find_loop rest prio)"

definition pqueue_find :: "'d pqueue \<Rightarrow> byte list \<Rightarrow> 'd pitem option" where
  "pqueue_find pq prio64be = (if pq = [] then None else find_loop pq prio64be)"

definition pqueue_iterator :: "'d pqueue \<Rightarrow> 'd pqueue" where
  "pqueue_iterator pq = pq"

definition pqueue_next :: "'d pqueue \<Rightarrow> 'd pitem option \<times> 'd pqueue" where
  "pqueue_next item = (case item of [] \<Rightarrow> (None, []) | i # rest \<Rightarrow> (Some i, rest))"

fun pqueue_size :: "'d pqueue \<Rightarrow> nat" where
  "pqueue_size [] = 0"
| "pqueue_size (item # rest) = pqueue_size rest + 1"

section \<open>Order\<close>

lemma memcmp_be_value:
  "length as = length bs \<Longrightarrow> (memcmp as bs < 0 \<longleftrightarrow> be_value as < be_value bs)
     \<and> (memcmp as bs = 0 \<longleftrightarrow> be_value as = be_value bs)"
proof (induction as bs rule: memcmp.induct)
  case (1 a as b bs)
  show ?case
  proof (cases "a = b")
    case True
    then show ?thesis using 1 by (simp add: be_value_Cons)
  next
    case False
    let ?w = "(256 :: nat) ^ length as"
    have lens: "length bs = length as" using 1(2) by simp
    have ne: "unat a \<noteq> unat b" using False by (simp add: unsigned_word_eqI word_unat_eq_iff)
    have bnd: "be_value as < ?w" "be_value bs < ?w" using be_value_bound [of as] be_value_bound [of bs] lens by simp_all
    have key: "x * ?w + u < y * ?w + v" if "x < y" "u < ?w" for x y u v :: nat
    proof -
      have "(x + 1) * ?w \<le> y * ?w" using that(1) by (intro mult_right_mono) simp_all
      then show ?thesis using that(2) by simp
    qed
    from ne consider "unat a < unat b" | "unat b < unat a" by linarith
    then show ?thesis
    proof cases
      case 1
      then have "uint a < uint b" by (simp only: uint_nat of_nat_less_iff)
      then show ?thesis using key [OF 1 bnd(1), of "be_value bs"] False lens by (simp add: be_value_Cons)
    next
      case 2
      then have "uint b < uint a" by (simp only: uint_nat of_nat_less_iff)
      then show ?thesis using key [OF 2 bnd(2), of "be_value as"] False lens by (simp add: be_value_Cons)
    qed
  qed
qed auto

definition prio :: "'d pitem \<Rightarrow> nat" where
  "prio item = be_value (i_priority item)"

definition item_wf :: "'d pitem \<Rightarrow> bool" where
  "item_wf item \<longleftrightarrow> length (i_priority item) = 8"

definition pq_wf :: "'d pqueue \<Rightarrow> bool" where
  "pq_wf pq \<longleftrightarrow> (\<forall>i \<in> set pq. item_wf i) \<and> sorted_wrt (\<lambda>i j. prio i < prio j) pq"

text \<open>The map a queue stands for.\<close>

definition pq_map :: "'d pqueue \<Rightarrow> nat \<Rightarrow> 'd pitem option" where
  "pq_map pq = map_of (map (\<lambda>i. (prio i, i)) pq)"

lemma pq_map_simps [simp]:
  "pq_map [] = Map.empty" "pq_map (i # pq) = (pq_map pq)(prio i \<mapsto> i)"
  by (simp_all add: pq_map_def)

lemma pq_map_None: "k \<notin> prio ` set pq \<Longrightarrow> pq_map pq k = None"
  by (induction pq) auto

lemma dom_pq_map: "dom (pq_map pq) = prio ` set pq"
  by (simp add: pq_map_def dom_map_of_conv_image_fst image_image)

lemma memcmp_prio:
  "item_wf i \<Longrightarrow> length bs = 8 \<Longrightarrow>
     (memcmp (i_priority i) bs < 0 \<longleftrightarrow> prio i < be_value bs) \<and> (memcmp (i_priority i) bs = 0 \<longleftrightarrow> prio i = be_value bs)"
  using memcmp_be_value [of "i_priority i" bs] by (simp add: item_wf_def prio_def)

lemma insert_loop_spec:
  assumes "pq_wf pq" and "item_wf item" and "insert_loop item pq = (ok, pq')"
  shows "ok \<longleftrightarrow> prio item \<notin> dom (pq_map pq)" and "\<not> ok \<Longrightarrow> pq' = pq"
    and "ok \<Longrightarrow> pq_wf pq' \<and> set pq' = insert item (set pq) \<and> pq_map pq' = (pq_map pq)(prio item \<mapsto> item)"
proof -
  have "(ok \<longleftrightarrow> prio item \<notin> prio ` set pq) \<and> (\<not> ok \<longrightarrow> pq' = pq)
    \<and> (ok \<longrightarrow> pq_wf pq' \<and> set pq' = insert item (set pq) \<and> pq_map pq' = (pq_map pq)(prio item \<mapsto> item))"
    using assms
  proof (induction pq arbitrary: ok pq')
    case (Cons x xs)
    have wfx: "item_wf x" "pq_wf xs" "\<forall>y \<in> set xs. prio x < prio y" using Cons.prems(1) by (auto simp: pq_wf_def)
    have m: "memcmp (i_priority x) (i_priority item) < 0 \<longleftrightarrow> prio x < prio item"
      "memcmp (i_priority x) (i_priority item) = 0 \<longleftrightarrow> prio x = prio item"
      using memcmp_prio [OF wfx(1), of "i_priority item"] Cons.prems(2) by (auto simp: item_wf_def prio_def)
    consider (gt) "memcmp (i_priority x) (i_priority item) > 0" | (eq) "memcmp (i_priority x) (i_priority item) = 0"
      | (lt) "memcmp (i_priority x) (i_priority item) < 0" by linarith
    then show ?case
    proof cases
      case gt
      then have "prio item < prio x" using m by linarith
      then have "\<forall>y \<in> set xs. prio item < prio y" using wfx(3) by fastforce
      then show ?thesis using gt \<open>prio item < prio x\<close> Cons.prems wfx m by (auto simp: pq_wf_def)
    next
      case eq
      then show ?thesis using Cons.prems m by auto
    next
      case lt
      obtain ok1 r where r: "insert_loop item xs = (ok1, r)" by fastforce
      have res: "ok = ok1" "pq' = x # r" using Cons.prems(3) lt r by (auto simp: Let_def)
      show ?thesis
        using Cons.IH [OF wfx(2) Cons.prems(2) r] res wfx m lt by (auto simp: pq_wf_def fun_upd_twist)
    qed
  qed (auto simp: pq_wf_def)
  then show "ok \<longleftrightarrow> prio item \<notin> dom (pq_map pq)" "\<not> ok \<Longrightarrow> pq' = pq"
    "ok \<Longrightarrow> pq_wf pq' \<and> set pq' = insert item (set pq) \<and> pq_map pq' = (pq_map pq)(prio item \<mapsto> item)"
    by (auto simp: dom_pq_map)
qed

lemma find_loop_map:
  "pq_wf pq \<Longrightarrow> length bs = 8 \<Longrightarrow> find_loop pq bs = pq_map pq (be_value bs)"
proof (induction pq bs rule: find_loop.induct)
  case (2 x bs)
  then show ?case using memcmp_prio [of x bs] by (auto simp: pq_wf_def)
next
  case (3 x y ys bs)
  have "pq_wf (y # ys)" using 3(2) by (simp add: pq_wf_def)
  then show ?case using 3 memcmp_prio [of x bs] by (auto simp: pq_wf_def)
qed simp

section \<open>Interface: a queue ordered by priority\<close>

text \<open>What the reordering code relies on, and that draining delivers in ascending order.\<close>

locale ordered_queue =
  fixes wf :: "'q \<Rightarrow> bool"
    and content :: "'q \<Rightarrow> nat \<Rightarrow> 'a option"
    and pop :: "'q \<Rightarrow> 'a option \<times> 'q"
    and rank :: "'a \<Rightarrow> nat"
    and len :: "'q \<Rightarrow> nat"
  assumes pop_empty: "wf q \<Longrightarrow> content q = Map.empty \<longleftrightarrow> pop q = (None, q)"
    and pop_some: "wf q \<Longrightarrow> pop q = (Some x, q') \<Longrightarrow>
      wf q' \<and> content q (rank x) = Some x \<and> content q' = (content q)(rank x := None)
      \<and> (\<forall>k. content q k \<noteq> None \<longrightarrow> rank x \<le> k) \<and> len q = Suc (len q')"
    and pop_none: "wf q \<Longrightarrow> pop q = (None, q') \<Longrightarrow> q' = q"
begin

fun drain :: "nat \<Rightarrow> 'q \<Rightarrow> 'a list" where
  "drain 0 q = []"
| "drain (Suc n) q = (case pop q of (Some x, q') \<Rightarrow> x # drain n q' | (None, q') \<Rightarrow> [])"

lemma drain_in_order:
  assumes "wf q" and "len q \<le> n"
  shows "sorted_wrt (\<lambda>x y. rank x < rank y) (drain n q)" and "x \<in> set (drain n q) \<longleftrightarrow> content q (rank x) = Some x"
proof -
  have "sorted_wrt (\<lambda>x y. rank x < rank y) (drain n q) \<and> (\<forall>x. x \<in> set (drain n q) \<longleftrightarrow> content q (rank x) = Some x)"
    using assms
  proof (induction n arbitrary: q)
    case 0
    have "pop q = (None, q)"
      using pop_some [OF 0(1)] pop_none [OF 0(1)] 0(2) by (cases "pop q"; cases "fst (pop q)") auto
    then show ?case using pop_empty [OF 0(1)] by simp
  next
    case (Suc n)
    show ?case
    proof (cases "fst (pop q)")
      case None
      then have "pop q = (None, q)" using pop_none [OF Suc.prems(1)] by (cases "pop q") auto
      then show ?thesis using pop_empty [OF Suc.prems(1)] by simp
    next
      case (Some y)
      then obtain q' where p: "pop q = (Some y, q')" by (cases "pop q") auto
      note s = pop_some [OF Suc.prems(1) p]
      have ih: "sorted_wrt (\<lambda>x y. rank x < rank y) (drain n q')" "\<And>x. x \<in> set (drain n q') \<longleftrightarrow> content q' (rank x) = Some x"
        using Suc.IH [of q'] s Suc.prems(2) by auto
      have "rank y < rank x" if "x \<in> set (drain n q')" for x
        using that ih(2) [of x] s by (auto split: if_splits simp: le_neq_implies_less)
      moreover have "x \<in> set (y # drain n q') \<longleftrightarrow> content q (rank x) = Some x" for x
        using ih(2) [of x] s by (auto split: if_splits)
      ultimately show ?thesis using ih(1) p by auto
    qed
  qed
  then show "sorted_wrt (\<lambda>x y. rank x < rank y) (drain n q)" "x \<in> set (drain n q) \<longleftrightarrow> content q (rank x) = Some x" by auto
qed

end

interpretation pq: ordered_queue pq_wf pq_map pqueue_pop prio pqueue_size
proof (unfold_locales, goal_cases)
  case (1 q)
  then show ?case by (cases q) (auto simp: pqueue_pop_def)
next
  case (2 q x q')
  then obtain rest where q: "q = x # rest" "q' = rest" by (cases q) (auto simp: pqueue_pop_def)
  have "prio x \<notin> prio ` set rest" using 2 q by (auto simp: pq_wf_def)
  moreover have "prio x \<le> k" if "pq_map q k \<noteq> None" for k
  proof -
    have "k \<in> prio ` set q" using that dom_pq_map [of q] by auto
    then show ?thesis using 2 q by (auto simp: pq_wf_def)
  qed
  ultimately show ?case using 2 q pq_map_None [of "prio x" rest] by (auto simp: pq_wf_def)
next
  case (3 q q')
  then show ?case by (cases q) (auto simp: pqueue_pop_def)
qed

section \<open>Properties\<close>

text \<open>
  Inserting a fresh item keeps the queue strictly sorted; it is refused exactly when an item of
  the same priority is queued, which then stays, and otherwise the queue maps its priority to it.
\<close>

theorem pqueue_insert_refines:
  assumes "pq_wf pq" and "item_wf item"
  shows "case pqueue_insert pq item [] of (r, pq') \<Rightarrow>
    pq_wf pq' \<and> (r = None \<longleftrightarrow> prio item \<in> dom (pq_map pq)) \<and> (r \<noteq> None \<longrightarrow> r = Some item)
    \<and> pq_map pq' = (if prio item \<in> dom (pq_map pq) then pq_map pq else (pq_map pq)(prio item \<mapsto> item))"
proof (cases "pq = []")
  case True
  then show ?thesis using assms by (simp add: pqueue_insert_def pq_wf_def)
next
  case False
  obtain ok pq' where r: "insert_loop item pq = (ok, pq')" by fastforce
  show ?thesis
    using insert_loop_spec [OF assms r] False r assms(1) by (cases ok) (auto simp: pqueue_insert_def)
qed

theorem pqueue_insert_refines_witness:
  "case pqueue_insert [\<lparr>i_priority = [0,0,0,0,0,0,0,5], i_data = ''b''\<rparr>] \<lparr>i_priority = [0,0,0,0,0,0,0,2], i_data = ''a''\<rparr> [] of (r, pq') \<Rightarrow>
    pq_wf pq' \<and> r \<noteq> None"
  using pqueue_insert_refines [of "[\<lparr>i_priority = [0,0,0,0,0,0,0,5], i_data = ''b''\<rparr>]" "\<lparr>i_priority = [0,0,0,0,0,0,0,2], i_data = ''a''\<rparr>"]
  by (auto simp: pq_wf_def item_wf_def prio_def be_value_def)

text \<open>
  Taking items off the queue until it is empty delivers every queued item once, in strictly
  ascending order of priority.
\<close>

theorem pqueue_drains_in_order:
  assumes "pq_wf pq"
  shows "sorted_wrt (\<lambda>x y. prio x < prio y) (pq.drain (pqueue_size pq) pq)
    \<and> set (pq.drain (pqueue_size pq) pq) = {x. pq_map pq (prio x) = Some x}"
  using pq.drain_in_order [OF assms order_refl] by auto

theorem pqueue_drains_in_order_witness:
  "sorted_wrt (\<lambda>x y. prio x < prio y)
     (pq.drain (pqueue_size [\<lparr>i_priority = [0,0,0,0,0,0,1,0], i_data = True\<rparr>]) [\<lparr>i_priority = [0,0,0,0,0,0,1,0], i_data = True\<rparr>])"
  using pqueue_drains_in_order [of "[\<lparr>i_priority = [0,0,0,0,0,0,1,0], i_data = True\<rparr>]"]
  by (simp add: pq_wf_def item_wf_def)

text \<open>
  Searching a well-formed queue is looking its map up, although the loop stops before the last item.\<close>

theorem pqueue_find_is_lookup:
  assumes "pq_wf pq" and "length prio64be = 8"
  shows "pqueue_find pq prio64be = pq_map pq (be_value prio64be)"
  using find_loop_map [OF assms] by (simp add: pqueue_find_def)

theorem pqueue_find_is_lookup_witness:
  "pqueue_find [\<lparr>i_priority = [0,0,0,0,0,0,0,1], i_data = True\<rparr>, \<lparr>i_priority = [0,0,0,0,0,0,0,2], i_data = False\<rparr>] [0,0,0,0,0,0,0,2]
   = Some \<lparr>i_priority = [0,0,0,0,0,0,0,2], i_data = False\<rparr>"
  using pqueue_find_is_lookup [of "[\<lparr>i_priority = [0,0,0,0,0,0,0,1], i_data = True\<rparr>, \<lparr>i_priority = [0,0,0,0,0,0,0,2], i_data = False\<rparr>]" "[0,0,0,0,0,0,0,2]"]
  by (simp add: pq_wf_def item_wf_def prio_def be_value_def)

end
