(* ===== verification/DTLS_Record.thy ===== *)
theory DTLS_Record
  imports Packet PQueue
begin

text \<open>
  The reading side of the DTLS record layer, \<open>ssl/record/methods/dtls_meth.c\<close>: the replay window, the
  choice of the window by epoch, the buffering of records of the next epoch and the loop of
  \<open>dtls_get_more_records\<close> that drops everything else.

  The transport is reached through the function pointer \<open>funcs->read_n\<close> and the cipher and MAC
  through other pointers of that table; they are parameters. A pass of the loop consumes one event:
  what \<open>read_n\<close> answered when asked for a header and for a body. The argument \<open>decode\<close> is the verdict
  of the cryptographic part of \<open>dtls_process_record\<close>. When no event is left \<open>read_n\<close> asks to retry.

  The lemmas show that the window is exactly a record of the sequence numbers received, so no record is
  delivered twice whatever the order of arrival, and every record inside the window is delivered
  once.
\<close>

section \<open>The replay window\<close>

record DTLS_BITMAP =
  bm_map :: ulong
  bm_max_seq_num :: "byte list"

definition n2l8 :: "byte list \<Rightarrow> ulong" where
  "n2l8 c =
     (((((((push_bit 56 (ucast (c ! 0)) OR push_bit 48 (ucast (c ! 1))) OR push_bit 40 (ucast (c ! 2)))
       OR push_bit 32 (ucast (c ! 3))) OR push_bit 24 (ucast (c ! 4))) OR push_bit 16 (ucast (c ! 5)))
       OR push_bit 8 (ucast (c ! 6))) OR ucast (c ! 7))"

definition satsub64be :: "byte list \<Rightarrow> byte list \<Rightarrow> int" where
  "satsub64be v1 v2 =
     (let l1 = n2l8 v1; l2 = n2l8 v2; ret = sint (l1 - l2) in
      if l1 > l2 \<and> ret < 0 then 128
      else if l2 > l1 \<and> ret > 0 then -128
      else if ret > 128 then 128
      else if ret < -128 then -128
      else ret)"

definition dtls_record_bitmap_update :: "byte list \<Rightarrow> DTLS_BITMAP \<Rightarrow> DTLS_BITMAP" where
  "dtls_record_bitmap_update seq bitmap =
     (let cmp = satsub64be seq (bm_max_seq_num bitmap) in
      if cmp > 0 then
        let shift = nat cmp in
        bitmap\<lparr>bm_map := (if shift < 64 then push_bit shift (bm_map bitmap) OR 1 else 1), bm_max_seq_num := seq\<rparr>
      else
        let shift = nat (- cmp) in
        if shift < 64 then bitmap\<lparr>bm_map := bm_map bitmap OR push_bit shift 1\<rparr> else bitmap)"

section \<open>The record layer\<close>

text \<open>
  \<open>rl_md_ctx\<close> is \<open>None\<close> without a MAC context, \<open>Some None\<close> for a context without a digest and else holds
  the size of the digest. \<open>rl_alert\<close> tells whether \<open>rl->alert\<close> differs from \<open>SSL_AD_NO_ALERT\<close>.
\<close>

record TLS_RL_RECORD =
  rr_type :: nat
  rr_rec_version :: nat
  rr_epoch :: nat
  rr_length :: nat
  rr_orig_len :: nat
  rr_off :: nat
  rr_data :: "byte list"
  rr_seq_num :: "byte list"

record DTLS_RLAYER_RECORD_DATA =
  rd_packet :: "byte list"
  rd_rrec :: TLS_RL_RECORD

record OSSL_RECORD_LAYER =
  rl_version :: nat
  rl_epoch :: nat
  rl_sequence :: "byte list"
  rl_bitmap :: DTLS_BITMAP
  rl_next_bitmap :: DTLS_BITMAP
  rl_is_first_record :: bool
  rl_in_init :: bool
  rl_max_frag_len :: nat
  rl_unprocessed_rcds :: "DTLS_RLAYER_RECORD_DATA pqueue"
  rl_processed_rcds :: "DTLS_RLAYER_RECORD_DATA pqueue"
  rl_packet :: "byte list"
  rl_rrec :: TLS_RL_RECORD
  rl_alert :: bool
  rl_num_recs :: nat
  rl_use_etm :: bool
  rl_enc_ctx :: bool
  rl_md_ctx :: "int option option"
  rl_compctx :: bool

abbreviation (input) DTLS1_RT_HEADER_LENGTH :: nat where "DTLS1_RT_HEADER_LENGTH \<equiv> 13"
abbreviation (input) SSL3_RT_MAX_ENCRYPTED_OVERHEAD :: nat where "SSL3_RT_MAX_ENCRYPTED_OVERHEAD \<equiv> 320"
abbreviation (input) SSL3_RT_MAX_COMPRESSED_LENGTH :: nat where "SSL3_RT_MAX_COMPRESSED_LENGTH \<equiv> 17408"
abbreviation (input) SSL3_RT_MAX_ENCRYPTED_LENGTH :: nat where "SSL3_RT_MAX_ENCRYPTED_LENGTH \<equiv> 17728"
abbreviation (input) EVP_MAX_MD_SIZE :: int where "EVP_MAX_MD_SIZE \<equiv> 64"
abbreviation (input) DTLS_ANY_VERSION :: nat where "DTLS_ANY_VERSION \<equiv> 0x1FFFF"
abbreviation (input) SSL3_RT_ALERT :: nat where "SSL3_RT_ALERT \<equiv> 21"
abbreviation (input) RETURN_SUCCESS :: int where "RETURN_SUCCESS \<equiv> 1"
abbreviation (input) RETURN_RETRY :: int where "RETURN_RETRY \<equiv> 0"
abbreviation (input) RETURN_FATAL :: int where "RETURN_FATAL \<equiv> -2"

abbreviation RLAYERfatal :: "OSSL_RECORD_LAYER \<Rightarrow> OSSL_RECORD_LAYER" where
  "RLAYERfatal rl \<equiv> rl\<lparr>rl_alert := True\<rparr>"

text \<open>
  \<open>rr->length = 0; rl->packet_length = 0;\<close>, the way the code drops a record everywhere; and the same
  without touching the length.
\<close>

definition drop_packet :: "OSSL_RECORD_LAYER \<Rightarrow> OSSL_RECORD_LAYER" where
  "drop_packet rl = rl\<lparr>rl_packet := []\<rparr>"

definition drop_record :: "OSSL_RECORD_LAYER \<Rightarrow> OSSL_RECORD_LAYER" where
  "drop_record rl = rl\<lparr>rl_packet := [], rl_rrec := (rl_rrec rl)\<lparr>rr_length := 0\<rparr>\<rparr>"

definition dtls_record_replay_check :: "OSSL_RECORD_LAYER \<Rightarrow> DTLS_BITMAP \<Rightarrow> bool \<times> OSSL_RECORD_LAYER" where
  "dtls_record_replay_check rl bitmap =
     (let seq = rl_sequence rl; cmp = satsub64be seq (bm_max_seq_num bitmap);
          rl' = rl\<lparr>rl_rrec := (rl_rrec rl)\<lparr>rr_seq_num := seq\<rparr>\<rparr>
      in
      if cmp > 0 then (True, rl')
      else let shift = nat (- cmp) in
        if shift \<ge> 64 then (False, rl)
        else if bm_map bitmap AND push_bit shift 1 \<noteq> 0 then (False, rl)
        else (True, rl'))"

datatype which_bitmap = Current | Next

definition dtls_get_bitmap :: "OSSL_RECORD_LAYER \<Rightarrow> TLS_RL_RECORD \<Rightarrow> which_bitmap option" where
  "dtls_get_bitmap rl rr =
     (if rr_epoch rr = rl_epoch rl then Some Current
      else if rr_epoch rr = rl_epoch rl + 1 then Some Next
      else None)"

definition the_bitmap :: "OSSL_RECORD_LAYER \<Rightarrow> which_bitmap \<Rightarrow> DTLS_BITMAP" where
  "the_bitmap rl w = (case w of Current \<Rightarrow> rl_bitmap rl | Next \<Rightarrow> rl_next_bitmap rl)"

definition dtls_set_in_init :: "OSSL_RECORD_LAYER \<Rightarrow> bool \<Rightarrow> OSSL_RECORD_LAYER" where
  "dtls_set_in_init rl in_init = rl\<lparr>rl_in_init := in_init\<rparr>"

text \<open>
  The function pointers of the record layer. \<open>f_mac\<close> is \<open>None\<close> when the MAC could not be computed;
  \<open>f_cipher\<close> yields \<open>enc_err\<close>, whether it raised an alert, the decrypted record and the MAC it
  stripped.
\<close>

record rl_funcs =
  f_mac :: "OSSL_RECORD_LAYER \<Rightarrow> TLS_RL_RECORD \<Rightarrow> byte list option"
  f_cipher :: "OSSL_RECORD_LAYER \<Rightarrow> TLS_RL_RECORD \<Rightarrow> nat \<Rightarrow> bool \<times> bool \<times> TLS_RL_RECORD \<times> byte list option"
  f_uncompress :: "TLS_RL_RECORD \<Rightarrow> bool \<times> TLS_RL_RECORD"
  f_post_process :: "OSSL_RECORD_LAYER \<Rightarrow> TLS_RL_RECORD \<Rightarrow> bool"

text \<open>
  \<open>dtls_process_record\<close> in three stages: the encrypt-then-MAC check, decryption with the MAC check
  of the other mode, and the checks on the plaintext.
\<close>

definition etm_check :: "rl_funcs \<Rightarrow> OSSL_RECORD_LAYER \<Rightarrow> TLS_RL_RECORD \<Rightarrow> nat \<Rightarrow> bool \<times> TLS_RL_RECORD \<times> nat" where
  "etm_check fs rl rr mac_size =
     (if rl_use_etm rl \<and> rl_md_ctx rl \<noteq> None then
        if rr_orig_len rr < mac_size then (False, rr, mac_size)
        else
          let rr = rr\<lparr>rr_length := rr_length rr - mac_size\<rparr>;
              mac = take mac_size (drop (rr_length rr) (rr_data rr)) in
          case f_mac fs rl rr of
            None \<Rightarrow> (False, rr, mac_size)
          | Some md \<Rightarrow> if take mac_size md \<noteq> mac then (False, rr, mac_size) else (True, rr, 0)
      else (True, rr, mac_size))"

definition mte_ok :: "rl_funcs \<Rightarrow> OSSL_RECORD_LAYER \<Rightarrow> TLS_RL_RECORD \<Rightarrow> byte list option \<Rightarrow> nat \<Rightarrow> bool" where
  "mte_ok fs rl rr macbuf mac_size =
     (if \<not> rl_use_etm rl \<and> rl_enc_ctx rl \<and> rl_md_ctx rl \<noteq> None \<and> rl_md_ctx rl \<noteq> Some None then
        (case (f_mac fs rl rr, macbuf) of
           (Some md, Some mac) \<Rightarrow> take mac_size md = take mac_size mac
         | _ \<Rightarrow> False)
        \<and> rr_length rr \<le> SSL3_RT_MAX_COMPRESSED_LENGTH + mac_size
      else True)"

definition plain_checks :: "rl_funcs \<Rightarrow> OSSL_RECORD_LAYER \<Rightarrow> TLS_RL_RECORD \<Rightarrow> bool \<times> TLS_RL_RECORD" where
  "plain_checks fs rl rr =
     (case (if rl_compctx rl then
              if rr_length rr > SSL3_RT_MAX_COMPRESSED_LENGTH then (False, rr) else f_uncompress fs rr
            else (True, rr)) of
        (False, rr) \<Rightarrow> (False, rr)
      | (True, rr) \<Rightarrow> if rr_length rr > rl_max_frag_len rl then (False, rr) else (True, rr\<lparr>rr_off := 0\<rparr>))"

definition dtls_process_record :: "rl_funcs \<Rightarrow> OSSL_RECORD_LAYER \<Rightarrow> which_bitmap \<Rightarrow> bool \<times> OSSL_RECORD_LAYER" where
  "dtls_process_record fs rl w =
     (let rr = rl_rrec rl in
      if rr_length rr > SSL3_RT_MAX_ENCRYPTED_LENGTH then (False, RLAYERfatal rl)
      else
        let rr = rr\<lparr>rr_data := drop DTLS1_RT_HEADER_LENGTH (rl_packet rl), rr_orig_len := rr_length rr\<rparr>;
            imac_size = (case rl_md_ctx rl of Some (Some n) \<Rightarrow> n | _ \<Rightarrow> 0) in
        if \<not> (0 \<le> imac_size \<and> imac_size \<le> EVP_MAX_MD_SIZE) then (False, RLAYERfatal (rl\<lparr>rl_rrec := rr\<rparr>))
        else
          case etm_check fs rl rr (nat imac_size) of
            (False, rr, _) \<Rightarrow> (False, RLAYERfatal (rl\<lparr>rl_rrec := rr\<rparr>))
          | (True, rr, mac_size) \<Rightarrow>
              (case f_cipher fs rl rr mac_size of
                 (enc_err, alert, rr, macbuf) \<Rightarrow>
                   let rl = rl\<lparr>rl_rrec := rr, rl_alert := rl_alert rl \<or> alert\<rparr> in
                   if \<not> enc_err then if rl_alert rl then (False, rl) else (False, drop_record rl)
                   else if \<not> mte_ok fs rl rr macbuf mac_size then (False, drop_record rl)
                   else
                     case plain_checks fs rl rr of
                       (False, rr) \<Rightarrow> (False, RLAYERfatal (rl\<lparr>rl_rrec := rr\<rparr>))
                     | (True, rr) \<Rightarrow>
                         let rl = drop_packet (rl\<lparr>rl_rrec := rr\<rparr>) in
                         (True, case w of
                            Current \<Rightarrow> rl\<lparr>rl_bitmap := dtls_record_bitmap_update (rl_sequence rl) (rl_bitmap rl)\<rparr>
                          | Next \<Rightarrow> rl\<lparr>rl_next_bitmap := dtls_record_bitmap_update (rl_sequence rl) (rl_next_bitmap rl)\<rparr>)))"

text \<open>
  Buffering the packet in the queue of unprocessed records. The result is the C return value;
  \<open>mem\<close> covers the two allocations and \<open>setup\<close> the new read buffer.
\<close>

definition zero_rrec :: TLS_RL_RECORD where
  "zero_rrec = \<lparr>rr_type = 0, rr_rec_version = 0, rr_epoch = 0, rr_length = 0, rr_orig_len = 0, rr_off = 0,
     rr_data = [], rr_seq_num = replicate 8 0\<rparr>"

definition dtls_rlayer_buffer_record ::
    "OSSL_RECORD_LAYER \<Rightarrow> byte list \<Rightarrow> bool \<Rightarrow> bool \<Rightarrow> int \<times> OSSL_RECORD_LAYER" where
  "dtls_rlayer_buffer_record rl priority mem setup =
     (if pqueue_size (rl_unprocessed_rcds rl) \<ge> 100 then (0, rl)
      else case pitem_new mem priority \<lparr>rd_packet = rl_packet rl, rd_rrec = rl_rrec rl\<rparr> of
        None \<Rightarrow> (-1, RLAYERfatal rl)
      | Some item \<Rightarrow>
          let rl = rl\<lparr>rl_packet := [], rl_rrec := zero_rrec\<rparr> in
          if \<not> setup then (-1, RLAYERfatal rl)
          else (1, rl\<lparr>rl_unprocessed_rcds := snd (pqueue_insert (rl_unprocessed_rcds rl) item [])\<rparr>))"

definition dtls_copy_rlayer_record :: "OSSL_RECORD_LAYER \<Rightarrow> DTLS_RLAYER_RECORD_DATA pitem \<Rightarrow> OSSL_RECORD_LAYER" where
  "dtls_copy_rlayer_record rl item =
     rl\<lparr>rl_packet := rd_packet (i_data item), rl_rrec := rd_rrec (i_data item),
        rl_sequence := take 2 (rl_sequence rl) @ take 6 (drop 5 (rd_packet (i_data item)))\<rparr>"

definition dtls_retrieve_rlayer_buffered_record :: "OSSL_RECORD_LAYER \<Rightarrow> bool \<times> OSSL_RECORD_LAYER" where
  "dtls_retrieve_rlayer_buffered_record rl =
     (case pqueue_pop (rl_processed_rcds rl) of
        (None, q) \<Rightarrow> (False, rl)
      | (Some item, q) \<Rightarrow> (True, dtls_copy_rlayer_record (rl\<lparr>rl_processed_rcds := q\<rparr>) item))"

text \<open>
  The header part of \<open>dtls_get_more_records\<close>: the fields are put in the record and the sequence
  number in the record layer; the flag tells whether the record passes the checks on them.
\<close>

definition dtls_header :: "OSSL_RECORD_LAYER \<Rightarrow> byte list \<Rightarrow> bool \<times> OSSL_RECORD_LAYER" where
  "dtls_header rl p =
     (let type = unat (p ! 0); ssl_major = unat (p ! 1); ssl_minor = unat (p ! 2);
          rr = (rl_rrec rl)\<lparr>rr_type := type, rr_rec_version := ssl_major * 256 + ssl_minor,
            rr_epoch := unat (p ! 3) * 256 + unat (p ! 4), rr_length := unat (p ! 11) * 256 + unat (p ! 12)\<rparr>;
          rl = rl\<lparr>rl_packet := p, rl_rrec := rr, rl_sequence := take 2 (rl_sequence rl) @ take 6 (drop 5 p)\<rparr>
      in
      (\<not> (\<not> rl_is_first_record rl \<and> type \<noteq> SSL3_RT_ALERT \<and> rr_rec_version rr \<noteq> rl_version rl)
       \<and> ssl_major = (if rl_version rl = DTLS_ANY_VERSION then 0xFE else rl_version rl div 256)
       \<and> rr_length rr \<le> SSL3_RT_MAX_ENCRYPTED_LENGTH
       \<and> rr_length rr \<le> rl_max_frag_len rl + SSL3_RT_MAX_ENCRYPTED_OVERHEAD, rl))"

datatype pass = Again OSSL_RECORD_LAYER | Done int OSSL_RECORD_LAYER

text \<open>What one pass of the loop gets from \<open>read_n\<close> and from the allocator.\<close>

record rd_event =
  e_hdr_ret :: int
  e_hdr :: "byte list"
  e_body_ret :: int
  e_body :: "byte list"
  e_alert :: bool
  e_mem :: bool
  e_setup :: bool

text \<open>The second half of a pass: a complete packet is there and is matched against the epochs.\<close>

definition dtls_dispatch :: "rl_funcs \<Rightarrow> OSSL_RECORD_LAYER \<Rightarrow> rd_event \<Rightarrow> pass" where
  "dtls_dispatch fs rl ev =
     (case dtls_get_bitmap rl (rl_rrec rl) of
        None \<Rightarrow> Again (drop_record rl)
      | Some w \<Rightarrow>
          (case dtls_record_replay_check rl (the_bitmap rl w) of
             (False, rl) \<Rightarrow> Again (drop_record rl)
           | (True, rl) \<Rightarrow>
               if rr_length (rl_rrec rl) = 0 then Again rl
               else if w = Next then
                 if rl_in_init rl then
                   (case dtls_rlayer_buffer_record rl (rr_seq_num (rl_rrec rl)) (e_mem ev) (e_setup ev) of
                      (r, rl) \<Rightarrow> if r < 0 then Done RETURN_FATAL rl else Again (drop_record rl))
                 else Again (drop_record rl)
               else
                 (case dtls_process_record fs rl w of
                    (False, rl) \<Rightarrow> if rl_alert rl then Done RETURN_FATAL rl else Again (drop_record rl)
                  | (True, rl) \<Rightarrow>
                      if \<not> f_post_process fs rl (rl_rrec rl) then Done RETURN_FATAL (RLAYERfatal rl)
                      else Done RETURN_SUCCESS (rl\<lparr>rl_num_recs := 1\<rparr>))))"

text \<open>One pass of the loop from the label \<open>again\<close>, with the record layer as the previous one left it.\<close>

definition dtls_pass :: "rl_funcs \<Rightarrow> OSSL_RECORD_LAYER \<Rightarrow> rd_event \<Rightarrow> pass" where
  "dtls_pass fs rl ev =
     (if e_hdr_ret ev < RETURN_SUCCESS then Done (e_hdr_ret ev) (rl\<lparr>rl_alert := rl_alert rl \<or> e_alert ev\<rparr>)
      else if length (e_hdr ev) \<noteq> DTLS1_RT_HEADER_LENGTH then Again (drop_packet rl)
      else
        (case dtls_header rl (e_hdr ev) of
           (False, rl) \<Rightarrow> Again (drop_record rl)
         | (True, rl) \<Rightarrow>
             if rr_length (rl_rrec rl) = 0 then dtls_dispatch fs rl ev
             else if e_body_ret ev < RETURN_SUCCESS \<or> length (e_body ev) \<noteq> rr_length (rl_rrec rl) then
               let rl = rl\<lparr>rl_alert := rl_alert rl \<or> e_alert ev\<rparr> in
               if rl_alert rl then Done RETURN_FATAL rl else Again (drop_record rl)
             else dtls_dispatch fs (rl\<lparr>rl_packet := e_hdr ev @ e_body ev\<rparr>) ev))"

fun get_more_loop :: "rl_funcs \<Rightarrow> OSSL_RECORD_LAYER \<Rightarrow> rd_event list \<Rightarrow> int \<times> OSSL_RECORD_LAYER \<times> rd_event list" where
  "get_more_loop fs rl evs =
     (case dtls_retrieve_rlayer_buffered_record rl of
        (True, rl) \<Rightarrow> (RETURN_SUCCESS, rl\<lparr>rl_num_recs := 1\<rparr>, evs)
      | (False, _) \<Rightarrow>
          (case evs of
             [] \<Rightarrow> (RETURN_RETRY, rl, [])
           | ev # evs' \<Rightarrow>
               (case dtls_pass fs rl ev of
                  Again rl \<Rightarrow> get_more_loop fs rl evs'
                | Done r rl \<Rightarrow> (r, rl, evs'))))"

declare get_more_loop.simps [simp del]

text \<open>\<open>setup0\<close> tells whether the read buffer was there or could be set up.\<close>

definition dtls_get_more_records ::
    "rl_funcs \<Rightarrow> bool \<Rightarrow> OSSL_RECORD_LAYER \<Rightarrow> rd_event list \<Rightarrow> int \<times> OSSL_RECORD_LAYER \<times> rd_event list" where
  "dtls_get_more_records fs setup0 rl evs =
     (let rl = rl\<lparr>rl_num_recs := 0\<rparr> in
      if \<not> setup0 then (RETURN_FATAL, RLAYERfatal rl, evs) else get_more_loop fs rl evs)"

section \<open>The writing side\<close>

text \<open>The loop of \<open>tls_increment_sequence_ctr\<close> over \<open>i\<close>, and the whole function: \<open>None\<close> once the counter wraps.\<close>

fun increment_loop :: "nat \<Rightarrow> byte list \<Rightarrow> byte list \<times> nat" where
  "increment_loop 0 seq = (seq, 0)"
| "increment_loop (Suc i) seq =
     (let seq = seq[i := seq ! i + 1] in
      if seq ! i \<noteq> 0 then (seq, Suc i) else increment_loop i seq)"

definition tls_increment_sequence_ctr :: "OSSL_RECORD_LAYER \<Rightarrow> bool \<times> OSSL_RECORD_LAYER" where
  "tls_increment_sequence_ctr rl =
     (case increment_loop 8 (rl_sequence rl) of
        (seq, i) \<Rightarrow> if i = 0 then (False, RLAYERfatal (rl\<lparr>rl_sequence := seq\<rparr>)) else (True, rl\<lparr>rl_sequence := seq\<rparr>))"

text \<open>
  Closing the record layer hands what is left in the read buffer and then the buffered records to
  the next one, in the order of the queue. \<open>wr\<close> is the answer of \<open>BIO_write_ex\<close> and \<open>freed\<close> that of
  \<open>tls_free\<close>; the result holds the packets written.
\<close>

function drain_unprocessed :: "DTLS_RLAYER_RECORD_DATA pqueue \<Rightarrow> byte list list" where
  "drain_unprocessed q =
     (case pqueue_pop q of
        (None, _) \<Rightarrow> []
      | (Some item, q') \<Rightarrow> rd_packet (i_data item) # drain_unprocessed q')"
  by auto
termination by (relation "measure length") (auto simp: pqueue_pop_def split: list.splits)

declare drain_unprocessed.simps [simp del]

definition dtls_free :: "(byte list \<Rightarrow> bool) \<Rightarrow> bool \<Rightarrow> OSSL_RECORD_LAYER \<Rightarrow> byte list \<Rightarrow> bool \<times> byte list list" where
  "dtls_free wr freed rl left =
     (let pushed = drain_unprocessed (rl_unprocessed_rcds rl); first = (if left \<noteq> [] then [left] else [])
      in (freed \<and> list_all wr (first @ pushed), first @ pushed))"

section \<open>The window as a set of numbers\<close>

lemma n2l8_value: "length c = 8 \<Longrightarrow> unat (n2l8 c) = be_value c"
  using take_words(5) [of c] net_8_value [of "c ! 0" "c ! 1" "c ! 2" "c ! 3" "c ! 4" "c ! 5" "c ! 6" "c ! 7"]
  by (simp add: n2l8_def)

lemma sint_of_uint: "sint (w :: ulong) = (if uint w < 2 ^ 63 then uint w else uint w - 2 ^ 64)"
proof -
  have u: "0 \<le> uint w" "uint w < 2 ^ 64" using uint_bounded [of w] by simp_all
  have "bit (uint w) 63 \<longleftrightarrow> 2 ^ 63 \<le> uint w"
  proof (cases "uint w < 2 ^ 63")
    case True
    then have "uint w div 2 ^ 63 = 0" using u by (simp add: div_pos_pos_trivial)
    then show ?thesis using True by (simp add: bit_iff_odd)
  next
    case False
    then have "uint w div 2 ^ 63 = 1" using u by (intro int_div_pos_eq [where r = "uint w - 2 ^ 63"]) simp_all
    then show ?thesis using False by (simp add: bit_iff_odd)
  qed
  moreover have "take_bit 64 (uint w) = uint w" using u by (simp add: take_bit_int_eq_self)
  moreover have "sint w = signed_take_bit 63 (uint w)" by (simp add: sint_uint)
  ultimately show ?thesis
    by (simp add: signed_take_bit_eq_take_bit_minus)
qed

text \<open>The saturating subtraction is the clamped difference of the two numbers.\<close>

lemma clamped_difference:
  fixes a b :: int
  assumes "0 \<le> a" "a < 2 ^ 64" "0 \<le> b" "b < 2 ^ 64"
  defines "d \<equiv> (if a \<ge> b then a - b else a - b + 2 ^ 64)"
  defines "r \<equiv> (if d < 2 ^ 63 then d else d - 2 ^ 64)"
  shows "(if b < a \<and> r < 0 then 128 else if a < b \<and> r > 0 then -128 else if r > 128 then 128
      else if r < -128 then -128 else r) = max (-128) (min 128 (a - b))"
  using assms(1-4) by (auto simp: r_def d_def max_def min_def)

lemma satsub64be_eq:
  assumes "length v1 = 8" and "length v2 = 8"
  shows "satsub64be v1 v2 = max (-128) (min 128 (int (be_value v1) - int (be_value v2)))"
proof -
  let ?a = "uint (n2l8 v1)" and ?b = "uint (n2l8 v2)"
  have ab: "?a = int (be_value v1)" "?b = int (be_value v2)"
    using n2l8_value [OF assms(1)] n2l8_value [OF assms(2)] by (simp_all add: uint_nat)
  have bd: "0 \<le> ?a" "?a < 2 ^ 64" "0 \<le> ?b" "?b < 2 ^ 64" using uint_bounded [of "n2l8 v1"] uint_bounded [of "n2l8 v2"] by simp_all
  have u: "uint (n2l8 v1 - n2l8 v2) = (?a - ?b) mod 2 ^ 64" by (simp add: uint_word_ariths)
  have m: "(?a - ?b) mod 2 ^ 64 = (if ?a \<ge> ?b then ?a - ?b else ?a - ?b + 2 ^ 64)"
  proof (cases "?a \<ge> ?b")
    case True
    then have "(?a - ?b) mod 2 ^ 64 = ?a - ?b" using bd by (intro mod_pos_pos_trivial) linarith+
    then show ?thesis using True by simp
  next
    case False
    then have "(?a - ?b + 2 ^ 64) mod 2 ^ 64 = ?a - ?b + 2 ^ 64" using bd by (intro mod_pos_pos_trivial) linarith+
    then show ?thesis using False by simp
  qed
  have lt: "n2l8 v2 < n2l8 v1 \<longleftrightarrow> ?b < ?a" "n2l8 v1 < n2l8 v2 \<longleftrightarrow> ?a < ?b" by (simp_all add: word_less_def)
  show ?thesis
    unfolding satsub64be_def Let_def sint_of_uint u m lt ab [symmetric] by (rule clamped_difference [OF bd])
qed

text \<open>
  The window represents a set \<open>S\<close> of numbers: its greatest one, and which of the 64 numbers up to it
  are in.
\<close>

definition seq_of :: "byte list \<Rightarrow> nat" where
  "seq_of s = be_value s"

definition window_of :: "DTLS_BITMAP \<Rightarrow> nat set \<Rightarrow> bool" where
  "window_of bm S \<longleftrightarrow>
     length (bm_max_seq_num bm) = 8 \<and> (\<forall>s \<in> S. s \<le> seq_of (bm_max_seq_num bm))
     \<and> (\<forall>k < 64. bit (bm_map bm) k \<longleftrightarrow> k \<le> seq_of (bm_max_seq_num bm) \<and> seq_of (bm_max_seq_num bm) - k \<in> S)"

lemma and_push_bit_1: "k < 64 \<Longrightarrow> w AND push_bit k 1 \<noteq> 0 \<longleftrightarrow> bit (w :: ulong) k"
proof -
  assume k: "k < 64"
  show "w AND push_bit k 1 \<noteq> 0 \<longleftrightarrow> bit w k"
  proof
    assume "bit w k"
    then have "bit (w AND push_bit k 1) k" using k by (simp add: bit_and_iff bit_exp_iff)
    then show "w AND push_bit k 1 \<noteq> 0" by auto
  next
    assume "w AND push_bit k 1 \<noteq> 0"
    then obtain n where "bit (w AND push_bit k 1) n" using bit_word_eqI [of "w AND push_bit k 1" 0] by auto
    then show "bit w k" by (auto simp: bit_and_iff bit_exp_iff)
  qed
qed

lemma replay_check_iff:
  assumes w: "window_of bm S" and seq: "length (rl_sequence rl) = 8"
  shows "fst (dtls_record_replay_check rl bm) \<longleftrightarrow>
    seq_of (bm_max_seq_num bm) < seq_of (rl_sequence rl) \<or> seq_of (bm_max_seq_num bm) < seq_of (rl_sequence rl) + 64 \<and> seq_of (rl_sequence rl) \<notin> S"
proof -
  let ?seq = "rl_sequence rl"
  let ?m = "seq_of (bm_max_seq_num bm)" and ?s = "seq_of ?seq"
  have len: "length (bm_max_seq_num bm) = 8" using w by (simp add: window_of_def)
  have c: "satsub64be ?seq (bm_max_seq_num bm) = max (-128) (min 128 (int ?s - int ?m))"
    using satsub64be_eq [OF seq len] by (simp add: seq_of_def)
  show ?thesis
  proof (cases "?s > ?m")
    case True
    then show ?thesis using c by (simp add: dtls_record_replay_check_def Let_def)
  next
    case False
    then have sh: "nat (- satsub64be ?seq (bm_max_seq_num bm)) = min 128 (?m - ?s)" "\<not> satsub64be ?seq (bm_max_seq_num bm) > 0"
      using c by (auto simp: min_def max_def)
    show ?thesis
    proof (cases "?m - ?s < 64")
      case True
      then have "bit (bm_map bm) (?m - ?s) \<longleftrightarrow> ?s \<in> S" using w False by (simp add: window_of_def)
      then show ?thesis
        using sh True False and_push_bit_1 [OF True, of "bm_map bm"] by (auto simp: dtls_record_replay_check_def Let_def)
    next
      case far: False
      then show ?thesis using sh False by (auto simp: dtls_record_replay_check_def Let_def)
    qed
  qed
qed

lemma bitmap_update_window:
  assumes w: "window_of bm S" and seq: "length seq = 8"
  shows "window_of (dtls_record_bitmap_update seq bm) (insert (seq_of seq) S)"
proof -
  let ?m = "seq_of (bm_max_seq_num bm)" and ?s = "seq_of seq" and ?b = "bm_map bm"
  have len: "length (bm_max_seq_num bm) = 8" and le: "\<forall>s \<in> S. s \<le> ?m"
    and bits: "\<And>k. k < 64 \<Longrightarrow> bit ?b k \<longleftrightarrow> k \<le> ?m \<and> ?m - k \<in> S" using w by (auto simp: window_of_def)
  have c: "satsub64be seq (bm_max_seq_num bm) = max (-128) (min 128 (int ?s - int ?m))"
    using satsub64be_eq [OF seq len] by (simp add: seq_of_def)
  show ?thesis
  proof (cases "?s > ?m")
    case True
    then have sh: "satsub64be seq (bm_max_seq_num bm) > 0" "nat (satsub64be seq (bm_max_seq_num bm)) = min 128 (?s - ?m)"
      using c by (auto simp: min_def max_def)
    define b' where "b' = (if ?s - ?m < 64 then push_bit (?s - ?m) ?b OR 1 else (1 :: ulong))"
    have upd: "dtls_record_bitmap_update seq bm = bm\<lparr>bm_map := b', bm_max_seq_num := seq\<rparr>"
      using sh by (auto simp: dtls_record_bitmap_update_def Let_def b'_def)
    have "bit b' k \<longleftrightarrow> k \<le> ?s \<and> ?s - k \<in> insert ?s S" if k: "k < 64" for k
    proof (cases "k < ?s - ?m")
      case near: True
      have "?s - k \<notin> S" using le near True by fastforce
      then show ?thesis using near True k by (auto simp: b'_def bit_simps)
    next
      case far: False
      then have "bit b' k \<longleftrightarrow> bit ?b (k - (?s - ?m))" using k True by (auto simp: b'_def bit_simps)
      moreover have "?m - (k - (?s - ?m)) = ?s - k" if "k \<le> ?s" using far True that by linarith
      moreover have "k - (?s - ?m) \<le> ?m \<longleftrightarrow> k \<le> ?s" "k - (?s - ?m) < 64" using far True k by linarith+
      moreover have "k \<noteq> 0" using far True by linarith
      ultimately show ?thesis using bits [of "k - (?s - ?m)"] True by auto
    qed
    then show ?thesis using upd seq le True by (auto simp: window_of_def)
  next
    case False
    then have sh: "nat (- satsub64be seq (bm_max_seq_num bm)) = min 128 (?m - ?s)" "\<not> satsub64be seq (bm_max_seq_num bm) > 0"
      using c by (auto simp: min_def max_def)
    define b' where "b' = (if ?m - ?s < 64 then ?b OR push_bit (?m - ?s) 1 else ?b)"
    have upd: "dtls_record_bitmap_update seq bm = bm\<lparr>bm_map := b'\<rparr>"
      using sh by (auto simp: dtls_record_bitmap_update_def Let_def b'_def)
    have "bit b' k \<longleftrightarrow> k \<le> ?m \<and> ?m - k \<in> insert ?s S" if k: "k < 64" for k
    proof (cases "k = ?m - ?s")
      case True
      then show ?thesis using k False by (auto simp: b'_def bit_simps)
    next
      case ne: False
      then have "k \<le> ?m \<Longrightarrow> ?m - k \<noteq> ?s" using False by linarith
      moreover have "bit b' k \<longleftrightarrow> bit ?b k" using ne k by (auto simp: b'_def bit_simps)
      ultimately show ?thesis using bits [OF k] by auto
    qed
    then show ?thesis using upd len le False by (auto simp: window_of_def)
  qed
qed

section \<open>Runs of the record layer\<close>

text \<open>
  The states reachable from a fresh record layer by any passes of the read loop, with the sequence
  numbers of the records delivered to the caller, latest first.
\<close>

definition fresh_rl :: "OSSL_RECORD_LAYER \<Rightarrow> bool" where
  "fresh_rl rl \<longleftrightarrow>
     length (rl_sequence rl) = 8 \<and> rl_bitmap rl = \<lparr>bm_map = 0, bm_max_seq_num = replicate 8 0\<rparr>
     \<and> rl_unprocessed_rcds rl = [] \<and> rl_processed_rcds rl = []"

inductive rl_reach :: "rl_funcs \<Rightarrow> OSSL_RECORD_LAYER \<Rightarrow> nat list \<Rightarrow> bool"
  for fs where
  rl_fresh: "fresh_rl rl \<Longrightarrow> rl_reach fs rl []"
| rl_again: "rl_reach fs rl acc \<Longrightarrow> dtls_pass fs rl ev = Again rl' \<Longrightarrow> rl_reach fs rl' acc"
| rl_stop: "rl_reach fs rl acc \<Longrightarrow> dtls_pass fs rl ev = Done r rl' \<Longrightarrow> r \<noteq> 1 \<Longrightarrow> rl_reach fs rl' acc"
| rl_deliver: "rl_reach fs rl acc \<Longrightarrow> dtls_pass fs rl ev = Done 1 rl' \<Longrightarrow>
    rl_reach fs rl' (seq_of (rl_sequence rl') # acc)"

inductive_cases rl_reachE: "rl_reach fs rl acc"

definition rl_inv :: "OSSL_RECORD_LAYER \<Rightarrow> nat set \<Rightarrow> bool" where
  "rl_inv rl S \<longleftrightarrow>
     length (rl_sequence rl) = 8 \<and> window_of (rl_bitmap rl) S \<and> rl_processed_rcds rl = []
     \<and> pq_wf (rl_unprocessed_rcds rl) \<and> pqueue_size (rl_unprocessed_rcds rl) \<le> 100"

lemma fresh_rl_inv: "fresh_rl rl \<Longrightarrow> rl_inv rl {}"
  by (simp add: fresh_rl_def rl_inv_def window_of_def seq_of_def pq_wf_def)

lemma pqueue_size_length: "pqueue_size pq = length pq"
  by (induction pq) simp_all

lemma length_insert_loop: "insert_loop item pq = (ok, pq') \<Longrightarrow> length pq' \<le> Suc (length pq)"
  by (induction pq arbitrary: ok pq') (auto simp: Let_def split: if_splits prod.splits)

lemma rl_inv_cong:
  "length (rl_sequence rl') = 8 \<Longrightarrow> rl_bitmap rl' = rl_bitmap rl \<Longrightarrow> rl_processed_rcds rl' = rl_processed_rcds rl \<Longrightarrow>
   rl_unprocessed_rcds rl' = rl_unprocessed_rcds rl \<Longrightarrow> rl_inv rl S \<Longrightarrow> rl_inv rl' S"
  by (simp add: rl_inv_def)

lemma drop_fields [simp]:
  "rl_inv (drop_record rl) S = rl_inv rl S" "rl_inv (drop_packet rl) S = rl_inv rl S"
  "rl_inv (rl\<lparr>rl_alert := a\<rparr>) S = rl_inv rl S" "rl_inv (rl\<lparr>rl_rrec := rr\<rparr>) S = rl_inv rl S"
  "rl_inv (rl\<lparr>rl_num_recs := n\<rparr>) S = rl_inv rl S" "rl_inv (rl\<lparr>rl_packet := p\<rparr>) S = rl_inv rl S"
  by (simp_all add: rl_inv_def drop_record_def drop_packet_def)

lemma pqueue_insert_keeps:
  assumes q: "pq_wf q" "length q < 100" and iw: "item_wf i"
  shows "pq_wf (snd (pqueue_insert q i [])) \<and> length (snd (pqueue_insert q i [])) \<le> 100"
proof (cases "q = []")
  case True
  then show ?thesis using iw by (simp add: pqueue_insert_def pq_wf_def)
next
  case ne: False
  obtain ok p where l: "insert_loop i q = (ok, p)" by fastforce
  have "snd (pqueue_insert q i []) = p" using ne l by (simp add: pqueue_insert_def)
  moreover have "pq_wf p" using insert_loop_spec(2,3) [OF q(1) iw l] q(1) by (cases ok) auto
  ultimately show ?thesis using length_insert_loop [OF l] q(2) by simp
qed

lemma buffer_record_keeps:
  assumes inv: "rl_inv rl S" and len: "length seq = 8"
    and r: "dtls_rlayer_buffer_record rl seq mem setup = (r, rl')"
  shows "rl_inv rl' S"
proof (cases "pqueue_size (rl_unprocessed_rcds rl) \<ge> 100 \<or> \<not> mem \<or> \<not> setup")
  case True
  then show ?thesis using r inv by (auto simp: dtls_rlayer_buffer_record_def pitem_new_def Let_def split: if_splits)
next
  case False
  let ?i = "\<lparr>i_priority = seq, i_data = \<lparr>rd_packet = rl_packet rl, rd_rrec = rl_rrec rl\<rparr>\<rparr>"
  have rl': "rl' = rl\<lparr>rl_packet := [], rl_rrec := zero_rrec,
      rl_unprocessed_rcds := snd (pqueue_insert (rl_unprocessed_rcds rl) ?i [])\<rparr>"
    using False r len by (auto simp: dtls_rlayer_buffer_record_def pitem_new_def Let_def)
  have "item_wf ?i" using len by (simp add: item_wf_def)
  then show ?thesis
    using rl' inv False pqueue_insert_keeps [of "rl_unprocessed_rcds rl" ?i] by (simp add: rl_inv_def pqueue_size_length)
qed

text \<open>A record is processed to the end only after every check passed; then the window records it.\<close>

lemma process_record_ok:
  assumes "dtls_process_record fs rl Current = (True, rl')"
  shows "rl_bitmap rl' = dtls_record_bitmap_update (rl_sequence rl) (rl_bitmap rl) \<and> rl_sequence rl' = rl_sequence rl
    \<and> rl_processed_rcds rl' = rl_processed_rcds rl \<and> rl_unprocessed_rcds rl' = rl_unprocessed_rcds rl"
  using assms unfolding dtls_process_record_def Let_def drop_packet_def
  by (auto split: if_splits prod.splits bool.splits)

lemma process_record_bad:
  assumes "dtls_process_record fs rl w = (False, rl')"
  shows "rl_bitmap rl' = rl_bitmap rl \<and> rl_sequence rl' = rl_sequence rl
    \<and> rl_processed_rcds rl' = rl_processed_rcds rl \<and> rl_unprocessed_rcds rl' = rl_unprocessed_rcds rl"
  using assms unfolding dtls_process_record_def Let_def drop_packet_def drop_record_def
  by (auto split: if_splits prod.splits bool.splits)

text \<open>
  A pass keeps the invariant. It delivers a record only with a sequence number that the window
  allows, and records it; in every other case the set of recorded numbers grows at most.
\<close>

definition pass_keeps :: "nat set \<Rightarrow> pass \<Rightarrow> bool" where
  "pass_keeps S p =
     (case p of
        Again rl \<Rightarrow> rl_inv rl S
      | Done r rl \<Rightarrow>
          if r = 1 then seq_of (rl_sequence rl) \<notin> S \<and> rl_inv rl (insert (seq_of (rl_sequence rl)) S)
          else \<exists>S'. S \<subseteq> S' \<and> rl_inv rl S')"

lemma pass_keepsI:
  "rl_inv rl S \<Longrightarrow> pass_keeps S (Again rl)"
  "rl_inv rl S' \<Longrightarrow> S \<subseteq> S' \<Longrightarrow> r \<noteq> 1 \<Longrightarrow> pass_keeps S (Done r rl)"
  "rl_inv rl (insert (seq_of (rl_sequence rl)) S) \<Longrightarrow> seq_of (rl_sequence rl) \<notin> S \<Longrightarrow> pass_keeps S (Done 1 rl)"
  by (auto simp: pass_keeps_def)

lemma replay_check_rl:
  assumes "dtls_record_replay_check rl bm = (ok, rl')"
  obtains rr where "rl' = rl\<lparr>rl_rrec := rr\<rparr>"
    and "ok \<longrightarrow> rr = (rl_rrec rl)\<lparr>rr_seq_num := rl_sequence rl\<rparr>"
proof (cases ok)
  case True
  then show ?thesis using assms that [of "(rl_rrec rl)\<lparr>rr_seq_num := rl_sequence rl\<rparr>"]
    by (auto simp: dtls_record_replay_check_def Let_def split: if_splits)
next
  case False
  then show ?thesis using assms that [of "rl_rrec rl"] by (auto simp: dtls_record_replay_check_def Let_def split: if_splits)
qed

lemma dispatch_keeps:
  assumes inv: "rl_inv rl S"
  shows "pass_keeps S (dtls_dispatch fs rl ev)"
proof (cases "dtls_get_bitmap rl (rl_rrec rl)")
  case None
  then show ?thesis using inv by (auto simp: dtls_dispatch_def intro: pass_keepsI)
next
  case (Some w)
  obtain ok rl1 where c: "dtls_record_replay_check rl (the_bitmap rl w) = (ok, rl1)" by fastforce
  obtain rr where rl1: "rl1 = rl\<lparr>rl_rrec := rr\<rparr>" and rr: "ok \<longrightarrow> rr = (rl_rrec rl)\<lparr>rr_seq_num := rl_sequence rl\<rparr>"
    using replay_check_rl [OF c] by blast
  have sq: "ok \<Longrightarrow> rr_seq_num rr = rl_sequence rl" using rr by simp
  have inv1: "rl_inv rl1 S" using inv rl1 by simp
  consider "\<not> ok \<or> rr_length (rl_rrec rl1) = 0" | "ok" "w = Next" "rr_length (rl_rrec rl1) \<noteq> 0"
    | "ok" "w = Current" "rr_length (rl_rrec rl1) \<noteq> 0" by (cases w) auto
  then show ?thesis
  proof cases
    case 1
    then show ?thesis using Some c inv1 by (auto simp: dtls_dispatch_def intro: pass_keepsI split: bool.split)
  next
    case 2
    obtain r rl2 where b: "dtls_rlayer_buffer_record rl1 (rr_seq_num (rl_rrec rl1)) (e_mem ev) (e_setup ev) = (r, rl2)" by fastforce
    have "length (rr_seq_num (rl_rrec rl1)) = 8" using sq [OF 2(1)] rl1 inv by (simp add: rl_inv_def)
    then have "rl_inv rl2 S" using buffer_record_keeps [OF inv1 _ b] by simp
    then show ?thesis using Some c 2 b inv1 by (auto simp: dtls_dispatch_def intro: pass_keepsI)
  next
    case 3
    obtain done' rl2 where p: "dtls_process_record fs rl1 Current = (done', rl2)" by fastforce
    have w: "window_of (rl_bitmap rl) S" and l: "length (rl_sequence rl) = 8" using inv by (simp_all add: rl_inv_def)
    have new: "seq_of (rl_sequence rl) \<notin> S"
      using replay_check_iff [OF w l] c 3 w by (auto simp: window_of_def the_bitmap_def)
    show ?thesis
    proof (cases done')
      case False
      then have "rl_inv rl2 S" using process_record_bad [of fs rl1 Current rl2] p inv1 by (simp add: rl_inv_def)
      then show ?thesis using Some c 3 p False by (auto simp: dtls_dispatch_def intro: pass_keepsI)
    next
      case True
      then have rl2: "rl_bitmap rl2 = dtls_record_bitmap_update (rl_sequence rl) (rl_bitmap rl)" "rl_sequence rl2 = rl_sequence rl"
        "rl_processed_rcds rl2 = rl_processed_rcds rl" "rl_unprocessed_rcds rl2 = rl_unprocessed_rcds rl"
        using process_record_ok [of fs rl1 rl2] p by (simp_all add: rl1)
      have "rl_inv rl2 (insert (seq_of (rl_sequence rl)) S)"
        using inv bitmap_update_window [OF w l] by (simp add: rl2 rl_inv_def)
      note rl2(2) this
      then show ?thesis using Some c 3 p True new
        by (auto simp: dtls_dispatch_def intro!: pass_keepsI(3) pass_keepsI(2) [of _ "insert (seq_of (rl_sequence rl)) S"])
    qed
  qed
qed

lemma header_keeps:
  assumes "rl_inv rl S" and "length p = 13" and "dtls_header rl p = (ok, rl')"
  shows "rl_inv rl' S"
  using assms by (auto simp: dtls_header_def Let_def rl_inv_def)

lemma dtls_pass_keeps:
  assumes inv: "rl_inv rl S"
  shows "pass_keeps S (dtls_pass fs rl ev)"
proof (cases "e_hdr_ret ev < 1 \<or> length (e_hdr ev) \<noteq> 13")
  case True
  then show ?thesis using inv by (auto simp: dtls_pass_def intro: pass_keepsI)
next
  case False
  obtain ok rl1 where h: "dtls_header rl (e_hdr ev) = (ok, rl1)" by fastforce
  have inv1: "rl_inv rl1 S" using header_keeps [OF inv _ h] False by simp
  have "rl_inv (rl1\<lparr>rl_packet := e_hdr ev @ e_body ev\<rparr>) S" using inv1 by simp
  then show ?thesis
    using False h inv1 dispatch_keeps [OF inv1] dispatch_keeps [of "rl1\<lparr>rl_packet := e_hdr ev @ e_body ev\<rparr>" S]
    by (cases ok) (auto simp: dtls_pass_def Let_def intro: pass_keepsI)
qed

lemma rl_reach_inv: "rl_reach fs rl acc \<Longrightarrow> distinct acc \<and> (\<exists>S. set acc \<subseteq> S \<and> rl_inv rl S)"
proof (induction rule: rl_reach.induct)
  case (rl_fresh rl)
  then show ?case using fresh_rl_inv by auto
next
  case (rl_again rl acc ev rl')
  then obtain S where S: "set acc \<subseteq> S" "rl_inv rl S" by blast
  then show ?case using dtls_pass_keeps [OF S(2), of fs ev] rl_again by (auto simp: pass_keeps_def)
next
  case (rl_stop rl acc ev r rl')
  then obtain S where S: "set acc \<subseteq> S" "rl_inv rl S" by blast
  then show ?case using dtls_pass_keeps [OF S(2), of fs ev] rl_stop by (auto simp: pass_keeps_def)
next
  case (rl_deliver rl acc ev rl')
  then obtain S where S: "set acc \<subseteq> S" "rl_inv rl S" by blast
  then show ?case using dtls_pass_keeps [OF S(2), of fs ev] rl_deliver by (auto simp: pass_keeps_def)
qed

section \<open>The increment of the sequence number\<close>

lemma increment_loop_value:
  assumes "i \<le> length seq" and "increment_loop i seq = (seq', j)"
  shows "length seq' = length seq \<and> drop i seq' = drop i seq
    \<and> (if j = 0 then be_value (take i seq) + 1 = 256 ^ i \<and> take i seq' = replicate i 0
       else be_value (take i seq') = be_value (take i seq) + 1)"
  using assms
proof (induction i arbitrary: seq seq' j)
  case 0
  then show ?case by simp
next
  case (Suc i)
  let ?s = "seq[i := seq ! i + 1]"
  have i: "i < length seq" using Suc.prems(1) by simp
  have tk: "take (Suc i) seq = take i seq @ [seq ! i]" using i by (simp add: take_Suc_conv_app_nth)
  show ?case
  proof (cases "seq ! i + 1 = 0")
    case False
    then have r: "seq' = ?s" "j = Suc i" using Suc.prems(2) i by (auto simp: Let_def)
    have "unat (seq ! i + 1) = unat (seq ! i) + 1" using False unatSuc [of "seq ! i"] by (simp add: add.commute)
    then show ?thesis using r i tk by (simp add: take_Suc_conv_app_nth)
  next
    case True
    then have r: "increment_loop i ?s = (seq', j)" using Suc.prems(2) i by (simp add: Let_def)
    have top: "unat (seq ! i) = 255"
    proof -
      have "seq ! i = - 1" using True by (simp add: add_eq_0_iff2)
      then show ?thesis by (simp add: unsigned_minus_1_eq_mask mask_eq_exp_minus_1)
    qed
    have IH: "length seq' = length ?s \<and> drop i seq' = drop i ?s
        \<and> (if j = 0 then be_value (take i ?s) + 1 = 256 ^ i \<and> take i seq' = replicate i 0
           else be_value (take i seq') = be_value (take i ?s) + 1)"
      by (rule Suc.IH [OF _ r]) (use i in simp)
    have z: "seq' ! i = 0" and len: "length seq' = length seq" and d: "drop (Suc i) seq' = drop (Suc i) seq"
    proof -
      have "drop i seq' = drop i ?s" "length seq' = length ?s" using IH by auto
      moreover have "drop i ?s ! 0 = 0" using i True by simp
      ultimately show "seq' ! i = 0" "length seq' = length seq" using i by (auto dest: arg_cong [where f = "\<lambda>x. x ! 0"])
      have "drop 1 (drop i seq') = drop 1 (drop i ?s)" using \<open>drop i seq' = drop i ?s\<close> by simp
      then show "drop (Suc i) seq' = drop (Suc i) seq" by simp
    qed
    have tk': "take (Suc i) seq' = take i seq' @ [0]" using i z len by (simp add: take_Suc_conv_app_nth)
    have ts: "take i ?s = take i seq" by simp
    show ?thesis
      using IH len d tk tk' ts top by (auto simp: replicate_append_same)
  qed
qed

lemma increment_ctr:
  assumes "length (rl_sequence rl) = 8"
  shows "tls_increment_sequence_ctr rl =
    (if be_value (rl_sequence rl) + 1 = 2 ^ 64 then (False, rl\<lparr>rl_sequence := replicate 8 0, rl_alert := True\<rparr>)
     else (True, rl\<lparr>rl_sequence := be_bytes 8 (be_value (rl_sequence rl) + 1)\<rparr>))"
proof -
  obtain seq j where r: "increment_loop 8 (rl_sequence rl) = (seq, j)" by fastforce
  note v = increment_loop_value [OF _ r]
  have len: "length seq = 8" using v assms by simp
  have bd: "be_value seq < 256 ^ 8" using be_value_bound [of seq] len by simp
  show ?thesis
  proof (cases "j = 0")
    case True
    then have "be_value (rl_sequence rl) + 1 = 2 ^ 64" "seq = replicate 8 0" using v assms len by auto
    then show ?thesis using r True by (simp add: tls_increment_sequence_ctr_def)
  next
    case False
    then have e: "be_value seq = be_value (rl_sequence rl) + 1" using v assms len by simp
    then have "be_value (rl_sequence rl) + 1 \<noteq> 2 ^ 64" using bd by simp
    moreover have "be_bytes 8 (be_value seq) = seq" using be_bytes_be_value [of seq] len by simp
    ultimately show ?thesis using r False e by (simp add: tls_increment_sequence_ctr_def)
  qed
qed

section \<open>Properties of the record layer\<close>

text \<open>A record layer and a peer for the witnesses: no MAC, a cipher that does nothing.\<close>

definition demo_fs :: rl_funcs where
  "demo_fs = \<lparr>f_mac = \<lambda>_ _. None, f_cipher = \<lambda>_ rr _. (True, False, rr, None), f_uncompress = \<lambda>rr. (True, rr),
     f_post_process = \<lambda>_ _. True\<rparr>"

definition demo_rl :: OSSL_RECORD_LAYER where
  "demo_rl = \<lparr>rl_version = 0xFEFD, rl_epoch = 0, rl_sequence = [0, 0, 0, 0, 0, 0, 0, 0],
     rl_bitmap = \<lparr>bm_map = 0, bm_max_seq_num = [0, 0, 0, 0, 0, 0, 0, 0]\<rparr>, rl_next_bitmap = \<lparr>bm_map = 0, bm_max_seq_num = [0, 0, 0, 0, 0, 0, 0, 0]\<rparr>,
     rl_is_first_record = False, rl_in_init = True, rl_max_frag_len = 16384, rl_unprocessed_rcds = [], rl_processed_rcds = [],
     rl_packet = [], rl_rrec = zero_rrec, rl_alert = False, rl_num_recs = 0, rl_use_etm = False, rl_enc_ctx = False,
     rl_md_ctx = None, rl_compctx = False\<rparr>"

definition demo_event :: "byte \<Rightarrow> byte \<Rightarrow> byte list \<Rightarrow> rd_event" where
  "demo_event epoch seq body = \<lparr>e_hdr_ret = 1, e_hdr = [22, 0xFE, 0xFD, 0, epoch, 0, 0, 0, 0, 0, seq, 0, of_nat (length body)],
     e_body_ret = 1, e_body = body, e_alert = False, e_mem = True, e_setup = True\<rparr>"

lemma demo_fresh: "fresh_rl demo_rl"
  by (simp add: fresh_rl_def demo_rl_def numeral_eq_Suc)

lemma demo_deliver:
  "dtls_pass demo_fs demo_rl (demo_event 0 3 [7, 8]) =
    Done 1 (demo_rl\<lparr>rl_sequence := [0, 0, 0, 0, 0, 0, 0, 3], rl_bitmap := \<lparr>bm_map = 1, bm_max_seq_num = [0, 0, 0, 0, 0, 0, 0, 3]\<rparr>,
      rl_rrec := \<lparr>rr_type = 22, rr_rec_version = 0xFEFD, rr_epoch = 0, rr_length = 2, rr_orig_len = 2, rr_off = 0,
        rr_data = [7, 8], rr_seq_num = [0, 0, 0, 0, 0, 0, 0, 3]\<rparr>, rl_num_recs := 1\<rparr>)"
  by (simp add: dtls_pass_def dtls_dispatch_def demo_event_def demo_rl_def demo_fs_def dtls_header_def Let_def zero_rrec_def
      dtls_get_bitmap_def dtls_record_replay_check_def the_bitmap_def dtls_process_record_def etm_check_def mte_ok_def
      plain_checks_def drop_packet_def dtls_record_bitmap_update_def satsub64be_eq be_value_def drop_record_def)

lemma demo_reach: "rl_reach demo_fs
  (demo_rl\<lparr>rl_sequence := [0, 0, 0, 0, 0, 0, 0, 3], rl_bitmap := \<lparr>bm_map = 1, bm_max_seq_num = [0, 0, 0, 0, 0, 0, 0, 3]\<rparr>,
      rl_rrec := \<lparr>rr_type = 22, rr_rec_version = 0xFEFD, rr_epoch = 0, rr_length = 2, rr_orig_len = 2, rr_off = 0,
        rr_data = [7, 8], rr_seq_num = [0, 0, 0, 0, 0, 0, 0, 3]\<rparr>, rl_num_recs := 1\<rparr>) [3]"
  using rl_deliver [OF rl_fresh [OF demo_fresh] demo_deliver] by (simp add: seq_of_def be_value_def)

text \<open>
  C16: no record is delivered twice. Along any run of the read loop of \<open>dtls_get_more_records\<close>, whatever the
  network delivers, repeats or reorders, and whatever decryption answers, the sequence numbers of the records
  handed to the caller are pairwise distinct.\<close>

theorem no_record_delivered_twice:
  assumes "rl_reach fs rl acc"
  shows "distinct acc"
  using rl_reach_inv [OF assms] by simp

theorem no_record_delivered_twice_witness: "distinct [3 :: nat]"
  by (rule no_record_delivered_twice [OF demo_reach])

text \<open>
  C9: the replay window is exact. When the bitmap represents the set \<open>S\<close> of received numbers, the check accepts a
  record if and only if it is newer than all of them, or within the last 64 numbers and not received yet; and
  the update makes the bitmap represent the set with the number added, also when the window slides.\<close>

theorem replay_window_exact:
  assumes "window_of bm S" and "length (rl_sequence rl) = 8"
  shows "fst (dtls_record_replay_check rl bm) =
      (seq_of (bm_max_seq_num bm) < seq_of (rl_sequence rl)
       \<or> seq_of (bm_max_seq_num bm) < seq_of (rl_sequence rl) + 64 \<and> seq_of (rl_sequence rl) \<notin> S)
    \<and> window_of (dtls_record_bitmap_update (rl_sequence rl) bm) (insert (seq_of (rl_sequence rl)) S)"
  using replay_check_iff [OF assms] bitmap_update_window [OF assms] by simp

theorem replay_window_exact_witness:
  "fst (dtls_record_replay_check demo_rl \<lparr>bm_map = 0, bm_max_seq_num = [0, 0, 0, 0, 0, 0, 0, 0]\<rparr>)
   \<and> window_of \<lparr>bm_map = 1, bm_max_seq_num = [0, 0, 0, 0, 0, 0, 0, 0]\<rparr> {0}
   \<and> \<not> fst (dtls_record_replay_check demo_rl \<lparr>bm_map = 1, bm_max_seq_num = [0, 0, 0, 0, 0, 0, 0, 0]\<rparr>)"
proof -
  let ?bm = "\<lparr>bm_map = 0, bm_max_seq_num = [0, 0, 0, 0, 0, 0, 0, 0]\<rparr>" and ?bm' = "\<lparr>bm_map = 1, bm_max_seq_num = [0, 0, 0, 0, 0, 0, 0, 0]\<rparr>"
  have w: "window_of ?bm {}" by (simp add: window_of_def seq_of_def)
  have z: "rl_sequence demo_rl = [0, 0, 0, 0, 0, 0, 0, 0]" "seq_of [0, 0, 0, 0, 0, 0, 0, 0] = 0"
    by (simp_all add: demo_rl_def seq_of_def be_value_def)
  have "dtls_record_bitmap_update [0, 0, 0, 0, 0, 0, 0, 0] ?bm = ?bm'"
    by (simp add: dtls_record_bitmap_update_def satsub64be_eq be_value_def Let_def)
  then have w': "window_of ?bm' {0}" and c: "fst (dtls_record_replay_check demo_rl ?bm)"
    using replay_window_exact [OF w, of demo_rl] z by simp_all
  then show ?thesis using replay_window_exact [OF w', of demo_rl] z by simp
qed

lemma drain_unprocessed_eq: "drain_unprocessed q = map (\<lambda>i. rd_packet (i_data i)) q"
proof (induction q)
  case Nil
  then show ?case by (simp add: drain_unprocessed.simps [of "[]"] pqueue_pop_def)
next
  case (Cons i q)
  then show ?case by (simp add: drain_unprocessed.simps [of "i # q"] pqueue_pop_def)
qed

text \<open>
  The queue of records of the next epoch never holds more than 100 records and stays strictly sorted by sequence
  number, and closing the record layer passes exactly these packets on, in that order.\<close>

theorem unprocessed_bounded_sorted:
  assumes "rl_reach fs rl acc"
  shows "pqueue_size (rl_unprocessed_rcds rl) \<le> 100
    \<and> sorted_wrt (\<lambda>i j. prio i < prio j) (rl_unprocessed_rcds rl)
    \<and> snd (dtls_free wr freed rl []) = map (\<lambda>i. rd_packet (i_data i)) (rl_unprocessed_rcds rl)"
  using rl_reach_inv [OF assms] by (auto simp: rl_inv_def pq_wf_def dtls_free_def drain_unprocessed_eq Let_def)

theorem unprocessed_bounded_sorted_witness:
  "pqueue_size (rl_unprocessed_rcds demo_rl) \<le> 100
    \<and> snd (dtls_free (\<lambda>_. True) True demo_rl []) = map (\<lambda>i. rd_packet (i_data i)) (rl_unprocessed_rcds demo_rl)"
  using unprocessed_bounded_sorted [OF rl_fresh [OF demo_fresh, of demo_fs]] by blast

text \<open>
  A genuine record is delivered. In the current epoch, under an AEAD cipher (no separate MAC) whose decryption
  succeeds with a plaintext within the fragment limit, a complete record that passes the header checks and is not
  ruled out by the window ends the loop with success, and the window then rules it out.\<close>

theorem genuine_record_delivered:
  assumes inv: "rl_inv rl S" and hdr: "e_hdr_ret ev \<ge> 1" "length (e_hdr ev) = 13"
    and ok: "dtls_header rl (e_hdr ev) = (True, rl1)"
    and body: "e_body_ret ev \<ge> 1" "length (e_body ev) = rr_length (rl_rrec rl1)" "e_body ev \<noteq> []"
    and epoch: "rr_epoch (rl_rrec rl1) = rl_epoch rl1"
    and new: "seq_of (rl_sequence rl1) \<notin> S" "seq_of (bm_max_seq_num (rl_bitmap rl)) < seq_of (rl_sequence rl1) + 64"
    and aead: "rl_md_ctx rl1 = None" "\<not> rl_compctx rl1" "f_post_process fs = (\<lambda>_ _. True)"
      "f_cipher fs = (\<lambda>_ rr _. (True, False, dec rr, None))" 
      "\<And>rr. rr_length rr = rr_length (rl_rrec rl1) \<Longrightarrow> rr_length (dec rr) \<le> rl_max_frag_len rl1"
  shows "\<exists>rl'. dtls_pass fs rl ev = Done 1 rl' \<and> rl_sequence rl' = rl_sequence rl1
    \<and> rl_inv rl' (insert (seq_of (rl_sequence rl1)) S) \<and> \<not> fst (dtls_record_replay_check rl' (rl_bitmap rl'))"
proof -
  define rl2 where "rl2 = rl1\<lparr>rl_packet := e_hdr ev @ e_body ev\<rparr>"
  have h: "rl_bitmap rl1 = rl_bitmap rl" "rr_length (rl_rrec rl1) \<le> 17728" using ok by (auto simp: dtls_header_def Let_def)
  have inv1: "rl_inv rl1 S" using header_keeps [OF inv hdr(2) ok] .
  have w: "window_of (rl_bitmap rl) S" and l: "length (rl_sequence rl1) = 8"
    using inv inv1 by (simp_all add: rl_inv_def)
  obtain chk rl3 where c: "dtls_record_replay_check rl2 (rl_bitmap rl2) = (chk, rl3)" by fastforce
  have chk: chk using replay_check_iff [of "rl_bitmap rl2" S rl2] c w l new h by (simp add: rl2_def)
  obtain rr where rl3: "rl3 = rl2\<lparr>rl_rrec := rr\<rparr>" and rr: "chk \<longrightarrow> rr = (rl_rrec rl2)\<lparr>rr_seq_num := rl_sequence rl2\<rparr>"
    using replay_check_rl [OF c] by blast
  have len: "rr_length rr = rr_length (rl_rrec rl1)" using rr chk by (simp add: rl2_def)
  have pos: "rr_length (rl_rrec rl1) \<noteq> 0" using body(2,3) by (metis length_0_conv)
  let ?rr = "rr\<lparr>rr_data := drop 13 (rl_packet rl3), rr_orig_len := rr_length rr\<rparr>"
  have "rr_length (dec ?rr) \<le> rl_max_frag_len rl1" using aead(5) [of ?rr] len by simp
  then have "fst (dtls_process_record fs rl3 Current)"
    using aead(1-4) len h(2) by (simp add: dtls_process_record_def Let_def rl3 rl2_def etm_check_def mte_ok_def plain_checks_def)
  then obtain rl4 where p: "dtls_process_record fs rl3 Current = (True, rl4)" by (cases "dtls_process_record fs rl3 Current") simp
  have d: "dtls_pass fs rl ev = dtls_dispatch fs rl2 ev"
    using hdr ok body pos by (simp add: dtls_pass_def rl2_def)
  have r: "dtls_pass fs rl ev = Done 1 (rl4\<lparr>rl_num_recs := 1\<rparr>)"
    unfolding d using epoch c chk len pos p aead(3) by (simp add: dtls_dispatch_def dtls_get_bitmap_def the_bitmap_def rl2_def rl3)
  have sq: "rl_sequence rl4 = rl_sequence rl1" using process_record_ok [OF p] by (simp add: rl3 rl2_def)
  have "rl_inv rl4 (insert (seq_of (rl_sequence rl1)) S)"
    using dtls_pass_keeps [OF inv, of fs ev] by (simp add: r pass_keeps_def sq)
  then show ?thesis
    using r sq replay_check_iff [of "rl_bitmap rl4" "insert (seq_of (rl_sequence rl1)) S" "rl4\<lparr>rl_num_recs := 1\<rparr>"] l
    by (auto simp: rl_inv_def window_of_def)
qed

lemma demo_header:
  "dtls_header demo_rl (e_hdr (demo_event 0 3 [7, 8])) =
    (True, demo_rl\<lparr>rl_packet := e_hdr (demo_event 0 3 [7, 8]), rl_sequence := [0, 0, 0, 0, 0, 0, 0, 3],
      rl_rrec := zero_rrec\<lparr>rr_type := 22, rr_rec_version := 0xFEFD, rr_length := 2\<rparr>\<rparr>)"
  by (simp add: dtls_header_def demo_event_def demo_rl_def Let_def zero_rrec_def)

theorem genuine_record_delivered_witness:
  "\<exists>rl'. dtls_pass demo_fs demo_rl (demo_event 0 3 [7, 8]) = Done 1 rl' \<and> rl_inv rl' {3}"
proof -
  have "seq_of [0, 0, 0, 0, 0, 0, 0, 3] = 3" by (simp add: seq_of_def be_value_def)
  then show ?thesis
    using genuine_record_delivered [OF fresh_rl_inv [OF demo_fresh] _ _ demo_header, of demo_fs "\<lambda>rr. rr"]
    by (auto simp: demo_fs_def demo_rl_def zero_rrec_def demo_event_def seq_of_def be_value_def)
qed

text \<open>
  The MAC of the record in hand is wrong: the one computed for it is not the one received. With encrypt-then-MAC that is the end of the
  record, and the rest is what the MAC is computed for; otherwise both come from the cipher.
\<close>

definition wrong_mac :: "rl_funcs \<Rightarrow> OSSL_RECORD_LAYER \<Rightarrow> nat \<Rightarrow> bool" where
  "wrong_mac fs rl n \<longleftrightarrow>
     (let rl1 = rl\<lparr>rl_rrec := (rl_rrec rl)\<lparr>rr_seq_num := rl_sequence rl\<rparr>\<rparr>;
          rr = (rl_rrec rl1)\<lparr>rr_data := drop 13 (rl_packet rl), rr_orig_len := rr_length (rl_rrec rl)\<rparr> in
      if rl_use_etm rl then
        let len = rr_length rr - n in
        \<forall>md. f_mac fs rl1 (rr\<lparr>rr_length := len\<rparr>) = Some md \<longrightarrow> take n md \<noteq> take n (drop len (rr_data rr))
      else
        case f_cipher fs rl1 rr n of
          (enc_err, alert, rr', macbuf) \<Rightarrow>
            \<forall>md mac. f_mac fs (rl1\<lparr>rl_rrec := rr', rl_alert := alert\<rparr>) rr' = Some md \<longrightarrow> macbuf = Some mac \<longrightarrow> take n md \<noteq> take n mac)"

text \<open>
  C36: a non-empty record of the current epoch within the length limit, not a replay, whose MAC is wrong is handled differently in the two MAC modes. With encrypt-then-MAC it ends the read
  with a fatal error, although the same function documents that bad DTLS packets are just ignored; with
  MAC-then-encrypt, when the cipher itself raises no alert, it is dropped silently. In neither case does the window move.\<close>

theorem forged_record_handling:
  assumes cur: "rr_epoch (rl_rrec rl) = rl_epoch rl" "fst (dtls_record_replay_check rl (rl_bitmap rl))"
    and len: "rr_length (rl_rrec rl) \<noteq> 0" "rr_length (rl_rrec rl) \<le> 17728" "\<not> rl_alert rl"
    and mac: "rl_md_ctx rl = Some (Some n)" "0 \<le> n" "n \<le> 64" "rl_enc_ctx rl" "wrong_mac fs rl (nat n)"
    and ciph: "\<And>r rr k. \<not> fst (snd (f_cipher fs r rr k))"
  shows "if rl_use_etm rl then \<exists>rl'. dtls_dispatch fs rl ev = Done (-2) rl' \<and> rl_bitmap rl' = rl_bitmap rl
    else \<exists>rl'. dtls_dispatch fs rl ev = Again rl' \<and> rl_bitmap rl' = rl_bitmap rl \<and> \<not> rl_alert rl'"
proof -
  obtain rl1 where c: "dtls_record_replay_check rl (rl_bitmap rl) = (True, rl1)" using cur(2) by (cases "dtls_record_replay_check rl (rl_bitmap rl)") auto
  have rl1: "rl1 = rl\<lparr>rl_rrec := (rl_rrec rl)\<lparr>rr_seq_num := rl_sequence rl\<rparr>\<rparr>"
    using replay_check_rl [OF c] by blast
  obtain ok rl2 where p: "dtls_process_record fs rl1 Current = (ok, rl2)" by fastforce
  have d: "dtls_dispatch fs rl ev = (if ok then if f_post_process fs rl2 (rl_rrec rl2) then Done 1 (rl2\<lparr>rl_num_recs := 1\<rparr>) else Done (-2) (RLAYERfatal rl2)
      else if rl_alert rl2 then Done (-2) rl2 else Again (drop_record rl2))"
    using cur(1) c len(1) p by (simp add: dtls_dispatch_def dtls_get_bitmap_def the_bitmap_def rl1 split: bool.split)
  let ?rr = "(rl_rrec rl1)\<lparr>rr_data := drop 13 (rl_packet rl), rr_orig_len := rr_length (rl_rrec rl)\<rparr>"
  have bad: "\<not> ok \<and> rl_alert rl2 = rl_use_etm rl"
  proof (cases "rl_use_etm rl")
    case True
    then have "\<not> fst (etm_check fs rl1 ?rr (nat n))"
      using mac(1,5) by (auto simp: wrong_mac_def etm_check_def rl1 Let_def simp del: drop_drop split: option.splits)
    then obtain rr' k where e: "etm_check fs rl1 ?rr (nat n) = (False, rr', k)" by (cases "etm_check fs rl1 ?rr (nat n)") auto
    then show ?thesis using p mac len True by (simp add: dtls_process_record_def rl1 Let_def) auto
  next
    case False
    obtain enc rr' m where ci: "f_cipher fs rl1 ?rr (nat n) = (enc, False, rr', m)"
      using ciph [of rl1 ?rr "nat n"] by (cases "f_cipher fs rl1 ?rr (nat n)") auto
    have e: "etm_check fs rl1 ?rr (nat n) = (True, ?rr, nat n)" using False by (simp add: etm_check_def rl1)
    have "\<not> mte_ok fs (rl1\<lparr>rl_rrec := rr', rl_alert := False\<rparr>) rr' m (nat n)"
      using mac False ci by (auto simp: wrong_mac_def mte_ok_def rl1 Let_def split: option.splits)
    then show ?thesis using p mac len False e ci by (auto simp: dtls_process_record_def rl1 Let_def drop_record_def split: if_splits)
  qed
  then have "rl_bitmap rl2 = rl_bitmap rl" using process_record_bad [of fs rl1 Current rl2] p by (auto simp: rl1)
  then show ?thesis using d bad by (simp add: drop_record_def)
qed

text \<open>A record whose last twenty bytes are zero, while the MAC computed for it consists of ones.\<close>

definition mac_fs :: rl_funcs where
  "mac_fs = demo_fs\<lparr>f_mac := \<lambda>_ _. Some (replicate 20 1), f_cipher := \<lambda>_ rr _. (True, False, rr, Some (replicate 20 0))\<rparr>"

definition mac_rl :: "bool \<Rightarrow> OSSL_RECORD_LAYER" where
  "mac_rl etm = demo_rl\<lparr>rl_md_ctx := Some (Some 20), rl_enc_ctx := True, rl_use_etm := etm, rl_packet := replicate 53 0,
     rl_rrec := zero_rrec\<lparr>rr_length := 40\<rparr>\<rparr>"

theorem forged_record_handling_witness:
  "(\<exists>rl'. dtls_dispatch mac_fs (mac_rl True) (demo_event 0 0 []) = Done (-2) rl') \<and> (\<exists>rl'. dtls_dispatch mac_fs (mac_rl False) (demo_event 0 0 []) = Again rl')"
proof -
  have w: "wrong_mac mac_fs (mac_rl etm) 20" "fst (dtls_record_replay_check (mac_rl etm) (rl_bitmap (mac_rl etm)))" for etm
    by (simp add: wrong_mac_def mac_fs_def mac_rl_def demo_rl_def zero_rrec_def replicate_eq_replicate)
      (simp add: dtls_record_replay_check_def mac_rl_def demo_rl_def satsub64be_eq be_value_def Let_def)
  then show ?thesis
    using forged_record_handling [of "mac_rl True" 20 mac_fs "demo_event 0 0 []"] forged_record_handling [of "mac_rl False" 20 mac_fs "demo_event 0 0 []"]
    by (auto simp: mac_rl_def mac_fs_def demo_rl_def zero_rrec_def)
qed

text \<open>
  The sequence number that enters the MAC of each record is incremented by one as a 64-bit big-endian
  counter, and the one step that would repeat a number is reported as a failure with a fatal alert.\<close>

theorem sequence_ctr_increments:
  assumes "length (rl_sequence rl) = 8"
  shows "tls_increment_sequence_ctr rl =
    (if be_value (rl_sequence rl) + 1 = 2 ^ 64 then (False, rl\<lparr>rl_sequence := replicate 8 0, rl_alert := True\<rparr>)
     else (True, rl\<lparr>rl_sequence := be_bytes 8 (be_value (rl_sequence rl) + 1)\<rparr>))"
  by (rule increment_ctr [OF assms])

theorem sequence_ctr_increments_witness:
  "tls_increment_sequence_ctr demo_rl = (True, demo_rl\<lparr>rl_sequence := be_bytes 8 1\<rparr>)"
  using sequence_ctr_increments [of demo_rl] by (simp add: demo_rl_def be_value_def)

end
