(* ===== verification/Statem.thy ===== *)
theory Statem
  imports Prelude
begin

text \<open>
  The types of the handshake state machine (\<open>include/internal/statem.h\<close>, \<open>ssl/statem/statem_local.h\<close>,
  the enumeration of states in \<open>include/openssl/ssl.h.in\<close>), the part of a connection it reads and
  writes, and the small functions of \<open>ssl/statem/statem.c\<close> that the two sides and the rest of the
  library call.

  A connection is the record \<open>SSL\<close>. Its field \<open>c_world\<close> stands for everything the state machine does
  not look at itself: the transport, the transcript, the keys, the rest of the session. The functions
  it calls that work on these are an environment \<open>env\<close>, a parameter of every operation: each call is
  named by a constructor of \<open>callee\<close>, \<open>work_callee\<close>, \<open>process_fn\<close> or \<open>confunc\<close> and may change the connection.
  An alert given to \<open>ssl3_send_alert\<close> is recorded in \<open>c_alerts\<close>.
\<close>

section \<open>States and constants\<close>

datatype OSSL_HANDSHAKE_STATE =
    TLS_ST_BEFORE | TLS_ST_OK | DTLS_ST_CR_HELLO_VERIFY_REQUEST | TLS_ST_CR_SRVR_HELLO
  | TLS_ST_CR_CERT | TLS_ST_CR_COMP_CERT | TLS_ST_CR_CERT_STATUS | TLS_ST_CR_KEY_EXCH
  | TLS_ST_CR_CERT_REQ | TLS_ST_CR_SRVR_DONE | TLS_ST_CR_SESSION_TICKET | TLS_ST_CR_CHANGE
  | TLS_ST_CR_FINISHED | TLS_ST_CW_CLNT_HELLO | TLS_ST_CW_CERT | TLS_ST_CW_COMP_CERT
  | TLS_ST_CW_KEY_EXCH | TLS_ST_CW_CERT_VRFY | TLS_ST_CW_CHANGE | TLS_ST_CW_NEXT_PROTO
  | TLS_ST_CW_FINISHED | TLS_ST_SW_HELLO_REQ | TLS_ST_SR_CLNT_HELLO | DTLS_ST_SW_HELLO_VERIFY_REQUEST
  | TLS_ST_SW_SRVR_HELLO | TLS_ST_SW_CERT | TLS_ST_SW_COMP_CERT | TLS_ST_SW_KEY_EXCH
  | TLS_ST_SW_CERT_REQ | TLS_ST_SW_SRVR_DONE | TLS_ST_SR_CERT | TLS_ST_SR_COMP_CERT
  | TLS_ST_SR_KEY_EXCH | TLS_ST_SR_CERT_VRFY | TLS_ST_SR_NEXT_PROTO | TLS_ST_SR_CHANGE
  | TLS_ST_SR_FINISHED | TLS_ST_SW_SESSION_TICKET | TLS_ST_SW_CERT_STATUS | TLS_ST_SW_CHANGE
  | TLS_ST_SW_FINISHED | TLS_ST_SW_ENCRYPTED_EXTENSIONS | TLS_ST_CR_ENCRYPTED_EXTENSIONS | TLS_ST_CR_CERT_VRFY
  | TLS_ST_SW_CERT_VRFY | TLS_ST_CR_HELLO_REQ | TLS_ST_SW_KEY_UPDATE | TLS_ST_CW_KEY_UPDATE
  | TLS_ST_SR_KEY_UPDATE | TLS_ST_CR_KEY_UPDATE | TLS_ST_EARLY_DATA | TLS_ST_PENDING_EARLY_DATA_END
  | TLS_ST_CW_END_OF_EARLY_DATA | TLS_ST_SR_END_OF_EARLY_DATA

datatype WORK_STATE = WORK_ERROR | WORK_FINISHED_STOP | WORK_FINISHED_CONTINUE | WORK_MORE_A | WORK_MORE_B | WORK_MORE_C

datatype WRITE_TRAN = WRITE_TRAN_ERROR | WRITE_TRAN_CONTINUE | WRITE_TRAN_FINISHED

datatype MSG_FLOW_STATE = MSG_FLOW_UNINITED | MSG_FLOW_ERROR | MSG_FLOW_READING | MSG_FLOW_WRITING | MSG_FLOW_FINISHED

datatype READ_STATE = READ_STATE_HEADER | READ_STATE_BODY | READ_STATE_POST_PROCESS

datatype WRITE_STATE = WRITE_STATE_TRANSITION | WRITE_STATE_PRE_WORK | WRITE_STATE_SEND | WRITE_STATE_POST_WORK

datatype CON_FUNC_RETURN = CON_FUNC_ERROR | CON_FUNC_SUCCESS | CON_FUNC_DONT_SEND

datatype MSG_PROCESS_RETURN =
  MSG_PROCESS_ERROR | MSG_PROCESS_FINISHED_READING | MSG_PROCESS_CONTINUE_PROCESSING | MSG_PROCESS_CONTINUE_READING

datatype SUB_STATE_RETURN = SUB_STATE_ERROR | SUB_STATE_FINISHED | SUB_STATE_END_HANDSHAKE

datatype SSL_PHA_STATE = SSL_PHA_NONE | SSL_PHA_EXT_SENT | SSL_PHA_EXT_RECEIVED | SSL_PHA_REQUEST_PENDING | SSL_PHA_REQUESTED

datatype SSL_EARLY_DATA_STATE =
    SSL_EARLY_DATA_NONE | SSL_EARLY_DATA_CONNECT_RETRY | SSL_EARLY_DATA_CONNECTING | SSL_EARLY_DATA_WRITE_RETRY
  | SSL_EARLY_DATA_WRITING | SSL_EARLY_DATA_WRITE_FLUSH | SSL_EARLY_DATA_UNAUTH_WRITING | SSL_EARLY_DATA_FINISHED_WRITING
  | SSL_EARLY_DATA_ACCEPT_RETRY | SSL_EARLY_DATA_ACCEPTING | SSL_EARLY_DATA_READ_RETRY | SSL_EARLY_DATA_READING
  | SSL_EARLY_DATA_FINISHED_READING

datatype HELLO_RETRY_REQUEST = SSL_HRR_NONE | SSL_HRR_PENDING | SSL_HRR_COMPLETE

datatype EXT_EARLY_DATA = SSL_EARLY_DATA_NOT_SENT | SSL_EARLY_DATA_REJECTED | SSL_EARLY_DATA_ACCEPTED

datatype RWSTATE = SSL_NOTHING | SSL_WRITING | SSL_READING

abbreviation (input) SSL3_MT_HELLO_REQUEST :: int where "SSL3_MT_HELLO_REQUEST \<equiv> 0"
abbreviation (input) SSL3_MT_CLIENT_HELLO :: int where "SSL3_MT_CLIENT_HELLO \<equiv> 1"
abbreviation (input) SSL3_MT_SERVER_HELLO :: int where "SSL3_MT_SERVER_HELLO \<equiv> 2"
abbreviation (input) SSL3_MT_NEWSESSION_TICKET :: int where "SSL3_MT_NEWSESSION_TICKET \<equiv> 4"
abbreviation (input) SSL3_MT_END_OF_EARLY_DATA :: int where "SSL3_MT_END_OF_EARLY_DATA \<equiv> 5"
abbreviation (input) SSL3_MT_ENCRYPTED_EXTENSIONS :: int where "SSL3_MT_ENCRYPTED_EXTENSIONS \<equiv> 8"
abbreviation (input) SSL3_MT_CERTIFICATE :: int where "SSL3_MT_CERTIFICATE \<equiv> 11"
abbreviation (input) SSL3_MT_SERVER_KEY_EXCHANGE :: int where "SSL3_MT_SERVER_KEY_EXCHANGE \<equiv> 12"
abbreviation (input) SSL3_MT_CERTIFICATE_REQUEST :: int where "SSL3_MT_CERTIFICATE_REQUEST \<equiv> 13"
abbreviation (input) SSL3_MT_SERVER_DONE :: int where "SSL3_MT_SERVER_DONE \<equiv> 14"
abbreviation (input) SSL3_MT_CERTIFICATE_VERIFY :: int where "SSL3_MT_CERTIFICATE_VERIFY \<equiv> 15"
abbreviation (input) SSL3_MT_CLIENT_KEY_EXCHANGE :: int where "SSL3_MT_CLIENT_KEY_EXCHANGE \<equiv> 16"
abbreviation (input) SSL3_MT_FINISHED :: int where "SSL3_MT_FINISHED \<equiv> 20"
abbreviation (input) SSL3_MT_CERTIFICATE_STATUS :: int where "SSL3_MT_CERTIFICATE_STATUS \<equiv> 22"
abbreviation (input) SSL3_MT_KEY_UPDATE :: int where "SSL3_MT_KEY_UPDATE \<equiv> 24"
abbreviation (input) SSL3_MT_COMPRESSED_CERTIFICATE :: int where "SSL3_MT_COMPRESSED_CERTIFICATE \<equiv> 25"
abbreviation (input) SSL3_MT_CHANGE_CIPHER_SPEC :: int where "SSL3_MT_CHANGE_CIPHER_SPEC \<equiv> 257"
abbreviation (input) DTLS1_MT_HELLO_VERIFY_REQUEST :: int where "DTLS1_MT_HELLO_VERIFY_REQUEST \<equiv> 3"
abbreviation (input) SSL3_MT_DUMMY :: int where "SSL3_MT_DUMMY \<equiv> -1"

abbreviation (input) SSL_kDHE :: uint where "SSL_kDHE \<equiv> 0x2"
abbreviation (input) SSL_kECDHE :: uint where "SSL_kECDHE \<equiv> 0x4"
abbreviation (input) SSL_kPSK :: uint where "SSL_kPSK \<equiv> 0x8"
abbreviation (input) SSL_kRSAPSK :: uint where "SSL_kRSAPSK \<equiv> 0x40"
abbreviation (input) SSL_kECDHEPSK :: uint where "SSL_kECDHEPSK \<equiv> 0x80"
abbreviation (input) SSL_kDHEPSK :: uint where "SSL_kDHEPSK \<equiv> 0x100"
abbreviation (input) SSL_PSK :: uint where "SSL_PSK \<equiv> 0x1C8"
abbreviation (input) SSL_aNULL :: uint where "SSL_aNULL \<equiv> 0x4"
abbreviation (input) SSL_aPSK :: uint where "SSL_aPSK \<equiv> 0x10"
abbreviation (input) SSL_VERIFY_PEER :: uint where "SSL_VERIFY_PEER \<equiv> 1"
abbreviation (input) SSL_VERIFY_FAIL_IF_NO_PEER_CERT :: uint where "SSL_VERIFY_FAIL_IF_NO_PEER_CERT \<equiv> 2"
abbreviation (input) SSL_VERIFY_CLIENT_ONCE :: uint where "SSL_VERIFY_CLIENT_ONCE \<equiv> 4"
abbreviation (input) SSL_VERIFY_POST_HANDSHAKE :: uint where "SSL_VERIFY_POST_HANDSHAKE \<equiv> 8"
abbreviation (input) SSL_SENT_SHUTDOWN :: uint where "SSL_SENT_SHUTDOWN \<equiv> 1"
abbreviation (input) TLS1_FLAGS_SKIP_CERT_VERIFY :: ulong where "TLS1_FLAGS_SKIP_CERT_VERIFY \<equiv> 0x10"
abbreviation (input) TLS1_FLAGS_STATELESS :: ulong where "TLS1_FLAGS_STATELESS \<equiv> 0x800"
abbreviation (input) TLS1_FLAGS_QUIC :: ulong where "TLS1_FLAGS_QUIC \<equiv> 0x2000"
abbreviation (input) SSL_OP_COOKIE_EXCHANGE :: ulong where "SSL_OP_COOKIE_EXCHANGE \<equiv> 0x2000"
abbreviation (input) SSL_OP_ENABLE_MIDDLEBOX_COMPAT :: ulong where "SSL_OP_ENABLE_MIDDLEBOX_COMPAT \<equiv> 0x100000"
abbreviation (input) SSL_OP_NO_TX_CERTIFICATE_COMPRESSION :: ulong where "SSL_OP_NO_TX_CERTIFICATE_COMPRESSION \<equiv> 0x100000000"
abbreviation (input) SSL3_VERSION :: nat where "SSL3_VERSION \<equiv> 768"
abbreviation (input) TLS1_VERSION :: nat where "TLS1_VERSION \<equiv> 769"
abbreviation (input) TLS1_3_VERSION :: nat where "TLS1_3_VERSION \<equiv> 772"
abbreviation (input) TLS_ANY_VERSION :: nat where "TLS_ANY_VERSION \<equiv> 65536"
abbreviation (input) DTLS1_VERSION :: nat where "DTLS1_VERSION \<equiv> 65279"
abbreviation (input) DTLS1_BAD_VER :: nat where "DTLS1_BAD_VER \<equiv> 256"
abbreviation (input) SSL_AD_NO_ALERT :: int where "SSL_AD_NO_ALERT \<equiv> -1"
abbreviation (input) SSL_AD_UNEXPECTED_MESSAGE :: int where "SSL_AD_UNEXPECTED_MESSAGE \<equiv> 10"
abbreviation (input) SSL_AD_HANDSHAKE_FAILURE :: int where "SSL_AD_HANDSHAKE_FAILURE \<equiv> 40"
abbreviation (input) SSL_AD_ILLEGAL_PARAMETER :: int where "SSL_AD_ILLEGAL_PARAMETER \<equiv> 47"
abbreviation (input) SSL_AD_INTERNAL_ERROR :: int where "SSL_AD_INTERNAL_ERROR \<equiv> 80"
abbreviation (input) SSL_KEY_UPDATE_NONE :: int where "SSL_KEY_UPDATE_NONE \<equiv> -1"
abbreviation (input) SSL_SESS_CACHE_CLIENT :: uint where "SSL_SESS_CACHE_CLIENT \<equiv> 1"
abbreviation (input) TLSEXT_cert_type_x509 :: int where "TLSEXT_cert_type_x509 \<equiv> 0"

section \<open>The connection\<close>

record OSSL_STATEM =
  st_state :: MSG_FLOW_STATE
  st_write_state :: WRITE_STATE
  st_write_state_work :: WORK_STATE
  st_read_state :: READ_STATE
  st_read_state_work :: WORK_STATE
  st_hand_state :: OSSL_HANDSHAKE_STATE
  st_request_state :: OSSL_HANDSHAKE_STATE
  st_in_init :: bool
  st_read_state_first_init :: bool
  st_in_handshake :: int
  st_cleanuphand :: bool
  st_no_cert_verify :: bool
  st_use_timer :: bool

record SSL_CIPHER =
  cipher_id :: uint
  algorithm_mkey :: uint
  algorithm_auth :: uint

text \<open>The fields of \<open>s->s3\<close> and \<open>s->s3.tmp\<close>, of \<open>s->ext\<close> and of \<open>s->session\<close>; a pointer only tested for NULL is a flag. The array
  \<open>compress_certificate_from_peer\<close>, terminated by \<open>TLSEXT_comp_cert_none\<close>, is the list of its entries before the terminator;
  \<open>s3_tmp_cert\<close> tells for which algorithms the current certificate has a compressed form.\<close>

record SSL3_STATE =
  s3_flags :: ulong
  s3_new_cipher :: SSL_CIPHER
  s3_cert_req :: nat
  s3_cert_request :: bool
  s3_message_size :: nat
  s3_finish_md_len :: nat
  s3_peer_finish_md_len :: nat
  s3_previous_server_finished_len :: nat
  s3_in_read_app_data :: bool
  s3_total_renegotiations :: nat
  s3_change_cipher_spec :: bool
  s3_tmp_cert :: "(int \<Rightarrow> bool) option"
  s3_new_compression :: "nat option"

record SSL_EXT =
  ext_compress_certificate_sent :: bool
  ext_compress_certificate_from_peer :: "int list"
  ext_ticket_expected :: bool
  ext_status_expected :: bool
  ext_session_secret_cb :: bool
  ext_early_data :: EXT_EARLY_DATA
  ext_client_cert_type :: int
  ext_server_cert_type :: int
  ext_extra_tickets_expected :: nat

record SSL_SESSION =
  sess_tick :: bool
  sess_peer :: bool
  sess_peer_rpk :: bool
  sess_cipher :: "SSL_CIPHER option"
  sess_compress_meth :: nat

record DTLS1_STATE =
  d1_handshake_read_seq :: nat
  d1_handshake_write_seq :: nat
  d1_next_handshake_write_seq :: nat

datatype HANDSHAKE_FUNC = HS_ossl_statem_accept | HS_ossl_statem_connect

record 'w SSL =
  c_statem :: OSSL_STATEM
  c_s3 :: SSL3_STATE
  c_ext :: SSL_EXT
  c_session :: SSL_SESSION
  c_server :: bool
  c_version :: nat
  c_method_version :: nat
  c_method_dtls :: bool
  c_quic_method :: bool
  c_hit :: bool
  c_post_handshake_auth :: SSL_PHA_STATE
  c_shutdown :: uint
  c_early_data_state :: SSL_EARLY_DATA_STATE
  c_hello_retry_request :: HELLO_RETRY_REQUEST
  c_options :: ulong
  c_key_update :: int
  c_renegotiate :: bool
  c_init_num :: nat
  c_rwstate :: RWSTATE
  c_max_early_data :: nat
  c_first_packet :: bool
  c_max_cert_list :: nat
  c_verify_mode :: uint
  c_certreqs_sent :: nat
  c_sent_tickets :: nat
  c_num_tickets :: nat
  c_psk_identity_hint :: bool
  c_cookie_verified :: bool
  c_rl_set_in_init :: bool
  c_rl_in_init :: bool
  c_new_session :: bool
  c_session_cache_mode :: uint
  c_handshake_func :: "HANDSHAKE_FUNC option"
  c_d1 :: DTLS1_STATE
  c_alerts :: "int list"
  c_world :: 'w

abbreviation hand :: "'w SSL \<Rightarrow> OSSL_HANDSHAKE_STATE" where
  "hand s \<equiv> st_hand_state (c_statem s)"

abbreviation flow :: "'w SSL \<Rightarrow> MSG_FLOW_STATE" where
  "flow s \<equiv> st_state (c_statem s)"

definition set_hand :: "OSSL_HANDSHAKE_STATE \<Rightarrow> 'w SSL \<Rightarrow> 'w SSL" where
  "set_hand h s = s\<lparr>c_statem := (c_statem s)\<lparr>st_hand_state := h\<rparr>\<rparr>"

text \<open>The macros of \<open>ssl/ssl_local.h\<close> that the state machine uses.\<close>

definition SSL_CONNECTION_IS_DTLS :: "'w SSL \<Rightarrow> bool" where
  "SSL_CONNECTION_IS_DTLS s = c_method_dtls s"

definition SSL_CONNECTION_IS_TLS13 :: "'w SSL \<Rightarrow> bool" where
  "SSL_CONNECTION_IS_TLS13 s =
     (\<not> SSL_CONNECTION_IS_DTLS s \<and> c_method_version s \<ge> TLS1_3_VERSION \<and> c_method_version s \<noteq> TLS_ANY_VERSION)"

definition SSL_CONNECTION_IS_QUIC :: "'w SSL \<Rightarrow> bool" where
  "SSL_CONNECTION_IS_QUIC s = c_quic_method s"

definition SSL_IS_QUIC_HANDSHAKE :: "'w SSL \<Rightarrow> bool" where
  "SSL_IS_QUIC_HANDSHAKE s = (s3_flags (c_s3 s) AND TLS1_FLAGS_QUIC \<noteq> 0)"

definition SSL_IS_FIRST_HANDSHAKE :: "'w SSL \<Rightarrow> bool" where
  "SSL_IS_FIRST_HANDSHAKE s = (s3_finish_md_len (c_s3 s) = 0 \<or> s3_peer_finish_md_len (c_s3 s) = 0)"

section \<open>The environment\<close>

text \<open>The functions called for their effect and an \<open>int\<close> result, by name, with the arguments that matter.\<close>

datatype callee =
    F_ssl3_init_finished_mac | F_bio_flush | F_quic_flush_flight | F_ssl3_renegotiate_check | F_tls_setup_handshake
  | F_tls13_restore_handshake_digest_for_pha | F_tls13_save_handshake_digest_for_pha | F_ssl_set_new_record_layer
  | F_tls13_change_cipher_state nat | F_change_cipher_state nat | F_setup_key_block | F_generate_master_secret
  | F_tls_client_key_exchange_post_work | F_tls13_update_key | F_dtls1_clear_sent_buffer | F_set_plain_alerts
  | F_set_retry_read | F_conn_is_closed | F_ssl_clear | F_ssl_security | F_init_buf | F_ssl_init_wbio_buffer | F_info_callback
  | F_dtls1_stop_timer | F_dtls1_start_timer | F_grow_init_buf | F_dtls1_do_write_ccs | F_ssl3_do_write_ccs | F_ssl_do_write
  | F_ssl_set_handshake_header int | F_ssl_close_construct_packet int
  | F_free_init_buf | F_ssl_free_wbio_buffer | F_ssl3_cleanup_key_block | F_ssl_update_cache_server | F_ssl_update_cache_client
  | F_SSL_CTX_remove_session | F_dtls1_clear_received_buffer | F_ssl3_take_mac | F_ssl3_finish_mac nat | F_msg_callback nat

datatype work_callee =
    W_tls_post_process_server_certificate | W_tls_prepare_client_certificate
  | W_tls_post_process_client_hello | W_tls_post_process_client_key_exchange

datatype process_fn =
    P_tls_process_server_hello | P_dtls_process_hello_verify | P_tls_process_server_certificate
  | P_tls_process_server_compressed_certificate | P_tls_process_cert_verify | P_tls_process_cert_status
  | P_tls_process_key_exchange | P_tls_process_certificate_request | P_tls_process_server_done
  | P_tls_process_change_cipher_spec | P_tls_process_new_session_ticket | P_tls_process_finished | P_tls_process_hello_req
  | P_tls_process_encrypted_extensions | P_tls_process_key_update | P_tls_process_client_hello
  | P_tls_process_end_of_early_data | P_tls_process_client_certificate | P_tls_process_client_compressed_certificate
  | P_tls_process_client_key_exchange

datatype confunc =
    C_dtls_construct_change_cipher_spec | C_tls_construct_change_cipher_spec | C_tls_construct_client_hello
  | C_tls_construct_end_of_early_data | C_tls_construct_client_certificate | C_tls_construct_client_compressed_certificate
  | C_tls_construct_client_key_exchange | C_tls_construct_cert_verify | C_tls_construct_finished | C_tls_construct_key_update
  | C_dtls_construct_hello_verify_request | C_tls_construct_server_hello | C_tls_construct_server_certificate
  | C_tls_construct_server_compressed_certificate | C_tls_construct_server_key_exchange | C_tls_construct_certificate_request
  | C_tls_construct_server_done | C_tls_construct_new_session_ticket | C_tls_construct_cert_status
  | C_tls_construct_encrypted_extensions

datatype get_fn = G_dtls | G_quic | G_tls

text \<open>
  \<open>e_get_message\<close> reads a message or its header and yields its type, \<open>e_get_message_body\<close> the rest with its
  length; \<open>None\<close> is the return value 0.
\<close>

record 'w env =
  e_int :: "callee \<Rightarrow> 'w SSL \<Rightarrow> int \<times> 'w SSL"
  e_work :: "work_callee \<Rightarrow> WORK_STATE \<Rightarrow> 'w SSL \<Rightarrow> WORK_STATE \<times> 'w SSL"
  e_process :: "process_fn \<Rightarrow> nat \<Rightarrow> 'w SSL \<Rightarrow> MSG_PROCESS_RETURN \<times> 'w SSL"
  e_construct :: "confunc \<Rightarrow> 'w SSL \<Rightarrow> CON_FUNC_RETURN \<times> 'w SSL"
  e_get_message :: "get_fn \<Rightarrow> 'w SSL \<Rightarrow> int option \<times> 'w SSL"
  e_get_message_body :: "get_fn \<Rightarrow> 'w SSL \<Rightarrow> nat option \<times> 'w SSL"

section \<open>The small functions of statem.c\<close>

definition ossl_statem_set_in_init :: "'w SSL \<Rightarrow> bool \<Rightarrow> 'w SSL" where
  "ossl_statem_set_in_init s init =
     s\<lparr>c_statem := (c_statem s)\<lparr>st_in_init := init\<rparr>,
       c_rl_in_init := (if c_rl_set_in_init s then init else c_rl_in_init s)\<rparr>"

definition SSL_get_state :: "'w SSL \<Rightarrow> OSSL_HANDSHAKE_STATE" where
  "SSL_get_state s = hand s"

definition SSL_in_init :: "'w SSL \<Rightarrow> bool" where
  "SSL_in_init s = st_in_init (c_statem s)"

definition SSL_is_init_finished :: "'w SSL \<Rightarrow> bool" where
  "SSL_is_init_finished s = (\<not> st_in_init (c_statem s) \<and> hand s = TLS_ST_OK)"

definition SSL_in_before :: "'w SSL \<Rightarrow> bool" where
  "SSL_in_before s = (hand s = TLS_ST_BEFORE \<and> flow s = MSG_FLOW_UNINITED)"

definition ossl_statem_clear :: "'w SSL \<Rightarrow> 'w SSL" where
  "ossl_statem_clear s =
     (let s = s\<lparr>c_statem := (c_statem s)\<lparr>st_state := MSG_FLOW_UNINITED, st_hand_state := TLS_ST_BEFORE\<rparr>\<rparr>;
          s = ossl_statem_set_in_init s True
      in s\<lparr>c_statem := (c_statem s)\<lparr>st_no_cert_verify := False\<rparr>\<rparr>)"

definition ossl_statem_set_renegotiate :: "'w SSL \<Rightarrow> 'w SSL" where
  "ossl_statem_set_renegotiate s =
     (let s = ossl_statem_set_in_init s True
      in s\<lparr>c_statem := (c_statem s)\<lparr>st_request_state := TLS_ST_SW_HELLO_REQ\<rparr>\<rparr>)"

definition ossl_statem_send_fatal :: "'w SSL \<Rightarrow> int \<Rightarrow> 'w SSL" where
  "ossl_statem_send_fatal s al =
     (if st_in_init (c_statem s) \<and> flow s = MSG_FLOW_ERROR then s
      else
        let s = ossl_statem_set_in_init s True;
            s = s\<lparr>c_statem := (c_statem s)\<lparr>st_state := MSG_FLOW_ERROR\<rparr>\<rparr>
        in if al \<noteq> SSL_AD_NO_ALERT then s\<lparr>c_alerts := al # c_alerts s\<rparr> else s)"

definition ossl_statem_fatal :: "'w SSL \<Rightarrow> int \<Rightarrow> 'w SSL" where
  "ossl_statem_fatal s al = ossl_statem_send_fatal s al"

abbreviation SSLfatal :: "'w SSL \<Rightarrow> int \<Rightarrow> 'w SSL" where
  "SSLfatal s al \<equiv> ossl_statem_fatal s al"

definition check_fatal :: "'w SSL \<Rightarrow> 'w SSL" where
  "check_fatal s =
     (if \<not> (st_in_init (c_statem s) \<and> flow s = MSG_FLOW_ERROR) then SSLfatal s SSL_AD_INTERNAL_ERROR else s)"

definition ossl_statem_in_error :: "'w SSL \<Rightarrow> bool" where
  "ossl_statem_in_error s = (flow s = MSG_FLOW_ERROR)"

definition ossl_statem_set_in_handshake :: "'w SSL \<Rightarrow> bool \<Rightarrow> 'w SSL" where
  "ossl_statem_set_in_handshake s inhand =
     s\<lparr>c_statem := (c_statem s)\<lparr>st_in_handshake := (if inhand then st_in_handshake (c_statem s) + 1 else st_in_handshake (c_statem s) - 1)\<rparr>\<rparr>"

definition ossl_statem_skip_early_data :: "'w SSL \<Rightarrow> bool" where
  "ossl_statem_skip_early_data s =
     (if ext_early_data (c_ext s) \<noteq> SSL_EARLY_DATA_REJECTED then False
      else if \<not> c_server s \<or> hand s \<noteq> TLS_ST_EARLY_DATA \<or> c_hello_retry_request s = SSL_HRR_COMPLETE then False
      else True)"

definition ossl_statem_check_finish_init :: "'w SSL \<Rightarrow> int \<Rightarrow> 'w SSL" where
  "ossl_statem_check_finish_init s sending =
     (if sending = -1 then
        if hand s = TLS_ST_PENDING_EARLY_DATA_END \<or> hand s = TLS_ST_EARLY_DATA then
          let s = ossl_statem_set_in_init s True in
          if c_early_data_state s = SSL_EARLY_DATA_WRITE_RETRY then s\<lparr>c_early_data_state := SSL_EARLY_DATA_FINISHED_WRITING\<rparr> else s
        else s
      else if \<not> c_server s then
        if sending \<noteq> 0 \<and> (hand s = TLS_ST_PENDING_EARLY_DATA_END \<or> hand s = TLS_ST_EARLY_DATA)
             \<and> c_early_data_state s \<noteq> SSL_EARLY_DATA_WRITING
           \<or> sending = 0 \<and> hand s = TLS_ST_EARLY_DATA then
          let s = ossl_statem_set_in_init s True in
          if sending \<noteq> 0 \<and> c_early_data_state s = SSL_EARLY_DATA_WRITE_RETRY
          then s\<lparr>c_early_data_state := SSL_EARLY_DATA_FINISHED_WRITING\<rparr> else s
        else s
      else
        if c_early_data_state s = SSL_EARLY_DATA_FINISHED_READING \<and> hand s = TLS_ST_EARLY_DATA
        then ossl_statem_set_in_init s True else s)"

definition ossl_statem_set_hello_verify_done :: "'w SSL \<Rightarrow> 'w SSL" where
  "ossl_statem_set_hello_verify_done s =
     set_hand TLS_ST_SR_CLNT_HELLO
       (ossl_statem_set_in_init (s\<lparr>c_statem := (c_statem s)\<lparr>st_state := MSG_FLOW_UNINITED\<rparr>\<rparr>) True)"

definition ossl_statem_app_data_allowed :: "'w SSL \<Rightarrow> bool" where
  "ossl_statem_app_data_allowed s =
     (if flow s = MSG_FLOW_UNINITED then False
      else if \<not> s3_in_read_app_data (c_s3 s) \<or> s3_total_renegotiations (c_s3 s) = 0 then False
      else if c_server s then hand s = TLS_ST_BEFORE \<or> hand s = TLS_ST_SR_CLNT_HELLO
      else hand s = TLS_ST_CW_CLNT_HELLO)"

definition ossl_statem_export_allowed :: "'w SSL \<Rightarrow> bool" where
  "ossl_statem_export_allowed s =
     (s3_previous_server_finished_len (c_s3 s) \<noteq> 0 \<and> hand s \<noteq> TLS_ST_SW_FINISHED)"

definition ossl_statem_export_early_allowed :: "'w SSL \<Rightarrow> bool" where
  "ossl_statem_export_early_allowed s =
     (ext_early_data (c_ext s) = SSL_EARLY_DATA_ACCEPTED
      \<or> \<not> c_server s \<and> ext_early_data (c_ext s) \<noteq> SSL_EARLY_DATA_NOT_SENT)"

text \<open>\<open>statem_flush\<close>, over the flush of the transport or of the QUIC callbacks.\<close>

definition statem_flush :: "'w env \<Rightarrow> 'w SSL \<Rightarrow> bool \<times> 'w SSL" where
  "statem_flush E s =
     (let s = s\<lparr>c_rwstate := SSL_WRITING\<rparr>;
          (r, s) = (if SSL_CONNECTION_IS_QUIC s then e_int E F_quic_flush_flight s else e_int E F_bio_flush s)
      in if SSL_CONNECTION_IS_QUIC s \<and> r = 0 \<or> \<not> SSL_CONNECTION_IS_QUIC s \<and> r \<le> 0 then (False, s)
         else (True, s\<lparr>c_rwstate := SSL_NOTHING\<rparr>))"

text \<open>
  The end of a handshake, \<open>tls_finish_handshake\<close> of \<open>ssl/statem/statem_lib.c\<close>; the counters of the statistics are not
  kept. The flag of \<open>finish_clearbufs\<close> is false when the first block returns \<open>WORK_ERROR\<close>.
\<close>

definition call :: "'w env \<Rightarrow> callee \<Rightarrow> 'w SSL \<Rightarrow> 'w SSL" where
  "call E f s = snd (e_int E f s)"

definition finish_clearbufs :: "'w env \<Rightarrow> 'w SSL \<Rightarrow> bool \<times> 'w SSL" where
  "finish_clearbufs E s =
     (case e_int E F_ssl_free_wbio_buffer (if \<not> SSL_CONNECTION_IS_DTLS s then call E F_free_init_buf s else s) of
        (r, s) \<Rightarrow> if r = 0 then (False, SSLfatal s SSL_AD_INTERNAL_ERROR) else (True, s\<lparr>c_init_num := 0\<rparr>))"

definition finish_cleanuphand :: "'w env \<Rightarrow> 'w SSL \<Rightarrow> 'w SSL" where
  "finish_cleanuphand E s =
     (let s = s\<lparr>c_renegotiate := False, c_new_session := False, c_statem := (c_statem s)\<lparr>st_cleanuphand := False\<rparr>,
                c_ext := (c_ext s)\<lparr>ext_ticket_expected := False\<rparr>\<rparr>;
          s = call E F_ssl3_cleanup_key_block s;
          s = (if c_server s then
                 (if \<not> SSL_CONNECTION_IS_TLS13 s then call E F_ssl_update_cache_server s else s)\<lparr>c_handshake_func := Some HS_ossl_statem_accept\<rparr>
               else
                 (if SSL_CONNECTION_IS_TLS13 s then
                    if c_session_cache_mode s AND SSL_SESS_CACHE_CLIENT \<noteq> 0 then call E F_SSL_CTX_remove_session s else s
                  else call E F_ssl_update_cache_client s)\<lparr>c_handshake_func := Some HS_ossl_statem_connect\<rparr>)
      in if SSL_CONNECTION_IS_DTLS s
         then call E F_dtls1_clear_received_buffer
                (s\<lparr>c_d1 := \<lparr>d1_handshake_read_seq = 0, d1_handshake_write_seq = 0, d1_next_handshake_write_seq = 0\<rparr>\<rparr>)
         else s)"

definition tls_finish_handshake :: "'w env \<Rightarrow> 'w SSL \<Rightarrow> WORK_STATE \<Rightarrow> bool \<Rightarrow> bool \<Rightarrow> WORK_STATE \<times> 'w SSL" where
  "tls_finish_handshake E s wst clearbufs stop =
     (let cleanuphand = st_cleanuphand (c_statem s) in
      case (if clearbufs then finish_clearbufs E s else (True, s)) of
        (False, s) \<Rightarrow> (WORK_ERROR, s)
      | (True, s) \<Rightarrow>
          let s = (if SSL_CONNECTION_IS_TLS13 s \<and> \<not> c_server s \<and> c_post_handshake_auth s = SSL_PHA_REQUESTED
                   then s\<lparr>c_post_handshake_auth := SSL_PHA_EXT_SENT\<rparr> else s);
              s = (if cleanuphand then finish_cleanuphand E s else s);
              s = ossl_statem_set_in_init s False;
              s = (if cleanuphand \<or> \<not> SSL_CONNECTION_IS_TLS13 s \<or> SSL_IS_FIRST_HANDSHAKE s then call E F_info_callback s else s)
          in if \<not> stop then (WORK_FINISHED_CONTINUE, ossl_statem_set_in_init s True) else (WORK_FINISHED_STOP, s))"

text \<open>
  What a read transition decides: move on, go to the common error exit, or return 0 at once. The
  error exit is the same on both sides.
\<close>

datatype 'w tran = Tran_Ok "'w SSL" | Tran_Err "'w SSL" | Tran_Zero "'w SSL"

definition read_transition_err :: "'w env \<Rightarrow> 'w SSL \<Rightarrow> int \<Rightarrow> bool \<times> 'w SSL" where
  "read_transition_err E s mt =
     (if SSL_CONNECTION_IS_DTLS s \<and> mt = SSL3_MT_CHANGE_CIPHER_SPEC then
        (False, snd (e_int E F_set_retry_read (s\<lparr>c_init_num := 0, c_rwstate := SSL_READING\<rparr>)))
      else (False, SSLfatal s SSL_AD_UNEXPECTED_MESSAGE))"

definition finish_tran :: "'w env \<Rightarrow> int \<Rightarrow> 'w tran \<Rightarrow> bool \<times> 'w SSL" where
  "finish_tran E mt t =
     (case t of Tran_Ok s \<Rightarrow> (True, s) | Tran_Err s \<Rightarrow> read_transition_err E s mt | Tran_Zero s \<Rightarrow> (False, s))"

section \<open>Lemmas\<close>

lemma set_hand_simps [simp]:
  "hand (set_hand h s) = h" "flow (set_hand h s) = flow s" "c_s3 (set_hand h s) = c_s3 s" "c_ext (set_hand h s) = c_ext s"
  "c_session (set_hand h s) = c_session s" "c_server (set_hand h s) = c_server s" "c_version (set_hand h s) = c_version s"
  "c_hit (set_hand h s) = c_hit s" "SSL_CONNECTION_IS_TLS13 (set_hand h s) = SSL_CONNECTION_IS_TLS13 s"
  "SSL_CONNECTION_IS_DTLS (set_hand h s) = SSL_CONNECTION_IS_DTLS s" "c_alerts (set_hand h s) = c_alerts s"
  "st_in_init (c_statem (set_hand h s)) = st_in_init (c_statem s)"
  by (simp_all add: set_hand_def SSL_CONNECTION_IS_TLS13_def SSL_CONNECTION_IS_DTLS_def)

lemma set_in_init_simps [simp]:
  "hand (ossl_statem_set_in_init s b) = hand s" "flow (ossl_statem_set_in_init s b) = flow s"
  "st_in_init (c_statem (ossl_statem_set_in_init s b)) = b" "c_server (ossl_statem_set_in_init s b) = c_server s"
  "c_s3 (ossl_statem_set_in_init s b) = c_s3 s" "c_alerts (ossl_statem_set_in_init s b) = c_alerts s"
  by (simp_all add: ossl_statem_set_in_init_def)

text \<open>After a fatal error the connection is in the error state, the handshake state is as it was, and at most one alert was added.\<close>

lemma SSLfatal_simps [simp]:
  "flow (SSLfatal s al) = MSG_FLOW_ERROR" "st_in_init (c_statem (SSLfatal s al))" "hand (SSLfatal s al) = hand s"
  "c_server (SSLfatal s al) = c_server s" "c_s3 (SSLfatal s al) = c_s3 s"
  "st_in_handshake (c_statem (SSLfatal s al)) = st_in_handshake (c_statem s)"
  by (auto simp: ossl_statem_fatal_def ossl_statem_send_fatal_def ossl_statem_set_in_init_def Let_def)

lemma SSLfatal_once: "SSLfatal (SSLfatal s al) al' = SSLfatal s al"
  by (simp add: ossl_statem_fatal_def [of "SSLfatal s al"] ossl_statem_send_fatal_def [of "SSLfatal s al"])

lemma check_fatal_simps [simp]:
  "flow (check_fatal s) = MSG_FLOW_ERROR" "st_in_init (c_statem (check_fatal s))" "hand (check_fatal s) = hand s"
  "c_server (check_fatal s) = c_server s" "st_in_handshake (c_statem (check_fatal s)) = st_in_handshake (c_statem s)"
  by (auto simp: check_fatal_def)

section \<open>A connection for examples\<close>

definition blank_ssl :: "'w \<Rightarrow> 'w SSL" where
  "blank_ssl w = \<lparr>
     c_statem = \<lparr>st_state = MSG_FLOW_UNINITED, st_write_state = WRITE_STATE_TRANSITION, st_write_state_work = WORK_MORE_A,
       st_read_state = READ_STATE_HEADER, st_read_state_work = WORK_MORE_A, st_hand_state = TLS_ST_BEFORE,
       st_request_state = TLS_ST_BEFORE, st_in_init = True, st_read_state_first_init = False, st_in_handshake = 0,
       st_cleanuphand = False, st_no_cert_verify = False, st_use_timer = False\<rparr>,
     c_s3 = \<lparr>s3_flags = 0, s3_new_cipher = \<lparr>cipher_id = 0, algorithm_mkey = 0, algorithm_auth = 0\<rparr>, s3_cert_req = 0,
       s3_cert_request = False, s3_message_size = 0, s3_finish_md_len = 0, s3_peer_finish_md_len = 0,
       s3_previous_server_finished_len = 0, s3_in_read_app_data = False, s3_total_renegotiations = 0,
       s3_change_cipher_spec = False, s3_tmp_cert = None, s3_new_compression = None\<rparr>,
     c_ext = \<lparr>ext_compress_certificate_sent = False, ext_compress_certificate_from_peer = [], ext_ticket_expected = False,
       ext_status_expected = False, ext_session_secret_cb = False, ext_early_data = SSL_EARLY_DATA_NOT_SENT,
       ext_client_cert_type = 0, ext_server_cert_type = 0, ext_extra_tickets_expected = 0\<rparr>,
     c_session = \<lparr>sess_tick = False, sess_peer = False, sess_peer_rpk = False, sess_cipher = None, sess_compress_meth = 0\<rparr>,
     c_server = False, c_version = TLS1_3_VERSION, c_method_version = TLS1_3_VERSION, c_method_dtls = False,
     c_quic_method = False, c_hit = False, c_post_handshake_auth = SSL_PHA_NONE, c_shutdown = 0,
     c_early_data_state = SSL_EARLY_DATA_NONE, c_hello_retry_request = SSL_HRR_NONE, c_options = 0, c_key_update = SSL_KEY_UPDATE_NONE,
     c_renegotiate = False, c_init_num = 0, c_rwstate = SSL_NOTHING, c_max_early_data = 0, c_first_packet = False,
     c_max_cert_list = 102400, c_verify_mode = 0, c_certreqs_sent = 0, c_sent_tickets = 0, c_num_tickets = 2,
     c_psk_identity_hint = False, c_cookie_verified = False, c_rl_set_in_init = False, c_rl_in_init = False,
     c_new_session = False, c_session_cache_mode = 2, c_handshake_func = None,
     c_d1 = \<lparr>d1_handshake_read_seq = 0, d1_handshake_write_seq = 0, d1_next_handshake_write_seq = 0\<rparr>, c_alerts = [], c_world = w\<rparr>"

text \<open>An environment in which every call succeeds and changes nothing, and nothing arrives.\<close>

definition idle_env :: "'w env" where
  "idle_env = \<lparr>e_int = \<lambda>_ s. (1, s), e_work = \<lambda>_ _ s. (WORK_FINISHED_STOP, s),
     e_process = \<lambda>_ _ s. (MSG_PROCESS_CONTINUE_READING, s), e_construct = \<lambda>_ s. (CON_FUNC_SUCCESS, s),
     e_get_message = \<lambda>_ s. (None, s), e_get_message_body = \<lambda>_ s. (Some 0, s)\<rparr>"

end
