(* ===== verification/DTLS_Read.thy ===== *)
theory DTLS_Read
  imports Packet PQueue Buffer Statem
begin

text \<open>
  Reading from DTLS records: \<open>ssl/record/rec_layer_d1.c\<close> (\<open>dtls1_read_bytes\<close> and the queue of records that arrive
  between ChangeCipherSpec and Finished), \<open>ssl_release_record\<close> and \<open>ossl_tls_handle_rlayer_return\<close> of
  \<open>ssl/record/rec_layer_s3.c\<close>, \<open>dtls1_read_failed\<close> and \<open>dtls1_get_message_header\<close> of \<open>ssl/statem/statem_dtls.c\<close>.

  The state is the record \<open>SSL\<close> of the state machine, whose world is here \<open>dtls_io\<close>: the array of records in hand, the
  queue of buffered ones, and the handshake messages being put together. A record's \<open>data\<close> points to an object that is
  either alive, \<open>Some\<close> bytes, or freed, \<open>None\<close>; reading at least one byte of a freed object is the outcome \<open>Freed\<close>. The record
  method, the timer with its retransmissions, the handshake function and the allocator are the parameters \<open>dtls_ext\<close>.
  One iteration of the loop at the label \<open>start\<close> is a pass; \<open>goto start\<close> is its outcome \<open>Restart\<close>. The application's
  callbacks, the flags of the BIO and the session cache are not modelled.
\<close>

section \<open>State\<close>

abbreviation (input) SSL3_RT_CHANGE_CIPHER_SPEC :: nat where "SSL3_RT_CHANGE_CIPHER_SPEC \<equiv> 20"
abbreviation (input) SSL3_RT_ALERT :: nat where "SSL3_RT_ALERT \<equiv> 21"
abbreviation (input) SSL3_RT_HANDSHAKE :: nat where "SSL3_RT_HANDSHAKE \<equiv> 22"
abbreviation (input) SSL3_RT_APPLICATION_DATA :: nat where "SSL3_RT_APPLICATION_DATA \<equiv> 23"
abbreviation (input) SSL_MAX_PIPELINES :: nat where "SSL_MAX_PIPELINES \<equiv> 32"
abbreviation (input) MAX_WARN_ALERT_COUNT :: nat where "MAX_WARN_ALERT_COUNT \<equiv> 5"
abbreviation (input) DTLS1_HM_HEADER_LENGTH :: nat where "DTLS1_HM_HEADER_LENGTH \<equiv> 12"
abbreviation (input) SSL_RECEIVED_SHUTDOWN :: uint where "SSL_RECEIVED_SHUTDOWN \<equiv> 2"
abbreviation (input) SSL_AD_CLOSE_NOTIFY :: int where "SSL_AD_CLOSE_NOTIFY \<equiv> 0"
abbreviation (input) SSL_AD_DECODE_ERROR :: int where "SSL_AD_DECODE_ERROR \<equiv> 50"
abbreviation (input) SSL_OP_IGNORE_UNEXPECTED_EOF :: ulong where "SSL_OP_IGNORE_UNEXPECTED_EOF \<equiv> 0x80"
abbreviation (input) OSSL_RECORD_RETURN_RETRY :: int where "OSSL_RECORD_RETURN_RETRY \<equiv> 0"
abbreviation (input) OSSL_RECORD_RETURN_NON_FATAL_ERR :: int where "OSSL_RECORD_RETURN_NON_FATAL_ERR \<equiv> -1"
abbreviation (input) OSSL_RECORD_RETURN_FATAL :: int where "OSSL_RECORD_RETURN_FATAL \<equiv> -2"
abbreviation (input) OSSL_RECORD_RETURN_EOF :: int where "OSSL_RECORD_RETURN_EOF \<equiv> -3"

record TLS_RECORD =
  tr_rechandle :: bool
  tr_type :: nat
  tr_data :: "byte list option"
  tr_allocdata :: bool
  tr_length :: nat
  tr_off :: nat
  tr_epoch :: nat
  tr_seq_num :: "byte list"

record hm_header_st =
  hm_type :: byte
  hm_msg_len :: nat
  hm_seq :: nat
  hm_frag_off :: nat
  hm_frag_len :: nat

record hm_fragment =
  hf_msg_header :: hm_header_st
  hf_fragment :: "byte list"
  hf_reassembly :: "byte list option"

record 'e dtls_io =
  io_tlsrecs :: "TLS_RECORD list"
  io_num_recs :: nat
  io_curr_rec :: nat
  io_alert_count :: nat
  io_buffered_app_data :: "TLS_RECORD pqueue"
  io_r_epoch :: nat
  io_warn_alert :: int
  io_fatal_alert :: int
  io_app_data_found :: bool
  io_auto_retry :: bool
  io_message_type :: int
  io_buffered_messages :: "hm_fragment pqueue"
  io_r_msg_hdr :: hm_header_st
  io_init_buf :: BUF_MEM
  io_env :: 'e

type_synonym 'e conn = "'e dtls_io SSL"

text \<open>
  What the functions below call and this theory does not define; a call may change the connection. The allocator grants
  an object of fixed size when \<open>x_mem_obj\<close> holds and \<open>n\<close> bytes when \<open>x_mem n\<close> does.
\<close>

record 'e dtls_ext =
  x_read_record :: "'e conn \<Rightarrow> (int \<times> TLS_RECORD) \<times> 'e conn"
  x_release_record :: "'e conn \<Rightarrow> nat \<Rightarrow> int \<times> 'e conn"
  x_get_alert_code :: "'e conn \<Rightarrow> int"
  x_processed_read_pending :: "'e conn \<Rightarrow> bool"
  x_unprocessed_read_pending :: "'e conn \<Rightarrow> bool"
  x_handle_timeout :: "'e conn \<Rightarrow> int \<times> 'e conn"
  x_is_timer_expired :: "'e conn \<Rightarrow> bool"
  x_check_timeout_num :: "'e conn \<Rightarrow> int \<times> 'e conn"
  x_retransmit_buffered_messages :: "'e conn \<Rightarrow> int \<times> 'e conn"
  x_handshake_func :: "'e conn \<Rightarrow> int \<times> 'e conn"
  x_mem_obj :: bool
  x_mem :: "nat \<Rightarrow> bool"
  x_junk :: "nat \<Rightarrow> byte"

definition io_upd :: "('e dtls_io \<Rightarrow> 'e dtls_io) \<Rightarrow> 'e conn \<Rightarrow> 'e conn" where
  "io_upd f s = s\<lparr>c_world := f (c_world s)\<rparr>"

definition set_rec :: "nat \<Rightarrow> TLS_RECORD \<Rightarrow> 'e conn \<Rightarrow> 'e conn" where
  "set_rec i rr s = io_upd (\<lambda>w. w\<lparr>io_tlsrecs := (io_tlsrecs w)[i := rr]\<rparr>) s"

definition the_rec :: "nat \<Rightarrow> 'e conn \<Rightarrow> TLS_RECORD" where
  "the_rec i s = io_tlsrecs (c_world s) ! i"

section \<open>Records in hand\<close>

text \<open>The translation of a record method's return value.\<close>

definition ossl_tls_handle_rlayer_return :: "'e dtls_ext \<Rightarrow> 'e conn \<Rightarrow> bool \<Rightarrow> int \<Rightarrow> int \<times> 'e conn" where
  "ossl_tls_handle_rlayer_return X s writing ret =
     (if ret = OSSL_RECORD_RETURN_RETRY then (-1, s\<lparr>c_rwstate := (if writing then SSL_WRITING else SSL_READING)\<rparr>)
      else
        let s = s\<lparr>c_rwstate := SSL_NOTHING\<rparr>;
            (ret, s) =
              (if ret = OSSL_RECORD_RETURN_EOF then
                 if writing then (OSSL_RECORD_RETURN_FATAL, SSLfatal s SSL_AD_INTERNAL_ERROR)
                 else if c_options s AND SSL_OP_IGNORE_UNEXPECTED_EOF \<noteq> 0 then
                   (ret, io_upd (\<lambda>w. w\<lparr>io_warn_alert := SSL_AD_CLOSE_NOTIFY\<rparr>) (s\<lparr>c_shutdown := SSL_RECEIVED_SHUTDOWN\<rparr>))
                 else (ret, SSLfatal s SSL_AD_DECODE_ERROR)
               else if ret = OSSL_RECORD_RETURN_FATAL then
                 (ret, if x_get_alert_code X s \<noteq> SSL_AD_NO_ALERT then SSLfatal s (x_get_alert_code X s) else s)
               else (ret, s))
        in (if ret = OSSL_RECORD_RETURN_NON_FATAL_ERR \<or> ret = OSSL_RECORD_RETURN_EOF then 0
            else if ret < OSSL_RECORD_RETURN_NON_FATAL_ERR then -1 else ret, s))"

text \<open>
  \<open>ssl_release_record\<close> on the record \<open>i\<close> of the array. Freeing \<open>allocdata\<close> frees the object \<open>data\<close> points to, whose
  pointer stays as it is.
\<close>

definition consume_rec :: "nat \<Rightarrow> nat \<Rightarrow> 'e conn \<Rightarrow> 'e conn" where
  "consume_rec i len s =
     (let rr = the_rec i s; rest = tr_length rr - len
      in set_rec i (rr\<lparr>tr_length := rest, tr_off := (if rest > 0 then tr_off rr + len else 0)\<rparr>) s)"

definition free_allocdata :: "TLS_RECORD \<Rightarrow> TLS_RECORD" where
  "free_allocdata rr = (if tr_allocdata rr then rr\<lparr>tr_data := None, tr_allocdata := False\<rparr> else rr)"

definition ssl_release_record :: "'e dtls_ext \<Rightarrow> 'e conn \<Rightarrow> nat \<Rightarrow> nat \<Rightarrow> bool \<times> 'e conn" where
  "ssl_release_record X s i len =
     (let rr = the_rec i s in
      if tr_rechandle rr then
        let len = (if len = 0 then tr_length rr else len);
            (ret, s) = x_release_record X s len;
            (ret, s) = ossl_tls_handle_rlayer_return X s False ret
        in if ret \<le> 0 then (False, s)
           else (True, consume_rec i len
                   (if len = tr_length rr then io_upd (\<lambda>w. w\<lparr>io_curr_rec := io_curr_rec w + 1\<rparr>) s else s))
      else (True, consume_rec i len (if len = 0 \<or> len = tr_length rr then set_rec i (free_allocdata rr) s else s)))"

text \<open>The bytes a record still holds from its offset on; \<open>None\<close> when they are not there to be read.\<close>

definition rec_bytes :: "TLS_RECORD \<Rightarrow> nat \<Rightarrow> byte list option" where
  "rec_bytes rr n =
     (if n = 0 then Some []
      else case tr_data rr of
        None \<Rightarrow> None
      | Some d \<Rightarrow> if tr_off rr + n \<le> length d then Some (take n (drop (tr_off rr) d)) else None)"

section \<open>Records between ChangeCipherSpec and Finished\<close>

text \<open>
  The result is the return value of the C function, with the connection; \<open>OPENSSL_memdup\<close> of no bytes yields NULL.
\<close>

definition dtls_buffer_record :: "'e dtls_ext \<Rightarrow> 'e conn \<Rightarrow> TLS_RECORD \<Rightarrow> (int \<times> 'e conn) option" where
  "dtls_buffer_record X s rec =
     (let queue = io_buffered_app_data (c_world s) in
      if pqueue_size queue \<ge> 100 then Some (0, s)
      else if tr_off rec \<noteq> 0 then Some (-1, s)
      else if \<not> x_mem_obj X then Some (-1, SSLfatal s SSL_AD_INTERNAL_ERROR)
      else case rec_bytes rec (tr_length rec) of
        None \<Rightarrow> None
      | Some d \<Rightarrow>
          if tr_length rec = 0 \<or> \<not> x_mem X (tr_length rec) then Some (-1, SSLfatal s SSL_AD_INTERNAL_ERROR)
          else
            let rdata = rec\<lparr>tr_data := Some d, tr_allocdata := True, tr_rechandle := False\<rparr>;
                (_, queue) = pqueue_insert queue \<lparr>i_priority = take 8 (tr_seq_num rec), i_data = rdata\<rparr> []
            in Some (1, io_upd (\<lambda>w. w\<lparr>io_buffered_app_data := queue\<rparr>) s))"

definition dtls_unbuffer_record :: "'e conn \<Rightarrow> 'e conn" where
  "dtls_unbuffer_record s =
     (if io_curr_rec (c_world s) < io_num_recs (c_world s) then s
      else case pqueue_pop (io_buffered_app_data (c_world s)) of
        (None, _) \<Rightarrow> s
      | (Some item, queue) \<Rightarrow>
          io_upd (\<lambda>w. w\<lparr>io_buffered_app_data := queue, io_tlsrecs := (io_tlsrecs w)[0 := i_data item],
                        io_num_recs := 1, io_curr_rec := 0\<rparr>) s)"

text \<open>\<open>DTLS_RECORD_LAYER_clear\<close> empties the queue and resets the epochs.\<close>

function clear_app_data :: "TLS_RECORD pqueue \<Rightarrow> TLS_RECORD pqueue" where
  "clear_app_data q = (case pqueue_pop q of (None, q') \<Rightarrow> q' | (Some _, q') \<Rightarrow> clear_app_data q')"
  by pat_completeness auto

termination clear_app_data
  by (relation "measure length") (auto simp: pqueue_pop_def split: list.splits)

definition DTLS_RECORD_LAYER_clear :: "'e conn \<Rightarrow> 'e conn" where
  "DTLS_RECORD_LAYER_clear s =
     io_upd (\<lambda>w. w\<lparr>io_buffered_app_data := clear_app_data (io_buffered_app_data w), io_r_epoch := 0\<rparr>) s"

section \<open>Reading\<close>

text \<open>The outcome of a pass; a return carries the bytes put into the caller's buffer and the type given back.\<close>

datatype 'e rpass = Restart "'e conn" | Return int "byte list" "nat option" "'e conn" | Freed

definition dtls1_read_failed :: "'e dtls_ext \<Rightarrow> 'e conn \<Rightarrow> int \<Rightarrow> int \<times> 'e conn" where
  "dtls1_read_failed X s code =
     (if code > 0 then (0, SSLfatal s SSL_AD_INTERNAL_ERROR)
      else if \<not> x_is_timer_expired X s \<or> ossl_statem_in_error s then (code, s)
      else if \<not> SSL_in_init s then (code, s)
      else x_handle_timeout X s)"

definition dtls1_get_message_header :: "byte list \<Rightarrow> hm_header_st" where
  "dtls1_get_message_header data =
     \<lparr>hm_type = hd data, hm_msg_len = be_value (take 3 (drop 1 data)), hm_seq = be_value (take 2 (drop 4 data)),
      hm_frag_off = be_value (take 3 (drop 6 data)), hm_frag_len = be_value (take 3 (drop 9 data))\<rparr>"

text \<open>The loop that takes new records from the record method.\<close>

fun fill_recs :: "'e dtls_ext \<Rightarrow> nat \<Rightarrow> 'e conn \<Rightarrow> int \<times> 'e conn" where
  "fill_recs X 0 s = (1, s)"
| "fill_recs X (Suc k) s =
     (let ((ret, rr), s) = x_read_record X s;
          (ret, s) = ossl_tls_handle_rlayer_return X s False ret
      in if ret \<le> 0 then (ret, s)
         else
           let s = set_rec (io_num_recs (c_world s)) (rr\<lparr>tr_off := 0\<rparr>) s;
               s = io_upd (\<lambda>w. w\<lparr>io_num_recs := io_num_recs w + 1\<rparr>) s
           in if x_processed_read_pending X s \<and> io_num_recs (c_world s) < SSL_MAX_PIPELINES then fill_recs X k s
              else (1, s))"

definition drop_rec :: "'e dtls_ext \<Rightarrow> nat \<Rightarrow> 'e conn \<Rightarrow> ('e conn \<Rightarrow> 'e rpass) \<Rightarrow> 'e rpass" where
  "drop_rec X i s k = (case ssl_release_record X s i 0 of (ok, s) \<Rightarrow> if ok then k s else Return (-1) [] None s)"

text \<open>A record of the wanted type, or ChangeCipherSpec for a caller that asks for the type.\<close>

definition take_rec :: "'e dtls_ext \<Rightarrow> nat \<Rightarrow> bool \<Rightarrow> nat \<Rightarrow> bool \<Rightarrow> nat \<Rightarrow> 'e conn \<Rightarrow> 'e rpass" where
  "take_rec X type want_type len peek i s =
     (let rr = the_rec i s in
      if SSL_in_init s \<and> type = SSL3_RT_APPLICATION_DATA \<and> SSL_IS_FIRST_HANDSHAKE s then
        Return (-1) [] None (SSLfatal s SSL_AD_UNEXPECTED_MESSAGE)
      else
        let recvd = (if want_type then Some (tr_type rr) else None) in
        if len = 0 then
          if tr_length rr = 0 then drop_rec X i s (Return 0 [] recvd) else Return 0 [] recvd s
        else
          let n = (if len > tr_length rr then tr_length rr else len) in
          case rec_bytes rr n of
            None \<Rightarrow> Freed
          | Some bs \<Rightarrow>
              if peek then
                if tr_length rr = 0 then drop_rec X i s (Return 1 bs recvd) else Return 1 bs recvd s
              else case ssl_release_record X s i n of
                (ok, s) \<Rightarrow> if ok then Return 1 bs recvd s else Return (-1) [] recvd s)"

text \<open>An alert, when something else is wanted.\<close>

definition alert_rec :: "'e dtls_ext \<Rightarrow> nat \<Rightarrow> 'e conn \<Rightarrow> 'e rpass" where
  "alert_rec X i s =
     (let rr = the_rec i s in
      case rec_bytes rr (tr_length rr) of
        None \<Rightarrow> Freed
      | Some [level, descr] \<Rightarrow>
          let alert_level = unat level; alert_descr = int (unat descr) in
          if alert_level = 1 then
            drop_rec X i (io_upd (\<lambda>w. w\<lparr>io_warn_alert := alert_descr\<rparr>) s) (\<lambda>s.
              let s = io_upd (\<lambda>w. w\<lparr>io_alert_count := io_alert_count w + 1\<rparr>) s in
              if io_alert_count (c_world s) = MAX_WARN_ALERT_COUNT then
                Return (-1) [] None (SSLfatal s SSL_AD_UNEXPECTED_MESSAGE)
              else if alert_descr = SSL_AD_CLOSE_NOTIFY then
                Return 0 [] None (s\<lparr>c_shutdown := c_shutdown s OR SSL_RECEIVED_SHUTDOWN\<rparr>)
              else Restart s)
          else if alert_level = 2 then
            let s = io_upd (\<lambda>w. w\<lparr>io_fatal_alert := alert_descr\<rparr>) (s\<lparr>c_rwstate := SSL_NOTHING\<rparr>);
                s = SSLfatal s SSL_AD_NO_ALERT
            in drop_rec X i (s\<lparr>c_shutdown := c_shutdown s OR SSL_RECEIVED_SHUTDOWN\<rparr>) (Return 0 [] None)
          else Return (-1) [] None (SSLfatal s SSL_AD_ILLEGAL_PARAMETER)
      | Some _ \<Rightarrow> Return (-1) [] None (SSLfatal s SSL_AD_UNEXPECTED_MESSAGE))"

text \<open>What follows a retransmission or a handshake: read on, unless the caller asked not to.\<close>

definition read_on :: "'e dtls_ext \<Rightarrow> 'e conn \<Rightarrow> 'e rpass" where
  "read_on X s =
     (if \<not> io_auto_retry (c_world s) \<and> \<not> x_unprocessed_read_pending X s then
        Return (-1) [] None (s\<lparr>c_rwstate := SSL_READING\<rparr>)
      else Restart s)"

text \<open>A handshake record outside a handshake.\<close>

definition handshake_rec :: "'e dtls_ext \<Rightarrow> nat \<Rightarrow> 'e conn \<Rightarrow> 'e rpass" where
  "handshake_rec X i s =
     (let rr = the_rec i s in
      if tr_epoch rr \<noteq> io_r_epoch (c_world s) \<or> tr_length rr < DTLS1_HM_HEADER_LENGTH then drop_rec X i s Restart
      else case rec_bytes (rr\<lparr>tr_off := 0\<rparr>) DTLS1_HM_HEADER_LENGTH of
        None \<Rightarrow> Freed
      | Some data \<Rightarrow>
          if int (unat (hm_type (dtls1_get_message_header data))) = SSL3_MT_FINISHED then
            case x_check_timeout_num X s of (r, s) \<Rightarrow>
              if r < 0 then Return (-1) [] None s
              else case x_retransmit_buffered_messages X s of (r, s) \<Rightarrow>
                if r \<le> 0 \<and> ossl_statem_in_error s then Return (-1) [] None s
                else drop_rec X i s (read_on X)
          else if \<not> SSL_is_init_finished s then Return (-1) [] None (SSLfatal s SSL_AD_INTERNAL_ERROR)
          else case x_handshake_func X (ossl_statem_set_in_init s True) of (r, s) \<Rightarrow>
            if r < 0 then Return r [] None s else if r = 0 then Return (-1) [] None s else read_on X s)"

definition unexpected_rec :: "TLS_RECORD \<Rightarrow> 'e conn \<Rightarrow> 'e rpass" where
  "unexpected_rec rr s =
     (if tr_type rr = SSL3_RT_APPLICATION_DATA \<and> s3_in_read_app_data (c_s3 s)
         \<and> s3_total_renegotiations (c_s3 s) \<noteq> 0 \<and> ossl_statem_app_data_allowed s then
        Return (-1) [] None (io_upd (\<lambda>w. w\<lparr>io_app_data_found := True\<rparr>) s)
      else Return (-1) [] None (SSLfatal s SSL_AD_UNEXPECTED_MESSAGE))"

definition other_rec :: "'e dtls_ext \<Rightarrow> nat \<Rightarrow> 'e conn \<Rightarrow> 'e rpass" where
  "other_rec X i s =
     (let rr = the_rec i s in
      if tr_type rr = SSL3_RT_ALERT then alert_rec X i s
      else if c_shutdown s AND SSL_SENT_SHUTDOWN \<noteq> 0 then
        drop_rec X i (s\<lparr>c_rwstate := SSL_NOTHING\<rparr>) (Return 0 [] None)
      else if tr_type rr = SSL3_RT_CHANGE_CIPHER_SPEC then drop_rec X i s Restart
      else if tr_type rr = SSL3_RT_HANDSHAKE \<and> st_in_handshake (c_statem s) = 0 then handshake_rec X i s
      else unexpected_rec rr s)"

definition process_rec :: "'e dtls_ext \<Rightarrow> nat \<Rightarrow> bool \<Rightarrow> nat \<Rightarrow> bool \<Rightarrow> 'e conn \<Rightarrow> 'e rpass" where
  "process_rec X type want_type len peek s =
     (let i = io_curr_rec (c_world s);
          rr = the_rec i s;
          s = (if tr_type rr \<noteq> SSL3_RT_ALERT \<and> tr_length rr \<noteq> 0 then io_upd (\<lambda>w. w\<lparr>io_alert_count := 0\<rparr>) s else s)
      in if s3_change_cipher_spec (c_s3 s) \<and> tr_type rr \<noteq> SSL3_RT_HANDSHAKE then
           (case dtls_buffer_record X s rr of
              None \<Rightarrow> Freed
            | Some (r, s) \<Rightarrow> if r < 0 then Return (-1) [] None s else drop_rec X i s Restart)
         else if c_shutdown s AND SSL_RECEIVED_SHUTDOWN \<noteq> 0 then
           drop_rec X i s (\<lambda>s. Return 0 [] None (s\<lparr>c_rwstate := SSL_NOTHING\<rparr>))
         else if type = tr_type rr
                 \<or> tr_type rr = SSL3_RT_CHANGE_CIPHER_SPEC \<and> type = SSL3_RT_HANDSHAKE \<and> want_type then
           take_rec X type want_type len peek i s
         else other_rec X i s)"

definition rec_pass :: "'e dtls_ext \<Rightarrow> nat \<Rightarrow> bool \<Rightarrow> nat \<Rightarrow> bool \<Rightarrow> 'e conn \<Rightarrow> 'e rpass" where
  "rec_pass X type want_type len peek s =
     (let s = s\<lparr>c_rwstate := SSL_NOTHING\<rparr>;
          s = (if SSL_is_init_finished s then dtls_unbuffer_record s else s);
          (t, s) = x_handle_timeout X s
      in if t > 0 then Restart s
         else if ossl_statem_in_error s then Return (-1) [] None s
         else if io_curr_rec (c_world s) \<ge> io_num_recs (c_world s) then
           (case fill_recs X SSL_MAX_PIPELINES (io_upd (\<lambda>w. w\<lparr>io_curr_rec := 0, io_num_recs := 0\<rparr>) s) of (ret, s) \<Rightarrow>
              if ret \<le> 0 then
                (case dtls1_read_failed X s ret of (ret, s) \<Rightarrow> if ret \<le> 0 then Return ret [] None s else Restart s)
              else process_rec X type want_type len peek s)
         else process_rec X type want_type len peek s)"

text \<open>Up to \<open>fuel\<close> passes; \<open>Restart\<close> is then the outcome of a loop that has not ended.\<close>

fun rec_passes :: "'e dtls_ext \<Rightarrow> nat \<Rightarrow> bool \<Rightarrow> nat \<Rightarrow> bool \<Rightarrow> nat \<Rightarrow> 'e conn \<Rightarrow> 'e rpass" where
  "rec_passes X type want_type len peek 0 s = Restart s"
| "rec_passes X type want_type len peek (Suc fuel) s =
     (case rec_pass X type want_type len peek s of
        Restart s \<Rightarrow> rec_passes X type want_type len peek fuel s
      | r \<Rightarrow> r)"

definition dtls1_read_bytes ::
    "'e dtls_ext \<Rightarrow> nat \<Rightarrow> nat \<Rightarrow> bool \<Rightarrow> nat \<Rightarrow> bool \<Rightarrow> 'e conn \<Rightarrow> 'e rpass" where
  "dtls1_read_bytes X fuel type want_type len peek s =
     (if type \<noteq> 0 \<and> type \<noteq> SSL3_RT_APPLICATION_DATA \<and> type \<noteq> SSL3_RT_HANDSHAKE
         \<or> peek \<and> type \<noteq> SSL3_RT_APPLICATION_DATA then
        Return (-1) [] None (SSLfatal s SSL_AD_INTERNAL_ERROR)
      else if st_in_handshake (c_statem s) = 0 \<and> SSL_in_init s then
        (case x_handshake_func X s of (i, s) \<Rightarrow>
           if i < 0 then Return i [] None s
           else if i = 0 then Return (-1) [] None s
           else rec_passes X type want_type len peek fuel s)
      else rec_passes X type want_type len peek fuel s)"

section \<open>Reading from the record in hand\<close>

lemmas conn_simps = io_upd_def set_rec_def the_rec_def

lemma rlayer_return_success [simp]:
  "ossl_tls_handle_rlayer_return X s False 1 = (1, s\<lparr>c_rwstate := SSL_NOTHING\<rparr>)"
  by (simp add: ossl_tls_handle_rlayer_return_def)

text \<open>The timer has not expired, and the record method takes back what was read.\<close>

definition quiet :: "'e dtls_ext \<Rightarrow> bool" where
  "quiet X \<longleftrightarrow> (\<forall>s. x_handle_timeout X s = (0, s)) \<and> (\<forall>s n. x_release_record X s n = (1, s))"

lemma quietD: "quiet X \<Longrightarrow> x_handle_timeout X s = (0, s)" "quiet X \<Longrightarrow> x_release_record X s n = (1, s)"
  by (simp_all add: quiet_def)

definition rec_alive :: "nat \<Rightarrow> TLS_RECORD \<Rightarrow> bool" where
  "rec_alive type rr \<longleftrightarrow> tr_type rr = type \<and> tr_rechandle rr \<and> tr_length rr > 0
     \<and> (case tr_data rr of None \<Rightarrow> False | Some d \<Rightarrow> tr_off rr + tr_length rr \<le> length d)"

definition payload :: "TLS_RECORD \<Rightarrow> byte list" where
  "payload rr = (case tr_data rr of None \<Rightarrow> [] | Some d \<Rightarrow> take (tr_length rr) (drop (tr_off rr) d))"

lemma length_payload: "rec_alive type rr \<Longrightarrow> length (payload rr) = tr_length rr"
  by (auto simp: rec_alive_def payload_def split: option.splits)

lemma rec_bytes_payload:
  "rec_alive type rr \<Longrightarrow> n \<le> tr_length rr \<Longrightarrow> rec_bytes rr n = Some (take n (payload rr))"
  by (auto simp: rec_alive_def rec_bytes_def payload_def min_def split: option.splits)

text \<open>The connection after \<open>n\<close> bytes of the record in hand were read.\<close>

definition used :: "nat \<Rightarrow> TLS_RECORD \<Rightarrow> TLS_RECORD" where
  "used n rr = rr\<lparr>tr_length := tr_length rr - n, tr_off := (if tr_length rr - n > 0 then tr_off rr + n else 0)\<rparr>"

definition advance :: "nat \<Rightarrow> 'e conn \<Rightarrow> 'e conn" where
  "advance n s =
     io_upd (\<lambda>w. w\<lparr>io_alert_count := 0, io_tlsrecs := (io_tlsrecs w)[io_curr_rec w := used n (io_tlsrecs w ! io_curr_rec w)],
                   io_curr_rec := io_curr_rec w + (if n = tr_length (io_tlsrecs w ! io_curr_rec w) then 1 else 0)\<rparr>)
       (s\<lparr>c_rwstate := SSL_NOTHING\<rparr>)"

lemma used_alive: "rec_alive type rr \<Longrightarrow> n < tr_length rr \<Longrightarrow> rec_alive type (used n rr)"
  by (auto simp: rec_alive_def used_def split: option.splits)

lemma used_payload: "rec_alive type rr \<Longrightarrow> n \<le> tr_length rr \<Longrightarrow> payload (used n rr) = drop n (payload rr)"
  by (auto simp: rec_alive_def used_def payload_def drop_take add.commute split: option.splits)

lemma release_record_handle:
  assumes "quiet X" and "tr_rechandle (the_rec i s)" and "0 < n"
  shows "ssl_release_record X s i n = (True, set_rec i (used n (the_rec i s))
    (if n = tr_length (the_rec i s) then io_upd (\<lambda>w. w\<lparr>io_curr_rec := io_curr_rec w + 1\<rparr>) (s\<lparr>c_rwstate := SSL_NOTHING\<rparr>)
     else s\<lparr>c_rwstate := SSL_NOTHING\<rparr>))"
  using assms by (simp add: ssl_release_record_def Let_def quietD consume_rec_def used_def conn_simps)

lemma take_rec_takes:
  assumes "quiet X" and "rec_alive type (the_rec i s)" and "\<not> SSL_in_init s \<or> type = 22"
    and "0 < len" and n: "n = min len (tr_length (the_rec i s))"
  shows "take_rec X type want_type len False i s
    = Return 1 (take n (payload (the_rec i s))) (if want_type then Some type else None) (snd (ssl_release_record X s i n))"
proof -
  have al: "tr_type (the_rec i s) = type" "tr_rechandle (the_rec i s)" "tr_length (the_rec i s) > 0"
    using assms(2) by (simp_all add: rec_alive_def)
  have "n > 0" using n al assms(4) by simp
  have m: "(if len > tr_length (the_rec i s) then tr_length (the_rec i s) else len) = n" using n by auto
  have bytes: "rec_bytes (the_rec i s) n = Some (take n (payload (the_rec i s)))"
    using rec_bytes_payload [OF assms(2)] n by simp
  have ini: "\<not> (SSL_in_init s \<and> type = 23 \<and> SSL_IS_FIRST_HANDSHAKE s)" using assms(3) by auto
  show ?thesis
    unfolding take_rec_def Let_def m bytes if_not_P [OF ini]
    using assms(4) al(1) release_record_handle [OF assms(1) al(2) \<open>n > 0\<close>] by simp
qed

lemma process_rec_takes:
  assumes "quiet X" and alive: "rec_alive type (the_rec (io_curr_rec (c_world s)) s)" and "type = 22 \<or> type = 23"
    and "\<not> s3_change_cipher_spec (c_s3 s) \<or> type = 22" and "c_shutdown s AND 2 = 0"
    and "\<not> SSL_in_init s \<or> type = 22" and "0 < len"
    and n: "n = min len (tr_length (the_rec (io_curr_rec (c_world s)) s))"
  shows "process_rec X type want_type len False s
    = Return 1 (take n (payload (the_rec (io_curr_rec (c_world s)) s))) (if want_type then Some type else None) (advance n s)"
proof -
  let ?i = "io_curr_rec (c_world s)"
  let ?s = "io_upd (\<lambda>w. w\<lparr>io_alert_count := 0\<rparr>) s"
  have al: "tr_type (the_rec ?i s) = type" "tr_rechandle (the_rec ?i s)" "tr_length (the_rec ?i s) > 0"
    using alive by (simp_all add: rec_alive_def)
  have keep: "the_rec ?i ?s = the_rec ?i s" "s3_change_cipher_spec (c_s3 ?s) = s3_change_cipher_spec (c_s3 s)"
    "c_shutdown ?s = c_shutdown s" "SSL_in_init ?s = SSL_in_init s"
    by (simp_all add: conn_simps SSL_in_init_def)
  have "n > 0" using n al assms(7) by simp
  have "process_rec X type want_type len False s = take_rec X type want_type len False ?i ?s"
    using al assms(3-5) by (auto simp: process_rec_def Let_def keep)
  also have "\<dots> = Return 1 (take n (payload (the_rec ?i s))) (if want_type then Some type else None)
      (snd (ssl_release_record X ?s ?i n))"
    using take_rec_takes [OF assms(1), of type ?i ?s len n want_type] alive assms(6,7) n by (simp add: keep)
  also have "snd (ssl_release_record X ?s ?i n) = advance n s"
    using release_record_handle [OF assms(1), of ?i ?s n] al \<open>n > 0\<close> by (simp add: keep advance_def conn_simps)
  finally show ?thesis .
qed

text \<open>A record is in hand that the caller wants.\<close>

definition rec_ready :: "nat \<Rightarrow> 'e conn \<Rightarrow> bool" where
  "rec_ready type s \<longleftrightarrow> io_curr_rec (c_world s) < io_num_recs (c_world s) \<and> io_num_recs (c_world s) \<le> length (io_tlsrecs (c_world s))
     \<and> rec_alive type (the_rec (io_curr_rec (c_world s)) s) \<and> \<not> ossl_statem_in_error s \<and> c_shutdown s AND 2 = 0
     \<and> (type = 22 \<and> st_in_handshake (c_statem s) \<noteq> 0
        \<or> type = 23 \<and> \<not> SSL_in_init s \<and> \<not> s3_change_cipher_spec (c_s3 s))"

definition rest :: "'e conn \<Rightarrow> byte list" where
  "rest s = payload (the_rec (io_curr_rec (c_world s)) s)"

lemma rec_ready_rest: "rec_ready type s \<Longrightarrow> rest s \<noteq> []"
  using length_payload [of type "the_rec (io_curr_rec (c_world s)) s"] by (auto simp: rec_ready_def rest_def rec_alive_def)

lemma advance_fields [simp]:
  "c_statem (advance n s) = c_statem s" "c_s3 (advance n s) = c_s3 s" "c_shutdown (advance n s) = c_shutdown s"
  "c_server (advance n s) = c_server s" "c_d1 (advance n s) = c_d1 s" "c_max_cert_list (advance n s) = c_max_cert_list s"
  "c_alerts (advance n s) = c_alerts s" "c_rwstate (advance n s) = SSL_NOTHING" "c_init_num (advance n s) = c_init_num s"
  "io_buffered_app_data (c_world (advance n s)) = io_buffered_app_data (c_world s)"
  "io_buffered_messages (c_world (advance n s)) = io_buffered_messages (c_world s)"
  "io_r_msg_hdr (c_world (advance n s)) = io_r_msg_hdr (c_world s)" "io_init_buf (c_world (advance n s)) = io_init_buf (c_world s)"
  "io_message_type (c_world (advance n s)) = io_message_type (c_world s)"
  "io_num_recs (c_world (advance n s)) = io_num_recs (c_world s)" "io_env (c_world (advance n s)) = io_env (c_world s)"
  "length (io_tlsrecs (c_world (advance n s))) = length (io_tlsrecs (c_world s))"
  by (simp_all add: advance_def conn_simps)

text \<open>A pass hands out the next bytes of the record, and reading on continues after them.\<close>

lemma process_ready:
  assumes "quiet X" and ready: "rec_ready type s" and "0 < len"
  shows "process_rec X type want_type len False s
    = Return 1 (take len (rest s)) (if want_type then Some type else None) (advance (min len (length (rest s))) s)"
proof -
  let ?r = "the_rec (io_curr_rec (c_world s)) s"
  have r: "rec_alive type ?r" "c_shutdown s AND 2 = 0" "type = 22 \<or> type = 23"
    "\<not> s3_change_cipher_spec (c_s3 s) \<or> type = 22" "\<not> SSL_in_init s \<or> type = 22"
    using ready by (auto simp: rec_ready_def)
  have len: "tr_length ?r = length (rest s)" using length_payload [OF r(1)] by (simp add: rest_def)
  have "take (min len (length (rest s))) (rest s) = take len (rest s)" by (simp add: min_def)
  then show ?thesis
    using process_rec_takes [OF assms(1) r(1,3,4,2,5) assms(3), of "min len (length (rest s))" want_type] len
    by (simp add: rest_def)
qed

lemma rwstate_ready [simp]:
  "rec_ready type (s\<lparr>c_rwstate := r\<rparr>) = rec_ready type s" "rest (s\<lparr>c_rwstate := r\<rparr>) = rest s"
  "advance n (s\<lparr>c_rwstate := r\<rparr>) = advance n s" "ossl_statem_in_error (s\<lparr>c_rwstate := r\<rparr>) = ossl_statem_in_error s"
  "SSL_is_init_finished (s\<lparr>c_rwstate := r\<rparr>) = SSL_is_init_finished s"
  by (simp_all add: rec_ready_def rest_def advance_def conn_simps SSL_in_init_def ossl_statem_in_error_def SSL_is_init_finished_def)

lemma read_ready:
  assumes "quiet X" and ready: "rec_ready type s" and "0 < len"
  shows "dtls1_read_bytes X (Suc fuel) type want_type len False s
    = Return 1 (take len (rest s)) (if want_type then Some type else None) (advance (min len (length (rest s))) s)"
proof -
  let ?s = "s\<lparr>c_rwstate := SSL_NOTHING\<rparr>"
  have r: "io_curr_rec (c_world s) < io_num_recs (c_world s)" "\<not> ossl_statem_in_error s"
    "type = 22 \<and> st_in_handshake (c_statem s) \<noteq> 0 \<or> type = 23 \<and> \<not> SSL_in_init s"
    using ready by (auto simp: rec_ready_def)
  have "dtls1_read_bytes X (Suc fuel) type want_type len False s = rec_passes X type want_type len False (Suc fuel) s"
    using r(3) by (auto simp: dtls1_read_bytes_def)
  moreover have "rec_pass X type want_type len False s = process_rec X type want_type len False ?s"
    using r(1,2) quietD(1) [OF assms(1)] by (simp add: rec_pass_def Let_def dtls_unbuffer_record_def)
  ultimately show ?thesis using process_ready [OF assms(1), of type ?s len want_type] ready assms(3) by simp
qed

lemma advance_ready:
  assumes "rec_ready type s" and "n < length (rest s)"
  shows "rec_ready type (advance n s)" and "rest (advance n s) = drop n (rest s)"
proof -
  let ?i = "io_curr_rec (c_world s)"
  have r: "?i < io_num_recs (c_world s)" "io_num_recs (c_world s) \<le> length (io_tlsrecs (c_world s))" "rec_alive type (the_rec ?i s)"
    using assms(1) by (auto simp: rec_ready_def)
  have n: "n < tr_length (the_rec ?i s)" using assms(2) length_payload [OF r(3)] by (simp add: rest_def)
  have cur: "io_curr_rec (c_world (advance n s)) = ?i" "the_rec ?i (advance n s) = used n (the_rec ?i s)"
    using n r(1,2) by (auto simp: advance_def conn_simps)
  show "rec_ready type (advance n s)"
    using assms(1) used_alive [OF r(3) n] by (simp add: rec_ready_def cur SSL_in_init_def ossl_statem_in_error_def)
  show "rest (advance n s) = drop n (rest s)"
    using used_payload [OF r(3)] n by (simp add: rest_def cur)
qed

section \<open>A stream of records\<close>

text \<open>
  The record method as a source: it hands out the records of a list, one after another. \<^bold>\<open>Pending\<close> records are such
  that it can hand out at once.
\<close>

definition feeds :: "TLS_RECORD list dtls_ext \<Rightarrow> bool" where
  "feeds X \<longleftrightarrow> quiet X
     \<and> (\<forall>s rr rs. io_env (c_world s) = rr # rs \<longrightarrow> x_read_record X s = ((1, rr), io_upd (\<lambda>w. w\<lparr>io_env := rs\<rparr>) s))
     \<and> (\<forall>s. x_processed_read_pending X s \<longrightarrow> io_env (c_world s) \<noteq> [])"

definition fresh :: "TLS_RECORD \<Rightarrow> TLS_RECORD" where
  "fresh rr = rr\<lparr>tr_off := 0\<rparr>"

lemma fill_recs_spec:
  assumes "feeds X" and "io_env (c_world s) \<noteq> []" and "io_num_recs (c_world s) + k = 32" and "0 < k"
    and "length (io_tlsrecs (c_world s)) = 32"
  shows "\<exists>j T. 0 < j \<and> j \<le> length (io_env (c_world s)) \<and> io_num_recs (c_world s) + j \<le> 32 \<and> length T = 32
    \<and> take (io_num_recs (c_world s) + j) T
        = take (io_num_recs (c_world s)) (io_tlsrecs (c_world s)) @ map fresh (take j (io_env (c_world s)))
    \<and> fill_recs X k s = (1, io_upd (\<lambda>w. w\<lparr>io_env := drop j (io_env w), io_tlsrecs := T, io_num_recs := io_num_recs w + j\<rparr>)
        (s\<lparr>c_rwstate := SSL_NOTHING\<rparr>))"
  using assms
proof (induction k arbitrary: s)
  case (Suc k)
  let ?m = "io_num_recs (c_world s)" and ?T = "io_tlsrecs (c_world s)"
  obtain rr rs where e: "io_env (c_world s) = rr # rs" using Suc.prems(2) by (cases "io_env (c_world s)") auto
  define s1 where "s1 = io_upd (\<lambda>w. w\<lparr>io_env := rs, io_tlsrecs := ?T[?m := fresh rr], io_num_recs := ?m + 1\<rparr>) (s\<lparr>c_rwstate := SSL_NOTHING\<rparr>)"
  have rd: "x_read_record X s = ((1, rr), io_upd (\<lambda>w. w\<lparr>io_env := rs\<rparr>) s)" using Suc.prems(1) e by (simp add: feeds_def)
  have step: "fill_recs X (Suc k) s = (if x_processed_read_pending X s1 \<and> ?m + 1 < 32 then fill_recs X k s1 else (1, s1))"
    by (simp add: rd Let_def s1_def conn_simps fresh_def)
  have w1: "io_env (c_world s1) = rs" "io_num_recs (c_world s1) = ?m + 1" "io_tlsrecs (c_world s1) = ?T[?m := fresh rr]"
    by (simp_all add: s1_def conn_simps)
  have lt: "?m < 32" using Suc.prems(3) by simp
  have tk: "take (?m + 1) (?T[?m := fresh rr]) = take ?m ?T @ [fresh rr]"
    using lt Suc.prems(5) by (simp add: take_Suc_conv_app_nth)
  show ?case
  proof (cases "x_processed_read_pending X s1 \<and> ?m + 1 < 32")
    case False
    have "fill_recs X (Suc k) s = (1, s1)" unfolding step if_not_P [OF False] by (rule refl)
    then show ?thesis using e lt Suc.prems(5) tk
      by (intro exI [of _ 1] exI [of _ "?T[?m := fresh rr]"]) (simp add: s1_def conn_simps del: fill_recs.simps)
  next
    case True
    then have ne: "rs \<noteq> []" using Suc.prems(1) w1(1) unfolding feeds_def by metis
    have "\<exists>j T. 0 < j \<and> j \<le> length rs \<and> ?m + 1 + j \<le> 32 \<and> length T = 32
      \<and> take (?m + 1 + j) T = take (?m + 1) (?T[?m := fresh rr]) @ map fresh (take j rs)
      \<and> fill_recs X k s1 = (1, io_upd (\<lambda>w. w\<lparr>io_env := drop j (io_env w), io_tlsrecs := T, io_num_recs := io_num_recs w + j\<rparr>)
          (s1\<lparr>c_rwstate := SSL_NOTHING\<rparr>))"
      using Suc.IH [OF Suc.prems(1), of s1] ne True Suc.prems(3,5) by (simp add: w1)
    then obtain j T where jt: "0 < j" "j \<le> length rs" "?m + 1 + j \<le> 32" "length T = 32"
      "take (?m + 1 + j) T = take (?m + 1) (?T[?m := fresh rr]) @ map fresh (take j rs)"
      "fill_recs X k s1 = (1, io_upd (\<lambda>w. w\<lparr>io_env := drop j (io_env w), io_tlsrecs := T, io_num_recs := io_num_recs w + j\<rparr>)
          (s1\<lparr>c_rwstate := SSL_NOTHING\<rparr>))" by blast
    have "fill_recs X (Suc k) s = (1, io_upd (\<lambda>w. w\<lparr>io_env := drop (Suc j) (io_env w), io_tlsrecs := T, io_num_recs := io_num_recs w + Suc j\<rparr>)
        (s\<lparr>c_rwstate := SSL_NOTHING\<rparr>))"
      unfolding step if_P [OF True] using jt(6) e by (simp add: s1_def conn_simps)
    then show ?thesis using jt(1-5) e tk by (intro exI [of _ "Suc j"] exI [of _ T]) (simp del: fill_recs.simps)
  qed
qed simp

definition in_hand :: "'e conn \<Rightarrow> TLS_RECORD list" where
  "in_hand s = drop (io_curr_rec (c_world s)) (take (io_num_recs (c_world s)) (io_tlsrecs (c_world s)))"

definition unread :: "TLS_RECORD list conn \<Rightarrow> byte list" where
  "unread s = concat (map payload (in_hand s @ map fresh (io_env (c_world s))))"

definition app_ready :: "TLS_RECORD list conn \<Rightarrow> bool" where
  "app_ready s \<longleftrightarrow> \<not> ossl_statem_in_error s \<and> c_shutdown s AND 2 = 0 \<and> \<not> SSL_in_init s \<and> \<not> s3_change_cipher_spec (c_s3 s)
     \<and> io_buffered_app_data (c_world s) = [] \<and> length (io_tlsrecs (c_world s)) = 32 \<and> io_num_recs (c_world s) \<le> 32
     \<and> (\<forall>rr \<in> set (in_hand s). rec_alive 23 rr) \<and> (\<forall>rr \<in> set (io_env (c_world s)). rec_alive 23 (fresh rr))"

lemma in_hand_Cons:
  "io_curr_rec (c_world s) < io_num_recs (c_world s) \<Longrightarrow> io_num_recs (c_world s) \<le> length (io_tlsrecs (c_world s)) \<Longrightarrow>
     in_hand s = the_rec (io_curr_rec (c_world s)) s
       # drop (Suc (io_curr_rec (c_world s))) (take (io_num_recs (c_world s)) (io_tlsrecs (c_world s)))"
  using Cons_nth_drop_Suc [of "io_curr_rec (c_world s)" "take (io_num_recs (c_world s)) (io_tlsrecs (c_world s))"]
  by (simp add: in_hand_def the_rec_def)

lemma app_ready_rec:
  "app_ready s \<Longrightarrow> io_curr_rec (c_world s) < io_num_recs (c_world s) \<Longrightarrow> rec_ready 23 s"
  using in_hand_Cons [of s] by (simp add: app_ready_def rec_ready_def)

lemma advance_unread:
  assumes app: "app_ready s" and cur: "io_curr_rec (c_world s) < io_num_recs (c_world s)"
    and n: "n \<le> length (rest s)" "0 < n"
  shows "unread s = take n (rest s) @ unread (advance n s)" and "app_ready (advance n s)"
proof -
  let ?i = "io_curr_rec (c_world s)" and ?m = "io_num_recs (c_world s)" and ?T = "io_tlsrecs (c_world s)"
  note ready = app_ready_rec [OF app cur]
  have al: "rec_alive 23 (the_rec ?i s)" and T: "?m \<le> length ?T" using ready by (simp_all add: rec_ready_def)
  have len: "tr_length (the_rec ?i s) = length (rest s)" using length_payload [OF al] by (simp add: rest_def)
  define tl where "tl = drop (Suc ?i) (take ?m ?T)"
  have h: "in_hand s = the_rec ?i s # tl" using in_hand_Cons [OF cur T] by (simp add: tl_def)
  have h': "in_hand (advance n s) = (if n = length (rest s) then tl else used n (the_rec ?i s) # tl)"
  proof (cases "n = length (rest s)")
    case True
    then have "io_curr_rec (c_world (advance n s)) = Suc ?i" "io_tlsrecs (c_world (advance n s)) = ?T[?i := used n (the_rec ?i s)]"
      using len by (simp_all add: advance_def conn_simps)
    then show ?thesis using True by (simp add: in_hand_def tl_def drop_take)
  next
    case False
    then have w: "io_curr_rec (c_world (advance n s)) = ?i" "io_tlsrecs (c_world (advance n s)) = ?T[?i := used n (the_rec ?i s)]"
      using len by (simp_all add: advance_def conn_simps)
    show ?thesis
      using in_hand_Cons [of "advance n s"] cur T False by (simp add: w the_rec_def tl_def drop_take)
  qed
  have pl: "payload (the_rec ?i s) = take n (rest s) @ (if n = length (rest s) then [] else payload (used n (the_rec ?i s)))"
    using used_payload [OF al, of n] n(1) len by (simp add: rest_def)
  show "unread s = take n (rest s) @ unread (advance n s)"
    by (simp add: unread_def h h' pl)
  have "rec_alive 23 (used n (the_rec ?i s))" if "n \<noteq> length (rest s)" using used_alive [OF al, of n] n that len by simp
  then show "app_ready (advance n s)"
    using app by (auto simp: app_ready_def h h' SSL_in_init_def ossl_statem_in_error_def)
qed

lemma read_bytes_app:
  "\<not> SSL_in_init s \<Longrightarrow> dtls1_read_bytes X fuel 23 want_type len False s = rec_passes X 23 want_type len False fuel s"
  by (simp add: dtls1_read_bytes_def)

lemma read_fills:
  assumes "feeds X" and app: "app_ready s" and cur: "io_num_recs (c_world s) \<le> io_curr_rec (c_world s)"
    and env: "io_env (c_world s) \<noteq> []"
  obtains s2 where "rec_pass X 23 want_type len False s = process_rec X 23 want_type len False s2" and "app_ready s2"
    and "io_curr_rec (c_world s2) < io_num_recs (c_world s2)" and "unread s2 = unread s"
proof -
  let ?s0 = "io_upd (\<lambda>w. w\<lparr>io_curr_rec := 0, io_num_recs := 0\<rparr>) (s\<lparr>c_rwstate := SSL_NOTHING\<rparr>)"
  have q: "quiet X" using assms(1) by (simp add: feeds_def)
  have a: "\<not> ossl_statem_in_error s" "io_buffered_app_data (c_world s) = []" "length (io_tlsrecs (c_world s)) = 32"
    using app by (simp_all add: app_ready_def)
  have w0: "io_env (c_world ?s0) = io_env (c_world s)" "io_num_recs (c_world ?s0) = 0" "length (io_tlsrecs (c_world ?s0)) = 32"
    using a(3) by (simp_all add: conn_simps)
  obtain j T where jt: "0 < j" "j \<le> length (io_env (c_world s))" "j \<le> 32" "length T = 32"
    "take j T = map fresh (take j (io_env (c_world s)))"
    and fill: "fill_recs X 32 ?s0 = (1, io_upd (\<lambda>w. w\<lparr>io_env := drop j (io_env w), io_tlsrecs := T, io_num_recs := io_num_recs w + j\<rparr>)
        (?s0\<lparr>c_rwstate := SSL_NOTHING\<rparr>))"
    using fill_recs_spec [OF assms(1), of ?s0 32] env w0 by auto
  define s2 where "s2 = io_upd (\<lambda>w. w\<lparr>io_env := drop j (io_env w), io_tlsrecs := T, io_num_recs := io_num_recs w + j\<rparr>)
        (?s0\<lparr>c_rwstate := SSL_NOTHING\<rparr>)"
  have w2: "io_curr_rec (c_world s2) = 0" "io_num_recs (c_world s2) = j" "io_env (c_world s2) = drop j (io_env (c_world s))"
    "io_tlsrecs (c_world s2) = T" "io_buffered_app_data (c_world s2) = []" "c_statem s2 = c_statem s" "c_s3 s2 = c_s3 s"
    "c_shutdown s2 = c_shutdown s"
    using a by (simp_all add: s2_def conn_simps)
  have pass: "rec_pass X 23 want_type len False s = process_rec X 23 want_type len False s2"
    using a cur quietD(1) [OF q] fill
    by (simp add: rec_pass_def Let_def dtls_unbuffer_record_def pqueue_pop_def s2_def)
  have h2: "in_hand s2 = map fresh (take j (io_env (c_world s)))" using jt(5) by (simp add: in_hand_def w2)
  have "map fresh (take j (io_env (c_world s))) @ map fresh (drop j (io_env (c_world s))) = map fresh (io_env (c_world s))"
    by (simp flip: map_append)
  moreover have "in_hand s = []" using cur by (simp add: in_hand_def)
  ultimately have "unread s2 = unread s" by (simp add: unread_def h2 w2 flip: concat_append map_append)
  moreover have "app_ready s2"
    using app jt(3,4) by (auto simp: app_ready_def h2 w2 ossl_statem_in_error_def SSL_in_init_def dest: in_set_takeD in_set_dropD)
  ultimately show ?thesis using that pass w2 jt(1) by simp
qed

lemma process_app:
  assumes "feeds X" and app: "app_ready s" and cur: "io_curr_rec (c_world s) < io_num_recs (c_world s)" and "0 < len"
  shows "\<exists>bs s'. process_rec X 23 want_type len False s = Return 1 bs (if want_type then Some 23 else None) s'
    \<and> bs \<noteq> [] \<and> length bs \<le> len \<and> unread s = bs @ unread s' \<and> app_ready s'"
proof -
  have q: "quiet X" using assms(1) by (simp add: feeds_def)
  note ready = app_ready_rec [OF app cur]
  let ?n = "min len (length (rest s))"
  have n: "?n \<le> length (rest s)" "0 < ?n" "take ?n (rest s) = take len (rest s)"
    using rec_ready_rest [OF ready] assms(4) by (simp_all add: min_def)
  show ?thesis
    using process_ready [OF q ready assms(4), of want_type] advance_unread [OF app cur n(1,2)] n rec_ready_rest [OF ready] assms(4)
    by (intro exI [of _ "take len (rest s)"] exI [of _ "advance ?n s"]) simp
qed

section \<open>Records of our own\<close>

text \<open>
  A record taken from the queue has no handle. Releasing it neither moves on to the next record nor, when it is dropped
  whole, forgets its length.
\<close>

definition own_rec :: "nat \<Rightarrow> byte list \<Rightarrow> TLS_RECORD \<Rightarrow> bool" where
  "own_rec type d rr \<longleftrightarrow> \<not> tr_rechandle rr \<and> tr_allocdata rr \<and> tr_type rr = type \<and> tr_data rr = Some d
     \<and> tr_off rr = 0 \<and> tr_length rr = length d"

text \<open>An idle connection after the handshake, with records left in the queue.\<close>

definition app_idle :: "'e conn \<Rightarrow> bool" where
  "app_idle s \<longleftrightarrow> SSL_is_init_finished s \<and> \<not> ossl_statem_in_error s \<and> c_shutdown s = 0
     \<and> \<not> s3_change_cipher_spec (c_s3 s) \<and> io_tlsrecs (c_world s) \<noteq> []"

definition holds_own :: "TLS_RECORD \<Rightarrow> 'e conn \<Rightarrow> bool" where
  "holds_own rr s \<longleftrightarrow> app_idle s \<and> io_curr_rec (c_world s) = 0 \<and> io_num_recs (c_world s) = 1 \<and> the_rec 0 s = rr"

lemma release_own:
  assumes "\<not> tr_rechandle (the_rec i s)"
  shows "ssl_release_record X s i n = (True, consume_rec i n
    (if n = 0 \<or> n = tr_length (the_rec i s) then set_rec i (free_allocdata (the_rec i s)) s else s))"
  using assms by (simp add: ssl_release_record_def Let_def)

lemma pass_holds:
  assumes "quiet X" and "holds_own rr s"
  shows "rec_pass X type want_type len peek s = process_rec X type want_type len peek (s\<lparr>c_rwstate := SSL_NOTHING\<rparr>)"
    and "holds_own rr (s\<lparr>c_rwstate := SSL_NOTHING\<rparr>)"
  using assms quietD(1) [OF assms(1)]
  by (simp_all add: rec_pass_def Let_def holds_own_def app_idle_def dtls_unbuffer_record_def conn_simps)

lemma pass_unbuffers:
  assumes "quiet X" and idle: "app_idle s" and cur: "io_num_recs (c_world s) \<le> io_curr_rec (c_world s)"
    and q: "io_buffered_app_data (c_world s) = item # queue"
  obtains s1 where "rec_pass X type want_type len peek s = process_rec X type want_type len peek s1" and "holds_own (i_data item) s1"
    and "io_buffered_app_data (c_world s1) = queue" and "io_env (c_world s1) = io_env (c_world s)"
    and "io_alert_count (c_world s1) = io_alert_count (c_world s)"
proof -
  define s1 where "s1 = dtls_unbuffer_record (s\<lparr>c_rwstate := SSL_NOTHING\<rparr>)"
  have s1: "s1 = io_upd (\<lambda>w. w\<lparr>io_buffered_app_data := queue, io_tlsrecs := (io_tlsrecs w)[0 := i_data item],
      io_num_recs := 1, io_curr_rec := 0\<rparr>) (s\<lparr>c_rwstate := SSL_NOTHING\<rparr>)"
    using cur q by (simp add: s1_def dtls_unbuffer_record_def pqueue_pop_def)
  have h: "holds_own (i_data item) s1"
    using idle by (simp add: s1 holds_own_def app_idle_def conn_simps SSL_is_init_finished_def ossl_statem_in_error_def)
  have "rec_pass X type want_type len peek s = process_rec X type want_type len peek s1"
    using idle h quietD(1) [OF assms(1)] by (simp add: rec_pass_def Let_def s1_def [symmetric] app_idle_def holds_own_def)
  then show ?thesis using that h by (simp add: s1 conn_simps)
qed

lemma holds_ownD:
  assumes "holds_own rr s"
  shows "\<not> SSL_in_init s" "\<not> s3_change_cipher_spec (c_s3 s)" "c_shutdown s = 0" "io_curr_rec (c_world s) = 0" "the_rec 0 s = rr"
    "io_tlsrecs (c_world s) \<noteq> []"
  using assms by (simp_all add: holds_own_def app_idle_def SSL_is_init_finished_def SSL_in_init_def)

lemma holds_own_set:
  assumes "holds_own rr s"
  shows "holds_own rr' (set_rec 0 rr' s)" and "holds_own rr (io_upd (\<lambda>w. w\<lparr>io_alert_count := k\<rparr>) s)"
    and "holds_own rr (io_upd (\<lambda>w. w\<lparr>io_warn_alert := a\<rparr>) s)"
  using assms by (simp_all add: holds_own_def app_idle_def conn_simps SSL_is_init_finished_def ossl_statem_in_error_def)

lemma release_own_held:
  assumes "holds_own rr s" and "\<not> tr_rechandle rr"
  obtains rr' where "ssl_release_record X s 0 n = (True, set_rec 0 rr' s)" and "holds_own rr' (set_rec 0 rr' s)"
    and "rr' = (let r = (if n = 0 \<or> n = tr_length rr then free_allocdata rr else rr); k = tr_length rr - n
                in r\<lparr>tr_length := k, tr_off := (if k > 0 then tr_off rr + n else 0)\<rparr>)"
proof -
  note h = holds_ownD [OF assms(1)]
  define rr' where "rr' = (let r = (if n = 0 \<or> n = tr_length rr then free_allocdata rr else rr); k = tr_length rr - n
                in r\<lparr>tr_length := k, tr_off := (if k > 0 then tr_off rr + n else 0)\<rparr>)"
  have "ssl_release_record X s 0 n = (True, set_rec 0 rr' s)"
    using release_own [of 0 s X n] h assms(2)
    by (simp add: consume_rec_def rr'_def Let_def conn_simps free_allocdata_def)
  then show ?thesis using that [of rr'] holds_own_set(1) [OF assms(1)] rr'_def by blast
qed




section \<open>Properties\<close>

text \<open>
  C22: after the handshake, when no record is left in the queue of those buffered before Finished, no timer fires and all records in hand and all
  that the record method hands out are non-empty records of application data, application data is delivered as a stream: every read returns
  a non-empty piece of at most the size asked for, as long as there is data, and the
  pieces are, one after another, the contents of the records in hand and of those the record method hands out, each byte once.
\<close>

theorem app_data_in_order:
  assumes "feeds X" and "app_ready s" and "unread s \<noteq> []" and "0 < len"
  shows "\<exists>bs s'. dtls1_read_bytes X (Suc fuel) 23 want_type len False s = Return 1 bs (if want_type then Some 23 else None) s'
    \<and> bs \<noteq> [] \<and> length bs \<le> len \<and> unread s = bs @ unread s' \<and> app_ready s'"
proof -
  have ini: "\<not> SSL_in_init s" and rd: "io_num_recs (c_world s) \<le> 32" using assms(2) by (simp_all add: app_ready_def)
  show ?thesis
  proof (cases "io_curr_rec (c_world s) < io_num_recs (c_world s)")
    case True
    have q: "quiet X" using assms(1) by (simp add: feeds_def)
    have "dtls1_read_bytes X (Suc fuel) 23 want_type len False s = process_rec X 23 want_type len False s"
      using read_ready [OF q app_ready_rec [OF assms(2) True] assms(4)] process_ready [OF q app_ready_rec [OF assms(2) True] assms(4)]
      by simp
    then show ?thesis using process_app [OF assms(1,2) True assms(4), of want_type] by simp
  next
    case False
    then have "io_env (c_world s) \<noteq> []" using assms(3) by (auto simp: unread_def in_hand_def)
    then obtain s2 where s2: "rec_pass X 23 want_type len False s = process_rec X 23 want_type len False s2" "app_ready s2"
      "io_curr_rec (c_world s2) < io_num_recs (c_world s2)" "unread s2 = unread s"
      using read_fills [OF assms(1,2), of want_type len] False by (metis not_le)
    show ?thesis
      using process_app [OF assms(1) s2(2,3) assms(4), of want_type] s2(1,4) by (auto simp: read_bytes_app [OF ini])
  qed
qed


text \<open>
  C24: a warning alert that was queued before Finished, other than close_notify, is read again after its memory was freed when application
  data is read after the handshake with no other record in hand and fewer than four warning alerts were counted since the last other record.
\<close>

theorem queued_alert_read_after_free:
  assumes "quiet X" and "app_idle s" and "io_num_recs (c_world s) \<le> io_curr_rec (c_world s)"
    and "io_buffered_app_data (c_world s) = item # queue" and "own_rec 21 [1, descr] (i_data item)" and "descr \<noteq> 0"
    and "io_alert_count (c_world s) < 4"
  shows "dtls1_read_bytes X (Suc (Suc fuel)) 23 want_type len False s = Freed"
proof -
  obtain s0 where s0: "rec_pass X 23 want_type len False s = process_rec X 23 want_type len False s0" "holds_own (i_data item) s0"
    "io_alert_count (c_world s0) = io_alert_count (c_world s)"
    using pass_unbuffers [OF assms(1-4)] by metis
  have o: "\<not> tr_rechandle (i_data item)" "tr_type (i_data item) = 21" "tr_length (i_data item) = 2" "tr_allocdata (i_data item)"
    "rec_bytes (i_data item) 2 = Some [1, descr]"
    using assms(5) by (simp_all add: own_rec_def rec_bytes_def)
  have ini: "\<not> SSL_in_init s" using assms(2) by (simp add: app_idle_def SSL_is_init_finished_def SSL_in_init_def)
  note h0 = holds_ownD [OF s0(2)]
  let ?sw = "io_upd (\<lambda>w. w\<lparr>io_warn_alert := int (unat descr)\<rparr>) s0"
  note hw = holds_own_set(3) [OF s0(2), of "int (unat descr)"]
  obtain rr' where rel: "ssl_release_record X ?sw 0 0 = (True, set_rec 0 rr' ?sw)" "holds_own rr' (set_rec 0 rr' ?sw)"
    "rr' = (let r = (if 0 = (0::nat) \<or> 0 = tr_length (i_data item) then free_allocdata (i_data item) else (i_data item)); k = tr_length (i_data item) - 0
                in r\<lparr>tr_length := k, tr_off := (if k > 0 then tr_off (i_data item) + 0 else 0)\<rparr>)"
    using release_own_held [OF hw o(1), of X 0] by metis
  define s1 where "s1 = io_upd (\<lambda>w. w\<lparr>io_alert_count := io_alert_count w + 1\<rparr>) (set_rec 0 rr' ?sw)"
  have h1: "holds_own rr' s1"
    using rel(2) by (simp add: s1_def holds_own_def app_idle_def conn_simps SSL_is_init_finished_def ossl_statem_in_error_def)
  have r': "tr_type rr' = 21" "tr_length rr' = 2" "tr_data rr' = None" using rel(3) o by (simp_all add: Let_def free_allocdata_def)
  have cnt: "io_alert_count (c_world s1) \<noteq> 5" using assms(7) s0(3) by (simp add: s1_def conn_simps)
  have "uint descr \<noteq> 0" using assms(6) by (simp add: uint_0_iff)
  then have "alert_rec X 0 s0 = Restart s1"
    using h0 o rel(1) cnt by (simp add: alert_rec_def Let_def drop_rec_def s1_def)
  then have pass1: "rec_pass X 23 want_type len False s = Restart s1"
    using s0(1) h0 o by (simp add: process_rec_def Let_def other_rec_def)
  have "process_rec X 23 want_type len False (s1\<lparr>c_rwstate := SSL_NOTHING\<rparr>) = Freed"
    using holds_ownD [OF pass_holds(2) [OF assms(1) h1]] r' by (simp add: process_rec_def Let_def other_rec_def alert_rec_def rec_bytes_def)
  then show ?thesis using pass1 pass_holds(1) [OF assms(1) h1, of 23 want_type len False] by (simp add: read_bytes_app [OF ini])
qed




text \<open>
  Whatever its type, a record that is no handshake record and comes after ChangeCipherSpec goes into the queue as a copy of our own,
  and the one in hand is released.
\<close>

theorem record_before_finished_is_queued:
  assumes "quiet X" and "s3_change_cipher_spec (c_s3 s)" and "rec_alive type (the_rec (io_curr_rec (c_world s)) s)" and "type \<noteq> 22"
    and "tr_off (the_rec (io_curr_rec (c_world s)) s) = 0" and "io_buffered_app_data (c_world s) = []"
    and "x_mem_obj X" and "x_mem X (tr_length (the_rec (io_curr_rec (c_world s)) s))"
  shows "\<exists>s' item. process_rec X want want_type len peek s = Restart s' \<and> io_buffered_app_data (c_world s') = [item]
    \<and> own_rec type (payload (the_rec (io_curr_rec (c_world s)) s)) (i_data item)
    \<and> io_curr_rec (c_world s') = io_curr_rec (c_world s) + 1"
proof -
  let ?i = "io_curr_rec (c_world s)"
  let ?rr = "the_rec ?i s"
  let ?item = "\<lparr>i_priority = take 8 (tr_seq_num ?rr),
    i_data = ?rr\<lparr>tr_data := Some (payload ?rr), tr_allocdata := True, tr_rechandle := False\<rparr>\<rparr>"
  define s1 where "s1 = (if tr_type ?rr \<noteq> 21 \<and> tr_length ?rr \<noteq> 0 then io_upd (\<lambda>w. w\<lparr>io_alert_count := 0\<rparr>) s else s)"
  define s2 where "s2 = io_upd (\<lambda>w. w\<lparr>io_buffered_app_data := [?item]\<rparr>) s1"
  have k1: "io_buffered_app_data (c_world s1) = []" "the_rec ?i s1 = ?rr" "c_s3 s1 = c_s3 s" "io_curr_rec (c_world s1) = ?i"
    using assms(6) by (auto simp: s1_def conn_simps)
  have k2: "the_rec ?i s2 = ?rr" "io_curr_rec (c_world s2) = ?i" "io_buffered_app_data (c_world s2) = [?item]"
    using k1 by (simp_all add: s2_def conn_simps)
  have al: "tr_rechandle ?rr" "tr_length ?rr > 0" "tr_type ?rr = type" using assms(3) by (simp_all add: rec_alive_def)
  have bytes: "rec_bytes ?rr (tr_length ?rr) = Some (payload ?rr)"
    using rec_bytes_payload [OF assms(3) order_refl] length_payload [OF assms(3)] by simp
  have buf: "dtls_buffer_record X s1 ?rr = Some (1, s2)"
    using k1(1) al assms(5,7,8) bytes by (simp add: dtls_buffer_record_def pqueue_insert_def s2_def)
  define s3 where "s3 = set_rec ?i (used (tr_length ?rr) ?rr)
      (io_upd (\<lambda>w. w\<lparr>io_curr_rec := io_curr_rec w + 1\<rparr>) (s2\<lparr>c_rwstate := SSL_NOTHING\<rparr>))"
  have k3: "io_curr_rec (c_world s3) = ?i + 1" "io_buffered_app_data (c_world s3) = [?item]"
    using k2 by (simp_all add: s3_def conn_simps)
  have rel: "ssl_release_record X s2 ?i 0 = (True, s3)"
    using al k2 by (simp add: s3_def ssl_release_record_def Let_def quietD [OF assms(1)] consume_rec_def used_def conn_simps)
  have ccs: "s3_change_cipher_spec (c_s3 s1) \<and> tr_type ?rr \<noteq> 22" using assms(2,4) al(3) k1(3) by simp
  have "process_rec X want want_type len peek s = Restart s3"
    unfolding process_rec_def Let_def s1_def [symmetric] if_P [OF ccs] buf by (simp add: drop_rec_def rel)
  moreover have "own_rec type (payload ?rr) (i_data ?item)"
    using al assms(5) length_payload [OF assms(3)] by (simp add: own_rec_def)
  ultimately show ?thesis using k3 by blast
qed

section \<open>Examples\<close>

text \<open>A source over a list of records, and a connection after its handshake with a queue and records to come.\<close>

definition demo_ext :: "TLS_RECORD list dtls_ext" where
  "demo_ext = \<lparr>x_read_record = (\<lambda>s. case io_env (c_world s) of
       [] \<Rightarrow> ((0, \<lparr>tr_rechandle = False, tr_type = 0, tr_data = None, tr_allocdata = False, tr_length = 0, tr_off = 0, tr_epoch = 0, tr_seq_num = []\<rparr>), s)
     | rr # rs \<Rightarrow> ((1, rr), io_upd (\<lambda>w. w\<lparr>io_env := rs\<rparr>) s)),
     x_release_record = (\<lambda>s n. (1, s)), x_get_alert_code = (\<lambda>s. -1), x_processed_read_pending = (\<lambda>s. io_env (c_world s) \<noteq> []),
     x_unprocessed_read_pending = (\<lambda>s. False), x_handle_timeout = (\<lambda>s. (0, s)), x_is_timer_expired = (\<lambda>s. False),
     x_check_timeout_num = (\<lambda>s. (0, s)), x_retransmit_buffered_messages = (\<lambda>s. (1, s)), x_handshake_func = (\<lambda>s. (1, s)),
     x_mem_obj = True, x_mem = (\<lambda>n. True), x_junk = (\<lambda>n. 0)\<rparr>"

definition demo_rec :: "bool \<Rightarrow> nat \<Rightarrow> byte list \<Rightarrow> TLS_RECORD" where
  "demo_rec handle type d = \<lparr>tr_rechandle = handle, tr_type = type, tr_data = Some d, tr_allocdata = \<not> handle, tr_length = length d,
     tr_off = 0, tr_epoch = 1, tr_seq_num = [0, 0, 0, 0, 0, 0, 0, 1]\<rparr>"

definition demo_io :: "TLS_RECORD pqueue \<Rightarrow> TLS_RECORD list \<Rightarrow> TLS_RECORD list dtls_io" where
  "demo_io q rs = \<lparr>io_tlsrecs = replicate 32 (demo_rec True 0 []), io_num_recs = 0, io_curr_rec = 0, io_alert_count = 0,
     io_buffered_app_data = q, io_r_epoch = 1, io_warn_alert = 0, io_fatal_alert = 0, io_app_data_found = False, io_auto_retry = True,
     io_message_type = 0, io_buffered_messages = [],
     io_r_msg_hdr = \<lparr>hm_type = 0, hm_msg_len = 0, hm_seq = 0, hm_frag_off = 0, hm_frag_len = 0\<rparr>,
     io_init_buf = \<lparr>b_length = 16384, b_data = replicate 16384 0\<rparr>, io_env = rs\<rparr>"

definition demo_conn :: "TLS_RECORD pqueue \<Rightarrow> TLS_RECORD list \<Rightarrow> TLS_RECORD list conn" where
  "demo_conn q rs = (let s = blank_ssl (demo_io q rs) in s\<lparr>c_statem := (c_statem s)\<lparr>st_in_init := False, st_hand_state := TLS_ST_OK\<rparr>\<rparr>)"

lemma demo_feeds: "feeds demo_ext" "quiet demo_ext"
  by (simp_all add: feeds_def quiet_def demo_ext_def)

lemmas demo_simps = demo_conn_def demo_io_def blank_ssl_def Let_def

lemma demo_idle: "app_idle (demo_conn q rs)" "io_num_recs (c_world (demo_conn q rs)) = 0" "io_curr_rec (c_world (demo_conn q rs)) = 0"
  "io_buffered_app_data (c_world (demo_conn q rs)) = q" "io_alert_count (c_world (demo_conn q rs)) = 0"
  by (simp_all add: app_idle_def demo_simps SSL_is_init_finished_def ossl_statem_in_error_def)

abbreviation demo_item :: "nat \<Rightarrow> byte list \<Rightarrow> TLS_RECORD pitem" where
  "demo_item type d \<equiv> \<lparr>i_priority = [0, 0, 0, 0, 0, 0, 0, 1], i_data = demo_rec False type d\<rparr>"

lemma demo_own: "own_rec type d (demo_rec False type d)"
  by (simp add: own_rec_def demo_rec_def)

lemma demo_app: "app_ready (demo_conn [] [demo_rec True 23 [7, 8]])" "unread (demo_conn [] [demo_rec True 23 [7, 8]]) = [7, 8]"
  by (simp_all add: app_ready_def unread_def in_hand_def demo_simps SSL_in_init_def ossl_statem_in_error_def rec_alive_def demo_rec_def
      fresh_def payload_def)

theorem app_data_in_order_witness:
  "\<exists>bs s'. dtls1_read_bytes demo_ext 1 23 False 1 False (demo_conn [] [demo_rec True 23 [7, 8]]) = Return 1 bs None s'
     \<and> bs \<noteq> [] \<and> [7, 8] = bs @ unread s'"
  using app_data_in_order [of demo_ext "demo_conn [] [demo_rec True 23 [7, 8]]" 1 0 False] demo_feeds demo_app by auto


theorem queued_alert_read_after_free_witness:
  "dtls1_read_bytes demo_ext 2 23 False 16 False (demo_conn [demo_item 21 [1, 90]] []) = Freed"
  using queued_alert_read_after_free [of demo_ext "demo_conn [demo_item 21 [1, 90]] []" "demo_item 21 [1, 90]" "[]" 90 0 False 16]
    demo_feeds demo_idle demo_own by (simp flip: numeral_2_eq_2)


theorem record_before_finished_is_queued_witness:
  "\<exists>s' item. process_rec demo_ext 23 False 16 False
      (io_upd (\<lambda>w. w\<lparr>io_tlsrecs := [demo_rec True 20 [1]], io_num_recs := 1\<rparr>)
        ((demo_conn [] [])\<lparr>c_s3 := (c_s3 (demo_conn [] []))\<lparr>s3_change_cipher_spec := True\<rparr>\<rparr>)) = Restart s'
    \<and> io_buffered_app_data (c_world s') = [item] \<and> own_rec 20 [1] (i_data item)"
proof -
  let ?s = "io_upd (\<lambda>w. w\<lparr>io_tlsrecs := [demo_rec True 20 [1]], io_num_recs := 1\<rparr>)
        ((demo_conn [] [])\<lparr>c_s3 := (c_s3 (demo_conn [] []))\<lparr>s3_change_cipher_spec := True\<rparr>\<rparr>)"
  have r: "the_rec (io_curr_rec (c_world ?s)) ?s = demo_rec True 20 [1]" "io_buffered_app_data (c_world ?s) = []"
    "s3_change_cipher_spec (c_s3 ?s)" "io_curr_rec (c_world ?s) = 0"
    by (simp_all add: conn_simps demo_simps)
  have a: "rec_alive 20 (demo_rec True 20 [1])" "payload (demo_rec True 20 [1]) = [1]" "tr_off (demo_rec True 20 [1]) = 0"
    by (simp_all add: rec_alive_def demo_rec_def payload_def)
  have m: "x_mem_obj demo_ext" "x_mem demo_ext n" for n by (simp_all add: demo_ext_def)
  show ?thesis
    using record_before_finished_is_queued [of demo_ext ?s 20 23 False 16 False] unfolding r a(2) using a m demo_feeds r by auto
qed

end
