(* ===== verification/DTLS_Frag.thy ===== *)
theory DTLS_Frag
  imports DTLS_Read
begin

text \<open>
  Putting DTLS handshake messages together, \<open>ssl/statem/statem_dtls.c\<close>: fragments of the expected message and of later ones are
  kept in the queue \<open>buffered_messages\<close>, each message with a bit mask of the bytes received, until the message is complete and
  its turn has come; \<open>dtls_get_message\<close> hands the next message to the state machine.

  The functions read through \<open>dtls1_read_bytes\<close> and return \<open>None\<close> where the C code does not return or has undefined
  behaviour: a read that does not end, an access outside an object, or a use of the pointer \<open>p\<close> into \<open>init_buf\<close> after the buffer
  was moved. \<open>fuel\<close> bounds the passes of a read and of the loops. A fragment in the queue is changed in place, which
  \<open>set_data\<close> models on the list of items.
\<close>

section \<open>The bit mask of received bytes\<close>

definition RSMBLY_BITMASK_SIZE :: "nat \<Rightarrow> nat" where
  "RSMBLY_BITMASK_SIZE msg_len = (msg_len + 7) div 8"

definition bitmask_start_values :: "byte list" where
  "bitmask_start_values = [0xff, 0xfe, 0xfc, 0xf8, 0xf0, 0xe0, 0xc0, 0x80]"

definition bitmask_end_values :: "byte list" where
  "bitmask_end_values = [0xff, 0x01, 0x03, 0x07, 0x0f, 0x1f, 0x3f, 0x7f]"

definition or_at :: "byte list \<Rightarrow> nat \<Rightarrow> byte \<Rightarrow> byte list" where
  "or_at bitmask i v = bitmask[i := bitmask ! i OR v]"

text \<open>The loops of the macro, over \<open>k\<close> bits or bytes from \<open>ii\<close> on.\<close>

fun mark_bits :: "nat \<Rightarrow> nat \<Rightarrow> byte list \<Rightarrow> byte list" where
  "mark_bits ii 0 bitmask = bitmask"
| "mark_bits ii (Suc k) bitmask = mark_bits (ii + 1) k (or_at bitmask (ii div 8) (push_bit (ii mod 8) 1))"

fun mark_bytes :: "nat \<Rightarrow> nat \<Rightarrow> byte list \<Rightarrow> byte list" where
  "mark_bytes ii 0 bitmask = bitmask"
| "mark_bytes ii (Suc k) bitmask = mark_bytes (ii + 1) k (bitmask[ii := 0xff])"

definition RSMBLY_BITMASK_MARK :: "byte list \<Rightarrow> nat \<Rightarrow> nat \<Rightarrow> byte list" where
  "RSMBLY_BITMASK_MARK bitmask start stop =
     (if stop - start \<le> 8 then mark_bits start (stop - start) bitmask
      else
        let bitmask = or_at bitmask (start div 8) (bitmask_start_values ! (start mod 8));
            bitmask = mark_bytes (start div 8 + 1) ((stop - 1) div 8 - (start div 8 + 1)) bitmask
        in or_at bitmask ((stop - 1) div 8) (bitmask_end_values ! (stop mod 8)))"

fun all_ff :: "byte list \<Rightarrow> nat \<Rightarrow> bool" where
  "all_ff bitmask 0 = True"
| "all_ff bitmask (Suc ii) = (if bitmask ! ii \<noteq> 0xff then False else all_ff bitmask ii)"

definition RSMBLY_BITMASK_IS_COMPLETE :: "byte list \<Rightarrow> nat \<Rightarrow> bool" where
  "RSMBLY_BITMASK_IS_COMPLETE bitmask msg_len =
     (if bitmask ! ((msg_len - 1) div 8) \<noteq> bitmask_end_values ! (msg_len mod 8) then False
      else all_ff bitmask ((msg_len - 1) div 8))"

section \<open>Fragments\<close>

abbreviation (input) DTLS1_HM_FRAGMENT_RETRY :: int where "DTLS1_HM_FRAGMENT_RETRY \<equiv> -3"
abbreviation (input) DTLS1_HM_BAD_FRAGMENT :: int where "DTLS1_HM_BAD_FRAGMENT \<equiv> -2"
abbreviation (input) SSL3_RT_MAX_ENCRYPTED_LENGTH :: nat where "SSL3_RT_MAX_ENCRYPTED_LENGTH \<equiv> 17728"

definition zero_hdr :: hm_header_st where
  "zero_hdr = \<lparr>hm_type = 0, hm_msg_len = 0, hm_seq = 0, hm_frag_off = 0, hm_frag_len = 0\<rparr>"

definition dtls1_hm_fragment_new :: "'e dtls_ext \<Rightarrow> nat \<Rightarrow> bool \<Rightarrow> hm_fragment option" where
  "dtls1_hm_fragment_new X frag_len reassembly =
     (if \<not> x_mem_obj X then None
      else if frag_len \<noteq> 0 \<and> \<not> x_mem X frag_len then None
      else if reassembly \<and> (RSMBLY_BITMASK_SIZE frag_len = 0 \<or> \<not> x_mem X (RSMBLY_BITMASK_SIZE frag_len)) then None
      else Some \<lparr>hf_msg_header = zero_hdr, hf_fragment = map (x_junk X) [0 ..< frag_len],
                 hf_reassembly = (if reassembly then Some (replicate (RSMBLY_BITMASK_SIZE frag_len) 0) else None)\<rparr>)"

definition dtls1_max_handshake_message_len :: "'e conn \<Rightarrow> nat" where
  "dtls1_max_handshake_message_len s =
     (let max_len = DTLS1_HM_HEADER_LENGTH + SSL3_RT_MAX_ENCRYPTED_LENGTH
      in if max_len < c_max_cert_list s then c_max_cert_list s else max_len)"

definition dtls1_preprocess_fragment :: "'e dtls_ext \<Rightarrow> 'e conn \<Rightarrow> hm_header_st \<Rightarrow> bool \<times> 'e conn" where
  "dtls1_preprocess_fragment X s msg_hdr =
     (let msg_len = hm_msg_len msg_hdr; frag_off = hm_frag_off msg_hdr; frag_len = hm_frag_len msg_hdr in
      if frag_off + frag_len > msg_len \<or> msg_len > dtls1_max_handshake_message_len s then
        (False, SSLfatal s SSL_AD_ILLEGAL_PARAMETER)
      else if hm_frag_off (io_r_msg_hdr (c_world s)) = 0 then
        (case BUF_MEM_grow_clean (x_mem X) (x_junk X) (io_init_buf (c_world s)) (msg_len + DTLS1_HM_HEADER_LENGTH) of (r, buf) \<Rightarrow>
           if r = 0 then (False, SSLfatal s SSL_AD_INTERNAL_ERROR)
           else (True, io_upd (\<lambda>w. w\<lparr>io_init_buf := buf, io_message_type := int (unat (hm_type msg_hdr)),
                    io_r_msg_hdr := (io_r_msg_hdr w)\<lparr>hm_msg_len := msg_len, hm_type := hm_type msg_hdr, hm_seq := hm_seq msg_hdr\<rparr>\<rparr>)
                   (s\<lparr>c_s3 := (c_s3 s)\<lparr>s3_message_size := msg_len\<rparr>\<rparr>)))
      else if msg_len \<noteq> hm_msg_len (io_r_msg_hdr (c_world s)) then (False, SSLfatal s SSL_AD_ILLEGAL_PARAMETER)
      else (True, s))"

abbreviation read_seq :: "'e conn \<Rightarrow> nat" where
  "read_seq s \<equiv> d1_handshake_read_seq (c_d1 s)"

abbreviation buffered :: "'e conn \<Rightarrow> hm_fragment pqueue" where
  "buffered s \<equiv> io_buffered_messages (c_world s)"

definition set_buffered :: "hm_fragment pqueue \<Rightarrow> 'e conn \<Rightarrow> 'e conn" where
  "set_buffered q s = io_upd (\<lambda>w. w\<lparr>io_buffered_messages := q\<rparr>) s"

definition set_read_seq_0 :: "'e conn \<Rightarrow> 'e conn" where
  "set_read_seq_0 s = s\<lparr>c_d1 := (c_d1 s)\<lparr>d1_handshake_read_seq := 0, d1_next_handshake_write_seq := 0\<rparr>\<rparr>"

text \<open>\<open>memcpy\<close> to the position \<open>i\<close> of \<open>init_buf\<close>; \<open>None\<close> outside the object.\<close>

definition put_init :: "nat \<Rightarrow> byte list \<Rightarrow> 'e conn \<Rightarrow> 'e conn option" where
  "put_init i bs s =
     (let buf = io_init_buf (c_world s) in
      if i + length bs \<le> b_max buf then Some (io_upd (\<lambda>w. w\<lparr>io_init_buf := buf\<lparr>b_data := patch (b_data buf) i bs\<rparr>\<rparr>) s)
      else None)"

section \<open>Taking a message from the queue\<close>

text \<open>
  The loop of \<open>dtls1_retrieve_buffered_fragment\<close> over the iterator: stale messages are thrown away, except a first ClientHello that
  the server may have to answer again. The result is the fragment looked at and whether it is such a ClientHello.
\<close>

fun scan_buffered :: "'e conn \<Rightarrow> hm_fragment pqueue \<Rightarrow> 'e conn \<times> (hm_fragment \<times> bool) option" where
  "scan_buffered s [] = (s, None)"
| "scan_buffered s (item # iter) =
     (let frag = i_data item; seq = hm_seq (hf_msg_header frag) in
      if seq < read_seq s then
        if \<not> c_server s \<or> seq \<noteq> 0 \<or> read_seq s \<noteq> 1 \<or> hand s \<noteq> DTLS_ST_SW_HELLO_VERIFY_REQUEST then
          scan_buffered (set_buffered (snd (pqueue_pop (buffered s))) s) iter
        else (case fst (pqueue_next iter) of
            Some next \<Rightarrow>
              if hm_seq (hf_msg_header (i_data next)) = read_seq s then
                (set_buffered (snd (pqueue_pop (buffered s))) s, Some (i_data next, False))
              else (s, Some (frag, True))
          | None \<Rightarrow> (s, Some (frag, True)))
      else (s, Some (frag, False)))"

definition dtls1_retrieve_buffered_fragment :: "'e dtls_ext \<Rightarrow> 'e conn \<Rightarrow> (int \<times> nat \<times> 'e conn) option" where
  "dtls1_retrieve_buffered_fragment X s =
     (case scan_buffered s (pqueue_iterator (buffered s)) of
        (s, None) \<Rightarrow> Some (0, 0, s)
      | (s, Some (frag, chretran)) \<Rightarrow>
          if hf_reassembly frag \<noteq> None then Some (0, 0, s)
          else if read_seq s = hm_seq (hf_msg_header frag) \<or> chretran then
            let hdr = hf_msg_header frag; frag_len = hm_frag_len hdr;
                s = set_buffered (snd (pqueue_pop (buffered s))) s;
                (ret, s) = dtls1_preprocess_fragment X s hdr
            in if \<not> ret then Some (-1, 0, s\<lparr>c_init_num := 0\<rparr>)
               else if frag_len > length (hf_fragment frag) then None
               else (case put_init (DTLS1_HM_HEADER_LENGTH + hm_frag_off hdr) (take frag_len (hf_fragment frag)) s of
                   None \<Rightarrow> None
                 | Some s \<Rightarrow> Some (1, frag_len, if chretran then set_read_seq_0 s else s))
          else Some (0, 0, s))"

section \<open>Storing fragments\<close>

text \<open>A read of handshake data; \<open>None\<close> when it does not return.\<close>

definition hs_read :: "'e dtls_ext \<Rightarrow> nat \<Rightarrow> bool \<Rightarrow> nat \<Rightarrow> 'e conn \<Rightarrow> (int \<times> byte list \<times> nat option \<times> 'e conn) option" where
  "hs_read X fuel want_type n s =
     (case dtls1_read_bytes X fuel SSL3_RT_HANDSHAKE want_type n False s of
        Return i bs ty s \<Rightarrow> Some (i, bs, ty, s)
      | _ \<Rightarrow> None)"

text \<open>The loop that reads a fragment's body into \<open>devnull\<close>, at most \<open>k\<close> times; the flag tells whether all of it was read.\<close>

fun read_devnull :: "'e dtls_ext \<Rightarrow> nat \<Rightarrow> nat \<Rightarrow> nat \<Rightarrow> 'e conn \<Rightarrow> (bool \<times> 'e conn) option" where
  "read_devnull X fuel k 0 s = Some (True, s)"
| "read_devnull X fuel 0 (Suc n) s = None"
| "read_devnull X fuel (Suc k) (Suc n) s =
     (case hs_read X fuel False (if Suc n > 256 then 256 else Suc n) s of
        None \<Rightarrow> None
      | Some (i, bs, _, s) \<Rightarrow> if i \<le> 0 then Some (False, s) else read_devnull X fuel k (Suc n - length bs) s)"

definition seq64be :: "nat \<Rightarrow> byte list" where
  "seq64be seq = replicate 6 0 @ be_bytes 2 seq"

definition set_data :: "byte list \<Rightarrow> hm_fragment \<Rightarrow> hm_fragment pqueue \<Rightarrow> hm_fragment pqueue" where
  "set_data prio64be frag q = map (\<lambda>i. if i_priority i = prio64be then i\<lparr>i_data := frag\<rparr> else i) q"

text \<open>The end of \<open>dtls1_reassemble_fragment\<close>: the body is read into place and marked; a new message enters the queue.\<close>

definition add_to_fragment ::
    "'e dtls_ext \<Rightarrow> nat \<Rightarrow> 'e conn \<Rightarrow> hm_header_st \<Rightarrow> hm_fragment \<Rightarrow> byte list \<Rightarrow> bool \<Rightarrow> (int \<times> 'e conn) option" where
  "add_to_fragment X fuel s msg_hdr frag bitmask is_new =
     (let prio64be = seq64be (hm_seq msg_hdr) in
      case hs_read X fuel False (hm_frag_len msg_hdr) s of
        None \<Rightarrow> None
      | Some (i, bs, _, s) \<Rightarrow>
          if hm_frag_off msg_hdr + length bs > length (hf_fragment frag) then None
          else
            let frag = frag\<lparr>hf_fragment := patch (hf_fragment frag) (hm_frag_off msg_hdr) bs\<rparr>;
                stored = (\<lambda>frag s. if is_new then s else set_buffered (set_data prio64be frag (buffered s)) s)
            in if i \<le> 0 \<or> length bs \<noteq> hm_frag_len msg_hdr then Some (-1, stored frag s)
               else
                 let bitmask = RSMBLY_BITMASK_MARK bitmask (hm_frag_off msg_hdr) (hm_frag_off msg_hdr + hm_frag_len msg_hdr);
                     frag = frag\<lparr>hf_reassembly := Some bitmask\<rparr>
                 in if hm_msg_len msg_hdr = 0 then Some (-1, stored frag s)
                    else
                      let frag = (if RSMBLY_BITMASK_IS_COMPLETE bitmask (hm_msg_len msg_hdr) then frag\<lparr>hf_reassembly := None\<rparr> else frag);
                          s = stored frag s
                      in if is_new then
                           (case pitem_new (x_mem_obj X) prio64be frag of
                              None \<Rightarrow> Some (-1, s)
                            | Some item \<Rightarrow> (case pqueue_insert (buffered s) item [] of (r, q) \<Rightarrow>
                                Some (if r = None then -1 else DTLS1_HM_FRAGMENT_RETRY, set_buffered q s)))
                         else Some (DTLS1_HM_FRAGMENT_RETRY, s))"

definition dtls1_reassemble_fragment :: "'e dtls_ext \<Rightarrow> nat \<Rightarrow> 'e conn \<Rightarrow> hm_header_st \<Rightarrow> (int \<times> 'e conn) option" where
  "dtls1_reassemble_fragment X fuel s msg_hdr =
     (let frag_len = hm_frag_len msg_hdr; msg_len = hm_msg_len msg_hdr in
      if hm_frag_off msg_hdr + frag_len > msg_len \<or> msg_len > dtls1_max_handshake_message_len s then Some (-1, s)
      else if frag_len = 0 then Some (DTLS1_HM_FRAGMENT_RETRY, s)
      else case pqueue_find (buffered s) (seq64be (hm_seq msg_hdr)) of
        None \<Rightarrow>
          (case dtls1_hm_fragment_new X msg_len True of
             None \<Rightarrow> Some (-1, s)
           | Some frag \<Rightarrow>
               (case hf_reassembly frag of
                  None \<Rightarrow> None
                | Some bitmask \<Rightarrow>
                    add_to_fragment X fuel s msg_hdr (frag\<lparr>hf_msg_header := msg_hdr\<lparr>hm_frag_len := msg_len, hm_frag_off := 0\<rparr>\<rparr>)
                      bitmask True))
      | Some item \<Rightarrow>
          if hm_msg_len (hf_msg_header (i_data item)) \<noteq> msg_len then Some (-1, s)
          else case hf_reassembly (i_data item) of
            None \<Rightarrow>
              (case read_devnull X fuel fuel frag_len s of
                 None \<Rightarrow> None
               | Some (ok, s) \<Rightarrow> Some (if ok then DTLS1_HM_FRAGMENT_RETRY else -1, s))
          | Some bitmask \<Rightarrow> add_to_fragment X fuel s msg_hdr (i_data item) bitmask False)"

text \<open>A message that is not the next one: old ones and ones too far ahead are read and thrown away, others are kept.\<close>

definition dtls1_process_out_of_seq_message :: "'e dtls_ext \<Rightarrow> nat \<Rightarrow> 'e conn \<Rightarrow> hm_header_st \<Rightarrow> (int \<times> 'e conn) option" where
  "dtls1_process_out_of_seq_message X fuel s msg_hdr =
     (let frag_len = hm_frag_len msg_hdr; seq = hm_seq msg_hdr; prio64be = seq64be seq in
      if hm_frag_off msg_hdr + frag_len > hm_msg_len msg_hdr then Some (0, s)
      else
        let item = pqueue_find (buffered s) prio64be;
            item = (if item \<noteq> None \<and> frag_len \<noteq> hm_msg_len msg_hdr then None else item)
        in if seq \<le> read_seq s \<or> seq > read_seq s + 10 \<or> item \<noteq> None
              \<or> read_seq s = 0 \<and> int (unat (hm_type msg_hdr)) = SSL3_MT_FINISHED then
             (case read_devnull X fuel fuel frag_len s of
                None \<Rightarrow> None
              | Some (ok, s) \<Rightarrow> Some (if ok then DTLS1_HM_FRAGMENT_RETRY else 0, s))
           else if frag_len \<noteq> hm_msg_len msg_hdr then dtls1_reassemble_fragment X fuel s msg_hdr
           else if frag_len > dtls1_max_handshake_message_len s then Some (0, s)
           else case dtls1_hm_fragment_new X frag_len False of
             None \<Rightarrow> Some (0, s)
           | Some frag \<Rightarrow>
               (case (if frag_len = 0 then Some (1, [], None, s) else hs_read X fuel False frag_len s) of
                  None \<Rightarrow> None
                | Some (i, bs, _, s) \<Rightarrow>
                    if i \<le> 0 \<or> length bs \<noteq> frag_len then Some (0, s)
                    else case pitem_new (x_mem_obj X) prio64be (frag\<lparr>hf_msg_header := msg_hdr, hf_fragment := patch (hf_fragment frag) 0 bs\<rparr>) of
                      None \<Rightarrow> Some (0, s)
                    | Some item \<Rightarrow> (case pqueue_insert (buffered s) item [] of (r, q) \<Rightarrow>
                        Some (if r = None then 0 else DTLS1_HM_FRAGMENT_RETRY, set_buffered q s))))"

section \<open>The next message\<close>

text \<open>
  \<open>dtls_get_reassembled_message\<close>: whether a message is there, the error type and the length. The jump to \<open>redo\<close> is the
  recursion, at most \<open>k\<close> times.
\<close>

definition f_err :: "'e conn \<Rightarrow> int \<Rightarrow> (bool \<times> int \<times> nat \<times> 'e conn) option" where
  "f_err s al = Some (False, 0, 0, (SSLfatal s al)\<lparr>c_init_num := 0\<rparr>)"

text \<open>The part after the check of the sequence number, for a whole message.\<close>

definition read_whole ::
    "'e dtls_ext \<Rightarrow> nat \<Rightarrow> 'e conn \<Rightarrow> hm_header_st \<Rightarrow> bool \<Rightarrow> (bool \<times> int \<times> nat \<times> 'e conn) option" where
  "read_whole X fuel s msg_hdr chretran =
     (let moved = hm_frag_off (io_r_msg_hdr (c_world s)) = 0
                  \<and> b_max (io_init_buf (c_world s)) < hm_msg_len msg_hdr + DTLS1_HM_HEADER_LENGTH;
          frag_len = hm_frag_len msg_hdr;
          (ok, s) = dtls1_preprocess_fragment X s msg_hdr
      in if \<not> ok then Some (False, 0, 0, s\<lparr>c_init_num := 0\<rparr>)
         else case (if frag_len = 0 then Some (1, [], None, s) else hs_read X fuel False frag_len s) of
           None \<Rightarrow> None
         | Some (i, bs, _, s) \<Rightarrow>
             if frag_len > 0 \<and> moved then None
             else case put_init (DTLS1_HM_HEADER_LENGTH + hm_frag_off msg_hdr) bs s of
               None \<Rightarrow> None
             | Some s \<Rightarrow>
                 if i \<le> 0 then Some (False, 0, 0, s\<lparr>c_rwstate := SSL_READING\<rparr>)
                 else if length bs \<noteq> frag_len then f_err s SSL_AD_ILLEGAL_PARAMETER
                 else Some (True, 0, frag_len, (if chretran then set_read_seq_0 s else s)\<lparr>c_init_num := frag_len\<rparr>))"

text \<open>What follows the header \<open>msg_hdr\<close> in \<open>p\<close>; \<open>Inr\<close> is the jump to \<open>redo\<close>.\<close>

definition after_header ::
    "'e dtls_ext \<Rightarrow> nat \<Rightarrow> 'e conn \<Rightarrow> byte list \<Rightarrow> hm_header_st \<Rightarrow> ((bool \<times> int \<times> nat \<times> 'e conn) + 'e conn) option" where
  "after_header X fuel s p msg_hdr =
     (let frag_len = hm_frag_len msg_hdr; seq = hm_seq msg_hdr in
      if io_curr_rec (c_world s) \<ge> length (io_tlsrecs (c_world s)) then None
      else if frag_len > tr_length (the_rec (io_curr_rec (c_world s)) s) then map_option Inl (f_err s SSL_AD_ILLEGAL_PARAMETER)
      else if seq \<noteq> read_seq s
              \<and> (\<not> c_server s \<or> seq \<noteq> 0 \<or> read_seq s \<noteq> 1 \<or> p ! 0 \<noteq> 1 \<or> hand s \<noteq> DTLS_ST_SW_HELLO_VERIFY_REQUEST) then
        map_option (\<lambda>(r, s). Inl (False, r, 0, s)) (dtls1_process_out_of_seq_message X fuel s msg_hdr)
      else if frag_len \<noteq> 0 \<and> frag_len < hm_msg_len msg_hdr then
        map_option (\<lambda>(r, s). Inl (False, r, 0, s)) (dtls1_reassemble_fragment X fuel s msg_hdr)
      else if \<not> c_server s \<and> hm_frag_off (io_r_msg_hdr (c_world s)) = 0 \<and> hand s \<noteq> TLS_ST_OK \<and> p ! 0 = 0 then
        if p ! 1 = 0 \<and> p ! 2 = 0 \<and> p ! 3 = 0 then Some (Inr (s\<lparr>c_init_num := 0\<rparr>))
        else map_option Inl (f_err s SSL_AD_UNEXPECTED_MESSAGE)
      else map_option Inl (read_whole X fuel s msg_hdr (seq \<noteq> read_seq s)))"

definition got_ccs :: "'e conn \<Rightarrow> byte list \<Rightarrow> byte list \<Rightarrow> (bool \<times> int \<times> nat \<times> 'e conn) option" where
  "got_ccs s p bs =
     (if p ! 0 \<noteq> 1 then f_err s SSL_AD_UNEXPECTED_MESSAGE
      else
        let n = sz_sub (length bs) 1
        in Some (True, 0, n, io_upd (\<lambda>w. w\<lparr>io_message_type := SSL3_MT_CHANGE_CIPHER_SPEC\<rparr>)
             (s\<lparr>c_init_num := n, c_s3 := (c_s3 s)\<lparr>s3_message_size := n\<rparr>\<rparr>)))"

fun dtls_get_reassembled_message :: "'e dtls_ext \<Rightarrow> nat \<Rightarrow> nat \<Rightarrow> 'e conn \<Rightarrow> (bool \<times> int \<times> nat \<times> 'e conn) option" where
  "dtls_get_reassembled_message X fuel 0 s = None"
| "dtls_get_reassembled_message X fuel (Suc k) s =
     (case dtls1_retrieve_buffered_fragment X s of
        None \<Rightarrow> None
      | Some (ret, frag_len, s) \<Rightarrow>
          if ret < 0 then Some (False, 0, 0, s)
          else if ret > 0 then Some (True, 0, frag_len, s\<lparr>c_init_num := frag_len\<rparr>)
          else case hs_read X fuel True DTLS1_HM_HEADER_LENGTH s of
            None \<Rightarrow> None
          | Some (i, bs, recvd_type, s) \<Rightarrow>
              if i \<le> 0 then Some (False, 0, 0, s\<lparr>c_rwstate := SSL_READING\<rparr>)
              else case put_init 0 bs s of
                None \<Rightarrow> None
              | Some s \<Rightarrow>
                  let p = b_data (io_init_buf (c_world s)) in
                  if recvd_type = Some SSL3_RT_CHANGE_CIPHER_SPEC then got_ccs s p bs
                  else if length bs \<noteq> DTLS1_HM_HEADER_LENGTH then f_err s SSL_AD_UNEXPECTED_MESSAGE
                  else case after_header X fuel s p (dtls1_get_message_header p) of
                    None \<Rightarrow> None
                  | Some (Inl r) \<Rightarrow> Some r
                  | Some (Inr s) \<Rightarrow> dtls_get_reassembled_message X fuel k s)"

text \<open>The loop of \<open>dtls_get_message\<close> at the label \<open>again\<close>, at most \<open>k\<close> times, and the message type it yields.\<close>

fun get_again :: "'e dtls_ext \<Rightarrow> nat \<Rightarrow> nat \<Rightarrow> 'e conn \<Rightarrow> (bool \<times> 'e conn) option" where
  "get_again X fuel 0 s = None"
| "get_again X fuel (Suc k) s =
     (case dtls_get_reassembled_message X fuel fuel s of
        None \<Rightarrow> None
      | Some (ok, errtype, _, s) \<Rightarrow>
          if ok then Some (True, s)
          else if errtype = DTLS1_HM_BAD_FRAGMENT \<or> errtype = DTLS1_HM_FRAGMENT_RETRY then get_again X fuel k s
          else Some (False, s))"

definition message_header :: "hm_header_st \<Rightarrow> byte list" where
  "message_header msg_hdr = [hm_type msg_hdr] @ be_bytes 3 (hm_msg_len msg_hdr) @ be_bytes 2 (hm_seq msg_hdr)
     @ be_bytes 3 0 @ be_bytes 3 (hm_msg_len msg_hdr)"

definition dtls_get_message :: "'e dtls_ext \<Rightarrow> nat \<Rightarrow> 'e conn \<Rightarrow> (bool \<times> int \<times> 'e conn) option" where
  "dtls_get_message X fuel s =
     (case get_again X fuel fuel (io_upd (\<lambda>w. w\<lparr>io_r_msg_hdr := zero_hdr\<rparr>) s) of
        None \<Rightarrow> None
      | Some (False, s) \<Rightarrow> Some (False, 0, s)
      | Some (True, s) \<Rightarrow>
          let mt = io_message_type (c_world s) in
          if mt = SSL3_MT_CHANGE_CIPHER_SPEC then Some (True, mt, s)
          else case put_init 0 (message_header (io_r_msg_hdr (c_world s))) s of
            None \<Rightarrow> None
          | Some s \<Rightarrow> Some (True, mt, io_upd (\<lambda>w. w\<lparr>io_r_msg_hdr := zero_hdr\<rparr>)
              (s\<lparr>c_d1 := (c_d1 s)\<lparr>d1_handshake_read_seq := (read_seq s + 1) mod 65536\<rparr>\<rparr>)))"

text \<open>\<open>dtls1_clear_received_buffer\<close>.\<close>

function clear_received :: "hm_fragment pqueue \<Rightarrow> hm_fragment pqueue" where
  "clear_received q = (case pqueue_pop q of (None, q') \<Rightarrow> q' | (Some _, q') \<Rightarrow> clear_received q')"
  by pat_completeness auto

termination clear_received
  by (relation "measure length") (auto simp: pqueue_pop_def split: list.splits)

definition dtls1_clear_received_buffer :: "'e conn \<Rightarrow> 'e conn" where
  "dtls1_clear_received_buffer s = set_buffered (clear_received (buffered s)) s"

section \<open>The mask is the set of received bytes\<close>

definition marked :: "byte list \<Rightarrow> nat \<Rightarrow> bool" where
  "marked bitmask i \<longleftrightarrow> bit (bitmask ! (i div 8)) (i mod 8)"

lemma less_8_cases: "(r :: nat) < 8 \<Longrightarrow> r = 0 \<or> r = 1 \<or> r = 2 \<or> r = 3 \<or> r = 4 \<or> r = 5 \<or> r = 6 \<or> r = 7"
  by arith

lemma start_value_bit:
  assumes "r < 8" and "b < 8" shows "bit (bitmask_start_values ! r) b \<longleftrightarrow> r \<le> b"
  using less_8_cases [OF assms(1)] less_8_cases [OF assms(2)] by (elim disjE) (simp_all add: bitmask_start_values_def)

lemma end_value_bit:
  assumes "r < 8" and "b < 8" shows "bit (bitmask_end_values ! r) b \<longleftrightarrow> r = 0 \<or> b < r"
  using less_8_cases [OF assms(1)] less_8_cases [OF assms(2)] by (elim disjE) (simp_all add: bitmask_end_values_def)

lemma div_8_less: "(i :: nat) < 8 * k \<longleftrightarrow> i div 8 < k"
  by (simp add: div_less_iff_less_mult mult.commute)

lemma bitmask_size: "0 < n \<Longrightarrow> RSMBLY_BITMASK_SIZE n = Suc ((n - 1) div 8)" "n \<le> 8 * RSMBLY_BITMASK_SIZE n"
proof -
  have eq: "RSMBLY_BITMASK_SIZE (Suc k) = Suc (k div 8)" for k
    using div_add_self2 [of 8 k] by (simp add: RSMBLY_BITMASK_SIZE_def)
  then show "0 < n \<Longrightarrow> RSMBLY_BITMASK_SIZE n = Suc ((n - 1) div 8)" by (cases n) simp_all
  have "Suc k \<le> 8 * Suc (k div 8)" for k using div_8_less [of k "Suc (k div 8)"] by simp
  then show "n \<le> 8 * RSMBLY_BITMASK_SIZE n" using eq by (cases n) (simp_all only: zero_le)
qed

lemma le_by_8: "(a :: nat) \<le> b \<longleftrightarrow> a div 8 < b div 8 \<or> a div 8 = b div 8 \<and> a mod 8 \<le> b mod 8"
proof -
  have "8 * q + r \<le> 8 * q' + r' \<longleftrightarrow> q < q' \<or> q = q' \<and> r \<le> r'" if "r < 8" "r' < 8" for q r q' r' :: nat
    using that by linarith
  from this [of "a mod 8" "b mod 8" "a div 8" "b div 8"] show ?thesis by simp
qed

lemma last_mod_8: "0 < (n :: nat) \<Longrightarrow> i mod 8 \<le> (n - 1) mod 8 \<longleftrightarrow> n mod 8 = 0 \<or> i mod 8 < n mod 8"
  by (cases n) (auto simp: mod_Suc less_Suc_eq_le)

lemma less_by_8: "0 < (n :: nat) \<Longrightarrow> i < n \<longleftrightarrow> i div 8 < (n - 1) div 8 \<or> i div 8 = (n - 1) div 8 \<and> (n mod 8 = 0 \<or> i mod 8 < n mod 8)"
  using le_by_8 [of i "n - 1"] last_mod_8 [of n i] by (cases n) auto

lemma length_or_at [simp]: "length (or_at bm i v) = length bm"
  by (simp add: or_at_def)

lemma length_mark_bits [simp]: "length (mark_bits ii k bm) = length bm"
  by (induction ii k bm rule: mark_bits.induct) simp_all

lemma length_mark_bytes [simp]: "length (mark_bytes ii k bm) = length bm"
  by (induction ii k bm rule: mark_bytes.induct) simp_all

lemma length_MARK [simp]: "length (RSMBLY_BITMASK_MARK bm a b) = length bm"
  by (simp add: RSMBLY_BITMASK_MARK_def Let_def)

lemma marked_or_at:
  "k < length bm \<Longrightarrow> marked (or_at bm k v) i \<longleftrightarrow> marked bm i \<or> i div 8 = k \<and> bit v (i mod 8)"
  by (auto simp: marked_def or_at_def nth_list_update bit_or_iff)

lemma marked_bits:
  "ii + k \<le> 8 * length bm \<Longrightarrow> marked (mark_bits ii k bm) i \<longleftrightarrow> marked bm i \<or> ii \<le> i \<and> i < ii + k"
proof (induction ii k bm rule: mark_bits.induct)
  case (2 ii k bm)
  have "ii div 8 < length bm" using 2(2) by (simp add: less_mult_imp_div_less)
  moreover have "i div 8 = ii div 8 \<and> bit (push_bit (ii mod 8) (1 :: byte)) (i mod 8) \<longleftrightarrow> i = ii"
  proof
    assume "i div 8 = ii div 8 \<and> bit (push_bit (ii mod 8) (1 :: byte)) (i mod 8)"
    then have "i div 8 = ii div 8" "i mod 8 = ii mod 8" by (auto simp: bit_exp_iff)
    then show "i = ii" by (metis div_mult_mod_eq)
  qed (simp add: bit_exp_iff)
  ultimately show ?case using 2 marked_or_at by auto
qed auto

lemma marked_bytes:
  "ii + k \<le> length bm \<Longrightarrow> marked (mark_bytes ii k bm) i \<longleftrightarrow> marked bm i \<or> ii \<le> i div 8 \<and> i div 8 < ii + k"
proof (induction ii k bm rule: mark_bytes.induct)
  case (2 ii k bm)
  have ff: "bit (0xff :: byte) (i mod 8)" using end_value_bit [of 0 "i mod 8"] by (simp add: bitmask_end_values_def)
  have "marked (bm[ii := 0xff]) i \<longleftrightarrow> marked bm i \<or> i div 8 = ii"
    using 2(2) ff by (auto simp: marked_def nth_list_update)
  then show ?case using 2 by auto
qed auto

lemma marked_MARK:
  assumes "start < stop" and "stop \<le> 8 * length bm"
  shows "marked (RSMBLY_BITMASK_MARK bm start stop) i \<longleftrightarrow> marked bm i \<or> start \<le> i \<and> i < stop"
proof (cases "stop - start \<le> 8")
  case True
  then show ?thesis using assms marked_bits [of start "stop - start" bm i] by (simp add: RSMBLY_BITMASK_MARK_def)
next
  case False
  let ?a = "start div 8" and ?z = "(stop - 1) div 8"
  have "(start + 8) div 8 \<le> ?z" using False by (intro div_le_mono) simp
  moreover have "stop - 1 < 8 * length bm" using assms by simp
  ultimately have az: "?a < ?z" "?z < length bm" by (simp_all add: div_8_less)
  have "marked (RSMBLY_BITMASK_MARK bm start stop) i
      \<longleftrightarrow> marked bm i \<or> i div 8 = ?a \<and> start mod 8 \<le> i mod 8 \<or> ?a < i div 8 \<and> i div 8 < ?z
        \<or> i div 8 = ?z \<and> (stop mod 8 = 0 \<or> i mod 8 < stop mod 8)"
    using False az by (auto simp: RSMBLY_BITMASK_MARK_def Let_def marked_or_at marked_bytes start_value_bit end_value_bit)
  also have "\<dots> \<longleftrightarrow> marked bm i \<or> start \<le> i \<and> i < stop"
  proof -
    have split: "I = A \<and> P \<or> A < I \<and> I < Z \<or> I = Z \<and> Q \<longleftrightarrow> (A < I \<or> A = I \<and> P) \<and> (I < Z \<or> I = Z \<and> Q)"
      if "A < Z" for I A Z :: nat and P Q using that by auto
    have "0 < stop" using assms(1) by simp
    note eq = split [OF az(1), of "i div 8" "start mod 8 \<le> i mod 8" "stop mod 8 = 0 \<or> i mod 8 < stop mod 8"]
    show ?thesis unfolding le_by_8 [of start i] less_by_8 [OF \<open>0 < stop\<close>, of i] eq by (rule refl)
  qed
  finally show ?thesis .
qed

lemma byte_eqI: "(\<And>b. b < 8 \<Longrightarrow> bit (x :: byte) b \<longleftrightarrow> bit y b) \<Longrightarrow> x = y"
  by (rule bit_word_eqI) simp

lemma all_ff_iff: "all_ff bm k \<longleftrightarrow> (\<forall>i < 8 * k. marked bm i)"
proof (induction k)
  case (Suc k)
  have ff: "bit (0xff :: byte) b" if "b < 8" for b using end_value_bit [of 0 b] that by (simp add: bitmask_end_values_def)
  have "bm ! k = 0xff \<longleftrightarrow> (\<forall>b < 8. bit (bm ! k) b)" using byte_eqI ff by metis
  also have "\<dots> \<longleftrightarrow> (\<forall>i. i div 8 = k \<longrightarrow> marked bm i)"
  proof
    assume all: "\<forall>i. i div 8 = k \<longrightarrow> marked bm i"
    show "\<forall>b < 8. bit (bm ! k) b"
    proof (intro allI impI)
      fix b :: nat assume "b < 8"
      then have "(8 * k + b) div 8 = k" "(8 * k + b) mod 8 = b" by simp_all
      then show "bit (bm ! k) b" using all unfolding marked_def by metis
    qed
  qed (auto simp: marked_def)
  finally have k: "bm ! k = 0xff \<longleftrightarrow> (\<forall>i. i div 8 = k \<longrightarrow> marked bm i)" .
  have "i < 8 * Suc k \<longleftrightarrow> i < 8 * k \<or> i div 8 = k" for i unfolding div_8_less by (rule less_Suc_eq)
  then show ?case using Suc k by auto
qed simp

lemma IS_COMPLETE_iff:
  assumes "0 < n" and "length bm = RSMBLY_BITMASK_SIZE n" and clean: "\<And>i. n \<le> i \<Longrightarrow> i < 8 * length bm \<Longrightarrow> \<not> marked bm i"
  shows "RSMBLY_BITMASK_IS_COMPLETE bm n \<longleftrightarrow> (\<forall>i < n. marked bm i)"
proof -
  let ?z = "(n - 1) div 8"
  have len: "length bm = Suc ?z" using assms(2) bitmask_size(1) [OF assms(1)] by simp
  have "bm ! ?z = bitmask_end_values ! (n mod 8) \<longleftrightarrow> (\<forall>b < 8. bit (bm ! ?z) b \<longleftrightarrow> n mod 8 = 0 \<or> b < n mod 8)"
    using byte_eqI end_value_bit [of "n mod 8"] by (metis mod_less_divisor zero_less_numeral)
  also have "\<dots> \<longleftrightarrow> (\<forall>i. i div 8 = ?z \<longrightarrow> (marked bm i \<longleftrightarrow> i < n))"
  proof -
    have eq: "i < n \<longleftrightarrow> n mod 8 = 0 \<or> i mod 8 < n mod 8" if "i div 8 = ?z" for i using that less_by_8 [OF assms(1), of i] by simp
    show ?thesis
    proof
      assume all: "\<forall>i. i div 8 = ?z \<longrightarrow> (marked bm i \<longleftrightarrow> i < n)"
      show "\<forall>b < 8. bit (bm ! ?z) b \<longleftrightarrow> n mod 8 = 0 \<or> b < n mod 8"
      proof (intro allI impI)
        fix b :: nat assume "b < 8"
        then have i: "(8 * ?z + b) div 8 = ?z" "(8 * ?z + b) mod 8 = b" by simp_all
        show "bit (bm ! ?z) b \<longleftrightarrow> n mod 8 = 0 \<or> b < n mod 8"
          using all [rule_format, OF i(1)] eq [OF i(1)] unfolding marked_def i by simp
      qed
    qed (auto simp: marked_def eq)
  qed
  also have "\<dots> \<longleftrightarrow> (\<forall>i < n. i div 8 = ?z \<longrightarrow> marked bm i)"
  proof -
    have "i < 8 * length bm" if "i div 8 = ?z" for i unfolding div_8_less len using that by simp
    then show ?thesis using clean by (meson not_le)
  qed
  finally have z: "bm ! ?z = bitmask_end_values ! (n mod 8) \<longleftrightarrow> (\<forall>i < n. i div 8 = ?z \<longrightarrow> marked bm i)" .
  have "i < n \<longleftrightarrow> i < 8 * ?z \<or> i < n \<and> i div 8 = ?z" for i
    using less_by_8 [OF assms(1), of i] by (auto simp: div_less_iff_less_mult mult.commute)
  then show ?thesis unfolding RSMBLY_BITMASK_IS_COMPLETE_def using z all_ff_iff [of bm ?z] by metis
qed

section \<open>Reading a fragment's body\<close>

lemma hs_read_ready:
  assumes "quiet X" and "rec_ready 22 s" and "0 < n" and "0 < fuel"
  shows "hs_read X fuel want_type n s
    = Some (1, take n (rest s), if want_type then Some 22 else None, advance (min n (length (rest s))) s)"
proof -
  obtain f where "fuel = Suc f" using assms(4) by (cases fuel) auto
  then show ?thesis using read_ready [OF assms(1-3), of f want_type] by (simp add: hs_read_def)
qed

text \<open>What a read leaves alone.\<close>

definition keeps :: "'e conn \<Rightarrow> 'e conn \<Rightarrow> bool" where
  "keeps s s' \<longleftrightarrow> buffered s' = buffered s \<and> c_d1 s' = c_d1 s \<and> c_server s' = c_server s \<and> c_statem s' = c_statem s
     \<and> c_max_cert_list s' = c_max_cert_list s \<and> io_init_buf (c_world s') = io_init_buf (c_world s)
     \<and> io_r_msg_hdr (c_world s') = io_r_msg_hdr (c_world s) \<and> c_s3 s' = c_s3 s \<and> c_alerts s' = c_alerts s"

lemma keeps_refl [simp]: "keeps s s"
  by (simp add: keeps_def)

lemma keeps_trans: "keeps s s' \<Longrightarrow> keeps s' s'' \<Longrightarrow> keeps s s''"
  by (simp add: keeps_def)

lemma keeps_advance [simp]: "keeps s (advance n s)"
  by (simp add: keeps_def)

lemma read_devnull_reads:
  assumes "quiet X" and "0 < fuel" and "rec_ready 22 s" and "n \<le> length (rest s)" and "n \<le> k"
  shows "\<exists>s'. read_devnull X fuel k n s = Some (True, s') \<and> keeps s s'"
  using assms(3-)
proof (induction k arbitrary: n s)
  case 0
  then show ?case by auto
next
  case (Suc k)
  show ?case
  proof (cases n)
    case (Suc n')
    define d where "d = (if n > 256 then 256 else n)"
    have m: "0 < d" "d \<le> n" "min d (length (rest s)) = d" "length (take d (rest s)) = d"
      using Suc Suc.prems by (auto simp: d_def)
    have "read_devnull X fuel (Suc k) n s = (case hs_read X fuel False d s of None \<Rightarrow> None
      | Some (i, bs, _, s) \<Rightarrow> if i \<le> 0 then Some (False, s) else read_devnull X fuel k (n - length bs) s)"
      by (simp only: Suc d_def read_devnull.simps)
    then have run: "read_devnull X fuel (Suc k) n s = read_devnull X fuel k (n - d) (advance d s)"
      using hs_read_ready [OF assms(1) Suc.prems(1) m(1) assms(2), of False] m by simp
    show ?thesis
    proof (cases "n - d = 0")
      case True
      then show ?thesis using run keeps_advance by auto
    next
      case False
      then have lt: "d < length (rest s)" using Suc.prems(2) by linarith
      note ad = advance_ready [OF Suc.prems(1) lt]
      have "n - d \<le> k" using Suc.prems(3) m(1) by linarith
      then obtain s' where "read_devnull X fuel k (n - d) (advance d s) = Some (True, s')" "keeps (advance d s) s'"
        using Suc.IH [OF ad(1), of "n - d"] ad(2) diff_le_mono [OF Suc.prems(2), of d] by auto
      then show ?thesis using run keeps_trans [OF keeps_advance] by auto
    qed
  qed auto
qed

section \<open>A message in the queue\<close>

lemma be_value_zeros: "be_value (replicate n 0 @ bs) = be_value bs"
  by (induction n) (simp_all add: be_value_Cons)

lemma seq64be_facts: "length (seq64be seq) = 8" "seq < 65536 \<Longrightarrow> be_value (seq64be seq) = seq"
  using be_value_be_bytes_fits [of seq 2] by (simp_all add: seq64be_def be_value_zeros del: be_bytes.simps)

lemma seq64be_inj: "length p = 8 \<Longrightarrow> seq < 65536 \<Longrightarrow> p = seq64be seq \<longleftrightarrow> be_value p = seq"
  using seq64be_facts [of seq] be_bytes_be_value [of p] be_bytes_be_value [of "seq64be seq"] by metis

text \<open>
  The fragment stands for the message \<open>m\<close>, of which the positions in \<open>R\<close> have been received; the mask is gone when all have.
\<close>

definition holds_part :: "byte list \<Rightarrow> nat set \<Rightarrow> hm_fragment \<Rightarrow> bool" where
  "holds_part m R frag \<longleftrightarrow> hm_msg_len (hf_msg_header frag) = length m \<and> hm_frag_len (hf_msg_header frag) = length m
     \<and> hm_frag_off (hf_msg_header frag) = 0 \<and> length (hf_fragment frag) = length m \<and> R \<subseteq> {..<length m}
     \<and> (\<forall>i \<in> R. hf_fragment frag ! i = m ! i)
     \<and> (case hf_reassembly frag of
          None \<Rightarrow> R = {..<length m}
        | Some bm \<Rightarrow> R \<noteq> {..<length m} \<and> length bm = RSMBLY_BITMASK_SIZE (length m) \<and> (\<forall>i < 8 * length bm. marked bm i \<longleftrightarrow> i \<in> R))"

lemma holds_part_complete:
  "holds_part m R frag \<Longrightarrow> hf_reassembly frag = None \<longleftrightarrow> R = {..<length m}"
  "holds_part m {..<length m} frag \<Longrightarrow> hf_fragment frag = m"
  by (auto simp: holds_part_def split: option.splits intro: nth_equalityI)

text \<open>The header of a fragment of \<open>m\<close>.\<close>

definition piece_of :: "byte list \<Rightarrow> nat \<Rightarrow> hm_header_st \<Rightarrow> bool" where
  "piece_of m seq hdr \<longleftrightarrow> hm_msg_len hdr = length m \<and> hm_seq hdr = seq \<and> 0 < hm_frag_len hdr
     \<and> hm_frag_off hdr + hm_frag_len hdr \<le> length m"

abbreviation positions :: "hm_header_st \<Rightarrow> nat set" where
  "positions hdr \<equiv> {hm_frag_off hdr ..< hm_frag_off hdr + hm_frag_len hdr}"

lemma nth_patch:
  "i + length ys \<le> length xs \<Longrightarrow> j < length xs \<Longrightarrow>
     patch xs i ys ! j = (if i \<le> j \<and> j < i + length ys then ys ! (j - i) else xs ! j)"
  by (auto simp: patch_def nth_append min_def)

text \<open>The fragment after a piece was read into place and marked.\<close>

definition with_piece :: "hm_fragment \<Rightarrow> byte list \<Rightarrow> hm_header_st \<Rightarrow> byte list \<Rightarrow> hm_fragment" where
  "with_piece frag bm hdr bs =
     (let bm = RSMBLY_BITMASK_MARK bm (hm_frag_off hdr) (hm_frag_off hdr + hm_frag_len hdr);
          frag = frag\<lparr>hf_fragment := patch (hf_fragment frag) (hm_frag_off hdr) bs, hf_reassembly := Some bm\<rparr>
      in if RSMBLY_BITMASK_IS_COMPLETE bm (hm_msg_len hdr) then frag\<lparr>hf_reassembly := None\<rparr> else frag)"

lemma with_piece_holds:
  assumes part: "holds_part m R frag" and bm: "hf_reassembly frag = Some bm" and piece: "piece_of m seq hdr"
    and bs: "bs = take (hm_frag_len hdr) (drop (hm_frag_off hdr) m)"
  shows "holds_part m (R \<union> positions hdr) (with_piece frag bm hdr bs)"
proof -
  let ?o = "hm_frag_off hdr" and ?l = "hm_frag_len hdr"
  let ?bm = "RSMBLY_BITMASK_MARK bm ?o (?o + ?l)"
  have p: "hm_msg_len hdr = length m" "0 < ?l" "?o + ?l \<le> length m" using piece by (simp_all add: piece_of_def)
  have h: "length (hf_fragment frag) = length m" "length bm = RSMBLY_BITMASK_SIZE (length m)" "R \<subseteq> {..<length m}"
    "\<forall>i < 8 * length bm. marked bm i \<longleftrightarrow> i \<in> R" "\<forall>i \<in> R. hf_fragment frag ! i = m ! i"
    using part bm by (simp_all add: holds_part_def)
  have size: "length m \<le> 8 * length bm" using h(2) bitmask_size(2) [of "length m"] by simp
  have lbs: "length bs = ?l" using bs p by simp
  have mk: "marked ?bm i \<longleftrightarrow> i \<in> R \<union> positions hdr" if "i < 8 * length bm" for i
    using marked_MARK [of ?o "?o + ?l" bm i] p size h(4) that by auto
  have clean: "\<not> marked ?bm i" if "length m \<le> i" "i < 8 * length ?bm" for i using mk [of i] h(3) p that by auto
  have "0 < length m" "length ?bm = RSMBLY_BITMASK_SIZE (length m)" using p h(2) by auto
  then have "RSMBLY_BITMASK_IS_COMPLETE ?bm (length m) \<longleftrightarrow> (\<forall>i < length m. marked ?bm i)"
    using clean by (rule IS_COMPLETE_iff)
  also have "\<dots> \<longleftrightarrow> R \<union> positions hdr = {..<length m}"
  proof -
    have "marked ?bm i \<longleftrightarrow> i \<in> R \<union> positions hdr" if "i < length m" for i using mk size that by simp
    moreover have "R \<union> positions hdr \<subseteq> {..<length m}" using h(3) p by auto
    ultimately show ?thesis by blast
  qed
  finally have comp: "RSMBLY_BITMASK_IS_COMPLETE ?bm (length m) \<longleftrightarrow> R \<union> positions hdr = {..<length m}" .
  have bytes: "\<forall>i \<in> R \<union> positions hdr. patch (hf_fragment frag) ?o bs ! i = m ! i"
  proof
    fix i assume that: "i \<in> R \<union> positions hdr"
    have lt: "i < length m" using that h(3) p by auto
    have "patch (hf_fragment frag) ?o bs ! i = (if ?o \<le> i \<and> i < ?o + ?l then bs ! (i - ?o) else hf_fragment frag ! i)"
      using nth_patch [of ?o bs "hf_fragment frag" i] lt p lbs h(1) by simp
    then show "patch (hf_fragment frag) ?o bs ! i = m ! i" using that lt h(5) p bs by auto
  qed
  have sub: "R \<union> positions hdr \<subseteq> {..<length m}" using h(3) p by auto
  have hdr: "hm_msg_len (hf_msg_header frag) = length m" "hm_frag_len (hf_msg_header frag) = length m"
    "hm_frag_off (hf_msg_header frag) = 0"
    using part by (simp_all add: holds_part_def)
  have len: "length (patch (hf_fragment frag) ?o bs) = length m" using h(1) p lbs by simp
  show ?thesis
  proof (cases "R \<union> positions hdr = {..<length m}")
    case True
    then show ?thesis unfolding holds_part_def using bytes hdr len comp p(1) by (simp add: with_piece_def Let_def)
  next
    case False
    then show ?thesis unfolding holds_part_def using bytes sub hdr len comp p(1) mk h(2) by (simp add: with_piece_def Let_def)
  qed
qed

text \<open>The queue: sorted, and each item is filed under the sequence number in its header.\<close>

definition msgs_wf :: "hm_fragment pqueue \<Rightarrow> bool" where
  "msgs_wf q \<longleftrightarrow> pq_wf q \<and> (\<forall>i \<in> set q. prio i = hm_seq (hf_msg_header (i_data i)) \<and> prio i < 65536)"

lemma msgs_wf_item: "msgs_wf q \<Longrightarrow> i \<in> set q \<Longrightarrow> seq < 65536 \<Longrightarrow> i_priority i = seq64be seq \<longleftrightarrow> prio i = seq"
  using seq64be_inj [of "i_priority i" seq] by (auto simp: msgs_wf_def pq_wf_def item_wf_def prio_def)

lemma find_is_map:
  "msgs_wf q \<Longrightarrow> seq < 65536 \<Longrightarrow> pqueue_find q (seq64be seq) = pq_map q seq"
  using find_loop_map [of q "seq64be seq"] seq64be_facts [of seq] by (auto simp: pqueue_find_def msgs_wf_def)

lemma pq_map_item: "pq_map q k = Some i \<Longrightarrow> i \<in> set q \<and> prio i = k"
  by (induction q) (auto split: if_splits)

lemma pq_map_self: "pq_wf q \<Longrightarrow> i \<in> set q \<Longrightarrow> pq_map q (prio i) = Some i"
  by (induction q) (auto simp: pq_wf_def)

lemma prio_data [simp]: "prio (i\<lparr>i_data := d\<rparr>) = prio i"
  by (simp add: prio_def)

lemma set_data_map:
  assumes "msgs_wf q" and "seq < 65536" and "pq_map q seq = Some item" and "hm_seq (hf_msg_header frag) = seq"
  shows "msgs_wf (set_data (seq64be seq) frag q)"
    and "pq_map (set_data (seq64be seq) frag q) = (pq_map q)(seq \<mapsto> item\<lparr>i_data := frag\<rparr>)"
proof -
  define f where "f i = (if i_priority i = seq64be seq then i\<lparr>i_data := frag\<rparr> else i)" for i :: "hm_fragment pitem"
  have sd: "set_data (seq64be seq) frag q = map f q" by (simp add: set_data_def f_def cong: map_cong)
  have pr: "prio (f i) = prio i" "item_wf (f i) = item_wf i" for i by (simp_all add: f_def prio_def item_wf_def)
  have fs: "f i = (if prio i = seq then i\<lparr>i_data := frag\<rparr> else i)" if "i \<in> set q" for i
    using msgs_wf_item [OF assms(1) that assms(2)] by (simp add: f_def)
  have "pq_wf (map f q)" using assms(1) by (simp add: msgs_wf_def pq_wf_def sorted_wrt_map pr)
  moreover have "prio (f i) = hm_seq (hf_msg_header (i_data (f i))) \<and> prio (f i) < 65536" if "i \<in> set q" for i
  proof -
    have "prio i = hm_seq (hf_msg_header (i_data i))" "prio i < 65536" using assms(1) that by (auto simp: msgs_wf_def)
    then show ?thesis using fs [OF that] assms(4) by (cases "prio i = seq") (simp_all add: prio_def)
  qed
  ultimately show "msgs_wf (set_data (seq64be seq) frag q)" unfolding msgs_wf_def sd set_map by blast
  have "pq_map (map f q') = (\<lambda>k. map_option (\<lambda>i. if k = seq then i\<lparr>i_data := frag\<rparr> else i) (pq_map q' k))" if "set q' \<subseteq> set q" for q'
    using that
  proof (induction q')
    case (Cons i q')
    then show ?case using fs [of i] by (auto simp: fun_eq_iff pr(1))
  qed (simp add: fun_eq_iff)
  from this [OF subset_refl] show "pq_map (set_data (seq64be seq) frag q) = (pq_map q)(seq \<mapsto> item\<lparr>i_data := frag\<rparr>)"
    using assms(3) by (auto simp: sd fun_eq_iff option.map_ident)
qed

lemma insert_msg:
  assumes "msgs_wf q" and "seq < 65536" and "pq_map q seq = None" and "hm_seq (hf_msg_header frag) = seq"
  shows "\<exists>q'. pqueue_insert q \<lparr>i_priority = seq64be seq, i_data = frag\<rparr> [] = (Some \<lparr>i_priority = seq64be seq, i_data = frag\<rparr>, q')
    \<and> msgs_wf q' \<and> pq_map q' = (pq_map q)(seq \<mapsto> \<lparr>i_priority = seq64be seq, i_data = frag\<rparr>)"
proof -
  let ?it = "\<lparr>i_priority = seq64be seq, i_data = frag\<rparr>"
  have wf: "pq_wf q" "item_wf ?it" "prio ?it = seq"
    using assms(1,2) seq64be_facts [of seq] by (simp_all add: msgs_wf_def item_wf_def prio_def)
  obtain r q' where ins: "pqueue_insert q ?it [] = (r, q')" by fastforce
  have sp: "pq_wf q'" "r = Some ?it" "pq_map q' = (pq_map q)(seq \<mapsto> ?it)"
    using pqueue_insert_refines [OF wf(1,2)] ins assms(3) wf(3) by (auto simp: dom_def)
  have b: "\<forall>i \<in> set q'. prio i = hm_seq (hf_msg_header (i_data i)) \<and> prio i < 65536"
  proof
    fix i assume "i \<in> set q'"
    then have "pq_map q' (prio i) = Some i" by (rule pq_map_self [OF sp(1)])
    then show "prio i = hm_seq (hf_msg_header (i_data i)) \<and> prio i < 65536" using sp(3) assms(1,2,4) wf(3) pq_map_item [of q "prio i" i] by (auto simp: msgs_wf_def split: if_splits)
  qed
  have "msgs_wf q'" unfolding msgs_wf_def using sp(1) b by blast
  then show ?thesis using ins sp by simp
qed

section \<open>A fragment enters the queue\<close>

text \<open>The positions of \<open>m\<close> that the queue holds under \<open>seq\<close>.\<close>

definition received :: "byte list \<Rightarrow> nat \<Rightarrow> nat set \<Rightarrow> hm_fragment pqueue \<Rightarrow> bool" where
  "received m seq R q \<longleftrightarrow> msgs_wf q \<and> seq < 65536
     \<and> (case pq_map q seq of None \<Rightarrow> R = {} | Some item \<Rightarrow> R \<noteq> {} \<and> holds_part m R (i_data item))"

text \<open>The allocator grants what a message of \<open>n\<close> bytes needs.\<close>

definition mem_for :: "'e dtls_ext \<Rightarrow> nat \<Rightarrow> bool" where
  "mem_for X n \<longleftrightarrow> x_mem_obj X \<and> x_mem X n \<and> x_mem X (RSMBLY_BITMASK_SIZE n)"

text \<open>The record in hand goes on with the bytes that the header announces.\<close>

definition brings :: "byte list \<Rightarrow> hm_header_st \<Rightarrow> 'e conn \<Rightarrow> bool" where
  "brings m hdr s \<longleftrightarrow> rec_ready 22 s \<and> take (hm_frag_len hdr) (rest s) = take (hm_frag_len hdr) (drop (hm_frag_off hdr) m)"

lemma brings_length:
  assumes "piece_of m seq hdr" and "brings m hdr s"
  shows "hm_frag_len hdr \<le> length (rest s)"
proof -
  have "length (take (hm_frag_len hdr) (rest s)) = hm_frag_len hdr"
    using assms by (auto simp: brings_def piece_of_def min_def)
  then show ?thesis by simp
qed

lemma max_len_set [simp]: "dtls1_max_handshake_message_len (set_buffered q s) = dtls1_max_handshake_message_len s"
  by (simp add: dtls1_max_handshake_message_len_def set_buffered_def io_upd_def)

lemma buffered_set [simp]: "buffered (set_buffered q s) = q" "c_max_cert_list (set_buffered q s) = c_max_cert_list s"
  "c_d1 (set_buffered q s) = c_d1 s" "c_server (set_buffered q s) = c_server s" "c_statem (set_buffered q s) = c_statem s"
  "c_s3 (set_buffered q s) = c_s3 s" "c_alerts (set_buffered q s) = c_alerts s"
  "io_init_buf (c_world (set_buffered q s)) = io_init_buf (c_world s)" "io_r_msg_hdr (c_world (set_buffered q s)) = io_r_msg_hdr (c_world s)"
  "io_tlsrecs (c_world (set_buffered q s)) = io_tlsrecs (c_world s)" "io_curr_rec (c_world (set_buffered q s)) = io_curr_rec (c_world s)"
  "io_num_recs (c_world (set_buffered q s)) = io_num_recs (c_world s)"
  by (simp_all add: set_buffered_def io_upd_def)

lemma fragment_new_holds:
  assumes "mem_for X (length m)" and "piece_of m seq hdr"
  shows "\<exists>frag bm. dtls1_hm_fragment_new X (length m) True = Some frag \<and> hf_reassembly frag = Some bm
    \<and> holds_part m {} (frag\<lparr>hf_msg_header := hdr\<lparr>hm_frag_len := length m, hm_frag_off := 0\<rparr>\<rparr>)"
proof -
  have m: "0 < length m" "hm_msg_len hdr = length m" using assms(2) by (auto simp: piece_of_def)
  then have sz: "0 < RSMBLY_BITMASK_SIZE (length m)" using bitmask_size(1) [of "length m"] by simp
  have "\<not> marked (replicate (RSMBLY_BITMASK_SIZE (length m)) 0) i" if "i < 8 * RSMBLY_BITMASK_SIZE (length m)" for i
    using that by (simp add: marked_def less_mult_imp_div_less mult.commute)
  then show ?thesis
    using assms(1) m sz by (auto simp: dtls1_hm_fragment_new_def mem_for_def holds_part_def)
qed

lemma add_to_fragment_reads:
  assumes "quiet X" and "0 < fuel" and piece: "piece_of m seq hdr" and brings: "brings m hdr s"
    and frag: "length (hf_fragment frag) = length m"
  shows "add_to_fragment X fuel s hdr frag bm is_new =
    (let frag = with_piece frag bm hdr (take (hm_frag_len hdr) (drop (hm_frag_off hdr) m)); s = advance (hm_frag_len hdr) s in
     if is_new then
       (case pitem_new (x_mem_obj X) (seq64be seq) frag of
          None \<Rightarrow> Some (-1, s)
        | Some item \<Rightarrow> (case pqueue_insert (buffered s) item [] of (r, q) \<Rightarrow> Some (if r = None then -1 else -3, set_buffered q s)))
     else Some (-3, set_buffered (set_data (seq64be seq) frag (buffered s)) s))"
proof -
  let ?bs = "take (hm_frag_len hdr) (drop (hm_frag_off hdr) m)"
  have p: "hm_msg_len hdr = length m" "hm_seq hdr = seq" "0 < hm_frag_len hdr" "hm_frag_off hdr + hm_frag_len hdr \<le> length m"
    using piece by (simp_all add: piece_of_def)
  have ready: "rec_ready 22 s" and bs: "take (hm_frag_len hdr) (rest s) = ?bs" using brings by (simp_all add: brings_def)
  have rd: "hs_read X fuel False (hm_frag_len hdr) s = Some (1, ?bs, None, advance (hm_frag_len hdr) s)"
    using hs_read_ready [OF assms(1) ready p(3) assms(2), of False] bs brings_length [OF piece brings] by (simp add: min_def)
  have l: "length ?bs = hm_frag_len hdr" "\<not> hm_frag_off hdr + length ?bs > length (hf_fragment frag)" using p frag by simp_all
  have "hm_msg_len hdr \<noteq> 0" using p by auto
  then show ?thesis
    unfolding add_to_fragment_def Let_def rd option.case prod.case if_not_P [OF l(2)] p(2) using l(1) by (simp add: with_piece_def Let_def)
qed

text \<open>
  A fragment of a message, old or new, is read completely, and the queue then holds its positions too; other messages stay.
\<close>

lemma reassemble_step:
  assumes "quiet X" and fuel: "hm_frag_len hdr \<le> fuel" and mem: "mem_for X (length m)"
    and piece: "piece_of m seq hdr" and brings: "brings m hdr s" and max: "length m \<le> dtls1_max_handshake_message_len s"
    and rec: "received m seq R (buffered s)"
  shows "\<exists>s'. dtls1_reassemble_fragment X fuel s hdr = Some (-3, s') \<and> received m seq (R \<union> positions hdr) (buffered s')
    \<and> (\<forall>k. k \<noteq> seq \<longrightarrow> pq_map (buffered s') k = pq_map (buffered s) k) \<and> c_d1 s' = c_d1 s"
proof -
  let ?bs = "take (hm_frag_len hdr) (drop (hm_frag_off hdr) m)"
  let ?s = "advance (hm_frag_len hdr) s"
  have p: "hm_msg_len hdr = length m" "hm_seq hdr = seq" "0 < hm_frag_len hdr" "hm_frag_off hdr + hm_frag_len hdr \<le> length m"
    using piece by (simp_all add: piece_of_def)
  have wf: "msgs_wf (buffered s)" "seq < 65536" using rec by (simp_all add: received_def)
  note find = find_is_map [OF wf]
  have f: "0 < fuel" using fuel p(3) by simp
  have ready: "rec_ready 22 s" using brings by (simp add: brings_def)
  have ne: "R \<union> positions hdr \<noteq> {}" using p(3) by auto
  have go: "\<not> (hm_frag_off hdr + hm_frag_len hdr > hm_msg_len hdr \<or> hm_msg_len hdr > dtls1_max_handshake_message_len s)"
    using p max by simp
  show ?thesis
  proof (cases "pq_map (buffered s) seq")
    case None
    then have R: "R = {}" using rec by (simp add: received_def)
    obtain frag bm where new: "dtls1_hm_fragment_new X (length m) True = Some frag" "hf_reassembly frag = Some bm"
      "holds_part m {} (frag\<lparr>hf_msg_header := hdr\<lparr>hm_frag_len := length m, hm_frag_off := 0\<rparr>\<rparr>)"
      using fragment_new_holds [OF mem piece] by blast
    define fr where "fr = frag\<lparr>hf_msg_header := hdr\<lparr>hm_frag_len := length m, hm_frag_off := 0\<rparr>\<rparr>"
    define fr' where "fr' = with_piece fr bm hdr ?bs"
    have h: "holds_part m (R \<union> positions hdr) fr'"
      using with_piece_holds [OF new(3), of bm seq hdr ?bs] new(2) piece R by (simp add: fr_def fr'_def)
    have sq: "hm_seq (hf_msg_header fr') = seq" by (simp add: fr'_def with_piece_def Let_def fr_def p)
    obtain q' where q': "pqueue_insert (buffered s) \<lparr>i_priority = seq64be seq, i_data = fr'\<rparr> [] = (Some \<lparr>i_priority = seq64be seq, i_data = fr'\<rparr>, q')"
      "msgs_wf q'" "pq_map q' = (pq_map (buffered s))(seq \<mapsto> \<lparr>i_priority = seq64be seq, i_data = fr'\<rparr>)"
      using insert_msg [OF wf None sq] by blast
    have item: "pitem_new (x_mem_obj X) (seq64be seq) fr' = Some \<lparr>i_priority = seq64be seq, i_data = fr'\<rparr>"
      using mem seq64be_facts(1) [of seq] by (simp add: pitem_new_def mem_for_def)
    have "length (hf_fragment fr) = length m" using new(3) by (simp add: holds_part_def fr_def)
    note add = add_to_fragment_reads [OF assms(1) f piece brings this, of bm True, folded fr'_def]
    have "dtls1_reassemble_fragment X fuel s hdr = Some (-3, set_buffered q' ?s)"
      unfolding dtls1_reassemble_fragment_def Let_def if_not_P [OF go] p(2) find None
      using p(1,3) new add item q'(1) by (simp add: fr_def)
    moreover have "received m seq (R \<union> positions hdr) q'" using q' h wf(2) ne by (simp add: received_def)
    ultimately show ?thesis using q'(3) by (simp add: set_buffered_def io_upd_def)
  next
    case (Some item)
    have part: "holds_part m R (i_data item)" and R: "R \<noteq> {}" using rec Some by (simp_all add: received_def)
    have it: "hm_msg_len (hf_msg_header (i_data item)) = length m" "length (hf_fragment (i_data item)) = length m"
      using part by (simp_all add: holds_part_def)
    have sq: "hm_seq (hf_msg_header (i_data item)) = seq"
      using pq_map_item [OF Some] wf(1) by (auto simp: msgs_wf_def)
    show ?thesis
    proof (cases "hf_reassembly (i_data item)")
      case None
      obtain s' where s': "read_devnull X fuel fuel (hm_frag_len hdr) s = Some (True, s')" "keeps s s'"
        using read_devnull_reads [OF assms(1) f ready brings_length [OF piece brings] fuel] by blast
      have run: "dtls1_reassemble_fragment X fuel s hdr = Some (-3, s')"
        unfolding dtls1_reassemble_fragment_def Let_def if_not_P [OF go] p(2) find Some using p(1,3) it None s'(1) by simp
      have "R = {..<length m}" using holds_part_complete(1) [OF part] None by simp
      then have "R \<union> positions hdr = R" using p(4) by auto
      then have "received m seq (R \<union> positions hdr) (buffered s')" using rec s'(2) by (simp add: keeps_def)
      then show ?thesis using run s'(2) by (auto simp: keeps_def)
    next
      case (Some bm)
      define fr' where "fr' = with_piece (i_data item) bm hdr ?bs"
      have h: "holds_part m (R \<union> positions hdr) fr'"
        unfolding fr'_def by (rule with_piece_holds [OF part Some piece refl])
      have sq': "hm_seq (hf_msg_header fr') = seq" by (simp add: fr'_def with_piece_def Let_def sq)
      note sd = set_data_map [OF wf \<open>pq_map (buffered s) seq = Some item\<close> sq']
      note add = add_to_fragment_reads [OF assms(1) f piece brings it(2), of bm False, folded fr'_def]
      have "dtls1_reassemble_fragment X fuel s hdr = Some (-3, set_buffered (set_data (seq64be seq) fr' (buffered s)) ?s)"
        unfolding dtls1_reassemble_fragment_def Let_def if_not_P [OF go] p(2) find \<open>pq_map (buffered s) seq = Some item\<close>
        using p(1,3) it Some add by simp
      moreover have "received m seq (R \<union> positions hdr) (set_data (seq64be seq) fr' (buffered s))"
        using sd h wf(2) ne by (simp add: received_def)
      ultimately show ?thesis using sd(2) by (simp add: set_buffered_def io_upd_def)
    qed
  qed
qed

section \<open>A message leaves the queue\<close>

text \<open>The buffer \<open>init_buf\<close> has room for \<open>n\<close> bytes or can be given it.\<close>

definition room :: "'e dtls_ext \<Rightarrow> nat \<Rightarrow> BUF_MEM \<Rightarrow> bool" where
  "room X n buf \<longleftrightarrow> buf_wf buf \<and> (n \<le> b_max buf \<or> n \<le> LIMIT_BEFORE_EXPANSION \<and> x_mem X ((n + 3) div 3 * 4))"

lemma init_buf_grows:
  assumes "room X n buf"
  shows "\<exists>buf'. BUF_MEM_grow_clean (x_mem X) (x_junk X) buf n = (n, buf') \<and> n \<le> b_max buf' \<and> buf_wf buf'
    \<and> (n \<le> b_max buf \<longrightarrow> b_max buf' = b_max buf)"
  using assms expansion_covers [of n] expansion_bound [of n]
  by (auto simp: room_def buf_wf_def BUF_MEM_grow_clean_def Let_def)

definition preprocessed :: "hm_header_st \<Rightarrow> BUF_MEM \<Rightarrow> 'e conn \<Rightarrow> 'e conn" where
  "preprocessed hdr buf s = io_upd (\<lambda>w. w\<lparr>io_init_buf := buf, io_message_type := int (unat (hm_type hdr)),
      io_r_msg_hdr := (io_r_msg_hdr w)\<lparr>hm_msg_len := hm_msg_len hdr, hm_type := hm_type hdr, hm_seq := hm_seq hdr\<rparr>\<rparr>)
     (s\<lparr>c_s3 := (c_s3 s)\<lparr>s3_message_size := hm_msg_len hdr\<rparr>\<rparr>)"

lemma preprocess_ok:
  assumes "hm_frag_off hdr + hm_frag_len hdr \<le> hm_msg_len hdr" and "hm_msg_len hdr \<le> dtls1_max_handshake_message_len s"
    and "hm_frag_off (io_r_msg_hdr (c_world s)) = 0" and "room X (hm_msg_len hdr + 12) (io_init_buf (c_world s))"
  shows "\<exists>buf. dtls1_preprocess_fragment X s hdr = (True, preprocessed hdr buf s) \<and> hm_msg_len hdr + 12 \<le> b_max buf \<and> buf_wf buf
    \<and> (hm_msg_len hdr + 12 \<le> b_max (io_init_buf (c_world s)) \<longrightarrow> b_max buf = b_max (io_init_buf (c_world s)))"
  using init_buf_grows [OF assms(4)] assms(1-3) by (auto simp: dtls1_preprocess_fragment_def Let_def preprocessed_def)

lemma put_init_ok:
  assumes "12 + i + length bs \<le> b_max (io_init_buf (c_world s))"
  shows "\<exists>buf. put_init (12 + i) bs s = Some (io_upd (\<lambda>w. w\<lparr>io_init_buf := buf\<rparr>) s) \<and> b_max buf = b_max (io_init_buf (c_world s))
    \<and> take (length bs) (drop (12 + i) (b_data buf)) = bs"
proof -
  let ?buf = "(io_init_buf (c_world s))\<lparr>b_data := patch (b_data (io_init_buf (c_world s))) (12 + i) bs\<rparr>"
  have "b_max ?buf = b_max (io_init_buf (c_world s))" using assms by simp
  moreover have "take (length bs) (drop (12 + i) (b_data ?buf)) = bs" using assms by (simp add: patch_def)
  moreover have "put_init (12 + i) bs s = Some (io_upd (\<lambda>w. w\<lparr>io_init_buf := ?buf\<rparr>) s)"
    using assms by (simp add: put_init_def Let_def)
  ultimately show ?thesis by blast
qed

text \<open>Without a ClientHello to answer again, the loop throws away the stale messages and looks at the first other one.\<close>

definition no_retransmit :: "'e conn \<Rightarrow> bool" where
  "no_retransmit s \<longleftrightarrow> \<not> (c_server s \<and> hand s = DTLS_ST_SW_HELLO_VERIFY_REQUEST)"

lemma scan_drops_stale:
  assumes "msgs_wf q" and "buffered s = q" and "no_retransmit s"
  shows "scan_buffered s q = (set_buffered (dropWhile (\<lambda>i. prio i < read_seq s) q) s,
    case dropWhile (\<lambda>i. prio i < read_seq s) q of [] \<Rightarrow> None | item # _ \<Rightarrow> Some (i_data item, False))"
  using assms
proof (induction q arbitrary: s)
  case Nil
  then show ?case by (simp add: set_buffered_def io_upd_def)
next
  case (Cons item q)
  have sq: "prio item = hm_seq (hf_msg_header (i_data item))" "msgs_wf q" using Cons.prems(1) by (auto simp: msgs_wf_def pq_wf_def)
  show ?case
  proof (cases "prio item < read_seq s")
    case True
    let ?s = "set_buffered q s"
    have keep: "read_seq ?s = read_seq s" "no_retransmit ?s" "set_buffered q' ?s = set_buffered q' s" for q'
      using Cons.prems(3) by (simp_all add: set_buffered_def io_upd_def no_retransmit_def)
    have "scan_buffered s (item # q) = scan_buffered ?s q"
      using True sq Cons.prems(2,3) by (auto simp: Let_def pqueue_pop_def no_retransmit_def)
    then show ?thesis using Cons.IH [OF sq(2), of ?s] keep True by simp
  next
    case False
    have "set_buffered (item # q) s = s" using Cons.prems(2) by (simp add: set_buffered_def io_upd_def)
    then show ?thesis using False sq by (simp add: Let_def)
  qed
qed

lemma first_not_stale:
  "msgs_wf q \<Longrightarrow> pq_map q seq = Some item \<Longrightarrow> \<exists>q'. dropWhile (\<lambda>i. prio i < seq) q = item # q' \<and> pq_map q' seq = None"
proof (induction q)
  case (Cons x q)
  have x: "\<forall>i \<in> set q. prio x < prio i" "msgs_wf q" using Cons.prems(1) by (auto simp: msgs_wf_def pq_wf_def)
  have "pq_map q (prio x) = None" using x(1) pq_map_item [of q "prio x"] by (cases "pq_map q (prio x)") auto
  moreover have "seq \<noteq> prio x \<Longrightarrow> prio x < seq" using Cons.prems(2) x(1) pq_map_item [of q seq item] by (auto split: if_splits)
  ultimately show ?case using Cons x(2) by (auto split: if_splits)
qed simp

lemma first_is_later:
  "pq_map q seq = None \<Longrightarrow> dropWhile (\<lambda>i. prio i < seq) q = i # q' \<Longrightarrow> prio i \<noteq> seq"
  by (induction q) (auto split: if_splits)

lemma retrieve_scans:
  assumes "msgs_wf (buffered s)" and "no_retransmit s" and "dropWhile (\<lambda>i. prio i < read_seq s) (buffered s) = item # q'"
  shows "dtls1_retrieve_buffered_fragment X s =
    (let frag = i_data item; hdr = hf_msg_header frag in
     if hf_reassembly frag \<noteq> None \<or> prio item \<noteq> read_seq s then Some (0, 0, set_buffered (item # q') s)
     else case dtls1_preprocess_fragment X (set_buffered q' s) hdr of (ret, s) \<Rightarrow>
       if \<not> ret then Some (-1, 0, s\<lparr>c_init_num := 0\<rparr>)
       else if hm_frag_len hdr > length (hf_fragment frag) then None
       else map_option (\<lambda>s. (1, hm_frag_len hdr, s)) (put_init (12 + hm_frag_off hdr) (take (hm_frag_len hdr) (hf_fragment frag)) s))"
proof -
  have "item \<in> set (buffered s)" using set_dropWhileD [of item] assms(3) by (metis list.set_intros(1))
  then have sq: "prio item = hm_seq (hf_msg_header (i_data item))" using assms(1) by (auto simp: msgs_wf_def)
  have keep: "read_seq (set_buffered q s) = read_seq s" "set_buffered q'' (set_buffered q s) = set_buffered q'' s" for q q''
    by (simp_all add: set_buffered_def io_upd_def)
  show ?thesis
    using scan_drops_stale [OF assms(1) refl assms(2)] assms(3)
    by (auto simp: dtls1_retrieve_buffered_fragment_def pqueue_iterator_def Let_def keep sq pqueue_pop_def split: option.splits prod.splits)
qed

lemma retrieve_nothing:
  assumes "msgs_wf (buffered s)" and "no_retransmit s"
    and "\<And>item. pq_map (buffered s) (read_seq s) = Some item \<Longrightarrow> hf_reassembly (i_data item) \<noteq> None"
  shows "\<exists>q'. dtls1_retrieve_buffered_fragment X s = Some (0, 0, set_buffered q' s)"
proof (cases "dropWhile (\<lambda>i. prio i < read_seq s) (buffered s)")
  case Nil
  have "scan_buffered s (buffered s) = (set_buffered [] s, None)"
    using scan_drops_stale [OF assms(1) refl assms(2)] unfolding Nil by simp
  then show ?thesis by (auto simp: dtls1_retrieve_buffered_fragment_def pqueue_iterator_def)
next
  case (Cons item q')
  have "hf_reassembly (i_data item) \<noteq> None \<or> prio item \<noteq> read_seq s"
  proof (cases "pq_map (buffered s) (read_seq s)")
    case None
    then show ?thesis using first_is_later [OF None Cons] by simp
  next
    case (Some it)
    then have "it = item" using first_not_stale [OF assms(1) Some] Cons by auto
    then show ?thesis using assms(3) [OF Some] by simp
  qed
  then show ?thesis using retrieve_scans [OF assms(1,2) Cons, of X] by (auto simp: Let_def)
qed

text \<open>What the connection looks like when the message \<open>m\<close> has been handed over in \<open>init_buf\<close>.\<close>

definition handed_over :: "byte list \<Rightarrow> 'e conn \<Rightarrow> bool" where
  "handed_over m s \<longleftrightarrow> take (length m) (drop 12 (b_data (io_init_buf (c_world s)))) = m \<and> s3_message_size (c_s3 s) = length m
     \<and> length m + 12 \<le> b_max (io_init_buf (c_world s))"

text \<open>The connection can take the next message.\<close>

definition msg_ready :: "'e dtls_ext \<Rightarrow> nat \<Rightarrow> 'e conn \<Rightarrow> bool" where
  "msg_ready X n s \<longleftrightarrow> no_retransmit s \<and> hm_frag_off (io_r_msg_hdr (c_world s)) = 0
     \<and> n \<le> dtls1_max_handshake_message_len s \<and> room X (n + 12) (io_init_buf (c_world s))"

lemma retrieve_complete:
  assumes "received m (read_seq s) {..<length m} (buffered s)" and "m \<noteq> []" and "msg_ready X (length m) s"
  shows "\<exists>s'. dtls1_retrieve_buffered_fragment X s = Some (1, length m, s') \<and> handed_over m s'
    \<and> pq_map (buffered s') (read_seq s) = None"
proof -
  have wf: "msgs_wf (buffered s)" using assms(1) by (simp add: received_def)
  obtain item where item: "pq_map (buffered s) (read_seq s) = Some item" "holds_part m {..<length m} (i_data item)"
    using assms(1,2) by (auto simp: received_def split: option.splits)
  obtain q' where q': "dropWhile (\<lambda>i. prio i < read_seq s) (buffered s) = item # q'" "pq_map q' (read_seq s) = None"
    using first_not_stale [OF wf item(1)] by blast
  have h: "hm_msg_len (hf_msg_header (i_data item)) = length m" "hm_frag_len (hf_msg_header (i_data item)) = length m"
    "hm_frag_off (hf_msg_header (i_data item)) = 0" "hf_fragment (i_data item) = m" "hf_reassembly (i_data item) = None"
    using item(2) holds_part_complete [OF item(2)] by (simp_all add: holds_part_def)
  have pr: "prio item = read_seq s" using pq_map_item [OF item(1)] by simp
  let ?s = "set_buffered q' s"
  have ready: "no_retransmit s" "hm_frag_off (io_r_msg_hdr (c_world ?s)) = 0" "length m \<le> dtls1_max_handshake_message_len ?s"
    "room X (length m + 12) (io_init_buf (c_world ?s))"
    using assms(3) by (simp_all add: msg_ready_def)
  obtain buf where buf: "dtls1_preprocess_fragment X ?s (hf_msg_header (i_data item)) = (True, preprocessed (hf_msg_header (i_data item)) buf ?s)"
    "length m + 12 \<le> b_max buf"
    using preprocess_ok [of "hf_msg_header (i_data item)" ?s X] h ready by auto
  let ?s1 = "preprocessed (hf_msg_header (i_data item)) buf ?s"
  have b1: "io_init_buf (c_world ?s1) = buf" by (simp add: preprocessed_def io_upd_def)
  obtain buf' where buf': "put_init (12 + 0) m ?s1 = Some (io_upd (\<lambda>w. w\<lparr>io_init_buf := buf'\<rparr>) ?s1)" "b_max buf' = b_max buf"
    "take (length m) (drop (12 + 0) (b_data buf')) = m"
    using put_init_ok [of 0 m ?s1] buf(2) unfolding b1 by auto
  have "dtls1_retrieve_buffered_fragment X s = Some (1, length m, io_upd (\<lambda>w. w\<lparr>io_init_buf := buf'\<rparr>) ?s1)"
    using retrieve_scans [OF wf ready(1) q'(1), of X] h pr buf(1) buf'(1) by (simp add: Let_def)
  moreover have "handed_over m (io_upd (\<lambda>w. w\<lparr>io_init_buf := buf'\<rparr>) ?s1)"
    using buf' buf(2) h by (simp add: handed_over_def preprocessed_def io_upd_def)
  moreover have "buffered (io_upd (\<lambda>w. w\<lparr>io_init_buf := buf'\<rparr>) ?s1) = q'"
    by (simp add: preprocessed_def io_upd_def set_buffered_def)
  ultimately show ?thesis using q'(2) by auto
qed

text \<open>
  Fragments of the message \<open>m\<close> with the number \<open>seq\<close> arrive one after another, in any order, repeated or overlapping; between them
  the connection may do what it likes as long as the queue stays. \<open>R\<close> is the set of positions they cover.
\<close>

inductive fragments_read :: "'e dtls_ext \<Rightarrow> nat \<Rightarrow> byte list \<Rightarrow> nat \<Rightarrow> nat set \<Rightarrow> 'e conn \<Rightarrow> bool" for X fuel m seq where
  none: "msgs_wf (buffered s) \<Longrightarrow> seq < 65536 \<Longrightarrow> pq_map (buffered s) seq = None \<Longrightarrow> fragments_read X fuel m seq {} s"
| piece: "fragments_read X fuel m seq R s \<Longrightarrow> buffered s1 = buffered s \<Longrightarrow> piece_of m seq hdr \<Longrightarrow> brings m hdr s1 \<Longrightarrow>
    length m \<le> dtls1_max_handshake_message_len s1 \<Longrightarrow> dtls1_reassemble_fragment X fuel s1 hdr = Some (r, s2) \<Longrightarrow>
    fragments_read X fuel m seq (R \<union> positions hdr) s2"
| other: "fragments_read X fuel m seq R s \<Longrightarrow> buffered s1 = buffered s \<Longrightarrow> fragments_read X fuel m seq R s1"

lemma fragments_received:
  assumes "fragments_read X fuel m seq R s" and "quiet X" and "mem_for X (length m)" and "length m \<le> fuel"
  shows "received m seq R (buffered s)"
  using assms(1)
proof (induction rule: fragments_read.induct)
  case (none s)
  then show ?case by (simp add: received_def)
next
  case (piece R s s1 hdr r s2)
  have "hm_frag_len hdr \<le> fuel" using piece(3) assms(4) by (simp add: piece_of_def)
  then show ?case
    using reassemble_step [OF assms(2) _ assms(3) piece(3,4,5), of fuel R] piece(2,6,7) by auto
qed simp

section \<open>A message in one record\<close>

definition frag_header :: "hm_header_st \<Rightarrow> byte list" where
  "frag_header hdr = [hm_type hdr] @ be_bytes 3 (hm_msg_len hdr) @ be_bytes 2 (hm_seq hdr)
     @ be_bytes 3 (hm_frag_off hdr) @ be_bytes 3 (hm_frag_len hdr)"

definition hdr_fits :: "hm_header_st \<Rightarrow> bool" where
  "hdr_fits hdr \<longleftrightarrow> hm_msg_len hdr < 2 ^ 24 \<and> hm_seq hdr < 65536 \<and> hm_frag_off hdr < 2 ^ 24 \<and> hm_frag_len hdr < 2 ^ 24"

lemma length_frag_header [simp]: "length (frag_header hdr) = 12"
  by (simp add: frag_header_def del: be_bytes.simps)

lemma parse_frag_header:
  assumes "hdr_fits hdr" shows "dtls1_get_message_header (frag_header hdr @ xs) = hdr"
proof -
  have "take 3 (drop 1 (frag_header hdr @ xs)) = be_bytes 3 (hm_msg_len hdr)"
    "take 2 (drop 4 (frag_header hdr @ xs)) = be_bytes 2 (hm_seq hdr)"
    "take 3 (drop 6 (frag_header hdr @ xs)) = be_bytes 3 (hm_frag_off hdr)"
    "take 3 (drop 9 (frag_header hdr @ xs)) = be_bytes 3 (hm_frag_len hdr)"
    by (simp_all add: frag_header_def del: be_bytes.simps)
  then show ?thesis
    using assms unfolding dtls1_get_message_header_def by (simp add: be_value_be_bytes_fits hdr_fits_def frag_header_def del: be_bytes.simps)
qed

text \<open>The connection after the header of a fragment was read.\<close>

definition with_header :: "hm_header_st \<Rightarrow> hm_fragment pqueue \<Rightarrow> 'e conn \<Rightarrow> 'e conn" where
  "with_header hdr q s = io_upd (\<lambda>w. w\<lparr>io_init_buf := (io_init_buf w)\<lparr>b_data := patch (b_data (io_init_buf w)) 0 (frag_header hdr)\<rparr>\<rparr>)
     (advance 12 (set_buffered q s))"

text \<open>A fragment comes, and no message of the queue comes first.\<close>

definition next_fragment :: "hm_header_st \<Rightarrow> byte list \<Rightarrow> 'e conn \<Rightarrow> bool" where
  "next_fragment hdr bs s \<longleftrightarrow> rec_ready 22 s \<and> rest s = frag_header hdr @ bs \<and> hdr_fits hdr \<and> msgs_wf (buffered s) \<and> no_retransmit s
     \<and> (\<forall>item. pq_map (buffered s) (read_seq s) = Some item \<longrightarrow> hf_reassembly (i_data item) \<noteq> None)
     \<and> buf_wf (io_init_buf (c_world s)) \<and> 12 \<le> b_max (io_init_buf (c_world s))
     \<and> io_num_recs (c_world s) < length (io_tlsrecs (c_world s)) \<and> hm_frag_off (io_r_msg_hdr (c_world s)) = 0"

lemma set_buffered_ready [simp]: "rec_ready ty (set_buffered q s) = rec_ready ty s" "rest (set_buffered q s) = rest s"
  by (simp_all add: set_buffered_def rec_ready_def rest_def conn_simps ossl_statem_in_error_def SSL_in_init_def)

lemma get_header:
  assumes "quiet X" and "0 < fuel" and "next_fragment hdr bs s"
  shows "\<exists>q. dtls_get_reassembled_message X fuel (Suc k) s =
    (case after_header X fuel (with_header hdr q s) (frag_header hdr @ drop 12 (b_data (io_init_buf (c_world s)))) hdr of
       None \<Rightarrow> None | Some (Inl r) \<Rightarrow> Some r | Some (Inr s) \<Rightarrow> dtls_get_reassembled_message X fuel k s)"
proof -
  have n: "rec_ready 22 s" "rest s = frag_header hdr @ bs" "hdr_fits hdr" "msgs_wf (buffered s)" "no_retransmit s"
    "\<And>item. pq_map (buffered s) (read_seq s) = Some item \<Longrightarrow> hf_reassembly (i_data item) \<noteq> None"
    "12 \<le> b_max (io_init_buf (c_world s))"
    using assms(3) by (auto simp: next_fragment_def)
  obtain q where q: "dtls1_retrieve_buffered_fragment X s = Some (0, 0, set_buffered q s)"
    using retrieve_nothing [OF n(4-6), of X] by blast
  have rd: "hs_read X fuel True 12 (set_buffered q s) = Some (1, frag_header hdr, Some 22, advance 12 (set_buffered q s))"
    using hs_read_ready [OF assms(1) _ _ assms(2), of "set_buffered q s" 12 True] n(1,2) by simp
  have ib: "io_init_buf (c_world (advance 12 (set_buffered q s))) = io_init_buf (c_world s)"
    by (simp add: set_buffered_def io_upd_def)
  have put: "put_init 0 (frag_header hdr) (advance 12 (set_buffered q s)) = Some (with_header hdr q s)"
    using n(7) by (simp add: put_init_def Let_def ib with_header_def io_upd_def)
  have p: "b_data (io_init_buf (c_world (with_header hdr q s))) = frag_header hdr @ drop 12 (b_data (io_init_buf (c_world s)))"
    using ib by (simp add: with_header_def io_upd_def patch_def)
  show ?thesis
    using q rd put p parse_frag_header [OF n(3)] by (intro exI [of _ q]) (simp add: Let_def)
qed

lemma init_buf_ready [simp]:
  "rec_ready ty (io_upd (\<lambda>w. w\<lparr>io_init_buf := f w\<rparr>) s) = rec_ready ty s" "rest (io_upd (\<lambda>w. w\<lparr>io_init_buf := f w\<rparr>) s) = rest s"
  "buffered (io_upd (\<lambda>w. w\<lparr>io_init_buf := f w\<rparr>) s) = buffered s"
  "io_r_msg_hdr (c_world (io_upd (\<lambda>w. w\<lparr>io_init_buf := f w\<rparr>) s)) = io_r_msg_hdr (c_world s)"
  by (simp_all add: rec_ready_def rest_def conn_simps ossl_statem_in_error_def SSL_in_init_def)

lemma with_header_fields [simp]:
  "c_statem (with_header hdr q s) = c_statem s" "c_server (with_header hdr q s) = c_server s" "c_d1 (with_header hdr q s) = c_d1 s"
  "c_max_cert_list (with_header hdr q s) = c_max_cert_list s" "c_alerts (with_header hdr q s) = c_alerts s"
  "io_r_msg_hdr (c_world (with_header hdr q s)) = io_r_msg_hdr (c_world s)" "buffered (with_header hdr q s) = q"
  "length (io_tlsrecs (c_world (with_header hdr q s))) = length (io_tlsrecs (c_world s))"
  by (simp_all add: with_header_def) (simp_all add: io_upd_def)

lemma with_header_max [simp]:
  "dtls1_max_handshake_message_len (with_header hdr q s) = dtls1_max_handshake_message_len s"
  by (simp add: dtls1_max_handshake_message_len_def)

lemma with_header_ready:
  assumes "next_fragment hdr bs s"
  shows "io_curr_rec (c_world (with_header hdr q s)) < length (io_tlsrecs (c_world (with_header hdr q s)))"
    and "b_max (io_init_buf (c_world (with_header hdr q s))) = b_max (io_init_buf (c_world s))"
    and "buf_wf (io_init_buf (c_world (with_header hdr q s)))"
    and "bs \<noteq> [] \<Longrightarrow> rec_ready 22 (with_header hdr q s) \<and> rest (with_header hdr q s) = bs
      \<and> tr_length (the_rec (io_curr_rec (c_world (with_header hdr q s))) (with_header hdr q s)) = length bs"
proof -
  have n: "rec_ready 22 (set_buffered q s)" "rest (set_buffered q s) = frag_header hdr @ bs" "buf_wf (io_init_buf (c_world s))"
    "12 \<le> b_max (io_init_buf (c_world s))" "io_num_recs (c_world s) < length (io_tlsrecs (c_world s))"
    using assms by (auto simp: next_fragment_def)
  have "io_curr_rec (c_world s) < io_num_recs (c_world s)" using n(1) by (simp add: rec_ready_def)
  then show "io_curr_rec (c_world (with_header hdr q s)) < length (io_tlsrecs (c_world (with_header hdr q s)))"
    using n(5) by (simp add: with_header_def advance_def io_upd_def)
  show mx: "b_max (io_init_buf (c_world (with_header hdr q s))) = b_max (io_init_buf (c_world s))"
    using n(4) by (simp add: with_header_def io_upd_def)
  have "b_length (io_init_buf (c_world (with_header hdr q s))) = b_length (io_init_buf (c_world s))"
    by (simp add: with_header_def io_upd_def)
  then show "buf_wf (io_init_buf (c_world (with_header hdr q s)))" using n(3) mx by (simp add: buf_wf_def)
  assume "bs \<noteq> []"
  then have "12 < length (rest (set_buffered q s))" using n(2) by (cases bs) simp_all
  note ad = advance_ready [OF n(1) this]
  have r: "rec_ready 22 (with_header hdr q s)" "rest (with_header hdr q s) = bs"
    using ad n(2) by (simp_all add: with_header_def)
  have "rec_alive 22 (the_rec (io_curr_rec (c_world (with_header hdr q s))) (with_header hdr q s))"
    using r(1) by (simp add: rec_ready_def)
  from length_payload [OF this] r show "rec_ready 22 (with_header hdr q s) \<and> rest (with_header hdr q s) = bs
      \<and> tr_length (the_rec (io_curr_rec (c_world (with_header hdr q s))) (with_header hdr q s)) = length bs"
    by (simp add: rest_def)
qed

lemma preprocessed_fields [simp]:
  "rec_ready ty (preprocessed hdr buf s) = rec_ready ty s" "rest (preprocessed hdr buf s) = rest s" "c_d1 (preprocessed hdr buf s) = c_d1 s"
  "io_init_buf (c_world (preprocessed hdr buf s)) = buf" "s3_message_size (c_s3 (preprocessed hdr buf s)) = hm_msg_len hdr"
  "io_message_type (c_world (preprocessed hdr buf s)) = int (unat (hm_type hdr))"
  "io_r_msg_hdr (c_world (preprocessed hdr buf s)) = (io_r_msg_hdr (c_world s))\<lparr>hm_msg_len := hm_msg_len hdr, hm_type := hm_type hdr, hm_seq := hm_seq hdr\<rparr>"
  by (simp_all add: preprocessed_def rec_ready_def rest_def conn_simps ossl_statem_in_error_def SSL_in_init_def)

text \<open>
  A message or an empty fragment that the buffer has room for is read into place: the pointer into the buffer stays valid.
\<close>

lemma read_whole_ok:
  assumes "quiet X" and "0 < fuel" and len: "hm_frag_off hdr + hm_frag_len hdr \<le> hm_msg_len hdr"
    and max: "hm_msg_len hdr \<le> dtls1_max_handshake_message_len s"
    and r0: "hm_frag_off (io_r_msg_hdr (c_world s)) = 0" and buf: "buf_wf (io_init_buf (c_world s))" "hm_msg_len hdr + 12 \<le> b_max (io_init_buf (c_world s))"
    and body: "0 < hm_frag_len hdr \<Longrightarrow> rec_ready 22 s \<and> hm_frag_len hdr \<le> length (rest s)"
  shows "\<exists>s'. read_whole X fuel s hdr False = Some (True, 0, hm_frag_len hdr, s')
    \<and> (0 < hm_frag_len hdr \<longrightarrow> take (hm_frag_len hdr) (drop (12 + hm_frag_off hdr) (b_data (io_init_buf (c_world s')))) = take (hm_frag_len hdr) (rest s))
    \<and> s3_message_size (c_s3 s') = hm_msg_len hdr \<and> c_init_num s' = hm_frag_len hdr \<and> c_d1 s' = c_d1 s
    \<and> io_message_type (c_world s') = int (unat (hm_type hdr))
    \<and> io_r_msg_hdr (c_world s') = (io_r_msg_hdr (c_world s))\<lparr>hm_msg_len := hm_msg_len hdr, hm_type := hm_type hdr, hm_seq := hm_seq hdr\<rparr>
    \<and> b_max (io_init_buf (c_world s')) = b_max (io_init_buf (c_world s))"
proof -
  let ?l = "hm_frag_len hdr"
  have "room X (hm_msg_len hdr + 12) (io_init_buf (c_world s))" using buf by (simp add: room_def)
  from preprocess_ok [OF len max r0 this] obtain b where
    b: "dtls1_preprocess_fragment X s hdr = (True, preprocessed hdr b s)" "b_max b = b_max (io_init_buf (c_world s))"
    using buf(2) by auto
  define s1 where "s1 = (if ?l = 0 then preprocessed hdr b s else advance ?l (preprocessed hdr b s))"
  define bs where "bs = take ?l (rest s)"
  have bl: "length bs = ?l" using body by (cases "?l = 0") (auto simp: bs_def)
  have rd: "(if ?l = 0 then Some (1, [], None, preprocessed hdr b s) else hs_read X fuel False ?l (preprocessed hdr b s)) = Some (1, bs, None, s1)"
  proof (cases "?l = 0")
    case False
    then have bd: "rec_ready 22 s" "?l \<le> length (rest s)" using body by auto
    show ?thesis
      using False hs_read_ready [OF assms(1) _ _ assms(2), of "preprocessed hdr b s" ?l False] bd by (simp add: s1_def bs_def min_def)
  qed (simp add: s1_def bs_def)
  have k: "c_d1 s1 = c_d1 s" "io_init_buf (c_world s1) = b" "s3_message_size (c_s3 s1) = hm_msg_len hdr"
    "io_message_type (c_world s1) = int (unat (hm_type hdr))"
    "io_r_msg_hdr (c_world s1) = (io_r_msg_hdr (c_world s))\<lparr>hm_msg_len := hm_msg_len hdr, hm_type := hm_type hdr, hm_seq := hm_seq hdr\<rparr>"
    by (simp_all add: s1_def)
  obtain b' where b': "put_init (12 + hm_frag_off hdr) bs s1 = Some (io_upd (\<lambda>w. w\<lparr>io_init_buf := b'\<rparr>) s1)" "b_max b' = b_max b"
    "take (length bs) (drop (12 + hm_frag_off hdr) (b_data b')) = bs"
    using put_init_ok [of "hm_frag_off hdr" bs s1] k(2) b(2) buf(2) len bl by auto
  have run: "read_whole X fuel s hdr False = Some (True, 0, ?l, (io_upd (\<lambda>w. w\<lparr>io_init_buf := b'\<rparr>) s1)\<lparr>c_init_num := ?l\<rparr>)"
    unfolding read_whole_def Let_def b(1) prod.case rd option.case b'(1) using buf(2) bl by simp
  have "take ?l (drop (12 + hm_frag_off hdr) (b_data b')) = bs" using b'(3) bl by simp
  then show ?thesis
    using run k b'(2) b(2)
    by (intro exI [of _ "(io_upd (\<lambda>w. w\<lparr>io_init_buf := b'\<rparr>) s1)\<lparr>c_init_num := ?l\<rparr>"]) (simp add: io_upd_def bs_def)
qed

text \<open>A HelloRequest, which a client ignores during a handshake.\<close>

definition ignored_request :: "hm_header_st \<Rightarrow> 'e conn \<Rightarrow> bool" where
  "ignored_request hdr s \<longleftrightarrow> \<not> c_server s \<and> hand s \<noteq> TLS_ST_OK \<and> hm_type hdr = 0"

lemma after_header_whole:
  assumes "next_fragment hdr bs s" and seq: "hm_seq hdr = read_seq s" and len: "hm_frag_len hdr = 0 \<or> hm_frag_len hdr = hm_msg_len hdr"
    and "hm_frag_len hdr \<le> length bs" and "\<not> ignored_request hdr s"
  shows "after_header X fuel (with_header hdr q s) (frag_header hdr @ xs) hdr = map_option Inl (read_whole X fuel (with_header hdr q s) hdr False)"
proof -
  note w = with_header_ready [OF assms(1), of q]
  have 1: "\<not> io_curr_rec (c_world (with_header hdr q s)) \<ge> length (io_tlsrecs (c_world (with_header hdr q s)))" using w(1) by simp
  have 2: "\<not> hm_frag_len hdr > tr_length (the_rec (io_curr_rec (c_world (with_header hdr q s))) (with_header hdr q s))"
    using w(4) assms(4) by (cases "bs = []") auto
  have p0: "(frag_header hdr @ xs) ! 0 = hm_type hdr" by (simp add: frag_header_def)
  have 3: "\<not> (hm_frag_len hdr \<noteq> 0 \<and> hm_frag_len hdr < hm_msg_len hdr)" using len by auto
  show ?thesis
    unfolding after_header_def Let_def if_not_P [OF 1] if_not_P [OF 2] if_not_P [OF 3]
    using seq assms(5) p0 by (auto simp: ignored_request_def)
qed

lemma get_message_whole:
  assumes "quiet X" and "0 < fuel" and nf: "next_fragment hdr bs s" and hdr: "hm_seq hdr = read_seq s" "hm_frag_off hdr + hm_frag_len hdr \<le> hm_msg_len hdr"
      "hm_frag_len hdr = 0 \<or> hm_frag_len hdr = hm_msg_len hdr" "hm_frag_len hdr \<le> length bs" "\<not> ignored_request hdr s"
    and max: "hm_msg_len hdr \<le> dtls1_max_handshake_message_len s" and buf: "hm_msg_len hdr + 12 \<le> b_max (io_init_buf (c_world s))"
  shows "\<exists>s'. dtls_get_reassembled_message X fuel (Suc k) s = Some (True, 0, hm_frag_len hdr, s')
    \<and> (0 < hm_frag_len hdr \<longrightarrow> take (hm_frag_len hdr) (drop (12 + hm_frag_off hdr) (b_data (io_init_buf (c_world s')))) = take (hm_frag_len hdr) bs)
    \<and> s3_message_size (c_s3 s') = hm_msg_len hdr \<and> c_init_num s' = hm_frag_len hdr \<and> c_d1 s' = c_d1 s
    \<and> io_message_type (c_world s') = int (unat (hm_type hdr))
    \<and> io_r_msg_hdr (c_world s') = (io_r_msg_hdr (c_world s))\<lparr>hm_msg_len := hm_msg_len hdr, hm_type := hm_type hdr, hm_seq := hm_seq hdr\<rparr>
    \<and> b_max (io_init_buf (c_world s')) = b_max (io_init_buf (c_world s))"
proof -
  obtain q where q: "dtls_get_reassembled_message X fuel (Suc k) s =
    (case after_header X fuel (with_header hdr q s) (frag_header hdr @ drop 12 (b_data (io_init_buf (c_world s)))) hdr of
       None \<Rightarrow> None | Some (Inl r) \<Rightarrow> Some r | Some (Inr s) \<Rightarrow> dtls_get_reassembled_message X fuel k s)"
    using get_header [OF assms(1-3), of k] by blast
  note w = with_header_ready [OF nf, of q]
  have r0: "hm_frag_off (io_r_msg_hdr (c_world (with_header hdr q s))) = 0" using nf by (simp add: next_fragment_def)
  have body: "rec_ready 22 (with_header hdr q s) \<and> hm_frag_len hdr \<le> length (rest (with_header hdr q s))" if "0 < hm_frag_len hdr"
    using w(4) hdr(4) that by (cases "bs = []") auto
  have rs: "0 < hm_frag_len hdr \<Longrightarrow> rest (with_header hdr q s) = bs" using w(4) hdr(4) by (cases "bs = []") auto
  have "hm_msg_len hdr \<le> dtls1_max_handshake_message_len (with_header hdr q s)"
    "hm_msg_len hdr + 12 \<le> b_max (io_init_buf (c_world (with_header hdr q s)))"
    using max buf w(2) by simp_all
  from read_whole_ok [OF assms(1,2) hdr(2) this(1) r0 w(3) this(2) body]
  show ?thesis
    using q after_header_whole [OF nf hdr(1,3,4,5)] rs w(2) by auto
qed

lemma next_fragment_reset:
  assumes "next_fragment hdr bs s"
  shows "next_fragment hdr bs (io_upd (\<lambda>w. w\<lparr>io_r_msg_hdr := zero_hdr\<rparr>) s)"
  using assms by (simp add: next_fragment_def rec_ready_def rest_def conn_simps ossl_statem_in_error_def SSL_in_init_def no_retransmit_def zero_hdr_def)

lemma reset_fields [simp]:
  "c_d1 (io_upd f s) = c_d1 s" "c_max_cert_list (io_upd f s) = c_max_cert_list s" "c_server (io_upd f s) = c_server s"
  "c_statem (io_upd f s) = c_statem s" "c_alerts (io_upd f s) = c_alerts s" "c_world (io_upd f s) = f (c_world s)"
  "c_init_num (io_upd f s) = c_init_num s" "c_s3 (io_upd f s) = c_s3 s"
  by (simp_all add: io_upd_def)

lemma get_again_first:
  assumes "dtls_get_reassembled_message X fuel fuel s = Some (ok, e, n, s')" and "0 < fuel" and "ok \<or> e \<noteq> -2 \<and> e \<noteq> -3"
  shows "get_again X fuel fuel s = Some (ok, s')"
  using assms by (cases fuel) (auto simp del: dtls_get_reassembled_message.simps)

lemma type_not_ccs: "int (unat (b :: byte)) \<noteq> 257"
  using unat_byte_less [of b] by linarith

section \<open>Properties\<close>

text \<open>
  Marking a range of the bit mask sets exactly the bits of the range, whether it is marked bit by bit or byte by byte, and the
  mask counts as complete exactly when every byte of the message is marked.
\<close>

theorem mask_exact:
  assumes "start < stop" and "stop \<le> n" and "length bm = RSMBLY_BITMASK_SIZE n"
  shows "(\<forall>i. marked (RSMBLY_BITMASK_MARK bm start stop) i \<longleftrightarrow> marked bm i \<or> start \<le> i \<and> i < stop)
    \<and> ((\<forall>i. n \<le> i \<and> i < 8 * length bm \<longrightarrow> \<not> marked bm i) \<longrightarrow>
        (RSMBLY_BITMASK_IS_COMPLETE (RSMBLY_BITMASK_MARK bm start stop) n \<longleftrightarrow> (\<forall>i < n. marked (RSMBLY_BITMASK_MARK bm start stop) i)))"
proof -
  have "n \<le> 8 * length bm" using assms(3) bitmask_size(2) [of n] by simp
  then have mk: "marked (RSMBLY_BITMASK_MARK bm start stop) i \<longleftrightarrow> marked bm i \<or> start \<le> i \<and> i < stop" for i
    using marked_MARK [OF assms(1), of bm i] assms(2) by simp
  moreover have "RSMBLY_BITMASK_IS_COMPLETE (RSMBLY_BITMASK_MARK bm start stop) n \<longleftrightarrow> (\<forall>i < n. marked (RSMBLY_BITMASK_MARK bm start stop) i)"
    if "\<forall>i. n \<le> i \<and> i < 8 * length bm \<longrightarrow> \<not> marked bm i"
  proof (rule IS_COMPLETE_iff)
    show "0 < n" "length (RSMBLY_BITMASK_MARK bm start stop) = RSMBLY_BITMASK_SIZE n" using assms by simp_all
    show "\<not> marked (RSMBLY_BITMASK_MARK bm start stop) i" if "n \<le> i" "i < 8 * length (RSMBLY_BITMASK_MARK bm start stop)" for i
      using \<open>\<forall>i. n \<le> i \<and> i < 8 * length bm \<longrightarrow> \<not> marked bm i\<close> mk [of i] assms(2) that by auto
  qed
  ultimately show ?thesis by blast
qed

text \<open>
  C17: however a message was cut into fragments and in whatever order they came, with repetitions and overlaps, it is handed over
  exactly when all its bytes have been received and its turn has come, and it is then the message that was sent.
\<close>

theorem reassembly_exact:
  assumes "fragments_read X fuel m (read_seq s) R s" and "quiet X" and "mem_for X (length m)" and "length m \<le> fuel" and "m \<noteq> []"
    and "msg_ready X (length m) s"
  shows "if R = {..<length m} then
      \<exists>s'. dtls1_retrieve_buffered_fragment X s = Some (1, length m, s') \<and> handed_over m s' \<and> pq_map (buffered s') (read_seq s) = None
    else \<exists>q. dtls1_retrieve_buffered_fragment X s = Some (0, 0, set_buffered q s)"
proof (cases "R = {..<length m}")
  case True
  then show ?thesis using retrieve_complete [OF _ assms(5,6)] fragments_received [OF assms(1-4)] by simp
next
  case False
  have rec: "received m (read_seq s) R (buffered s)" by (rule fragments_received [OF assms(1-4)])
  have "hf_reassembly (i_data item) \<noteq> None" if "pq_map (buffered s) (read_seq s) = Some item" for item
    using rec that False holds_part_complete(1) [of m R "i_data item"] by (simp add: received_def)
  then show ?thesis using retrieve_nothing [of s X] rec assms(6) False by (simp add: received_def msg_ready_def)
qed

text \<open>
  C18: a fragment of a message whose bytes are in the record is always taken: when the queue holds the positions in \<open>R\<close> of the
  message (none, some or all of them), the call asks for the next record, and the queue then has an entry for the message whose buffer has
  the message's bytes at \<open>R\<close> and at the fragment's positions and whose mask marks exactly these (no mask when they are all);
  the other messages in the queue stay as they are. The allocator grants the memory and the message is within the maximal length.
\<close>

theorem fragment_is_taken:
  assumes "received m seq R (buffered s)" and "quiet X" and "mem_for X (length m)" and "length m \<le> fuel"
    and "piece_of m seq hdr" and "brings m hdr s" and "length m \<le> dtls1_max_handshake_message_len s"
  shows "\<exists>s' item. dtls1_reassemble_fragment X fuel s hdr = Some (-3, s')
    \<and> pq_map (buffered s') seq = Some item \<and> length (hf_fragment (i_data item)) = length m
    \<and> (\<forall>i \<in> R \<union> positions hdr. hf_fragment (i_data item) ! i = m ! i)
    \<and> (case hf_reassembly (i_data item) of
         None \<Rightarrow> R \<union> positions hdr = {..<length m}
       | Some bm \<Rightarrow> R \<union> positions hdr \<noteq> {..<length m} \<and> (\<forall>i < length m. marked bm i \<longleftrightarrow> i \<in> R \<union> positions hdr))
    \<and> (\<forall>k. k \<noteq> seq \<longrightarrow> pq_map (buffered s') k = pq_map (buffered s) k)"
proof -
  have "hm_frag_len hdr \<le> fuel" using assms(4,5) by (simp add: piece_of_def)
  then obtain s' where s': "dtls1_reassemble_fragment X fuel s hdr = Some (-3, s')" "received m seq (R \<union> positions hdr) (buffered s')"
    "\<forall>k. k \<noteq> seq \<longrightarrow> pq_map (buffered s') k = pq_map (buffered s) k"
    using reassemble_step [OF assms(2) _ assms(3,5,6,7,1)] by blast
  have ne: "R \<union> positions hdr \<noteq> {}" using assms(5) by (auto simp: piece_of_def)
  then obtain item where item: "pq_map (buffered s') seq = Some item" "holds_part m (R \<union> positions hdr) (i_data item)"
    using s'(2) by (auto simp: received_def split: option.splits)
  have "i < 8 * RSMBLY_BITMASK_SIZE (length m)" if "i < length m" for i using that by (simp add: RSMBLY_BITMASK_SIZE_def)
  then show ?thesis using s'(1,3) item by (intro exI [of _ s'] exI [of _ item]) (auto simp: holds_part_def split: option.splits)
qed

text \<open>
  C19: a message that comes in one record is handed to the state machine with its header in front, whatever follows it in the record;
  the buffer is not moved while the body is read into it, and the next message is expected.
\<close>

theorem message_received:
  assumes "quiet X" and "0 < fuel" and "next_fragment hdr (m @ tail) s"
    and hdr: "hm_msg_len hdr = length m" "hm_frag_off hdr = 0" "hm_frag_len hdr = length m" "hm_seq hdr = read_seq s" "\<not> ignored_request hdr s"
    and "length m + 12 \<le> 16384" and "16384 \<le> b_max (io_init_buf (c_world s))"
  shows "\<exists>s'. dtls_get_message X fuel s = Some (True, int (unat (hm_type hdr)), s')
    \<and> take (12 + length m) (b_data (io_init_buf (c_world s'))) = frag_header hdr @ m
    \<and> c_init_num s' = length m \<and> read_seq s' = (read_seq s + 1) mod 65536"
proof -
  let ?s = "io_upd (\<lambda>w. w\<lparr>io_r_msg_hdr := zero_hdr\<rparr>) s"
  obtain k where k: "fuel = Suc k" using assms(2) by (cases fuel) auto
  have mx: "hm_msg_len hdr \<le> dtls1_max_handshake_message_len ?s" using hdr(1) assms(9) by (simp add: dtls1_max_handshake_message_len_def Let_def)
  have ir: "\<not> ignored_request hdr ?s" using hdr(5) by (simp add: ignored_request_def)
  obtain s1 where s1: "dtls_get_reassembled_message X fuel fuel ?s = Some (True, 0, length m, s1)"
    "m \<noteq> [] \<longrightarrow> take (length m) (drop 12 (b_data (io_init_buf (c_world s1)))) = m"
    "c_init_num s1 = length m" "c_d1 s1 = c_d1 s" "io_message_type (c_world s1) = int (unat (hm_type hdr))"
    "io_r_msg_hdr (c_world s1) = zero_hdr\<lparr>hm_msg_len := hm_msg_len hdr, hm_type := hm_type hdr, hm_seq := hm_seq hdr\<rparr>"
    "b_max (io_init_buf (c_world s1)) = b_max (io_init_buf (c_world s))"
    using get_message_whole [OF assms(1,2) next_fragment_reset [OF assms(3)], of k] hdr mx ir assms(9,10) k
    by (auto simp del: dtls_get_reassembled_message.simps)
  have ga: "get_again X fuel fuel ?s = Some (True, s1)" by (rule get_again_first [OF s1(1) assms(2)]) simp
  have mh: "message_header (io_r_msg_hdr (c_world s1)) = frag_header hdr"
    using hdr by (simp add: s1(6) message_header_def frag_header_def del: be_bytes.simps)
  let ?d = "patch (b_data (io_init_buf (c_world s1))) 0 (frag_header hdr)"
  have put: "put_init 0 (frag_header hdr) s1 = Some (io_upd (\<lambda>w. w\<lparr>io_init_buf := (io_init_buf (c_world s1))\<lparr>b_data := ?d\<rparr>\<rparr>) s1)"
    using s1(7) assms(10) by (simp add: put_init_def Let_def)
  have "take (12 + length m) ?d = frag_header hdr @ m" using s1(2) by (cases "m = []") (auto simp: patch_def)
  then show ?thesis
    using ga s1 mh put type_not_ccs [of "hm_type hdr"] by (simp add: dtls_get_message_def Let_def)
qed

text \<open>
  C20: an empty fragment of a message that is not empty is handed over as the message: the call succeeds with no bytes, although
  the size recorded for the message is the one in the header.
\<close>

theorem empty_fragment_is_a_message:
  assumes "quiet X" and "0 < fuel" and "next_fragment hdr bs s"
    and hdr: "hm_frag_len hdr = 0" "0 < hm_msg_len hdr" "hm_frag_off hdr \<le> hm_msg_len hdr" "hm_seq hdr = read_seq s" "\<not> ignored_request hdr s"
    and "hm_msg_len hdr \<le> 16372" and "16384 \<le> b_max (io_init_buf (c_world s))"
  shows "\<exists>s'. dtls_get_message X fuel s = Some (True, int (unat (hm_type hdr)), s')
    \<and> c_init_num s' = 0 \<and> s3_message_size (c_s3 s') = hm_msg_len hdr"
proof -
  let ?s = "io_upd (\<lambda>w. w\<lparr>io_r_msg_hdr := zero_hdr\<rparr>) s"
  obtain k where k: "fuel = Suc k" using assms(2) by (cases fuel) auto
  have mx: "hm_msg_len hdr \<le> dtls1_max_handshake_message_len ?s" using assms(9) by (simp add: dtls1_max_handshake_message_len_def Let_def)
  have ir: "\<not> ignored_request hdr ?s" using hdr(5) by (simp add: ignored_request_def)
  obtain s1 where s1: "dtls_get_reassembled_message X fuel fuel ?s = Some (True, 0, 0, s1)"
    "c_init_num s1 = 0" "io_message_type (c_world s1) = int (unat (hm_type hdr))" "s3_message_size (c_s3 s1) = hm_msg_len hdr"
    "b_max (io_init_buf (c_world s1)) = b_max (io_init_buf (c_world s))"
    using get_message_whole [OF assms(1,2) next_fragment_reset [OF assms(3)], of k] hdr mx ir assms(9,10) k
    by (auto simp del: dtls_get_reassembled_message.simps)
  have ga: "get_again X fuel fuel ?s = Some (True, s1)" by (rule get_again_first [OF s1(1) assms(2)]) simp
  have "length (message_header (io_r_msg_hdr (c_world s1))) = 12" by (simp add: message_header_def del: be_bytes.simps)
  then show ?thesis
    using ga s1 assms(10) type_not_ccs [of "hm_type hdr"] by (simp add: dtls_get_message_def Let_def put_init_def)
qed

text \<open>
  C21: a fragment of the expected message that reaches beyond the end of the message, while it is itself not empty and shorter than the message, and
  whose body is in the record, is refused without an alert and without an error state, and its body
  stays in the record, where the next call takes it for a header.
\<close>

theorem bad_fragment_left_in_record:
  assumes "quiet X" and "0 < fuel" and "next_fragment hdr bs s"
    and hdr: "hm_msg_len hdr < hm_frag_off hdr + hm_frag_len hdr" "0 < hm_frag_len hdr" "hm_frag_len hdr < hm_msg_len hdr"
      "hm_frag_len hdr \<le> length bs" "hm_seq hdr = read_seq s"
  shows "\<exists>s'. dtls_get_message X fuel s = Some (False, 0, s') \<and> \<not> ossl_statem_in_error s' \<and> c_alerts s' = c_alerts s
    \<and> rec_ready 22 s' \<and> rest s' = bs"
proof -
  let ?s = "io_upd (\<lambda>w. w\<lparr>io_r_msg_hdr := zero_hdr\<rparr>) s"
  obtain k where k: "fuel = Suc k" using assms(2) by (cases fuel) auto
  have nf: "next_fragment hdr bs ?s" by (rule next_fragment_reset [OF assms(3)])
  obtain q where q: "dtls_get_reassembled_message X fuel (Suc k) ?s =
    (case after_header X fuel (with_header hdr q ?s) (frag_header hdr @ drop 12 (b_data (io_init_buf (c_world ?s)))) hdr of
       None \<Rightarrow> None | Some (Inl r) \<Rightarrow> Some r | Some (Inr s) \<Rightarrow> dtls_get_reassembled_message X fuel k s)"
    using get_header [OF assms(1,2) nf, of k] by blast
  let ?w = "with_header hdr q ?s"
  have bs: "bs \<noteq> []" using hdr(2,4) by auto
  note w = with_header_ready [OF nf, of q]
  have "after_header X fuel ?w (frag_header hdr @ xs) hdr = Some (Inl (False, -1, 0, ?w))" for xs
    using w(1) w(4) [OF bs] hdr by (simp add: after_header_def Let_def dtls1_reassemble_fragment_def)
  then have run: "dtls_get_reassembled_message X fuel fuel ?s = Some (False, -1, 0, ?w)"
    using q k by (simp del: dtls_get_reassembled_message.simps)
  have "get_again X fuel fuel ?s = Some (False, ?w)" by (rule get_again_first [OF run assms(2)]) simp
  moreover have "\<not> ossl_statem_in_error ?w" using w(4) [OF bs] by (simp add: rec_ready_def)
  ultimately show ?thesis using w(4) [OF bs] by (simp add: dtls_get_message_def)
qed

section \<open>Examples\<close>

text \<open>A server's connection during the handshake, with one record in hand.\<close>

definition demo_hs :: "byte list \<Rightarrow> TLS_RECORD list conn" where
  "demo_hs bs = (let s = blank_ssl ((demo_io [] [])\<lparr>io_tlsrecs := demo_rec True 22 bs # replicate 31 (demo_rec True 0 []), io_num_recs := 1\<rparr>)
     in s\<lparr>c_server := True, c_statem := (c_statem s)\<lparr>st_in_handshake := 1\<rparr>\<rparr>)"

definition demo_hdr :: "nat \<Rightarrow> nat \<Rightarrow> nat \<Rightarrow> hm_header_st" where
  "demo_hdr msg_len frag_off frag_len = \<lparr>hm_type = 1, hm_msg_len = msg_len, hm_seq = 0, hm_frag_off = frag_off, hm_frag_len = frag_len\<rparr>"

lemma demo_hs_ready:
  assumes "bs \<noteq> []"
  shows "rec_ready 22 (demo_hs bs)" "rest (demo_hs bs) = bs" "buffered (demo_hs bs) = []" "read_seq (demo_hs bs) = 0"
    "b_max (io_init_buf (c_world (demo_hs bs))) = 16384" "c_server (demo_hs bs)" "dtls1_max_handshake_message_len (demo_hs bs) = 102400"
    "msg_ready demo_ext 2 (demo_hs bs)" "no_retransmit (demo_hs bs)" "buf_wf (io_init_buf (c_world (demo_hs bs)))"
    "io_num_recs (c_world (demo_hs bs)) = 1" "length (io_tlsrecs (c_world (demo_hs bs))) = 32"
    "hm_frag_off (io_r_msg_hdr (c_world (demo_hs bs))) = 0"
  using assms
  by (simp_all add: demo_hs_def demo_io_def blank_ssl_def Let_def rec_ready_def rest_def the_rec_def demo_rec_def rec_alive_def payload_def
      ossl_statem_in_error_def dtls1_max_handshake_message_len_def msg_ready_def no_retransmit_def room_def buf_wf_def)

lemma demo_next: "hdr_fits hdr \<Longrightarrow> next_fragment hdr bs (demo_hs (frag_header hdr @ bs))"
proof -
  have "frag_header hdr @ bs \<noteq> []" using length_frag_header [of hdr] by (cases "frag_header hdr") simp_all
  note r = demo_hs_ready [OF this]
  show "hdr_fits hdr \<Longrightarrow> next_fragment hdr bs (demo_hs (frag_header hdr @ bs))"
    unfolding next_fragment_def r(2-5,11,12) using r by (simp add: msgs_wf_def pq_wf_def)
qed

lemma demo_mem: "mem_for demo_ext n"
  by (simp add: mem_for_def demo_ext_def)

theorem mask_exact_witness:
  "marked (RSMBLY_BITMASK_MARK [0, 0, 0] 3 17) 16 \<and> \<not> marked (RSMBLY_BITMASK_MARK [0, 0, 0] 3 17) 17"
proof -
  have "marked (RSMBLY_BITMASK_MARK [0, 0, 0] 3 17) i \<longleftrightarrow> marked [0, 0, 0] i \<or> 3 \<le> i \<and> i < 17" for i
    by (rule conjunct1 [OF mask_exact [of 3 17 20], rule_format]) (simp_all add: RSMBLY_BITMASK_SIZE_def)
  moreover have "\<not> marked [0, 0, 0] 17" by (simp add: marked_def)
  ultimately show ?thesis by simp
qed

lemma demo_pieces:
  "\<exists>s1. fragments_read demo_ext 2 [7, 8] 0 {1} s1 \<and> dtls1_reassemble_fragment demo_ext 2 (demo_hs [8]) (demo_hdr 2 1 1) = Some (-3, s1)"
proof -
  have r: "received [7, 8] 0 {} (buffered (demo_hs [8]))" by (simp add: received_def demo_hs_ready msgs_wf_def pq_wf_def)
  have p: "piece_of [7, 8] 0 (demo_hdr 2 1 1)" "brings [7, 8] (demo_hdr 2 1 1) (demo_hs [8])" "hm_frag_len (demo_hdr 2 1 1) \<le> 2"
    "length [7, 8 :: byte] \<le> dtls1_max_handshake_message_len (demo_hs [8])"
    by (simp_all add: piece_of_def brings_def demo_hdr_def demo_hs_ready)
  obtain s1 where s1: "dtls1_reassemble_fragment demo_ext 2 (demo_hs [8]) (demo_hdr 2 1 1) = Some (-3, s1)"
    using reassemble_step [OF demo_feeds(2) p(3) demo_mem p(1,2,4) r] by blast
  have "fragments_read demo_ext 2 [7, 8] 0 {} (demo_hs [8])"
    by (rule fragments_read.none) (simp_all add: demo_hs_ready msgs_wf_def pq_wf_def)
  from fragments_read.piece [OF this refl p(1,2,4) s1] s1 show ?thesis by (auto simp: demo_hdr_def)
qed

text \<open>A new record in hand, with the queue of another connection.\<close>

definition demo_more :: "byte list \<Rightarrow> TLS_RECORD list conn \<Rightarrow> TLS_RECORD list conn" where
  "demo_more bs s = set_buffered (buffered s) (demo_hs bs)"

lemma demo_more_ready:
  assumes "bs \<noteq> []"
  shows "buffered (demo_more bs s) = buffered s" "brings m hdr (demo_more bs s) = brings m hdr (demo_hs bs)" "read_seq (demo_more bs s) = 0"
    "dtls1_max_handshake_message_len (demo_more bs s) = 102400" "msg_ready demo_ext 2 (demo_more bs s)"
  using demo_hs_ready [OF assms] by (simp_all add: demo_more_def brings_def msg_ready_def no_retransmit_def)

lemma demo_brings: "brings [7, 8] \<lparr>hm_type = 1, hm_msg_len = 2, hm_seq = 0, hm_frag_off = 0, hm_frag_len = Suc 0\<rparr> (demo_hs [7, 9])"
  using demo_hs_ready [of "[7, 9]"] by (simp add: brings_def)

theorem fragment_is_taken_witness:
  "\<exists>s1 s2 item. dtls1_reassemble_fragment demo_ext 2 (demo_hs [8]) (demo_hdr 2 1 1) = Some (-3, s1)
     \<and> dtls1_reassemble_fragment demo_ext 2 (demo_more [7, 9] s1) (demo_hdr 2 0 1) = Some (-3, s2)
     \<and> pq_map (buffered s2) 0 = Some item \<and> hf_fragment (i_data item) = [7, 8] \<and> hf_reassembly (i_data item) = None"
proof -
  obtain s1 where s1: "fragments_read demo_ext 2 [7, 8] 0 {1} s1" "dtls1_reassemble_fragment demo_ext 2 (demo_hs [8]) (demo_hdr 2 1 1) = Some (-3, s1)"
    using demo_pieces by blast
  have p: "piece_of [7, 8] 0 (demo_hdr 2 0 1)" "brings [7, 8] (demo_hdr 2 0 1) (demo_more [7, 9] s1)"
    "length [7, 8 :: byte] \<le> dtls1_max_handshake_message_len (demo_more [7, 9] s1)"
    using demo_brings by (simp_all add: piece_of_def demo_hdr_def demo_more_ready)
  have rec: "received [7, 8] 0 {1} (buffered (demo_more [7, 9] s1))"
    using fragments_received [OF s1(1) demo_feeds(2) demo_mem] by (simp add: demo_more_ready)
  have u: "{1} \<union> positions (demo_hdr 2 0 1) = {..<length [7, 8 :: byte]}" by (auto simp: demo_hdr_def)
  from fragment_is_taken [OF rec demo_feeds(2) demo_mem _ p, of 2, unfolded u]
  obtain s2 item where s2: "dtls1_reassemble_fragment demo_ext 2 (demo_more [7, 9] s1) (demo_hdr 2 0 1) = Some (-3, s2)"
    "pq_map (buffered s2) 0 = Some item" "length (hf_fragment (i_data item)) = length [7, 8 :: byte]"
    "\<forall>i \<in> {..<length [7, 8 :: byte]}. hf_fragment (i_data item) ! i = [7, 8] ! i" "hf_reassembly (i_data item) = None"
    by (auto split: option.splits)
  have "hf_fragment (i_data item) = [7, 8]" by (rule nth_equalityI) (use s2(3,4) in auto)
  then show ?thesis using s1(2) s2(1,2,5) by blast
qed

lemma demo_all_pieces: "\<exists>s. fragments_read demo_ext 2 [7, 8] 0 {..<2} (demo_more [7] s)"
proof -
  obtain s1 where s1: "fragments_read demo_ext 2 [7, 8] 0 {1} s1" using demo_pieces by blast
  have p: "piece_of [7, 8] 0 (demo_hdr 2 0 1)" "brings [7, 8] (demo_hdr 2 0 1) (demo_more [7, 9] s1)" "hm_frag_len (demo_hdr 2 0 1) \<le> 2"
    "length [7, 8 :: byte] \<le> dtls1_max_handshake_message_len (demo_more [7, 9] s1)"
    using demo_brings by (simp_all add: piece_of_def demo_hdr_def demo_more_ready)
  have rec: "received [7, 8] 0 {1} (buffered (demo_more [7, 9] s1))"
    using fragments_received [OF s1 demo_feeds(2) demo_mem] by (simp add: demo_more_ready)
  obtain s2 where s2: "dtls1_reassemble_fragment demo_ext 2 (demo_more [7, 9] s1) (demo_hdr 2 0 1) = Some (-3, s2)"
    using reassemble_step [OF demo_feeds(2) p(3) demo_mem p(1,2,4) rec] by blast
  have "fragments_read demo_ext 2 [7, 8] 0 ({1} \<union> positions (demo_hdr 2 0 1)) s2"
    by (rule fragments_read.piece [OF s1 _ p(1,2,4) s2]) (simp add: demo_more_ready)
  moreover have "{1} \<union> positions (demo_hdr 2 0 1) = {..<2}" by (auto simp: demo_hdr_def)
  ultimately have "fragments_read demo_ext 2 [7, 8] 0 {..<2} s2" by simp
  then have "fragments_read demo_ext 2 [7, 8] 0 {..<2} (demo_more [7] s2)"
    by (rule fragments_read.other) (simp add: demo_more_ready)
  then show ?thesis by blast
qed

theorem reassembly_exact_witness:
  "\<exists>s s'. fragments_read demo_ext 2 [7, 8] 0 {..<2} s \<and> dtls1_retrieve_buffered_fragment demo_ext s = Some (1, 2, s') \<and> handed_over [7, 8] s'"
proof -
  obtain s where s: "fragments_read demo_ext 2 [7, 8] 0 {..<2} (demo_more [7] s)" using demo_all_pieces by blast
  have r: "fragments_read demo_ext 2 [7, 8] (read_seq (demo_more [7] s)) {..<2} (demo_more [7] s)" using s by (simp add: demo_more_ready)
  have "msg_ready demo_ext (length [7, 8 :: byte]) (demo_more [7] s)" using demo_more_ready(5) [of "[7]" s] by (simp add: numeral_2_eq_2)
  from reassembly_exact [OF r demo_feeds(2) demo_mem _ _ this] s show ?thesis by (auto simp flip: numeral_2_eq_2)
qed

theorem message_received_witness:
  "\<exists>s'. dtls_get_message demo_ext 1 (demo_hs (frag_header (demo_hdr 2 0 2) @ [7, 8] @ [9])) = Some (True, 1, s')
    \<and> take 14 (b_data (io_init_buf (c_world s'))) = frag_header (demo_hdr 2 0 2) @ [7, 8] \<and> read_seq s' = 1"
  using message_received [OF demo_feeds(2), of 1 "demo_hdr 2 0 2" "[7, 8]" "[9]" "demo_hs (frag_header (demo_hdr 2 0 2) @ [7, 8] @ [9])"]
    demo_next [of "demo_hdr 2 0 2" "[7, 8] @ [9]"] demo_hs_ready [of "frag_header (demo_hdr 2 0 2) @ [7, 8] @ [9]"]
  by (auto simp: demo_hdr_def hdr_fits_def ignored_request_def)

theorem empty_fragment_is_a_message_witness:
  "\<exists>s'. dtls_get_message demo_ext 1 (demo_hs (frag_header (demo_hdr 5 0 0) @ [9])) = Some (True, 1, s')
    \<and> c_init_num s' = 0 \<and> s3_message_size (c_s3 s') = 5"
  using empty_fragment_is_a_message [OF demo_feeds(2), of 1 "demo_hdr 5 0 0" "[9]" "demo_hs (frag_header (demo_hdr 5 0 0) @ [9])"]
    demo_next [of "demo_hdr 5 0 0" "[9]"] demo_hs_ready [of "frag_header (demo_hdr 5 0 0) @ [9]"]
  by (auto simp: demo_hdr_def hdr_fits_def ignored_request_def)

theorem bad_fragment_left_in_record_witness:
  "\<exists>s'. dtls_get_message demo_ext 1 (demo_hs (frag_header (demo_hdr 5 4 2) @ [7, 8])) = Some (False, 0, s')
    \<and> \<not> ossl_statem_in_error s' \<and> rest s' = [7, 8]"
  using bad_fragment_left_in_record [OF demo_feeds(2), of 1 "demo_hdr 5 4 2" "[7, 8]" "demo_hs (frag_header (demo_hdr 5 4 2) @ [7, 8])"]
    demo_next [of "demo_hdr 5 4 2" "[7, 8]"] demo_hs_ready [of "frag_header (demo_hdr 5 4 2) @ [7, 8]"]
  by (auto simp: demo_hdr_def hdr_fits_def)

end
