(* ===== verification/Statem_Client.thy ===== *)
theory Statem_Client
  imports Statem
begin

text \<open>
  The client side of the handshake state machine, \<open>ssl/statem/statem_clnt.c\<close>: which message may come
  next, which one is sent next, the work before and after sending, and the tables of construction,
  size limit and processing. The time stamps of the last messages are not kept.
\<close>

section \<open>Reading\<close>

definition received_server_cert :: "'w SSL \<Rightarrow> bool" where
  "received_server_cert s = (sess_peer_rpk (c_session s) \<or> sess_peer (c_session s))"

definition cert_req_allowed :: "'w SSL \<Rightarrow> bool" where
  "cert_req_allowed s =
     (if c_version s > SSL3_VERSION \<and> algorithm_auth (s3_new_cipher (c_s3 s)) AND SSL_aNULL \<noteq> 0
         \<or> algorithm_auth (s3_new_cipher (c_s3 s)) AND SSL_aPSK \<noteq> 0
      then False else True)"

definition key_exchange_expected :: "'w SSL \<Rightarrow> bool" where
  "key_exchange_expected s =
     (let alg_k = algorithm_mkey (s3_new_cipher (c_s3 s)) in
      alg_k AND (SSL_kDHE OR SSL_kECDHE OR SSL_kDHEPSK OR SSL_kECDHEPSK) \<noteq> 0)"

definition ossl_statem_client13_read_transition :: "'w env \<Rightarrow> 'w SSL \<Rightarrow> int \<Rightarrow> bool \<times> 'w SSL" where
  "ossl_statem_client13_read_transition E s mt =
     (if hand s = TLS_ST_CW_CLNT_HELLO then
        if mt = SSL3_MT_SERVER_HELLO then (True, set_hand TLS_ST_CR_SRVR_HELLO s) else (False, s)
      else if hand s = TLS_ST_CR_SRVR_HELLO then
        if mt = SSL3_MT_ENCRYPTED_EXTENSIONS then (True, set_hand TLS_ST_CR_ENCRYPTED_EXTENSIONS s) else (False, s)
      else if hand s = TLS_ST_CR_ENCRYPTED_EXTENSIONS then
        if c_hit s then
          if mt = SSL3_MT_FINISHED then (True, set_hand TLS_ST_CR_FINISHED s) else (False, s)
        else if mt = SSL3_MT_CERTIFICATE_REQUEST then (True, set_hand TLS_ST_CR_CERT_REQ s)
        else if mt = SSL3_MT_CERTIFICATE then (True, set_hand TLS_ST_CR_CERT s)
        else if mt = SSL3_MT_COMPRESSED_CERTIFICATE \<and> ext_compress_certificate_sent (c_ext s)
        then (True, set_hand TLS_ST_CR_COMP_CERT s)
        else (False, s)
      else if hand s = TLS_ST_CR_CERT_REQ then
        if mt = SSL3_MT_CERTIFICATE then (True, set_hand TLS_ST_CR_CERT s)
        else if mt = SSL3_MT_COMPRESSED_CERTIFICATE \<and> ext_compress_certificate_sent (c_ext s)
        then (True, set_hand TLS_ST_CR_COMP_CERT s)
        else (False, s)
      else if hand s = TLS_ST_CR_CERT \<or> hand s = TLS_ST_CR_COMP_CERT then
        if mt = SSL3_MT_CERTIFICATE_VERIFY then (True, set_hand TLS_ST_CR_CERT_VRFY s) else (False, s)
      else if hand s = TLS_ST_CR_CERT_VRFY then
        if mt = SSL3_MT_FINISHED then (True, set_hand TLS_ST_CR_FINISHED s) else (False, s)
      else if hand s = TLS_ST_OK then
        if mt = SSL3_MT_NEWSESSION_TICKET then (True, set_hand TLS_ST_CR_SESSION_TICKET s)
        else if mt = SSL3_MT_KEY_UPDATE \<and> \<not> SSL_IS_QUIC_HANDSHAKE s then (True, set_hand TLS_ST_CR_KEY_UPDATE s)
        else if mt = SSL3_MT_CERTIFICATE_REQUEST then
          if \<not> SSL_CONNECTION_IS_DTLS s \<and> c_post_handshake_auth s = SSL_PHA_EXT_SENT then
            (case e_int E F_tls13_restore_handshake_digest_for_pha (s\<lparr>c_post_handshake_auth := SSL_PHA_REQUESTED\<rparr>) of
               (r, s) \<Rightarrow> if r = 0 then (False, s) else (True, set_hand TLS_ST_CR_CERT_REQ s))
          else (False, s)
        else (False, s)
      else (False, s))"

text \<open>The cases of the switch that fall through, from the last to the first.\<close>

definition cr_cert_req :: "'w SSL \<Rightarrow> int \<Rightarrow> 'w tran" where
  "cr_cert_req s mt = (if mt = SSL3_MT_SERVER_DONE then Tran_Ok (set_hand TLS_ST_CR_SRVR_DONE s) else Tran_Err s)"

definition cr_key_exch :: "'w SSL \<Rightarrow> int \<Rightarrow> 'w tran" where
  "cr_key_exch s mt =
     (if mt = SSL3_MT_CERTIFICATE_REQUEST then
        if cert_req_allowed s then Tran_Ok (set_hand TLS_ST_CR_CERT_REQ s) else Tran_Err s
      else cr_cert_req s mt)"

definition cr_cert_status :: "'w SSL \<Rightarrow> int \<Rightarrow> 'w tran" where
  "cr_cert_status s mt =
     (if key_exchange_expected s
         \<or> algorithm_mkey (s3_new_cipher (c_s3 s)) AND SSL_PSK \<noteq> 0 \<and> mt = SSL3_MT_SERVER_KEY_EXCHANGE then
        if mt = SSL3_MT_SERVER_KEY_EXCHANGE then Tran_Ok (set_hand TLS_ST_CR_KEY_EXCH s) else Tran_Err s
      else cr_key_exch s mt)"

definition cr_srvr_hello :: "'w SSL \<Rightarrow> int \<Rightarrow> 'w tran" where
  "cr_srvr_hello s mt =
     (if c_hit s then
        if ext_ticket_expected (c_ext s) then
          if mt = SSL3_MT_NEWSESSION_TICKET then Tran_Ok (set_hand TLS_ST_CR_SESSION_TICKET s) else Tran_Err s
        else if mt = SSL3_MT_CHANGE_CIPHER_SPEC then Tran_Ok (set_hand TLS_ST_CR_CHANGE s) else Tran_Err s
      else if SSL_CONNECTION_IS_DTLS s \<and> mt = DTLS1_MT_HELLO_VERIFY_REQUEST then
        Tran_Ok (set_hand DTLS_ST_CR_HELLO_VERIFY_REQUEST s)
      else if c_version s \<ge> TLS1_VERSION \<and> ext_session_secret_cb (c_ext s) \<and> sess_tick (c_session s)
              \<and> mt = SSL3_MT_CHANGE_CIPHER_SPEC then
        Tran_Ok (set_hand TLS_ST_CR_CHANGE (s\<lparr>c_hit := True\<rparr>))
      else if algorithm_auth (s3_new_cipher (c_s3 s)) AND (SSL_aNULL OR SSL_aPSK) = 0 then
        if mt = SSL3_MT_CERTIFICATE then Tran_Ok (set_hand TLS_ST_CR_CERT s) else Tran_Err s
      else if key_exchange_expected s
              \<or> algorithm_mkey (s3_new_cipher (c_s3 s)) AND SSL_PSK \<noteq> 0 \<and> mt = SSL3_MT_SERVER_KEY_EXCHANGE then
        if mt = SSL3_MT_SERVER_KEY_EXCHANGE then Tran_Ok (set_hand TLS_ST_CR_KEY_EXCH s) else Tran_Err s
      else if mt = SSL3_MT_CERTIFICATE_REQUEST \<and> cert_req_allowed s then Tran_Ok (set_hand TLS_ST_CR_CERT_REQ s)
      else if mt = SSL3_MT_SERVER_DONE then Tran_Ok (set_hand TLS_ST_CR_SRVR_DONE s)
      else Tran_Err s)"

definition client_read_switch :: "'w SSL \<Rightarrow> int \<Rightarrow> 'w tran" where
  "client_read_switch s mt =
     (if hand s = TLS_ST_CW_CLNT_HELLO then
        if mt = SSL3_MT_SERVER_HELLO then Tran_Ok (set_hand TLS_ST_CR_SRVR_HELLO s)
        else if SSL_CONNECTION_IS_DTLS s \<and> mt = DTLS1_MT_HELLO_VERIFY_REQUEST then
          Tran_Ok (set_hand DTLS_ST_CR_HELLO_VERIFY_REQUEST s)
        else Tran_Err s
      else if hand s = TLS_ST_EARLY_DATA then
        if mt = SSL3_MT_SERVER_HELLO then Tran_Ok (set_hand TLS_ST_CR_SRVR_HELLO s) else Tran_Err s
      else if hand s = TLS_ST_CR_SRVR_HELLO then cr_srvr_hello s mt
      else if hand s = TLS_ST_CR_CERT \<or> hand s = TLS_ST_CR_COMP_CERT then
        if ext_status_expected (c_ext s) \<and> mt = SSL3_MT_CERTIFICATE_STATUS then Tran_Ok (set_hand TLS_ST_CR_CERT_STATUS s)
        else cr_cert_status s mt
      else if hand s = TLS_ST_CR_CERT_STATUS then cr_cert_status s mt
      else if hand s = TLS_ST_CR_KEY_EXCH then cr_key_exch s mt
      else if hand s = TLS_ST_CR_CERT_REQ then cr_cert_req s mt
      else if hand s = TLS_ST_CW_FINISHED then
        if ext_ticket_expected (c_ext s) then
          if mt = SSL3_MT_NEWSESSION_TICKET then Tran_Ok (set_hand TLS_ST_CR_SESSION_TICKET s) else Tran_Err s
        else if mt = SSL3_MT_CHANGE_CIPHER_SPEC then Tran_Ok (set_hand TLS_ST_CR_CHANGE s) else Tran_Err s
      else if hand s = TLS_ST_CR_SESSION_TICKET then
        if mt = SSL3_MT_CHANGE_CIPHER_SPEC then Tran_Ok (set_hand TLS_ST_CR_CHANGE s) else Tran_Err s
      else if hand s = TLS_ST_CR_CHANGE then
        if mt = SSL3_MT_FINISHED then Tran_Ok (set_hand TLS_ST_CR_FINISHED s) else Tran_Err s
      else if hand s = TLS_ST_OK then
        if mt = SSL3_MT_HELLO_REQUEST then Tran_Ok (set_hand TLS_ST_CR_HELLO_REQ s) else Tran_Err s
      else Tran_Err s)"

definition ossl_statem_client_read_transition :: "'w env \<Rightarrow> 'w SSL \<Rightarrow> int \<Rightarrow> bool \<times> 'w SSL" where
  "ossl_statem_client_read_transition E s mt =
     finish_tran E mt
       (if SSL_CONNECTION_IS_TLS13 s then
          (case ossl_statem_client13_read_transition E s mt of
             (False, s) \<Rightarrow> Tran_Err s
           | (True, s) \<Rightarrow> Tran_Ok s)
        else client_read_switch s mt)"

section \<open>Writing\<close>

definition client_do_compressed_cert :: "'w SSL \<Rightarrow> bool" where
  "client_do_compressed_cert s =
     (ext_client_cert_type (c_ext s) = TLSEXT_cert_type_x509
      \<and> ext_compress_certificate_from_peer (c_ext s) \<noteq> [])"

definition cw_cert_or_finished :: "'w SSL \<Rightarrow> 'w SSL" where
  "cw_cert_or_finished s =
     (if s3_cert_req (c_s3 s) = 0 then set_hand TLS_ST_CW_FINISHED s
      else if client_do_compressed_cert s then set_hand TLS_ST_CW_COMP_CERT s
      else set_hand TLS_ST_CW_CERT s)"

definition ossl_statem_client13_write_transition :: "'w SSL \<Rightarrow> WRITE_TRAN \<times> 'w SSL" where
  "ossl_statem_client13_write_transition s =
     (if hand s = TLS_ST_CR_CERT_REQ then
        if c_post_handshake_auth s = SSL_PHA_REQUESTED then
          (WRITE_TRAN_CONTINUE,
           if client_do_compressed_cert s then set_hand TLS_ST_CW_COMP_CERT s else set_hand TLS_ST_CW_CERT s)
        else if c_shutdown s AND SSL_SENT_SHUTDOWN = 0 then (WRITE_TRAN_ERROR, SSLfatal s SSL_AD_INTERNAL_ERROR)
        else (WRITE_TRAN_CONTINUE, set_hand TLS_ST_OK s)
      else if hand s = TLS_ST_CR_FINISHED then
        (WRITE_TRAN_CONTINUE,
         if c_early_data_state s = SSL_EARLY_DATA_WRITE_RETRY \<or> c_early_data_state s = SSL_EARLY_DATA_FINISHED_WRITING
         then set_hand TLS_ST_PENDING_EARLY_DATA_END s
         else if c_options s AND SSL_OP_ENABLE_MIDDLEBOX_COMPAT \<noteq> 0 \<and> c_hello_retry_request s = SSL_HRR_NONE
         then set_hand TLS_ST_CW_CHANGE s
         else cw_cert_or_finished s)
      else if hand s = TLS_ST_PENDING_EARLY_DATA_END then
        if ext_early_data (c_ext s) = SSL_EARLY_DATA_ACCEPTED then (WRITE_TRAN_CONTINUE, set_hand TLS_ST_CW_END_OF_EARLY_DATA s)
        else (WRITE_TRAN_CONTINUE, cw_cert_or_finished s)
      else if hand s = TLS_ST_CW_END_OF_EARLY_DATA \<or> hand s = TLS_ST_CW_CHANGE then
        (WRITE_TRAN_CONTINUE, cw_cert_or_finished s)
      else if hand s = TLS_ST_CW_COMP_CERT \<or> hand s = TLS_ST_CW_CERT then
        (WRITE_TRAN_CONTINUE,
         set_hand (if s3_cert_req (c_s3 s) = 1 then TLS_ST_CW_CERT_VRFY else TLS_ST_CW_FINISHED) s)
      else if hand s = TLS_ST_CW_CERT_VRFY then (WRITE_TRAN_CONTINUE, set_hand TLS_ST_CW_FINISHED s)
      else if hand s \<in> {TLS_ST_CR_KEY_UPDATE, TLS_ST_CW_KEY_UPDATE, TLS_ST_CR_SESSION_TICKET, TLS_ST_CW_FINISHED} then
        (WRITE_TRAN_CONTINUE, set_hand TLS_ST_OK s)
      else if hand s = TLS_ST_OK then
        if c_key_update s \<noteq> SSL_KEY_UPDATE_NONE then (WRITE_TRAN_CONTINUE, set_hand TLS_ST_CW_KEY_UPDATE s)
        else (WRITE_TRAN_FINISHED, s)
      else (WRITE_TRAN_ERROR, SSLfatal s SSL_AD_INTERNAL_ERROR))"

definition ossl_statem_client_write_transition :: "'w env \<Rightarrow> 'w SSL \<Rightarrow> WRITE_TRAN \<times> 'w SSL" where
  "ossl_statem_client_write_transition E s =
     (if SSL_CONNECTION_IS_TLS13 s then ossl_statem_client13_write_transition s
      else if hand s = TLS_ST_OK \<and> \<not> c_renegotiate s then (WRITE_TRAN_FINISHED, s)
      else if hand s = TLS_ST_OK \<or> hand s = TLS_ST_BEFORE then (WRITE_TRAN_CONTINUE, set_hand TLS_ST_CW_CLNT_HELLO s)
      else if hand s = TLS_ST_CW_CLNT_HELLO then
        if c_early_data_state s = SSL_EARLY_DATA_CONNECTING then
          (WRITE_TRAN_CONTINUE,
           if c_options s AND SSL_OP_ENABLE_MIDDLEBOX_COMPAT \<noteq> 0 then set_hand TLS_ST_CW_CHANGE s
           else set_hand TLS_ST_EARLY_DATA s)
        else (WRITE_TRAN_FINISHED, s)
      else if hand s = TLS_ST_CR_SRVR_HELLO then
        (WRITE_TRAN_CONTINUE,
         if c_options s AND SSL_OP_ENABLE_MIDDLEBOX_COMPAT \<noteq> 0 \<and> c_early_data_state s \<noteq> SSL_EARLY_DATA_FINISHED_WRITING
         then set_hand TLS_ST_CW_CHANGE s else set_hand TLS_ST_CW_CLNT_HELLO s)
      else if hand s = TLS_ST_EARLY_DATA then (WRITE_TRAN_FINISHED, s)
      else if hand s = DTLS_ST_CR_HELLO_VERIFY_REQUEST then (WRITE_TRAN_CONTINUE, set_hand TLS_ST_CW_CLNT_HELLO s)
      else if hand s = TLS_ST_CR_SRVR_DONE then
        (WRITE_TRAN_CONTINUE, set_hand (if s3_cert_req (c_s3 s) \<noteq> 0 then TLS_ST_CW_CERT else TLS_ST_CW_KEY_EXCH) s)
      else if hand s = TLS_ST_CW_CERT then (WRITE_TRAN_CONTINUE, set_hand TLS_ST_CW_KEY_EXCH s)
      else if hand s = TLS_ST_CW_KEY_EXCH then
        (WRITE_TRAN_CONTINUE,
         if s3_flags (c_s3 s) AND TLS1_FLAGS_SKIP_CERT_VERIFY \<noteq> 0 then set_hand TLS_ST_CW_CHANGE s
         else if s3_cert_req (c_s3 s) = 1 then set_hand TLS_ST_CW_CERT_VRFY s
         else set_hand TLS_ST_CW_CHANGE s)
      else if hand s = TLS_ST_CW_CERT_VRFY then (WRITE_TRAN_CONTINUE, set_hand TLS_ST_CW_CHANGE s)
      else if hand s = TLS_ST_CW_CHANGE then
        (WRITE_TRAN_CONTINUE,
         if c_hello_retry_request s = SSL_HRR_PENDING then set_hand TLS_ST_CW_CLNT_HELLO s
         else if c_early_data_state s = SSL_EARLY_DATA_CONNECTING then set_hand TLS_ST_EARLY_DATA s
         else set_hand TLS_ST_CW_FINISHED s)
      else if hand s = TLS_ST_CW_FINISHED then
        if c_hit s then (WRITE_TRAN_CONTINUE, set_hand TLS_ST_OK s) else (WRITE_TRAN_FINISHED, s)
      else if hand s = TLS_ST_CR_FINISHED then
        (WRITE_TRAN_CONTINUE, if c_hit s then set_hand TLS_ST_CW_CHANGE s else set_hand TLS_ST_OK s)
      else if hand s = TLS_ST_CR_HELLO_REQ then
        (case e_int E F_ssl3_renegotiate_check s of
           (r, s) \<Rightarrow>
             if r \<noteq> 0 then
               (case e_int E F_tls_setup_handshake s of
                  (r, s) \<Rightarrow> if r = 0 then (WRITE_TRAN_ERROR, s) else (WRITE_TRAN_CONTINUE, set_hand TLS_ST_CW_CLNT_HELLO s))
             else (WRITE_TRAN_CONTINUE, set_hand TLS_ST_OK s))
      else (WRITE_TRAN_ERROR, SSLfatal s SSL_AD_INTERNAL_ERROR))"

definition ossl_statem_client_pre_work :: "'w env \<Rightarrow> 'w SSL \<Rightarrow> WORK_STATE \<Rightarrow> WORK_STATE \<times> 'w SSL" where
  "ossl_statem_client_pre_work E s wst =
     (if hand s = TLS_ST_CW_CLNT_HELLO then
        let s = s\<lparr>c_shutdown := 0\<rparr> in
        if SSL_CONNECTION_IS_DTLS s then
          (case e_int E F_ssl3_init_finished_mac s of
             (r, s) \<Rightarrow> if r = 0 then (WORK_ERROR, s) else (WORK_FINISHED_CONTINUE, s))
        else if ext_early_data (c_ext s) = SSL_EARLY_DATA_REJECTED then
          (case e_int E F_ssl_set_new_record_layer s of
             (r, s) \<Rightarrow> if r = 0 then (WORK_ERROR, s) else (WORK_FINISHED_CONTINUE, s))
        else (WORK_FINISHED_CONTINUE, s)
      else if hand s = TLS_ST_CW_CHANGE then
        (WORK_FINISHED_CONTINUE,
         if SSL_CONNECTION_IS_DTLS s \<and> c_hit s then s\<lparr>c_statem := (c_statem s)\<lparr>st_use_timer := False\<rparr>\<rparr> else s)
      else if hand s = TLS_ST_PENDING_EARLY_DATA_END
              \<and> (c_early_data_state s = SSL_EARLY_DATA_FINISHED_WRITING \<or> c_early_data_state s = SSL_EARLY_DATA_NONE) then
        (WORK_FINISHED_CONTINUE, s)
      else if hand s = TLS_ST_PENDING_EARLY_DATA_END \<or> hand s = TLS_ST_EARLY_DATA then
        tls_finish_handshake E s wst False True
      else if hand s = TLS_ST_OK then tls_finish_handshake E s wst True True
      else (WORK_FINISHED_CONTINUE, s))"

abbreviation (input) CC_EARLY_CLIENT_WRITE :: nat where "CC_EARLY_CLIENT_WRITE \<equiv> 0x052"
abbreviation (input) CC_CLIENT_WRITE :: nat where "CC_CLIENT_WRITE \<equiv> 0x012"
abbreviation (input) CC_APPLICATION_CLIENT_WRITE :: nat where "CC_APPLICATION_CLIENT_WRITE \<equiv> 0x112"

definition cw_change_post_work :: "'w env \<Rightarrow> 'w SSL \<Rightarrow> WORK_STATE \<times> 'w SSL" where
  "cw_change_post_work E s =
     (if SSL_CONNECTION_IS_TLS13 s \<or> c_hello_retry_request s = SSL_HRR_PENDING then (WORK_FINISHED_CONTINUE, s)
      else if c_early_data_state s = SSL_EARLY_DATA_CONNECTING \<and> c_max_early_data s > 0 then
        (case e_int E (F_tls13_change_cipher_state CC_EARLY_CLIENT_WRITE) s of
           (r, s) \<Rightarrow> if r = 0 then (WORK_ERROR, s) else (WORK_FINISHED_CONTINUE, s))
      else
        let s = s\<lparr>c_session := (c_session s)\<lparr>sess_cipher := Some (s3_new_cipher (c_s3 s)),
              sess_compress_meth := (case s3_new_compression (c_s3 s) of None \<Rightarrow> 0 | Some i \<Rightarrow> i)\<rparr>\<rparr> in
        (case e_int E F_setup_key_block s of
           (r, s) \<Rightarrow>
             if r = 0 then (WORK_ERROR, s)
             else
               (case e_int E (F_change_cipher_state CC_CLIENT_WRITE) s of
                  (r, s) \<Rightarrow> if r = 0 then (WORK_ERROR, s) else (WORK_FINISHED_CONTINUE, s))))"

definition ossl_statem_client_post_work :: "'w env \<Rightarrow> 'w SSL \<Rightarrow> WORK_STATE \<Rightarrow> WORK_STATE \<times> 'w SSL" where
  "ossl_statem_client_post_work E s wst =
     (let s = s\<lparr>c_init_num := 0\<rparr> in
      if hand s = TLS_ST_CW_CLNT_HELLO then
        if c_early_data_state s = SSL_EARLY_DATA_CONNECTING \<and> c_max_early_data s > 0 then
          if c_options s AND SSL_OP_ENABLE_MIDDLEBOX_COMPAT = 0 then
            (case e_int E (F_tls13_change_cipher_state CC_EARLY_CLIENT_WRITE) s of
               (r, s) \<Rightarrow> if r = 0 then (WORK_ERROR, s)
                        else (WORK_FINISHED_CONTINUE, if SSL_CONNECTION_IS_DTLS s then s\<lparr>c_first_packet := True\<rparr> else s))
          else (WORK_FINISHED_CONTINUE, if SSL_CONNECTION_IS_DTLS s then s\<lparr>c_first_packet := True\<rparr> else s)
        else
          (case statem_flush E s of
             (False, s) \<Rightarrow> (WORK_MORE_A, s)
           | (True, s) \<Rightarrow> (WORK_FINISHED_CONTINUE, if SSL_CONNECTION_IS_DTLS s then s\<lparr>c_first_packet := True\<rparr> else s))
      else if hand s = TLS_ST_CW_KEY_EXCH then
        (case e_int E F_tls_client_key_exchange_post_work s of
           (r, s) \<Rightarrow> if r = 0 then (WORK_ERROR, s) else (WORK_FINISHED_CONTINUE, s))
      else if hand s = TLS_ST_CW_CHANGE then cw_change_post_work E s
      else if hand s = TLS_ST_CW_FINISHED then
        (case statem_flush E s of
           (False, s) \<Rightarrow> (WORK_MORE_B, s)
         | (True, s) \<Rightarrow>
             if SSL_CONNECTION_IS_TLS13 s then
               (case e_int E F_tls13_save_handshake_digest_for_pha s of
                  (r, s) \<Rightarrow>
                    if r = 0 then (WORK_ERROR, s)
                    else if c_post_handshake_auth s \<noteq> SSL_PHA_REQUESTED then
                      (case e_int E (F_change_cipher_state CC_APPLICATION_CLIENT_WRITE) s of
                         (r, s) \<Rightarrow> if r = 0 then (WORK_ERROR, s) else (WORK_FINISHED_CONTINUE, s))
                    else (WORK_FINISHED_CONTINUE, s))
             else (WORK_FINISHED_CONTINUE, s))
      else if hand s = TLS_ST_CW_KEY_UPDATE then
        (case statem_flush E s of
           (False, s) \<Rightarrow> (WORK_MORE_A, s)
         | (True, s) \<Rightarrow>
             (case e_int E F_tls13_update_key s of
                (r, s) \<Rightarrow> if r = 0 then (WORK_ERROR, s) else (WORK_FINISHED_CONTINUE, s)))
      else (WORK_FINISHED_CONTINUE, s))"

section \<open>Tables\<close>

text \<open>The construction function, if any, and the message type; \<open>None\<close> for the return value 0, after a fatal error.\<close>

definition ossl_statem_client_construct_message :: "'w SSL \<Rightarrow> (confunc option \<times> int) option \<times> 'w SSL" where
  "ossl_statem_client_construct_message s =
     (case hand s of
        TLS_ST_CW_CHANGE \<Rightarrow>
          (Some (Some (if SSL_CONNECTION_IS_DTLS s then C_dtls_construct_change_cipher_spec else C_tls_construct_change_cipher_spec),
                 SSL3_MT_CHANGE_CIPHER_SPEC), s)
      | TLS_ST_CW_CLNT_HELLO \<Rightarrow> (Some (Some C_tls_construct_client_hello, SSL3_MT_CLIENT_HELLO), s)
      | TLS_ST_CW_END_OF_EARLY_DATA \<Rightarrow>
          (Some (if SSL_CONNECTION_IS_QUIC s then (None, SSL3_MT_DUMMY)
                 else (Some C_tls_construct_end_of_early_data, SSL3_MT_END_OF_EARLY_DATA)), s)
      | TLS_ST_PENDING_EARLY_DATA_END \<Rightarrow> (Some (None, SSL3_MT_DUMMY), s)
      | TLS_ST_CW_CERT \<Rightarrow> (Some (Some C_tls_construct_client_certificate, SSL3_MT_CERTIFICATE), s)
      | TLS_ST_CW_COMP_CERT \<Rightarrow> (Some (Some C_tls_construct_client_compressed_certificate, SSL3_MT_COMPRESSED_CERTIFICATE), s)
      | TLS_ST_CW_KEY_EXCH \<Rightarrow> (Some (Some C_tls_construct_client_key_exchange, SSL3_MT_CLIENT_KEY_EXCHANGE), s)
      | TLS_ST_CW_CERT_VRFY \<Rightarrow> (Some (Some C_tls_construct_cert_verify, SSL3_MT_CERTIFICATE_VERIFY), s)
      | TLS_ST_CW_FINISHED \<Rightarrow> (Some (Some C_tls_construct_finished, SSL3_MT_FINISHED), s)
      | TLS_ST_CW_KEY_UPDATE \<Rightarrow> (Some (Some C_tls_construct_key_update, SSL3_MT_KEY_UPDATE), s)
      | _ \<Rightarrow> (None, SSLfatal s SSL_AD_INTERNAL_ERROR))"

definition ossl_statem_client_max_message_size :: "'w SSL \<Rightarrow> nat" where
  "ossl_statem_client_max_message_size s =
     (case hand s of
        TLS_ST_CR_SRVR_HELLO \<Rightarrow> 65607
      | DTLS_ST_CR_HELLO_VERIFY_REQUEST \<Rightarrow> 258
      | TLS_ST_CR_COMP_CERT \<Rightarrow> c_max_cert_list s
      | TLS_ST_CR_CERT \<Rightarrow> c_max_cert_list s
      | TLS_ST_CR_CERT_VRFY \<Rightarrow> 65539
      | TLS_ST_CR_CERT_STATUS \<Rightarrow> 16384
      | TLS_ST_CR_KEY_EXCH \<Rightarrow> 102400
      | TLS_ST_CR_CERT_REQ \<Rightarrow> c_max_cert_list s
      | TLS_ST_CR_SRVR_DONE \<Rightarrow> 0
      | TLS_ST_CR_CHANGE \<Rightarrow> if c_version s = DTLS1_BAD_VER then 3 else 1
      | TLS_ST_CR_SESSION_TICKET \<Rightarrow> if SSL_CONNECTION_IS_TLS13 s then 131338 else 65541
      | TLS_ST_CR_FINISHED \<Rightarrow> 64
      | TLS_ST_CR_ENCRYPTED_EXTENSIONS \<Rightarrow> 20000
      | TLS_ST_CR_KEY_UPDATE \<Rightarrow> 1
      | _ \<Rightarrow> 0)"

definition client_process_fn :: "OSSL_HANDSHAKE_STATE \<Rightarrow> process_fn option" where
  "client_process_fn h =
     (case h of
        TLS_ST_CR_SRVR_HELLO \<Rightarrow> Some P_tls_process_server_hello
      | DTLS_ST_CR_HELLO_VERIFY_REQUEST \<Rightarrow> Some P_dtls_process_hello_verify
      | TLS_ST_CR_CERT \<Rightarrow> Some P_tls_process_server_certificate
      | TLS_ST_CR_COMP_CERT \<Rightarrow> Some P_tls_process_server_compressed_certificate
      | TLS_ST_CR_CERT_VRFY \<Rightarrow> Some P_tls_process_cert_verify
      | TLS_ST_CR_CERT_STATUS \<Rightarrow> Some P_tls_process_cert_status
      | TLS_ST_CR_KEY_EXCH \<Rightarrow> Some P_tls_process_key_exchange
      | TLS_ST_CR_CERT_REQ \<Rightarrow> Some P_tls_process_certificate_request
      | TLS_ST_CR_SRVR_DONE \<Rightarrow> Some P_tls_process_server_done
      | TLS_ST_CR_CHANGE \<Rightarrow> Some P_tls_process_change_cipher_spec
      | TLS_ST_CR_SESSION_TICKET \<Rightarrow> Some P_tls_process_new_session_ticket
      | TLS_ST_CR_FINISHED \<Rightarrow> Some P_tls_process_finished
      | TLS_ST_CR_HELLO_REQ \<Rightarrow> Some P_tls_process_hello_req
      | TLS_ST_CR_ENCRYPTED_EXTENSIONS \<Rightarrow> Some P_tls_process_encrypted_extensions
      | TLS_ST_CR_KEY_UPDATE \<Rightarrow> Some P_tls_process_key_update
      | _ \<Rightarrow> None)"

definition ossl_statem_client_process_message :: "'w env \<Rightarrow> 'w SSL \<Rightarrow> nat \<Rightarrow> MSG_PROCESS_RETURN \<times> 'w SSL" where
  "ossl_statem_client_process_message E s len =
     (case client_process_fn (hand s) of
        None \<Rightarrow> (MSG_PROCESS_ERROR, SSLfatal s SSL_AD_INTERNAL_ERROR)
      | Some f \<Rightarrow> e_process E f len s)"

definition ossl_statem_client_post_process_message :: "'w env \<Rightarrow> 'w SSL \<Rightarrow> WORK_STATE \<Rightarrow> WORK_STATE \<times> 'w SSL" where
  "ossl_statem_client_post_process_message E s wst =
     (case hand s of
        TLS_ST_CR_CERT \<Rightarrow> e_work E W_tls_post_process_server_certificate wst s
      | TLS_ST_CR_COMP_CERT \<Rightarrow> e_work E W_tls_post_process_server_certificate wst s
      | TLS_ST_CR_CERT_VRFY \<Rightarrow> e_work E W_tls_prepare_client_certificate wst s
      | TLS_ST_CR_CERT_REQ \<Rightarrow> e_work E W_tls_prepare_client_certificate wst s
      | _ \<Rightarrow> (WORK_ERROR, SSLfatal s SSL_AD_INTERNAL_ERROR))"

end
