(* ===== verification/Statem_Server.thy ===== *)
theory Statem_Server
  imports Statem
begin

text \<open>
  The server side of the handshake state machine, \<open>ssl/statem/statem_srvr.c\<close>, in the order of the
  source: reading, what is sent next, the work before and after sending, and the tables. The time
  stamps of the last messages are not kept.
\<close>

section \<open>Reading\<close>

definition received_client_cert :: "'w SSL \<Rightarrow> bool" where
  "received_client_cert s = (sess_peer_rpk (c_session s) \<or> sess_peer (c_session s))"

text \<open>The case \<open>TLS_ST_SR_END_OF_EARLY_DATA\<close>, \<open>TLS_ST_SW_FINISHED\<close>, into which the one before may fall.\<close>

definition sr_after_finished :: "'w SSL \<Rightarrow> int \<Rightarrow> bool \<times> 'w SSL" where
  "sr_after_finished s mt =
     (if s3_cert_request (c_s3 s) then
        if mt = SSL3_MT_CERTIFICATE then (True, set_hand TLS_ST_SR_CERT s)
        else if mt = SSL3_MT_COMPRESSED_CERTIFICATE \<and> ext_compress_certificate_sent (c_ext s)
        then (True, set_hand TLS_ST_SR_COMP_CERT s)
        else (False, s)
      else if mt = SSL3_MT_FINISHED then (True, set_hand TLS_ST_SR_FINISHED s)
      else (False, s))"

definition ossl_statem_server13_read_transition :: "'w SSL \<Rightarrow> int \<Rightarrow> bool \<times> 'w SSL" where
  "ossl_statem_server13_read_transition s mt =
     (if hand s = TLS_ST_EARLY_DATA then
        if c_hello_retry_request s = SSL_HRR_PENDING then
          if mt = SSL3_MT_CLIENT_HELLO then (True, set_hand TLS_ST_SR_CLNT_HELLO s) else (False, s)
        else if ext_early_data (c_ext s) = SSL_EARLY_DATA_ACCEPTED \<and> \<not> SSL_CONNECTION_IS_QUIC s then
          if mt = SSL3_MT_END_OF_EARLY_DATA then (True, set_hand TLS_ST_SR_END_OF_EARLY_DATA s) else (False, s)
        else sr_after_finished s mt
      else if hand s = TLS_ST_SR_END_OF_EARLY_DATA \<or> hand s = TLS_ST_SW_FINISHED then sr_after_finished s mt
      else if hand s = TLS_ST_SR_COMP_CERT \<or> hand s = TLS_ST_SR_CERT then
        if \<not> received_client_cert s then
          if mt = SSL3_MT_FINISHED then (True, set_hand TLS_ST_SR_FINISHED s) else (False, s)
        else if mt = SSL3_MT_CERTIFICATE_VERIFY then (True, set_hand TLS_ST_SR_CERT_VRFY s)
        else (False, s)
      else if hand s = TLS_ST_SR_CERT_VRFY then
        if mt = SSL3_MT_FINISHED then (True, set_hand TLS_ST_SR_FINISHED s) else (False, s)
      else if hand s = TLS_ST_OK then
        if c_early_data_state s = SSL_EARLY_DATA_READING then (False, s)
        else if c_post_handshake_auth s = SSL_PHA_REQUESTED \<and> mt = SSL3_MT_CERTIFICATE then (True, set_hand TLS_ST_SR_CERT s)
        else if c_post_handshake_auth s = SSL_PHA_REQUESTED \<and> mt = SSL3_MT_COMPRESSED_CERTIFICATE
                \<and> ext_compress_certificate_sent (c_ext s) then (True, set_hand TLS_ST_SR_COMP_CERT s)
        else if mt = SSL3_MT_KEY_UPDATE \<and> \<not> SSL_IS_QUIC_HANDSHAKE s then (True, set_hand TLS_ST_SR_KEY_UPDATE s)
        else (False, s)
      else (False, s))"

definition sr_after_done :: "'w SSL \<Rightarrow> int \<Rightarrow> 'w tran" where
  "sr_after_done s mt =
     (if mt = SSL3_MT_CLIENT_KEY_EXCHANGE then
        if s3_cert_request (c_s3 s) then
          if c_version s = SSL3_VERSION then
            if c_verify_mode s AND SSL_VERIFY_PEER \<noteq> 0 \<and> c_verify_mode s AND SSL_VERIFY_FAIL_IF_NO_PEER_CERT \<noteq> 0
            then Tran_Zero (SSLfatal s SSL_AD_HANDSHAKE_FAILURE)
            else Tran_Ok (set_hand TLS_ST_SR_KEY_EXCH s)
          else Tran_Err s
        else Tran_Ok (set_hand TLS_ST_SR_KEY_EXCH s)
      else if s3_cert_request (c_s3 s) \<and> mt = SSL3_MT_CERTIFICATE then Tran_Ok (set_hand TLS_ST_SR_CERT s)
      else Tran_Err s)"

definition server_read_switch :: "'w SSL \<Rightarrow> int \<Rightarrow> 'w tran" where
  "server_read_switch s mt =
     (if hand s \<in> {TLS_ST_BEFORE, TLS_ST_OK, DTLS_ST_SW_HELLO_VERIFY_REQUEST} then
        if mt = SSL3_MT_CLIENT_HELLO then Tran_Ok (set_hand TLS_ST_SR_CLNT_HELLO s) else Tran_Err s
      else if hand s = TLS_ST_SW_SRVR_DONE then sr_after_done s mt
      else if hand s = TLS_ST_SR_CERT then
        if mt = SSL3_MT_CLIENT_KEY_EXCHANGE then Tran_Ok (set_hand TLS_ST_SR_KEY_EXCH s) else Tran_Err s
      else if hand s = TLS_ST_SR_KEY_EXCH then
        if \<not> received_client_cert s \<or> st_no_cert_verify (c_statem s) then
          if mt = SSL3_MT_CHANGE_CIPHER_SPEC then Tran_Ok (set_hand TLS_ST_SR_CHANGE s) else Tran_Err s
        else if mt = SSL3_MT_CERTIFICATE_VERIFY then Tran_Ok (set_hand TLS_ST_SR_CERT_VRFY s)
        else Tran_Err s
      else if hand s = TLS_ST_SR_CERT_VRFY then
        if mt = SSL3_MT_CHANGE_CIPHER_SPEC then Tran_Ok (set_hand TLS_ST_SR_CHANGE s) else Tran_Err s
      else if hand s = TLS_ST_SR_CHANGE then
        if mt = SSL3_MT_FINISHED then Tran_Ok (set_hand TLS_ST_SR_FINISHED s) else Tran_Err s
      else if hand s = TLS_ST_SW_FINISHED then
        if mt = SSL3_MT_CHANGE_CIPHER_SPEC then Tran_Ok (set_hand TLS_ST_SR_CHANGE s) else Tran_Err s
      else Tran_Err s)"

definition ossl_statem_server_read_transition :: "'w env \<Rightarrow> 'w SSL \<Rightarrow> int \<Rightarrow> bool \<times> 'w SSL" where
  "ossl_statem_server_read_transition E s mt =
     finish_tran E mt
       (if SSL_CONNECTION_IS_TLS13 s then
          (case ossl_statem_server13_read_transition s mt of
             (False, s) \<Rightarrow> Tran_Err s
           | (True, s) \<Rightarrow> Tran_Ok s)
        else server_read_switch s mt)"

section \<open>Writing\<close>

definition send_server_key_exchange :: "'w SSL \<Rightarrow> bool" where
  "send_server_key_exchange s =
     (let alg_k = algorithm_mkey (s3_new_cipher (c_s3 s)) in
      alg_k AND (SSL_kDHE OR SSL_kECDHE) \<noteq> 0
      \<or> alg_k AND (SSL_kPSK OR SSL_kRSAPSK) \<noteq> 0 \<and> c_psk_identity_hint s
      \<or> alg_k AND (SSL_PSK AND (SSL_kDHEPSK OR SSL_kECDHEPSK)) \<noteq> 0)"

text \<open>The first algorithm of the peer for which the certificate has a compressed form.\<close>

fun compressed_alg_loop :: "(int \<Rightarrow> bool) \<Rightarrow> int list \<Rightarrow> int option" where
  "compressed_alg_loop comp_cert [] = None"
| "compressed_alg_loop comp_cert (alg # algs) = (if comp_cert alg then Some alg else compressed_alg_loop comp_cert algs)"

definition get_compressed_certificate_alg :: "'w SSL \<Rightarrow> int option" where
  "get_compressed_certificate_alg s =
     (case s3_tmp_cert (c_s3 s) of
        None \<Rightarrow> None
      | Some comp_cert \<Rightarrow> compressed_alg_loop comp_cert (ext_compress_certificate_from_peer (c_ext s)))"

definition send_certificate_request :: "'w SSL \<Rightarrow> bool" where
  "send_certificate_request s =
     (c_verify_mode s AND SSL_VERIFY_PEER \<noteq> 0
      \<and> (\<not> SSL_CONNECTION_IS_TLS13 s \<or> c_verify_mode s AND SSL_VERIFY_POST_HANDSHAKE = 0
         \<or> c_post_handshake_auth s = SSL_PHA_REQUEST_PENDING)
      \<and> (c_certreqs_sent s < 1 \<or> c_verify_mode s AND SSL_VERIFY_CLIENT_ONCE = 0)
      \<and> (algorithm_auth (s3_new_cipher (c_s3 s)) AND SSL_aNULL = 0
         \<or> c_verify_mode s AND SSL_VERIFY_FAIL_IF_NO_PEER_CERT \<noteq> 0)
      \<and> algorithm_auth (s3_new_cipher (c_s3 s)) AND SSL_aPSK = 0)"

definition server_do_compressed_cert :: "'w SSL \<Rightarrow> bool" where
  "server_do_compressed_cert s =
     (ext_server_cert_type (c_ext s) = TLSEXT_cert_type_x509 \<and> get_compressed_certificate_alg s \<noteq> None)"

definition ossl_statem_server13_write_transition :: "'w SSL \<Rightarrow> WRITE_TRAN \<times> 'w SSL" where
  "ossl_statem_server13_write_transition s =
     (if hand s = TLS_ST_OK then
        if c_key_update s \<noteq> SSL_KEY_UPDATE_NONE then (WRITE_TRAN_CONTINUE, set_hand TLS_ST_SW_KEY_UPDATE s)
        else if c_post_handshake_auth s = SSL_PHA_REQUEST_PENDING then (WRITE_TRAN_CONTINUE, set_hand TLS_ST_SW_CERT_REQ s)
        else if ext_extra_tickets_expected (c_ext s) > 0 then (WRITE_TRAN_CONTINUE, set_hand TLS_ST_SW_SESSION_TICKET s)
        else (WRITE_TRAN_FINISHED, s)
      else if hand s = TLS_ST_SR_CLNT_HELLO then (WRITE_TRAN_CONTINUE, set_hand TLS_ST_SW_SRVR_HELLO s)
      else if hand s = TLS_ST_SW_SRVR_HELLO then
        (WRITE_TRAN_CONTINUE,
         if c_options s AND SSL_OP_ENABLE_MIDDLEBOX_COMPAT \<noteq> 0 \<and> c_hello_retry_request s \<noteq> SSL_HRR_COMPLETE
         then set_hand TLS_ST_SW_CHANGE s
         else if c_hello_retry_request s = SSL_HRR_PENDING then set_hand TLS_ST_EARLY_DATA s
         else set_hand TLS_ST_SW_ENCRYPTED_EXTENSIONS s)
      else if hand s = TLS_ST_SW_CHANGE then
        (WRITE_TRAN_CONTINUE,
         if c_hello_retry_request s = SSL_HRR_PENDING then set_hand TLS_ST_EARLY_DATA s
         else set_hand TLS_ST_SW_ENCRYPTED_EXTENSIONS s)
      else if hand s = TLS_ST_SW_ENCRYPTED_EXTENSIONS then
        (WRITE_TRAN_CONTINUE,
         if c_hit s then set_hand TLS_ST_SW_FINISHED s
         else if send_certificate_request s then set_hand TLS_ST_SW_CERT_REQ s
         else if server_do_compressed_cert s then set_hand TLS_ST_SW_COMP_CERT s
         else set_hand TLS_ST_SW_CERT s)
      else if hand s = TLS_ST_SW_CERT_REQ then
        (WRITE_TRAN_CONTINUE,
         if c_post_handshake_auth s = SSL_PHA_REQUEST_PENDING then set_hand TLS_ST_OK (s\<lparr>c_post_handshake_auth := SSL_PHA_REQUESTED\<rparr>)
         else if server_do_compressed_cert s then set_hand TLS_ST_SW_COMP_CERT s
         else set_hand TLS_ST_SW_CERT s)
      else if hand s = TLS_ST_SW_COMP_CERT \<or> hand s = TLS_ST_SW_CERT then
        (WRITE_TRAN_CONTINUE, set_hand TLS_ST_SW_CERT_VRFY s)
      else if hand s = TLS_ST_SW_CERT_VRFY then (WRITE_TRAN_CONTINUE, set_hand TLS_ST_SW_FINISHED s)
      else if hand s = TLS_ST_SW_FINISHED then (WRITE_TRAN_CONTINUE, set_hand TLS_ST_EARLY_DATA s)
      else if hand s = TLS_ST_EARLY_DATA then (WRITE_TRAN_FINISHED, s)
      else if hand s = TLS_ST_SR_FINISHED then
        if c_post_handshake_auth s \<noteq> SSL_PHA_REQUESTED \<and> \<not> ext_ticket_expected (c_ext s)
        then (WRITE_TRAN_CONTINUE, set_hand TLS_ST_OK s)
        else
          let s = (if c_post_handshake_auth s = SSL_PHA_REQUESTED then s\<lparr>c_post_handshake_auth := SSL_PHA_EXT_RECEIVED\<rparr> else s) in
          (WRITE_TRAN_CONTINUE, if c_num_tickets s > c_sent_tickets s then set_hand TLS_ST_SW_SESSION_TICKET s else set_hand TLS_ST_OK s)
      else if hand s = TLS_ST_SR_KEY_UPDATE \<or> hand s = TLS_ST_SW_KEY_UPDATE then (WRITE_TRAN_CONTINUE, set_hand TLS_ST_OK s)
      else if hand s = TLS_ST_SW_SESSION_TICKET then
        if \<not> SSL_IS_FIRST_HANDSHAKE s \<and> ext_extra_tickets_expected (c_ext s) > 0 then (WRITE_TRAN_CONTINUE, s)
        else (WRITE_TRAN_CONTINUE, if c_hit s \<or> c_num_tickets s \<le> c_sent_tickets s then set_hand TLS_ST_OK s else s)
      else (WRITE_TRAN_ERROR, SSLfatal s SSL_AD_INTERNAL_ERROR))"

text \<open>The cases that fall through, from the last to the first.\<close>

definition sw_key_exch :: "'w SSL \<Rightarrow> 'w SSL" where
  "sw_key_exch s = (if send_certificate_request s then set_hand TLS_ST_SW_CERT_REQ s else set_hand TLS_ST_SW_SRVR_DONE s)"

definition sw_cert_status :: "'w SSL \<Rightarrow> 'w SSL" where
  "sw_cert_status s = (if send_server_key_exchange s then set_hand TLS_ST_SW_KEY_EXCH s else sw_key_exch s)"

definition sw_srvr_hello :: "'w SSL \<Rightarrow> 'w SSL" where
  "sw_srvr_hello s =
     (if c_hit s then
        if ext_ticket_expected (c_ext s) then set_hand TLS_ST_SW_SESSION_TICKET s else set_hand TLS_ST_SW_CHANGE s
      else if algorithm_auth (s3_new_cipher (c_s3 s)) AND (SSL_aNULL OR SSL_aPSK) = 0 then set_hand TLS_ST_SW_CERT s
      else if send_server_key_exchange s then set_hand TLS_ST_SW_KEY_EXCH s
      else if send_certificate_request s then set_hand TLS_ST_SW_CERT_REQ s
      else set_hand TLS_ST_SW_SRVR_DONE s)"

definition ossl_statem_server_write_transition :: "'w env \<Rightarrow> 'w SSL \<Rightarrow> WRITE_TRAN \<times> 'w SSL" where
  "ossl_statem_server_write_transition E s =
     (if SSL_CONNECTION_IS_TLS13 s then ossl_statem_server13_write_transition s
      else if hand s = TLS_ST_OK then
        if st_request_state (c_statem s) = TLS_ST_SW_HELLO_REQ then
          (WRITE_TRAN_CONTINUE,
           s\<lparr>c_statem := (c_statem s)\<lparr>st_hand_state := TLS_ST_SW_HELLO_REQ, st_request_state := TLS_ST_BEFORE\<rparr>\<rparr>)
        else
          (case e_int E F_tls_setup_handshake s of
             (r, s) \<Rightarrow> if r = 0 then (WRITE_TRAN_ERROR, s) else (WRITE_TRAN_FINISHED, s))
      else if hand s = TLS_ST_BEFORE then (WRITE_TRAN_FINISHED, s)
      else if hand s = TLS_ST_SW_HELLO_REQ then (WRITE_TRAN_CONTINUE, set_hand TLS_ST_OK s)
      else if hand s = TLS_ST_SR_CLNT_HELLO then
        (WRITE_TRAN_CONTINUE,
         if SSL_CONNECTION_IS_DTLS s \<and> \<not> c_cookie_verified s \<and> c_options s AND SSL_OP_COOKIE_EXCHANGE \<noteq> 0
         then set_hand DTLS_ST_SW_HELLO_VERIFY_REQUEST s
         else if \<not> c_renegotiate s \<and> \<not> SSL_IS_FIRST_HANDSHAKE s then set_hand TLS_ST_OK s
         else set_hand TLS_ST_SW_SRVR_HELLO s)
      else if hand s = DTLS_ST_SW_HELLO_VERIFY_REQUEST then (WRITE_TRAN_FINISHED, s)
      else if hand s = TLS_ST_SW_SRVR_HELLO then (WRITE_TRAN_CONTINUE, sw_srvr_hello s)
      else if hand s = TLS_ST_SW_CERT then
        (WRITE_TRAN_CONTINUE, if ext_status_expected (c_ext s) then set_hand TLS_ST_SW_CERT_STATUS s else sw_cert_status s)
      else if hand s = TLS_ST_SW_CERT_STATUS then (WRITE_TRAN_CONTINUE, sw_cert_status s)
      else if hand s = TLS_ST_SW_KEY_EXCH then (WRITE_TRAN_CONTINUE, sw_key_exch s)
      else if hand s = TLS_ST_SW_CERT_REQ then (WRITE_TRAN_CONTINUE, set_hand TLS_ST_SW_SRVR_DONE s)
      else if hand s = TLS_ST_SW_SRVR_DONE then (WRITE_TRAN_FINISHED, s)
      else if hand s = TLS_ST_SR_FINISHED then
        (WRITE_TRAN_CONTINUE,
         if c_hit s then set_hand TLS_ST_OK s
         else if ext_ticket_expected (c_ext s) then set_hand TLS_ST_SW_SESSION_TICKET s
         else set_hand TLS_ST_SW_CHANGE s)
      else if hand s = TLS_ST_SW_SESSION_TICKET then (WRITE_TRAN_CONTINUE, set_hand TLS_ST_SW_CHANGE s)
      else if hand s = TLS_ST_SW_CHANGE then (WRITE_TRAN_CONTINUE, set_hand TLS_ST_SW_FINISHED s)
      else if hand s = TLS_ST_SW_FINISHED then
        if c_hit s then (WRITE_TRAN_FINISHED, s) else (WRITE_TRAN_CONTINUE, set_hand TLS_ST_OK s)
      else (WRITE_TRAN_ERROR, SSLfatal s SSL_AD_INTERNAL_ERROR))"

definition set_use_timer :: "bool \<Rightarrow> 'w SSL \<Rightarrow> 'w SSL" where
  "set_use_timer b s = s\<lparr>c_statem := (c_statem s)\<lparr>st_use_timer := b\<rparr>\<rparr>"

definition sw_change_pre_work :: "'w env \<Rightarrow> 'w SSL \<Rightarrow> WORK_STATE \<times> 'w SSL" where
  "sw_change_pre_work E s =
     (if SSL_CONNECTION_IS_TLS13 s then (WORK_FINISHED_CONTINUE, s)
      else if sess_cipher (c_session s) \<noteq> None \<and> sess_cipher (c_session s) \<noteq> Some (s3_new_cipher (c_s3 s)) then
        (WORK_ERROR, SSLfatal s SSL_AD_INTERNAL_ERROR)
      else
        let s = s\<lparr>c_session := (c_session s)\<lparr>sess_cipher := Some (s3_new_cipher (c_s3 s))\<rparr>\<rparr> in
        (case e_int E F_setup_key_block s of
           (r, s) \<Rightarrow> if r = 0 then (WORK_ERROR, s)
                    else (WORK_FINISHED_CONTINUE, if SSL_CONNECTION_IS_DTLS s then set_use_timer False s else s)))"

definition ossl_statem_server_pre_work :: "'w env \<Rightarrow> 'w SSL \<Rightarrow> WORK_STATE \<Rightarrow> WORK_STATE \<times> 'w SSL" where
  "ossl_statem_server_pre_work E s wst =
     (if hand s = TLS_ST_SW_HELLO_REQ then
        let s = s\<lparr>c_shutdown := 0\<rparr> in
        (WORK_FINISHED_CONTINUE, if SSL_CONNECTION_IS_DTLS s then snd (e_int E F_dtls1_clear_sent_buffer s) else s)
      else if hand s = DTLS_ST_SW_HELLO_VERIFY_REQUEST then
        let s = s\<lparr>c_shutdown := 0\<rparr> in
        (WORK_FINISHED_CONTINUE,
         if SSL_CONNECTION_IS_DTLS s then set_use_timer False (snd (e_int E F_dtls1_clear_sent_buffer s)) else s)
      else if hand s = TLS_ST_SW_SRVR_HELLO then
        (WORK_FINISHED_CONTINUE, if SSL_CONNECTION_IS_DTLS s then set_use_timer True s else s)
      else if hand s = TLS_ST_SW_SRVR_DONE then (WORK_FINISHED_CONTINUE, s)
      else if hand s = TLS_ST_SW_SESSION_TICKET then
        if SSL_CONNECTION_IS_TLS13 s \<and> c_sent_tickets s = 0 \<and> ext_extra_tickets_expected (c_ext s) = 0 then
          tls_finish_handshake E s wst False False
        else (WORK_FINISHED_CONTINUE, if SSL_CONNECTION_IS_DTLS s then set_use_timer False s else s)
      else if hand s = TLS_ST_SW_CHANGE then sw_change_pre_work E s
      else if hand s = TLS_ST_EARLY_DATA \<and> c_early_data_state s \<noteq> SSL_EARLY_DATA_ACCEPTING
              \<and> s3_flags (c_s3 s) AND TLS1_FLAGS_STATELESS = 0 then
        (WORK_FINISHED_CONTINUE, s)
      else if hand s = TLS_ST_EARLY_DATA \<or> hand s = TLS_ST_OK then tls_finish_handshake E s wst True True
      else (WORK_FINISHED_CONTINUE, s))"

abbreviation (input) CC_SERVER_WRITE :: nat where "CC_SERVER_WRITE \<equiv> 0x022"
abbreviation (input) CC_HANDSHAKE_SERVER_WRITE :: nat where "CC_HANDSHAKE_SERVER_WRITE \<equiv> 0x0A2"
abbreviation (input) CC_HANDSHAKE_SERVER_READ :: nat where "CC_HANDSHAKE_SERVER_READ \<equiv> 0x0A1"
abbreviation (input) CC_APPLICATION_SERVER_WRITE :: nat where "CC_APPLICATION_SERVER_WRITE \<equiv> 0x122"

text \<open>Calls in sequence, stopping with \<open>WORK_ERROR\<close> at the first that fails.\<close>

fun run_calls :: "'w env \<Rightarrow> callee list \<Rightarrow> 'w SSL \<Rightarrow> WORK_STATE \<times> 'w SSL" where
  "run_calls E [] s = (WORK_FINISHED_CONTINUE, s)"
| "run_calls E (f # fs) s = (case e_int E f s of (r, s) \<Rightarrow> if r = 0 then (WORK_ERROR, s) else run_calls E fs s)"

definition flush_then :: "'w env \<Rightarrow> 'w SSL \<Rightarrow> ('w SSL \<Rightarrow> WORK_STATE \<times> 'w SSL) \<Rightarrow> WORK_STATE \<times> 'w SSL" where
  "flush_then E s k = (case statem_flush E s of (False, s) \<Rightarrow> (WORK_MORE_A, s) | (True, s) \<Rightarrow> k s)"

definition sw_change_post_work :: "'w env \<Rightarrow> 'w SSL \<Rightarrow> WORK_STATE \<times> 'w SSL" where
  "sw_change_post_work E s =
     (if c_hello_retry_request s = SSL_HRR_PENDING then flush_then E s (\<lambda>s. (WORK_FINISHED_CONTINUE, s))
      else if SSL_CONNECTION_IS_TLS13 s then
        (case run_calls E [F_setup_key_block, F_change_cipher_state CC_HANDSHAKE_SERVER_WRITE] s of
           (WORK_FINISHED_CONTINUE, s) \<Rightarrow>
             (case (if ext_early_data (c_ext s) \<noteq> SSL_EARLY_DATA_ACCEPTED
                    then run_calls E [F_change_cipher_state CC_HANDSHAKE_SERVER_READ] s else (WORK_FINISHED_CONTINUE, s)) of
                (WORK_FINISHED_CONTINUE, s) \<Rightarrow> (WORK_FINISHED_CONTINUE, snd (e_int E F_set_plain_alerts s))
              | (w, s) \<Rightarrow> (w, s))
         | (w, s) \<Rightarrow> (w, s))
      else run_calls E [F_change_cipher_state CC_SERVER_WRITE] s)"

definition sw_finished_post_work :: "'w env \<Rightarrow> 'w SSL \<Rightarrow> WORK_STATE \<times> 'w SSL" where
  "sw_finished_post_work E s =
     flush_then E s (\<lambda>s.
       if SSL_CONNECTION_IS_TLS13 s then
         (case run_calls E [F_generate_master_secret, F_change_cipher_state CC_APPLICATION_SERVER_WRITE] s of
            (WORK_FINISHED_CONTINUE, s) \<Rightarrow>
              if SSL_CONNECTION_IS_QUIC s \<and> ext_early_data (c_ext s) = SSL_EARLY_DATA_ACCEPTED then
                run_calls E [F_change_cipher_state CC_HANDSHAKE_SERVER_READ] (s\<lparr>c_early_data_state := SSL_EARLY_DATA_FINISHED_READING\<rparr>)
              else (WORK_FINISHED_CONTINUE, s)
          | (w, s) \<Rightarrow> (w, s))
       else (WORK_FINISHED_CONTINUE, s))"

definition drop_peer_compression :: "'w SSL \<Rightarrow> 'w SSL" where
  "drop_peer_compression s =
     (if \<not> SSL_CONNECTION_IS_TLS13 s \<or> c_options s AND SSL_OP_NO_TX_CERTIFICATE_COMPRESSION \<noteq> 0
      then s\<lparr>c_ext := (c_ext s)\<lparr>ext_compress_certificate_from_peer := []\<rparr>\<rparr> else s)"

definition ossl_statem_server_post_work :: "'w env \<Rightarrow> 'w SSL \<Rightarrow> WORK_STATE \<Rightarrow> WORK_STATE \<times> 'w SSL" where
  "ossl_statem_server_post_work E s wst =
     (let s = s\<lparr>c_init_num := 0\<rparr> in
      if hand s = TLS_ST_SW_HELLO_REQ then flush_then E s (run_calls E [F_ssl3_init_finished_mac])
      else if hand s = DTLS_ST_SW_HELLO_VERIFY_REQUEST then
        flush_then E s (\<lambda>s.
          (case (if c_version s \<noteq> DTLS1_BAD_VER then run_calls E [F_ssl3_init_finished_mac] s else (WORK_FINISHED_CONTINUE, s)) of
             (WORK_FINISHED_CONTINUE, s) \<Rightarrow> (WORK_FINISHED_CONTINUE, s\<lparr>c_first_packet := True\<rparr>)
           | (w, s) \<Rightarrow> (w, s)))
      else if hand s = TLS_ST_SW_SRVR_HELLO then
        if SSL_CONNECTION_IS_TLS13 s \<and> c_hello_retry_request s = SSL_HRR_PENDING then
          if c_options s AND SSL_OP_ENABLE_MIDDLEBOX_COMPAT = 0 then flush_then E s (\<lambda>s. (WORK_FINISHED_CONTINUE, s))
          else (WORK_FINISHED_CONTINUE, s)
        else if \<not> SSL_CONNECTION_IS_TLS13 s
                \<or> c_options s AND SSL_OP_ENABLE_MIDDLEBOX_COMPAT \<noteq> 0 \<and> c_hello_retry_request s \<noteq> SSL_HRR_COMPLETE then
          (WORK_FINISHED_CONTINUE, s)
        else sw_change_post_work E s
      else if hand s = TLS_ST_SW_CHANGE then sw_change_post_work E s
      else if hand s = TLS_ST_SW_SRVR_DONE then flush_then E s (\<lambda>s. (WORK_FINISHED_CONTINUE, s))
      else if hand s = TLS_ST_SW_FINISHED then sw_finished_post_work E s
      else if hand s = TLS_ST_SW_CERT_REQ then
        if c_post_handshake_auth s = SSL_PHA_REQUEST_PENDING then flush_then E s (\<lambda>s. (WORK_FINISHED_CONTINUE, s))
        else (WORK_FINISHED_CONTINUE, drop_peer_compression s)
      else if hand s = TLS_ST_SW_ENCRYPTED_EXTENSIONS then
        (WORK_FINISHED_CONTINUE, if \<not> c_hit s \<and> \<not> send_certificate_request s then drop_peer_compression s else s)
      else if hand s = TLS_ST_SW_KEY_UPDATE then flush_then E s (run_calls E [F_tls13_update_key])
      else if hand s = TLS_ST_SW_SESSION_TICKET then
        if SSL_CONNECTION_IS_TLS13 s then
          (case statem_flush E s of
             (True, s) \<Rightarrow> (WORK_FINISHED_CONTINUE, s)
           | (False, s) \<Rightarrow>
               (case e_int E F_conn_is_closed s of
                  (r, s) \<Rightarrow> if r \<noteq> 0 then (WORK_FINISHED_CONTINUE, s\<lparr>c_rwstate := SSL_NOTHING\<rparr>) else (WORK_MORE_A, s)))
        else (WORK_FINISHED_CONTINUE, s)
      else (WORK_FINISHED_CONTINUE, s))"

section \<open>Tables\<close>

definition ossl_statem_server_construct_message :: "'w SSL \<Rightarrow> (confunc option \<times> int) option \<times> 'w SSL" where
  "ossl_statem_server_construct_message s =
     (case hand s of
        TLS_ST_SW_CHANGE \<Rightarrow>
          (Some (Some (if SSL_CONNECTION_IS_DTLS s then C_dtls_construct_change_cipher_spec else C_tls_construct_change_cipher_spec),
                 SSL3_MT_CHANGE_CIPHER_SPEC), s)
      | DTLS_ST_SW_HELLO_VERIFY_REQUEST \<Rightarrow> (Some (Some C_dtls_construct_hello_verify_request, DTLS1_MT_HELLO_VERIFY_REQUEST), s)
      | TLS_ST_SW_HELLO_REQ \<Rightarrow> (Some (None, SSL3_MT_HELLO_REQUEST), s)
      | TLS_ST_SW_SRVR_HELLO \<Rightarrow> (Some (Some C_tls_construct_server_hello, SSL3_MT_SERVER_HELLO), s)
      | TLS_ST_SW_CERT \<Rightarrow> (Some (Some C_tls_construct_server_certificate, SSL3_MT_CERTIFICATE), s)
      | TLS_ST_SW_COMP_CERT \<Rightarrow> (Some (Some C_tls_construct_server_compressed_certificate, SSL3_MT_COMPRESSED_CERTIFICATE), s)
      | TLS_ST_SW_CERT_VRFY \<Rightarrow> (Some (Some C_tls_construct_cert_verify, SSL3_MT_CERTIFICATE_VERIFY), s)
      | TLS_ST_SW_KEY_EXCH \<Rightarrow> (Some (Some C_tls_construct_server_key_exchange, SSL3_MT_SERVER_KEY_EXCHANGE), s)
      | TLS_ST_SW_CERT_REQ \<Rightarrow> (Some (Some C_tls_construct_certificate_request, SSL3_MT_CERTIFICATE_REQUEST), s)
      | TLS_ST_SW_SRVR_DONE \<Rightarrow> (Some (Some C_tls_construct_server_done, SSL3_MT_SERVER_DONE), s)
      | TLS_ST_SW_SESSION_TICKET \<Rightarrow> (Some (Some C_tls_construct_new_session_ticket, SSL3_MT_NEWSESSION_TICKET), s)
      | TLS_ST_SW_CERT_STATUS \<Rightarrow> (Some (Some C_tls_construct_cert_status, SSL3_MT_CERTIFICATE_STATUS), s)
      | TLS_ST_SW_FINISHED \<Rightarrow> (Some (Some C_tls_construct_finished, SSL3_MT_FINISHED), s)
      | TLS_ST_EARLY_DATA \<Rightarrow> (Some (None, SSL3_MT_DUMMY), s)
      | TLS_ST_SW_ENCRYPTED_EXTENSIONS \<Rightarrow> (Some (Some C_tls_construct_encrypted_extensions, SSL3_MT_ENCRYPTED_EXTENSIONS), s)
      | TLS_ST_SW_KEY_UPDATE \<Rightarrow> (Some (Some C_tls_construct_key_update, SSL3_MT_KEY_UPDATE), s)
      | _ \<Rightarrow> (None, SSLfatal s SSL_AD_INTERNAL_ERROR))"

definition ossl_statem_server_max_message_size :: "'w SSL \<Rightarrow> nat" where
  "ossl_statem_server_max_message_size s =
     (case hand s of
        TLS_ST_SR_CLNT_HELLO \<Rightarrow> 131396
      | TLS_ST_SR_END_OF_EARLY_DATA \<Rightarrow> 0
      | TLS_ST_SR_COMP_CERT \<Rightarrow> c_max_cert_list s
      | TLS_ST_SR_CERT \<Rightarrow> c_max_cert_list s
      | TLS_ST_SR_KEY_EXCH \<Rightarrow> 2048
      | TLS_ST_SR_CERT_VRFY \<Rightarrow> 65539
      | TLS_ST_SR_CHANGE \<Rightarrow> 1
      | TLS_ST_SR_FINISHED \<Rightarrow> 64
      | TLS_ST_SR_KEY_UPDATE \<Rightarrow> 1
      | _ \<Rightarrow> 0)"

definition server_process_fn :: "OSSL_HANDSHAKE_STATE \<Rightarrow> process_fn option" where
  "server_process_fn h =
     (case h of
        TLS_ST_SR_CLNT_HELLO \<Rightarrow> Some P_tls_process_client_hello
      | TLS_ST_SR_END_OF_EARLY_DATA \<Rightarrow> Some P_tls_process_end_of_early_data
      | TLS_ST_SR_CERT \<Rightarrow> Some P_tls_process_client_certificate
      | TLS_ST_SR_COMP_CERT \<Rightarrow> Some P_tls_process_client_compressed_certificate
      | TLS_ST_SR_KEY_EXCH \<Rightarrow> Some P_tls_process_client_key_exchange
      | TLS_ST_SR_CERT_VRFY \<Rightarrow> Some P_tls_process_cert_verify
      | TLS_ST_SR_CHANGE \<Rightarrow> Some P_tls_process_change_cipher_spec
      | TLS_ST_SR_FINISHED \<Rightarrow> Some P_tls_process_finished
      | TLS_ST_SR_KEY_UPDATE \<Rightarrow> Some P_tls_process_key_update
      | _ \<Rightarrow> None)"

definition ossl_statem_server_process_message :: "'w env \<Rightarrow> 'w SSL \<Rightarrow> nat \<Rightarrow> MSG_PROCESS_RETURN \<times> 'w SSL" where
  "ossl_statem_server_process_message E s len =
     (case server_process_fn (hand s) of
        None \<Rightarrow> (MSG_PROCESS_ERROR, SSLfatal s SSL_AD_INTERNAL_ERROR)
      | Some f \<Rightarrow> e_process E f len s)"

definition ossl_statem_server_post_process_message :: "'w env \<Rightarrow> 'w SSL \<Rightarrow> WORK_STATE \<Rightarrow> WORK_STATE \<times> 'w SSL" where
  "ossl_statem_server_post_process_message E s wst =
     (case hand s of
        TLS_ST_SR_CLNT_HELLO \<Rightarrow> e_work E W_tls_post_process_client_hello wst s
      | TLS_ST_SR_KEY_EXCH \<Rightarrow> e_work E W_tls_post_process_client_key_exchange wst s
      | _ \<Rightarrow> (WORK_ERROR, SSLfatal s SSL_AD_INTERNAL_ERROR))"

end
