(* ===== verification/Statem_Order.thy ===== *)
theory Statem_Order
  imports Statem_Client Statem_Server
begin

text \<open>
  The order of messages each side enforces. The lemmas give, for every transition, the states it
  connects; the runs of a side are its transitions interleaved with whatever processing does to the
  rest of the connection. The properties state which messages cannot be left out.
\<close>

section \<open>What a transition does\<close>

lemma finish_tran_ok: "finish_tran E mt t = (True, s') \<longleftrightarrow> t = Tran_Ok s'"
  by (cases t) (auto simp: finish_tran_def read_transition_err_def)

lemma client_read_ok_13:
  assumes "ossl_statem_client_read_transition E s mt = (True, s')" and "SSL_CONNECTION_IS_TLS13 s" and "hand s \<noteq> TLS_ST_OK"
  shows "c_hit s' = c_hit s \<and> SSL_CONNECTION_IS_TLS13 s'
    \<and> (hand s, hand s') \<in> {(TLS_ST_CW_CLNT_HELLO, TLS_ST_CR_SRVR_HELLO), (TLS_ST_CR_SRVR_HELLO, TLS_ST_CR_ENCRYPTED_EXTENSIONS),
        (TLS_ST_CR_ENCRYPTED_EXTENSIONS, TLS_ST_CR_FINISHED), (TLS_ST_CR_ENCRYPTED_EXTENSIONS, TLS_ST_CR_CERT_REQ),
        (TLS_ST_CR_ENCRYPTED_EXTENSIONS, TLS_ST_CR_CERT), (TLS_ST_CR_ENCRYPTED_EXTENSIONS, TLS_ST_CR_COMP_CERT),
        (TLS_ST_CR_CERT_REQ, TLS_ST_CR_CERT), (TLS_ST_CR_CERT_REQ, TLS_ST_CR_COMP_CERT),
        (TLS_ST_CR_CERT, TLS_ST_CR_CERT_VRFY), (TLS_ST_CR_COMP_CERT, TLS_ST_CR_CERT_VRFY), (TLS_ST_CR_CERT_VRFY, TLS_ST_CR_FINISHED)}
    \<and> (hand s = TLS_ST_CR_ENCRYPTED_EXTENSIONS \<longrightarrow> c_hit s = (hand s' = TLS_ST_CR_FINISHED))"
proof -
  have "ossl_statem_client13_read_transition E s mt = (True, s')"
    using assms by (auto simp: ossl_statem_client_read_transition_def finish_tran_ok split: prod.splits bool.splits)
  then show ?thesis
    using assms(2,3) unfolding ossl_statem_client13_read_transition_def by (auto split: if_splits)
qed

section \<open>The TLS 1.3 client\<close>

text \<open>
  The runs of a client from the ServerHello that selected TLS 1.3 on, with the states entered by read
  transitions, latest first. Between transitions the message is processed, which may change anything
  but the state; whether the session is resumed is fixed once the ServerHello was processed.
\<close>

inductive clnt13_run :: "'w env \<Rightarrow> 'w SSL \<Rightarrow> OSSL_HANDSHAKE_STATE list \<Rightarrow> bool" for E where
  clnt13_hello: "SSL_CONNECTION_IS_TLS13 s \<Longrightarrow> hand s = TLS_ST_CR_SRVR_HELLO \<Longrightarrow> clnt13_run E s []"
| clnt13_read: "clnt13_run E s h \<Longrightarrow> ossl_statem_client_read_transition E s mt = (True, s') \<Longrightarrow> clnt13_run E s' (hand s' # h)"
| clnt13_process: "clnt13_run E s h \<Longrightarrow> hand s' = hand s \<Longrightarrow> SSL_CONNECTION_IS_TLS13 s' \<Longrightarrow>
    (hand s \<noteq> TLS_ST_CR_SRVR_HELLO \<Longrightarrow> c_hit s' = c_hit s) \<Longrightarrow> clnt13_run E s' h"

text \<open>
  The edges a client follows, and the paths along them from the ServerHello, latest state first.
\<close>

fun clnt13_edge :: "bool \<Rightarrow> OSSL_HANDSHAKE_STATE \<Rightarrow> OSSL_HANDSHAKE_STATE list" where
  "clnt13_edge hit TLS_ST_CR_ENCRYPTED_EXTENSIONS = [TLS_ST_CR_SRVR_HELLO]"
| "clnt13_edge hit TLS_ST_CR_CERT_REQ = (if hit then [] else [TLS_ST_CR_ENCRYPTED_EXTENSIONS])"
| "clnt13_edge hit TLS_ST_CR_CERT = (if hit then [TLS_ST_CR_CERT_REQ] else [TLS_ST_CR_CERT_REQ, TLS_ST_CR_ENCRYPTED_EXTENSIONS])"
| "clnt13_edge hit TLS_ST_CR_COMP_CERT = (if hit then [TLS_ST_CR_CERT_REQ] else [TLS_ST_CR_CERT_REQ, TLS_ST_CR_ENCRYPTED_EXTENSIONS])"
| "clnt13_edge hit TLS_ST_CR_CERT_VRFY = [TLS_ST_CR_CERT, TLS_ST_CR_COMP_CERT]"
| "clnt13_edge hit TLS_ST_CR_FINISHED = TLS_ST_CR_CERT_VRFY # (if hit then [TLS_ST_CR_ENCRYPTED_EXTENSIONS] else [])"
| "clnt13_edge hit _ = []"

definition last_seen :: "OSSL_HANDSHAKE_STATE \<Rightarrow> OSSL_HANDSHAKE_STATE list \<Rightarrow> OSSL_HANDSHAKE_STATE" where
  "last_seen start h = (case h of [] \<Rightarrow> start | x # _ \<Rightarrow> x)"

lemma last_seen_simps [simp]: "last_seen a [] = a" "last_seen a (x # h) = x"
  by (simp_all add: last_seen_def)

fun clnt13_path :: "bool \<Rightarrow> OSSL_HANDSHAKE_STATE list \<Rightarrow> bool" where
  "clnt13_path hit [] \<longleftrightarrow> True"
| "clnt13_path hit (x # h) \<longleftrightarrow> clnt13_path hit h \<and> last_seen TLS_ST_CR_SRVR_HELLO h \<in> set (clnt13_edge hit x)"

lemma clnt13_read_edge:
  assumes "ossl_statem_client_read_transition E s mt = (True, s')" and "SSL_CONNECTION_IS_TLS13 s"
    and "hand s \<noteq> TLS_ST_OK" and "hand s \<noteq> TLS_ST_CW_CLNT_HELLO"
  shows "c_hit s' = c_hit s \<and> SSL_CONNECTION_IS_TLS13 s' \<and> hand s \<in> set (clnt13_edge (c_hit s) (hand s'))"
  using client_read_ok_13 [OF assms(1-3)] assms(4) by auto

lemma clnt13_path_states: "clnt13_path hit h \<Longrightarrow> last_seen TLS_ST_CR_SRVR_HELLO h \<notin> {TLS_ST_OK, TLS_ST_CW_CLNT_HELLO}"
  by (cases h) auto

lemma clnt13_path_nonempty: "clnt13_path hit (x # h) \<Longrightarrow> x \<noteq> TLS_ST_CR_SRVR_HELLO"
  by auto

lemma clnt13_run_path:
  "clnt13_run E s h \<Longrightarrow> SSL_CONNECTION_IS_TLS13 s \<and> hand s = last_seen TLS_ST_CR_SRVR_HELLO h \<and> clnt13_path (c_hit s) h"
proof (induction rule: clnt13_run.induct)
  case (clnt13_hello s)
  then show ?case by simp
next
  case (clnt13_read s h mt s')
  then have "hand s \<noteq> TLS_ST_OK" "hand s \<noteq> TLS_ST_CW_CLNT_HELLO" using clnt13_path_states [of "c_hit s" h] by auto
  then show ?case using clnt13_read_edge [of E s mt s'] clnt13_read by auto
next
  case (clnt13_process s h s')
  show ?case
  proof (cases h)
    case Nil
    then show ?thesis using clnt13_process by simp
  next
    case (Cons x h')
    then have "hand s \<noteq> TLS_ST_CR_SRVR_HELLO" using clnt13_process.IH clnt13_path_nonempty [of "c_hit s" x h'] by simp
    then show ?thesis using clnt13_process by simp
  qed
qed

lemma clnt13_path_inv:
  assumes "clnt13_path hit h" and "last_seen TLS_ST_CR_SRVR_HELLO h = x" and "x \<noteq> TLS_ST_CR_SRVR_HELLO"
  obtains h' where "h = x # h'" and "clnt13_path hit h'" and "last_seen TLS_ST_CR_SRVR_HELLO h' \<in> set (clnt13_edge hit x)"
  using assms by (cases h) auto

lemma clnt13_path_start: "clnt13_path hit h \<Longrightarrow> last_seen TLS_ST_CR_SRVR_HELLO h = TLS_ST_CR_SRVR_HELLO \<Longrightarrow> h = []"
  by (cases h) auto

lemma clnt13_path_ee:
  assumes "clnt13_path hit h" and "last_seen TLS_ST_CR_SRVR_HELLO h = TLS_ST_CR_ENCRYPTED_EXTENSIONS"
  shows "h = [TLS_ST_CR_ENCRYPTED_EXTENSIONS]"
proof -
  obtain h' where "h = TLS_ST_CR_ENCRYPTED_EXTENSIONS # h'" "clnt13_path hit h'"
    "last_seen TLS_ST_CR_SRVR_HELLO h' \<in> set (clnt13_edge hit TLS_ST_CR_ENCRYPTED_EXTENSIONS)"
    by (rule clnt13_path_inv [OF assms]) simp
  then show ?thesis using clnt13_path_start by simp
qed

lemma clnt13_path_req:
  assumes "clnt13_path hit h" and "last_seen TLS_ST_CR_SRVR_HELLO h = TLS_ST_CR_CERT_REQ"
  shows "\<not> hit \<and> h = [TLS_ST_CR_CERT_REQ, TLS_ST_CR_ENCRYPTED_EXTENSIONS]"
proof -
  obtain h' where "h = TLS_ST_CR_CERT_REQ # h'" "clnt13_path hit h'"
    "last_seen TLS_ST_CR_SRVR_HELLO h' \<in> set (clnt13_edge hit TLS_ST_CR_CERT_REQ)"
    by (rule clnt13_path_inv [OF assms]) simp
  then show ?thesis using clnt13_path_ee by (auto split: if_splits)
qed

lemma clnt13_path_cert:
  assumes "clnt13_path hit h" and "last_seen TLS_ST_CR_SRVR_HELLO h = cert" and "cert \<in> {TLS_ST_CR_CERT, TLS_ST_CR_COMP_CERT}"
  shows "\<not> hit \<and> (h = [cert, TLS_ST_CR_ENCRYPTED_EXTENSIONS] \<or> h = [cert, TLS_ST_CR_CERT_REQ, TLS_ST_CR_ENCRYPTED_EXTENSIONS])"
proof -
  obtain h' where h: "h = cert # h'" "clnt13_path hit h'" "last_seen TLS_ST_CR_SRVR_HELLO h' \<in> set (clnt13_edge hit cert)"
    by (rule clnt13_path_inv [OF assms(1,2)]) (use assms(3) in auto)
  then have "last_seen TLS_ST_CR_SRVR_HELLO h' = TLS_ST_CR_CERT_REQ
      \<or> \<not> hit \<and> last_seen TLS_ST_CR_SRVR_HELLO h' = TLS_ST_CR_ENCRYPTED_EXTENSIONS"
    using assms(3) by (auto split: if_splits)
  then show ?thesis using h clnt13_path_ee clnt13_path_req by blast
qed

lemma clnt13_path_finished:
  assumes "clnt13_path hit h" and "last_seen TLS_ST_CR_SRVR_HELLO h = TLS_ST_CR_FINISHED"
  obtains "hit" and "h = [TLS_ST_CR_FINISHED, TLS_ST_CR_ENCRYPTED_EXTENSIONS]"
  | cert where "\<not> hit" and "cert \<in> {TLS_ST_CR_CERT, TLS_ST_CR_COMP_CERT}"
      and "h = [TLS_ST_CR_FINISHED, TLS_ST_CR_CERT_VRFY, cert, TLS_ST_CR_ENCRYPTED_EXTENSIONS]
        \<or> h = [TLS_ST_CR_FINISHED, TLS_ST_CR_CERT_VRFY, cert, TLS_ST_CR_CERT_REQ, TLS_ST_CR_ENCRYPTED_EXTENSIONS]"
proof -
  obtain h' where h: "h = TLS_ST_CR_FINISHED # h'" and p: "clnt13_path hit h'"
    and l: "last_seen TLS_ST_CR_SRVR_HELLO h' \<in> set (clnt13_edge hit TLS_ST_CR_FINISHED)"
    by (rule clnt13_path_inv [OF assms]) simp
  then consider "hit" "last_seen TLS_ST_CR_SRVR_HELLO h' = TLS_ST_CR_ENCRYPTED_EXTENSIONS"
    | "last_seen TLS_ST_CR_SRVR_HELLO h' = TLS_ST_CR_CERT_VRFY" by (auto split: if_splits)
  then show thesis
  proof cases
    case 1
    then show thesis using clnt13_path_ee [OF p] h that(1) by simp
  next
    case 2
    obtain h'' where h'': "h' = TLS_ST_CR_CERT_VRFY # h''" "clnt13_path hit h''"
      "last_seen TLS_ST_CR_SRVR_HELLO h'' \<in> {TLS_ST_CR_CERT, TLS_ST_CR_COMP_CERT}"
      by (rule clnt13_path_inv [OF p 2]) auto
    show thesis
      using clnt13_path_cert [OF h''(2) refl h''(3)] h h''(1,3) that(2) [of "last_seen TLS_ST_CR_SRVR_HELLO h''"] by auto
  qed
qed

text \<open>
  C1: a TLS 1.3 client authenticates the server. When it has accepted the server's Finished message in a
  handshake that does not resume a session, the messages accepted before it were, in this order,
  EncryptedExtensions, optionally CertificateRequest, Certificate (plain or compressed) and
  CertificateVerify, and nothing else; in a resumption, EncryptedExtensions alone.\<close>

theorem client13_authenticates_server:
  assumes "clnt13_run E s h" and "hand s = TLS_ST_CR_FINISHED"
  shows "if c_hit s then h = [TLS_ST_CR_FINISHED, TLS_ST_CR_ENCRYPTED_EXTENSIONS]
    else \<exists>cert \<in> {TLS_ST_CR_CERT, TLS_ST_CR_COMP_CERT}.
      h = [TLS_ST_CR_FINISHED, TLS_ST_CR_CERT_VRFY, cert, TLS_ST_CR_ENCRYPTED_EXTENSIONS]
      \<or> h = [TLS_ST_CR_FINISHED, TLS_ST_CR_CERT_VRFY, cert, TLS_ST_CR_CERT_REQ, TLS_ST_CR_ENCRYPTED_EXTENSIONS]"
proof -
  have p: "hand s = last_seen TLS_ST_CR_SRVR_HELLO h" "clnt13_path (c_hit s) h" using clnt13_run_path [OF assms(1)] by simp_all
  have "last_seen TLS_ST_CR_SRVR_HELLO h = TLS_ST_CR_FINISHED" using p(1) assms(2) by simp
  from clnt13_path_finished [OF p(2) this] show ?thesis by cases auto
qed

lemma blank_tls13 [simp]: "SSL_CONNECTION_IS_TLS13 (blank_ssl w)"
  by (simp add: blank_ssl_def SSL_CONNECTION_IS_TLS13_def SSL_CONNECTION_IS_DTLS_def)

lemma clnt13_step_demo:
  assumes "clnt13_run E (set_hand h0 (blank_ssl w)) h" and "h0 \<noteq> TLS_ST_OK"
    and "ossl_statem_client13_read_transition E (set_hand h0 (blank_ssl w)) mt = (True, set_hand h1 (blank_ssl w))"
  shows "clnt13_run E (set_hand h1 (blank_ssl w)) (h1 # h)"
proof -
  have "ossl_statem_client_read_transition E (set_hand h0 (blank_ssl w)) mt = (True, set_hand h1 (blank_ssl w))"
    using assms(3) by (simp add: ossl_statem_client_read_transition_def finish_tran_def)
  from clnt13_read [OF assms(1) this] show ?thesis by simp
qed

lemma set_hand_twice [simp]: "set_hand a (set_hand b s) = set_hand a s"
  by (simp add: set_hand_def)

theorem client13_authenticates_server_witness:
  "\<exists>(s :: unit SSL) h. clnt13_run idle_env s h \<and> hand s = TLS_ST_CR_FINISHED \<and> \<not> c_hit s
    \<and> (\<exists>cert \<in> {TLS_ST_CR_CERT, TLS_ST_CR_COMP_CERT}.
      h = [TLS_ST_CR_FINISHED, TLS_ST_CR_CERT_VRFY, cert, TLS_ST_CR_ENCRYPTED_EXTENSIONS]
      \<or> h = [TLS_ST_CR_FINISHED, TLS_ST_CR_CERT_VRFY, cert, TLS_ST_CR_CERT_REQ, TLS_ST_CR_ENCRYPTED_EXTENSIONS])"
proof -
  let ?s = "\<lambda>h. set_hand h (blank_ssl ())"
  let ?h = "[TLS_ST_CR_FINISHED, TLS_ST_CR_CERT_VRFY, TLS_ST_CR_CERT, TLS_ST_CR_ENCRYPTED_EXTENSIONS]"
  have hit: "\<not> c_hit (blank_ssl ())" by (simp add: blank_ssl_def)
  have "clnt13_run idle_env (?s TLS_ST_CR_SRVR_HELLO) []"
    by (rule clnt13_hello) simp_all
  then have "clnt13_run idle_env (?s TLS_ST_CR_ENCRYPTED_EXTENSIONS) [TLS_ST_CR_ENCRYPTED_EXTENSIONS]"
    by (rule clnt13_step_demo [where mt = 8]) (simp_all add: ossl_statem_client13_read_transition_def)
  then have "clnt13_run idle_env (?s TLS_ST_CR_CERT) [TLS_ST_CR_CERT, TLS_ST_CR_ENCRYPTED_EXTENSIONS]"
    by (rule clnt13_step_demo [where mt = 11]) (simp_all add: ossl_statem_client13_read_transition_def hit)
  then have "clnt13_run idle_env (?s TLS_ST_CR_CERT_VRFY) [TLS_ST_CR_CERT_VRFY, TLS_ST_CR_CERT, TLS_ST_CR_ENCRYPTED_EXTENSIONS]"
    by (rule clnt13_step_demo [where mt = 15]) (simp_all add: ossl_statem_client13_read_transition_def)
  then have r: "clnt13_run idle_env (?s TLS_ST_CR_FINISHED) [TLS_ST_CR_FINISHED, TLS_ST_CR_CERT_VRFY, TLS_ST_CR_CERT, TLS_ST_CR_ENCRYPTED_EXTENSIONS]"
    by (rule clnt13_step_demo [where mt = 20]) (simp_all add: ossl_statem_client13_read_transition_def)
  have f: "hand (?s TLS_ST_CR_FINISHED) = TLS_ST_CR_FINISHED" "\<not> c_hit (?s TLS_ST_CR_FINISHED)" using hit by simp_all
  from client13_authenticates_server [OF r f(1)] f(2)
  have "\<exists>cert \<in> {TLS_ST_CR_CERT, TLS_ST_CR_COMP_CERT}. ?h = [TLS_ST_CR_FINISHED, TLS_ST_CR_CERT_VRFY, cert, TLS_ST_CR_ENCRYPTED_EXTENSIONS]
      \<or> ?h = [TLS_ST_CR_FINISHED, TLS_ST_CR_CERT_VRFY, cert, TLS_ST_CR_CERT_REQ, TLS_ST_CR_ENCRYPTED_EXTENSIONS]"
    by (simp only: if_False)
  with r f show ?thesis by blast
qed

section \<open>The server and the client's certificate\<close>

text \<open>
  The runs of a server that requested a certificate, from the point where it waits for the client's
  second flight, with the states entered by read transitions. Processing may change anything but the
  state and the parameters of the handshake; a certificate is recorded only while its message is
  processed.
\<close>

definition waits_for_flight :: "'w SSL \<Rightarrow> bool" where
  "waits_for_flight s \<longleftrightarrow>
     hand s = (if SSL_CONNECTION_IS_TLS13 s then TLS_ST_EARLY_DATA else TLS_ST_SW_SRVR_DONE)"

definition srv_params :: "'w SSL \<Rightarrow> bool" where
  "srv_params s \<longleftrightarrow> s3_cert_request (c_s3 s) \<and> c_version s \<noteq> SSL3_VERSION \<and> \<not> st_no_cert_verify (c_statem s)
     \<and> c_hello_retry_request s \<noteq> SSL_HRR_PENDING"

inductive srv_run :: "'w env \<Rightarrow> 'w SSL \<Rightarrow> OSSL_HANDSHAKE_STATE list \<Rightarrow> bool" for E where
  srv_start: "srv_params s \<Longrightarrow> waits_for_flight s \<Longrightarrow> srv_run E s []"
| srv_read: "srv_run E s h \<Longrightarrow> ossl_statem_server_read_transition E s mt = (True, s') \<Longrightarrow> srv_run E s' (hand s' # h)"
| srv_process: "srv_run E s h \<Longrightarrow> hand s' = hand s \<Longrightarrow> SSL_CONNECTION_IS_TLS13 s' = SSL_CONNECTION_IS_TLS13 s \<Longrightarrow> srv_params s' \<Longrightarrow>
    (hand s \<notin> {TLS_ST_SR_CERT, TLS_ST_SR_COMP_CERT} \<Longrightarrow> received_client_cert s' = received_client_cert s) \<Longrightarrow> srv_run E s' h"

lemma set_hand_params [simp]:
  "srv_params (set_hand h s) = srv_params s" "received_client_cert (set_hand h s) = received_client_cert s"
  by (simp_all add: srv_params_def received_client_cert_def set_hand_def)

text \<open>What has been seen when a state is reached.\<close>

definition srv_seen :: "'w SSL \<Rightarrow> OSSL_HANDSHAKE_STATE list \<Rightarrow> bool" where
  "srv_seen s h \<longleftrightarrow>
     waits_for_flight s \<or> hand s = TLS_ST_SR_END_OF_EARLY_DATA
     \<or> hand s \<in> {TLS_ST_SR_CERT, TLS_ST_SR_COMP_CERT} \<and> hand s \<in> set h
     \<or> {TLS_ST_SR_CERT, TLS_ST_SR_COMP_CERT} \<inter> set h \<noteq> {}
       \<and> (hand s = TLS_ST_SR_KEY_EXCH
          \<or> hand s = TLS_ST_SR_CERT_VRFY \<and> TLS_ST_SR_CERT_VRFY \<in> set h
          \<or> hand s \<in> {TLS_ST_SR_CHANGE, TLS_ST_SR_FINISHED} \<and> (received_client_cert s \<longrightarrow> TLS_ST_SR_CERT_VRFY \<in> set h))"

lemma server_read_seen_13:
  assumes p: "srv_params s" and seen: "srv_seen s h" and tls: "SSL_CONNECTION_IS_TLS13 s"
    and step: "ossl_statem_server_read_transition E s mt = (True, s')"
  shows "srv_params s' \<and> SSL_CONNECTION_IS_TLS13 s' \<and> srv_seen s' (hand s' # h)"
proof -
  have r: "ossl_statem_server13_read_transition s mt = (True, s')"
    using step tls by (auto simp: ossl_statem_server_read_transition_def finish_tran_ok split: prod.splits bool.splits)
  have q: "s3_cert_request (c_s3 s)" "c_hello_retry_request s \<noteq> SSL_HRR_PENDING" using p by (simp_all add: srv_params_def)
  have "hand s = TLS_ST_EARLY_DATA \<or> hand s = TLS_ST_SR_END_OF_EARLY_DATA \<or> hand s \<in> {TLS_ST_SR_CERT, TLS_ST_SR_COMP_CERT}
      \<or> hand s \<in> {TLS_ST_SR_KEY_EXCH, TLS_ST_SR_CERT_VRFY, TLS_ST_SR_CHANGE, TLS_ST_SR_FINISHED}"
    using seen tls by (auto simp: srv_seen_def waits_for_flight_def)
  then obtain x where x: "s' = set_hand x s" and e: "x = TLS_ST_SR_END_OF_EARLY_DATA \<or> x = TLS_ST_SR_CERT \<or> x = TLS_ST_SR_COMP_CERT
      \<or> hand s \<in> {TLS_ST_SR_CERT, TLS_ST_SR_COMP_CERT} \<and> x = (if received_client_cert s then TLS_ST_SR_CERT_VRFY else TLS_ST_SR_FINISHED)
      \<or> hand s = TLS_ST_SR_CERT_VRFY \<and> x = TLS_ST_SR_FINISHED"
    using r q unfolding ossl_statem_server13_read_transition_def sr_after_finished_def by (elim disjE) (auto split: if_splits)
  show ?thesis using e seen p tls unfolding x by (auto simp: srv_seen_def waits_for_flight_def split: if_splits)
qed

lemma server_read_seen_12:
  assumes p: "srv_params s" and seen: "srv_seen s h" and tls: "\<not> SSL_CONNECTION_IS_TLS13 s"
    and step: "ossl_statem_server_read_transition E s mt = (True, s')"
  shows "srv_params s' \<and> \<not> SSL_CONNECTION_IS_TLS13 s' \<and> srv_seen s' (hand s' # h)"
proof -
  have r: "server_read_switch s mt = Tran_Ok s'"
    using step tls by (auto simp: ossl_statem_server_read_transition_def finish_tran_ok)
  have q: "s3_cert_request (c_s3 s)" "c_version s \<noteq> 768" "\<not> st_no_cert_verify (c_statem s)" using p by (simp_all add: srv_params_def)
  have "hand s = TLS_ST_SW_SRVR_DONE \<or> hand s = TLS_ST_SR_END_OF_EARLY_DATA \<or> hand s \<in> {TLS_ST_SR_CERT, TLS_ST_SR_COMP_CERT}
      \<or> hand s \<in> {TLS_ST_SR_KEY_EXCH, TLS_ST_SR_CERT_VRFY, TLS_ST_SR_CHANGE, TLS_ST_SR_FINISHED}"
    using seen tls by (auto simp: srv_seen_def waits_for_flight_def)
  then obtain x where x: "s' = set_hand x s" and e: "hand s = TLS_ST_SW_SRVR_DONE \<and> x = TLS_ST_SR_CERT
      \<or> hand s = TLS_ST_SR_CERT \<and> x = TLS_ST_SR_KEY_EXCH
      \<or> hand s = TLS_ST_SR_KEY_EXCH \<and> x = (if received_client_cert s then TLS_ST_SR_CERT_VRFY else TLS_ST_SR_CHANGE)
      \<or> hand s = TLS_ST_SR_CERT_VRFY \<and> x = TLS_ST_SR_CHANGE \<or> hand s = TLS_ST_SR_CHANGE \<and> x = TLS_ST_SR_FINISHED"
    using r q unfolding server_read_switch_def sr_after_done_def by (elim disjE) (auto split: if_splits)
  show ?thesis using e seen p tls unfolding x by (auto simp: srv_seen_def waits_for_flight_def split: if_splits)
qed

lemma srv_run_seen: "srv_run E s h \<Longrightarrow> srv_params s \<and> srv_seen s h"
proof (induction rule: srv_run.induct)
  case (srv_start s)
  then show ?case by (simp add: srv_seen_def)
next
  case (srv_read s h mt s')
  then show ?case using server_read_seen_13 [of s h E mt s'] server_read_seen_12 [of s h E mt s'] by blast
next
  case (srv_process s h s')
  then show ?case by (auto simp: srv_seen_def waits_for_flight_def)
qed

text \<open>
  C4: a server that requested a certificate in this handshake (in a version other than SSL 3, with no retry pending and without the flag that says that the key exchange itself proved
  possession of the key) does not accept the client's Finished message before the client has
  sent its Certificate message, and if a client certificate is recorded then, not before its CertificateVerify,
  in TLS 1.3 as in TLS 1.0 to 1.2 and DTLS. Processing of messages is assumed to keep these parameters and to record a certificate only for a Certificate message.\<close>

theorem server_authenticates_client:
  assumes "srv_run E s h" and "hand s = TLS_ST_SR_FINISHED"
  shows "(TLS_ST_SR_CERT \<in> set h \<or> TLS_ST_SR_COMP_CERT \<in> set h) \<and> (received_client_cert s \<longrightarrow> TLS_ST_SR_CERT_VRFY \<in> set h)"
  using srv_run_seen [OF assms(1)] assms(2) by (auto simp: srv_seen_def waits_for_flight_def split: if_splits)

definition demo_srv :: "OSSL_HANDSHAKE_STATE \<Rightarrow> unit SSL" where
  "demo_srv h = set_hand h ((blank_ssl ())\<lparr>c_s3 := (c_s3 (blank_ssl ()))\<lparr>s3_cert_request := True\<rparr>,
     c_session := (c_session (blank_ssl ()))\<lparr>sess_peer := True\<rparr>\<rparr>)"

lemma demo_srv_step:
  assumes "srv_run E (demo_srv a) h" and "ossl_statem_server13_read_transition (demo_srv a) mt = (True, demo_srv b)"
  shows "srv_run E (demo_srv b) (b # h)"
proof -
  have "SSL_CONNECTION_IS_TLS13 (demo_srv a)"
    by (simp add: demo_srv_def set_hand_def blank_ssl_def SSL_CONNECTION_IS_TLS13_def SSL_CONNECTION_IS_DTLS_def)
  then have "ossl_statem_server_read_transition E (demo_srv a) mt = (True, demo_srv b)"
    using assms(2) by (simp add: ossl_statem_server_read_transition_def finish_tran_def)
  from srv_read [OF assms(1) this] show ?thesis by (simp add: demo_srv_def)
qed

theorem server_authenticates_client_witness:
  "srv_run idle_env (demo_srv TLS_ST_SR_FINISHED) [TLS_ST_SR_FINISHED, TLS_ST_SR_CERT_VRFY, TLS_ST_SR_CERT]
    \<and> received_client_cert (demo_srv TLS_ST_SR_FINISHED)
    \<and> TLS_ST_SR_CERT_VRFY \<in> set [TLS_ST_SR_FINISHED, TLS_ST_SR_CERT_VRFY, TLS_ST_SR_CERT]"
proof -
  have "srv_run idle_env (demo_srv TLS_ST_EARLY_DATA) []"
    by (rule srv_start)
      (simp_all add: srv_params_def waits_for_flight_def demo_srv_def set_hand_def blank_ssl_def SSL_CONNECTION_IS_TLS13_def SSL_CONNECTION_IS_DTLS_def)
  then have "srv_run idle_env (demo_srv TLS_ST_SR_CERT) [TLS_ST_SR_CERT]"
    by (rule demo_srv_step [where mt = 11])
      (simp add: ossl_statem_server13_read_transition_def sr_after_finished_def demo_srv_def set_hand_def blank_ssl_def)
  then have "srv_run idle_env (demo_srv TLS_ST_SR_CERT_VRFY) [TLS_ST_SR_CERT_VRFY, TLS_ST_SR_CERT]"
    by (rule demo_srv_step [where mt = 15])
      (simp add: ossl_statem_server13_read_transition_def received_client_cert_def demo_srv_def set_hand_def blank_ssl_def)
  then have r: "srv_run idle_env (demo_srv TLS_ST_SR_FINISHED) [TLS_ST_SR_FINISHED, TLS_ST_SR_CERT_VRFY, TLS_ST_SR_CERT]"
    by (rule demo_srv_step [where mt = 20])
      (simp add: ossl_statem_server13_read_transition_def demo_srv_def set_hand_def blank_ssl_def)
  have h: "hand (demo_srv TLS_ST_SR_FINISHED) = TLS_ST_SR_FINISHED" "received_client_cert (demo_srv TLS_ST_SR_FINISHED)"
    by (simp_all add: demo_srv_def received_client_cert_def set_hand_def)
  from server_authenticates_client [OF r h(1)] r h(2) show ?thesis by blast
qed

end
