(* ===== verification/Statem_Peer.thy ===== *)
theory Statem_Peer
  imports Statem_Order
begin

text \<open>
  The two sides of the state machine against each other: what one side sends next is a message that the
  other side, having received what came before, accepts. The interface is a sender, a receiver and a
  relation between their states; a conversation is any interleaving of messages, each processed by the
  receiver, with other work on both sides that keeps the negotiated parameters in agreement. What
  processing a message does to the receiver is a parameter, a function of the sender's state too,
  since that determines the content.
\<close>

section \<open>Conversations\<close>

definition server_send :: "'w env \<Rightarrow> 'w SSL \<Rightarrow> (int \<times> 'w SSL) option" where
  "server_send E s =
     (case ossl_statem_server_write_transition E s of
        (WRITE_TRAN_CONTINUE, s) \<Rightarrow>
          (case ossl_statem_server_construct_message s of (Some (_, mt), s') \<Rightarrow> Some (mt, s') | (None, _) \<Rightarrow> None)
      | _ \<Rightarrow> None)"

definition client_send :: "'w env \<Rightarrow> 'w SSL \<Rightarrow> (int \<times> 'w SSL) option" where
  "client_send E s =
     (case ossl_statem_client_write_transition E s of
        (WRITE_TRAN_CONTINUE, s) \<Rightarrow>
          (case ossl_statem_client_construct_message s of (Some (_, mt), s') \<Rightarrow> Some (mt, s') | (None, _) \<Rightarrow> None)
      | _ \<Rightarrow> None)"

text \<open>
  A message of type \<open>SSL3_MT_DUMMY\<close> is never sent, and in TLS 1.3 a ChangeCipherSpec never reaches the state
  machine of the receiver.
\<close>

definition silent13 :: "int \<Rightarrow> bool" where
  "silent13 mt \<longleftrightarrow> mt = SSL3_MT_DUMMY \<or> mt = SSL3_MT_CHANGE_CIPHER_SPEC"

definition silent12 :: "int \<Rightarrow> bool" where
  "silent12 mt \<longleftrightarrow> mt = SSL3_MT_DUMMY"

inductive conversation ::
  "('s \<Rightarrow> (int \<times> 's) option) \<Rightarrow> ('r \<Rightarrow> int \<Rightarrow> bool \<times> 'r) \<Rightarrow> (int \<Rightarrow> bool) \<Rightarrow> ('s \<Rightarrow> 'r \<Rightarrow> bool) \<Rightarrow> ('s \<Rightarrow> 'r \<Rightarrow> 's \<Rightarrow> 'r \<Rightarrow> bool)
    \<Rightarrow> ('s \<Rightarrow> 'r \<Rightarrow> 'r) \<Rightarrow> 's \<Rightarrow> 'r \<Rightarrow> bool"
  for send recv silent start internal process where
  conv_start: "start s r \<Longrightarrow> conversation send recv silent start internal process s r"
| conv_loud: "conversation send recv silent start internal process s r \<Longrightarrow> send s = Some (mt, s') \<Longrightarrow> \<not> silent mt \<Longrightarrow>
    recv r mt = (True, r') \<Longrightarrow> conversation send recv silent start internal process s' (process s' r')"
| conv_quiet: "conversation send recv silent start internal process s r \<Longrightarrow> send s = Some (mt, s') \<Longrightarrow> silent mt \<Longrightarrow>
    conversation send recv silent start internal process s' r"
| conv_internal: "conversation send recv silent start internal process s r \<Longrightarrow> internal s r s' r' \<Longrightarrow>
    conversation send recv silent start internal process s' r'"

locale flight =
  fixes send :: "'s \<Rightarrow> (int \<times> 's) option" and recv :: "'r \<Rightarrow> int \<Rightarrow> bool \<times> 'r" and silent :: "int \<Rightarrow> bool"
    and sim :: "'s \<Rightarrow> 'r \<Rightarrow> bool" and start :: "'s \<Rightarrow> 'r \<Rightarrow> bool" and internal :: "'s \<Rightarrow> 'r \<Rightarrow> 's \<Rightarrow> 'r \<Rightarrow> bool"
    and process :: "'s \<Rightarrow> 'r \<Rightarrow> 'r"
  assumes start_sim: "start s r \<Longrightarrow> sim s r"
    and loud: "sim s r \<Longrightarrow> send s = Some (mt, s') \<Longrightarrow> \<not> silent mt \<Longrightarrow> fst (recv r mt) \<and> sim s' (process s' (snd (recv r mt)))"
    and quiet: "sim s r \<Longrightarrow> send s = Some (mt, s') \<Longrightarrow> silent mt \<Longrightarrow> sim s' r"
    and internal_sim: "sim s r \<Longrightarrow> internal s r s' r' \<Longrightarrow> sim s' r'"
begin

lemma conversation_sim: "conversation send recv silent start internal process s r \<Longrightarrow> sim s r"
proof (induction rule: conversation.induct)
  case (conv_start s r)
  then show ?case by (rule start_sim)
next
  case (conv_loud s r mt s' r')
  then show ?case using loud [of s r mt s'] by simp
next
  case (conv_quiet s r mt s')
  then show ?case using quiet by blast
next
  case (conv_internal s r s' r')
  then show ?case using internal_sim by blast
qed

lemma next_accepted:
  "conversation send recv silent start internal process s r \<Longrightarrow> send s = Some (mt, s') \<Longrightarrow> \<not> silent mt \<Longrightarrow> fst (recv r mt)"
  using conversation_sim loud by blast

end

section \<open>Shared lemmas\<close>

lemma and_or_zero: "(x :: uint) AND (a OR b) = 0 \<longleftrightarrow> x AND a = 0 \<and> x AND b = 0"
  by (simp add: bit.conj_disj_distrib or_eq_0_iff)

lemma mkey_masks:
  "(x :: uint) AND 0x186 = 0 \<longleftrightarrow> x AND 6 = 0 \<and> x AND 0x180 = 0" "x AND 0x1C8 = 0 \<longleftrightarrow> x AND 0x48 = 0 \<and> x AND 0x180 = 0"
  "x AND 0x14 = 0 \<longleftrightarrow> x AND 4 = 0 \<and> x AND 0x10 = 0"
  using and_or_zero [of x 6 "0x180"] and_or_zero [of x "0x48" "0x180"] and_or_zero [of x 4 "0x10"] by simp_all

lemma ske_agree:
  assumes "s3_new_cipher (c_s3 s) = s3_new_cipher (c_s3 r)"
  shows "key_exchange_expected r \<Longrightarrow> send_server_key_exchange s"
    and "send_server_key_exchange s \<Longrightarrow> key_exchange_expected r \<or> algorithm_mkey (s3_new_cipher (c_s3 r)) AND SSL_PSK \<noteq> 0"
  using assms by (auto simp: key_exchange_expected_def send_server_key_exchange_def Let_def mkey_masks)

text \<open>
  The client sends a ClientHello, after a ChangeCipherSpec for compatibility or not, and the server accepts it.
  This is how a connection, a retry after a HelloRetryRequest or a HelloVerifyRequest, and a renegotiation begin.
\<close>

definition client_hello_sent :: "'v env \<Rightarrow> 'v SSL \<Rightarrow> 'v SSL \<Rightarrow> bool" where
  "client_hello_sent E r r' \<longleftrightarrow>
     client_send E r = Some (SSL3_MT_CLIENT_HELLO, r')
     \<or> (\<exists>r1. client_send E r = Some (SSL3_MT_CHANGE_CIPHER_SPEC, r1) \<and> client_send E r1 = Some (SSL3_MT_CLIENT_HELLO, r'))"

definition hello_exchanged :: "'w env \<Rightarrow> 'v env \<Rightarrow> 'w SSL \<Rightarrow> 'v SSL \<Rightarrow> 'w SSL \<Rightarrow> 'v SSL \<Rightarrow> bool" where
  "hello_exchanged E E' s r s' r' \<longleftrightarrow>
     (\<exists>s1 r1. client_hello_sent E' r r1 \<and> ossl_statem_server_read_transition E s SSL3_MT_CLIENT_HELLO = (True, s1)
        \<and> hand s' = hand s1 \<and> hand r' = hand r1)"

lemma client_hello_state: "client_send E r = Some (SSL3_MT_CLIENT_HELLO, r') \<Longrightarrow> hand r' = TLS_ST_CW_CLNT_HELLO"
  by (auto simp: client_send_def ossl_statem_client_construct_message_def
      split: WRITE_TRAN.splits prod.splits option.splits OSSL_HANDSHAKE_STATE.splits if_splits)

lemma hello_read_state:
  assumes "ossl_statem_server_read_transition E s SSL3_MT_CLIENT_HELLO = (True, s')"
  shows "hand s' = TLS_ST_SR_CLNT_HELLO"
proof (cases "SSL_CONNECTION_IS_TLS13 s")
  case True
  then have "ossl_statem_server13_read_transition s SSL3_MT_CLIENT_HELLO = (True, s')"
    using assms by (auto simp: ossl_statem_server_read_transition_def finish_tran_def read_transition_err_def split: prod.splits bool.splits if_splits)
  then show ?thesis by (auto simp: ossl_statem_server13_read_transition_def sr_after_finished_def split: if_splits)
next
  case False
  then have "server_read_switch s SSL3_MT_CLIENT_HELLO = Tran_Ok s'"
    using assms by (auto simp: ossl_statem_server_read_transition_def finish_tran_def read_transition_err_def split: tran.splits if_splits)
  then show ?thesis by (auto simp: server_read_switch_def sr_after_done_def split: if_splits)
qed

lemma hello_exchanged_states:
  assumes "hello_exchanged E E' s r s' r'"
  shows "hand s' = TLS_ST_SR_CLNT_HELLO" and "hand r' = TLS_ST_CW_CLNT_HELLO"
  using assms by (auto simp: hello_exchanged_def client_hello_sent_def dest: hello_read_state client_hello_state)

section \<open>The server's flight in TLS 1.3\<close>

definition server13_match :: "(OSSL_HANDSHAKE_STATE \<times> OSSL_HANDSHAKE_STATE) list" where
  "server13_match =
     [(TLS_ST_SW_SRVR_HELLO, TLS_ST_CR_SRVR_HELLO),
      (TLS_ST_SW_CHANGE, TLS_ST_CR_SRVR_HELLO), (TLS_ST_SW_ENCRYPTED_EXTENSIONS, TLS_ST_CR_ENCRYPTED_EXTENSIONS),
      (TLS_ST_SW_CERT_REQ, TLS_ST_CR_CERT_REQ), (TLS_ST_SW_CERT, TLS_ST_CR_CERT), (TLS_ST_SW_COMP_CERT, TLS_ST_CR_COMP_CERT),
      (TLS_ST_SW_CERT_VRFY, TLS_ST_CR_CERT_VRFY), (TLS_ST_SW_FINISHED, TLS_ST_CR_FINISHED), (TLS_ST_EARLY_DATA, TLS_ST_CR_FINISHED)]"

text \<open>
  What the ClientHello fixes: the server has selected TLS 1.3 and compresses its certificate only for a
  client that offered it; no post-handshake request is pending. What the ServerHello fixes on the
  client's side, unless it is a HelloRetryRequest: the version and whether the session is resumed. Before
  that the client has its version-flexible method, for which it is not yet a TLS 1.3 client.
\<close>

definition server13_offer :: "'w SSL \<Rightarrow> 'v SSL \<Rightarrow> bool" where
  "server13_offer s r \<longleftrightarrow>
     SSL_CONNECTION_IS_TLS13 s \<and> \<not> SSL_CONNECTION_IS_DTLS r \<and> c_post_handshake_auth s \<noteq> SSL_PHA_REQUEST_PENDING
     \<and> (server_do_compressed_cert s \<longrightarrow> ext_compress_certificate_sent (c_ext r))"

definition server13_settled :: "'w SSL \<Rightarrow> 'v SSL \<Rightarrow> bool" where
  "server13_settled s r \<longleftrightarrow> SSL_CONNECTION_IS_TLS13 r \<and> c_hit r = c_hit s"

text \<open>The client has sent its ClientHello, and possibly early data after it, and waits for the answer.\<close>

definition awaits_hello :: "'w SSL \<Rightarrow> 'v SSL \<Rightarrow> bool" where
  "awaits_hello s r \<longleftrightarrow> hand s = TLS_ST_SR_CLNT_HELLO
     \<and> (hand r = TLS_ST_CW_CLNT_HELLO \<or> hand r = TLS_ST_EARLY_DATA \<and> \<not> SSL_CONNECTION_IS_TLS13 r)"

definition retry_requested :: "'w SSL \<Rightarrow> 'v SSL \<Rightarrow> bool" where
  "retry_requested s r \<longleftrightarrow> c_hello_retry_request s = SSL_HRR_PENDING
     \<and> hand s \<in> {TLS_ST_SW_SRVR_HELLO, TLS_ST_SW_CHANGE, TLS_ST_EARLY_DATA} \<and> hand r = TLS_ST_CR_SRVR_HELLO"

definition in_flight13 :: "'w SSL \<Rightarrow> 'v SSL \<Rightarrow> bool" where
  "in_flight13 s r \<longleftrightarrow> c_hello_retry_request s \<noteq> SSL_HRR_PENDING \<and> (hand s, hand r) \<in> set server13_match \<and> server13_settled s r"

definition server13_sim :: "'w SSL \<Rightarrow> 'v SSL \<Rightarrow> bool" where
  "server13_sim s r \<longleftrightarrow> server13_offer s r \<and> (awaits_hello s r \<or> retry_requested s r \<or> in_flight13 s r)"

definition server13_start :: "'w SSL \<Rightarrow> 'v SSL \<Rightarrow> bool" where
  "server13_start s r \<longleftrightarrow> server13_offer s r \<and> awaits_hello s r"

text \<open>
  Between two messages of the server either side may do work that keeps its place in the handshake and
  what has been negotiated, or the client answers a retry request with another ClientHello.
\<close>

definition server13_internal :: "'w env \<Rightarrow> 'v env \<Rightarrow> 'w SSL \<Rightarrow> 'v SSL \<Rightarrow> 'w SSL \<Rightarrow> 'v SSL \<Rightarrow> bool" where
  "server13_internal E E' s r s' r' \<longleftrightarrow> server13_offer s' r'
     \<and> (hand s' = hand s \<and> hand r' = hand r \<and> c_hello_retry_request s' = c_hello_retry_request s
          \<and> SSL_CONNECTION_IS_TLS13 r' = SSL_CONNECTION_IS_TLS13 r \<and> (server13_settled s r \<longrightarrow> server13_settled s' r')
        \<or> hello_exchanged E E' s r s' r')"

lemma set_hand_agree [simp]:
  "server_do_compressed_cert (set_hand h s) = server_do_compressed_cert s"
  "send_certificate_request (set_hand h s) = send_certificate_request s"
  "c_hello_retry_request (set_hand h s) = c_hello_retry_request s"
  "c_post_handshake_auth (set_hand h s) = c_post_handshake_auth s"
  "c_early_data_state (set_hand h s) = c_early_data_state s" "c_options (set_hand h s) = c_options s"
  "c_verify_mode (set_hand h s) = c_verify_mode s" "SSL_CONNECTION_IS_QUIC (set_hand h s) = SSL_CONNECTION_IS_QUIC s"
  "st_no_cert_verify (c_statem (set_hand h s)) = st_no_cert_verify (c_statem s)"
  "client_do_compressed_cert (set_hand h s) = client_do_compressed_cert s"
  "c_renegotiate (set_hand h s) = c_renegotiate s"
  by (simp_all add: set_hand_def server_do_compressed_cert_def get_compressed_certificate_alg_def send_certificate_request_def
      SSL_CONNECTION_IS_TLS13_def SSL_CONNECTION_IS_DTLS_def SSL_CONNECTION_IS_QUIC_def client_do_compressed_cert_def cong: option.case_cong)

lemma server13_set_hand [simp]:
  "server13_offer (set_hand h s) r = server13_offer s r" "server13_offer s (set_hand h r) = server13_offer s r"
  "server13_settled (set_hand h s) r = server13_settled s r" "server13_settled s (set_hand h r) = server13_settled s r"
  by (simp_all add: server13_offer_def server13_settled_def)

lemma server13_write:
  assumes "SSL_CONNECTION_IS_TLS13 s" and "server_send E s = Some (mt, s')"
  obtains s1 f where "ossl_statem_server13_write_transition s = (WRITE_TRAN_CONTINUE, s1)"
    "ossl_statem_server_construct_message s1 = (Some (f, mt), s')"
  using assms by (auto simp: server_send_def ossl_statem_server_write_transition_def split: WRITE_TRAN.splits prod.splits option.splits)

text \<open>The next message of the server: the ServerHello, what follows a retry request, and the rest of the flight, by state.\<close>

lemma server13_send_hello:
  assumes "SSL_CONNECTION_IS_TLS13 s" and "awaits_hello s r" and "server_send E s = Some (mt, s')"
  shows "mt = SSL3_MT_SERVER_HELLO \<and> s' = set_hand TLS_ST_SW_SRVR_HELLO s
    \<and> ossl_statem_client_read_transition E' r mt = (True, set_hand TLS_ST_CR_SRVR_HELLO r)"
  using assms(1,3)
proof (rule server13_write)
  fix s1 f assume w: "ossl_statem_server13_write_transition s = (WRITE_TRAN_CONTINUE, s1)"
    and c: "ossl_statem_server_construct_message s1 = (Some (f, mt), s')"
  have "s1 = set_hand TLS_ST_SW_SRVR_HELLO s" using w assms(2) by (simp add: ossl_statem_server13_write_transition_def awaits_hello_def)
  then show ?thesis
    using c assms(2) by (auto simp: ossl_statem_server_construct_message_def awaits_hello_def ossl_statem_client_read_transition_def
        ossl_statem_client13_read_transition_def client_read_switch_def finish_tran_def)
qed

lemma server13_send_retry:
  assumes "SSL_CONNECTION_IS_TLS13 s" and "retry_requested s r" and "server_send E s = Some (mt, s')"
  shows "silent13 mt \<and> retry_requested s' r \<and> (\<exists>h. s' = set_hand h s)"
  using assms(1,3)
proof (rule server13_write)
  fix s1 f assume w: "ossl_statem_server13_write_transition s = (WRITE_TRAN_CONTINUE, s1)"
    and c: "ossl_statem_server_construct_message s1 = (Some (f, mt), s')"
  have "s1 = set_hand TLS_ST_SW_CHANGE s \<or> s1 = set_hand TLS_ST_EARLY_DATA s"
    using w assms(2) by (auto simp: ossl_statem_server13_write_transition_def retry_requested_def split: if_splits)
  then show ?thesis
    using c assms(2) by (auto simp: ossl_statem_server_construct_message_def silent13_def retry_requested_def)
qed

lemma server13_send_cases:
  assumes ag: "server13_offer s r" and fl: "in_flight13 s r" and snd: "server_send E s = Some (mt, s')"
  shows "\<exists>h. s' = set_hand h s \<and>
    (silent13 mt \<and> (h, hand r) \<in> set server13_match
     \<or> \<not> silent13 mt \<and> (\<exists>h'. ossl_statem_client13_read_transition E' r mt = (True, set_hand h' r) \<and> (h, h') \<in> set server13_match
          \<and> h' \<noteq> TLS_ST_CR_SRVR_HELLO))"
proof -
  have p: "c_post_handshake_auth s \<noteq> SSL_PHA_REQUEST_PENDING" "c_hello_retry_request s \<noteq> SSL_HRR_PENDING" "c_hit r = c_hit s"
    "server_do_compressed_cert s \<longrightarrow> ext_compress_certificate_sent (c_ext r)" and tls: "SSL_CONNECTION_IS_TLS13 s"
    and m: "(hand s, hand r) \<in> set server13_match"
    using ag fl by (simp_all add: server13_offer_def in_flight13_def server13_settled_def)
  obtain s1 f where w: "ossl_statem_server13_write_transition s = (WRITE_TRAN_CONTINUE, s1)"
    and c: "ossl_statem_server_construct_message s1 = (Some (f, mt), s')" by (rule server13_write [OF tls snd])
  note defs = ossl_statem_server_construct_message_def silent13_def server13_match_def ossl_statem_client13_read_transition_def
  note wt = ossl_statem_server13_write_transition_def
  have hands: "hand s = TLS_ST_SW_SRVR_HELLO \<and> hand r = TLS_ST_CR_SRVR_HELLO
     \<or> hand s = TLS_ST_SW_CHANGE \<and> hand r = TLS_ST_CR_SRVR_HELLO \<or> hand s = TLS_ST_SW_ENCRYPTED_EXTENSIONS \<and> hand r = TLS_ST_CR_ENCRYPTED_EXTENSIONS
     \<or> hand s = TLS_ST_SW_CERT_REQ \<and> hand r = TLS_ST_CR_CERT_REQ \<or> hand s = TLS_ST_SW_CERT \<and> hand r = TLS_ST_CR_CERT
     \<or> hand s = TLS_ST_SW_COMP_CERT \<and> hand r = TLS_ST_CR_COMP_CERT \<or> hand s = TLS_ST_SW_CERT_VRFY \<and> hand r = TLS_ST_CR_CERT_VRFY
     \<or> hand s = TLS_ST_SW_FINISHED \<and> hand r = TLS_ST_CR_FINISHED \<or> hand s = TLS_ST_EARLY_DATA \<and> hand r = TLS_ST_CR_FINISHED"
    using m by (simp add: server13_match_def)
  show ?thesis
    using hands
  proof (elim disjE conjE)
    assume h: "hand s = TLS_ST_SW_ENCRYPTED_EXTENSIONS" "hand r = TLS_ST_CR_ENCRYPTED_EXTENSIONS"
    consider "c_hit s" "s1 = set_hand TLS_ST_SW_FINISHED s" | "\<not> c_hit s" "s1 = set_hand TLS_ST_SW_CERT_REQ s"
      | "\<not> c_hit s" "s1 = set_hand TLS_ST_SW_CERT s" | "\<not> c_hit s" "s1 = set_hand TLS_ST_SW_COMP_CERT s" "server_do_compressed_cert s"
      using w h by (auto simp: wt split: if_splits)
    then show ?thesis using c p h by cases (auto simp: defs)
  next
    assume h: "hand s = TLS_ST_SW_CERT_REQ" "hand r = TLS_ST_CR_CERT_REQ"
    consider "s1 = set_hand TLS_ST_SW_CERT s" | "s1 = set_hand TLS_ST_SW_COMP_CERT s" "server_do_compressed_cert s"
      using w h p by (auto simp: wt split: if_splits)
    then show ?thesis using c p h by cases (auto simp: defs)
  next
    assume h: "hand s = TLS_ST_SW_SRVR_HELLO" "hand r = TLS_ST_CR_SRVR_HELLO"
    consider "s1 = set_hand TLS_ST_SW_CHANGE s" | "s1 = set_hand TLS_ST_SW_ENCRYPTED_EXTENSIONS s"
      using w h p by (auto simp: wt split: if_splits)
    then show ?thesis using c h by cases (auto simp: defs)
  next
    assume h: "hand s = TLS_ST_EARLY_DATA"
    then show ?thesis using w by (simp add: wt)
  qed (use w c p in \<open>auto simp: wt defs\<close>)
qed

text \<open>
  What is assumed of the processing of a message by the client: it keeps the place in the handshake, and
  after a ServerHello that is no retry request the client has the version and the resumption of the server,
  which no later message changes.
\<close>

definition server13_process_ok :: "('w SSL \<Rightarrow> 'v SSL \<Rightarrow> 'v SSL) \<Rightarrow> bool" where
  "server13_process_ok process \<longleftrightarrow>
     (\<forall>s r. server13_offer s r \<longrightarrow> hand (process s r) = hand r \<and> server13_offer s (process s r)
       \<and> (c_hello_retry_request s \<noteq> SSL_HRR_PENDING \<and> (hand r = TLS_ST_CR_SRVR_HELLO \<or> server13_settled s r)
            \<longrightarrow> server13_settled s (process s r)))"

lemma server13_flight:
  fixes E :: "'w env" and E' :: "'v env" and process :: "'w SSL \<Rightarrow> 'v SSL \<Rightarrow> 'v SSL"
  assumes ok: "server13_process_ok process"
  shows "flight (server_send E) (ossl_statem_client_read_transition E') silent13 server13_sim server13_start (server13_internal E E') process"
proof
  fix s :: "'w SSL" and r :: "'v SSL" assume "server13_start s r"
  then show "server13_sim s r" by (simp add: server13_start_def server13_sim_def)
next
  fix s s' :: "'w SSL" and r :: "'v SSL" and mt assume sim: "server13_sim s r" and snd: "server_send E s = Some (mt, s')" and n: "\<not> silent13 mt"
  have ag: "server13_offer s r" and tls: "SSL_CONNECTION_IS_TLS13 s" using sim by (simp_all add: server13_sim_def server13_offer_def)
  note ok = ok [unfolded server13_process_ok_def, rule_format]
  consider "awaits_hello s r" | "in_flight13 s r" using sim server13_send_retry [OF tls _ snd] n by (auto simp: server13_sim_def)
  then show "fst (ossl_statem_client_read_transition E' r mt) \<and> server13_sim s' (process s' (snd (ossl_statem_client_read_transition E' r mt)))"
  proof cases
    case 1
    from server13_send_hello [OF tls 1 snd, of E'] ok [of s' "set_hand TLS_ST_CR_SRVR_HELLO r"] ag show ?thesis
      by (auto simp: server13_sim_def retry_requested_def in_flight13_def server13_match_def)
  next
    case 2
    obtain h h' where s': "s' = set_hand h s" and t: "ossl_statem_client13_read_transition E' r mt = (True, set_hand h' r)"
      and m': "(h, h') \<in> set server13_match"
      using server13_send_cases [OF ag 2 snd, of E'] n by blast
    have "ossl_statem_client_read_transition E' r mt = (True, set_hand h' r)"
      using t 2 by (simp add: ossl_statem_client_read_transition_def finish_tran_def in_flight13_def server13_settled_def)
    then show ?thesis using ok [of "set_hand h s" "set_hand h' r"] ag m' s' 2 by (simp add: server13_sim_def in_flight13_def)
  qed
next
  fix s s' :: "'w SSL" and r :: "'v SSL" and mt assume sim: "server13_sim s r" and snd: "server_send E s = Some (mt, s')" and n: "silent13 mt"
  have ag: "server13_offer s r" and tls: "SSL_CONNECTION_IS_TLS13 s" using sim by (simp_all add: server13_sim_def server13_offer_def)
  consider "awaits_hello s r" | "retry_requested s r" | "in_flight13 s r" using sim by (auto simp: server13_sim_def)
  then show "server13_sim s' r"
  proof cases
    case 1
    then show ?thesis using server13_send_hello [OF tls 1 snd] n by (simp add: silent13_def)
  next
    case 2
    then show ?thesis using server13_send_retry [OF tls 2 snd] ag by (auto simp: server13_sim_def)
  next
    case 3
    then show ?thesis using server13_send_cases [OF ag 3 snd, of E'] n ag by (auto simp: server13_sim_def in_flight13_def)
  qed
next
  fix s s' :: "'w SSL" and r r' :: "'v SSL" assume "server13_sim s r" "server13_internal E E' s r s' r'"
  then show "server13_sim s' r'"
    using hello_exchanged_states [of E E' s r s' r']
    by (auto simp: server13_sim_def server13_internal_def awaits_hello_def retry_requested_def in_flight13_def)
qed

section \<open>The client's flight in TLS 1.3\<close>

definition client13_match :: "(OSSL_HANDSHAKE_STATE \<times> OSSL_HANDSHAKE_STATE) list" where
  "client13_match =
     [(TLS_ST_CR_FINISHED, TLS_ST_EARLY_DATA), (TLS_ST_PENDING_EARLY_DATA_END, TLS_ST_EARLY_DATA), (TLS_ST_CW_CHANGE, TLS_ST_EARLY_DATA),
      (TLS_ST_CW_END_OF_EARLY_DATA, TLS_ST_EARLY_DATA), (TLS_ST_CW_END_OF_EARLY_DATA, TLS_ST_SR_END_OF_EARLY_DATA),
      (TLS_ST_CW_CERT, TLS_ST_SR_CERT), (TLS_ST_CW_COMP_CERT, TLS_ST_SR_COMP_CERT), (TLS_ST_CW_CERT_VRFY, TLS_ST_SR_CERT_VRFY),
      (TLS_ST_CW_FINISHED, TLS_ST_SR_FINISHED)]"

text \<open>The server waits for EndOfEarlyData, and the client is going to send it.\<close>

definition eoed_awaited :: "'w SSL \<Rightarrow> bool" where
  "eoed_awaited r \<longleftrightarrow> ext_early_data (c_ext r) = SSL_EARLY_DATA_ACCEPTED \<and> \<not> SSL_CONNECTION_IS_QUIC r"

definition eoed_due :: "'w SSL \<Rightarrow> bool" where
  "eoed_due s \<longleftrightarrow> ext_early_data (c_ext s) = SSL_EARLY_DATA_ACCEPTED \<and> \<not> SSL_CONNECTION_IS_QUIC s"

text \<open>A client whose early data was accepted has not yet written the end of it when it reads the Finished message.\<close>

definition early_data_written :: "'w SSL \<Rightarrow> bool" where
  "early_data_written s \<longleftrightarrow>
     (hand s = TLS_ST_CR_FINISHED \<and> eoed_due s \<longrightarrow>
        c_early_data_state s \<in> {SSL_EARLY_DATA_WRITE_RETRY, SSL_EARLY_DATA_FINISHED_WRITING})"

definition client13_agree :: "'w SSL \<Rightarrow> 'v SSL \<Rightarrow> bool" where
  "client13_agree s r \<longleftrightarrow>
     SSL_CONNECTION_IS_TLS13 s \<and> SSL_CONNECTION_IS_TLS13 r \<and> s3_cert_request (c_s3 r) = (s3_cert_req (c_s3 s) \<noteq> 0)
     \<and> (client_do_compressed_cert s \<longrightarrow> ext_compress_certificate_sent (c_ext r))
     \<and> c_hello_retry_request r \<noteq> SSL_HRR_PENDING \<and> eoed_awaited r = eoed_due s"

text \<open>After the Certificate message was processed, the session has a peer certificate exactly when the client sent one.\<close>

definition client13_sim :: "'w SSL \<Rightarrow> 'v SSL \<Rightarrow> bool" where
  "client13_sim s r \<longleftrightarrow> client13_agree s r \<and> (hand s, hand r) \<in> set client13_match \<and> early_data_written s
     \<and> (hand s \<in> {TLS_ST_CW_CHANGE, TLS_ST_CW_END_OF_EARLY_DATA} \<and> hand r = TLS_ST_EARLY_DATA \<longrightarrow> \<not> eoed_awaited r)
     \<and> (hand r \<in> {TLS_ST_SR_CERT, TLS_ST_SR_COMP_CERT} \<longrightarrow> received_client_cert r = (s3_cert_req (c_s3 s) = 1))"

definition client13_start :: "'w SSL \<Rightarrow> 'v SSL \<Rightarrow> bool" where
  "client13_start s r \<longleftrightarrow> client13_agree s r \<and> early_data_written s \<and> hand s = TLS_ST_CR_FINISHED \<and> hand r = TLS_ST_EARLY_DATA"

definition client13_internal :: "'w SSL \<Rightarrow> 'v SSL \<Rightarrow> 'w SSL \<Rightarrow> 'v SSL \<Rightarrow> bool" where
  "client13_internal s r s' r' \<longleftrightarrow> hand s' = hand s \<and> hand r' = hand r \<and> client13_agree s' r' \<and> early_data_written s' \<and> eoed_awaited r' = eoed_awaited r
     \<and> received_client_cert r' = received_client_cert r \<and> s3_cert_req (c_s3 s') = s3_cert_req (c_s3 s)"

definition client13_process_ok :: "('w SSL \<Rightarrow> 'v SSL \<Rightarrow> 'v SSL) \<Rightarrow> bool" where
  "client13_process_ok process \<longleftrightarrow>
     (\<forall>s r. client13_agree s r \<longrightarrow> hand (process s r) = hand r \<and> client13_agree s (process s r)
       \<and> eoed_awaited (process s r) = eoed_awaited r
       \<and> (hand r \<in> {TLS_ST_SR_CERT, TLS_ST_SR_COMP_CERT} \<longrightarrow> received_client_cert (process s r) = (s3_cert_req (c_s3 s) = 1)))"

lemma set_hand_eoed [simp]: "eoed_awaited (set_hand h s) = eoed_awaited s" "eoed_due (set_hand h s) = eoed_due s"
  by (simp_all add: eoed_awaited_def eoed_due_def)

lemma client13_agree_set_hand [simp]:
  "client13_agree (set_hand h s) r = client13_agree s r" "client13_agree s (set_hand h r) = client13_agree s r"
  by (simp_all add: client13_agree_def)

lemma client13_send_cases:
  assumes sim: "client13_sim s r" and snd: "client_send E s = Some (mt, s')"
  shows "\<exists>h. s' = set_hand h s \<and> h \<noteq> TLS_ST_CR_FINISHED \<and>
    (silent13 mt \<and> (h, hand r) \<in> set client13_match \<and> hand r = TLS_ST_EARLY_DATA
       \<and> (h \<in> {TLS_ST_CW_CHANGE, TLS_ST_CW_END_OF_EARLY_DATA} \<longrightarrow> \<not> eoed_awaited r)
     \<or> \<not> silent13 mt \<and> (\<exists>h'. ossl_statem_server13_read_transition r mt = (True, set_hand h' r) \<and> (h, h') \<in> set client13_match
          \<and> h' \<noteq> TLS_ST_EARLY_DATA))"
proof -
  have ag: "client13_agree s r" and m: "(hand s, hand r) \<in> set client13_match" using sim by (simp_all add: client13_sim_def)
  have tls: "SSL_CONNECTION_IS_TLS13 s" using ag by (simp add: client13_agree_def)
  obtain w s1 where w: "ossl_statem_client13_write_transition s = (w, s1)" by fastforce
  have c: "w = WRITE_TRAN_CONTINUE" "\<exists>f. ossl_statem_client_construct_message s1 = (Some (f, mt), s')"
    using snd tls w by (auto simp: client_send_def ossl_statem_client_write_transition_def split: WRITE_TRAN.splits prod.splits option.splits)
  note defs = ossl_statem_client_construct_message_def silent13_def client13_match_def
    ossl_statem_server13_read_transition_def sr_after_finished_def client13_agree_def
  have second: ?thesis
    if r: "hand r = TLS_ST_EARLY_DATA \<and> \<not> eoed_awaited r \<or> hand r = TLS_ST_SR_END_OF_EARLY_DATA" and s1: "s1 = cw_cert_or_finished s"
  proof -
    have acc: "ossl_statem_server13_read_transition r mt = sr_after_finished r mt" for mt
      using r ag by (elim disjE; simp add: ossl_statem_server13_read_transition_def client13_agree_def eoed_awaited_def; blast)
    consider "s1 = set_hand TLS_ST_CW_FINISHED s" "\<not> s3_cert_request (c_s3 r)" | "s1 = set_hand TLS_ST_CW_CERT s" "s3_cert_request (c_s3 r)"
      | "s1 = set_hand TLS_ST_CW_COMP_CERT s" "s3_cert_request (c_s3 r)" "ext_compress_certificate_sent (c_ext r)"
      using s1 ag by (auto simp: cw_cert_or_finished_def client13_agree_def split: if_splits)
    then show ?thesis
      using c(2) by cases (auto simp: acc sr_after_finished_def ossl_statem_client_construct_message_def silent13_def client13_match_def)
  qed
  have third: ?thesis
    if h: "hand s \<in> {TLS_ST_CW_CERT, TLS_ST_CW_COMP_CERT}" "hand r \<in> {TLS_ST_SR_CERT, TLS_ST_SR_COMP_CERT}"
  proof (cases "s3_cert_req (c_s3 s) = 1")
    case True
    then have "received_client_cert r" "s1 = set_hand TLS_ST_CW_CERT_VRFY s"
      using sim h w by (auto simp: client13_sim_def ossl_statem_client13_write_transition_def)
    then show ?thesis using c(2) h(2) by (auto simp: ossl_statem_client_construct_message_def silent13_def client13_match_def
      ossl_statem_server13_read_transition_def)
  next
    case False
    then have "\<not> received_client_cert r" "s1 = set_hand TLS_ST_CW_FINISHED s"
      using sim h w by (auto simp: client13_sim_def ossl_statem_client13_write_transition_def)
    then show ?thesis using c(2) h(2) by (auto simp: ossl_statem_client_construct_message_def silent13_def client13_match_def
      ossl_statem_server13_read_transition_def)
  qed
  have hands: "hand s = TLS_ST_CR_FINISHED \<and> hand r = TLS_ST_EARLY_DATA \<or> hand s = TLS_ST_PENDING_EARLY_DATA_END \<and> hand r = TLS_ST_EARLY_DATA
     \<or> hand s = TLS_ST_CW_CHANGE \<and> hand r = TLS_ST_EARLY_DATA \<or> hand s = TLS_ST_CW_END_OF_EARLY_DATA \<and> hand r = TLS_ST_EARLY_DATA
     \<or> hand s = TLS_ST_CW_END_OF_EARLY_DATA \<and> hand r = TLS_ST_SR_END_OF_EARLY_DATA \<or> hand s = TLS_ST_CW_CERT \<and> hand r = TLS_ST_SR_CERT
     \<or> hand s = TLS_ST_CW_COMP_CERT \<and> hand r = TLS_ST_SR_COMP_CERT \<or> hand s = TLS_ST_CW_CERT_VRFY \<and> hand r = TLS_ST_SR_CERT_VRFY
     \<or> hand s = TLS_ST_CW_FINISHED \<and> hand r = TLS_ST_SR_FINISHED"
    using m by (simp add: client13_match_def)
  show ?thesis
    using hands
  proof (elim disjE conjE)
    assume h: "hand s = TLS_ST_CR_FINISHED" "hand r = TLS_ST_EARLY_DATA"
    consider "s1 = set_hand TLS_ST_PENDING_EARLY_DATA_END s" | "s1 = set_hand TLS_ST_CW_CHANGE s" "\<not> eoed_due s" | "s1 = cw_cert_or_finished s" "\<not> eoed_due s"
      using w h sim by (auto simp: ossl_statem_client13_write_transition_def client13_sim_def early_data_written_def split: if_splits)
    then show ?thesis
    proof cases
      case 3
      then show ?thesis using second h ag by (simp add: client13_agree_def)
    qed (use c(2) ag h in \<open>auto simp: defs\<close>)
  next
    assume h: "hand s = TLS_ST_PENDING_EARLY_DATA_END" "hand r = TLS_ST_EARLY_DATA"
    show ?thesis
    proof (cases "ext_early_data (c_ext s) = SSL_EARLY_DATA_ACCEPTED")
      case True
      then have "s1 = set_hand TLS_ST_CW_END_OF_EARLY_DATA s" using w h by (simp add: ossl_statem_client13_write_transition_def)
      then show ?thesis using c(2) ag h True by (auto simp: defs eoed_awaited_def eoed_due_def split: if_splits)
    next
      case False
      then have "s1 = cw_cert_or_finished s" using w h by (simp add: ossl_statem_client13_write_transition_def)
      moreover have "\<not> eoed_awaited r" using ag False by (simp add: client13_agree_def eoed_due_def)
      ultimately show ?thesis using second h by blast
    qed
  next
    assume h: "hand s = TLS_ST_CW_CHANGE" "hand r = TLS_ST_EARLY_DATA"
    have "s1 = cw_cert_or_finished s" using w h by (simp add: ossl_statem_client13_write_transition_def)
    then show ?thesis using second h sim by (simp add: client13_sim_def)
  next
    assume h: "hand s = TLS_ST_CW_END_OF_EARLY_DATA" "hand r = TLS_ST_EARLY_DATA"
    have "s1 = cw_cert_or_finished s" using w h by (simp add: ossl_statem_client13_write_transition_def)
    then show ?thesis using second h sim by (simp add: client13_sim_def)
  next
    assume h: "hand s = TLS_ST_CW_END_OF_EARLY_DATA" "hand r = TLS_ST_SR_END_OF_EARLY_DATA"
    have "s1 = cw_cert_or_finished s" using w h by (simp add: ossl_statem_client13_write_transition_def)
    then show ?thesis using second h by blast
  next
    assume h: "hand s = TLS_ST_CW_FINISHED" "hand r = TLS_ST_SR_FINISHED"
    then have "s1 = set_hand TLS_ST_OK s" using w by (simp add: ossl_statem_client13_write_transition_def)
    then show ?thesis using c(2) by (simp add: ossl_statem_client_construct_message_def)
  next
    assume h: "hand s = TLS_ST_CW_CERT" "hand r = TLS_ST_SR_CERT"
    then show ?thesis using third by blast
  next
    assume h: "hand s = TLS_ST_CW_COMP_CERT" "hand r = TLS_ST_SR_COMP_CERT"
    then show ?thesis using third by blast
  next
    assume h: "hand s = TLS_ST_CW_CERT_VRFY" "hand r = TLS_ST_SR_CERT_VRFY"
    then have "s1 = set_hand TLS_ST_CW_FINISHED s" using w by (simp add: ossl_statem_client13_write_transition_def)
    then show ?thesis using c(2) h(2) by (auto simp: defs)
  qed
qed

lemma client13_flight:
  fixes E :: "'w env" and E' :: "'v env" and process :: "'w SSL \<Rightarrow> 'v SSL \<Rightarrow> 'v SSL"
  assumes ok: "client13_process_ok process"
  shows "flight (client_send E) (ossl_statem_server_read_transition E') silent13 client13_sim client13_start client13_internal process"
proof
  fix s :: "'w SSL" and r :: "'v SSL" assume "client13_start s r"
  then show "client13_sim s r" by (simp add: client13_start_def client13_sim_def client13_match_def)
next
  fix s s' :: "'w SSL" and r :: "'v SSL" and mt
  assume sim: "client13_sim s r" and snd: "client_send E s = Some (mt, s')" and n: "\<not> silent13 mt"
  have ag: "client13_agree s r" using sim by (simp add: client13_sim_def)
  obtain h h' where s': "s' = set_hand h s" and t: "ossl_statem_server13_read_transition r mt = (True, set_hand h' r)"
    and m': "(h, h') \<in> set client13_match" "h' \<noteq> TLS_ST_EARLY_DATA" "h \<noteq> TLS_ST_CR_FINISHED"
    using client13_send_cases [OF sim snd] n by blast
  have "ossl_statem_server_read_transition E' r mt = (True, set_hand h' r)"
    using t ag by (simp add: ossl_statem_server_read_transition_def finish_tran_def client13_agree_def)
  then show "fst (ossl_statem_server_read_transition E' r mt) \<and> client13_sim s' (process s' (snd (ossl_statem_server_read_transition E' r mt)))"
    using ok [unfolded client13_process_ok_def, rule_format, of "set_hand h s" "set_hand h' r"] ag m' s' by (simp add: client13_sim_def early_data_written_def)
next
  fix s s' :: "'w SSL" and r :: "'v SSL" and mt
  assume sim: "client13_sim s r" and snd: "client_send E s = Some (mt, s')" and n: "silent13 mt"
  obtain h where "s' = set_hand h s" "h \<noteq> TLS_ST_CR_FINISHED" "(h, hand r) \<in> set client13_match" "hand r = TLS_ST_EARLY_DATA"
    "h \<in> {TLS_ST_CW_CHANGE, TLS_ST_CW_END_OF_EARLY_DATA} \<longrightarrow> \<not> eoed_awaited r"
    using client13_send_cases [OF sim snd] n by blast
  then show "client13_sim s' r" using sim by (simp add: client13_sim_def early_data_written_def)
next
  fix s s' :: "'w SSL" and r r' :: "'v SSL" assume "client13_sim s r" "client13_internal s r s' r'"
  then show "client13_sim s' r'" by (simp add: client13_sim_def client13_internal_def)
qed

section \<open>The server's flights before TLS 1.3\<close>

definition server12_match :: "(OSSL_HANDSHAKE_STATE \<times> OSSL_HANDSHAKE_STATE) list" where
  "server12_match =
     [(TLS_ST_SW_SRVR_HELLO, TLS_ST_CR_SRVR_HELLO), (TLS_ST_SW_CERT, TLS_ST_CR_CERT), (TLS_ST_SW_CERT_STATUS, TLS_ST_CR_CERT_STATUS),
      (TLS_ST_SW_KEY_EXCH, TLS_ST_CR_KEY_EXCH), (TLS_ST_SW_CERT_REQ, TLS_ST_CR_CERT_REQ), (TLS_ST_SW_SRVR_DONE, TLS_ST_CR_SRVR_DONE),
      (TLS_ST_SR_FINISHED, TLS_ST_CW_FINISHED), (TLS_ST_SW_SESSION_TICKET, TLS_ST_CR_SESSION_TICKET),
      (TLS_ST_SW_CHANGE, TLS_ST_CR_CHANGE), (TLS_ST_SW_FINISHED, TLS_ST_CR_FINISHED)]"

text \<open>
  What holds from the ClientHello on: the two sides run the same protocol, and the server does not insist
  on a client certificate in an anonymous cipher suite, except with SSL 3. What the ServerHello fixes on the
  client's side: the version, the cipher suite, whether the session is resumed, and the extensions.
\<close>

definition server12_offer :: "'w SSL \<Rightarrow> 'v SSL \<Rightarrow> bool" where
  "server12_offer s r \<longleftrightarrow>
     \<not> SSL_CONNECTION_IS_TLS13 s \<and> \<not> SSL_CONNECTION_IS_TLS13 r \<and> SSL_CONNECTION_IS_DTLS r = SSL_CONNECTION_IS_DTLS s
     \<and> (algorithm_auth (s3_new_cipher (c_s3 s)) AND SSL_aNULL = 0 \<or> c_verify_mode s AND SSL_VERIFY_FAIL_IF_NO_PEER_CERT = 0
        \<or> c_version s \<le> SSL3_VERSION)"

definition server12_settled :: "'w SSL \<Rightarrow> 'v SSL \<Rightarrow> bool" where
  "server12_settled s r \<longleftrightarrow>
     c_version r = c_version s \<and> s3_new_cipher (c_s3 s) = s3_new_cipher (c_s3 r) \<and> c_hit r = c_hit s
     \<and> ext_ticket_expected (c_ext r) = ext_ticket_expected (c_ext s)
     \<and> (ext_status_expected (c_ext s) \<longrightarrow> ext_status_expected (c_ext r))"

definition server12_agree :: "'w SSL \<Rightarrow> 'v SSL \<Rightarrow> bool" where
  "server12_agree s r \<longleftrightarrow> server12_offer s r \<and> server12_settled s r"

definition awaits_hello12 :: "'w SSL \<Rightarrow> 'v SSL \<Rightarrow> bool" where
  "awaits_hello12 s r \<longleftrightarrow> hand s = TLS_ST_SR_CLNT_HELLO \<and> hand r = TLS_ST_CW_CLNT_HELLO"

definition verify_requested :: "'w SSL \<Rightarrow> 'v SSL \<Rightarrow> bool" where
  "verify_requested s r \<longleftrightarrow> hand s = DTLS_ST_SW_HELLO_VERIFY_REQUEST \<and> hand r = DTLS_ST_CR_HELLO_VERIFY_REQUEST"

definition server12_sim :: "'w SSL \<Rightarrow> 'v SSL \<Rightarrow> bool" where
  "server12_sim s r \<longleftrightarrow> server12_offer s r
     \<and> (awaits_hello12 s r \<or> verify_requested s r \<or> (hand s, hand r) \<in> set server12_match \<and> server12_settled s r)"

definition server12_start :: "'w SSL \<Rightarrow> 'v SSL \<Rightarrow> bool" where
  "server12_start s r \<longleftrightarrow> server12_offer s r
     \<and> (awaits_hello12 s r \<or> hand s = TLS_ST_SR_FINISHED \<and> hand r = TLS_ST_CW_FINISHED \<and> server12_settled s r)"

text \<open>The client sends another ClientHello after a HelloVerifyRequest and for a renegotiation.\<close>

definition server12_internal :: "'w env \<Rightarrow> 'v env \<Rightarrow> 'w SSL \<Rightarrow> 'v SSL \<Rightarrow> 'w SSL \<Rightarrow> 'v SSL \<Rightarrow> bool" where
  "server12_internal E E' s r s' r' \<longleftrightarrow> server12_offer s' r'
     \<and> (hand s' = hand s \<and> hand r' = hand r \<and> (server12_settled s r \<longrightarrow> server12_settled s' r') \<or> hello_exchanged E E' s r s' r')"

definition server12_process_ok :: "('w SSL \<Rightarrow> 'v SSL \<Rightarrow> 'v SSL) \<Rightarrow> bool" where
  "server12_process_ok process \<longleftrightarrow>
     (\<forall>s r. server12_offer s r \<longrightarrow> hand (process s r) = hand r \<and> server12_offer s (process s r)
       \<and> (hand r = TLS_ST_CR_SRVR_HELLO \<or> server12_settled s r \<longrightarrow> server12_settled s (process s r)))"

lemma server12_set_hand [simp]:
  "server12_offer (set_hand h s) r = server12_offer s r" "server12_offer s (set_hand h r) = server12_offer s r"
  "server12_settled (set_hand h s) r = server12_settled s r" "server12_settled s (set_hand h r) = server12_settled s r"
  by (simp_all add: server12_offer_def server12_settled_def)

lemma cert_req_agree: "server12_agree s r \<Longrightarrow> send_certificate_request s \<Longrightarrow> cert_req_allowed r"
  by (auto simp: server12_agree_def server12_offer_def server12_settled_def send_certificate_request_def cert_req_allowed_def)

text \<open>What the client accepts at the points where the server chooses.\<close>

lemma accepts_after_key_exch:
  assumes ag: "server12_agree s r" and s1: "s1 = sw_key_exch s"
  shows "s1 = set_hand TLS_ST_SW_CERT_REQ s \<and> cr_key_exch r 13 = Tran_Ok (set_hand TLS_ST_CR_CERT_REQ r)
    \<or> s1 = set_hand TLS_ST_SW_SRVR_DONE s \<and> cr_key_exch r 14 = Tran_Ok (set_hand TLS_ST_CR_SRVR_DONE r)"
  using cert_req_agree [OF ag] s1 by (auto simp: sw_key_exch_def cr_key_exch_def cr_cert_req_def)

lemma accepts_after_cert_status:
  assumes ag: "server12_agree s r" and s1: "s1 = sw_cert_status s"
  shows "s1 = set_hand TLS_ST_SW_KEY_EXCH s \<and> cr_cert_status r 12 = Tran_Ok (set_hand TLS_ST_CR_KEY_EXCH r)
    \<or> s1 = set_hand TLS_ST_SW_CERT_REQ s \<and> cr_cert_status r 13 = Tran_Ok (set_hand TLS_ST_CR_CERT_REQ r)
    \<or> s1 = set_hand TLS_ST_SW_SRVR_DONE s \<and> cr_cert_status r 14 = Tran_Ok (set_hand TLS_ST_CR_SRVR_DONE r)"
proof -
  have c: "s3_new_cipher (c_s3 s) = s3_new_cipher (c_s3 r)" using ag by (simp add: server12_agree_def server12_settled_def)
  show ?thesis
  proof (cases "send_server_key_exchange s")
    case True
    then show ?thesis using ske_agree(2) [OF c True] s1 by (auto simp: sw_cert_status_def cr_cert_status_def)
  next
    case False
    then have "\<not> key_exchange_expected r" using ske_agree(1) [OF c] by blast
    then show ?thesis
      using accepts_after_key_exch [OF ag refl] s1 False by (auto simp: sw_cert_status_def cr_cert_status_def)
  qed
qed

lemma accepts_after_srvr_hello:
  assumes ag: "server12_agree s r" and s1: "s1 = sw_srvr_hello s"
  shows "s1 = set_hand TLS_ST_SW_SESSION_TICKET s \<and> cr_srvr_hello r 4 = Tran_Ok (set_hand TLS_ST_CR_SESSION_TICKET r)
    \<or> s1 = set_hand TLS_ST_SW_CHANGE s \<and> cr_srvr_hello r 0x101 = Tran_Ok (set_hand TLS_ST_CR_CHANGE r)
    \<or> s1 = set_hand TLS_ST_SW_CERT s \<and> cr_srvr_hello r 11 = Tran_Ok (set_hand TLS_ST_CR_CERT r)
    \<or> s1 = set_hand TLS_ST_SW_KEY_EXCH s \<and> cr_srvr_hello r 12 = Tran_Ok (set_hand TLS_ST_CR_KEY_EXCH r)
    \<or> s1 = set_hand TLS_ST_SW_CERT_REQ s \<and> cr_srvr_hello r 13 = Tran_Ok (set_hand TLS_ST_CR_CERT_REQ r)
    \<or> s1 = set_hand TLS_ST_SW_SRVR_DONE s \<and> cr_srvr_hello r 14 = Tran_Ok (set_hand TLS_ST_CR_SRVR_DONE r)"
proof -
  have c: "s3_new_cipher (c_s3 s) = s3_new_cipher (c_s3 r)" "c_hit r = c_hit s" "ext_ticket_expected (c_ext r) = ext_ticket_expected (c_ext s)"
    using ag by (simp_all add: server12_agree_def server12_settled_def)
  consider "c_hit s" | "\<not> c_hit s" "algorithm_auth (s3_new_cipher (c_s3 r)) AND (SSL_aNULL OR SSL_aPSK) = 0"
    | "\<not> c_hit s" "algorithm_auth (s3_new_cipher (c_s3 r)) AND (SSL_aNULL OR SSL_aPSK) \<noteq> 0" "send_server_key_exchange s"
    | "\<not> c_hit s" "algorithm_auth (s3_new_cipher (c_s3 r)) AND (SSL_aNULL OR SSL_aPSK) \<noteq> 0" "\<not> send_server_key_exchange s" by blast
  then show ?thesis
  proof cases
    case 3
    then show ?thesis using ske_agree(2) [OF c(1) 3(3)] c s1 by (auto simp: sw_srvr_hello_def cr_srvr_hello_def)
  next
    case 4
    then have "\<not> key_exchange_expected r" using ske_agree(1) [OF c(1)] by blast
    then show ?thesis using 4 cert_req_agree [OF ag] c s1 by (auto simp: sw_srvr_hello_def cr_srvr_hello_def)
  qed (use c s1 in \<open>auto simp: sw_srvr_hello_def cr_srvr_hello_def\<close>)
qed

lemma server12_send_hello:
  assumes off: "server12_offer s r" and h: "awaits_hello12 s r" and snd: "server_send E s = Some (mt, s')"
  shows "\<not> silent12 mt \<and> (\<exists>h h'. s' = set_hand h s \<and> client_read_switch r mt = Tran_Ok (set_hand h' r)
    \<and> (h = TLS_ST_SW_SRVR_HELLO \<and> h' = TLS_ST_CR_SRVR_HELLO \<or> h = DTLS_ST_SW_HELLO_VERIFY_REQUEST \<and> h' = DTLS_ST_CR_HELLO_VERIFY_REQUEST))"
proof -
  have tls: "\<not> SSL_CONNECTION_IS_TLS13 s" and dtls: "SSL_CONNECTION_IS_DTLS r = SSL_CONNECTION_IS_DTLS s"
    using off by (simp_all add: server12_offer_def)
  have hs: "hand s = TLS_ST_SR_CLNT_HELLO" "hand r = TLS_ST_CW_CLNT_HELLO" using h by (simp_all add: awaits_hello12_def)
  obtain w s1 where w: "ossl_statem_server_write_transition E s = (w, s1)" by fastforce
  have c: "\<exists>f. ossl_statem_server_construct_message s1 = (Some (f, mt), s')"
    using snd w by (auto simp: server_send_def split: WRITE_TRAN.splits prod.splits option.splits)
  consider "s1 = set_hand DTLS_ST_SW_HELLO_VERIFY_REQUEST s" "SSL_CONNECTION_IS_DTLS r" | "s1 = set_hand TLS_ST_OK s" | "s1 = set_hand TLS_ST_SW_SRVR_HELLO s"
    using w hs tls dtls by (auto simp: ossl_statem_server_write_transition_def split: if_splits)
  then show ?thesis
    using c hs by cases (auto simp: ossl_statem_server_construct_message_def silent12_def client_read_switch_def)
qed

lemma server12_send_cases:
  assumes ag: "server12_agree s r" and m: "(hand s, hand r) \<in> set server12_match" and snd: "server_send E s = Some (mt, s')"
  shows "\<exists>h h'. s' = set_hand h s \<and> \<not> silent12 mt \<and> client_read_switch r mt = Tran_Ok (set_hand h' r) \<and> (h, h') \<in> set server12_match"
proof -
  have tls: "\<not> SSL_CONNECTION_IS_TLS13 s" and dtls: "SSL_CONNECTION_IS_DTLS r = SSL_CONNECTION_IS_DTLS s"
    and ext: "c_hit r = c_hit s" "ext_ticket_expected (c_ext r) = ext_ticket_expected (c_ext s)"
      "ext_status_expected (c_ext s) \<Longrightarrow> ext_status_expected (c_ext r)"
    using ag by (simp_all add: server12_agree_def server12_offer_def server12_settled_def)
  obtain w s1 where w: "ossl_statem_server_write_transition E s = (w, s1)" by fastforce
  have c: "w = WRITE_TRAN_CONTINUE" "\<exists>f. ossl_statem_server_construct_message s1 = (Some (f, mt), s')"
    using snd w by (auto simp: server_send_def split: WRITE_TRAN.splits prod.splits option.splits)
  note defs = ossl_statem_server_construct_message_def silent12_def server12_match_def client_read_switch_def
  note wt = ossl_statem_server_write_transition_def
  have hands: "hand s = TLS_ST_SW_SRVR_HELLO \<and> hand r = TLS_ST_CR_SRVR_HELLO \<or> hand s = TLS_ST_SW_CERT \<and> hand r = TLS_ST_CR_CERT
     \<or> hand s = TLS_ST_SW_CERT_STATUS \<and> hand r = TLS_ST_CR_CERT_STATUS \<or> hand s = TLS_ST_SW_KEY_EXCH \<and> hand r = TLS_ST_CR_KEY_EXCH
     \<or> hand s = TLS_ST_SW_CERT_REQ \<and> hand r = TLS_ST_CR_CERT_REQ \<or> hand s = TLS_ST_SW_SRVR_DONE \<and> hand r = TLS_ST_CR_SRVR_DONE
     \<or> hand s = TLS_ST_SR_FINISHED \<and> hand r = TLS_ST_CW_FINISHED \<or> hand s = TLS_ST_SW_SESSION_TICKET \<and> hand r = TLS_ST_CR_SESSION_TICKET
     \<or> hand s = TLS_ST_SW_CHANGE \<and> hand r = TLS_ST_CR_CHANGE \<or> hand s = TLS_ST_SW_FINISHED \<and> hand r = TLS_ST_CR_FINISHED"
    using m by (simp add: server12_match_def)
  show ?thesis
    using hands
  proof (elim disjE conjE)
    assume h: "hand s = TLS_ST_SW_SRVR_HELLO" "hand r = TLS_ST_CR_SRVR_HELLO"
    have "s1 = sw_srvr_hello s" using w h tls by (simp add: wt)
    from accepts_after_srvr_hello [OF ag this] show ?thesis using c(2) h by (elim disjE conjE) (simp_all add: defs, auto)
  next
    assume h: "hand s = TLS_ST_SW_CERT" "hand r = TLS_ST_CR_CERT"
    show ?thesis
    proof (cases "ext_status_expected (c_ext s)")
      case True
      then have "s1 = set_hand TLS_ST_SW_CERT_STATUS s" using w h tls by (simp add: wt)
      then show ?thesis using c(2) h ext(3) [OF True] by (auto simp: defs)
    next
      case False
      then have "s1 = sw_cert_status s" using w h tls by (simp add: wt)
      from accepts_after_cert_status [OF ag this] show ?thesis using c(2) h by (elim disjE conjE) (simp_all add: defs, auto)
    qed
  next
    assume h: "hand s = TLS_ST_SW_CERT_STATUS" "hand r = TLS_ST_CR_CERT_STATUS"
    have "s1 = sw_cert_status s" using w h tls by (simp add: wt)
    from accepts_after_cert_status [OF ag this] show ?thesis using c(2) h by (elim disjE conjE) (simp_all add: defs, auto)
  next
    assume h: "hand s = TLS_ST_SW_KEY_EXCH" "hand r = TLS_ST_CR_KEY_EXCH"
    have "s1 = sw_key_exch s" using w h tls by (simp add: wt)
    from accepts_after_key_exch [OF ag this] show ?thesis using c(2) h by (elim disjE conjE) (simp_all add: defs, auto)
  next
    assume h: "hand s = TLS_ST_SR_FINISHED" "hand r = TLS_ST_CW_FINISHED"
    consider "s1 = set_hand TLS_ST_OK s" | "s1 = set_hand TLS_ST_SW_SESSION_TICKET s" "ext_ticket_expected (c_ext r)"
      | "s1 = set_hand TLS_ST_SW_CHANGE s" "\<not> ext_ticket_expected (c_ext r)"
      using w h tls ext(2) by (auto simp: wt split: if_splits)
    then show ?thesis using c(2) h by cases (auto simp: defs)
  next
    assume h: "hand s = TLS_ST_SW_FINISHED" "hand r = TLS_ST_CR_FINISHED"
    have "s1 = set_hand TLS_ST_OK s" using w h tls c(1) by (auto simp: wt split: if_splits)
    then show ?thesis using c(2) by (auto simp: defs)
  next
    assume h: "hand s = TLS_ST_SW_CERT_REQ" "hand r = TLS_ST_CR_CERT_REQ"
    have "s1 = set_hand TLS_ST_SW_SRVR_DONE s" using w h tls by (simp add: wt)
    then show ?thesis using c(2) h by (auto simp: defs cr_cert_req_def)
  next
    assume h: "hand s = TLS_ST_SW_SESSION_TICKET" "hand r = TLS_ST_CR_SESSION_TICKET"
    have "s1 = set_hand TLS_ST_SW_CHANGE s" using w h tls by (simp add: wt)
    then show ?thesis using c(2) h by (auto simp: defs)
  next
    assume h: "hand s = TLS_ST_SW_CHANGE" "hand r = TLS_ST_CR_CHANGE"
    have "s1 = set_hand TLS_ST_SW_FINISHED s" using w h tls by (simp add: wt)
    then show ?thesis using c(2) h by (auto simp: defs)
  qed (use w tls c(1) in \<open>auto simp: wt\<close>)
qed

lemma server12_flight:
  fixes E :: "'w env" and E' :: "'v env" and process :: "'w SSL \<Rightarrow> 'v SSL \<Rightarrow> 'v SSL"
  assumes ok: "server12_process_ok process"
  shows "flight (server_send E) (ossl_statem_client_read_transition E') silent12 server12_sim server12_start (server12_internal E E') process"
proof
  fix s :: "'w SSL" and r :: "'v SSL" assume "server12_start s r"
  then show "server12_sim s r" by (auto simp: server12_start_def server12_sim_def server12_match_def)
next
  fix s s' :: "'w SSL" and r :: "'v SSL" and mt
  assume sim: "server12_sim s r" and snd: "server_send E s = Some (mt, s')"
  have off: "server12_offer s r" using sim by (simp add: server12_sim_def)
  have acc: "ossl_statem_client_read_transition E' r mt = (True, set_hand h r)" if "client_read_switch r mt = Tran_Ok (set_hand h r)" for h
    using that off by (simp add: ossl_statem_client_read_transition_def finish_tran_def server12_offer_def)
  note ok = ok [unfolded server12_process_ok_def, rule_format]
  consider "awaits_hello12 s r" | "verify_requested s r" | "(hand s, hand r) \<in> set server12_match" "server12_settled s r"
    using sim by (auto simp: server12_sim_def)
  then show "fst (ossl_statem_client_read_transition E' r mt) \<and> server12_sim s' (process s' (snd (ossl_statem_client_read_transition E' r mt)))"
  proof cases
    case 1
    obtain h h' where s': "s' = set_hand h s" and t: "client_read_switch r mt = Tran_Ok (set_hand h' r)"
      and hh: "h = TLS_ST_SW_SRVR_HELLO \<and> h' = TLS_ST_CR_SRVR_HELLO \<or> h = DTLS_ST_SW_HELLO_VERIFY_REQUEST \<and> h' = DTLS_ST_CR_HELLO_VERIFY_REQUEST"
      using server12_send_hello [OF off 1 snd] by blast
    show ?thesis using acc [OF t] ok [of s' "set_hand h' r"] off s' hh by (auto simp: server12_sim_def verify_requested_def server12_match_def)
  next
    case 2
    then show ?thesis
      using snd off by (simp add: verify_requested_def server_send_def ossl_statem_server_write_transition_def server12_offer_def)
  next
    case 3
    obtain h h' where s': "s' = set_hand h s" and t: "client_read_switch r mt = Tran_Ok (set_hand h' r)" and m': "(h, h') \<in> set server12_match"
      using server12_send_cases [of s r E mt s'] off 3 snd by (auto simp: server12_agree_def)
    show ?thesis using acc [OF t] ok [of s' "set_hand h' r"] off s' m' 3 by (simp add: server12_sim_def)
  qed
next
  fix s s' :: "'w SSL" and r :: "'v SSL" and mt
  assume sim: "server12_sim s r" and snd: "server_send E s = Some (mt, s')" and n: "silent12 mt"
  have off: "server12_offer s r" using sim by (simp add: server12_sim_def)
  consider "awaits_hello12 s r" | "verify_requested s r" | "(hand s, hand r) \<in> set server12_match" "server12_settled s r"
    using sim by (auto simp: server12_sim_def)
  then show "server12_sim s' r"
  proof cases
    case 1
    then show ?thesis using server12_send_hello [OF off 1 snd] n by blast
  next
    case 2
    then show ?thesis
      using snd off by (simp add: verify_requested_def server_send_def ossl_statem_server_write_transition_def server12_offer_def)
  next
    case 3
    then show ?thesis using server12_send_cases [of s r E mt s'] off snd n by (auto simp: server12_agree_def)
  qed
next
  fix s s' :: "'w SSL" and r r' :: "'v SSL" assume "server12_sim s r" "server12_internal E E' s r s' r'"
  then show "server12_sim s' r'"
    using hello_exchanged_states [of E E' s r s' r']
    by (auto simp: server12_sim_def server12_internal_def awaits_hello12_def verify_requested_def)
qed

section \<open>The client's flights before TLS 1.3\<close>

definition client12_match :: "(OSSL_HANDSHAKE_STATE \<times> OSSL_HANDSHAKE_STATE) list" where
  "client12_match =
     [(TLS_ST_BEFORE, TLS_ST_BEFORE), (TLS_ST_OK, TLS_ST_OK), (TLS_ST_CW_CLNT_HELLO, TLS_ST_SR_CLNT_HELLO),
      (DTLS_ST_CR_HELLO_VERIFY_REQUEST, DTLS_ST_SW_HELLO_VERIFY_REQUEST), (TLS_ST_CR_SRVR_DONE, TLS_ST_SW_SRVR_DONE),
      (TLS_ST_CW_CERT, TLS_ST_SR_CERT), (TLS_ST_CW_KEY_EXCH, TLS_ST_SR_KEY_EXCH), (TLS_ST_CW_CERT_VRFY, TLS_ST_SR_CERT_VRFY),
      (TLS_ST_CR_FINISHED, TLS_ST_SW_FINISHED), (TLS_ST_CW_CHANGE, TLS_ST_SR_CHANGE), (TLS_ST_CW_FINISHED, TLS_ST_SR_FINISHED)]"

definition client12_agree :: "'w SSL \<Rightarrow> 'v SSL \<Rightarrow> bool" where
  "client12_agree s r \<longleftrightarrow>
     \<not> SSL_CONNECTION_IS_TLS13 s \<and> \<not> SSL_CONNECTION_IS_TLS13 r \<and> s3_cert_request (c_s3 r) = (s3_cert_req (c_s3 s) \<noteq> 0)
     \<and> st_no_cert_verify (c_statem r) = (s3_flags (c_s3 s) AND TLS1_FLAGS_SKIP_CERT_VERIFY \<noteq> 0)
     \<and> c_early_data_state s \<noteq> SSL_EARLY_DATA_CONNECTING \<and> c_hello_retry_request s \<noteq> SSL_HRR_PENDING"

text \<open>
  Whether the server has a certificate of the client: none before the client's flight, and after the
  Certificate message exactly when the client sent one, that is, when its flag is 1 and not 2.
\<close>

definition cert_recorded12 :: "'w SSL \<Rightarrow> 'v SSL \<Rightarrow> bool" where
  "cert_recorded12 s r \<longleftrightarrow>
     (hand r = TLS_ST_SW_SRVR_DONE \<longrightarrow> \<not> received_client_cert r)
     \<and> (hand r \<in> {TLS_ST_SR_CERT, TLS_ST_SR_KEY_EXCH} \<longrightarrow> received_client_cert r = (s3_cert_req (c_s3 s) = 1))"

definition client12_sim :: "'w SSL \<Rightarrow> 'v SSL \<Rightarrow> bool" where
  "client12_sim s r \<longleftrightarrow> client12_agree s r \<and> (hand s, hand r) \<in> set client12_match \<and> cert_recorded12 s r"

definition client12_start :: "'w SSL \<Rightarrow> 'v SSL \<Rightarrow> bool" where
  "client12_start s r \<longleftrightarrow> client12_agree s r
     \<and> ((hand s, hand r) \<in> {(TLS_ST_BEFORE, TLS_ST_BEFORE), (TLS_ST_OK, TLS_ST_OK), (DTLS_ST_CR_HELLO_VERIFY_REQUEST, DTLS_ST_SW_HELLO_VERIFY_REQUEST),
          (TLS_ST_CR_FINISHED, TLS_ST_SW_FINISHED)}
        \<or> hand s = TLS_ST_CR_SRVR_DONE \<and> hand r = TLS_ST_SW_SRVR_DONE \<and> \<not> received_client_cert r)"

definition client12_internal :: "'w SSL \<Rightarrow> 'v SSL \<Rightarrow> 'w SSL \<Rightarrow> 'v SSL \<Rightarrow> bool" where
  "client12_internal s r s' r' \<longleftrightarrow> hand s' = hand s \<and> hand r' = hand r \<and> client12_agree s' r'
     \<and> received_client_cert r' = received_client_cert r \<and> s3_cert_req (c_s3 s') = s3_cert_req (c_s3 s)"

text \<open>
  What is assumed of the server's processing: the Certificate message leaves a peer certificate exactly
  when it was not empty, and the ClientKeyExchange keeps it.
\<close>

definition client12_process_ok :: "('w SSL \<Rightarrow> 'v SSL \<Rightarrow> 'v SSL) \<Rightarrow> bool" where
  "client12_process_ok process \<longleftrightarrow>
     (\<forall>s r. client12_agree s r \<longrightarrow> hand (process s r) = hand r \<and> client12_agree s (process s r)
       \<and> (hand r = TLS_ST_SR_CERT \<longrightarrow> received_client_cert (process s r) = (s3_cert_req (c_s3 s) = 1))
       \<and> (hand r = TLS_ST_SR_KEY_EXCH \<longrightarrow> received_client_cert (process s r) = received_client_cert r))"

lemma client12_agree_set_hand [simp]:
  "client12_agree (set_hand h s) r = client12_agree s r" "client12_agree s (set_hand h r) = client12_agree s r"
  by (simp_all add: client12_agree_def)

lemma client12_send_cases:
  assumes sim: "client12_sim s r" and snd: "client_send E s = Some (mt, s')"
  shows "\<exists>h h'. s' = set_hand h s \<and> \<not> silent12 mt \<and> server_read_switch r mt = Tran_Ok (set_hand h' r) \<and> (h, h') \<in> set client12_match
    \<and> h' \<noteq> TLS_ST_SW_SRVR_DONE \<and> (h' = TLS_ST_SR_KEY_EXCH \<longrightarrow> received_client_cert r = (s3_cert_req (c_s3 s) = 1))"
proof -
  have ag: "client12_agree s r" and m: "(hand s, hand r) \<in> set client12_match" using sim by (simp_all add: client12_sim_def)
  have p: "\<not> SSL_CONNECTION_IS_TLS13 s" "c_early_data_state s \<noteq> SSL_EARLY_DATA_CONNECTING" "c_hello_retry_request s \<noteq> SSL_HRR_PENDING"
    "s3_cert_request (c_s3 r) = (s3_cert_req (c_s3 s) \<noteq> 0)"
    "st_no_cert_verify (c_statem r) = (s3_flags (c_s3 s) AND 0x10 \<noteq> 0)"
    using ag by (simp_all add: client12_agree_def)
  obtain w s1 where w: "ossl_statem_client_write_transition E s = (w, s1)" by fastforce
  have c: "w = WRITE_TRAN_CONTINUE" "\<exists>f. ossl_statem_client_construct_message s1 = (Some (f, mt), s')"
    using snd w by (auto simp: client_send_def split: WRITE_TRAN.splits prod.splits option.splits)
  note defs = ossl_statem_client_construct_message_def silent12_def client12_match_def server_read_switch_def
  note wt = ossl_statem_client_write_transition_def
  have rc: "hand r = TLS_ST_SW_SRVR_DONE \<Longrightarrow> \<not> received_client_cert r"
    "hand r = TLS_ST_SR_CERT \<or> hand r = TLS_ST_SR_KEY_EXCH \<Longrightarrow> received_client_cert r = (s3_cert_req (c_s3 s) = 1)"
    using sim by (auto simp: client12_sim_def cert_recorded12_def)
  have hands: "hand s = TLS_ST_BEFORE \<and> hand r = TLS_ST_BEFORE \<or> hand s = TLS_ST_OK \<and> hand r = TLS_ST_OK \<or> hand s = TLS_ST_CW_CLNT_HELLO \<and> hand r = TLS_ST_SR_CLNT_HELLO
     \<or> hand s = DTLS_ST_CR_HELLO_VERIFY_REQUEST \<and> hand r = DTLS_ST_SW_HELLO_VERIFY_REQUEST
     \<or> hand s = TLS_ST_CR_SRVR_DONE \<and> hand r = TLS_ST_SW_SRVR_DONE \<or> hand s = TLS_ST_CW_CERT \<and> hand r = TLS_ST_SR_CERT
     \<or> hand s = TLS_ST_CW_KEY_EXCH \<and> hand r = TLS_ST_SR_KEY_EXCH \<or> hand s = TLS_ST_CW_CERT_VRFY \<and> hand r = TLS_ST_SR_CERT_VRFY
     \<or> hand s = TLS_ST_CR_FINISHED \<and> hand r = TLS_ST_SW_FINISHED \<or> hand s = TLS_ST_CW_CHANGE \<and> hand r = TLS_ST_SR_CHANGE
     \<or> hand s = TLS_ST_CW_FINISHED \<and> hand r = TLS_ST_SR_FINISHED"
    using m by (simp add: client12_match_def)
  show ?thesis
    using hands
  proof (elim disjE conjE)
    assume h: "hand s = TLS_ST_BEFORE" "hand r = TLS_ST_BEFORE"
    then have "s1 = set_hand TLS_ST_CW_CLNT_HELLO s" using w p by (simp add: wt)
    then show ?thesis using c(2) h(2) by (auto simp: defs)
  next
    assume h: "hand s = TLS_ST_OK" "hand r = TLS_ST_OK"
    then have "s1 = set_hand TLS_ST_CW_CLNT_HELLO s" using w p c(1) by (simp add: wt split: if_splits)
    then show ?thesis using c(2) h(2) by (auto simp: defs)
  next
    assume h: "hand s = DTLS_ST_CR_HELLO_VERIFY_REQUEST" "hand r = DTLS_ST_SW_HELLO_VERIFY_REQUEST"
    then have "s1 = set_hand TLS_ST_CW_CLNT_HELLO s" using w p by (simp add: wt)
    then show ?thesis using c(2) h(2) by (auto simp: defs)
  next
    assume h: "hand s = TLS_ST_CW_CLNT_HELLO" "hand r = TLS_ST_SR_CLNT_HELLO"
    then show ?thesis using w p c(1) by (simp add: wt)
  next
    assume h: "hand s = TLS_ST_CR_SRVR_DONE" "hand r = TLS_ST_SW_SRVR_DONE"
    then have "s1 = set_hand (if s3_cert_req (c_s3 s) \<noteq> 0 then TLS_ST_CW_CERT else TLS_ST_CW_KEY_EXCH) s" using w p by (simp add: wt)
    then show ?thesis using c(2) h(2) p(4) rc(1) by (cases "s3_cert_req (c_s3 s) = 0") (auto simp: defs sr_after_done_def)
  next
    assume h: "hand s = TLS_ST_CW_CERT" "hand r = TLS_ST_SR_CERT"
    then have "s1 = set_hand TLS_ST_CW_KEY_EXCH s" using w p by (simp add: wt)
    then show ?thesis using c(2) h(2) rc(2) by (auto simp: defs)
  next
    assume h: "hand s = TLS_ST_CW_KEY_EXCH" "hand r = TLS_ST_SR_KEY_EXCH"
    have rc: "received_client_cert r = (s3_cert_req (c_s3 s) = 1)" using rc(2) h by simp
    show ?thesis
    proof (cases "received_client_cert r \<and> \<not> st_no_cert_verify (c_statem r)")
      case True
      then have "s1 = set_hand TLS_ST_CW_CERT_VRFY s" using w p h rc by (simp add: wt)
      then show ?thesis using c(2) h(2) True by (auto simp: defs)
    next
      case False
      then have "s1 = set_hand TLS_ST_CW_CHANGE s" using w p h rc by (auto simp: wt split: if_splits)
      then show ?thesis using c(2) h(2) False by (auto simp: defs)
    qed
  next
    assume h: "hand s = TLS_ST_CW_CERT_VRFY" "hand r = TLS_ST_SR_CERT_VRFY"
    then have "s1 = set_hand TLS_ST_CW_CHANGE s" using w p by (simp add: wt)
    then show ?thesis using c(2) h(2) by (auto simp: defs)
  next
    assume h: "hand s = TLS_ST_CR_FINISHED" "hand r = TLS_ST_SW_FINISHED"
    then consider "s1 = set_hand TLS_ST_CW_CHANGE s" | "s1 = set_hand TLS_ST_OK s" using w p by (cases "c_hit s") (auto simp: wt)
    then show ?thesis using c(2) h(2) by cases (auto simp: defs)
  next
    assume h: "hand s = TLS_ST_CW_CHANGE" "hand r = TLS_ST_SR_CHANGE"
    then have "s1 = set_hand TLS_ST_CW_FINISHED s" using w p by (simp add: wt)
    then show ?thesis using c(2) h(2) by (auto simp: defs)
  next
    assume h: "hand s = TLS_ST_CW_FINISHED" "hand r = TLS_ST_SR_FINISHED"
    then have "s1 = set_hand TLS_ST_OK s" using w p c(1) by (cases "c_hit s") (simp_all add: wt)
    then show ?thesis using c(2) by (auto simp: defs)
  qed
qed

lemma client12_flight:
  fixes E :: "'w env" and E' :: "'v env" and process :: "'w SSL \<Rightarrow> 'v SSL \<Rightarrow> 'v SSL"
  assumes ok: "client12_process_ok process"
  shows "flight (client_send E) (ossl_statem_server_read_transition E') silent12 client12_sim client12_start client12_internal process"
proof
  fix s :: "'w SSL" and r :: "'v SSL" assume "client12_start s r"
  then show "client12_sim s r" by (auto simp: client12_start_def client12_sim_def client12_match_def cert_recorded12_def)
next
  fix s s' :: "'w SSL" and r :: "'v SSL" and mt
  assume sim: "client12_sim s r" and snd: "client_send E s = Some (mt, s')"
  have ag: "client12_agree s r" using sim by (simp add: client12_sim_def)
  obtain h h' where s': "s' = set_hand h s" and t: "server_read_switch r mt = Tran_Ok (set_hand h' r)" and m': "(h, h') \<in> set client12_match"
    "h' \<noteq> TLS_ST_SW_SRVR_DONE" "h' = TLS_ST_SR_KEY_EXCH \<longrightarrow> received_client_cert r = (s3_cert_req (c_s3 s) = 1)"
    using client12_send_cases [OF sim snd] by blast
  have "ossl_statem_server_read_transition E' r mt = (True, set_hand h' r)"
    using t ag by (simp add: ossl_statem_server_read_transition_def finish_tran_def client12_agree_def)
  then show "fst (ossl_statem_server_read_transition E' r mt) \<and> client12_sim s' (process s' (snd (ossl_statem_server_read_transition E' r mt)))"
    using ok [unfolded client12_process_ok_def, rule_format, of "set_hand h s" "set_hand h' r"] ag m' s'
    by (auto simp: client12_sim_def cert_recorded12_def received_client_cert_def)
next
  fix s s' :: "'w SSL" and r :: "'v SSL" and mt
  assume sim: "client12_sim s r" and snd: "client_send E s = Some (mt, s')" and n: "silent12 mt"
  then show "client12_sim s' r" using client12_send_cases [OF sim snd] by blast
next
  fix s s' :: "'w SSL" and r r' :: "'v SSL" assume "client12_sim s r" "client12_internal s r s' r'"
  then show "client12_sim s' r'" by (simp add: client12_sim_def client12_internal_def cert_recorded12_def)
qed

section \<open>The interfaces between the two sides\<close>

text \<open>Each flight is a contract whose only assumption is on the processing of messages.\<close>

locale server13_peers =
  fixes E :: "'w env" and E' :: "'v env" and process :: "'w SSL \<Rightarrow> 'v SSL \<Rightarrow> 'v SSL"
  assumes process_ok: "server13_process_ok process"

sublocale server13_peers \<subseteq> flight "server_send E" "ossl_statem_client_read_transition E'" silent13 server13_sim server13_start "server13_internal E E'" process
  by (rule server13_flight [OF process_ok])

locale client13_peers =
  fixes E :: "'w env" and E' :: "'v env" and process :: "'w SSL \<Rightarrow> 'v SSL \<Rightarrow> 'v SSL"
  assumes process_ok: "client13_process_ok process"

sublocale client13_peers \<subseteq> flight "client_send E" "ossl_statem_server_read_transition E'" silent13 client13_sim client13_start client13_internal process
  by (rule client13_flight [OF process_ok])

locale server12_peers =
  fixes E :: "'w env" and E' :: "'v env" and process :: "'w SSL \<Rightarrow> 'v SSL \<Rightarrow> 'v SSL"
  assumes process_ok: "server12_process_ok process"

sublocale server12_peers \<subseteq> flight "server_send E" "ossl_statem_client_read_transition E'" silent12 server12_sim server12_start "server12_internal E E'" process
  by (rule server12_flight [OF process_ok])

locale client12_peers =
  fixes E :: "'w env" and E' :: "'v env" and process :: "'w SSL \<Rightarrow> 'v SSL \<Rightarrow> 'v SSL"
  assumes process_ok: "client12_process_ok process"

sublocale client12_peers \<subseteq> flight "client_send E" "ossl_statem_server_read_transition E'" silent12 client12_sim client12_start client12_internal process
  by (rule client12_flight [OF process_ok])

text \<open>
  A client that takes over what a ServerHello says, or notes that a retry was requested, and a server that
  on processing the client's Certificate records a peer certificate exactly when one was sent.
\<close>

definition take_hello :: "'w SSL \<Rightarrow> 'v SSL \<Rightarrow> 'v SSL" where
  "take_hello s r =
     (if hand r \<noteq> TLS_ST_CR_SRVR_HELLO then r
      else if SSL_CONNECTION_IS_TLS13 s \<and> c_hello_retry_request s = SSL_HRR_PENDING then r\<lparr>c_hello_retry_request := SSL_HRR_PENDING\<rparr>
      else r\<lparr>c_method_version := c_method_version s, c_version := c_version s, c_hit := c_hit s,
             c_s3 := (c_s3 r)\<lparr>s3_new_cipher := s3_new_cipher (c_s3 s)\<rparr>,
             c_ext := (c_ext r)\<lparr>ext_ticket_expected := ext_ticket_expected (c_ext s), ext_status_expected := ext_status_expected (c_ext s)\<rparr>\<rparr>)"

definition record_cert :: "'w SSL \<Rightarrow> 'v SSL \<Rightarrow> 'v SSL" where
  "record_cert s r =
     (if hand r = TLS_ST_SR_CERT \<or> hand r = TLS_ST_SR_COMP_CERT
      then r\<lparr>c_session := (c_session r)\<lparr>sess_peer := (s3_cert_req (c_s3 s) = 1), sess_peer_rpk := False\<rparr>\<rparr> else r)"

lemma take_hello_ok: "server13_process_ok take_hello" "server12_process_ok take_hello"
  by (auto simp: server13_process_ok_def server12_process_ok_def take_hello_def server13_offer_def server12_offer_def
      server13_settled_def server12_settled_def SSL_CONNECTION_IS_TLS13_def SSL_CONNECTION_IS_DTLS_def)

lemma record_cert_ok: "client13_process_ok record_cert" "client12_process_ok record_cert"
  by (auto simp: client13_process_ok_def client12_process_ok_def record_cert_def client13_agree_def client12_agree_def eoed_awaited_def
      received_client_cert_def SSL_CONNECTION_IS_TLS13_def SSL_CONNECTION_IS_DTLS_def SSL_CONNECTION_IS_QUIC_def)

interpretation s13: server13_peers E E' take_hello for E :: "'w env" and E' :: "'v env"
  by unfold_locales (rule take_hello_ok)

interpretation c13: client13_peers E E' record_cert for E :: "'w env" and E' :: "'v env"
  by unfold_locales (rule record_cert_ok)

interpretation s12: server12_peers E E' take_hello for E :: "'w env" and E' :: "'v env"
  by unfold_locales (rule take_hello_ok)

interpretation c12: client12_peers E E' record_cert for E :: "'w env" and E' :: "'v env"
  by unfold_locales (rule record_cert_ok)

section \<open>Every flight is accepted\<close>

lemmas peer_example = blank_ssl_def set_hand_def SSL_CONNECTION_IS_TLS13_def SSL_CONNECTION_IS_DTLS_def SSL_CONNECTION_IS_QUIC_def

text \<open>
  C2: in TLS 1.3, from the first ServerHello on and through a HelloRetryRequest and the client's second ClientHello, whatever path the server takes through its flight (resumption or not, a certificate request or not, a compressed certificate or not, compatibility mode or not, early data before the answer or not), the client that received and processed what came before accepts the next message the server sends; a ChangeCipherSpec is dropped below the state machine and not counted. It is assumed that the server compresses its certificate only for a client that offered it, that no post-handshake request is pending, and of the client's processing that after a ServerHello that is no retry request it has the version and the resumption the server has, which later messages keep.
\<close>

theorem server13_flight_accepted:
  assumes "server13_process_ok process"
    and "conversation (server_send E) (ossl_statem_client_read_transition E') silent13 server13_start (server13_internal E E') process s r"
    and "server_send E s = Some (mt, s')" and "\<not> silent13 mt"
  shows "fst (ossl_statem_client_read_transition E' r mt)"
  using flight.next_accepted [OF server13_flight [OF assms(1)] assms(2-4)] .

text \<open>
  The example: a client with the version-flexible method whose first ClientHello is answered by a
  HelloRetryRequest, the second by a ServerHello; the next message is EncryptedExtensions.
\<close>

definition retry_server :: "HELLO_RETRY_REQUEST \<Rightarrow> OSSL_HANDSHAKE_STATE \<Rightarrow> unit SSL" where
  "retry_server k h = set_hand h (blank_ssl ()\<lparr>c_server := True, c_hello_retry_request := k\<rparr>)"

definition retry_client :: "nat \<Rightarrow> HELLO_RETRY_REQUEST \<Rightarrow> OSSL_HANDSHAKE_STATE \<Rightarrow> unit SSL" where
  "retry_client v k h = set_hand h (blank_ssl ()\<lparr>c_method_version := v, c_hello_retry_request := k\<rparr>)"

lemma retry_hands [simp]: "hand (retry_server k h) = h" "hand (retry_client v k h) = h"
  by (simp_all add: retry_server_def retry_client_def)

lemmas retry_example = retry_server_def retry_client_def peer_example

lemma retry_sends:
  "server_send idle_env (retry_server SSL_HRR_PENDING TLS_ST_SR_CLNT_HELLO) = Some (2, retry_server SSL_HRR_PENDING TLS_ST_SW_SRVR_HELLO)"
  "server_send idle_env (retry_server SSL_HRR_PENDING TLS_ST_SW_SRVR_HELLO) = Some (-1, retry_server SSL_HRR_PENDING TLS_ST_EARLY_DATA)"
  "server_send idle_env (retry_server SSL_HRR_COMPLETE TLS_ST_SR_CLNT_HELLO) = Some (2, retry_server SSL_HRR_COMPLETE TLS_ST_SW_SRVR_HELLO)"
  "server_send idle_env (retry_server SSL_HRR_COMPLETE TLS_ST_SW_SRVR_HELLO) = Some (8, retry_server SSL_HRR_COMPLETE TLS_ST_SW_ENCRYPTED_EXTENSIONS)"
  by (simp_all add: server_send_def retry_example ossl_statem_server_write_transition_def ossl_statem_server13_write_transition_def
      ossl_statem_server_construct_message_def)

lemma retry_reads:
  "ossl_statem_client_read_transition idle_env (retry_client 65536 k TLS_ST_CW_CLNT_HELLO) 2 = (True, retry_client 65536 k TLS_ST_CR_SRVR_HELLO)"
  "take_hello (retry_server SSL_HRR_PENDING h) (retry_client 65536 k TLS_ST_CR_SRVR_HELLO) = retry_client 65536 SSL_HRR_PENDING TLS_ST_CR_SRVR_HELLO"
  "take_hello (retry_server SSL_HRR_COMPLETE h) (retry_client 65536 k TLS_ST_CR_SRVR_HELLO) = retry_client 772 k TLS_ST_CR_SRVR_HELLO"
  by (simp_all add: retry_example ossl_statem_client_read_transition_def client_read_switch_def finish_tran_def take_hello_def)

lemma retry_hello:
  "hello_exchanged idle_env idle_env (retry_server SSL_HRR_PENDING TLS_ST_EARLY_DATA) (retry_client 65536 SSL_HRR_PENDING TLS_ST_CR_SRVR_HELLO)
     (retry_server SSL_HRR_COMPLETE TLS_ST_SR_CLNT_HELLO) (retry_client 65536 SSL_HRR_PENDING TLS_ST_CW_CLNT_HELLO)"
proof -
  have "client_send idle_env (retry_client 65536 SSL_HRR_PENDING TLS_ST_CR_SRVR_HELLO) = Some (1, retry_client 65536 SSL_HRR_PENDING TLS_ST_CW_CLNT_HELLO)"
    by (simp add: client_send_def retry_example ossl_statem_client_write_transition_def ossl_statem_client_construct_message_def)
  moreover have "ossl_statem_server_read_transition idle_env (retry_server SSL_HRR_PENDING TLS_ST_EARLY_DATA) 1 = (True, retry_server SSL_HRR_PENDING TLS_ST_SR_CLNT_HELLO)"
    by (simp add: retry_example ossl_statem_server_read_transition_def ossl_statem_server13_read_transition_def finish_tran_def)
  ultimately show ?thesis unfolding hello_exchanged_def client_hello_sent_def by (fastforce simp: retry_server_def)
qed

lemma retry_offer: "server13_offer (retry_server k h) (retry_client v k' h')"
  by (simp add: server13_offer_def server_do_compressed_cert_def get_compressed_certificate_alg_def retry_example)

abbreviation retry_conversation :: "unit SSL \<Rightarrow> unit SSL \<Rightarrow> bool" where
  "retry_conversation \<equiv> conversation (server_send idle_env) (ossl_statem_client_read_transition idle_env) silent13 server13_start
     (server13_internal idle_env idle_env) take_hello"

lemma retry_run: "retry_conversation (retry_server SSL_HRR_COMPLETE TLS_ST_SW_SRVR_HELLO) (retry_client 772 SSL_HRR_PENDING TLS_ST_CR_SRVR_HELLO)"
proof -
  have "retry_conversation (retry_server SSL_HRR_PENDING TLS_ST_SR_CLNT_HELLO) (retry_client 65536 SSL_HRR_NONE TLS_ST_CW_CLNT_HELLO)"
    by (rule conv_start) (simp add: server13_start_def retry_offer awaits_hello_def)
  from conv_loud [OF this retry_sends(1) _ retry_reads(1)]
  have "retry_conversation (retry_server SSL_HRR_PENDING TLS_ST_SW_SRVR_HELLO) (retry_client 65536 SSL_HRR_PENDING TLS_ST_CR_SRVR_HELLO)"
    by (simp add: silent13_def retry_reads)
  from conv_quiet [OF this retry_sends(2)]
  have "retry_conversation (retry_server SSL_HRR_PENDING TLS_ST_EARLY_DATA) (retry_client 65536 SSL_HRR_PENDING TLS_ST_CR_SRVR_HELLO)"
    by (simp add: silent13_def)
  from conv_internal [OF this, of "retry_server SSL_HRR_COMPLETE TLS_ST_SR_CLNT_HELLO" "retry_client 65536 SSL_HRR_PENDING TLS_ST_CW_CLNT_HELLO"]
  have "retry_conversation (retry_server SSL_HRR_COMPLETE TLS_ST_SR_CLNT_HELLO) (retry_client 65536 SSL_HRR_PENDING TLS_ST_CW_CLNT_HELLO)"
    by (simp add: server13_internal_def retry_hello retry_offer)
  from conv_loud [OF this retry_sends(3) _ retry_reads(1)] show ?thesis by (simp add: silent13_def retry_reads)
qed

theorem server13_flight_accepted_witness:
  "retry_conversation (retry_server SSL_HRR_COMPLETE TLS_ST_SW_SRVR_HELLO) (retry_client 772 SSL_HRR_PENDING TLS_ST_CR_SRVR_HELLO)
   \<and> fst (ossl_statem_client_read_transition idle_env (retry_client 772 SSL_HRR_PENDING TLS_ST_CR_SRVR_HELLO) SSL3_MT_ENCRYPTED_EXTENSIONS)"
  using server13_flight_accepted [OF take_hello_ok(1) retry_run retry_sends(4)] retry_run by (simp add: silent13_def)

text \<open>
  In TLS 1.3, the server accepts each message of the client's second flight: the end of early data when it was accepted, the certificate when one was requested, its verification when it was not empty, and the Finished message. Processing the certificate records whether there was one.
\<close>

theorem client13_flight_accepted:
  assumes "client13_process_ok process"
    and "conversation (client_send E) (ossl_statem_server_read_transition E') silent13 client13_start client13_internal process s r"
    and "client_send E s = Some (mt, s')" and "\<not> silent13 mt"
  shows "fst (ossl_statem_server_read_transition E' r mt)"
  using flight.next_accepted [OF client13_flight [OF assms(1)] assms(2-4)] .

text \<open>
  C7: up to TLS 1.2 and in DTLS, from the answer to a ClientHello (the first, the one after a HelloVerifyRequest, one for a renegotiation) and in the server's second flight, the client accepts the next message the server sends: for every cipher suite (with or without certificates, key exchange message, identity hint), with certificate status, certificate request, session ticket and resumption as the ServerHello settled them. It is assumed of the client's processing that after the ServerHello it has the version, cipher suite, resumption and extensions of the server, which later messages keep. The one server left out is one that, in a version above SSL 3, insists on a client certificate (\<open>SSL_VERIFY_FAIL_IF_NO_PEER_CERT\<close>) in an anonymous cipher suite: it sends a CertificateRequest that the client refuses.
\<close>

theorem server12_flight_accepted:
  assumes "server12_process_ok process"
    and "conversation (server_send E) (ossl_statem_client_read_transition E') silent12 server12_start (server12_internal E E') process s r"
    and "server_send E s = Some (mt, s')" and "\<not> silent12 mt"
  shows "fst (ossl_statem_client_read_transition E' r mt)"
  using flight.next_accepted [OF server12_flight [OF assms(1)] assms(2-4)] .

definition server12_demo :: "OSSL_HANDSHAKE_STATE \<Rightarrow> unit SSL" where
  "server12_demo h = set_hand h (blank_ssl ()\<lparr>c_server := True, c_method_version := 771, c_version := 771\<rparr>)"

definition client12_demo :: "nat \<Rightarrow> OSSL_HANDSHAKE_STATE \<Rightarrow> unit SSL" where
  "client12_demo v h = set_hand h (blank_ssl ()\<lparr>c_method_version := v, c_version := 771\<rparr>)"

lemma demo12_sends:
  "server_send idle_env (server12_demo TLS_ST_SR_CLNT_HELLO) = Some (2, server12_demo TLS_ST_SW_SRVR_HELLO)"
  "server_send idle_env (server12_demo TLS_ST_SW_SRVR_HELLO) = Some (11, server12_demo TLS_ST_SW_CERT)"
  by (simp_all add: server_send_def server12_demo_def peer_example ossl_statem_server_write_transition_def sw_srvr_hello_def
      ossl_statem_server_construct_message_def SSL_IS_FIRST_HANDSHAKE_def)

lemma demo12_reads:
  "ossl_statem_client_read_transition idle_env (client12_demo 65536 TLS_ST_CW_CLNT_HELLO) 2 = (True, client12_demo 65536 TLS_ST_CR_SRVR_HELLO)"
  "take_hello (server12_demo h) (client12_demo v TLS_ST_CR_SRVR_HELLO) = client12_demo 771 TLS_ST_CR_SRVR_HELLO"
  by (simp_all add: server12_demo_def client12_demo_def peer_example ossl_statem_client_read_transition_def client_read_switch_def finish_tran_def take_hello_def)

theorem server12_flight_accepted_witness:
  "fst (ossl_statem_client_read_transition idle_env (client12_demo 771 TLS_ST_CR_SRVR_HELLO) SSL3_MT_CERTIFICATE)"
proof -
  let ?conv = "conversation (server_send idle_env) (ossl_statem_client_read_transition idle_env) silent12 server12_start
    (server12_internal idle_env idle_env) take_hello"
  have "?conv (server12_demo TLS_ST_SR_CLNT_HELLO) (client12_demo 65536 TLS_ST_CW_CLNT_HELLO)"
    by (rule conv_start) (simp add: server12_start_def server12_offer_def awaits_hello12_def server12_demo_def client12_demo_def peer_example)
  from conv_loud [OF this demo12_sends(1) _ demo12_reads(1)]
  have "?conv (server12_demo TLS_ST_SW_SRVR_HELLO) (client12_demo 771 TLS_ST_CR_SRVR_HELLO)" by (simp add: silent12_def demo12_reads)
  from server12_flight_accepted [OF take_hello_ok(2) this demo12_sends(2)] show ?thesis by (simp add: silent12_def)
qed

text \<open>The server left out: in an anonymous cipher suite above SSL 3 the client refuses every CertificateRequest.\<close>

lemma anonymous_request_refused:
  assumes "\<not> SSL_CONNECTION_IS_TLS13 r" and "c_version r > SSL3_VERSION" and "algorithm_auth (s3_new_cipher (c_s3 r)) AND SSL_aNULL \<noteq> 0"
    and "\<not> c_hit r" and "hand r = TLS_ST_CR_SRVR_HELLO \<or> hand r = TLS_ST_CR_KEY_EXCH"
  shows "\<not> fst (ossl_statem_client_read_transition E r SSL3_MT_CERTIFICATE_REQUEST)"
  using assms
  by (auto simp: ossl_statem_client_read_transition_def client_read_switch_def cr_srvr_hello_def cr_key_exch_def cr_cert_req_def
      cert_req_allowed_def finish_tran_def read_transition_err_def)

text \<open>
  C6: up to TLS 1.2 and in DTLS, the server accepts the next message the client sends: a first ClientHello, one after a HelloVerifyRequest and one for a renegotiation the client starts itself; the certificate, the key exchange, its verification, the change of cipher and the Finished message. It is assumed that the server requested a certificate exactly when the client is about to send one, that both agree on whether the verification is left out, that no retry and no early data is under way, and that the server has no client certificate yet when the client's flight begins; and of the server's processing that the Certificate message leaves a peer certificate exactly when the client sent one and the key exchange keeps it.
\<close>

theorem client12_flight_accepted:
  assumes "client12_process_ok process"
    and "conversation (client_send E) (ossl_statem_server_read_transition E') silent12 client12_start client12_internal process s r"
    and "client_send E s = Some (mt, s')" and "\<not> silent12 mt"
  shows "fst (ossl_statem_server_read_transition E' r mt)"
  using flight.next_accepted [OF client12_flight [OF assms(1)] assms(2-4)] .

definition cert_client :: "OSSL_HANDSHAKE_STATE \<Rightarrow> unit SSL" where
  "cert_client h = set_hand h (blank_ssl ()\<lparr>c_method_version := 771, c_version := 771, c_s3 := (c_s3 (blank_ssl ()))\<lparr>s3_cert_req := 1\<rparr>\<rparr>)"

definition cert_server :: "bool \<Rightarrow> OSSL_HANDSHAKE_STATE \<Rightarrow> unit SSL" where
  "cert_server p h = set_hand h (blank_ssl ()\<lparr>c_server := True, c_method_version := 771, c_version := 771,
     c_s3 := (c_s3 (blank_ssl ()))\<lparr>s3_cert_request := True\<rparr>, c_session := (c_session (blank_ssl ()))\<lparr>sess_peer := p\<rparr>\<rparr>)"

lemmas cert_example = cert_client_def cert_server_def peer_example

lemma cert_sends:
  "client_send idle_env (cert_client TLS_ST_CR_SRVR_DONE) = Some (11, cert_client TLS_ST_CW_CERT)"
  "client_send idle_env (cert_client TLS_ST_CW_CERT) = Some (16, cert_client TLS_ST_CW_KEY_EXCH)"
  "client_send idle_env (cert_client TLS_ST_CW_KEY_EXCH) = Some (15, cert_client TLS_ST_CW_CERT_VRFY)"
  by (simp_all add: client_send_def cert_example ossl_statem_client_write_transition_def ossl_statem_client_construct_message_def)

lemma cert_reads:
  "ossl_statem_server_read_transition idle_env (cert_server p TLS_ST_SW_SRVR_DONE) 11 = (True, cert_server p TLS_ST_SR_CERT)"
  "ossl_statem_server_read_transition idle_env (cert_server p TLS_ST_SR_CERT) 16 = (True, cert_server p TLS_ST_SR_KEY_EXCH)"
  "record_cert (cert_client h) (cert_server p TLS_ST_SR_CERT) = cert_server True TLS_ST_SR_CERT"
  "record_cert (cert_client h) (cert_server p TLS_ST_SR_KEY_EXCH) = cert_server p TLS_ST_SR_KEY_EXCH"
  by (simp_all add: cert_example ossl_statem_server_read_transition_def server_read_switch_def sr_after_done_def finish_tran_def record_cert_def)

theorem client12_flight_accepted_witness:
  "fst (ossl_statem_server_read_transition idle_env (cert_server True TLS_ST_SR_KEY_EXCH) SSL3_MT_CERTIFICATE_VERIFY)"
proof -
  let ?conv = "conversation (client_send idle_env) (ossl_statem_server_read_transition idle_env) silent12 client12_start client12_internal record_cert"
  have "?conv (cert_client TLS_ST_CR_SRVR_DONE) (cert_server False TLS_ST_SW_SRVR_DONE)"
    by (rule conv_start) (simp add: client12_start_def client12_agree_def received_client_cert_def cert_example)
  from conv_loud [OF this cert_sends(1) _ cert_reads(1)]
  have "?conv (cert_client TLS_ST_CW_CERT) (cert_server True TLS_ST_SR_CERT)" by (simp add: silent12_def cert_reads)
  from conv_loud [OF this cert_sends(2) _ cert_reads(2)]
  have "?conv (cert_client TLS_ST_CW_KEY_EXCH) (cert_server True TLS_ST_SR_KEY_EXCH)" by (simp add: silent12_def cert_reads)
  from client12_flight_accepted [OF record_cert_ok(2) this cert_sends(3)] show ?thesis by (simp add: silent12_def)
qed

end
