(* ===== verification/Statem_Flow.thy ===== *)
theory Statem_Flow
  imports Statem_Client Statem_Server
begin

text \<open>
  The message flow, \<open>ssl/statem/statem.c\<close>: the reading and the writing sub-machine, which call one side
  or the other, and \<open>state_machine\<close>, which alternates them.

  A pass of a \<open>while\<close> loop is a function into \<open>pass_result\<close>. The loops may run as long as the peer sends
  messages, so they are partial functions: \<open>None\<close> is a run that does not return.
\<close>

datatype 'w pass_result = Loop "'w SSL" | Stop SUB_STATE_RETURN "'w SSL"

definition info_cb :: "'w env \<Rightarrow> 'w SSL \<Rightarrow> 'w SSL" where
  "info_cb E s = snd (e_int E F_info_callback s)"

definition message_source :: "'w SSL \<Rightarrow> get_fn" where
  "message_source s =
     (if SSL_CONNECTION_IS_DTLS s then G_dtls else if SSL_CONNECTION_IS_QUIC s then G_quic else G_tls)"

section \<open>The reading sub-machine\<close>

definition init_read_state_machine :: "'w SSL \<Rightarrow> 'w SSL" where
  "init_read_state_machine s = s\<lparr>c_statem := (c_statem s)\<lparr>st_read_state := READ_STATE_HEADER\<rparr>\<rparr>"

definition set_read_state :: "READ_STATE \<Rightarrow> 'w SSL \<Rightarrow> 'w SSL" where
  "set_read_state r s = s\<lparr>c_statem := (c_statem s)\<lparr>st_read_state := r\<rparr>\<rparr>"

definition stop_timer :: "'w env \<Rightarrow> 'w SSL \<Rightarrow> 'w SSL" where
  "stop_timer E s = (if SSL_CONNECTION_IS_DTLS s then snd (e_int E F_dtls1_stop_timer s) else s)"

definition read_body :: "'w env \<Rightarrow> bool \<Rightarrow> 'w SSL \<Rightarrow> 'w pass_result" where
  "read_body E srv s =
     (case e_get_message_body E (message_source s) s of
        (None, s) \<Rightarrow> Stop SUB_STATE_ERROR s
      | (Some len, s) \<Rightarrow>
          let s = s\<lparr>c_first_packet := False\<rparr> in
          if len > SIZE_MAX div 2 then Stop SUB_STATE_ERROR (SSLfatal s SSL_AD_INTERNAL_ERROR)
          else
            (case (if srv then ossl_statem_server_process_message E s len else ossl_statem_client_process_message E s len) of
               (ret, s) \<Rightarrow>
                 let s = s\<lparr>c_init_num := 0\<rparr> in
                 (case ret of
                    MSG_PROCESS_ERROR \<Rightarrow> Stop SUB_STATE_ERROR (check_fatal s)
                  | MSG_PROCESS_FINISHED_READING \<Rightarrow> Stop SUB_STATE_FINISHED (stop_timer E s)
                  | MSG_PROCESS_CONTINUE_PROCESSING \<Rightarrow>
                      Loop (s\<lparr>c_statem := (c_statem s)\<lparr>st_read_state := READ_STATE_POST_PROCESS, st_read_state_work := WORK_MORE_A\<rparr>\<rparr>)
                  | MSG_PROCESS_CONTINUE_READING \<Rightarrow> Loop (set_read_state READ_STATE_HEADER s))))"

definition read_header :: "'w env \<Rightarrow> bool \<Rightarrow> 'w SSL \<Rightarrow> 'w pass_result" where
  "read_header E srv s =
     (case e_get_message E (message_source s) s of
        (None, s) \<Rightarrow> Stop SUB_STATE_ERROR s
      | (Some mt, s) \<Rightarrow>
          (case (if srv then ossl_statem_server_read_transition E (info_cb E s) mt
                 else ossl_statem_client_read_transition E (info_cb E s) mt) of
             (False, s) \<Rightarrow> Stop SUB_STATE_ERROR s
           | (True, s) \<Rightarrow>
               if s3_message_size (c_s3 s) > (if srv then ossl_statem_server_max_message_size s else ossl_statem_client_max_message_size s)
               then Stop SUB_STATE_ERROR (SSLfatal s SSL_AD_ILLEGAL_PARAMETER)
               else
                 (case (if \<not> SSL_CONNECTION_IS_DTLS s \<and> \<not> SSL_CONNECTION_IS_QUIC s \<and> s3_message_size (c_s3 s) > 0
                        then e_int E F_grow_init_buf s else (1, s)) of
                    (r, s) \<Rightarrow> if r = 0 then Stop SUB_STATE_ERROR (SSLfatal s SSL_AD_INTERNAL_ERROR)
                             else read_body E srv (set_read_state READ_STATE_BODY s))))"

definition read_post_process :: "'w env \<Rightarrow> bool \<Rightarrow> 'w SSL \<Rightarrow> 'w pass_result" where
  "read_post_process E srv s =
     (case (if srv then ossl_statem_server_post_process_message E s (st_read_state_work (c_statem s))
            else ossl_statem_client_post_process_message E s (st_read_state_work (c_statem s))) of
        (w, s) \<Rightarrow>
          let s = s\<lparr>c_statem := (c_statem s)\<lparr>st_read_state_work := w\<rparr>\<rparr> in
          (case w of
             WORK_ERROR \<Rightarrow> Stop SUB_STATE_ERROR (check_fatal s)
           | WORK_FINISHED_CONTINUE \<Rightarrow> Loop (set_read_state READ_STATE_HEADER s)
           | WORK_FINISHED_STOP \<Rightarrow> Stop SUB_STATE_FINISHED (stop_timer E s)
           | _ \<Rightarrow> Stop SUB_STATE_ERROR s))"

definition read_pass :: "'w env \<Rightarrow> bool \<Rightarrow> 'w SSL \<Rightarrow> 'w pass_result" where
  "read_pass E srv s =
     (case st_read_state (c_statem s) of
        READ_STATE_HEADER \<Rightarrow> read_header E srv s
      | READ_STATE_BODY \<Rightarrow> read_body E srv s
      | READ_STATE_POST_PROCESS \<Rightarrow> read_post_process E srv s)"

partial_function (option) read_loop :: "'w env \<Rightarrow> bool \<Rightarrow> 'w SSL \<Rightarrow> (SUB_STATE_RETURN \<times> 'w SSL) option" where
  "read_loop E srv s = (case read_pass E srv s of Loop s' \<Rightarrow> read_loop E srv s' | Stop r s' \<Rightarrow> Some (r, s'))"

definition read_state_machine :: "'w env \<Rightarrow> 'w SSL \<Rightarrow> (SUB_STATE_RETURN \<times> 'w SSL) option" where
  "read_state_machine E s =
     read_loop E (c_server s)
       (if st_read_state_first_init (c_statem s)
        then s\<lparr>c_first_packet := True, c_statem := (c_statem s)\<lparr>st_read_state_first_init := False\<rparr>\<rparr> else s)"

section \<open>The writing sub-machine\<close>

definition init_write_state_machine :: "'w SSL \<Rightarrow> 'w SSL" where
  "init_write_state_machine s = s\<lparr>c_statem := (c_statem s)\<lparr>st_write_state := WRITE_STATE_TRANSITION\<rparr>\<rparr>"

definition set_write_state :: "WRITE_STATE \<Rightarrow> 'w SSL \<Rightarrow> 'w SSL" where
  "set_write_state w s = s\<lparr>c_statem := (c_statem s)\<lparr>st_write_state := w\<rparr>\<rparr>"

definition set_write_work :: "WORK_STATE \<Rightarrow> 'w SSL \<Rightarrow> 'w SSL" where
  "set_write_work w s = s\<lparr>c_statem := (c_statem s)\<lparr>st_write_state_work := w\<rparr>\<rparr>"

definition statem_do_write :: "'w env \<Rightarrow> 'w SSL \<Rightarrow> int \<times> 'w SSL" where
  "statem_do_write E s =
     (if hand s = TLS_ST_CW_CHANGE \<or> hand s = TLS_ST_SW_CHANGE then
        if SSL_CONNECTION_IS_DTLS s then e_int E F_dtls1_do_write_ccs s else e_int E F_ssl3_do_write_ccs s
      else e_int E F_ssl_do_write s)"

definition write_transition :: "'w env \<Rightarrow> bool \<Rightarrow> 'w SSL \<Rightarrow> 'w pass_result" where
  "write_transition E srv s =
     (case (if srv then ossl_statem_server_write_transition E (info_cb E s)
            else ossl_statem_client_write_transition E (info_cb E s)) of
        (WRITE_TRAN_CONTINUE, s) \<Rightarrow> Loop (set_write_work WORK_MORE_A (set_write_state WRITE_STATE_PRE_WORK s))
      | (WRITE_TRAN_FINISHED, s) \<Rightarrow> Stop SUB_STATE_FINISHED s
      | (WRITE_TRAN_ERROR, s) \<Rightarrow> Stop SUB_STATE_ERROR (check_fatal s))"

definition write_post_work :: "'w env \<Rightarrow> bool \<Rightarrow> 'w SSL \<Rightarrow> 'w pass_result" where
  "write_post_work E srv s =
     (case (if srv then ossl_statem_server_post_work E s (st_write_state_work (c_statem s))
            else ossl_statem_client_post_work E s (st_write_state_work (c_statem s))) of
        (w, s) \<Rightarrow>
          let s = set_write_work w s in
          (case w of
             WORK_ERROR \<Rightarrow> Stop SUB_STATE_ERROR (check_fatal s)
           | WORK_FINISHED_CONTINUE \<Rightarrow> Loop (set_write_state WRITE_STATE_TRANSITION s)
           | WORK_FINISHED_STOP \<Rightarrow> Stop SUB_STATE_END_HANDSHAKE s
           | _ \<Rightarrow> Stop SUB_STATE_ERROR s))"

definition write_send :: "'w env \<Rightarrow> bool \<Rightarrow> 'w SSL \<Rightarrow> 'w pass_result" where
  "write_send E srv s =
     (let s = (if SSL_CONNECTION_IS_DTLS s \<and> st_use_timer (c_statem s) then snd (e_int E F_dtls1_start_timer s) else s) in
      case statem_do_write E s of
        (ret, s) \<Rightarrow>
          if ret \<le> 0 then Stop SUB_STATE_ERROR s
          else write_post_work E srv (set_write_work WORK_MORE_A (set_write_state WRITE_STATE_POST_WORK s)))"

definition write_construct :: "'w env \<Rightarrow> bool \<Rightarrow> 'w SSL \<Rightarrow> 'w pass_result" where
  "write_construct E srv s =
     (case (if srv then ossl_statem_server_construct_message s else ossl_statem_client_construct_message s) of
        (None, s) \<Rightarrow> Stop SUB_STATE_ERROR s
      | (Some (confunc, mt), s) \<Rightarrow>
          if mt = SSL3_MT_DUMMY then Loop (set_write_work WORK_MORE_A (set_write_state WRITE_STATE_POST_WORK s))
          else
            (case e_int E (F_ssl_set_handshake_header mt) s of
               (r, s) \<Rightarrow>
                 if r = 0 then Stop SUB_STATE_ERROR (SSLfatal s SSL_AD_INTERNAL_ERROR)
                 else
                   (case (case confunc of None \<Rightarrow> (CON_FUNC_SUCCESS, s) | Some f \<Rightarrow> e_construct E f s) of
                      (CON_FUNC_ERROR, s) \<Rightarrow> Stop SUB_STATE_ERROR (check_fatal s)
                    | (CON_FUNC_DONT_SEND, s) \<Rightarrow> Loop (set_write_work WORK_MORE_A (set_write_state WRITE_STATE_POST_WORK s))
                    | (CON_FUNC_SUCCESS, s) \<Rightarrow>
                        (case e_int E (F_ssl_close_construct_packet mt) s of
                           (r, s) \<Rightarrow> if r = 0 then Stop SUB_STATE_ERROR (SSLfatal s SSL_AD_INTERNAL_ERROR)
                                    else write_send E srv s))))"

definition write_pre_work :: "'w env \<Rightarrow> bool \<Rightarrow> 'w SSL \<Rightarrow> 'w pass_result" where
  "write_pre_work E srv s =
     (case (if srv then ossl_statem_server_pre_work E s (st_write_state_work (c_statem s))
            else ossl_statem_client_pre_work E s (st_write_state_work (c_statem s))) of
        (w, s) \<Rightarrow>
          let s = set_write_work w s in
          (case w of
             WORK_ERROR \<Rightarrow> Stop SUB_STATE_ERROR (check_fatal s)
           | WORK_FINISHED_CONTINUE \<Rightarrow> write_construct E srv (set_write_state WRITE_STATE_SEND s)
           | WORK_FINISHED_STOP \<Rightarrow> Stop SUB_STATE_END_HANDSHAKE s
           | _ \<Rightarrow> Stop SUB_STATE_ERROR s))"

definition write_pass :: "'w env \<Rightarrow> bool \<Rightarrow> 'w SSL \<Rightarrow> 'w pass_result" where
  "write_pass E srv s =
     (case st_write_state (c_statem s) of
        WRITE_STATE_TRANSITION \<Rightarrow> write_transition E srv s
      | WRITE_STATE_PRE_WORK \<Rightarrow> write_pre_work E srv s
      | WRITE_STATE_SEND \<Rightarrow> write_send E srv s
      | WRITE_STATE_POST_WORK \<Rightarrow> write_post_work E srv s)"

partial_function (option) write_loop :: "'w env \<Rightarrow> bool \<Rightarrow> 'w SSL \<Rightarrow> (SUB_STATE_RETURN \<times> 'w SSL) option" where
  "write_loop E srv s = (case write_pass E srv s of Loop s' \<Rightarrow> write_loop E srv s' | Stop r s' \<Rightarrow> Some (r, s'))"

definition write_state_machine :: "'w env \<Rightarrow> 'w SSL \<Rightarrow> (SUB_STATE_RETURN \<times> 'w SSL) option" where
  "write_state_machine E s = write_loop E (c_server s) s"

section \<open>The main state machine\<close>

definition set_flow :: "MSG_FLOW_STATE \<Rightarrow> 'w SSL \<Rightarrow> 'w SSL" where
  "set_flow f s = s\<lparr>c_statem := (c_statem s)\<lparr>st_state := f\<rparr>\<rparr>"

text \<open>The loop of \<open>state_machine\<close>; the flag of \<open>Leave\<close> tells whether it was left at its end or through \<open>goto end\<close>.\<close>

datatype 'w flow_result = Again "'w SSL" | Leave bool "'w SSL"

definition flow_pass :: "'w env \<Rightarrow> 'w SSL \<Rightarrow> 'w flow_result option" where
  "flow_pass E s =
     (if flow s = MSG_FLOW_FINISHED then Some (Leave True s)
      else if flow s = MSG_FLOW_READING then
        map_option (\<lambda>(ssret, s).
          if ssret = SUB_STATE_FINISHED then Again (init_write_state_machine (set_flow MSG_FLOW_WRITING s))
          else Leave False s) (read_state_machine E s)
      else if flow s = MSG_FLOW_WRITING then
        map_option (\<lambda>(ssret, s).
          if ssret = SUB_STATE_FINISHED then Again (init_read_state_machine (set_flow MSG_FLOW_READING s))
          else if ssret = SUB_STATE_END_HANDSHAKE then Again (set_flow MSG_FLOW_FINISHED s)
          else Leave False s) (write_state_machine E s)
      else Some (Leave False (check_fatal s)))"

partial_function (option) flow_loop :: "'w env \<Rightarrow> 'w SSL \<Rightarrow> (bool \<times> 'w SSL) option" where
  "flow_loop E s =
     Option.bind (flow_pass E s) (\<lambda>x. case x of Again s' \<Rightarrow> flow_loop E s' | Leave ok s' \<Rightarrow> Some (ok, s'))"

definition version_family_ok :: "'w SSL \<Rightarrow> bool \<Rightarrow> bool" where
  "version_family_ok s server =
     (if SSL_CONNECTION_IS_DTLS s then
        \<not> (c_version s div 256 \<noteq> DTLS1_VERSION div 256 \<and> (server \<or> c_version s div 256 \<noteq> DTLS1_BAD_VER div 256))
      else c_version s div 256 = 3)"

text \<open>
  The initialisation, when no handshake is in progress: \<open>Inl\<close> for \<open>goto end\<close>, \<open>Inr\<close> to enter the loop.
\<close>

definition flow_setup :: "'w env \<Rightarrow> 'w SSL \<Rightarrow> 'w SSL + 'w SSL" where
  "flow_setup E s =
     (case (if SSL_in_before s \<or> c_renegotiate s then e_int E F_tls_setup_handshake s else (1, s)) of
        (r, s') \<Rightarrow>
          if (SSL_in_before s \<or> c_renegotiate s) \<and> r = 0 then Inl s'
          else
            let s' = (if (SSL_in_before s \<or> c_renegotiate s) \<and> SSL_IS_FIRST_HANDSHAKE s'
                      then s'\<lparr>c_statem := (c_statem s')\<lparr>st_read_state_first_init := True\<rparr>\<rparr> else s')
            in Inr (init_write_state_machine (set_flow MSG_FLOW_WRITING s')))"

definition flow_init :: "'w env \<Rightarrow> bool \<Rightarrow> 'w SSL \<Rightarrow> 'w SSL + 'w SSL" where
  "flow_init E server s =
     (let s = (if flow s = MSG_FLOW_UNINITED
               then s\<lparr>c_statem := (c_statem s)\<lparr>st_hand_state := TLS_ST_BEFORE, st_request_state := TLS_ST_BEFORE\<rparr>\<rparr> else s);
          s = s\<lparr>c_server := server\<rparr>;
          s = (if SSL_IS_FIRST_HANDSHAKE s \<or> \<not> SSL_CONNECTION_IS_TLS13 s then info_cb E s else s)
      in
      if \<not> version_family_ok s server then Inl (SSLfatal s SSL_AD_NO_ALERT)
      else
        (case e_int E F_ssl_security s of
           (r, s) \<Rightarrow>
             if r = 0 then Inl (SSLfatal s SSL_AD_NO_ALERT)
             else
               (case e_int E F_init_buf s of
                  (r, s) \<Rightarrow>
                    if r = 0 then Inl (SSLfatal s SSL_AD_NO_ALERT)
                    else
                      let s = s\<lparr>c_init_num := 0, c_s3 := (c_s3 s)\<lparr>s3_change_cipher_spec := False\<rparr>\<rparr> in
                      (case e_int E F_ssl_init_wbio_buffer s of
                         (r, s) \<Rightarrow> if r = 0 then Inl (SSLfatal s SSL_AD_NO_ALERT) else flow_setup E s))))"

definition leave :: "'w env \<Rightarrow> int \<Rightarrow> 'w SSL \<Rightarrow> int \<times> 'w SSL" where
  "leave E ret s = (ret, info_cb E (ossl_statem_set_in_handshake s False))"

definition state_machine :: "'w env \<Rightarrow> bool \<Rightarrow> 'w SSL \<Rightarrow> (int \<times> 'w SSL) option" where
  "state_machine E server s =
     (if flow s = MSG_FLOW_ERROR then Some (-1, s)
      else
        let s = ossl_statem_set_in_handshake s True in
        (case (if (\<not> SSL_in_init s \<or> SSL_in_before s) \<and> s3_flags (c_s3 s) AND TLS1_FLAGS_STATELESS = 0
               then e_int E F_ssl_clear s else (1, s)) of
           (r, s) \<Rightarrow>
             if r = 0 then Some (-1, s)
             else
               (case (if flow s = MSG_FLOW_UNINITED \<or> flow s = MSG_FLOW_FINISHED then flow_init E server s else Inr s) of
                  Inl s \<Rightarrow> Some (leave E (-1) s)
                | Inr s \<Rightarrow>
                    map_option (\<lambda>(ok, s). leave E (if ok then 1 else -1) s) (flow_loop E s))))"

definition ossl_statem_connect :: "'w env \<Rightarrow> 'w SSL \<Rightarrow> (int \<times> 'w SSL) option" where
  "ossl_statem_connect E s = state_machine E False s"

definition ossl_statem_accept :: "'w env \<Rightarrow> 'w SSL \<Rightarrow> (int \<times> 'w SSL) option" where
  "ossl_statem_accept E s = state_machine E True s"


section \<open>Rules for the loops\<close>

text \<open>What every pass keeps, and every way out establishes, holds when the loop returns.\<close>

lemma read_loop_rule:
  fixes E :: "'w env"
  assumes pass: "\<And>s s'. I s \<Longrightarrow> read_pass E srv s = Loop s' \<Longrightarrow> I s'"
    and stop: "\<And>s r s'. I s \<Longrightarrow> read_pass E srv s = Stop r s' \<Longrightarrow> Q r s'"
    and ret: "read_loop E srv s = Some (r, s')" and init: "I s"
  shows "Q r s'"
proof -
  have "E' = E \<longrightarrow> srv' = srv \<longrightarrow> I s \<longrightarrow> Q (fst y) (snd y)" if "read_loop E' srv' s = Some y" for E' srv' s y
    using that
  proof (rule read_loop.raw_induct [rotated])
    fix f :: "'w env \<Rightarrow> bool \<Rightarrow> 'w SSL \<Rightarrow> (SUB_STATE_RETURN \<times> 'w SSL) option" and E' srv' s y
    assume "\<And>E' srv' s y. f E' srv' s = Some y \<Longrightarrow> E' = E \<longrightarrow> srv' = srv \<longrightarrow> I s \<longrightarrow> Q (fst y) (snd y)"
      and "(case read_pass E' srv' s of Loop s' \<Rightarrow> f E' srv' s' | Stop r s' \<Rightarrow> Some (r, s')) = Some y"
    then show "E' = E \<longrightarrow> srv' = srv \<longrightarrow> I s \<longrightarrow> Q (fst y) (snd y)"
      using pass [of s] stop [of s] by (cases "read_pass E' srv' s") auto
  qed
  from this [OF ret] init show ?thesis by simp
qed

lemma write_loop_rule:
  fixes E :: "'w env"
  assumes pass: "\<And>s s'. I s \<Longrightarrow> write_pass E srv s = Loop s' \<Longrightarrow> I s'"
    and stop: "\<And>s r s'. I s \<Longrightarrow> write_pass E srv s = Stop r s' \<Longrightarrow> Q r s'"
    and ret: "write_loop E srv s = Some (r, s')" and init: "I s"
  shows "Q r s'"
proof -
  have "E' = E \<longrightarrow> srv' = srv \<longrightarrow> I s \<longrightarrow> Q (fst y) (snd y)" if "write_loop E' srv' s = Some y" for E' srv' s y
    using that
  proof (rule write_loop.raw_induct [rotated])
    fix f :: "'w env \<Rightarrow> bool \<Rightarrow> 'w SSL \<Rightarrow> (SUB_STATE_RETURN \<times> 'w SSL) option" and E' srv' s y
    assume "\<And>E' srv' s y. f E' srv' s = Some y \<Longrightarrow> E' = E \<longrightarrow> srv' = srv \<longrightarrow> I s \<longrightarrow> Q (fst y) (snd y)"
      and "(case write_pass E' srv' s of Loop s' \<Rightarrow> f E' srv' s' | Stop r s' \<Rightarrow> Some (r, s')) = Some y"
    then show "E' = E \<longrightarrow> srv' = srv \<longrightarrow> I s \<longrightarrow> Q (fst y) (snd y)"
      using pass [of s] stop [of s] by (cases "write_pass E' srv' s") auto
  qed
  from this [OF ret] init show ?thesis by simp
qed

lemma flow_loop_rule:
  fixes E :: "'w env"
  assumes pass: "\<And>s s'. I s \<Longrightarrow> flow_pass E s = Some (Again s') \<Longrightarrow> I s'"
    and leave: "\<And>s ok s'. I s \<Longrightarrow> flow_pass E s = Some (Leave ok s') \<Longrightarrow> Q ok s'"
    and ret: "flow_loop E s = Some (ok, s')" and init: "I s"
  shows "Q ok s'"
proof -
  have "E' = E \<longrightarrow> I s \<longrightarrow> Q (fst y) (snd y)" if "flow_loop E' s = Some y" for E' s y
    using that
  proof (rule flow_loop.raw_induct [rotated])
    fix f :: "'w env \<Rightarrow> 'w SSL \<Rightarrow> (bool \<times> 'w SSL) option" and E' s y
    assume IH: "\<And>E' s y. f E' s = Some y \<Longrightarrow> E' = E \<longrightarrow> I s \<longrightarrow> Q (fst y) (snd y)"
      and st: "Option.bind (flow_pass E' s) (\<lambda>x. case x of Again s' \<Rightarrow> f E' s' | Leave ok s' \<Rightarrow> Some (ok, s')) = Some y"
    from st obtain x where x: "flow_pass E' s = Some x" "(case x of Again s' \<Rightarrow> f E' s' | Leave ok s' \<Rightarrow> Some (ok, s')) = Some y"
      by (auto simp: bind_eq_Some_conv)
    then show "E' = E \<longrightarrow> I s \<longrightarrow> Q (fst y) (snd y)"
      using IH pass [of s] leave [of s] by (cases x) auto
  qed
  from this [OF ret] init show ?thesis by simp
qed

end
