(* ===== verification/Statem_Run.thy ===== *)
theory Statem_Run
  imports Statem_Flow
begin

text \<open>
  Properties of whole runs of the state machine: when it reports a completed handshake, what an
  unacceptable message does to it, that a call which finds nothing to read changes nothing, that
  the count of calls in progress is kept, and that no transition leads to a state without a handler.
\<close>

section \<open>Completion\<close>

text \<open>The functions called between the decision to finish and the return to the application.\<close>

definition finish_callees :: "callee list" where
  "finish_callees =
     [F_info_callback, F_free_init_buf, F_ssl_free_wbio_buffer, F_ssl3_cleanup_key_block, F_ssl_update_cache_server,
      F_ssl_update_cache_client, F_SSL_CTX_remove_session, F_dtls1_clear_received_buffer]"

definition finish_keeps_statem :: "'w env \<Rightarrow> bool" where
  "finish_keeps_statem E \<longleftrightarrow> (\<forall>f s. f \<in> set finish_callees \<longrightarrow> c_statem (snd (e_int E f s)) = c_statem s)"

lemma finish_keeps:
  assumes "finish_keeps_statem E"
  shows "c_statem (call E F_info_callback s) = c_statem s" "c_statem (call E F_free_init_buf s) = c_statem s"
    "c_statem (snd (e_int E F_ssl_free_wbio_buffer s)) = c_statem s" "c_statem (call E F_ssl3_cleanup_key_block s) = c_statem s"
    "c_statem (call E F_ssl_update_cache_server s) = c_statem s" "c_statem (call E F_ssl_update_cache_client s) = c_statem s"
    "c_statem (call E F_SSL_CTX_remove_session s) = c_statem s" "c_statem (call E F_dtls1_clear_received_buffer s) = c_statem s"
    "c_statem (info_cb E s) = c_statem s"
  using assms by (simp_all add: finish_keeps_statem_def finish_callees_def call_def info_cb_def)

lemma finish_clearbufs_hand:
  "finish_keeps_statem E \<Longrightarrow> hand (snd (finish_clearbufs E s)) = hand s"
  using finish_keeps(3) [of E "if \<not> SSL_CONNECTION_IS_DTLS s then call E F_free_init_buf s else s"] finish_keeps(2) [of E s]
  by (auto simp: finish_clearbufs_def split: prod.splits)

lemma finish_cleanuphand_hand:
  "finish_keeps_statem E \<Longrightarrow> hand (finish_cleanuphand E s) = hand s"
  by (simp add: finish_cleanuphand_def Let_def finish_keeps)

lemma finish_handshake_stop:
  assumes k: "finish_keeps_statem E" and r: "tls_finish_handshake E s wst clearbufs stop = (WORK_FINISHED_STOP, s')"
  shows "hand s' = hand s \<and> \<not> st_in_init (c_statem s')"
proof -
  obtain b s1 where b: "(if clearbufs then finish_clearbufs E s else (True, s)) = (b, s1)" by fastforce
  have "hand s1 = hand s" using b finish_clearbufs_hand [OF k, of s] by (auto split: if_splits)
  then show ?thesis
    using r b by (auto simp: tls_finish_handshake_def Let_def finish_keeps [OF k] finish_cleanuphand_hand [OF k] split: bool.splits if_splits)
qed

lemma finish_handshake_result:
  "fst (tls_finish_handshake E s wst clearbufs stop) \<in> (if stop then {WORK_ERROR, WORK_FINISHED_STOP} else {WORK_ERROR, WORK_FINISHED_CONTINUE})"
  by (auto simp: tls_finish_handshake_def Let_def split: prod.splits bool.splits)

abbreviation end_states :: "OSSL_HANDSHAKE_STATE set" where
  "end_states \<equiv> {TLS_ST_OK, TLS_ST_EARLY_DATA, TLS_ST_PENDING_EARLY_DATA_END}"

lemma client_pre_work_stop:
  assumes k: "finish_keeps_statem E" and r: "ossl_statem_client_pre_work E s w = (WORK_FINISHED_STOP, s')"
  shows "hand s' \<in> end_states \<and> \<not> st_in_init (c_statem s')"
  using r finish_handshake_stop [OF k, of s w]
  by (auto simp: ossl_statem_client_pre_work_def Let_def split: if_splits prod.splits)

lemma server_pre_work_stop:
  assumes k: "finish_keeps_statem E" and r: "ossl_statem_server_pre_work E s w = (WORK_FINISHED_STOP, s')"
  shows "hand s' \<in> end_states \<and> \<not> st_in_init (c_statem s')"
  using r finish_handshake_stop [OF k, of s w] finish_handshake_result [of E s w False False]
  by (auto simp: ossl_statem_server_pre_work_def sw_change_pre_work_def Let_def split: if_splits prod.splits)

text \<open>Nothing done after sending a message ends the handshake.\<close>

definition no_stop :: "WORK_STATE \<times> 'w SSL \<Rightarrow> bool" where
  "no_stop r \<longleftrightarrow> fst r \<noteq> WORK_FINISHED_STOP"

lemma no_stop_if: "(b \<Longrightarrow> no_stop x) \<Longrightarrow> (\<not> b \<Longrightarrow> no_stop y) \<Longrightarrow> no_stop (if b then x else y)"
  by simp

lemma no_stop_int: "(\<And>r s. no_stop (k r s)) \<Longrightarrow> no_stop (case x of (r :: int, s) \<Rightarrow> k r s)"
  by (cases x) simp

lemma no_stop_bool: "(\<And>s. no_stop (k s)) \<Longrightarrow> (\<And>s. no_stop (l s)) \<Longrightarrow> no_stop (case x of (True, s) \<Rightarrow> k s | (False, s) \<Rightarrow> l s)"
  by (cases x) (auto split: bool.split)

lemma no_stop_pair [simp]: "no_stop (w, s) \<longleftrightarrow> w \<noteq> WORK_FINISHED_STOP"
  by (simp add: no_stop_def)

lemma no_stop_work:
  "no_stop x \<Longrightarrow> (\<And>s. no_stop (k s)) \<Longrightarrow> no_stop (case x of (WORK_FINISHED_CONTINUE, s) \<Rightarrow> k s | (w, s) \<Rightarrow> (w, s))"
  by (cases x) (auto split: WORK_STATE.split)

lemma no_stop_run_calls: "no_stop (run_calls E fs s)"
  by (induction E fs s rule: run_calls.induct) (auto split: prod.splits)

lemma no_stop_flush: "(\<And>s. no_stop (k s)) \<Longrightarrow> no_stop (flush_then E s k)"
  by (auto simp: flush_then_def split: prod.splits bool.splits)

lemmas no_stop_rules = no_stop_if no_stop_int no_stop_bool no_stop_work no_stop_run_calls no_stop_flush

lemma client_post_work_stop: "no_stop (ossl_statem_client_post_work E s w)"
  unfolding ossl_statem_client_post_work_def cw_change_post_work_def Let_def
  by (intro no_stop_rules; simp split: bool.split)

lemma server_post_work_stop: "no_stop (ossl_statem_server_post_work E s w)"
  unfolding ossl_statem_server_post_work_def sw_change_post_work_def sw_finished_post_work_def Let_def
  by (intro no_stop_rules; simp split: bool.split)


text \<open>A pass of the writing machine ends the handshake only before sending.\<close>

definition ends :: "'w pass_result \<Rightarrow> bool" where
  "ends x \<longleftrightarrow> (\<exists>s. x = Stop SUB_STATE_END_HANDSHAKE s)"

lemma ends_simps [simp]: "\<not> ends (Loop s)" "ends (Stop r s) \<longleftrightarrow> r = SUB_STATE_END_HANDSHAKE"
  by (auto simp: ends_def)

lemma write_post_work_no_end: "\<not> ends (write_post_work E srv s)"
  using client_post_work_stop [of E s] server_post_work_stop [of E s]
  by (auto simp: write_post_work_def no_stop_def Let_def split: prod.splits WORK_STATE.splits)
     (metis fst_conv)+

lemma write_send_no_end: "\<not> ends (write_send E srv s)"
  by (simp add: write_send_def Let_def write_post_work_no_end split: prod.split)

lemma write_construct_no_end: "\<not> ends (write_construct E srv s)"
  by (simp add: write_construct_def write_send_no_end split: prod.split option.split CON_FUNC_RETURN.split)

lemma write_transition_no_end: "\<not> ends (write_transition E srv s)"
  by (simp add: write_transition_def split: prod.split WRITE_TRAN.split)

definition completed :: "'w SSL \<Rightarrow> bool" where
  "completed s \<longleftrightarrow> hand s \<in> end_states \<and> \<not> st_in_init (c_statem s)"

lemma set_write_simps [simp]:
  "completed (set_write_work w s) = completed s" "completed (set_flow f s) = completed s" "flow (set_flow f s) = f"
  by (simp_all add: completed_def set_write_work_def set_flow_def)

lemma pre_work_completed:
  assumes "finish_keeps_statem E"
    and "(if srv then ossl_statem_server_pre_work E s w else ossl_statem_client_pre_work E s w) = (WORK_FINISHED_STOP, s')"
  shows "completed s'"
  using assms client_pre_work_stop [OF assms(1), of s w s'] server_pre_work_stop [OF assms(1), of s w s']
  by (cases srv) (simp_all add: completed_def)

lemma write_pre_work_end:
  assumes k: "finish_keeps_statem E" and r: "write_pre_work E srv s = Stop SUB_STATE_END_HANDSHAKE s'"
  shows "completed s'"
proof -
  obtain w s1 where w: "(if srv then ossl_statem_server_pre_work E s (st_write_state_work (c_statem s))
      else ossl_statem_client_pre_work E s (st_write_state_work (c_statem s))) = (w, s1)" by fastforce
  have "w = WORK_FINISHED_STOP" and s': "s' = set_write_work w s1"
    using r write_construct_no_end unfolding write_pre_work_def w Let_def ends_def by (cases w; auto)+
  then show ?thesis using pre_work_completed [OF k, of srv s _ s1] w by simp
qed

lemma write_pass_end:
  assumes k: "finish_keeps_statem E" and r: "write_pass E srv s = Stop SUB_STATE_END_HANDSHAKE s'"
  shows "completed s'"
proof -
  have "\<not> ends (write_transition E srv s)" "\<not> ends (write_send E srv s)" "\<not> ends (write_post_work E srv s)"
    by (rule write_transition_no_end write_send_no_end write_post_work_no_end)+
  then have "write_pre_work E srv s = Stop SUB_STATE_END_HANDSHAKE s'"
    using r unfolding write_pass_def by (cases "st_write_state (c_statem s)") auto
  then show ?thesis by (rule write_pre_work_end [OF k])
qed

lemma write_loop_end:
  assumes k: "finish_keeps_statem E" and r: "write_loop E srv s = Some (SUB_STATE_END_HANDSHAKE, s')"
  shows "completed s'"
proof -
  have "SUB_STATE_END_HANDSHAKE = SUB_STATE_END_HANDSHAKE \<longrightarrow> completed s'"
    by (rule write_loop_rule [where I = "\<lambda>_. True" and Q = "\<lambda>r s'. r = SUB_STATE_END_HANDSHAKE \<longrightarrow> completed s'", OF _ _ r])
       (auto intro: write_pass_end [OF k])
  then show ?thesis by simp
qed

lemma flow_loop_done:
  assumes k: "finish_keeps_statem E" and r: "flow_loop E s = Some (True, s')" and n: "flow s \<noteq> MSG_FLOW_FINISHED"
  shows "flow s' = MSG_FLOW_FINISHED \<and> completed s'"
proof -
  have "True \<longrightarrow> flow s' = MSG_FLOW_FINISHED \<and> completed s'"
  proof (rule flow_loop_rule [where I = "\<lambda>s. flow s = MSG_FLOW_FINISHED \<longrightarrow> completed s"
        and Q = "\<lambda>ok s'. ok \<longrightarrow> flow s' = MSG_FLOW_FINISHED \<and> completed s'", OF _ _ r])
    fix s s' assume "flow_pass E s = Some (Again s')"
    then show "flow s' = MSG_FLOW_FINISHED \<longrightarrow> completed s'"
      using write_loop_end [OF k] unfolding flow_pass_def write_state_machine_def
      by (auto simp: init_write_state_machine_def init_read_state_machine_def split: if_splits)
  next
    fix s ok s' assume "flow s = MSG_FLOW_FINISHED \<longrightarrow> completed s" "flow_pass E s = Some (Leave ok s')"
    then show "ok \<longrightarrow> flow s' = MSG_FLOW_FINISHED \<and> completed s'"
      unfolding flow_pass_def by (auto split: if_splits)
  qed (use n in simp)
  then show ?thesis by simp
qed


lemma flow_init_writing: "flow_init E server s = Inr s' \<Longrightarrow> flow s' = MSG_FLOW_WRITING"
  by (auto simp: flow_init_def flow_setup_def Let_def init_write_state_machine_def split: if_splits prod.splits)

lemma state_machine_ok:
  assumes "state_machine E server s = Some (1, s')"
  shows "\<exists>s1 s2. flow_loop E s1 = Some (True, s2) \<and> s' = snd (leave E 1 s2) \<and> flow s1 \<noteq> MSG_FLOW_FINISHED"
proof -
  define s0 where "s0 = ossl_statem_set_in_handshake s True"
  obtain r sc where c: "(if (\<not> SSL_in_init s0 \<or> SSL_in_before s0) \<and> s3_flags (c_s3 s0) AND TLS1_FLAGS_STATELESS = 0
      then e_int E F_ssl_clear s0 else (1, s0)) = (r, sc)" by fastforce
  define x where "x = (if flow sc = MSG_FLOW_UNINITED \<or> flow sc = MSG_FLOW_FINISHED then flow_init E server sc else Inr sc)"
  have "\<exists>s1. x = Inr s1 \<and> map_option (\<lambda>(ok, s). leave E (if ok then 1 else -1) s) (flow_loop E s1) = Some (1, s')"
    using assms c unfolding state_machine_def Let_def s0_def [symmetric] x_def [symmetric]
    by (auto simp: leave_def simp flip: x_def split: if_splits sum.splits)
  then obtain s1 ok s2 where x: "x = Inr s1" and l: "flow_loop E s1 = Some (ok, s2)" "leave E (if ok then 1 else -1) s2 = (1, s')"
    by auto
  have ok: "ok" using l(2) by (simp add: leave_def split: if_splits)
  moreover have "flow s1 \<noteq> MSG_FLOW_FINISHED" using x flow_init_writing [of E server sc s1] by (auto simp: x_def split: if_splits)
  moreover have "s' = snd (leave E 1 s2)" using l(2) ok by simp
  ultimately show ?thesis using l(1) by (intro exI [of _ s1] exI [of _ s2]) simp
qed

lemma leave_statem:
  assumes "finish_keeps_statem E"
  shows "flow (snd (leave E r s)) = flow s" "hand (snd (leave E r s)) = hand s" "st_in_init (c_statem (snd (leave E r s))) = st_in_init (c_statem s)"
  using finish_keeps(9) [OF assms] by (simp_all add: leave_def ossl_statem_set_in_handshake_def)

lemma idle_info_cb: "info_cb idle_env s = s"
  by (simp add: info_cb_def idle_env_def)

lemma finish_handshake_idle: "fst (tls_finish_handshake idle_env s w True True) = WORK_FINISHED_STOP"
  by (simp add: tls_finish_handshake_def finish_clearbufs_def idle_env_def Let_def)

text \<open>A client that resumed a TLS 1.2 session and has sent its Finished message.\<close>

definition resumed_client :: "unit SSL" where
  "resumed_client = (blank_ssl ())\<lparr>c_method_version := 771, c_version := 771, c_hit := True,
     c_statem := (c_statem (blank_ssl ()))\<lparr>st_state := MSG_FLOW_WRITING, st_hand_state := TLS_ST_CW_FINISHED\<rparr>\<rparr>"

lemma resumed_client_run: "\<exists>s'. state_machine idle_env False resumed_client = Some (1, s')"
proof -
  note sel = blank_ssl_def resumed_client_def ossl_statem_set_in_handshake_def idle_env_def info_cb_def SSL_CONNECTION_IS_TLS13_def
    SSL_CONNECTION_IS_DTLS_def set_hand_def set_write_work_def set_write_state_def
  define s0 where "s0 = ossl_statem_set_in_handshake resumed_client True"
  define s1 where "s1 = set_write_work WORK_MORE_A (set_write_state WRITE_STATE_PRE_WORK (set_hand TLS_ST_OK s0))"
  have s0: "st_write_state (c_statem s0) = WRITE_STATE_TRANSITION" "hand s0 = TLS_ST_CW_FINISHED" "c_hit s0" "\<not> SSL_CONNECTION_IS_TLS13 s0"
    "flow s0 = MSG_FLOW_WRITING" "SSL_in_init s0" "\<not> SSL_in_before s0" "flow resumed_client = MSG_FLOW_WRITING" "\<not> c_server s0"
    by (simp_all add: s0_def SSL_in_init_def SSL_in_before_def sel)
  have s1: "st_write_state (c_statem s1) = WRITE_STATE_PRE_WORK" "hand s1 = TLS_ST_OK"
    by (simp_all add: s1_def set_write_work_def set_write_state_def)
  obtain s2 where s2: "tls_finish_handshake idle_env s1 (st_write_state_work (c_statem s1)) True True = (WORK_FINISHED_STOP, s2)"
    using finish_handshake_idle [of s1] by (metis prod.collapse)
  have "write_pass idle_env False s0 = Loop s1"
    unfolding write_pass_def s0(1) write_transition_def idle_info_cb using s0(2-4)
    by (simp add: ossl_statem_client_write_transition_def s1_def)
  moreover have "write_pass idle_env False s1 = Stop SUB_STATE_END_HANDSHAKE (set_write_work WORK_FINISHED_STOP s2)"
    using s1 s2 by (simp add: write_pass_def write_pre_work_def ossl_statem_client_pre_work_def)
  ultimately have w: "write_state_machine idle_env s0 = Some (SUB_STATE_END_HANDSHAKE, set_write_work WORK_FINISHED_STOP s2)"
    using s0 by (simp add: write_state_machine_def write_loop.simps [of _ _ s0] write_loop.simps [of _ _ s1])
  have "flow_loop idle_env s0 = Some (True, set_flow MSG_FLOW_FINISHED (set_write_work WORK_FINISHED_STOP s2))"
    using w s0 by (simp add: flow_loop.simps [of _ s0] flow_loop.simps [of _ "set_flow MSG_FLOW_FINISHED s3" for s3] flow_pass_def)
  then show ?thesis using s0 by (simp add: state_machine_def leave_def Let_def flip: s0_def)
qed

text \<open>
  C3: the state machine reports success only when the flow is finished, the connection is no longer in
  its initialisation, and the handshake is either over or paused at one of the two points where early
  data is exchanged. The functions called between that decision and the return, among them the
  application's callback, do not touch the state machine.
\<close>

theorem success_means_completed:
  assumes "finish_keeps_statem E" and "state_machine E server s = Some (1, s')"
  shows "flow s' = MSG_FLOW_FINISHED \<and> \<not> SSL_in_init s' \<and> hand s' \<in> {TLS_ST_OK, TLS_ST_EARLY_DATA, TLS_ST_PENDING_EARLY_DATA_END}"
proof -
  obtain s1 s2 where l: "flow_loop E s1 = Some (True, s2)" and s': "s' = snd (leave E 1 s2)" and n: "flow s1 \<noteq> MSG_FLOW_FINISHED"
    using state_machine_ok [OF assms(2)] by blast
  show ?thesis
    using flow_loop_done [OF assms(1) l n] leave_statem [OF assms(1), of 1 s2] s' by (simp add: completed_def SSL_in_init_def)
qed

theorem success_means_completed_witness:
  "\<exists>s'. state_machine idle_env False resumed_client = Some (1, s') \<and> flow s' = MSG_FLOW_FINISHED \<and> \<not> SSL_in_init s'
     \<and> hand s' \<in> {TLS_ST_OK, TLS_ST_EARLY_DATA, TLS_ST_PENDING_EARLY_DATA_END}"
proof -
  obtain s' where r: "state_machine idle_env False resumed_client = Some (1, s')" using resumed_client_run by blast
  have "finish_keeps_statem (idle_env :: unit env)" by (simp add: finish_keeps_statem_def idle_env_def)
  from success_means_completed [OF this r] r show ?thesis by blast
qed


section \<open>Calls that stop while reading or sending\<close>

text \<open>The connection as the reading machine finds it when \<open>state_machine\<close> is called again.\<close>

definition enter_reading :: "'w SSL \<Rightarrow> 'w SSL" where
  "enter_reading s =
     (let s = ossl_statem_set_in_handshake s True in
      if st_read_state_first_init (c_statem s)
      then s\<lparr>c_first_packet := True, c_statem := (c_statem s)\<lparr>st_read_state_first_init := False\<rparr>\<rparr> else s)"

lemma set_in_handshake_simps [simp]:
  "flow (ossl_statem_set_in_handshake s b) = flow s" "hand (ossl_statem_set_in_handshake s b) = hand s"
  "c_server (ossl_statem_set_in_handshake s b) = c_server s" "SSL_in_init (ossl_statem_set_in_handshake s b) = SSL_in_init s"
  "st_write_state (c_statem (ossl_statem_set_in_handshake s b)) = st_write_state (c_statem s)"
  "ossl_statem_set_in_handshake (ossl_statem_set_in_handshake s True) False = s"
  by (simp_all add: ossl_statem_set_in_handshake_def SSL_in_init_def)

lemma enter_reading_simps [simp]:
  "st_read_state (c_statem (enter_reading s)) = st_read_state (c_statem s)" "c_server (enter_reading s) = c_server s"
  by (simp_all add: enter_reading_def ossl_statem_set_in_handshake_def Let_def)

lemma state_machine_resumes:
  assumes "flow s \<in> {MSG_FLOW_READING, MSG_FLOW_WRITING}" and "SSL_in_init s"
  shows "state_machine E server s =
    map_option (\<lambda>(ok, s). leave E (if ok then 1 else -1) s) (flow_loop E (ossl_statem_set_in_handshake s True))"
proof -
  have "\<not> SSL_in_before (ossl_statem_set_in_handshake s True)" using assms(1) by (auto simp: SSL_in_before_def)
  then show ?thesis using assms by (auto simp: state_machine_def Let_def)
qed

lemma reading_stops:
  assumes "flow s = MSG_FLOW_READING" and "SSL_in_init s" and "read_pass E (c_server s) (enter_reading s) = Stop SUB_STATE_ERROR s'"
  shows "state_machine E server s = Some (leave E (-1) s')"
proof -
  have "read_state_machine E (ossl_statem_set_in_handshake s True) = Some (SUB_STATE_ERROR, s')"
    using assms(3) by (simp add: read_state_machine_def read_loop.simps [of _ _ "enter_reading s"] flip: enter_reading_def [unfolded Let_def])
  then have "flow_loop E (ossl_statem_set_in_handshake s True) = Some (False, s')"
    using assms(1) by (simp add: flow_loop.simps [of _ "ossl_statem_set_in_handshake s True"] flow_pass_def)
  then show ?thesis using assms(1,2) by (simp add: state_machine_resumes)
qed

lemma sending_stops:
  assumes "flow s = MSG_FLOW_WRITING" and "SSL_in_init s"
    and "write_pass E (c_server s) (ossl_statem_set_in_handshake s True) = Stop SUB_STATE_ERROR s'"
  shows "state_machine E server s = Some (leave E (-1) s')"
proof -
  have "write_state_machine E (ossl_statem_set_in_handshake s True) = Some (SUB_STATE_ERROR, s')"
    using assms(3) by (simp add: write_state_machine_def write_loop.simps [of _ _ "ossl_statem_set_in_handshake s True"])
  then have "flow_loop E (ossl_statem_set_in_handshake s True) = Some (False, s')"
    using assms(1) by (simp add: flow_loop.simps [of _ "ossl_statem_set_in_handshake s True"] flow_pass_def)
  then show ?thesis using assms(1,2) by (simp add: state_machine_resumes)
qed

text \<open>A refused transition is fatal, but for a ChangeCipherSpec that DTLS delivers out of order.\<close>

definition err_of :: "'w SSL \<Rightarrow> 'w tran \<Rightarrow> bool" where
  "err_of s t \<longleftrightarrow> (case t of Tran_Ok _ \<Rightarrow> True | Tran_Err x \<Rightarrow> x = s | Tran_Zero x \<Rightarrow> flow x = MSG_FLOW_ERROR)"

lemma err_of_simps [simp]: "err_of s (Tran_Ok x)" "err_of s (Tran_Err x) \<longleftrightarrow> x = s" "err_of s (Tran_Zero x) \<longleftrightarrow> flow x = MSG_FLOW_ERROR"
  by (simp_all add: err_of_def)

lemma err_of_if: "err_of s t \<Longrightarrow> err_of s u \<Longrightarrow> err_of s (if b then t else u)"
  by simp

lemma client_switch_err: "err_of s (client_read_switch s mt)"
  unfolding client_read_switch_def cr_srvr_hello_def cr_cert_status_def cr_key_exch_def cr_cert_req_def by (intro err_of_if; simp)

lemma server_switch_err: "err_of s (server_read_switch s mt)"
  unfolding server_read_switch_def sr_after_done_def by (intro err_of_if; simp)

lemma client13_refused: "ossl_statem_client13_read_transition E s mt = (False, x) \<Longrightarrow> x = s \<or> mt = SSL3_MT_CERTIFICATE_REQUEST"
  by (auto simp: ossl_statem_client13_read_transition_def split: if_splits prod.splits)

lemma server13_refused: "ossl_statem_server13_read_transition s mt = (False, x) \<Longrightarrow> x = s"
  by (auto simp: ossl_statem_server13_read_transition_def sr_after_finished_def split: if_splits)

lemma switch_refused:
  assumes "finish_tran E mt t = (False, s')" and "\<not> (SSL_CONNECTION_IS_DTLS s \<and> mt = SSL3_MT_CHANGE_CIPHER_SPEC)" and "err_of s t"
  shows "flow s' = MSG_FLOW_ERROR"
  using assms by (cases t) (auto simp: finish_tran_def read_transition_err_def split: if_splits)

lemma client_refused:
  assumes r: "ossl_statem_client_read_transition E s mt = (False, s')" and n: "\<not> (SSL_CONNECTION_IS_DTLS s \<and> mt = SSL3_MT_CHANGE_CIPHER_SPEC)"
  shows "flow s' = MSG_FLOW_ERROR"
proof (cases "SSL_CONNECTION_IS_TLS13 s")
  case True
  obtain b x where t: "ossl_statem_client13_read_transition E s mt = (b, x)" by fastforce
  have "\<not> b" using r True t by (cases b) (simp_all add: ossl_statem_client_read_transition_def finish_tran_def)
  then show ?thesis using r True t client13_refused [of E s mt x] n
    by (auto simp: ossl_statem_client_read_transition_def finish_tran_def read_transition_err_def split: if_splits)
next
  case False
  then show ?thesis using r n client_switch_err [of s mt]
    by (intro switch_refused [of E mt "client_read_switch s mt"]) (simp_all add: ossl_statem_client_read_transition_def)
qed

lemma server_refused:
  assumes r: "ossl_statem_server_read_transition E s mt = (False, s')" and n: "\<not> (SSL_CONNECTION_IS_DTLS s \<and> mt = SSL3_MT_CHANGE_CIPHER_SPEC)"
  shows "flow s' = MSG_FLOW_ERROR"
proof (cases "SSL_CONNECTION_IS_TLS13 s")
  case True
  obtain b x where t: "ossl_statem_server13_read_transition s mt = (b, x)" by fastforce
  have "\<not> b" using r True t by (cases b) (simp_all add: ossl_statem_server_read_transition_def finish_tran_def)
  then show ?thesis using r True t server13_refused [of s mt x] n
    by (auto simp: ossl_statem_server_read_transition_def finish_tran_def read_transition_err_def split: if_splits)
next
  case False
  then show ?thesis using r n server_switch_err [of s mt]
    by (intro switch_refused [of E mt "server_read_switch s mt"]) (simp_all add: ossl_statem_server_read_transition_def)
qed

text \<open>
  C5: a message that the handshake does not allow next, or that is longer than its type may be, ends
  the connection: the call returns -1, the connection is in the error state, the message is not
  processed, and every later call returns -1 and leaves it as it is. The one exception, excluded
  here, is a ChangeCipherSpec in DTLS, which is dropped. The application's callback is assumed to
  leave the connection alone.
\<close>

theorem refused_message_ends_connection:
  assumes "flow s = MSG_FLOW_READING" and "SSL_in_init s" and "st_read_state (c_statem s) = READ_STATE_HEADER"
    and "\<And>s. info_cb E s = s"
    and "e_get_message E (message_source (enter_reading s)) (enter_reading s) = (Some mt, s1)"
    and "\<not> (SSL_CONNECTION_IS_DTLS s1 \<and> mt = SSL3_MT_CHANGE_CIPHER_SPEC)"
    and "(if c_server s then ossl_statem_server_read_transition E s1 mt else ossl_statem_client_read_transition E s1 mt) = (accepted, s2)"
    and "accepted \<Longrightarrow> s3_message_size (c_s3 s2) >
           (if c_server s then ossl_statem_server_max_message_size s2 else ossl_statem_client_max_message_size s2)"
    and "t = ossl_statem_set_in_handshake (if accepted then SSLfatal s2 SSL_AD_ILLEGAL_PARAMETER else s2) False"
  shows "state_machine E server s = Some (-1, t) \<and> flow t = MSG_FLOW_ERROR \<and> state_machine E server' t = Some (-1, t)"
proof -
  let ?x = "if accepted then SSLfatal s2 SSL_AD_ILLEGAL_PARAMETER else s2"
  have "read_pass E (c_server s) (enter_reading s) = Stop SUB_STATE_ERROR ?x"
    using assms(3-5,7,8) by (cases accepted; cases "c_server s") (simp_all add: read_pass_def read_header_def)
  from reading_stops [OF assms(1,2) this]
  have "state_machine E server s = Some (-1, t)" by (simp add: leave_def assms(4,9))
  moreover have "flow ?x = MSG_FLOW_ERROR"
    using assms(6,7) client_refused [of E s1 mt s2] server_refused [of E s1 mt s2] by (cases accepted; cases "c_server s") simp_all
  then have f: "flow t = MSG_FLOW_ERROR" by (simp add: assms(9))
  moreover have "state_machine E server' t = Some (-1, t)" using f by (simp add: state_machine_def)
  ultimately show ?thesis by blast
qed

text \<open>A TLS 1.3 client that waits for the ServerHello, and a server that sends a Finished message instead.\<close>

definition waiting_client :: "unit SSL" where
  "waiting_client = (blank_ssl ())\<lparr>c_statem := (c_statem (blank_ssl ()))\<lparr>st_state := MSG_FLOW_READING, st_hand_state := TLS_ST_CW_CLNT_HELLO\<rparr>\<rparr>"

definition finished_env :: "unit env" where
  "finished_env = idle_env\<lparr>e_get_message := \<lambda>_ s. (Some SSL3_MT_FINISHED, s)\<rparr>"

lemma waiting_client_simps:
  "flow waiting_client = MSG_FLOW_READING" "SSL_in_init waiting_client" "st_read_state (c_statem waiting_client) = READ_STATE_HEADER"
  "\<not> c_server waiting_client" "enter_reading waiting_client = ossl_statem_set_in_handshake waiting_client True"
  "\<not> SSL_CONNECTION_IS_DTLS (ossl_statem_set_in_handshake waiting_client True)"
  "SSL_CONNECTION_IS_TLS13 (ossl_statem_set_in_handshake waiting_client True)" "hand waiting_client = TLS_ST_CW_CLNT_HELLO"
  "\<not> SSL_CONNECTION_IS_QUIC (ossl_statem_set_in_handshake waiting_client True)"
  by (simp_all add: waiting_client_def blank_ssl_def SSL_in_init_def enter_reading_def ossl_statem_set_in_handshake_def
      SSL_CONNECTION_IS_DTLS_def SSL_CONNECTION_IS_TLS13_def SSL_CONNECTION_IS_QUIC_def)

theorem refused_message_ends_connection_witness:
  "\<exists>t. state_machine finished_env False waiting_client = Some (-1, t) \<and> flow t = MSG_FLOW_ERROR \<and> state_machine finished_env False t = Some (-1, t)"
proof -
  let ?s = "ossl_statem_set_in_handshake waiting_client True"
  have r: "ossl_statem_client_read_transition finished_env ?s SSL3_MT_FINISHED = (False, SSLfatal ?s SSL_AD_UNEXPECTED_MESSAGE)"
    using waiting_client_simps by (simp add: ossl_statem_client_read_transition_def ossl_statem_client13_read_transition_def finish_tran_def read_transition_err_def)
  have "state_machine finished_env False waiting_client = Some (-1, t) \<and> flow t = MSG_FLOW_ERROR \<and> state_machine finished_env False t = Some (-1, t)"
    if "t = ossl_statem_set_in_handshake (SSLfatal ?s SSL_AD_UNEXPECTED_MESSAGE) False" for t
    by (rule refused_message_ends_connection [where accepted = False and ?s2.0 = "SSLfatal ?s SSL_AD_UNEXPECTED_MESSAGE" and ?s1.0 = ?s and mt = SSL3_MT_FINISHED])
       (use r that waiting_client_simps in \<open>simp_all add: finished_env_def info_cb_def idle_env_def\<close>)
  then show ?thesis by blast
qed

text \<open>
  A call that finds nothing to read, or whose message the transport does not take, returns -1 with the
  changes the transport made (its \<open>rwstate\<close> and its buffers) and with the state machine at the place
  where it was, so that the next call resumes there. The application's callback is assumed to leave the connection
  alone, the transport the state machine, and no timer is started.
\<close>

lemma blocked_call_keeps_place:
  assumes "SSL_in_init s" and "\<And>s. info_cb E s = s" and "s0 = ossl_statem_set_in_handshake s True" and "c_statem s1 = c_statem s0"
    and "flow s = MSG_FLOW_READING \<and> st_read_state (c_statem s) = READ_STATE_HEADER \<and> \<not> st_read_state_first_init (c_statem s)
           \<and> e_get_message E (message_source s0) s0 = (None, s1)
         \<or> flow s = MSG_FLOW_WRITING \<and> st_write_state (c_statem s) = WRITE_STATE_SEND
           \<and> \<not> (SSL_CONNECTION_IS_DTLS s0 \<and> st_use_timer (c_statem s0)) \<and> statem_do_write E s0 = (r, s1) \<and> r \<le> 0"
  shows "state_machine E server s = Some (-1, ossl_statem_set_in_handshake s1 False) \<and> c_statem (ossl_statem_set_in_handshake s1 False) = c_statem s"
proof -
  have k: "c_statem (ossl_statem_set_in_handshake s1 False) = c_statem s"
    using assms(3,4) by (simp add: ossl_statem_set_in_handshake_def)
  have "state_machine E server s = Some (-1, ossl_statem_set_in_handshake s1 False)"
    using assms(5)
  proof (elim disjE conjE)
    assume h: "flow s = MSG_FLOW_READING" "st_read_state (c_statem s) = READ_STATE_HEADER" "\<not> st_read_state_first_init (c_statem s)"
      "e_get_message E (message_source s0) s0 = (None, s1)"
    have e: "enter_reading s = s0" using h(3) by (simp add: enter_reading_def assms(3) ossl_statem_set_in_handshake_def Let_def)
    have "read_pass E (c_server s) (enter_reading s) = Stop SUB_STATE_ERROR s1"
      using h(2,4) enter_reading_simps(1) [of s] by (simp add: read_pass_def read_header_def e)
    from reading_stops [OF h(1) assms(1) this] show ?thesis by (simp add: leave_def assms(2))
  next
    assume h: "flow s = MSG_FLOW_WRITING" "st_write_state (c_statem s) = WRITE_STATE_SEND"
      "\<not> (SSL_CONNECTION_IS_DTLS s0 \<and> st_use_timer (c_statem s0))" "statem_do_write E s0 = (r, s1)" "r \<le> 0"
    have "write_pass E (c_server s) s0 = Stop SUB_STATE_ERROR s1"
      using h(2-5) by (auto simp: write_pass_def write_send_def assms(3))
    from sending_stops [OF h(1) assms(1) this [unfolded assms(3)]] show ?thesis by (simp add: leave_def assms(2))
  qed
  with k show ?thesis by blast
qed

text \<open>When clearing the connection fails, the call returns without undoing the count of calls in progress.\<close>

lemma failed_clear_leaves_count:
  assumes "flow s \<noteq> MSG_FLOW_ERROR" and "s0 = ossl_statem_set_in_handshake s True" and "\<not> SSL_in_init s0 \<or> SSL_in_before s0"
    and "s3_flags (c_s3 s0) AND TLS1_FLAGS_STATELESS = 0" and "e_int E F_ssl_clear s0 = (0, s0)"
  shows "state_machine E server s = Some (-1, s0) \<and> st_in_handshake (c_statem s0) = st_in_handshake (c_statem s) + 1"
proof -
  have "state_machine E server s = Some (-1, s0)" using assms by (simp add: state_machine_def Let_def)
  then show ?thesis by (simp add: assms(2) ossl_statem_set_in_handshake_def)
qed

section \<open>No transition leads to an unhandled state\<close>

definition lands :: "(OSSL_HANDSHAKE_STATE \<Rightarrow> bool) \<Rightarrow> 'w tran \<Rightarrow> bool" where
  "lands P t \<longleftrightarrow> (\<forall>s. t = Tran_Ok s \<longrightarrow> P (hand s))"

definition lands13 :: "(OSSL_HANDSHAKE_STATE \<Rightarrow> bool) \<Rightarrow> bool \<times> 'w SSL \<Rightarrow> bool" where
  "lands13 P r \<longleftrightarrow> (fst r \<longrightarrow> P (hand (snd r)))"

definition writes :: "(OSSL_HANDSHAKE_STATE \<Rightarrow> bool) \<Rightarrow> WRITE_TRAN \<times> 'w SSL \<Rightarrow> bool" where
  "writes P r \<longleftrightarrow> (fst r = WRITE_TRAN_CONTINUE \<longrightarrow> P (hand (snd r)))"

lemma lands_simps [simp]:
  "lands P (Tran_Ok s) \<longleftrightarrow> P (hand s)" "lands P (Tran_Err s)" "lands P (Tran_Zero s)" "lands13 P (b, s) \<longleftrightarrow> (b \<longrightarrow> P (hand s))"
  "writes P (w, s) \<longleftrightarrow> (w = WRITE_TRAN_CONTINUE \<longrightarrow> P (hand s))"
  by (auto simp: lands_def lands13_def writes_def)

lemma lands_rules:
  "(b \<Longrightarrow> lands P t) \<Longrightarrow> (\<not> b \<Longrightarrow> lands P u) \<Longrightarrow> lands P (if b then t else u)"
  "(b \<Longrightarrow> lands13 P x) \<Longrightarrow> (\<not> b \<Longrightarrow> lands13 P y) \<Longrightarrow> lands13 P (if b then x else y)"
  "(b \<Longrightarrow> writes P v) \<Longrightarrow> (\<not> b \<Longrightarrow> writes P w) \<Longrightarrow> writes P (if b then v else w)"
  by simp_all

lemma lands_finish: "finish_tran E mt t = (True, s') \<Longrightarrow> lands P t \<Longrightarrow> P (hand s')"
  by (cases t) (auto simp: finish_tran_def read_transition_err_def split: if_splits)

lemma client_lands: "lands (\<lambda>h. client_process_fn h \<noteq> None) (client_read_switch s mt)"
  unfolding client_read_switch_def cr_srvr_hello_def cr_cert_status_def cr_key_exch_def cr_cert_req_def
  by (intro lands_rules; simp add: client_process_fn_def)

lemma client13_lands: "lands13 (\<lambda>h. client_process_fn h \<noteq> None) (ossl_statem_client13_read_transition E s mt)"
  unfolding ossl_statem_client13_read_transition_def
  by (intro lands_rules; simp add: client_process_fn_def split: prod.split)

lemma server_lands: "lands (\<lambda>h. server_process_fn h \<noteq> None) (server_read_switch s mt)"
  unfolding server_read_switch_def sr_after_done_def by (intro lands_rules; simp add: server_process_fn_def)

lemma server13_lands: "lands13 (\<lambda>h. server_process_fn h \<noteq> None) (ossl_statem_server13_read_transition s mt)"
  unfolding ossl_statem_server13_read_transition_def sr_after_finished_def by (intro lands_rules; simp add: server_process_fn_def)

lemma tls13_lands: "lands13 P r \<Longrightarrow> lands P (case r of (False, s) \<Rightarrow> Tran_Err s | (True, s) \<Rightarrow> Tran_Ok s)"
  by (cases r) (auto split: bool.splits)

text \<open>The states for which each side has a construction function, and those at which it stops before needing one.\<close>

definition client_constructs :: "OSSL_HANDSHAKE_STATE \<Rightarrow> bool" where
  "client_constructs h \<longleftrightarrow> h \<in> {TLS_ST_CW_CHANGE, TLS_ST_CW_CLNT_HELLO, TLS_ST_CW_END_OF_EARLY_DATA, TLS_ST_PENDING_EARLY_DATA_END,
     TLS_ST_CW_CERT, TLS_ST_CW_COMP_CERT, TLS_ST_CW_KEY_EXCH, TLS_ST_CW_CERT_VRFY, TLS_ST_CW_FINISHED, TLS_ST_CW_KEY_UPDATE}"

definition server_constructs :: "OSSL_HANDSHAKE_STATE \<Rightarrow> bool" where
  "server_constructs h \<longleftrightarrow> h \<in> {TLS_ST_SW_CHANGE, DTLS_ST_SW_HELLO_VERIFY_REQUEST, TLS_ST_SW_HELLO_REQ, TLS_ST_SW_SRVR_HELLO,
     TLS_ST_SW_CERT, TLS_ST_SW_COMP_CERT, TLS_ST_SW_CERT_VRFY, TLS_ST_SW_KEY_EXCH, TLS_ST_SW_CERT_REQ, TLS_ST_SW_SRVR_DONE,
     TLS_ST_SW_SESSION_TICKET, TLS_ST_SW_CERT_STATUS, TLS_ST_SW_FINISHED, TLS_ST_EARLY_DATA, TLS_ST_SW_ENCRYPTED_EXTENSIONS,
     TLS_ST_SW_KEY_UPDATE}"

lemma client_writes: "writes (\<lambda>h. client_constructs h \<or> h \<in> {TLS_ST_OK, TLS_ST_EARLY_DATA}) (ossl_statem_client_write_transition E s)"
  unfolding ossl_statem_client_write_transition_def ossl_statem_client13_write_transition_def cw_cert_or_finished_def
  by (intro lands_rules; simp add: client_constructs_def split: prod.split)

lemma server_writes: "writes (\<lambda>h. server_constructs h \<or> h = TLS_ST_OK) (ossl_statem_server_write_transition E s)"
  unfolding ossl_statem_server_write_transition_def ossl_statem_server13_write_transition_def sw_srvr_hello_def sw_cert_status_def sw_key_exch_def Let_def
  by (intro lands_rules; simp add: server_constructs_def split: prod.split)

lemma constructs_construct:
  "client_constructs (hand s) \<Longrightarrow> fst (ossl_statem_client_construct_message s) \<noteq> None"
  "server_constructs (hand s) \<Longrightarrow> fst (ossl_statem_server_construct_message s) \<noteq> None"
  by (auto simp: client_constructs_def server_constructs_def ossl_statem_client_construct_message_def ossl_statem_server_construct_message_def)

lemma end_states_stop:
  "hand s \<in> {TLS_ST_OK, TLS_ST_EARLY_DATA} \<Longrightarrow> fst (ossl_statem_client_pre_work E s w) \<noteq> WORK_FINISHED_CONTINUE"
  "hand s = TLS_ST_OK \<Longrightarrow> fst (ossl_statem_server_pre_work E s w) \<noteq> WORK_FINISHED_CONTINUE"
  using finish_handshake_result [of E s w True True] finish_handshake_result [of E s w False True]
  by (auto simp: ossl_statem_client_pre_work_def ossl_statem_server_pre_work_def)

text \<open>
  C8: the tables of the two sides are complete. Every state a read transition moves to has a processing
  function, and every state a write transition moves to has a construction function unless the work
  before sending ends the handshake there, so that none of the branches marked as impossible is taken.
\<close>

theorem tables_complete:
  assumes "if server then ossl_statem_server_read_transition E s mt = (True, s') \<and> ossl_statem_server_write_transition E t = (WRITE_TRAN_CONTINUE, t')
           else ossl_statem_client_read_transition E s mt = (True, s') \<and> ossl_statem_client_write_transition E t = (WRITE_TRAN_CONTINUE, t')"
  shows "(if server then server_process_fn (hand s') else client_process_fn (hand s')) \<noteq> None
    \<and> (fst (if server then ossl_statem_server_construct_message t' else ossl_statem_client_construct_message t') \<noteq> None
       \<or> (\<forall>w. fst (if server then ossl_statem_server_pre_work E t' w else ossl_statem_client_pre_work E t' w) \<noteq> WORK_FINISHED_CONTINUE))"
proof (cases server)
  case True
  have "lands (\<lambda>h. server_process_fn h \<noteq> None) (if SSL_CONNECTION_IS_TLS13 s
      then (case ossl_statem_server13_read_transition s mt of (False, s) \<Rightarrow> Tran_Err s | (True, s) \<Rightarrow> Tran_Ok s) else server_read_switch s mt)"
    using tls13_lands [OF server13_lands] server_lands by auto
  from lands_finish [OF _ this, of E mt s'] server_writes [of E t] True assms constructs_construct(2) [of t'] end_states_stop(2) [of t' E]
  show ?thesis by (auto simp: ossl_statem_server_read_transition_def)
next
  case False
  have "lands (\<lambda>h. client_process_fn h \<noteq> None) (if SSL_CONNECTION_IS_TLS13 s
      then (case ossl_statem_client13_read_transition E s mt of (False, s) \<Rightarrow> Tran_Err s | (True, s) \<Rightarrow> Tran_Ok s) else client_read_switch s mt)"
    using tls13_lands [OF client13_lands] client_lands by auto
  from lands_finish [OF _ this, of E mt s'] client_writes [of E t] False assms constructs_construct(1) [of t'] end_states_stop(1) [of t' E]
  show ?thesis by (auto simp: ossl_statem_client_read_transition_def)
qed

theorem tables_complete_witness:
  "client_process_fn TLS_ST_CR_SRVR_HELLO \<noteq> None \<and> fst (ossl_statem_client_construct_message (set_hand TLS_ST_CW_FINISHED waiting_client)) \<noteq> None"
proof -
  have "ossl_statem_client_read_transition idle_env waiting_client SSL3_MT_SERVER_HELLO = (True, set_hand TLS_ST_CR_SRVR_HELLO waiting_client)"
    "ossl_statem_client_write_transition idle_env (set_hand TLS_ST_CR_FINISHED waiting_client) = (WRITE_TRAN_CONTINUE, set_hand TLS_ST_CW_FINISHED waiting_client)"
    by (simp_all add: ossl_statem_client_read_transition_def ossl_statem_client13_read_transition_def ossl_statem_client_write_transition_def
        ossl_statem_client13_write_transition_def cw_cert_or_finished_def finish_tran_def waiting_client_def blank_ssl_def set_hand_def
        SSL_CONNECTION_IS_TLS13_def SSL_CONNECTION_IS_DTLS_def)
  then show ?thesis
    using tables_complete [of False idle_env waiting_client SSL3_MT_SERVER_HELLO _ "set_hand TLS_ST_CR_FINISHED waiting_client"]
      ossl_statem_client_construct_message_def [of "set_hand TLS_ST_CW_FINISHED waiting_client"] by force
qed

end
