(* ===== verification/Version.thy ===== *)
theory Version
  imports WPacket Packet Statem
begin

text \<open>
  Protocol version negotiation: \<open>ssl/statem/statem_lib.c\<close> from \<open>ssl_version_cmp\<close> to
  \<open>ssl_set_client_hello_version\<close>, the method descriptions of \<open>ssl/methods.c\<close>, the hello random of
  \<open>ssl/s3_lib.c\<close> with its downgrade sentinels, and the supported_versions extension on both sides
  (\<open>ssl/statem/extensions_clnt.c\<close>, \<open>ssl/statem/extensions_srvr.c\<close>).

  The record \<open>VSSL\<close> is the part of a connection these functions read and write. A version is a C
  \<open>int\<close>. A callback that is only tested against NULL is a boolean; the security callback, which is
  called with a version, is a function of the version. Which versions are compiled in is the
  argument \<open>cfg\<close>, one boolean per \<open>OPENSSL_NO_...\<close> symbol. A result that is 0 on success and a reason
  code otherwise is an optional reason, \<open>None\<close> for 0.
\<close>

section \<open>Versions and methods\<close>

abbreviation (input) SSL3_VERSION :: int where "SSL3_VERSION \<equiv> 0x300"
abbreviation (input) TLS1_VERSION :: int where "TLS1_VERSION \<equiv> 0x301"
abbreviation (input) TLS1_1_VERSION :: int where "TLS1_1_VERSION \<equiv> 0x302"
abbreviation (input) TLS1_2_VERSION :: int where "TLS1_2_VERSION \<equiv> 0x303"
abbreviation (input) TLS1_3_VERSION :: int where "TLS1_3_VERSION \<equiv> 0x304"
abbreviation (input) DTLS1_VERSION :: int where "DTLS1_VERSION \<equiv> 0xFEFF"
abbreviation (input) DTLS1_2_VERSION :: int where "DTLS1_2_VERSION \<equiv> 0xFEFD"
abbreviation (input) DTLS1_BAD_VER :: int where "DTLS1_BAD_VER \<equiv> 0x100"
abbreviation (input) TLS_ANY_VERSION :: int where "TLS_ANY_VERSION \<equiv> 0x10000"
abbreviation (input) DTLS_ANY_VERSION :: int where "DTLS_ANY_VERSION \<equiv> 0x1FFFF"
abbreviation (input) TLS_MAX_VERSION_INTERNAL :: int where "TLS_MAX_VERSION_INTERNAL \<equiv> TLS1_3_VERSION"
abbreviation (input) DTLS_MAX_VERSION_INTERNAL :: int where "DTLS_MAX_VERSION_INTERNAL \<equiv> DTLS1_2_VERSION"

abbreviation (input) SSL_OP_NO_SSLv3 :: ulong where "SSL_OP_NO_SSLv3 \<equiv> 0x2000000"
abbreviation (input) SSL_OP_NO_TLSv1 :: ulong where "SSL_OP_NO_TLSv1 \<equiv> 0x4000000"
abbreviation (input) SSL_OP_NO_TLSv1_2 :: ulong where "SSL_OP_NO_TLSv1_2 \<equiv> 0x8000000"
abbreviation (input) SSL_OP_NO_TLSv1_1 :: ulong where "SSL_OP_NO_TLSv1_1 \<equiv> 0x10000000"
abbreviation (input) SSL_OP_NO_TLSv1_3 :: ulong where "SSL_OP_NO_TLSv1_3 \<equiv> 0x20000000"
abbreviation (input) SSL_OP_NO_DTLSv1 :: ulong where "SSL_OP_NO_DTLSv1 \<equiv> 0x4000000"
abbreviation (input) SSL_OP_NO_DTLSv1_2 :: ulong where "SSL_OP_NO_DTLSv1_2 \<equiv> 0x8000000"
abbreviation (input) SSL_METHOD_NO_FIPS :: uint where "SSL_METHOD_NO_FIPS \<equiv> 1"
abbreviation (input) SSL_METHOD_NO_SUITEB :: uint where "SSL_METHOD_NO_SUITEB \<equiv> 2"
abbreviation (input) SSL_CERT_FLAG_SUITEB_128_LOS :: uint where "SSL_CERT_FLAG_SUITEB_128_LOS \<equiv> 0x30000"
abbreviation (input) SSL_MODE_SEND_CLIENTHELLO_TIME :: uint where "SSL_MODE_SEND_CLIENTHELLO_TIME \<equiv> 0x20"
abbreviation (input) SSL_MODE_SEND_SERVERHELLO_TIME :: uint where "SSL_MODE_SEND_SERVERHELLO_TIME \<equiv> 0x40"
abbreviation (input) SSL_MODE_SEND_FALLBACK_SCSV :: uint where "SSL_MODE_SEND_FALLBACK_SCSV \<equiv> 0x80"
abbreviation (input) SSL_AD_DECODE_ERROR :: int where "SSL_AD_DECODE_ERROR \<equiv> 50"
abbreviation (input) SSL_AD_PROTOCOL_VERSION :: int where "SSL_AD_PROTOCOL_VERSION \<equiv> 70"

abbreviation (input) SSL_PKEY_DSA_SIGN :: nat where "SSL_PKEY_DSA_SIGN \<equiv> 2"
abbreviation (input) SSL_PKEY_ECC :: nat where "SSL_PKEY_ECC \<equiv> 3"
abbreviation (input) SSL_PKEY_GOST01 :: nat where "SSL_PKEY_GOST01 \<equiv> 4"
abbreviation (input) SSL_PKEY_GOST12_256 :: nat where "SSL_PKEY_GOST12_256 \<equiv> 5"
abbreviation (input) SSL_PKEY_GOST12_512 :: nat where "SSL_PKEY_GOST12_512 \<equiv> 6"
abbreviation (input) TLSEXT_cert_type_rpk :: byte where "TLSEXT_cert_type_rpk \<equiv> 2"
abbreviation (input) EVP_PKEY_EC :: int where "EVP_PKEY_EC \<equiv> 408"
abbreviation (input) NID_undef :: int where "NID_undef \<equiv> 0"

abbreviation (input) SSL_EXT_TLS_IMPLEMENTATION_ONLY :: uint where "SSL_EXT_TLS_IMPLEMENTATION_ONLY \<equiv> 0x4"
abbreviation (input) SSL_EXT_SSL3_ALLOWED :: uint where "SSL_EXT_SSL3_ALLOWED \<equiv> 0x8"
abbreviation (input) SSL_EXT_TLS1_2_AND_BELOW_ONLY :: uint where "SSL_EXT_TLS1_2_AND_BELOW_ONLY \<equiv> 0x10"
abbreviation (input) SSL_EXT_TLS1_3_ONLY :: uint where "SSL_EXT_TLS1_3_ONLY \<equiv> 0x20"
abbreviation (input) SSL_EXT_IGNORE_ON_RESUMPTION :: uint where "SSL_EXT_IGNORE_ON_RESUMPTION \<equiv> 0x40"
abbreviation (input) SSL_EXT_CLIENT_HELLO :: uint where "SSL_EXT_CLIENT_HELLO \<equiv> 0x80"
abbreviation (input) SSL_EXT_TLS1_2_SERVER_HELLO :: uint where "SSL_EXT_TLS1_2_SERVER_HELLO \<equiv> 0x100"
abbreviation (input) SSL_EXT_TLS1_3_SERVER_HELLO :: uint where "SSL_EXT_TLS1_3_SERVER_HELLO \<equiv> 0x200"
abbreviation (input) SSL_EXT_TLS1_3_HELLO_RETRY_REQUEST :: uint where "SSL_EXT_TLS1_3_HELLO_RETRY_REQUEST \<equiv> 0x800"
abbreviation (input) TLSEXT_TYPE_supported_versions :: nat where "TLSEXT_TYPE_supported_versions \<equiv> 43"

datatype REASON =
    SSL_R_VERSION_TOO_LOW | SSL_R_VERSION_TOO_HIGH | SSL_R_UNSUPPORTED_PROTOCOL
  | SSL_R_AT_LEAST_TLS_1_2_NEEDED_IN_SUITEB_MODE | SSL_R_WRONG_SSL_VERSION | SSL_R_LENGTH_MISMATCH
  | SSL_R_BAD_LEGACY_VERSION | SSL_R_INAPPROPRIATE_FALLBACK | SSL_R_BAD_PROTOCOL_VERSION_NUMBER
  | SSL_R_NO_PROTOCOLS_AVAILABLE | ERR_R_INTERNAL_ERROR

datatype DOWNGRADE = DOWNGRADE_NONE | DOWNGRADE_TO_1_2 | DOWNGRADE_TO_1_1

datatype EXT_RETURN = EXT_RETURN_FAIL | EXT_RETURN_SENT | EXT_RETURN_NOT_SENT

text \<open>The fields of a method that negotiation reads; \<open>mt_dtls\<close> is the DTLS flag of its \<open>ssl3_enc\<close>.\<close>

record SSL_METHOD =
  mt_version :: int
  mt_flags :: uint
  mt_mask :: ulong
  mt_dtls :: bool

definition tls_meth :: "int \<Rightarrow> uint \<Rightarrow> ulong \<Rightarrow> SSL_METHOD" where
  "tls_meth version flags mk = \<lparr>mt_version = version, mt_flags = flags, mt_mask = mk, mt_dtls = False\<rparr>"

definition ssl3_meth :: SSL_METHOD where
  "ssl3_meth = \<lparr>mt_version = SSL3_VERSION, mt_flags = SSL_METHOD_NO_FIPS OR SSL_METHOD_NO_SUITEB,
     mt_mask = SSL_OP_NO_SSLv3, mt_dtls = False\<rparr>"

definition dtls1_meth :: "int \<Rightarrow> uint \<Rightarrow> ulong \<Rightarrow> SSL_METHOD" where
  "dtls1_meth version flags mk = \<lparr>mt_version = version, mt_flags = flags, mt_mask = mk, mt_dtls = True\<rparr>"

definition TLS_method :: SSL_METHOD where "TLS_method = tls_meth TLS_ANY_VERSION 0 0"
definition tlsv1_3_method :: SSL_METHOD where "tlsv1_3_method = tls_meth TLS1_3_VERSION 0 SSL_OP_NO_TLSv1_3"
definition tlsv1_2_method :: SSL_METHOD where "tlsv1_2_method = tls_meth TLS1_2_VERSION 0 SSL_OP_NO_TLSv1_2"
definition tlsv1_1_method :: SSL_METHOD where "tlsv1_1_method = tls_meth TLS1_1_VERSION SSL_METHOD_NO_SUITEB SSL_OP_NO_TLSv1_1"
definition tlsv1_method :: SSL_METHOD where "tlsv1_method = tls_meth TLS1_VERSION SSL_METHOD_NO_SUITEB SSL_OP_NO_TLSv1"
definition DTLS_method :: SSL_METHOD where "DTLS_method = dtls1_meth DTLS_ANY_VERSION 0 0"
definition dtlsv1_2_method :: SSL_METHOD where "dtlsv1_2_method = dtls1_meth DTLS1_2_VERSION 0 SSL_OP_NO_DTLSv1_2"
definition dtlsv1_method :: SSL_METHOD where "dtlsv1_method = dtls1_meth DTLS1_VERSION SSL_METHOD_NO_SUITEB SSL_OP_NO_DTLSv1"
definition dtls_bad_ver_client_method :: SSL_METHOD where
  "dtls_bad_ver_client_method = dtls1_meth DTLS1_BAD_VER SSL_METHOD_NO_SUITEB SSL_OP_NO_DTLSv1"

record version_info =
  vi_version :: int
  vi_cmeth :: "SSL_METHOD option"
  vi_smeth :: "SSL_METHOD option"

record build_cfg =
  NO_TLS1_2 :: bool
  NO_TLS1_1 :: bool
  NO_TLS1 :: bool
  NO_SSL3 :: bool
  NO_DTLS1_2 :: bool
  NO_DTLS1 :: bool

definition vent_of :: "bool \<Rightarrow> int \<Rightarrow> SSL_METHOD \<Rightarrow> version_info" where
  "vent_of off v m = \<lparr>vi_version = v, vi_cmeth = (if off then None else Some m), vi_smeth = (if off then None else Some m)\<rparr>"

text \<open>The tables end with an entry of version 0 in the code; here with the end of the list.\<close>

definition tls_version_table :: "build_cfg \<Rightarrow> version_info list" where
  "tls_version_table cfg =
     [vent_of False TLS1_3_VERSION tlsv1_3_method,
      vent_of (NO_TLS1_2 cfg) TLS1_2_VERSION tlsv1_2_method,
      vent_of (NO_TLS1_1 cfg) TLS1_1_VERSION tlsv1_1_method,
      vent_of (NO_TLS1 cfg) TLS1_VERSION tlsv1_method,
      vent_of (NO_SSL3 cfg) SSL3_VERSION ssl3_meth]"

definition dtls_version_table :: "build_cfg \<Rightarrow> version_info list" where
  "dtls_version_table cfg =
     [vent_of (NO_DTLS1_2 cfg) DTLS1_2_VERSION dtlsv1_2_method,
      vent_of (NO_DTLS1 cfg) DTLS1_VERSION dtlsv1_method,
      \<lparr>vi_version = DTLS1_BAD_VER,
       vi_cmeth = (if NO_DTLS1 cfg then None else Some dtls_bad_ver_client_method), vi_smeth = None\<rparr>]"

section \<open>The connection\<close>

record SIGALG_LOOKUP =
  lu_sigalg :: "16 word"
  lu_sig :: int
  lu_curve :: int
  lu_enabled :: bool

record CERT_PKEY =
  pk_x509 :: bool
  pk_privatekey :: bool

record RAW_EXTENSION =
  re_data :: PACKET
  re_present :: bool
  re_parsed :: bool

record CLIENTHELLO =
  ch_legacy_version :: int
  ch_supported_versions :: RAW_EXTENSION

record VSSL =
  v_method :: "SSL_METHOD option"
  v_defltmeth :: SSL_METHOD
  v_version :: int
  v_client_version :: int
  v_server :: bool
  v_options :: ulong
  v_mode :: uint
  v_min_proto_version :: int
  v_max_proto_version :: int
  v_sec_cb :: "int \<Rightarrow> bool"
  v_cert_flags :: uint
  v_hello_retry_request :: HELLO_RETRY_REQUEST
  v_hit :: bool
  v_first_handshake :: bool
  v_server_random :: "byte list"
  v_ctx :: bool
  v_session_ctx :: bool
  v_ctx_servername_cb :: bool
  v_session_servername_cb :: bool
  v_psk_server_callback :: bool
  v_psk_find_session_cb :: bool
  v_cert_cb :: bool
  v_pkeys :: "CERT_PKEY list"
  v_ec_curve :: int
  v_server_cert_type :: "byte list option"
  v_client_cert_type :: "byte list option"
  v_conf_sigalgs :: "16 word list option"
  v_tls12_sigalgs :: "16 word list"
  v_sigalg_lookup_cache :: "SIGALG_LOOKUP list"
  v_rrlmethod :: bool
  v_wrlmethod :: bool
  v_rrl_version :: int
  v_wrl_version :: int
  v_fatal :: "(int \<times> REASON) option"

abbreviation vmeth :: "VSSL \<Rightarrow> SSL_METHOD" where
  "vmeth s \<equiv> the (v_method s)"

definition V_IS_DTLS :: "VSSL \<Rightarrow> bool" where
  "V_IS_DTLS s = mt_dtls (vmeth s)"

definition V_IS_TLS13 :: "VSSL \<Rightarrow> bool" where
  "V_IS_TLS13 s = (\<not> V_IS_DTLS s \<and> mt_version (vmeth s) \<ge> TLS1_3_VERSION \<and> mt_version (vmeth s) \<noteq> TLS_ANY_VERSION)"

text \<open>The first fatal error is kept, as in \<open>ossl_statem_fatal\<close>.\<close>

definition V_SSLfatal :: "VSSL \<Rightarrow> int \<Rightarrow> REASON \<Rightarrow> VSSL" where
  "V_SSLfatal s al reason = (case v_fatal s of None \<Rightarrow> s\<lparr>v_fatal := Some (al, reason)\<rparr> | Some _ \<Rightarrow> s)"

definition tls1_suiteb :: "VSSL \<Rightarrow> bool" where
  "tls1_suiteb s \<longleftrightarrow> v_cert_flags s AND SSL_CERT_FLAG_SUITEB_128_LOS \<noteq> 0"

definition ssl_set_record_protocol_version :: "VSSL \<Rightarrow> bool \<times> VSSL" where
  "ssl_set_record_protocol_version s =
     (if \<not> v_rrlmethod s \<or> \<not> v_wrlmethod s then (False, s)
      else (True, s\<lparr>v_rrl_version := v_version s, v_wrl_version := v_version s\<rparr>))"

section \<open>Comparing versions\<close>

definition dtls_ver_ordinal :: "int \<Rightarrow> int" where
  "dtls_ver_ordinal v1 = (if v1 = DTLS1_BAD_VER then 0xff00 else v1)"

definition DTLS_VERSION_GE :: "int \<Rightarrow> int \<Rightarrow> bool" where
  "DTLS_VERSION_GE v1 v2 \<longleftrightarrow> dtls_ver_ordinal v1 \<le> dtls_ver_ordinal v2"

definition DTLS_VERSION_LT :: "int \<Rightarrow> int \<Rightarrow> bool" where
  "DTLS_VERSION_LT v1 v2 \<longleftrightarrow> dtls_ver_ordinal v1 > dtls_ver_ordinal v2"

definition DTLS_VERSION_LE :: "int \<Rightarrow> int \<Rightarrow> bool" where
  "DTLS_VERSION_LE v1 v2 \<longleftrightarrow> dtls_ver_ordinal v1 \<ge> dtls_ver_ordinal v2"

definition ssl_version_cmp :: "VSSL \<Rightarrow> int \<Rightarrow> int \<Rightarrow> int" where
  "ssl_version_cmp s versiona versionb =
     (if versiona = versionb then 0
      else if \<not> V_IS_DTLS s then (if versiona < versionb then -1 else 1)
      else (if DTLS_VERSION_LT versiona versionb then -1 else 1))"

section \<open>Which versions are enabled\<close>

text \<open>
  The version case of the default security callback, at the security level \<open>level\<close> of the
  connection, clamped as \<open>ssl_get_security_level_bits\<close> does.
\<close>

definition security_level :: "int \<Rightarrow> int" where
  "security_level level = (if level > 5 then 5 else if level < 0 then 0 else level)"

definition default_security_version :: "bool \<Rightarrow> int \<Rightarrow> int \<Rightarrow> bool" where
  "default_security_version is_dtls sec_level nid =
     (let level = security_level sec_level in
      if level = 0 then True
      else if \<not> is_dtls then \<not> (nid \<le> TLS1_1_VERSION \<and> level > 0)
      else \<not> (DTLS_VERSION_LT nid DTLS1_2_VERSION \<and> level > 0))"

definition ssl_method_error :: "VSSL \<Rightarrow> SSL_METHOD \<Rightarrow> REASON option" where
  "ssl_method_error s method =
     (let version = mt_version method in
      if v_min_proto_version s \<noteq> 0 \<and> ssl_version_cmp s version (v_min_proto_version s) < 0 \<or> \<not> v_sec_cb s version
      then Some SSL_R_VERSION_TOO_LOW
      else if v_max_proto_version s \<noteq> 0 \<and> ssl_version_cmp s version (v_max_proto_version s) > 0
      then Some SSL_R_VERSION_TOO_HIGH
      else if v_options s AND mt_mask method \<noteq> 0 then Some SSL_R_UNSUPPORTED_PROTOCOL
      else if mt_flags method AND SSL_METHOD_NO_SUITEB \<noteq> 0 \<and> tls1_suiteb s
      then Some SSL_R_AT_LEAST_TLS_1_2_NEEDED_IN_SUITEB_MODE
      else None)"

definition ssl_has_cert_type :: "VSSL \<Rightarrow> byte \<Rightarrow> bool" where
  "ssl_has_cert_type sc ct =
     (case (if v_server sc then v_server_cert_type sc else v_client_cert_type sc) of
        None \<Rightarrow> False
      | Some ptr \<Rightarrow> ct \<in> set ptr)"

definition ssl_has_cert :: "VSSL \<Rightarrow> nat \<Rightarrow> bool" where
  "ssl_has_cert s idx =
     (if idx \<ge> length (v_pkeys s) then False
      else if ssl_has_cert_type s TLSEXT_cert_type_rpk then pk_privatekey (v_pkeys s ! idx)
      else pk_x509 (v_pkeys s ! idx) \<and> pk_privatekey (v_pkeys s ! idx))"

definition tls1_lookup_sigalg :: "VSSL \<Rightarrow> 16 word \<Rightarrow> SIGALG_LOOKUP option" where
  "tls1_lookup_sigalg s sigalg =
     (case find (\<lambda>lu. lu_sigalg lu = sigalg) (take (length (v_tls12_sigalgs s)) (v_sigalg_lookup_cache s)) of
        None \<Rightarrow> None
      | Some lu \<Rightarrow> if \<not> lu_enabled lu then None else Some lu)"

definition tls_check_sigalg_curve :: "VSSL \<Rightarrow> int \<Rightarrow> bool" where
  "tls_check_sigalg_curve s curve =
     list_ex (\<lambda>sig. case tls1_lookup_sigalg s sig of
                 None \<Rightarrow> False
               | Some lu \<Rightarrow> lu_sig lu = EVP_PKEY_EC \<and> lu_curve lu \<noteq> NID_undef \<and> curve = lu_curve lu)
       (case v_conf_sigalgs s of Some sigs \<Rightarrow> sigs | None \<Rightarrow> v_tls12_sigalgs s)"

definition is_tls13_capable :: "VSSL \<Rightarrow> bool" where
  "is_tls13_capable s =
     (if \<not> v_ctx s \<or> \<not> v_session_ctx s then False
      else if v_ctx_servername_cb s \<or> v_session_servername_cb s then True
      else if v_psk_server_callback s then True
      else if v_psk_find_session_cb s \<or> v_cert_cb s then True
      else
        list_ex (\<lambda>i.
          if i = SSL_PKEY_DSA_SIGN \<or> i = SSL_PKEY_GOST01 \<or> i = SSL_PKEY_GOST12_256 \<or> i = SSL_PKEY_GOST12_512 then False
          else if \<not> ssl_has_cert s i then False
          else if i \<noteq> SSL_PKEY_ECC then True
          else tls_check_sigalg_curve s (v_ec_curve s)) [0..<length (v_pkeys s)])"

text \<open>The loop of \<open>ssl_version_supported\<close>; the result is the method it stores through \<open>meth\<close>.\<close>

fun version_supported_loop :: "VSSL \<Rightarrow> int \<Rightarrow> version_info list \<Rightarrow> SSL_METHOD option" where
  "version_supported_loop s version [] = None"
| "version_supported_loop s version (vent # vents) =
     (if \<not> ssl_version_cmp s version (vi_version vent) \<le> 0 then None
      else case (if v_server s then vi_smeth vent else vi_cmeth vent) of
        None \<Rightarrow> version_supported_loop s version vents
      | Some thismeth \<Rightarrow>
          if ssl_version_cmp s version (vi_version vent) = 0
             \<and> ssl_method_error s thismeth = None
             \<and> (\<not> v_server s \<or> version \<noteq> TLS1_3_VERSION \<or> is_tls13_capable s)
          then Some thismeth
          else version_supported_loop s version vents)"

text \<open>The first component is the result; the second is what \<open>*meth\<close> holds afterwards.\<close>

definition ssl_version_supported :: "build_cfg \<Rightarrow> VSSL \<Rightarrow> int \<Rightarrow> SSL_METHOD option \<Rightarrow> bool \<times> SSL_METHOD option" where
  "ssl_version_supported cfg s version meth =
     (if mt_version (vmeth s) = TLS_ANY_VERSION \<or> mt_version (vmeth s) = DTLS_ANY_VERSION then
        case version_supported_loop s version
               (if mt_version (vmeth s) = TLS_ANY_VERSION then tls_version_table cfg else dtls_version_table cfg) of
          None \<Rightarrow> (False, meth)
        | Some m \<Rightarrow> (True, Some m)
      else (ssl_version_cmp s version (v_version s) = 0, meth))"

fun highest_enabled :: "VSSL \<Rightarrow> version_info list \<Rightarrow> bool" where
  "highest_enabled s [] = False"
| "highest_enabled s (vent # vents) =
     (case vi_smeth vent of
        Some m \<Rightarrow> if ssl_method_error s m = None then v_version s = vi_version vent else highest_enabled s vents
      | None \<Rightarrow> highest_enabled s vents)"

definition ssl_check_version_downgrade :: "build_cfg \<Rightarrow> VSSL \<Rightarrow> bool" where
  "ssl_check_version_downgrade cfg s =
     (if v_version s = mt_version (v_defltmeth s) then True
      else if mt_version (v_defltmeth s) = mt_version TLS_method then highest_enabled s (tls_version_table cfg)
      else if mt_version (v_defltmeth s) = mt_version DTLS_method then highest_enabled s (dtls_version_table cfg)
      else False)"

definition ssl_set_version_bound :: "int \<Rightarrow> int \<Rightarrow> int \<Rightarrow> bool \<times> int" where
  "ssl_set_version_bound method_version version bound =
     (if version = 0 then (True, version)
      else
        let valid_tls = version \<ge> SSL3_VERSION \<and> version \<le> TLS_MAX_VERSION_INTERNAL;
            valid_dtls = version = DTLS1_BAD_VER
              \<or> DTLS_VERSION_LE version DTLS_MAX_VERSION_INTERNAL \<and> DTLS_VERSION_GE version DTLS1_VERSION
        in if \<not> valid_tls \<and> \<not> valid_dtls then (False, bound)
           else if method_version = TLS_ANY_VERSION then (True, if valid_tls then version else bound)
           else if method_version = DTLS_ANY_VERSION then (True, if valid_dtls then version else bound)
           else (True, bound))"

section \<open>The server's choice\<close>

definition check_for_downgrade :: "build_cfg \<Rightarrow> VSSL \<Rightarrow> int \<Rightarrow> DOWNGRADE" where
  "check_for_downgrade cfg s vers =
     (if vers = TLS1_2_VERSION \<and> fst (ssl_version_supported cfg s TLS1_3_VERSION None) then DOWNGRADE_TO_1_2
      else if \<not> V_IS_DTLS s \<and> vers < TLS1_2_VERSION \<and> fst (ssl_version_supported cfg s TLS1_2_VERSION None)
      then DOWNGRADE_TO_1_1
      else DOWNGRADE_NONE)"

text \<open>
  The loop over the client's list. It ends when fewer than two bytes are left; the result is the
  best version, its method and the packet that remains.
\<close>

function (sequential) best_version_loop ::
    "build_cfg \<Rightarrow> VSSL \<Rightarrow> PACKET \<Rightarrow> int \<Rightarrow> SSL_METHOD option \<Rightarrow> (int \<times> SSL_METHOD option \<times> PACKET) outcome" where
  "best_version_loop cfg s versionslist best_vers best_method =
     (case PACKET_get_net_2 versionslist of
        Undef \<Rightarrow> Undef
      | Fail \<Rightarrow> Ret (best_vers, best_method, versionslist)
      | Ret (cand, rest) \<Rightarrow>
          (let candidate_vers = uint cand in
           if ssl_version_cmp s candidate_vers best_vers \<le> 0 then best_version_loop cfg s rest best_vers best_method
           else case ssl_version_supported cfg s candidate_vers best_method of
             (True, m) \<Rightarrow> best_version_loop cfg s rest candidate_vers m
           | (False, m) \<Rightarrow> best_version_loop cfg s rest best_vers m))"
  by pat_completeness auto

lemma get_net_2_shrinks:
  "PACKET_get_net_2 pkt = Ret (v, rest) \<Longrightarrow> length (p_curr rest) < length (p_curr pkt)"
  by (auto simp: PACKET_get_net_2_def PACKET_peek_net_2_def packet_at_def packet_forward_def
      obind_Ret_eq_Ret split: if_splits)

termination best_version_loop
  by (relation "measure (\<lambda>(cfg, s, pkt, v, m). length (p_curr pkt))") (auto dest: get_net_2_shrinks)

declare best_version_loop.simps [simp del]

text \<open>The loop over the table when the client sent no list of versions, and what it leaves behind.\<close>

fun choose_from_table :: "build_cfg \<Rightarrow> VSSL \<Rightarrow> int \<Rightarrow> version_info list \<Rightarrow> bool \<Rightarrow> DOWNGRADE \<Rightarrow> REASON option \<times> VSSL \<times> DOWNGRADE" where
  "choose_from_table cfg s client_version [] disabled dgrd =
     (Some (if disabled then SSL_R_UNSUPPORTED_PROTOCOL else SSL_R_VERSION_TOO_LOW), s, dgrd)"
| "choose_from_table cfg s client_version (vent # vents) disabled dgrd =
     (case vi_smeth vent of
        None \<Rightarrow> choose_from_table cfg s client_version vents disabled dgrd
      | Some meth \<Rightarrow>
          if ssl_version_cmp s client_version (vi_version vent) < 0
          then choose_from_table cfg s client_version vents disabled dgrd
          else if ssl_method_error s meth = None then
            (case ssl_set_record_protocol_version (s\<lparr>v_version := vi_version vent, v_method := Some meth\<rparr>) of
               (ok, s') \<Rightarrow> (if ok then None else Some ERR_R_INTERNAL_ERROR, s', check_for_downgrade cfg s (vi_version vent)))
          else choose_from_table cfg s client_version vents True dgrd)"

definition ssl_choose_server_version ::
    "build_cfg \<Rightarrow> VSSL \<Rightarrow> CLIENTHELLO \<Rightarrow> DOWNGRADE \<Rightarrow> (REASON option \<times> VSSL \<times> CLIENTHELLO \<times> DOWNGRADE) outcome" where
  "ssl_choose_server_version cfg s0 hello dgrd =
     (let server_version = mt_version (vmeth s0);
          client_version = ch_legacy_version hello;
          s = s0\<lparr>v_client_version := client_version\<rparr>
      in
      if server_version \<noteq> TLS_ANY_VERSION \<and> server_version \<noteq> DTLS_ANY_VERSION \<and> \<not> V_IS_TLS13 s then
        (if ssl_version_cmp s client_version (v_version s) < 0
         then Ret (Some SSL_R_WRONG_SSL_VERSION, s, hello, dgrd)
         else Ret (None, s, hello, DOWNGRADE_NONE))
      else
        let table = (if server_version = DTLS_ANY_VERSION then dtls_version_table cfg else tls_version_table cfg);
            suppversions = ch_supported_versions hello
        in
        if \<not> re_present suppversions \<and> v_hello_retry_request s \<noteq> SSL_HRR_NONE
        then Ret (Some SSL_R_UNSUPPORTED_PROTOCOL, s, hello, dgrd)
        else if re_present suppversions \<and> \<not> V_IS_DTLS s then
          let hello = hello\<lparr>ch_supported_versions := suppversions\<lparr>re_parsed := True\<rparr>\<rparr> in
          (case PACKET_as_length_prefixed_1 (re_data suppversions) of
             Undef \<Rightarrow> Undef
           | Fail \<Rightarrow> Ret (Some SSL_R_LENGTH_MISMATCH, s, hello, dgrd)
           | Ret (versionslist, data') \<Rightarrow>
               let hello = hello\<lparr>ch_supported_versions := suppversions\<lparr>re_parsed := True, re_data := data'\<rparr>\<rparr> in
               if client_version \<le> SSL3_VERSION then Ret (Some SSL_R_BAD_LEGACY_VERSION, s, hello, dgrd)
               else
                 (case best_version_loop cfg s versionslist 0 None of
                    Undef \<Rightarrow> Undef
                  | Fail \<Rightarrow> Fail
                  | Ret (best_vers, best_method, versionslist) \<Rightarrow>
                      if PACKET_remaining versionslist \<noteq> 0 then Ret (Some SSL_R_LENGTH_MISMATCH, s, hello, dgrd)
                      else if best_vers > 0 then
                        (if v_hello_retry_request s \<noteq> SSL_HRR_NONE then
                           Ret (if best_vers \<noteq> TLS1_3_VERSION then Some SSL_R_UNSUPPORTED_PROTOCOL else None, s, hello, dgrd)
                         else
                           case ssl_set_record_protocol_version (s\<lparr>v_version := best_vers, v_method := best_method\<rparr>) of
                             (ok, s') \<Rightarrow> Ret (if ok then None else Some ERR_R_INTERNAL_ERROR, s', hello,
                                            check_for_downgrade cfg s best_vers))
                      else Ret (Some SSL_R_UNSUPPORTED_PROTOCOL, s, hello, dgrd)))
        else
          let client_version = (if ssl_version_cmp s client_version TLS1_3_VERSION \<ge> 0 then TLS1_2_VERSION else client_version) in
          case choose_from_table cfg s client_version table False dgrd of
            (r, s', dgrd') \<Rightarrow> Ret (r, s', hello, dgrd'))"

section \<open>The range a client offers\<close>

text \<open>
  One round of the loop over the table: the range found so far, whether the last entry was a hole,
  the highest version above the current hole, and what is stored in \<open>*real_max\<close>.
\<close>

record version_range =
  vr_min :: int
  vr_version :: int
  vr_hole :: bool
  vr_tmp_real_max :: int
  vr_real_max :: int

definition range_step :: "VSSL \<Rightarrow> version_info \<Rightarrow> version_range \<Rightarrow> version_range" where
  "range_step s vent r =
     (case vi_cmeth vent of
        None \<Rightarrow> r\<lparr>vr_hole := True, vr_tmp_real_max := 0\<rparr>
      | Some meth \<Rightarrow>
          let r = (if vr_hole r \<and> vr_tmp_real_max r = 0 then r\<lparr>vr_tmp_real_max := vi_version vent\<rparr> else r) in
          if ssl_method_error s meth \<noteq> None then r\<lparr>vr_hole := True\<rparr>
          else if \<not> vr_hole r then r\<lparr>vr_min := mt_version meth\<rparr>
          else
            let r = (if vr_tmp_real_max r \<noteq> 0 then r\<lparr>vr_real_max := vr_tmp_real_max r\<rparr> else r) in
            r\<lparr>vr_version := mt_version meth, vr_min := mt_version meth, vr_hole := False\<rparr>)"

definition range_of :: "VSSL \<Rightarrow> version_info list \<Rightarrow> version_range" where
  "range_of s table = fold (range_step s) table
     \<lparr>vr_min = 0, vr_version = 0, vr_hole = True, vr_tmp_real_max = 0, vr_real_max = 0\<rparr>"

text \<open>
  The result with \<open>*min_version\<close>, \<open>*max_version\<close> and \<open>*real_max\<close>; \<open>want\<close> says that \<open>real_max\<close> is not
  NULL (the last component means nothing otherwise).
\<close>

definition ssl_get_min_max_version :: "build_cfg \<Rightarrow> VSSL \<Rightarrow> bool \<Rightarrow> REASON option \<times> int \<times> int \<times> int" where
  "ssl_get_min_max_version cfg s want =
     (if mt_version (vmeth s) = TLS_ANY_VERSION \<or> mt_version (vmeth s) = DTLS_ANY_VERSION then
        let r = range_of s (if mt_version (vmeth s) = TLS_ANY_VERSION then tls_version_table cfg else dtls_version_table cfg)
        in (if vr_version r = 0 then Some SSL_R_NO_PROTOCOLS_AVAILABLE else None, vr_min r, vr_version r, vr_real_max r)
      else (if want then Some ERR_R_INTERNAL_ERROR else None, v_version s, v_version s, 0))"

definition ssl_set_client_hello_version :: "build_cfg \<Rightarrow> VSSL \<Rightarrow> REASON option \<times> VSSL" where
  "ssl_set_client_hello_version cfg s =
     (if \<not> v_first_handshake s then (None, s)
      else case ssl_get_min_max_version cfg s False of
        (Some r, _) \<Rightarrow> (Some r, s)
      | (None, ver_min, ver_max, _) \<Rightarrow>
          let s = s\<lparr>v_version := ver_max\<rparr> in
          if V_IS_DTLS s then
            (if ver_max = DTLS1_BAD_VER then
               (case ssl_set_record_protocol_version s of
                  (False, s) \<Rightarrow> (None, s)
                | (True, s) \<Rightarrow> (None, s\<lparr>v_client_version := ver_max\<rparr>))
             else (None, s\<lparr>v_client_version := ver_max\<rparr>))
          else (None, s\<lparr>v_client_version := (if ver_max > TLS1_2_VERSION then TLS1_2_VERSION else ver_max)\<rparr>))"

section \<open>The hello random\<close>

definition tls11downgrade :: "byte list" where
  "tls11downgrade = [0x44, 0x4f, 0x57, 0x4e, 0x47, 0x52, 0x44, 0x00]"

definition tls12downgrade :: "byte list" where
  "tls12downgrade = [0x44, 0x4f, 0x57, 0x4e, 0x47, 0x52, 0x44, 0x01]"

text \<open>
  The generator \<open>rand\<close> gives the result of \<open>RAND_bytes_ex\<close> and what it leaves in a buffer of the given
  size; \<open>now\<close> is the time. The second component is what the buffer of \<open>len\<close> bytes holds afterwards,
  \<open>old\<close> when nothing is written.
\<close>

definition ssl_fill_hello_random ::
    "VSSL \<Rightarrow> (nat \<Rightarrow> int \<times> byte list) \<Rightarrow> nat \<Rightarrow> bool \<Rightarrow> byte list \<Rightarrow> nat \<Rightarrow> DOWNGRADE \<Rightarrow> int \<times> byte list" where
  "ssl_fill_hello_random s rand now server old len dgrd =
     (if len < 4 then (0, old)
      else
        let send_time = (if server then v_mode s AND SSL_MODE_SEND_SERVERHELLO_TIME \<noteq> 0
                         else v_mode s AND SSL_MODE_SEND_CLIENTHELLO_TIME \<noteq> 0);
            (ret, result) = (if send_time then (case rand (len - 4) of (ret, bs) \<Rightarrow> (ret, be_bytes 4 (now mod 2 ^ 32) @ bs))
                             else rand len)
        in if ret > 0 then
             (if \<not> length tls11downgrade < len \<or> \<not> length tls12downgrade < len then (0, result)
              else if dgrd = DOWNGRADE_TO_1_2 then (ret, patch result (len - length tls12downgrade) tls12downgrade)
              else if dgrd = DOWNGRADE_TO_1_1 then (ret, patch result (len - length tls11downgrade) tls11downgrade)
              else (ret, result))
           else (ret, result))"

section \<open>The supported_versions extension\<close>

text \<open>
  The functions that write an extension return with the connection and the packet as they are at
  that point; a failed write leaves the packet where the writer left it.
\<close>

definition ext_fail :: "VSSL \<Rightarrow> (bool \<times> WPACKET) outcome \<Rightarrow> (EXT_RETURN \<times> VSSL \<times> WPACKET) outcome" where
  "ext_fail s w =
     (case w of
        Undef \<Rightarrow> Undef | Fail \<Rightarrow> Fail
      | Ret (False, pkt) \<Rightarrow> Ret (EXT_RETURN_FAIL, V_SSLfatal s SSL_AD_INTERNAL_ERROR ERR_R_INTERNAL_ERROR, pkt)
      | Ret (True, pkt) \<Rightarrow> Ret (EXT_RETURN_SENT, s, pkt))"

function put_versions :: "MEM \<Rightarrow> int \<Rightarrow> int \<Rightarrow> WPACKET \<Rightarrow> (bool \<times> WPACKET) outcome" where
  "put_versions m currv min_version pkt =
     (if currv \<ge> min_version
      then wthen (WPACKET_put_bytes m pkt (nat (currv mod 2 ^ 64)) 2) (put_versions m (currv - 1) min_version)
      else Ret (True, pkt))"
  by pat_completeness auto

termination put_versions
  by (relation "measure (\<lambda>(m, c, mn, p). nat (c - mn + 1))") auto

declare put_versions.simps [simp del]

definition tls_construct_ctos_supported_versions ::
    "build_cfg \<Rightarrow> MEM \<Rightarrow> VSSL \<Rightarrow> WPACKET \<Rightarrow> (EXT_RETURN \<times> VSSL \<times> WPACKET) outcome" where
  "tls_construct_ctos_supported_versions cfg m s pkt =
     (case ssl_get_min_max_version cfg s False of
        (Some reason, _) \<Rightarrow> Ret (EXT_RETURN_FAIL, V_SSLfatal s SSL_AD_INTERNAL_ERROR reason, pkt)
      | (None, min_version, max_version, _) \<Rightarrow>
          if max_version < TLS1_3_VERSION then Ret (EXT_RETURN_NOT_SENT, s, pkt)
          else ext_fail s
            (wthen (WPACKET_put_bytes m pkt TLSEXT_TYPE_supported_versions 2) (\<lambda>pkt.
             wthen (Ret (WPACKET_start_sub_packet_len m pkt 2)) (\<lambda>pkt.
             wthen (Ret (WPACKET_start_sub_packet_len m pkt 1)) (\<lambda>pkt.
             wthen (put_versions m max_version min_version pkt) (\<lambda>pkt.
             wthen (WPACKET_close m pkt) (WPACKET_close m)))))))"

definition tls_construct_stoc_supported_versions ::
    "MEM \<Rightarrow> VSSL \<Rightarrow> WPACKET \<Rightarrow> (EXT_RETURN \<times> VSSL \<times> WPACKET) outcome" where
  "tls_construct_stoc_supported_versions m s pkt =
     (if \<not> V_IS_TLS13 s then Ret (EXT_RETURN_FAIL, V_SSLfatal s SSL_AD_INTERNAL_ERROR ERR_R_INTERNAL_ERROR, pkt)
      else ext_fail s
        (wthen (WPACKET_put_bytes m pkt TLSEXT_TYPE_supported_versions 2) (\<lambda>pkt.
         wthen (Ret (WPACKET_start_sub_packet_len m pkt 2)) (\<lambda>pkt.
         wthen (WPACKET_put_bytes m pkt (nat (v_version s mod 2 ^ 64)) 2) (WPACKET_close m)))))"

definition extension_is_relevant :: "VSSL \<Rightarrow> uint \<Rightarrow> uint \<Rightarrow> bool" where
  "extension_is_relevant s extctx thisctx =
     (let is_tls13 = (if thisctx AND SSL_EXT_TLS1_3_HELLO_RETRY_REQUEST \<noteq> 0 then True else V_IS_TLS13 s) in
      \<not> ((V_IS_DTLS s \<and> extctx AND SSL_EXT_TLS_IMPLEMENTATION_ONLY \<noteq> 0)
         \<or> (v_version s = SSL3_VERSION \<and> extctx AND SSL_EXT_SSL3_ALLOWED = 0)
         \<or> (is_tls13 \<and> extctx AND SSL_EXT_TLS1_2_AND_BELOW_ONLY \<noteq> 0)
         \<or> (\<not> is_tls13 \<and> extctx AND SSL_EXT_TLS1_3_ONLY \<noteq> 0 \<and> thisctx AND SSL_EXT_CLIENT_HELLO = 0)
         \<or> (v_server s \<and> \<not> is_tls13 \<and> extctx AND SSL_EXT_TLS1_3_ONLY \<noteq> 0)
         \<or> (v_hit s \<and> extctx AND SSL_EXT_IGNORE_ON_RESUMPTION \<noteq> 0)))"

definition tls_parse_stoc_supported_versions :: "VSSL \<Rightarrow> PACKET \<Rightarrow> uint \<Rightarrow> (bool \<times> VSSL \<times> PACKET) outcome" where
  "tls_parse_stoc_supported_versions s pkt ctxt =
     (case PACKET_get_net_2 pkt of
        Undef \<Rightarrow> Undef
      | Fail \<Rightarrow> Ret (False, V_SSLfatal s SSL_AD_DECODE_ERROR SSL_R_LENGTH_MISMATCH, pkt)
      | Ret (version, pkt) \<Rightarrow>
          if PACKET_remaining pkt \<noteq> 0 then Ret (False, V_SSLfatal s SSL_AD_DECODE_ERROR SSL_R_LENGTH_MISMATCH, pkt)
          else if uint version \<noteq> TLS1_3_VERSION
          then Ret (False, V_SSLfatal s SSL_AD_ILLEGAL_PARAMETER SSL_R_BAD_PROTOCOL_VERSION_NUMBER, pkt)
          else if ctxt = SSL_EXT_TLS1_3_HELLO_RETRY_REQUEST then Ret (True, s, pkt)
          else case ssl_set_record_protocol_version (s\<lparr>v_version := uint version\<rparr>) of
            (True, s) \<Rightarrow> Ret (True, s, pkt)
          | (False, s) \<Rightarrow> Ret (False, V_SSLfatal s SSL_AD_INTERNAL_ERROR ERR_R_INTERNAL_ERROR, pkt))"

text \<open>
  \<open>tls_parse_extension\<close> at the index of supported_versions, called by a client: the entry of
  \<open>ext_defs\<close> gives the contexts and the parser.
\<close>

definition supported_versions_context :: uint where
  "supported_versions_context = SSL_EXT_CLIENT_HELLO OR SSL_EXT_TLS1_3_SERVER_HELLO
     OR SSL_EXT_TLS1_3_HELLO_RETRY_REQUEST OR SSL_EXT_TLS_IMPLEMENTATION_ONLY"

definition tls_parse_extension_supported_versions ::
    "VSSL \<Rightarrow> uint \<Rightarrow> RAW_EXTENSION \<Rightarrow> (bool \<times> VSSL \<times> RAW_EXTENSION) outcome" where
  "tls_parse_extension_supported_versions s ctxt currext =
     (if \<not> re_present currext then Ret (True, s, currext)
      else if re_parsed currext then Ret (True, s, currext)
      else
        let currext = currext\<lparr>re_parsed := True\<rparr> in
        if \<not> extension_is_relevant s supported_versions_context ctxt then Ret (True, s, currext)
        else obind (tls_parse_stoc_supported_versions s (re_data currext) ctxt) (\<lambda>(ok, s, pkt).
               Ret (ok, s, currext\<lparr>re_data := pkt\<rparr>)))"

section \<open>The client's check\<close>

definition SSL3_RANDOM_SIZE :: nat where "SSL3_RANDOM_SIZE = 32"

definition random_tail :: "VSSL \<Rightarrow> byte list" where
  "random_tail s = drop (SSL3_RANDOM_SIZE - 8) (v_server_random s)"

definition downgrade_signalled :: "VSSL \<Rightarrow> int \<Rightarrow> bool" where
  "downgrade_signalled s real_max =
     (if v_version s = TLS1_2_VERSION \<and> real_max > v_version s then random_tail s = tls12downgrade
      else if \<not> V_IS_DTLS s \<and> v_version s < TLS1_2_VERSION \<and> real_max > v_version s then random_tail s = tls11downgrade
      else False)"

fun client_method_loop :: "VSSL \<Rightarrow> version_info list \<Rightarrow> SSL_METHOD option" where
  "client_method_loop s [] = None"
| "client_method_loop s (vent # vents) =
     (case vi_cmeth vent of
        None \<Rightarrow> client_method_loop s vents
      | Some m \<Rightarrow> if v_version s \<noteq> vi_version vent then client_method_loop s vents else Some m)"

definition set_record_version_or_fatal :: "VSSL \<Rightarrow> bool \<times> VSSL" where
  "set_record_version_or_fatal s =
     (case ssl_set_record_protocol_version s of
        (True, s) \<Rightarrow> (True, s)
      | (False, s) \<Rightarrow> (False, V_SSLfatal s SSL_AD_INTERNAL_ERROR ERR_R_INTERNAL_ERROR))"

definition ssl_choose_client_version ::
    "build_cfg \<Rightarrow> VSSL \<Rightarrow> int \<Rightarrow> RAW_EXTENSION \<Rightarrow> (bool \<times> VSSL \<times> RAW_EXTENSION) outcome" where
  "ssl_choose_client_version cfg s0 version ext0 =
     (let origv = v_version s0;
          back = (\<lambda>s al r. (False, V_SSLfatal (s\<lparr>v_version := origv\<rparr>) al r))
      in obind (tls_parse_extension_supported_versions (s0\<lparr>v_version := version\<rparr>)
                  (SSL_EXT_TLS1_2_SERVER_HELLO OR SSL_EXT_TLS1_3_SERVER_HELLO) ext0) (\<lambda>(ok, s, ext).
         let (ok, s) =
           (if \<not> ok then (False, s\<lparr>v_version := origv\<rparr>)
            else if v_hello_retry_request s \<noteq> SSL_HRR_NONE \<and> v_version s \<noteq> TLS1_3_VERSION
            then back s SSL_AD_PROTOCOL_VERSION SSL_R_WRONG_SSL_VERSION
            else if mt_version (vmeth s) \<noteq> TLS_ANY_VERSION \<and> mt_version (vmeth s) \<noteq> DTLS_ANY_VERSION then
              (if v_version s \<noteq> mt_version (vmeth s) then back s SSL_AD_PROTOCOL_VERSION SSL_R_WRONG_SSL_VERSION
               else set_record_version_or_fatal s)
            else case ssl_get_min_max_version cfg s True of
              (Some ret, _) \<Rightarrow> back s SSL_AD_PROTOCOL_VERSION ret
            | (None, ver_min, ver_max, real_max) \<Rightarrow>
                if ssl_version_cmp s (v_version s) ver_min < 0 \<or> ssl_version_cmp s (v_version s) ver_max > 0
                then back s SSL_AD_PROTOCOL_VERSION SSL_R_UNSUPPORTED_PROTOCOL
                else
                  let real_max = (if v_mode s AND SSL_MODE_SEND_FALLBACK_SCSV = 0 then ver_max else real_max) in
                  if downgrade_signalled s real_max
                  then back s SSL_AD_ILLEGAL_PARAMETER SSL_R_INAPPROPRIATE_FALLBACK
                  else
                    case client_method_loop s (if mt_version (vmeth s) = TLS_ANY_VERSION then tls_version_table cfg
                                               else dtls_version_table cfg) of
                      Some meth \<Rightarrow> set_record_version_or_fatal (s\<lparr>v_method := Some meth\<rparr>)
                    | None \<Rightarrow> back s SSL_AD_PROTOCOL_VERSION SSL_R_UNSUPPORTED_PROTOCOL)
         in Ret (ok, s, ext)))"

text \<open>The version field of the ServerHello.\<close>

definition server_hello_version :: "VSSL \<Rightarrow> int" where
  "server_hello_version s =
     (if V_IS_TLS13 s \<or> v_hello_retry_request s = SSL_HRR_PENDING then TLS1_2_VERSION else v_version s)"

end
