(* ===== verification/Version_Neg.thy ===== *)
theory Version_Neg
  imports Version
begin

text \<open>
  What version negotiation guarantees, for connections whose method is the version-flexible
  \<open>TLS_method\<close> (\<open>flexible_tls\<close>). The reference notions are \<open>enabled\<close>, a version that is compiled in and
  excluded by no setting, and \<open>supports\<close>, what a server can select. The lemmas characterise the loops over
  the version tables by these (\<open>supported_tls\<close>, \<open>range_tls\<close>, \<open>client_method_table\<close>), the loop over the
  client's list by its maximum (\<open>best_of\<close>), and the extension writers by the bytes they produce, as
  instances of the locale \<open>wpacket_writer\<close>. The properties are that the client's range is the lowest run
  of enabled versions, that the server picks the highest common version, that honest endpoints agree,
  that a downgrade is detected, and that a client goes on only with a version it enables.
\<close>

section \<open>Versions of a TLS connection\<close>

definition flexible_tls :: "VSSL \<Rightarrow> bool" where
  "flexible_tls s \<longleftrightarrow> v_method s = Some TLS_method"

lemma flexible_tls_simps [simp]:
  assumes "flexible_tls s"
  shows "mt_version (vmeth s) = TLS_ANY_VERSION" and "\<not> V_IS_DTLS s" and "\<not> V_IS_TLS13 s"
  using assms by (simp_all add: flexible_tls_def V_IS_DTLS_def V_IS_TLS13_def TLS_method_def tls_meth_def)

lemma cmp_tls: "\<not> V_IS_DTLS s \<Longrightarrow> ssl_version_cmp s a b = (if a = b then 0 else if a < b then -1 else 1)"
  by (simp add: ssl_version_cmp_def)

lemmas method_defs = tls_meth_def ssl3_meth_def tlsv1_3_method_def tlsv1_2_method_def tlsv1_1_method_def tlsv1_method_def

definition method_of :: "int \<Rightarrow> SSL_METHOD" where
  "method_of v = (if v = TLS1_3_VERSION then tlsv1_3_method else if v = TLS1_2_VERSION then tlsv1_2_method
     else if v = TLS1_1_VERSION then tlsv1_1_method else if v = TLS1_VERSION then tlsv1_method else ssl3_meth)"

definition compiled_in :: "build_cfg \<Rightarrow> int \<Rightarrow> bool" where
  "compiled_in cfg v \<longleftrightarrow> v = TLS1_3_VERSION \<or> v = TLS1_2_VERSION \<and> \<not> NO_TLS1_2 cfg \<or> v = TLS1_1_VERSION \<and> \<not> NO_TLS1_1 cfg
     \<or> v = TLS1_VERSION \<and> \<not> NO_TLS1 cfg \<or> v = SSL3_VERSION \<and> \<not> NO_SSL3 cfg"

text \<open>A version is enabled when it is compiled in and no setting of the connection excludes it.\<close>

definition enabled :: "build_cfg \<Rightarrow> VSSL \<Rightarrow> int \<Rightarrow> bool" where
  "enabled cfg s v \<longleftrightarrow> compiled_in cfg v \<and> ssl_method_error s (method_of v) = None"

lemma mt_version_method_of: "SSL3_VERSION \<le> v \<Longrightarrow> v \<le> TLS1_3_VERSION \<Longrightarrow> mt_version (method_of v) = v"
  by (auto simp: method_of_def method_defs)

lemma enabled_range: "enabled cfg s v \<Longrightarrow> SSL3_VERSION \<le> v \<and> v \<le> TLS1_3_VERSION"
  by (auto simp: enabled_def compiled_in_def)

lemma tls_versions: "SSL3_VERSION \<le> v \<Longrightarrow> v \<le> TLS1_3_VERSION \<Longrightarrow>
    v = TLS1_3_VERSION \<or> v = TLS1_2_VERSION \<or> v = TLS1_1_VERSION \<or> v = TLS1_VERSION \<or> v = SSL3_VERSION"
  for v :: int by presburger

lemma enabled_versions:
  "enabled cfg s 0x304 \<longleftrightarrow> ssl_method_error s tlsv1_3_method = None"
  "enabled cfg s 0x303 \<longleftrightarrow> \<not> NO_TLS1_2 cfg \<and> ssl_method_error s tlsv1_2_method = None"
  "enabled cfg s 0x302 \<longleftrightarrow> \<not> NO_TLS1_1 cfg \<and> ssl_method_error s tlsv1_1_method = None"
  "enabled cfg s 0x301 \<longleftrightarrow> \<not> NO_TLS1 cfg \<and> ssl_method_error s tlsv1_method = None"
  "enabled cfg s 0x300 \<longleftrightarrow> \<not> NO_SSL3 cfg \<and> ssl_method_error s ssl3_meth = None"
  by (simp_all add: enabled_def compiled_in_def method_of_def)

lemma method_error_cong:
  assumes "v_min_proto_version s = v_min_proto_version t" "v_max_proto_version s = v_max_proto_version t"
    "v_sec_cb s = v_sec_cb t" "v_options s = v_options t" "v_cert_flags s = v_cert_flags t" "v_method s = v_method t"
  shows "ssl_method_error s = ssl_method_error t"
proof -
  have d: "V_IS_DTLS s = V_IS_DTLS t" using assms by (simp add: V_IS_DTLS_def)
  have "ssl_version_cmp s = ssl_version_cmp t" by (intro ext) (simp only: ssl_version_cmp_def d)
  moreover have "tls1_suiteb s = tls1_suiteb t" using assms by (simp only: tls1_suiteb_def)
  ultimately show ?thesis using assms by (intro ext) (simp only: ssl_method_error_def)
qed

lemma enabled_update [simp]:
  "enabled cfg (s\<lparr>v_client_version := x\<rparr>) = enabled cfg s"
  "enabled cfg (s\<lparr>v_version := x\<rparr>) = enabled cfg s"
  "enabled cfg (s\<lparr>v_rrl_version := x\<rparr>) = enabled cfg s"
  "enabled cfg (s\<lparr>v_wrl_version := x\<rparr>) = enabled cfg s"
  by (intro ext, simp add: enabled_def, subst method_error_cong [of _ s], simp_all)+

lemma is_tls13_capable_update [simp]:
  "is_tls13_capable (s\<lparr>v_client_version := x\<rparr>) = is_tls13_capable s"
proof -
  have "ssl_has_cert (s\<lparr>v_client_version := x\<rparr>) = ssl_has_cert s"
    by (intro ext) (simp add: ssl_has_cert_def ssl_has_cert_type_def)
  moreover have "tls_check_sigalg_curve (s\<lparr>v_client_version := x\<rparr>) = tls_check_sigalg_curve s"
    by (intro ext) (simp add: tls_check_sigalg_curve_def tls1_lookup_sigalg_def cong: option.case_cong)
  ultimately show ?thesis by (simp add: is_tls13_capable_def)
qed

text \<open>What a server supports: an enabled version, and for TLSv1.3 also a way to authenticate.\<close>

definition supports :: "build_cfg \<Rightarrow> VSSL \<Rightarrow> int \<Rightarrow> bool" where
  "supports cfg s v \<longleftrightarrow> enabled cfg s v \<and> (v_server s \<and> v = TLS1_3_VERSION \<longrightarrow> is_tls13_capable s)"

lemma supported_loop_tls:
  "\<not> V_IS_DTLS s \<Longrightarrow> version_supported_loop s v (vent_of off w m # vents) =
     (if w < v then None
      else if v = w \<and> \<not> off \<and> ssl_method_error s m = None \<and> (v_server s \<and> v = TLS1_3_VERSION \<longrightarrow> is_tls13_capable s)
      then Some m else version_supported_loop s v vents)"
  by (auto simp: vent_of_def cmp_tls)

lemma supported_loop_tls_Nil: "version_supported_loop s v [] = None"
  by simp

lemma supported_loop_table:
  assumes "\<not> V_IS_DTLS s"
  shows "version_supported_loop s v (tls_version_table cfg) = (if supports cfg s v then Some (method_of v) else None)"
proof (cases "SSL3_VERSION \<le> v \<and> v \<le> TLS1_3_VERSION")
  case True
  then have v: "v = 0x304 \<or> v = 0x303 \<or> v = 0x302 \<or> v = 0x301 \<or> v = 0x300" by presburger
  show ?thesis
    using v unfolding tls_version_table_def supported_loop_tls [OF assms] supported_loop_tls_Nil
    by (elim disjE; simp only: supports_def enabled_versions) (simp_all add: method_of_def)
next
  case False
  then have "\<not> supports cfg s v" using enabled_range [of cfg s v] by (auto simp: supports_def)
  then show ?thesis using False
    unfolding tls_version_table_def supported_loop_tls [OF assms] supported_loop_tls_Nil by auto
qed

lemma supported_tls:
  assumes "flexible_tls s"
  shows "ssl_version_supported cfg s v m = (if supports cfg s v then (True, Some (method_of v)) else (False, m))"
  using assms by (simp add: ssl_version_supported_def supported_loop_table)

section \<open>The range a client offers\<close>

text \<open>
  The loop sees of each entry only whether the client method exists and whether it is enabled.
\<close>

lemma range_step_vent:
  "range_step s (vent_of off v m) r =
     (if off then r\<lparr>vr_hole := True, vr_tmp_real_max := 0\<rparr>
      else let r = (if vr_hole r \<and> vr_tmp_real_max r = 0 then r\<lparr>vr_tmp_real_max := v\<rparr> else r) in
        if ssl_method_error s m \<noteq> None then r\<lparr>vr_hole := True\<rparr>
        else if \<not> vr_hole r then r\<lparr>vr_min := mt_version m\<rparr>
        else let r = (if vr_tmp_real_max r \<noteq> 0 then r\<lparr>vr_real_max := vr_tmp_real_max r\<rparr> else r) in
          r\<lparr>vr_version := mt_version m, vr_min := mt_version m, vr_hole := False\<rparr>)"
  by (simp add: range_step_def vent_of_def)

text \<open>
  The invariant of the loop, after the entries down to version \<open>w\<close>: the range found so far, if any, is a
  run of enabled versions with a disabled version or the end of the table above it; it is the last run
  so far, and it reaches down to \<open>w\<close> unless the loop is in a hole.
\<close>

definition range_inv :: "(int \<Rightarrow> bool) \<Rightarrow> int \<Rightarrow> version_range \<Rightarrow> bool" where
  "range_inv en w r \<longleftrightarrow>
     (if vr_version r = 0 then vr_hole r \<and> (\<forall>v \<ge> w. \<not> en v)
      else w \<le> vr_min r \<and> vr_min r \<le> vr_version r \<and> (\<forall>v. vr_min r \<le> v \<and> v \<le> vr_version r \<longrightarrow> en v)
        \<and> (\<forall>v. w \<le> v \<and> v < vr_min r \<longrightarrow> \<not> en v) \<and> \<not> en (vr_version r + 1) \<and> (vr_hole r \<longleftrightarrow> vr_min r \<noteq> w))"

lemma range_step_fields:
  assumes "mt_version m = w"
  shows "vr_hole (range_step s (vent_of off w m) r) \<longleftrightarrow> off \<or> ssl_method_error s m \<noteq> None"
    and "vr_version (range_step s (vent_of off w m) r) =
      (if \<not> off \<and> ssl_method_error s m = None \<and> vr_hole r then w else vr_version r)"
    and "vr_min (range_step s (vent_of off w m) r) =
      (if \<not> off \<and> ssl_method_error s m = None then w else vr_min r)"
  using assms by (simp_all add: range_step_vent Let_def)

lemma range_inv_step:
  assumes inv: "range_inv en (w + 1) r" and m: "mt_version m = w" and w: "0 < w"
    and en: "en w \<longleftrightarrow> \<not> off \<and> ssl_method_error s m = None"
  shows "range_inv en w (range_step s (vent_of off w m) r)"
proof -
  have le: "w \<le> v \<longleftrightarrow> v = w \<or> w + 1 \<le> v" for v by auto
  show ?thesis
  proof (cases "en w")
    case True
    then show ?thesis using inv w en unfolding range_inv_def range_step_fields [OF m]
      by (cases "vr_version r = 0"; cases "vr_hole r") (auto simp: le)
  next
    case False
    then show ?thesis using inv w en unfolding range_inv_def range_step_fields [OF m]
      by (cases "vr_version r = 0") (auto simp: le)
  qed
qed

text \<open>An induction rule for the loop over the TLS table: one step per entry, from the highest version down.\<close>

lemma range_of_induct:
  assumes init: "P (TLS1_3_VERSION + 1) \<lparr>vr_min = 0, vr_version = 0, vr_hole = True, vr_tmp_real_max = 0, vr_real_max = 0\<rparr>"
    and step: "\<And>w off m r. P (w + 1) r \<Longrightarrow> mt_version m = w \<Longrightarrow> 0 < w \<Longrightarrow>
      (enabled cfg s w \<longleftrightarrow> \<not> off \<and> ssl_method_error s m = None) \<Longrightarrow> P w (range_step s (vent_of off w m) r)"
  shows "P SSL3_VERSION (range_of s (tls_version_table cfg))"
proof -
  define r0 where "r0 = \<lparr>vr_min = 0, vr_version = 0, vr_hole = True, vr_tmp_real_max = 0, vr_real_max = 0\<rparr>"
  define r4 where "r4 = range_step s (vent_of False TLS1_3_VERSION tlsv1_3_method) r0"
  define r3 where "r3 = range_step s (vent_of (NO_TLS1_2 cfg) TLS1_2_VERSION tlsv1_2_method) r4"
  define r2 where "r2 = range_step s (vent_of (NO_TLS1_1 cfg) TLS1_1_VERSION tlsv1_1_method) r3"
  define r1 where "r1 = range_step s (vent_of (NO_TLS1 cfg) TLS1_VERSION tlsv1_method) r2"
  have "P TLS1_3_VERSION r4" unfolding r4_def
    by (rule step, unfold r0_def, rule init) (simp_all add: enabled_versions, simp add: method_defs)
  then have "P TLS1_2_VERSION r3" unfolding r3_def by (intro step) (simp_all add: enabled_versions, simp add: method_defs)
  then have "P TLS1_1_VERSION r2" unfolding r2_def by (intro step) (simp_all add: enabled_versions, simp add: method_defs)
  then have "P TLS1_VERSION r1" unfolding r1_def by (intro step) (simp_all add: enabled_versions, simp add: method_defs)
  then have "P SSL3_VERSION (range_step s (vent_of (NO_SSL3 cfg) SSL3_VERSION ssl3_meth) r1)"
    by (intro step) (simp_all add: enabled_versions, simp add: method_defs)
  then show ?thesis
    by (simp add: range_of_def tls_version_table_def r0_def [symmetric] r4_def [symmetric] r3_def [symmetric]
        r2_def [symmetric] r1_def [symmetric])
qed

lemma range_inv_tls: "range_inv (enabled cfg s) SSL3_VERSION (range_of s (tls_version_table cfg))"
proof (rule range_of_induct)
  show "range_inv (enabled cfg s) (TLS1_3_VERSION + 1)
      \<lparr>vr_min = 0, vr_version = 0, vr_hole = True, vr_tmp_real_max = 0, vr_real_max = 0\<rparr>"
    using enabled_range [of cfg s] by (fastforce simp: range_inv_def)
qed (rule range_inv_step)

lemma range_tls:
  assumes tls: "flexible_tls s" and r: "ssl_get_min_max_version cfg s want = (r, mn, mx, rm)"
  shows "r = None \<Longrightarrow> mn \<le> mx \<and> (\<forall>v. mn \<le> v \<and> v \<le> mx \<longrightarrow> enabled cfg s v)
      \<and> (\<forall>v < mn. \<not> enabled cfg s v) \<and> \<not> enabled cfg s (mx + 1)"
    and "r = None \<longleftrightarrow> (\<exists>v. enabled cfg s v)"
    and "r \<noteq> None \<Longrightarrow> r = Some SSL_R_NO_PROTOCOLS_AVAILABLE"
proof -
  define q where "q = range_of s (tls_version_table cfg)"
  have q: "r = (if vr_version q = 0 then Some SSL_R_NO_PROTOCOLS_AVAILABLE else None)" "mn = vr_min q" "mx = vr_version q"
    using r tls by (simp_all add: ssl_get_min_max_version_def Let_def q_def split: if_splits)
  have inv: "range_inv (enabled cfg s) SSL3_VERSION q" unfolding q_def by (rule range_inv_tls)
  have low: "\<not> enabled cfg s v" if "v < SSL3_VERSION" for v using enabled_range [of cfg s v] that by auto
  show "mn \<le> mx \<and> (\<forall>v. mn \<le> v \<and> v \<le> mx \<longrightarrow> enabled cfg s v) \<and> (\<forall>v < mn. \<not> enabled cfg s v) \<and> \<not> enabled cfg s (mx + 1)"
    if "r = None"
    using inv q that low unfolding range_inv_def by (metis linorder_not_less option.distinct(1))
  show "r = None \<longleftrightarrow> (\<exists>v. enabled cfg s v)"
    using inv q(1) low unfolding range_inv_def by (metis linorder_not_less option.distinct(1) order_refl)
  show "r = Some SSL_R_NO_PROTOCOLS_AVAILABLE" if "r \<noteq> None" using q(1) that by (simp split: if_splits)
qed

section \<open>The server's choice from the client's list\<close>

definition wire_versions :: "nat list \<Rightarrow> byte list" where
  "wire_versions vs = concat (map (be_bytes 2) vs)"

definition best_of :: "build_cfg \<Rightarrow> VSSL \<Rightarrow> nat list \<Rightarrow> int \<Rightarrow> int" where
  "best_of cfg s vs b = fold (\<lambda>v b. if b < int v \<and> supports cfg s (int v) then int v else b) vs b"

lemma best_of_simps [simp]:
  "best_of cfg s [] b = b"
  "best_of cfg s (v # vs) b = best_of cfg s vs (if b < int v \<and> supports cfg s (int v) then int v else b)"
  by (simp_all add: best_of_def)

lemma best_of_ge: "b \<le> best_of cfg s vs b"
proof (induction vs arbitrary: b)
  case (Cons v vs)
  show ?case using Cons.IH [of b] Cons.IH [of "int v"] by simp
qed simp

lemma best_of_in: "best_of cfg s vs b = b \<or> best_of cfg s vs b \<in> int ` set vs \<and> supports cfg s (best_of cfg s vs b)"
proof (induction vs arbitrary: b)
  case (Cons v vs)
  show ?case using Cons.IH [of b] Cons.IH [of "int v"] by auto
qed simp

lemma best_of_best: "v \<in> set vs \<Longrightarrow> supports cfg s (int v) \<Longrightarrow> int v \<le> best_of cfg s vs b"
proof (induction vs arbitrary: b)
  case (Cons w vs)
  then show ?case using best_of_ge [of "int v" cfg s vs] best_of_ge [of b cfg s vs] by (cases "v = w") auto
qed simp

lemma best_version_loop_wire:
  assumes tls: "flexible_tls s" and "\<forall>v \<in> set vs. v < 65536" and "packet_wf pkt" and "packet_bytes pkt = wire_versions vs"
  shows "\<exists>pkt'. best_version_loop cfg s pkt b m
      = Ret (best_of cfg s vs b, if best_of cfg s vs b = b then m else Some (method_of (best_of cfg s vs b)), pkt')
    \<and> p_remaining pkt' = 0"
  using assms(2-)
proof (induction vs arbitrary: pkt b m)
  case Nil
  then have "p_remaining pkt = 0" using length_packet_bytes [of pkt] by (simp add: wire_versions_def)
  then show ?case
    using Nil get_net_2.get_short [of pkt] by (subst best_version_loop.simps) simp
next
  case (Cons v vs)
  have "packet_bytes pkt = be_bytes 2 v @ wire_versions vs" using Cons.prems(3) by (simp add: wire_versions_def)
  with Cons.prems obtain c rest where g: "PACKET_get_net_2 pkt = Ret (c, rest)" "unat c = v" "packet_wf rest"
    "packet_bytes rest = wire_versions vs" using get_net_2.get_encoded [of pkt v "wire_versions vs"] by auto
  then have c: "uint c = int v" by (metis unsigned_of_nat int_eq_iff uint_nat unat_eq_nat_uint)
  define b' where "b' = (if b < int v \<and> supports cfg s (int v) then int v else b)"
  define m' where "m' = (if b < int v \<and> supports cfg s (int v) then Some (method_of (int v)) else m)"
  have step: "best_version_loop cfg s pkt b m = best_version_loop cfg s rest b' m'"
    using tls by (subst best_version_loop.simps) (simp add: g c cmp_tls supported_tls b'_def m'_def Let_def)
  have fold_eq: "best_of cfg s (v # vs) b = best_of cfg s vs b'" by (simp add: b'_def)
  have mono: "b' \<le> best_of cfg s vs b'" by (rule best_of_ge)
  obtain pkt' where "best_version_loop cfg s rest b' m'
      = Ret (best_of cfg s vs b', if best_of cfg s vs b' = b' then m' else Some (method_of (best_of cfg s vs b')), pkt')"
    "p_remaining pkt' = 0" using Cons.IH [OF _ g(3,4), of b' m'] Cons.prems by auto
  then show ?case unfolding step fold_eq using mono by (auto simp: b'_def m'_def)
qed


lemma as_prefixed_1:
  "PACKET_as_length_prefixed_1 pkt =
     obind (PACKET_get_length_prefixed_1 pkt) (\<lambda>(sub, rest). if PACKET_remaining rest \<noteq> 0 then Fail else Ret (sub, rest))"
  by (simp add: PACKET_as_length_prefixed_1_def PACKET_get_length_prefixed_1_def obind_assoc case_prod_unfold cong: if_cong)

lemma as_prefixed_1_encoded:
  assumes "packet_wf pkt" "packet_bytes pkt = be_bytes 1 (length xs) @ xs" "length xs < 256"
  shows "\<exists>sub rest. PACKET_as_length_prefixed_1 pkt = Ret (sub, rest) \<and> packet_wf sub \<and> packet_bytes sub = xs"
proof -
  obtain sub rest where g: "PACKET_get_length_prefixed_1 pkt = Ret (sub, rest)" "packet_bytes sub = xs"
    "packet_bytes rest = []" "packet_wf sub" "packet_wf rest"
    using prefixed_1.getp_encoded [OF assms(1), of xs "[]"] assms by auto
  then show ?thesis using length_packet_bytes [of rest] by (simp add: as_prefixed_1 PACKET_remaining_def)
qed

lemma length_wire_versions [simp]: "length (wire_versions vs) = 2 * length vs"
  by (induction vs) (simp_all add: wire_versions_def)

definition answers :: "(REASON option \<times> VSSL \<times> CLIENTHELLO \<times> DOWNGRADE) outcome \<Rightarrow> REASON option \<Rightarrow> VSSL \<Rightarrow> DOWNGRADE \<Rightarrow> bool" where
  "answers r reason s d \<longleftrightarrow> (\<exists>h. r = Ret (reason, s, h, d))"

lemma server_choice_from_list:
  assumes tls: "flexible_tls s" and hrr: "v_hello_retry_request s = SSL_HRR_NONE"
    and sv: "re_present (ch_supported_versions hello)" "packet_wf (re_data (ch_supported_versions hello))"
    and data: "packet_bytes (re_data (ch_supported_versions hello)) = be_bytes 1 (length (wire_versions vs)) @ wire_versions vs"
    and vs: "\<forall>v \<in> set vs. v < 65536" "length vs < 128"
    and legacy: "SSL3_VERSION < ch_legacy_version hello"
    and rl: "v_rrlmethod s" "v_wrlmethod s"
  shows "(if \<exists>v \<in> set vs. supports cfg s (int v)
     then (let b = best_of cfg s vs 0 in
       answers (ssl_choose_server_version cfg s hello d) None
        (s\<lparr>v_client_version := ch_legacy_version hello, v_version := b, v_method := Some (method_of b),
           v_rrl_version := b, v_wrl_version := b\<rparr>) (check_for_downgrade cfg s b))
     else answers (ssl_choose_server_version cfg s hello d) (Some SSL_R_UNSUPPORTED_PROTOCOL)
        (s\<lparr>v_client_version := ch_legacy_version hello\<rparr>) d)"
proof -
  define t where "t = s\<lparr>v_client_version := ch_legacy_version hello\<rparr>"
  have t: "flexible_tls t" "v_hello_retry_request t = SSL_HRR_NONE" "v_rrlmethod t" "v_wrlmethod t"
    using tls hrr rl by (simp_all add: t_def flexible_tls_def)
  have sup: "supports cfg t = supports cfg s" 
    by (intro ext) (simp add: supports_def t_def)
  have best: "best_of cfg t vs 0 = best_of cfg s vs 0" by (simp add: best_of_def sup)
  obtain sub rest where as1: "PACKET_as_length_prefixed_1 (re_data (ch_supported_versions hello)) = Ret (sub, rest)"
    "packet_wf sub" "packet_bytes sub = wire_versions vs"
    using as_prefixed_1_encoded [OF sv(2) data] vs by auto
  obtain pkt' where loop: "best_version_loop cfg t sub 0 None = Ret (best_of cfg s vs 0,
      if best_of cfg s vs 0 = 0 then None else Some (method_of (best_of cfg s vs 0)), pkt')" "p_remaining pkt' = 0"
    using best_version_loop_wire [OF t(1) vs(1) as1(2,3), of cfg 0 None] best by auto
  have pos: "0 < best_of cfg s vs 0 \<longleftrightarrow> (\<exists>v \<in> set vs. supports cfg s (int v))"
    using best_of_in [of cfg s vs 0] best_of_best [of _ vs cfg s 0] enabled_range [of cfg s]
    by (force simp: supports_def)
  have chk: "check_for_downgrade cfg t v = check_for_downgrade cfg s v" for v
    using t(1) tls by (simp add: check_for_downgrade_def supported_tls sup)
  show ?thesis
    unfolding ssl_choose_server_version_def answers_def Let_def t_def [symmetric]
    using sv t legacy tls as1 loop pos chk unfolding t_def
    by (auto simp: PACKET_remaining_def ssl_set_record_protocol_version_def)
qed


lemma server_choice_is_max:
  assumes "flexible_tls s" and "v_hello_retry_request s = SSL_HRR_NONE"
    and "re_present (ch_supported_versions hello)" "packet_wf (re_data (ch_supported_versions hello))"
    and "packet_bytes (re_data (ch_supported_versions hello)) = be_bytes 1 (length (wire_versions vs)) @ wire_versions vs"
    and "\<forall>v \<in> set vs. v < 65536" "length vs < 128" and "SSL3_VERSION < ch_legacy_version hello"
    and "v_rrlmethod s" "v_wrlmethod s"
  shows "\<exists>r s' hello' d'. ssl_choose_server_version cfg s hello d = Ret (r, s', hello', d') \<and>
    (if \<exists>v \<in> set vs. supports cfg s (int v)
     then r = None \<and> v_version s' = Max (int ` {v \<in> set vs. supports cfg s (int v)})
       \<and> v_method s' = Some (method_of (v_version s')) \<and> v_rrl_version s' = v_version s' \<and> v_wrl_version s' = v_version s'
       \<and> v_hello_retry_request s' = SSL_HRR_NONE
     else r = Some SSL_R_UNSUPPORTED_PROTOCOL \<and> v_version s' = v_version s \<and> v_method s' = v_method s)"
proof (cases "\<exists>v \<in> set vs. supports cfg s (int v)")
  case True
  note c = server_choice_from_list [OF assms, of cfg d]
  have "best_of cfg s vs 0 \<noteq> 0" using True best_of_best [of _ vs cfg s 0] enabled_range [of cfg s] by (force simp: supports_def)
  then have "Max (int ` {v \<in> set vs. supports cfg s (int v)}) = best_of cfg s vs 0"
    using best_of_in [of cfg s vs 0] best_of_best [of _ vs cfg s 0] by (intro Max_eqI) auto
  then show ?thesis using c True assms(2) by (auto simp: answers_def Let_def)
next
  case False
  then show ?thesis using server_choice_from_list [OF assms, of cfg d] by (auto simp: answers_def)
qed

section \<open>Any choice a server can make\<close>

lemma best_version_loop_supported:
  assumes "flexible_tls s"
  shows "best_version_loop cfg s pkt b m = Ret (b', m', pkt') \<Longrightarrow>
    b' = b \<and> m' = m \<or> supports cfg s b' \<and> m' = Some (method_of b')"
proof (induction "length (p_curr pkt)" arbitrary: pkt b m rule: less_induct)
  case less
  show ?case
  proof (cases "PACKET_get_net_2 pkt")
    case (Ret x)
    obtain c rest where x: "x = (c, rest)" by fastforce
    have sh: "length (p_curr rest) < length (p_curr pkt)" using get_net_2_shrinks Ret x by simp
    define v where "v = uint c"
    have "best_version_loop cfg s rest (if b < v \<and> supports cfg s v then v else b)
        (if b < v \<and> supports cfg s v then Some (method_of v) else m) = Ret (b', m', pkt')"
      using less.prems assms
      by (subst (asm) best_version_loop.simps) (simp add: Ret x v_def [symmetric] Let_def cmp_tls supported_tls split: if_splits)
    from less.hyps [OF sh this] show ?thesis by (auto split: if_splits)
  qed (use less.prems in \<open>simp_all add: best_version_loop.simps [of _ _ pkt]\<close>)
qed

lemma choose_from_table_None:
  "choose_from_table cfg s cv table dis d0 = (None, s', d) \<Longrightarrow>
     \<exists>vent \<in> set table. \<exists>m. vi_smeth vent = Some m \<and> ssl_method_error s m = None
       \<and> v_version s' = vi_version vent \<and> v_method s' = Some m \<and> d = check_for_downgrade cfg s (vi_version vent)"
  by (induction cfg s cv table dis d0 rule: choose_from_table.induct)
    (auto simp: ssl_set_record_protocol_version_def split: option.splits if_splits)


lemma table_entry_enabled:
  "vent \<in> set (tls_version_table cfg) \<Longrightarrow> vi_smeth vent = Some m \<Longrightarrow> ssl_method_error s m = None \<Longrightarrow>
     enabled cfg s (vi_version vent) \<and> m = method_of (vi_version vent)"
  by (auto simp: tls_version_table_def vent_of_def enabled_versions split: if_splits) (simp_all add: method_of_def)

lemma update_client_version [simp]:
  "flexible_tls (s\<lparr>v_client_version := x\<rparr>) = flexible_tls s"
  "supports cfg (s\<lparr>v_client_version := x\<rparr>) = supports cfg s"
  by (simp add: flexible_tls_def) (intro ext, simp add: supports_def)

lemma check_for_downgrade_tls:
  "flexible_tls s \<Longrightarrow> check_for_downgrade cfg s v =
     (if v = TLS1_2_VERSION \<and> supports cfg s TLS1_3_VERSION then DOWNGRADE_TO_1_2
      else if v < TLS1_2_VERSION \<and> supports cfg s TLS1_2_VERSION then DOWNGRADE_TO_1_1 else DOWNGRADE_NONE)"
  by (simp add: check_for_downgrade_def supported_tls)

definition legacy_limit :: "VSSL \<Rightarrow> int \<Rightarrow> int" where
  "legacy_limit s v = (if ssl_version_cmp s v TLS1_3_VERSION \<ge> 0 then TLS1_2_VERSION else v)"

lemma choose_server_no_list:
  assumes "\<not> re_present (ch_supported_versions hello)" "flexible_tls s" "v_hello_retry_request s = SSL_HRR_NONE"
    and t: "t = s\<lparr>v_client_version := ch_legacy_version hello\<rparr>"
  shows "ssl_choose_server_version cfg s hello d0 =
    (case choose_from_table cfg t (legacy_limit t (ch_legacy_version hello)) (tls_version_table cfg) False d0 of
       (r, u, e) \<Rightarrow> Ret (r, u, hello, e))"
proof -
  have "flexible_tls t" "v_hello_retry_request t = SSL_HRR_NONE" using assms by simp_all
  then show ?thesis
    using assms(1,2) unfolding ssl_choose_server_version_def Let_def t [symmetric] legacy_limit_def [symmetric] by simp
qed

lemma server_choice_sound:
  assumes tls: "flexible_tls s" and hrr: "v_hello_retry_request s = SSL_HRR_NONE"
    and c0: "ssl_choose_server_version cfg s hello d0 = Ret (None, s', hello', d)"
  shows "enabled cfg s (v_version s')" and "v_method s' = Some (method_of (v_version s'))"
    and "d = check_for_downgrade cfg s (v_version s')"
proof -
  define t where "t = s\<lparr>v_client_version := ch_legacy_version hello\<rparr>"
  have t: "flexible_tls t" "v_hello_retry_request t = SSL_HRR_NONE" using tls hrr by (simp_all add: t_def)
  note c = c0 [unfolded ssl_choose_server_version_def Let_def t_def [symmetric]]
  have "enabled cfg t (v_version s') \<and> v_method s' = Some (method_of (v_version s')) \<and> d = check_for_downgrade cfg t (v_version s')"
  proof (cases "re_present (ch_supported_versions hello)")
    case True
    note c = c [simplified t tls True flexible_tls_simps if_False if_True simp_thms]
    obtain sub rest where a: "PACKET_as_length_prefixed_1 (re_data (ch_supported_versions hello)) = Ret (sub, rest)"
      using c by (cases "PACKET_as_length_prefixed_1 (re_data (ch_supported_versions hello))") auto
    obtain b m pkt where l: "best_version_loop cfg t sub 0 None = Ret (b, m, pkt)"
      using c a by (cases "best_version_loop cfg t sub 0 None") (auto split: if_splits)
    have b: "0 < b" "v_version s' = b" "v_method s' = m" "d = check_for_downgrade cfg t b"
      using c a l by (auto simp: ssl_set_record_protocol_version_def split: if_splits)
    then show ?thesis using best_version_loop_supported [OF t(1) l] by (simp add: supports_def)
  next
    case False
    have "ssl_choose_server_version cfg s hello d0 =
        (case choose_from_table cfg t (legacy_limit t (ch_legacy_version hello)) (tls_version_table cfg) False d0 of
           (r, u, e) \<Rightarrow> Ret (r, u, hello, e))"
      using False tls hrr t_def by (rule choose_server_no_list)
    with c0 have "choose_from_table cfg t (legacy_limit t (ch_legacy_version hello)) (tls_version_table cfg) False d0 = (None, s', d)"
      by (simp split: prod.splits)
    from choose_from_table_None [OF this] show ?thesis using table_entry_enabled [of _ cfg _ t] by auto
  qed
  then show "enabled cfg s (v_version s')" "v_method s' = Some (method_of (v_version s'))"
    "d = check_for_downgrade cfg s (v_version s')"
    using tls t(1) by (simp_all add: t_def check_for_downgrade_tls)
qed


section \<open>The client's side\<close>

definition real_max_inv :: "int \<Rightarrow> version_range \<Rightarrow> bool" where
  "real_max_inv w r \<longleftrightarrow> (vr_tmp_real_max r = 0 \<or> w \<le> vr_tmp_real_max r) \<and> (vr_version r \<noteq> 0 \<longrightarrow> vr_version r \<le> vr_real_max r)"

lemma real_max_inv_step:
  "real_max_inv (w + 1) r \<Longrightarrow> mt_version m = w \<Longrightarrow> 0 < w \<Longrightarrow> real_max_inv w (range_step s (vent_of off w m) r)"
  by (auto simp: real_max_inv_def range_step_vent Let_def)

lemma real_max_ge:
  assumes tls: "flexible_tls s" and r: "ssl_get_min_max_version cfg s want = (None, mn, mx, rm)"
  shows "mx \<le> rm"
proof -
  have "real_max_inv SSL3_VERSION (range_of s (tls_version_table cfg))"
    by (rule range_of_induct) (simp add: real_max_inv_def, rule real_max_inv_step)
  then show ?thesis using r tls by (auto simp: ssl_get_min_max_version_def Let_def real_max_inv_def split: if_splits)
qed

lemma client_method_table:
  "client_method_loop s (tls_version_table cfg) = (if compiled_in cfg (v_version s) then Some (method_of (v_version s)) else None)"
  by (auto simp: tls_version_table_def vent_of_def compiled_in_def) (simp_all add: method_of_def)

definition refused :: "(bool \<times> VSSL \<times> RAW_EXTENSION) outcome \<Rightarrow> int \<Rightarrow> int \<Rightarrow> REASON \<Rightarrow> bool" where
  "refused r origv al reason \<longleftrightarrow> (\<exists>s ext. r = Ret (False, s, ext) \<and> v_version s = origv \<and> v_fatal s = Some (al, reason))"

definition accepted :: "(bool \<times> VSSL \<times> RAW_EXTENSION) outcome \<Rightarrow> int \<Rightarrow> bool" where
  "accepted r v \<longleftrightarrow> (\<exists>s ext. r = Ret (True, s, ext) \<and> v_version s = v \<and> v_method s = Some (method_of v)
     \<and> v_rrl_version s = v \<and> v_wrl_version s = v \<and> v_fatal s = None)"

text \<open>
  What a client does with the version it was offered, once the extension is parsed: \<open>s\<close> is the
  connection after that, still with its flexible method.
\<close>

lemma choose_client_tls:
  assumes tls: "flexible_tls s" and fatal: "v_fatal s = None" and rl: "v_rrlmethod s" "v_wrlmethod s"
    and parse: "tls_parse_extension_supported_versions (c\<lparr>v_version := version\<rparr>)
        (SSL_EXT_TLS1_2_SERVER_HELLO OR SSL_EXT_TLS1_3_SERVER_HELLO) ext = Ret (True, s, ext')"
    and hrr: "v_hello_retry_request s = SSL_HRR_NONE \<or> v_version s = TLS1_3_VERSION"
    and range: "ssl_get_min_max_version cfg s True = (None, mn, mx, rm)"
  shows "if v_version s < mn \<or> mx < v_version s
    then refused (ssl_choose_client_version cfg c version ext) (v_version c) SSL_AD_PROTOCOL_VERSION SSL_R_UNSUPPORTED_PROTOCOL
    else if downgrade_signalled s (if v_mode s AND SSL_MODE_SEND_FALLBACK_SCSV = 0 then mx else rm)
    then refused (ssl_choose_client_version cfg c version ext) (v_version c) SSL_AD_ILLEGAL_PARAMETER SSL_R_INAPPROPRIATE_FALLBACK
    else accepted (ssl_choose_client_version cfg c version ext) (v_version s)"
proof -
  have hrr': "\<not> (v_hello_retry_request s \<noteq> SSL_HRR_NONE \<and> v_version s \<noteq> TLS1_3_VERSION)" using hrr by auto
  note r = range_tls(1) [OF tls range]
  have comp: "mn \<le> v_version s \<Longrightarrow> v_version s \<le> mx \<Longrightarrow> compiled_in cfg (v_version s)" using r by (auto simp: enabled_def)
  show ?thesis
    unfolding ssl_choose_client_version_def parse Let_def
    using tls range hrr' fatal rl comp
    by (simp add: refused_def accepted_def cmp_tls V_SSLfatal_def client_method_table set_record_version_or_fatal_def
       ssl_set_record_protocol_version_def case_prod_unfold) auto
qed


section \<open>The hello random\<close>

lemma hello_random_tail:
  assumes f: "ssl_fill_hello_random s rand now server old 32 d = (ret, bs)" and ok: "0 < ret"
    and rand: "\<And>n. length (snd (rand n)) = n"
  shows "length bs = 32 \<and> (d = DOWNGRADE_TO_1_2 \<longrightarrow> drop 24 bs = tls12downgrade) \<and> (d = DOWNGRADE_TO_1_1 \<longrightarrow> drop 24 bs = tls11downgrade)"
proof -
  define send where "send = (if server then v_mode s AND SSL_MODE_SEND_SERVERHELLO_TIME \<noteq> 0
                         else v_mode s AND SSL_MODE_SEND_CLIENTHELLO_TIME \<noteq> 0)"
  define rr where "rr = (if send then (case rand (32 - 4) of (ret, bs) \<Rightarrow> (ret, be_bytes 4 (now mod 2 ^ 32) @ bs)) else rand 32)"
  have len: "length (snd rr) = 32" using rand [of 28] rand [of 32] by (simp add: rr_def case_prod_unfold)
  have lens: "length tls11downgrade = 8" "length tls12downgrade = 8" by (simp_all add: tls11downgrade_def tls12downgrade_def)
  obtain r2 res where rr2: "rr = (r2, res)" by fastforce
  have "(ret, bs) = (if r2 > 0 then
             (if d = DOWNGRADE_TO_1_2 then (r2, patch res 24 tls12downgrade)
              else if d = DOWNGRADE_TO_1_1 then (r2, patch res 24 tls11downgrade)
              else (r2, res)) else (r2, res))"
    using f unfolding ssl_fill_hello_random_def send_def [symmetric] rr_def [symmetric] Let_def
    by (auto simp: rr2 lens split: if_splits)
  then show ?thesis using ok len lens by (auto simp: rr2 patch_def split: if_splits)
qed


section \<open>The extension on the wire\<close>

lemma wthen_assoc: "wthen (wthen a f) g = wthen a (\<lambda>p. wthen (f p) g)"
  by (cases a) (auto simp: wthen_def split: prod.splits bool.splits)

definition offered :: "int \<Rightarrow> int \<Rightarrow> nat list" where
  "offered hi lo = map nat (rev [lo..hi])"

lemma offered_rec: "lo \<le> hi \<Longrightarrow> offered hi lo = nat hi # offered (hi - 1) lo"
  by (simp add: offered_def upto_rec2)

definition versions_payload :: "nat list \<Rightarrow> bool \<Rightarrow> byte list" where
  "versions_payload vs e = (if e then concat (rev (map (be_bytes 2) vs)) else wire_versions vs)"

lemma nothing_writer: "wpacket_writer (\<lambda>m p. Ret (True, p)) (\<lambda>_. []) (\<lambda>_. True)"
  by unfold_locales auto

lemma put_versions_writer:
  assumes "0 \<le> lo" and "hi < 65536"
  shows "wpacket_writer (\<lambda>m. put_versions m hi lo) (versions_payload (offered hi lo)) (\<lambda>_. True)"
  using assms
proof (induction "nat (hi - lo + 1)" arbitrary: hi)
  case 0
  then have "offered hi lo = []" by (simp add: offered_def)
  moreover have "(\<lambda>m. put_versions m hi lo) = (\<lambda>m p. Ret (True, p))"
    using 0 by (intro ext) (simp add: put_versions.simps)
  moreover have "versions_payload [] = (\<lambda>_. [])" by (intro ext) (simp add: versions_payload_def wire_versions_def)
  ultimately show ?case using nothing_writer by simp
next
  case (Suc k)
  then have le: "lo \<le> hi" and IH: "wpacket_writer (\<lambda>m. put_versions m (hi - 1) lo) (versions_payload (offered (hi - 1) lo)) (\<lambda>_. True)"
    by auto
  have op: "(\<lambda>m. put_versions m hi lo) = (\<lambda>m p. wthen (WPACKET_put_bytes m p (nat hi) 2) (put_versions m (hi - 1) lo))"
    using le Suc.prems by (intro ext) (simp add: put_versions.simps [of _ hi])
  have pl: "versions_payload (offered hi lo) =
      (\<lambda>e. if e then versions_payload (offered (hi - 1) lo) e @ be_bytes 2 (nat hi) else be_bytes 2 (nat hi) @ versions_payload (offered (hi - 1) lo) e)"
    using le by (intro ext) (simp add: offered_rec versions_payload_def wire_versions_def del: be_bytes.simps)
  have enc: "(\<lambda>_. True) = (\<lambda>e :: bool. (0 < (2::nat) \<and> 2 \<le> (8::nat) \<and> nat hi < 256 ^ 2) \<and> True)"
    using Suc.prems by (auto simp: fun_eq_iff nat_less_iff)
  show ?case unfolding op pl by (subst enc) (rule put_bytes.writer_seq [OF IH])
qed

lemma supported_versions_writer:
  assumes lo: "SSL3_VERSION \<le> lo" and hi: "hi \<le> TLS1_3_VERSION"
  shows "\<exists>pl enc. wpacket_writer (\<lambda>m pkt.
       wthen (WPACKET_put_bytes m pkt TLSEXT_TYPE_supported_versions 2) (\<lambda>pkt.
       wthen (Ret (WPACKET_start_sub_packet_len m pkt 2)) (\<lambda>pkt.
       wthen (Ret (WPACKET_start_sub_packet_len m pkt 1)) (\<lambda>pkt.
       wthen (put_versions m hi lo pkt) (\<lambda>pkt. wthen (WPACKET_close m pkt) (WPACKET_close m)))))) pl enc
    \<and> pl False = be_bytes 2 43 @ sub_payload 2 False (sub_payload 1 False (wire_versions (offered hi lo))) \<and> enc False"
proof -
  have w: "wpacket_writer (\<lambda>m. put_versions m hi lo) (versions_payload (offered hi lo)) (\<lambda>_. True)"
    by (rule put_versions_writer) (use lo hi in auto)
  have "length (offered hi lo) \<le> 5" using lo hi by (simp add: offered_def)
  then have len: "length (wire_versions (offered hi lo)) < 256" by simp
  note w1 = wpacket_writer.writer_sub [OF w, of 1]
  note w2 = wpacket_writer.writer_sub [OF w1, of 2]
  note w3 = put_bytes.writer_seq [OF w2, of 43 2]
  show ?thesis
    by (rule exI, rule exI, rule conjI, rule w3 [unfolded wthen_assoc])
      (use len in \<open>auto simp: versions_payload_def sub_payload_def simp del: be_bytes.simps\<close>)
qed


section \<open>Properties\<close>

text \<open>
  The versions a client offers, when TLS versions are selected by its settings: with at least one
  version enabled the range is the lowest unbroken run of enabled versions, whatever is switched off by
  the build, the options, the bounds, the security callback or Suite B mode; with none enabled the
  function reports that no protocol is available.
\<close>

theorem client_range_is_lowest_run:
  assumes "flexible_tls s" and "ssl_get_min_max_version cfg s want = (r, mn, mx, rm)"
  shows "(r = None \<longleftrightarrow> (\<exists>v. enabled cfg s v)) \<and> (r \<noteq> None \<longrightarrow> r = Some SSL_R_NO_PROTOCOLS_AVAILABLE)
    \<and> (r = None \<longrightarrow> mn \<le> mx \<and> mx \<le> rm \<and> (\<forall>v. mn \<le> v \<and> v \<le> mx \<longrightarrow> enabled cfg s v)
         \<and> (\<forall>v < mn. \<not> enabled cfg s v) \<and> \<not> enabled cfg s (mx + 1))"
  using range_tls [OF assms] real_max_ge [OF assms(1)] assms(2) by blast

definition plain_cfg :: build_cfg where
  "plain_cfg = \<lparr>NO_TLS1_2 = False, NO_TLS1_1 = False, NO_TLS1 = False, NO_SSL3 = True, NO_DTLS1_2 = False, NO_DTLS1 = False\<rparr>"

definition plain_conn :: "bool \<Rightarrow> VSSL" where
  "plain_conn server =
     \<lparr>v_method = Some TLS_method, v_defltmeth = TLS_method, v_version = TLS1_3_VERSION, v_client_version = 0, v_server = server,
      v_options = 0, v_mode = 0, v_min_proto_version = 0, v_max_proto_version = 0,
      v_sec_cb = default_security_version False 1, v_cert_flags = 0, v_hello_retry_request = SSL_HRR_NONE, v_hit = False,
      v_first_handshake = True, v_server_random = replicate 32 0, v_ctx = True, v_session_ctx = True,
      v_ctx_servername_cb = False, v_session_servername_cb = False, v_psk_server_callback = False,
      v_psk_find_session_cb = False, v_cert_cb = False, v_pkeys = [\<lparr>pk_x509 = True, pk_privatekey = True\<rparr>], v_ec_curve = 0,
      v_server_cert_type = None, v_client_cert_type = None, v_conf_sigalgs = None, v_tls12_sigalgs = [],
      v_sigalg_lookup_cache = [], v_rrlmethod = True, v_wrlmethod = True, v_rrl_version = 0, v_wrl_version = 0, v_fatal = None\<rparr>"

lemma plain_facts:
  "flexible_tls (plain_conn b)" "v_hello_retry_request (plain_conn b) = SSL_HRR_NONE" "v_fatal (plain_conn b) = None"
  "v_rrlmethod (plain_conn b)" "v_wrlmethod (plain_conn b)" "v_mode (plain_conn b) AND SSL_MODE_SEND_FALLBACK_SCSV = 0"
  "v_version (plain_conn b) = TLS1_3_VERSION" "v_server_random (plain_conn b) = replicate 32 0"
  by (simp_all add: flexible_tls_def plain_conn_def)

lemma plain_range: "ssl_get_min_max_version plain_cfg (plain_conn b) want = (None, 0x303, 0x304, 0x304)"
  by code_simp

theorem client_range_is_lowest_run_witness:
  "ssl_get_min_max_version plain_cfg (plain_conn False) True = (None, 0x303, 0x304, 0x304)
   \<and> enabled plain_cfg (plain_conn False) 0x303 \<and> \<not> enabled plain_cfg (plain_conn False) 0x302"
proof -
  have "flexible_tls (plain_conn False)" by (simp add: flexible_tls_def plain_conn_def)
  from client_range_is_lowest_run [OF this plain_range [of False True]] show ?thesis using plain_range [of False True] by auto
qed


text \<open>
  C12: the server reads the client's list of versions without leaving the packet and selects the highest
  version of the list that it supports itself, in whatever order the list is; the method and the record
  layers follow the choice. When it supports none of them it reports an unsupported protocol and the
  version and method stay as they were.
\<close>

theorem server_picks_highest:
  assumes "flexible_tls s" and "v_hello_retry_request s = SSL_HRR_NONE"
    and "re_present (ch_supported_versions hello)" "packet_wf (re_data (ch_supported_versions hello))"
    and "packet_bytes (re_data (ch_supported_versions hello)) = be_bytes 1 (length (wire_versions vs)) @ wire_versions vs"
    and "\<forall>v \<in> set vs. v < 65536" "length vs < 128" and "SSL3_VERSION < ch_legacy_version hello"
    and "v_rrlmethod s" "v_wrlmethod s"
  shows "\<exists>r s' hello' d'. ssl_choose_server_version cfg s hello d = Ret (r, s', hello', d') \<and>
    (if \<exists>v \<in> set vs. supports cfg s (int v)
     then r = None \<and> v_version s' = Max (int ` {v \<in> set vs. supports cfg s (int v)})
       \<and> v_method s' = Some (method_of (v_version s')) \<and> v_rrl_version s' = v_version s' \<and> v_wrl_version s' = v_version s'
     else r = Some SSL_R_UNSUPPORTED_PROTOCOL \<and> v_version s' = v_version s \<and> v_method s' = v_method s)"
  using server_choice_is_max [OF assms, of cfg d] by (auto split: if_splits)

theorem server_picks_highest_witness:
  "\<exists>r s' hello' d'. ssl_choose_server_version plain_cfg (plain_conn True)
       \<lparr>ch_legacy_version = 0x303, ch_supported_versions =
          \<lparr>re_data = \<lparr>p_curr = [6, 3, 3, 3, 4, 3, 1], p_remaining = 7\<rparr>, re_present = True, re_parsed = False\<rparr>\<rparr> DOWNGRADE_NONE
     = Ret (r, s', hello', d') \<and> r = None \<and> v_version s' = 0x304"
proof -
  let ?pkt = "\<lparr>p_curr = [6, 3, 3, 3, 4, 3, 1], p_remaining = 7\<rparr>"
  let ?vs = "[0x303, 0x304, 0x301 :: nat]"
  let ?h = "\<lparr>ch_legacy_version = 0x303, ch_supported_versions = \<lparr>re_data = ?pkt, re_present = True, re_parsed = False\<rparr>\<rparr>"
  have "wire_versions ?vs = [3, 3, 3, 4, 3, 1]" by code_simp
  then have b: "packet_wf ?pkt" "packet_bytes ?pkt = be_bytes 1 (length (wire_versions ?vs)) @ wire_versions ?vs"
    by (simp_all add: packet_wf_def packet_bytes_def)
  have f: "flexible_tls (plain_conn True)" "v_hello_retry_request (plain_conn True) = SSL_HRR_NONE"
    "v_rrlmethod (plain_conn True)" "v_wrlmethod (plain_conn True)" by (simp_all add: flexible_tls_def plain_conn_def)
  have sup: "supports plain_cfg (plain_conn True) 0x304" by code_simp
  have le: "Max (int ` {v \<in> set ?vs. supports plain_cfg (plain_conn True) (int v)}) = 0x304"
    using sup by (intro Max_eqI) (auto intro!: image_eqI [of _ _ "0x304 :: nat"])
  have ex: "\<exists>v \<in> set ?vs. supports plain_cfg (plain_conn True) (int v)" using sup by simp
  show ?thesis
    using server_picks_highest [OF f(1,2), where hello = ?h and vs = ?vs and cfg = plain_cfg and d = DOWNGRADE_NONE] b f ex
    unfolding le by auto
qed

section \<open>Downgrades\<close>

lemma range_step_cong: "ssl_method_error s = ssl_method_error t \<Longrightarrow> range_step s = range_step t"
  by (intro ext) (simp only: range_step_def)

lemma min_max_cong:
  assumes "flexible_tls s" "v_method t = v_method s" "ssl_method_error t = ssl_method_error s"
  shows "ssl_get_min_max_version cfg t want = ssl_get_min_max_version cfg s want"
  using assms range_step_cong [OF assms(3)]
  by (simp add: ssl_get_min_max_version_def flexible_tls_def TLS_method_def tls_meth_def range_of_def Let_def)

lemma min_max_want: "flexible_tls s \<Longrightarrow> ssl_get_min_max_version cfg s True = ssl_get_min_max_version cfg s False"
  by (simp add: ssl_get_min_max_version_def)

lemma min_max_version_update:
  "flexible_tls s \<Longrightarrow> ssl_get_min_max_version cfg (s\<lparr>v_version := x\<rparr>) want = ssl_get_min_max_version cfg s want"
  "flexible_tls s \<Longrightarrow> ssl_get_min_max_version cfg (s\<lparr>v_version := x, v_rrl_version := y, v_wrl_version := z\<rparr>) want
     = ssl_get_min_max_version cfg s want"
  "flexible_tls s \<Longrightarrow> ssl_get_min_max_version cfg (s\<lparr>v_server_random := bs\<rparr>) want = ssl_get_min_max_version cfg s want"
  by (rule min_max_cong, assumption, simp, rule method_error_cong; simp)+

text \<open>
  C10: a downgrade is detected. Whatever ClientHello the server was given, if the version it selected is
  TLSv1.2 although it supports TLSv1.3, or below TLSv1.2 although it supports TLSv1.2, then a client that
  would have accepted a higher version refuses the handshake when it sees the server's random, with an
  inappropriate fallback (or an unsupported protocol, when the version is below its own range), and its
  version is what it was before.
\<close>

theorem downgrade_detected:
  assumes srv: "flexible_tls srv" "v_hello_retry_request srv = SSL_HRR_NONE"
    and choice: "ssl_choose_server_version cfgs srv hello d0 = Ret (None, srv', hello', d)"
    and higher: "v_version srv' = TLS1_2_VERSION \<and> supports cfgs srv TLS1_3_VERSION
      \<or> v_version srv' < TLS1_2_VERSION \<and> supports cfgs srv TLS1_2_VERSION"
    and rnd: "ssl_fill_hello_random srv' rand now True old 32 d = (ret, bs)" "0 < ret" "\<And>n. length (snd (rand n)) = n"
    and clnt: "flexible_tls c" "v_hello_retry_request c = SSL_HRR_NONE" "v_fatal c = None" "v_rrlmethod c" "v_wrlmethod c"
      "v_server_random c = bs"
    and range: "ssl_get_min_max_version cfgc c True = (None, mn, mx, rm)" "v_version srv' < mx"
    and no_ext: "\<not> re_present e"
  shows "if v_version srv' < mn
    then refused (ssl_choose_client_version cfgc c (v_version srv') e) (v_version c) SSL_AD_PROTOCOL_VERSION SSL_R_UNSUPPORTED_PROTOCOL
    else refused (ssl_choose_client_version cfgc c (v_version srv') e) (v_version c) SSL_AD_ILLEGAL_PARAMETER SSL_R_INAPPROPRIATE_FALLBACK"
proof -
  let ?s = "c\<lparr>v_version := v_version srv'\<rparr>"
  have d: "d = (if v_version srv' = TLS1_2_VERSION then DOWNGRADE_TO_1_2 else DOWNGRADE_TO_1_1)"
    using server_choice_sound(3) [OF srv choice] higher by (auto simp: check_for_downgrade_tls [OF srv(1)])
  have tail: "random_tail ?s = (if v_version srv' = TLS1_2_VERSION then tls12downgrade else tls11downgrade)"
    using hello_random_tail [OF rnd] d clnt(6) by (simp add: random_tail_def SSL3_RANDOM_SIZE_def split: if_splits)
  have fl: "flexible_tls ?s" using clnt(1) by (simp add: flexible_tls_def)
  have r': "ssl_get_min_max_version cfgc ?s True = (None, mn, mx, rm)" using range(1) clnt(1) by (simp add: min_max_version_update)
  have "mx \<le> rm" by (rule real_max_ge [OF clnt(1) range(1)])
  then have sig: "downgrade_signalled ?s (if v_mode ?s AND SSL_MODE_SEND_FALLBACK_SCSV = 0 then mx else rm)"
    using tail higher range(2) fl by (auto simp: downgrade_signalled_def)
  have "tls_parse_extension_supported_versions ?s (SSL_EXT_TLS1_2_SERVER_HELLO OR SSL_EXT_TLS1_3_SERVER_HELLO) e = Ret (True, ?s, e)"
    using no_ext by (simp add: tls_parse_extension_supported_versions_def)
  from choose_client_tls [OF fl _ _ _ this _ r'] show ?thesis using clnt range(2) sig by (simp split: if_splits)
qed


lemma plain_supports: "supports plain_cfg (plain_conn True) 0x304"
  by code_simp

lemma plain_server_without_list:
  "ssl_choose_server_version plain_cfg (plain_conn True)
       \<lparr>ch_legacy_version = 0x303, ch_supported_versions =
          \<lparr>re_data = PACKET_null_init, re_present = False, re_parsed = False\<rparr>\<rparr> DOWNGRADE_NONE
     = Ret (None, (plain_conn True)\<lparr>v_client_version := 0x303, v_version := 0x303, v_method := Some tlsv1_2_method,
          v_rrl_version := 0x303, v_wrl_version := 0x303\<rparr>,
          \<lparr>ch_legacy_version = 0x303, ch_supported_versions =
             \<lparr>re_data = PACKET_null_init, re_present = False, re_parsed = False\<rparr>\<rparr>, DOWNGRADE_TO_1_2)"
proof -
  let ?t = "(plain_conn True)\<lparr>v_client_version := 0x303\<rparr>"
  have fl: "flexible_tls (plain_conn True)" "v_hello_retry_request (plain_conn True) = SSL_HRR_NONE"
    "v_rrlmethod ?t" "v_wrlmethod ?t" "\<not> V_IS_DTLS ?t"
    by (simp_all add: flexible_tls_def plain_conn_def V_IS_DTLS_def TLS_method_def tls_meth_def)
  have ft: "flexible_tls ?t" using fl(1) by simp
  have e: "ssl_method_error ?t tlsv1_2_method = None" by code_simp
  have sup: "supports plain_cfg ?t 0x304" using plain_supports by simp
  show ?thesis
    unfolding choose_server_no_list [OF _ fl(1,2) refl, where hello = "\<lparr>ch_legacy_version = 0x303, ch_supported_versions =
          \<lparr>re_data = PACKET_null_init, re_present = False, re_parsed = False\<rparr>\<rparr>", simplified]
    using e fl(3-) sup
    by (simp add: legacy_limit_def cmp_tls tls_version_table_def vent_of_def plain_cfg_def
        ssl_set_record_protocol_version_def) (simp add: check_for_downgrade_tls [OF ft] plain_cfg_def [symmetric])
qed

theorem downgrade_detected_witness:
  "\<exists>bs. refused (ssl_choose_client_version plain_cfg ((plain_conn False)\<lparr>v_server_random := bs\<rparr>) 0x303
        \<lparr>re_data = PACKET_null_init, re_present = False, re_parsed = False\<rparr>)
      0x304 SSL_AD_ILLEGAL_PARAMETER SSL_R_INAPPROPRIATE_FALLBACK"
proof -
  let ?srv = "(plain_conn True)\<lparr>v_client_version := 0x303, v_version := 0x303, v_method := Some tlsv1_2_method,
          v_rrl_version := 0x303, v_wrl_version := 0x303\<rparr>"
  let ?rand = "\<lambda>n. (1 :: int, replicate n (7 :: byte))"
  obtain ret bs where f: "ssl_fill_hello_random ?srv ?rand 0 True [] 32 DOWNGRADE_TO_1_2 = (ret, bs)" by fastforce
  have r: "0 < ret" using f
    by (simp add: ssl_fill_hello_random_def plain_conn_def Let_def tls11downgrade_def tls12downgrade_def split: if_splits)
  have g: "ssl_get_min_max_version plain_cfg ((plain_conn False)\<lparr>v_server_random := bs\<rparr>) True = (None, 0x303, 0x304, 0x304)"
    by (subst min_max_version_update) (simp_all add: plain_range, simp add: flexible_tls_def plain_conn_def)
  have fl: "flexible_tls (plain_conn True)" "v_hello_retry_request (plain_conn True) = SSL_HRR_NONE"
    "flexible_tls ((plain_conn False)\<lparr>v_server_random := bs\<rparr>)" by (simp_all add: flexible_tls_def plain_conn_def)
  have "refused (ssl_choose_client_version plain_cfg ((plain_conn False)\<lparr>v_server_random := bs\<rparr>) 0x303
        \<lparr>re_data = PACKET_null_init, re_present = False, re_parsed = False\<rparr>)
      0x304 SSL_AD_ILLEGAL_PARAMETER SSL_R_INAPPROPRIATE_FALLBACK"
    using downgrade_detected [OF fl(1,2) plain_server_without_list _ f r _ fl(3) _ _ _ _ _ g,
        where e = "\<lparr>re_data = PACKET_null_init, re_present = False, re_parsed = False\<rparr>"] plain_supports
    by (simp add: plain_conn_def)
  then show ?thesis by blast
qed


section \<open>Agreement\<close>

lemma ctos_supported_versions_wire:
  assumes wf: "wpacket_wf p" "w_subs p \<noteq> []" "\<not> w_endfirst p" "has_obj p" and tls: "flexible_tls c"
    and range: "ssl_get_min_max_version cfg c False = (None, mn, TLS1_3_VERSION, rm)"
    and sent: "tls_construct_ctos_supported_versions cfg m c p = Ret (EXT_RETURN_SENT, c', p')"
  shows "wpacket_bytes p' = wpacket_bytes p @ be_bytes 2 43 @ sub_payload 2 False (sub_payload 1 False (wire_versions (offered TLS1_3_VERSION mn)))"
    and "length (wpacket_bytes p) = w_written p"
proof -
  have "SSL3_VERSION \<le> mn" using range_tls(1) [OF tls range] enabled_range [of cfg c mn] by auto
  from supported_versions_writer [OF this order_refl] obtain pl enc where
    w: "wpacket_writer (\<lambda>m pkt.
       wthen (WPACKET_put_bytes m pkt TLSEXT_TYPE_supported_versions 2) (\<lambda>pkt.
       wthen (Ret (WPACKET_start_sub_packet_len m pkt 2)) (\<lambda>pkt.
       wthen (Ret (WPACKET_start_sub_packet_len m pkt 1)) (\<lambda>pkt.
       wthen (put_versions m TLS1_3_VERSION mn pkt) (\<lambda>pkt. wthen (WPACKET_close m pkt) (WPACKET_close m)))))) pl enc"
    and pl: "pl False = be_bytes 2 43 @ sub_payload 2 False (sub_payload 1 False (wire_versions (offered TLS1_3_VERSION mn)))"
    by blast
  have "wpacket_ext p (pl False) p'"
    using wpacket_writer.op_spec [OF w wf(1,2), of m] sent range wf(3)
    by (auto simp: tls_construct_ctos_supported_versions_def ext_fail_def split: bool.splits)
  then show "wpacket_bytes p' = wpacket_bytes p @ be_bytes 2 43 @ sub_payload 2 False (sub_payload 1 False (wire_versions (offered TLS1_3_VERSION mn)))"
    using wf pl by (simp add: wpacket_ext_def)
  show "length (wpacket_bytes p) = w_written p" using length_wpacket_bytes wf by blast
qed

lemma stoc_supported_versions_wire:
  assumes wf: "wpacket_wf p" "w_subs p \<noteq> []" "\<not> w_endfirst p" "has_obj p" and v: "0 \<le> v_version s" "v_version s < 65536"
    and sent: "tls_construct_stoc_supported_versions m s p = Ret (EXT_RETURN_SENT, s', p')"
  shows "wpacket_bytes p' = wpacket_bytes p @ be_bytes 2 43 @ sub_payload 2 False (be_bytes 2 (nat (v_version s)))"
    and "length (wpacket_bytes p) = w_written p"
proof -
  have "wpacket_writer (\<lambda>m p. WPACKET_put_bytes m p (nat (v_version s)) 2) (\<lambda>_. be_bytes 2 (nat (v_version s)))
      (\<lambda>_. 0 < (2::nat) \<and> 2 \<le> (8::nat) \<and> nat (v_version s) < 256 ^ 2)"
    by (rule put_bytes.wpacket_writer_axioms)
  note w1 = wpacket_writer.writer_sub [OF this, of 2]
  note w2 = put_bytes.writer_seq [OF w1, of 43 2]
  have "wpacket_ext p (be_bytes 2 43 @ sub_payload 2 False (be_bytes 2 (nat (v_version s)))) p'"
    using wpacket_writer.op_spec [OF w2 wf(1,2), of m] sent v wf(3)
    by (auto simp: tls_construct_stoc_supported_versions_def ext_fail_def wthen_assoc
        simp del: be_bytes.simps split: if_splits bool.splits)
  then show "wpacket_bytes p' = wpacket_bytes p @ be_bytes 2 43 @ sub_payload 2 False (be_bytes 2 (nat (v_version s)))"
    using wf by (simp add: wpacket_ext_def)
  show "length (wpacket_bytes p) = w_written p" using length_wpacket_bytes wf by blast
qed

lemma parse_stoc_tls13:
  assumes c: "flexible_tls c" "v_rrlmethod c" "v_wrlmethod c" and e: "re_present e" "\<not> re_parsed e" "packet_wf (re_data e)"
    and data: "packet_bytes (re_data e) = be_bytes 2 0x304"
  shows "\<exists>e'. tls_parse_extension_supported_versions (c\<lparr>v_version := TLS1_2_VERSION\<rparr>)
        (SSL_EXT_TLS1_2_SERVER_HELLO OR SSL_EXT_TLS1_3_SERVER_HELLO) e
      = Ret (True, c\<lparr>v_version := TLS1_3_VERSION, v_rrl_version := TLS1_3_VERSION, v_wrl_version := TLS1_3_VERSION\<rparr>, e')"
proof -
  have f: "flexible_tls (c\<lparr>v_version := TLS1_2_VERSION\<rparr>)" using c(1) by (simp add: flexible_tls_def)
  have "extension_is_relevant (c\<lparr>v_version := TLS1_2_VERSION\<rparr>) supported_versions_context
      (SSL_EXT_TLS1_2_SERVER_HELLO OR SSL_EXT_TLS1_3_SERVER_HELLO)"
    using f by (simp add: extension_is_relevant_def supported_versions_context_def)
  moreover obtain v rest where g: "PACKET_get_net_2 (re_data e) = Ret (v, rest)" "unat v = 0x304" "packet_wf rest" "packet_bytes rest = []"
    using get_net_2.get_encoded [OF e(3), of "0x304" "[]"] data by auto
  moreover have "p_remaining rest = 0" using g length_packet_bytes [of rest] by simp
  moreover have "uint v = 0x304" unfolding uint_nat g(2) by simp
  ultimately show ?thesis
    using e c by (simp add: tls_parse_extension_supported_versions_def tls_parse_stoc_supported_versions_def
        PACKET_remaining_def ssl_set_record_protocol_version_def)
qed


lemma is_tls13_method_of: "v_method s = Some (method_of v) \<Longrightarrow> SSL3_VERSION \<le> v \<Longrightarrow> v \<le> TLS1_3_VERSION \<Longrightarrow>
    V_IS_TLS13 s \<longleftrightarrow> v = TLS1_3_VERSION"
  by (auto simp: V_IS_TLS13_def V_IS_DTLS_def method_of_def method_defs)

lemma client_accepts_tls13:
  assumes clnt: "flexible_tls c" "v_fatal c = None" "v_rrlmethod c" "v_wrlmethod c"
    and range: "ssl_get_min_max_version cfg c True = (None, mn, TLS1_3_VERSION, rm)"
    and e: "re_present e" "\<not> re_parsed e" "packet_wf (re_data e)" "packet_bytes (re_data e) = be_bytes 2 0x304"
  shows "accepted (ssl_choose_client_version cfg c TLS1_2_VERSION e) TLS1_3_VERSION"
proof -
  let ?s = "c\<lparr>v_version := TLS1_3_VERSION, v_rrl_version := TLS1_3_VERSION, v_wrl_version := TLS1_3_VERSION\<rparr>"
  obtain e' where p: "tls_parse_extension_supported_versions (c\<lparr>v_version := TLS1_2_VERSION\<rparr>)
        (SSL_EXT_TLS1_2_SERVER_HELLO OR SSL_EXT_TLS1_3_SERVER_HELLO) e = Ret (True, ?s, e')"
    using parse_stoc_tls13 [OF clnt(1,3,4) e] by blast
  have f: "flexible_tls ?s" using clnt(1) by (simp add: flexible_tls_def)
  have r: "ssl_get_min_max_version cfg ?s True = (None, mn, TLS1_3_VERSION, rm)" using range clnt(1) by (simp add: min_max_version_update)
  have "mn \<le> TLS1_3_VERSION" using range_tls(1) [OF clnt(1) range] by simp
  with choose_client_tls [OF f _ _ _ p _ r] show ?thesis using clnt by (simp add: downgrade_signalled_def)
qed

lemma client_accepts_legacy:
  assumes clnt: "flexible_tls c" "v_fatal c = None" "v_rrlmethod c" "v_wrlmethod c" "v_hello_retry_request c = SSL_HRR_NONE"
    and range: "ssl_get_min_max_version cfg c True = (None, mn, mx, rm)" "mn \<le> b" "b \<le> mx"
    and tail: "random_tail c \<noteq> tls11downgrade" "random_tail c \<noteq> tls12downgrade" and e: "\<not> re_present e"
  shows "accepted (ssl_choose_client_version cfg c b e) b"
proof -
  let ?s = "c\<lparr>v_version := b\<rparr>"
  have p: "tls_parse_extension_supported_versions ?s (SSL_EXT_TLS1_2_SERVER_HELLO OR SSL_EXT_TLS1_3_SERVER_HELLO) e = Ret (True, ?s, e)"
    using e by (simp add: tls_parse_extension_supported_versions_def)
  have f: "flexible_tls ?s" using clnt(1) by (simp add: flexible_tls_def)
  have r: "ssl_get_min_max_version cfg ?s True = (None, mn, mx, rm)" using range(1) clnt(1) by (simp add: min_max_version_update)
  have "\<not> downgrade_signalled ?s x" for x using tail by (auto simp: downgrade_signalled_def random_tail_def)
  with choose_client_tls [OF f _ _ _ p _ r] show ?thesis using clnt range(2,3) by simp
qed

lemma set_offered: "0 \<le> lo \<Longrightarrow> int ` set (offered hi lo) = {lo..hi}"
  by (force simp: offered_def image_iff)

text \<open>The client accepts the reply of a server that selected a version in the client's range.\<close>

lemma reply_accepted:
  assumes clnt: "flexible_tls c" "v_hello_retry_request c = SSL_HRR_NONE" "v_fatal c = None" "v_rrlmethod c" "v_wrlmethod c"
    and range: "ssl_get_min_max_version cfgc c False = (None, mn, TLS1_3_VERSION, rm)"
    and srv: "v_method srv' = Some (method_of (v_version srv'))" "SSL3_VERSION \<le> mn"
      "mn \<le> v_version srv'" "v_version srv' \<le> TLS1_3_VERSION" "v_hello_retry_request srv' = SSL_HRR_NONE"
    and q: "wpacket_wf q" "w_subs q \<noteq> []" "\<not> w_endfirst q" "has_obj q"
    and bs: "drop 24 bs \<noteq> tls11downgrade" "drop 24 bs \<noteq> tls12downgrade" and e: "\<not> re_parsed e"
    and t: "if V_IS_TLS13 srv'
            then tls_construct_stoc_supported_versions m srv' q = Ret (EXT_RETURN_SENT, sq, q')
              \<and> re_present e \<and> packet_wf (re_data e) \<and> packet_bytes (re_data e) = drop (w_written q + 4) (wpacket_bytes q')
            else \<not> re_present e"
  shows "accepted (ssl_choose_client_version cfgc (c\<lparr>v_server_random := bs\<rparr>) (server_hello_version srv') e) (v_version srv')"
proof -
  have t13: "V_IS_TLS13 srv' \<longleftrightarrow> v_version srv' = TLS1_3_VERSION" using is_tls13_method_of [OF srv(1)] srv(2-4) by simp
  have hv: "server_hello_version srv' = (if v_version srv' = TLS1_3_VERSION then TLS1_2_VERSION else v_version srv')"
    using t13 srv(5) by (simp add: server_hello_version_def)
  let ?c = "c\<lparr>v_server_random := bs\<rparr>"
  have c: "flexible_tls ?c" "v_fatal ?c = None" "v_rrlmethod ?c" "v_wrlmethod ?c" "v_hello_retry_request ?c = SSL_HRR_NONE"
    using clnt by (simp_all add: flexible_tls_def)
  have r1: "ssl_get_min_max_version cfgc ?c True = (None, mn, TLS1_3_VERSION, rm)"
    using range clnt(1) by (simp add: min_max_version_update min_max_want)
  show ?thesis
  proof (cases "v_version srv' = TLS1_3_VERSION")
    case True
    then have k: "tls_construct_stoc_supported_versions m srv' q = Ret (EXT_RETURN_SENT, sq, q')"
      "re_present e" "packet_wf (re_data e)" "packet_bytes (re_data e) = drop (w_written q + 4) (wpacket_bytes q')"
      using t t13 by auto
    have v: "0 \<le> v_version srv'" "v_version srv' < 65536" using True by simp_all
    have "packet_bytes (re_data e) = be_bytes 2 0x304"
      unfolding k(4) stoc_supported_versions_wire(1) [OF q v k(1)]
      using stoc_supported_versions_wire(2) [OF q v k(1)] True by (simp add: sub_payload_def del: be_bytes.simps)
    then show ?thesis using client_accepts_tls13 [OF c(1-4) r1 k(2) e k(3)] True hv by simp
  next
    case False
    then show ?thesis
      using client_accepts_legacy [OF c r1 srv(3,4)] bs t t13 hv by (simp add: random_tail_def SSL3_RANDOM_SIZE_def)
  qed
qed

text \<open>
  C11: two endpoints agree. The client writes its supported_versions extension, the server reads it
  and, if there is a version both can use, selects the highest one; the ServerHello carries the version
  field and, for TLSv1.3, the extension the server writes, and the client then accepts exactly that
  version. (The random must not end in a sentinel by accident, and the client must not be repeating a
  failed handshake with the fallback mode on.)
\<close>

theorem negotiation_agrees:
  assumes clnt: "flexible_tls c" "v_hello_retry_request c = SSL_HRR_NONE" "v_fatal c = None" "v_rrlmethod c" "v_wrlmethod c"
      "v_mode c AND SSL_MODE_SEND_FALLBACK_SCSV = 0"
    and range: "ssl_get_min_max_version cfgc c False = (None, mn, TLS1_3_VERSION, rm)"
    and cpkt: "wpacket_wf p" "w_subs p \<noteq> []" "\<not> w_endfirst p" "has_obj p"
      "tls_construct_ctos_supported_versions cfgc m c p = Ret (EXT_RETURN_SENT, c', p')"
    and srv: "flexible_tls srv" "v_hello_retry_request srv = SSL_HRR_NONE" "v_rrlmethod srv" "v_wrlmethod srv"
    and hello: "re_present (ch_supported_versions hello)" "packet_wf (re_data (ch_supported_versions hello))"
      "packet_bytes (re_data (ch_supported_versions hello)) = drop (w_written p + 4) (wpacket_bytes p')"
      "SSL3_VERSION < ch_legacy_version hello"
    and common: "mn \<le> v" "supports cfgs srv v"
  shows "\<exists>srv' hello' d. ssl_choose_server_version cfgs srv hello d0 = Ret (None, srv', hello', d)
    \<and> v_version srv' = Max {v. mn \<le> v \<and> supports cfgs srv v}
    \<and> (\<forall>q q' sq bs e. wpacket_wf q \<and> w_subs q \<noteq> [] \<and> \<not> w_endfirst q \<and> has_obj q
         \<and> drop 24 bs \<noteq> tls11downgrade \<and> drop 24 bs \<noteq> tls12downgrade \<and> \<not> re_parsed e
         \<and> (if V_IS_TLS13 srv'
            then tls_construct_stoc_supported_versions m srv' q = Ret (EXT_RETURN_SENT, sq, q')
              \<and> re_present e \<and> packet_wf (re_data e) \<and> packet_bytes (re_data e) = drop (w_written q + 4) (wpacket_bytes q')
            else \<not> re_present e) \<longrightarrow>
         accepted (ssl_choose_client_version cfgc (c\<lparr>v_server_random := bs\<rparr>) (server_hello_version srv') e) (v_version srv'))"
proof -
  define vs where "vs = offered TLS1_3_VERSION mn"
  note r = range_tls(1) [OF clnt(1) range, OF refl]
  have mn: "SSL3_VERSION \<le> mn" "mn \<le> TLS1_3_VERSION" using r enabled_range [of cfgc c mn] by auto
  have set_vs: "int ` set vs = {mn..TLS1_3_VERSION}" unfolding vs_def using mn by (intro set_offered) auto
  have vs: "\<forall>v \<in> set vs. v < 65536" "length vs < 128" using set_vs mn by (force, simp add: vs_def offered_def)
  have sup_le: "supports cfgs srv w \<Longrightarrow> w \<le> TLS1_3_VERSION" for w using enabled_range [of cfgs srv w] by (simp add: supports_def)
  note wire = ctos_supported_versions_wire [OF cpkt(1-4) clnt(1) range cpkt(5)]
  have data: "packet_bytes (re_data (ch_supported_versions hello)) = be_bytes 1 (length (wire_versions vs)) @ wire_versions vs"
    unfolding hello(3) wire(1) using wire(2) by (simp add: sub_payload_def vs_def del: be_bytes.simps)
  have ex: "\<exists>v \<in> set vs. supports cfgs srv (int v)" using common sup_le set_vs by (force simp: image_iff)
  obtain srv' hello' d where ch: "ssl_choose_server_version cfgs srv hello d0 = Ret (None, srv', hello', d)"
    "v_version srv' = Max (int ` {v \<in> set vs. supports cfgs srv (int v)})" "v_method srv' = Some (method_of (v_version srv'))"
    "v_hello_retry_request srv' = SSL_HRR_NONE"
    using server_choice_is_max [OF srv(1,2) hello(1,2) data vs hello(4) srv(3,4), of cfgs d0] ex by (auto split: if_splits)
  have eq: "int ` {v \<in> set vs. supports cfgs srv (int v)} = {v. mn \<le> v \<and> supports cfgs srv v}"
    using set_vs sup_le by (auto simp: image_iff)
  have "{v. mn \<le> v \<and> supports cfgs srv v} \<subseteq> {mn..TLS1_3_VERSION}" using sup_le by auto
  then have "finite {v. mn \<le> v \<and> supports cfgs srv v}" by (rule finite_subset) simp
  then have "v_version srv' \<in> {v. mn \<le> v \<and> supports cfgs srv v}" unfolding ch(2) eq using common by (intro Max_in) auto
  then have b: "mn \<le> v_version srv'" "v_version srv' \<le> TLS1_3_VERSION" using sup_le by auto
  show ?thesis using ch(1) ch(2) [unfolded eq] reply_accepted [OF clnt(1-5) range ch(3) _ b ch(4)] mn(1) by fastforce
qed


lemma ctos_supported_versions_sends:
  assumes wf: "wpacket_wf p" "w_subs p \<noteq> []" "\<not> w_endfirst p" "w_buf p = None" and mem: "m_ok m SIZEOF_SUB"
    and tls: "flexible_tls c" and range: "ssl_get_min_max_version cfg c False = (None, mn, TLS1_3_VERSION, rm)"
    and room: "w_written p + 17 \<le> w_maxsize p"
  shows "\<exists>p'. tls_construct_ctos_supported_versions cfg m c p = Ret (EXT_RETURN_SENT, c, p')"
proof -
  have mn: "SSL3_VERSION \<le> mn" using range_tls(1) [OF tls range] enabled_range [of cfg c mn] by auto
  from supported_versions_writer [OF this order_refl] obtain pl enc where
    w: "wpacket_writer (\<lambda>m pkt.
       wthen (WPACKET_put_bytes m pkt TLSEXT_TYPE_supported_versions 2) (\<lambda>pkt.
       wthen (Ret (WPACKET_start_sub_packet_len m pkt 2)) (\<lambda>pkt.
       wthen (Ret (WPACKET_start_sub_packet_len m pkt 1)) (\<lambda>pkt.
       wthen (put_versions m TLS1_3_VERSION mn pkt) (\<lambda>pkt. wthen (WPACKET_close m pkt) (WPACKET_close m)))))) pl enc"
    and pl: "pl False = be_bytes 2 43 @ sub_payload 2 False (sub_payload 1 False (wire_versions (offered TLS1_3_VERSION mn)))" "enc False"
    by blast
  have "length (offered TLS1_3_VERSION mn) \<le> 5" using mn by (simp add: offered_def)
  then have "length (pl False) \<le> 17" using pl(1) by (simp add: sub_payload_def)
  then show ?thesis
    using wpacket_writer.op_succeeds [OF w wf(1,2,4) mem] wf(3) pl(2) room range
    by (fastforce simp: tls_construct_ctos_supported_versions_def ext_fail_def)
qed

theorem negotiation_agrees_witness:
  "\<exists>p p' hello srv' hello' d. tls_construct_ctos_supported_versions plain_cfg \<lparr>m_ok = (\<lambda>_. True), m_junk = (\<lambda>_. 0)\<rparr>
        (plain_conn False) p = Ret (EXT_RETURN_SENT, plain_conn False, p')
    \<and> packet_bytes (re_data (ch_supported_versions hello)) = drop (w_written p + 4) (wpacket_bytes p')
    \<and> ssl_choose_server_version plain_cfg (plain_conn True) hello DOWNGRADE_NONE = Ret (None, srv', hello', d)
    \<and> v_version srv' = Max {v. 0x303 \<le> v \<and> supports plain_cfg (plain_conn True) v}"
proof -
  let ?m = "\<lparr>m_ok = (\<lambda>_. True), m_junk = (\<lambda>_. 0)\<rparr>"
  let ?w = "\<lparr>w_buf = None, w_staticbuf = None, w_curr = 0, w_written = 0, w_maxsize = 0, w_subs = [], w_endfirst = False\<rparr>"
  obtain p where p: "WPACKET_init_static_len ?m ?w (Some (replicate 64 0)) 64 0 = (True, p)"
    by (simp add: WPACKET_init_static_len_def wpacket_intern_init_len_def Let_def)
  have fr: "fresh_writer 0 p" "\<not> w_endfirst p" "has_obj p" "w_buf p = None" "w_maxsize p = 64"
    using WPACKET_init_static_len_fresh [OF p] by (simp_all add: maxmaxsize_def)
  then have wf: "wpacket_wf p" "w_subs p \<noteq> []" "w_written p = 0" by (simp_all add: fresh_writer_def)
  obtain p' where p': "tls_construct_ctos_supported_versions plain_cfg ?m (plain_conn False) p = Ret (EXT_RETURN_SENT, plain_conn False, p')"
    using ctos_supported_versions_sends [OF wf(1,2) fr(2,4) _ plain_facts(1) plain_range, of ?m] fr(5) wf(3) by auto
  define bs where "bs = drop (w_written p + 4) (wpacket_bytes p')"
  define hello where "hello = \<lparr>ch_legacy_version = 0x303, ch_supported_versions =
    \<lparr>re_data = \<lparr>p_curr = bs, p_remaining = length bs\<rparr>, re_present = True, re_parsed = False\<rparr>\<rparr>"
  have "length bs < SIZE_MOD"
    using ctos_supported_versions_wire [OF wf(1,2) fr(2,3) plain_facts(1) plain_range p'] by (simp add: bs_def sub_payload_def offered_def)
  then have h: "re_present (ch_supported_versions hello)" "packet_wf (re_data (ch_supported_versions hello))"
      "packet_bytes (re_data (ch_supported_versions hello)) = drop (w_written p + 4) (wpacket_bytes p')"
      "SSL3_VERSION < ch_legacy_version hello"
    by (simp_all add: hello_def packet_wf_def packet_bytes_def bs_def [symmetric])
  have "0x303 \<le> (0x304 :: int)" by simp
  from negotiation_agrees [OF plain_facts(1-6) plain_range wf(1,2) fr(2,3) p' plain_facts(1,2,4,5) h this plain_supports, of DOWNGRADE_NONE]
  show ?thesis using p' h(3) by blast
qed


section \<open>What a client and a server can end up with\<close>

definition same_setup :: "VSSL \<Rightarrow> VSSL \<Rightarrow> bool" where
  "same_setup s t \<longleftrightarrow> v_min_proto_version s = v_min_proto_version t \<and> v_max_proto_version s = v_max_proto_version t
     \<and> v_sec_cb s = v_sec_cb t \<and> v_options s = v_options t \<and> v_cert_flags s = v_cert_flags t \<and> v_method s = v_method t
     \<and> v_rrlmethod s = v_rrlmethod t \<and> v_wrlmethod s = v_wrlmethod t \<and> v_fatal s = v_fatal t"

lemma same_setup_enabled: "same_setup s t \<Longrightarrow> enabled cfg s = enabled cfg t"
  using method_error_cong [of s t] by (intro ext) (simp add: same_setup_def enabled_def)

lemma parse_stoc_cases:
  assumes "packet_wf pkt"
  shows "\<exists>ok s pkt'. tls_parse_stoc_supported_versions c pkt ctxt = Ret (ok, s, pkt')
    \<and> (if ok then same_setup s c else v_fatal s \<noteq> None)"
proof -
  have f: "v_fatal (V_SSLfatal s al r) \<noteq> None" for s al r by (simp add: V_SSLfatal_def split: option.split)
  show ?thesis
  proof (cases "PACKET_get_net_2 pkt")
    case (Ret x)
    obtain v rest where x: "x = (v, rest)" by fastforce
    show ?thesis
      using f by (auto simp: tls_parse_stoc_supported_versions_def Ret x ssl_set_record_protocol_version_def same_setup_def)
  qed (use f get_net_2.get_safe [OF assms] in \<open>auto simp: tls_parse_stoc_supported_versions_def\<close>)
qed

lemma parse_ext_cases:
  assumes wf: "packet_wf (re_data e)"
  shows "\<exists>ok s e'. tls_parse_extension_supported_versions c ctxt e = Ret (ok, s, e')
    \<and> (if ok then same_setup s c else v_fatal s \<noteq> None)"
proof -
  have s: "same_setup c c" by (simp add: same_setup_def)
  from parse_stoc_cases [OF wf, of c ctxt] obtain ok t pkt' where
    "tls_parse_stoc_supported_versions c (re_data e) ctxt = Ret (ok, t, pkt')" "if ok then same_setup t c else v_fatal t \<noteq> None" by auto
  then show ?thesis using s by (simp add: tls_parse_extension_supported_versions_def Let_def) blast
qed

text \<open>
  Whatever version and extension a server sends, a client with version-flexible settings reads them
  safely, and either goes on with a version that its own settings enable, the method and the record
  layers set to that version, or stops with a fatal error and its version unchanged.
\<close>

theorem client_accepts_only_enabled:
  assumes c: "flexible_tls c" "v_fatal c = None" "v_rrlmethod c" "v_wrlmethod c" and wf: "packet_wf (re_data e)"
  shows "\<exists>ok c' e'. ssl_choose_client_version cfg c version e = Ret (ok, c', e')
    \<and> (if ok then enabled cfg c (v_version c') \<and> v_method c' = Some (method_of (v_version c'))
         \<and> v_rrl_version c' = v_version c' \<and> v_wrl_version c' = v_version c'
       else v_version c' = v_version c \<and> v_fatal c' \<noteq> None)"
proof -
  let ?ctx = "SSL_EXT_TLS1_2_SERVER_HELLO OR SSL_EXT_TLS1_3_SERVER_HELLO"
  obtain ok s e' where
    p: "tls_parse_extension_supported_versions (c\<lparr>v_version := version\<rparr>) ?ctx e = Ret (ok, s, e')"
      "if ok then same_setup s (c\<lparr>v_version := version\<rparr>) else v_fatal s \<noteq> None"
    using parse_ext_cases [OF wf, of "c\<lparr>v_version := version\<rparr>" ?ctx] by auto
  show ?thesis
  proof (cases ok)
    case False
    then show ?thesis using p by (simp add: ssl_choose_client_version_def Let_def) blast
  next
    case True
    then have s: "same_setup s (c\<lparr>v_version := version\<rparr>)" using p by simp
    then have fl: "flexible_tls s" "v_fatal s = None" "v_rrlmethod s" "v_wrlmethod s"
      using c by (simp_all add: same_setup_def flexible_tls_def)
    have en: "enabled cfg s = enabled cfg c" using same_setup_enabled [OF s, of cfg] by simp
    obtain r mn mx rm where g: "ssl_get_min_max_version cfg s True = (r, mn, mx, rm)" by (metis prod_cases4)
    have p': "tls_parse_extension_supported_versions (c\<lparr>v_version := version\<rparr>) ?ctx e = Ret (True, s, e')" using p(1) True by simp
    show ?thesis
    proof (cases "v_hello_retry_request s \<noteq> SSL_HRR_NONE \<and> v_version s \<noteq> TLS1_3_VERSION \<or> r \<noteq> None")
      case True
      then show ?thesis
        unfolding ssl_choose_client_version_def p' Let_def using g fl by (auto simp: V_SSLfatal_def)
    next
      case False
      then have n: "r = None" and h: "v_hello_retry_request s = SSL_HRR_NONE \<or> v_version s = TLS1_3_VERSION" by auto
      note g' = g [unfolded n]
      from choose_client_tls [OF fl p' h g'] range_tls(1) [OF fl(1) g' refl] show ?thesis
        unfolding refused_def accepted_def en by (auto split: if_splits)
    qed
  qed
qed

theorem client_accepts_only_enabled_witness:
  "\<exists>ok c' e'. ssl_choose_client_version plain_cfg (plain_conn False) 0x302
      \<lparr>re_data = PACKET_null_init, re_present = False, re_parsed = False\<rparr> = Ret (ok, c', e')
    \<and> \<not> ok \<and> v_version c' = 0x304"
proof -
  have "packet_wf (re_data \<lparr>re_data = PACKET_null_init, re_present = False, re_parsed = False\<rparr>)"
    by (simp add: packet_wf_def PACKET_null_init_def)
  from client_accepts_only_enabled [OF plain_facts(1,3,4,5) this]
  obtain ok c' e' where c: "ssl_choose_client_version plain_cfg (plain_conn False) 0x302
      \<lparr>re_data = PACKET_null_init, re_present = False, re_parsed = False\<rparr> = Ret (ok, c', e')"
    "if ok then enabled plain_cfg (plain_conn False) (v_version c') else v_version c' = v_version (plain_conn False)"
    by (metis (full_types))
  have "case ssl_choose_client_version plain_cfg (plain_conn False) 0x302
      \<lparr>re_data = PACKET_null_init, re_present = False, re_parsed = False\<rparr> of Ret (ok, _) \<Rightarrow> \<not> ok | _ \<Rightarrow> False"
    by code_simp
  then show ?thesis using c by (auto simp: plain_facts)
qed

text \<open>
  The check a server makes when a client signals that it is retrying with a lower version
  (TLS_FALLBACK_SCSV): it passes exactly when the version in use is the highest one the server's own
  settings enable.
\<close>

theorem fallback_check_exact:
  assumes "\<not> V_IS_DTLS s" and "v_defltmeth s = TLS_method" and "v_version s \<noteq> TLS_ANY_VERSION"
  shows "ssl_check_version_downgrade cfg s \<longleftrightarrow> enabled cfg s (v_version s) \<and> (\<forall>v > v_version s. \<not> enabled cfg s v)"
proof -
  have step: "highest_enabled s (vent_of off w m # vents) =
      (if \<not> off \<and> ssl_method_error s m = None then v_version s = w else highest_enabled s vents)" for off w m vents
    by (simp add: vent_of_def)
  have nil: "highest_enabled s [] = False" by simp
  have h: "ssl_check_version_downgrade cfg s = highest_enabled s (tls_version_table cfg)"
    using assms by (simp add: ssl_check_version_downgrade_def TLS_method_def tls_meth_def)
  have en: "enabled cfg s v \<Longrightarrow> v = 0x304 \<or> v = 0x303 \<or> v = 0x302 \<or> v = 0x301 \<or> v = 0x300" for v
    using enabled_range [of cfg s v] by presburger
  have top: "(\<forall>v > w. \<not> enabled cfg s v) \<longleftrightarrow> (\<forall>v \<in> {0x304, 0x303, 0x302, 0x301, 0x300}. w < v \<longrightarrow> \<not> enabled cfg s v)" for w
    using en by blast
  show ?thesis
    unfolding h tls_version_table_def step nil
    using en [of "v_version s"] by (auto simp: top enabled_versions)
qed


theorem fallback_check_exact_witness:
  "ssl_check_version_downgrade plain_cfg (plain_conn True)
   \<and> \<not> ssl_check_version_downgrade plain_cfg ((plain_conn True)\<lparr>v_version := 0x303\<rparr>)"
proof -
  have d: "\<not> V_IS_DTLS ((plain_conn True)\<lparr>v_version := v\<rparr>)" "v_defltmeth ((plain_conn True)\<lparr>v_version := v\<rparr>) = TLS_method" for v
    by (simp_all add: V_IS_DTLS_def plain_conn_def TLS_method_def tls_meth_def)
  have en: "enabled plain_cfg (plain_conn True) 0x304" using plain_supports by (simp add: supports_def)
  have "\<forall>v > 0x304. \<not> enabled plain_cfg (plain_conn True) v" using enabled_range [of plain_cfg "plain_conn True"] by force
  moreover have eq: "(plain_conn True)\<lparr>v_version := 0x304\<rparr> = plain_conn True" by (simp add: plain_conn_def)
  ultimately show ?thesis
    using fallback_check_exact [OF d [of "0x304"], of plain_cfg, unfolded eq]
      fallback_check_exact [OF d [of "0x303"], of plain_cfg] en by (auto simp: plain_facts)
qed

end
