(* ===== verification/Quic.thy ===== *)
theory Quic
  imports Packet Buffer Statem_Flow
begin

text \<open>
  The QUIC interface, \<open>ssl/ssl_quic.c\<close>, \<open>ssl/statem/statem_quic.c\<close>, \<open>quic_change_cipher_state\<close> of \<open>ssl/tls13_enc.c\<close> and
  \<open>SSL_clear_quic\<close> of \<open>ssl/ssl_lib.c\<close>: handshake data comes and goes through the application, at four encryption
  levels, and the traffic secrets are given to it.

  The part of a connection these functions work on is the record \<open>quic\<close>, the world of the state machine's
  record. The linked list of messages is a list from head to tail; the length field of an
  entry is the length of its bytes. An object in memory and the data given with it are together smaller
  than the address space. The argument \<open>mem\<close> tells which request sizes the allocator grants. The key derivation,
  the digests and the application's callbacks are a record of parameters \<open>quic_ext\<close>.
\<close>

section \<open>Levels\<close>

datatype OSSL_ENCRYPTION_LEVEL =
  ssl_encryption_initial | ssl_encryption_early_data | ssl_encryption_handshake | ssl_encryption_application

fun level_num :: "OSSL_ENCRYPTION_LEVEL \<Rightarrow> nat" where
  "level_num ssl_encryption_initial = 0"
| "level_num ssl_encryption_early_data = 1"
| "level_num ssl_encryption_handshake = 2"
| "level_num ssl_encryption_application = 3"

lemma level_num_inj: "level_num a = level_num b \<Longrightarrow> a = b"
  by (cases a; cases b) simp_all

instantiation OSSL_ENCRYPTION_LEVEL :: linorder
begin

definition less_eq_OSSL_ENCRYPTION_LEVEL :: "OSSL_ENCRYPTION_LEVEL \<Rightarrow> OSSL_ENCRYPTION_LEVEL \<Rightarrow> bool" where
  "less_eq_OSSL_ENCRYPTION_LEVEL a b \<longleftrightarrow> level_num a \<le> level_num b"

definition less_OSSL_ENCRYPTION_LEVEL :: "OSSL_ENCRYPTION_LEVEL \<Rightarrow> OSSL_ENCRYPTION_LEVEL \<Rightarrow> bool" where
  "less_OSSL_ENCRYPTION_LEVEL a b \<longleftrightarrow> level_num a < level_num b"

instance
  by standard (auto simp: less_eq_OSSL_ENCRYPTION_LEVEL_def less_OSSL_ENCRYPTION_LEVEL_def intro: level_num_inj)

end

section \<open>State\<close>

record QUIC_DATA =
  qd_level :: OSSL_ENCRYPTION_LEVEL
  qd_bytes :: "byte list"

record quic =
  q_read_level :: OSSL_ENCRYPTION_LEVEL
  q_write_level :: OSSL_ENCRYPTION_LEVEL
  q_latest_level_received :: OSSL_ENCRYPTION_LEVEL
  q_buf :: "BUF_MEM option"
  q_input_data :: "QUIC_DATA list"
  q_transport_version :: int
  q_transport_params :: "byte list"
  q_peer_transport_params_draft :: "byte list"
  q_peer_transport_params :: "byte list"
  q_init_buf :: BUF_MEM
  q_message_type :: int
  q_session_max_early_data :: "nat option"
  q_psksession :: "(SSL_CIPHER option \<times> nat) option"
  q_psk_use_session_cb :: bool
  q_early_secret :: "byte list"
  q_handshake_secret :: "byte list"
  q_master_secret :: "byte list"
  q_client_early_traffic_secret :: "byte list"
  q_client_hand_traffic_secret :: "byte list"
  q_server_hand_traffic_secret :: "byte list"
  q_client_app_traffic_secret :: "byte list"
  q_server_app_traffic_secret :: "byte list"
  q_client_finished_secret :: "byte list"
  q_server_finished_secret :: "byte list"
  q_resumption_master_secret :: "byte list"

type_synonym QSSL = "quic SSL"

abbreviation qw :: "QSSL \<Rightarrow> quic" where
  "qw s \<equiv> c_world s"

abbreviation (input) EVP_MAX_MD_SIZE :: nat where "EVP_MAX_MD_SIZE \<equiv> 64"
abbreviation (input) SSL3_HM_HEADER_LENGTH :: nat where "SSL3_HM_HEADER_LENGTH \<equiv> 4"
abbreviation (input) TLSEXT_TYPE_quic_transport_parameters :: int where "TLSEXT_TYPE_quic_transport_parameters \<equiv> 0x39"
abbreviation (input) TLSEXT_TYPE_quic_transport_parameters_draft :: int where "TLSEXT_TYPE_quic_transport_parameters_draft \<equiv> 0xffa5"

definition SSL_is_quic :: "QSSL \<Rightarrow> bool" where
  "SSL_is_quic s = SSL_CONNECTION_IS_QUIC s"

definition n2l3 :: "byte list \<Rightarrow> nat" where
  "n2l3 c = unat ((push_bit 16 (ucast (c ! 0)) OR push_bit 8 (ucast (c ! 1))) OR ucast (c ! 2) :: ulong)"

section \<open>Transport parameters and levels\<close>

definition SSL_set_quic_transport_params :: "(nat \<Rightarrow> bool) \<Rightarrow> QSSL \<Rightarrow> byte list \<Rightarrow> int \<times> QSSL" where
  "SSL_set_quic_transport_params mem s params =
     (if params \<noteq> [] \<and> \<not> mem (length params) then (0, s)
      else (1, s\<lparr>c_world := (qw s)\<lparr>q_transport_params := params\<rparr>\<rparr>))"

definition SSL_get_peer_quic_transport_params :: "QSSL \<Rightarrow> byte list" where
  "SSL_get_peer_quic_transport_params s =
     (if q_peer_transport_params (qw s) \<noteq> [] then q_peer_transport_params (qw s) else q_peer_transport_params_draft (qw s))"

definition SSL_get_peer_quic_transport_version :: "QSSL \<Rightarrow> int" where
  "SSL_get_peer_quic_transport_version s =
     (if q_peer_transport_params (qw s) \<noteq> [] \<and> q_peer_transport_params_draft (qw s) \<noteq> [] then -1
      else if q_peer_transport_params (qw s) \<noteq> [] then TLSEXT_TYPE_quic_transport_parameters
      else if q_peer_transport_params_draft (qw s) \<noteq> [] then TLSEXT_TYPE_quic_transport_parameters_draft
      else -1)"

definition SSL_set_quic_transport_version :: "QSSL \<Rightarrow> int \<Rightarrow> QSSL" where
  "SSL_set_quic_transport_version s version = s\<lparr>c_world := (qw s)\<lparr>q_transport_version := version\<rparr>\<rparr>"

definition SSL_set_quic_use_legacy_codepoint :: "QSSL \<Rightarrow> bool \<Rightarrow> QSSL" where
  "SSL_set_quic_use_legacy_codepoint s use_legacy =
     (if use_legacy then s\<lparr>c_world := (qw s)\<lparr>q_transport_version := TLSEXT_TYPE_quic_transport_parameters_draft\<rparr>\<rparr>
      else s\<lparr>c_world := (qw s)\<lparr>q_transport_version := TLSEXT_TYPE_quic_transport_parameters\<rparr>\<rparr>)"

definition SSL_get_quic_transport_version :: "QSSL \<Rightarrow> int" where
  "SSL_get_quic_transport_version s = q_transport_version (qw s)"

definition SSL_quic_max_handshake_flight_len :: "QSSL \<Rightarrow> OSSL_ENCRYPTION_LEVEL \<Rightarrow> nat" where
  "SSL_quic_max_handshake_flight_len s level =
     (case level of
        ssl_encryption_initial \<Rightarrow> 16384
      | ssl_encryption_early_data \<Rightarrow> 0
      | ssl_encryption_handshake \<Rightarrow>
          if c_server s then
            if c_verify_mode s AND SSL_VERIFY_PEER \<noteq> 0 \<and> c_max_cert_list s > 16384 then c_max_cert_list s else 16384
          else if 2 * c_max_cert_list s mod SIZE_MOD > 16384 then 2 * c_max_cert_list s mod SIZE_MOD
          else 16384
      | ssl_encryption_application \<Rightarrow> 16384)"

definition SSL_quic_read_level :: "QSSL \<Rightarrow> OSSL_ENCRYPTION_LEVEL" where
  "SSL_quic_read_level s = q_read_level (qw s)"

definition SSL_quic_write_level :: "QSSL \<Rightarrow> OSSL_ENCRYPTION_LEVEL" where
  "SSL_quic_write_level s = q_write_level (qw s)"

section \<open>Incoming data\<close>

text \<open>
  The loop that splits on message boundaries, with the data not yet consumed and the queue; it fails
  when an entry cannot be allocated (24 bytes and the message).
\<close>

function provide_loop :: "(nat \<Rightarrow> bool) \<Rightarrow> OSSL_ENCRYPTION_LEVEL \<Rightarrow> byte list \<Rightarrow> QUIC_DATA list \<Rightarrow> bool \<times> byte list \<times> QUIC_DATA list" where
  "provide_loop mem level data q =
     (if length data > SSL3_HM_HEADER_LENGTH then
        let l = n2l3 (drop 1 data) + SSL3_HM_HEADER_LENGTH in
        if l > length data then (True, data, q)
        else if \<not> mem (24 + l) then (False, data, q)
        else provide_loop mem level (drop l data) (q @ [\<lparr>qd_level = level, qd_bytes = take l data\<rparr>])
      else (True, data, q))"
  by pat_completeness auto
termination by (relation "measure (\<lambda>(_, _, data, _). length data)") auto

declare provide_loop.simps [simp del]

text \<open>
  Keeping what is left; \<open>untouched\<close> says that it is the whole content of \<open>quic_buf\<close>, where it already is.
\<close>

definition save_rest :: "(nat \<Rightarrow> bool) \<Rightarrow> (nat \<Rightarrow> byte) \<Rightarrow> bool \<Rightarrow> byte list \<Rightarrow> QSSL \<Rightarrow> int \<times> QSSL" where
  "save_rest mem junk untouched data s =
     (if length data > 0 then
        if q_buf (qw s) \<noteq> None \<and> untouched then (1, s)
        else if q_buf (qw s) = None \<and> \<not> mem 32 then (0, s)
        else
          (case BUF_MEM_grow mem junk (case q_buf (qw s) of None \<Rightarrow> BUF_MEM_new | Some b \<Rightarrow> b) (length data) of
             (r, b) \<Rightarrow>
               if r = 0 then (0, s\<lparr>c_world := (qw s)\<lparr>q_buf := Some b\<rparr>\<rparr>)
               else (1, s\<lparr>c_world := (qw s)\<lparr>q_buf := Some (b\<lparr>b_data := patch (b_data b) 0 data\<rparr>)\<rparr>\<rparr>))
      else
        (case q_buf (qw s) of
           None \<Rightarrow> (1, s)
         | Some b \<Rightarrow> (1, s\<lparr>c_world := (qw s)\<lparr>q_buf := Some (b\<lparr>b_length := 0\<rparr>)\<rparr>\<rparr>)))"

definition split_and_save :: "(nat \<Rightarrow> bool) \<Rightarrow> (nat \<Rightarrow> byte) \<Rightarrow> OSSL_ENCRYPTION_LEVEL \<Rightarrow> bool \<Rightarrow> byte list \<Rightarrow> QSSL \<Rightarrow> int \<times> QSSL" where
  "split_and_save mem junk level in_buf data s =
     (case provide_loop mem level data (q_input_data (qw s)) of
        (ok, rest, q) \<Rightarrow>
          let s = s\<lparr>c_world := (qw s)\<lparr>q_input_data := q\<rparr>\<rparr> in
          if \<not> ok then (0, s) else save_rest mem junk (in_buf \<and> length rest = length data) rest s)"

definition level_too_low :: "QSSL \<Rightarrow> OSSL_ENCRYPTION_LEVEL \<Rightarrow> bool" where
  "level_too_low s level \<longleftrightarrow>
     level < q_read_level (qw s) \<or> q_input_data (qw s) \<noteq> [] \<and> level < qd_level (last (q_input_data (qw s)))
     \<or> level < q_latest_level_received (qw s)"

definition SSL_provide_quic_data :: "(nat \<Rightarrow> bool) \<Rightarrow> (nat \<Rightarrow> byte) \<Rightarrow> QSSL \<Rightarrow> OSSL_ENCRYPTION_LEVEL \<Rightarrow> byte list \<Rightarrow> int \<times> QSSL" where
  "SSL_provide_quic_data mem junk s level data =
     (if \<not> SSL_is_quic s then (0, s)
      else if level_too_low s level then (0, s)
      else if length data = 0 then (1, s)
      else
        let fragment_length = (case q_buf (qw s) of None \<Rightarrow> 0 | Some b \<Rightarrow> b_length b) in
        if fragment_length \<noteq> 0 \<and> level \<noteq> q_latest_level_received (qw s) then (0, s)
        else
          let s = s\<lparr>c_world := (qw s)\<lparr>q_latest_level_received := level\<rparr>\<rparr> in
          (case q_buf (qw s) of
             Some b \<Rightarrow>
               if fragment_length = 0 then split_and_save mem junk level False data s
               else
                 (case BUF_MEM_grow mem junk b (fragment_length + length data) of
                    (r, b) \<Rightarrow>
                      if r = 0 then (0, s\<lparr>c_world := (qw s)\<lparr>q_buf := Some b\<rparr>\<rparr>)
                      else
                        let b = b\<lparr>b_data := patch (b_data b) fragment_length data\<rparr>;
                            s = s\<lparr>c_world := (qw s)\<lparr>q_buf := Some b\<rparr>\<rparr>
                        in split_and_save mem junk level True (take (b_length b) (b_data b)) s)
           | None \<Rightarrow> split_and_save mem junk level False data s))"


text \<open>
  The next message of the queue, for the reading sub-machine. Its type is read through a plain \<open>char\<close>, which is
  signed on the platforms the sizes of this development are those of: the types from 128 on come out negative.
\<close>

definition quic_get_message :: "(nat \<Rightarrow> bool) \<Rightarrow> (nat \<Rightarrow> byte) \<Rightarrow> QSSL \<Rightarrow> int option \<times> QSSL" where
  "quic_get_message mem junk s =
     (case q_input_data (qw s) of
        [] \<Rightarrow> (None, s\<lparr>c_rwstate := SSL_READING\<rparr>)
      | qd # next \<Rightarrow>
          if length (qd_bytes qd) < SSL3_HM_HEADER_LENGTH then (None, SSLfatal s SSL_AD_INTERNAL_ERROR)
          else if qd_level qd \<noteq> q_read_level (qw s) then (None, SSLfatal s SSL_AD_INTERNAL_ERROR)
          else
            (case BUF_MEM_grow_clean mem junk (q_init_buf (qw s)) (length (qd_bytes qd)) of
               (r, b) \<Rightarrow>
                 if r = 0 then (None, SSLfatal (s\<lparr>c_world := (qw s)\<lparr>q_init_buf := b\<rparr>\<rparr>) SSL_AD_INTERNAL_ERROR)
                 else
                   let b = b\<lparr>b_data := patch (b_data b) 0 (qd_bytes qd), b_length := length (qd_bytes qd)\<rparr>;
                       mt = sint (b_data b ! 0);
                       l = n2l3 (drop 1 (b_data b));
                       s = s\<lparr>c_world := (qw s)\<lparr>q_init_buf := b, q_input_data := next, q_message_type := mt\<rparr>,
                             c_init_num := l, c_s3 := (c_s3 s)\<lparr>s3_message_size := l\<rparr>\<rparr>
                   in (Some mt, s)))"

definition hrrrandom :: "byte list" where
  "hrrrandom = [0xcf, 0x21, 0xad, 0x74, 0xe5, 0x9a, 0x61, 0x11, 0xbe, 0x1d, 0x8c, 0x02,
     0x1e, 0x65, 0xb8, 0x91, 0xc2, 0xa2, 0x11, 0x16, 0x7a, 0xbb, 0x8c, 0x5e,
     0x07, 0x9e, 0x09, 0xe2, 0xc8, 0xa8, 0x33, 0x9c]"

definition transcript_deferred :: "QSSL \<Rightarrow> bool" where
  "transcript_deferred s \<longleftrightarrow>
     q_message_type (qw s) = SSL3_MT_SERVER_HELLO \<and> c_init_num s \<ge> 6 + 32
     \<and> take 32 (drop 6 (b_data (q_init_buf (qw s)))) = hrrrandom"

definition quic_get_message_body :: "quic env \<Rightarrow> QSSL \<Rightarrow> nat option \<times> QSSL" where
  "quic_get_message_body E s =
     (if q_message_type (qw s) = SSL3_MT_CHANGE_CIPHER_SPEC \<or> q_message_type (qw s) = SSL3_MT_KEY_UPDATE
      then (None, SSLfatal s SSL_AD_UNEXPECTED_MESSAGE)
      else
        (case (if q_message_type (qw s) = SSL3_MT_FINISHED then e_int E F_ssl3_take_mac s else (1, s)) of
           (r, s) \<Rightarrow>
             if r = 0 then (None, s)
             else
               (case (if q_message_type (qw s) \<noteq> SSL3_MT_NEWSESSION_TICKET \<and> q_message_type (qw s) \<noteq> SSL3_MT_KEY_UPDATE \<and> \<not> transcript_deferred s
                      then e_int E (F_ssl3_finish_mac (c_init_num s + SSL3_HM_HEADER_LENGTH)) s else (1, s)) of
                  (r, s) \<Rightarrow>
                    if r = 0 then (None, s)
                    else
                      let s = call E (F_msg_callback (c_init_num s + SSL3_HM_HEADER_LENGTH)) s
                      in (Some (c_init_num s), s))))"

text \<open>The environment of a QUIC connection: the state machine reads from the queue.\<close>

definition quic_env :: "(nat \<Rightarrow> bool) \<Rightarrow> (nat \<Rightarrow> byte) \<Rightarrow> quic env \<Rightarrow> quic env" where
  "quic_env mem junk E =
     E\<lparr>e_get_message := \<lambda>g s. (if g = G_quic then quic_get_message mem junk s else e_get_message E g s),
       e_get_message_body := \<lambda>g s. (if g = G_quic then quic_get_message_body E s else e_get_message_body E g s)\<rparr>"

section \<open>Configuration\<close>

record SSL_CTX =
  ctx_method_version :: nat
  ctx_quic_method :: bool
  ctx_options :: ulong

definition SSL_CTX_set_quic_method :: "SSL_CTX \<Rightarrow> bool \<Rightarrow> int \<times> SSL_CTX" where
  "SSL_CTX_set_quic_method ctx quic_method =
     (if ctx_method_version ctx \<noteq> TLS_ANY_VERSION then (0, ctx)
      else (1, ctx\<lparr>ctx_quic_method := quic_method, ctx_options := ctx_options ctx AND NOT SSL_OP_ENABLE_MIDDLEBOX_COMPAT\<rparr>))"

definition SSL_set_quic_method :: "QSSL \<Rightarrow> bool \<Rightarrow> int \<times> QSSL" where
  "SSL_set_quic_method s quic_method =
     (if c_method_version s \<noteq> TLS_ANY_VERSION then (0, s)
      else (1, s\<lparr>c_quic_method := quic_method, c_options := c_options s AND NOT SSL_OP_ENABLE_MIDDLEBOX_COMPAT\<rparr>))"

definition SSL_set_quic_early_data_enabled :: "QSSL \<Rightarrow> bool \<Rightarrow> QSSL" where
  "SSL_set_quic_early_data_enabled s enabled =
     (if \<not> SSL_is_quic s \<or> \<not> SSL_in_before s then s
      else if \<not> enabled then s\<lparr>c_early_data_state := SSL_EARLY_DATA_NONE\<rparr>
      else if c_server s then s\<lparr>c_early_data_state := SSL_EARLY_DATA_ACCEPTING\<rparr>
      else if (q_session_max_early_data (qw s) = None \<or> q_session_max_early_data (qw s) = Some 0) \<and> \<not> q_psk_use_session_cb (qw s) then s
      else s\<lparr>c_early_data_state := SSL_EARLY_DATA_CONNECTING\<rparr>)"

definition SSL_clear_quic :: "QSSL \<Rightarrow> int \<times> QSSL" where
  "SSL_clear_quic s =
     (1, s\<lparr>c_world := (qw s)\<lparr>
        q_peer_transport_params_draft := [], q_peer_transport_params := [],
        q_read_level := ssl_encryption_initial, q_write_level := ssl_encryption_initial,
        q_latest_level_received := ssl_encryption_initial, q_input_data := [], q_buf := None,
        q_client_hand_traffic_secret := replicate EVP_MAX_MD_SIZE 0, q_server_hand_traffic_secret := replicate EVP_MAX_MD_SIZE 0,
        q_client_early_traffic_secret := replicate EVP_MAX_MD_SIZE 0\<rparr>\<rparr>)"

section \<open>Secrets\<close>

text \<open>
  The digest of a cipher suite and of the handshake by its size, the key derivation with the
  label and the transcript hash, the derivation of a Finished key, the hash of the transcript so far, the
  hash for early data with the digest of a cipher suite (\<open>None\<close> when the transcript is empty or the digest
  fails), the key log, and the application's function that takes the secrets for reading and writing.
\<close>

datatype secret_label =
    client_handshake_traffic | server_handshake_traffic | client_application_traffic | server_application_traffic
  | client_early_traffic | resumption_master_secret

record quic_ext =
  x_md_size :: "SSL_CIPHER \<Rightarrow> int option"
  x_handshake_md_size :: "QSSL \<Rightarrow> int option"
  x_hkdf_expand :: "byte list \<Rightarrow> secret_label \<Rightarrow> byte list \<Rightarrow> byte list option"
  x_derive_finishedkey :: "byte list \<Rightarrow> byte list option"
  x_handshake_hash :: "QSSL \<Rightarrow> byte list option"
  x_early_hash :: "SSL_CIPHER \<Rightarrow> QSSL \<Rightarrow> byte list option"
  x_log_secret :: "secret_label \<Rightarrow> byte list \<Rightarrow> bool"
  x_set_encryption_secrets :: "OSSL_ENCRYPTION_LEVEL \<Rightarrow> byte list option \<Rightarrow> byte list option \<Rightarrow> int \<Rightarrow> QSSL \<Rightarrow> bool \<times> QSSL"

text \<open>The cipher suite for early data: that of the session, or of an external PSK; \<open>Inl\<close> for the failed assertion.\<close>

definition early_data_cipher :: "QSSL \<Rightarrow> unit + SSL_CIPHER option" where
  "early_data_cipher s =
     (if c_early_data_state s = SSL_EARLY_DATA_CONNECTING \<and> c_max_early_data s > 0 \<and> q_session_max_early_data (qw s) = Some 0 then
        (case q_psksession (qw s) of
           None \<Rightarrow> Inl ()
         | Some (c, psk_max) \<Rightarrow> if c_max_early_data s = psk_max then Inr c else Inl ())
      else Inr (sess_cipher (c_session s)))"

definition quic_secrets_md :: "quic_ext \<Rightarrow> QSSL \<Rightarrow> OSSL_ENCRYPTION_LEVEL \<Rightarrow> int option" where
  "quic_secrets_md X s level =
     (if level = ssl_encryption_early_data then
        (case early_data_cipher s of Inr (Some c) \<Rightarrow> x_md_size X c | _ \<Rightarrow> None)
      else
        (case x_handshake_md_size X s of
           Some n \<Rightarrow> Some n
         | None \<Rightarrow>
             (case (if q_session_max_early_data (qw s) \<noteq> None then sess_cipher (c_session s)
                    else (case q_psksession (qw s) of Some (c, _) \<Rightarrow> c | None \<Rightarrow> None)) of
                None \<Rightarrow> None
              | Some c \<Rightarrow> x_md_size X c)))"

definition quic_set_encryption_secrets :: "quic_ext \<Rightarrow> QSSL \<Rightarrow> OSSL_ENCRYPTION_LEVEL \<Rightarrow> bool \<times> QSSL" where
  "quic_set_encryption_secrets X s level =
     (if \<not> SSL_is_quic s then (True, s)
      else if level = ssl_encryption_initial then (True, s)
      else
        let c2s_secret = (case level of ssl_encryption_early_data \<Rightarrow> Some (q_client_early_traffic_secret (qw s))
              | ssl_encryption_handshake \<Rightarrow> Some (q_client_hand_traffic_secret (qw s))
              | ssl_encryption_application \<Rightarrow> Some (q_client_app_traffic_secret (qw s)) | _ \<Rightarrow> None);
            s2c_secret = (case level of ssl_encryption_handshake \<Rightarrow> Some (q_server_hand_traffic_secret (qw s))
              | ssl_encryption_application \<Rightarrow> Some (q_server_app_traffic_secret (qw s)) | _ \<Rightarrow> None)
        in
        (case quic_secrets_md X s level of
           None \<Rightarrow> (False, SSLfatal s SSL_AD_INTERNAL_ERROR)
         | Some len \<Rightarrow>
             if len \<le> 0 then (False, SSLfatal s SSL_AD_INTERNAL_ERROR)
             else
               (case (if c_server s then x_set_encryption_secrets X level c2s_secret s2c_secret len s
                      else x_set_encryption_secrets X level s2c_secret c2s_secret len s) of
                  (ok, s) \<Rightarrow> if \<not> ok then (False, SSLfatal s SSL_AD_INTERNAL_ERROR) else (True, s))))"

text \<open>Steps in sequence, up to the first that fails.\<close>

fun run_steps :: "('s \<Rightarrow> bool \<times> 's) list \<Rightarrow> 's \<Rightarrow> bool \<times> 's" where
  "run_steps [] s = (True, s)"
| "run_steps (f # fs) s = (case f s of (ok, s) \<Rightarrow> if ok then run_steps fs s else (False, s))"

definition expand_into :: "quic_ext \<Rightarrow> byte list \<Rightarrow> secret_label \<Rightarrow> byte list \<Rightarrow> (byte list \<Rightarrow> quic \<Rightarrow> quic) \<Rightarrow> QSSL \<Rightarrow> bool \<times> QSSL" where
  "expand_into X secret label hash put s =
     (case x_hkdf_expand X secret label hash of
        None \<Rightarrow> (False, SSLfatal s SSL_AD_INTERNAL_ERROR)
      | Some out \<Rightarrow> (True, s\<lparr>c_world := put out (qw s)\<rparr>))"

definition log_step :: "quic_ext \<Rightarrow> secret_label \<Rightarrow> (quic \<Rightarrow> byte list) \<Rightarrow> QSSL \<Rightarrow> bool \<times> QSSL" where
  "log_step X label get s =
     (if x_log_secret X label (get (qw s)) then (True, s) else (False, SSLfatal s SSL_AD_INTERNAL_ERROR))"

definition finishedkey_step :: "quic_ext \<Rightarrow> (quic \<Rightarrow> byte list) \<Rightarrow> (byte list \<Rightarrow> quic \<Rightarrow> quic) \<Rightarrow> QSSL \<Rightarrow> bool \<times> QSSL" where
  "finishedkey_step X get put s =
     (case x_derive_finishedkey X (get (qw s)) of
        None \<Rightarrow> (False, SSLfatal s SSL_AD_INTERNAL_ERROR)
      | Some out \<Rightarrow> (True, s\<lparr>c_world := put out (qw s)\<rparr>))"

text \<open>The hash the secrets are derived with; \<open>None\<close> after a fatal error.\<close>

definition quic_transcript_hash :: "quic_ext \<Rightarrow> QSSL \<Rightarrow> bool \<Rightarrow> byte list option" where
  "quic_transcript_hash X s is_early =
     (if is_early then
        (case early_data_cipher s of Inr (Some c) \<Rightarrow> x_early_hash X c s | _ \<Rightarrow> None)
      else
        (case x_handshake_hash X s of
           None \<Rightarrow> None
         | Some hash \<Rightarrow> (case x_handshake_md_size X s of Some n \<Rightarrow> if n \<ge> 0 then Some (take (nat n) hash) else None | None \<Rightarrow> None)))"

abbreviation (input) SSL3_CC_EARLY :: uint where "SSL3_CC_EARLY \<equiv> 0x040"
abbreviation (input) SSL3_CC_HANDSHAKE :: uint where "SSL3_CC_HANDSHAKE \<equiv> 0x080"
abbreviation (input) SSL3_CC_APPLICATION :: uint where "SSL3_CC_APPLICATION \<equiv> 0x100"
abbreviation (input) SSL3_CHANGE_CIPHER_CLIENT_WRITE :: uint where "SSL3_CHANGE_CIPHER_CLIENT_WRITE \<equiv> 0x12"
abbreviation (input) SSL3_CHANGE_CIPHER_CLIENT_READ :: uint where "SSL3_CHANGE_CIPHER_CLIENT_READ \<equiv> 0x11"
abbreviation (input) SSL3_CHANGE_CIPHER_SERVER_WRITE :: uint where "SSL3_CHANGE_CIPHER_SERVER_WRITE \<equiv> 0x22"
abbreviation (input) SSL3_CHANGE_CIPHER_SERVER_READ :: uint where "SSL3_CHANGE_CIPHER_SERVER_READ \<equiv> 0x21"

definition traffic_steps :: "quic_ext \<Rightarrow> quic \<Rightarrow> byte list \<Rightarrow> bool \<Rightarrow> (QSSL \<Rightarrow> bool \<times> QSSL) list" where
  "traffic_steps X w hash is_handshake =
     (if is_handshake then
        [expand_into X (q_handshake_secret w) client_handshake_traffic hash (\<lambda>b. q_client_hand_traffic_secret_update (\<lambda>_. b)),
         log_step X client_handshake_traffic q_client_hand_traffic_secret,
         finishedkey_step X q_client_hand_traffic_secret (\<lambda>b. q_client_finished_secret_update (\<lambda>_. b)),
         expand_into X (q_handshake_secret w) server_handshake_traffic hash (\<lambda>b. q_server_hand_traffic_secret_update (\<lambda>_. b)),
         log_step X server_handshake_traffic q_server_hand_traffic_secret,
         finishedkey_step X q_server_hand_traffic_secret (\<lambda>b. q_server_finished_secret_update (\<lambda>_. b))]
      else
        [expand_into X (q_master_secret w) client_application_traffic hash (\<lambda>b. q_client_app_traffic_secret_update (\<lambda>_. b)),
         log_step X client_application_traffic q_client_app_traffic_secret,
         expand_into X (q_master_secret w) server_application_traffic hash (\<lambda>b. q_server_app_traffic_secret_update (\<lambda>_. b)),
         log_step X server_application_traffic q_server_app_traffic_secret])"

definition set_level :: "bool \<Rightarrow> OSSL_ENCRYPTION_LEVEL \<Rightarrow> QSSL \<Rightarrow> bool \<times> QSSL" where
  "set_level reading level s =
     (True, s\<lparr>c_world := (if reading then (qw s)\<lparr>q_read_level := level\<rparr> else (qw s)\<lparr>q_write_level := level\<rparr>)\<rparr>)"

definition quic_change_cipher_state :: "quic_ext \<Rightarrow> QSSL \<Rightarrow> uint \<Rightarrow> bool \<times> QSSL" where
  "quic_change_cipher_state X s which =
     (let is_handshake = (which AND SSL3_CC_HANDSHAKE = SSL3_CC_HANDSHAKE);
          is_client_read = (which AND SSL3_CHANGE_CIPHER_CLIENT_READ = SSL3_CHANGE_CIPHER_CLIENT_READ);
          is_server_write = (which AND SSL3_CHANGE_CIPHER_SERVER_WRITE = SSL3_CHANGE_CIPHER_SERVER_WRITE);
          is_early = (which AND SSL3_CC_EARLY \<noteq> 0)
      in
      case quic_transcript_hash X s is_early of
        None \<Rightarrow> (False, SSLfatal s SSL_AD_INTERNAL_ERROR)
      | Some hash \<Rightarrow>
          if is_client_read \<or> is_server_write then
            let level = (if is_handshake then ssl_encryption_handshake else ssl_encryption_application) in
            run_steps (traffic_steps X (qw s) hash is_handshake
              @ [\<lambda>s. quic_set_encryption_secrets X s level, \<lambda>s. set_level (\<not> c_server s) level s]) s
          else if is_early then
            run_steps
              [expand_into X (q_early_secret (qw s)) client_early_traffic hash (\<lambda>b. q_client_early_traffic_secret_update (\<lambda>_. b)),
               log_step X client_early_traffic q_client_early_traffic_secret,
               \<lambda>s. quic_set_encryption_secrets X s ssl_encryption_early_data] s
          else if is_handshake then set_level (c_server s) ssl_encryption_handshake s
          else
            run_steps
              [expand_into X (q_master_secret (qw s)) resumption_master_secret hash (\<lambda>b. q_resumption_master_secret_update (\<lambda>_. b)),
               \<lambda>s. set_level (c_server s) ssl_encryption_application s] s)"

section \<open>After the handshake\<close>

definition handshake_func :: "quic env \<Rightarrow> QSSL \<Rightarrow> (int \<times> QSSL) option" where
  "handshake_func E s =
     (case c_handshake_func s of
        Some HS_ossl_statem_accept \<Rightarrow> ossl_statem_accept E s
      | Some HS_ossl_statem_connect \<Rightarrow> ossl_statem_connect E s
      | None \<Rightarrow> None)"

partial_function (option) post_handshake_loop :: "quic env \<Rightarrow> QSSL \<Rightarrow> (int \<times> QSSL) option" where
  "post_handshake_loop E s =
     (if q_input_data (qw s) \<noteq> [] then
        Option.bind (handshake_func E (ossl_statem_set_in_init s True)) (\<lambda>(ret, s).
          let s = ossl_statem_set_in_init s False in
          if ret \<le> 0 then Some (0, s) else post_handshake_loop E s)
      else Some (1, s))"

definition SSL_process_quic_post_handshake :: "quic env \<Rightarrow> QSSL \<Rightarrow> (int \<times> QSSL) option" where
  "SSL_process_quic_post_handshake E s =
     (if SSL_in_init s \<or> \<not> SSL_is_quic s then Some (0, s) else post_handshake_loop E s)"

end
