(* ===== verification/Quic_Stream.thy ===== *)
theory Quic_Stream
  imports Quic
begin

text \<open>
  Properties of the QUIC interface: handshake messages are recovered from the data given by the application
  whatever way it was cut into pieces, and are read in order; the queue keeps its levels in order; the
  two ends are given matching secrets.
\<close>

section \<open>Splitting a stream into messages\<close>

text \<open>The specification of the splitting loop: the complete messages and what is left.\<close>

function quic_split :: "byte list \<Rightarrow> byte list list \<times> byte list" where
  "quic_split data =
     (if length data > 4 \<and> n2l3 (drop 1 data) + 4 \<le> length data then
        case quic_split (drop (n2l3 (drop 1 data) + 4) data) of
          (ms, r) \<Rightarrow> (take (n2l3 (drop 1 data) + 4) data # ms, r)
      else ([], data))"
  by pat_completeness auto
termination by (relation "measure length") auto

declare quic_split.simps [simp del]

definition unlimited :: "(nat \<Rightarrow> bool) \<Rightarrow> bool" where
  "unlimited mem \<longleftrightarrow> (\<forall>n. mem n)"

lemma n2l3_value: "3 \<le> length c \<Longrightarrow> n2l3 c = be_value (take 3 c)"
  using take_words(3) [of c] net_3_value [of "c ! 0" "c ! 1" "c ! 2"] by (simp add: n2l3_def)

lemma n2l3_append: "4 < length a \<Longrightarrow> n2l3 (drop 1 (a @ b)) = n2l3 (drop 1 a)"
  by (simp add: n2l3_value)

definition queued :: "OSSL_ENCRYPTION_LEVEL \<Rightarrow> byte list list \<Rightarrow> QUIC_DATA list" where
  "queued level ms = map (\<lambda>m. \<lparr>qd_level = level, qd_bytes = m\<rparr>) ms"

lemma queued_simps [simp]:
  "queued level [] = []" "queued level (m # ms) = \<lparr>qd_level = level, qd_bytes = m\<rparr> # queued level ms"
  "queued level (ms @ ms') = queued level ms @ queued level ms'"
  by (simp_all add: queued_def)

lemma quic_split_more:
  assumes "4 < length data" and "n2l3 (drop 1 data) + 4 \<le> length data"
  shows "quic_split data = (take (n2l3 (drop 1 data) + 4) data # fst (quic_split (drop (n2l3 (drop 1 data) + 4) data)),
    snd (quic_split (drop (n2l3 (drop 1 data) + 4) data)))"
  using assms by (subst quic_split.simps) (simp split: prod.splits)

lemma quic_split_stop: "\<not> (4 < length data \<and> n2l3 (drop 1 data) + 4 \<le> length data) \<Longrightarrow> quic_split data = ([], data)"
  by (subst quic_split.simps) auto

lemma provide_loop_split:
  assumes "unlimited mem"
  shows "provide_loop mem level data q = (True, snd (quic_split data), q @ queued level (fst (quic_split data)))"
proof (induction data arbitrary: q rule: quic_split.induct)
  case (1 data)
  show ?case
  proof (cases "length data > 4 \<and> n2l3 (drop 1 data) + 4 \<le> length data")
    case True
    moreover have "mem (24 + (n2l3 (drop 1 data) + 4))" using assms by (simp add: unlimited_def)
    ultimately show ?thesis
      using 1 [OF True, of "q @ [\<lparr>qd_level = level, qd_bytes = take (n2l3 (drop 1 data) + 4) data\<rparr>]"]
      by (subst provide_loop.simps) (simp add: quic_split_more Let_def)
  next
    case False
    then show ?thesis using quic_split_stop [OF False] by (subst provide_loop.simps) (auto simp: Let_def)
  qed
qed

text \<open>Data that comes in two pieces is split like the whole.\<close>

lemma quic_split_append:
  "quic_split (a @ b) =
     (fst (quic_split a) @ fst (quic_split (snd (quic_split a) @ b)), snd (quic_split (snd (quic_split a) @ b)))"
proof (induction a rule: quic_split.induct)
  case (1 a)
  show ?case
  proof (cases "length a > 4 \<and> n2l3 (drop 1 a) + 4 \<le> length a")
    case True
    then have n: "n2l3 (drop 1 (a @ b)) = n2l3 (drop 1 a)" by (intro n2l3_append) simp
    have "quic_split (a @ b) = (take (n2l3 (drop 1 a) + 4) a # fst (quic_split (drop (n2l3 (drop 1 a) + 4) a @ b)),
        snd (quic_split (drop (n2l3 (drop 1 a) + 4) a @ b)))"
      using quic_split_more [of "a @ b"] True unfolding n by simp
    then show ?thesis using 1 [OF True] True quic_split_more [of a] by simp
  next
    case False
    then show ?thesis using quic_split_stop [OF False] by simp
  qed
qed

text \<open>A handshake message: type, three-byte length, body.\<close>

definition hs_encode :: "byte \<times> byte list \<Rightarrow> byte list" where
  "hs_encode m = fst m # be_bytes 3 (length (snd m)) @ snd m"

lemma length_hs_encode [simp]: "length (hs_encode m) = length (snd m) + 4"
  by (simp add: hs_encode_def)

lemma n2l3_encode: "length (snd m) < 2 ^ 24 \<Longrightarrow> n2l3 (drop 1 (hs_encode m @ r)) = length (snd m)"
  by (simp add: hs_encode_def n2l3_value be_value_be_bytes_fits)

lemma quic_split_message:
  assumes "length (snd m) < 2 ^ 24" and "snd m \<noteq> [] \<or> r \<noteq> []"
  shows "quic_split (hs_encode m @ r) = (hs_encode m # fst (quic_split r), snd (quic_split r))"
proof -
  have "length (hs_encode m @ r) > 4" using assms(2) by (cases "snd m"; cases r) simp_all
  then show ?thesis
    using n2l3_encode [OF assms(1), of r] by (simp add: quic_split.simps [of "hs_encode m @ r"] split: prod.splits)
qed

lemma quic_split_encoded:
  assumes "\<And>m. m \<in> set ms \<Longrightarrow> length (snd m) < 2 ^ 24" and "ms = [] \<or> snd (last ms) \<noteq> []"
  shows "quic_split (concat (map hs_encode ms)) = (map hs_encode ms, [])"
  using assms
proof (induction ms)
  case (Cons m ms)
  have "snd m \<noteq> [] \<or> concat (map hs_encode ms) \<noteq> []" using Cons.prems(2) by (cases ms) (auto simp: hs_encode_def)
  moreover have "quic_split (concat (map hs_encode ms)) = (map hs_encode ms, [])"
    using Cons by (cases ms) auto
  ultimately show ?case using Cons.prems(1) quic_split_message [of m] by simp
qed (simp add: quic_split.simps)


section \<open>Providing data\<close>

definition fragment :: "QSSL \<Rightarrow> byte list" where
  "fragment s = (case q_buf (qw s) of None \<Rightarrow> [] | Some b \<Rightarrow> buf_bytes b)"

definition quic_wf :: "QSSL \<Rightarrow> bool" where
  "quic_wf s \<longleftrightarrow> (\<forall>b. q_buf (qw s) = Some b \<longrightarrow> buf_wf b)"

definition same_but_buf :: "QSSL \<Rightarrow> QSSL \<Rightarrow> bool" where
  "same_but_buf s s' \<longleftrightarrow> (\<exists>b. s' = s\<lparr>c_world := (qw s)\<lparr>q_buf := b\<rparr>\<rparr>)"

lemma length_buf_bytes: "buf_wf b \<Longrightarrow> length (buf_bytes b) = b_length b"
  by (simp add: buf_bytes_def buf_wf_def)

lemma grow_then_store:
  assumes "buf_wf b" and "mem ((len + 3) div 3 * 4)" and "0 < len" and "len \<le> LIMIT_BEFORE_EXPANSION" and "k + length xs = len" and "k \<le> b_length b"
  shows "\<exists>b'. BUF_MEM_grow mem junk b len = (len, b') \<and> buf_wf (b'\<lparr>b_data := patch (b_data b') k xs\<rparr>)
    \<and> buf_bytes (b'\<lparr>b_data := patch (b_data b') k xs\<rparr>) = take k (buf_bytes b) @ xs \<and> b_length b' = len"
proof -
  obtain r b' where g: "BUF_MEM_grow mem junk b len = (r, b')" by fastforce
  note sp = BUF_MEM_grow_spec [OF assms(1) g]
  have r: "r = len" using sp(2) assms(2,4) by auto
  have l: "b_length b' = len" "buf_bytes b' = take len (buf_bytes b) @ replicate (len - b_length b) 0" using sp(3) r assms(3) by auto
  have wf: "b_length b' \<le> b_max b'" "b_max b' < 2 ^ 31" using sp(1) by (simp_all add: buf_wf_def)
  have "take k (b_data b') = take k (buf_bytes b')" using l(1) assms(5) by (simp add: buf_bytes_def)
  also have "\<dots> = take k (buf_bytes b)" using l(2) assms(5,6) length_buf_bytes [OF assms(1)] by simp
  finally have "take k (b_data b') = take k (buf_bytes b)" .
  then have "take len (patch (b_data b') k xs) = take k (buf_bytes b) @ xs"
    using take_patch_end [of k xs "b_data b'"] assms(5) wf l(1) by simp
  then show ?thesis using g r l(1) wf assms(5) by (simp add: buf_wf_def buf_bytes_def)
qed

lemma save_rest_spec:
  assumes "quic_wf s" and "unlimited mem" and "length data \<le> LIMIT_BEFORE_EXPANSION" and "untouched \<Longrightarrow> fragment s = data"
  shows "\<exists>s'. save_rest mem junk untouched data s = (1, s') \<and> same_but_buf s s' \<and> quic_wf s' \<and> fragment s' = data"
proof (cases "data = []")
  case True
  show ?thesis
  proof (cases "q_buf (qw s)")
    case None
    then show ?thesis using True assms(1)
      by (auto simp: save_rest_def same_but_buf_def fragment_def intro!: exI [of _ "q_buf (qw s)"])
  next
    case (Some b)
    then show ?thesis using True assms(1) by (auto simp: save_rest_def same_but_buf_def quic_wf_def fragment_def buf_bytes_def buf_wf_def)
  qed
next
  case False
  show ?thesis
  proof (cases "q_buf (qw s) \<noteq> None \<and> untouched")
    case True
    then show ?thesis using False assms(1,4) by (auto simp: save_rest_def same_but_buf_def intro!: exI [of _ "q_buf (qw s)"])
  next
    case nt: False
    define b where "b = (case q_buf (qw s) of None \<Rightarrow> BUF_MEM_new | Some b \<Rightarrow> b)"
    have "buf_wf b" using assms(1) by (auto simp: b_def quic_wf_def split: option.split)
    from grow_then_store [OF this, where len = "length data" and mem = mem and k = 0 and xs = data and junk = junk] False assms(2,3)
    obtain b' where g: "BUF_MEM_grow mem junk b (length data) = (length data, b')" "buf_wf (b'\<lparr>b_data := patch (b_data b') 0 data\<rparr>)"
      "buf_bytes (b'\<lparr>b_data := patch (b_data b') 0 data\<rparr>) = data" by (auto simp: unlimited_def)
    have "save_rest mem junk untouched data s = (1, s\<lparr>c_world := (qw s)\<lparr>q_buf := Some (b'\<lparr>b_data := patch (b_data b') 0 data\<rparr>)\<rparr>\<rparr>)"
      using False nt g(1) assms(2) unfolding unlimited_def by (auto simp: save_rest_def b_def)
    then show ?thesis using g(2,3) by (auto simp: same_but_buf_def quic_wf_def fragment_def)
  qed
qed


text \<open>
  The effect of providing data, when nothing fails: the complete messages of the fragment and the data
  are queued, and the rest is the new fragment.
\<close>

definition provided :: "OSSL_ENCRYPTION_LEVEL \<Rightarrow> byte list \<Rightarrow> QSSL \<Rightarrow> QSSL \<Rightarrow> bool" where
  "provided level stream s s' \<longleftrightarrow>
     q_input_data (qw s') = q_input_data (qw s) @ queued level (fst (quic_split stream)) \<and> fragment s' = snd (quic_split stream)
     \<and> q_read_level (qw s') = q_read_level (qw s) \<and> c_quic_method s' = c_quic_method s \<and> quic_wf s'
     \<and> q_init_buf (qw s') = q_init_buf (qw s)"

lemma split_rest_shorter: "length (snd (quic_split data)) \<le> length data"
proof (induction data rule: quic_split.induct)
  case (1 data)
  then show ?case
    by (cases "length data > 4 \<and> n2l3 (drop 1 data) + 4 \<le> length data") (auto simp: quic_split_more quic_split_stop)
qed

lemma split_rest_same: "length (snd (quic_split data)) = length data \<Longrightarrow> snd (quic_split data) = data"
proof (cases "length data > 4 \<and> n2l3 (drop 1 data) + 4 \<le> length data")
  case True
  assume "length (snd (quic_split data)) = length data"
  moreover have "length (snd (quic_split data)) < length data"
    using True split_rest_shorter [of "drop (n2l3 (drop 1 data) + 4) data"] by (auto simp: quic_split_more)
  ultimately show ?thesis by simp
qed (simp add: quic_split_stop)

lemma split_and_save_spec:
  assumes "quic_wf s" and "unlimited mem" and "length data \<le> LIMIT_BEFORE_EXPANSION" and "in_buf \<Longrightarrow> fragment s = data"
  shows "\<exists>s'. split_and_save mem junk level in_buf data s = (1, s') \<and> provided level data s s'
    \<and> q_latest_level_received (qw s') = q_latest_level_received (qw s)"
proof -
  let ?r = "snd (quic_split data)"
  let ?s = "s\<lparr>c_world := (qw s)\<lparr>q_input_data := q_input_data (qw s) @ queued level (fst (quic_split data))\<rparr>\<rparr>"
  have "quic_wf ?s" "fragment ?s = fragment s" using assms(1) by (simp_all add: quic_wf_def fragment_def)
  moreover have "length ?r \<le> LIMIT_BEFORE_EXPANSION" using assms(3) split_rest_shorter [of data] by simp
  moreover have "fragment ?s = ?r" if "in_buf \<and> length ?r = length data"
    using that assms(4) split_rest_same [of data] by (simp add: fragment_def)
  ultimately obtain s' where s': "save_rest mem junk (in_buf \<and> length ?r = length data) ?r ?s = (1, s')" "same_but_buf ?s s'" "quic_wf s'" "fragment s' = ?r"
    using save_rest_spec [of ?s mem ?r "in_buf \<and> length ?r = length data" junk] assms(2) by blast
  have "split_and_save mem junk level in_buf data s = (1, s')"
    using s'(1) by (simp add: split_and_save_def provide_loop_split [OF assms(2)])
  then show ?thesis using s'(2-4) by (auto simp: provided_def same_but_buf_def)
qed

definition may_provide :: "QSSL \<Rightarrow> OSSL_ENCRYPTION_LEVEL \<Rightarrow> bool" where
  "may_provide s level \<longleftrightarrow> SSL_is_quic s \<and> \<not> level_too_low s level \<and> (fragment s \<noteq> [] \<longrightarrow> level = q_latest_level_received (qw s))"

lemma provide_spec:
  assumes "quic_wf s" and "unlimited mem" and "may_provide s level" and "data \<noteq> []"
    and "length (fragment s @ data) \<le> LIMIT_BEFORE_EXPANSION"
  shows "\<exists>s'. SSL_provide_quic_data mem junk s level data = (1, s') \<and> provided level (fragment s @ data) s s'
    \<and> q_latest_level_received (qw s') = level"
proof -
  let ?s = "s\<lparr>c_world := (qw s)\<lparr>q_latest_level_received := level\<rparr>\<rparr>"
  have mp: "SSL_is_quic s" "\<not> level_too_low s level" "fragment s \<noteq> [] \<longrightarrow> level = q_latest_level_received (qw s)"
    using assms(3) by (simp_all add: may_provide_def)
  show ?thesis
  proof (cases "fragment s = []")
    case True
    have wf: "quic_wf ?s" using assms(1) by (simp add: quic_wf_def)
    have bl: "q_buf (qw s) = Some b \<Longrightarrow> b_length b = 0" for b
      using True assms(1) length_buf_bytes [of b] by (simp add: fragment_def quic_wf_def)
    obtain s' where s': "split_and_save mem junk level False data ?s = (1, s')" "provided level data ?s s'" "q_latest_level_received (qw s') = level"
      using split_and_save_spec [OF wf assms(2), where data = data and in_buf = False and junk = junk and level = level] assms(5) by auto
    have "SSL_provide_quic_data mem junk s level data = split_and_save mem junk level False data ?s"
      using mp True assms(4) bl by (cases "q_buf (qw s)") (simp_all add: SSL_provide_quic_data_def Let_def)
    then show ?thesis using s' True by (simp add: provided_def)
  next
    case False
    then obtain b where b: "q_buf (qw s) = Some b" "buf_wf b" "buf_bytes b \<noteq> []" using assms(1)
      by (auto simp: fragment_def quic_wf_def split: option.splits)
    have fl: "fragment s = buf_bytes b" "length (buf_bytes b) = b_length b" using b length_buf_bytes by (auto simp: fragment_def)
    obtain b' where g: "BUF_MEM_grow mem junk b (b_length b + length data) = (b_length b + length data, b')"
      "buf_wf (b'\<lparr>b_data := patch (b_data b') (b_length b) data\<rparr>)"
      "buf_bytes (b'\<lparr>b_data := patch (b_data b') (b_length b) data\<rparr>) = buf_bytes b @ data" "b_length b' = b_length b + length data"
      using grow_then_store [OF b(2), where len = "b_length b + length data" and mem = mem and k = "b_length b" and xs = data and junk = junk]
        assms(2,4,5) fl by (auto simp: unlimited_def)
    let ?t = "?s\<lparr>c_world := (qw ?s)\<lparr>q_buf := Some (b'\<lparr>b_data := patch (b_data b') (b_length b) data\<rparr>)\<rparr>\<rparr>"
    have wf: "quic_wf ?t" and ft: "fragment ?t = buf_bytes b @ data" using g by (simp_all add: quic_wf_def fragment_def)
    obtain s' where s': "split_and_save mem junk level True (buf_bytes b @ data) ?t = (1, s')" "provided level (buf_bytes b @ data) ?t s'"
      "q_latest_level_received (qw s') = level"
      using split_and_save_spec [OF wf assms(2), where data = "buf_bytes b @ data" and in_buf = True and junk = junk and level = level] assms(5) ft fl by auto
    have "SSL_provide_quic_data mem junk s level data = split_and_save mem junk level True (buf_bytes b @ data) ?t"
      using mp False b fl g assms(4) by (simp add: SSL_provide_quic_data_def Let_def) (simp add: buf_bytes_def)
    then show ?thesis using s' fl(1) by (simp add: provided_def)
  qed
qed


section \<open>Data in pieces\<close>

fun provide_chunks :: "(nat \<Rightarrow> bool) \<Rightarrow> (nat \<Rightarrow> byte) \<Rightarrow> OSSL_ENCRYPTION_LEVEL \<Rightarrow> QSSL \<Rightarrow> byte list list \<Rightarrow> int list \<times> QSSL" where
  "provide_chunks mem junk level s [] = ([], s)"
| "provide_chunks mem junk level s (c # cs) =
     (case SSL_provide_quic_data mem junk s level c of
        (r, s) \<Rightarrow> (case provide_chunks mem junk level s cs of (rs, s) \<Rightarrow> (r # rs, s)))"

text \<open>What is left after splitting contains no complete message.\<close>

definition settled :: "QSSL \<Rightarrow> bool" where
  "settled s \<longleftrightarrow> quic_split (fragment s) = ([], fragment s)"

lemma split_rest_settled: "quic_split (snd (quic_split data)) = ([], snd (quic_split data))"
proof (induction data rule: quic_split.induct)
  case (1 data)
  then show ?case
    by (cases "length data > 4 \<and> n2l3 (drop 1 data) + 4 \<le> length data") (simp_all add: quic_split_more quic_split_stop)
qed

lemma provided_may_provide:
  assumes "may_provide s level" and "provided level stream s s'" and "q_latest_level_received (qw s') = level"
  shows "may_provide s' level"
proof -
  have "qd_level x = level" if "x \<in> set (queued level (fst (quic_split stream)))" for x using that by (auto simp: queued_def)
  then show ?thesis
    using assms last_in_set [of "queued level (fst (quic_split stream))"]
    by (cases "queued level (fst (quic_split stream)) = []")
       (auto simp: may_provide_def provided_def level_too_low_def SSL_is_quic_def SSL_CONNECTION_IS_QUIC_def)
qed

lemma provide_chunks_spec:
  assumes "quic_wf s" and "unlimited mem" and "may_provide s level" and "settled s"
    and "length (fragment s @ concat cs) \<le> LIMIT_BEFORE_EXPANSION"
  shows "\<exists>s'. provide_chunks mem junk level s cs = (replicate (length cs) 1, s') \<and> provided level (fragment s @ concat cs) s s'"
  using assms
proof (induction cs arbitrary: s)
  case Nil
  then show ?case by (simp add: provided_def settled_def)
next
  case (Cons c cs)
  show ?case
  proof (cases "c = []")
    case True
    then have "SSL_provide_quic_data mem junk s level c = (1, s)" using Cons.prems(3) by (simp add: SSL_provide_quic_data_def may_provide_def)
    moreover obtain s' where "provide_chunks mem junk level s cs = (replicate (length cs) 1, s')" "provided level (fragment s @ concat cs) s s'"
      using Cons.IH [OF Cons.prems(1-4)] Cons.prems(5) True by auto
    ultimately show ?thesis using True by simp
  next
    case False
    have "length (fragment s @ c) \<le> LIMIT_BEFORE_EXPANSION" using Cons.prems(5) by simp
    from provide_spec [OF Cons.prems(1-3) False this, of junk] obtain s1 where
      s1: "SSL_provide_quic_data mem junk s level c = (1, s1)" "provided level (fragment s @ c) s s1" "q_latest_level_received (qw s1) = level" by blast
    have f: "fragment s1 = snd (quic_split (fragment s @ c))" "quic_wf s1" using s1(2) by (simp_all add: provided_def)
    have "settled s1" using f(1) split_rest_settled by (simp add: settled_def)
    moreover have "length (fragment s1 @ concat cs) \<le> LIMIT_BEFORE_EXPANSION"
      using Cons.prems(5) split_rest_shorter [of "fragment s @ c"] f(1) by simp
    ultimately obtain s2 where s2: "provide_chunks mem junk level s1 cs = (replicate (length cs) 1, s2)" "provided level (fragment s1 @ concat cs) s1 s2"
      using Cons.IH [OF f(2) Cons.prems(2) provided_may_provide [OF Cons.prems(3) s1(2,3)]] by blast
    have "provided level (fragment s @ concat (c # cs)) s s2"
      using s1(2) s2(2) f(1) quic_split_append [of "fragment s @ c" "concat cs"] by (simp add: provided_def)
    then show ?thesis using s1(1) s2(1) by simp
  qed
qed

section \<open>Reading messages\<close>

lemma grow_clean_room:
  assumes "buf_wf b" and "unlimited mem" and "len \<le> LIMIT_BEFORE_EXPANSION"
  shows "\<exists>b'. BUF_MEM_grow_clean mem junk b len = (len, b') \<and> len \<le> b_max b' \<and> b_max b' < 2 ^ 31"
  using assms expansion_bound [of len] expansion_covers [of len]
  unfolding unlimited_def by (auto simp: BUF_MEM_grow_clean_def buf_wf_def Let_def)

lemma hs_encode_nth: "hs_encode m ! 0 = fst m"
  by (simp add: hs_encode_def)

lemma quic_get_message_spec:
  assumes q: "q_input_data (qw s) = \<lparr>qd_level = q_read_level (qw s), qd_bytes = hs_encode m\<rparr> # rest"
    and l: "length (snd m) < 2 ^ 24" and wf: "buf_wf (q_init_buf (qw s))" and mem: "unlimited mem"
  shows "\<exists>s'. quic_get_message mem junk s = (Some (sint (fst m)), s') \<and> q_input_data (qw s') = rest
    \<and> c_init_num s' = length (snd m) \<and> s3_message_size (c_s3 s') = length (snd m)
    \<and> buf_bytes (q_init_buf (qw s')) = hs_encode m \<and> buf_wf (q_init_buf (qw s')) \<and> q_read_level (qw s') = q_read_level (qw s)
    \<and> q_message_type (qw s') = sint (fst m)"
proof -
  have lim: "length (hs_encode m) \<le> LIMIT_BEFORE_EXPANSION" using l by (simp add: LIMIT_BEFORE_EXPANSION_def)
  obtain b where b: "BUF_MEM_grow_clean mem junk (q_init_buf (qw s)) (length (hs_encode m)) = (length (hs_encode m), b)"
    "length (hs_encode m) \<le> b_max b" "b_max b < 2 ^ 31" using grow_clean_room [OF wf mem lim] by blast
  obtain tail where d: "patch (b_data b) 0 (hs_encode m) = hs_encode m @ tail" by (simp add: patch_def)
  then have len: "length (hs_encode m @ tail) = b_max b" using b(2) length_patch [of 0 "hs_encode m" "b_data b"] by simp
  have "n2l3 (drop 1 (hs_encode m @ tail)) = length (snd m)" by (rule n2l3_encode [OF l])
  moreover have "(hs_encode m @ tail) ! 0 = fst m" by (simp add: hs_encode_def)
  ultimately show ?thesis using q b len d by (auto simp: quic_get_message_def Let_def buf_bytes_def buf_wf_def)
qed

text \<open>A message of type 255 is reported as \<open>SSL3_MT_DUMMY\<close>, the value for a message that is never sent.\<close>

lemma message_type_255_is_dummy:
  assumes "q_input_data (qw s) = \<lparr>qd_level = q_read_level (qw s), qd_bytes = hs_encode (255, body)\<rparr> # rest"
    and "length body < 2 ^ 24" and "buf_wf (q_init_buf (qw s))" and "unlimited mem"
  shows "fst (quic_get_message mem junk s) = Some SSL3_MT_DUMMY"
  using quic_get_message_spec [of s "(255, body)" rest mem junk] assms by auto

text \<open>Reading \<open>n\<close> messages, each with its type and its body.\<close>

fun read_messages :: "(nat \<Rightarrow> bool) \<Rightarrow> (nat \<Rightarrow> byte) \<Rightarrow> nat \<Rightarrow> QSSL \<Rightarrow> (int option \<times> byte list) list \<times> QSSL" where
  "read_messages mem junk 0 s = ([], s)"
| "read_messages mem junk (Suc n) s =
     (case quic_get_message mem junk s of
        (mt, s) \<Rightarrow>
          (case read_messages mem junk n s of
             (ms, s') \<Rightarrow> ((mt, take (c_init_num s) (drop 4 (buf_bytes (q_init_buf (qw s))))) # ms, s')))"

lemma read_messages_spec:
  assumes "q_input_data (qw s) = queued (q_read_level (qw s)) (map hs_encode ms) @ rest"
    and "\<And>m. m \<in> set ms \<Longrightarrow> length (snd m) < 2 ^ 24" and "buf_wf (q_init_buf (qw s))" and "unlimited mem"
  shows "fst (read_messages mem junk (length ms) s) = map (\<lambda>m. (Some (sint (fst m)), snd m)) ms
    \<and> q_input_data (qw (snd (read_messages mem junk (length ms) s))) = rest"
  using assms
proof (induction ms arbitrary: s)
  case (Cons m ms)
  from Cons.prems obtain s1 where s1: "quic_get_message mem junk s = (Some (sint (fst m)), s1)"
    "q_input_data (qw s1) = queued (q_read_level (qw s)) (map hs_encode ms) @ rest" "c_init_num s1 = length (snd m)"
    "buf_bytes (q_init_buf (qw s1)) = hs_encode m" "buf_wf (q_init_buf (qw s1))" "q_read_level (qw s1) = q_read_level (qw s)"
    using quic_get_message_spec [of s m "queued (q_read_level (qw s)) (map hs_encode ms) @ rest" mem junk] by auto
  have "drop 4 (hs_encode m) = snd m" by (simp add: hs_encode_def)
  then show ?case using s1 Cons.IH [of s1] Cons.prems(2,4) by (auto split: prod.splits)
qed simp


section \<open>A fresh connection\<close>

definition fresh_quic :: quic where
  "fresh_quic = \<lparr>q_read_level = ssl_encryption_initial, q_write_level = ssl_encryption_initial,
     q_latest_level_received = ssl_encryption_initial, q_buf = None, q_input_data = [], q_transport_version = 0x39,
     q_transport_params = [], q_peer_transport_params_draft = [], q_peer_transport_params = [], q_init_buf = BUF_MEM_new,
     q_message_type = 0, q_session_max_early_data = Some 0, q_psksession = None, q_psk_use_session_cb = False,
     q_early_secret = [], q_handshake_secret = [], q_master_secret = [], q_client_early_traffic_secret = [],
     q_client_hand_traffic_secret = [], q_server_hand_traffic_secret = [], q_client_app_traffic_secret = [],
     q_server_app_traffic_secret = [], q_client_finished_secret = [], q_server_finished_secret = [], q_resumption_master_secret = []\<rparr>"

definition fresh_qssl :: QSSL where
  "fresh_qssl = (blank_ssl fresh_quic)\<lparr>c_quic_method := True\<rparr>"

lemma fresh_qw: "qw fresh_qssl = fresh_quic" "SSL_is_quic fresh_qssl" "c_server fresh_qssl = False"
  by (simp_all add: fresh_qssl_def blank_ssl_def SSL_is_quic_def SSL_CONNECTION_IS_QUIC_def)

lemma fresh_facts:
  "quic_wf fresh_qssl" "fragment fresh_qssl = []" "q_input_data (qw fresh_qssl) = []" "may_provide fresh_qssl ssl_encryption_initial"
  "buf_wf (q_init_buf (qw fresh_qssl))" "q_read_level (qw fresh_qssl) = ssl_encryption_initial"
  by (simp_all add: fresh_qw quic_wf_def fragment_def may_provide_def level_too_low_def) (simp_all add: fresh_quic_def)

section \<open>Properties\<close>

text \<open>
  C13: whatever pieces the application cuts the handshake stream of the current read level into, every call succeeds and
  the state machine then reads exactly the messages that were sent, in order, each with its type (the first byte,
  as a signed number) and its body, and nothing is left over. The stream is empty or ends with a message that has a body, nothing
  was queued or left over before, allocations succeed, the messages are shorter than 2^24 bytes and the stream
  is not longer than the limit of a buffer.
\<close>

theorem quic_stream_roundtrip:
  assumes "quic_wf s" and "unlimited mem" and "may_provide s (q_read_level (qw s))" and "fragment s = []" and "q_input_data (qw s) = []"
    and "buf_wf (q_init_buf (qw s))" and "\<And>m. m \<in> set ms \<Longrightarrow> length (snd m) < 2 ^ 24" and "ms = [] \<or> snd (last ms) \<noteq> []"
    and "concat chunks = concat (map hs_encode ms)" and "length (concat chunks) \<le> LIMIT_BEFORE_EXPANSION"
  shows "\<exists>s'. provide_chunks mem junk (q_read_level (qw s)) s chunks = (replicate (length chunks) 1, s') \<and> fragment s' = []
    \<and> fst (read_messages mem junk (length ms) s') = map (\<lambda>m. (Some (sint (fst m)), snd m)) ms
    \<and> q_input_data (qw (snd (read_messages mem junk (length ms) s'))) = []"
proof -
  have "settled s" using assms(4) by (simp add: settled_def quic_split_stop)
  then obtain s' where s': "provide_chunks mem junk (q_read_level (qw s)) s chunks = (replicate (length chunks) 1, s')"
    "provided (q_read_level (qw s)) (concat chunks) s s'"
    using provide_chunks_spec [OF assms(1-3), of chunks junk] assms(4,10) by auto
  have sp: "quic_split (concat chunks) = (map hs_encode ms, [])" using quic_split_encoded [OF assms(7,8)] assms(9) by simp
  have "q_input_data (qw s') = queued (q_read_level (qw s')) (map hs_encode ms) @ []" "fragment s' = []" "buf_wf (q_init_buf (qw s'))"
    using s'(2) sp assms(5,6) by (simp_all add: provided_def)
  then show ?thesis using read_messages_spec [of s' ms "[]" mem junk] assms(2,7) s'(1) by blast
qed

theorem quic_stream_roundtrip_witness:
  "\<exists>s'. provide_chunks (\<lambda>_. True) (\<lambda>_. 0) ssl_encryption_initial fresh_qssl [[2, 0], [0, 1, 7, 8, 0], [0, 0, 11, 0], [0, 1, 9]] = ([1, 1, 1, 1], s')
     \<and> fst (read_messages (\<lambda>_. True) (\<lambda>_. 0) 3 s') = [(Some 2, [7]), (Some 8, []), (Some 11, [9])]"
proof -
  let ?ms = "[(2, [7]), (8, []), (11, [9])] :: (byte \<times> byte list) list"
  let ?cs = "[[2, 0], [0, 1, 7, 8, 0], [0, 0, 11, 0], [0, 1, 9]] :: byte list list"
  have e: "concat ?cs = concat (map hs_encode ?ms)" by (simp add: hs_encode_def be_bytes_numeral)
  have p: "may_provide fresh_qssl (q_read_level (qw fresh_qssl))" using fresh_facts(4,6) by simp
  have "unlimited (\<lambda>_. True)" by (simp add: unlimited_def)
  note rt = quic_stream_roundtrip [OF fresh_facts(1) this p fresh_facts(2,3,5) _ _ e, of "\<lambda>_. 0"]
  have "\<And>m. m \<in> set ?ms \<Longrightarrow> length (snd m) < 2 ^ 24" "?ms = [] \<or> snd (last ?ms) \<noteq> []" "length (concat ?cs) \<le> LIMIT_BEFORE_EXPANSION"
    by (auto simp: LIMIT_BEFORE_EXPANSION_def)
  from rt [OF this] show ?thesis
    by (simp add: fresh_facts(6) numeral_3_eq_3 del: provide_chunks.simps read_messages.simps) blast
qed


section \<open>The queue\<close>

text \<open>
  The queue holds complete messages, at levels that do not decrease and do not exceed the latest
  level received.
\<close>

definition complete :: "byte list \<Rightarrow> bool" where
  "complete m \<longleftrightarrow> 4 \<le> length m \<and> n2l3 (drop 1 m) + 4 = length m"

definition queue_ok :: "QSSL \<Rightarrow> bool" where
  "queue_ok s \<longleftrightarrow> sorted (map qd_level (q_input_data (qw s)))
     \<and> (\<forall>qd \<in> set (q_input_data (qw s)). qd_level qd \<le> q_latest_level_received (qw s) \<and> complete (qd_bytes qd))"

lemma n2l3_take: "3 \<le> n \<Longrightarrow> 3 \<le> length c \<Longrightarrow> n2l3 (take n c) = n2l3 c"
  by (simp add: n2l3_value min_def)

lemma complete_take:
  assumes "n2l3 (drop 1 data) + 4 \<le> length data"
  shows "complete (take (n2l3 (drop 1 data) + 4) data)"
proof -
  have "n2l3 (drop 1 (take (n2l3 (drop 1 data) + 4) data)) = n2l3 (drop 1 data)"
    unfolding drop_take by (rule n2l3_take) (use assms in simp_all)
  then show ?thesis using assms by (simp add: complete_def)
qed

lemma provide_loop_queue:
  "provide_loop mem level data q = (ok, rest, q') \<Longrightarrow> \<exists>ms. q' = q @ queued level ms \<and> (\<forall>m \<in> set ms. complete m) \<and> concat ms @ rest = data"
proof (induction mem level data q arbitrary: ok rest q' rule: provide_loop.induct)
  case (1 mem level data q)
  let ?l = "n2l3 (drop 1 data) + 4"
  show ?case
  proof (cases "length data > 4 \<and> ?l \<le> length data \<and> mem (24 + ?l)")
    case True
    then have r: "provide_loop mem level (drop ?l data) (q @ [\<lparr>qd_level = level, qd_bytes = take ?l data\<rparr>]) = (ok, rest, q')"
      using 1(2) by (simp add: provide_loop.simps [of mem level data q] Let_def)
    obtain ms where "q' = (q @ [\<lparr>qd_level = level, qd_bytes = take ?l data\<rparr>]) @ queued level ms" "\<forall>m \<in> set ms. complete m" "concat ms @ rest = drop ?l data"
      using 1(1) [OF _ refl _ _ r] True by fastforce
    then show ?thesis using complete_take [of data] True append_take_drop_id [of ?l data] by (intro exI [of _ "take ?l data # ms"]) simp
  next
    case False
    then have "q' = q \<and> rest = data"
      using 1(2) by (subst (asm) provide_loop.simps) (auto simp: Let_def split: if_splits)
    then show ?thesis by (intro exI [of _ "[]"]) simp
  qed
qed

lemma save_rest_queue:
  assumes "save_rest mem junk u data s = (r, s')"
  shows "q_input_data (qw s') = q_input_data (qw s) \<and> q_latest_level_received (qw s') = q_latest_level_received (qw s)
    \<and> q_read_level (qw s') = q_read_level (qw s)"
  using assms by (auto simp: save_rest_def split: if_splits option.splits prod.splits)

lemma split_and_save_queue:
  assumes "split_and_save mem junk level in_buf data s = (r, s')"
  shows "\<exists>ms. q_input_data (qw s') = q_input_data (qw s) @ queued level ms \<and> (\<forall>m \<in> set ms. complete m)
    \<and> q_latest_level_received (qw s') = q_latest_level_received (qw s)"
proof -
  obtain ok rest q where l: "provide_loop mem level data (q_input_data (qw s)) = (ok, rest, q)" by (metis prod_cases3)
  show ?thesis
    using provide_loop_queue [OF l] assms save_rest_queue [of mem junk _ rest "s\<lparr>c_world := (qw s)\<lparr>q_input_data := q\<rparr>\<rparr>" r s']
    by (auto simp: split_and_save_def l Let_def split: if_splits)
qed

lemma provide_queue:
  assumes "SSL_provide_quic_data mem junk s level data = (r, s')"
  shows "s' = s \<or> q_latest_level_received (qw s) \<le> level \<and> q_latest_level_received (qw s') = level
    \<and> (\<exists>ms. q_input_data (qw s') = q_input_data (qw s) @ queued level ms \<and> (\<forall>m \<in> set ms. complete m))"
proof (cases "\<not> SSL_is_quic s \<or> level_too_low s level \<or> data = []
    \<or> (case q_buf (qw s) of None \<Rightarrow> 0 | Some b \<Rightarrow> b_length b) \<noteq> 0 \<and> level \<noteq> q_latest_level_received (qw s)")
  case True
  then show ?thesis using assms by (auto simp: SSL_provide_quic_data_def Let_def split: if_splits)
next
  case False
  let ?s = "s\<lparr>c_world := (qw s)\<lparr>q_latest_level_received := level\<rparr>\<rparr>"
  have "q_latest_level_received (qw s) \<le> level" using False by (simp add: level_too_low_def not_less)
  moreover have "q_latest_level_received (qw s') = level
      \<and> (\<exists>ms. q_input_data (qw s') = q_input_data (qw s) @ queued level ms \<and> (\<forall>m \<in> set ms. complete m))"
  proof (cases "\<exists>b. q_buf (qw s) = Some b \<and> b_length b \<noteq> 0")
    case True
    then obtain b where b: "q_buf (qw s) = Some b" "b_length b \<noteq> 0" by blast
    obtain n b' where g: "BUF_MEM_grow mem junk b (b_length b + length data) = (n, b')" by fastforce
    let ?b = "b'\<lparr>b_data := patch (b_data b') (b_length b) data\<rparr>"
    have "n = 0 \<and> s' = ?s\<lparr>c_world := (qw ?s)\<lparr>q_buf := Some b'\<rparr>\<rparr>
      \<or> split_and_save mem junk level True (take (b_length ?b) (b_data ?b)) (?s\<lparr>c_world := (qw ?s)\<lparr>q_buf := Some ?b\<rparr>\<rparr>) = (r, s')"
      using assms False b g by (auto simp: SSL_provide_quic_data_def Let_def split: if_splits)
    then show ?thesis
    proof
      assume "split_and_save mem junk level True (take (b_length ?b) (b_data ?b)) (?s\<lparr>c_world := (qw ?s)\<lparr>q_buf := Some ?b\<rparr>\<rparr>) = (r, s')"
      from split_and_save_queue [OF this] show ?thesis by auto
    qed (auto intro: exI [of _ "[]"])
  next
    case nb: False
    then have "split_and_save mem junk level False data ?s = (r, s')"
      using assms False by (cases "q_buf (qw s)") (auto simp: SSL_provide_quic_data_def Let_def split: if_splits)
    from split_and_save_queue [OF this] show ?thesis by auto
  qed
  ultimately show ?thesis by blast
qed

lemma provide_queue_ok:
  assumes "queue_ok s"
  shows "queue_ok (snd (SSL_provide_quic_data mem junk s level data))"
proof -
  obtain r s' where p: "SSL_provide_quic_data mem junk s level data = (r, s')" by fastforce
  consider "s' = s" | ms where "q_latest_level_received (qw s) \<le> level" "q_latest_level_received (qw s') = level"
      "q_input_data (qw s') = q_input_data (qw s) @ queued level ms" "\<forall>m \<in> set ms. complete m"
    using provide_queue [OF p] by blast
  then show ?thesis
  proof cases
    case 2
    have "sorted (map qd_level (queued level ms))" by (induction ms) (auto simp: queued_def)
    moreover have "\<forall>x \<in> set (q_input_data (qw s)). qd_level x \<le> level" using assms 2(1) by (fastforce simp: queue_ok_def)
    ultimately show ?thesis using assms 2 p by (auto simp: queue_ok_def sorted_append queued_def)
  qed (use assms p in simp)
qed

lemma get_message_queue:
  "q_input_data (qw (snd (quic_get_message mem junk s))) \<in> {q_input_data (qw s), tl (q_input_data (qw s))}
    \<and> q_latest_level_received (qw (snd (quic_get_message mem junk s))) = q_latest_level_received (qw s)"
  by (auto simp: quic_get_message_def Let_def ossl_statem_fatal_def ossl_statem_send_fatal_def ossl_statem_set_in_init_def
      split: list.splits prod.splits)

lemma queue_ok_tl:
  assumes "queue_ok s" and "q_input_data (qw s') \<in> {q_input_data (qw s), tl (q_input_data (qw s))}"
    and "q_latest_level_received (qw s') = q_latest_level_received (qw s)"
  shows "queue_ok s'"
  using assms by (cases "q_input_data (qw s)") (auto simp: queue_ok_def)


text \<open>
  The life of a connection: cleared, given data with any allocator, read by the state machine, and in
  between anything that leaves the queue and the latest level alone.
\<close>

inductive quic_life :: "QSSL \<Rightarrow> bool" where
  life_clear: "quic_life (snd (SSL_clear_quic s))"
| life_provide: "quic_life s \<Longrightarrow> quic_life (snd (SSL_provide_quic_data mem junk s level data))"
| life_read: "quic_life s \<Longrightarrow> quic_life (snd (quic_get_message mem junk s))"
| life_other: "quic_life s \<Longrightarrow> q_input_data (qw s') = q_input_data (qw s) \<Longrightarrow>
    q_latest_level_received (qw s') = q_latest_level_received (qw s) \<Longrightarrow> quic_life s'"

lemma quic_life_queue_ok: "quic_life s \<Longrightarrow> queue_ok s"
proof (induction rule: quic_life.induct)
  case (life_clear s)
  then show ?case by (simp add: SSL_clear_quic_def queue_ok_def)
next
  case (life_provide s mem junk level data)
  then show ?case by (simp add: provide_queue_ok)
next
  case (life_read s mem junk)
  then show ?case using queue_ok_tl get_message_queue by blast
next
  case (life_other s s')
  then show ?case by (simp add: queue_ok_def)
qed

lemma get_message_level:
  "quic_get_message mem junk s = (Some mt, s') \<Longrightarrow>
     \<exists>qd rest. q_input_data (qw s) = qd # rest \<and> qd_level qd = q_read_level (qw s) \<and> q_input_data (qw s') = rest"
  by (auto simp: quic_get_message_def Let_def split: list.splits if_splits prod.splits)

text \<open>
  C15: at every point of a connection's life, made of clearing, providing data, reading messages and steps that leave
  the queue and the latest level alone, the queue holds complete messages whose levels do not
  decrease and do not exceed the latest level received; a message is handed to the state
  machine only at its own level, and data for a level below the read level or the latest level is refused without effect.
\<close>

theorem quic_levels_in_order:
  assumes "quic_life s"
  shows "sorted (map qd_level (q_input_data (qw s)))
    \<and> (\<forall>qd \<in> set (q_input_data (qw s)). qd_level qd \<le> q_latest_level_received (qw s) \<and> length (qd_bytes qd) = n2l3 (drop 1 (qd_bytes qd)) + 4)
    \<and> (quic_get_message mem junk s = (Some mt, s') \<longrightarrow> q_input_data (qw s) \<noteq> [] \<and> qd_level (hd (q_input_data (qw s))) = q_read_level (qw s))
    \<and> (level < q_read_level (qw s) \<or> level < q_latest_level_received (qw s) \<longrightarrow> SSL_provide_quic_data mem' junk' s level data = (0, s))"
proof -
  have "level < q_read_level (qw s) \<or> level < q_latest_level_received (qw s) \<longrightarrow> SSL_provide_quic_data mem' junk' s level data = (0, s)"
    by (auto simp: SSL_provide_quic_data_def level_too_low_def)
  then show ?thesis
    using quic_life_queue_ok [OF assms] get_message_level [of mem junk s mt s'] unfolding queue_ok_def complete_def by auto
qed

theorem quic_levels_in_order_witness:
  "\<exists>s. quic_life s \<and> q_input_data (qw s) = queued ssl_encryption_initial [[2, 0, 0, 1, 7]] @ queued ssl_encryption_handshake [[8, 0, 0, 1, 9]]
     \<and> sorted (map qd_level (q_input_data (qw s)))
     \<and> fst (quic_get_message (\<lambda>_. True) (\<lambda>_. 0) s) = Some 2 \<and> qd_level (hd (q_input_data (qw s))) = q_read_level (qw s)
     \<and> SSL_provide_quic_data (\<lambda>_. True) (\<lambda>_. 0) s ssl_encryption_initial [1, 0, 0, 1, 5] = (0, s)"
proof -
  let ?mem = "\<lambda>_ :: nat. True" and ?junk = "\<lambda>_ :: nat. 0 :: byte"
  have mem: "unlimited ?mem" by (simp add: unlimited_def)
  have e: "hs_encode (2, [7]) = [2, 0, 0, 1, 7]" "hs_encode (8, [9]) = [8, 0, 0, 1, 9]" by (simp_all add: hs_encode_def be_bytes_numeral)
  have sp: "quic_split [2, 0, 0, 1, 7] = ([[2, 0, 0, 1, 7]], [])" "quic_split [8, 0, 0, 1, 9] = ([[8, 0, 0, 1, 9]], [])"
    using quic_split_encoded [of "[(2, [7])]"] quic_split_encoded [of "[(8, [9])]"] e by simp_all
  have "quic_life fresh_qssl"
    by (rule life_other [OF life_clear [of fresh_qssl]]) (simp_all add: SSL_clear_quic_def fresh_facts(3), simp add: fresh_qw fresh_quic_def)
  moreover obtain s1 where s1: "SSL_provide_quic_data ?mem ?junk fresh_qssl ssl_encryption_initial [2, 0, 0, 1, 7] = (1, s1)"
    "provided ssl_encryption_initial [2, 0, 0, 1, 7] fresh_qssl s1" "q_latest_level_received (qw s1) = ssl_encryption_initial"
    using provide_spec [OF fresh_facts(1) mem fresh_facts(4), of "[2, 0, 0, 1, 7]" ?junk] by (auto simp: fresh_facts(2) LIMIT_BEFORE_EXPANSION_def)
  ultimately have "quic_life s1" using life_provide [of fresh_qssl ?mem ?junk ssl_encryption_initial "[2, 0, 0, 1, 7]"] by simp
  have q1: "q_input_data (qw s1) = queued ssl_encryption_initial [[2, 0, 0, 1, 7]]" "quic_wf s1" "fragment s1 = []" "q_read_level (qw s1) = ssl_encryption_initial"
    "c_quic_method s1" "q_init_buf (qw s1) = q_init_buf (qw fresh_qssl)"
    using s1(2) sp(1) fresh_facts(3,6) by (simp_all add: provided_def fresh_qssl_def)
  have "may_provide s1 ssl_encryption_handshake"
    using q1 s1(3) by (simp add: may_provide_def level_too_low_def SSL_is_quic_def SSL_CONNECTION_IS_QUIC_def less_OSSL_ENCRYPTION_LEVEL_def)
  then obtain s where s: "SSL_provide_quic_data ?mem ?junk s1 ssl_encryption_handshake [8, 0, 0, 1, 9] = (1, s)"
    "provided ssl_encryption_handshake [8, 0, 0, 1, 9] s1 s" "q_latest_level_received (qw s) = ssl_encryption_handshake"
    using provide_spec [OF q1(2) mem, of ssl_encryption_handshake "[8, 0, 0, 1, 9]" ?junk] q1(3) by (auto simp: LIMIT_BEFORE_EXPANSION_def)
  have life: "quic_life s" using life_provide [OF \<open>quic_life s1\<close>, of ?mem ?junk ssl_encryption_handshake "[8, 0, 0, 1, 9]"] s(1) by simp
  have q: "q_input_data (qw s) = queued ssl_encryption_initial [[2, 0, 0, 1, 7]] @ queued ssl_encryption_handshake [[8, 0, 0, 1, 9]]"
    "q_read_level (qw s) = ssl_encryption_initial" "buf_wf (q_init_buf (qw s))"
    using s(2) sp(2) q1 fresh_facts(5) by (simp_all add: provided_def)
  then obtain s' where g: "quic_get_message ?mem ?junk s = (Some 2, s')"
    using quic_get_message_spec [of s "(2, [7])" "queued ssl_encryption_handshake [[8, 0, 0, 1, 9]]" ?mem ?junk] e(1) mem by (auto simp: queued_def)
  have "ssl_encryption_initial < q_latest_level_received (qw s)" by (simp add: s(3) less_OSSL_ENCRYPTION_LEVEL_def)
  with quic_levels_in_order [OF life, of ?mem ?junk 2 s' ssl_encryption_initial ?mem ?junk "[1, 0, 0, 1, 5]"] g life q(1)
  show ?thesis by (intro exI [of _ s]) simp
qed

text \<open>
  A message with an empty body is complete after its four header bytes, but when it is the last of
  the data given it is not queued: it stays in the buffer as if it were a fragment, and data of the
  next level is then refused.
\<close>

theorem empty_message_held_back:
  assumes "quic_wf s" and "unlimited mem" and "may_provide s level" and "fragment s = []" and "level < next_level" and "data \<noteq> []"
  shows "\<exists>s'. SSL_provide_quic_data mem junk s level (hs_encode (t, [])) = (1, s') \<and> q_input_data (qw s') = q_input_data (qw s)
    \<and> fragment s' = hs_encode (t, []) \<and> SSL_provide_quic_data mem junk s' next_level data = (0, s')"
proof -
  have "quic_split (hs_encode (t, [])) = ([], hs_encode (t, []))" by (rule quic_split_stop) simp
  moreover have "length (fragment s @ hs_encode (t, [])) \<le> LIMIT_BEFORE_EXPANSION" by (simp add: assms(4) LIMIT_BEFORE_EXPANSION_def)
  moreover have "hs_encode (t, []) \<noteq> []" by (simp add: hs_encode_def)
  ultimately obtain s' where s': "SSL_provide_quic_data mem junk s level (hs_encode (t, [])) = (1, s')" "q_input_data (qw s') = q_input_data (qw s)"
    "fragment s' = hs_encode (t, [])" "q_latest_level_received (qw s') = level" "quic_wf s'"
    using provide_spec [OF assms(1-3), of "hs_encode (t, [])" junk] by (auto simp: provided_def assms(4))
  obtain b where b: "q_buf (qw s') = Some b" "buf_wf b" "buf_bytes b = hs_encode (t, [])"
    using s'(3,5) by (auto simp: fragment_def quic_wf_def hs_encode_def split: option.splits)
  have bl: "b_length b \<noteq> 0" using length_buf_bytes [OF b(2)] b(3) by simp
  have "SSL_provide_quic_data mem junk s' next_level data = (0, s')"
    using b(1) bl s'(4) assms(5,6) by (auto simp: SSL_provide_quic_data_def Let_def)
  with s' show ?thesis by blast
qed

theorem empty_message_held_back_witness:
  "\<exists>s'. SSL_provide_quic_data (\<lambda>_. True) (\<lambda>_. 0) fresh_qssl ssl_encryption_initial (hs_encode (14, [])) = (1, s')
     \<and> q_input_data (qw s') = [] \<and> SSL_provide_quic_data (\<lambda>_. True) (\<lambda>_. 0) s' ssl_encryption_handshake [2] = (0, s')"
  using empty_message_held_back [OF fresh_facts(1) _ fresh_facts(4,2), of "\<lambda>_. True" ssl_encryption_handshake "[2]" "\<lambda>_. 0" 14]
  by (auto simp: unlimited_def less_OSSL_ENCRYPTION_LEVEL_def fresh_facts(3))


text \<open>
  When the second of two messages cannot be allocated, the call fails although the first one is
  queued already, and the buffer still holds both: the next successful call queues the first
  message a second time.
\<close>

theorem failed_allocation_repeats_message:
  assumes "quic_wf s" and "may_provide s level" and "fragment s \<noteq> []" and "data \<noteq> []" and "fragment s @ data = hs_encode a @ hs_encode b"
    and "length (snd a) < 2 ^ 24" and "length (snd b) < 2 ^ 24" and "snd b \<noteq> []"
    and "\<And>n. mem n \<longleftrightarrow> n \<noteq> 28 + length (snd b)" and "length (snd a) \<noteq> length (snd b)"
    and "mem ((length (fragment s @ data) + 3) div 3 * 4)"
    and "length (fragment s @ data) < LIMIT_BEFORE_EXPANSION" and "unlimited mem'"
  shows "\<exists>s1 s2. SSL_provide_quic_data mem junk s level data = (0, s1) \<and> SSL_provide_quic_data mem' junk s1 level [x] = (1, s2)
    \<and> q_input_data (qw s2) = q_input_data (qw s) @ queued level [hs_encode a, hs_encode a, hs_encode b]"
proof -
  obtain buf where buf: "q_buf (qw s) = Some buf" "buf_wf buf" and fr: "fragment s = buf_bytes buf"
    using assms(1,3) by (auto simp: fragment_def quic_wf_def split: option.splits)
  have bl: "length (buf_bytes buf) = b_length buf" "b_length buf \<noteq> 0"
    using length_buf_bytes [OF buf(2)] fr assms(3) length_greater_0_conv [of "buf_bytes buf"] by simp_all
  have "b_length buf + length data \<le> LIMIT_BEFORE_EXPANSION" "mem ((b_length buf + length data + 3) div 3 * 4)"
    using assms(11,12) fr bl by simp_all
  then obtain buf' where g: "BUF_MEM_grow mem junk buf (b_length buf + length data) = (b_length buf + length data, buf')"
      "buf_wf (buf'\<lparr>b_data := patch (b_data buf') (b_length buf) data\<rparr>)"
      "buf_bytes (buf'\<lparr>b_data := patch (b_data buf') (b_length buf) data\<rparr>) = hs_encode a @ hs_encode b" "b_length buf' = b_length buf + length data"
    using grow_then_store [OF buf(2), where len = "b_length buf + length data" and mem = mem and k = "b_length buf" and xs = data and junk = junk]
      assms(5) fr bl by auto
  let ?b = "buf'\<lparr>b_data := patch (b_data buf') (b_length buf) data\<rparr>"
  define s0 where "s0 = s\<lparr>c_world := (qw s)\<lparr>q_latest_level_received := level, q_buf := Some ?b\<rparr>\<rparr>"
  define s1 where "s1 = s0\<lparr>c_world := (qw s0)\<lparr>q_input_data := q_input_data (qw s) @ queued level [hs_encode a]\<rparr>\<rparr>"
  have loop: "provide_loop mem level (hs_encode a @ hs_encode b) q = (False, hs_encode b, q @ queued level [hs_encode a])" for q
    using assms(6-10) n2l3_encode [of a "hs_encode b"] n2l3_encode [of b "[]"]
    by (simp add: provide_loop.simps [of _ _ "hs_encode a @ hs_encode b"] provide_loop.simps [of _ _ "hs_encode b"] Let_def)
  have mp: "SSL_is_quic s" "\<not> level_too_low s level" "level = q_latest_level_received (qw s)" using assms(2,3) unfolding may_provide_def by blast+
  have t: "take (b_length ?b) (b_data ?b) = hs_encode a @ hs_encode b" using g(3) unfolding buf_bytes_def .
  have "SSL_provide_quic_data mem junk s level data = split_and_save mem junk level True (take (b_length ?b) (b_data ?b)) s0"
    using mp buf bl g(1) assms(4) by (simp add: SSL_provide_quic_data_def s0_def Let_def)
  also have "\<dots> = (0, s1)" unfolding t by (simp add: split_and_save_def loop s1_def s0_def Let_def)
  finally have p1: "SSL_provide_quic_data mem junk s level data = (0, s1)" .
  have wf1: "quic_wf s1" and f1: "fragment s1 = hs_encode a @ hs_encode b" using g(2,3) by (simp_all add: s1_def s0_def quic_wf_def fragment_def)
  have "may_provide s1 level" using mp by (auto simp: may_provide_def s1_def s0_def level_too_low_def SSL_is_quic_def SSL_CONNECTION_IS_QUIC_def)
  moreover have "length (fragment s1 @ [x]) \<le> LIMIT_BEFORE_EXPANSION" using assms(5,12) f1 by simp
  ultimately obtain s2 where s2: "SSL_provide_quic_data mem' junk s1 level [x] = (1, s2)" "provided level (fragment s1 @ [x]) s1 s2"
    using provide_spec [OF wf1 assms(13), of level "[x]" junk] by auto
  have "quic_split (fragment s1 @ [x]) = ([hs_encode a, hs_encode b], [x])"
    using quic_split_message [of a "hs_encode b @ [x]"] quic_split_message [of b "[x]"] assms(6,7) f1 by (simp add: quic_split_stop)
  then have "q_input_data (qw s2) = q_input_data (qw s) @ queued level [hs_encode a, hs_encode a, hs_encode b]"
    using s2(2) by (simp add: provided_def s1_def)
  with p1 s2(1) show ?thesis by blast
qed


definition partial_qssl :: QSSL where
  "partial_qssl = fresh_qssl\<lparr>c_world := fresh_quic\<lparr>q_buf := Some \<lparr>b_length = 1, b_data = [2]\<rparr>\<rparr>\<rparr>"

theorem failed_allocation_repeats_message_witness:
  "\<exists>s1 s2. SSL_provide_quic_data (\<lambda>n. n \<noteq> 30) (\<lambda>_. 0) partial_qssl ssl_encryption_initial [0, 0, 1, 7, 11, 0, 0, 2, 8, 9] = (0, s1)
     \<and> SSL_provide_quic_data (\<lambda>_. True) (\<lambda>_. 0) s1 ssl_encryption_initial [8] = (1, s2)
     \<and> map qd_bytes (q_input_data (qw s2)) = [[2, 0, 0, 1, 7], [2, 0, 0, 1, 7], [11, 0, 0, 2, 8, 9]]"
proof -
  have f: "fragment partial_qssl = [2]" "quic_wf partial_qssl" "may_provide partial_qssl ssl_encryption_initial" "q_input_data (qw partial_qssl) = []"
    using fresh_qw(2) by (simp_all add: partial_qssl_def fragment_def buf_bytes_def quic_wf_def buf_wf_def may_provide_def level_too_low_def
        SSL_is_quic_def SSL_CONNECTION_IS_QUIC_def) (simp_all add: fresh_quic_def)
  have e: "hs_encode (2, [7]) = [2, 0, 0, 1, 7]" "hs_encode (11, [8, 9]) = [11, 0, 0, 2, 8, 9]"
    by (simp_all add: hs_encode_def be_bytes_numeral)
  have "\<exists>s1 s2. SSL_provide_quic_data (\<lambda>n. n \<noteq> 30) (\<lambda>_. 0) partial_qssl ssl_encryption_initial [0, 0, 1, 7, 11, 0, 0, 2, 8, 9] = (0, s1)
     \<and> SSL_provide_quic_data (\<lambda>_. True) (\<lambda>_. 0) s1 ssl_encryption_initial [8] = (1, s2)
     \<and> q_input_data (qw s2) = q_input_data (qw partial_qssl) @ queued ssl_encryption_initial [hs_encode (2, [7]), hs_encode (2, [7]), hs_encode (11, [8, 9])]"
    by (rule failed_allocation_repeats_message) (use f in \<open>simp_all add: e unlimited_def LIMIT_BEFORE_EXPANSION_def\<close>)
  then show ?thesis using f(4) e by auto
qed

end
