(* ===== verification/Quic_Keys.thy ===== *)
theory Quic_Keys
  imports Quic_Stream
begin

text \<open>
  The secrets given to the application at the two ends of a QUIC connection, and what the calls
  after the handshake leave behind.
\<close>

section \<open>Sequences of steps\<close>

lemma run_steps_append:
  "run_steps (fs @ gs) s = (case run_steps fs s of (ok, s) \<Rightarrow> if ok then run_steps gs s else (False, s))"
  by (induction fs arbitrary: s) (auto split: prod.splits)

lemma run_steps_Cons_ok: "run_steps (f # fs) s = (True, s') \<longleftrightarrow> (\<exists>s1. f s = (True, s1) \<and> run_steps fs s1 = (True, s'))"
  by (auto split: prod.splits)

lemma step_ok:
  "expand_into X secret label hash put s = (True, s') \<longleftrightarrow> (\<exists>out. x_hkdf_expand X secret label hash = Some out \<and> s' = s\<lparr>c_world := put out (qw s)\<rparr>)"
  "log_step X label get s = (True, s') \<longleftrightarrow> s' = s \<and> x_log_secret X label (get (qw s))"
  "finishedkey_step X get put s = (True, s') \<longleftrightarrow> (\<exists>out. x_derive_finishedkey X (get (qw s)) = Some out \<and> s' = s\<lparr>c_world := put out (qw s)\<rparr>)"
  by (auto simp: expand_into_def log_step_def finishedkey_step_def split: option.splits if_splits)

text \<open>The secrets of a level, by the direction they protect.\<close>

definition client_secret :: "bool \<Rightarrow> quic \<Rightarrow> byte list" where
  "client_secret hs w = (if hs then q_client_hand_traffic_secret w else q_client_app_traffic_secret w)"

definition server_secret :: "bool \<Rightarrow> quic \<Rightarrow> byte list" where
  "server_secret hs w = (if hs then q_server_hand_traffic_secret w else q_server_app_traffic_secret w)"

definition level_secret :: "bool \<Rightarrow> quic \<Rightarrow> byte list" where
  "level_secret hs w = (if hs then q_handshake_secret w else q_master_secret w)"

definition client_label :: "bool \<Rightarrow> secret_label" where
  "client_label hs = (if hs then client_handshake_traffic else client_application_traffic)"

definition server_label :: "bool \<Rightarrow> secret_label" where
  "server_label hs = (if hs then server_handshake_traffic else server_application_traffic)"

definition traffic_level :: "bool \<Rightarrow> OSSL_ENCRYPTION_LEVEL" where
  "traffic_level hs = (if hs then ssl_encryption_handshake else ssl_encryption_application)"

lemma traffic_steps_ok:
  assumes "run_steps (traffic_steps X (qw s) hash hs) s = (True, s')"
  shows "x_hkdf_expand X (level_secret hs (qw s)) (client_label hs) hash = Some (client_secret hs (qw s'))
    \<and> x_hkdf_expand X (level_secret hs (qw s)) (server_label hs) hash = Some (server_secret hs (qw s'))
    \<and> c_server s' = c_server s \<and> c_quic_method s' = c_quic_method s"
proof (cases hs)
  case True
  then show ?thesis
    using assms unfolding traffic_steps_def if_P [OF True] run_steps_Cons_ok step_ok
    by (auto simp: client_secret_def server_secret_def level_secret_def client_label_def server_label_def)
next
  case False
  then show ?thesis
    using assms unfolding traffic_steps_def if_not_P [OF False] run_steps_Cons_ok step_ok
    by (auto simp: client_secret_def server_secret_def level_secret_def client_label_def server_label_def)
qed

lemma set_secrets_ok:
  assumes "quic_set_encryption_secrets X s (traffic_level hs) = (True, s')" and "SSL_is_quic s"
  shows "\<exists>len. x_set_encryption_secrets X (traffic_level hs)
      (Some (if c_server s then client_secret hs (qw s) else server_secret hs (qw s)))
      (Some (if c_server s then server_secret hs (qw s) else client_secret hs (qw s))) len s = (True, s')"
  using assms
  by (cases hs; cases "c_server s")
     (auto simp: quic_set_encryption_secrets_def traffic_level_def client_secret_def server_secret_def Let_def split: option.splits if_splits prod.splits)

definition traffic_which :: "bool \<Rightarrow> bool \<Rightarrow> uint" where
  "traffic_which server hs =
     (if hs then SSL3_CC_HANDSHAKE else SSL3_CC_APPLICATION) OR (if server then SSL3_CHANGE_CIPHER_SERVER_WRITE else SSL3_CHANGE_CIPHER_CLIENT_READ)"

lemma change_cipher_state_ok:
  assumes "quic_change_cipher_state X s (traffic_which (c_server s) hs) = (True, s')" and "SSL_is_quic s"
  shows "\<exists>hash sec_c sec_s len s1 s2. quic_transcript_hash X s False = Some hash
    \<and> x_hkdf_expand X (level_secret hs (qw s)) (client_label hs) hash = Some sec_c
    \<and> x_hkdf_expand X (level_secret hs (qw s)) (server_label hs) hash = Some sec_s
    \<and> x_set_encryption_secrets X (traffic_level hs) (Some (if c_server s then sec_c else sec_s)) (Some (if c_server s then sec_s else sec_c)) len s1 = (True, s2)
    \<and> set_level (\<not> c_server s2) (traffic_level hs) s2 = (True, s') \<and> c_server s1 = c_server s"
proof -
  obtain hash where h: "quic_transcript_hash X s False = Some hash"
    and r: "run_steps (traffic_steps X (qw s) hash hs @ [\<lambda>s. quic_set_encryption_secrets X s (traffic_level hs), \<lambda>s. set_level (\<not> c_server s) (traffic_level hs) s]) s = (True, s')"
    using assms(1) by (cases hs; cases "c_server s"; cases "quic_transcript_hash X s False")
      (simp_all add: quic_change_cipher_state_def traffic_which_def traffic_level_def)
  then obtain s1 s2 where s1: "run_steps (traffic_steps X (qw s) hash hs) s = (True, s1)"
    and s2: "quic_set_encryption_secrets X s1 (traffic_level hs) = (True, s2)" "set_level (\<not> c_server s2) (traffic_level hs) s2 = (True, s')"
    by (auto simp: run_steps_append split: prod.splits if_splits)
  note t = traffic_steps_ok [OF s1]
  have "SSL_is_quic s1" using t assms(2) by (simp add: SSL_is_quic_def SSL_CONNECTION_IS_QUIC_def)
  from set_secrets_ok [OF s2(1) this] t obtain len where
    "x_set_encryption_secrets X (traffic_level hs) (Some (if c_server s then client_secret hs (qw s1) else server_secret hs (qw s1)))
      (Some (if c_server s then server_secret hs (qw s1) else client_secret hs (qw s1))) len s1 = (True, s2)" by auto
  with t h s2(2) show ?thesis
    by (intro exI [of _ hash] exI [of _ "client_secret hs (qw s1)"] exI [of _ "server_secret hs (qw s1)"] exI [of _ len] exI [of _ s1] exI [of _ s2]) blast
qed

section \<open>Properties\<close>

text \<open>
  C14: when a client and a server with the same secret and the same transcript install the traffic keys of a
  level, the application at each end is given the two derived secrets the other way round:
  what one end reads with, the other writes with. The client then reads, and the server
  writes, at that level. The application's callback does not turn a client into a server.
\<close>

theorem quic_secrets_mirrored:
  assumes "SSL_is_quic s" and "SSL_is_quic t" and "\<not> c_server s" and "c_server t"
    and "level_secret hs (qw s) = level_secret hs (qw t)" and "x_hkdf_expand X = x_hkdf_expand Y"
    and "quic_transcript_hash X s False = quic_transcript_hash Y t False"
    and "\<And>l r w n u. c_server (snd (x_set_encryption_secrets X l r w n u)) = c_server u"
    and "\<And>l r w n u. c_server (snd (x_set_encryption_secrets Y l r w n u)) = c_server u"
    and "quic_change_cipher_state X s (traffic_which False hs) = (True, s')"
    and "quic_change_cipher_state Y t (traffic_which True hs) = (True, t')"
  shows "\<exists>sec_c sec_s m n s1 t1. fst (x_set_encryption_secrets X (traffic_level hs) (Some sec_s) (Some sec_c) m s1)
      \<and> fst (x_set_encryption_secrets Y (traffic_level hs) (Some sec_c) (Some sec_s) n t1)
      \<and> Some (Some sec_c) = map_option (x_hkdf_expand X (level_secret hs (qw s)) (client_label hs)) (quic_transcript_hash X s False)
      \<and> Some (Some sec_s) = map_option (x_hkdf_expand X (level_secret hs (qw s)) (server_label hs)) (quic_transcript_hash X s False)
      \<and> q_read_level (qw s') = traffic_level hs \<and> q_write_level (qw t') = traffic_level hs"
proof -
  obtain h a b m s1 s2 where c: "quic_transcript_hash X s False = Some h" "x_hkdf_expand X (level_secret hs (qw s)) (client_label hs) h = Some a"
    "x_hkdf_expand X (level_secret hs (qw s)) (server_label hs) h = Some b"
    "x_set_encryption_secrets X (traffic_level hs) (Some b) (Some a) m s1 = (True, s2)"
    "set_level (\<not> c_server s2) (traffic_level hs) s2 = (True, s')" "\<not> c_server s1"
    using change_cipher_state_ok [of X s hs s'] assms(1,3,10) by auto
  obtain n t1 t2 where d: "x_set_encryption_secrets Y (traffic_level hs) (Some a) (Some b) n t1 = (True, t2)"
    "set_level (\<not> c_server t2) (traffic_level hs) t2 = (True, t')" "c_server t1"
    using change_cipher_state_ok [of Y t hs t'] assms(2,4,5,6,7,11) c by auto
  have "\<not> c_server s2" "c_server t2"
    using c(4,6) d(1,3) assms(8) [of "traffic_level hs" "Some b" "Some a" m s1] assms(9) [of "traffic_level hs" "Some a" "Some b" n t1] by simp_all
  then have "q_read_level (qw s') = traffic_level hs" "q_write_level (qw t') = traffic_level hs"
    using c(5) d(2) by (auto simp: set_level_def)
  with c d show ?thesis by (intro exI [of _ a] exI [of _ b] exI [of _ m] exI [of _ n] exI [of _ s1] exI [of _ t1]) simp
qed

text \<open>A key derivation that marks its output with the label, and a callback that accepts everything.\<close>

definition demo_ext :: quic_ext where
  "demo_ext = \<lparr>x_md_size = \<lambda>_. Some 2, x_handshake_md_size = \<lambda>_. Some 2,
     x_hkdf_expand = \<lambda>sec l h. Some ((if l = client_handshake_traffic then 1 else 2) # h),
     x_derive_finishedkey = Some, x_handshake_hash = \<lambda>_. Some [5, 6], x_early_hash = \<lambda>_ _. None, x_log_secret = \<lambda>_ _. True,
     x_set_encryption_secrets = \<lambda>_ _ _ _ s. (True, s)\<rparr>"

lemma demo_change_cipher_state:
  "fst (quic_change_cipher_state demo_ext fresh_qssl (traffic_which False True))"
  "fst (quic_change_cipher_state demo_ext (fresh_qssl\<lparr>c_server := True\<rparr>) (traffic_which True True))"
  by (simp_all add: quic_change_cipher_state_def traffic_which_def quic_transcript_hash_def demo_ext_def traffic_steps_def expand_into_def
      log_step_def finishedkey_step_def quic_set_encryption_secrets_def quic_secrets_md_def SSL_is_quic_def SSL_CONNECTION_IS_QUIC_def
      fresh_qssl_def blank_ssl_def set_level_def Let_def)

theorem quic_secrets_mirrored_witness:
  "\<exists>sec_c sec_s. Some (Some sec_c) = map_option (x_hkdf_expand demo_ext [] client_handshake_traffic) (quic_transcript_hash demo_ext fresh_qssl False)
     \<and> Some (Some sec_s) = map_option (x_hkdf_expand demo_ext [] server_handshake_traffic) (quic_transcript_hash demo_ext fresh_qssl False)
     \<and> q_read_level (qw (snd (quic_change_cipher_state demo_ext fresh_qssl (traffic_which False True)))) = ssl_encryption_handshake"
proof -
  let ?t = "fresh_qssl\<lparr>c_server := True\<rparr>"
  have q: "SSL_is_quic fresh_qssl" "SSL_is_quic ?t" "\<not> c_server fresh_qssl" "c_server ?t"
    "level_secret True (qw fresh_qssl) = []" "level_secret True (qw ?t) = []"
    "quic_transcript_hash demo_ext fresh_qssl False = quic_transcript_hash demo_ext ?t False"
    using fresh_qw by (simp_all add: SSL_is_quic_def SSL_CONNECTION_IS_QUIC_def level_secret_def quic_transcript_hash_def demo_ext_def)
      (simp_all add: fresh_quic_def)
  have k: "\<And>l r w n u. c_server (snd (x_set_encryption_secrets demo_ext l r w n u)) = c_server u" by (simp add: demo_ext_def)
  obtain s' t' where r: "quic_change_cipher_state demo_ext fresh_qssl (traffic_which False True) = (True, s')"
    "quic_change_cipher_state demo_ext ?t (traffic_which True True) = (True, t')"
    using demo_change_cipher_state by (metis prod.collapse)
  show ?thesis
    using quic_secrets_mirrored [OF q(1-4) _ refl q(7) k k r] q(5,6) r(1)
    by (auto simp: client_label_def server_label_def traffic_level_def)
qed

section \<open>After the handshake\<close>

lemma post_handshake_loop_done:
  assumes "post_handshake_loop E s = Some (1, s')" and "\<not> SSL_in_init s"
  shows "q_input_data (qw s') = [] \<and> \<not> SSL_in_init s'"
proof -
  have "\<not> SSL_in_init s \<longrightarrow> fst y = 1 \<longrightarrow> q_input_data (qw (snd y)) = [] \<and> \<not> SSL_in_init (snd y)" if "post_handshake_loop E s = Some y" for E s y
    using that
  proof (rule post_handshake_loop.raw_induct [rotated])
    fix f :: "quic env \<Rightarrow> QSSL \<Rightarrow> (int \<times> QSSL) option" and E s y
    assume IH: "\<And>E s y. f E s = Some y \<Longrightarrow> \<not> SSL_in_init s \<longrightarrow> fst y = 1 \<longrightarrow> q_input_data (qw (snd y)) = [] \<and> \<not> SSL_in_init (snd y)"
      and st: "(if q_input_data (qw s) \<noteq> [] then
        Option.bind (handshake_func E (ossl_statem_set_in_init s True)) (\<lambda>(ret, s).
          let s = ossl_statem_set_in_init s False in if ret \<le> 0 then Some (0, s) else f E s)
        else Some (1, s)) = Some y"
    show "\<not> SSL_in_init s \<longrightarrow> fst y = 1 \<longrightarrow> q_input_data (qw (snd y)) = [] \<and> \<not> SSL_in_init (snd y)"
    proof (cases "q_input_data (qw s) = []")
      case False
      then obtain ret :: int and b where "(if ret \<le> 0 then Some (0, ossl_statem_set_in_init b False) else f E (ossl_statem_set_in_init b False)) = Some y"
        using st by (auto simp: Let_def bind_eq_Some_conv)
      moreover have "\<not> SSL_in_init (ossl_statem_set_in_init b False)" by (simp add: SSL_in_init_def)
      ultimately show ?thesis using IH [of E "ossl_statem_set_in_init b False" y] by (auto split: if_splits)
    qed (use st in auto)
  qed
  from this [OF assms(1)] assms(2) show ?thesis by simp
qed

text \<open>
  A call that processes messages after the handshake and returns success has consumed every queued
  message and leaves the connection out of initialisation; it refuses to run during a handshake or
  on a connection that is not QUIC.
\<close>

theorem post_handshake_consumes_queue:
  assumes "SSL_process_quic_post_handshake E s = Some (1, s')"
  shows "q_input_data (qw s') = [] \<and> \<not> SSL_in_init s' \<and> SSL_is_quic s"
  using assms post_handshake_loop_done [of E s s'] by (auto simp: SSL_process_quic_post_handshake_def split: if_splits)

theorem post_handshake_consumes_queue_witness:
  "\<exists>s'. SSL_process_quic_post_handshake idle_env (ossl_statem_set_in_init fresh_qssl False) = Some (1, s') \<and> q_input_data (qw s') = []"
proof -
  let ?s = "ossl_statem_set_in_init fresh_qssl False"
  have "SSL_is_quic ?s" "\<not> SSL_in_init ?s" "q_input_data (qw ?s) = []"
    using fresh_qw fresh_facts(3) by (simp_all add: ossl_statem_set_in_init_def SSL_is_quic_def SSL_CONNECTION_IS_QUIC_def SSL_in_init_def)
  then have "SSL_process_quic_post_handshake idle_env ?s = Some (1, ?s)"
    by (simp add: SSL_process_quic_post_handshake_def post_handshake_loop.simps [of _ ?s])
  with post_handshake_consumes_queue [OF this] show ?thesis by blast
qed

end
