(* ===== verification/Const_Time.thy ===== *)
theory Const_Time
  imports Prelude
begin

text \<open>
  The constant-time primitives of \<open>include/internal/constant_time.h\<close>, at the widths the code has them: a test
  returns a mask of all ones or of zeros instead of branching. \<open>value_barrier\<close> only keeps the compiler from
  optimising and is the identity. A C conversion to a narrower or wider unsigned type is \<open>ucast\<close>.

  The locale \<open>mask_test\<close> is what the clients of a test rely on: it returns the mask of a condition. Every
  test of the header is an instance, so that a client can reason with ordinary conditionals.
\<close>

section \<open>The primitives\<close>

definition constant_time_msb :: "uint \<Rightarrow> uint" where
  "constant_time_msb a = 0 - drop_bit 31 a"

definition constant_time_msb_32 :: "uint \<Rightarrow> uint" where
  "constant_time_msb_32 a = 0 - drop_bit 31 a"

definition constant_time_msb_64 :: "ulong \<Rightarrow> ulong" where
  "constant_time_msb_64 a = 0 - drop_bit 63 a"

definition constant_time_msb_s :: "ulong \<Rightarrow> ulong" where
  "constant_time_msb_s a = 0 - drop_bit 63 a"

definition constant_time_lt :: "uint \<Rightarrow> uint \<Rightarrow> uint" where
  "constant_time_lt a b = constant_time_msb (a XOR ((a XOR b) OR ((a - b) XOR b)))"

definition constant_time_lt_s :: "ulong \<Rightarrow> ulong \<Rightarrow> ulong" where
  "constant_time_lt_s a b = constant_time_msb_s (a XOR ((a XOR b) OR ((a - b) XOR b)))"

definition constant_time_lt_8 :: "uint \<Rightarrow> uint \<Rightarrow> byte" where
  "constant_time_lt_8 a b = ucast (constant_time_lt a b)"

definition constant_time_lt_64 :: "ulong \<Rightarrow> ulong \<Rightarrow> ulong" where
  "constant_time_lt_64 a b = constant_time_msb_64 (a XOR ((a XOR b) OR ((a - b) XOR b)))"

definition constant_time_ge :: "uint \<Rightarrow> uint \<Rightarrow> uint" where
  "constant_time_ge a b = NOT (constant_time_lt a b)"

definition constant_time_ge_s :: "ulong \<Rightarrow> ulong \<Rightarrow> ulong" where
  "constant_time_ge_s a b = NOT (constant_time_lt_s a b)"

definition constant_time_ge_8 :: "uint \<Rightarrow> uint \<Rightarrow> byte" where
  "constant_time_ge_8 a b = ucast (constant_time_ge a b)"

definition constant_time_ge_8_s :: "ulong \<Rightarrow> ulong \<Rightarrow> byte" where
  "constant_time_ge_8_s a b = ucast (constant_time_ge_s a b)"

definition constant_time_is_zero :: "uint \<Rightarrow> uint" where
  "constant_time_is_zero a = constant_time_msb (NOT a AND (a - 1))"

definition constant_time_is_zero_s :: "ulong \<Rightarrow> ulong" where
  "constant_time_is_zero_s a = constant_time_msb_s (NOT a AND (a - 1))"

definition constant_time_is_zero_8 :: "uint \<Rightarrow> byte" where
  "constant_time_is_zero_8 a = ucast (constant_time_is_zero a)"

definition constant_time_is_zero_32 :: "uint \<Rightarrow> uint" where
  "constant_time_is_zero_32 a = constant_time_msb_32 (NOT a AND (a - 1))"

definition constant_time_is_zero_64 :: "ulong \<Rightarrow> ulong" where
  "constant_time_is_zero_64 a = constant_time_msb_64 (NOT a AND (a - 1))"

definition constant_time_eq :: "uint \<Rightarrow> uint \<Rightarrow> uint" where
  "constant_time_eq a b = constant_time_is_zero (a XOR b)"

definition constant_time_eq_s :: "ulong \<Rightarrow> ulong \<Rightarrow> ulong" where
  "constant_time_eq_s a b = constant_time_is_zero_s (a XOR b)"

definition constant_time_eq_8 :: "uint \<Rightarrow> uint \<Rightarrow> byte" where
  "constant_time_eq_8 a b = ucast (constant_time_eq a b)"

definition constant_time_eq_8_s :: "ulong \<Rightarrow> ulong \<Rightarrow> byte" where
  "constant_time_eq_8_s a b = ucast (constant_time_eq_s a b)"

text \<open>A C \<open>int\<close> is an integer; its conversion to \<open>unsigned\<close> reduces modulo \<open>2 ^ 32\<close>.\<close>

definition constant_time_eq_int :: "int \<Rightarrow> int \<Rightarrow> uint" where
  "constant_time_eq_int a b = constant_time_eq (word_of_int a) (word_of_int b)"

definition constant_time_eq_int_8 :: "int \<Rightarrow> int \<Rightarrow> byte" where
  "constant_time_eq_int_8 a b = constant_time_eq_8 (word_of_int a) (word_of_int b)"

definition constant_time_select :: "uint \<Rightarrow> uint \<Rightarrow> uint \<Rightarrow> uint" where
  "constant_time_select mk a b = (mk AND a) OR (NOT mk AND b)"

definition constant_time_select_s :: "ulong \<Rightarrow> ulong \<Rightarrow> ulong \<Rightarrow> ulong" where
  "constant_time_select_s mk a b = (mk AND a) OR (NOT mk AND b)"

definition constant_time_select_8 :: "byte \<Rightarrow> byte \<Rightarrow> byte \<Rightarrow> byte" where
  "constant_time_select_8 mk a b = ucast (constant_time_select (ucast mk) (ucast a) (ucast b))"

definition constant_time_select_int :: "uint \<Rightarrow> int \<Rightarrow> int \<Rightarrow> int" where
  "constant_time_select_int mk a b = sint (constant_time_select mk (word_of_int a) (word_of_int b))"

definition constant_time_select_int_s :: "ulong \<Rightarrow> int \<Rightarrow> int \<Rightarrow> int" where
  "constant_time_select_int_s mk a b = sint (constant_time_select (ucast mk) (word_of_int a) (word_of_int b))"

definition constant_time_select_32 :: "uint \<Rightarrow> uint \<Rightarrow> uint \<Rightarrow> uint" where
  "constant_time_select_32 mk a b = (mk AND a) OR (NOT mk AND b)"

definition constant_time_select_64 :: "ulong \<Rightarrow> ulong \<Rightarrow> ulong \<Rightarrow> ulong" where
  "constant_time_select_64 mk a b = (mk AND a) OR (NOT mk AND b)"

definition constant_time_cond_swap_32 :: "uint \<Rightarrow> uint \<Rightarrow> uint \<Rightarrow> uint \<times> uint" where
  "constant_time_cond_swap_32 mk a b = (let x = (a XOR b) AND mk in (a XOR x, b XOR x))"

definition constant_time_cond_swap_64 :: "ulong \<Rightarrow> ulong \<Rightarrow> ulong \<Rightarrow> ulong \<times> ulong" where
  "constant_time_cond_swap_64 mk a b = (let x = (a XOR b) AND mk in (a XOR x, b XOR x))"

text \<open>Two objects of \<open>len\<close> bytes; \<open>Undef\<close> when one of them is shorter.\<close>

fun constant_time_cond_swap_buff :: "byte \<Rightarrow> byte list \<Rightarrow> byte list \<Rightarrow> nat \<Rightarrow> (byte list \<times> byte list) outcome" where
  "constant_time_cond_swap_buff mk as bs 0 = Ret (as, bs)"
| "constant_time_cond_swap_buff mk (a # as) (b # bs) (Suc len) =
     (let tmp = (a XOR b) AND mk in
      obind (constant_time_cond_swap_buff mk as bs len) (\<lambda>(as', bs'). Ret ((a XOR tmp) # as', (b XOR tmp) # bs')))"
| "constant_time_cond_swap_buff mk as bs (Suc len) = Undef"

text \<open>
  The lookup: one row of the table is or-ed into \<open>out\<close> in each round of the outer loop.
\<close>

fun lookup_row :: "byte \<Rightarrow> byte list \<Rightarrow> byte list \<Rightarrow> nat \<Rightarrow> (byte list \<times> byte list) outcome" where
  "lookup_row mk outc tablec 0 = Ret (outc, tablec)"
| "lookup_row mk (x # outc) (t # tablec) (Suc j) =
     obind (lookup_row mk outc tablec j) (\<lambda>(outc', tablec'). Ret ((x OR constant_time_select_8 mk t 0) # outc', tablec'))"
| "lookup_row mk outc tablec (Suc j) = Undef"

fun lookup_rows :: "byte list \<Rightarrow> byte list \<Rightarrow> nat \<Rightarrow> nat \<Rightarrow> ulong \<Rightarrow> byte list outcome" where
  "lookup_rows outc tablec rowsize 0 idx = Ret outc"
| "lookup_rows outc tablec rowsize (Suc n) idx =
     obind (lookup_row (ucast (constant_time_is_zero_s idx)) outc tablec rowsize) (\<lambda>(outc', tablec').
       lookup_rows outc' tablec' rowsize n (idx - 1))"

definition constant_time_lookup :: "byte list \<Rightarrow> nat \<Rightarrow> nat \<Rightarrow> ulong \<Rightarrow> byte list outcome" where
  "constant_time_lookup table rowsize numrows idx = lookup_rows (replicate rowsize 0) table rowsize numrows idx"

section \<open>The sign-bit trick\<close>

lemma bit_top_unat: "bit x (LENGTH('a) - Suc 0) \<longleftrightarrow> 2 ^ (LENGTH('a) - Suc 0) \<le> unat x" for x :: "'a::len word"
proof -
  have "unat x < 2 ^ LENGTH('a)" by (rule unsigned_less)
  then have lt: "unat x < 2 ^ (LENGTH('a) - Suc 0) * 2" using power_minus_mult [of "LENGTH('a)" "2 :: nat"] by simp
  have "bit x (LENGTH('a) - Suc 0) \<longleftrightarrow> odd (unat x div 2 ^ (LENGTH('a) - Suc 0))"
    using bit_iff_odd [of "unat x"] by (simp add: bit_unsigned_iff)
  moreover have "unat x div 2 ^ (LENGTH('a) - Suc 0) = (if 2 ^ (LENGTH('a) - Suc 0) \<le> unat x then 1 else 0)"
    using lt by (auto simp: div_eq_0_iff not_le intro: div_nat_eqI)
  ultimately show ?thesis by simp
qed

lemma msb_mask: "0 - drop_bit (LENGTH('a) - Suc 0) x = (if bit x (LENGTH('a) - Suc 0) then - 1 else 0)" for x :: "'a::len word"
proof -
  have "drop_bit (LENGTH('a) - Suc 0) x = of_bool (bit x (LENGTH('a) - Suc 0))"
  proof (rule bit_word_eqI)
    fix n assume "n < LENGTH('a)"
    show "bit (drop_bit (LENGTH('a) - Suc 0) x) n = bit (of_bool (bit x (LENGTH('a) - Suc 0)) :: 'a word) n"
      using bit_imp_le_length [of x "LENGTH('a) - Suc 0 + n"] by (cases n) (auto simp: bit_simps)
  qed
  then show ?thesis by simp
qed

lemma bit_top_sub:
  fixes a b :: "'a::len word"
  assumes "bit a (LENGTH('a) - Suc 0) = bit b (LENGTH('a) - Suc 0)"
  shows "bit (a - b) (LENGTH('a) - Suc 0) \<longleftrightarrow> a < b"
proof -
  have p: "(2::nat) ^ LENGTH('a) = 2 ^ (LENGTH('a) - Suc 0) + 2 ^ (LENGTH('a) - Suc 0)"
    using power_minus_mult [of "LENGTH('a)" "2 :: nat"] by simp
  have lt: "unat a < 2 ^ LENGTH('a)" "unat b < 2 ^ LENGTH('a)" by (rule unsigned_less)+
  show ?thesis
  proof (cases "a < b")
    case True
    then have "unat (a - b) = 2 ^ LENGTH('a) + unat a - unat b"
      using lt by (simp add: unat_sub_if_size word_size word_less_nat_alt not_le)
    moreover have "2 ^ (LENGTH('a) - Suc 0) \<le> unat a \<longleftrightarrow> 2 ^ (LENGTH('a) - Suc 0) \<le> unat b" using assms by (simp add: bit_top_unat)
    ultimately show ?thesis using True lt unfolding p bit_top_unat word_less_nat_alt by linarith
  next
    case False
    then have "unat (a - b) = unat a - unat b" by (simp add: unat_sub word_le_nat_alt not_less)
    then show ?thesis using assms False lt p by (auto simp: bit_top_unat)
  qed
qed

lemma lt_trick: "bit (a XOR ((a XOR b) OR ((a - b) XOR b))) (LENGTH('a) - Suc 0) \<longleftrightarrow> a < b" for a b :: "'a::len word"
proof (cases "bit a (LENGTH('a) - Suc 0) = bit b (LENGTH('a) - Suc 0)")
  case True
  then show ?thesis using bit_top_sub [OF True] by (auto simp: bit_xor_iff bit_or_iff)
next
  case False
  then have "a < b \<longleftrightarrow> \<not> bit a (LENGTH('a) - Suc 0)" by (auto simp: bit_top_unat word_less_nat_alt)
  then show ?thesis using False by (auto simp: bit_xor_iff bit_or_iff)
qed

lemma zero_trick: "bit (NOT a AND (a - 1)) (LENGTH('a) - Suc 0) \<longleftrightarrow> a = 0" for a :: "'a::len word"
proof (cases "a = 0")
  case False
  then have "unat (a - 1) = unat a - 1" by (simp add: unat_minus_one)
  then have "bit (a - 1) (LENGTH('a) - Suc 0) \<Longrightarrow> bit a (LENGTH('a) - Suc 0)" by (simp add: bit_top_unat)
  then show ?thesis using False by (auto simp: bit_and_iff bit_not_iff)
qed (simp add: bit_simps)


lemma top_bits: "LENGTH(32) - Suc 0 = 31" "LENGTH(64) - Suc 0 = 63"
  by simp_all

lemmas tricks_32 = lt_trick [where 'a = 32, unfolded top_bits] zero_trick [where 'a = 32, unfolded top_bits]
lemmas tricks_64 = lt_trick [where 'a = 64, unfolded top_bits] zero_trick [where 'a = 64, unfolded top_bits]

lemma msb_tests:
  "constant_time_msb x = (if bit x 31 then - 1 else 0)" "constant_time_msb_32 x = (if bit x 31 then - 1 else 0)"
  "constant_time_msb_64 y = (if bit y 63 then - 1 else 0)" "constant_time_msb_s y = (if bit y 63 then - 1 else 0)"
  unfolding constant_time_msb_def constant_time_msb_32_def constant_time_msb_64_def constant_time_msb_s_def
  by (rule msb_mask [where 'a = 32, unfolded top_bits] msb_mask [where 'a = 64, unfolded top_bits])+

section \<open>Tests that return masks\<close>

text \<open>What the clients of a test rely on: it is the mask of a condition on the arguments.\<close>

locale mask_test =
  fixes test :: "'a \<Rightarrow> 'a \<Rightarrow> 'm::len word" and holds :: "'a \<Rightarrow> 'a \<Rightarrow> bool"
  assumes test_mask: "test a b = (if holds a b then - 1 else 0)"
begin

lemma and_test: "x AND test a b = (if holds a b then x else 0)" "test a b AND x = (if holds a b then x else 0)"
  by (simp_all add: test_mask)

lemma or_test: "x OR test a b = (if holds a b then - 1 else x)" "test a b OR x = (if holds a b then - 1 else x)"
  by (simp_all add: test_mask)

lemma not_test: "NOT (test a b) = (if holds a b then 0 else - 1)"
  by (simp add: test_mask)

lemma test_eq_0: "test a b = 0 \<longleftrightarrow> \<not> holds a b"
  by (simp add: test_mask)

lemma ucast_test: "(ucast (test a b) :: 'k::len word) = (if holds a b then - 1 else 0)" if "LENGTH('k) \<le> LENGTH('m)"
proof -
  have "(ucast (- 1 :: 'm word) :: 'k word) = - 1"
    using that by (intro bit_word_eqI) (simp add: bit_simps)
  then show ?thesis by (simp add: test_mask)
qed

text \<open>The test narrowed to fewer bits, and the negated test, are tests again.\<close>

lemma narrowed: "LENGTH('k) \<le> LENGTH('m) \<Longrightarrow> mask_test (\<lambda>a b. ucast (test a b) :: 'k::len word) holds"
  by unfold_locales (rule ucast_test)

lemma negated: "mask_test (\<lambda>a b. NOT (test a b)) (\<lambda>a b. \<not> holds a b)"
  by unfold_locales (simp add: test_mask)

end

interpretation lt: mask_test constant_time_lt "(<)"
  by unfold_locales (simp only: constant_time_lt_def msb_tests tricks_32)

interpretation lt_s: mask_test constant_time_lt_s "(<)"
  by unfold_locales (simp only: constant_time_lt_s_def msb_tests tricks_64)

interpretation lt_64: mask_test constant_time_lt_64 "(<)"
  by unfold_locales (simp only: constant_time_lt_64_def msb_tests tricks_64)

interpretation lt_8: mask_test constant_time_lt_8 "(<)"
  unfolding constant_time_lt_8_def [abs_def] by (rule lt.narrowed) simp

interpretation ge: mask_test constant_time_ge "\<lambda>a b. \<not> a < b"
  unfolding constant_time_ge_def [abs_def] by (rule lt.negated)

interpretation ge_s: mask_test constant_time_ge_s "\<lambda>a b. \<not> a < b"
  unfolding constant_time_ge_s_def [abs_def] by (rule lt_s.negated)

interpretation ge_8: mask_test constant_time_ge_8 "\<lambda>a b. \<not> a < b"
  unfolding constant_time_ge_8_def [abs_def] by (rule ge.narrowed) simp

interpretation ge_8_s: mask_test constant_time_ge_8_s "\<lambda>a b. \<not> a < b"
  unfolding constant_time_ge_8_s_def [abs_def] by (rule ge_s.narrowed) simp

lemma is_zero_mask: "constant_time_is_zero a = (if a = 0 then - 1 else 0)"
  by (simp only: constant_time_is_zero_def msb_tests tricks_32)

lemma is_zero_s_mask: "constant_time_is_zero_s a = (if a = 0 then - 1 else 0)"
  by (simp only: constant_time_is_zero_s_def msb_tests tricks_64)

lemma xor_eq_0_iff: "a XOR b = 0 \<longleftrightarrow> a = b" for a b :: "'a::len word"
  by (auto simp: bit_eq_iff bit_simps)

interpretation eq: mask_test constant_time_eq "(=)"
  by unfold_locales (simp add: constant_time_eq_def is_zero_mask xor_eq_0_iff)

interpretation eq_s: mask_test constant_time_eq_s "(=)"
  by unfold_locales (simp add: constant_time_eq_s_def is_zero_s_mask xor_eq_0_iff)

interpretation eq_8: mask_test constant_time_eq_8 "(=)"
  unfolding constant_time_eq_8_def [abs_def] by (rule eq.narrowed) simp

interpretation eq_8_s: mask_test constant_time_eq_8_s "(=)"
  unfolding constant_time_eq_8_s_def [abs_def] by (rule eq_s.narrowed) simp

text \<open>On values of the C type \<open>int\<close> the comparison is exact.\<close>

lemma word_of_int_int_inj:
  assumes "- 2147483648 \<le> a" "a < 2147483648" "- 2147483648 \<le> b" "b < (2147483648 :: int)"
  shows "(word_of_int a :: uint) = word_of_int b \<longleftrightarrow> a = b"
proof -
  have s: "sint (word_of_int x :: uint) = x" if "- 2147483648 \<le> x" "x < 2147483648" for x :: int
    using that signed_take_bit_int_eq_self [of 31 x] by (simp add: sint_sbintrunc')
  show ?thesis using s [of a] s [of b] assms by metis
qed

lemma eq_int_mask:
  "- 2147483648 \<le> a \<Longrightarrow> a < 2147483648 \<Longrightarrow> - 2147483648 \<le> b \<Longrightarrow> b < 2147483648 \<Longrightarrow>
     constant_time_eq_int a b = (if a = b then - 1 else 0)"
  by (simp add: constant_time_eq_int_def eq.test_mask word_of_int_int_inj)

section \<open>Selection\<close>

lemma select_masks [simp]:
  "constant_time_select (- 1) a b = a" "constant_time_select 0 a b = b"
  "constant_time_select_s (- 1) x y = x" "constant_time_select_s 0 x y = y"
  by (simp_all add: constant_time_select_def constant_time_select_s_def)

lemma select_8_masks [simp]: "constant_time_select_8 (- 1) a b = a" "constant_time_select_8 0 a b = b"
  by (simp_all add: constant_time_select_8_def constant_time_select_def bit_eq_iff bit_simps)

lemma cond_swap_buff:
  assumes "mk = - 1 \<or> mk = 0" "length as = n" "length bs = n"
  shows "constant_time_cond_swap_buff mk (as @ as') (bs @ bs') n =
    Ret (if mk = 0 then (as @ as', bs @ bs') else (bs @ as', as @ bs'))"
  using assms(2,3)
proof (induction n arbitrary: as bs)
  case (Suc n)
  then obtain a as2 b bs2 where "as = a # as2" "bs = b # bs2" by (metis length_Suc_conv)
  then show ?case using Suc assms(1) by (auto simp: Let_def xor.left_commute)
qed simp

lemma lookup_row_eq:
  "length out = n \<Longrightarrow> length row = n \<Longrightarrow>
     lookup_row mk out (row @ rest) n = Ret (map2 (\<lambda>x t. x OR constant_time_select_8 mk t 0) out row, rest)"
proof (induction n arbitrary: out row)
  case (Suc n)
  then obtain x out2 t row2 where "out = x # out2" "row = t # row2" by (metis length_Suc_conv)
  then show ?case using Suc by simp
qed simp


lemma ucast_ones [simp]: "(ucast (- 1 :: ulong) :: byte) = - 1" "(ucast (- 1 :: uint) :: byte) = - 1"
  by (simp_all add: bit_eq_iff bit_simps)

lemma lookup_rows_eq:
  "\<forall>r \<in> set rows. length r = k \<Longrightarrow> length out = k \<Longrightarrow> length rows \<le> 2 ^ 64 \<Longrightarrow>
     lookup_rows out (concat rows @ rest) k (length rows) idx =
     Ret (if unat idx < length rows then map2 (OR) out (rows ! unat idx) else out)"
proof (induction rows arbitrary: out idx)
  case (Cons r rows)
  let ?out = "map2 (\<lambda>x t. x OR constant_time_select_8 (ucast (constant_time_is_zero_s idx)) t 0) out r"
  have same: "?out = (if idx = 0 then map2 (OR) out r else out)"
    using Cons.prems by (auto simp: is_zero_s_mask map_fst_zip intro!: nth_equalityI)
  have "lookup_rows out (concat (r # rows) @ rest) k (length (r # rows)) idx = lookup_rows ?out (concat rows @ rest) k (length rows) (idx - 1)"
    using Cons.prems by (simp add: lookup_row_eq)
  also have "\<dots> = Ret (if unat (idx - 1) < length rows then map2 (OR) ?out (rows ! unat (idx - 1)) else ?out)"
    using Cons.prems by (intro Cons.IH) auto
  also have "\<dots> = Ret (if unat idx < length (r # rows) then map2 (OR) out ((r # rows) ! unat idx) else out)"
  proof (cases "idx = 0")
    case True
    have "unat (- 1 :: ulong) = 2 ^ 64 - 1" by (simp add: unsigned_minus_1_eq_mask mask_eq_exp_minus_1)
    then show ?thesis using True Cons.prems(3) unfolding same by simp
  next
    case False
    then have "unat idx = Suc (unat (idx - 1))" using unat_minus_one [OF False] by (simp add: unat_gt_0)
    then show ?thesis using False same by simp
  qed
  finally show ?case .
qed simp

text \<open>
  The constant-time lookup reads every row of the table and returns exactly the row of the index, or
  zeros when there is none; an index beyond the table does not make it leave the table.
\<close>

theorem lookup_returns_row:
  assumes "\<forall>r \<in> set rows. length r = rowsize" and "length rows \<le> 2 ^ 64"
  shows "constant_time_lookup (concat rows) rowsize (length rows) idx =
    Ret (if unat idx < length rows then rows ! unat idx else replicate rowsize 0)"
proof -
  have "map2 (OR) (replicate rowsize 0) r = r" if "r \<in> set rows" for r
    using assms(1) that by (auto intro!: nth_equalityI)
  then show ?thesis
    using lookup_rows_eq [of rows rowsize "replicate rowsize 0" "[]" idx] assms by (simp add: constant_time_lookup_def)
qed

theorem lookup_returns_row_witness:
  "constant_time_lookup [1, 2, 3, 4, 5, 6] 2 3 1 = Ret [3, 4] \<and> constant_time_lookup [1, 2, 3, 4, 5, 6] 2 3 9 = Ret [0, 0]"
proof -
  have r: "replicate 2 (0 :: byte) = [0, 0]" by (simp add: numeral_2_eq_2)
  have c: "concat [[1, 2], [3, 4], [5, 6]] = [1, 2, 3, 4, 5, 6 :: byte]" "length [[1, 2], [3, 4], [5, 6 :: byte]] = 3" by simp_all
  have l: "\<forall>r \<in> set [[1, 2], [3, 4], [5, 6 :: byte]]. length r = 2" "length [[1, 2], [3, 4], [5, 6 :: byte]] \<le> 2 ^ 64" by simp_all
  show ?thesis using lookup_returns_row [OF l, of 1] lookup_returns_row [OF l, of 9] unfolding c r by simp
qed

end
