(* ===== verification/CBC_Pad.thy ===== *)
theory CBC_Pad
  imports Const_Time
begin

text \<open>
  The removal of CBC padding and of the MAC from a decrypted record, \<open>ssl/record/methods/tls_pad.c\<close>, and its
  caller \<open>ossl_cipher_tlsunpadblock\<close> of \<open>providers/implementations/ciphers/ciphercommon_block.c\<close>. The code takes
  no decision that depends on the padding: it computes with masks and touches the same bytes whatever they
  are. Sizes are 64-bit words as in C. The record is the memory object \<open>recdata\<close>; reading outside it is
  \<open>Undef\<close>. Parameters: \<open>mem\<close>, which allocations succeed; \<open>rand\<close>, the random bytes for a request or \<open>None\<close>
  on failure; \<open>stk\<close>, what the aligned stack buffer \<open>rotated_mac\<close> holds before it is used.

  The property is that this code does what the straightforward specification says: valid padding is removed
  and the MAC is the one in the record; with invalid padding the MAC is random and only its length is taken
  off; and no byte outside the record is read.
\<close>

section \<open>The code\<close>

abbreviation EVP_MAX_MD_SIZE :: nat where "EVP_MAX_MD_SIZE \<equiv> 64"

text \<open>What \<open>*mac\<close> points to: into the record, or to allocated memory with the given contents.\<close>

datatype MAC_PTR = In_Record nat | Alloced "byte list"

fun scan_mac :: "ulong \<Rightarrow> ulong \<Rightarrow> ulong \<Rightarrow> byte list \<Rightarrow> ulong \<Rightarrow> ulong \<Rightarrow> ulong \<Rightarrow> ulong \<Rightarrow> byte list \<Rightarrow> (ulong \<times> byte list) outcome" where
  "scan_mac mac_start mac_end mac_size [] i j in_mac rotate_offset rotated_mac = Ret (rotate_offset, rotated_mac)"
| "scan_mac mac_start mac_end mac_size (b # bs) i j in_mac rotate_offset rotated_mac =
     (let mac_started = constant_time_eq_s i mac_start;
          mac_ended = constant_time_lt_s i mac_end;
          in_mac = (in_mac OR mac_started) AND mac_ended;
          rotate_offset = rotate_offset OR (j AND mac_started)
      in if unat j < length rotated_mac then
           let rotated_mac = rotated_mac[unat j := rotated_mac ! unat j OR ucast (ucast b AND in_mac)];
               j = j + 1;
               j = j AND constant_time_lt_s j mac_size
           in scan_mac mac_start mac_end mac_size bs (i + 1) j in_mac rotate_offset rotated_mac
         else Undef)"

text \<open>The rotation, one round per byte of \<open>randmac\<close>; the result is what is stored in \<open>out\<close>.\<close>

fun rotate_mac :: "ulong \<Rightarrow> ulong \<Rightarrow> byte list \<Rightarrow> byte list \<Rightarrow> ulong \<Rightarrow> byte list outcome" where
  "rotate_mac mac_size good rotated_mac [] rotate_offset = Ret []"
| "rotate_mac mac_size good rotated_mac (r # randmac) rotate_offset =
     (if unat (rotate_offset AND NOT 32) < length rotated_mac \<and> unat (rotate_offset OR 32) < length rotated_mac then
        let aux1 = rotated_mac ! unat (rotate_offset AND NOT 32);
            aux2 = rotated_mac ! unat (rotate_offset OR 32);
            mk = constant_time_eq_8 (ucast (rotate_offset AND NOT 32)) (ucast rotate_offset);
            aux3 = constant_time_select_8 mk aux1 aux2;
            rotate_offset = rotate_offset + 1;
            out = constant_time_select_8 (ucast (good AND 0xff)) aux3 r;
            rotate_offset = rotate_offset AND constant_time_lt_s rotate_offset mac_size
        in obind (rotate_mac mac_size good rotated_mac randmac rotate_offset) (\<lambda>rest. Ret (out # rest))
      else Undef)"

text \<open>
  The result is the return value, \<open>*reclen\<close> and \<open>*mac\<close> (\<open>None\<close> when it is not set); \<open>mac_ok\<close> and \<open>alloced_ok\<close> say
  that the pointers \<open>mac\<close> and \<open>alloced\<close> are not NULL.
\<close>

definition ssl3_cbc_copy_mac ::
    "(nat \<Rightarrow> bool) \<Rightarrow> (nat \<Rightarrow> byte list option) \<Rightarrow> byte list \<Rightarrow> bool \<Rightarrow> bool \<Rightarrow> ulong \<Rightarrow> ulong \<Rightarrow> byte list \<Rightarrow> ulong \<Rightarrow> ulong \<Rightarrow> ulong
     \<Rightarrow> (bool \<times> ulong \<times> MAC_PTR option) outcome" where
  "ssl3_cbc_copy_mac mem rand stk mac_ok alloced_ok reclen origreclen recdata block_size mac_size good =
     (let mac_end = reclen;
          mac_start = mac_end - mac_size
      in if \<not> (origreclen \<ge> mac_size \<and> unat mac_size \<le> EVP_MAX_MD_SIZE) then Ret (False, reclen, None)
      else if mac_size = 0 then Ret (good \<noteq> 0, reclen, None)
      else
        let reclen = reclen - mac_size in
        if block_size = 1 then Ret (True, reclen, if mac_ok then Some (In_Record (unat reclen)) else None)
        else case rand (unat mac_size) of
          None \<Rightarrow> Ret (False, reclen, None)
        | Some randmac \<Rightarrow>
            if \<not> (mac_ok \<and> alloced_ok) then Ret (False, reclen, None)
            else if \<not> mem (unat mac_size) then Ret (False, reclen, None)
            else
              let scan_start = (if origreclen > mac_size + 255 + 1 then origreclen - (mac_size + 255 + 1) else 0) in
              if unat origreclen > length recdata \<or> unat mac_size > length stk then Undef
              else
                obind (scan_mac mac_start mac_end mac_size (drop (unat scan_start) (take (unat origreclen) recdata))
                         scan_start 0 0 0 (patch stk 0 (replicate (unat mac_size) 0))) (\<lambda>(rotate_offset, rotated_mac).
                obind (rotate_mac mac_size good rotated_mac (take (unat mac_size) randmac) rotate_offset) (\<lambda>out.
                  Ret (True, reclen, Some (Alloced out)))))"

definition ssl3_cbc_remove_padding_and_mac ::
    "(nat \<Rightarrow> bool) \<Rightarrow> (nat \<Rightarrow> byte list option) \<Rightarrow> byte list \<Rightarrow> bool \<Rightarrow> bool \<Rightarrow> ulong \<Rightarrow> ulong \<Rightarrow> byte list \<Rightarrow> ulong \<Rightarrow> ulong
     \<Rightarrow> (bool \<times> ulong \<times> MAC_PTR option) outcome" where
  "ssl3_cbc_remove_padding_and_mac mem rand stk mac_ok alloced_ok reclen origreclen recdata block_size mac_size =
     (let overhead = 1 + mac_size in
      if overhead > reclen then Ret (False, reclen, None)
      else if unat (reclen - 1) \<ge> length recdata then Undef
      else
        let padding_length = ucast (recdata ! unat (reclen - 1));
            good = constant_time_ge_s reclen (padding_length + overhead);
            good = good AND constant_time_ge_s block_size (padding_length + 1);
            reclen = reclen - (good AND (padding_length + 1))
        in ssl3_cbc_copy_mac mem rand stk mac_ok alloced_ok reclen origreclen recdata block_size mac_size good)"

fun check_padding :: "byte list \<Rightarrow> ulong \<Rightarrow> ulong \<Rightarrow> nat \<Rightarrow> ulong \<Rightarrow> ulong \<Rightarrow> ulong outcome" where
  "check_padding recdata reclen padding_length 0 i good = Ret good"
| "check_padding recdata reclen padding_length (Suc n) i good =
     (let mk = constant_time_ge_8_s padding_length i in
      if unat (reclen - 1 - i) < length recdata then
        let b = recdata ! unat (reclen - 1 - i) in
        check_padding recdata reclen padding_length n (i + 1) (good AND NOT (ucast mk AND (padding_length XOR ucast b)))
      else Undef)"

definition tls1_cbc_remove_padding_and_mac ::
    "(nat \<Rightarrow> bool) \<Rightarrow> (nat \<Rightarrow> byte list option) \<Rightarrow> byte list \<Rightarrow> bool \<Rightarrow> bool \<Rightarrow> ulong \<Rightarrow> ulong \<Rightarrow> byte list \<Rightarrow> ulong \<Rightarrow> ulong \<Rightarrow> bool
     \<Rightarrow> (bool \<times> ulong \<times> MAC_PTR option) outcome" where
  "tls1_cbc_remove_padding_and_mac mem rand stk mac_ok alloced_ok reclen origreclen recdata block_size mac_size aead =
     (let overhead = (if block_size = 1 then 0 else 1) + mac_size in
      if overhead > reclen then Ret (False, reclen, None)
      else if block_size \<noteq> 1 then
        (if unat (reclen - 1) \<ge> length recdata then Undef
         else
           let padding_length = ucast (recdata ! unat (reclen - 1)) in
           if aead then Ret (True, reclen - (padding_length + 1 + mac_size), None)
           else
             let good = constant_time_ge_s reclen (overhead + padding_length);
                 to_check = (if 256 > reclen then reclen else 256)
             in obind (check_padding recdata reclen padding_length (unat to_check) 0 good) (\<lambda>good.
                let good = constant_time_eq_s 0xff (good AND 0xff);
                    reclen = reclen - (good AND (padding_length + 1))
                in ssl3_cbc_copy_mac mem rand stk mac_ok alloced_ok reclen origreclen recdata block_size mac_size good))
      else ssl3_cbc_copy_mac mem rand stk mac_ok alloced_ok reclen origreclen recdata block_size mac_size (- 1))"

text \<open>
  The caller in the provider; \<open>buf\<close> is the record with its explicit IV. A pointer past the end of the object
  is \<open>Undef\<close>.
\<close>

definition ossl_cipher_tlsunpadblock ::
    "(nat \<Rightarrow> bool) \<Rightarrow> (nat \<Rightarrow> byte list option) \<Rightarrow> byte list \<Rightarrow> bool \<Rightarrow> bool \<Rightarrow> uint \<Rightarrow> byte list \<Rightarrow> ulong \<Rightarrow> ulong \<Rightarrow> ulong \<Rightarrow> bool
     \<Rightarrow> (bool \<times> ulong \<times> MAC_PTR option) outcome" where
  "ossl_cipher_tlsunpadblock mem rand stk mac_ok alloced_ok tlsversion buf buflen blocksize macsize aead =
     (if tlsversion = 0x300 then
        ssl3_cbc_remove_padding_and_mac mem rand stk mac_ok alloced_ok buflen buflen buf blocksize macsize
      else if tlsversion \<in> {0x303, 0xFEFD, 0x302, 0xFEFF, 0x100} then
        if unat blocksize > length buf then Undef
        else
          let buf = drop (unat blocksize) buf;
              buflen = buflen - blocksize
          in tls1_cbc_remove_padding_and_mac mem rand stk mac_ok alloced_ok buflen buflen buf blocksize macsize aead
      else if tlsversion = 0x301 then
        tls1_cbc_remove_padding_and_mac mem rand stk mac_ok alloced_ok buflen buflen buf blocksize macsize aead
      else Ret (False, buflen, None))"


section \<open>Sizes as words\<close>

abbreviation sz :: "nat \<Rightarrow> ulong" where "sz \<equiv> of_nat"

lemma unat_sz [simp]: "x < 2 ^ 64 \<Longrightarrow> unat (sz x) = x"
  by (simp add: unsigned_of_nat take_bit_nat_eq_self)

lemma sz_less: "x < 2 ^ 64 \<Longrightarrow> y < 2 ^ 64 \<Longrightarrow> sz x < sz y \<longleftrightarrow> x < y"
  and sz_le: "x < 2 ^ 64 \<Longrightarrow> y < 2 ^ 64 \<Longrightarrow> sz x \<le> sz y \<longleftrightarrow> x \<le> y"
  and sz_eq: "x < 2 ^ 64 \<Longrightarrow> y < 2 ^ 64 \<Longrightarrow> sz x = sz y \<longleftrightarrow> x = y"
  using unat_sz by (simp_all add: word_less_nat_alt word_le_nat_alt word_unat_eq_iff del: of_nat_le_iff)

lemma sz_Suc: "sz x + 1 = sz (Suc x)"
  by simp

lemma sz_diff: "y \<le> x \<Longrightarrow> sz x - sz y = sz (x - y)"
  by (simp add: of_nat_diff)

lemma ucast_byte: "(ucast (ucast b :: ulong) :: byte) = b" for b :: byte
  by (simp add: bit_eq_iff bit_simps)

lemma ucast_unat: "(ucast b :: ulong) = sz (unat b)" for b :: byte
  by simp

section \<open>Finding the MAC\<close>

lemma residues_differ: "s \<le> p \<Longrightarrow> p < i \<Longrightarrow> i < p + M \<Longrightarrow> (p - s) mod M \<noteq> (i - s) mod M" for s p i M :: nat
proof
  assume a: "s \<le> p" "p < i" "i < p + M" and "(p - s) mod M = (i - s) mod M"
  then have "M dvd (i - s) - (p - s)" by (metis mod_eq_dvd_iff_nat less_imp_le diff_le_mono)
  then have "M dvd i - p" using a by simp
  then show False using a by (auto dest: dvd_imp_le)
qed

text \<open>
  The invariant of the scan, before byte \<open>i\<close>: the bytes of the MAC seen so far are in \<open>rot\<close>, each at its
  position counted from the start of the scan modulo the size, and the other places are zero.
\<close>

definition scan_inv :: "byte list \<Rightarrow> nat \<Rightarrow> nat \<Rightarrow> nat \<Rightarrow> nat \<Rightarrow> byte list \<Rightarrow> bool" where
  "scan_inv d s M ms i rot \<longleftrightarrow>
     (\<forall>p. ms \<le> p \<and> p < min i (ms + M) \<longrightarrow> rot ! ((p - s) mod M) = d ! p)
     \<and> (\<forall>r < M. (\<forall>p. ms \<le> p \<and> p < min i (ms + M) \<longrightarrow> (p - s) mod M \<noteq> r) \<longrightarrow> rot ! r = 0)"

lemma scan_inv_step:
  assumes inv: "scan_inv d s M ms i rot" and M: "0 < M" "M \<le> length rot" and s: "s \<le> ms" "s \<le> i"
  shows "scan_inv d s M ms (Suc i)
    (rot[(i - s) mod M := rot ! ((i - s) mod M) OR (if ms \<le> i \<and> i < ms + M then d ! i else 0)])"
proof (cases "ms \<le> i \<and> i < ms + M")
  case True
  have lt: "(i - s) mod M < length rot" using M by (meson less_le_trans mod_less_divisor)
  have ne: "(p - s) mod M \<noteq> (i - s) mod M" if "ms \<le> p" "p < i" for p using residues_differ [of s p i M] that s True by simp
  have "rot ! ((i - s) mod M) = 0" using inv ne M(1) unfolding scan_inv_def by auto
  then show ?thesis using True inv ne lt unfolding scan_inv_def
    by (auto simp: nth_list_update less_Suc_eq) (metis)+
next
  case False
  then have "\<And>p. ms \<le> p \<and> p < min (Suc i) (ms + M) \<longleftrightarrow> ms \<le> p \<and> p < min i (ms + M)" by (auto simp: min_def)
  with False inv show ?thesis unfolding scan_inv_def by auto
qed

lemma scan_mac_finds:
  assumes d: "o' \<le> length d" "o' < 2 ^ 64" and M: "0 < M" "M \<le> length rot" and s: "s \<le> ms" "ms + M \<le> o'"
    and i: "s \<le> i" "i \<le> o'" and inv: "scan_inv d s M ms i rot"
  shows "\<exists>rot'. scan_mac (sz ms) (sz (ms + M)) (sz M) (drop i (take o' d)) (sz i) (sz ((i - s) mod M))
      (if ms < i \<and> i \<le> ms + M then - 1 else 0) (if ms < i then sz ((ms - s) mod M) else 0) rot
    = Ret (sz ((ms - s) mod M), rot') \<and> length rot' = length rot \<and> scan_inv d s M ms o' rot'"
  using i inv M(2)
proof (induction "o' - i" arbitrary: i rot)
  case 0
  then have "i = o'" by simp
  then show ?case using 0 s M by auto
next
  case (Suc k)
  then have lt: "i < o'" by simp
  then have dr: "drop i (take o' d) = d ! i # drop (Suc i) (take o' d)"
    using d by (metis Cons_nth_drop_Suc length_take min.absorb2 nth_take)
  have b: "i < 2 ^ 64" "ms < 2 ^ 64" "ms + M < 2 ^ 64" "M < 2 ^ 64" using lt d s by linarith+
  have j: "(i - s) mod M < M" using M(1) by simp
  then have jl: "(i - s) mod M < length rot" "(i - s) mod M < 2 ^ 64" "Suc ((i - s) mod M) < 2 ^ 64"
    using Suc.prems(4) b by linarith+
  have nextj: "sz ((i - s) mod M) + 1 AND constant_time_lt_s (sz ((i - s) mod M) + 1) (sz M) = sz ((Suc i - s) mod M)"
  proof -
    have "(Suc i - s) mod M = (if Suc ((i - s) mod M) < M then Suc ((i - s) mod M) else 0)"
      using Suc.prems(1) j by (simp add: Suc_diff_le mod_Suc)
    then show ?thesis unfolding sz_Suc lt_s.and_test sz_less [OF jl(3) b(4)] by simp
  qed
  define rot1 where "rot1 = rot[(i - s) mod M := rot ! ((i - s) mod M) OR (if ms \<le> i \<and> i < ms + M then d ! i else 0)]"
  have inm: "((if ms < i \<and> i \<le> ms + M then - 1 else 0) OR constant_time_eq_s (sz i) (sz ms)) AND constant_time_lt_s (sz i) (sz (ms + M))
      = (if ms < Suc i \<and> Suc i \<le> ms + M then - 1 else 0)"
    unfolding eq_s.test_mask lt_s.test_mask sz_eq [OF b(1,2)] sz_less [OF b(1,3)] by auto
  have ro: "(if ms < i then sz ((ms - s) mod M) else 0) OR (sz ((i - s) mod M) AND constant_time_eq_s (sz i) (sz ms))
      = (if ms < Suc i then sz ((ms - s) mod M) else 0)"
    unfolding eq_s.and_test sz_eq [OF b(1,2)] by auto
  have upd: "rot[(i - s) mod M := rot ! ((i - s) mod M) OR ucast (ucast (d ! i) AND (if ms < Suc i \<and> Suc i \<le> ms + M then - 1 else 0 :: ulong))] = rot1"
    unfolding rot1_def by (auto simp: less_Suc_eq_le Suc_le_eq ucast_byte)
  have inv1: "scan_inv d s M ms (Suc i) rot1" unfolding rot1_def
    using Suc.prems(3) M(1) Suc.prems(4) s(1) Suc.prems(1) by (rule scan_inv_step)
  have "\<exists>rot'. scan_mac (sz ms) (sz (ms + M)) (sz M) (drop (Suc i) (take o' d)) (sz (Suc i)) (sz ((Suc i - s) mod M))
      (if ms < Suc i \<and> Suc i \<le> ms + M then - 1 else 0) (if ms < Suc i then sz ((ms - s) mod M) else 0) rot1
    = Ret (sz ((ms - s) mod M), rot') \<and> length rot' = length rot1 \<and> scan_inv d s M ms o' rot'"
    using Suc.hyps(2) Suc.prems lt inv1 by (intro Suc.hyps(1)) (auto simp: rot1_def)
  then show ?case
    unfolding dr scan_mac.simps Let_def inm ro nextj unat_sz [OF jl(2)] upd sz_Suc [of i]
    using jl(1) by (simp add: rot1_def)
qed


section \<open>Rotating it into place\<close>

text \<open>The two loads of a round cover the two halves of the buffer, and the mask selects the right one.\<close>

lemma half_index:
  "\<forall>x \<in> set [0..<64]. unat (sz x AND NOT 32) < 64 \<and> unat (sz x OR 32) < 64
     \<and> (if (ucast (sz x AND NOT 32) :: uint) = ucast (sz x) then unat (sz x AND NOT 32) = x else unat (sz x OR 32) = x)"
  by code_simp

lemma rotate_mac_eq:
  assumes rot: "64 \<le> length rot" and M: "0 < M" "M \<le> 64"
    and good: "good = - 1 \<or> good = 0"
  shows "x < M \<Longrightarrow> rotate_mac (sz M) good rot rs (sz x) =
    Ret (if good = 0 then rs else map (\<lambda>k. rot ! ((x + k) mod M)) [0..<length rs])"
proof (induction rs arbitrary: x)
  case (Cons r rs)
  have x: "x < 64" using Cons.prems M by simp
  note h = half_index [rule_format, of x, simplified set_upt atLeastLessThan_iff, OF conjI [OF le0 x]]
  have nx: "sz x + 1 AND constant_time_lt_s (sz x + 1) (sz M) = sz (Suc x mod M)"
  proof -
    have "Suc x < 2 ^ 64" "M < 2 ^ 64" using x M by simp_all
    from sz_less [OF this] show ?thesis unfolding sz_Suc lt_s.and_test using Cons.prems by (simp add: mod_Suc)
  qed
  have aux: "constant_time_select_8 (constant_time_eq_8 (ucast (sz x AND NOT 32)) (ucast (sz x)))
      (rot ! unat (sz x AND NOT 32)) (rot ! unat (sz x OR 32)) = rot ! x"
    using h unfolding eq_8.test_mask by (auto split: if_splits)
  have sel: "constant_time_select_8 (ucast (good AND 0xff)) y r = (if good = 0 then r else y)" for y
  proof -
    have "(255 :: byte) = - 1" by simp
    then have "constant_time_select_8 255 y r = y" by (metis select_8_masks(1))
    then show ?thesis using good by auto
  qed
  have "Suc x mod M < M" using M by simp
  note IH = Cons.IH [OF this]
  have "map (\<lambda>k. rot ! ((x + k) mod M)) [0..<length (r # rs)] = rot ! x # map (\<lambda>k. rot ! ((Suc x mod M + k) mod M)) [0..<length rs]"
    using Cons.prems by (simp add: upt_conv_Cons map_Suc_upt [symmetric] mod_add_left_eq del: upt_Suc)
  then show ?case
    unfolding rotate_mac.simps Let_def aux sel nx IH using h rot by auto
qed simp

section \<open>The MAC of a record\<close>

lemma scan_inv_start: "scan_inv d s M ms s (patch stk 0 (replicate M 0))" if "s \<le> ms" "M \<le> length stk"
  using that by (auto simp: scan_inv_def patch_def nth_append)

text \<open>
  The copy as the specification has it: with \<open>n\<close> bytes left of the record after the padding, the MAC is its
  last \<open>M\<close> bytes, or random bytes when the padding was bad. The position of the MAC may be anywhere in
  the last \<open>M + 256\<close> bytes of the original record.
\<close>

lemma copy_mac_eq:
  assumes d: "o' \<le> length d" "o' < 2 ^ 63" and M: "0 < M" "M \<le> 64" and n: "M \<le> n" "n \<le> o'" "o' \<le> n + 256"
    and stk: "64 \<le> length stk" and r: "rand M = Some rs" "length rs = M" and mem: "mem M" and bs: "block_size \<noteq> 1"
    and good: "good = - 1 \<or> good = 0"
  shows "ssl3_cbc_copy_mac mem rand stk True True (sz n) (sz o') d block_size (sz M) good =
    Ret (True, sz (n - M), Some (Alloced (if good = 0 then rs else take M (drop (n - M) d))))"
proof -
  define s where "s = o' - (M + 256)"
  have b: "o' < 2 ^ 64" "M < 2 ^ 64" "n < 2 ^ 64" "M + 256 < 2 ^ 64" using d M n by simp_all
  have le: "s \<le> n - M" "n - M + M = n" using n by (simp_all add: s_def)
  have ss: "(if sz M + 255 + 1 < sz o' then sz o' - (sz M + 255 + 1) else 0) = sz s"
  proof -
    have e: "sz M + 255 + 1 = sz (M + 256)" by simp
    show ?thesis unfolding e sz_less [OF b(4,1)] s_def using sz_diff [of "M + 256" o'] by (auto simp del: of_nat_add)
  qed
  have len: "length (patch stk 0 (replicate M 0)) = length stk" using stk M by simp
  have start: "sz ((s - s) mod M) = 0" "(if n - M < s \<and> s \<le> n - M + M then - 1 else 0 :: ulong) = 0"
    "(if n - M < s then sz ((n - M - s) mod M) else 0) = 0" using le by simp_all
  obtain rot where scan: "scan_mac (sz (n - M)) (sz n) (sz M) (drop s (take o' d)) (sz s) 0 0 0 (patch stk 0 (replicate M 0))
      = Ret (sz ((n - M - s) mod M), rot)" "length rot = length stk" "scan_inv d s M (n - M) o' rot"
    using scan_mac_finds [of o' d M "patch stk 0 (replicate M 0)" s "n - M" s] scan_inv_start [of s "n - M" M stk d]
      d(1) b(1) M le n stk len unfolding start by (auto simp: s_def)
  have rot: "rotate_mac (sz M) good rot rs (sz ((n - M - s) mod M)) =
      Ret (if good = 0 then rs else map (\<lambda>k. rot ! (((n - M - s) mod M + k) mod M)) [0..<length rs])"
    using scan(2) stk M good by (intro rotate_mac_eq) auto
  have "map (\<lambda>k. rot ! (((n - M - s) mod M + k) mod M)) [0..<length rs] = take M (drop (n - M) d)"
  proof (rule nth_equalityI)
    show "length (map (\<lambda>k. rot ! (((n - M - s) mod M + k) mod M)) [0..<length rs]) = length (take M (drop (n - M) d))"
      using r(2) d n by simp
    fix k assume "k < length (map (\<lambda>k. rot ! (((n - M - s) mod M + k) mod M)) [0..<length rs])"
    then have k: "k < M" using r(2) by simp
    have "rot ! ((n - M + k - s) mod M) = d ! (n - M + k)"
    proof -
      have "n - M \<le> n - M + k \<and> n - M + k < min o' (n - M + M)" using k n by arith
      then show ?thesis using scan(3) unfolding scan_inv_def by blast
    qed
    moreover have "n - M - s + k = n - M + k - s" using le(1) by simp
    then have "((n - M - s) mod M + k) mod M = (n - M + k - s) mod M" by (simp only: mod_add_left_eq)
    ultimately show "map (\<lambda>k. rot ! (((n - M - s) mod M + k) mod M)) [0..<length rs] ! k = take M (drop (n - M) d) ! k"
      using k r(2) d n by simp
  qed
  then have rot: "rotate_mac (sz M) good rot rs (sz ((n - M - s) mod M)) =
      Ret (if good = 0 then rs else take M (drop (n - M) d))" using rot by simp
  have "s < 2 ^ 64" using b(1) by (simp add: s_def)
  then have un: "unat (sz M) = M" "unat (sz o') = o'" "unat (sz s) = s" using b by simp_all
  have c: "sz M \<le> sz o'" "sz M \<noteq> 0" "(length d < o' \<or> length stk < M) = False" "take M rs = rs"
    using d(1) sz_le [OF b(2,1)] sz_eq [OF b(2), of 0] n M stk r(2) by simp_all
  show ?thesis
    unfolding ssl3_cbc_copy_mac_def Let_def ss un sz_diff [OF n(1)] r(1)
    using c(1,2,4) M(2) bs mem by (simp only: c(3) scan(1) rot obind.simps prod.case option.case if_True if_False simp_thms not_less)
qed

section \<open>Checking the padding\<close>

lemma low_byte_ones: "x AND 0xff = 0xff \<longleftrightarrow> (ucast x :: byte) = - 1" for x :: ulong
proof -
  have m: "(0xff :: ulong) = mask 8" by (simp add: mask_eq_exp_minus_1)
  have "(\<forall>n < 64. (bit x n \<and> n < 8) = (n < 8)) \<longleftrightarrow> (\<forall>n < 8. bit x n)"
    by (metis less_trans numeral_less_iff semiring_norm(76,78,80))
  then show ?thesis unfolding m by (simp add: bit_eq_iff bit_simps)
qed

lemma byte_and_ones: "a AND b = - 1 \<longleftrightarrow> a = - 1 \<and> b = (- 1 :: byte)"
  by (auto simp: bit_eq_iff bit_simps)

lemma byte_not_ones: "NOT a = - 1 \<longleftrightarrow> a = (0 :: byte)"
  by (auto simp: bit_eq_iff bit_simps)

lemma check_step_byte:
  "(ucast (g AND NOT (ucast mk AND (ucast p XOR ucast b)) :: ulong) :: byte) = ucast g AND NOT (mk AND (p XOR b))"
  for p b mk :: byte and g :: ulong
  by (rule bit_word_eqI) (auto simp: bit_simps)

lemma check_padding_eq:
  assumes L: "L \<le> length d" "L < 2 ^ 64"
  shows "i + n \<le> L \<Longrightarrow> \<exists>g. check_padding d (sz L) (ucast p) n (sz i) good = Ret g
    \<and> (ucast g = (- 1 :: byte) \<longleftrightarrow> ucast good = (- 1 :: byte) \<and> (\<forall>j. i \<le> j \<and> j < i + n \<and> j \<le> unat p \<longrightarrow> d ! (L - 1 - j) = p))"
proof (induction n arbitrary: i good)
  case (Suc n)
  have lt: "i < L" "i < 2 ^ 64" "unat p < 2 ^ 64" using Suc.prems L unsigned_less [of p, where ?'a = nat] by auto
  have idx: "unat (sz L - 1 - sz i) = L - 1 - i"
  proof -
    have "sz L - 1 - sz i = sz (L - 1 - i)" using lt(1) by (simp add: of_nat_diff)
    then show ?thesis using L(2) by simp
  qed
  define good' where "good' = good AND NOT (ucast (constant_time_ge_8_s (ucast p) (sz i)) AND (ucast p XOR ucast (d ! (L - 1 - i)) :: ulong))"
  have g': "ucast good' = (- 1 :: byte) \<longleftrightarrow> ucast good = (- 1 :: byte) \<and> (i \<le> unat p \<longrightarrow> d ! (L - 1 - i) = p)"
  proof -
    have "(ucast p :: ulong) < sz i \<longleftrightarrow> unat p < i" unfolding ucast_unat by (rule sz_less [OF lt(3,2)])
    then show ?thesis
      unfolding good'_def check_step_byte byte_and_ones byte_not_ones ge_8_s.and_test
      by (auto simp: xor_eq_0_iff)
  qed
  obtain g where g: "check_padding d (sz L) (ucast p) n (sz (Suc i)) good' = Ret g"
    "ucast g = (- 1 :: byte) \<longleftrightarrow> ucast good' = (- 1 :: byte) \<and> (\<forall>j. Suc i \<le> j \<and> j < Suc i + n \<and> j \<le> unat p \<longrightarrow> d ! (L - 1 - j) = p)"
    using Suc.IH [of "Suc i" good'] Suc.prems by auto
  have split: "(\<forall>j. i \<le> j \<and> j < i + Suc n \<and> j \<le> unat p \<longrightarrow> Q j) \<longleftrightarrow> (i \<le> unat p \<longrightarrow> Q i) \<and> (\<forall>j. Suc i \<le> j \<and> j < Suc i + n \<and> j \<le> unat p \<longrightarrow> Q j)" for Q
  proof -
    have "i \<le> j \<longleftrightarrow> j = i \<or> Suc i \<le> j" for j by auto
    then show ?thesis by auto
  qed
  show ?case
    unfolding check_padding.simps Let_def idx sz_Suc [of i] good'_def [symmetric] split
    using g g' lt L by simp
qed auto

text \<open>The plain description of valid TLS padding, and what is left of the record.\<close>

definition tls_padding_ok :: "byte list \<Rightarrow> nat \<Rightarrow> nat \<Rightarrow> bool" where
  "tls_padding_ok d L M \<longleftrightarrow>
     (let p = d ! (L - 1) in unat p + 1 + M \<le> L \<and> (\<forall>j \<le> unat p. d ! (L - 1 - j) = p))"

definition unpadded :: "byte list \<Rightarrow> nat \<Rightarrow> bool \<Rightarrow> nat" where
  "unpadded d L ok = (if ok then L - (unat (d ! (L - 1)) + 1) else L)"

lemma tls_good:
  assumes L: "L \<le> length d" "L < 2 ^ 63" and M: "M \<le> 64" "1 + M \<le> L"
  defines "p \<equiv> d ! (L - 1)"
  shows "\<exists>g. check_padding d (sz L) (ucast p) (unat (if 256 > sz L then sz L else 256)) 0
      (constant_time_ge_s (sz L) (1 + sz M + ucast p)) = Ret g
    \<and> constant_time_eq_s 0xff (g AND 0xff) = (if tls_padding_ok d L M then - 1 else 0)"
proof -
  have p: "unat p < 256" using unsigned_less [of p, where ?'a = nat] by simp
  have b: "L < 2 ^ 64" "1 + M + unat p < 2 ^ 64" using L M p by auto
  have c256: "256 = sz 256" by simp
  have n: "unat (if 256 > sz L then sz L else 256) = min L 256"
    using b(1) sz_less [of L 256] by (simp add: c256 [symmetric] min_def)
  have ge: "constant_time_ge_s (sz L) (1 + sz M + ucast p) = (if 1 + M + unat p \<le> L then - 1 else 0)"
  proof -
    have e: "1 + sz M + ucast p = sz (1 + M + unat p)" by simp
    show ?thesis unfolding ge_s.test_mask e sz_less [OF b] by (simp only: not_less)
  qed
  obtain g where g: "check_padding d (sz L) (ucast p) (min L 256) (sz 0) (if 1 + M + unat p \<le> L then - 1 else 0) = Ret g"
    "ucast g = (- 1 :: byte) \<longleftrightarrow> ucast (if 1 + M + unat p \<le> L then - 1 else 0 :: ulong) = (- 1 :: byte)
        \<and> (\<forall>j. 0 \<le> j \<and> j < 0 + min L 256 \<and> j \<le> unat p \<longrightarrow> d ! (L - 1 - j) = p)"
    using check_padding_eq [OF L(1) b(1), of 0 "min L 256" p "if 1 + M + unat p \<le> L then - 1 else 0"] by auto
  have "ucast g = (- 1 :: byte) \<longleftrightarrow> tls_padding_ok d L M"
    unfolding g(2) tls_padding_ok_def Let_def p_def [symmetric] using p by (auto simp: add.commute)
  moreover have "constant_time_eq_s 0xff (g AND 0xff) = (if ucast g = (- 1 :: byte) then - 1 else 0)"
    unfolding eq_s.test_mask low_byte_ones [symmetric] eq_commute [of "g AND 0xff"] by (rule refl)
  ultimately show ?thesis using g(1) unfolding n ge by simp
qed


text \<open>The plain description of valid SSLv3 padding: it is minimal; its bytes are not checked.\<close>

definition ssl3_padding_ok :: "byte list \<Rightarrow> nat \<Rightarrow> nat \<Rightarrow> nat \<Rightarrow> bool" where
  "ssl3_padding_ok d L M B \<longleftrightarrow> unat (d ! (L - 1)) + 1 + M \<le> L \<and> unat (d ! (L - 1)) + 1 \<le> B"

text \<open>
  What both removals should do with a record of \<open>L\<close> bytes and a MAC of \<open>M\<close> bytes, as a specification with
  ordinary decisions: \<open>ok\<close> says whether the padding is valid, \<open>rs\<close> are the random bytes.
\<close>

definition unpad_spec :: "byte list \<Rightarrow> nat \<Rightarrow> nat \<Rightarrow> bool \<Rightarrow> byte list \<Rightarrow> bool \<times> ulong \<times> MAC_PTR option" where
  "unpad_spec d L M ok rs =
     (if L < 1 + M then (False, sz L, None)
      else
        let n = unpadded d L ok in
        if M = 0 then (ok, sz n, None)
        else (True, sz (n - M), Some (Alloced (if ok then take M (drop (n - M) d) else rs))))"

lemma copy_after_unpad:
  assumes L: "L \<le> length d" "L < 2 ^ 63" and M: "M \<le> 64" "1 + M \<le> L"
    and ok: "ok \<Longrightarrow> unat (d ! (L - 1)) + 1 + M \<le> L"
    and stk: "64 \<le> length stk" and r: "rand M = Some rs" "length rs = M" and mem: "mem M" and bs: "block_size \<noteq> 1"
  shows "ssl3_cbc_copy_mac mem rand stk True True
      (sz L - ((if ok then - 1 else 0) AND (ucast (d ! (L - 1)) + 1))) (sz L) d block_size (sz M) (if ok then - 1 else 0)
    = Ret (unpad_spec d L M ok rs)"
proof -
  let ?n = "unpadded d L ok"
  have p: "unat (d ! (L - 1)) < 256" using unsigned_less [of "d ! (L - 1)", where ?'a = nat] by simp
  have n: "M \<le> ?n" "?n \<le> L" "L \<le> ?n + 256" using ok M p by (auto simp: unpadded_def)
  have sub: "sz L - ((if ok then - 1 else 0) AND (ucast (d ! (L - 1)) + 1)) = sz ?n"
  proof -
    have e: "ucast (d ! (L - 1)) + 1 = sz (unat (d ! (L - 1)) + 1)" by simp
    have "ok \<Longrightarrow> sz L - sz (unat (d ! (L - 1)) + 1) = sz (L - (unat (d ! (L - 1)) + 1))" using ok by (intro sz_diff) simp
    then show ?thesis unfolding e unpadded_def
      by (cases ok) (simp_all only: if_True if_False and.left_neutral zero_and_eq diff_zero)
  qed
  show ?thesis
  proof (cases "M = 0")
    case True
    then show ?thesis unfolding sub using M(2) by (simp add: ssl3_cbc_copy_mac_def unpad_spec_def)
  next
    case False
    have "(if ok then - 1 else 0 :: ulong) = 0 \<longleftrightarrow> \<not> ok" by simp
    then show ?thesis
      unfolding sub using copy_mac_eq [where rand = rand and mem = mem and M = M and rs = rs and good = "if ok then - 1 else 0", OF L _ M(1) n stk r mem bs]
        False M(2)
      by (simp add: unpad_spec_def Let_def)
  qed
qed

lemma last_index: "0 < L \<Longrightarrow> L < 2 ^ 64 \<Longrightarrow> unat (sz L - 1) = L - 1"
proof -
  assume L: "0 < L" "L < 2 ^ 64"
  then have "sz L - 1 = sz (L - 1)" using sz_diff [of 1 L] by (simp add: of_nat_diff)
  then show ?thesis using L(2) by (metis less_imp_diff_less unat_sz)
qed

lemma tls1_unpad:
  assumes "L \<le> length d" "L < 2 ^ 63" and "M \<le> 64" and "64 \<le> length stk" and "rand M = Some rs" "length rs = M" and "mem M"
    and bs: "block_size \<noteq> 1"
  shows "tls1_cbc_remove_padding_and_mac mem rand stk True True (sz L) (sz L) d block_size (sz M) False =
    Ret (unpad_spec d L M (tls_padding_ok d L M) rs)"
proof -
  have b: "L < 2 ^ 64" "1 + M < 2 ^ 64" using assms by auto
  have ov: "(if block_size = 1 then 0 else 1) + sz M = sz (1 + M)" using bs by simp
  show ?thesis
  proof (cases "L < 1 + M")
    case True
    then show ?thesis
      unfolding tls1_cbc_remove_padding_and_mac_def Let_def ov sz_less [OF b] by (simp add: unpad_spec_def)
  next
    case False
    then have L: "1 + M \<le> L" "L - 1 < length d" using assms(1) by auto
    have idx: "unat (sz L - 1) = L - 1" using L(1) b(1) by (intro last_index) auto
    obtain g where g: "check_padding d (sz L) (ucast (d ! (L - 1))) (unat (if 256 > sz L then sz L else 256)) 0
        (constant_time_ge_s (sz L) (1 + sz M + ucast (d ! (L - 1)))) = Ret g"
      "constant_time_eq_s 0xff (g AND 0xff) = (if tls_padding_ok d L M then - 1 else 0)"
      using tls_good [OF assms(1,2,3) L(1)] by auto
    have ov': "sz (1 + M) = 1 + sz M" by simp
    have ok: "tls_padding_ok d L M \<Longrightarrow> unat (d ! (L - 1)) + 1 + M \<le> L"
      unfolding tls_padding_ok_def Let_def by (rule conjunct1)
    have copy: "ssl3_cbc_copy_mac mem rand stk True True
        (sz L - ((if tls_padding_ok d L M then - 1 else 0) AND (ucast (d ! (L - 1)) + 1))) (sz L) d block_size (sz M)
        (if tls_padding_ok d L M then - 1 else 0) = Ret (unpad_spec d L M (tls_padding_ok d L M) rs)"
      using assms(1,2,3) L(1) ok assms(4-8) by (rule copy_after_unpad)
    have inside: "(length d \<le> L - 1) = False" using L(2) by simp
    show ?thesis
      unfolding tls1_cbc_remove_padding_and_mac_def Let_def ov sz_less [OF b] idx ov' sz_less [OF b, unfolded ov'] g(1) obind.simps g(2)
      by (simp only: copy False bs inside if_False if_True simp_thms)
  qed
qed

section \<open>Properties\<close>

text \<open>
  C31: the constant-time removal of TLS padding and MAC is the plain one. For every record and every
  content, it never reads outside the record, and its result is that of the specification: when the last byte \<open>p\<close>
  says that the record ends in \<open>p + 1\<close> bytes of value \<open>p\<close> and it does, these and the MAC before them are taken off
  and the MAC is returned; otherwise only the length of a MAC is taken off and the MAC returned is random.
\<close>

theorem tls1_unpad_exact:
  assumes "L \<le> length d" "L < 2 ^ 63" and "M \<le> 64" and "64 \<le> length stk" and "rand M = Some rs" "length rs = M" and "mem M"
    and bs: "block_size \<noteq> 1"
  shows "tls1_cbc_remove_padding_and_mac mem rand stk True True (sz L) (sz L) d block_size (sz M) False =
    Ret (unpad_spec d L M (tls_padding_ok d L M) rs)"
  using assms by (rule tls1_unpad)

theorem tls1_unpad_exact_witness:
  "tls1_cbc_remove_padding_and_mac (\<lambda>_. True) (\<lambda>n. Some (replicate n 0)) (replicate 64 0) True True 6 6
      [10, 20, 7, 8, 1, 1] 16 2 False = Ret (True, 2, Some (Alloced [7, 8]))
   \<and> tls1_cbc_remove_padding_and_mac (\<lambda>_. True) (\<lambda>n. Some (replicate n 0)) (replicate 64 0) True True 6 6
      [10, 20, 7, 8, 9, 1] 16 2 False = Ret (True, 4, Some (Alloced [0, 0]))"
proof -
  have r: "replicate 2 0 = [0, 0 :: byte]" by (simp add: numeral_2_eq_2)
  have good: "tls_padding_ok [10, 20, 7, 8, 1, 1] 6 2" by code_simp
  have bad: "\<not> tls_padding_ok [10, 20, 7, 8, 9, 1] 6 2" by code_simp
  show ?thesis
    using tls1_unpad_exact [of 6 "[10, 20, 7, 8, 1, 1]" 2 "replicate 64 0" "\<lambda>n. Some (replicate n 0)" "[0, 0]" "\<lambda>_. True" 16]
      tls1_unpad_exact [of 6 "[10, 20, 7, 8, 9, 1]" 2 "replicate 64 0" "\<lambda>n. Some (replicate n 0)" "[0, 0]" "\<lambda>_. True" 16]
      good bad
    by (simp add: unpad_spec_def unpadded_def r)
qed

text \<open>
  The same for SSLv3, where the padding is valid when it is no longer than a block.
\<close>

theorem ssl3_unpad_exact:
  assumes "L \<le> length d" "L < 2 ^ 63" and "M \<le> 64" and "64 \<le> length stk" and "rand M = Some rs" "length rs = M" and "mem M"
    and bs: "B < 2 ^ 64" "B \<noteq> 1"
  shows "ssl3_cbc_remove_padding_and_mac mem rand stk True True (sz L) (sz L) d (sz B) (sz M) =
    Ret (unpad_spec d L M (ssl3_padding_ok d L M B) rs)"
proof -
  have p: "unat (d ! (L - 1)) < 256" using unsigned_less [of "d ! (L - 1)", where ?'a = nat] by simp
  have b: "L < 2 ^ 64" "1 + M < 2 ^ 64" "unat (d ! (L - 1)) + 1 < 2 ^ 64" "unat (d ! (L - 1)) + (1 + M) < 2 ^ 64"
    using assms p by auto
  have ov: "1 + sz M = sz (1 + M)" by simp
  show ?thesis
  proof (cases "L < 1 + M")
    case True
    then show ?thesis
      unfolding ssl3_cbc_remove_padding_and_mac_def Let_def ov sz_less [OF b(1,2)] by (simp add: unpad_spec_def)
  next
    case False
    then have L: "1 + M \<le> L" "L - 1 < length d" using assms(1) by auto
    have idx: "unat (sz L - 1) = L - 1" using L(1) b(1) by (intro last_index) auto
    have sums: "ucast (d ! (L - 1)) + sz (1 + M) = sz (unat (d ! (L - 1)) + (1 + M))"
      "ucast (d ! (L - 1)) + 1 = sz (unat (d ! (L - 1)) + 1)" by simp_all
    have good: "constant_time_ge_s (sz L) (ucast (d ! (L - 1)) + sz (1 + M)) AND constant_time_ge_s (sz B) (ucast (d ! (L - 1)) + 1)
        = (if ssl3_padding_ok d L M B then - 1 else 0)"
      unfolding ge_s.test_mask sums sz_less [OF b(1,4)] sz_less [OF bs(1) b(3)] by (auto simp: ssl3_padding_ok_def)
    have B: "sz B \<noteq> 1" using sz_eq [OF bs(1), of 1] bs(2) by simp
    have ok: "ssl3_padding_ok d L M B \<Longrightarrow> unat (d ! (L - 1)) + 1 + M \<le> L" by (simp add: ssl3_padding_ok_def)
    have copy: "ssl3_cbc_copy_mac mem rand stk True True
        (sz L - ((if ssl3_padding_ok d L M B then - 1 else 0) AND (ucast (d ! (L - 1)) + 1))) (sz L) d (sz B) (sz M)
        (if ssl3_padding_ok d L M B then - 1 else 0) = Ret (unpad_spec d L M (ssl3_padding_ok d L M B) rs)"
      using assms(1,2,3) L(1) ok assms(4-7) B by (rule copy_after_unpad)
    have inside: "(length d \<le> L - 1) = False" using L(2) by simp
    show ?thesis
      unfolding ssl3_cbc_remove_padding_and_mac_def Let_def ov sz_less [OF b(1,2)] idx good
      by (simp only: copy False inside if_False)
  qed
qed

theorem ssl3_unpad_exact_witness:
  "ssl3_cbc_remove_padding_and_mac (\<lambda>_. True) (\<lambda>n. Some (replicate n 0)) (replicate 64 0) True True 6 6
      [10, 20, 7, 8, 9, 1] 16 2 = Ret (True, 2, Some (Alloced [7, 8]))
   \<and> ssl3_cbc_remove_padding_and_mac (\<lambda>_. True) (\<lambda>n. Some (replicate n 0)) (replicate 64 0) True True 6 6
      [10, 20, 7, 8, 9, 4] 16 2 = Ret (True, 4, Some (Alloced [0, 0]))"
proof -
  have r: "replicate 2 0 = [0, 0 :: byte]" by (simp add: numeral_2_eq_2)
  have good: "ssl3_padding_ok [10, 20, 7, 8, 9, 1] 6 2 16" by (simp add: ssl3_padding_ok_def)
  have bad: "\<not> ssl3_padding_ok [10, 20, 7, 8, 9, 4] 6 2 16" by (simp add: ssl3_padding_ok_def)
  show ?thesis
    using ssl3_unpad_exact [of 6 "[10, 20, 7, 8, 9, 1]" 2 "replicate 64 0" "\<lambda>n. Some (replicate n 0)" "[0, 0]" "\<lambda>_. True" 16]
      ssl3_unpad_exact [of 6 "[10, 20, 7, 8, 9, 4]" 2 "replicate 64 0" "\<lambda>n. Some (replicate n 0)" "[0, 0]" "\<lambda>_. True" 16]
      good bad
    by (simp add: unpad_spec_def unpadded_def r)
qed

end
