(* ===== verification/Cipher_Modes.thy ===== *)
theory Cipher_Modes
  imports CBC_Pad
begin

text \<open>
  The block modes of operation: \<open>crypto/modes/cbc128.c\<close> and the generic functions that a provider cipher calls
  through its \<open>hw->cipher\<close> pointer, \<open>providers/implementations/ciphers/ciphercommon_hw.c\<close> (CBC and ECB), with the
  context they work on, \<open>PROV_CIPHER_CTX\<close> of \<open>include/providers/ciphercommon.h\<close>.

  The block function is the field \<open>ctx_block\<close>: what \<open>(*block)(in, out, key)\<close> writes to \<open>out\<close> for 16 bytes of input
  with the key schedule the context holds. The assembler routines that a context can carry in \<open>stream\<close> are
  optional fields. Exclusive or on machine words is exclusive or on their bytes, whatever their order.

  The locale \<open>block_mode\<close> is what the buffering code above relies on: on whole blocks, a mode is a function
  \<open>crypt\<close> that can be applied piece by piece, the IV carrying over.
\<close>

section \<open>The context\<close>

abbreviation GENERIC_BLOCK_SIZE :: nat where "GENERIC_BLOCK_SIZE \<equiv> 16"

record PROV_CIPHER_CTX =
  ctx_oiv :: "byte list"
  ctx_buf :: "byte list"
  ctx_iv :: "byte list"
  ctx_block :: "byte list \<Rightarrow> byte list"
  stream_cbc :: "(byte list \<Rightarrow> byte list \<Rightarrow> bool \<Rightarrow> byte list \<times> byte list) option"
  stream_ecb :: "(byte list \<Rightarrow> bool \<Rightarrow> byte list) option"
  stream_ctr :: "(byte list \<Rightarrow> nat \<Rightarrow> byte list \<Rightarrow> byte list) option"
  ctx_mode :: nat
  ctx_keylen :: nat
  ctx_ivlen :: nat
  ctx_blocksize :: nat
  ctx_bufsz :: nat
  ctx_pad :: bool
  ctx_enc :: bool
  ctx_iv_set :: bool
  ctx_key_set :: bool
  ctx_updated :: bool
  ctx_variable_keylength :: bool
  ctx_inverse_cipher :: bool
  ctx_use_bits :: bool
  ctx_tlsversion :: uint
  ctx_tlsmac :: "MAC_PTR option"
  ctx_alloced :: bool
  ctx_tlsmacsize :: nat
  ctx_removetlspad :: bool
  ctx_removetlsfixed :: nat
  ctx_num :: uint

section \<open>CBC\<close>

abbreviation xor_bytes :: "byte list \<Rightarrow> byte list \<Rightarrow> byte list" where
  "xor_bytes \<equiv> map2 (XOR)"

text \<open>The loop over whole blocks: the final IV, the input left over and the output.\<close>

function cbc128_encrypt_blocks :: "(byte list \<Rightarrow> byte list) \<Rightarrow> byte list \<Rightarrow> byte list \<Rightarrow> byte list \<times> byte list \<times> byte list" where
  "cbc128_encrypt_blocks block iv inp =
     (if 16 \<le> length inp then
        let out = block (xor_bytes (take 16 inp) iv);
            (iv, inp, outs) = cbc128_encrypt_blocks block out (drop 16 inp)
        in (iv, inp, out @ outs)
      else (iv, inp, []))"
  by pat_completeness auto
termination by (relation "measure (\<lambda>(block, iv, inp). length inp)") auto

declare cbc128_encrypt_blocks.simps [simp del]

text \<open>The loop for what is left, where the last block is completed with bytes of the IV.\<close>

function cbc128_encrypt_tail :: "(byte list \<Rightarrow> byte list) \<Rightarrow> byte list \<Rightarrow> byte list \<Rightarrow> byte list \<times> byte list" where
  "cbc128_encrypt_tail block iv inp =
     (if inp = [] then (iv, [])
      else
        let out = block (xor_bytes (take 16 inp) iv @ drop (length inp) iv) in
        if length inp \<le> 16 then (out, out)
        else
          let (iv, outs) = cbc128_encrypt_tail block out (drop 16 inp)
          in (iv, out @ outs))"
  by pat_completeness auto
termination by (relation "measure (\<lambda>(block, iv, inp). length inp)") auto

declare cbc128_encrypt_tail.simps [simp del]

text \<open>
  The result is the new contents of \<open>ivec\<close> and the bytes written from \<open>out\<close> on: whole blocks, also when \<open>len\<close> is
  not a multiple of 16. The input object has to have \<open>len\<close> bytes.
\<close>

definition CRYPTO_cbc128_encrypt ::
    "byte list \<Rightarrow> nat \<Rightarrow> byte list \<Rightarrow> (byte list \<Rightarrow> byte list) \<Rightarrow> (byte list \<times> byte list) outcome" where
  "CRYPTO_cbc128_encrypt inp len ivec block =
     (if len = 0 then Ret (ivec, [])
      else if length inp < len then Undef
      else
        let (iv, rest, out) = cbc128_encrypt_blocks block ivec (take len inp);
            (iv, out') = cbc128_encrypt_tail block iv rest
        in Ret (iv, out @ out'))"

text \<open>Decryption into another object: the IV of the next block is the input block itself.\<close>

function cbc128_decrypt_apart :: "(byte list \<Rightarrow> byte list) \<Rightarrow> byte list \<Rightarrow> byte list \<Rightarrow> byte list \<times> byte list \<times> byte list" where
  "cbc128_decrypt_apart block iv inp =
     (if 16 \<le> length inp then
        let out = xor_bytes (block (take 16 inp)) iv;
            (iv, inp, outs) = cbc128_decrypt_apart block (take 16 inp) (drop 16 inp)
        in (iv, inp, out @ outs)
      else (iv, inp, []))"
  by pat_completeness auto
termination by (relation "measure (\<lambda>(block, iv, inp). length inp)") auto

declare cbc128_decrypt_apart.simps [simp del]

text \<open>
  Decryption in place: the block is decrypted into \<open>tmp\<close>, and each byte of the input is saved in \<open>ivec\<close> before the
  output overwrites it. The result of a round is the new \<open>ivec\<close> and the output block.
\<close>

fun inplace_round :: "byte list \<Rightarrow> byte list \<Rightarrow> byte list \<Rightarrow> byte list \<times> byte list" where
  "inplace_round (t # tmp) (c # inp) (v # ivec) = (let (ivec, out) = inplace_round tmp inp ivec in (c # ivec, (t XOR v) # out))"
| "inplace_round tmp inp ivec = (ivec, [])"

function cbc128_decrypt_inplace :: "(byte list \<Rightarrow> byte list) \<Rightarrow> byte list \<Rightarrow> byte list \<Rightarrow> byte list \<times> byte list \<times> byte list" where
  "cbc128_decrypt_inplace block ivec inp =
     (if 16 \<le> length inp then
        let tmp = block (take 16 inp);
            (ivec, out) = inplace_round tmp (take 16 inp) ivec;
            (ivec, inp, outs) = cbc128_decrypt_inplace block ivec (drop 16 inp)
        in (ivec, inp, out @ outs)
      else (ivec, inp, []))"
  by pat_completeness auto
termination by (relation "measure (\<lambda>(block, iv, inp). length inp)") auto

declare cbc128_decrypt_inplace.simps [simp del]

text \<open>The loop for what is left; it reads a whole block of the input object \<open>inp\<close> also when only \<open>len < 16\<close> bytes remain.\<close>

function cbc128_decrypt_tail ::
    "(byte list \<Rightarrow> byte list) \<Rightarrow> byte list \<Rightarrow> byte list \<Rightarrow> nat \<Rightarrow> (byte list \<times> byte list) outcome" where
  "cbc128_decrypt_tail block ivec inp len =
     (if len = 0 then Ret (ivec, [])
      else if length inp < 16 then Undef
      else
        let tmp = block (take 16 inp);
            out = take len (xor_bytes tmp ivec);
            ivec = take 16 inp
        in if len \<le> 16 then Ret (ivec, out)
           else obind (cbc128_decrypt_tail block ivec (drop 16 inp) (len - 16)) (\<lambda>(ivec, outs). Ret (ivec, out @ outs)))"
  by pat_completeness auto
termination by (relation "measure (\<lambda>(block, iv, inp, len). len)") auto

declare cbc128_decrypt_tail.simps [simp del]

text \<open>\<open>same\<close> says that \<open>in == out\<close>; otherwise the two objects do not overlap.\<close>

definition CRYPTO_cbc128_decrypt ::
    "bool \<Rightarrow> byte list \<Rightarrow> nat \<Rightarrow> byte list \<Rightarrow> (byte list \<Rightarrow> byte list) \<Rightarrow> (byte list \<times> byte list) outcome" where
  "CRYPTO_cbc128_decrypt same inp len ivec block =
     (if len = 0 then Ret (ivec, [])
      else if length inp < len then Undef
      else
        let (iv, rest, out) = (if same then cbc128_decrypt_inplace else cbc128_decrypt_apart) block ivec (take len inp)
        in obind (cbc128_decrypt_tail block iv (drop (len - length rest) inp) (length rest)) (\<lambda>(iv, out').
             Ret (iv, out @ out')))"

section \<open>The generic functions of a provider cipher\<close>

text \<open>
  \<open>in\<close> is the list of the \<open>len\<close> bytes to process; the result is the return value, the context and what is
  written to \<open>out\<close>.
\<close>

definition ossl_cipher_hw_generic_cbc :: "bool \<Rightarrow> PROV_CIPHER_CTX \<Rightarrow> byte list \<Rightarrow> (bool \<times> PROV_CIPHER_CTX \<times> byte list) outcome" where
  "ossl_cipher_hw_generic_cbc same dat inp =
     (case stream_cbc dat of
        Some cbc \<Rightarrow> let (iv, out) = cbc inp (ctx_iv dat) (ctx_enc dat) in Ret (True, dat\<lparr>ctx_iv := iv\<rparr>, out)
      | None \<Rightarrow>
          obind (if ctx_enc dat then CRYPTO_cbc128_encrypt inp (length inp) (ctx_iv dat) (ctx_block dat)
                 else CRYPTO_cbc128_decrypt same inp (length inp) (ctx_iv dat) (ctx_block dat)) (\<lambda>(iv, out).
            Ret (True, dat\<lparr>ctx_iv := iv\<rparr>, out)))"

text \<open>The loop of ECB with the block size \<open>bl\<close>; with a block size of 0 the C loop would not end.\<close>

function ecb_blocks :: "nat \<Rightarrow> (byte list \<Rightarrow> byte list) \<Rightarrow> byte list \<Rightarrow> byte list" where
  "ecb_blocks bl block inp =
     (if 0 < bl \<and> bl \<le> length inp then block (take bl inp) @ ecb_blocks bl block (drop bl inp) else [])"
  by pat_completeness auto
termination by (relation "measure (\<lambda>(bl, block, inp). length inp)") auto

declare ecb_blocks.simps [simp del]

definition ossl_cipher_hw_generic_ecb :: "bool \<Rightarrow> PROV_CIPHER_CTX \<Rightarrow> byte list \<Rightarrow> (bool \<times> PROV_CIPHER_CTX \<times> byte list) outcome" where
  "ossl_cipher_hw_generic_ecb same dat inp =
     (let bl = ctx_blocksize dat in
      if length inp < bl then Ret (True, dat, [])
      else case stream_ecb dat of
        Some ecb \<Rightarrow> Ret (True, dat, ecb inp (ctx_enc dat))
      | None \<Rightarrow> if bl = 0 then Undef else Ret (True, dat, ecb_blocks bl (ctx_block dat) inp))"

abbreviation MAXCHUNK :: nat where "MAXCHUNK \<equiv> 2 ^ 30"

function ossl_cipher_hw_chunked_cbc :: "bool \<Rightarrow> PROV_CIPHER_CTX \<Rightarrow> byte list \<Rightarrow> (bool \<times> PROV_CIPHER_CTX \<times> byte list) outcome" where
  "ossl_cipher_hw_chunked_cbc same dat inp =
     (if MAXCHUNK \<le> length inp then
        obind (ossl_cipher_hw_generic_cbc same dat (take MAXCHUNK inp)) (\<lambda>(_, dat, out).
        obind (ossl_cipher_hw_chunked_cbc same dat (drop MAXCHUNK inp)) (\<lambda>(ok, dat, outs). Ret (ok, dat, out @ outs)))
      else if 0 < length inp then
        obind (ossl_cipher_hw_generic_cbc same dat inp) (\<lambda>(_, dat, out). Ret (True, dat, out))
      else Ret (True, dat, []))"
  by pat_completeness auto
termination by (relation "measure (\<lambda>(same, dat, inp). length inp)") auto

declare ossl_cipher_hw_chunked_cbc.simps [simp del]

section \<open>Block by block\<close>

lemma block_induct [consumes 1, case_names Pos Nil Block]:
  assumes "n dvd length x" and "0 < n" and "P []"
    and "\<And>b x. length b = n \<Longrightarrow> n dvd length x \<Longrightarrow> P x \<Longrightarrow> P (b @ x)"
  shows "P x"
  using assms(1)
proof (induction "length x" arbitrary: x rule: less_induct)
  case less
  show ?case
  proof (cases "x = []")
    case False
    then have le: "n \<le> length x" using less.prems by (simp add: dvd_imp_le)
    have "n dvd length (drop n x)" using less.prems by (simp add: dvd_diff_nat)
    moreover have "length (drop n x) < length x" using assms(2) le by simp
    ultimately have "P (take n x @ drop n x)" using le less.hyps by (intro assms(4)) auto
    then show ?thesis by simp
  qed (simp add: assms(3))
qed

lemma encrypt_blocks_Nil [simp]: "cbc128_encrypt_blocks block iv [] = (iv, [], [])"
  and decrypt_apart_Nil [simp]: "cbc128_decrypt_apart block iv [] = (iv, [], [])"
  and decrypt_inplace_Nil [simp]: "cbc128_decrypt_inplace block iv [] = (iv, [], [])"
  by (simp_all add: cbc128_encrypt_blocks.simps cbc128_decrypt_apart.simps cbc128_decrypt_inplace.simps)

lemma ecb_blocks_Nil [simp]: "ecb_blocks bl block [] = []"
  by (subst ecb_blocks.simps) auto

lemma encrypt_blocks_Block [simp]:
  "length b = 16 \<Longrightarrow> cbc128_encrypt_blocks block iv (b @ x) =
     (let out = block (xor_bytes b iv); (iv, rest, outs) = cbc128_encrypt_blocks block out x in (iv, rest, out @ outs))"
  by (subst cbc128_encrypt_blocks.simps) simp

lemma decrypt_apart_Block [simp]:
  "length b = 16 \<Longrightarrow> cbc128_decrypt_apart block iv (b @ x) =
     (let out = xor_bytes (block b) iv; (iv, rest, outs) = cbc128_decrypt_apart block b x in (iv, rest, out @ outs))"
  by (subst cbc128_decrypt_apart.simps) simp

lemma decrypt_inplace_Block:
  "length b = 16 \<Longrightarrow> cbc128_decrypt_inplace block iv (b @ x) =
     (let (iv, out) = inplace_round (block b) b iv; (iv, rest, outs) = cbc128_decrypt_inplace block iv x in (iv, rest, out @ outs))"
  by (subst cbc128_decrypt_inplace.simps) simp

lemma ecb_blocks_Block [simp]:
  "0 < bl \<Longrightarrow> length b = bl \<Longrightarrow> ecb_blocks bl block (b @ x) = block b @ ecb_blocks bl block x"
  by (subst ecb_blocks.simps) simp

text \<open>A function that turns blocks into blocks.\<close>

definition on_blocks :: "nat \<Rightarrow> (byte list \<Rightarrow> byte list) \<Rightarrow> bool" where
  "on_blocks n block \<longleftrightarrow> (\<forall>b. length b = n \<longrightarrow> length (block b) = n)"

lemma on_blocksD [simp]: "on_blocks n block \<Longrightarrow> length b = n \<Longrightarrow> length (block b) = n"
  by (simp add: on_blocks_def)

lemma encrypt_blocks_whole:
  "16 dvd length x \<Longrightarrow> on_blocks 16 block \<Longrightarrow> length iv = 16 \<Longrightarrow>
     \<exists>iv' out. cbc128_encrypt_blocks block iv x = (iv', [], out) \<and> length iv' = 16 \<and> length out = length x"
proof (induction x arbitrary: iv rule: block_induct [where n = 16])
  case (Block b x)
  have "length (block (xor_bytes b iv)) = 16" using Block.hyps Block.prems by simp
  then show ?case using Block.IH [of "block (xor_bytes b iv)"] Block.prems Block.hyps by (auto simp: Let_def)
qed simp_all

lemma decrypt_apart_whole:
  "16 dvd length x \<Longrightarrow> on_blocks 16 block \<Longrightarrow> length iv = 16 \<Longrightarrow>
     \<exists>iv' out. cbc128_decrypt_apart block iv x = (iv', [], out) \<and> length iv' = 16 \<and> length out = length x"
proof (induction x arbitrary: iv rule: block_induct [where n = 16])
  case (Block b x)
  obtain v os where "cbc128_decrypt_apart block b x = (v, [], os)" "length v = 16" "length os = length x"
    using Block.IH [of b] Block.prems Block.hyps by blast
  then show ?case using Block by simp
qed simp_all

lemma inplace_round_eq: "length tmp = length b \<Longrightarrow> length iv = length b \<Longrightarrow> inplace_round tmp b iv = (b, xor_bytes tmp iv)"
  by (induction tmp b iv rule: inplace_round.induct) auto

lemma decrypt_inplace_eq:
  "16 dvd length x \<Longrightarrow> on_blocks 16 block \<Longrightarrow> length iv = 16 \<Longrightarrow>
     cbc128_decrypt_inplace block iv x = cbc128_decrypt_apart block iv x"
  by (induction x arbitrary: iv rule: block_induct [where n = 16]) (simp_all add: decrypt_inplace_Block inplace_round_eq)

lemma encrypt_blocks_append:
  "16 dvd length x \<Longrightarrow> cbc128_encrypt_blocks block iv (x @ y) =
     (let (iv, rest, out) = cbc128_encrypt_blocks block iv x; (iv, rest, outs) = cbc128_encrypt_blocks block iv y in (iv, rest, out @ outs))"
  by (induction x arbitrary: iv rule: block_induct [where n = 16]) (auto simp: Let_def split_beta)

lemma decrypt_apart_append:
  "16 dvd length x \<Longrightarrow> cbc128_decrypt_apart block iv (x @ y) =
     (let (iv, rest, out) = cbc128_decrypt_apart block iv x; (iv, rest, outs) = cbc128_decrypt_apart block iv y in (iv, rest, out @ outs))"
  by (induction x arbitrary: iv rule: block_induct [where n = 16]) (auto simp: Let_def split_beta)

lemma ecb_blocks_append:
  assumes "n dvd length x" "0 < n"
  shows "ecb_blocks n block (x @ y) = ecb_blocks n block x @ ecb_blocks n block y"
  using assms(1) by (induction x rule: block_induct) (use assms(2) in auto)

lemma length_ecb_blocks:
  assumes "n dvd length x" "0 < n" "on_blocks n block"
  shows "length (ecb_blocks n block x) = length x"
  using assms(1) by (induction x rule: block_induct) (use assms(2,3) in auto)

text \<open>Decryption undoes encryption when the block functions are inverse to each other.\<close>

definition undoes :: "nat \<Rightarrow> (byte list \<Rightarrow> byte list) \<Rightarrow> (byte list \<Rightarrow> byte list) \<Rightarrow> bool" where
  "undoes n dblock block \<longleftrightarrow> (\<forall>b. length b = n \<longrightarrow> dblock (block b) = b)"

lemma xor_bytes_cancel: "length b = length v \<Longrightarrow> xor_bytes (xor_bytes b v) v = b"
  by (induction b v rule: list_induct2) (simp_all add: xor.assoc)

lemma cbc_decrypt_encrypt:
  "16 dvd length x \<Longrightarrow> on_blocks 16 block \<Longrightarrow> undoes 16 dblock block \<Longrightarrow> length iv = 16 \<Longrightarrow>
     cbc128_encrypt_blocks block iv x = (iv', rest, out) \<Longrightarrow> snd (snd (cbc128_decrypt_apart dblock iv out)) = x"
proof (induction x arbitrary: iv iv' rest out rule: block_induct [where n = 16])
  case (Block b x)
  let ?o = "block (xor_bytes b iv)"
  have o: "length ?o = 16" using Block by simp
  obtain v r os where e: "cbc128_encrypt_blocks block ?o x = (v, r, os)" by (metis prod_cases3)
  have "snd (snd (cbc128_decrypt_apart dblock ?o os)) = x" using Block.IH [OF _ _ o e] Block.prems by simp
  moreover have "dblock ?o = xor_bytes b iv" using Block by (simp add: undoes_def)
  moreover have "out = ?o @ os" using Block.prems(4) Block.hyps e by (simp add: Let_def)
  ultimately show ?case using o Block.hyps Block.prems(3) xor_bytes_cancel [of b iv] by (auto simp: Let_def split: prod.splits)
qed simp_all

section \<open>What the buffering code relies on\<close>

locale block_mode =
  fixes cipher :: "bool \<Rightarrow> PROV_CIPHER_CTX \<Rightarrow> byte list \<Rightarrow> (bool \<times> PROV_CIPHER_CTX \<times> byte list) outcome"
    and crypt :: "PROV_CIPHER_CTX \<Rightarrow> byte list \<Rightarrow> byte list \<times> byte list"
    and ready :: "PROV_CIPHER_CTX \<Rightarrow> bool"
  assumes cipher_crypts: "ready c \<Longrightarrow> ctx_blocksize c dvd length d \<Longrightarrow>
      cipher same c d = Ret (True, c\<lparr>ctx_iv := fst (crypt c d)\<rparr>, snd (crypt c d))"
    and crypt_Nil: "ready c \<Longrightarrow> crypt c [] = (ctx_iv c, [])"
    and crypt_append: "ready c \<Longrightarrow> ctx_blocksize c dvd length x \<Longrightarrow> ctx_blocksize c dvd length y \<Longrightarrow>
      crypt c (x @ y) = (fst (crypt (c\<lparr>ctx_iv := fst (crypt c x)\<rparr>) y), snd (crypt c x) @ snd (crypt (c\<lparr>ctx_iv := fst (crypt c x)\<rparr>) y))"
    and length_crypt: "ready c \<Longrightarrow> ctx_blocksize c dvd length d \<Longrightarrow> length (snd (crypt c d)) = length d"
    and ready_crypt: "ready c \<Longrightarrow> ctx_blocksize c dvd length d \<Longrightarrow> ready (c\<lparr>ctx_iv := fst (crypt c d)\<rparr>)"
    and ready_buf: "ready (c\<lparr>ctx_buf := b, ctx_bufsz := n\<rparr>) = ready c"
    and crypt_buf: "crypt (c\<lparr>ctx_buf := b, ctx_bufsz := n\<rparr>) = crypt c"
begin

text \<open>Two calls on consecutive pieces are one call.\<close>

lemma cipher_append:
  assumes "ready c" "ctx_blocksize c dvd length x" "ctx_blocksize c dvd length y"
  shows "cipher same c (x @ y) =
    obind (cipher same c x) (\<lambda>(_, c', o1). obind (cipher same c' y) (\<lambda>(ok, c'', o2). Ret (ok, c'', o1 @ o2)))"
  using assms ready_crypt [OF assms(1,2)] by (simp add: cipher_crypts crypt_append)

end

definition cbc_crypt :: "PROV_CIPHER_CTX \<Rightarrow> byte list \<Rightarrow> byte list \<times> byte list" where
  "cbc_crypt c d =
     (let (iv, rest, out) = (if ctx_enc c then cbc128_encrypt_blocks else cbc128_decrypt_apart) (ctx_block c) (ctx_iv c) d in (iv, out))"

definition cbc_ready :: "PROV_CIPHER_CTX \<Rightarrow> bool" where
  "cbc_ready c \<longleftrightarrow> stream_cbc c = None \<and> ctx_blocksize c = 16 \<and> length (ctx_iv c) = 16 \<and> on_blocks 16 (ctx_block c)"

definition ecb_crypt :: "PROV_CIPHER_CTX \<Rightarrow> byte list \<Rightarrow> byte list \<times> byte list" where
  "ecb_crypt c d = (ctx_iv c, ecb_blocks (ctx_blocksize c) (ctx_block c) d)"

definition ecb_ready :: "PROV_CIPHER_CTX \<Rightarrow> bool" where
  "ecb_ready c \<longleftrightarrow> stream_ecb c = None \<and> 0 < ctx_blocksize c \<and> on_blocks (ctx_blocksize c) (ctx_block c)"

lemma cbc_crypt_whole:
  assumes "cbc_ready c" "16 dvd length d"
  shows "length (fst (cbc_crypt c d)) = 16" "length (snd (cbc_crypt c d)) = length d"
    "fst (snd (cbc128_encrypt_blocks (ctx_block c) (ctx_iv c) d)) = []" "fst (snd (cbc128_decrypt_apart (ctx_block c) (ctx_iv c) d)) = []"
  using encrypt_blocks_whole [OF assms(2), of "ctx_block c" "ctx_iv c"] decrypt_apart_whole [OF assms(2), of "ctx_block c" "ctx_iv c"] assms(1)
  by (auto simp: cbc_crypt_def cbc_ready_def)

lemma generic_cbc_crypts:
  assumes r: "cbc_ready c" and d: "16 dvd length d"
  shows "ossl_cipher_hw_generic_cbc same c d = Ret (True, c\<lparr>ctx_iv := fst (cbc_crypt c d)\<rparr>, snd (cbc_crypt c d))"
proof -
  have inp: "cbc128_decrypt_inplace (ctx_block c) (ctx_iv c) d = cbc128_decrypt_apart (ctx_block c) (ctx_iv c) d"
    using r d by (simp add: decrypt_inplace_eq cbc_ready_def)
  show ?thesis
    using r cbc_crypt_whole(3,4) [OF r d]
    by (auto simp: ossl_cipher_hw_generic_cbc_def cbc_crypt_def cbc_ready_def CRYPTO_cbc128_encrypt_def CRYPTO_cbc128_decrypt_def inp
        cbc128_encrypt_tail.simps [of _ _ "[]"] cbc128_decrypt_tail.simps [of _ _ _ 0] split: prod.splits)
qed

interpretation cbc: block_mode ossl_cipher_hw_generic_cbc cbc_crypt cbc_ready
proof
  fix c d x y b n
  show "cbc_ready c \<Longrightarrow> cbc_crypt c [] = (ctx_iv c, [])" by (simp add: cbc_crypt_def)
  show "cbc_ready (c\<lparr>ctx_buf := b, ctx_bufsz := n\<rparr>) = cbc_ready c" by (simp add: cbc_ready_def)
  show "cbc_crypt (c\<lparr>ctx_buf := b, ctx_bufsz := n\<rparr>) = cbc_crypt c" by (simp add: cbc_crypt_def fun_eq_iff)
  assume r: "cbc_ready c"
  then have B: "ctx_blocksize c = 16" by (simp add: cbc_ready_def)
  show "ctx_blocksize c dvd length d \<Longrightarrow> ossl_cipher_hw_generic_cbc same c d = Ret (True, c\<lparr>ctx_iv := fst (cbc_crypt c d)\<rparr>, snd (cbc_crypt c d))" for same
    using generic_cbc_crypts r B by simp
  show "ctx_blocksize c dvd length d \<Longrightarrow> length (snd (cbc_crypt c d)) = length d" using cbc_crypt_whole [OF r] B by simp
  show "ctx_blocksize c dvd length d \<Longrightarrow> cbc_ready (c\<lparr>ctx_iv := fst (cbc_crypt c d)\<rparr>)"
    using cbc_crypt_whole [OF r, of d] r B by (simp add: cbc_ready_def)
  show "ctx_blocksize c dvd length x \<Longrightarrow> cbc_crypt c (x @ y) =
      (fst (cbc_crypt (c\<lparr>ctx_iv := fst (cbc_crypt c x)\<rparr>) y), snd (cbc_crypt c x) @ snd (cbc_crypt (c\<lparr>ctx_iv := fst (cbc_crypt c x)\<rparr>) y))"
    using B by (simp add: cbc_crypt_def encrypt_blocks_append decrypt_apart_append Let_def split_beta)
qed

interpretation ecb: block_mode ossl_cipher_hw_generic_ecb ecb_crypt ecb_ready
proof
  fix c d x y b n
  show "ecb_ready c \<Longrightarrow> ecb_crypt c [] = (ctx_iv c, [])" by (simp add: ecb_crypt_def)
  show "ecb_ready (c\<lparr>ctx_buf := b, ctx_bufsz := n\<rparr>) = ecb_ready c" by (simp add: ecb_ready_def)
  show "ecb_crypt (c\<lparr>ctx_buf := b, ctx_bufsz := n\<rparr>) = ecb_crypt c" by (simp add: ecb_crypt_def fun_eq_iff)
  assume r: "ecb_ready c"
  show "ctx_blocksize c dvd length d \<Longrightarrow> ossl_cipher_hw_generic_ecb same c d = Ret (True, c\<lparr>ctx_iv := fst (ecb_crypt c d)\<rparr>, snd (ecb_crypt c d))" for same
    using r by (cases "d = []") (auto simp: ossl_cipher_hw_generic_ecb_def ecb_crypt_def ecb_ready_def dest: dvd_imp_le)
  show "ctx_blocksize c dvd length d \<Longrightarrow> length (snd (ecb_crypt c d)) = length d"
    using r by (simp add: ecb_crypt_def ecb_ready_def length_ecb_blocks)
  show "ctx_blocksize c dvd length d \<Longrightarrow> ecb_ready (c\<lparr>ctx_iv := fst (ecb_crypt c d)\<rparr>)"
    using r by (simp add: ecb_ready_def ecb_crypt_def)
  show "ctx_blocksize c dvd length x \<Longrightarrow> ecb_crypt c (x @ y) =
      (fst (ecb_crypt (c\<lparr>ctx_iv := fst (ecb_crypt c x)\<rparr>) y), snd (ecb_crypt c x) @ snd (ecb_crypt (c\<lparr>ctx_iv := fst (ecb_crypt c x)\<rparr>) y))"
    using r by (simp add: ecb_crypt_def ecb_ready_def ecb_blocks_append)
qed

lemma chunked_cbc_eq:
  "cbc_ready c \<Longrightarrow> 16 dvd length d \<Longrightarrow> ossl_cipher_hw_chunked_cbc same c d = ossl_cipher_hw_generic_cbc same c d"
proof (induction "length d" arbitrary: c d rule: less_induct)
  case less
  then have B: "ctx_blocksize c = 16" by (simp add: cbc_ready_def)
  show ?case
  proof (cases "MAXCHUNK \<le> length d")
    case True
    let ?x = "take MAXCHUNK d" and ?y = "drop MAXCHUNK d"
    have x: "16 dvd length ?x" "16 dvd length ?y" using True less.prems(2) by (simp_all add: dvd_diff_nat)
    have r: "cbc_ready (c\<lparr>ctx_iv := fst (cbc_crypt c ?x)\<rparr>)" using cbc.ready_crypt less.prems x B by simp
    have "length ?y < length d" using True by simp
    then have ih: "ossl_cipher_hw_chunked_cbc same (c\<lparr>ctx_iv := fst (cbc_crypt c ?x)\<rparr>) ?y =
        ossl_cipher_hw_generic_cbc same (c\<lparr>ctx_iv := fst (cbc_crypt c ?x)\<rparr>) ?y"
      using less.hyps r x by blast
    have "ossl_cipher_hw_generic_cbc same c d = ossl_cipher_hw_generic_cbc same c (?x @ ?y)" by simp
    also have "\<dots> = ossl_cipher_hw_chunked_cbc same c d"
      using True less.prems x B ih generic_cbc_crypts [OF less.prems(1) x(1)]
      unfolding ossl_cipher_hw_chunked_cbc.simps [of same c d] cbc.cipher_append [of c ?x ?y same, unfolded B, OF less.prems(1) x] by simp
    finally show ?thesis by simp
  next
    case False
    then show ?thesis
      using less.prems generic_cbc_crypts [OF less.prems(1), of d same] cbc.crypt_Nil [of c]
      by (subst ossl_cipher_hw_chunked_cbc.simps) (auto simp: cbc_ready_def)
  qed
qed

interpretation chunked_cbc: block_mode ossl_cipher_hw_chunked_cbc cbc_crypt cbc_ready
  by unfold_locales
    (simp_all add: chunked_cbc_eq cbc.cipher_crypts cbc.crypt_Nil cbc.crypt_append cbc.length_crypt cbc.ready_crypt cbc.ready_buf cbc.crypt_buf,
     simp add: cbc_ready_def chunked_cbc_eq generic_cbc_crypts)

end
