(* ===== verification/Block_Cipher.thy ===== *)
theory Block_Cipher
  imports Cipher_Modes
begin

text \<open>
  The update and final operations of a provider's block cipher: \<open>ciphercommon_block.c\<close> (filling, padding and
  unpadding a block), and \<open>ossl_cipher_generic_block_update\<close> and \<open>ossl_cipher_generic_block_final\<close> with the
  initialisation of the context, of \<open>ciphercommon.c\<close>. The function behind \<open>hw->cipher\<close> is a parameter.

  Lengths are lengths of objects, natural numbers; the sums of two of them and a block size do not wrap.
  The mask \<open>~(blksz - 1)\<close> is computed on 64-bit words as in C.

  On success the input is neither lost nor repeated: what was written so far is the mode applied to what
  came in, up to less than a block (at most a block when decrypting padded data) that is in the buffer. So the
  output does not depend on how the input was cut, and decryption gives back what was encrypted.
\<close>

section \<open>Blocks\<close>

datatype cipher_error = PROV_R_NO_KEY_SET | PROV_R_CIPHER_OPERATION_FAILED | PROV_R_OUTPUT_BUFFER_TOO_SMALL
  | PROV_R_WRONG_FINAL_BLOCK_LENGTH | PROV_R_BAD_DECRYPT | PROV_R_INVALID_KEY_LENGTH | PROV_R_INVALID_IV_LENGTH
  | PROV_R_FAILED_TO_GET_PARAMETER | PROV_NOT_RUNNING | ERR_R_INTERNAL_ERROR | HW_INIT_FAILED
  | PROV_R_INVALID_INPUT_LENGTH | PROV_R_INVALID_OUTPUT_LENGTH | NO_INPUT
  | EVP_R_INVALID_OPERATION | EVP_R_NO_CIPHER_SET | EVP_R_UPDATE_ERROR | EVP_R_FINAL_ERROR

definition block_mask :: "nat \<Rightarrow> nat \<Rightarrow> nat" where
  "block_mask inl blksz = unat (sz inl AND NOT (sz blksz - 1))"

text \<open>The results are the returned number of bytes in whole blocks, the buffer, \<open>*buflen\<close> and the input left.\<close>

definition ossl_cipher_fillblock :: "byte list \<Rightarrow> nat \<Rightarrow> nat \<Rightarrow> byte list \<Rightarrow> (nat \<times> byte list \<times> nat \<times> byte list) outcome" where
  "ossl_cipher_fillblock buf buflen blocksize inp =
     (let bufremain = blocksize - buflen in
      if \<not> (buflen \<le> blocksize \<and> blocksize > 0 \<and> sz blocksize AND (sz blocksize - 1) = 0) then Undef
      else
        let bufremain = (if length inp < bufremain then length inp else bufremain) in
        if buflen + bufremain > length buf then Undef
        else Ret (block_mask (length inp - bufremain) blocksize, patch buf buflen (take bufremain inp),
                  buflen + bufremain, drop bufremain inp))"

definition ossl_cipher_trailingdata :: "byte list \<Rightarrow> nat \<Rightarrow> nat \<Rightarrow> byte list \<Rightarrow> (cipher_error + byte list \<times> nat) outcome" where
  "ossl_cipher_trailingdata buf buflen blocksize inp =
     (if inp = [] then Ret (Inr (buf, buflen))
      else if buflen + length inp > blocksize then Ret (Inl ERR_R_INTERNAL_ERROR)
      else if buflen + length inp > length buf then Undef
      else Ret (Inr (patch buf buflen inp, buflen + length inp)))"

definition ossl_cipher_padblock :: "byte list \<Rightarrow> nat \<Rightarrow> nat \<Rightarrow> byte list outcome" where
  "ossl_cipher_padblock buf buflen blocksize =
     (let pad = (of_nat (blocksize - buflen) :: byte) in
      if buflen < blocksize \<and> blocksize > length buf then Undef
      else Ret (patch buf buflen (replicate (blocksize - buflen) pad)))"

text \<open>The loop that checks \<open>pad\<close> bytes from the end of the first \<open>len\<close> bytes on downwards.\<close>

fun unpad_loop :: "byte list \<Rightarrow> byte \<Rightarrow> nat \<Rightarrow> nat \<Rightarrow> nat option" where
  "unpad_loop buf pad 0 len = Some len"
| "unpad_loop buf pad (Suc n) len = (if buf ! (len - 1) \<noteq> pad then None else unpad_loop buf pad n (len - 1))"

definition ossl_cipher_unpadblock :: "byte list \<Rightarrow> nat \<Rightarrow> nat \<Rightarrow> (cipher_error + nat) outcome" where
  "ossl_cipher_unpadblock buf buflen blocksize =
     (if buflen \<noteq> blocksize then Ret (Inl ERR_R_INTERNAL_ERROR)
      else if blocksize = 0 \<or> blocksize > length buf then Undef
      else
        let pad = unat (buf ! (blocksize - 1)) in
        if pad = 0 \<or> pad > blocksize then Ret (Inl PROV_R_BAD_DECRYPT)
        else case unpad_loop buf (buf ! (blocksize - 1)) pad buflen of
          None \<Rightarrow> Ret (Inl PROV_R_BAD_DECRYPT)
        | Some len \<Rightarrow> Ret (Inr len))"

section \<open>Update and final\<close>

type_synonym hw_cipher = "bool \<Rightarrow> PROV_CIPHER_CTX \<Rightarrow> byte list \<Rightarrow> (bool \<times> PROV_CIPHER_CTX \<times> byte list) outcome"

text \<open>The result of an operation: the context and an error, or \<open>*outl\<close> and the object at \<open>out\<close>.\<close>

type_synonym op_result = "(PROV_CIPHER_CTX \<times> (cipher_error + nat \<times> byte list)) outcome"

text \<open>An operation that may fail after it changed the context; an error ends the function.\<close>

definition cbind :: "('c \<times> (cipher_error + 'a)) outcome \<Rightarrow> ('c \<Rightarrow> 'a \<Rightarrow> ('c \<times> (cipher_error + 'b)) outcome) \<Rightarrow> ('c \<times> (cipher_error + 'b)) outcome" where
  "cbind m f = obind m (\<lambda>(ctx, r). case r of Inl e \<Rightarrow> Ret (ctx, Inl e) | Inr x \<Rightarrow> f ctx x)"

definition call_cipher :: "hw_cipher \<Rightarrow> bool \<Rightarrow> PROV_CIPHER_CTX \<Rightarrow> byte list \<Rightarrow> (PROV_CIPHER_CTX \<times> (cipher_error + byte list)) outcome" where
  "call_cipher cipher same ctx inp =
     obind (cipher same ctx inp) (\<lambda>(ok, ctx, out). Ret (ctx, if ok then Inr out else Inl PROV_R_CIPHER_OPERATION_FAILED))"

text \<open>The argument \<open>in\<close>: NULL, the same pointer as \<open>out\<close>, or another object.\<close>

datatype IN_PTR = In_NULL | In_Is_Out | In_At "byte list"

abbreviation SSL3_VERSION :: uint where "SSL3_VERSION \<equiv> 0x300"

abbreviation MAX_PADDING :: nat where "MAX_PADDING \<equiv> 256"

text \<open>A TLS record that is encrypted is padded in \<open>out\<close>; the result is the object and the new length.\<close>

definition tls_add_padding :: "PROV_CIPHER_CTX \<Rightarrow> byte list \<Rightarrow> nat \<Rightarrow> nat \<Rightarrow> (cipher_error + byte list \<times> nat) outcome" where
  "tls_add_padding ctx out outsize inl =
     (let blksz = ctx_blocksize ctx;
          padnum = blksz - inl mod blksz
      in if outsize < inl + padnum then Ret (Inl PROV_R_CIPHER_OPERATION_FAILED)
      else if padnum > MAX_PADDING then Ret (Inl PROV_R_CIPHER_OPERATION_FAILED)
      else if inl + padnum > length out then Undef
      else
        let padval = (of_nat (padnum - 1) :: byte) in
        Ret (Inr (if ctx_tlsversion ctx = SSL3_VERSION
                  then patch out inl (replicate (padnum - 1) 0 @ [padval])
                  else patch out inl (replicate padnum padval),
                  inl + padnum)))"

definition tls_block_update ::
    "hw_cipher \<Rightarrow> (nat \<Rightarrow> bool) \<Rightarrow> (nat \<Rightarrow> byte list option) \<Rightarrow> byte list \<Rightarrow> PROV_CIPHER_CTX \<Rightarrow> byte list \<Rightarrow> nat \<Rightarrow> IN_PTR \<Rightarrow> nat \<Rightarrow> op_result" where
  "tls_block_update cipher mem rand stk ctx out outsize inp inl =
     (let blksz = ctx_blocksize ctx in
      if inp \<noteq> In_Is_Out \<or> outsize < inl \<or> \<not> ctx_pad ctx then Ret (ctx, Inl PROV_R_CIPHER_OPERATION_FAILED)
      else if blksz = 0 then Undef
      else
        cbind (obind (if ctx_enc ctx then tls_add_padding ctx out outsize inl else Ret (Inr (out, inl))) (\<lambda>r. Ret (ctx, r))) (\<lambda>ctx (out, inl).
        if inl mod blksz \<noteq> 0 then Ret (ctx, Inl PROV_R_CIPHER_OPERATION_FAILED)
        else if inl > length out then Undef
        else
          cbind (call_cipher cipher True ctx (take inl out)) (\<lambda>ctx res.
          let out = patch out 0 res;
              ctx = (if ctx_alloced ctx then ctx\<lparr>ctx_alloced := False, ctx_tlsmac := None\<rparr> else ctx)
          in if ctx_enc ctx then Ret (ctx, Inr (inl, out))
             else
               obind (ossl_cipher_tlsunpadblock mem rand stk True True (ctx_tlsversion ctx) out (sz inl) (sz blksz)
                        (sz (ctx_tlsmacsize ctx)) False) (\<lambda>(ok, outl, mac).
               let ctx = (case mac of
                            None \<Rightarrow> ctx
                          | Some (In_Record i) \<Rightarrow> ctx\<lparr>ctx_tlsmac := mac, ctx_alloced := False\<rparr>
                          | Some (Alloced m) \<Rightarrow> ctx\<lparr>ctx_tlsmac := mac, ctx_alloced := True\<rparr>)
               in if ok then Ret (ctx, Inr (unat outl, out)) else Ret (ctx, Inl PROV_R_CIPHER_OPERATION_FAILED)))))"

text \<open>
  The \<open>inl\<close> bytes of input. Data that is encrypted in place while earlier data is in the buffer would be
  overwritten before it is read; this use, which the documentation excludes, is outside the model.
\<close>

definition input_bytes :: "PROV_CIPHER_CTX \<Rightarrow> byte list \<Rightarrow> IN_PTR \<Rightarrow> nat \<Rightarrow> byte list outcome" where
  "input_bytes ctx out inp inl =
     (case inp of
        In_NULL \<Rightarrow> if inl = 0 then Ret [] else Undef
      | In_Is_Out \<Rightarrow> if inl > length out \<or> ctx_bufsz ctx \<noteq> 0 then Undef else Ret (take inl out)
      | In_At d \<Rightarrow> if inl > length d then Undef else Ret (take inl d))"

text \<open>
  The block that is complete in the buffer, if it is to be processed now; the results are \<open>outlint\<close> and the
  object at \<open>out\<close>.
\<close>

definition flush_block :: "hw_cipher \<Rightarrow> PROV_CIPHER_CTX \<Rightarrow> byte list \<Rightarrow> nat \<Rightarrow> byte list \<Rightarrow> op_result" where
  "flush_block cipher ctx out outsize inp =
     (let blksz = ctx_blocksize ctx in
      if ctx_bufsz ctx = blksz \<and> (ctx_enc ctx \<or> inp \<noteq> [] \<or> \<not> ctx_pad ctx) then
        if outsize < blksz then Ret (ctx, Inl PROV_R_OUTPUT_BUFFER_TOO_SMALL)
        else if blksz > length (ctx_buf ctx) then Undef
        else cbind (call_cipher cipher False ctx (take blksz (ctx_buf ctx))) (\<lambda>ctx res.
          if length res > length out then Undef else Ret (ctx\<lparr>ctx_bufsz := 0\<rparr>, Inr (blksz, patch out 0 res)))
      else Ret (ctx, Inr (0, out)))"

text \<open>How much of the whole blocks is processed now.\<close>

definition hold_back :: "PROV_CIPHER_CTX \<Rightarrow> nat \<Rightarrow> nat \<Rightarrow> nat \<Rightarrow> nat \<Rightarrow> cipher_error + nat" where
  "hold_back ctx outsize outlint nextblocks inl =
     (if nextblocks > 0 then
        if \<not> ctx_enc ctx \<and> ctx_pad ctx \<and> nextblocks = inl then
          if \<not> inl \<ge> ctx_blocksize ctx then Inl PROV_R_OUTPUT_BUFFER_TOO_SMALL
          else if outsize < outlint + (nextblocks - ctx_blocksize ctx) then Inl PROV_R_OUTPUT_BUFFER_TOO_SMALL
          else Inr (nextblocks - ctx_blocksize ctx)
        else if outsize < outlint + nextblocks then Inl PROV_R_OUTPUT_BUFFER_TOO_SMALL
        else Inr nextblocks
      else Inr 0)"

text \<open>The whole blocks of the input that are left, and the bytes after them, which go to the buffer.\<close>

definition process_blocks :: "hw_cipher \<Rightarrow> bool \<Rightarrow> PROV_CIPHER_CTX \<Rightarrow> byte list \<Rightarrow> nat \<Rightarrow> nat \<Rightarrow> nat \<Rightarrow> byte list \<Rightarrow> op_result" where
  "process_blocks cipher same ctx out outsize outlint nextblocks d =
     (case hold_back ctx outsize outlint nextblocks (length d) of
        Inl e \<Rightarrow> Ret (ctx, Inl e)
      | Inr nextblocks \<Rightarrow>
          cbind (if nextblocks > 0 then call_cipher cipher same ctx (take nextblocks d) else Ret (ctx, Inr [])) (\<lambda>ctx res.
          if outlint + length res > length out then Undef
          else
            obind (ossl_cipher_trailingdata (ctx_buf ctx) (ctx_bufsz ctx) (ctx_blocksize ctx) (drop nextblocks d)) (\<lambda>t.
            case t of
              Inl e \<Rightarrow> Ret (ctx, Inl e)
            | Inr (buf, bufsz) \<Rightarrow>
                Ret (ctx\<lparr>ctx_buf := buf, ctx_bufsz := bufsz\<rparr>, Inr (outlint + nextblocks, patch out outlint res)))))"

definition ossl_cipher_generic_block_update ::
    "hw_cipher \<Rightarrow> (nat \<Rightarrow> bool) \<Rightarrow> (nat \<Rightarrow> byte list option) \<Rightarrow> byte list \<Rightarrow> PROV_CIPHER_CTX \<Rightarrow> byte list \<Rightarrow> nat \<Rightarrow> IN_PTR \<Rightarrow> nat \<Rightarrow> op_result" where
  "ossl_cipher_generic_block_update cipher mem rand stk ctx out outsize inp inl =
     (let blksz = ctx_blocksize ctx in
      if \<not> ctx_key_set ctx then Ret (ctx, Inl PROV_R_NO_KEY_SET)
      else if ctx_tlsversion ctx > 0 then tls_block_update cipher mem rand stk ctx out outsize inp inl
      else
        obind (input_bytes ctx out inp inl) (\<lambda>d.
        obind (if ctx_bufsz ctx \<noteq> 0 then ossl_cipher_fillblock (ctx_buf ctx) (ctx_bufsz ctx) blksz d
               else Ret (block_mask (length d) blksz, ctx_buf ctx, ctx_bufsz ctx, d)) (\<lambda>(nextblocks, buf, bufsz, d).
        cbind (flush_block cipher (ctx\<lparr>ctx_buf := buf, ctx_bufsz := bufsz\<rparr>) out outsize d) (\<lambda>ctx (outlint, out).
        process_blocks cipher (inp = In_Is_Out) ctx out outsize outlint nextblocks d))))"

definition ossl_cipher_generic_block_final :: "hw_cipher \<Rightarrow> bool \<Rightarrow> PROV_CIPHER_CTX \<Rightarrow> byte list \<Rightarrow> nat \<Rightarrow> op_result" where
  "ossl_cipher_generic_block_final cipher running ctx out outsize =
     (let blksz = ctx_blocksize ctx in
      if \<not> running then Ret (ctx, Inl PROV_NOT_RUNNING)
      else if \<not> ctx_key_set ctx then Ret (ctx, Inl PROV_R_NO_KEY_SET)
      else if ctx_tlsversion ctx > 0 then Ret (ctx, Inl PROV_R_CIPHER_OPERATION_FAILED)
      else if ctx_enc ctx then
        if \<not> ctx_pad ctx \<and> ctx_bufsz ctx = 0 then Ret (ctx, Inr (0, out))
        else if \<not> ctx_pad ctx \<and> ctx_bufsz ctx \<noteq> blksz then Ret (ctx, Inl PROV_R_WRONG_FINAL_BLOCK_LENGTH)
        else
          obind (if ctx_pad ctx then ossl_cipher_padblock (ctx_buf ctx) (ctx_bufsz ctx) blksz else Ret (ctx_buf ctx)) (\<lambda>buf.
          let ctx = ctx\<lparr>ctx_buf := buf\<rparr> in
          if outsize < blksz then Ret (ctx, Inl PROV_R_OUTPUT_BUFFER_TOO_SMALL)
          else if blksz > length buf then Undef
          else cbind (call_cipher cipher False ctx (take blksz buf)) (\<lambda>ctx res.
            if length res > length out then Undef else Ret (ctx\<lparr>ctx_bufsz := 0\<rparr>, Inr (blksz, patch out 0 res))))
      else if ctx_bufsz ctx \<noteq> blksz then
        if ctx_bufsz ctx = 0 \<and> \<not> ctx_pad ctx then Ret (ctx, Inr (0, out))
        else Ret (ctx, Inl PROV_R_WRONG_FINAL_BLOCK_LENGTH)
      else if blksz > length (ctx_buf ctx) then Undef
      else
        cbind (call_cipher cipher True ctx (take blksz (ctx_buf ctx))) (\<lambda>ctx res.
        let ctx = ctx\<lparr>ctx_buf := patch (ctx_buf ctx) 0 res\<rparr> in
        cbind (if ctx_pad ctx
               then obind (ossl_cipher_unpadblock (ctx_buf ctx) (ctx_bufsz ctx) blksz) (\<lambda>r.
                      Ret (case r of Inl e \<Rightarrow> (ctx, Inl e) | Inr n \<Rightarrow> (ctx\<lparr>ctx_bufsz := n\<rparr>, Inr ())))
               else Ret (ctx, Inr ())) (\<lambda>ctx _.
        if outsize < ctx_bufsz ctx then Ret (ctx, Inl PROV_R_OUTPUT_BUFFER_TOO_SMALL)
        else if ctx_bufsz ctx > length out then Undef
        else Ret (ctx\<lparr>ctx_bufsz := 0\<rparr>, Inr (ctx_bufsz ctx, patch out 0 (take (ctx_bufsz ctx) (ctx_buf ctx)))))))"

text \<open>The one-shot and stream variants, for modes that need no blocks.\<close>

definition ossl_cipher_generic_cipher :: "hw_cipher \<Rightarrow> bool \<Rightarrow> PROV_CIPHER_CTX \<Rightarrow> byte list \<Rightarrow> nat \<Rightarrow> IN_PTR \<Rightarrow> nat \<Rightarrow> op_result" where
  "ossl_cipher_generic_cipher cipher running ctx out outsize inp inl =
     (if \<not> running then Ret (ctx, Inl PROV_NOT_RUNNING)
      else if \<not> ctx_key_set ctx then Ret (ctx, Inl PROV_R_NO_KEY_SET)
      else if outsize < inl then Ret (ctx, Inl PROV_R_OUTPUT_BUFFER_TOO_SMALL)
      else
        obind (input_bytes (ctx\<lparr>ctx_bufsz := 0\<rparr>) out inp inl) (\<lambda>d.
        cbind (call_cipher cipher (inp = In_Is_Out) ctx d) (\<lambda>ctx res.
        if length res > length out then Undef else Ret (ctx, Inr (inl, patch out 0 res)))))"

text \<open>
  What is taken off a decrypted TLS record of \<open>inl\<close> bytes at \<open>out\<close>: padding, fixed-size data and MAC. An
  assertion that does not hold returns 0.
\<close>

definition stream_tls_trim :: "PROV_CIPHER_CTX \<Rightarrow> byte list \<Rightarrow> nat \<Rightarrow> (PROV_CIPHER_CTX \<times> (cipher_error + nat)) outcome" where
  "stream_tls_trim ctx out inl =
     (if ctx_removetlspad ctx \<and> inl > length out then Undef
      else if ctx_removetlspad ctx \<and> \<not> inl \<ge> unat (out ! (inl - 1)) + 1 then Ret (ctx, Inl ERR_R_INTERNAL_ERROR)
      else
        let outl = (if ctx_removetlspad ctx then inl - (unat (out ! (inl - 1)) + 1) else inl) in
        if \<not> outl \<ge> ctx_removetlsfixed ctx then Ret (ctx, Inl ERR_R_INTERNAL_ERROR)
        else
          let outl = outl - ctx_removetlsfixed ctx in
          if ctx_tlsmacsize ctx > 0 then
            if outl < ctx_tlsmacsize ctx then Ret (ctx, Inl ERR_R_INTERNAL_ERROR)
            else Ret (ctx\<lparr>ctx_tlsmac := Some (In_Record (outl - ctx_tlsmacsize ctx))\<rparr>, Inr (outl - ctx_tlsmacsize ctx))
          else Ret (ctx, Inr outl))"

definition ossl_cipher_generic_stream_update :: "hw_cipher \<Rightarrow> PROV_CIPHER_CTX \<Rightarrow> byte list \<Rightarrow> nat \<Rightarrow> IN_PTR \<Rightarrow> nat \<Rightarrow> op_result" where
  "ossl_cipher_generic_stream_update cipher ctx out outsize inp inl =
     (if \<not> ctx_key_set ctx then Ret (ctx, Inl PROV_R_NO_KEY_SET)
      else if inl = 0 then Ret (ctx, Inr (0, out))
      else if outsize < inl then Ret (ctx, Inl PROV_R_OUTPUT_BUFFER_TOO_SMALL)
      else
        obind (input_bytes (ctx\<lparr>ctx_bufsz := 0\<rparr>) out inp inl) (\<lambda>d.
        cbind (call_cipher cipher (inp = In_Is_Out) ctx d) (\<lambda>ctx res.
        if length res > length out then Undef
        else
          let out = patch out 0 res in
          if \<not> ctx_enc ctx \<and> ctx_tlsversion ctx > 0
          then cbind (stream_tls_trim ctx out inl) (\<lambda>ctx outl. Ret (ctx, Inr (outl, out)))
          else Ret (ctx, Inr (inl, out)))))"

definition ossl_cipher_generic_stream_final :: "bool \<Rightarrow> PROV_CIPHER_CTX \<Rightarrow> byte list \<Rightarrow> op_result" where
  "ossl_cipher_generic_stream_final running ctx out =
     (if \<not> running then Ret (ctx, Inl PROV_NOT_RUNNING)
      else if \<not> ctx_key_set ctx then Ret (ctx, Inl PROV_R_NO_KEY_SET)
      else Ret (ctx, Inr (0, out)))"

section \<open>Initialisation\<close>

abbreviation EVP_CIPH_ECB_MODE :: nat where "EVP_CIPH_ECB_MODE \<equiv> 1"
abbreviation EVP_CIPH_CBC_MODE :: nat where "EVP_CIPH_CBC_MODE \<equiv> 2"
abbreviation EVP_CIPH_CFB_MODE :: nat where "EVP_CIPH_CFB_MODE \<equiv> 3"
abbreviation EVP_CIPH_OFB_MODE :: nat where "EVP_CIPH_OFB_MODE \<equiv> 4"

definition ossl_cipher_generic_reset_ctx :: "PROV_CIPHER_CTX \<Rightarrow> PROV_CIPHER_CTX" where
  "ossl_cipher_generic_reset_ctx ctx = (if ctx_alloced ctx then ctx\<lparr>ctx_alloced := False, ctx_tlsmac := None\<rparr> else ctx)"

definition ossl_cipher_generic_initiv :: "PROV_CIPHER_CTX \<Rightarrow> byte list \<Rightarrow> (PROV_CIPHER_CTX \<times> (cipher_error + unit)) outcome" where
  "ossl_cipher_generic_initiv ctx iv =
     Ret (if length iv \<noteq> ctx_ivlen ctx \<or> length iv > GENERIC_BLOCK_SIZE then (ctx, Inl PROV_R_INVALID_IV_LENGTH)
          else (ctx\<lparr>ctx_iv_set := True, ctx_iv := patch (ctx_iv ctx) 0 iv, ctx_oiv := patch (ctx_oiv ctx) 0 iv\<rparr>, Inr ()))"

text \<open>
  The parameters that are set: each is absent, or present with a value that does not convert (\<open>Some None\<close>), or
  present with a value.
\<close>

record cipher_params =
  param_padding :: "uint option option"
  param_use_bits :: "uint option option"
  param_tls_version :: "uint option option"
  param_tls_mac_size :: "nat option option"
  param_num :: "uint option option"

definition set_param :: "'a option option \<Rightarrow> ('a \<Rightarrow> PROV_CIPHER_CTX \<Rightarrow> PROV_CIPHER_CTX) \<Rightarrow> PROV_CIPHER_CTX \<Rightarrow> (PROV_CIPHER_CTX \<times> (cipher_error + unit)) outcome" where
  "set_param p f ctx =
     (case p of
        None \<Rightarrow> Ret (ctx, Inr ())
      | Some None \<Rightarrow> Ret (ctx, Inl PROV_R_FAILED_TO_GET_PARAMETER)
      | Some (Some v) \<Rightarrow> Ret (f v ctx, Inr ()))"

definition ossl_cipher_generic_set_ctx_params :: "PROV_CIPHER_CTX \<Rightarrow> cipher_params option \<Rightarrow> (PROV_CIPHER_CTX \<times> (cipher_error + unit)) outcome" where
  "ossl_cipher_generic_set_ctx_params ctx params =
     (case params of
        None \<Rightarrow> Ret (ctx, Inr ())
      | Some ps \<Rightarrow>
          cbind (set_param (param_padding ps) (\<lambda>pad. ctx_pad_update (\<lambda>_. pad \<noteq> 0)) ctx) (\<lambda>ctx _.
          cbind (set_param (param_use_bits ps) (\<lambda>bits. ctx_use_bits_update (\<lambda>_. bits \<noteq> 0)) ctx) (\<lambda>ctx _.
          cbind (set_param (param_tls_version ps) (\<lambda>v. ctx_tlsversion_update (\<lambda>_. v)) ctx) (\<lambda>ctx _.
          cbind (set_param (param_tls_mac_size ps) (\<lambda>n. ctx_tlsmacsize_update (\<lambda>_. n)) ctx) (\<lambda>ctx _.
          set_param (param_num ps) (\<lambda>n. ctx_num_update (\<lambda>_. n)) ctx)))))"

text \<open>The key set-up of the cipher is the parameter \<open>hw_init\<close>.\<close>

definition cipher_generic_init_internal ::
    "(PROV_CIPHER_CTX \<Rightarrow> byte list \<Rightarrow> nat \<Rightarrow> bool \<times> PROV_CIPHER_CTX) \<Rightarrow> bool \<Rightarrow> PROV_CIPHER_CTX \<Rightarrow> byte list option \<Rightarrow> byte list option
     \<Rightarrow> cipher_params option \<Rightarrow> bool \<Rightarrow> (PROV_CIPHER_CTX \<times> (cipher_error + unit)) outcome" where
  "cipher_generic_init_internal hw_init running ctx key iv params enc =
     (let ctx = ctx\<lparr>ctx_num := 0, ctx_bufsz := 0, ctx_updated := False, ctx_enc := enc\<rparr> in
      if \<not> running then Ret (ctx, Inl PROV_NOT_RUNNING)
      else
        cbind (case iv of
                 Some v \<Rightarrow> if ctx_mode ctx \<noteq> EVP_CIPH_ECB_MODE then ossl_cipher_generic_initiv ctx v else Ret (ctx, Inr ())
               | None \<Rightarrow>
                   if ctx_iv_set ctx \<and> ctx_mode ctx \<in> {EVP_CIPH_CBC_MODE, EVP_CIPH_CFB_MODE, EVP_CIPH_OFB_MODE}
                   then Ret (ctx\<lparr>ctx_iv := patch (ctx_iv ctx) 0 (take (ctx_ivlen ctx) (ctx_oiv ctx))\<rparr>, Inr ())
                   else Ret (ctx, Inr ())) (\<lambda>ctx _.
        cbind (case key of
                 None \<Rightarrow> Ret (ctx, Inr ())
               | Some k \<Rightarrow>
                   if \<not> ctx_variable_keylength ctx \<and> length k \<noteq> ctx_keylen ctx then Ret (ctx, Inl PROV_R_INVALID_KEY_LENGTH)
                   else
                     let ctx = (if ctx_variable_keylength ctx then ctx\<lparr>ctx_keylen := length k\<rparr> else ctx);
                         (ok, ctx) = hw_init ctx k (ctx_keylen ctx)
                     in if ok then Ret (ctx\<lparr>ctx_key_set := True\<rparr>, Inr ()) else Ret (ctx, Inl HW_INIT_FAILED)) (\<lambda>ctx _.
        ossl_cipher_generic_set_ctx_params ctx params)))"

definition ossl_cipher_generic_einit ::
    "(PROV_CIPHER_CTX \<Rightarrow> byte list \<Rightarrow> nat \<Rightarrow> bool \<times> PROV_CIPHER_CTX) \<Rightarrow> bool \<Rightarrow> PROV_CIPHER_CTX \<Rightarrow> byte list option \<Rightarrow> byte list option
     \<Rightarrow> cipher_params option \<Rightarrow> (PROV_CIPHER_CTX \<times> (cipher_error + unit)) outcome" where
  "ossl_cipher_generic_einit hw_init running ctx key iv params = cipher_generic_init_internal hw_init running ctx key iv params True"

definition ossl_cipher_generic_dinit ::
    "(PROV_CIPHER_CTX \<Rightarrow> byte list \<Rightarrow> nat \<Rightarrow> bool \<times> PROV_CIPHER_CTX) \<Rightarrow> bool \<Rightarrow> PROV_CIPHER_CTX \<Rightarrow> byte list option \<Rightarrow> byte list option
     \<Rightarrow> cipher_params option \<Rightarrow> (PROV_CIPHER_CTX \<times> (cipher_error + unit)) outcome" where
  "ossl_cipher_generic_dinit hw_init running ctx key iv params = cipher_generic_init_internal hw_init running ctx key iv params False"

abbreviation PROV_CIPHER_FLAG_VARIABLE_LENGTH :: ulong where "PROV_CIPHER_FLAG_VARIABLE_LENGTH \<equiv> 0x100"
abbreviation PROV_CIPHER_FLAG_INVERSE_CIPHER :: ulong where "PROV_CIPHER_FLAG_INVERSE_CIPHER \<equiv> 0x200"

definition ossl_cipher_generic_initkey :: "PROV_CIPHER_CTX \<Rightarrow> nat \<Rightarrow> nat \<Rightarrow> nat \<Rightarrow> nat \<Rightarrow> ulong \<Rightarrow> PROV_CIPHER_CTX" where
  "ossl_cipher_generic_initkey ctx kbits blkbits ivbits mode flags =
     (let ctx = (if flags AND PROV_CIPHER_FLAG_INVERSE_CIPHER \<noteq> 0 then ctx\<lparr>ctx_inverse_cipher := True\<rparr> else ctx);
          ctx = (if flags AND PROV_CIPHER_FLAG_VARIABLE_LENGTH \<noteq> 0 then ctx\<lparr>ctx_variable_keylength := True\<rparr> else ctx)
      in ctx\<lparr>ctx_pad := True, ctx_keylen := kbits div 8, ctx_ivlen := ivbits div 8, ctx_mode := mode, ctx_blocksize := blkbits div 8\<rparr>)"

section \<open>What an update does\<close>

lemma block_mask_eq:
  assumes "B = 2 ^ k" "k < 64" "n < 2 ^ 64"
  shows "block_mask n B = n - n mod B"
proof -
  have m: "sz B - 1 = mask k" using assms by (simp add: mask_eq_exp_minus_1)
  have n: "bit n i \<Longrightarrow> i < 64" for i
    using assms(3) bit_take_bit_iff [of 64 n i] by (simp add: take_bit_nat_eq_self)
  have "unat (sz n AND NOT (mask k)) = push_bit k (drop_bit k n)"
    by (rule bit_eqI) (auto simp: bit_simps dest: n)
  also have "\<dots> = n - n mod B"
    using assms(1) by (simp add: push_bit_eq_mult drop_bit_eq_div minus_mod_eq_div_mult)
  finally show ?thesis unfolding block_mask_def m .
qed

lemma pow2_check: "B = 2 ^ k \<Longrightarrow> sz B AND (sz B - 1) = 0"
proof -
  assume B: "B = 2 ^ k"
  then have m: "sz B - 1 = mask k" by (simp add: mask_eq_exp_minus_1)
  have "take_bit k (2 ^ k :: ulong) = 0" by (rule bit_word_eqI) (auto simp: bit_simps)
  then show ?thesis unfolding m using B by (simp flip: take_bit_eq_mask)
qed

text \<open>A context with a key, used outside TLS; a whole block stays in the buffer only when decrypting padded data.\<close>

definition wf_ctx :: "PROV_CIPHER_CTX \<Rightarrow> bool" where
  "wf_ctx c \<longleftrightarrow> length (ctx_buf c) = 16 \<and> ctx_blocksize c \<le> 16 \<and> (\<exists>k. ctx_blocksize c = 2 ^ k) \<and> ctx_key_set c \<and> ctx_tlsversion c = 0
     \<and> (if \<not> ctx_enc c \<and> ctx_pad c then ctx_bufsz c \<le> ctx_blocksize c else ctx_bufsz c < ctx_blocksize c)"

definition buffered :: "PROV_CIPHER_CTX \<Rightarrow> byte list" where
  "buffered c = take (ctx_bufsz c) (ctx_buf c)"

text \<open>How many of \<open>n\<close> bytes that have come in are processed: whole blocks, without the last one when it may be padding.\<close>

definition releasable :: "PROV_CIPHER_CTX \<Rightarrow> nat \<Rightarrow> nat" where
  "releasable c n = (if \<not> ctx_enc c \<and> ctx_pad c then n - 1 else n) div ctx_blocksize c * ctx_blocksize c"

lemma wf_blocksize:
  assumes "wf_ctx c"
  shows "0 < ctx_blocksize c" "n < 2 ^ 64 \<Longrightarrow> block_mask n (ctx_blocksize c) = n - n mod ctx_blocksize c"
    "sz (ctx_blocksize c) AND (sz (ctx_blocksize c) - 1) = 0"
proof -
  obtain k where k: "ctx_blocksize c = 2 ^ k" using assms by (auto simp: wf_ctx_def)
  have "(2::nat) ^ k \<le> 2 ^ 4" using assms k by (simp add: wf_ctx_def)
  then have "k \<le> 4" by (rule power_le_imp_le_exp [rotated]) simp
  then show "n < 2 ^ 64 \<Longrightarrow> block_mask n (ctx_blocksize c) = n - n mod ctx_blocksize c" using k by (intro block_mask_eq [where k = k]) auto
  show "0 < ctx_blocksize c" "sz (ctx_blocksize c) AND (sz (ctx_blocksize c) - 1) = 0" using pow2_check [OF k] k by simp_all
qed

lemma releasable_bounds:
  assumes "0 < ctx_blocksize c"
  shows "ctx_blocksize c dvd releasable c n" "releasable c n \<le> n" "n - releasable c n \<le> ctx_blocksize c"
    "\<not> (\<not> ctx_enc c \<and> ctx_pad c) \<Longrightarrow> n - releasable c n < ctx_blocksize c"
proof -
  have d: "m div ctx_blocksize c * ctx_blocksize c = m - m mod ctx_blocksize c" "m mod ctx_blocksize c < ctx_blocksize c" for m
    using assms by (simp_all add: minus_mod_eq_div_mult)
  show "ctx_blocksize c dvd releasable c n" by (simp add: releasable_def)
  have m: "Suc ((n - 1) mod ctx_blocksize c) \<le> ctx_blocksize c" "n mod ctx_blocksize c \<le> ctx_blocksize c"
    using d(2) [of "n - 1"] d(2) [of n] by linarith+
  show "releasable c n \<le> n" "n - releasable c n \<le> ctx_blocksize c"
    unfolding releasable_def d(1) using m by (auto simp: le_diff_conv)
  show "\<not> (\<not> ctx_enc c \<and> ctx_pad c) \<Longrightarrow> n - releasable c n < ctx_blocksize c"
    using d [of n] assms mod_less_eq_dividend [of n "ctx_blocksize c"] by (auto simp: releasable_def)
qed

lemma minus_one_div: "0 < (n::nat) \<Longrightarrow> 0 < B \<Longrightarrow> (n - 1) div B * B = (if B dvd n then n - B else n - n mod B)"
proof -
  assume n: "0 < n" "0 < B"
  show ?thesis
  proof (cases "B dvd n")
    case True
    then obtain q where q: "n = B * q" by blast
    then obtain p where "q = Suc p" using n by (cases q) auto
    then have e: "n - 1 = B * p + (B - 1)" using q n by simp
    have "(n - 1) div B = p" unfolding e using n by (subst div_mult_self4) simp_all
    then show ?thesis using True q \<open>q = Suc p\<close> by simp
  next
    case False
    then have "n mod B \<noteq> 0" by (simp add: dvd_eq_mod_eq_0)
    then have "n - 1 = B * (n div B) + (n mod B - 1)" "n mod B - 1 < B" using n mult_div_mod_eq [of B n] by (simp_all add: less_imp_diff_less)
    then have "(n - 1) div B = n div B" by simp
    then show ?thesis using False by (simp add: minus_mod_eq_div_mult)
  qed
qed

lemma hold_back_eq:
  assumes "wf_ctx c" "outlint + releasable c n \<le> outsize"
  shows "hold_back c outsize outlint (n - n mod ctx_blocksize c) n = Inr (releasable c n)"
proof -
  have B: "0 < ctx_blocksize c" using wf_blocksize [OF assms(1)] by simp
  show ?thesis
  proof (cases "n < ctx_blocksize c")
    case True
    then show ?thesis by (simp add: hold_back_def releasable_def)
  next
    case False
    then have n: "0 < n - n mod ctx_blocksize c" "0 < n" "ctx_blocksize c \<le> n" using B mod_less_divisor [OF B, of n] by linarith+
    have "n - n mod ctx_blocksize c = n \<longleftrightarrow> ctx_blocksize c dvd n" using n(2) mod_less_eq_dividend [of n "ctx_blocksize c"] by (auto simp: dvd_eq_mod_eq_0)
    then show ?thesis using n B assms(2) minus_one_div [OF n(2) B]
      by (cases "\<not> ctx_enc c \<and> ctx_pad c") (auto simp: hold_back_def releasable_def minus_mod_eq_div_mult)
  qed
qed

lemma releasable_add:
  assumes B: "0 < ctx_blocksize c" and a: "ctx_blocksize c dvd a" and "ctx_enc c \<or> 0 < n \<or> \<not> ctx_pad c"
  shows "releasable c (a + n) = a + releasable c n"
proof -
  obtain q where q: "a = ctx_blocksize c * q" using a by blast
  have add: "(a + m) div ctx_blocksize c * ctx_blocksize c = a + m div ctx_blocksize c * ctx_blocksize c" for m
    using B by (simp add: q algebra_simps)
  show ?thesis
  proof (cases "\<not> ctx_enc c \<and> ctx_pad c")
    case True
    then have "a + n - 1 = a + (n - 1)" using assms(3) by auto
    then show ?thesis using True by (simp only: releasable_def add simp_thms if_True)
  next
    case False
    then show ?thesis using add by (auto simp: releasable_def)
  qed
qed

lemma releasable_split:
  assumes B: "0 < ctx_blocksize c"
  shows "releasable c (n + m) = releasable c n + releasable c (n - releasable c n + m)"
proof (cases "ctx_enc c \<or> 0 < n - releasable c n + m \<or> \<not> ctx_pad c")
  case True
  have "n + m = releasable c n + (n - releasable c n + m)" using releasable_bounds(2) [OF B, of n] by simp
  then show ?thesis using releasable_add [OF B releasable_bounds(1) [OF B] True, of n] by simp
next
  case False
  then have "\<not> ctx_enc c" "ctx_pad c" "m = 0" "n \<le> releasable c n" by auto
  moreover have "(n - 1) div ctx_blocksize c * ctx_blocksize c \<le> n - 1" by simp
  ultimately show ?thesis by (auto simp: releasable_def)
qed

lemma wf_releases_nothing: "wf_ctx c \<Longrightarrow> releasable c (ctx_bufsz c) = 0"
proof -
  assume wf: "wf_ctx c"
  have "(if \<not> ctx_enc c \<and> ctx_pad c then ctx_bufsz c - 1 else ctx_bufsz c) < ctx_blocksize c"
  proof -
    have "if \<not> ctx_enc c \<and> ctx_pad c then ctx_bufsz c \<le> ctx_blocksize c else ctx_bufsz c < ctx_blocksize c"
      using wf unfolding wf_ctx_def by blast
    then show ?thesis using wf_blocksize(1) [OF wf] by (auto split: if_splits)
  qed
  then show ?thesis by (simp only: releasable_def div_less mult_0)
qed

lemma patch_patch: "length x + length y \<le> length out \<Longrightarrow> patch (patch out 0 x) (length x) y = patch out 0 (x @ y)"
proof -
  have "drop (length y) (drop (length x) out) = drop (length x + length y) out" by (simp only: drop_drop add.commute [of "length x" "length y"])
  then show ?thesis by (simp add: patch_def)
qed

lemma trailing_fits:
  "length rest \<le> n \<Longrightarrow> n \<le> length buf \<Longrightarrow>
     \<exists>buf'. ossl_cipher_trailingdata buf 0 n rest = Ret (Inr (buf', length rest)) \<and> length buf' = length buf \<and> take (length rest) buf' = rest"
  by (auto simp: ossl_cipher_trailingdata_def patch_def)

context block_mode
begin

lemma call_cipher_eq:
  "ready c \<Longrightarrow> ctx_blocksize c dvd length d \<Longrightarrow> call_cipher cipher same c d = Ret (c\<lparr>ctx_iv := fst (crypt c d)\<rparr>, Inr (snd (crypt c d)))"
  by (simp add: call_cipher_def cipher_crypts)

lemma process_blocks_eq:
  assumes r: "ready c" and wf: "wf_ctx c" and bufsz: "ctx_bufsz c = 0"
    and out: "outlint + releasable c (length d) \<le> outsize" "outsize \<le> length out"
  defines "k \<equiv> releasable c (length d)"
  shows "\<exists>b. process_blocks cipher same c out outsize outlint (length d - length d mod ctx_blocksize c) d =
      Ret (c\<lparr>ctx_iv := fst (crypt c (take k d)), ctx_buf := b, ctx_bufsz := length d - k\<rparr>, Inr (outlint + k, patch out outlint (snd (crypt c (take k d)))))
    \<and> length b = 16 \<and> take (length d - k) b = drop k d"
proof -
  have B: "0 < ctx_blocksize c" using wf_blocksize [OF wf] by simp
  note k = releasable_bounds [OF B, of "length d", folded k_def]
  have call: "(if 0 < k then call_cipher cipher same c (take k d) else Ret (c, Inr [])) =
      Ret (c\<lparr>ctx_iv := fst (crypt c (take k d))\<rparr>, Inr (snd (crypt c (take k d))))"
    using k(1,2) r by (simp add: call_cipher_eq crypt_Nil min_absorb2)
  have len: "length (snd (crypt c (take k d))) = k" using k(1,2) r by (simp add: length_crypt min_absorb2)
  obtain b where b: "ossl_cipher_trailingdata (ctx_buf c) 0 (ctx_blocksize c) (drop k d) = Ret (Inr (b, length (drop k d)))"
    "length b = 16" "take (length d - k) b = drop k d"
    using trailing_fits [of "drop k d" "ctx_blocksize c" "ctx_buf c"] k(3) wf by (auto simp: wf_ctx_def)
  show ?thesis
    using b call len out bufsz
    by (intro exI [of _ b]) (simp add: process_blocks_def hold_back_eq [OF wf out(1)] k_def [symmetric] cbind_def)
qed

text \<open>
  What an update leaves behind: the bytes in the buffer and those that came in, \<open>s\<close>, are cut at the releasable part;
  that is processed, the rest is in the buffer.
\<close>

lemma wf_ctx_keep:
  "wf_ctx c \<Longrightarrow> length b = 16 \<Longrightarrow> (if \<not> ctx_enc c \<and> ctx_pad c then n \<le> ctx_blocksize c else n < ctx_blocksize c) \<Longrightarrow>
     wf_ctx (c\<lparr>ctx_iv := v, ctx_buf := b, ctx_bufsz := n\<rparr>)"
  by (simp add: wf_ctx_def)

lemma update_empty_buffer:
  assumes r: "ready c" and wf: "wf_ctx c" and d: "length d < 2 ^ 63" and bufsz: "ctx_bufsz c = 0"
    and out: "releasable c (length d) \<le> outsize" "outsize \<le> length out"
  defines "k \<equiv> releasable c (length d)"
  shows "\<exists>b. ossl_cipher_generic_block_update cipher mem rand stk c out outsize (In_At d) (length d) =
      Ret (c\<lparr>ctx_iv := fst (crypt c (take k d)), ctx_buf := b, ctx_bufsz := length d - k\<rparr>, Inr (k, patch out 0 (snd (crypt c (take k d)))))
    \<and> length b = 16 \<and> take (length d - k) b = drop k d"
proof -
  have same: "c\<lparr>ctx_bufsz := 0\<rparr> = c" using bufsz by simp
  have fl: "flush_block cipher c out outsize d = Ret (c, Inr (0, out))"
    using wf_blocksize(1) [OF wf] bufsz by (simp add: flush_block_def)
  have len: "length d < 2 ^ 64" using d by simp
  show ?thesis
    using process_blocks_eq [OF r wf bufsz, of 0 d outsize out False] out wf bufsz fl
    by (simp add: same ossl_cipher_generic_block_update_def input_bytes_def wf_ctx_def wf_blocksize(2) [OF wf len] cbind_def k_def)
qed

text \<open>A block \<open>x\<close> that is complete in the buffer is processed before the whole blocks of the input.\<close>

lemma flush_then_process:
  assumes r: "ready c" and wf: "wf_ctx c" and x: "length x = ctx_blocksize c" "take (ctx_blocksize c) buf = x" "length buf = 16"
    and go: "ctx_enc c \<or> d \<noteq> [] \<or> \<not> ctx_pad c"
    and out: "ctx_blocksize c + releasable c (length d) \<le> outsize" "outsize \<le> length out"
  defines "k \<equiv> ctx_blocksize c + releasable c (length d)"
  shows "\<exists>b. cbind (flush_block cipher (c\<lparr>ctx_buf := buf, ctx_bufsz := ctx_blocksize c\<rparr>) out outsize d) (\<lambda>ctx (outlint, out).
        process_blocks cipher False ctx out outsize outlint (length d - length d mod ctx_blocksize c) d) =
      Ret (c\<lparr>ctx_iv := fst (crypt c (take k (x @ d))), ctx_buf := b, ctx_bufsz := length (x @ d) - k\<rparr>,
           Inr (k, patch out 0 (snd (crypt c (take k (x @ d))))))
    \<and> length b = 16 \<and> take (length (x @ d) - k) b = drop k (x @ d)"
proof -
  let ?B = "ctx_blocksize c" and ?j = "releasable c (length d)"
  have B: "0 < ?B" "?B \<le> 16" using wf wf_blocksize(1) [OF wf] by (auto simp: wf_ctx_def)
  define c2 where "c2 = c\<lparr>ctx_iv := fst (crypt c x), ctx_buf := buf, ctx_bufsz := 0\<rparr>"
  have r2: "ready c2" using ready_crypt [OF r, of x] x(1) by (simp add: c2_def ready_buf)
  have wf2: "wf_ctx c2" unfolding c2_def by (rule wf_ctx_keep [OF wf x(3)]) (use B in auto)
  have c2: "releasable c2 = releasable c" "ctx_bufsz c2 = 0" "ctx_blocksize c2 = ?B" "crypt c2 = crypt (c\<lparr>ctx_iv := fst (crypt c x)\<rparr>)"
    by (simp_all add: c2_def releasable_def fun_eq_iff crypt_buf)
  have lx: "length (snd (crypt c x)) = ?B" using length_crypt [OF r, of x] x(1) by simp
  have fits: "?B \<le> outsize" "?B \<le> length out" "?B + ?j \<le> length out" using out by simp_all
  have fl: "flush_block cipher (c\<lparr>ctx_buf := buf, ctx_bufsz := ?B\<rparr>) out outsize d = Ret (c2, Inr (?B, patch out 0 (snd (crypt c x))))"
  proof -
    have "call_cipher cipher False (c\<lparr>ctx_buf := buf, ctx_bufsz := ?B\<rparr>) x =
        Ret (c\<lparr>ctx_iv := fst (crypt c x), ctx_buf := buf, ctx_bufsz := ?B\<rparr>, Inr (snd (crypt c x)))"
      using call_cipher_eq [of "c\<lparr>ctx_buf := buf, ctx_bufsz := ?B\<rparr>" x False] r x(1) by (simp add: ready_buf crypt_buf)
    then show ?thesis using go fits x(2,3) lx B(2) by (simp add: flush_block_def Let_def cbind_def c2_def)
  qed
  have lo: "length (patch out 0 (snd (crypt c x))) = length out" using lx fits(2) by simp
  obtain b where b: "process_blocks cipher False c2 (patch out 0 (snd (crypt c x))) outsize ?B (length d - length d mod ?B) d =
      Ret (c2\<lparr>ctx_iv := fst (crypt c2 (take ?j d)), ctx_buf := b, ctx_bufsz := length d - ?j\<rparr>,
           Inr (?B + ?j, patch (patch out 0 (snd (crypt c x))) ?B (snd (crypt c2 (take ?j d)))))"
    "length b = 16" "take (length d - ?j) b = drop ?j d"
    using process_blocks_eq [OF r2 wf2 c2(2), of ?B d outsize "patch out 0 (snd (crypt c x))" False] out lo unfolding c2(1,3) by auto
  have j: "?B dvd length (take ?j d)" "length (take ?j d) = ?j" using releasable_bounds(1,2) [OF B(1), of "length d"] by simp_all
  have cr: "crypt c (x @ take ?j d) = (fst (crypt c2 (take ?j d)), snd (crypt c x) @ snd (crypt c2 (take ?j d)))"
    unfolding c2(4) using crypt_append [OF r, of x] x(1) j(1) by simp
  have "length (snd (crypt c2 (take ?j d))) = ?j" using length_crypt [OF r2] c2(3) j by simp
  then have pp: "patch (patch out 0 (snd (crypt c x))) ?B (snd (crypt c2 (take ?j d))) = patch out 0 (snd (crypt c (x @ take ?j d)))"
    using patch_patch [of "snd (crypt c x)" "snd (crypt c2 (take ?j d))" out] lx fits(3) by (simp add: cr)
  have cut: "take k (x @ d) = x @ take ?j d" "drop k (x @ d) = drop ?j d" "length (x @ d) - k = length d - ?j"
    using x(1) by (simp_all add: k_def)
  show ?thesis
    unfolding fl cbind_def obind.simps prod.case sum.case b(1) pp cut
    using b(2,3) by (intro exI [of _ b]) (simp add: cr c2_def k_def)
qed

lemma update_full_buffer:
  assumes r: "ready c" and wf: "wf_ctx c" and d: "length d < 2 ^ 63" and bufsz: "ctx_bufsz c \<noteq> 0"
    and out: "releasable c (length (buffered c @ d)) \<le> outsize" "outsize \<le> length out"
  defines "s \<equiv> buffered c @ d" and "k \<equiv> releasable c (length (buffered c @ d))"
  shows "\<exists>b. ossl_cipher_generic_block_update cipher mem rand stk c out outsize (In_At d) (length d) =
      Ret (c\<lparr>ctx_iv := fst (crypt c (take k s)), ctx_buf := b, ctx_bufsz := length s - k\<rparr>, Inr (k, patch out 0 (snd (crypt c (take k s)))))
    \<and> length b = 16 \<and> take (length s - k) b = drop k s"
proof -
  let ?B = "ctx_blocksize c" and ?n = "ctx_bufsz c"
  have B: "0 < ?B" "?B \<le> 16" "?n \<le> ?B" "length (ctx_buf c) = 16" using wf wf_blocksize(1) [OF wf] by (auto simp: wf_ctx_def split: if_splits)
  then have n: "length (buffered c) = ?n" by (simp add: buffered_def)
  define m where "m = min (length d) (?B - ?n)"
  define buf where "buf = patch (ctx_buf c) ?n (take m d)"
  have m: "m \<le> length d" "?n + m \<le> ?B" by (auto simp: m_def) (use B in linarith)
  have buf: "length buf = 16" "take (?n + m) buf = buffered c @ take m d"
    using m B take_patch_end [of ?n "take m d" "ctx_buf c"] by (simp_all add: buf_def buffered_def min_absorb2)
  have fill: "ossl_cipher_fillblock (ctx_buf c) ?n ?B d = Ret (length (drop m d) - length (drop m d) mod ?B, buf, ?n + m, drop m d)"
  proof -
    have lt: "length d - m < 2 ^ 64" using d by simp
    have "(if length d < ?B - ?n then length d else ?B - ?n) = m" by (simp add: m_def min_def)
    then show ?thesis
      unfolding ossl_cipher_fillblock_def Let_def using B m wf_blocksize(3) [OF wf] wf_blocksize(2) [OF wf lt] by (simp add: buf_def)
  qed
  have upd: "ossl_cipher_generic_block_update cipher mem rand stk c out outsize (In_At d) (length d) =
      cbind (flush_block cipher (c\<lparr>ctx_buf := buf, ctx_bufsz := ?n + m\<rparr>) out outsize (drop m d)) (\<lambda>ctx (outlint, out).
        process_blocks cipher False ctx out outsize outlint (length (drop m d) - length (drop m d) mod ?B) (drop m d))"
    using wf bufsz by (simp add: ossl_cipher_generic_block_update_def input_bytes_def wf_ctx_def fill)
  show ?thesis
  proof (cases "?n + m = ?B \<and> (ctx_enc c \<or> drop m d \<noteq> [] \<or> \<not> ctx_pad c)")
    case False
    then have all: "drop m d = []" "m = length d" using m by (auto simp: m_def min_def split: if_splits)
    have "k = 0" using False all n B m by (auto simp: k_def releasable_def)
    then show ?thesis
      using False all buf n wf
      unfolding upd by (intro exI [of _ buf]) (auto simp: flush_block_def cbind_def process_blocks_def hold_back_def
          ossl_cipher_trailingdata_def s_def crypt_Nil [OF r])
  next
    case True
    let ?x = "buffered c @ take m d" and ?d = "drop m d"
    have x: "length ?x = ?B" "take ?B buf = ?x" using buf(2) True n m by auto
    have s: "s = ?x @ ?d" by (simp add: s_def)
    have k: "k = ?B + releasable c (length ?d)"
    proof -
      have "length (buffered c @ d) = ?B + length ?d" unfolding x(1) [symmetric] length_append [symmetric] by simp
      then show ?thesis unfolding k_def using True by (metis releasable_add B(1) dvd_refl length_greater_0_conv)
    qed
    have n': "?n + m = ?B" using True by simp
    have out': "?B + releasable c (length ?d) \<le> outsize" using out(1) unfolding k_def [symmetric] k .
    have go: "ctx_enc c \<or> ?d \<noteq> [] \<or> \<not> ctx_pad c" using True by blast
    show ?thesis
      unfolding upd s n' k by (rule flush_then_process [OF r wf x buf(1) go out' out(2)])
  qed
qed

theorem block_update_spec:
  assumes "ready c" "wf_ctx c" "length d < 2 ^ 63"
    and "releasable c (length (buffered c @ d)) \<le> outsize" "outsize \<le> length out"
  obtains b where
    "ossl_cipher_generic_block_update cipher mem rand stk c out outsize (In_At d) (length d) =
       Ret (c\<lparr>ctx_iv := fst (crypt c (take (releasable c (length (buffered c @ d))) (buffered c @ d))), ctx_buf := b,
              ctx_bufsz := length (buffered c @ d) - releasable c (length (buffered c @ d))\<rparr>,
            Inr (releasable c (length (buffered c @ d)),
                 patch out 0 (snd (crypt c (take (releasable c (length (buffered c @ d))) (buffered c @ d))))))"
    "length b = 16" "take (length (buffered c @ d) - releasable c (length (buffered c @ d))) b = drop (releasable c (length (buffered c @ d))) (buffered c @ d)"
proof (cases "ctx_bufsz c = 0")
  case True
  then have "buffered c = []" by (simp add: buffered_def)
  then show thesis using that update_empty_buffer [of c d outsize out mem rand stk, OF assms(1-3) True] assms(4,5) by auto
next
  case False
  show thesis using that update_full_buffer [of c d outsize out mem rand stk, OF assms(1-3) False assms(4,5)] by blast
qed

end

section \<open>The last block\<close>

text \<open>The padding of PKCS #7: as many bytes as are missing to the next multiple of the block size, each the number of them.\<close>

definition pkcs7_pad :: "nat \<Rightarrow> byte list \<Rightarrow> byte list" where
  "pkcs7_pad B x = (let p = B - length x mod B in x @ replicate p (of_nat p))"

definition pkcs7_unpad :: "nat \<Rightarrow> byte list \<Rightarrow> byte list option" where
  "pkcs7_unpad B y =
     (let p = unat (last y) in
      if 0 < p \<and> p \<le> B \<and> drop (length y - p) y = replicate p (last y) then Some (take (length y - p) y) else None)"

lemma unpad_loop_eq:
  "n \<le> len \<Longrightarrow> len \<le> length buf \<Longrightarrow>
     unpad_loop buf pad n len = (if \<forall>i < n. buf ! (len - Suc i) = pad then Some (len - n) else None)"
proof (induction n arbitrary: len)
  case (Suc n)
  have "(\<forall>i < Suc n. buf ! (len - Suc i) = pad) \<longleftrightarrow> buf ! (len - 1) = pad \<and> (\<forall>i < n. buf ! (len - 1 - Suc i) = pad)"
    by (auto simp: less_Suc_eq_0_disj)
  then show ?case using Suc.IH [of "len - 1"] Suc.prems by simp
qed simp

lemma all_from_end:
  assumes "p \<le> length y"
  shows "(\<forall>i < p. y ! (length y - Suc i) = v) \<longleftrightarrow> drop (length y - p) y = replicate p v"
proof -
  have "drop (length y - p) y = replicate p v \<longleftrightarrow> (\<forall>j < p. y ! (length y - p + j) = v)"
    using assms by (simp add: list_eq_iff_nth_eq)
  also have "\<dots> \<longleftrightarrow> (\<forall>i < p. y ! (length y - Suc i) = v)"
  proof (intro iffI allI impI)
    fix i assume "\<forall>j < p. y ! (length y - p + j) = v" "i < p"
    then have "y ! (length y - p + (p - Suc i)) = v" by (metis diff_Suc_less less_nat_zero_code neq0_conv)
    moreover have "length y - p + (p - Suc i) = length y - Suc i" using assms \<open>i < p\<close> by arith
    ultimately show "y ! (length y - Suc i) = v" by simp
  next
    fix j assume "\<forall>i < p. y ! (length y - Suc i) = v" "j < p"
    then have "y ! (length y - Suc (p - Suc j)) = v" by (metis diff_Suc_less less_nat_zero_code neq0_conv)
    moreover have "length y - Suc (p - Suc j) = length y - p + j" using assms \<open>j < p\<close> by arith
    ultimately show "y ! (length y - p + j) = v" by simp
  qed
  finally show ?thesis by simp
qed

lemma unpadblock_eq:
  assumes "0 < B" "B \<le> length buf"
  shows "ossl_cipher_unpadblock buf B B =
    Ret (case pkcs7_unpad B (take B buf) of None \<Rightarrow> Inl PROV_R_BAD_DECRYPT | Some x \<Rightarrow> Inr (length x))"
proof -
  let ?y = "take B buf"
  have "?y \<noteq> []" using assms by auto
  then have last: "buf ! (B - 1) = last ?y" "length ?y = B" using assms by (simp_all add: last_conv_nth min_absorb2)
  have loop: "unpad_loop buf v p B = (if drop (B - p) ?y = replicate p v then Some (B - p) else None)" if p: "p \<le> B" for p v
  proof -
    have nth: "?y ! (B - Suc i) = buf ! (B - Suc i)" for i using assms(1) by simp
    have "p \<le> length ?y" using p unfolding last(2) .
    from all_from_end [OF this, of v]
    have "(\<forall>i < p. buf ! (B - Suc i) = v) \<longleftrightarrow> drop (B - p) ?y = replicate p v" unfolding last(2) nth .
    then show ?thesis using unpad_loop_eq [OF p assms(2), of v] by (simp only: )
  qed
  show ?thesis
    unfolding ossl_cipher_unpadblock_def pkcs7_unpad_def Let_def last
    using assms last(2) by (auto simp: loop not_less)
qed

lemma pkcs7_unpad_SomeD: "pkcs7_unpad B y = Some x \<Longrightarrow> x = take (length x) y \<and> length x \<le> length y"
  by (auto simp: pkcs7_unpad_def Let_def split: if_splits)

lemma pkcs7_unpad_append:
  assumes "length y = B" "0 < B"
  shows "pkcs7_unpad B (x @ y) = map_option (\<lambda>z. x @ z) (pkcs7_unpad B y)"
proof -
  have ne: "y \<noteq> []" and last: "last (x @ y) = last y" using assms by auto
  have "p \<le> B \<Longrightarrow> drop (length (x @ y) - p) (x @ y) = drop (length y - p) y \<and> take (length (x @ y) - p) (x @ y) = x @ take (length y - p) y" for p
    using assms(1) by simp
  then show ?thesis unfolding pkcs7_unpad_def Let_def last by auto
qed

lemma pkcs7_roundtrip:
  assumes "0 < B" "B < 256"
  shows "pkcs7_unpad B (pkcs7_pad B x) = Some x" "B dvd length (pkcs7_pad B x)" "pkcs7_pad B x \<noteq> []"
proof -
  define p where "p = B - length x mod B"
  have p: "0 < p" "p \<le> B" using assms(1) by (simp_all add: p_def)
  have pad: "pkcs7_pad B x = x @ replicate p (of_nat p)" by (simp add: pkcs7_pad_def p_def Let_def)
  have last: "last (pkcs7_pad B x) = of_nat p" using p(1) by (simp add: pad last_append)
  have "unat (of_nat p :: byte) = p" using p(2) assms(2) by (simp add: unat_of_nat)
  then show "pkcs7_unpad B (pkcs7_pad B x) = Some x" unfolding pkcs7_unpad_def Let_def last using p by (simp add: pad)
  have "length x mod B \<le> length x" "length x mod B \<le> B" using mod_less_divisor [OF assms(1), of "length x"] by simp_all
  then have "length x + p = (length x - length x mod B) + B" by (simp add: p_def)
  moreover have "B dvd (length x - length x mod B) + B" by (intro dvd_add dvd_minus_mod dvd_refl)
  ultimately show "B dvd length (pkcs7_pad B x)" by (simp only: pad length_append length_replicate)
  show "pkcs7_pad B x \<noteq> []" using p by (simp add: pad)
qed

context block_mode
begin

lemma final_encrypt:
  assumes r: "ready c" and wf: "wf_ctx c" and enc: "ctx_enc c" "ctx_pad c" and out: "ctx_blocksize c \<le> outsize" "outsize \<le> length out"
  defines "p \<equiv> ctx_blocksize c - ctx_bufsz c"
  shows "\<exists>c'. ossl_cipher_generic_block_final cipher True c out outsize =
    Ret (c', Inr (ctx_blocksize c, patch out 0 (snd (crypt c (buffered c @ replicate p (of_nat p))))))"
proof -
  let ?B = "ctx_blocksize c" and ?x = "buffered c @ replicate p (of_nat p)"
  have B: "?B \<le> 16" "ctx_bufsz c < ?B" "length (ctx_buf c) = 16" "ctx_key_set c" "ctx_tlsversion c = 0" using wf enc by (auto simp: wf_ctx_def)
  define buf where "buf = patch (ctx_buf c) (ctx_bufsz c) (replicate p (of_nat p))"
  have pad: "ossl_cipher_padblock (ctx_buf c) (ctx_bufsz c) ?B = Ret buf" using B by (simp add: ossl_cipher_padblock_def buf_def p_def)
  have buf: "length buf = 16" "take ?B buf = ?x"
    using B take_patch_end [of "ctx_bufsz c" "replicate p (of_nat p)" "ctx_buf c"] by (simp_all add: buf_def buffered_def p_def)
  have x: "length ?x = ?B" using B by (simp add: buffered_def p_def)
  have "ready (c\<lparr>ctx_buf := buf\<rparr>)" "crypt (c\<lparr>ctx_buf := buf\<rparr>) = crypt c"
    using r ready_buf [where c = c and b = buf and n = "ctx_bufsz c"] crypt_buf [where c = c and b = buf and n = "ctx_bufsz c"] by simp_all
  then have call: "call_cipher cipher False (c\<lparr>ctx_buf := buf\<rparr>) ?x = Ret (c\<lparr>ctx_buf := buf, ctx_iv := fst (crypt c ?x)\<rparr>, Inr (snd (crypt c ?x)))"
    using call_cipher_eq [of "c\<lparr>ctx_buf := buf\<rparr>" ?x False] x by simp
  have "length (snd (crypt c ?x)) = ?B" using length_crypt [OF r, of ?x] x by simp
  then show ?thesis
    using B enc out buf by (simp add: ossl_cipher_generic_block_final_def Let_def pad call cbind_def)
qed

lemma final_decrypt:
  assumes r: "ready c" and wf: "wf_ctx c" and dec: "\<not> ctx_enc c" "ctx_pad c" and out: "ctx_blocksize c \<le> outsize" "outsize \<le> length out"
  shows "\<exists>c'. ossl_cipher_generic_block_final cipher True c out outsize =
    Ret (c', if ctx_bufsz c = ctx_blocksize c
             then case pkcs7_unpad (ctx_blocksize c) (snd (crypt c (buffered c))) of
                    None \<Rightarrow> Inl PROV_R_BAD_DECRYPT | Some x \<Rightarrow> Inr (length x, patch out 0 x)
             else Inl PROV_R_WRONG_FINAL_BLOCK_LENGTH)"
proof -
  let ?B = "ctx_blocksize c" and ?y = "snd (crypt c (buffered c))"
  have B: "0 < ?B" "?B \<le> 16" "length (ctx_buf c) = 16" "ctx_key_set c" "ctx_tlsversion c = 0"
    using wf wf_blocksize(1) [OF wf] by (auto simp: wf_ctx_def)
  show ?thesis
  proof (cases "ctx_bufsz c = ?B")
    case False
    then show ?thesis using B dec by (auto simp: ossl_cipher_generic_block_final_def Let_def)
  next
    case True
    then have x: "buffered c = take ?B (ctx_buf c)" "length (buffered c) = ?B" using B by (simp_all add: buffered_def)
    have y: "length ?y = ?B" using length_crypt [OF r, of "buffered c"] x(2) by simp
    have call: "call_cipher cipher True c (take ?B (ctx_buf c)) = Ret (c\<lparr>ctx_iv := fst (crypt c (buffered c))\<rparr>, Inr ?y)"
      using call_cipher_eq [OF r, of "buffered c" True] x by simp
    have buf: "take ?B (patch (ctx_buf c) 0 ?y) = ?y" "length (patch (ctx_buf c) 0 ?y) = 16" using y B by (simp_all add: patch_def)
    have un: "ossl_cipher_unpadblock (patch (ctx_buf c) 0 ?y) ?B ?B =
        Ret (case pkcs7_unpad ?B ?y of None \<Rightarrow> Inl PROV_R_BAD_DECRYPT | Some x \<Rightarrow> Inr (length x))"
      using unpadblock_eq [OF B(1), of "patch (ctx_buf c) 0 ?y"] buf B(2) by simp
    show ?thesis
    proof (cases "pkcs7_unpad ?B ?y")
      case None
      then show ?thesis using True B dec un by (simp add: ossl_cipher_generic_block_final_def Let_def call cbind_def)
    next
      case (Some z)
      have z: "length z \<le> ?B" "take (length z) (patch (ctx_buf c) 0 ?y) = z"
      proof -
        show le: "length z \<le> ?B" using pkcs7_unpad_SomeD [OF Some] y by simp
        have "take (length z) (patch (ctx_buf c) 0 ?y) = take (length z) (take ?B (patch (ctx_buf c) 0 ?y))"
          using le by (simp only: take_take min_absorb1)
        also have "\<dots> = z" unfolding buf(1) using pkcs7_unpad_SomeD [OF Some] by simp
        finally show "take (length z) (patch (ctx_buf c) 0 ?y) = z" .
      qed
      then show ?thesis using Some True B dec un out by (simp add: ossl_cipher_generic_block_final_def Let_def call cbind_def)
    qed
  qed
qed

end

end
