(* ===== verification/EVP_Cipher.thy ===== *)
theory EVP_Cipher
  imports Block_Cipher
begin

text \<open>
  The calls \<open>EVP_EncryptUpdate\<close>, \<open>EVP_EncryptFinal_ex\<close>, \<open>EVP_DecryptUpdate\<close> and \<open>EVP_DecryptFinal_ex\<close> of
  \<open>crypto/evp/evp_enc.c\<close> for a cipher of a provider, and what an application gets from a sequence of them:
  the result does not depend on how a message is cut into pieces, and decryption gives back the message.
\<close>

section \<open>The calls of an application\<close>

text \<open>
  The context of an application, for a cipher of a provider: \<open>evp_cipher\<close> is the block size of the cipher, or \<open>None\<close>
  when none is set. The provider's functions are \<open>cupdate\<close> and \<open>cfinal\<close>; \<open>outl\<close> is not NULL.
\<close>

record 'a EVP_CIPHER_CTX =
  evp_encrypt :: bool
  evp_cipher :: "nat option"
  evp_algctx :: 'a

abbreviation INT_MAX :: nat where "INT_MAX \<equiv> 2 ^ 31 - 1"

definition evp_call :: "cipher_error \<Rightarrow> bool \<Rightarrow> ('a \<Rightarrow> nat \<Rightarrow> ('a \<times> (cipher_error + nat \<times> byte list)) outcome) \<Rightarrow> 'a EVP_CIPHER_CTX \<Rightarrow> ('a EVP_CIPHER_CTX \<times> (cipher_error + nat \<times> byte list)) outcome" where
  "evp_call err encrypting op ctx =
     (if evp_encrypt ctx \<noteq> encrypting then Ret (ctx, Inl EVP_R_INVALID_OPERATION)
      else case evp_cipher ctx of
        None \<Rightarrow> Ret (ctx, Inl EVP_R_NO_CIPHER_SET)
      | Some blocksize \<Rightarrow>
          if blocksize < 1 then Ret (ctx, Inl err)
          else
            obind (op (evp_algctx ctx) (if blocksize = 1 then 0 else blocksize)) (\<lambda>(alg, r).
            let ctx = ctx\<lparr>evp_algctx := alg\<rparr> in
            case r of
              Inl e \<Rightarrow> Ret (ctx, Inl e)
            | Inr (soutl, out) \<Rightarrow> if soutl > INT_MAX then Ret (ctx, Inl err) else Ret (ctx, Inr (soutl, out))))"

type_synonym 'a cupdate_fn = "'a \<Rightarrow> byte list \<Rightarrow> nat \<Rightarrow> IN_PTR \<Rightarrow> nat \<Rightarrow> ('a \<times> (cipher_error + nat \<times> byte list)) outcome"
type_synonym 'a cfinal_fn = "'a \<Rightarrow> byte list \<Rightarrow> nat \<Rightarrow> ('a \<times> (cipher_error + nat \<times> byte list)) outcome"

definition EVP_EncryptUpdate :: "'a cupdate_fn \<Rightarrow> 'a EVP_CIPHER_CTX \<Rightarrow> byte list \<Rightarrow> IN_PTR \<Rightarrow> nat \<Rightarrow> ('a EVP_CIPHER_CTX \<times> (cipher_error + nat \<times> byte list)) outcome" where
  "EVP_EncryptUpdate cupdate ctx out inp inl = evp_call EVP_R_UPDATE_ERROR True (\<lambda>alg extra. cupdate alg out (inl + extra) inp inl) ctx"

definition EVP_EncryptFinal_ex :: "'a cfinal_fn \<Rightarrow> 'a EVP_CIPHER_CTX \<Rightarrow> byte list \<Rightarrow> ('a EVP_CIPHER_CTX \<times> (cipher_error + nat \<times> byte list)) outcome" where
  "EVP_EncryptFinal_ex cfinal ctx out = evp_call EVP_R_FINAL_ERROR True (\<lambda>alg extra. cfinal alg out extra) ctx"

definition EVP_DecryptUpdate :: "'a cupdate_fn \<Rightarrow> 'a EVP_CIPHER_CTX \<Rightarrow> byte list \<Rightarrow> IN_PTR \<Rightarrow> nat \<Rightarrow> ('a EVP_CIPHER_CTX \<times> (cipher_error + nat \<times> byte list)) outcome" where
  "EVP_DecryptUpdate cupdate ctx out inp inl = evp_call EVP_R_UPDATE_ERROR False (\<lambda>alg extra. cupdate alg out (inl + extra) inp inl) ctx"

definition EVP_DecryptFinal_ex :: "'a cfinal_fn \<Rightarrow> 'a EVP_CIPHER_CTX \<Rightarrow> byte list \<Rightarrow> ('a EVP_CIPHER_CTX \<times> (cipher_error + nat \<times> byte list)) outcome" where
  "EVP_DecryptFinal_ex cfinal ctx out = evp_call EVP_R_FINAL_ERROR False (\<lambda>alg extra. cfinal alg out extra) ctx"

text \<open>
  An application that encrypts (or decrypts) a sequence of pieces, each into a buffer of the size the documentation asks for, and
  then finishes; the result is all that was written.
\<close>

fun evp_updates ::
    "('a EVP_CIPHER_CTX \<Rightarrow> byte list \<Rightarrow> IN_PTR \<Rightarrow> nat \<Rightarrow> ('a EVP_CIPHER_CTX \<times> (cipher_error + nat \<times> byte list)) outcome)
     \<Rightarrow> nat \<Rightarrow> 'a EVP_CIPHER_CTX \<Rightarrow> byte list list \<Rightarrow> ('a EVP_CIPHER_CTX \<times> (cipher_error + byte list)) outcome" where
  "evp_updates update extra ctx [] = Ret (ctx, Inr [])"
| "evp_updates update extra ctx (d # ds) =
     obind (update ctx (replicate (length d + extra) 0) (In_At d) (length d)) (\<lambda>(ctx, r).
     case r of
       Inl e \<Rightarrow> Ret (ctx, Inl e)
     | Inr (outl, out) \<Rightarrow>
         obind (evp_updates update extra ctx ds) (\<lambda>(ctx, r).
         Ret (ctx, case r of Inl e \<Rightarrow> Inl e | Inr outs \<Rightarrow> Inr (take outl out @ outs))))"

definition evp_message ::
    "('a EVP_CIPHER_CTX \<Rightarrow> byte list \<Rightarrow> IN_PTR \<Rightarrow> nat \<Rightarrow> ('a EVP_CIPHER_CTX \<times> (cipher_error + nat \<times> byte list)) outcome)
     \<Rightarrow> ('a EVP_CIPHER_CTX \<Rightarrow> byte list \<Rightarrow> ('a EVP_CIPHER_CTX \<times> (cipher_error + nat \<times> byte list)) outcome)
     \<Rightarrow> nat \<Rightarrow> 'a EVP_CIPHER_CTX \<Rightarrow> byte list list \<Rightarrow> (cipher_error + byte list) outcome" where
  "evp_message update final_ex extra ctx ds =
     obind (evp_updates update extra ctx ds) (\<lambda>(ctx, r).
     case r of
       Inl e \<Rightarrow> Ret (Inl e)
     | Inr outs \<Rightarrow>
         obind (final_ex ctx (replicate extra 0)) (\<lambda>(ctx, r).
         Ret (case r of Inl e \<Rightarrow> Inl e | Inr (outl, out) \<Rightarrow> Inr (outs @ take outl out))))"

section \<open>A sequence of updates\<close>

text \<open>An application's context for a cipher with the block size of the provider's context.\<close>

definition wf_evp :: "PROV_CIPHER_CTX EVP_CIPHER_CTX \<Rightarrow> bool" where
  "wf_evp e \<longleftrightarrow> wf_ctx (evp_algctx e) \<and> evp_encrypt e = ctx_enc (evp_algctx e)
     \<and> evp_cipher e = Some (ctx_blocksize (evp_algctx e)) \<and> 1 < ctx_blocksize (evp_algctx e)"

definition EVP_Update :: "hw_cipher \<Rightarrow> (nat \<Rightarrow> bool) \<Rightarrow> (nat \<Rightarrow> byte list option) \<Rightarrow> byte list \<Rightarrow> bool
    \<Rightarrow> PROV_CIPHER_CTX EVP_CIPHER_CTX \<Rightarrow> byte list \<Rightarrow> IN_PTR \<Rightarrow> nat \<Rightarrow> (PROV_CIPHER_CTX EVP_CIPHER_CTX \<times> (cipher_error + nat \<times> byte list)) outcome" where
  "EVP_Update cipher mem rand stk encrypting =
     (if encrypting then EVP_EncryptUpdate else EVP_DecryptUpdate) (ossl_cipher_generic_block_update cipher mem rand stk)"

definition EVP_Final :: "hw_cipher \<Rightarrow> bool \<Rightarrow> PROV_CIPHER_CTX EVP_CIPHER_CTX \<Rightarrow> byte list \<Rightarrow> (PROV_CIPHER_CTX EVP_CIPHER_CTX \<times> (cipher_error + nat \<times> byte list)) outcome" where
  "EVP_Final cipher encrypting =
     (if encrypting then EVP_EncryptFinal_ex else EVP_DecryptFinal_ex) (ossl_cipher_generic_block_final cipher True)"

lemma full_last_block:
  assumes "0 < B"
  shows "n - (n - Suc 0) div B * B = B \<longleftrightarrow> 0 < n \<and> B dvd n"
proof (cases "n = 0")
  case False
  then show ?thesis using minus_one_div [of n B] assms mod_less_divisor [OF assms, of n] by (auto simp: dvd_imp_le)
qed (use assms in simp)

context block_mode
begin

lemma evp_update_eq:
  assumes r: "ready (evp_algctx e)" and wf: "wf_evp e" and d: "length d + 16 \<le> INT_MAX"
  defines "c \<equiv> evp_algctx e" and "s \<equiv> buffered (evp_algctx e) @ d"
  defines "k \<equiv> releasable (evp_algctx e) (length s)"
  obtains b out where
    "EVP_Update cipher mem rand stk (ctx_enc c) e (replicate (length d + ctx_blocksize c) 0) (In_At d) (length d) =
       Ret (e\<lparr>evp_algctx := c\<lparr>ctx_iv := fst (crypt c (take k s)), ctx_buf := b, ctx_bufsz := length s - k\<rparr>\<rparr>, Inr (k, out))"
    "take k out = snd (crypt c (take k s))" "length b = 16" "take (length s - k) b = drop k s"
proof -
  let ?out = "replicate (length d + ctx_blocksize c) 0"
  have wfc: "wf_ctx c" and B: "1 < ctx_blocksize c" "evp_cipher e = Some (ctx_blocksize c)" "evp_encrypt e = ctx_enc c"
    using wf by (auto simp: wf_evp_def c_def)
  then have B0: "0 < ctx_blocksize c" "ctx_blocksize c \<le> 16" "ctx_bufsz c \<le> ctx_blocksize c" "length (buffered c) = ctx_bufsz c"
    by (auto simp: wf_ctx_def buffered_def split: if_splits)
  have k: "k \<le> length s" "ctx_blocksize c dvd k" using releasable_bounds(1,2) [OF B0(1)] by (simp_all add: k_def c_def)
  have len: "length s \<le> length d + ctx_blocksize c" using B0 by (simp add: s_def c_def)
  have lt: "length d < 2 ^ 63" "k \<le> length d + ctx_blocksize c" "\<not> INT_MAX < k" using d k len B0(2) by auto
  obtain b where b: "ossl_cipher_generic_block_update cipher mem rand stk c ?out (length d + ctx_blocksize c) (In_At d) (length d) =
       Ret (c\<lparr>ctx_iv := fst (crypt c (take k s)), ctx_buf := b, ctx_bufsz := length s - k\<rparr>, Inr (k, patch ?out 0 (snd (crypt c (take k s)))))"
    "length b = 16" "take (length s - k) b = drop k s"
    using block_update_spec [of c d "length d + ctx_blocksize c" ?out mem rand stk] r wfc lt by (auto simp: c_def s_def k_def)
  have "length (snd (crypt c (take k s))) = k" using length_crypt [of c "take k s"] r k by (simp add: c_def)
  then have "take k (patch ?out 0 (snd (crypt c (take k s)))) = snd (crypt c (take k s))" by (simp add: patch_def)
  then show thesis
    using that b B lt(3) by (auto simp: EVP_Update_def EVP_EncryptUpdate_def EVP_DecryptUpdate_def evp_call_def c_def [symmetric])
qed

text \<open>
  However the input is cut, what the updates have written is the mode applied to the releasable part of all of
  it, and the rest is in the buffer.
\<close>

lemma evp_updates_eq:
  assumes "ready (evp_algctx e)" "wf_evp e" "\<forall>d \<in> set ds. length d + 16 \<le> INT_MAX"
  defines "c \<equiv> evp_algctx e" and "s \<equiv> buffered (evp_algctx e) @ concat ds"
  defines "k \<equiv> releasable c (length s)"
  shows "\<exists>b. evp_updates (EVP_Update cipher mem rand stk (ctx_enc c)) (ctx_blocksize c) e ds =
       Ret (e\<lparr>evp_algctx := c\<lparr>ctx_iv := fst (crypt c (take k s)), ctx_buf := b, ctx_bufsz := length s - k\<rparr>\<rparr>, Inr (snd (crypt c (take k s))))
     \<and> length b = 16 \<and> take (length s - k) b = drop k s"
  using assms(1-3) unfolding c_def s_def k_def
proof (induction ds arbitrary: e)
  case Nil
  let ?c = "evp_algctx e"
  have wf: "wf_ctx ?c" using Nil.prems by (simp add: wf_evp_def)
  then have n: "length (buffered ?c) = ctx_bufsz ?c" "length (ctx_buf ?c) = 16" by (auto simp: buffered_def wf_ctx_def split: if_splits)
  have "releasable ?c (ctx_bufsz ?c) = 0" using wf by (rule wf_releases_nothing)
  then show ?case using n crypt_Nil [of ?c] Nil.prems by (intro exI [of _ "ctx_buf ?c"]) (simp add: buffered_def)
next
  case (Cons d ds)
  let ?c = "evp_algctx e"
  define s where "s = buffered ?c @ d"
  define k where "k = releasable ?c (length s)"
  have wf: "wf_ctx ?c" using Cons.prems by (simp add: wf_evp_def)
  have B: "0 < ctx_blocksize ?c" by (rule wf_blocksize(1) [OF wf])
  note k = releasable_bounds [OF B, of "length s", folded k_def]
  obtain b out where b:
    "EVP_Update cipher mem rand stk (ctx_enc ?c) e (replicate (length d + ctx_blocksize ?c) 0) (In_At d) (length d) =
       Ret (e\<lparr>evp_algctx := ?c\<lparr>ctx_iv := fst (crypt ?c (take k s)), ctx_buf := b, ctx_bufsz := length s - k\<rparr>\<rparr>, Inr (k, out))"
    "take k out = snd (crypt ?c (take k s))" "length b = 16" "take (length s - k) b = drop k s"
    using evp_update_eq [of e d mem rand stk thesis] Cons.prems unfolding s_def k_def by simp
  define c1 where "c1 = ?c\<lparr>ctx_iv := fst (crypt ?c (take k s)), ctx_buf := b, ctx_bufsz := length s - k\<rparr>"
  have tk: "ctx_blocksize ?c dvd length (take k s)" "length (take k s) = k" using k by simp_all
  have r1: "ready c1" using ready_crypt [OF Cons.prems(1) tk(1)] by (simp add: c1_def ready_buf)
  have wf1: "wf_ctx c1" unfolding c1_def by (rule wf_ctx_keep [OF wf b(3)]) (use k in auto)
  have same: "ctx_enc c1 = ctx_enc ?c" "ctx_blocksize c1 = ctx_blocksize ?c" "releasable c1 = releasable ?c" "buffered c1 = drop k s"
    "crypt c1 = crypt (?c\<lparr>ctx_iv := fst (crypt ?c (take k s))\<rparr>)"
    using b(4) by (simp_all add: c1_def releasable_def fun_eq_iff buffered_def crypt_buf)
  have wfe: "wf_evp (e\<lparr>evp_algctx := c1\<rparr>)" using Cons.prems(2) wf1 same by (simp add: wf_evp_def)
  define s1 where "s1 = drop k s @ concat ds"
  define k1 where "k1 = releasable ?c (length s1)"
  note k1 = releasable_bounds [OF B, of "length s1", folded k1_def]
  obtain b1 where b1: "evp_updates (EVP_Update cipher mem rand stk (ctx_enc ?c)) (ctx_blocksize ?c) (e\<lparr>evp_algctx := c1\<rparr>) ds =
       Ret (e\<lparr>evp_algctx := c1\<lparr>ctx_iv := fst (crypt c1 (take k1 s1)), ctx_buf := b1, ctx_bufsz := length s1 - k1\<rparr>\<rparr>, Inr (snd (crypt c1 (take k1 s1))))"
     "length b1 = 16" "take (length s1 - k1) b1 = drop k1 s1"
    using Cons.IH [of "e\<lparr>evp_algctx := c1\<rparr>"] r1 wfe Cons.prems(3) unfolding s1_def k1_def by (auto simp: same)
  have "buffered ?c @ concat (d # ds) = s @ concat ds" by (simp add: s_def)
  then have s: "buffered ?c @ concat (d # ds) = take k s @ s1" unfolding s1_def by (metis append_assoc append_take_drop_id)
  have "length (take k s @ s1) = length s + length (concat ds)" "length s - k + length (concat ds) = length s1" using k(2) by (simp_all add: s1_def)
  then have K: "releasable ?c (length (take k s @ s1)) = k + k1"
    using releasable_split [OF B, of "length s" "length (concat ds)"] by (simp only: k_def [symmetric] k1_def)
  have cut: "take (k + k1) (take k s @ s1) = take k s @ take k1 s1" "drop (k + k1) (take k s @ s1) = drop k1 s1"
    "length (take k s @ s1) - (k + k1) = length s1 - k1" using tk(2) by simp_all
  have "ctx_blocksize ?c dvd length (take k1 s1)" using k1(1,2) by simp
  then have cr: "crypt ?c (take k s @ take k1 s1) = (fst (crypt c1 (take k1 s1)), snd (crypt ?c (take k s)) @ snd (crypt c1 (take k1 s1)))"
    using crypt_append [OF Cons.prems(1) tk(1)] by (simp add: same)
  have c1': "c1\<lparr>ctx_iv := v, ctx_buf := b1, ctx_bufsz := n\<rparr> = ?c\<lparr>ctx_iv := v, ctx_buf := b1, ctx_bufsz := n\<rparr>" for v n by (simp add: c1_def)
  show ?case
    unfolding s K cut cr fst_conv snd_conv evp_updates.simps b(1) [folded c1_def] obind.simps prod.case sum.case b1(1) b(2) c1'
    using b1(2,3) by (intro exI [of _ b1]) simp
qed

lemma evp_final_eq:
  assumes "wf_evp e" and f: "ossl_cipher_generic_block_final cipher True (evp_algctx e) out (ctx_blocksize (evp_algctx e)) = Ret (c', res)"
    and small: "\<And>n o'. res = Inr (n, o') \<Longrightarrow> n \<le> INT_MAX"
  shows "EVP_Final cipher (ctx_enc (evp_algctx e)) e out = Ret (e\<lparr>evp_algctx := c'\<rparr>, res)"
proof -
  have B: "1 < ctx_blocksize (evp_algctx e)" "evp_cipher e = Some (ctx_blocksize (evp_algctx e))" "evp_encrypt e = ctx_enc (evp_algctx e)"
    using assms(1) by (auto simp: wf_evp_def)
  then show ?thesis using f small
    by (cases res) (auto simp: EVP_Final_def EVP_EncryptFinal_ex_def EVP_DecryptFinal_ex_def evp_call_def Let_def not_less)
qed

text \<open>The state after all updates of a message, for a context that starts with an empty buffer and pads.\<close>

lemma after_updates:
  assumes e: "ready (evp_algctx e)" "wf_evp e" "ctx_bufsz (evp_algctx e) = 0"
    and ds: "\<forall>d \<in> set ds. length d + 16 \<le> INT_MAX"
  defines "c \<equiv> evp_algctx e"
  defines "k \<equiv> releasable c (length (concat ds))"
  obtains c1 where
    "evp_updates (EVP_Update cipher mem rand stk (ctx_enc c)) (ctx_blocksize c) e ds = Ret (e\<lparr>evp_algctx := c1\<rparr>, Inr (snd (crypt c (take k (concat ds)))))"
    "ready c1" "wf_ctx c1" "wf_evp (e\<lparr>evp_algctx := c1\<rparr>)" "ctx_enc c1 = ctx_enc c" "ctx_pad c1 = ctx_pad c" "ctx_blocksize c1 = ctx_blocksize c"
    "buffered c1 = drop k (concat ds)" "ctx_bufsz c1 = length (concat ds) - k"
    "\<And>x. ctx_blocksize c dvd length x \<Longrightarrow> snd (crypt c (take k (concat ds) @ x)) = snd (crypt c (take k (concat ds))) @ snd (crypt c1 x)"
proof -
  let ?s = "concat ds"
  have wf: "wf_ctx c" and B: "0 < ctx_blocksize c" "buffered c = []" using e wf_blocksize(1) by (auto simp: wf_evp_def buffered_def c_def)
  note k = releasable_bounds [OF B(1), of "length ?s", folded k_def]
  obtain b where b: "evp_updates (EVP_Update cipher mem rand stk (ctx_enc c)) (ctx_blocksize c) e ds =
      Ret (e\<lparr>evp_algctx := c\<lparr>ctx_iv := fst (crypt c (take k ?s)), ctx_buf := b, ctx_bufsz := length ?s - k\<rparr>\<rparr>, Inr (snd (crypt c (take k ?s))))"
    "length b = 16" "take (length ?s - k) b = drop k ?s"
    using evp_updates_eq [OF e(1,2) ds, of mem rand stk] B(2) by (auto simp: c_def k_def)
  define c1 where "c1 = c\<lparr>ctx_iv := fst (crypt c (take k ?s)), ctx_buf := b, ctx_bufsz := length ?s - k\<rparr>"
  have tk: "ctx_blocksize c dvd length (take k ?s)" using k by simp
  have r1: "ready c1" using ready_crypt [of c, OF _ tk] e(1) by (simp add: c1_def ready_buf c_def)
  have wf1: "wf_ctx c1" unfolding c1_def by (rule wf_ctx_keep [OF wf b(2)]) (use k in auto)
  have same: "ctx_enc c1 = ctx_enc c" "ctx_pad c1 = ctx_pad c" "ctx_blocksize c1 = ctx_blocksize c" "buffered c1 = drop k ?s" "ctx_bufsz c1 = length ?s - k"
    "crypt c1 = crypt (c\<lparr>ctx_iv := fst (crypt c (take k ?s))\<rparr>)"
    using b(3) by (simp_all add: c1_def buffered_def crypt_buf)
  have wfe: "wf_evp (e\<lparr>evp_algctx := c1\<rparr>)" using e(2) wf1 same by (simp add: wf_evp_def c_def)
  have "ctx_blocksize c dvd length x \<Longrightarrow> snd (crypt c (take k ?s @ x)) = snd (crypt c (take k ?s)) @ snd (crypt c1 x)" for x
    using crypt_append [of c, OF _ tk, of x] e(1) by (simp add: same c_def)
  then show thesis by (rule that [OF b(1) [folded c1_def] r1 wf1 wfe same(1-5)])
qed

lemma encrypt_message:
  assumes e: "ready (evp_algctx e)" "wf_evp e" "ctx_bufsz (evp_algctx e) = 0" and enc: "ctx_pad (evp_algctx e)" "ctx_enc (evp_algctx e)"
    and ds: "\<forall>d \<in> set ds. length d + 16 \<le> INT_MAX"
  defines "c \<equiv> evp_algctx e"
  shows "evp_message (EVP_Update cipher mem rand stk True) (EVP_Final cipher True) (ctx_blocksize c) e ds =
    Ret (Inr (snd (crypt c (pkcs7_pad (ctx_blocksize c) (concat ds)))))"
proof -
  let ?B = "ctx_blocksize c" and ?s = "concat ds"
  define k where "k = releasable c (length ?s)"
  obtain c1 where u: "evp_updates (EVP_Update cipher mem rand stk True) ?B e ds = Ret (e\<lparr>evp_algctx := c1\<rparr>, Inr (snd (crypt c (take k ?s))))"
    and c1: "ready c1" "wf_ctx c1" "wf_evp (e\<lparr>evp_algctx := c1\<rparr>)" "ctx_enc c1" "ctx_pad c1" "ctx_blocksize c1 = ?B"
      "buffered c1 = drop k ?s" "ctx_bufsz c1 = length ?s - k"
    and split: "\<And>x. ?B dvd length x \<Longrightarrow> snd (crypt c (take k ?s @ x)) = snd (crypt c (take k ?s)) @ snd (crypt c1 x)"
    using after_updates [OF e ds, of mem rand stk thesis] enc by (auto simp: c_def k_def)
  have wf: "wf_ctx c" using e by (simp add: wf_evp_def c_def)
  have B: "0 < ?B" "?B \<le> 16" using wf_blocksize(1) [OF wf] wf by (auto simp: wf_ctx_def)
  define p where "p = ?B - (length ?s - k)"
  define x where "x = drop k ?s @ replicate p (of_nat p)"
  have mod: "length ?s - k = length ?s mod ?B" using enc by (simp add: k_def releasable_def c_def minus_div_mult_eq_mod)
  have pad: "pkcs7_pad ?B ?s = take k ?s @ x" by (simp add: pkcs7_pad_def p_def x_def mod Let_def)
  have lx: "length x = ?B" using releasable_bounds(3) [OF B(1), of "length ?s", folded k_def] by (simp add: x_def p_def)
  have len: "length (snd (crypt c1 x)) = ?B" using length_crypt [OF c1(1), of x] lx c1(6) by simp
  obtain c2 where "ossl_cipher_generic_block_final cipher True c1 (replicate ?B 0) ?B = Ret (c2, Inr (?B, patch (replicate ?B 0) 0 (snd (crypt c1 x))))"
    using final_encrypt [OF c1(1,2,4,5), of ?B "replicate ?B 0"] by (auto simp: c1 p_def x_def)
  then have fin: "EVP_Final cipher True (e\<lparr>evp_algctx := c1\<rparr>) (replicate ?B 0) = Ret (e\<lparr>evp_algctx := c2\<rparr>, Inr (?B, patch (replicate ?B 0) 0 (snd (crypt c1 x))))"
    using evp_final_eq [OF c1(3), of "replicate ?B 0" c2] c1 B(2) by simp
  show ?thesis
    unfolding evp_message_def u obind.simps prod.case sum.case fin pad using len lx split [of x] by (simp add: patch_def)
qed

lemma decrypt_message:
  assumes e: "ready (evp_algctx e)" "wf_evp e" "ctx_bufsz (evp_algctx e) = 0" and dec: "ctx_pad (evp_algctx e)" "\<not> ctx_enc (evp_algctx e)"
    and ds: "\<forall>d \<in> set ds. length d + 16 \<le> INT_MAX"
  defines "c \<equiv> evp_algctx e"
  shows "evp_message (EVP_Update cipher mem rand stk False) (EVP_Final cipher False) (ctx_blocksize c) e ds =
    Ret (if concat ds \<noteq> [] \<and> ctx_blocksize c dvd length (concat ds)
         then case pkcs7_unpad (ctx_blocksize c) (snd (crypt c (concat ds))) of None \<Rightarrow> Inl PROV_R_BAD_DECRYPT | Some x \<Rightarrow> Inr x
         else Inl PROV_R_WRONG_FINAL_BLOCK_LENGTH)"
proof -
  let ?B = "ctx_blocksize c" and ?s = "concat ds"
  define k where "k = releasable c (length ?s)"
  obtain c1 where u: "evp_updates (EVP_Update cipher mem rand stk False) ?B e ds = Ret (e\<lparr>evp_algctx := c1\<rparr>, Inr (snd (crypt c (take k ?s))))"
    and c1: "ready c1" "wf_ctx c1" "wf_evp (e\<lparr>evp_algctx := c1\<rparr>)" "\<not> ctx_enc c1" "ctx_pad c1" "ctx_blocksize c1 = ?B"
      "buffered c1 = drop k ?s" "ctx_bufsz c1 = length ?s - k"
    and split: "\<And>x. ?B dvd length x \<Longrightarrow> snd (crypt c (take k ?s @ x)) = snd (crypt c (take k ?s)) @ snd (crypt c1 x)"
    using after_updates [OF e ds, of mem rand stk thesis] dec by (auto simp: c_def k_def)
  have wf: "wf_ctx c" using e by (simp add: wf_evp_def c_def)
  have B: "0 < ?B" "?B \<le> 16" using wf_blocksize(1) [OF wf] wf by (auto simp: wf_ctx_def)
  define y where "y = snd (crypt c1 (drop k ?s))"
  have full: "length ?s - k = ?B \<longleftrightarrow> ?s \<noteq> [] \<and> ?B dvd length ?s"
    using dec B(1) by (simp add: k_def c_def releasable_def full_last_block)
  obtain c2 where "ossl_cipher_generic_block_final cipher True c1 (replicate ?B 0) ?B =
      Ret (c2, if length ?s - k = ?B then case pkcs7_unpad ?B y of None \<Rightarrow> Inl PROV_R_BAD_DECRYPT | Some x \<Rightarrow> Inr (length x, patch (replicate ?B 0) 0 x)
               else Inl PROV_R_WRONG_FINAL_BLOCK_LENGTH)"
    using final_decrypt [OF c1(1,2,4,5), of ?B "replicate ?B 0"] by (auto simp: c1 y_def)
  moreover have ly: "length ?s - k = ?B \<Longrightarrow> length y = ?B" using length_crypt [OF c1(1), of "drop k ?s"] c1(6) by (simp add: y_def)
  moreover have "pkcs7_unpad ?B y = Some x \<Longrightarrow> length x \<le> length y" for x by (simp add: pkcs7_unpad_SomeD)
  ultimately have fin: "EVP_Final cipher False (e\<lparr>evp_algctx := c1\<rparr>) (replicate ?B 0) =
      Ret (e\<lparr>evp_algctx := c2\<rparr>, if length ?s - k = ?B then case pkcs7_unpad ?B y of None \<Rightarrow> Inl PROV_R_BAD_DECRYPT | Some x \<Rightarrow> Inr (length x, patch (replicate ?B 0) 0 x)
               else Inl PROV_R_WRONG_FINAL_BLOCK_LENGTH)"
    using evp_final_eq [OF c1(3), of "replicate ?B 0" c2] c1 B(2) by (fastforce split: if_splits option.splits)
  have "snd (crypt c ?s) = snd (crypt c (take k ?s)) @ y" if "length ?s - k = ?B"
    using split [of "drop k ?s"] that by (simp add: y_def)
  then show ?thesis
    unfolding evp_message_def u obind.simps prod.case sum.case fin full [symmetric]
    using ly pkcs7_unpad_append [OF _ B(1), of y] by (auto simp: patch_def split: option.splits)
qed

end

section \<open>Properties\<close>

text \<open>An application's context that has been set up for CBC with padding: nothing is buffered yet.\<close>

definition cbc_start :: "bool \<Rightarrow> PROV_CIPHER_CTX EVP_CIPHER_CTX \<Rightarrow> bool" where
  "cbc_start encrypting e \<longleftrightarrow> cbc_ready (evp_algctx e) \<and> wf_evp e \<and> ctx_bufsz (evp_algctx e) = 0 \<and> ctx_pad (evp_algctx e)
     \<and> ctx_enc (evp_algctx e) = encrypting"

abbreviation cbc_message :: "bool \<Rightarrow> PROV_CIPHER_CTX EVP_CIPHER_CTX \<Rightarrow> byte list list \<Rightarrow> (cipher_error + byte list) outcome" where
  "cbc_message encrypting \<equiv> evp_message (EVP_Update ossl_cipher_hw_generic_cbc (\<lambda>_. True) (\<lambda>n. None) [] encrypting)
     (EVP_Final ossl_cipher_hw_generic_cbc encrypting) 16"

definition int_sized :: "byte list list \<Rightarrow> bool" where
  "int_sized ds \<longleftrightarrow> (\<forall>d \<in> set ds. length d + 16 \<le> INT_MAX)"

lemma cbc_startD:
  "cbc_start encrypting e \<Longrightarrow> cbc_ready (evp_algctx e) \<and> wf_evp e \<and> ctx_bufsz (evp_algctx e) = 0 \<and> ctx_pad (evp_algctx e)
     \<and> ctx_enc (evp_algctx e) = encrypting \<and> ctx_blocksize (evp_algctx e) = 16 \<and> length (ctx_iv (evp_algctx e)) = 16 \<and> on_blocks 16 (ctx_block (evp_algctx e))"
  by (simp add: cbc_start_def cbc_ready_def)

lemma cbc_encrypt_message:
  assumes "cbc_start True e" "int_sized ds"
  shows "cbc_message True e ds = Ret (Inr (snd (snd (cbc128_encrypt_blocks (ctx_block (evp_algctx e)) (ctx_iv (evp_algctx e)) (pkcs7_pad 16 (concat ds))))))"
  using cbc.encrypt_message [of e ds "\<lambda>_. True" "\<lambda>_. None" "[]"] cbc_startD [OF assms(1)] assms(2)
  by (simp add: int_sized_def cbc_crypt_def split_beta)

lemma cbc_decrypt_message:
  assumes "cbc_start False e" "int_sized ds"
  shows "cbc_message False e ds =
    Ret (if concat ds \<noteq> [] \<and> 16 dvd length (concat ds)
         then case pkcs7_unpad 16 (snd (snd (cbc128_decrypt_apart (ctx_block (evp_algctx e)) (ctx_iv (evp_algctx e)) (concat ds)))) of
                None \<Rightarrow> Inl PROV_R_BAD_DECRYPT | Some x \<Rightarrow> Inr x
         else Inl PROV_R_WRONG_FINAL_BLOCK_LENGTH)"
  using cbc.decrypt_message [of e ds "\<lambda>_. True" "\<lambda>_. None" "[]"] cbc_startD [OF assms(1)] assms(2)
  by (simp add: int_sized_def cbc_crypt_def split_beta)

subsection \<open>A concrete cipher\<close>

text \<open>A block function that is its own inverse, for the examples: it flips some bits of every byte.\<close>

definition flip_block :: "byte list \<Rightarrow> byte list" where
  "flip_block b = map (\<lambda>x. x XOR 0x5a) b"

definition zero_ctx :: PROV_CIPHER_CTX where
  "zero_ctx = \<lparr>ctx_oiv = replicate 16 0, ctx_buf = replicate 16 0, ctx_iv = replicate 16 0, ctx_block = (\<lambda>b. b), stream_cbc = None, stream_ecb = None, stream_ctr = None,
     ctx_mode = 0, ctx_keylen = 0, ctx_ivlen = 0, ctx_blocksize = 0, ctx_bufsz = 0, ctx_pad = False, ctx_enc = False, ctx_iv_set = False,
     ctx_key_set = False, ctx_updated = False, ctx_variable_keylength = False, ctx_inverse_cipher = False, ctx_use_bits = False,
     ctx_tlsversion = 0, ctx_tlsmac = None, ctx_alloced = False, ctx_tlsmacsize = 0, ctx_removetlspad = False, ctx_removetlsfixed = 0, ctx_num = 0\<rparr>"

definition flip_evp :: "bool \<Rightarrow> PROV_CIPHER_CTX EVP_CIPHER_CTX" where
  "flip_evp encrypting = \<lparr>evp_encrypt = encrypting, evp_cipher = Some 16,
     evp_algctx = zero_ctx\<lparr>ctx_block := flip_block, ctx_blocksize := 16, ctx_ivlen := 16, ctx_mode := EVP_CIPH_CBC_MODE,
       ctx_pad := True, ctx_key_set := True, ctx_enc := encrypting\<rparr>\<rparr>"

lemma flip_undoes: "undoes 16 flip_block flip_block" "on_blocks 16 flip_block"
  by (auto simp: undoes_def on_blocks_def flip_block_def xor.assoc intro!: map_idI)

lemma flip_start: "cbc_start encrypting (flip_evp encrypting)"
proof -
  have "\<exists>k. (16::nat) = 2 ^ k" by (rule exI [of _ 4]) simp
  then show ?thesis using flip_undoes(2)
    by (simp add: cbc_start_def cbc_ready_def wf_evp_def wf_ctx_def flip_evp_def zero_ctx_def)
qed

text \<open>
  Initialisation gives such a context: one that was filled with zeros, then set up for CBC with 128-bit blocks, and given a key
  of its length and an IV, where the key set-up succeeds and only sets the block function.
\<close>

lemma init_gives_start:
  assumes "8 * length k = kbits" "length v = 16" "on_blocks 16 blk" and hw: "\<And>c. hw_init c k (length k) = (True, c\<lparr>ctx_block := blk\<rparr>)"
  shows "\<exists>c. (if encrypting then ossl_cipher_generic_einit else ossl_cipher_generic_dinit) hw_init True
      (ossl_cipher_generic_initkey zero_ctx kbits 128 128 EVP_CIPH_CBC_MODE 0) (Some k) (Some v) None = Ret (c, Inr ())
    \<and> cbc_start encrypting \<lparr>evp_encrypt = encrypting, evp_cipher = Some 16, evp_algctx = c\<rparr> \<and> ctx_iv c = v \<and> ctx_block c = blk"
proof -
  have "\<exists>k. (16::nat) = 2 ^ k" by (rule exI [of _ 4]) simp
  moreover have "kbits div 8 = length k" using assms(1) by auto
  ultimately show ?thesis using assms(2,3) hw
    by (simp add: ossl_cipher_generic_einit_def ossl_cipher_generic_dinit_def cipher_generic_init_internal_def ossl_cipher_generic_initkey_def
        ossl_cipher_generic_initiv_def ossl_cipher_generic_set_ctx_params_def cbind_def Let_def patch_def
        cbc_start_def cbc_ready_def wf_evp_def wf_ctx_def zero_ctx_def)
qed

text \<open>
  An application that encrypts a message with CBC through a sequence of update calls and a final call gets the
  same bytes however it cuts the message: those of the padded message, encrypted block after block.
\<close>

theorem cbc_encryption_ignores_cuts:
  assumes "cbc_start True e" "int_sized ds"
  shows "cbc_message True e ds = Ret (Inr (snd (snd (cbc128_encrypt_blocks (ctx_block (evp_algctx e)) (ctx_iv (evp_algctx e)) (pkcs7_pad 16 (concat ds))))))"
  using assms by (rule cbc_encrypt_message)

theorem cbc_encryption_ignores_cuts_witness:
  "cbc_message True (flip_evp True) [[1, 2], [], [3, 4]] =
     Ret (Inr [0x5b, 0x58, 0x59, 0x5e, 0x56, 0x56, 0x56, 0x56, 0x56, 0x56, 0x56, 0x56, 0x56, 0x56, 0x56, 0x56])"
proof -
  have "snd (snd (cbc128_encrypt_blocks flip_block (replicate 16 0) (pkcs7_pad 16 [1, 2, 3, 4]))) =
      [0x5b, 0x58, 0x59, 0x5e, 0x56, 0x56, 0x56, 0x56, 0x56, 0x56, 0x56, 0x56, 0x56, 0x56, 0x56, 0x56]" by code_simp
  then show ?thesis
    using cbc_encryption_ignores_cuts [OF flip_start, of "[[1, 2], [], [3, 4]]"] by (simp add: int_sized_def flip_evp_def zero_ctx_def)
qed

text \<open>
  C26: what is encrypted with CBC decrypts to the message, for every cut of the message on the one side and of
  the ciphertext on the other, when the contexts have the same IV and inverse block functions.
\<close>

theorem cbc_message_roundtrip:
  assumes "cbc_start True e" "cbc_start False e'" and iv: "ctx_iv (evp_algctx e') = ctx_iv (evp_algctx e)"
    and inv: "undoes 16 (ctx_block (evp_algctx e')) (ctx_block (evp_algctx e))" and "int_sized ds"
  shows "\<exists>ct. cbc_message True e ds = Ret (Inr ct) \<and> (\<forall>es. concat es = ct \<and> int_sized es \<longrightarrow> cbc_message False e' es = Ret (Inr (concat ds)))"
proof -
  let ?x = "pkcs7_pad 16 (concat ds)" and ?b = "ctx_block (evp_algctx e)" and ?iv = "ctx_iv (evp_algctx e)"
  note pad = pkcs7_roundtrip [of 16 "concat ds", simplified]
  obtain iv' ct where ct: "cbc128_encrypt_blocks ?b ?iv ?x = (iv', [], ct)" "length ct = length ?x"
    using encrypt_blocks_whole [of ?x ?b ?iv] pad(2) cbc_startD [OF assms(1)] by auto
  have "cbc_message False e' es = Ret (Inr (concat ds))" if "concat es = ct" "int_sized es" for es
    using cbc_decrypt_message [OF assms(2) that(2)] cbc_decrypt_encrypt [OF pad(2) _ inv _ ct(1)] cbc_startD [OF assms(1)] pad ct(2)
    by (auto simp: iv that(1))
  then show ?thesis using cbc_encrypt_message [OF assms(1,5)] ct(1) by auto
qed

theorem cbc_message_roundtrip_witness:
  "\<exists>ct. cbc_message True (flip_evp True) [[1, 2], [3, 4]] = Ret (Inr ct)
     \<and> cbc_message False (flip_evp False) [take 5 ct, drop 5 ct] = Ret (Inr [1, 2, 3, 4])"
proof -
  have same: "ctx_iv (evp_algctx (flip_evp False)) = ctx_iv (evp_algctx (flip_evp True))" by (simp add: flip_evp_def)
  have inv: "undoes 16 (ctx_block (evp_algctx (flip_evp False))) (ctx_block (evp_algctx (flip_evp True)))"
    using flip_undoes by (simp add: flip_evp_def)
  have ds: "int_sized [[1, 2], [3, 4]]" by (simp add: int_sized_def)
  let ?ct = "snd (snd (cbc128_encrypt_blocks flip_block (replicate 16 0) (pkcs7_pad 16 [1, 2, 3, 4])))"
  have ct: "cbc_message True (flip_evp True) [[1, 2], [3, 4]] = Ret (Inr ?ct)"
    using cbc_encrypt_message [OF flip_start ds] by (simp add: flip_evp_def zero_ctx_def)
  have "length ?ct = 16" by code_simp
  then have "int_sized [take 5 ?ct, drop 5 ?ct]" "concat [take 5 ?ct, drop 5 ?ct] = ?ct" by (simp_all add: int_sized_def)
  then show ?thesis using cbc_message_roundtrip [OF flip_start flip_start same inv ds] ct by auto
qed

text \<open>
  C32: what decryption returns for arbitrary data, and every error: data that is empty or not a multiple of the
  block size is refused with a wrong final block length; otherwise the decrypted blocks are returned without their padding, or, when
  they do not end in valid padding, decryption fails.
\<close>

theorem cbc_decryption_exact:
  assumes "cbc_start False e" "int_sized ds"
  shows "cbc_message False e ds =
    Ret (if concat ds \<noteq> [] \<and> 16 dvd length (concat ds)
         then case pkcs7_unpad 16 (snd (snd (cbc128_decrypt_apart (ctx_block (evp_algctx e)) (ctx_iv (evp_algctx e)) (concat ds)))) of
                None \<Rightarrow> Inl PROV_R_BAD_DECRYPT | Some x \<Rightarrow> Inr x
         else Inl PROV_R_WRONG_FINAL_BLOCK_LENGTH)"
  using assms by (rule cbc_decrypt_message)

theorem cbc_decryption_exact_witness:
  "cbc_message False (flip_evp False) [[1, 2, 3]] = Ret (Inl PROV_R_WRONG_FINAL_BLOCK_LENGTH)
   \<and> cbc_message False (flip_evp False) [replicate 9 0x56, replicate 7 0] = Ret (Inl PROV_R_BAD_DECRYPT)
   \<and> cbc_message False (flip_evp False) [replicate 3 0x57, replicate 13 0x57] = Ret (Inr [13, 13, 13])"
proof -
  have ivs: "ctx_iv (evp_algctx (flip_evp False)) = replicate 16 0" "ctx_block (evp_algctx (flip_evp False)) = flip_block"
    by (simp_all add: flip_evp_def zero_ctx_def)
  have "pkcs7_unpad 16 (snd (snd (cbc128_decrypt_apart flip_block (replicate 16 0) (replicate 9 0x56 @ replicate 7 0)))) = None"
    "pkcs7_unpad 16 (snd (snd (cbc128_decrypt_apart flip_block (replicate 16 0) (replicate 3 0x57 @ replicate 13 0x57)))) = Some [13, 13, 13]"
    by code_simp+
  moreover have "\<not> 16 dvd Suc (Suc (Suc 0))" by presburger
  ultimately show ?thesis
    using cbc_decryption_exact [OF flip_start, of "[[1, 2, 3]]"] cbc_decryption_exact [OF flip_start, of "[replicate 9 0x56, replicate 7 0]"]
      cbc_decryption_exact [OF flip_start, of "[replicate 3 0x57, replicate 13 0x57]"]
    unfolding ivs by (simp add: int_sized_def)
qed

end
