(* ===== verification/TLS_Cipher.thy ===== *)
theory TLS_Cipher
  imports EVP_Cipher
begin

text \<open>
  A provider's CBC cipher used for TLS records: each update call is one record, padded and encrypted in place by the
  sender, decrypted in place and freed from padding and MAC by the receiver. This composes the buffering code
  (\<open>ciphercommon.c\<close>), the mode (\<open>cbc128.c\<close>) and the removal of padding and MAC (\<open>tls_pad.c\<close>).
\<close>

section \<open>Padding and removing it\<close>

text \<open>The padding of a TLS record to whole blocks of 16 bytes.\<close>

definition tls_pad :: "byte list \<Rightarrow> byte list" where
  "tls_pad r = (let p = 16 - length r mod 16 in r @ replicate p (of_nat (p - 1)))"

lemma tls_pad_whole: "16 dvd length (tls_pad r)" "tls_pad r \<noteq> []" "length r < length (tls_pad r)" "length (tls_pad r) \<le> length r + 16"
proof -
  have "length r + (16 - length r mod 16) = 16 * Suc (length r div 16)"
    by presburger
  then show "16 dvd length (tls_pad r)" by (simp add: tls_pad_def Let_def)
  show "tls_pad r \<noteq> []" "length r < length (tls_pad r)" "length (tls_pad r) \<le> length r + 16" by (auto simp: tls_pad_def Let_def)
qed

lemma unpad_spec_pads:
  assumes p: "0 < p" "p \<le> 256" and M: "0 < length m" and L: "L = length x + length m + p"
  shows "unpad_spec (x @ m @ replicate p (of_nat (p - 1)) @ rest) L (length m)
      (tls_padding_ok (x @ m @ replicate p (of_nat (p - 1)) @ rest) L (length m)) rs = (True, sz (length x), Some (Alloced m))"
proof -
  let ?d = "x @ m @ replicate p (of_nat (p - 1)) @ rest"
  have nth: "?d ! (L - 1 - j) = of_nat (p - 1)" if "j < p" for j
  proof -
    have "L - 1 - j = length (x @ m) + (p - 1 - j)" using that L by simp
    then have "?d ! (L - 1 - j) = (replicate p (of_nat (p - 1)) @ rest) ! (p - 1 - j)" by (metis append_assoc nth_append_length_plus)
    then show ?thesis using p by (simp add: nth_append)
  qed
  have last: "?d ! (L - 1) = of_nat (p - 1)" using nth [of 0] p by simp
  have un: "unat (of_nat (p - 1) :: byte) = p - 1"
  proof -
    have "p - 1 < 256" using p by simp
    then show ?thesis by (simp only: unat_of_nat_byte mod_less)
  qed
  have ok: "tls_padding_ok ?d L (length m)"
    unfolding tls_padding_ok_def Let_def last un using p L nth by auto
  have n: "unpadded ?d L True = length x + length m" unfolding unpadded_def last un using p L by simp
  show ?thesis using ok p M L n by (simp add: unpad_spec_def Let_def)
qed

section \<open>The two sides\<close>

text \<open>A context that is set up for TLS records with CBC.\<close>

definition tls_cbc_ctx :: "uint \<Rightarrow> bool \<Rightarrow> PROV_CIPHER_CTX \<Rightarrow> bool" where
  "tls_cbc_ctx v encrypting c \<longleftrightarrow> cbc_ready c \<and> ctx_key_set c \<and> ctx_pad c \<and> ctx_enc c = encrypting \<and> ctx_tlsversion c = v"

lemma tls_encrypts:
  assumes c: "tls_cbc_ctx v True c" and v: "v \<noteq> 0" "v \<noteq> SSL3_VERSION"
    and r: "length r + 16 \<le> outsize" "outsize \<le> length (r @ space)"
  shows "\<exists>c1 ct. ossl_cipher_generic_block_update ossl_cipher_hw_generic_cbc mem rand stk c (r @ space) outsize In_Is_Out (length r) =
      Ret (c1, Inr (length (tls_pad r), ct)) \<and> length ct = length (r @ space)
    \<and> take (length (tls_pad r)) ct = snd (snd (cbc128_encrypt_blocks (ctx_block c) (ctx_iv c) (tls_pad r)))"
proof -
  define p where "p = 16 - length r mod 16"
  have p: "0 < p" "p \<le> 16" by (auto simp: p_def)
  have ctx: "cbc_ready c" "ctx_blocksize c = 16" "ctx_key_set c" "ctx_pad c" "ctx_enc c" "ctx_tlsversion c = v" "0 < v"
    using c v by (auto simp: tls_cbc_ctx_def cbc_ready_def word_gt_0)
  let ?n = "length r + p"
  define out where "out = patch (r @ space) (length r) (replicate p (of_nat (p - 1) :: byte))"
  have n: "length (tls_pad r) = ?n" "?n \<le> outsize" "?n \<le> length (r @ space)" using r p by (auto simp: tls_pad_def p_def)
  have out: "length out = length (r @ space)" "take ?n out = tls_pad r"
    using n(3) p by (simp_all add: out_def patch_def tls_pad_def Let_def p_def)
  have pad: "tls_add_padding c (r @ space) outsize (length r) = Ret (Inr (out, ?n))"
    using ctx n p r v by (simp add: tls_add_padding_def Let_def out_def p_def)
  have call: "call_cipher ossl_cipher_hw_generic_cbc True c (tls_pad r) =
      Ret (c\<lparr>ctx_iv := fst (cbc_crypt c (tls_pad r))\<rparr>, Inr (snd (cbc_crypt c (tls_pad r))))"
    using cbc.call_cipher_eq [OF ctx(1), of "tls_pad r" True] tls_pad_whole(1) ctx(2) by simp
  have len: "length (snd (cbc_crypt c (tls_pad r))) = ?n" using cbc.length_crypt [OF ctx(1), of "tls_pad r"] tls_pad_whole(1) [of r] n(1) ctx(2) by simp
  have m: "?n mod 16 = 0" using tls_pad_whole(1) [of r] n(1) by (simp add: dvd_eq_mod_eq_0)
  have enc: "snd (cbc_crypt c (tls_pad r)) = snd (snd (cbc128_encrypt_blocks (ctx_block c) (ctx_iv c) (tls_pad r)))"
    using ctx(5) by (simp add: cbc_crypt_def split_beta)
  show ?thesis
    using ctx pad call len m out n r p
    by (simp add: ossl_cipher_generic_block_update_def tls_block_update_def Let_def cbind_def enc [symmetric] patch_def)
qed

lemma tls_decrypts:
  assumes c: "tls_cbc_ctx v False c" and v: "v \<in> {0x303, 0xFEFD, 0x302, 0xFEFF, 0x100}"
    and n: "16 dvd n" "16 \<le> n" "n \<le> length ct" "n \<le> outsize" "n < 2 ^ 63"
    and plain: "snd (snd (cbc128_decrypt_apart (ctx_block c) (ctx_iv c) (take n ct))) = g @ x @ m @ replicate p (of_nat (p - 1))"
      "length g = 16" "0 < p" "p \<le> 16"
    and M: "0 < length m" "length m \<le> 64" "ctx_tlsmacsize c = length m"
    and env: "64 \<le> length stk" "rand (length m) = Some rs" "length rs = length m" "mem (length m)"
  shows "\<exists>c2 pt. ossl_cipher_generic_block_update ossl_cipher_hw_generic_cbc mem rand stk c ct outsize In_Is_Out n = Ret (c2, Inr (length x, pt))
    \<and> take (length x) (drop 16 pt) = x \<and> ctx_tlsmac c2 = Some (Alloced m) \<and> ctx_alloced c2"
proof -
  have ctx: "cbc_ready c" "ctx_blocksize c = 16" "ctx_key_set c" "ctx_pad c" "\<not> ctx_enc c" "ctx_tlsversion c = v" "0 < v" "v \<noteq> SSL3_VERSION"
    using c v by (auto simp: tls_cbc_ctx_def cbc_ready_def word_gt_0)
  let ?y = "g @ x @ m @ replicate p (of_nat (p - 1))"
  have tk: "16 dvd length (take n ct)" "length (take n ct) = n" using n by simp_all
  have dec: "snd (cbc_crypt c (take n ct)) = ?y" using plain(1) ctx(5) by (simp add: cbc_crypt_def split_beta)
  have call: "call_cipher ossl_cipher_hw_generic_cbc True c (take n ct) = Ret (c\<lparr>ctx_iv := fst (cbc_crypt c (take n ct))\<rparr>, Inr ?y)"
    using cbc.call_cipher_eq [OF ctx(1), of "take n ct" True] tk(1) ctx(2) dec by simp
  have y: "length ?y = n" using cbc.length_crypt [OF ctx(1), of "take n ct"] tk ctx(2) dec by simp
  have drop: "drop 16 (patch ct 0 ?y) = x @ m @ replicate p (of_nat (p - 1)) @ drop n ct" using y plain(2) by (simp add: patch_def)
  have L: "n - 16 = length x + length m + p" using y plain(2) by simp
  have len: "n - 16 \<le> length (drop 16 (patch ct 0 ?y))" unfolding drop L by simp
  have un: "tls1_cbc_remove_padding_and_mac mem rand stk True True (sz (n - 16)) (sz (n - 16)) (drop 16 (patch ct 0 ?y)) 16 (sz (length m)) False =
      Ret (True, sz (length x), Some (Alloced m))"
  proof -
    have "n - 16 < 2 ^ 63" using n(5) by simp
    from tls1_unpad [where rand = rand and mem = mem and stk = stk, OF len this M(2) env, of 16]
    show ?thesis using unpad_spec_pads [of p m "n - 16" x "drop n ct" rs] plain(3,4) M(1) L unfolding drop by simp
  qed
  have unpad: "ossl_cipher_tlsunpadblock mem rand stk True True v (patch ct 0 ?y) (sz n) (sz 16) (sz (length m)) False =
      Ret (True, sz (length x), Some (Alloced m))"
  proof -
    have "sz n - sz 16 = sz (n - 16)" using n(2) by (rule sz_diff)
    moreover have "16 \<le> length (patch ct 0 ?y)" using y n by simp
    ultimately show ?thesis using v ctx(8) un by (simp add: ossl_cipher_tlsunpadblock_def Let_def)
  qed
  have "unat (sz (length x)) = length x" using n(5) L by (intro unat_sz) simp
  then show ?thesis
    using ctx call n unpad M(3) drop
    by (simp add: ossl_cipher_generic_block_update_def tls_block_update_def Let_def cbind_def dvd_eq_mod_eq_0)
qed

text \<open>With another IV only the first block decrypts to something else.\<close>

lemma cbc_decrypt_other_iv:
  assumes x: "16 dvd length x" "length b = 16" and blk: "on_blocks 16 block" "on_blocks 16 dblock" "undoes 16 dblock block" and iv: "length iv = 16" "length iv' = 16"
  shows "\<exists>g. length g = 16 \<and> snd (snd (cbc128_decrypt_apart dblock iv' (snd (snd (cbc128_encrypt_blocks block iv (b @ x)))))) = g @ x"
proof -
  let ?o = "block (xor_bytes b iv)"
  have o: "length ?o = 16" using blk x(2) iv by simp
  obtain v os where e: "cbc128_encrypt_blocks block ?o x = (v, [], os)" using encrypt_blocks_whole [OF x(1) blk(1) o] by blast
  have "snd (snd (cbc128_decrypt_apart dblock ?o os)) = x" by (rule cbc_decrypt_encrypt [OF x(1) blk(1,3) o e])
  moreover have "length (xor_bytes (dblock ?o) iv') = 16" using o blk(2) iv by simp
  ultimately show ?thesis using x(2) o e
    by (intro exI [of _ "xor_bytes (dblock ?o) iv'"]) (simp add: Let_def split_beta)
qed

section \<open>Properties\<close>

text \<open>
  C27: a TLS record encrypted by one provider context is decrypted by another to its payload and MAC. The record is an
  explicit IV block, the payload and the MAC, with room for the padding behind; the sender pads and encrypts it in place,
  the receiver decrypts it in place, and removes padding and MAC in constant time. The length returned is that of the
  payload, which is behind the explicit IV, and the MAC is the sender's, whatever IV the receiver had before.
\<close>

theorem tls_record_roundtrip:
  assumes c: "tls_cbc_ctx v True c" and c': "tls_cbc_ctx v False c'" and v: "v \<in> {0x303, 0xFEFD, 0x302, 0xFEFF, 0x100}"
    and inv: "undoes 16 (ctx_block c') (ctx_block c)"
    and ivb: "length ivb = 16" and M: "0 < length m" "length m \<le> 64" "ctx_tlsmacsize c' = length m"
    and space: "16 \<le> length space" and small: "length x < 2 ^ 62"
    and env: "64 \<le> length stk" "rand (length m) = Some rs" "length rs = length m" "mem (length m)"
  shows "\<exists>c1 n ct. ossl_cipher_generic_block_update ossl_cipher_hw_generic_cbc mem rand stk c (ivb @ x @ m @ space) (16 + length (x @ m) + 16)
      In_Is_Out (16 + length (x @ m)) = Ret (c1, Inr (n, ct))
    \<and> (\<exists>c2 pt. ossl_cipher_generic_block_update ossl_cipher_hw_generic_cbc mem rand stk c' ct (n + 16) In_Is_Out n = Ret (c2, Inr (length x, pt))
         \<and> take (length x) (drop 16 pt) = x \<and> ctx_tlsmac c2 = Some (Alloced m))"
proof -
  let ?r = "ivb @ x @ m"
  define p where "p = 16 - length ?r mod 16"
  have p: "0 < p" "p \<le> 16" by (auto simp: p_def)
  have lr: "length ?r = 16 + length (x @ m)" using ivb by simp
  have v': "v \<noteq> 0" "v \<noteq> SSL3_VERSION" using v by auto
  have blk: "on_blocks 16 (ctx_block c)" "on_blocks 16 (ctx_block c')" "length (ctx_iv c) = 16" "length (ctx_iv c') = 16"
    using c c' by (auto simp: tls_cbc_ctx_def cbc_ready_def)
  obtain c1 ct where e: "ossl_cipher_generic_block_update ossl_cipher_hw_generic_cbc mem rand stk c (?r @ space) (length ?r + 16) In_Is_Out (length ?r) =
      Ret (c1, Inr (length (tls_pad ?r), ct))" "length ct = length (?r @ space)"
      "take (length (tls_pad ?r)) ct = snd (snd (cbc128_encrypt_blocks (ctx_block c) (ctx_iv c) (tls_pad ?r)))"
    using tls_encrypts [OF c v', of ?r "length ?r + 16" space mem rand stk] space by auto
  let ?y = "x @ m @ replicate p (of_nat (p - 1))"
  have pad: "tls_pad ?r = ivb @ ?y" by (simp add: tls_pad_def p_def Let_def)
  have n: "16 dvd length (tls_pad ?r)" "length (tls_pad ?r) \<le> length ct" "length (tls_pad ?r) = 16 + length ?y"
    using tls_pad_whole(1,4) [of ?r] e(2) space pad ivb by simp_all
  have y: "16 dvd length ?y" using n(1,3) by (metis dvd_add_right_iff dvd_refl)
  obtain g where g: "length g = 16"
    "snd (snd (cbc128_decrypt_apart (ctx_block c') (ctx_iv c') (take (length (tls_pad ?r)) ct))) = g @ ?y"
    using cbc_decrypt_other_iv [OF y ivb blk(1,2) inv blk(3,4)] unfolding e(3) unfolding pad by blast
  have lt: "length (tls_pad ?r) < 2 ^ 63" using small M(2) p unfolding n(3) by simp
  have n16: "16 \<le> length (tls_pad ?r)" unfolding n(3) by simp
  have "\<exists>c2 pt. ossl_cipher_generic_block_update ossl_cipher_hw_generic_cbc mem rand stk c' ct (length (tls_pad ?r) + 16) In_Is_Out (length (tls_pad ?r)) =
      Ret (c2, Inr (length x, pt)) \<and> take (length x) (drop 16 pt) = x \<and> ctx_tlsmac c2 = Some (Alloced m) \<and> ctx_alloced c2"
    by (rule tls_decrypts [where rand = rand and mem = mem, OF c' v n(1) n16 n(2) _ lt g(2,1) p M env]) simp
  then show ?thesis using e(1) unfolding lr by auto
qed

definition flip_tls :: "bool \<Rightarrow> PROV_CIPHER_CTX" where
  "flip_tls encrypting = (evp_algctx (flip_evp encrypting))\<lparr>ctx_tlsversion := 0x303, ctx_tlsmacsize := 2, ctx_iv := replicate 16 (if encrypting then 1 else 2)\<rparr>"

theorem tls_record_roundtrip_witness:
  "\<exists>c1 n ct. ossl_cipher_generic_block_update ossl_cipher_hw_generic_cbc (\<lambda>_. True) (\<lambda>n. Some (replicate n 0)) (replicate 64 0) (flip_tls True)
      (replicate 16 3 @ [10, 20, 30] @ [7, 8] @ replicate 16 0) 37 In_Is_Out 21 = Ret (c1, Inr (n, ct))
    \<and> (\<exists>c2 pt. ossl_cipher_generic_block_update ossl_cipher_hw_generic_cbc (\<lambda>_. True) (\<lambda>n. Some (replicate n 0)) (replicate 64 0) (flip_tls False)
         ct (n + 16) In_Is_Out n = Ret (c2, Inr (3, pt)) \<and> take 3 (drop 16 pt) = [10, 20, 30] \<and> ctx_tlsmac c2 = Some (Alloced [7, 8]))"
proof -
  have c: "tls_cbc_ctx 0x303 b (flip_tls b)" for b
    using flip_undoes(2) by (simp add: tls_cbc_ctx_def cbc_ready_def flip_tls_def flip_evp_def zero_ctx_def)
  have inv: "undoes 16 (ctx_block (flip_tls False)) (ctx_block (flip_tls True))" using flip_undoes(1) by (simp add: flip_tls_def flip_evp_def)
  have M: "ctx_tlsmacsize (flip_tls False) = length [7, 8 :: byte]" by (simp add: flip_tls_def)
  have rnd: "(\<lambda>n. Some (replicate n (0 :: byte))) (length [7, 8 :: byte]) = Some [0, 0]" by simp
  show ?thesis
    using tls_record_roundtrip [where mem = "\<lambda>_. True" and rand = "\<lambda>n. Some (replicate n 0)" and stk = "replicate 64 0" and m = "[7, 8]" and x = "[10, 20, 30]"
        and ivb = "replicate 16 3" and space = "replicate 16 0", OF c c _ inv _ _ _ M _ _ _ rnd]
    by (simp add: numeral_3_eq_3)
qed

text \<open>
  C38: decrypting an empty input as a TLS record with an explicit IV reads outside the buffer. The length passes the check
  for whole blocks, the block size is then subtracted from it without a test and wraps around, and the length byte of the padding
  is read before the start of the buffer.
\<close>

theorem empty_tls_record_reads_outside:
  assumes c: "tls_cbc_ctx v False c" and v: "v \<in> {0x303, 0xFEFD, 0x302, 0xFEFF, 0x100}"
    and M: "ctx_tlsmacsize c \<le> 64" and out: "length out < 2 ^ 63"
  shows "ossl_cipher_generic_block_update ossl_cipher_hw_generic_cbc mem rand stk c out outsize In_Is_Out 0 = Undef"
proof -
  have ctx: "cbc_ready c" "ctx_blocksize c = 16" "ctx_key_set c" "ctx_pad c" "\<not> ctx_enc c" "ctx_tlsversion c = v" "0 < v" "v \<noteq> SSL3_VERSION"
    using c v by (auto simp: tls_cbc_ctx_def cbc_ready_def word_gt_0)
  let ?L = "2 ^ 64 - 16 :: nat"
  have call: "call_cipher ossl_cipher_hw_generic_cbc True c [] = Ret (c, Inr [])"
    using cbc.call_cipher_eq [OF ctx(1), of "[]" True] cbc.crypt_Nil [OF ctx(1)] by simp
  have neg: "(- 16 :: ulong) = 18446744073709551600" by simp
  have b: "?L < 2 ^ 64" "1 + ctx_tlsmacsize c < 2 ^ 64" using M by simp_all
  have idx: "unat (sz ?L - 1) = ?L - 1" by (rule last_index) simp_all
  have ov: "(if (16 :: ulong) = 1 then 0 else 1) + sz (ctx_tlsmacsize c) = sz (1 + ctx_tlsmacsize c)" by simp
  have big: "\<not> ?L < 1 + ctx_tlsmacsize c" "\<not> ?L - 1 < length (drop 16 out)" using M out by simp_all
  have "tls1_cbc_remove_padding_and_mac mem rand stk True True (sz ?L) (sz ?L) (drop 16 out) 16 (sz (ctx_tlsmacsize c)) False = Undef"
    unfolding tls1_cbc_remove_padding_and_mac_def Let_def ov sz_less [OF b] idx using big by simp
  then have "ossl_cipher_tlsunpadblock mem rand stk True True v out (sz 0) (sz 16) (sz (ctx_tlsmacsize c)) False = Undef"
    using v ctx(8) by (auto simp: ossl_cipher_tlsunpadblock_def Let_def neg)
  then show ?thesis
    using ctx call by (simp add: ossl_cipher_generic_block_update_def tls_block_update_def Let_def cbind_def)
qed

theorem empty_tls_record_reads_outside_witness:
  "ossl_cipher_generic_block_update ossl_cipher_hw_generic_cbc (\<lambda>_. True) (\<lambda>n. Some (replicate n 0)) (replicate 64 0) (flip_tls False)
     (replicate 32 0) 32 In_Is_Out 0 = Undef"
proof -
  have "tls_cbc_ctx 0x303 False (flip_tls False)"
    using flip_undoes(2) by (simp add: tls_cbc_ctx_def cbc_ready_def flip_tls_def flip_evp_def zero_ctx_def)
  then show ?thesis by (rule empty_tls_record_reads_outside) (simp_all add: flip_tls_def)
qed

end
