(* ===== verification/Stream_Modes.thy ===== *)
theory Stream_Modes
  imports Cipher_Modes
begin

text \<open>
  The stream modes of operation: \<open>crypto/modes/ctr128.c\<close>, \<open>ofb128.c\<close> and \<open>cfb128.c\<close>, and the functions of
  \<open>ciphercommon_hw.c\<close> that a provider cipher uses for them. A message can stop in the middle of a block: \<open>num\<close> says
  how much of the current block is used up, and the next call goes on from there.

  The three functions for 128-bit blocks have the same shape, which is here written once, over a state \<open>st\<close>: \<open>refill\<close> makes the next
  block of key stream, \<open>step st n b\<close> processes the byte \<open>b\<close> with position \<open>n\<close> of the block. They use up a block that was begun,
  then go block by block, and then begin a last one (\<open>by_blocks\<close>). The sources also have a plain loop that goes byte by byte, used on
  other machines (\<open>byte_loop\<close>). Position \<open>n\<close> outside the 16 bytes of a block is \<open>Undef\<close>.
\<close>

section \<open>The common shape\<close>

text \<open>The results of a loop are the state, \<open>n\<close> and the output, for the first loop also the input left.\<close>

function head_loop :: "('s \<Rightarrow> nat \<Rightarrow> byte \<Rightarrow> 's \<times> byte) \<Rightarrow> 's \<Rightarrow> nat \<Rightarrow> byte list \<Rightarrow> ('s \<times> nat \<times> byte list \<times> byte list) outcome" where
  "head_loop step st n inp =
     (if n = 0 \<or> inp = [] then Ret (st, n, inp, [])
      else if n \<ge> 16 then Undef
      else
        let (st, out) = step st n (hd inp) in
        obind (head_loop step st ((n + 1) mod 16) (tl inp)) (\<lambda>(st, n, inp, outs). Ret (st, n, inp, out # outs)))"
  by pat_completeness auto
termination by (relation "measure (\<lambda>(step, st, n, inp). length inp)") auto

declare head_loop.simps [simp del]

fun run_bytes :: "('s \<Rightarrow> nat \<Rightarrow> byte \<Rightarrow> 's \<times> byte) \<Rightarrow> 's \<Rightarrow> nat \<Rightarrow> byte list \<Rightarrow> 's \<times> nat \<times> byte list" where
  "run_bytes step st n [] = (st, n, [])"
| "run_bytes step st n (b # bs) =
     (let (st, out) = step st n b;
          (st, n, outs) = run_bytes step st (n + 1) bs
      in (st, n, out # outs))"

function block_loop :: "('s \<Rightarrow> 's) \<Rightarrow> ('s \<Rightarrow> nat \<Rightarrow> byte \<Rightarrow> 's \<times> byte) \<Rightarrow> 's \<Rightarrow> byte list \<Rightarrow> 's \<times> byte list \<times> byte list" where
  "block_loop refill step st inp =
     (if 16 \<le> length inp then
        let (st, n, out) = run_bytes step (refill st) 0 (take 16 inp);
            (st, inp, outs) = block_loop refill step st (drop 16 inp)
        in (st, inp, out @ outs)
      else (st, inp, []))"
  by pat_completeness auto
termination by (relation "measure (\<lambda>(refill, step, st, inp). length inp)") auto

declare block_loop.simps [simp del]

text \<open>After the first loop \<open>n\<close> is 0 unless the input is used up.\<close>

definition by_blocks :: "('s \<Rightarrow> 's) \<Rightarrow> ('s \<Rightarrow> nat \<Rightarrow> byte \<Rightarrow> 's \<times> byte) \<Rightarrow> 's \<Rightarrow> nat \<Rightarrow> byte list \<Rightarrow> ('s \<times> nat \<times> byte list) outcome" where
  "by_blocks refill step st n inp =
     obind (head_loop step st n inp) (\<lambda>(st, n, inp, out1).
     let (st, inp, out2) = block_loop refill step st inp in
     if inp \<noteq> [] then
       let (st, n, out3) = run_bytes step (refill st) n inp in Ret (st, n, out1 @ out2 @ out3)
     else Ret (st, n, out1 @ out2))"

fun byte_loop :: "('s \<Rightarrow> 's) \<Rightarrow> ('s \<Rightarrow> nat \<Rightarrow> byte \<Rightarrow> 's \<times> byte) \<Rightarrow> 's \<Rightarrow> nat \<Rightarrow> byte list \<Rightarrow> ('s \<times> nat \<times> byte list) outcome" where
  "byte_loop refill step st n [] = Ret (st, n, [])"
| "byte_loop refill step st n (b # bs) =
     (let st = (if n = 0 then refill st else st) in
      if n \<ge> 16 then Undef
      else
        let (st, out) = step st n b in
        obind (byte_loop refill step st ((n + 1) mod 16) bs) (\<lambda>(st, n, outs). Ret (st, n, out # outs)))"

section \<open>Counter mode\<close>

text \<open>The carry goes from byte \<open>n - 1\<close> down to the first one.\<close>

fun inc_loop :: "nat \<Rightarrow> uint \<Rightarrow> byte list \<Rightarrow> byte list" where
  "inc_loop 0 c counter = counter"
| "inc_loop (Suc n) c counter =
     (let c = c + ucast (counter ! n);
          counter = counter[n := ucast c];
          c = drop_bit 8 c
      in inc_loop n c counter)"

definition ctr128_inc :: "byte list \<Rightarrow> byte list" where
  "ctr128_inc counter = inc_loop 16 1 counter"

definition ctr96_inc :: "byte list \<Rightarrow> byte list" where
  "ctr96_inc counter = inc_loop 12 1 counter"

text \<open>The state is \<open>ivec\<close> and \<open>ecount_buf\<close>. On a little-endian machine \<open>ctr128_inc_aligned\<close> is \<open>ctr128_inc\<close>.\<close>

definition ctr_refill :: "(byte list \<Rightarrow> byte list) \<Rightarrow> byte list \<times> byte list \<Rightarrow> byte list \<times> byte list" where
  "ctr_refill block st = (ctr128_inc (fst st), block (fst st))"

definition ctr_step :: "byte list \<times> byte list \<Rightarrow> nat \<Rightarrow> byte \<Rightarrow> (byte list \<times> byte list) \<times> byte" where
  "ctr_step st n b = (st, b XOR snd st ! n)"

definition CRYPTO_ctr128_encrypt ::
    "(byte list \<Rightarrow> byte list) \<Rightarrow> byte list \<times> byte list \<Rightarrow> nat \<Rightarrow> byte list \<Rightarrow> ((byte list \<times> byte list) \<times> nat \<times> byte list) outcome" where
  "CRYPTO_ctr128_encrypt block st num inp = by_blocks (ctr_refill block) ctr_step st num inp"

definition GETU32 :: "byte list \<Rightarrow> uint" where
  "GETU32 p = of_nat (be_value (take 4 p))"

definition PUTU32 :: "byte list \<Rightarrow> nat \<Rightarrow> uint \<Rightarrow> byte list" where
  "PUTU32 p i v = patch p i (be_bytes 4 (unat v))"

text \<open>
  The variant for a function \<open>func\<close> that processes a number of blocks with a 32-bit counter. The number of blocks is limited so that the
  counter does not overflow inside a call.
\<close>

definition ctr32_limit :: "uint \<Rightarrow> nat \<Rightarrow> nat \<times> uint" where
  "ctr32_limit ctr32 len =
     (let blocks = len div 16;
          blocks = (if blocks > 2 ^ 28 then 2 ^ 28 else blocks);
          ctr32 = ctr32 + of_nat blocks
      in if unat ctr32 < blocks then (blocks - unat ctr32, 0) else (blocks, ctr32))"

definition ctr32_store :: "byte list \<Rightarrow> uint \<Rightarrow> byte list" where
  "ctr32_store ivec ctr32 =
     (let ivec = PUTU32 ivec 12 ctr32 in if ctr32 = 0 then ctr96_inc ivec else ivec)"

lemma ctr32_limit_pos: "16 \<le> len \<Longrightarrow> 0 < fst (ctr32_limit ctr32 len)"
  by (auto simp: ctr32_limit_def Let_def div_greater_zero_iff)

function ctr32_blocks ::
    "(byte list \<Rightarrow> nat \<Rightarrow> byte list \<Rightarrow> byte list) \<Rightarrow> byte list \<Rightarrow> uint \<Rightarrow> byte list \<Rightarrow> byte list \<times> uint \<times> byte list \<times> byte list" where
  "ctr32_blocks func ivec ctr32 inp =
     (if 16 \<le> length inp then
        let (blocks, ctr32) = ctr32_limit ctr32 (length inp);
            out = func (take (blocks * 16) inp) blocks ivec;
            ivec = ctr32_store ivec ctr32;
            (ivec, ctr32, inp, outs) = ctr32_blocks func ivec ctr32 (drop (blocks * 16) inp)
        in (ivec, ctr32, inp, out @ outs)
      else (ivec, ctr32, inp, []))"
  by pat_completeness auto
termination
proof (relation "measure (\<lambda>(func, ivec, ctr32, inp). length inp)")
  fix func ivec ctr32 inp x y xa xb xc
  assume "16 \<le> length inp" "x = ctr32_limit ctr32 (length inp)" "(y, xa) = x"
  then have "0 < y" using ctr32_limit_pos [of "length inp" ctr32] by (metis fst_conv)
  then show "((func, xc, xa, drop (y * 16) inp), func, ivec, ctr32, inp) \<in> measure (\<lambda>(func, ivec, ctr32, inp). length inp)"
    using \<open>16 \<le> length inp\<close> by simp
qed simp

declare ctr32_blocks.simps [simp del]

definition CRYPTO_ctr128_encrypt_ctr32 ::
    "(byte list \<Rightarrow> nat \<Rightarrow> byte list \<Rightarrow> byte list) \<Rightarrow> byte list \<times> byte list \<Rightarrow> nat \<Rightarrow> byte list \<Rightarrow> ((byte list \<times> byte list) \<times> nat \<times> byte list) outcome" where
  "CRYPTO_ctr128_encrypt_ctr32 func st num inp =
     obind (head_loop ctr_step st num inp) (\<lambda>(st, n, inp, out1).
     let (ivec, ecount_buf) = st;
         (ivec, ctr32, inp, out2) = ctr32_blocks func ivec (GETU32 (drop 12 ivec)) inp
     in if inp \<noteq> [] then
          let ecount_buf = func (replicate 16 0) 1 ivec;
              ivec = ctr32_store ivec (ctr32 + 1);
              (st, n, out3) = run_bytes ctr_step (ivec, ecount_buf) n inp
          in Ret (st, n, out1 @ out2 @ out3)
        else Ret ((ivec, ecount_buf), n, out1 @ out2))"

section \<open>Output feedback and cipher feedback\<close>

text \<open>The argument \<open>num\<close> is an \<open>int\<close>; a negative one is returned as -1 and nothing is written.\<close>

definition with_num :: "(byte list \<Rightarrow> nat \<Rightarrow> (byte list \<times> nat \<times> byte list) outcome) \<Rightarrow> byte list \<Rightarrow> int \<Rightarrow> (byte list \<times> int \<times> byte list) outcome" where
  "with_num run ivec num =
     (if num < 0 then Ret (ivec, - 1, [])
      else obind (run ivec (nat num)) (\<lambda>(ivec, n, out). Ret (ivec, int n, out)))"

definition ofb_step :: "byte list \<Rightarrow> nat \<Rightarrow> byte \<Rightarrow> byte list \<times> byte" where
  "ofb_step ivec n b = (ivec, b XOR ivec ! n)"

definition CRYPTO_ofb128_encrypt :: "(byte list \<Rightarrow> byte list) \<Rightarrow> byte list \<Rightarrow> int \<Rightarrow> byte list \<Rightarrow> (byte list \<times> int \<times> byte list) outcome" where
  "CRYPTO_ofb128_encrypt block ivec num inp = with_num (\<lambda>ivec n. by_blocks block ofb_step ivec n inp) ivec num"

definition cfb_step :: "bool \<Rightarrow> byte list \<Rightarrow> nat \<Rightarrow> byte \<Rightarrow> byte list \<times> byte" where
  "cfb_step enc ivec n b = (if enc then (ivec[n := ivec ! n XOR b], ivec ! n XOR b) else (ivec[n := b], ivec ! n XOR b))"

definition CRYPTO_cfb128_encrypt :: "bool \<Rightarrow> (byte list \<Rightarrow> byte list) \<Rightarrow> byte list \<Rightarrow> int \<Rightarrow> byte list \<Rightarrow> (byte list \<times> int \<times> byte list) outcome" where
  "CRYPTO_cfb128_encrypt enc block ivec num inp = with_num (\<lambda>ivec n. by_blocks block (cfb_step enc) ivec n inp) ivec num"

text \<open>Feedback of \<open>nbits\<close> bits; the input is \<open>(nbits + 7) div 8\<close> bytes. The results are the new \<open>ivec\<close> and the output.\<close>

definition cfbr_encrypt_block :: "bool \<Rightarrow> (byte list \<Rightarrow> byte list) \<Rightarrow> byte list \<Rightarrow> nat \<Rightarrow> byte list \<Rightarrow> (byte list \<times> byte list) outcome" where
  "cfbr_encrypt_block enc block ivec nbits inp =
     (if nbits = 0 \<or> nbits > 128 then Ret (ivec, [])
      else if length inp < (nbits + 7) div 8 then Undef
      else
        let ovec = ivec;
            ivec = block ivec;
            num = (nbits + 7) div 8;
            out = xor_bytes (take num inp) ivec;
            ovec = ovec @ (if enc then out else take num inp) @ replicate (17 - num) 0;
            rem = nbits mod 8;
            num = nbits div 8
        in Ret (if rem = 0 then take 16 (drop num ovec)
                else map (\<lambda>n. push_bit rem (ovec ! (n + num)) OR drop_bit (8 - rem) (ovec ! (n + num + 1))) [0..<16], out))"

fun CRYPTO_cfb128_8_encrypt :: "bool \<Rightarrow> (byte list \<Rightarrow> byte list) \<Rightarrow> byte list \<Rightarrow> byte list \<Rightarrow> (byte list \<times> byte list) outcome" where
  "CRYPTO_cfb128_8_encrypt enc block ivec [] = Ret (ivec, [])"
| "CRYPTO_cfb128_8_encrypt enc block ivec (b # bs) =
     obind (cfbr_encrypt_block enc block ivec 8 [b]) (\<lambda>(ivec, out).
     obind (CRYPTO_cfb128_8_encrypt enc block ivec bs) (\<lambda>(ivec, outs). Ret (ivec, out @ outs)))"

section \<open>The functions of a provider cipher\<close>

text \<open>The field \<open>num\<close> is unsigned and passes through an \<open>int\<close>.\<close>

definition ossl_cipher_hw_generic_ofb128 :: "bool \<Rightarrow> PROV_CIPHER_CTX \<Rightarrow> byte list \<Rightarrow> (bool \<times> PROV_CIPHER_CTX \<times> byte list) outcome" where
  "ossl_cipher_hw_generic_ofb128 same dat inp =
     obind (CRYPTO_ofb128_encrypt (ctx_block dat) (ctx_iv dat) (sint (ctx_num dat)) inp) (\<lambda>(ivec, num, out).
       Ret (True, dat\<lparr>ctx_iv := ivec, ctx_num := word_of_int num\<rparr>, out))"

definition ossl_cipher_hw_generic_cfb128 :: "bool \<Rightarrow> PROV_CIPHER_CTX \<Rightarrow> byte list \<Rightarrow> (bool \<times> PROV_CIPHER_CTX \<times> byte list) outcome" where
  "ossl_cipher_hw_generic_cfb128 same dat inp =
     obind (CRYPTO_cfb128_encrypt (ctx_enc dat) (ctx_block dat) (ctx_iv dat) (sint (ctx_num dat)) inp) (\<lambda>(ivec, num, out).
       Ret (True, dat\<lparr>ctx_iv := ivec, ctx_num := word_of_int num\<rparr>, out))"

definition ossl_cipher_hw_generic_cfb8 :: "bool \<Rightarrow> PROV_CIPHER_CTX \<Rightarrow> byte list \<Rightarrow> (bool \<times> PROV_CIPHER_CTX \<times> byte list) outcome" where
  "ossl_cipher_hw_generic_cfb8 same dat inp =
     obind (CRYPTO_cfb128_8_encrypt (ctx_enc dat) (ctx_block dat) (ctx_iv dat) inp) (\<lambda>(ivec, out).
       Ret (True, dat\<lparr>ctx_iv := ivec\<rparr>, out))"

definition ossl_cipher_hw_generic_ctr :: "bool \<Rightarrow> PROV_CIPHER_CTX \<Rightarrow> byte list \<Rightarrow> (bool \<times> PROV_CIPHER_CTX \<times> byte list) outcome" where
  "ossl_cipher_hw_generic_ctr same dat inp =
     obind (case stream_ctr dat of
              Some func \<Rightarrow> CRYPTO_ctr128_encrypt_ctr32 func (ctx_iv dat, ctx_buf dat) (unat (ctx_num dat)) inp
            | None \<Rightarrow> CRYPTO_ctr128_encrypt (ctx_block dat) (ctx_iv dat, ctx_buf dat) (unat (ctx_num dat)) inp) (\<lambda>((ivec, buf), num, out).
       Ret (True, dat\<lparr>ctx_iv := ivec, ctx_buf := buf, ctx_num := of_nat num\<rparr>, out))"

text \<open>
  The variants that cut the input into chunks of \<open>MAXCHUNK\<close> bytes. Those for cipher feedback pass the whole rest of the input,
  not the chunk, to the function they call. When input and output are the same object, a later round reads what an earlier one wrote.
\<close>

function ossl_cipher_hw_chunked_ofb128 :: "bool \<Rightarrow> PROV_CIPHER_CTX \<Rightarrow> byte list \<Rightarrow> (bool \<times> PROV_CIPHER_CTX \<times> byte list) outcome" where
  "ossl_cipher_hw_chunked_ofb128 same dat inp =
     (if MAXCHUNK \<le> length inp then
        obind (ossl_cipher_hw_generic_ofb128 same dat (take MAXCHUNK inp)) (\<lambda>(_, dat, out).
        obind (ossl_cipher_hw_chunked_ofb128 same dat (drop MAXCHUNK inp)) (\<lambda>(ok, dat, outs). Ret (ok, dat, out @ outs)))
      else if 0 < length inp then
        obind (ossl_cipher_hw_generic_ofb128 same dat inp) (\<lambda>(_, dat, out). Ret (True, dat, out))
      else Ret (True, dat, []))"
  by pat_completeness auto
termination by (relation "measure (\<lambda>(same, dat, inp). length inp)") auto

declare ossl_cipher_hw_chunked_ofb128.simps [simp del]

function chunked_cfb :: "(bool \<Rightarrow> PROV_CIPHER_CTX \<Rightarrow> byte list \<Rightarrow> (bool \<times> PROV_CIPHER_CTX \<times> byte list) outcome)
    \<Rightarrow> bool \<Rightarrow> PROV_CIPHER_CTX \<Rightarrow> nat \<Rightarrow> byte list \<Rightarrow> (bool \<times> PROV_CIPHER_CTX \<times> byte list) outcome" where
  "chunked_cfb cfb same dat chunk inp =
     (if 0 < length inp \<and> chunk \<le> length inp \<and> 0 < chunk then
        obind (cfb same dat inp) (\<lambda>(_, dat, out).
        let rest = drop chunk (if same then out else inp);
            chunk' = (if length rest < chunk then length rest else chunk)
        in if length rest < length inp
           then obind (chunked_cfb cfb same dat chunk' rest) (\<lambda>(ok, dat, outs). Ret (ok, dat, take chunk out @ outs))
           else Undef)
      else Ret (True, dat, []))"
  by pat_completeness auto
termination by (relation "measure (\<lambda>(cfb, same, dat, chunk, inp). length inp)") auto

declare chunked_cfb.simps [simp del]

definition ossl_cipher_hw_chunked_cfb128 :: "bool \<Rightarrow> PROV_CIPHER_CTX \<Rightarrow> byte list \<Rightarrow> (bool \<times> PROV_CIPHER_CTX \<times> byte list) outcome" where
  "ossl_cipher_hw_chunked_cfb128 same dat inp =
     chunked_cfb ossl_cipher_hw_generic_cfb128 same dat (if length inp < MAXCHUNK then length inp else MAXCHUNK) inp"

definition ossl_cipher_hw_chunked_cfb8 :: "bool \<Rightarrow> PROV_CIPHER_CTX \<Rightarrow> byte list \<Rightarrow> (bool \<times> PROV_CIPHER_CTX \<times> byte list) outcome" where
  "ossl_cipher_hw_chunked_cfb8 same dat inp =
     chunked_cfb ossl_cipher_hw_generic_cfb8 same dat (if length inp < MAXCHUNK then length inp else MAXCHUNK) inp"

section \<open>Block by block and byte by byte\<close>

lemma length_run_bytes: "run_bytes step st n bs = (st', m, out) \<Longrightarrow> m = n + length bs \<and> length out = length bs"
  by (induction bs arbitrary: st n st' m out) (fastforce simp: Let_def split: prod.splits)+

lemma byte_loop_within:
  "0 < n \<Longrightarrow> n < 16 \<Longrightarrow> n + length bs \<le> 16 \<Longrightarrow> run_bytes step st n bs = (st', m, out) \<Longrightarrow>
     byte_loop refill step st n bs = Ret (st', (n + length bs) mod 16, out)"
proof (induction bs arbitrary: st n out)
  case (Cons b bs)
  obtain st1 o1 where s: "step st n b = (st1, o1)" by fastforce
  obtain o2 where r: "run_bytes step st1 (Suc n) bs = (st', m, o2)" "out = o1 # o2"
    using Cons.prems(4) s by (auto split: prod.splits)
  show ?case
  proof (cases "Suc n < 16")
    case True
    then show ?thesis using Cons.IH [of "Suc n" st1 o2] Cons.prems s r by simp
  next
    case False
    then have "length bs = 0" "Suc n = 16" using Cons.prems(2,3) unfolding length_Cons by linarith+
    then show ?thesis using Cons.prems s r by simp
  qed
qed simp

lemma byte_loop_fresh:
  assumes "bs \<noteq> []" "length bs \<le> 16" "run_bytes step (refill st) 0 bs = (st', m, out)"
  shows "byte_loop refill step st 0 bs = Ret (st', length bs mod 16, out)"
proof -
  obtain b bs' where bs: "bs = b # bs'" using assms(1) by (cases bs) auto
  obtain st1 o1 where s: "step (refill st) 0 b = (st1, o1)" by fastforce
  obtain o2 where r: "run_bytes step st1 (Suc 0) bs' = (st', m, o2)" "out = o1 # o2"
    using assms(3) s bs by (auto split: prod.splits)
  show ?thesis using byte_loop_within [OF _ _ _ r(1), of refill] assms(2) s r bs by simp
qed

lemma byte_loop_append:
  "byte_loop refill step st n (x @ y) =
     obind (byte_loop refill step st n x) (\<lambda>(st, n, o1). obind (byte_loop refill step st n y) (\<lambda>(st, n, o2). Ret (st, n, o1 @ o2)))"
proof (induction x arbitrary: st n)
  case Nil
  then show ?case by (cases "byte_loop refill step st n y") auto
next
  case (Cons b x)
  show ?case by (auto simp: Cons.IH obind_assoc Let_def case_prod_unfold)
qed

lemma byte_loop_head:
  "byte_loop refill step st n inp =
     obind (head_loop step st n inp) (\<lambda>(st, n, inp, o1). obind (byte_loop refill step st n inp) (\<lambda>(st, n, o2). Ret (st, n, o1 @ o2)))"
proof (induction inp arbitrary: st n)
  case Nil
  then show ?case by (simp add: head_loop.simps)
next
  case (Cons b bs)
  show ?case
  proof (cases "n = 0")
    case True
    then show ?thesis
      by (subst head_loop.simps) (cases "byte_loop refill step st 0 (b # bs)"; auto)
  next
    case False
    show ?thesis
      by (subst head_loop.simps, subst byte_loop.simps(2), subst Cons.IH) (use False in \<open>auto simp: obind_assoc Let_def case_prod_unfold\<close>)
  qed
qed

lemma head_loop_result: "head_loop step st n inp = Ret (st', n', inp', out) \<Longrightarrow> n' = 0 \<or> inp' = []"
proof (induction inp arbitrary: st n out)
  case (Cons b bs)
  then show ?case
    by (subst (asm) (2) head_loop.simps) (auto simp: Let_def obind_Ret_eq_Ret split: if_splits prod.splits)
qed (auto simp: head_loop.simps)

lemma byte_loop_blocks:
  "block_loop refill step st inp = (st', rest, out) \<Longrightarrow>
     byte_loop refill step st 0 inp = obind (byte_loop refill step st' 0 rest) (\<lambda>(st, n, o2). Ret (st, n, out @ o2)) \<and> length rest < 16"
proof (induction "length inp" arbitrary: st inp out rule: less_induct)
  case less
  show ?case
  proof (cases "16 \<le> length inp")
    case False
    then show ?thesis using less.prems
      by (subst (asm) block_loop.simps) (cases "byte_loop refill step st 0 inp"; auto)
  next
    case True
    let ?x = "take 16 inp" and ?y = "drop 16 inp"
    have x: "?x \<noteq> []" "length ?x = 16" using True by auto
    obtain st1 m o1 where r: "run_bytes step (refill st) 0 ?x = (st1, m, o1)" by (metis prod_cases3)
    obtain o2 where b: "block_loop refill step st1 ?y = (st', rest, o2)" "out = o1 @ o2"
      using less.prems True r by (subst (asm) block_loop.simps) (auto split: prod.splits)
    have "byte_loop refill step st 0 (?x @ ?y) = obind (byte_loop refill step st1 0 ?y) (\<lambda>(st, n, o2). Ret (st, n, o1 @ o2))"
      unfolding byte_loop_append using byte_loop_fresh [where refill = refill and st = st, OF x(1) _ r] x(2) by simp
    then show ?thesis
      using less.hyps [of ?y st1 o2] True b by (simp add: obind_assoc case_prod_unfold)
  qed
qed

theorem by_blocks_eq: "by_blocks refill step st n inp = byte_loop refill step st n inp"
proof (cases "head_loop step st n inp")
  case (Ret r)
  then obtain st1 n1 rest o1 where h: "head_loop step st n inp = Ret (st1, n1, rest, o1)" by (cases r) auto
  obtain st2 rest2 o2 where b: "block_loop refill step st1 rest = (st2, rest2, o2)" by (metis prod_cases3)
  note bl = byte_loop_blocks [OF b]
  have bytes: "byte_loop refill step st n inp = obind (byte_loop refill step st1 n1 rest) (\<lambda>(st, n, o2). Ret (st, n, o1 @ o2))"
    using byte_loop_head [of refill step st n inp] h by simp
  consider "rest = []" | "n1 = 0" using head_loop_result [OF h] by blast
  then show ?thesis
  proof cases
    case 1
    then have "block_loop refill step st1 rest = (st1, [], [])" by (simp add: block_loop.simps)
    then show ?thesis using bytes 1 by (simp add: by_blocks_def h)
  next
    case 2
    show ?thesis
    proof (cases "rest2 = []")
      case True
      then show ?thesis using bytes 2 bl by (simp add: by_blocks_def h b)
    next
      case False
      obtain st3 m o3 where r: "run_bytes step (refill st2) 0 rest2 = (st3, m, o3)" by (metis prod_cases3)
      then have "m = length rest2" using length_run_bytes by fastforce
      then show ?thesis using bytes 2 bl byte_loop_fresh [where refill = refill and st = st2, OF False _ r] r False by (simp add: by_blocks_def h b)
    qed
  qed
qed (use byte_loop_head [of refill step st n inp] in \<open>simp_all add: by_blocks_def\<close>)

section \<open>Messages in pieces\<close>

text \<open>A message sent through an operation in pieces; the outputs are put together.\<close>

fun run_pieces :: "('s \<Rightarrow> byte list \<Rightarrow> (bool \<times> 's \<times> byte list) outcome) \<Rightarrow> 's \<Rightarrow> byte list list \<Rightarrow> (bool \<times> 's \<times> byte list) outcome" where
  "run_pieces run st [] = Ret (True, st, [])"
| "run_pieces run st (d # ds) =
     obind (run st d) (\<lambda>(_, st, o1). obind (run_pieces run st ds) (\<lambda>(_, st, o2). Ret (True, st, o1 @ o2)))"

text \<open>
  What an application relies on when it does this with a stream mode: from a valid state a call succeeds and goes on where the last
  one stopped. Then all cuts of a message give the same result.
\<close>

locale resumable =
  fixes run :: "'s \<Rightarrow> byte list \<Rightarrow> (bool \<times> 's \<times> byte list) outcome" and valid :: "'s \<Rightarrow> bool"
  assumes run_total: "valid st \<Longrightarrow> \<exists>st' out. run st x = Ret (True, st', out) \<and> valid st' \<and> length out = length x"
    and run_Nil: "valid st \<Longrightarrow> run st [] = Ret (True, st, [])"
    and run_append: "valid st \<Longrightarrow> run st (x @ y) = obind (run st x) (\<lambda>(_, st, o1). obind (run st y) (\<lambda>(_, st, o2). Ret (True, st, o1 @ o2)))"
begin

lemma run_pieces_concat: "valid st \<Longrightarrow> run_pieces run st ds = run st (concat ds)"
proof (induction ds arbitrary: st)
  case (Cons d ds)
  obtain st' out where r: "run st d = Ret (True, st', out)" "valid st'" using run_total [OF Cons.prems] by blast
  then show ?case using Cons.IH [OF r(2)] run_append [OF Cons.prems] by simp
qed (simp add: run_Nil)

end

text \<open>
  A context that holds the state of a byte loop: \<open>get\<close> and \<open>put\<close> read and write it, the position is in \<open>num\<close>. A function that is such
  a loop on the context is resumable.
\<close>

locale stream_ctx =
  fixes run :: "PROV_CIPHER_CTX \<Rightarrow> byte list \<Rightarrow> (bool \<times> PROV_CIPHER_CTX \<times> byte list) outcome"
    and get :: "PROV_CIPHER_CTX \<Rightarrow> 's" and put :: "PROV_CIPHER_CTX \<Rightarrow> 's \<Rightarrow> nat \<Rightarrow> PROV_CIPHER_CTX"
    and refill :: "PROV_CIPHER_CTX \<Rightarrow> 's \<Rightarrow> 's" and step :: "PROV_CIPHER_CTX \<Rightarrow> 's \<Rightarrow> nat \<Rightarrow> byte \<Rightarrow> 's \<times> byte"
    and valid :: "PROV_CIPHER_CTX \<Rightarrow> bool"
  assumes run_loop: "valid c \<Longrightarrow> run c inp = obind (byte_loop (refill c) (step c) (get c) (unat (ctx_num c)) inp) (\<lambda>(st, n, out). Ret (True, put c st n, out))"
    and valid_num: "valid c \<Longrightarrow> unat (ctx_num c) < 16"
    and get_put: "get (put c st n) = st" and num_put: "ctx_num (put c st n) = of_nat n"
    and put_put: "put (put c st n) st' n' = put c st' n'" and put_get: "put c (get c) (unat (ctx_num c)) = c"
    and cfg_put: "refill (put c st n) = refill c" "step (put c st n) = step c"
    and valid_put: "valid c \<Longrightarrow> n < 16 \<Longrightarrow> valid (put c st n)"

lemma byte_loop_total:
  "n < 16 \<Longrightarrow> \<exists>st' out. byte_loop refill step st n inp = Ret (st', (n + length inp) mod 16, out) \<and> length out = length inp"
proof (induction inp arbitrary: st n)
  case (Cons b bs)
  let ?st = "if n = 0 then refill st else st"
  obtain st1 o1 where s: "step ?st n b = (st1, o1)" by fastforce
  have m: "Suc n mod 16 < 16" by simp
  obtain st2 o2 where "byte_loop refill step st1 (Suc n mod 16) bs = Ret (st2, (Suc n mod 16 + length bs) mod 16, o2)" "length o2 = length bs"
    using Cons.IH [OF m, of st1] by blast
  moreover have "(Suc n mod 16 + length bs) mod 16 = (n + length (b # bs)) mod 16" by (simp add: mod_add_left_eq)
  ultimately show ?case using Cons.prems s by (simp add: Let_def)
qed simp

sublocale stream_ctx \<subseteq> resumable run valid
proof
  fix c x y
  assume v: "valid c"
  note n = valid_num [OF v]
  have small: "unat (of_nat m :: uint) = m" if "m < 16" for m using that by (simp add: unsigned_of_nat take_bit_nat_eq_self)
  obtain st out where l: "byte_loop (refill c) (step c) (get c) (unat (ctx_num c)) x = Ret (st, (unat (ctx_num c) + length x) mod 16, out)" "length out = length x"
    using byte_loop_total [OF n, of "refill c" "step c" "get c" x] by blast
  then show "\<exists>c' out. run c x = Ret (True, c', out) \<and> valid c' \<and> length out = length x" using run_loop [OF v] valid_put [OF v] by simp
  show "run c [] = Ret (True, c, [])" using run_loop [OF v] put_get by simp
  have v': "valid (put c st ((unat (ctx_num c) + length x) mod 16))" using valid_put [OF v] by simp
  show "run c (x @ y) = obind (run c x) (\<lambda>(_, c, o1). obind (run c y) (\<lambda>(_, c, o2). Ret (True, c, o1 @ o2)))"
    using l unfolding run_loop [OF v] byte_loop_append
    by (simp add: run_loop [OF v'] get_put num_put put_put cfg_put small obind_assoc case_prod_unfold)
qed

abbreviation num_ok :: "PROV_CIPHER_CTX \<Rightarrow> bool" where
  "num_ok c \<equiv> unat (ctx_num c) < 16"

lemma num_ok_int: "num_ok c \<Longrightarrow> sint (ctx_num c) = int (unat (ctx_num c))"
proof -
  assume n: "num_ok c"
  have "sint (of_nat m :: uint) = int m" if "m < 16" for m
  proof -
    have "signed_take_bit 31 (int m) = int m" using that by (intro signed_take_bit_int_eq_self) simp_all
    then show ?thesis by (simp add: signed_of_nat)
  qed
  from this [OF n] show ?thesis by simp
qed

interpretation ofb: stream_ctx "ossl_cipher_hw_generic_ofb128 same" ctx_iv "\<lambda>c st n. c\<lparr>ctx_iv := st, ctx_num := of_nat n\<rparr>"
  ctx_block "\<lambda>_. ofb_step" num_ok for same
proof
  fix c inp
  assume "num_ok c"
  then show "ossl_cipher_hw_generic_ofb128 same c inp = obind (byte_loop (ctx_block c) ofb_step (ctx_iv c) (unat (ctx_num c)) inp)
      (\<lambda>(st, n, out). Ret (True, c\<lparr>ctx_iv := st, ctx_num := of_nat n\<rparr>, out))"
    by (simp add: ossl_cipher_hw_generic_ofb128_def CRYPTO_ofb128_encrypt_def with_num_def num_ok_int by_blocks_eq obind_assoc case_prod_unfold)
qed (simp_all add: unsigned_of_nat take_bit_nat_eq_self)

interpretation cfb: stream_ctx "ossl_cipher_hw_generic_cfb128 same" ctx_iv "\<lambda>c st n. c\<lparr>ctx_iv := st, ctx_num := of_nat n\<rparr>"
  ctx_block "\<lambda>c. cfb_step (ctx_enc c)" num_ok for same
proof
  fix c inp
  assume "num_ok c"
  then show "ossl_cipher_hw_generic_cfb128 same c inp = obind (byte_loop (ctx_block c) (cfb_step (ctx_enc c)) (ctx_iv c) (unat (ctx_num c)) inp)
      (\<lambda>(st, n, out). Ret (True, c\<lparr>ctx_iv := st, ctx_num := of_nat n\<rparr>, out))"
    by (simp add: ossl_cipher_hw_generic_cfb128_def CRYPTO_cfb128_encrypt_def with_num_def num_ok_int by_blocks_eq obind_assoc case_prod_unfold)
qed (simp_all add: unsigned_of_nat take_bit_nat_eq_self)

interpretation ctr: stream_ctx "ossl_cipher_hw_generic_ctr same" "\<lambda>c. (ctx_iv c, ctx_buf c)" "\<lambda>c st n. c\<lparr>ctx_iv := fst st, ctx_buf := snd st, ctx_num := of_nat n\<rparr>"
  "\<lambda>c. ctr_refill (ctx_block c)" "\<lambda>_. ctr_step" "\<lambda>c. num_ok c \<and> stream_ctr c = None" for same
proof
  fix c inp
  assume "num_ok c \<and> stream_ctr c = None"
  then show "ossl_cipher_hw_generic_ctr same c inp = obind (byte_loop (ctr_refill (ctx_block c)) ctr_step (ctx_iv c, ctx_buf c) (unat (ctx_num c)) inp)
      (\<lambda>(st, n, out). Ret (True, c\<lparr>ctx_iv := fst st, ctx_buf := snd st, ctx_num := of_nat n\<rparr>, out))"
    by (simp add: ossl_cipher_hw_generic_ctr_def CRYPTO_ctr128_encrypt_def by_blocks_eq case_prod_unfold)
qed (simp_all add: unsigned_of_nat take_bit_nat_eq_self)

section \<open>The counter\<close>

lemma be_bytes_append: "be_bytes (m + n) v = be_bytes m (v div 256 ^ n) @ be_bytes n v"
  by (induction n arbitrary: v) (simp_all add: div_mult2_eq)

lemma be_bytes_mod: "be_bytes n (v mod 256 ^ n) = be_bytes n v"
proof (induction n arbitrary: v)
  case (Suc n)
  have "v mod (256 * 256 ^ n) div 256 = v div 256 mod 256 ^ n" by (simp add: mod_mult2_eq)
  then show ?case using Suc.IH [of "v div 256"] by (simp add: mod_mult2_eq)
qed simp

lemma inc_loop_eq:
  "unat c \<le> 2 ^ 16 \<Longrightarrow> n \<le> length cs \<Longrightarrow> inc_loop n c cs = be_bytes n (be_value (take n cs) + unat c) @ drop n cs"
proof (induction n arbitrary: c cs)
  case (Suc n)
  let ?b = "cs ! n" and ?c = "c + ucast (cs ! n)"
  have n: "n < length cs" using Suc.prems by simp
  have b: "unat ?b < 256" by (rule unat_byte_less)
  have c: "unat ?c = unat c + unat ?b"
  proof -
    have "unat (ucast ?b :: uint) = unat ?b" by (simp add: unsigned_ucast_eq take_bit_nat_eq_self less_trans [OF b])
    moreover have "unat c + unat ?b < 2 ^ 32" using Suc.prems(1) b by simp
    ultimately show ?thesis by (simp add: unat_word_ariths(1))
  qed
  have "drop_bit 8 ?c = ?c div 256" by (simp add: drop_bit_eq_div)
  then have d: "unat (drop_bit 8 ?c) = (unat c + unat ?b) div 256" by (simp only: unat_div c) simp
  have u: "(ucast ?c :: byte) = of_nat ((unat c + unat ?b) mod 256)"
  proof -
    have "(ucast ?c :: byte) = of_nat (unat ?c)" by simp
    moreover have "(of_nat m :: byte) = of_nat (m mod 256)" for m by (simp add: word_unat_eq_iff unat_of_nat)
    ultimately show ?thesis unfolding c by metis
  qed
  have tk: "take (Suc n) cs = take n cs @ [?b]" using n by (simp add: take_Suc_conv_app_nth)
  have "inc_loop (Suc n) c cs = be_bytes n (be_value (take n cs) + (unat c + unat ?b) div 256) @ drop n (cs[n := ucast ?c])"
    using Suc.IH [of "drop_bit 8 ?c" "cs[n := ucast ?c]"] Suc.prems b by (simp add: Let_def d)
  moreover have "drop n (cs[n := ucast ?c]) = ucast ?c # drop (Suc n) cs" using n by (simp add: drop_update_swap flip: Cons_nth_drop_Suc)
  moreover have e: "be_value (take (Suc n) cs) + unat c = be_value (take n cs) * 256 + (unat c + unat ?b)" by (simp add: tk)
  moreover have "(be_value (take (Suc n) cs) + unat c) div 256 = be_value (take n cs) + (unat c + unat ?b) div 256"
    "(be_value (take (Suc n) cs) + unat c) mod 256 = (unat c + unat ?b) mod 256" unfolding e by simp_all
  ultimately show ?case by (simp add: u)
qed simp

lemma ctr128_inc_eq: "ctr128_inc (be_bytes 16 v) = be_bytes 16 (v + 1)"
proof -
  have "ctr128_inc (be_bytes 16 v) = be_bytes 16 (v mod 256 ^ 16 + 1)"
    by (simp add: ctr128_inc_def inc_loop_eq be_value_be_bytes)
  then show ?thesis by (metis be_bytes_mod mod_add_left_eq)
qed

lemma ctr96_inc_eq: "ctr96_inc (be_bytes 12 v @ t) = be_bytes 12 (v + 1) @ t"
proof -
  have "ctr96_inc (be_bytes 12 v @ t) = be_bytes 12 (v mod 256 ^ 12 + 1) @ t"
    by (simp add: ctr96_inc_def inc_loop_eq be_value_be_bytes)
  then show ?thesis by (metis be_bytes_mod mod_add_left_eq)
qed

lemma be_bytes_16: "be_bytes 16 v = be_bytes 12 (v div 2 ^ 32) @ be_bytes 4 (v mod 2 ^ 32)"
proof -
  have "be_bytes (12 + 4) v = be_bytes 12 (v div 256 ^ 4) @ be_bytes 4 v" by (rule be_bytes_append)
  moreover have "be_bytes 4 v = be_bytes 4 (v mod 256 ^ 4)" by (rule be_bytes_mod [symmetric])
  ultimately show ?thesis by simp
qed

lemma be_bytes_16_add: "v mod 2 ^ 32 + i < 2 ^ 32 \<Longrightarrow> be_bytes 16 (v + i) = be_bytes 12 (v div 2 ^ 32) @ be_bytes 4 (v mod 2 ^ 32 + i)"
proof -
  assume lt: "v mod 2 ^ 32 + i < 2 ^ 32"
  have "v + i = 2 ^ 32 * (v div 2 ^ 32) + (v mod 2 ^ 32 + i)" using mult_div_mod_eq [of "2 ^ 32" v] by linarith
  then have "(v + i) div 2 ^ 32 = v div 2 ^ 32" "(v + i) mod 2 ^ 32 = v mod 2 ^ 32 + i" using lt
    by (metis div_less div_mult_self4 add_0_right zero_neq_numeral power_not_zero, metis mod_less mod_mult_self4)
  then show ?thesis unfolding be_bytes_16 [of "v + i"] by simp
qed

lemma unat_uint_of_nat: "unat (of_nat m :: uint) = m mod 2 ^ 32"
  by (simp add: unsigned_of_nat take_bit_eq_mod)

lemma ctr32_store_eq:
  assumes "0 < k" "v mod 2 ^ 32 + k \<le> 2 ^ 32"
  shows "ctr32_store (be_bytes 16 v) (of_nat (v mod 2 ^ 32 + k)) = be_bytes 16 (v + k)"
proof -
  let ?hi = "v div 2 ^ 32" and ?s = "v mod 2 ^ 32 + k"
  have put: "PUTU32 (be_bytes 16 v) 12 c = be_bytes 12 ?hi @ be_bytes 4 (unat c)" for c
    unfolding PUTU32_def be_bytes_16 [of v] by (simp add: patch_def)
  show ?thesis
  proof (cases "?s < 2 ^ 32")
    case True
    then have u: "unat (of_nat ?s :: uint) = ?s" unfolding unat_uint_of_nat by (rule mod_less)
    then have "(of_nat ?s :: uint) \<noteq> 0" using assms(1) by (metis add_is_0 neq0_conv unsigned_0)
    then show ?thesis unfolding ctr32_store_def Let_def put u using be_bytes_16_add [OF True] by (simp only: if_False)
  next
    case False
    then have s: "?s = 2 ^ 32" using assms(2) by simp
    have z: "(of_nat ?s :: uint) = 0" unfolding s by simp
    have "v + k = 2 ^ 32 * (?hi + 1)" using s mult_div_mod_eq [of "2 ^ 32" v] unfolding distrib_left mult_1_right by linarith
    then have "be_bytes 16 (v + k) = be_bytes 12 (?hi + 1) @ be_bytes 4 0" unfolding be_bytes_16 [of "v + k"] by simp
    then show ?thesis unfolding ctr32_store_def Let_def put z by (simp add: ctr96_inc_eq)
  qed
qed

lemma ctr32_limit_eq:
  assumes lo: "lo < 2 ^ 32" and len: "16 \<le> len"
  obtains k where "ctr32_limit (of_nat lo) len = (k, of_nat (lo + k))" "0 < k" "16 * k \<le> len" "lo + k \<le> 2 ^ 32"
proof -
  define b where "b = (if len div 16 > 2 ^ 28 then 2 ^ 28 else len div 16)"
  have b: "0 < b" "b \<le> 2 ^ 28" "16 * b \<le> len" using len by (auto simp: b_def div_greater_zero_iff)
  have sum: "of_nat lo + of_nat b = (of_nat (lo + b) :: uint)" by simp
  have u: "unat (of_nat (lo + b) :: uint) = (lo + b) mod 2 ^ 32" by (rule unat_uint_of_nat)
  show thesis
  proof (cases "lo + b < 2 ^ 32")
    case True
    then have "ctr32_limit (of_nat lo) len = (b, of_nat (lo + b))" unfolding ctr32_limit_def Let_def b_def [symmetric] sum u by simp
    then show thesis using that b True by simp
  next
    case False
    then have m: "(lo + b) mod 2 ^ 32 = lo + b - 2 ^ 32" using lo b by (simp add: mod_if)
    define k where "k = 2 ^ 32 - lo"
    have k: "0 < k" "lo + k = 2 ^ 32" "k \<le> b" "b - (lo + b - 2 ^ 32) = k" using lo False by (auto simp: k_def)
    have z: "(of_nat (lo + k) :: uint) = 0" unfolding k(2) by simp
    have "lo + b - 2 ^ 32 < b" using lo False by simp
    then have "ctr32_limit (of_nat lo) len = (k, of_nat (lo + k))" unfolding ctr32_limit_def Let_def b_def [symmetric] sum u m k(4) z by simp
    then show thesis using that [of k] k b by simp
  qed
qed

subsection \<open>The 32-bit counter\<close>

text \<open>What a routine with a 32-bit counter does for consecutive blocks: \<open>hi\<close> stays, \<open>lo\<close> counts.\<close>

function ctr32_ref :: "(byte list \<Rightarrow> byte list) \<Rightarrow> byte list \<Rightarrow> nat \<Rightarrow> byte list \<Rightarrow> byte list" where
  "ctr32_ref block hi lo inp =
     (if 16 \<le> length inp then xor_bytes (take 16 inp) (block (hi @ be_bytes 4 lo)) @ ctr32_ref block hi (lo + 1) (drop 16 inp) else [])"
  by pat_completeness auto
termination by (relation "measure (\<lambda>(block, hi, lo, inp). length inp)") auto

declare ctr32_ref.simps [simp del]

definition counts_in_32_bits :: "(byte list \<Rightarrow> byte list) \<Rightarrow> (byte list \<Rightarrow> nat \<Rightarrow> byte list \<Rightarrow> byte list) \<Rightarrow> bool" where
  "counts_in_32_bits block func \<longleftrightarrow>
     (\<forall>inp n iv. length iv = 16 \<and> length inp = 16 * n \<and> be_value (drop 12 iv) + n \<le> 2 ^ 32 \<longrightarrow>
        func inp n iv = ctr32_ref block (take 12 iv) (be_value (drop 12 iv)) inp)"

lemma run_bytes_ctr: "n + length bs \<le> length (snd st) \<Longrightarrow> run_bytes ctr_step st n bs = (st, n + length bs, xor_bytes bs (drop n (snd st)))"
proof (induction bs arbitrary: n)
  case (Cons b bs)
  then have "drop n (snd st) = snd st ! n # drop (Suc n) (snd st)" by (simp add: Cons_nth_drop_Suc)
  then show ?case using Cons by (simp add: ctr_step_def)
qed simp

lemma ctr_block_step:
  assumes "length b = 16" "on_blocks 16 block" "length iv = 16"
  shows "block_loop (ctr_refill block) ctr_step (iv, e) (b @ x) =
    (let (st, rest, out) = block_loop (ctr_refill block) ctr_step (ctr128_inc iv, block iv) x in (st, rest, xor_bytes b (block iv) @ out))"
  using assms run_bytes_ctr [of 0 b "(ctr128_inc iv, block iv)"]
  by (subst block_loop.simps) (simp add: ctr_refill_def)

lemma ctr_blocks_in_32_bits:
  assumes "on_blocks 16 block"
  shows "length x = 16 * k \<Longrightarrow> v mod 2 ^ 32 + k \<le> 2 ^ 32 \<Longrightarrow>
    \<exists>e'. block_loop (ctr_refill block) ctr_step (be_bytes 16 v, e) (x @ y) =
      (let (st, rest, out) = block_loop (ctr_refill block) ctr_step (be_bytes 16 (v + k), e') y
       in (st, rest, ctr32_ref block (be_bytes 12 (v div 2 ^ 32)) (v mod 2 ^ 32) x @ out))"
proof (induction k arbitrary: x v e)
  case 0
  then show ?case by (intro exI [of _ e]) (simp add: ctr32_ref.simps [of _ _ _ "[]"] split_beta)
next
  case (Suc k)
  let ?b = "take 16 x" and ?r = "drop 16 x"
  have b: "length ?b = 16" "length ?r = 16 * k" using Suc.prems(1) by simp_all
  have lt: "v mod 2 ^ 32 + 0 < 2 ^ 32" using Suc.prems(2) by simp
  obtain e' where ih: "block_loop (ctr_refill block) ctr_step (be_bytes 16 (v + 1), block (be_bytes 16 v)) (?r @ y) =
      (let (st, rest, out) = block_loop (ctr_refill block) ctr_step (be_bytes 16 (v + 1 + k), e') y
       in (st, rest, ctr32_ref block (be_bytes 12 (v div 2 ^ 32)) (v mod 2 ^ 32 + 1) ?r @ out))"
  proof (cases "k = 0")
    case True
    then have "?r = []" using b(2) by simp
    then show thesis using that [of "block (be_bytes 16 v)"] True by (simp add: ctr32_ref.simps [of _ _ _ "[]"] split_beta)
  next
    case False
    then have "v mod 2 ^ 32 + 1 < 2 ^ 32" using Suc.prems(2) by simp
    then have m: "(v + 1) mod 2 ^ 32 = v mod 2 ^ 32 + 1" "(v + 1) div 2 ^ 32 = v div 2 ^ 32"
      by (simp_all add: mod_Suc div_Suc)
    then have "(v + 1) mod 2 ^ 32 + k \<le> 2 ^ 32" using Suc.prems(2) by simp
    from Suc.IH [OF b(2) this, of "block (be_bytes 16 v)"] that show thesis unfolding m by blast
  qed
  have first: "be_bytes 16 v = be_bytes 12 (v div 2 ^ 32) @ be_bytes 4 (v mod 2 ^ 32)" by (rule be_bytes_16)
  have "block_loop (ctr_refill block) ctr_step (be_bytes 16 v, e) (?b @ ?r @ y) =
      (let (st, rest, out) = block_loop (ctr_refill block) ctr_step (be_bytes 16 (v + Suc k), e') y
       in (st, rest, xor_bytes ?b (block (be_bytes 16 v)) @ ctr32_ref block (be_bytes 12 (v div 2 ^ 32)) (v mod 2 ^ 32 + 1) ?r @ out))"
    using ctr_block_step [OF b(1) assms, of "be_bytes 16 v" e "?r @ y"] ih by (simp add: ctr128_inc_eq split_beta)
  moreover have "ctr32_ref block (be_bytes 12 (v div 2 ^ 32)) (v mod 2 ^ 32) x =
      xor_bytes ?b (block (be_bytes 16 v)) @ ctr32_ref block (be_bytes 12 (v div 2 ^ 32)) (v mod 2 ^ 32 + 1) ?r"
    using Suc.prems(1) unfolding first ctr32_ref.simps [of block "be_bytes 12 (v div 2 ^ 32)" "v mod 2 ^ 32" x] by simp
  ultimately show ?case by (intro exI [of _ e']) (simp add: Let_def split_beta flip: append_assoc)
qed

lemma ctr32_blocks_eq:
  assumes blk: "on_blocks 16 block" and func: "counts_in_32_bits block func"
  shows "\<exists>v' e' rest out. ctr32_blocks func (be_bytes 16 v) (of_nat (v mod 2 ^ 32)) inp = (be_bytes 16 v', of_nat (v' mod 2 ^ 32), rest, out)
    \<and> block_loop (ctr_refill block) ctr_step (be_bytes 16 v, e) inp = ((be_bytes 16 v', e'), rest, out)"
proof (induction "length inp" arbitrary: inp v e rule: less_induct)
  case less
  show ?case
  proof (cases "16 \<le> length inp")
    case False
    then show ?thesis by (auto simp: ctr32_blocks.simps [of func _ _ inp] block_loop.simps [of _ _ _ inp])
  next
    case True
    obtain k where k: "ctr32_limit (of_nat (v mod 2 ^ 32)) (length inp) = (k, of_nat (v mod 2 ^ 32 + k))" "0 < k" "16 * k \<le> length inp" "v mod 2 ^ 32 + k \<le> 2 ^ 32"
      using ctr32_limit_eq [of "v mod 2 ^ 32" "length inp"] True by (metis mod_less_divisor zero_less_numeral zero_less_power)
    let ?x = "take (k * 16) inp" and ?y = "drop (k * 16) inp"
    have x: "length ?x = 16 * k" using k(3) by simp
    have iv: "take 12 (be_bytes 16 v) = be_bytes 12 (v div 2 ^ 32)" "be_value (drop 12 (be_bytes 16 v)) = v mod 2 ^ 32"
      unfolding be_bytes_16 by (simp_all add: be_value_be_bytes)
    have f: "func ?x k (be_bytes 16 v) = ctr32_ref block (be_bytes 12 (v div 2 ^ 32)) (v mod 2 ^ 32) ?x"
      using func x k(4) iv unfolding counts_in_32_bits_def by simp
    have c: "(of_nat (v mod 2 ^ 32 + k) :: uint) = of_nat ((v + k) mod 2 ^ 32)" by (simp add: word_unat_eq_iff unat_uint_of_nat mod_add_left_eq del: of_nat_add)
    have st: "ctr32_store (be_bytes 16 v) (of_nat ((v + k) mod 2 ^ 32)) = be_bytes 16 (v + k)"
      unfolding c [symmetric] by (rule ctr32_store_eq [OF k(2,4)])
    obtain e1 where e1: "block_loop (ctr_refill block) ctr_step (be_bytes 16 v, e) (?x @ ?y) =
        (let (st, rest, out) = block_loop (ctr_refill block) ctr_step (be_bytes 16 (v + k), e1) ?y
         in (st, rest, ctr32_ref block (be_bytes 12 (v div 2 ^ 32)) (v mod 2 ^ 32) ?x @ out))"
      using ctr_blocks_in_32_bits [OF blk x k(4), of e ?y] by blast
    have "length ?y < length inp" using k(2) True by simp
    then obtain v' e' rest out where ih: "ctr32_blocks func (be_bytes 16 (v + k)) (of_nat ((v + k) mod 2 ^ 32)) ?y = (be_bytes 16 v', of_nat (v' mod 2 ^ 32), rest, out)"
      "block_loop (ctr_refill block) ctr_step (be_bytes 16 (v + k), e1) ?y = ((be_bytes 16 v', e'), rest, out)"
      using less.hyps [of ?y "v + k" e1] by blast
    have "block_loop (ctr_refill block) ctr_step (be_bytes 16 v, e) inp =
        ((be_bytes 16 v', e'), rest, ctr32_ref block (be_bytes 12 (v div 2 ^ 32)) (v mod 2 ^ 32) ?x @ out)"
      using e1 ih(2) unfolding append_take_drop_id by simp
    moreover have "ctr32_blocks func (be_bytes 16 v) (of_nat (v mod 2 ^ 32)) inp =
        (be_bytes 16 v', of_nat (v' mod 2 ^ 32), rest, ctr32_ref block (be_bytes 12 (v div 2 ^ 32)) (v mod 2 ^ 32) ?x @ out)"
      unfolding ctr32_blocks.simps [of func "be_bytes 16 v" _ inp] k(1) Let_def prod.case f st c ih(1) using True by (simp only: if_True)
    ultimately show ?thesis by blast
  qed
qed

lemma ctr_step_fst: "fst (ctr_step st n b) = st"
  by (simp add: ctr_step_def)

lemma head_loop_ctr:
  "head_loop ctr_step st n inp = Ret r \<Longrightarrow> fst r = st"
proof (induction inp arbitrary: n r)
  case (Cons b bs)
  then show ?case
    by (subst (asm) (2) head_loop.simps) (fastforce simp: ctr_step_fst Let_def obind_Ret_eq_Ret case_prod_unfold split: if_splits)
qed (simp add: head_loop.simps)

text \<open>The two counter modes agree, apart from a buffered block of which nothing is left.\<close>

lemma ctr32_agrees:
  assumes blk: "on_blocks 16 block" and func: "counts_in_32_bits block func" and iv: "length ivec = 16" and n: "num < 16"
  shows "\<exists>ivec' e1 e2 n out. CRYPTO_ctr128_encrypt_ctr32 func (ivec, ebuf) num inp = Ret ((ivec', e1), n, out)
    \<and> CRYPTO_ctr128_encrypt block (ivec, ebuf) num inp = Ret ((ivec', e2), n, out) \<and> (n \<noteq> 0 \<longrightarrow> e1 = e2)"
proof -
  obtain r where h0: "head_loop ctr_step (ivec, ebuf) num inp = Ret r"
    using byte_loop_total [OF n, of "ctr_refill block" ctr_step "(ivec, ebuf)" inp] byte_loop_head [of "ctr_refill block" ctr_step "(ivec, ebuf)" num inp]
    by (cases "head_loop ctr_step (ivec, ebuf) num inp") auto
  then obtain n1 rest o1 where h: "head_loop ctr_step (ivec, ebuf) num inp = Ret ((ivec, ebuf), n1, rest, o1)"
    using head_loop_ctr [OF h0] by (cases r) auto
  define v where "v = be_value ivec"
  define lo :: "nat \<Rightarrow> uint" where "lo = (\<lambda>v. of_nat (v mod 2 ^ 32))"
  have ivec: "ivec = be_bytes 16 v" using be_bytes_be_value [of ivec] iv by (simp add: v_def)
  have get: "GETU32 (drop 12 ivec) = lo v"
    unfolding GETU32_def ivec be_bytes_16 lo_def by (simp add: be_value_be_bytes)
  obtain v' e' rest2 o2 where b: "ctr32_blocks func ivec (lo v) rest = (be_bytes 16 v', lo v', rest2, o2)"
    "block_loop (ctr_refill block) ctr_step (ivec, ebuf) rest = ((be_bytes 16 v', e'), rest2, o2)"
    using ctr32_blocks_eq [OF blk func, of v rest ebuf] unfolding ivec lo_def by blast
  show ?thesis
  proof (cases "rest2 = []")
    case True
    have "n1 \<noteq> 0 \<Longrightarrow> e' = ebuf" using head_loop_result [OF h] b(2) by (auto simp: block_loop.simps [of _ _ _ "[]"])
    then show ?thesis using True by (simp add: CRYPTO_ctr128_encrypt_ctr32_def CRYPTO_ctr128_encrypt_def by_blocks_def h get b)
  next
    case False
    have lt: "length rest2 < 16" using byte_loop_blocks [OF b(2)] by simp
    have "rest \<noteq> []" using False b(2) by (auto simp: block_loop.simps [of _ _ _ "[]"])
    then have n1: "n1 = 0" using head_loop_result [OF h] by simp
    have f: "func (replicate 16 0) 1 (be_bytes 16 v') = block (be_bytes 16 v')"
    proof -
      have "v' mod 2 ^ 32 + 1 \<le> 2 ^ 32" by (simp add: Suc_le_eq)
      then have "func (replicate 16 0) 1 (be_bytes 16 v') = ctr32_ref block (take 12 (be_bytes 16 v')) (be_value (drop 12 (be_bytes 16 v'))) (replicate 16 0)"
        using func unfolding counts_in_32_bits_def be_bytes_16 by (simp add: be_value_be_bytes)
      also have "\<dots> = xor_bytes (replicate 16 0) (block (be_bytes 16 v'))"
        unfolding be_bytes_16 by (subst ctr32_ref.simps) (simp add: be_value_be_bytes ctr32_ref.simps [of _ _ _ "[]"])
      also have "\<dots> = block (be_bytes 16 v')" using blk by (intro nth_equalityI) simp_all
      finally show ?thesis .
    qed
    have st: "ctr32_store (be_bytes 16 v') (lo v' + 1) = ctr128_inc (be_bytes 16 v')"
      using ctr32_store_eq [of 1 v'] by (simp add: ctr128_inc_eq Suc_le_eq add.commute lo_def)
    show ?thesis
      using False n1 run_bytes_ctr [of 0 rest2 "(ctr128_inc (be_bytes 16 v'), block (be_bytes 16 v'))"] lt blk
      by (simp add: CRYPTO_ctr128_encrypt_ctr32_def CRYPTO_ctr128_encrypt_def by_blocks_def h get b f [unfolded One_nat_def] st ctr_refill_def)
  qed
qed

end
