(* ===== verification/Stream_Cipher.thy ===== *)
theory Stream_Cipher
  imports Stream_Modes EVP_Cipher
begin

text \<open>
  What the stream modes give an application: a message can be cut anywhere, decryption undoes encryption, and the fast counter mode
  is the plain one. Two cases where the code goes wrong are stated as well.
\<close>

section \<open>Decryption undoes encryption\<close>

text \<open>Two steps that leave the same state behind, the second giving back the byte the first one took.\<close>

lemma byte_loop_inverse:
  assumes inv: "\<And>st n b. dstep st n (snd (estep st n b)) = (fst (estep st n b), b)"
  shows "byte_loop refill estep st n inp = Ret (st', n', out) \<Longrightarrow> byte_loop refill dstep st n out = Ret (st', n', inp)"
proof (induction inp arbitrary: st n out)
  case (Cons b bs)
  let ?st = "if n = 0 then refill st else st"
  obtain st1 o1 where e: "estep ?st n b = (st1, o1)" by fastforce
  then have d: "dstep ?st n o1 = (st1, b)" using inv [of ?st n b] by simp
  obtain outs where r: "\<not> 16 \<le> n" "byte_loop refill estep st1 (Suc n mod 16) bs = Ret (st', n', outs)" "out = o1 # outs"
    using Cons.prems e by (auto simp: Let_def obind_Ret_eq_Ret split: if_splits)
  then show ?case using Cons.IH [OF r(2)] d by (simp add: Let_def)
qed simp

lemma cfb_step_inverse: "cfb_step False iv n (snd (cfb_step True iv n b)) = (fst (cfb_step True iv n b), b)"
  by (simp add: cfb_step_def flip: xor.assoc)

section \<open>The buffered block\<close>

text \<open>With no byte of the buffered block left, its contents do not matter.\<close>

lemma ctr_fresh_block:
  assumes "num < 16" "num \<noteq> 0 \<Longrightarrow> e = e'"
  shows "\<exists>iv1 e1 e2 n out. CRYPTO_ctr128_encrypt block (iv, e) num inp = Ret ((iv1, e1), n, out)
    \<and> CRYPTO_ctr128_encrypt block (iv, e') num inp = Ret ((iv1, e2), n, out) \<and> n < 16 \<and> (n \<noteq> 0 \<longrightarrow> e1 = e2)"
proof -
  have t: "\<exists>st out. CRYPTO_ctr128_encrypt block (iv, e) num inp = Ret (st, (num + length inp) mod 16, out)"
    using byte_loop_total [OF assms(1), of "ctr_refill block" ctr_step "(iv, e)" inp] by (auto simp: CRYPTO_ctr128_encrypt_def by_blocks_eq)
  show ?thesis
  proof (cases "inp = [] \<or> num \<noteq> 0")
    case True
    then show ?thesis using t assms by (auto simp: CRYPTO_ctr128_encrypt_def by_blocks_eq)
  next
    case False
    then obtain b bs where "inp = b # bs" "num = 0" by (cases inp) auto
    then have "CRYPTO_ctr128_encrypt block (iv, e') num inp = CRYPTO_ctr128_encrypt block (iv, e) num inp"
      by (simp add: CRYPTO_ctr128_encrypt_def by_blocks_eq ctr_refill_def)
    then show ?thesis using t by fastforce
  qed
qed

text \<open>A context that uses a routine with a 32-bit counter and one that uses the block function, in the same state.\<close>

definition ctr_agree :: "(byte list \<Rightarrow> nat \<Rightarrow> byte list \<Rightarrow> byte list) \<Rightarrow> PROV_CIPHER_CTX \<Rightarrow> PROV_CIPHER_CTX \<Rightarrow> bool" where
  "ctr_agree func c c' \<longleftrightarrow> stream_ctr c = Some func \<and> stream_ctr c' = None \<and> ctx_block c' = ctx_block c \<and> ctx_iv c' = ctx_iv c
     \<and> ctx_num c' = ctx_num c \<and> (ctx_num c \<noteq> 0 \<longrightarrow> ctx_buf c' = ctx_buf c)
     \<and> num_ok c \<and> length (ctx_iv c) = 16 \<and> on_blocks 16 (ctx_block c) \<and> counts_in_32_bits (ctx_block c) func"

lemma length_ctr_iv:
  "byte_loop (ctr_refill block) ctr_step st n inp = Ret (st', n', out) \<Longrightarrow> length (fst st) = 16 \<Longrightarrow> length (fst st') = 16"
proof (induction inp arbitrary: st n out)
  case (Cons b bs)
  let ?st = "if n = 0 then ctr_refill block st else st"
  have "length (ctr128_inc (fst st)) = 16" using Cons.prems(2) by (simp add: ctr128_inc_def inc_loop_eq)
  then have "length (fst ?st) = 16" using Cons.prems(2) by (simp add: ctr_refill_def)
  moreover obtain o1 where "ctr_step ?st n b = (?st, o1)" by (metis ctr_step_fst prod.collapse)
  then obtain outs where "byte_loop (ctr_refill block) ctr_step ?st (Suc n mod 16) bs = Ret (st', n', outs)"
    using Cons.prems(1) by (auto simp: Let_def obind_Ret_eq_Ret split: if_splits)
  ultimately show ?case using Cons.IH by blast
qed simp

lemma ctr_agree_step:
  assumes a: "ctr_agree func c c'"
  shows "\<exists>c1 c2 out. ossl_cipher_hw_generic_ctr same c d = Ret (True, c1, out) \<and> ossl_cipher_hw_generic_ctr same c' d = Ret (True, c2, out)
    \<and> ctr_agree func c1 c2"
proof -
  have c: "stream_ctr c = Some func" "stream_ctr c' = None" "ctx_block c' = ctx_block c" "ctx_iv c' = ctx_iv c" "ctx_num c' = ctx_num c"
    "unat (ctx_num c) \<noteq> 0 \<Longrightarrow> ctx_buf c = ctx_buf c'" "num_ok c" "length (ctx_iv c) = 16" "on_blocks 16 (ctx_block c)" "counts_in_32_bits (ctx_block c) func"
    using a by (auto simp: ctr_agree_def)
  obtain iv e1 e2 n out where x: "CRYPTO_ctr128_encrypt_ctr32 func (ctx_iv c, ctx_buf c) (unat (ctx_num c)) d = Ret ((iv, e1), n, out)"
    "CRYPTO_ctr128_encrypt (ctx_block c) (ctx_iv c, ctx_buf c) (unat (ctx_num c)) d = Ret ((iv, e2), n, out)" "n \<noteq> 0 \<Longrightarrow> e1 = e2"
    using ctr32_agrees [OF c(9,10,8,7), of "ctx_buf c" d] by blast
  obtain e3 where y: "CRYPTO_ctr128_encrypt (ctx_block c) (ctx_iv c, ctx_buf c') (unat (ctx_num c)) d = Ret ((iv, e3), n, out)" "n < 16" "n \<noteq> 0 \<Longrightarrow> e2 = e3"
    using ctr_fresh_block [OF c(7), of "ctx_buf c" "ctx_buf c'" "ctx_block c" "ctx_iv c" d] c(6) x(2) by auto
  have iv: "length iv = 16" using length_ctr_iv [OF x(2) [unfolded CRYPTO_ctr128_encrypt_def by_blocks_eq]] c(8) by simp
  have n: "unat (of_nat n :: uint) = n" using y(2) by (simp add: unsigned_of_nat take_bit_nat_eq_self)
  have n0: "(of_nat n :: uint) = 0 \<longleftrightarrow> n = 0"
  proof
    assume "(of_nat n :: uint) = 0"
    with n show "n = 0" by (simp only: unsigned_0)
  qed simp
  let ?c1 = "c\<lparr>ctx_iv := iv, ctx_buf := e1, ctx_num := of_nat n\<rparr>" and ?c2 = "c'\<lparr>ctx_iv := iv, ctx_buf := e3, ctx_num := of_nat n\<rparr>"
  have "ctr_agree func ?c1 ?c2" using c y(2,3) x(3) iv n n0 by (auto simp: ctr_agree_def)
  moreover have "ossl_cipher_hw_generic_ctr same c d = Ret (True, ?c1, out)" "ossl_cipher_hw_generic_ctr same c' d = Ret (True, ?c2, out)"
    using c x(1) y(1) by (simp_all add: ossl_cipher_hw_generic_ctr_def)
  ultimately show ?thesis by blast
qed

lemma ctr_agree_pieces:
  "ctr_agree func c c' \<Longrightarrow> \<exists>c1 c2 out. run_pieces (ossl_cipher_hw_generic_ctr same) c ds = Ret (True, c1, out)
     \<and> run_pieces (ossl_cipher_hw_generic_ctr same) c' ds = Ret (True, c2, out) \<and> ctr_agree func c1 c2"
proof (induction ds arbitrary: c c')
  case (Cons d ds)
  obtain c1 c2 o1 where 1: "ossl_cipher_hw_generic_ctr same c d = Ret (True, c1, o1)" "ossl_cipher_hw_generic_ctr same c' d = Ret (True, c2, o1)" "ctr_agree func c1 c2"
    using ctr_agree_step [OF Cons.prems] by blast
  then show ?case using Cons.IH [OF 1(3)] by fastforce
qed simp

lemma sint_of_small: "unat x < 2 ^ 31 \<Longrightarrow> sint x = int (unat x)" for x :: uint
proof -
  assume x: "unat x < 2 ^ 31"
  have "sint (of_nat m :: uint) = int m" if "m < 2 ^ 31" for m
  proof -
    have "signed_take_bit 31 (int m) = int m" using that by (intro signed_take_bit_int_eq_self) simp_all
    then show ?thesis by (simp add: signed_of_nat)
  qed
  from this [OF x] show ?thesis by simp
qed

section \<open>Properties\<close>

text \<open>
  A message that goes through a stream mode in pieces gives the same bytes and the same final context as in one piece, for cipher
  feedback, output feedback and counter mode, whatever the position in the block at the start.
\<close>

theorem stream_modes_ignore_cuts:
  assumes "num_ok c" "stream_ctr c = None"
  shows "run_pieces (ossl_cipher_hw_generic_cfb128 same) c ds = ossl_cipher_hw_generic_cfb128 same c (concat ds)
    \<and> run_pieces (ossl_cipher_hw_generic_ofb128 same) c ds = ossl_cipher_hw_generic_ofb128 same c (concat ds)
    \<and> run_pieces (ossl_cipher_hw_generic_ctr same) c ds = ossl_cipher_hw_generic_ctr same c (concat ds)"
  using assms by (simp add: cfb.run_pieces_concat ofb.run_pieces_concat ctr.run_pieces_concat)

theorem stream_modes_ignore_cuts_witness:
  "run_pieces (ossl_cipher_hw_generic_cfb128 False) (evp_algctx (flip_evp True)) [[1, 2], [3]] = ossl_cipher_hw_generic_cfb128 False (evp_algctx (flip_evp True)) [1, 2, 3]
   \<and> run_pieces (ossl_cipher_hw_generic_ctr False) (evp_algctx (flip_evp True)) [[1, 2], [3]] = ossl_cipher_hw_generic_ctr False (evp_algctx (flip_evp True)) [1, 2, 3]"
proof -
  have "num_ok (evp_algctx (flip_evp True))" "stream_ctr (evp_algctx (flip_evp True)) = None" by (simp_all add: flip_evp_def zero_ctx_def)
  from stream_modes_ignore_cuts [OF this, of False "[[1, 2], [3]]"] show ?thesis by simp
qed

text \<open>
  What is encrypted with cipher feedback, in any pieces, decrypts to the message in any other pieces, and the two contexts stay in
  step.
\<close>

theorem cfb_message_roundtrip:
  assumes "num_ok c"
  shows "\<exists>c1 ct. run_pieces (ossl_cipher_hw_generic_cfb128 same) (c\<lparr>ctx_enc := True\<rparr>) ds = Ret (True, c1, ct)
    \<and> (\<forall>es. concat es = ct \<longrightarrow> run_pieces (ossl_cipher_hw_generic_cfb128 same') (c\<lparr>ctx_enc := False\<rparr>) es = Ret (True, c1\<lparr>ctx_enc := False\<rparr>, concat ds))"
proof -
  have ok: "num_ok (c\<lparr>ctx_enc := b\<rparr>)" for b using assms by simp
  obtain st n out where e: "byte_loop (ctx_block c) (cfb_step True) (ctx_iv c) (unat (ctx_num c)) (concat ds) = Ret (st, n, out)"
    using byte_loop_total [OF assms, of "ctx_block c" "cfb_step True" "ctx_iv c" "concat ds"] by blast
  have d: "byte_loop (ctx_block c) (cfb_step False) (ctx_iv c) (unat (ctx_num c)) out = Ret (st, n, concat ds)"
    by (rule byte_loop_inverse [OF cfb_step_inverse e])
  have "run_pieces (ossl_cipher_hw_generic_cfb128 same') (c\<lparr>ctx_enc := False\<rparr>) es = Ret (True, c\<lparr>ctx_enc := False, ctx_iv := st, ctx_num := of_nat n\<rparr>, concat ds)"
    if "concat es = out" for es
    using cfb.run_pieces_concat [OF ok] cfb.run_loop [OF ok] d that by simp
  moreover have "run_pieces (ossl_cipher_hw_generic_cfb128 same) (c\<lparr>ctx_enc := True\<rparr>) ds = Ret (True, c\<lparr>ctx_enc := True, ctx_iv := st, ctx_num := of_nat n\<rparr>, out)"
    using cfb.run_pieces_concat [OF ok] cfb.run_loop [OF ok] e by simp
  ultimately show ?thesis by simp
qed

theorem cfb_message_roundtrip_witness:
  "\<exists>c1 ct. run_pieces (ossl_cipher_hw_generic_cfb128 False) ((evp_algctx (flip_evp True))\<lparr>ctx_enc := True\<rparr>) [[1, 2], [3]] = Ret (True, c1, ct)
     \<and> run_pieces (ossl_cipher_hw_generic_cfb128 True) ((evp_algctx (flip_evp True))\<lparr>ctx_enc := False\<rparr>) [ct] = Ret (True, c1\<lparr>ctx_enc := False\<rparr>, [1, 2, 3])"
proof -
  have "num_ok (evp_algctx (flip_evp True))" by (simp add: flip_evp_def zero_ctx_def)
  from cfb_message_roundtrip [OF this, of False "[[1, 2], [3]]" True] obtain c1 ct where
    "run_pieces (ossl_cipher_hw_generic_cfb128 False) ((evp_algctx (flip_evp True))\<lparr>ctx_enc := True\<rparr>) [[1, 2], [3]] = Ret (True, c1, ct)"
    and d: "\<forall>es. concat es = ct \<longrightarrow> run_pieces (ossl_cipher_hw_generic_cfb128 True) ((evp_algctx (flip_evp True))\<lparr>ctx_enc := False\<rparr>) es =
      Ret (True, c1\<lparr>ctx_enc := False\<rparr>, concat [[1, 2], [3]])" by blast
  moreover have "concat [ct] = ct" "concat [[1, 2], [3]] = [1, 2, 3 :: byte]" by simp_all
  ultimately show ?thesis using spec [OF d, of "[ct]"] by (intro exI conjI) simp_all
qed

text \<open>
  C33: counter mode over a routine that only counts in 32 bits gives the same bytes, for every sequence of calls, as counter mode with
  the block function and the full counter of 128 bits: the overflow of the low part is found, the run of blocks is ended there and
  the carry is passed on.
\<close>

theorem ctr32_is_ctr128:
  assumes "num_ok c" "length (ctx_iv c) = 16" "on_blocks 16 (ctx_block c)" "counts_in_32_bits (ctx_block c) func"
  shows "\<exists>c1 c2 out. run_pieces (ossl_cipher_hw_generic_ctr same) (c\<lparr>stream_ctr := Some func\<rparr>) ds = Ret (True, c1, out)
    \<and> run_pieces (ossl_cipher_hw_generic_ctr same) (c\<lparr>stream_ctr := None\<rparr>) ds = Ret (True, c2, out)
    \<and> ctx_iv c1 = ctx_iv c2 \<and> ctx_num c1 = ctx_num c2"
proof -
  have "ctr_agree func (c\<lparr>stream_ctr := Some func\<rparr>) (c\<lparr>stream_ctr := None\<rparr>)" using assms by (simp add: ctr_agree_def)
  from ctr_agree_pieces [OF this, of same ds] show ?thesis unfolding ctr_agree_def by metis
qed

text \<open>A routine with a 32-bit counter over the block function of the examples; the IV is one block before the overflow.\<close>

definition flip_ctr :: "byte list \<Rightarrow> nat \<Rightarrow> byte list \<Rightarrow> byte list" where
  "flip_ctr inp n iv = ctr32_ref flip_block (take 12 iv) (be_value (drop 12 iv)) inp"

theorem ctr32_is_ctr128_witness:
  "\<exists>c1 c2 out. run_pieces (ossl_cipher_hw_generic_ctr False)
      ((evp_algctx (flip_evp True))\<lparr>ctx_iv := replicate 12 0 @ replicate 4 255, stream_ctr := Some flip_ctr\<rparr>) [replicate 40 1] = Ret (True, c1, out)
    \<and> run_pieces (ossl_cipher_hw_generic_ctr False)
      ((evp_algctx (flip_evp True))\<lparr>ctx_iv := replicate 12 0 @ replicate 4 255, stream_ctr := None\<rparr>) [replicate 40 1] = Ret (True, c2, out)
    \<and> ctx_iv c1 = ctx_iv c2 \<and> ctx_num c1 = ctx_num c2"
proof -
  let ?c = "(evp_algctx (flip_evp True))\<lparr>ctx_iv := replicate 12 0 @ replicate 4 255\<rparr>"
  have "num_ok ?c" "length (ctx_iv ?c) = 16" "on_blocks 16 (ctx_block ?c)" "counts_in_32_bits (ctx_block ?c) flip_ctr"
    using flip_undoes(2) by (simp_all add: flip_evp_def zero_ctx_def counts_in_32_bits_def flip_ctr_def)
  from ctr32_is_ctr128 [OF this, of False "[replicate 40 1]"] show ?thesis by simp
qed

text \<open>
  An application can set the position in the block to any number; the functions for feedback modes use one from 16 up to the
  largest \<open>int\<close> as an index into the 16 bytes of the IV.
\<close>

theorem position_out_of_block:
  assumes "16 \<le> unat (ctx_num c)" "unat (ctx_num c) < 2 ^ 31" "d \<noteq> []"
  shows "ossl_cipher_hw_generic_cfb128 same c d = Undef \<and> ossl_cipher_hw_generic_ofb128 same c d = Undef"
proof -
  have "\<not> sint (ctx_num c) < 0 \<and> nat (sint (ctx_num c)) = unat (ctx_num c)" using sint_of_small [OF assms(2)] by simp
  moreover obtain b bs where "d = b # bs" using assms(3) by (cases d) auto
  ultimately show ?thesis
    using assms(1) by (simp add: ossl_cipher_hw_generic_cfb128_def CRYPTO_cfb128_encrypt_def ossl_cipher_hw_generic_ofb128_def CRYPTO_ofb128_encrypt_def
        with_num_def by_blocks_eq)
qed

theorem position_out_of_block_witness:
  "ossl_cipher_hw_generic_cfb128 False ((evp_algctx (flip_evp True))\<lparr>ctx_num := 16\<rparr>) [1] = Undef"
  using position_out_of_block [of "(evp_algctx (flip_evp True))\<lparr>ctx_num := 16\<rparr>" "[1]"] by simp

text \<open>
  C39: for an input longer than one chunk of \<open>MAXCHUNK\<close> bytes and shorter than two, the function that is meant to process cipher feedback in chunks
  processes the whole input and then once more the part behind the first chunk (when input and output are the same buffer: the part of its own output there), from the state the first pass
  ended in. The result is the first chunk of the first pass followed by the second pass, and the position in the block has advanced by the second pass too, so that it differs from
  the position after one call unless the part processed twice is a multiple of 16 bytes long.
\<close>

theorem chunked_cfb_repeats:
  assumes n: "num_ok c" and d: "MAXCHUNK < length d" "length d < 2 * MAXCHUNK"
  shows "\<exists>c1 o1 c2 o2. ossl_cipher_hw_generic_cfb128 same c d = Ret (True, c1, o1) \<and> unat (ctx_num c1) = (unat (ctx_num c) + length d) mod 16
    \<and> ossl_cipher_hw_generic_cfb128 same c1 (drop MAXCHUNK (if same then o1 else d)) = Ret (True, c2, o2)
    \<and> ossl_cipher_hw_chunked_cfb128 same c d = Ret (True, c2, take MAXCHUNK o1 @ o2)
    \<and> unat (ctx_num c2) = (unat (ctx_num c) + length d + (length d - MAXCHUNK)) mod 16
    \<and> (ctx_num c2 = ctx_num c1 \<longleftrightarrow> 16 dvd length d - MAXCHUNK)"
proof -
  have call: "\<exists>c' out. ossl_cipher_hw_generic_cfb128 same c x = Ret (True, c', out) \<and> num_ok c'
      \<and> unat (ctx_num c') = (unat (ctx_num c) + length x) mod 16 \<and> length out = length x" if c: "num_ok c" for c x
  proof -
    obtain st out where "byte_loop (ctx_block c) (cfb_step (ctx_enc c)) (ctx_iv c) (unat (ctx_num c)) x = Ret (st, (unat (ctx_num c) + length x) mod 16, out)" "length out = length x"
      using byte_loop_total [OF c, of "ctx_block c" "cfb_step (ctx_enc c)" "ctx_iv c" x] by blast
    moreover have "unat (of_nat (m mod 16) :: uint) = m mod 16" for m
      using mod_less_divisor [of 16 m] by (simp add: unsigned_of_nat take_bit_nat_eq_self)
    ultimately show ?thesis using cfb.run_loop [OF c] by simp
  qed
  obtain c1 o1 where 1: "ossl_cipher_hw_generic_cfb128 same c d = Ret (True, c1, o1)" "num_ok c1" "unat (ctx_num c1) = (unat (ctx_num c) + length d) mod 16" "length o1 = length d"
    using call [OF n] by blast
  define r where "r = drop MAXCHUNK (if same then o1 else d)"
  have r: "length r = length d - MAXCHUNK" "0 < length r" "length r < MAXCHUNK" using d 1(4) by (simp_all add: r_def)
  obtain c2 o2 where 2: "ossl_cipher_hw_generic_cfb128 same c1 r = Ret (True, c2, o2)" "unat (ctx_num c2) = (unat (ctx_num c1) + length r) mod 16" "length o2 = length r"
    using call [OF 1(2)] by blast
  have last: "chunked_cfb ossl_cipher_hw_generic_cfb128 same c1 (length r) r = Ret (True, c2, o2)"
    using r 2 by (subst chunked_cfb.simps) (simp add: chunked_cfb.simps [of _ _ _ 0])
  have "ossl_cipher_hw_chunked_cfb128 same c d = Ret (True, c2, take MAXCHUNK o1 @ o2)"
  proof -
    have e: "(if length d < MAXCHUNK then length d else MAXCHUNK) = MAXCHUNK" "(if length r < MAXCHUNK then length r else MAXCHUNK) = length r"
      using d(1) r(3) by simp_all
    have t: "0 < length d \<and> MAXCHUNK \<le> length d \<and> 0 < MAXCHUNK" "length r < length d" using d r(1) by auto
    show ?thesis
      unfolding ossl_cipher_hw_chunked_cfb128_def e chunked_cfb.simps [of _ same c MAXCHUNK d] 1(1) obind.simps prod.case Let_def r_def [symmetric]
      using t by (simp only: e if_True last obind.simps prod.case simp_thms)
  qed
  moreover have p: "unat (ctx_num c2) = (unat (ctx_num c) + length d + (length d - MAXCHUNK)) mod 16"
    unfolding 2(2) 1(3) r(1) by (rule mod_add_left_eq)
  moreover have "ctx_num c2 = ctx_num c1 \<longleftrightarrow> 16 dvd length d - MAXCHUNK"
  proof -
    have m: "(x + y) mod 16 = x mod 16 \<longleftrightarrow> 16 dvd y" for x y :: nat using mod_eq_dvd_iff_nat [of x "x + y" 16] by simp
    have "ctx_num c2 = ctx_num c1 \<longleftrightarrow> unat (ctx_num c2) = unat (ctx_num c1)" by (rule word_unat_eq_iff)
    also have "\<dots> \<longleftrightarrow> (unat (ctx_num c) + length d + (length d - MAXCHUNK)) mod 16 = (unat (ctx_num c) + length d) mod 16" by (simp only: p 1(3))
    also have "\<dots> \<longleftrightarrow> 16 dvd (length d - MAXCHUNK)" by (rule m)
    finally show ?thesis .
  qed
  ultimately show ?thesis using 1 2(1) unfolding r_def by blast
qed

theorem chunked_cfb_repeats_witness:
  "\<exists>c1 o1 c2 o2. ossl_cipher_hw_generic_cfb128 False (evp_algctx (flip_evp True)) (replicate 1073741825 0) = Ret (True, c1, o1) \<and> unat (ctx_num c1) = 1
    \<and> ossl_cipher_hw_generic_cfb128 False c1 [0] = Ret (True, c2, o2)
    \<and> ossl_cipher_hw_chunked_cfb128 False (evp_algctx (flip_evp True)) (replicate 1073741825 0) = Ret (True, c2, take MAXCHUNK o1 @ o2) \<and> unat (ctx_num c2) = 2"
proof -
  have "num_ok (evp_algctx (flip_evp True))" "unat (ctx_num (evp_algctx (flip_evp True))) = 0" by (simp_all add: flip_evp_def zero_ctx_def)
  then show ?thesis using chunked_cfb_repeats [of "evp_algctx (flip_evp True)" "replicate 1073741825 0" False] by (simp add: drop_replicate) blast
qed

end
