(* ===== verification/Bit_Feedback.thy ===== *)
theory Bit_Feedback
  imports Stream_Modes
begin

text \<open>
  Cipher feedback of single bits (\<open>CRYPTO_cfb128_1_encrypt\<close> of \<open>crypto/modes/cfb128.c\<close> and \<open>ossl_cipher_hw_generic_cfb1\<close>), and the
  counter increment in machine words that \<open>crypto/modes/ctr128.c\<close> uses on big-endian machines. The bits of a message are numbered from the
  highest bit of its first byte. The first part is shown to be a transformation of the sequence of bits that decryption undoes, the second
  to be the increment byte by byte.
\<close>

section \<open>The code\<close>

text \<open>
  The loop over the bits: \<open>n\<close> is the bit to be processed and \<open>k\<close> the number of bits left. The function writes into the output object, of which
  it keeps the other bits; \<open>same\<close> says that this is also the object it reads from.
\<close>

fun cfb1_loop :: "bool \<Rightarrow> bool \<Rightarrow> (byte list \<Rightarrow> byte list) \<Rightarrow> byte list \<Rightarrow> byte list \<Rightarrow> nat \<Rightarrow> nat \<Rightarrow> byte list \<Rightarrow> (byte list \<times> byte list) outcome" where
  "cfb1_loop same enc block ivec inp n 0 out = Ret (ivec, out)"
| "cfb1_loop same enc block ivec inp n (Suc k) out =
     (let src = (if same then out else inp) in
      if n div 8 \<ge> length src \<or> n div 8 \<ge> length out then Undef
      else
        let c = (if src ! (n div 8) AND push_bit (7 - n mod 8) 1 \<noteq> 0 then 0x80 else 0) in
        obind (cfbr_encrypt_block enc block ivec 1 [c]) (\<lambda>(ivec, d).
          cfb1_loop same enc block ivec inp (n + 1) k
            (out[n div 8 := (out ! (n div 8) AND NOT (push_bit (7 - n mod 8) 1)) OR drop_bit (n mod 8) (d ! 0 AND 0x80)])))"

definition CRYPTO_cfb128_1_encrypt :: "bool \<Rightarrow> bool \<Rightarrow> (byte list \<Rightarrow> byte list) \<Rightarrow> byte list \<Rightarrow> byte list \<Rightarrow> byte list \<Rightarrow> nat \<Rightarrow> (byte list \<times> byte list) outcome" where
  "CRYPTO_cfb128_1_encrypt same enc block ivec out inp bits = cfb1_loop same enc block ivec inp 0 bits out"

abbreviation MAXBITCHUNK :: nat where "MAXBITCHUNK \<equiv> 2 ^ 60"

function cfb1_chunks :: "bool \<Rightarrow> bool \<Rightarrow> (byte list \<Rightarrow> byte list) \<Rightarrow> byte list \<Rightarrow> byte list \<Rightarrow> byte list \<Rightarrow> nat \<Rightarrow> (byte list \<times> byte list) outcome" where
  "cfb1_chunks same enc block ivec out inp len =
     (if len \<ge> MAXBITCHUNK then
        obind (CRYPTO_cfb128_1_encrypt same enc block ivec out inp (MAXBITCHUNK * 8)) (\<lambda>(ivec, out).
        obind (cfb1_chunks same enc block ivec (drop MAXBITCHUNK out) (drop MAXBITCHUNK inp) (len - MAXBITCHUNK)) (\<lambda>(ivec, outs).
          Ret (ivec, take MAXBITCHUNK out @ outs)))
      else if len \<noteq> 0 then CRYPTO_cfb128_1_encrypt same enc block ivec out inp (len * 8)
      else Ret (ivec, out))"
  by pat_completeness auto
termination by (relation "measure (\<lambda>(same, enc, block, ivec, out, inp, len). len)") auto

declare cfb1_chunks.simps [simp del]

text \<open>With \<open>use_bits\<close> the length is a number of bits, otherwise of bytes.\<close>

definition ossl_cipher_hw_generic_cfb1 :: "bool \<Rightarrow> PROV_CIPHER_CTX \<Rightarrow> byte list \<Rightarrow> byte list \<Rightarrow> nat \<Rightarrow> (bool \<times> PROV_CIPHER_CTX \<times> byte list) outcome" where
  "ossl_cipher_hw_generic_cfb1 same dat out inp len =
     obind (if ctx_use_bits dat then CRYPTO_cfb128_1_encrypt same (ctx_enc dat) (ctx_block dat) (ctx_iv dat) out inp len
            else cfb1_chunks same (ctx_enc dat) (ctx_block dat) (ctx_iv dat) out inp len) (\<lambda>(ivec, out).
       Ret (True, dat\<lparr>ctx_iv := ivec\<rparr>, out))"

text \<open>The counter as two words in the order of a big-endian machine.\<close>

fun inc_words :: "nat \<Rightarrow> ulong \<Rightarrow> ulong list \<Rightarrow> ulong list" where
  "inc_words 0 c data = data"
| "inc_words (Suc n) c data =
     (let d = data ! n + c;
          data = data[n := d];
          c = drop_bit 63 ((d - c) AND NOT d)
      in inc_words n c data)"

definition load_be :: "byte list \<Rightarrow> ulong" where
  "load_be bs = of_nat (be_value bs)"

definition ctr128_inc_aligned :: "bool \<Rightarrow> bool \<Rightarrow> byte list \<Rightarrow> byte list" where
  "ctr128_inc_aligned little_endian aligned counter =
     (if little_endian \<or> \<not> aligned then ctr128_inc counter
      else concat (map (\<lambda>w. be_bytes 8 (unat w)) (inc_words 2 1 [load_be (take 8 counter), load_be (drop 8 counter)])))"

section \<open>The increment in words\<close>

lemma carry_of_add:
  fixes x c :: ulong
  assumes c: "unat c \<le> 1"
  shows "unat (x + c) = (unat x + unat c) mod 2 ^ 64 \<and> unat (drop_bit 63 ((x + c - c) AND NOT (x + c))) = (unat x + unat c) div 2 ^ 64"
proof -
  have "c = 0 \<or> c = 1" using c by (metis le_Suc_eq le_zero_eq One_nat_def unat_eq_zero unat_1 word_unat_eq_iff)
  then show ?thesis
  proof
    assume "c = 0"
    then show ?thesis using unsigned_less [of x, where ?'a = nat] by simp
  next
    assume [simp]: "c = 1"
    have "0 - drop_bit 63 (NOT (x + 1) AND (x + 1 - 1)) = (if x + 1 = 0 then - 1 else 0)"
      using msb_mask [where 'a = 64, unfolded top_bits] tricks_64(2) by metis
    then have "drop_bit 63 ((x + 1 - 1) AND NOT (x + 1)) = (if x + 1 = 0 then 1 else 0)"
      unfolding and.commute [of "x + 1 - 1"] by (simp split: if_splits)
    moreover have "x + 1 = 0 \<longleftrightarrow> unat x + 1 = 2 ^ 64"
    proof -
      have "x + 1 = 0 \<longleftrightarrow> (unat x + 1) mod 2 ^ 64 = 0" by (simp add: word_unat_eq_iff unat_word_ariths(1))
      moreover have "unat x + 1 < 2 ^ 64 \<or> unat x + 1 = 2 ^ 64" using unsigned_less [of x, where ?'a = nat] by auto
      ultimately show ?thesis by (metis mod_less mod_self add_is_0 one_neq_zero)
    qed
    ultimately show ?thesis using unsigned_less [of x, where ?'a = nat] by (auto simp: unat_word_ariths(1))
  qed
qed

lemma be_value_append: "be_value (xs @ ys) = be_value xs * 256 ^ length ys + be_value ys"
proof (induction ys rule: rev_induct)
  case (snoc y ys)
  then show ?case using be_value_snoc [of "xs @ ys" y] by (simp add: algebra_simps)
qed simp

lemma be_bytes_high: "be_bytes (m + n) (l + h * 256 ^ n) = be_bytes m (h + l div 256 ^ n) @ be_bytes n l"
  unfolding be_bytes_append using be_bytes_mod [of n "l + h * 256 ^ n"] be_bytes_mod [of n l] by simp

theorem ctr128_inc_aligned_eq:
  assumes "length counter = 16"
  shows "ctr128_inc_aligned little_endian aligned counter = ctr128_inc counter"
proof -
  let ?hi = "be_value (take 8 counter)" and ?lo = "be_value (drop 8 counter)"
  have b: "?hi < 2 ^ 64" "?lo < 2 ^ 64"
    using be_value_bound [of "take 8 counter"] be_value_bound [of "drop 8 counter"] assms by simp_all
  have u: "unat (load_be (take 8 counter)) = ?hi" "unat (load_be (drop 8 counter)) = ?lo"
    using b by (simp_all add: load_be_def unsigned_of_nat take_bit_nat_eq_self)
  let ?d = "load_be (drop 8 counter) + 1" and ?x = "load_be (take 8 counter)"
  let ?c = "drop_bit 63 ((?d - 1) AND NOT ?d)"
  have lo: "unat ?d = (?lo + 1) mod 2 ^ 64" and c: "unat ?c = (?lo + 1) div 2 ^ 64"
    using carry_of_add [of 1 "load_be (drop 8 counter)"] u by simp_all
  have "unat ?c \<le> 1" unfolding c using b(2) by (simp add: div_le_mono [of "?lo + 1" "2 ^ 64" "2 ^ 64", simplified])
  then have hi: "unat (?x + ?c) = (?hi + (?lo + 1) div 2 ^ 64) mod 2 ^ 64"
    using carry_of_add [of ?c ?x] u c by simp
  have v: "be_value counter + 1 = (?lo + 1) + ?hi * 256 ^ 8"
    using be_value_append [of "take 8 counter" "drop 8 counter"] assms by simp
  have "ctr128_inc counter = be_bytes (8 + 8) (be_value counter + 1)"
    using ctr128_inc_eq [of "be_value counter"] be_bytes_be_value [of counter] assms by simp
  also have "\<dots> = be_bytes 8 (?hi + (?lo + 1) div 256 ^ 8) @ be_bytes 8 (?lo + 1)"
    unfolding v by (rule be_bytes_high)
  also have "\<dots> = be_bytes 8 (unat (?x + ?c)) @ be_bytes 8 (unat ?d)"
    using be_bytes_mod [of 8] unfolding hi lo by simp
  finally show ?thesis by (simp add: ctr128_inc_aligned_def numeral_2_eq_2 Let_def del: be_bytes.simps)
qed

section \<open>Feedback of single bits\<close>

definition bit_at :: "byte list \<Rightarrow> nat \<Rightarrow> bool" where
  "bit_at x n = bit (x ! (n div 8)) (7 - n mod 8)"

definition shift_in :: "byte list \<Rightarrow> bool \<Rightarrow> byte list" where
  "shift_in ivec b = map (\<lambda>n. push_bit 1 ((ivec @ [if b then 0x80 else 0]) ! n) OR drop_bit 7 ((ivec @ [if b then 0x80 else 0]) ! (n + 1))) [0..<16]"

text \<open>The transformation of the sequence of bits: each is combined with the first bit of the encrypted register, into which the ciphertext is shifted.\<close>

fun cfb1_bits :: "bool \<Rightarrow> (byte list \<Rightarrow> byte list) \<Rightarrow> byte list \<Rightarrow> bool list \<Rightarrow> byte list \<times> bool list" where
  "cfb1_bits enc block ivec [] = (ivec, [])"
| "cfb1_bits enc block ivec (b # bs) =
     (let r = (b \<noteq> bit (block ivec ! 0) 7);
          (ivec, rs) = cfb1_bits enc block (shift_in ivec (if enc then r else b)) bs
      in (ivec, r # rs))"

lemma cfb1_bits_inverse: "cfb1_bits True block ivec bs = (iv, rs) \<Longrightarrow> cfb1_bits False block ivec rs = (iv, bs)"
  by (induction bs arbitrary: ivec rs) (auto simp: Let_def split: prod.splits)

lemma cfb1_bits_append:
  "cfb1_bits enc block ivec (xs @ ys) =
     (let (iv, rs) = cfb1_bits enc block ivec xs; (iv', rs') = cfb1_bits enc block iv ys in (iv', rs @ rs'))"
  by (induction xs arbitrary: ivec) (simp_all add: Let_def split: prod.splits)

lemma length_cfb1_bits: "length (snd (cfb1_bits enc block ivec bs)) = length bs"
  by (induction bs arbitrary: ivec) (simp_all add: Let_def split_beta)

lemma length_shift_in [simp]: "length (shift_in ivec b) = 16"
  by (simp add: shift_in_def)

lemma bit_0x80: "bit (0x80 :: byte) n \<longleftrightarrow> n = 7"
proof -
  have "(0x80 :: byte) = 2 ^ 7" by simp
  then have "bit (0x80 :: byte) n \<longleftrightarrow> bit (2 ^ 7 :: byte) n" by metis
  then show ?thesis unfolding bit_exp_iff by auto
qed

lemma byte_top: "(x :: byte) AND 0x80 = (if bit x 7 then 0x80 else 0)"
  by (rule bit_word_eqI) (auto simp: bit_and_iff bit_0x80 simp del: bit_numeral_word_iff)

lemma byte_high: "drop_bit 7 (x :: byte) = drop_bit 7 (if bit x 7 then 0x80 else 0)"
proof (rule bit_word_eqI)
  fix n assume "n < LENGTH(8)"
  have "bit x (7 + n) \<Longrightarrow> n = 0" using bit_imp_le_length [of x "7 + n"] by simp
  then show "bit (drop_bit 7 x) n = bit (drop_bit 7 (if bit x 7 then 0x80 else 0 :: byte)) n"
    by (auto simp: bit_drop_bit_eq bit_0x80 simp del: bit_numeral_word_iff)
qed

lemma cfbr_one_bit:
  assumes "length ivec = 16" "on_blocks 16 block" and c: "c = (if b then 0x80 else 0)"
  shows "\<exists>d. cfbr_encrypt_block enc block ivec 1 [c] = Ret (shift_in ivec (if enc then b \<noteq> bit (block ivec ! 0) 7 else b), [d])
    \<and> bit d 7 = (b \<noteq> bit (block ivec ! 0) 7)"
proof -
  have l: "length (block ivec) = 16" using assms(1,2) on_blocksD by blast
  then obtain k ks where k: "block ivec = k # ks" by (cases "block ivec") auto
  have top: "bit c 7 = b" unfolding c by (simp add: bit_numeral_rec)
  have shift: "map (\<lambda>n. push_bit 1 ((ivec @ [x] @ r) ! n) OR drop_bit 7 ((ivec @ [x] @ r) ! (n + 1))) [0..<16] = shift_in ivec (bit x 7)" for x r
    unfolding shift_in_def using assms(1) byte_high [of x] by (intro map_cong refl) (auto simp: nth_append less_Suc_eq)
  show ?thesis
    using shift [of "if enc then c XOR k else c" "replicate 16 0"] top
    by (intro exI [of _ "c XOR k"]) (auto simp: cfbr_encrypt_block_def k Let_def bit_simps cong: if_cong)
qed

lemma bit_at_update:
  assumes "n div 8 < length out"
  shows "bit_at (out[n div 8 := (out ! (n div 8) AND NOT (push_bit (7 - n mod 8) 1)) OR drop_bit (n mod 8) (d AND 0x80)]) m =
    (if m = n then bit d 7 else bit_at out m)"
proof (cases "m div 8 = n div 8")
  case True
  then have eq: "m = n \<longleftrightarrow> m mod 8 = n mod 8" by (metis div_mult_mod_eq)
  have lt: "n mod 8 < 8" "m mod 8 < 8" by simp_all
  have push: "bit (push_bit (7 - j) 1 :: byte) (7 - k) \<longleftrightarrow> k = j" if "j < 8" "k < 8" for j k
    using that by (auto simp: bit_push_bit_iff bit_1_iff simp del: push_bit_of_1)
  have "bit (drop_bit (n mod 8) (if bit d 7 then 0x80 else 0 :: byte)) (7 - m mod 8) \<longleftrightarrow> bit d 7 \<and> m mod 8 = n mod 8"
    using lt by (auto simp: bit_drop_bit_eq bit_0x80 simp del: bit_numeral_word_iff)
  moreover have "bit (push_bit (7 - n mod 8) 1 :: byte) (7 - m mod 8) \<longleftrightarrow> m mod 8 = n mod 8"
    using push [OF lt] .
  moreover have "7 - m mod 8 < LENGTH(8)" by simp
  ultimately show ?thesis using True assms unfolding byte_top eq
    by (simp add: bit_at_def bit_or_iff bit_and_iff bit_not_iff del: push_bit_of_1)
next
  case False
  then show ?thesis by (auto simp: bit_at_def)
qed

lemma cfb1_loop_eq:
  assumes "length ivec = 16" "on_blocks 16 block" "n + k \<le> 8 * length out" "n + k \<le> 8 * length (if same then out else inp)"
  shows "\<exists>iv rs out'. cfb1_bits enc block ivec (map (bit_at (if same then out else inp)) [n..<n + k]) = (iv, rs)
    \<and> cfb1_loop same enc block ivec inp n k out = Ret (iv, out') \<and> length out' = length out \<and> length iv = 16
    \<and> (\<forall>m. bit_at out' m = (if n \<le> m \<and> m < n + k then rs ! (m - n) else bit_at out m))"
  using assms
proof (induction k arbitrary: ivec n out)
  case (Suc k)
  let ?src = "if same then out else inp"
  have i: "n div 8 < length out" "n div 8 < length ?src" using Suc.prems(3,4) by linarith+
  define b where "b = bit_at ?src n"
  define r where "r = (b \<noteq> bit (block ivec ! 0) 7)"
  define iv1 where "iv1 = shift_in ivec (if enc then r else b)"
  have c: "(if ?src ! (n div 8) AND push_bit (7 - n mod 8) 1 \<noteq> 0 then 0x80 else 0 :: byte) = (if b then 0x80 else 0)"
    unfolding b_def bit_at_def by (simp add: bit_iff_and_push_bit_not_eq_0)
  obtain d where d: "cfbr_encrypt_block enc block ivec 1 [if b then 0x80 else 0] = Ret (iv1, [d])" "bit d 7 = r"
    using cfbr_one_bit [OF Suc.prems(1,2) refl, of enc b] unfolding iv1_def r_def by blast
  define out1 where "out1 = out[n div 8 := (out ! (n div 8) AND NOT (push_bit (7 - n mod 8) 1)) OR drop_bit (n mod 8) (d AND 0x80)]"
  have upd: "bit_at out1 m = (if m = n then r else bit_at out m)" for m
    unfolding out1_def bit_at_update [OF i(1)] d(2) ..
  have l: "length out1 = length out" by (simp add: out1_def)
  let ?src1 = "if same then out1 else inp"
  have pre: "length iv1 = 16" "Suc n + k \<le> 8 * length out1" "Suc n + k \<le> 8 * length ?src1"
    using Suc.prems(3,4) l by (auto simp: iv1_def split: if_splits)
  obtain iv rs out' where IH: "cfb1_bits enc block iv1 (map (bit_at ?src1) [Suc n..<Suc n + k]) = (iv, rs)"
      "cfb1_loop same enc block iv1 inp (Suc n) k out1 = Ret (iv, out')" "length out' = length out1" "length iv = 16"
      "\<forall>m. bit_at out' m = (if Suc n \<le> m \<and> m < Suc n + k then rs ! (m - Suc n) else bit_at out1 m)"
    using Suc.IH [OF pre(1) Suc.prems(2) pre(2,3)] by blast
  have "map (bit_at ?src1) [Suc n..<Suc n + k] = map (bit_at ?src) [Suc n..<Suc n + k]" by (rule map_cong) (auto simp: upd)
  then have tail: "cfb1_bits enc block iv1 (map (bit_at ?src) [Suc n..<Suc n + k]) = (iv, rs)" using IH(1) by (simp only:)
  have "map (bit_at ?src) [n..<n + Suc k] = b # map (bit_at ?src) [Suc n..<Suc n + k]"
    unfolding b_def by (metis add_Suc_right add_Suc less_add_Suc1 list.map(2) upt_conv_Cons)
  then have bits: "cfb1_bits enc block ivec (map (bit_at ?src) [n..<n + Suc k]) = (iv, r # rs)"
    by (simp only: cfb1_bits.simps(2) Let_def r_def [symmetric] iv1_def [symmetric] tail prod.case)
  have inside: "(length ?src \<le> n div 8 \<or> length out \<le> n div 8) = False" using i by auto
  have run: "cfb1_loop same enc block ivec inp n (Suc k) out = Ret (iv, out')"
    unfolding cfb1_loop.simps Let_def c inside d(1)
    by (simp only: if_False obind.simps prod.case nth_Cons_0 out1_def [symmetric] Suc_eq_plus1 [symmetric] IH(2))
  have "\<forall>m. bit_at out' m = (if n \<le> m \<and> m < n + Suc k then (r # rs) ! (m - n) else bit_at out m)"
    using IH(5) by (auto simp: upd nth_Cons' Suc_diff_Suc)
  then show ?case using bits run IH(3,4) l by (intro exI [of _ iv] exI [of _ "r # rs"] exI [of _ out']) (simp only: simp_thms)
qed auto

lemma cfb1_loop_add:
  "cfb1_loop same enc block ivec inp n (j + k) out =
     obind (cfb1_loop same enc block ivec inp n j out) (\<lambda>(ivec, out). cfb1_loop same enc block ivec inp (n + j) k out)"
proof (induction j arbitrary: ivec n out)
  case (Suc j)
  then show ?case by (simp add: Let_def obind_assoc case_prod_unfold)
qed simp

lemma cfb1_loop_shift:
  "c \<le> length out \<Longrightarrow> c \<le> length (if same then out else inp) \<Longrightarrow>
     cfb1_loop same enc block ivec inp (8 * c + n) k out =
       obind (cfb1_loop same enc block ivec (drop c inp) n k (drop c out)) (\<lambda>(ivec, outs). Ret (ivec, take c out @ outs))"
proof (induction k arbitrary: ivec n out)
  case (Suc k)
  let ?src = "if same then out else inp"
  have ix: "(8 * c + n) div 8 = c + n div 8" "(8 * c + n) mod 8 = n mod 8" by simp_all
  have src: "(if same then drop c out else drop c inp) = drop c ?src" by simp
  have le: "length (drop c ?src) \<le> n div 8 \<longleftrightarrow> length ?src \<le> c + n div 8" "length (drop c out) \<le> n div 8 \<longleftrightarrow> length out \<le> c + n div 8"
    using Suc.prems by auto
  have nth: "drop c ?src ! (n div 8) = ?src ! (c + n div 8)" "drop c out ! (n div 8) = out ! (c + n div 8)" using Suc.prems by simp_all
  have upd: "(drop c out)[n div 8 := v] = drop c (out[c + n div 8 := v])" "take c (out[c + n div 8 := v]) = take c out" for v
    by (simp_all add: drop_update_swap)
  have IH: "cfb1_loop same enc block iv inp (Suc (8 * c + n)) k (out[c + n div 8 := v]) =
      obind (cfb1_loop same enc block iv (drop c inp) (Suc n) k (drop c (out[c + n div 8 := v]))) (\<lambda>(ivec, outs). Ret (ivec, take c out @ outs))" for iv v
    using Suc.IH [of "out[c + n div 8 := v]" iv "Suc n"] Suc.prems upd(2) by (auto split: if_splits)
  show ?case
    unfolding cfb1_loop.simps Let_def src le nth upd(1) ix
    by (simp only: IH Suc_eq_plus1 [symmetric] if_distrib [where f = "\<lambda>x. obind x _"] obind.simps obind_assoc case_prod_unfold)
qed simp

lemma length_cfb1_loop: "cfb1_loop same enc block ivec inp n k out = Ret (iv, out') \<Longrightarrow> length out' = length out"
proof (induction k arbitrary: ivec n out)
  case (Suc k)
  then show ?case by (cases "cfbr_encrypt_block enc block ivec 1 [if (if same then out else inp) ! (n div 8) AND push_bit (7 - n mod 8) 1 \<noteq> 0 then 0x80 else 0]")
      (fastforce simp: Let_def simp del: push_bit_of_1 split: if_splits prod.splits)+
qed simp

lemma cfb1_chunks_eq:
  "len \<le> length out \<Longrightarrow> len \<le> length (if same then out else inp) \<Longrightarrow>
     cfb1_chunks same enc block ivec out inp len = cfb1_loop same enc block ivec inp 0 (8 * len) out"
proof (induction len arbitrary: ivec out inp rule: less_induct)
  case (less len)
  show ?case
  proof (cases "MAXBITCHUNK \<le> len")
    case True
    define r where "r = len - MAXBITCHUNK"
    have len: "8 * len = MAXBITCHUNK * 8 + 8 * r" "r < len" using True by (simp_all add: r_def)
    have rest: "cfb1_chunks same enc block iv (drop MAXBITCHUNK o1) (drop MAXBITCHUNK inp) r =
        cfb1_loop same enc block iv (drop MAXBITCHUNK inp) 0 (8 * r) (drop MAXBITCHUNK o1)" if "length o1 = length out" for iv o1
      using less.prems that by (intro less.IH [OF len(2)]) (auto simp: r_def)
    show ?thesis
    proof (cases "cfb1_loop same enc block ivec inp 0 (MAXBITCHUNK * 8) out")
      case (Ret x)
      obtain iv o1 where x: "x = (iv, o1)" by fastforce
      have l: "length o1 = length out" using length_cfb1_loop Ret x by blast
      have "cfb1_loop same enc block iv inp (0 + MAXBITCHUNK * 8) (8 * r) o1 =
          obind (cfb1_loop same enc block iv (drop MAXBITCHUNK inp) 0 (8 * r) (drop MAXBITCHUNK o1)) (\<lambda>(ivec, outs). Ret (ivec, take MAXBITCHUNK o1 @ outs))"
        using cfb1_loop_shift [of MAXBITCHUNK o1 same inp enc block iv 0 "8 * r"] True less.prems l
        unfolding mult.commute [of 8 MAXBITCHUNK] by (auto split: if_splits)
      then show ?thesis
        unfolding cfb1_chunks.simps [of same enc block ivec out inp len] len(1) cfb1_loop_add CRYPTO_cfb128_1_encrypt_def r_def [symmetric]
        by (simp only: True if_True Ret x obind.simps prod.case rest [OF l])
    qed (simp_all only: cfb1_chunks.simps [of same enc block ivec out inp len] len(1) cfb1_loop_add CRYPTO_cfb128_1_encrypt_def True if_True obind.simps)
  next
    case False
    then show ?thesis by (subst cfb1_chunks.simps) (simp add: CRYPTO_cfb128_1_encrypt_def mult.commute)
  qed
qed

lemma generic_cfb1_bits:
  assumes c: "length (ctx_iv c) = 16" "on_blocks 16 (ctx_block c)" and bits: "bits = (if ctx_use_bits c then n else 8 * n)"
    and room: "bits \<le> 8 * length out" "bits \<le> 8 * length inp" "same \<longrightarrow> out = inp"
  shows "\<exists>iv rs out'. cfb1_bits (ctx_enc c) (ctx_block c) (ctx_iv c) (map (bit_at inp) [0..<bits]) = (iv, rs)
    \<and> ossl_cipher_hw_generic_cfb1 same c out inp n = Ret (True, c\<lparr>ctx_iv := iv\<rparr>, out') \<and> length out' = length out
    \<and> (\<forall>m. bit_at out' m = (if m < bits then rs ! m else bit_at out m))"
proof -
  have src: "(if same then out else inp) = inp" using room(3) by auto
  have "ossl_cipher_hw_generic_cfb1 same c out inp n =
      obind (cfb1_loop same (ctx_enc c) (ctx_block c) (ctx_iv c) inp 0 bits out) (\<lambda>(ivec, out). Ret (True, c\<lparr>ctx_iv := ivec\<rparr>, out))"
    unfolding ossl_cipher_hw_generic_cfb1_def CRYPTO_cfb128_1_encrypt_def using cfb1_chunks_eq [of n out same inp] room bits src by auto
  then show ?thesis
    using cfb1_loop_eq [OF c, of 0 bits out same inp "ctx_enc c"] room(1,2) unfolding src by fastforce
qed

text \<open>
  What is encrypted bit by bit decrypts to the same bits, with a length in bits or in bytes, in place or into another object, and the two
  contexts stay in step; bits behind the length are left alone.
\<close>

theorem cfb1_roundtrip:
  assumes c: "length (ctx_iv c) = 16" "on_blocks 16 (ctx_block c)" and bits: "bits = (if ctx_use_bits c then n else 8 * n)"
    and room: "bits \<le> 8 * length out" "bits \<le> 8 * length inp" "same \<longrightarrow> out = inp"
    and room': "bits \<le> 8 * length out'"
  shows "\<exists>c1 ct pt. ossl_cipher_hw_generic_cfb1 same (c\<lparr>ctx_enc := True\<rparr>) out inp n = Ret (True, c1, ct)
    \<and> ossl_cipher_hw_generic_cfb1 same' (c\<lparr>ctx_enc := False\<rparr>) (if same' then ct else out') ct n = Ret (True, c1\<lparr>ctx_enc := False\<rparr>, pt)
    \<and> (\<forall>m < bits. bit_at pt m = bit_at inp m) \<and> (\<forall>m \<ge> bits. bit_at ct m = bit_at out m)"
proof -
  let ?e = "c\<lparr>ctx_enc := True\<rparr>" and ?d = "c\<lparr>ctx_enc := False\<rparr>"
  obtain iv rs ct where e: "cfb1_bits True (ctx_block c) (ctx_iv c) (map (bit_at inp) [0..<bits]) = (iv, rs)"
      "ossl_cipher_hw_generic_cfb1 same ?e out inp n = Ret (True, ?e\<lparr>ctx_iv := iv\<rparr>, ct)" "length ct = length out"
      "\<forall>m. bit_at ct m = (if m < bits then rs ! m else bit_at out m)"
    using generic_cfb1_bits [of ?e bits n out inp same] assms by auto
  have "length rs = bits" using length_cfb1_bits [of True "ctx_block c" "ctx_iv c" "map (bit_at inp) [0..<bits]"] e(1) by simp
  then have rs: "map (bit_at ct) [0..<bits] = rs" using e(4) by (intro nth_equalityI) simp_all
  have inv: "cfb1_bits False (ctx_block c) (ctx_iv c) (map (bit_at ct) [0..<bits]) = (iv, map (bit_at inp) [0..<bits])"
    unfolding rs by (rule cfb1_bits_inverse [OF e(1)])
  have fits: "bits \<le> 8 * length (if same' then ct else out')" "bits \<le> 8 * length ct" using room room' e(3) by auto
  obtain pt where d: "ossl_cipher_hw_generic_cfb1 same' ?d (if same' then ct else out') ct n = Ret (True, ?d\<lparr>ctx_iv := iv\<rparr>, pt)"
      "\<forall>m. bit_at pt m = (if m < bits then map (bit_at inp) [0..<bits] ! m else bit_at (if same' then ct else out') m)"
    using generic_cfb1_bits [of ?d bits n "if same' then ct else out'" ct same'] c bits fits inv by auto
  show ?thesis using e(2,4) d by (intro exI [of _ "?e\<lparr>ctx_iv := iv\<rparr>"] exI [of _ ct] exI [of _ pt]) simp
qed

end
