(* ===== verification/Key_Wrap.thy ===== *)
theory Key_Wrap
  imports EVP_Cipher Packet
begin

text \<open>
  Key wrapping: \<open>crypto/modes/wrap128.c\<close>, which encrypts keys with keys according to RFC 3394 and, with padding, RFC 5649. The data is a
  sequence of blocks of eight bytes. Each of six passes runs a check value through all blocks, so that a change anywhere is
  found when the check value comes out at the other end. Input and output may overlap: every function copies its input before it writes anything else.

  The functions return a length, or 0 for failure, and the object at \<open>out\<close>; an access outside an object is \<open>Undef\<close>.
\<close>

section \<open>The code\<close>

definition default_iv :: "byte list" where
  "default_iv = [0xA6, 0xA6, 0xA6, 0xA6, 0xA6, 0xA6, 0xA6, 0xA6]"

definition default_aiv :: "byte list" where
  "default_aiv = [0xA6, 0x59, 0x59, 0xA6]"

abbreviation CRYPTO128_WRAP_MAX :: nat where "CRYPTO128_WRAP_MAX \<equiv> 2 ^ 31"

definition OPENSSL_cleanse :: "byte list \<Rightarrow> nat \<Rightarrow> byte list outcome" where
  "OPENSSL_cleanse obj len = (if length obj < len then Undef else Ret (patch obj 0 (replicate len 0)))"

text \<open>The counter goes into the first half of \<open>B\<close>, which is called \<open>A\<close>.\<close>

definition xor_counter :: "byte list \<Rightarrow> nat \<Rightarrow> byte list" where
  "xor_counter A t =
     (let A = A[7 := A ! 7 XOR of_nat (t mod 256)] in
      if t > 0xff then
        let A = A[6 := A ! 6 XOR of_nat (t div 2 ^ 8 mod 256)];
            A = A[5 := A ! 5 XOR of_nat (t div 2 ^ 16 mod 256)]
        in A[4 := A ! 4 XOR of_nat (t div 2 ^ 24 mod 256)]
      else A)"

text \<open>The inner loops: \<open>k\<close> blocks are left, and \<open>R\<close> is the position of the next in \<open>out\<close>. The second half of \<open>B\<close> is filled from there.\<close>

fun wrap_pass :: "(byte list \<Rightarrow> byte list) \<Rightarrow> nat \<Rightarrow> nat \<Rightarrow> nat \<Rightarrow> byte list \<Rightarrow> byte list \<Rightarrow> byte list \<times> nat \<times> byte list" where
  "wrap_pass block 0 R t B out = (B, t, out)"
| "wrap_pass block (Suc k) R t B out =
     (let B = take 8 B @ take 8 (drop R out);
          B = block B;
          B = xor_counter B t;
          out = patch out R (drop 8 B)
      in wrap_pass block k (R + 8) (t + 1) B out)"

fun wrap_passes :: "(byte list \<Rightarrow> byte list) \<Rightarrow> nat \<Rightarrow> nat \<Rightarrow> nat \<Rightarrow> byte list \<Rightarrow> byte list \<Rightarrow> byte list \<times> byte list" where
  "wrap_passes block n 0 t B out = (B, out)"
| "wrap_passes block n (Suc j) t B out =
     (let (B, t, out) = wrap_pass block n 8 t B out in wrap_passes block n j t B out)"

definition CRYPTO_128_wrap :: "(byte list \<Rightarrow> byte list) \<Rightarrow> byte list option \<Rightarrow> byte list \<Rightarrow> byte list \<Rightarrow> nat \<Rightarrow> (nat \<times> byte list) outcome" where
  "CRYPTO_128_wrap block iv out inp inlen =
     (if inlen mod 8 \<noteq> 0 \<or> inlen < 16 \<or> inlen > CRYPTO128_WRAP_MAX then Ret (0, out)
      else if length inp < inlen \<or> length out < inlen + 8 then Undef
      else
        let out = patch out 8 (take inlen inp);
            iv = (case iv of None \<Rightarrow> default_iv | Some v \<Rightarrow> v)
        in if length iv < 8 then Undef
           else
             let (B, out) = wrap_passes block (inlen div 8) 6 1 (take 8 iv) out
             in Ret (inlen + 8, patch out 0 (take 8 B)))"

fun unwrap_pass :: "(byte list \<Rightarrow> byte list) \<Rightarrow> nat \<Rightarrow> nat \<Rightarrow> nat \<Rightarrow> byte list \<Rightarrow> byte list \<Rightarrow> byte list \<times> nat \<times> byte list" where
  "unwrap_pass block 0 R t B out = (B, t, out)"
| "unwrap_pass block (Suc k) R t B out =
     (let B = xor_counter B t;
          B = take 8 B @ take 8 (drop R out);
          B = block B;
          out = patch out R (drop 8 B)
      in unwrap_pass block k (R - 8) (t - 1) B out)"

fun unwrap_passes :: "(byte list \<Rightarrow> byte list) \<Rightarrow> nat \<Rightarrow> nat \<Rightarrow> nat \<Rightarrow> byte list \<Rightarrow> byte list \<Rightarrow> byte list \<times> byte list" where
  "unwrap_passes block n 0 t B out = (B, out)"
| "unwrap_passes block n (Suc j) t B out =
     (let (B, t, out) = unwrap_pass block n (8 * n - 8) t B out in unwrap_passes block n j t B out)"

text \<open>The results are the length, the check value in \<open>iv\<close> and the object at \<open>out\<close>.\<close>

definition crypto_128_unwrap_raw :: "(byte list \<Rightarrow> byte list) \<Rightarrow> byte list \<Rightarrow> byte list \<Rightarrow> nat \<Rightarrow> (nat \<times> byte list \<times> byte list) outcome" where
  "crypto_128_unwrap_raw block out inp inlen =
     (let inlen = sz_sub inlen 8 in
      if inlen mod 8 \<noteq> 0 \<or> inlen < 16 \<or> inlen > CRYPTO128_WRAP_MAX then Ret (0, [], out)
      else if length inp < inlen + 8 \<or> length out < inlen then Undef
      else
        let t = 6 * (inlen div 8);
            A = take 8 inp;
            out = patch out 0 (take inlen (drop 8 inp));
            (B, out) = unwrap_passes block (inlen div 8) 6 t A out
        in Ret (inlen, take 8 B, out))"

definition CRYPTO_128_unwrap :: "(byte list \<Rightarrow> byte list) \<Rightarrow> byte list option \<Rightarrow> byte list \<Rightarrow> byte list \<Rightarrow> nat \<Rightarrow> (nat \<times> byte list) outcome" where
  "CRYPTO_128_unwrap block iv out inp inlen =
     obind (crypto_128_unwrap_raw block out inp inlen) (\<lambda>(ret, got_iv, out).
     if ret = 0 then Ret (0, out)
     else
       let iv = (case iv of None \<Rightarrow> default_iv | Some v \<Rightarrow> v) in
       if length iv < 8 then Undef
       else if CRYPTO_memcmp got_iv (take 8 iv) \<noteq> 0 then obind (OPENSSL_cleanse out ret) (\<lambda>out. Ret (0, out))
       else Ret (ret, out))"

text \<open>The length goes through an \<open>int\<close> before it is returned as a \<open>size_t\<close>.\<close>

definition through_int :: "nat \<Rightarrow> nat" where
  "through_int n = unat (word_of_int (sint (of_nat n :: uint)) :: ulong)"

definition CRYPTO_128_wrap_pad :: "(byte list \<Rightarrow> byte list) \<Rightarrow> byte list option \<Rightarrow> byte list \<Rightarrow> byte list \<Rightarrow> nat \<Rightarrow> (nat \<times> byte list) outcome" where
  "CRYPTO_128_wrap_pad block icv out inp inlen =
     (let blocks_padded = sz_add inlen 7 div 8;
          padded_len = blocks_padded * 8;
          padding_len = padded_len - inlen
      in if inlen = 0 \<or> inlen \<ge> CRYPTO128_WRAP_MAX then Ret (0, out)
      else
        let aiv = (case icv of None \<Rightarrow> default_aiv | Some v \<Rightarrow> v) in
        if length aiv < 4 \<or> length inp < inlen then Undef
        else
          let aiv = take 4 aiv @ [of_nat (inlen div 2 ^ 24 mod 256), of_nat (inlen div 2 ^ 16 mod 256), of_nat (inlen div 2 ^ 8 mod 256), of_nat (inlen mod 256)] in
          if padded_len = 8 then
            if length out < 16 then Undef
            else
              let out = patch out 8 (take inlen inp);
                  out = patch out 0 aiv;
                  out = patch out (8 + inlen) (replicate padding_len 0)
              in Ret (through_int 16, patch out 0 (block (take 16 out)))
          else if length out < padded_len then Undef
          else
            let out = patch out 0 (take inlen inp);
                out = patch out inlen (replicate padding_len 0)
            in obind (CRYPTO_128_wrap block (Some aiv) out out padded_len) (\<lambda>(ret, out). Ret (through_int ret, out)))"

definition CRYPTO_128_unwrap_pad :: "(byte list \<Rightarrow> byte list) \<Rightarrow> byte list option \<Rightarrow> byte list \<Rightarrow> byte list \<Rightarrow> nat \<Rightarrow> (nat \<times> byte list) outcome" where
  "CRYPTO_128_unwrap_pad block icv out inp inlen =
     (let n = inlen div 8 - 1 in
      if inlen mod 8 \<noteq> 0 \<or> inlen < 16 \<or> inlen \<ge> CRYPTO128_WRAP_MAX then Ret (0, out)
      else
        let fail = (\<lambda>out. obind (OPENSSL_cleanse out inlen) (\<lambda>out. Ret (0, out))) in
        obind (if inlen = 16 then
                 if length inp < 16 \<or> length out < 8 then Undef
                 else let buff = block (take 16 inp) in Ret (Some (8, take 8 buff, patch out 0 (drop 8 buff)), out)
               else
                 obind (crypto_128_unwrap_raw block out inp inlen) (\<lambda>(ret, aiv, out).
                 Ret (if inlen - 8 \<noteq> ret then None else Some (ret, aiv, out), out))) (\<lambda>(r, out).
        case r of
          None \<Rightarrow> fail out
        | Some (padded_len, aiv, out) \<Rightarrow>
            let check = (case icv of None \<Rightarrow> default_aiv | Some v \<Rightarrow> v) in
            if length check < 4 then Undef
            else if CRYPTO_memcmp (take 4 aiv) (take 4 check) \<noteq> 0 then fail out
            else
              let ptext_len = unat (((push_bit 24 (ucast (aiv ! 4)) OR push_bit 16 (ucast (aiv ! 5))) OR push_bit 8 (ucast (aiv ! 6))) OR ucast (aiv ! 7) :: uint) in
              if 8 * (n - 1) \<ge> ptext_len \<or> ptext_len > 8 * n then fail out
              else
                let padding_len = padded_len - ptext_len in
                if CRYPTO_memcmp (take padding_len (drop ptext_len out)) (replicate padding_len 0) \<noteq> 0 then fail out
                else Ret (ptext_len, out)))"

section \<open>The passes on a sequence of blocks\<close>

lemma length_xor_counter [simp]: "length (xor_counter A t) = length A"
  by (simp add: xor_counter_def Let_def)

lemma xor_counter_halves:
  assumes "8 \<le> length B"
  shows "take 8 (xor_counter B t) = xor_counter (take 8 B) t" "drop 8 (xor_counter B t) = drop 8 B"
  using assms by (simp_all add: xor_counter_def Let_def take_update_swap)

lemma xor_counter_twice: "8 \<le> length A \<Longrightarrow> xor_counter (xor_counter A t) t = A"
  by (auto simp: xor_counter_def Let_def xor.assoc nth_list_update list_update_swap intro!: nth_equalityI)

text \<open>A pass forward, and one backward, which takes the blocks from the last to the first.\<close>

fun pass_forth :: "(byte list \<Rightarrow> byte list) \<Rightarrow> nat \<Rightarrow> byte list \<Rightarrow> byte list list \<Rightarrow> byte list \<times> byte list list" where
  "pass_forth block t A [] = (A, [])"
| "pass_forth block t A (R # Rs) =
     (let B = block (A @ R);
          (A, Rs) = pass_forth block (t + 1) (xor_counter (take 8 B) t) Rs
      in (A, drop 8 B # Rs))"

fun pass_back :: "(byte list \<Rightarrow> byte list) \<Rightarrow> nat \<Rightarrow> byte list \<Rightarrow> byte list list \<Rightarrow> byte list \<times> byte list list" where
  "pass_back block t A [] = (A, [])"
| "pass_back block t A (R # Rs) =
     (let B = block (xor_counter A t @ R);
          (A, Rs) = pass_back block (t - 1) (take 8 B) Rs
      in (A, drop 8 B # Rs))"

definition eights :: "byte list list \<Rightarrow> bool" where
  "eights Rs \<longleftrightarrow> (\<forall>r \<in> set Rs. length r = 8)"

lemma eights_simps [simp]: "eights []" "eights (r # Rs) \<longleftrightarrow> length r = 8 \<and> eights Rs" "eights (Rs @ Ss) \<longleftrightarrow> eights Rs \<and> eights Ss" "eights (rev Rs) \<longleftrightarrow> eights Rs"
  by (auto simp: eights_def)

lemma length_concat_eights: "eights Rs \<Longrightarrow> length (concat Rs) = 8 * length Rs"
  by (induction Rs) auto

lemma pass_forth_append:
  "pass_forth block t A (xs @ ys) =
     (let (A, xs') = pass_forth block t A xs; (A, ys') = pass_forth block (t + length xs) A ys in (A, xs' @ ys'))"
  by (induction xs arbitrary: t A) (simp_all add: Let_def split_beta)

lemma pass_back_append:
  "pass_back block t A (xs @ ys) =
     (let (A, xs') = pass_back block t A xs; (A, ys') = pass_back block (t - length xs) A ys in (A, xs' @ ys'))"
  by (induction xs arbitrary: t A) (simp_all add: Let_def split_beta)

lemma pass_forth_lengths:
  "on_blocks 16 block \<Longrightarrow> length A = 8 \<Longrightarrow> eights Rs \<Longrightarrow> pass_forth block t A Rs = (A', Rs') \<Longrightarrow>
     length A' = 8 \<and> eights Rs' \<and> length Rs' = length Rs"
proof (induction Rs arbitrary: t A Rs')
  case (Cons R Rs)
  let ?B = "block (A @ R)"
  have B: "length ?B = 16" using Cons.prems by simp
  obtain Rs1 where "pass_forth block (t + 1) (xor_counter (take 8 ?B) t) Rs = (A', Rs1)" "Rs' = drop 8 ?B # Rs1"
    using Cons.prems(4) by (auto simp: Let_def split: prod.splits)
  then show ?case using Cons.IH [of "xor_counter (take 8 ?B) t" "t + 1" Rs1] Cons.prems B by simp
qed simp

lemma pass_back_lengths:
  "on_blocks 16 block \<Longrightarrow> length A = 8 \<Longrightarrow> eights Rs \<Longrightarrow> pass_back block t A Rs = (A', Rs') \<Longrightarrow>
     length A' = 8 \<and> eights Rs' \<and> length Rs' = length Rs"
proof (induction Rs arbitrary: t A Rs')
  case (Cons R Rs)
  let ?B = "block (xor_counter A t @ R)"
  have B: "length ?B = 16" using Cons.prems by simp
  obtain Rs1 where "pass_back block (t - 1) (take 8 ?B) Rs = (A', Rs1)" "Rs' = drop 8 ?B # Rs1"
    using Cons.prems(4) by (auto simp: Let_def split: prod.splits)
  then show ?case using Cons.IH [of "take 8 ?B" "t - 1" Rs1] Cons.prems B by simp
qed simp

lemma pass_back_forth:
  "on_blocks 16 block \<Longrightarrow> undoes 16 dblock block \<Longrightarrow> length A = 8 \<Longrightarrow> eights Rs \<Longrightarrow> 0 < t \<Longrightarrow> pass_forth block t A Rs = (A', Rs') \<Longrightarrow>
     pass_back dblock (t + length Rs - 1) A' (rev Rs') = (A, rev Rs)"
proof (induction Rs arbitrary: t A Rs')
  case (Cons R Rs)
  let ?B = "block (A @ R)"
  let ?A1 = "xor_counter (take 8 ?B) t"
  have B: "length ?B = 16" "dblock ?B = A @ R" using Cons.prems by (simp_all add: undoes_def)
  obtain Rs1 where r: "pass_forth block (t + 1) ?A1 Rs = (A', Rs1)" "Rs' = drop 8 ?B # Rs1"
    using Cons.prems(6) by (auto simp: Let_def split: prod.splits)
  have "pass_back dblock (t + length Rs) A' (rev Rs1) = (?A1, rev Rs)"
    using Cons.IH [of ?A1 "t + 1" Rs1] Cons.prems r(1) B by simp
  moreover have "length Rs1 = length Rs" using pass_forth_lengths [OF Cons.prems(1) _ _ r(1)] B Cons.prems(4) by simp
  moreover have "dblock (xor_counter ?A1 t @ drop 8 ?B) = A @ R" using B by (simp add: xor_counter_twice)
  ultimately show ?case using Cons.prems(3) r(2) by (simp add: pass_back_append Let_def)
qed simp

lemma pass_forth_back:
  "on_blocks 16 dblock \<Longrightarrow> undoes 16 block dblock \<Longrightarrow> length A = 8 \<Longrightarrow> eights Rs \<Longrightarrow> length Rs \<le> t \<Longrightarrow> pass_back dblock t A Rs = (A', Rs') \<Longrightarrow>
     pass_forth block (t + 1 - length Rs) A' (rev Rs') = (A, rev Rs)"
proof (induction Rs arbitrary: t A Rs')
  case (Cons R Rs)
  let ?B = "dblock (xor_counter A t @ R)"
  have B: "length ?B = 16" "block ?B = xor_counter A t @ R" using Cons.prems by (simp_all add: undoes_def)
  obtain Rs1 where r: "pass_back dblock (t - 1) (take 8 ?B) Rs = (A', Rs1)" "Rs' = drop 8 ?B # Rs1"
    using Cons.prems(6) by (auto simp: Let_def split: prod.splits)
  have "pass_forth block (t - length Rs) A' (rev Rs1) = (take 8 ?B, rev Rs)"
    using Cons.IH [of "take 8 ?B" "t - 1" Rs1] Cons.prems r(1) B by simp
  moreover have "length Rs1 = length Rs" using pass_back_lengths [OF Cons.prems(1) _ _ r(1)] B Cons.prems(4) by simp
  ultimately show ?case using Cons.prems(3,5) r(2) B by (simp add: pass_forth_append Let_def xor_counter_twice)
qed simp

text \<open>Six passes, and what the code does with an array of blocks.\<close>

fun passes_forth :: "(byte list \<Rightarrow> byte list) \<Rightarrow> nat \<Rightarrow> nat \<Rightarrow> byte list \<Rightarrow> byte list list \<Rightarrow> byte list \<times> byte list list" where
  "passes_forth block 0 t A Rs = (A, Rs)"
| "passes_forth block (Suc j) t A Rs =
     (let (A, Rs') = pass_forth block t A Rs in passes_forth block j (t + length Rs) A Rs')"

fun passes_back :: "(byte list \<Rightarrow> byte list) \<Rightarrow> nat \<Rightarrow> nat \<Rightarrow> byte list \<Rightarrow> byte list list \<Rightarrow> byte list \<times> byte list list" where
  "passes_back block 0 t A Rs = (A, Rs)"
| "passes_back block (Suc j) t A Rs =
     (let (A, Rs') = pass_back block t A (rev Rs) in passes_back block j (t - length Rs) A (rev Rs'))"

lemma passes_forth_lengths:
  "on_blocks 16 block \<Longrightarrow> length A = 8 \<Longrightarrow> eights Rs \<Longrightarrow> passes_forth block j t A Rs = (A', Rs') \<Longrightarrow>
     length A' = 8 \<and> eights Rs' \<and> length Rs' = length Rs"
proof (induction j arbitrary: t A Rs)
  case (Suc j)
  obtain A1 Rs1 where p: "pass_forth block t A Rs = (A1, Rs1)" by fastforce
  then show ?case using Suc.IH [of A1 Rs1 "t + length Rs"] pass_forth_lengths [OF Suc.prems(1-3) p] Suc.prems by simp
qed simp

lemma passes_back_lengths:
  "on_blocks 16 block \<Longrightarrow> length A = 8 \<Longrightarrow> eights Rs \<Longrightarrow> passes_back block j t A Rs = (A', Rs') \<Longrightarrow>
     length A' = 8 \<and> eights Rs' \<and> length Rs' = length Rs"
proof (induction j arbitrary: t A Rs)
  case (Suc j)
  obtain A1 Rs1 where p: "pass_back block t A (rev Rs) = (A1, Rs1)" by fastforce
  then show ?case using Suc.IH [of A1 "rev Rs1" "t - length Rs"] pass_back_lengths [OF Suc.prems(1,2) _ p] Suc.prems by simp
qed simp

lemma passes_forth_snoc:
  "on_blocks 16 block \<Longrightarrow> length A = 8 \<Longrightarrow> eights Rs \<Longrightarrow> passes_forth block (Suc j) t A Rs =
     (let (A, Rs') = passes_forth block j t A Rs in pass_forth block (t + j * length Rs) A Rs')"
proof (induction j arbitrary: t A Rs)
  case (Suc j)
  obtain A1 Rs1 where p: "pass_forth block t A Rs = (A1, Rs1)" by fastforce
  then show ?case
    using Suc.IH [of A1 Rs1 "t + length Rs"] pass_forth_lengths [OF Suc.prems(1-3) p] Suc.prems(1) by (simp add: Let_def algebra_simps)
qed (simp add: Let_def split_beta)

lemma passes_back_snoc:
  "on_blocks 16 block \<Longrightarrow> length A = 8 \<Longrightarrow> eights Rs \<Longrightarrow> passes_back block (Suc j) t A Rs =
     (let (A, Rs') = passes_back block j t A Rs; (A, Rs') = pass_back block (t - j * length Rs) A (rev Rs') in (A, rev Rs'))"
proof (induction j arbitrary: t A Rs)
  case (Suc j)
  obtain A1 Rs1 where p: "pass_back block t A (rev Rs) = (A1, Rs1)" by fastforce
  then show ?case
    using Suc.IH [of A1 "rev Rs1" "t - length Rs"] pass_back_lengths [OF Suc.prems(1,2) _ p] Suc.prems(1,3) by (simp add: Let_def)
qed (simp add: Let_def split_beta)

lemma passes_back_forth:
  "on_blocks 16 block \<Longrightarrow> on_blocks 16 dblock \<Longrightarrow> undoes 16 dblock block \<Longrightarrow> length A = 8 \<Longrightarrow> eights Rs \<Longrightarrow> passes_forth block j 1 A Rs = (A', Rs') \<Longrightarrow>
     passes_back dblock j (j * length Rs) A' Rs' = (A, Rs)"
proof (induction j arbitrary: A' Rs')
  case (Suc j)
  obtain A1 Rs1 where p: "passes_forth block j 1 A Rs = (A1, Rs1)" by fastforce
  note l1 = passes_forth_lengths [OF Suc.prems(1,4,5) p]
  have q: "pass_forth block (1 + j * length Rs) A1 Rs1 = (A', Rs')" using Suc.prems(6) passes_forth_snoc [OF Suc.prems(1,4,5), of j 1] p by (simp del: passes_forth.simps)
  have "pass_back dblock (1 + j * length Rs + length Rs1 - 1) A' (rev Rs') = (A1, rev Rs1)"
    by (rule pass_back_forth [OF Suc.prems(1,3) _ _ _ q]) (use l1 in simp_all)
  moreover have "length Rs' = length Rs1" using pass_forth_lengths [OF Suc.prems(1) _ _ q] l1 by simp
  ultimately show ?case using Suc.IH [OF Suc.prems(1-5) p] l1 by (simp add: add.commute)
qed simp

lemma passes_forth_back:
  "on_blocks 16 block \<Longrightarrow> on_blocks 16 dblock \<Longrightarrow> undoes 16 block dblock \<Longrightarrow> length A = 8 \<Longrightarrow> eights Rs \<Longrightarrow> passes_back dblock j (j * length Rs) A Rs = (A', Rs') \<Longrightarrow>
     passes_forth block j 1 A' Rs' = (A, Rs)"
proof (induction j arbitrary: A Rs)
  case (Suc j)
  obtain A1 Rs1 where p: "pass_back dblock (Suc j * length Rs) A (rev Rs) = (A1, Rs1)" by fastforce
  have l1: "length A1 = 8 \<and> eights Rs1 \<and> length Rs1 = length Rs" using pass_back_lengths [OF Suc.prems(2,4) _ p] Suc.prems(5) by simp
  have q: "passes_back dblock j (j * length (rev Rs1)) A1 (rev Rs1) = (A', Rs')" using Suc.prems(6) p l1 by simp
  have l2: "length A' = 8" "eights Rs'" using passes_back_lengths [OF Suc.prems(2) _ _ q] l1 by simp_all
  have "passes_forth block j 1 A' Rs' = (A1, rev Rs1)" by (rule Suc.IH [OF Suc.prems(1-3) _ _ q]) (use l1 in simp_all)
  moreover have "pass_forth block (Suc j * length Rs + 1 - length (rev Rs)) A1 (rev Rs1) = (A, rev (rev Rs))"
    by (rule pass_forth_back [OF Suc.prems(2,3,4) _ _ p]) (use Suc.prems(5) in simp_all)
  moreover have "length Rs' = length Rs" using passes_back_lengths [OF Suc.prems(2) _ _ q] l1 by simp
  ultimately show ?case unfolding passes_forth_snoc [OF Suc.prems(1) l2] by simp
qed simp

section \<open>The passes on an array\<close>

lemma wrap_pass_eq:
  "on_blocks 16 block \<Longrightarrow> 8 \<le> length B \<Longrightarrow> eights Rs \<Longrightarrow> pass_forth block t (take 8 B) Rs = (A, Rs') \<Longrightarrow>
     \<exists>B'. wrap_pass block (length Rs) (length pre) t B (pre @ concat Rs @ post) = (B', t + length Rs, pre @ concat Rs' @ post) \<and> take 8 B' = A \<and> 8 \<le> length B'"
proof (induction Rs arbitrary: t B pre Rs')
  case (Cons R Rs)
  let ?C = "block (take 8 B @ R)"
  let ?B = "xor_counter ?C t"
  have C: "length ?C = 16" using Cons.prems by simp
  then have h: "take 8 ?B = xor_counter (take 8 ?C) t" "drop 8 ?B = drop 8 ?C" "length (drop 8 ?C) = 8" by (simp_all add: xor_counter_halves)
  obtain Rs1 where r: "pass_forth block (t + 1) (take 8 ?B) Rs = (A, Rs1)" "Rs' = drop 8 ?C # Rs1"
    using Cons.prems(4) unfolding h(1) by (auto simp: Let_def split: prod.splits)
  have "patch (pre @ concat (R # Rs) @ post) (length pre) (drop 8 ?C) = (pre @ drop 8 ?C) @ concat Rs @ post"
    using Cons.prems(3) C by (simp add: patch_def)
  then show ?case
    using Cons.IH [of ?B "t + 1" Rs1 "pre @ drop 8 ?C"] Cons.prems(1,3) r C h by (simp add: Let_def)
qed simp

lemma unwrap_pass_eq:
  "on_blocks 16 block \<Longrightarrow> 8 \<le> length B \<Longrightarrow> eights Rs \<Longrightarrow> pass_back block t (take 8 B) (rev Rs) = (A, Rs') \<Longrightarrow> R = length pre + 8 * length Rs - 8 \<Longrightarrow>
     \<exists>B'. unwrap_pass block (length Rs) R t B (pre @ concat Rs @ post) = (B', t - length Rs, pre @ concat (rev Rs') @ post) \<and> take 8 B' = A \<and> 8 \<le> length B'"
proof (induction Rs arbitrary: t B Rs' post R rule: rev_induct)
  case (snoc S Rs)
  let ?C = "block (xor_counter (take 8 B) t @ S)"
  have C: "length ?C = 16" "length (drop 8 ?C) = 8" using snoc.prems by simp_all
  obtain Rs1 where r: "pass_back block (t - 1) (take 8 ?C) (rev Rs) = (A, Rs1)" "Rs' = drop 8 ?C # Rs1"
    using snoc.prems(4) by (auto simp: Let_def split: prod.splits)
  have R: "R = length (pre @ concat Rs)"
    using snoc.prems(3,5) length_concat_eights [of Rs] by simp
  have "pre @ concat (Rs @ [S]) @ post = (pre @ concat Rs) @ S @ post" by simp
  moreover have "patch ((pre @ concat Rs) @ S @ post) R (drop 8 ?C) = pre @ concat Rs @ drop 8 ?C @ post"
    unfolding R using snoc.prems(3) C by (simp add: patch_def)
  moreover have "take 8 (drop R ((pre @ concat Rs) @ S @ post)) = S" unfolding R using snoc.prems(3) by simp
  moreover have "take 8 (xor_counter B t) = xor_counter (take 8 B) t" by (rule xor_counter_halves [OF snoc.prems(2)])
  moreover have "R - 8 = length pre + 8 * length Rs - 8" using snoc.prems(5) by simp
  ultimately show ?case
    using snoc.IH [of ?C "t - 1" Rs1 "R - 8" "drop 8 ?C @ post"] snoc.prems(1,3) r C by (simp add: Let_def)
qed simp

lemma wrap_passes_eq:
  "on_blocks 16 block \<Longrightarrow> 8 \<le> length B \<Longrightarrow> eights Rs \<Longrightarrow> length pre = 8 \<Longrightarrow> passes_forth block j t (take 8 B) Rs = (A, Rs') \<Longrightarrow>
     \<exists>B'. wrap_passes block (length Rs) j t B (pre @ concat Rs @ post) = (B', pre @ concat Rs' @ post) \<and> take 8 B' = A"
proof (induction j arbitrary: t B Rs)
  case (Suc j)
  obtain A1 Rs1 where p: "pass_forth block t (take 8 B) Rs = (A1, Rs1)" by fastforce
  obtain B1 where b: "wrap_pass block (length Rs) 8 t B (pre @ concat Rs @ post) = (B1, t + length Rs, pre @ concat Rs1 @ post)" "take 8 B1 = A1" "8 \<le> length B1"
    using wrap_pass_eq [OF Suc.prems(1-3) p, of pre post] Suc.prems(4) by auto
  have "eights Rs1 \<and> length Rs1 = length Rs" using pass_forth_lengths [OF Suc.prems(1) _ Suc.prems(3) p] Suc.prems(2) by simp
  then show ?case using Suc.IH [of B1 Rs1 "t + length Rs"] Suc.prems p b by simp
qed simp

lemma unwrap_passes_eq:
  "on_blocks 16 block \<Longrightarrow> 8 \<le> length B \<Longrightarrow> eights Rs \<Longrightarrow> passes_back block j t (take 8 B) Rs = (A, Rs') \<Longrightarrow>
     \<exists>B'. unwrap_passes block (length Rs) j t B (concat Rs @ post) = (B', concat Rs' @ post) \<and> take 8 B' = A"
proof (induction j arbitrary: t B Rs)
  case (Suc j)
  obtain A1 Rs1 where p: "pass_back block t (take 8 B) (rev Rs) = (A1, Rs1)" by fastforce
  obtain B1 where b: "unwrap_pass block (length Rs) (8 * length Rs - 8) t B (concat Rs @ post) = (B1, t - length Rs, concat (rev Rs1) @ post)" "take 8 B1 = A1" "8 \<le> length B1"
    using unwrap_pass_eq [OF Suc.prems(1-3) p, of "8 * length Rs - 8" "[]" post] by auto
  have "eights Rs1 \<and> length Rs1 = length Rs" using pass_back_lengths [OF Suc.prems(1) _ _ p] Suc.prems(2,3) by simp
  then show ?case using Suc.IH [of B1 "rev Rs1" "t - length Rs"] Suc.prems p b by simp
qed simp

section \<open>Wrapping and unwrapping of byte strings\<close>

fun into_eights :: "nat \<Rightarrow> byte list \<Rightarrow> byte list list" where
  "into_eights 0 d = []"
| "into_eights (Suc n) d = take 8 d # into_eights n (drop 8 d)"

abbreviation in_eights :: "byte list \<Rightarrow> byte list list" where
  "in_eights d \<equiv> into_eights (length d div 8) d"

lemma into_eights: "length d = 8 * n \<Longrightarrow> eights (into_eights n d) \<and> concat (into_eights n d) = d \<and> length (into_eights n d) = n"
  by (induction n arbitrary: d) auto

lemma into_eights_concat: "eights Rs \<Longrightarrow> into_eights (length Rs) (concat Rs) = Rs"
  by (induction Rs) auto

text \<open>The check value and the wrapped data; the check value that comes out and the data.\<close>

definition key_wrap :: "(byte list \<Rightarrow> byte list) \<Rightarrow> byte list \<Rightarrow> byte list \<Rightarrow> byte list" where
  "key_wrap block iv d = (let (A, Rs) = passes_forth block 6 1 iv (in_eights d) in A @ concat Rs)"

definition key_unwrap :: "(byte list \<Rightarrow> byte list) \<Rightarrow> byte list \<Rightarrow> byte list \<times> byte list" where
  "key_unwrap dblock c =
     (let d = drop 8 c; (A, Rs) = passes_back dblock 6 (6 * (length d div 8)) (take 8 c) (in_eights d) in (A, concat Rs))"

lemma in_eights_whole: "8 dvd length d \<Longrightarrow> eights (in_eights d) \<and> concat (in_eights d) = d \<and> length (in_eights d) = length d div 8"
  using into_eights [of d "length d div 8"] by simp

lemma key_wrap_split:
  assumes "on_blocks 16 block" "length iv = 8" "8 dvd length d"
  obtains A Rs where "passes_forth block 6 1 iv (in_eights d) = (A, Rs)" "key_wrap block iv d = A @ concat Rs" "length A = 8" "eights Rs" "length Rs = length d div 8"
    "length (concat Rs) = length d"
proof -
  obtain A Rs where p: "passes_forth block 6 1 iv (in_eights d) = (A, Rs)" by fastforce
  have "length A = 8" "eights Rs" "length Rs = length d div 8"
    using passes_forth_lengths [OF assms(1,2) _ p] in_eights_whole [OF assms(3)] by simp_all
  then show thesis using that p length_concat_eights [of Rs] assms(3) by (simp add: key_wrap_def)
qed

lemma key_unwrap_split:
  assumes "on_blocks 16 dblock" "length c = 8 * n" "0 < n"
  obtains A Rs where "passes_back dblock 6 (6 * (n - 1)) (take 8 c) (in_eights (drop 8 c)) = (A, Rs)" "key_unwrap dblock c = (A, concat Rs)" "length A = 8" "eights Rs"
    "length Rs = n - 1" "length (concat Rs) = 8 * (n - 1)"
proof -
  have l: "length (drop 8 c) = 8 * (n - 1)" using assms(2,3) by (cases n) auto
  then have d: "8 dvd length (drop 8 c)" "length (drop 8 c) div 8 = n - 1" by simp_all
  obtain A Rs where p: "passes_back dblock 6 (6 * (n - 1)) (take 8 c) (in_eights (drop 8 c)) = (A, Rs)" by fastforce
  have "length (take 8 c) = 8" using assms(2,3) by simp
  then have "length A = 8" "eights Rs" "length Rs = n - 1"
    using passes_back_lengths [OF assms(1) _ _ p] in_eights_whole [OF d(1)] d(2) by simp_all
  then show thesis using that p by (simp add: key_unwrap_def Let_def d(2) length_concat_eights del: length_drop)
qed

lemma key_unwrap_wrap:
  assumes "on_blocks 16 block" "on_blocks 16 dblock" "undoes 16 dblock block" "length iv = 8" "8 dvd length d"
  shows "key_unwrap dblock (key_wrap block iv d) = (iv, d)"
proof -
  obtain A Rs where w: "passes_forth block 6 1 iv (in_eights d) = (A, Rs)" "key_wrap block iv d = A @ concat Rs" "length A = 8" "eights Rs" "length Rs = length d div 8"
      "length (concat Rs) = length d"
    by (rule key_wrap_split [OF assms(1,4,5)])
  have "in_eights (concat Rs) = Rs" using into_eights_concat [OF w(4)] w(5,6) by simp
  then show ?thesis
    using passes_back_forth [OF assms(1-4) _ w(1)] in_eights_whole [OF assms(5)] w(2,3,6) by (simp add: key_unwrap_def)
qed

lemma key_wrap_unwrap:
  assumes "on_blocks 16 block" "on_blocks 16 dblock" "undoes 16 block dblock" "length c = 8 * n" "0 < n"
  shows "key_wrap block (fst (key_unwrap dblock c)) (snd (key_unwrap dblock c)) = c"
proof -
  obtain A Rs where u: "passes_back dblock 6 (6 * (n - 1)) (take 8 c) (in_eights (drop 8 c)) = (A, Rs)" "key_unwrap dblock c = (A, concat Rs)" "length A = 8" "eights Rs"
      "length Rs = n - 1" "length (concat Rs) = 8 * (n - 1)"
    by (rule key_unwrap_split [OF assms(2,4,5)])
  have "length (drop 8 c) = 8 * (n - 1)" using assms(4,5) by (cases n) auto
  then have e: "eights (in_eights (drop 8 c))" "concat (in_eights (drop 8 c)) = drop 8 c" "length (in_eights (drop 8 c)) = n - 1"
    using in_eights_whole [of "drop 8 c"] by simp_all
  have "in_eights (concat Rs) = Rs" using into_eights_concat [OF u(4)] u(5,6) by simp
  moreover have "passes_forth block 6 1 A Rs = (take 8 c, in_eights (drop 8 c))"
    by (rule passes_forth_back [OF assms(1-3)]) (use assms(4,5) e u(1) in simp_all)
  ultimately show ?thesis using u(2) e(2) by (simp add: key_wrap_def)
qed

section \<open>What the functions return\<close>

abbreviation given :: "'a \<Rightarrow> 'a option \<Rightarrow> 'a" where
  "given dflt iv \<equiv> (case iv of None \<Rightarrow> dflt | Some v \<Rightarrow> v)"

lemma wrap_spec:
  assumes b: "on_blocks 16 block" and len: "8 dvd inlen" "16 \<le> inlen" "inlen \<le> CRYPTO128_WRAP_MAX"
    and room: "inlen \<le> length inp" "inlen + 8 \<le> length out" and iv: "8 \<le> length (given default_iv iv)"
  shows "CRYPTO_128_wrap block iv out inp inlen = Ret (inlen + 8, key_wrap block (take 8 (given default_iv iv)) (take inlen inp) @ drop (inlen + 8) out)"
proof -
  let ?d = "take inlen inp" and ?iv = "take 8 (given default_iv iv)"
  have d: "length ?d = inlen" "8 dvd length ?d" using room(1) len(1) by simp_all
  have iv8: "length ?iv = 8" using iv by (simp only: length_take min.absorb2)
  obtain A Rs where w: "passes_forth block 6 1 ?iv (in_eights ?d) = (A, Rs)" "key_wrap block ?iv ?d = A @ concat Rs" "length A = 8" "eights Rs" "length Rs = length ?d div 8"
      "length (concat Rs) = length ?d"
    by (rule key_wrap_split [OF b iv8 d(2)])
  have e: "eights (in_eights ?d)" "concat (in_eights ?d) = ?d" "length (in_eights ?d) = inlen div 8" using in_eights_whole [OF d(2)] d(1) by simp_all
  have out: "patch out 8 ?d = take 8 out @ concat (in_eights ?d) @ drop (inlen + 8) out" unfolding e(2) using d(1) by (simp add: patch_def add.commute)
  obtain B where B: "wrap_passes block (inlen div 8) 6 1 ?iv (patch out 8 ?d) = (B, take 8 out @ concat Rs @ drop (inlen + 8) out)" "take 8 B = A"
    using wrap_passes_eq [OF b _ e(1), of ?iv "take 8 out" 6 1 A Rs "drop (inlen + 8) out"] room(2) iv w(1) unfolding out e(3) by auto
  have "patch (take 8 out @ concat Rs @ drop (inlen + 8) out) 0 A = (A @ concat Rs) @ drop (inlen + 8) out" using w(3) room(2) by (simp add: patch_def)
  then show ?thesis using len room iv B w(2) by (simp add: CRYPTO_128_wrap_def Let_def mod_eq_0_iff_dvd)
qed

lemma unwrap_raw_spec:
  assumes b: "on_blocks 16 dblock" and len: "8 dvd inlen" "24 \<le> inlen" "inlen \<le> CRYPTO128_WRAP_MAX + 8"
    and room: "inlen \<le> length inp" "inlen - 8 \<le> length out"
  shows "crypto_128_unwrap_raw dblock out inp inlen =
    Ret (inlen - 8, fst (key_unwrap dblock (take inlen inp)), snd (key_unwrap dblock (take inlen inp)) @ drop (inlen - 8) out)"
proof -
  let ?c = "take inlen inp"
  obtain n where n: "inlen = 8 * n" using len(1) by (auto simp: dvd_def)
  have c: "length ?c = 8 * n" "0 < n" using room(1) len(2) n by simp_all
  obtain A Rs where u: "passes_back dblock 6 (6 * (n - 1)) (take 8 ?c) (in_eights (drop 8 ?c)) = (A, Rs)" "key_unwrap dblock ?c = (A, concat Rs)" "length A = 8" "eights Rs"
      "length Rs = n - 1" "length (concat Rs) = 8 * (n - 1)"
    by (rule key_unwrap_split [OF b c])
  have l: "length (drop 8 ?c) = 8 * (n - 1)" "inlen - 8 = 8 * (n - 1)" using c n by (cases n; simp)+
  then have e: "eights (in_eights (drop 8 ?c))" "concat (in_eights (drop 8 ?c)) = drop 8 ?c" "length (in_eights (drop 8 ?c)) = n - 1"
    using in_eights_whole [of "drop 8 ?c"] by simp_all
  have d: "take (inlen - 8) (drop 8 inp) = drop 8 ?c" by (simp add: drop_take)
  have out: "patch out 0 (drop 8 ?c) = concat (in_eights (drop 8 ?c)) @ drop (inlen - 8) out" unfolding e(2) using l by (simp add: patch_def)
  have A: "take 8 inp = take 8 ?c" using len(2) by simp
  have A8: "8 \<le> length (take 8 ?c)" using c by simp
  obtain B where B: "unwrap_passes dblock (n - 1) 6 (6 * (n - 1)) (take 8 ?c) (patch out 0 (drop 8 ?c)) = (B, concat Rs @ drop (inlen - 8) out)" "take 8 B = A"
    using unwrap_passes_eq [OF b A8 e(1), of 6 "6 * (n - 1)" A Rs "drop (inlen - 8) out"] u(1) unfolding out e(3) by auto
  have s: "sz_sub inlen 8 = 8 * (n - 1)" using len l(2) by simp
  have g: "\<not> (8 * (n - 1) mod 8 \<noteq> 0 \<or> 8 * (n - 1) < 16 \<or> CRYPTO128_WRAP_MAX < 8 * (n - 1))" "\<not> (length inp < 8 * (n - 1) + 8 \<or> length out < 8 * (n - 1))"
    using len room l(2) by auto
  show ?thesis
    unfolding crypto_128_unwrap_raw_def Let_def s using g B u(2) d A l(2) by simp
qed

lemma unwrap_raw_refuses:
  assumes "inlen < 2 ^ 64" "\<not> (8 dvd inlen \<and> 24 \<le> inlen \<and> inlen \<le> CRYPTO128_WRAP_MAX + 8)"
  shows "crypto_128_unwrap_raw dblock out inp inlen = Ret (0, [], out)"
proof -
  have "sz_sub inlen 8 mod 8 \<noteq> 0 \<or> sz_sub inlen 8 < 16 \<or> sz_sub inlen 8 > CRYPTO128_WRAP_MAX"
  proof (cases "inlen < 8")
    case True
    then show ?thesis by (simp add: sz_sub_wraps)
  next
    case False
    then have s: "sz_sub inlen 8 = inlen - 8" using assms(1) by simp
    have "(inlen - 8) mod 8 = 0 \<longleftrightarrow> 8 dvd inlen" using False by (metis dvd_minus_self mod_eq_0_iff_dvd not_less)
    then show ?thesis unfolding s using assms(2) False by auto
  qed
  then show ?thesis by (auto simp: crypto_128_unwrap_raw_def Let_def)
qed

lemma length_key_unwrap:
  assumes "on_blocks 16 dblock" "8 dvd length c" "8 \<le> length c"
  shows "length (fst (key_unwrap dblock c)) = 8" "length (snd (key_unwrap dblock c)) = length c - 8"
proof -
  obtain n where n: "length c = 8 * n" "0 < n" using assms(2,3) by (auto simp: dvd_def)
  show "length (fst (key_unwrap dblock c)) = 8" "length (snd (key_unwrap dblock c)) = length c - 8"
    by (rule key_unwrap_split [OF assms(1) n]; cases n; use n in simp)+
qed

lemma length_key_wrap: "on_blocks 16 block \<Longrightarrow> length iv = 8 \<Longrightarrow> 8 dvd length d \<Longrightarrow> length (key_wrap block iv d) = length d + 8"
  by (rule key_wrap_split [of block iv d]) simp_all

lemma cleanse_prefix: "n \<le> length obj \<Longrightarrow> OPENSSL_cleanse obj n = Ret (replicate n 0 @ drop n obj)"
  by (simp add: OPENSSL_cleanse_def patch_def)

lemma unwrap_spec:
  assumes b: "on_blocks 16 dblock" and len: "8 dvd inlen" "24 \<le> inlen" "inlen \<le> CRYPTO128_WRAP_MAX + 8"
    and room: "inlen \<le> length inp" "inlen - 8 \<le> length out" and iv: "8 \<le> length (given default_iv iv)"
  shows "CRYPTO_128_unwrap dblock iv out inp inlen =
    Ret (if fst (key_unwrap dblock (take inlen inp)) = take 8 (given default_iv iv)
         then (inlen - 8, snd (key_unwrap dblock (take inlen inp)) @ drop (inlen - 8) out)
         else (0, replicate (inlen - 8) 0 @ drop (inlen - 8) out))"
proof -
  let ?u = "key_unwrap dblock (take inlen inp)"
  have c: "length (take inlen inp) = inlen" using room(1) by simp
  have l: "length (fst ?u) = 8" "length (snd ?u) = inlen - 8" using length_key_unwrap [OF b, of "take inlen inp"] len c by simp_all
  have "length (take 8 (given default_iv iv)) = 8" using iv by (simp only: length_take min.absorb2)
  then have m: "CRYPTO_memcmp (fst ?u) (take 8 (given default_iv iv)) = 0 \<longleftrightarrow> fst ?u = take 8 (given default_iv iv)"
    by (intro CRYPTO_memcmp_eq_0) (simp only: l(1))
  have cl: "OPENSSL_cleanse (snd ?u @ drop (inlen - 8) out) (inlen - 8) = Ret (replicate (inlen - 8) 0 @ drop (inlen - 8) out)"
    using l(2) by (simp add: cleanse_prefix)
  have nz: "\<not> inlen - 8 = 0" "\<not> length (given default_iv iv) < 8" using len(2) iv by simp_all
  show ?thesis
    unfolding CRYPTO_128_unwrap_def unwrap_raw_spec [OF b len room] obind.simps prod.case Let_def m using nz cl by simp
qed

subsection \<open>With padding\<close>

definition pad8 :: "byte list \<Rightarrow> byte list" where
  "pad8 p = p @ replicate ((length p + 7) div 8 * 8 - length p) 0"

definition aiv_of :: "byte list \<Rightarrow> nat \<Rightarrow> byte list" where
  "aiv_of icv n = take 4 icv @ be_bytes 4 n"

definition wrap_padded :: "(byte list \<Rightarrow> byte list) \<Rightarrow> byte list \<Rightarrow> byte list \<Rightarrow> byte list" where
  "wrap_padded block icv p =
     (let aiv = aiv_of icv (length p) in if length p \<le> 8 then block (aiv @ pad8 p) else key_wrap block aiv (pad8 p))"

definition open_padded :: "(byte list \<Rightarrow> byte list) \<Rightarrow> byte list \<Rightarrow> byte list \<times> byte list" where
  "open_padded dblock c = (if length c = 16 then (take 8 (dblock c), drop 8 (dblock c)) else key_unwrap dblock c)"

definition padding_matches :: "byte list \<Rightarrow> byte list \<times> byte list \<Rightarrow> bool" where
  "padding_matches icv u \<longleftrightarrow>
     (let m = be_value (drop 4 (fst u)) in
      take 4 (fst u) = take 4 icv \<and> length (snd u) < m + 8 \<and> m \<le> length (snd u) \<and> drop m (snd u) = replicate (length (snd u) - m) 0)"

lemma length_pad8: "length (pad8 p) = (length p + 7) div 8 * 8" "8 dvd length (pad8 p)" "length p \<le> length (pad8 p)" "length (pad8 p) < length p + 8" "take (length p) (pad8 p) = p"
proof -
  have "length p \<le> (length p + 7) div 8 * 8" "(length p + 7) div 8 * 8 < length p + 8" by simp_all
  then show "length (pad8 p) = (length p + 7) div 8 * 8" "length p \<le> length (pad8 p)" "length (pad8 p) < length p + 8" "take (length p) (pad8 p) = p"
    by (simp_all add: pad8_def)
  then show "8 dvd length (pad8 p)" by simp
qed

lemma pad8_unique:
  assumes "8 dvd length d" "length d < m + 8" "m \<le> length d" "drop m d = replicate (length d - m) 0"
  shows "pad8 (take m d) = d"
proof -
  have "(m + 7) div 8 * 8 = length d" using assms(1-3) by (auto simp: dvd_def)
  then show ?thesis using assms(3,4) by (simp add: pad8_def) (metis append_take_drop_id)
qed

lemma length_aiv_of: "4 \<le> length icv \<Longrightarrow> length (aiv_of icv n) = 8" "4 \<le> length icv \<Longrightarrow> take 4 (aiv_of icv n) = take 4 icv"
  "4 \<le> length icv \<Longrightarrow> drop 4 (aiv_of icv n) = be_bytes 4 n"
  by (simp_all add: aiv_of_def)

text \<open>Opening and closing are inverse, and what opens with a matching check value is what wrapping makes.\<close>

lemma open_wrap_padded:
  assumes b: "on_blocks 16 block" "on_blocks 16 dblock" "undoes 16 dblock block" and icv: "4 \<le> length icv" and p: "0 < length p"
  shows "length (wrap_padded block icv p) = length (pad8 p) + 8" "open_padded dblock (wrap_padded block icv p) = (aiv_of icv (length p), pad8 p)"
proof -
  let ?aiv = "aiv_of icv (length p)"
  have a: "length ?aiv = 8" by (rule length_aiv_of(1) [OF icv])
  have "length (wrap_padded block icv p) = length (pad8 p) + 8 \<and> open_padded dblock (wrap_padded block icv p) = (?aiv, pad8 p)"
  proof (cases "length p \<le> 8")
    case True
    then have "length (pad8 p) = 8" using p unfolding length_pad8(1) by presburger
    then show ?thesis using True a b by (simp add: wrap_padded_def open_padded_def undoes_def)
  next
    case False
    then have "length (pad8 p) + 8 \<noteq> 16" using length_pad8(3) [of p] by simp
    then show ?thesis
      using False key_unwrap_wrap [OF b a length_pad8(2)] length_key_wrap [OF b(1) a length_pad8(2)] by (simp add: wrap_padded_def open_padded_def)
  qed
  then show "length (wrap_padded block icv p) = length (pad8 p) + 8" "open_padded dblock (wrap_padded block icv p) = (?aiv, pad8 p)" by simp_all
qed

lemma length_open_padded:
  assumes "on_blocks 16 dblock" "8 dvd length c" "16 \<le> length c"
  shows "length (fst (open_padded dblock c)) = 8" "length (snd (open_padded dblock c)) = length c - 8"
  using assms length_key_unwrap [OF assms(1,2)] by (simp_all add: open_padded_def)

lemma wrap_open_padded:
  assumes b: "on_blocks 16 block" "on_blocks 16 dblock" "undoes 16 block dblock" and icv: "4 \<le> length icv"
    and c: "8 dvd length c" "16 \<le> length c" and m: "padding_matches icv (open_padded dblock c)"
  shows "wrap_padded block icv (take (be_value (drop 4 (fst (open_padded dblock c)))) (snd (open_padded dblock c))) = c"
proof -
  obtain A d where o: "open_padded dblock c = (A, d)" by fastforce
  define k where "k = be_value (drop 4 A)"
  have l: "length A = 8" "length d = length c - 8" "8 dvd length d" using length_open_padded [OF b(2) c] o c by (simp_all add: dvd_diff_nat)
  have k: "take 4 A = take 4 icv" "length d < k + 8" "k \<le> length d" "drop k d = replicate (length d - k) 0"
    using m o by (simp_all add: padding_matches_def k_def Let_def)
  have lk: "length (take k d) = k" using k(3) by simp
  have pad: "pad8 (take k d) = d" by (rule pad8_unique [OF l(3) k(2-4)])
  have "be_bytes 4 k = drop 4 A" unfolding k_def using be_bytes_be_value [of "drop 4 A"] l(1) by simp
  then have A: "aiv_of icv k = A" using k(1) append_take_drop_id [of 4 A] unfolding aiv_of_def by metis
  have "wrap_padded block icv (take k d) = c"
  proof (cases "length c = 16")
    case True
    then have "length d = 8" "A @ d = dblock c" using o l(2) by (auto simp: open_padded_def)
    then show ?thesis using k(3) lk pad A b(3) True by (simp add: wrap_padded_def undoes_def)
  next
    case False
    then have "\<not> k \<le> 8" using k(2) l(2,3) c by (auto simp: dvd_def)
    moreover have "key_wrap block A d = c"
    proof -
      obtain n where "length c = 8 * n" "0 < n" using c by (auto simp: dvd_def)
      from key_wrap_unwrap [OF b this] show ?thesis using False o by (simp add: open_padded_def)
    qed
    ultimately show ?thesis using lk pad A by (simp add: wrap_padded_def)
  qed
  then show ?thesis using o by (simp add: k_def)
qed

lemma through_int_small: "n < 2 ^ 31 \<Longrightarrow> through_int n = n"
  and through_int_big: "2 ^ 31 \<le> n \<Longrightarrow> n < 2 ^ 32 \<Longrightarrow> through_int n = 2 ^ 64 - 2 ^ 32 + n"
proof -
  have s: "sint (of_nat n :: uint) = signed_take_bit 31 (int n)" by (simp add: signed_of_nat)
  have u: "unat (word_of_int x :: ulong) = nat (take_bit 64 x)" for x by (simp add: unsigned_of_int)
  show "n < 2 ^ 31 \<Longrightarrow> through_int n = n"
    unfolding through_int_def s by (simp add: signed_take_bit_int_eq_self unsigned_of_int take_bit_int_eq_self)
  assume n: "2 ^ 31 \<le> n" "n < 2 ^ 32"
  then have "n div 2 ^ 31 = 1" by (intro div_nat_eqI) simp_all
  then have "bit n 31" unfolding bit_iff_odd by simp
  then have "bit (int n) 31" by (simp only: bit_of_nat_iff_bit)
  then have "signed_take_bit 31 (int n) = int n - 2 ^ 32" using n by (simp add: signed_take_bit_eq_take_bit_minus take_bit_int_eq_self)
  moreover have "take_bit 64 (int n - 2 ^ 32) = int n - 2 ^ 32 + 2 ^ 64"
    unfolding take_bit_eq_mod mod_add_self2 [of "int n - 2 ^ 32" "2 ^ 64", symmetric] by (rule mod_pos_pos_trivial) (use n in simp_all)
  ultimately have "nat (take_bit 64 (signed_take_bit 31 (int n))) = 2 ^ 64 - 2 ^ 32 + n" using n by simp
  then show "through_int n = 2 ^ 64 - 2 ^ 32 + n" unfolding through_int_def s u .
qed

lemma be_bytes_4: "be_bytes 4 n = [of_nat (n div 2 ^ 24 mod 256), of_nat (n div 2 ^ 16 mod 256), of_nat (n div 2 ^ 8 mod 256), of_nat (n mod 256)]"
  by (simp add: be_bytes_numeral div_mult2_eq [symmetric])

lemma wrap_pad_spec:
  assumes b: "on_blocks 16 block" and len: "0 < inlen" "inlen < CRYPTO128_WRAP_MAX" and icv: "4 \<le> length (given default_aiv icv)"
    and room: "inlen \<le> length inp" "length (pad8 (take inlen inp)) + 8 \<le> length out"
  shows "CRYPTO_128_wrap_pad block icv out inp inlen =
    Ret (through_int (length (pad8 (take inlen inp)) + 8),
         wrap_padded block (given default_aiv icv) (take inlen inp) @ drop (length (pad8 (take inlen inp)) + 8) out)"
proof -
  let ?p = "take inlen inp"
  let ?a = "aiv_of (given default_aiv icv) inlen"
  define L where "L = length (pad8 ?p)"
  have p: "length ?p = inlen" using room(1) by simp
  have lp: "length (pad8 ?p) = L" by (simp add: L_def)
  note room = room(1) room(2) [unfolded lp]
  have szs: "sz_add inlen 7 div 8 * 8 = L" "inlen \<le> L" "L < inlen + 8" "8 dvd L" using len(2) length_pad8 [of ?p] p by (simp_all add: L_def)
  have pad: "pad8 ?p = ?p @ replicate (L - inlen) 0" unfolding L_def by (metis pad8_def length_pad8(1) p)
  have a: "take 4 (given default_aiv icv) @ [of_nat (inlen div 2 ^ 24 mod 256), of_nat (inlen div 2 ^ 16 mod 256), of_nat (inlen div 2 ^ 8 mod 256), of_nat (inlen mod 256)] = ?a"
    unfolding aiv_of_def be_bytes_4 ..
  have a8: "length ?a = 8" by (rule length_aiv_of(1) [OF icv])
  have guards: "\<not> (inlen = 0 \<or> CRYPTO128_WRAP_MAX \<le> inlen)" "\<not> (length (given default_aiv icv) < 4 \<or> length inp < inlen)" using len icv room by auto
  show ?thesis
  proof (cases "L = 8")
    case True
    then have "inlen \<le> 8" using szs(2) by simp
    have o: "patch (patch (patch out 8 ?p) 0 ?a) (8 + inlen) (replicate (L - inlen) 0) = ?a @ pad8 ?p @ drop 16 out"
      unfolding pad using a8 p True room(2) \<open>inlen \<le> 8\<close> by (simp add: patch_def)
    have "take 16 (?a @ pad8 ?p @ drop 16 out) = ?a @ pad8 ?p" using a8 True lp by simp
    moreover have "length (block (?a @ pad8 ?p)) = 16" using b a8 True lp by simp
    ultimately show ?thesis
      unfolding CRYPTO_128_wrap_pad_def Let_def szs(1) a using guards o True room(2) p \<open>inlen \<le> 8\<close> a8 lp by (simp add: wrap_padded_def patch_def)
  next
    case False
    then have big: "16 \<le> L" "\<not> inlen \<le> 8" "L \<le> CRYPTO128_WRAP_MAX" using szs len by (auto simp: dvd_def)
    have o: "patch (patch out 0 ?p) inlen (replicate (L - inlen) 0) = pad8 ?p @ drop L out"
      unfolding pad using p room(2) szs(2) by (simp add: patch_def)
    have "CRYPTO_128_wrap block (Some ?a) (pad8 ?p @ drop L out) (pad8 ?p @ drop L out) L = Ret (L + 8, key_wrap block ?a (pad8 ?p) @ drop (L + 8) out)"
      using wrap_spec [OF b szs(4) big(1,3), of "pad8 ?p @ drop L out" "pad8 ?p @ drop L out" "Some ?a"] a8 room(2) lp by (simp add: add.commute)
    then show ?thesis
      unfolding CRYPTO_128_wrap_pad_def Let_def szs(1) a using guards o False room(2) p big lp by (simp add: wrap_padded_def)
  qed
qed

lemma ptext_len_value:
  "unat (((push_bit 24 (ucast b0) OR push_bit 16 (ucast b1)) OR push_bit 8 (ucast b2)) OR ucast b3 :: uint) = be_value [b0, b1, b2, b3]"
  using unat_byte_less [of b1] unat_byte_less [of b2] unat_byte_less [of b3]
  by (simp add: unat_or_bytes or_bytes_add be_value_def)

lemma unwrap_pad_opens:
  assumes b: "on_blocks 16 dblock" and len: "8 dvd inlen" "16 \<le> inlen" "inlen < CRYPTO128_WRAP_MAX" and icv: "4 \<le> length (given default_aiv icv)"
    and room: "inlen \<le> length inp" "inlen - 8 \<le> length out"
  shows "CRYPTO_128_unwrap_pad dblock icv out inp inlen =
    (let u = open_padded dblock (take inlen inp) in
     if padding_matches (given default_aiv icv) u then Ret (be_value (drop 4 (fst u)), snd u @ drop (inlen - 8) out)
     else obind (OPENSSL_cleanse (snd u @ drop (inlen - 8) out) inlen) (\<lambda>out. Ret (0, out)))"
proof -
  let ?c = "take inlen inp" and ?icv = "given default_aiv icv"
  obtain A d where u: "open_padded dblock ?c = (A, d)" by fastforce
  have c: "length ?c = inlen" using room(1) by simp
  have l: "length A = 8" "length d = inlen - 8" using length_open_padded [OF b, of ?c] c len u by simp_all
  define m where "m = be_value (drop 4 A)"
  have A4: "drop 4 A = [A ! 4, A ! 5, A ! 6, A ! 7]" using l(1) by (intro nth_equalityI) (auto simp: less_Suc_eq numeral_eq_Suc)
  have m: "unat (((push_bit 24 (ucast (A ! 4)) OR push_bit 16 (ucast (A ! 5))) OR push_bit 8 (ucast (A ! 6))) OR ucast (A ! 7) :: uint) = m"
    unfolding ptext_len_value m_def A4 ..
  have front: "(if inlen = 16 then
                 if length inp < 16 \<or> length out < 8 then Undef
                 else Ret (Some (8, take 8 (dblock (take 16 inp)), patch out 0 (drop 8 (dblock (take 16 inp)))), out)
               else
                 obind (crypto_128_unwrap_raw dblock out inp inlen) (\<lambda>(ret, aiv, out).
                 Ret (if inlen - 8 \<noteq> ret then None else Some (ret, aiv, out), out))) =
      Ret (Some (inlen - 8, A, d @ drop (inlen - 8) out), if inlen = 16 then out else d @ drop (inlen - 8) out)"
  proof (cases "inlen = 16")
    case True
    then have "take 8 (dblock (take 16 inp)) = A" "drop 8 (dblock (take 16 inp)) = d" using u c by (auto simp: open_padded_def)
    then show ?thesis using True room l by (simp add: patch_def)
  next
    case False
    then have "24 \<le> inlen" using len(1,2) by (auto simp: dvd_def)
    from unwrap_raw_spec [OF b len(1) this _ room] show ?thesis using False u c len(3) by (simp add: open_padded_def)
  qed
  have m4: "CRYPTO_memcmp (take 4 A) (take 4 ?icv) \<noteq> 0 \<longleftrightarrow> take 4 A \<noteq> take 4 ?icv"
  proof -
    have "length (take 4 A) = 4" "length (take 4 ?icv) = 4" using icv l(1) by (simp_all only: length_take min.absorb2)
    then show ?thesis by (metis CRYPTO_memcmp_eq_0)
  qed
  have n: "inlen - 8 = 8 * (inlen div 8 - 1)" "8 * (inlen div 8 - 1 - 1) + 16 = inlen" using len(1,2) by (auto simp: dvd_def)
  have rng: "(m \<le> 8 * (inlen div 8 - 1 - 1) \<or> 8 * (inlen div 8 - 1) < m) \<longleftrightarrow> \<not> (length d < m + 8 \<and> m \<le> length d)" using n l(2) by arith
  have z: "CRYPTO_memcmp (take (inlen - 8 - m) (drop m (d @ drop (inlen - 8) out))) (replicate (inlen - 8 - m) 0) \<noteq> 0 \<longleftrightarrow> drop m d \<noteq> replicate (length d - m) 0"
    if "m \<le> length d" using that l(2) by (subst CRYPTO_memcmp_eq_0) simp_all
  have g: "\<not> (inlen mod 8 \<noteq> 0 \<or> inlen < 16 \<or> CRYPTO128_WRAP_MAX \<le> inlen)" "\<not> length ?icv < 4" using len icv by (auto simp: mod_eq_0_iff_dvd)
  show ?thesis
    unfolding CRYPTO_128_unwrap_pad_def Let_def front obind.simps prod.case option.case m m4 rng u fst_conv snd_conv
    using g z by (auto simp: padding_matches_def m_def [symmetric] Let_def)
qed

end
