(* ===== verification/Wrap_Cipher.thy ===== *)
theory Wrap_Cipher
  imports Key_Wrap
begin

text \<open>
  Key wrapping as a cipher of the provider (\<open>providers/implementations/ciphers/cipher_aes_wrp.c\<close>), and the EVP calls on
  it, among them \<open>EVP_Cipher\<close> of \<open>crypto/evp/evp_lib.c\<close>: what is wrapped is unwrapped, nothing else is, and \<open>EVP_Cipher\<close> reports
  success when unwrapping fails.
\<close>

section \<open>The provider's cipher\<close>

type_synonym aeswrap_fn = "(byte list \<Rightarrow> byte list) \<Rightarrow> byte list option \<Rightarrow> byte list \<Rightarrow> byte list \<Rightarrow> nat \<Rightarrow> (nat \<times> byte list) outcome"

record PROV_AES_WRAP_CTX =
  w_base :: PROV_CIPHER_CTX
  w_wrapfn :: "aeswrap_fn option"

abbreviation AES_WRAP_PAD_IVLEN :: nat where "AES_WRAP_PAD_IVLEN \<equiv> 4"

text \<open>Whether the provider is running and whether the allocation succeeds are arguments.\<close>

definition aes_wrap_newctx :: "bool \<Rightarrow> bool \<Rightarrow> nat \<Rightarrow> nat \<Rightarrow> nat \<Rightarrow> nat \<Rightarrow> ulong \<Rightarrow> PROV_AES_WRAP_CTX option" where
  "aes_wrap_newctx running mem kbits blkbits ivbits mode flags =
     (if \<not> running \<or> \<not> mem then None
      else
        let ctx = ossl_cipher_generic_initkey zero_ctx kbits blkbits ivbits mode flags
        in Some \<lparr>w_base = ctx\<lparr>ctx_pad := (ctx_ivlen ctx = AES_WRAP_PAD_IVLEN)\<rparr>, w_wrapfn = None\<rparr>)"

definition aes_wrap_set_ctx_params :: "PROV_AES_WRAP_CTX \<Rightarrow> nat option option option \<Rightarrow> (PROV_AES_WRAP_CTX \<times> (cipher_error + unit)) outcome" where
  "aes_wrap_set_ctx_params w params =
     (case params of
        None \<Rightarrow> Ret (w, Inr ())
      | Some None \<Rightarrow> Ret (w, Inr ())
      | Some (Some None) \<Rightarrow> Ret (w, Inl PROV_R_FAILED_TO_GET_PARAMETER)
      | Some (Some (Some keylen)) \<Rightarrow>
          Ret (w, if ctx_keylen (w_base w) \<noteq> keylen then Inl PROV_R_INVALID_KEY_LENGTH else Inr ()))"

text \<open>The two directions of AES are arguments: each takes the key and gives the function on a block.\<close>

definition aes_wrap_init ::
    "(byte list \<Rightarrow> byte list \<Rightarrow> byte list) \<Rightarrow> (byte list \<Rightarrow> byte list \<Rightarrow> byte list) \<Rightarrow> bool \<Rightarrow> PROV_AES_WRAP_CTX \<Rightarrow> byte list option \<Rightarrow> byte list option
     \<Rightarrow> nat option option option \<Rightarrow> bool \<Rightarrow> (PROV_AES_WRAP_CTX \<times> (cipher_error + unit)) outcome" where
  "aes_wrap_init AES_encrypt AES_decrypt running w key iv params enc =
     (if \<not> running then Ret (w, Inl PROV_NOT_RUNNING)
      else
        let w = w\<lparr>w_base := (w_base w)\<lparr>ctx_enc := enc\<rparr>\<rparr>;
            w = w\<lparr>w_wrapfn := Some (if ctx_pad (w_base w) then if enc then CRYPTO_128_wrap_pad else CRYPTO_128_unwrap_pad
                                     else if enc then CRYPTO_128_wrap else CRYPTO_128_unwrap)\<rparr>
        in cbind (case iv of
                    None \<Rightarrow> Ret (w, Inr ())
                  | Some v \<Rightarrow> obind (ossl_cipher_generic_initiv (w_base w) v) (\<lambda>(ctx, r). Ret (w\<lparr>w_base := ctx\<rparr>, r))) (\<lambda>w _.
           cbind (case key of
                    None \<Rightarrow> Ret (w, Inr ())
                  | Some k \<Rightarrow>
                      if length k \<noteq> ctx_keylen (w_base w) then Ret (w, Inl PROV_R_INVALID_KEY_LENGTH)
                      else
                        let use_forward_transform =
                              (if \<not> ctx_inverse_cipher (w_base w) then ctx_enc (w_base w) else \<not> ctx_enc (w_base w))
                        in Ret (w\<lparr>w_base := (w_base w)\<lparr>ctx_block := if use_forward_transform then AES_encrypt k else AES_decrypt k\<rparr>\<rparr>, Inr ())) (\<lambda>w _.
           aes_wrap_set_ctx_params w params)))"

definition aes_wrap_einit ::
    "(byte list \<Rightarrow> byte list \<Rightarrow> byte list) \<Rightarrow> (byte list \<Rightarrow> byte list \<Rightarrow> byte list) \<Rightarrow> bool \<Rightarrow> PROV_AES_WRAP_CTX \<Rightarrow> byte list option \<Rightarrow> byte list option
     \<Rightarrow> nat option option option \<Rightarrow> (PROV_AES_WRAP_CTX \<times> (cipher_error + unit)) outcome" where
  "aes_wrap_einit AES_encrypt AES_decrypt running w key iv params = aes_wrap_init AES_encrypt AES_decrypt running w key iv params True"

definition aes_wrap_dinit ::
    "(byte list \<Rightarrow> byte list \<Rightarrow> byte list) \<Rightarrow> (byte list \<Rightarrow> byte list \<Rightarrow> byte list) \<Rightarrow> bool \<Rightarrow> PROV_AES_WRAP_CTX \<Rightarrow> byte list option \<Rightarrow> byte list option
     \<Rightarrow> nat option option option \<Rightarrow> (PROV_AES_WRAP_CTX \<times> (cipher_error + unit)) outcome" where
  "aes_wrap_dinit AES_encrypt AES_decrypt running w key iv params = aes_wrap_init AES_encrypt AES_decrypt running w key iv params False"

text \<open>The result is an \<open>int\<close>, -1 for an error, and the object at \<open>out\<close>, if this is not NULL.\<close>

definition aes_wrap_cipher_internal :: "PROV_AES_WRAP_CTX \<Rightarrow> byte list option \<Rightarrow> IN_PTR \<Rightarrow> nat \<Rightarrow> (int \<times> byte list option) outcome" where
  "aes_wrap_cipher_internal w out inp inlen =
     (let ctx = w_base w; pad = ctx_pad ctx in
      if inp = In_NULL then Ret (0, out)
      else if inlen = 0 then Ret (- 1, out)
      else if \<not> ctx_enc ctx \<and> (inlen < 16 \<or> inlen mod 8 \<noteq> 0) then Ret (- 1, out)
      else if \<not> pad \<and> inlen mod 8 \<noteq> 0 then Ret (- 1, out)
      else case out of
        None \<Rightarrow>
          Ret (if ctx_enc ctx then sint (of_nat ((if pad then sz_add inlen 7 div 8 * 8 else inlen) + 8) :: uint)
               else sint (of_nat (inlen - 8) :: uint), None)
      | Some obj \<Rightarrow>
          (case w_wrapfn w of
             None \<Rightarrow> Undef
           | Some wrapfn \<Rightarrow>
               obind (wrapfn (ctx_block ctx) (if ctx_iv_set ctx then Some (ctx_iv ctx) else None) obj
                        (case inp of In_At d \<Rightarrow> d | _ \<Rightarrow> obj) inlen) (\<lambda>(rv, obj).
               Ret (if rv = 0 then - 1 else if rv > INT_MAX then - 1 else int rv, Some obj))))"

definition aes_wrap_final :: "bool \<Rightarrow> PROV_AES_WRAP_CTX \<Rightarrow> byte list \<Rightarrow> nat \<Rightarrow> (PROV_AES_WRAP_CTX \<times> (cipher_error + nat \<times> byte list)) outcome" where
  "aes_wrap_final running w out outsize = Ret (w, if \<not> running then Inl PROV_NOT_RUNNING else Inr (0, out))"

text \<open>The result goes into the unsigned \<open>len\<close>, where only 0 is left as a sign of failure.\<close>

definition aes_wrap_cipher :: "bool \<Rightarrow> PROV_AES_WRAP_CTX \<Rightarrow> byte list \<Rightarrow> nat \<Rightarrow> IN_PTR \<Rightarrow> nat \<Rightarrow> (PROV_AES_WRAP_CTX \<times> (cipher_error + nat \<times> byte list)) outcome" where
  "aes_wrap_cipher running w out outsize inp inl =
     (if \<not> running then Ret (w, Inl PROV_NOT_RUNNING)
      else if inl = 0 then Ret (w, Inr (0, out))
      else if outsize < inl then Ret (w, Inl PROV_R_OUTPUT_BUFFER_TOO_SMALL)
      else
        obind (aes_wrap_cipher_internal w (Some out) inp inl) (\<lambda>(r, obj).
        let len = unat (word_of_int r :: ulong) in
        Ret (w, if len \<le> 0 then Inl NO_INPUT else Inr (len, case obj of None \<Rightarrow> out | Some obj \<Rightarrow> obj))))"

section \<open>The call that returns what it got\<close>

text \<open>
  The function \<open>ccipher\<close> is one that the provider need not have. The result is an \<open>int\<close> and, when the provider succeeded, the object at \<open>out\<close>.
\<close>

definition EVP_Cipher ::
    "'a cupdate_fn option \<Rightarrow> 'a cupdate_fn \<Rightarrow> 'a cfinal_fn \<Rightarrow> 'a EVP_CIPHER_CTX \<Rightarrow> byte list \<Rightarrow> IN_PTR \<Rightarrow> nat \<Rightarrow> ('a EVP_CIPHER_CTX \<times> int \<times> byte list option) outcome" where
  "EVP_Cipher ccipher cupdate cfinal ctx out inp inl =
     (case evp_cipher ctx of
        None \<Rightarrow> Ret (ctx, 0, Some out)
      | Some blocksize \<Rightarrow>
          if blocksize = 0 then Ret (ctx, 0, Some out)
          else
            let extra = (if blocksize = 1 then 0 else blocksize) in
            (case ccipher of
               Some f \<Rightarrow>
                 obind (f (evp_algctx ctx) out (inl + extra) inp inl) (\<lambda>(alg, r).
                 Ret (ctx\<lparr>evp_algctx := alg\<rparr>,
                      case r of Inl _ \<Rightarrow> (- 1, None) | Inr (outl, out) \<Rightarrow> (sint (of_nat outl :: uint), Some out)))
             | None \<Rightarrow>
                 obind (if inp \<noteq> In_NULL then cupdate (evp_algctx ctx) out (inl + extra) inp inl
                        else cfinal (evp_algctx ctx) out extra) (\<lambda>(alg, r).
                 Ret (ctx\<lparr>evp_algctx := alg\<rparr>, case r of Inl _ \<Rightarrow> (0, None) | Inr (outl, out) \<Rightarrow> (1, Some out)))))"

section \<open>Contexts that are set up\<close>

definition wrap_ready :: "bool \<Rightarrow> bool \<Rightarrow> byte list option \<Rightarrow> PROV_AES_WRAP_CTX EVP_CIPHER_CTX \<Rightarrow> bool" where
  "wrap_ready encrypting pad iv e \<longleftrightarrow>
     (let w = evp_algctx e; ctx = w_base w in
      evp_encrypt e = encrypting \<and> evp_cipher e = Some 8 \<and> ctx_enc ctx = encrypting \<and> ctx_pad ctx = pad
      \<and> (if ctx_iv_set ctx then Some (ctx_iv ctx) else None) = iv \<and> length (ctx_iv ctx) = 16
      \<and> w_wrapfn w = Some (if pad then if encrypting then CRYPTO_128_wrap_pad else CRYPTO_128_unwrap_pad
                             else if encrypting then CRYPTO_128_wrap else CRYPTO_128_unwrap)
      \<and> on_blocks 16 (ctx_block ctx))"

abbreviation wrap_block :: "PROV_AES_WRAP_CTX EVP_CIPHER_CTX \<Rightarrow> byte list \<Rightarrow> byte list" where
  "wrap_block e \<equiv> ctx_block (w_base (evp_algctx e))"

abbreviation EVP_CIPH_WRAP_MODE :: nat where "EVP_CIPH_WRAP_MODE \<equiv> 0x10002"

text \<open>Creating a context and initialising it with a key and an IV of the right length gives one.\<close>

lemma init_gives_wrap_ready:
  assumes "8 * length k = kbits" "length v = (if pad then 4 else 8)" "on_blocks 16 (aes_e k)" "on_blocks 16 (aes_d k)"
    and flags: "flags AND PROV_CIPHER_FLAG_INVERSE_CIPHER = 0"
  shows "\<exists>w c. aes_wrap_newctx True True kbits 64 (if pad then 32 else 64) EVP_CIPH_WRAP_MODE flags = Some w
    \<and> (if encrypting then aes_wrap_einit else aes_wrap_dinit) aes_e aes_d True w (Some k) (Some v) None = Ret (c, Inr ())
    \<and> wrap_ready encrypting pad (Some (v @ replicate (16 - length v) 0)) \<lparr>evp_encrypt = encrypting, evp_cipher = Some 8, evp_algctx = c\<rparr>
    \<and> ctx_block (w_base c) = (if encrypting then aes_e k else aes_d k)"
proof -
  have "kbits div 8 = length k" using assms(1) by auto
  then show ?thesis using assms(2-5)
    by (auto simp: aes_wrap_newctx_def aes_wrap_einit_def aes_wrap_dinit_def aes_wrap_init_def ossl_cipher_generic_initkey_def Let_def cbind_def
        ossl_cipher_generic_initiv_def aes_wrap_set_ctx_params_def patch_def wrap_ready_def zero_ctx_def)
qed

section \<open>What an update returns\<close>

definition wrap_fn :: "bool \<Rightarrow> bool \<Rightarrow> aeswrap_fn" where
  "wrap_fn pad encrypting = (if pad then if encrypting then CRYPTO_128_wrap_pad else CRYPTO_128_unwrap_pad
     else if encrypting then CRYPTO_128_wrap else CRYPTO_128_unwrap)"

definition length_ok :: "bool \<Rightarrow> bool \<Rightarrow> nat \<Rightarrow> bool" where
  "length_ok pad encrypting n \<longleftrightarrow> 0 < n \<and> (encrypting \<or> 16 \<le> n \<and> 8 dvd n) \<and> (pad \<or> 8 dvd n)"

lemma len_of_int: "unat (- 1 :: ulong) = 18446744073709551615" "n \<le> INT_MAX \<Longrightarrow> unat (of_nat n :: ulong) = n"
  by (simp_all add: unsigned_of_nat take_bit_nat_eq_self unsigned_minus_1_eq_mask mask_eq_exp_minus_1)

lemma wrap_cipher_eq:
  assumes r: "wrap_ready encrypting pad iv e" and d: "0 < inl"
  shows "aes_wrap_cipher True (evp_algctx e) out (inl + 8) (In_At d) inl =
    (if length_ok pad encrypting inl
     then obind (wrap_fn pad encrypting (wrap_block e) iv out d inl) (\<lambda>(rv, obj).
            Ret (evp_algctx e, Inr (if rv = 0 \<or> rv > INT_MAX then SIZE_MAX else rv, obj)))
     else Ret (evp_algctx e, Inr (SIZE_MAX, out)))"
proof -
  have fn: "w_wrapfn (evp_algctx e) = Some (wrap_fn pad encrypting)" "ctx_enc (w_base (evp_algctx e)) = encrypting" "ctx_pad (w_base (evp_algctx e)) = pad"
      "(if ctx_iv_set (w_base (evp_algctx e)) then Some (ctx_iv (w_base (evp_algctx e))) else None) = iv"
    using r by (simp_all add: wrap_ready_def Let_def wrap_fn_def)
  have int: "aes_wrap_cipher_internal (evp_algctx e) (Some out) (In_At d) inl =
      (if length_ok pad encrypting inl
       then obind (wrap_fn pad encrypting (wrap_block e) iv out d inl) (\<lambda>(rv, obj). Ret (if rv = 0 \<or> rv > INT_MAX then - 1 else int rv, Some obj))
       else Ret (- 1, Some out))"
    unfolding aes_wrap_cipher_internal_def Let_def fn using d
    by (auto simp: length_ok_def mod_eq_0_iff_dvd intro!: arg_cong [where f = "obind _"])
  have len: "unat (word_of_int (if rv = 0 \<or> rv > INT_MAX then - 1 else int rv) :: ulong) = (if rv = 0 \<or> rv > INT_MAX then SIZE_MAX else rv)" for rv
    using len_of_int by simp
  show ?thesis
    unfolding aes_wrap_cipher_def int using d
    by (cases "wrap_fn pad encrypting (wrap_block e) iv out d inl") (simp_all add: Let_def len len_of_int del: of_int_of_nat_eq, simp_all add: len_of_int split: prod.split)
qed

abbreviation EVP_wrap_update :: "bool \<Rightarrow> PROV_AES_WRAP_CTX EVP_CIPHER_CTX \<Rightarrow> byte list \<Rightarrow> IN_PTR \<Rightarrow> nat \<Rightarrow> (PROV_AES_WRAP_CTX EVP_CIPHER_CTX \<times> (cipher_error + nat \<times> byte list)) outcome" where
  "EVP_wrap_update encrypting \<equiv> (if encrypting then EVP_EncryptUpdate else EVP_DecryptUpdate) (aes_wrap_cipher True)"

lemma evp_wrap_eq:
  assumes r: "wrap_ready encrypting pad iv e" and d: "0 < inl"
  shows "EVP_wrap_update encrypting e out (In_At d) inl =
    (if length_ok pad encrypting inl
     then obind (wrap_fn pad encrypting (wrap_block e) iv out d inl) (\<lambda>(rv, obj).
            Ret (e, if rv = 0 \<or> rv > INT_MAX then Inl EVP_R_UPDATE_ERROR else Inr (rv, obj)))
     else Ret (e, Inl EVP_R_UPDATE_ERROR))"
proof -
  have e: "evp_encrypt e = encrypting" "evp_cipher e = Some 8" using r by (simp_all add: wrap_ready_def Let_def)
  have "EVP_wrap_update encrypting e out (In_At d) inl =
      evp_call EVP_R_UPDATE_ERROR encrypting (\<lambda>alg extra. aes_wrap_cipher True alg out (inl + extra) (In_At d) inl) e"
    by (cases encrypting) (simp_all add: EVP_EncryptUpdate_def EVP_DecryptUpdate_def)
  then show ?thesis
    using e wrap_cipher_eq [OF r d, of out d]
    by (cases "wrap_fn pad encrypting (wrap_block e) iv out d inl") (auto simp: evp_call_def Let_def)
qed

lemma evp_cipher_eq:
  assumes r: "wrap_ready encrypting pad iv e" and d: "0 < inl"
  shows "EVP_Cipher None (aes_wrap_cipher True) (aes_wrap_final True) e out (In_At d) inl =
    (if length_ok pad encrypting inl
     then obind (wrap_fn pad encrypting (wrap_block e) iv out d inl) (\<lambda>(rv, obj). Ret (e, 1, Some obj))
     else Ret (e, 1, Some out))"
  using r wrap_cipher_eq [OF r d, of out d]
  by (cases "wrap_fn pad encrypting (wrap_block e) iv out d inl") (auto simp: EVP_Cipher_def Let_def wrap_ready_def)

section \<open>The functions in one form\<close>

text \<open>What can be wrapped so that the lengths on both sides fit into an \<open>int\<close>, the wrapped form and the unwrapped one.\<close>

definition wrappable :: "bool \<Rightarrow> byte list \<Rightarrow> bool" where
  "wrappable pad p \<longleftrightarrow> (if pad then 0 < length p \<and> length p + 16 \<le> 2 ^ 31 else 8 dvd length p \<and> 16 \<le> length p \<and> length p + 16 \<le> 2 ^ 31)"

definition wrapped :: "bool \<Rightarrow> (byte list \<Rightarrow> byte list) \<Rightarrow> byte list option \<Rightarrow> byte list \<Rightarrow> byte list" where
  "wrapped pad block iv p = (if pad then wrap_padded block (given default_aiv iv) p else key_wrap block (take 8 (given default_iv iv)) p)"

abbreviation iv_fits :: "byte list option \<Rightarrow> bool" where
  "iv_fits iv \<equiv> (\<forall>v. iv = Some v \<longrightarrow> length v = 16)"

lemma given_lengths: "iv_fits iv \<Longrightarrow> 8 \<le> length (given default_iv iv)" "iv_fits iv \<Longrightarrow> 4 \<le> length (given default_aiv iv)"
  "iv_fits iv \<Longrightarrow> length (take 8 (given default_iv iv)) = 8"
  by (cases iv; simp add: default_iv_def default_aiv_def)+

lemma wrap_ready_iv: "wrap_ready encrypting pad iv e \<Longrightarrow> iv_fits iv"
  by (auto simp: wrap_ready_def Let_def split: if_splits)

lemma length_wrapped:
  assumes "on_blocks 16 block" "iv_fits iv" "wrappable pad p"
  shows "length (wrapped pad block iv p) = (if pad then length (pad8 p) + 8 else length p + 8)" "8 dvd length (wrapped pad block iv p)" "16 \<le> length (wrapped pad block iv p)"
    "length (wrapped pad block iv p) < 2 ^ 31" "length (wrapped pad block iv p) \<le> length p + 15" "length p + 8 \<le> length (wrapped pad block iv p)"
proof -
  have l: "length (wrapped pad block iv p) = (if pad then length (pad8 p) + 8 else length p + 8)"
  proof (cases pad)
    case True
    have p: "0 < length p" using assms(3) True by (simp add: wrappable_def)
    have a: "length (aiv_of (given default_aiv iv) (length p)) = 8" using given_lengths(2) [OF assms(2)] by (rule length_aiv_of)
    show ?thesis
    proof (cases "length p \<le> 8")
      case short: True
      then have "length (pad8 p) = 8" using p unfolding length_pad8(1) by presburger
      then show ?thesis using True short a assms(1) by (simp add: wrapped_def wrap_padded_def)
    next
      case False
      then show ?thesis using True length_key_wrap [OF assms(1) a length_pad8(2)] by (simp add: wrapped_def wrap_padded_def)
    qed
  next
    case False
    then show ?thesis using length_key_wrap [OF assms(1) given_lengths(3) [OF assms(2)], of p] assms(3) by (simp add: wrapped_def wrappable_def)
  qed
  have p8: "8 dvd length (pad8 p)" "length p \<le> length (pad8 p)" "length (pad8 p) < length p + 8" by (rule length_pad8)+
  show "length (wrapped pad block iv p) = (if pad then length (pad8 p) + 8 else length p + 8)" by (rule l)
  show "8 dvd length (wrapped pad block iv p)" "16 \<le> length (wrapped pad block iv p)" "length (wrapped pad block iv p) < 2 ^ 31"
    "length (wrapped pad block iv p) \<le> length p + 15" "length p + 8 \<le> length (wrapped pad block iv p)"
  proof -
    obtain k where k: "length (pad8 p) = 8 * k" using p8(1) by (rule dvdE)
    have "pad \<Longrightarrow> 1 \<le> k" using assms(3) p8(2) k by (cases k) (simp_all add: wrappable_def)
    moreover have "8 dvd length p \<Longrightarrow> 8 dvd length p + 8" by simp
    moreover have "8 dvd 8 * k + 8" by simp
    ultimately show "8 dvd length (wrapped pad block iv p)" "16 \<le> length (wrapped pad block iv p)" "length (wrapped pad block iv p) < 2 ^ 31"
      "length (wrapped pad block iv p) \<le> length p + 15" "length p + 8 \<le> length (wrapped pad block iv p)"
      using assms(3) p8(2,3) k unfolding l wrappable_def by (auto split: if_splits)
  qed
qed

lemma wrap_fn_wraps:
  assumes b: "on_blocks 16 block" and iv: "iv_fits iv" and p: "wrappable pad p" and room: "length (wrapped pad block iv p) \<le> length out"
  shows "wrap_fn pad True block iv out p (length p) = Ret (length (wrapped pad block iv p), wrapped pad block iv p @ drop (length (wrapped pad block iv p)) out)"
proof (cases pad)
  case True
  note l = length_wrapped(1,4) [OF b iv p]
  show ?thesis
    using wrap_pad_spec [OF b _ _ given_lengths(2) [OF iv], of "length p" p out] p room l True
    by (simp add: wrap_fn_def wrapped_def wrappable_def through_int_small)
next
  case False
  note l = length_wrapped(1) [OF b iv p]
  show ?thesis
    using wrap_spec [OF b _ _ _ _ _ given_lengths(1) [OF iv], of "length p" p out] p room l False
    by (simp add: wrap_fn_def wrapped_def wrappable_def)
qed

text \<open>
  Unwrapping succeeds exactly for what some wrapping made, and gives that back.
\<close>

lemma unwrap_fn_cases:
  assumes b: "on_blocks 16 block" "on_blocks 16 dblock" "undoes 16 block dblock" "undoes 16 dblock block" and iv: "iv_fits iv"
    and c: "8 dvd length c" "16 \<le> length c" "length c < 2 ^ 31" and room: "length c \<le> length out"
  obtains p pt where "wrap_fn pad False dblock iv out c (length c) = Ret (length p, pt)" "take (length p) pt = p" "wrappable pad p" "wrapped pad block iv p = c"
  | pt where "wrap_fn pad False dblock iv out c (length c) = Ret (0, pt)" "\<And>p. wrappable pad p \<Longrightarrow> wrapped pad block iv p \<noteq> c"
proof (cases pad)
  case True
  let ?u = "open_padded dblock c" and ?icv = "given default_aiv iv"
  let ?m = "be_value (drop 4 (fst ?u))"
  have spec: "wrap_fn pad False dblock iv out c (length c) =
      Ret (if padding_matches ?icv ?u then (?m, snd ?u @ drop (length c - 8) out) else (0, replicate (length c) 0 @ drop (length c) (snd ?u @ drop (length c - 8) out)))"
    using unwrap_pad_opens [OF b(2) c given_lengths(2) [OF iv], of c out] room True length_open_padded [OF b(2) c(1,2)]
    by (simp add: wrap_fn_def Let_def cleanse_prefix)
  show thesis
  proof (cases "padding_matches ?icv ?u")
    case ok: True
    then have m: "?m \<le> length (snd ?u)" "length (snd ?u) < ?m + 8" by (simp_all add: padding_matches_def Let_def)
    moreover obtain k where "length c = 8 * k" using c(1) by (rule dvdE)
    ultimately have "wrappable pad (take ?m (snd ?u))" using True c(2,3) length_open_padded [OF b(2) c(1,2)] by (simp add: wrappable_def) arith
    moreover have "wrapped pad block iv (take ?m (snd ?u)) = c"
      using wrap_open_padded [OF b(1-3) given_lengths(2) [OF iv] c(1,2) ok] True by (simp add: wrapped_def)
    ultimately show thesis using that(1) [of "take ?m (snd ?u)"] spec ok m(1) by simp
  next
    case no: False
    have "wrapped pad block iv p \<noteq> c" if p: "wrappable pad p" for p
    proof
      assume "wrapped pad block iv p = c"
      then have w: "c = wrap_padded block ?icv p" "0 < length p" "length p < 256 ^ 4" using True p by (auto simp: wrapped_def wrappable_def)
      have "?u = (aiv_of ?icv (length p), pad8 p)" unfolding w(1) by (rule open_wrap_padded(2) [OF b(1,2,4) given_lengths(2) [OF iv] w(2)])
      moreover have "padding_matches ?icv (aiv_of ?icv (length p), pad8 p)"
        using length_pad8 [of p] length_aiv_of [OF given_lengths(2) [OF iv]] be_value_be_bytes_fits [OF w(3)] by (simp add: padding_matches_def Let_def pad8_def)
      ultimately show False using no by simp
    qed
    then show thesis using that(2) spec no by simp
  qed
next
  case nopad: False
  let ?u = "key_unwrap dblock c" and ?iv = "take 8 (given default_iv iv)"
  show thesis
  proof (cases "length c = 16")
    case True
    then have "wrap_fn pad False dblock iv out c (length c) = Ret (0, out)"
      using unwrap_raw_refuses [of 16 dblock out c] nopad by (simp add: wrap_fn_def CRYPTO_128_unwrap_def)
    moreover have "wrapped pad block iv p \<noteq> c" if "wrappable pad p" for p
      using length_wrapped(6) [OF b(1) iv that] that True nopad by (auto simp: wrappable_def)
    ultimately show thesis using that(2) by blast
  next
    case False
    then have c24: "24 \<le> length c" using c(1,2) by (auto simp: dvd_def)
    obtain n where n: "length c = 8 * n" "0 < n" using c by (auto simp: dvd_def)
    have l: "length (snd ?u) = length c - 8" using length_key_unwrap [OF b(2) c(1)] c(2) by simp
    have spec: "wrap_fn pad False dblock iv out c (length c) =
        Ret (if fst ?u = ?iv then (length c - 8, snd ?u @ drop (length c - 8) out) else (0, replicate (length c - 8) 0 @ drop (length c - 8) out))"
      using unwrap_spec [OF b(2) c(1) c24 _ _ _ given_lengths(1) [OF iv], of c out] c(3) room nopad by (simp add: wrap_fn_def)
    show thesis
    proof (cases "fst ?u = ?iv")
      case True
      have "wrappable pad (snd ?u)" using nopad c(3) c24 l n by (simp add: wrappable_def dvd_diff_nat)
      moreover have "wrapped pad block iv (snd ?u) = c" using key_wrap_unwrap [OF b(1-3) n] True nopad by (simp add: wrapped_def)
      ultimately show thesis using that(1) [of "snd ?u"] spec True l by simp
    next
      case no: False
      have "wrapped pad block iv p \<noteq> c" if p: "wrappable pad p" for p
        using key_unwrap_wrap [OF b(1,2,4) given_lengths(3) [OF iv], of p] p no nopad by (auto simp: wrapped_def wrappable_def)
      then show thesis using that(2) spec no by simp
    qed
  qed
qed

lemma wrapped_inj:
  assumes b: "on_blocks 16 block" "on_blocks 16 dblock" "undoes 16 dblock block" and iv: "iv_fits iv"
    and p: "wrappable pad p" "wrappable pad q" and eq: "wrapped pad block iv p = wrapped pad block iv q"
  shows "p = q"
proof (cases pad)
  case True
  let ?icv = "given default_aiv iv"
  have "0 < length p" "0 < length q" using p True by (simp_all add: wrappable_def)
  then have "(aiv_of ?icv (length p), pad8 p) = (aiv_of ?icv (length q), pad8 q)"
    using eq True open_wrap_padded(2) [OF b given_lengths(2) [OF iv]] by (metis wrapped_def)
  then have "pad8 p = pad8 q" "be_bytes 4 (length p) = be_bytes 4 (length q)" by (simp_all add: aiv_of_def)
  moreover have "length p < 256 ^ 4" "length q < 256 ^ 4" using p True by (simp_all add: wrappable_def)
  ultimately show ?thesis by (metis be_value_be_bytes_fits length_pad8(5))
next
  case False
  then show ?thesis using eq p key_unwrap_wrap [OF b given_lengths(3) [OF iv]] by (metis wrapped_def wrappable_def prod.inject)
qed

lemma wrappable_length_ok: "wrappable pad p \<Longrightarrow> length_ok pad True (length p)" "wrappable pad p \<Longrightarrow> 0 < length p"
  by (auto simp: wrappable_def length_ok_def split: if_splits)

text \<open>Contexts without an IV over the block function of the other examples.\<close>

definition flip_wrap :: "bool \<Rightarrow> bool \<Rightarrow> PROV_AES_WRAP_CTX EVP_CIPHER_CTX" where
  "flip_wrap pad encrypting = \<lparr>evp_encrypt = encrypting, evp_cipher = Some 8,
     evp_algctx = \<lparr>w_base = zero_ctx\<lparr>ctx_block := flip_block, ctx_enc := encrypting, ctx_pad := pad\<rparr>, w_wrapfn = Some (wrap_fn pad encrypting)\<rparr>\<rparr>"

lemma flip_wrap_ready: "wrap_ready encrypting pad None (flip_wrap pad encrypting)" "wrap_block (flip_wrap pad encrypting) = flip_block"
  using flip_undoes(2) by (simp_all add: wrap_ready_def flip_wrap_def zero_ctx_def wrap_fn_def Let_def)

section \<open>Properties\<close>

text \<open>
  C29: what an application wraps is unwrapped to the same key, with or without padding and for every IV or none: the result is 8 bytes longer than the key,
  rounded up to a multiple of 8 when it is padded, and the receiver gets the length and the bytes of the key. The output buffer has room for 15 bytes more than the key,
  which is more than the 8 bytes the documentation of \<open>EVP_EncryptUpdate\<close> gives for wrap modes and which a padded key needs. The key is not empty (without padding
  at least 16 bytes and a multiple of 8), its length is at most 2^31 - 16, and the two block functions are inverse to each other.
\<close>

theorem wrap_roundtrip:
  assumes e: "wrap_ready True pad iv e" and e': "wrap_ready False pad iv e'" and inv: "undoes 16 (wrap_block e') (wrap_block e)" "undoes 16 (wrap_block e) (wrap_block e')"
    and p: "wrappable pad p" and out: "length p + 15 \<le> length out"
  shows "\<exists>n ct. EVP_EncryptUpdate (aes_wrap_cipher True) e out (In_At p) (length p) = Ret (e, Inr (n, ct)) \<and> n = (if pad then (length p + 7) div 8 * 8 else length p) + 8
    \<and> (\<forall>out'. n \<le> length out' \<longrightarrow> (\<exists>pt. EVP_DecryptUpdate (aes_wrap_cipher True) e' out' (In_At (take n ct)) n = Ret (e', Inr (length p, pt)) \<and> take (length p) pt = p))"
proof -
  let ?w = "wrapped pad (wrap_block e) iv p"
  have b: "on_blocks 16 (wrap_block e)" "on_blocks 16 (wrap_block e')" using e e' by (simp_all add: wrap_ready_def Let_def)
  note iv = wrap_ready_iv [OF e]
  note l = length_wrapped [OF b(1) iv p]
  have enc: "EVP_EncryptUpdate (aes_wrap_cipher True) e out (In_At p) (length p) = Ret (e, Inr (length ?w, ?w @ drop (length ?w) out))"
    using evp_wrap_eq [OF e wrappable_length_ok(2) [OF p], of out p] wrappable_length_ok(1) [OF p] wrap_fn_wraps [OF b(1) iv p, of out] l out by simp
  have dec: "\<exists>pt. EVP_DecryptUpdate (aes_wrap_cipher True) e' out' (In_At ?w) (length ?w) = Ret (e', Inr (length p, pt)) \<and> take (length p) pt = p"
    if out': "length ?w \<le> length out'" for out'
  proof (rule unwrap_fn_cases [OF b inv(2,1) iv l(2,3,4) out'])
    fix q pt
    assume q: "wrap_fn pad False (wrap_block e') iv out' ?w (length ?w) = Ret (length q, pt)" "take (length q) pt = q" "wrappable pad q" "wrapped pad (wrap_block e) iv q = ?w"
    have "q = p" using wrapped_inj [OF b inv(1) iv q(3) p q(4)] .
    moreover have "length_ok pad False (length ?w)" using l by (simp add: length_ok_def)
    moreover have "0 < length ?w" "\<not> length p = 0" using l(3) wrappable_length_ok(2) [OF p] by linarith+
    moreover have "\<not> INT_MAX < length p" using l(4,6) by simp
    ultimately show ?thesis using evp_wrap_eq [OF e', of "length ?w" out' ?w] q by simp
  next
    fix pt assume "\<And>q. wrappable pad q \<Longrightarrow> wrapped pad (wrap_block e) iv q \<noteq> ?w"
    then show ?thesis using p by blast
  qed
  have "length ?w = (if pad then (length p + 7) div 8 * 8 else length p) + 8" using l(1) by (simp add: length_pad8(1))
  then show ?thesis using enc dec by (intro exI [of _ "length ?w"] exI [of _ "?w @ drop (length ?w) out"]) simp
qed

theorem wrap_roundtrip_witness:
  "\<exists>ct pt. EVP_EncryptUpdate (aes_wrap_cipher True) (flip_wrap True True) (replicate 18 0) (In_At [1, 2, 3]) 3 = Ret (flip_wrap True True, Inr (16, ct))
    \<and> EVP_DecryptUpdate (aes_wrap_cipher True) (flip_wrap True False) (replicate 18 0) (In_At (take 16 ct)) 16 = Ret (flip_wrap True False, Inr (3, pt)) \<and> take 3 pt = [1, 2, 3]"
proof -
  have "wrappable True [1, 2, 3]" by (simp add: wrappable_def)
  moreover have "undoes 16 (wrap_block (flip_wrap True b)) (wrap_block (flip_wrap True b'))" for b b' unfolding flip_wrap_ready(2) by (rule flip_undoes)
  ultimately obtain n ct where r: "EVP_EncryptUpdate (aes_wrap_cipher True) (flip_wrap True True) (replicate 18 0) (In_At [1, 2, 3]) 3 = Ret (flip_wrap True True, Inr (n, ct))"
      "n = 16" "\<forall>out'. n \<le> length out' \<longrightarrow> (\<exists>pt. EVP_DecryptUpdate (aes_wrap_cipher True) (flip_wrap True False) out' (In_At (take n ct)) n = Ret (flip_wrap True False, Inr (3, pt)) \<and> take 3 pt = [1, 2, 3])"
    using wrap_roundtrip [OF flip_wrap_ready(1) [of True True] flip_wrap_ready(1) [of False True], of "[1, 2, 3]" "replicate 18 0"] by (auto simp: numeral_3_eq_3)
  have "16 \<le> length (replicate 18 (0 :: byte))" by simp
  then show ?thesis using r(1,3) unfolding r(2) by blast
qed

text \<open>
  C28: nothing else is unwrapped: when decryption of a non-empty input succeeds, then the key it returns is not empty, and wrapping it gives exactly the input. A change of any
  byte, a wrong length, padding that is not zero or a length field that does not match is therefore found.
\<close>

theorem unwrap_authentic:
  assumes e: "wrap_ready True pad iv e" and e': "wrap_ready False pad iv e'" and inv: "undoes 16 (wrap_block e') (wrap_block e)" "undoes 16 (wrap_block e) (wrap_block e')"
    and c: "0 < length c" "length c < 2 ^ 31" "length c \<le> length out"
    and ok: "EVP_DecryptUpdate (aes_wrap_cipher True) e' out (In_At c) (length c) = Ret (e1, Inr (n, pt))"
  shows "0 < n \<and> (\<forall>out'. length c \<le> length out' \<longrightarrow> EVP_EncryptUpdate (aes_wrap_cipher True) e out' (In_At (take n pt)) n = Ret (e, Inr (length c, c @ drop (length c) out')))"
proof -
  have b: "on_blocks 16 (wrap_block e)" "on_blocks 16 (wrap_block e')" using e e' by (simp_all add: wrap_ready_def Let_def)
  note iv = wrap_ready_iv [OF e]
  have lok: "length_ok pad False (length c)" using ok evp_wrap_eq [OF e' c(1), of out c] by (auto split: if_splits)
  then have c16: "8 dvd length c" "16 \<le> length c" by (simp_all add: length_ok_def)
  have run: "EVP_DecryptUpdate (aes_wrap_cipher True) e' out (In_At c) (length c) =
      obind (wrap_fn pad False (wrap_block e') iv out c (length c)) (\<lambda>(rv, obj). Ret (e', if rv = 0 \<or> rv > INT_MAX then Inl EVP_R_UPDATE_ERROR else Inr (rv, obj)))"
    using evp_wrap_eq [OF e' c(1), of out c] lok by simp
  show ?thesis
  proof (rule unwrap_fn_cases [OF b inv(2,1) iv c16 c(2,3)])
    fix p pt'
    assume q: "wrap_fn pad False (wrap_block e') iv out c (length c) = Ret (length p, pt')" "take (length p) pt' = p" "wrappable pad p" "wrapped pad (wrap_block e) iv p = c"
    have n: "n = length p" "take n pt = p" using ok run q(1,2) by (auto split: if_splits)
    have "EVP_EncryptUpdate (aes_wrap_cipher True) e out' (In_At p) (length p) = Ret (e, Inr (length c, c @ drop (length c) out'))" if "length c \<le> length out'" for out'
      using evp_wrap_eq [OF e wrappable_length_ok(2) [OF q(3)], of out' p] wrappable_length_ok(1) [OF q(3)] wrap_fn_wraps [OF b(1) iv q(3), of out'] q(4) that c(1,2) by simp
    then show ?thesis using n wrappable_length_ok(2) [OF q(3)] by simp
  next
    fix pt' assume "wrap_fn pad False (wrap_block e') iv out c (length c) = Ret (0, pt')"
    then show ?thesis using ok run by simp
  qed
qed

theorem unwrap_authentic_witness:
  "EVP_EncryptUpdate (aes_wrap_cipher True) (flip_wrap True True) (replicate 16 0) (In_At [7]) 1 =
     Ret (flip_wrap True True, Inr (16, [0xFC, 0x03, 0x03, 0xFC, 0x5A, 0x5A, 0x5A, 0x5B, 0x5D, 0x5A, 0x5A, 0x5A, 0x5A, 0x5A, 0x5A, 0x5A]))"
proof -
  let ?c = "[0xFC, 0x03, 0x03, 0xFC, 0x5A, 0x5A, 0x5A, 0x5B, 0x5D, 0x5A, 0x5A, 0x5A, 0x5A, 0x5A, 0x5A, 0x5A] :: byte list"
  have l16: "length ?c = 16" by simp
  have "open_padded flip_block ?c = ([0xA6, 0x59, 0x59, 0xA6, 0, 0, 0, 1], [7, 0, 0, 0, 0, 0, 0, 0])" by (simp add: open_padded_def flip_block_def)
  moreover have "padding_matches default_aiv ([0xA6, 0x59, 0x59, 0xA6, 0, 0, 0, 1], [7, 0, 0, 0, 0, 0, 0, 0])"
    by (simp add: padding_matches_def default_aiv_def be_value_def numeral_eq_Suc)
  ultimately have "wrap_fn True False flip_block None (replicate 16 0) ?c 16 = Ret (1, [7, 0, 0, 0, 0, 0, 0, 0] @ replicate 8 0)"
    using unwrap_pad_opens [OF flip_undoes(2), of 16 None ?c "replicate 16 0"] by (simp add: wrap_fn_def default_aiv_def be_value_def)
  then have d: "EVP_DecryptUpdate (aes_wrap_cipher True) (flip_wrap True False) (replicate 16 0) (In_At ?c) 16 =
      Ret (flip_wrap True False, Inr (1, [7, 0, 0, 0, 0, 0, 0, 0] @ replicate 8 0))"
    using evp_wrap_eq [OF flip_wrap_ready(1) [of False True], of 16 "replicate 16 0" ?c] flip_wrap_ready(2) [of True False] by (simp add: length_ok_def)
  have inv: "undoes 16 (wrap_block (flip_wrap True b)) (wrap_block (flip_wrap True b'))" for b b' unfolding flip_wrap_ready(2) by (rule flip_undoes)
  show ?thesis
    using unwrap_authentic [OF flip_wrap_ready(1) flip_wrap_ready(1) inv inv, of ?c "replicate 16 0" "flip_wrap True False" 1 "[7, 0, 0, 0, 0, 0, 0, 0] @ replicate 8 0"] d
    unfolding l16 by simp
qed

text \<open>
  C30: \<open>EVP_Cipher\<close> reports success for every input that cannot be unwrapped. The provider's function keeps the result -1 in an unsigned variable, takes it for a
  length and returns success; \<open>EVP_DecryptUpdate\<close> refuses that length, but \<open>EVP_Cipher\<close> returns the 1 it got, which is documented to mean success.
\<close>

theorem evp_cipher_hides_failure:
  assumes e: "wrap_ready False pad iv e" and c: "0 < length c" and bad: "EVP_DecryptUpdate (aes_wrap_cipher True) e out (In_At c) (length c) = Ret (e1, Inl err)"
  shows "\<exists>obj. EVP_Cipher None (aes_wrap_cipher True) (aes_wrap_final True) e out (In_At c) (length c) = Ret (e, 1, Some obj)"
proof -
  have "EVP_wrap_update False e out (In_At c) (length c) = Ret (e1, Inl err)" using bad by simp
  then show ?thesis
    unfolding evp_wrap_eq [OF e c] evp_cipher_eq [OF e c]
    by (cases "wrap_fn pad False (wrap_block e) iv out c (length c)") (auto split: if_splits)
qed

theorem evp_cipher_hides_failure_witness:
  "EVP_DecryptUpdate (aes_wrap_cipher True) (flip_wrap True False) (replicate 16 0) (In_At (replicate 16 0)) 16 = Ret (flip_wrap True False, Inl EVP_R_UPDATE_ERROR)
   \<and> (\<exists>obj. EVP_Cipher None (aes_wrap_cipher True) (aes_wrap_final True) (flip_wrap True False) (replicate 16 0) (In_At (replicate 16 0)) 16 = Ret (flip_wrap True False, 1, Some obj))"
proof -
  have "\<not> padding_matches default_aiv (open_padded flip_block (replicate 16 0))"
    by (simp add: padding_matches_def open_padded_def flip_block_def default_aiv_def numeral_eq_Suc)
  then have "\<exists>obj. wrap_fn True False flip_block None (replicate 16 0) (replicate 16 0) 16 = Ret (0, obj)"
    using unwrap_pad_opens [OF flip_undoes(2), of 16 None "replicate 16 0" "replicate 16 0"] length_open_padded [OF flip_undoes(2), of "replicate 16 0"]
    by (simp add: wrap_fn_def default_aiv_def Let_def cleanse_prefix)
  then have "EVP_DecryptUpdate (aes_wrap_cipher True) (flip_wrap True False) (replicate 16 0) (In_At (replicate 16 0)) 16 = Ret (flip_wrap True False, Inl EVP_R_UPDATE_ERROR)"
    using evp_wrap_eq [OF flip_wrap_ready(1) [of False True], of 16 "replicate 16 0" "replicate 16 0"] flip_wrap_ready(2) [of True False] by (auto simp: length_ok_def)
  then show ?thesis
    using evp_cipher_hides_failure [OF flip_wrap_ready(1) [of False True], of "replicate 16 0" "replicate 16 0"] by simp
qed

text \<open>
  C40: the length that \<open>CRYPTO_128_wrap_pad\<close> returns passes through an \<open>int\<close>. It is right up to a plaintext of \<open>2 ^ 31 - 16\<close> bytes; for the longer ones that the
  function accepts it is not below \<open>2 ^ 64 - 2 ^ 31\<close>.
\<close>

theorem wrap_pad_length_overflows:
  assumes "on_blocks 16 block" "0 < inlen" "inlen < CRYPTO128_WRAP_MAX" "4 \<le> length (given default_aiv icv)" "inlen \<le> length inp" "inlen + 15 \<le> length out"
  shows "\<exists>ret obj. CRYPTO_128_wrap_pad block icv out inp inlen = Ret (ret, obj)
    \<and> (if inlen + 16 \<le> CRYPTO128_WRAP_MAX then ret = (inlen + 7) div 8 * 8 + 8 else 2 ^ 64 - 2 ^ 31 \<le> ret)"
proof -
  let ?L = "length (pad8 (take inlen inp))"
  have L: "?L = (inlen + 7) div 8 * 8" "?L < inlen + 8" "inlen \<le> ?L" "8 dvd ?L" using length_pad8 [of "take inlen inp"] assms(5) by simp_all
  have r: "CRYPTO_128_wrap_pad block icv out inp inlen =
      Ret (through_int (?L + 8), wrap_padded block (given default_aiv icv) (take inlen inp) @ drop (?L + 8) out)"
    by (rule wrap_pad_spec [OF assms(1-5)]) (use L(2) assms(6) in linarith)
  show ?thesis
  proof (cases "inlen + 16 \<le> CRYPTO128_WRAP_MAX")
    case True
    then have "through_int (?L + 8) = ?L + 8" using L(2) by (intro through_int_small) simp
    then show ?thesis using r True L(1) by simp
  next
    case False
    obtain k where k: "?L = 8 * k" using L(4) by (rule dvdE)
    then have big: "2 ^ 31 \<le> ?L + 8" "?L + 8 < 2 ^ 32" using False L(2,3) assms(3) by simp_all
    show ?thesis using r False through_int_big [OF big] big(1) by simp
  qed
qed

theorem wrap_pad_length_overflows_witness:
  "\<exists>ret obj. CRYPTO_128_wrap_pad flip_block None (replicate 2147483662 0) (replicate 2147483647 0) 2147483647 = Ret (ret, obj) \<and> 2 ^ 64 - 2 ^ 31 \<le> ret"
  using wrap_pad_length_overflows [OF flip_undoes(2), of 2147483647 None "replicate 2147483647 0" "replicate 2147483662 0"] by (simp add: default_aiv_def)

text \<open>
  With an output buffer of the documented size, eight bytes less than the input, an input that cannot be unwrapped makes
  \<open>CRYPTO_128_unwrap_pad\<close> write outside it: it clears as many bytes as the input has.
\<close>

theorem unwrap_pad_clears_outside:
  assumes "on_blocks 16 dblock" "8 dvd inlen" "16 \<le> inlen" "inlen < CRYPTO128_WRAP_MAX" "4 \<le> length (given default_aiv icv)" "inlen \<le> length inp" "length out = inlen - 8"
    and bad: "\<not> padding_matches (given default_aiv icv) (open_padded dblock (take inlen inp))"
  shows "CRYPTO_128_unwrap_pad dblock icv out inp inlen = Undef"
proof -
  have "length (snd (open_padded dblock (take inlen inp))) = inlen - 8" using length_open_padded [OF assms(1), of "take inlen inp"] assms(2,3,6) by simp
  then have "OPENSSL_cleanse (snd (open_padded dblock (take inlen inp)) @ drop (inlen - 8) out) inlen = Undef"
    using assms(3,7) by (simp add: OPENSSL_cleanse_def)
  then show ?thesis using unwrap_pad_opens [OF assms(1-6)] assms(7) bad by (simp add: Let_def)
qed

end
