(* ===== verification/Spec2Isabelle.thy ===== *)
theory Spec2Isabelle
  imports Packet WPacket Stack LHash PQueue DTLS_Record DTLS_Frag Statem_Peer Statem_Run Version_Neg Quic_Keys TLS_Cipher Stream_Cipher Bit_Feedback Wrap_Cipher
begin

text \<open>
  A verification development for quictls, the fork of OpenSSL with a QUIC interface to the TLS handshake.
  File and function names below are relative to the repository.

  \<^bold>\<open>The program.\<close> libssl runs the handshake as a state machine (\<open>ssl/statem\<close>): a generic message
  flow (\<open>statem.c\<close>) asks the client or the server side (\<open>statem_clnt.c\<close>, \<open>statem_srvr.c\<close>) which message may
  come or go next, reads and writes messages through the record layer (\<open>ssl/record\<close>) or, under QUIC, through
  a queue that the application fills (\<open>ssl/ssl_quic.c\<close>, \<open>statem_quic.c\<close>), and negotiates the protocol
  version on the way (\<open>statem_lib.c\<close>). Messages are built with \<open>WPACKET\<close> (\<open>crypto/packet.c\<close>) and taken apart with
  \<open>PACKET\<close> (\<open>include/internal/packet.h\<close>). Beneath lie the containers of libcrypto: buffers
  (\<open>crypto/buffer\<close>), stacks (\<open>crypto/stack\<close>), hash tables (\<open>crypto/lhash\<close>) and the priority queue of DTLS
  (\<open>ssl/pqueue.c\<close>). Records are encrypted through the EVP interface (\<open>crypto/evp/evp_enc.c\<close>), which calls the generic
  block and stream ciphers of the providers (\<open>providers/implementations/ciphers/ciphercommon*.c\<close>); these cut the data into
  blocks, add and remove padding, and call the modes of operation (\<open>crypto/modes\<close>) and, for TLS records, the
  constant-time removal of padding and MAC (\<open>ssl/record/methods/tls_pad.c\<close>).

  \<^bold>\<open>Theories and what they model.\<close>
  \<^item> \<open>Prelude\<close>: C sizes with their wrap-around, the outcome type (\<open>Ret\<close>, \<open>Fail\<close> for the result 0, \<open>Undef\<close> for an
    access outside an object), network byte order, list lemmas.
  \<^item> \<open>Packet\<close>, \<open>Buffer\<close>, \<open>WPacket\<close>: the reader, the growing buffer and the writer. A reader of a fixed width is an
    instance of the locale \<open>net_reader\<close>, a reader of a vector of \<open>prefixed_reader\<close>, and whatever writes a
    known payload an instance of \<open>wpacket_writer\<close>, which is closed under sequence and nesting.
  \<^item> \<open>Stack\<close>, \<open>LHash\<close>, \<open>PQueue\<close>: the containers, with the array sizes and the integer arithmetic of the code, and
    their refinement of sequences and finite maps.
  \<^item> \<open>DTLS_Record\<close>: the reading side of \<open>ssl/record/methods/dtls_meth.c\<close>: replay window, epochs, both orders of
    MAC and encryption, buffering for the next epoch, the read loop.
  \<^item> \<open>DTLS_Read\<close>: \<open>dtls1_read_bytes\<close> of \<open>ssl/record/rec_layer_d1.c\<close>, which takes bytes from the records in hand, handles alerts and
    unexpected records, and queues what arrives between ChangeCipherSpec and Finished; its state is the connection of the state
    machine. Application data comes out as one stream; a record taken from the queue is never released.
  \<^item> \<open>DTLS_Frag\<close>: the reading half of \<open>ssl/statem/statem_dtls.c\<close> on top of it: fragments of handshake messages are put together under
    a bit mask of the bytes received, which is the set of their positions; the queue holds every message under its sequence number. A
    message is handed over exactly when it is complete, whatever the order of its fragments, and is the one that was sent.
  \<^item> \<open>Statem\<close>, \<open>Statem_Client\<close>, \<open>Statem_Server\<close>, \<open>Statem_Flow\<close>: the connection as the state machine sees it, the transitions,
    the work functions and tables of both sides, and the loops of \<open>statem.c\<close>. What the machine calls (the
    construction and processing of messages, the transport, callbacks) is the argument \<open>env\<close>.
  \<^item> \<open>Statem_Order\<close>, \<open>Statem_Peer\<close>, \<open>Statem_Run\<close>: the properties of the state machine: which orders of messages can
    reach Finished, that each side accepts the flights of the other once the hellos have settled the parameters (through retries and
    renegotiation too; the assumptions on the processing of messages are the predicates \<open>server13_process_ok\<close> and its three siblings), what the return values of the main
    function mean, and that a refused message ends the connection.
  \<^item> \<open>Version\<close>, \<open>Version_Neg\<close>: version negotiation on both sides with the supported_versions extension and the
    downgrade sentinels, and that it selects the highest common version and detects downgrades.
  \<^item> \<open>Quic\<close>, \<open>Quic_Stream\<close>, \<open>Quic_Keys\<close>: the QUIC interface, that the handshake stream is cut into the messages
    that were sent however it arrives, that levels are kept apart, and that both sides hand out the same
    traffic secrets.
  \<^item> \<open>Const_Time\<close>: the branch-free primitives of \<open>include/internal/constant_time.h\<close>; a comparison is an instance of the
    locale \<open>mask_test\<close>: its result is all ones or zero, according to the test it stands for.
  \<^item> \<open>CBC_Pad\<close>: the removal of padding and MAC from a decrypted record, and that it returns what a specification with
    branches does without an access outside the record.
  \<^item> \<open>Cipher_Modes\<close>, \<open>Stream_Modes\<close>: CBC and ECB, and CTR, OFB and CFB with 128 or 8 bits, over an arbitrary block function. A mode that
    works on whole blocks is an instance of \<open>block_mode\<close>, one that can stop anywhere of \<open>stream_ctx\<close>, which
    is a \<open>resumable\<close> operation.
  \<^item> \<open>Block_Cipher\<close>, \<open>EVP_Cipher\<close>: the provider's initialisation, update and final functions, proved for every \<open>block_mode\<close>, and
    the EVP calls on top: the output does not depend on how the data is cut into calls, decryption undoes encryption, and
    every malformed input gives the error it should.
  \<^item> \<open>TLS_Cipher\<close>, \<open>Stream_Cipher\<close>: the round trip of a TLS record through padding, encryption, decryption and removal of
    padding and MAC; the same independence and round trip for the stream modes, the equivalence of the two counter
    modes, and three faults.
  \<^item> \<open>Bit_Feedback\<close>: cipher feedback of single bits, with its round trip, and the counter increment of big-endian machines.
  \<^item> \<open>Key_Wrap\<close>, \<open>Wrap_Cipher\<close>: wrapping of keys (\<open>crypto/modes/wrap128.c\<close>) and its provider cipher (\<open>cipher_aes_wrp.c\<close>): the passes over the array are
    passes over a sequence of blocks, which are undone in reverse order; what is wrapped is unwrapped, nothing else
    is, and \<open>EVP_Cipher\<close> does not report a failure.
  \<^item> this theory: properties that span components.

  \<^bold>\<open>How the code is represented.\<close> A C structure is a record with the fields the modelled functions touch; memory
  objects are lists, and an access outside one is \<open>Undef\<close>, so that an equation with \<open>Ret\<close> also says that the
  code stays inside its objects. Allocation is a parameter that says which requests succeed. Integers keep
  their width where overflow or bit patterns matter (\<open>word\<close> types, \<open>sz_add\<close>, the checked arithmetic of
  \<open>include/internal/safe_math.h\<close>). A loop with an obvious measure is a terminating function; the loops of the
  message flow and of the record layer, which run as long as their parameters let them, are
  \<open>partial_function (option)\<close>, where \<open>None\<close> means that the call does not return. Reading from DTLS
  records goes through the label \<open>start\<close> a number of times that is an argument (\<open>fuel\<close>): the properties say how many passes
  are enough, one or two, or that none are; a fragment that is thrown away is read in at most as many steps as it has bytes. Code outside the
  modelled files (cryptography, transport, callbacks) is a parameter; what a property needs of it is a named
  hypothesis, and the witness of the property instantiates it.

  In the ciphers an operation takes whether input and output are the same object, since the code behaves differently then; the
  block function, its key schedule and the accelerated routines are fields of the context, and what is assumed of them is that they
  map blocks to blocks (\<open>on_blocks\<close>), that one inverts the other (\<open>undoes\<close>), or that a routine counts in 32 bits as documented
  (\<open>counts_in_32_bits\<close>). The 64-bit build for a little-endian machine is modelled (\<open>size_t\<close> has 64 bits, plain \<open>char\<close> is signed).

  \<^bold>\<open>Not modelled.\<close> The cryptographic kernels (numeric and often assembler code, called through
  method tables), the authenticated and storage modes, the fetching of algorithms and the code for ciphers without a provider,
  X.509 and ASN.1 (driven by generated templates), BIO and the configuration modules (input and
  output), the bodies of most handshake messages and extensions (bound to sessions and cryptography), record
  writing, sessions and the option interface of libssl, and the programs, tests and bindings around them. The
  manifest lists these parts with their reasons. What is left of the modelled
  files and could be added is the functions of \<open>statem_lib.c\<close> that process single messages, and the sending and
  retransmission of DTLS flights.
\<close>

section \<open>Writing and reading back\<close>

lemma packet_of_bytes:
  "length bs < SIZE_MOD \<Longrightarrow> packet_wf \<lparr>p_curr = bs, p_remaining = length bs\<rparr>
     \<and> packet_bytes \<lparr>p_curr = bs, p_remaining = length bs\<rparr> = bs"
  by (simp add: packet_wf_def packet_bytes_def)

text \<open>
  C35: a vector written with a two-byte length is memory safe to write, leaves what was written
  before in place, and is read back unchanged by the packet reader, which then has nothing left.
\<close>

theorem sub_memcpy_u16_roundtrip:
  assumes wf: "wpacket_wf p" and open_sub: "w_subs p \<noteq> []" and fwd: "\<not> w_endfirst p" and obj: "has_obj p"
    and wr: "WPACKET_sub_memcpy m p src 2 = Ret (True, p')" and fits: "length src < 65536"
  shows "wpacket_wf p' \<and> take (w_written p) (wpacket_bytes p') = wpacket_bytes p
    \<and> (\<exists>sub rest. PACKET_get_length_prefixed_2
          \<lparr>p_curr = drop (w_written p) (wpacket_bytes p'), p_remaining = w_written p' - w_written p\<rparr>
        = Ret (sub, rest) \<and> packet_bytes sub = src \<and> p_remaining rest = 0)"
proof -
  let ?bs = "be_bytes 2 (length src) @ src"
  have ext: "wpacket_ext p ?bs p'"
    using sub_memcpy.op_spec [OF wf open_sub, of m src 2] wr fwd by (auto simp: sub_payload_def)
  have len: "length (wpacket_bytes p) = w_written p" by (rule length_wpacket_bytes [OF wf obj])
  have bytes: "wpacket_bytes p' = wpacket_bytes p @ ?bs" "w_written p' = w_written p + length ?bs" "wpacket_wf p'"
    using ext obj fwd by (simp_all add: wpacket_ext_def del: be_bytes.simps)
  let ?pkt = "\<lparr>p_curr = ?bs, p_remaining = length ?bs\<rparr>"
  have "length ?bs < SIZE_MOD" using fits by simp
  note pk = packet_of_bytes [OF this]
  have "\<exists>sub rest. PACKET_get_length_prefixed_2 ?pkt = Ret (sub, rest) \<and> packet_bytes sub = src
      \<and> packet_bytes rest = [] \<and> packet_wf sub \<and> packet_wf rest"
    by (rule prefixed_2.getp_encoded) (use pk fits in \<open>simp_all del: be_bytes.simps\<close>)
  then show ?thesis
    using bytes len length_packet_bytes by (fastforce simp del: be_bytes.simps)
qed

theorem sub_memcpy_u16_roundtrip_witness:
  "\<exists>p p' sub rest. WPACKET_init_static_len \<lparr>m_ok = (\<lambda>_. True), m_junk = (\<lambda>_. 0)\<rparr>
        \<lparr>w_buf = None, w_staticbuf = None, w_curr = 0, w_written = 0, w_maxsize = 0, w_subs = [], w_endfirst = False\<rparr>
        (Some (replicate 16 0)) 16 0 = (True, p)
    \<and> WPACKET_sub_memcpy \<lparr>m_ok = (\<lambda>_. True), m_junk = (\<lambda>_. 0)\<rparr> p [1, 2, 3] 2 = Ret (True, p')
    \<and> PACKET_get_length_prefixed_2
          \<lparr>p_curr = drop (w_written p) (wpacket_bytes p'), p_remaining = w_written p' - w_written p\<rparr>
        = Ret (sub, rest) \<and> packet_bytes sub = [1, 2, 3]"
proof -
  let ?m = "\<lparr>m_ok = (\<lambda>_. True), m_junk = (\<lambda>_. 0)\<rparr>"
  let ?w = "\<lparr>w_buf = None, w_staticbuf = None, w_curr = 0, w_written = 0, w_maxsize = 0, w_subs = [], w_endfirst = False\<rparr>"
  obtain p where p: "WPACKET_init_static_len ?m ?w (Some (replicate 16 0)) 16 0 = (True, p)"
    by (simp add: WPACKET_init_static_len_def wpacket_intern_init_len_def Let_def)
  have fr: "fresh_writer 0 p" "\<not> w_endfirst p" "has_obj p" "w_buf p = None" "w_maxsize p = 16"
    using WPACKET_init_static_len_fresh [OF p] by (simp_all add: maxmaxsize_def)
  then have wf: "wpacket_wf p" "w_subs p \<noteq> []" "w_written p = 0" by (simp_all add: fresh_writer_def)
  obtain p' where p': "WPACKET_sub_memcpy ?m p [1, 2, 3] 2 = Ret (True, p')"
    using sub_memcpy.op_succeeds [OF wf(1,2) fr(4), of ?m 2 "[1, 2, 3]"] fr wf by (auto simp: sub_payload_def)
  have "length [1, 2, 3 :: byte] < 65536" by simp
  from sub_memcpy_u16_roundtrip [OF wf(1,2) fr(2,3) p' this] show ?thesis using p p' by blast
qed

end
